(* ===== verification/Prelude.thy ===== *)
theory Prelude
  imports Main "HOL-Library.AList" "HOL-Library.Char_ord" "HOL-Library.List_Lexorder"
begin

text \<open>
  Shared ground of the development: how the JavaScript values that the modelled
  TypeScript manipulates are represented, and the generic lemmas the components use.

  \<^item> A JavaScript \<open>Map\<close> (and a plain object used as a dictionary) is an association list
    in insertion order, \<open>('k, 'v) jmap\<close>.  \<open>jput\<close> overwrites in place or appends, which is
    what \<open>Map.prototype.set\<close> does, \<open>jdrop\<close> is \<open>delete\<close>, \<open>map_of\<close> is \<open>get\<close>.
  \<^item> A JavaScript \<open>Set\<close> whose order is never observed is a list without duplicates.
  \<^item> A string is a list of characters, one per UTF-16 code unit below 256.  The ids, stage
    names and tool names of the program are ASCII; \<open>sort\<close> on strings is \<open>Array.sort\<close>'s
    default code-unit order.
  \<^item> A decoded JSON value is \<open>json\<close>.  A number is kept as its canonical text: the modelled
    code only ever compares numbers with \<open>===\<close> and prints them, and two finite numbers are
    \<open>===\<close> exactly when they print alike.  An object lists its members in enumeration order.
\<close>

subsection \<open>Collections of rules\<close>

named_theorems jmap_simps \<open>lookup and key rules for insertion-ordered maps\<close>
named_theorems graph_intros \<open>acyclicity of the run graph under its updates\<close>
named_theorems policy_defs \<open>the branches of the policy decision\<close>
named_theorems hub_simps \<open>field updates of the idle-wake hub\<close>

subsection \<open>Insertion-ordered maps\<close>

type_synonym ('k, 'v) jmap = "('k \<times> 'v) list"

abbreviation jput :: "'k \<Rightarrow> 'v \<Rightarrow> ('k, 'v) jmap \<Rightarrow> ('k, 'v) jmap" where
  "jput \<equiv> AList.update"

abbreviation jdrop :: "'k \<Rightarrow> ('k, 'v) jmap \<Rightarrow> ('k, 'v) jmap" where
  "jdrop \<equiv> AList.delete"

abbreviation jkeys :: "('k, 'v) jmap \<Rightarrow> 'k list" where
  "jkeys m \<equiv> map fst m"

abbreviation jvals :: "('k, 'v) jmap \<Rightarrow> 'v list" where
  "jvals m \<equiv> map snd m"

definition jhas :: "('k, 'v) jmap \<Rightarrow> 'k \<Rightarrow> bool" where
  "jhas m k \<longleftrightarrow> map_of m k \<noteq> None"

text \<open>A map as the program can build one: no key twice.\<close>

definition jmap_ok :: "('k, 'v) jmap \<Rightarrow> bool" where
  "jmap_ok m \<longleftrightarrow> distinct (jkeys m)"

text \<open>\<open>Object.assign\<close> and the spread \<open>{...a, ...b}\<close>: the second map's entries, in order, over the first.\<close>

definition jmerge :: "('k, 'v) jmap \<Rightarrow> ('k, 'v) jmap \<Rightarrow> ('k, 'v) jmap" where
  "jmerge a b = fold (\<lambda>(k, v) m. jput k v m) b a"

text \<open>Apply a function to every value, keeping keys and order.\<close>

definition jmap_vals :: "('v \<Rightarrow> 'w) \<Rightarrow> ('k, 'v) jmap \<Rightarrow> ('k, 'w) jmap" where
  "jmap_vals f m = map (\<lambda>(k, v). (k, f v)) m"

lemma map_of_jput [jmap_simps]:
  "map_of (jput k v m) x = (if x = k then Some v else map_of m x)"
  by (simp add: update_conv)

lemma map_of_jdrop [jmap_simps]:
  "map_of (jdrop k m) x = (if x = k then None else map_of m x)"
  by (simp add: delete_conv)

lemma jkeys_jput: "set (jkeys (jput k v m)) = insert k (set (jkeys m))"
  by (auto simp: update_keys)

lemma dom_jput [simp]: "fst ` set (jput k v m) = insert k (fst ` set m)"
  using jkeys_jput [of k v m] by simp

lemma jkeys_jdrop: "set (jkeys (jdrop k m)) = set (jkeys m) - {k}"
  by (auto simp: delete_keys)

lemma jhas_iff: "jhas m k \<longleftrightarrow> k \<in> set (jkeys m)"
  by (simp add: jhas_def map_of_eq_None_iff)

lemma jhas_Some: "map_of m k = Some v \<Longrightarrow> jhas m k"
  by (simp add: jhas_def)

lemma jhas_obtain: "jhas m k \<longleftrightarrow> (\<exists>v. map_of m k = Some v)"
  by (auto simp: jhas_def)

lemma jhas_Nil [simp]: "\<not> jhas [] k"
  by (simp add: jhas_def)

lemma jhas_jput [simp]: "jhas (jput k v m) x \<longleftrightarrow> x = k \<or> jhas m x"
  by (simp add: jhas_def map_of_jput)

lemma jhas_jdrop [simp]: "jhas (jdrop k m) x \<longleftrightarrow> x \<noteq> k \<and> jhas m x"
  by (simp add: jhas_def map_of_jdrop)

lemma map_of_jmerge:
  "map_of (jmerge a b) x = (case map_of (rev b) x of None \<Rightarrow> map_of a x | Some v \<Rightarrow> Some v)"
proof (induction b arbitrary: a)
  case Nil
  then show ?case by (simp add: jmerge_def)
next
  case (Cons p b)
  obtain k v where p: "p = (k, v)" by fastforce
  have "map_of (jmerge a (p # b)) x = map_of (jmerge (jput k v a) b) x"
    by (simp add: jmerge_def p)
  also have "\<dots> = (case map_of (rev b) x of None \<Rightarrow> map_of (jput k v a) x | Some w \<Rightarrow> Some w)"
    by (rule Cons.IH)
  finally show ?case
    by (simp add: p map_add_def map_of_jput split: option.splits)
qed

lemma jkeys_jmap_vals [simp]: "jkeys (jmap_vals f m) = jkeys m"
  by (induction m) (auto simp: jmap_vals_def)

lemma map_of_jmap_vals [jmap_simps]:
  "map_of (jmap_vals f m) x = map_option f (map_of m x)"
  by (induction m) (auto simp: jmap_vals_def)

lemma jmap_ok_jput [intro]: "jmap_ok m \<Longrightarrow> jmap_ok (jput k v m)"
  by (simp add: jmap_ok_def distinct_update)

lemma jmap_ok_jdrop [intro]: "jmap_ok m \<Longrightarrow> jmap_ok (jdrop k m)"
  by (simp add: jmap_ok_def distinct_delete)

lemma jmap_ok_Nil [simp, intro]: "jmap_ok []"
  by (simp add: jmap_ok_def)

lemma jmap_ok_vals [simp]: "jmap_ok (jmap_vals f m) = jmap_ok m"
  by (simp add: jmap_ok_def)

lemma map_of_in_jvals: "map_of m k = Some v \<Longrightarrow> v \<in> set (jvals m)"
  by (force dest: map_of_SomeD)

lemma jput_fresh: "k \<notin> fst ` set m \<Longrightarrow> jput k v m = m @ [(k, v)]"
  by (induction m) auto

lemma jput_new: "\<not> jhas m k \<Longrightarrow> jput k v m = m @ [(k, v)]"
  by (intro jput_fresh) (simp add: jhas_def map_of_eq_None_iff)

lemma jdrop_absent: "k \<notin> fst ` set m \<Longrightarrow> jdrop k m = m"
  by (induction m) auto

lemma jdrop_middle:
  "k \<notin> fst ` set pre \<Longrightarrow> k \<notin> fst ` set post \<Longrightarrow> jdrop k (pre @ (k, v) # post) = pre @ post"
  by (induction pre) (auto simp: jdrop_absent)

lemma jput_split:
  assumes "map_of m k = Some v"
  obtains pre post where "m = pre @ (k, v) # post" "\<And>w. jput k w m = pre @ (k, w) # post" "k \<notin> fst ` set pre"
proof -
  have "\<exists>pre post. m = pre @ (k, v) # post \<and> k \<notin> fst ` set pre"
    using assms
  proof (induction m)
    case (Cons x m)
    show ?case
    proof (cases "fst x = k")
      case True
      with Cons.prems show ?thesis by (cases x) (auto intro: exI [of _ "[]"])
    next
      case False
      with Cons obtain pre post where "m = pre @ (k, v) # post" "k \<notin> fst ` set pre" by (cases x) auto
      with False show ?thesis by (intro exI [of _ "x # pre"] exI [of _ post]) auto
    qed
  qed simp
  then obtain pre post where x: "m = pre @ (k, v) # post" "k \<notin> fst ` set pre" by blast
  then have "jput k w m = pre @ (k, w) # post" for w
    unfolding x(1) using x(2) by (induction pre) auto
  from that [OF x(1) this x(2)] show thesis .
qed

lemma set_jput_cases: "(x, y) \<in> set (jput k v m) \<Longrightarrow> x = k \<and> y = v \<or> (x, y) \<in> set m"
  by (induction m) (auto split: if_splits)

lemma jput_jput_same [simp]: "jput k v (jput k w m) = jput k v m"
  by (induction m) auto

subsection \<open>Decoded JSON\<close>

datatype json =
    JNull
  | JBool bool
  | JNum string
  | JStr string
  | JArr "json list"
  | JObj "(string \<times> json) list"

text \<open>An argument object: its own members, \<open>None\<close> for \<open>undefined\<close> or absent.\<close>

type_synonym args = "(string \<times> json) list"

text \<open>\<open>isRecord\<close> and \<open>asRecord\<close>, the narrowing helpers repeated at the foot of each module.\<close>

fun isRecord :: "json \<Rightarrow> bool" where
  "isRecord (JObj _) = True"
| "isRecord _ = False"

fun asRecord :: "json option \<Rightarrow> args" where
  "asRecord (Some (JObj kvs)) = kvs"
| "asRecord _ = []"

text \<open>\<open>typeof v === 'string' ? v : ''\<close>.\<close>

fun str_or_empty :: "json option \<Rightarrow> string" where
  "str_or_empty (Some (JStr s)) = s"
| "str_or_empty _ = []"

text \<open>\<open>typeof v === 'string'\<close> with the string, and the same for a non-empty one.\<close>

fun as_str :: "json option \<Rightarrow> string option" where
  "as_str (Some (JStr s)) = Some s"
| "as_str _ = None"

definition nonempty_str :: "json option \<Rightarrow> string option" where
  "nonempty_str v = (case as_str v of Some s \<Rightarrow> if s = [] then None else Some s | None \<Rightarrow> None)"

text \<open>The string-valued members of an object, in order.\<close>

fun string_members :: "args \<Rightarrow> (string, string) jmap" where
  "string_members [] = []"
| "string_members ((k, JStr s) # kvs) = (k, s) # string_members kvs"
| "string_members (_ # kvs) = string_members kvs"

lemma as_str_Some [simp]: "as_str v = Some s \<longleftrightarrow> v = Some (JStr s)"
  by (cases "v" rule: as_str.cases) auto

lemma nonempty_str_Some [simp]: "nonempty_str v = Some s \<longleftrightarrow> v = Some (JStr s) \<and> s \<noteq> []"
  by (auto simp: nonempty_str_def split: option.splits)

lemma nonempty_str_JStr [simp]: "nonempty_str (Some (JStr s)) = (if s = [] then None else Some s)"
  by (simp add: nonempty_str_def)

lemma string_members_set:
  "(k, s) \<in> set (string_members kvs) \<longleftrightarrow> (k, JStr s) \<in> set kvs"
  by (induction kvs rule: string_members.induct) auto

lemma string_members_keys: "set (jkeys (string_members kvs)) \<subseteq> set (jkeys kvs)"
  by (induction kvs rule: string_members.induct) auto

lemma notin_string_members: "k \<notin> set (jkeys kvs) \<Longrightarrow> k \<notin> set (jkeys (string_members kvs))"
  using string_members_keys [of kvs] by blast

lemma distinct_string_members:
  "distinct (jkeys kvs) \<Longrightarrow> distinct (jkeys (string_members kvs))"
proof (induction kvs)
  case (Cons p kvs)
  obtain k v where p: "p = (k, v)" by fastforce
  with Cons notin_string_members [of k kvs] show ?case by (cases v) simp_all
qed simp

lemma map_of_string_members:
  "distinct (jkeys kvs) \<Longrightarrow> map_of (string_members kvs) k = as_str (map_of kvs k)"
proof (induction kvs)
  case (Cons p kvs)
  obtain k' v where p: "p = (k', v)" by fastforce
  have out: "map_of kvs k' = None" "map_of (string_members kvs) k' = None"
    using Cons.prems notin_string_members [of k' kvs] by (simp_all add: p map_of_eq_None_iff)
  show ?case
    using Cons out by (cases v) (auto simp: p)
qed simp

subsection \<open>Reading a plain object by a computed key\<close>

text \<open>
  \<open>obj[key]\<close> on an object literal finds \<open>Object.prototype\<close>'s members too: a key such as
  \<open>constructor\<close> that the object does not own reads an inherited, truthy value.  The three
  outcomes are kept apart where the key is free text.
\<close>

datatype 'a js_ref = Missing | Inherited | Own 'a

definition object_prototype_names :: "string list" where
  "object_prototype_names =
     [''constructor'', ''hasOwnProperty'', ''isPrototypeOf'', ''propertyIsEnumerable'',
      ''toLocaleString'', ''toString'', ''valueOf'', ''__proto__'', ''__defineGetter__'',
      ''__defineSetter__'', ''__lookupGetter__'', ''__lookupSetter__'']"

definition js_index :: "(string, 'a) jmap \<Rightarrow> string \<Rightarrow> 'a js_ref" where
  "js_index m k = (case map_of m k of Some v \<Rightarrow> Own v
     | None \<Rightarrow> if k \<in> set object_prototype_names then Inherited else Missing)"

lemma js_index_Own [simp]: "js_index m k = Own v \<longleftrightarrow> map_of m k = Some v"
  by (auto simp: js_index_def split: option.splits)

lemma js_index_Missing: "js_index m k = Missing \<longleftrightarrow> map_of m k = None \<and> k \<notin> set object_prototype_names"
  by (auto simp: js_index_def split: option.splits)

lemma js_index_of_Some: "map_of m k = Some v \<Longrightarrow> js_index m k = Own v"
  by simp

subsection \<open>Strings\<close>

abbreviation dquote :: string where "dquote \<equiv> [CHR 0x22]"

fun starts_with :: "string \<Rightarrow> string \<Rightarrow> bool" where
  "starts_with s [] = True"
| "starts_with [] (p # ps) = False"
| "starts_with (c # cs) (p # ps) = (c = p \<and> starts_with cs ps)"

lemma starts_with_iff: "starts_with s p \<longleftrightarrow> (\<exists>r. s = p @ r)"
  by (induction s p rule: starts_with.induct) auto

fun js_join :: "string \<Rightarrow> string list \<Rightarrow> string" where
  "js_join sep [] = []"
| "js_join sep [x] = x"
| "js_join sep (x # y # xs) = x @ sep @ js_join sep (y # xs)"

text \<open>White space as \<open>trim\<close> sees it, among the code units below 256.\<close>

definition js_space :: "char \<Rightarrow> bool" where
  "js_space c \<longleftrightarrow> c \<in> {CHR 0x09, CHR 0x0A, CHR 0x0B, CHR 0x0C, CHR 0x0D, CHR 0x20, CHR 0xA0}"

definition js_blank :: "string \<Rightarrow> bool" where
  "js_blank s \<longleftrightarrow> list_all js_space s"

definition js_trim :: "string \<Rightarrow> string" where
  "js_trim s = rev (dropWhile js_space (rev (dropWhile js_space s)))"

text \<open>\<open>indexOf(c)\<close>: the first position of a character.\<close>

fun index_of :: "char \<Rightarrow> string \<Rightarrow> nat option" where
  "index_of c [] = None"
| "index_of c (x # xs) = (if x = c then Some 0 else map_option Suc (index_of c xs))"

lemma index_of_Some:
  "index_of c s = Some i \<Longrightarrow> i < length s \<and> s ! i = c \<and> c \<notin> set (take i s)"
  by (induction s arbitrary: i) (auto split: if_splits)

lemma index_of_None: "index_of c s = None \<longleftrightarrow> c \<notin> set s"
  by (induction s) auto

text \<open>\<open>JSON.stringify\<close>, on the characters of the model.\<close>

definition hex_digit :: "nat \<Rightarrow> char" where
  "hex_digit n = (if n < 10 then char_of (48 + n) else char_of (87 + n))"

definition json_char :: "char \<Rightarrow> string" where
  "json_char c =
     (if c = CHR 0x22 then [CHR 0x5C, CHR 0x22]
      else if c = CHR 0x5C then [CHR 0x5C, CHR 0x5C]
      else if c = CHR 0x08 then [CHR 0x5C, CHR ''b'']
      else if c = CHR 0x09 then [CHR 0x5C, CHR ''t'']
      else if c = CHR 0x0A then [CHR 0x5C, CHR ''n'']
      else if c = CHR 0x0C then [CHR 0x5C, CHR ''f'']
      else if c = CHR 0x0D then [CHR 0x5C, CHR ''r'']
      else if (of_char c :: nat) < 32 then
        [CHR 0x5C, CHR ''u'', CHR ''0'', CHR ''0'',
         hex_digit ((of_char c :: nat) div 16), hex_digit ((of_char c :: nat) mod 16)]
      else [c])"

definition json_string :: "string \<Rightarrow> string" where
  "json_string s = dquote @ concat (map json_char s) @ dquote"

fun stringify :: "json \<Rightarrow> string" where
  "stringify JNull = ''null''"
| "stringify (JBool b) = (if b then ''true'' else ''false'')"
| "stringify (JNum n) = n"
| "stringify (JStr s) = json_string s"
| "stringify (JArr xs) = ''['' @ js_join '','' (map stringify xs) @ '']''"
| "stringify (JObj kvs) =
     ''{'' @ js_join '','' (map (\<lambda>(k, v). json_string k @ '':'' @ stringify v) kvs) @ ''}''"

text \<open>\<open>String(v)\<close>, as the template literals of the error messages apply it.\<close>

fun js_String :: "json option \<Rightarrow> string" where
  "js_String None = ''undefined''"
| "js_String (Some JNull) = ''null''"
| "js_String (Some (JBool b)) = (if b then ''true'' else ''false'')"
| "js_String (Some (JNum n)) = n"
| "js_String (Some (JStr s)) = s"
| "js_String (Some (JArr xs)) =
     js_join '','' (map (\<lambda>x. if x = JNull then [] else js_String (Some x)) xs)"
| "js_String (Some (JObj _)) = ''[object Object]''"

subsection \<open>Generic list facts\<close>

lemma find_Some_filter: "List.find P xs = (case filter P xs of [] \<Rightarrow> None | x # _ \<Rightarrow> Some x)"
  by (induction xs) auto

lemma find_SomeD: "List.find P xs = Some x \<Longrightarrow> x \<in> set xs \<and> P x"
  by (induction xs) (auto split: if_splits)

lemma find_None_iff2: "List.find P xs = None \<longleftrightarrow> (\<forall>x \<in> set xs. \<not> P x)"
  by (induction xs) auto

lemma find_unique:
  assumes "x \<in> set xs" "P x" "\<And>y. y \<in> set xs \<Longrightarrow> P y \<Longrightarrow> y = x"
  shows "List.find P xs = Some x"
proof (cases "List.find P xs")
  case None
  with assms(1,2) show ?thesis unfolding find_None_iff2 by blast
next
  case (Some z)
  with assms(3) [of z] show ?thesis by (simp add: find_SomeD)
qed

lemma hd_filter_mem: "filter P xs = x # ys \<Longrightarrow> x \<in> set xs \<and> P x"
  by (metis filter_set list.set_intros(1) Set.filter_eq mem_Collect_eq)

end
