(* ===== verification/RunGraph.thy ===== *)
theory RunGraph
  imports Prelude
begin

text \<open>
  The union-find over the run graph of \<open>src/playbookLedger.ts\<close> (\<open>find\<close>, \<open>union\<close>): a parent map
  whose missing or self-pointing entries are roots.  The loop of \<open>find\<close> walks to a root and then
  compresses the path.  The walk takes fuel \<open>length parent + 1\<close>; \<open>walk_enough\<close> shows that on an
  acyclic parent map it always reaches a root before the fuel is spent, and \<open>uf_ok\<close>
  (acyclicity) is kept by both operations.  The interface the ledger builds on is the locale
  \<open>partition\<close>, interpreted on these operations.
\<close>

subsection \<open>The operations\<close>

type_synonym parents = "(string, string) jmap"

text \<open>\<open>while (parent.get(cur) !== undefined && parent.get(cur) !== cur) { seen.push(cur); cur = ... }\<close>\<close>

fun walk :: "nat \<Rightarrow> parents \<Rightarrow> string \<Rightarrow> string list \<Rightarrow> (string \<times> string list) option" where
  "walk 0 par cur seen = None"
| "walk (Suc n) par cur seen =
     (case map_of par cur of
        None \<Rightarrow> Some (cur, seen)
      | Some q \<Rightarrow> if q = cur then Some (cur, seen) else walk n par q (seen @ [cur]))"

definition compress :: "string \<Rightarrow> string list \<Rightarrow> parents \<Rightarrow> parents" where
  "compress r seen par = fold (\<lambda>s m. jput s r m) seen par"

definition uf_find :: "parents \<Rightarrow> string \<Rightarrow> string \<times> parents" where
  "uf_find par sid =
     (case walk (Suc (length par)) par sid [] of
        Some (r, seen) \<Rightarrow> (r, compress r seen par)
      | None \<Rightarrow> (sid, par))"

definition uf_root :: "parents \<Rightarrow> string \<Rightarrow> string" where
  "uf_root par sid = fst (uf_find par sid)"

definition uf_touch :: "string \<Rightarrow> parents \<Rightarrow> parents" where
  "uf_touch a par = (if jhas par a then par else jput a a par)"

definition uf_union :: "string \<Rightarrow> string \<Rightarrow> parents \<Rightarrow> parents" where
  "uf_union a b par =
     (let par0 = uf_touch b (uf_touch a par);
          (ra, par1) = uf_find par0 a;
          (rb, par2) = uf_find par1 b
      in if ra \<noteq> rb then jput rb ra par2 else par2)"

subsection \<open>The graph behind a parent map\<close>

definition uf_edges :: "parents \<Rightarrow> (string \<times> string) set" where
  "uf_edges par = {(s, q). map_of par s = Some q \<and> q \<noteq> s}"

definition uf_ok :: "parents \<Rightarrow> bool" where
  "uf_ok par \<longleftrightarrow> acyclic (uf_edges par)"

definition rooted :: "parents \<Rightarrow> string \<Rightarrow> string \<Rightarrow> bool" where
  "rooted par x r \<longleftrightarrow> (x, r) \<in> (uf_edges par)\<^sup>* \<and> r \<notin> Domain (uf_edges par)"

lemma uf_edges_single_valued: "single_valued (uf_edges par)"
  by (auto simp: single_valued_def uf_edges_def)

lemma rooted_unique: "rooted par x r \<Longrightarrow> rooted par x r' \<Longrightarrow> r = r'"
  unfolding rooted_def
  using single_valued_confluent [OF uf_edges_single_valued, of x r par r']
  by (auto elim: converse_rtranclE)

lemma rooted_self: "rooted par x x \<longleftrightarrow> x \<notin> Domain (uf_edges par)"
  by (simp add: rooted_def)

lemma rooted_step: "(x, q) \<in> uf_edges par \<Longrightarrow> rooted par q r \<Longrightarrow> rooted par x r"
  unfolding rooted_def by (blast intro: converse_rtrancl_into_rtrancl)

lemma uf_reach_values: "(uf_edges par)\<^sup>+ `` {x} \<subseteq> set (jvals par)"
proof
  fix y assume "y \<in> (uf_edges par)\<^sup>+ `` {x}"
  then obtain z where "(z, y) \<in> uf_edges par" by (auto elim: trancl.cases)
  then show "y \<in> set (jvals par)" by (auto simp: uf_edges_def dest: map_of_in_jvals)
qed

lemma finite_uf_reach: "finite ((uf_edges par)\<^sup>+ `` {x})"
  using uf_reach_values by (rule finite_subset) simp

lemma card_uf_reach: "card ((uf_edges par)\<^sup>+ `` {x}) \<le> length par"
  using card_mono [OF _ uf_reach_values [of par x]] card_length [of "jvals par"] by fastforce

subsection \<open>The walk ends at the root\<close>

lemma walk_enough:
  assumes "uf_ok par" and "card ((uf_edges par)\<^sup>+ `` {cur}) < n"
  shows "\<exists>r seen'. walk n par cur seen = Some (r, seen @ seen') \<and> rooted par cur r
           \<and> (\<forall>s \<in> set seen'. (s, r) \<in> (uf_edges par)\<^sup>+)"
  using assms(2)
proof (induction n arbitrary: cur seen)
  case (Suc n)
  show ?case
  proof (cases "\<exists>q. (cur, q) \<in> uf_edges par")
    case False
    then have "walk (Suc n) par cur seen = Some (cur, seen @ [])"
      by (auto simp: uf_edges_def split: option.splits)
    moreover have "rooted par cur cur" using False by (auto simp: rooted_self)
    ultimately show ?thesis by fastforce
  next
    case True
    then obtain q where q: "(cur, q) \<in> uf_edges par" by blast
    then have step: "walk (Suc n) par cur seen = walk n par q (seen @ [cur])"
      by (auto simp: uf_edges_def)
    have "(uf_edges par)\<^sup>+ `` {q} \<subset> (uf_edges par)\<^sup>+ `` {cur}"
    proof (rule psubsetI)
      show "(uf_edges par)\<^sup>+ `` {q} \<subseteq> (uf_edges par)\<^sup>+ `` {cur}"
        using q by (auto intro: trancl_into_trancl2)
      have "q \<in> (uf_edges par)\<^sup>+ `` {cur}" "q \<notin> (uf_edges par)\<^sup>+ `` {q}"
        using q assms(1) by (auto simp: uf_ok_def acyclic_def)
      then show "(uf_edges par)\<^sup>+ `` {q} \<noteq> (uf_edges par)\<^sup>+ `` {cur}" by blast
    qed
    then have "card ((uf_edges par)\<^sup>+ `` {q}) < card ((uf_edges par)\<^sup>+ `` {cur})"
      by (rule psubset_card_mono [OF finite_uf_reach])
    then have "card ((uf_edges par)\<^sup>+ `` {q}) < n"
      using Suc.prems by simp
    from Suc.IH [OF this, of "seen @ [cur]"] obtain r seen' where
      r: "walk n par q (seen @ [cur]) = Some (r, (seen @ [cur]) @ seen')" "rooted par q r"
        "\<forall>s \<in> set seen'. (s, r) \<in> (uf_edges par)\<^sup>+" by blast
    have "(cur, r) \<in> (uf_edges par)\<^sup>+"
      using q r(2) by (auto simp: rooted_def intro: rtrancl_into_trancl2)
    moreover have "walk (Suc n) par cur seen = Some (r, seen @ cur # seen')"
      using step r(1) by simp
    ultimately show ?thesis
      using r(3) rooted_step [OF q r(2)]
      by (intro exI [of _ r] exI [of _ "cur # seen'"] conjI ballI) (simp_all del: walk.simps, blast)
  qed
qed simp

lemma find_walk:
  assumes "uf_ok par"
  obtains r seen where "walk (Suc (length par)) par sid [] = Some (r, seen)" "rooted par sid r"
    "\<forall>s \<in> set seen. (s, r) \<in> (uf_edges par)\<^sup>+"
  using walk_enough [OF assms le_imp_less_Suc [OF card_uf_reach], of sid "[]"] by auto

lemma rooted_uf_root: "uf_ok par \<Longrightarrow> rooted par sid (uf_root par sid)"
  by (rule find_walk [of par sid]) (auto simp: uf_root_def uf_find_def)

lemma uf_root_eqI: "uf_ok par \<Longrightarrow> rooted par x r \<Longrightarrow> uf_root par x = r"
  using rooted_uf_root rooted_unique by blast

subsection \<open>Path compression changes no root\<close>

lemma map_of_compress:
  "map_of (compress r seen par) x = (if x \<in> set seen then Some r else map_of par x)"
  unfolding compress_def
  by (induction seen arbitrary: par) (auto simp: map_of_jput)

lemma compress_edges:
  assumes "\<forall>s \<in> set seen. (s, r) \<in> (uf_edges par)\<^sup>+"
  shows "uf_edges (compress r seen par) \<subseteq> (uf_edges par)\<^sup>+"
  using assms by (auto simp: uf_edges_def map_of_compress split: if_splits)

lemma uf_ok_compress [graph_intros]:
  assumes "uf_ok par" "\<forall>s \<in> set seen. (s, r) \<in> (uf_edges par)\<^sup>+"
  shows "uf_ok (compress r seen par)"
  using assms(1) compress_edges [OF assms(2)] unfolding uf_ok_def
  by (metis acyclic_subset acyclic_def trancl_id trans_trancl)

lemma rooted_compress:
  assumes ok: "uf_ok par" and seen: "\<forall>s \<in> set seen. (s, r) \<in> (uf_edges par)\<^sup>+"
    and r: "r \<notin> Domain (uf_edges par)" and x: "rooted par x r'"
  shows "rooted (compress r seen par) x r'"
proof -
  let ?E = "uf_edges par" and ?E' = "uf_edges (compress r seen par)"
  have src: "s \<in> Domain ?E \<and> s \<noteq> r" if "s \<in> set seen" for s
    using seen r that by (metis Domain.DomainI tranclD)
  have dom: "Domain ?E' = Domain ?E"
    using src by (auto simp: uf_edges_def map_of_compress Domain_iff split: if_splits)
  from x have path: "(x, r') \<in> ?E\<^sup>*" and r': "r' \<notin> Domain ?E" by (auto simp: rooted_def)
  from path have "(x, r') \<in> ?E'\<^sup>*"
  proof (induction rule: converse_rtrancl_induct)
    case (step y z)
    show ?case
    proof (cases "y \<in> set seen")
      case True
      then have "rooted par y r" using seen r by (simp add: rooted_def trancl_into_rtrancl)
      moreover have "rooted par y r'"
        using converse_rtrancl_into_rtrancl [OF step(1,2)] r' by (simp add: rooted_def)
      ultimately have "r = r'" by (rule rooted_unique)
      moreover have "y \<noteq> r" using step(1) r by blast
      ultimately have "(y, r') \<in> ?E'" using True by (auto simp: uf_edges_def map_of_compress)
      then show ?thesis by blast
    next
      case False
      then have "(y, z) \<in> ?E'" using step(1) by (auto simp: uf_edges_def map_of_compress)
      then show ?thesis using step.IH by (rule converse_rtrancl_into_rtrancl)
    qed
  qed simp
  then show ?thesis unfolding rooted_def dom using r' by blast
qed

text \<open>Reading through \<open>find\<close> mutates only the representation.\<close>

lemma uf_find_state:
  assumes "uf_ok par"
  shows "uf_ok (snd (uf_find par sid))" and "uf_root (snd (uf_find par sid)) x = uf_root par x"
proof -
  obtain r seen where f: "walk (Suc (length par)) par sid [] = Some (r, seen)" "rooted par sid r"
    and seen: "\<forall>s \<in> set seen. (s, r) \<in> (uf_edges par)\<^sup>+"
    using find_walk [OF assms] .
  have st: "snd (uf_find par sid) = compress r seen par"
    using f(1) by (simp add: uf_find_def)
  show ok: "uf_ok (snd (uf_find par sid))"
    unfolding st by (rule uf_ok_compress [OF assms seen])
  have "rooted (compress r seen par) x (uf_root par x)"
    using rooted_compress [OF assms seen _ rooted_uf_root [OF assms]] f(2) by (simp add: rooted_def)
  then show "uf_root (snd (uf_find par sid)) x = uf_root par x"
    using ok unfolding st by (rule uf_root_eqI [rotated])
qed

subsection \<open>Union merges two components\<close>

lemma uf_touch_edges [simp]: "uf_edges (uf_touch a par) = uf_edges par"
  by (auto simp: uf_touch_def uf_edges_def jhas_def map_of_jput split: if_splits)

lemma uf_touch_ok [simp]: "uf_ok (uf_touch a par) = uf_ok par"
  by (simp add: uf_ok_def)

lemma uf_touch_root [simp]: "uf_ok par \<Longrightarrow> uf_root (uf_touch a par) x = uf_root par x"
  by (rule uf_root_eqI) (use rooted_uf_root [of par x] in \<open>simp_all add: rooted_def\<close>)

lemma uf_link:
  assumes ok: "uf_ok par" and ra: "rooted par a ra" and rb: "rooted par b rb" and ne: "ra \<noteq> rb"
  shows "uf_ok (jput rb ra par)"
    and "uf_root (jput rb ra par) x = (if uf_root par x = rb then ra else uf_root par x)"
proof -
  have top: "ra \<notin> Domain (uf_edges par)" "rb \<notin> Domain (uf_edges par)"
    using ra rb by (auto simp: rooted_def)
  have E: "uf_edges (jput rb ra par) = insert (rb, ra) (uf_edges par)"
    using top(2) ne by (auto simp: uf_edges_def map_of_jput Domain_iff split: if_splits)
  have "(ra, rb) \<notin> (uf_edges par)\<^sup>*"
    using top(1) ne by (meson Domain.DomainI converse_rtranclE)
  then show ok': "uf_ok (jput rb ra par)"
    using ok by (simp add: uf_ok_def E acyclic_insert)
  have root: "rooted par x (uf_root par x)" by (rule rooted_uf_root [OF ok])
  have reach: "(x, uf_root par x) \<in> (uf_edges (jput rb ra par))\<^sup>*"
    using root rtrancl_mono [of "uf_edges par" "uf_edges (jput rb ra par)"]
    by (auto simp: rooted_def E)
  show "uf_root (jput rb ra par) x = (if uf_root par x = rb then ra else uf_root par x)"
  proof (rule uf_root_eqI [OF ok'])
    show "rooted (jput rb ra par) x (if uf_root par x = rb then ra else uf_root par x)"
    proof (cases "uf_root par x = rb")
      case True
      have "(rb, ra) \<in> uf_edges (jput rb ra par)" by (simp add: E)
      then show ?thesis using True reach top ne by (auto simp: rooted_def E intro: rtrancl_into_rtrancl)
    next
      case False
      then show ?thesis using reach root by (auto simp: rooted_def E)
    qed
  qed
qed

lemma uf_union_state:
  assumes "uf_ok par"
  shows "uf_ok (uf_union a b par)"
    and "uf_root (uf_union a b par) x = (if uf_root par x = uf_root par b then uf_root par a else uf_root par x)"
proof -
  define par0 where "par0 = uf_touch b (uf_touch a par)"
  have ok0: "uf_ok par0" and root0: "uf_root par0 y = uf_root par y" for y
    using assms by (simp_all add: par0_def)
  define par1 where "par1 = snd (uf_find par0 a)"
  have ok1: "uf_ok par1" and root1: "uf_root par1 y = uf_root par y" for y
    using uf_find_state [OF ok0] root0 by (simp_all add: par1_def)
  define par2 where "par2 = snd (uf_find par1 b)"
  have ok2: "uf_ok par2" and root2: "uf_root par2 y = uf_root par y" for y
    using uf_find_state [OF ok1] root1 by (simp_all add: par2_def)
  have f: "uf_find par0 a = (uf_root par a, par1)" "uf_find par1 b = (uf_root par b, par2)"
    using root0 [of a] root1 [of b] by (simp_all add: uf_root_def par1_def par2_def prod_eq_iff)
  have u: "uf_union a b par
      = (if uf_root par a \<noteq> uf_root par b then jput (uf_root par b) (uf_root par a) par2 else par2)"
    unfolding uf_union_def Let_def par0_def [symmetric] f prod.case ..
  have rt: "rooted par2 y (uf_root par y)" for y
    using rooted_uf_root [OF ok2] by (simp add: root2)
  show "uf_ok (uf_union a b par)"
    using uf_link(1) [OF ok2 rt rt] ok2 by (simp add: u)
  show "uf_root (uf_union a b par) x
      = (if uf_root par x = uf_root par b then uf_root par a else uf_root par x)"
    using uf_link(2) [OF ok2 rt rt] by (simp add: u root2)
qed

lemma uf_ok_Nil [simp, graph_intros]: "uf_ok []"
  by (simp add: uf_ok_def uf_edges_def acyclic_def)

lemma uf_root_Nil [simp]: "uf_root [] x = x"
  by (simp add: uf_root_def uf_find_def)

subsection \<open>Which nodes the graph knows\<close>

text \<open>Every parent recorded is itself a node: what keeps \<open>runRootOf\<close> non-null along a run.\<close>

definition uf_closed :: "parents \<Rightarrow> bool" where
  "uf_closed par \<longleftrightarrow> (\<forall>s q. map_of par s = Some q \<longrightarrow> jhas par q)"

definition uf_wf :: "parents \<Rightarrow> bool" where
  "uf_wf par \<longleftrightarrow> uf_ok par \<and> uf_closed par"

lemma uf_wf_ok: "uf_wf par \<Longrightarrow> uf_ok par"
  by (simp add: uf_wf_def)

lemma uf_wf_Nil [simp, graph_intros]: "uf_wf []"
  by (simp add: uf_wf_def uf_closed_def)

lemma reach_node:
  assumes "uf_closed par" "(x, r) \<in> (uf_edges par)\<^sup>*" "jhas par x"
  shows "jhas par r"
  using assms(2,3)
proof (induction rule: rtrancl_induct)
  case (step y z)
  then show ?case using assms(1) by (auto simp: uf_edges_def uf_closed_def)
qed

lemma root_node: "uf_wf par \<Longrightarrow> jhas par x \<Longrightarrow> jhas par (uf_root par x)"
  unfolding uf_wf_def using rooted_uf_root reach_node unfolding rooted_def by blast

lemma jhas_uf_touch: "jhas (uf_touch a par) x \<longleftrightarrow> x = a \<or> jhas par x"
  by (auto simp: uf_touch_def)

lemma uf_wf_touch [graph_intros]: "uf_wf par \<Longrightarrow> uf_wf (uf_touch a par)"
  using uf_touch_ok [of a par]
  by (auto simp: uf_wf_def uf_closed_def uf_touch_def map_of_jput simp del: uf_touch_ok)

lemma uf_find_nodes:
  assumes "uf_wf par"
  shows "jhas (snd (uf_find par sid)) x = jhas par x" and "uf_wf (snd (uf_find par sid))"
proof -
  have ok: "uf_ok par" using assms by (rule uf_wf_ok)
  obtain r seen where w: "walk (Suc (length par)) par sid [] = Some (r, seen)"
    and seen: "\<forall>s \<in> set seen. (s, r) \<in> (uf_edges par)\<^sup>+"
    using find_walk [OF ok] by metis
  have src: "jhas par s \<and> jhas par r" if "s \<in> set seen" for s
  proof -
    have "(s, r) \<in> (uf_edges par)\<^sup>+" using seen that by blast
    then have "jhas par s" by (auto simp: uf_edges_def jhas_def dest!: tranclD)
    moreover have "jhas par r"
      using reach_node [of par s r] assms calculation \<open>(s, r) \<in> _\<close>
      by (simp add: uf_wf_def trancl_into_rtrancl)
    ultimately show ?thesis by blast
  qed
  have st: "snd (uf_find par sid) = compress r seen par" using w by (simp add: uf_find_def)
  have *: "jhas (snd (uf_find par sid)) y = jhas par y" for y
    unfolding st using src by (auto simp: jhas_def map_of_compress)
  then show "jhas (snd (uf_find par sid)) x = jhas par x" .
  have "uf_closed (snd (uf_find par sid))"
    using * src assms unfolding uf_closed_def uf_wf_def st
    by (simp add: map_of_compress)
  then show "uf_wf (snd (uf_find par sid))"
    using uf_find_state(1) [OF ok] by (simp add: uf_wf_def)
qed

lemma uf_union_nodes:
  assumes "uf_wf par"
  shows "jhas (uf_union a b par) x \<longleftrightarrow> x = a \<or> x = b \<or> jhas par x" and "uf_wf (uf_union a b par)"
proof -
  define par0 where "par0 = uf_touch b (uf_touch a par)"
  define par1 where "par1 = snd (uf_find par0 a)"
  define par2 where "par2 = snd (uf_find par1 b)"
  have wf0: "uf_wf par0" using assms by (simp add: par0_def uf_wf_touch)
  have wf1: "uf_wf par1" using uf_find_nodes(2) [OF wf0] by (simp add: par1_def)
  have wf2: "uf_wf par2" using uf_find_nodes(2) [OF wf1] by (simp add: par2_def)
  have h1: "jhas par1 y \<longleftrightarrow> y = a \<or> y = b \<or> jhas par y" for y
    using uf_find_nodes(1) [OF wf0, of a y] jhas_uf_touch unfolding par1_def par0_def by metis
  have h2: "jhas par2 y = jhas par1 y" for y
    using uf_find_nodes(1) [OF wf1] by (simp add: par2_def)
  define ra rb where "ra = uf_root par0 a" and "rb = uf_root par1 b"
  have u: "uf_union a b par = (if ra \<noteq> rb then jput rb ra par2 else par2)"
    by (simp add: uf_union_def Let_def par0_def [symmetric] case_prod_beta par1_def [symmetric]
        par2_def [symmetric] ra_def rb_def uf_root_def)
  have "jhas par0 a" by (simp add: par0_def jhas_uf_touch)
  then have "jhas par1 ra" using root_node [OF wf0] uf_find_nodes(1) [OF wf0] by (simp add: ra_def par1_def)
  moreover have "jhas par1 rb" using root_node [OF wf1] h1 [of b] by (simp add: rb_def)
  ultimately have keys: "jhas par2 ra" "jhas par2 rb" using h2 by auto
  show "jhas (uf_union a b par) x \<longleftrightarrow> x = a \<or> x = b \<or> jhas par x"
    using keys h1 h2 unfolding u by auto
  have "uf_closed (uf_union a b par)"
    using wf2 keys unfolding u uf_wf_def uf_closed_def by (simp add: map_of_jput)
  then show "uf_wf (uf_union a b par)"
    using uf_union_state(1) [OF uf_wf_ok [OF assms]] by (simp add: uf_wf_def)
qed

subsection \<open>The interface: a partition with merge\<close>

text \<open>
  What the run graph promises its clients, in terms of the abstract notion it implements:
  two workers are in one run exactly when the recorded edges link them.
\<close>

definition linked :: "('a \<times> 'a) set \<Rightarrow> 'a \<Rightarrow> 'a \<Rightarrow> bool" where
  "linked E x y \<longleftrightarrow> (x, y) \<in> (E \<union> E\<inverse>)\<^sup>*"

lemma linked_refl [simp, intro]: "linked E x x"
  by (simp add: linked_def)

lemma linked_sym: "linked E x y \<Longrightarrow> linked E y x"
proof -
  have "sym ((E \<union> E\<inverse>)\<^sup>*)" by (rule sym_rtrancl) (auto simp: sym_def)
  then show "linked E x y \<Longrightarrow> linked E y x" by (simp add: linked_def sym_def)
qed

lemma linked_trans: "linked E x y \<Longrightarrow> linked E y z \<Longrightarrow> linked E x z"
  unfolding linked_def by (rule rtrancl_trans)

lemma linked_mono: "E \<subseteq> F \<Longrightarrow> linked E x y \<Longrightarrow> linked F x y"
  unfolding linked_def by (meson Un_mono converse_mono rtrancl_mono subsetD)

lemma linked_edge: "(a, b) \<in> E \<Longrightarrow> linked E a b"
  unfolding linked_def by blast

lemma linked_empty [simp]: "linked {} x y \<longleftrightarrow> x = y"
  by (simp add: linked_def)

lemma linked_insert:
  "linked (insert (a, b) E) x y \<longleftrightarrow>
     linked E x y \<or> linked E x a \<and> linked E b y \<or> linked E x b \<and> linked E a y"
proof
  assume "linked (insert (a, b) E) x y"
  then have "(x, y) \<in> (insert (a, b) E \<union> (insert (a, b) E)\<inverse>)\<^sup>*" by (simp add: linked_def)
  then show "linked E x y \<or> linked E x a \<and> linked E b y \<or> linked E x b \<and> linked E a y"
  proof (induction rule: rtrancl_induct)
    case (step y z)
    from step.hyps(2) have "(y, z) = (a, b) \<or> (y, z) = (b, a) \<or> (y, z) \<in> E \<union> E\<inverse>" by auto
    then consider "(y, z) = (a, b)" | "(y, z) = (b, a)" | "linked E y z"
      unfolding linked_def by blast
    then show ?case
    proof cases
      case 1
      then show ?thesis using step.IH by auto
    next
      case 2
      then show ?thesis using step.IH by auto
    next
      case 3
      then show ?thesis using step.IH linked_trans [OF _ 3] by blast
    qed
  qed simp
next
  have up: "linked E u v \<Longrightarrow> linked (insert (a, b) E) u v" for u v
    by (rule linked_mono) auto
  have ab: "linked (insert (a, b) E) a b" by (rule linked_edge) simp
  assume "linked E x y \<or> linked E x a \<and> linked E b y \<or> linked E x b \<and> linked E a y"
  then consider "linked E x y" | "linked E x a" "linked E b y" | "linked E x b" "linked E a y"
    by blast
  then show "linked (insert (a, b) E) x y"
  proof cases
    case 1
    then show ?thesis by (rule up)
  next
    case 2
    from linked_trans [OF up [OF 2(1)] ab] up [OF 2(2)] show ?thesis by (rule linked_trans)
  next
    case 3
    from linked_trans [OF up [OF 3(1)] linked_sym [OF ab]] up [OF 3(2)] show ?thesis
      by (rule linked_trans)
  qed
qed

locale partition =
  fixes ok :: "'g \<Rightarrow> bool" and root :: "'g \<Rightarrow> 'a \<Rightarrow> 'a" and merge :: "'a \<Rightarrow> 'a \<Rightarrow> 'g \<Rightarrow> 'g"
  assumes ok_merge: "ok g \<Longrightarrow> ok (merge a b g)"
    and root_merge: "ok g \<Longrightarrow>
      root (merge a b g) x = (if root g x = root g b then root g a else root g x)"
begin

lemma merge_links:
  assumes "ok g" and "\<And>x y. root g x = root g y \<longleftrightarrow> linked E x y"
  shows "root (merge a b g) x = root (merge a b g) y \<longleftrightarrow> linked (insert (a, b) E) x y"
  unfolding root_merge [OF assms(1)] linked_insert assms(2) [symmetric] by auto

lemma merge_all_ok: "ok g \<Longrightarrow> ok (fold (\<lambda>a. merge a b) as g)"
  by (induction as arbitrary: g) (auto simp: ok_merge)

lemma merge_all_links:
  assumes "ok g" and "\<And>x y. root g x = root g y \<longleftrightarrow> linked E x y"
  shows "root (fold (\<lambda>a. merge a b) as g) x = root (fold (\<lambda>a. merge a b) as g) y
    \<longleftrightarrow> linked (E \<union> (\<lambda>a. (a, b)) ` set as) x y"
  using assms
proof (induction as arbitrary: g E)
  case (Cons a as)
  from Cons.IH [OF ok_merge [OF Cons.prems(1)] merge_links [OF Cons.prems]]
  show ?case by simp
qed simp

lemma merge_keeps_together:
  assumes "ok g" "root g x = root g y"
  shows "root (merge a b g) x = root (merge a b g) y"
  using assms(2) by (simp add: root_merge [OF assms(1)])

end

interpretation runs: partition uf_wf uf_root uf_union
  by unfold_locales (simp_all add: uf_union_state uf_union_nodes uf_wf_ok)

end
