(* ===== verification/PlaybookLedger.thy ===== *)
theory PlaybookLedger
  imports RunGraph
begin

text \<open>
  The playbook ledger, \<open>src/playbookLedger.ts\<close>: the append-only event log and the projection
  folded from it.  \<open>applyEvent\<close> is the single fold step that boot and live appends share;
  \<open>readEvents\<close> is the tolerant reader of the JSONL file.  The abstract specification is the
  run graph: the set of sessions the log has spawned and the provenance edges it recorded.
\<close>

subsection \<open>Events and the projection\<close>

datatype ledger_body =
    Spawn (spawned: string) string string "(string, string) jmap option" "string option" "string option"
      \<comment> \<open>sessionId, playbook, stage, provenance, project, worktree\<close>
  | Transition string string string string "(string, string) jmap option" "string option"
      \<comment> \<open>sessionId, from, to, via, provenance, forwardSessionId\<close>
  | Retire string string \<comment> \<open>sessionId, reason\<close>
  | Resume string
  | Refusal "string option" "string option" string string
      \<comment> \<open>sessionId, forwardSessionId, tool, code (the reason text is not folded)\<close>
  | Enforcement string "string option" string \<comment> \<open>conductorSessionId, from (None: a birth), to\<close>
  | Interaction string string string "string option"
      \<comment> \<open>tool, sessionId, conductorSessionId, forwardSessionId\<close>
  | Wake string string bool \<comment> \<open>sessionId, conductorSessionId, heartbeat\<close>

record ledger_event =
  ev_seq :: "int option" \<comment> \<open>None: the row's \<open>seq\<close> is not a number\<close>
  ev_ts :: string
  ev_body :: ledger_body

text \<open>\<open>isActivityEvent\<close>: the kinds of \<open>ACTIVITY_KINDS\<close>.\<close>

fun isActivityEvent :: "ledger_body \<Rightarrow> bool" where
  "isActivityEvent (Interaction _ _ _ _) = True"
| "isActivityEvent (Wake _ _ _) = True"
| "isActivityEvent _ = False"

record worker_state =
  ws_session :: string
  ws_playbook :: string
  ws_stage :: string
  ws_history :: "string list"
  ws_provenance :: "(string, string) jmap"
  ws_root :: string
  ws_project :: "string option"
  ws_worktree :: "string option"

record projection =
  bySession :: "(string, worker_state) jmap"
  enforcement :: "(string, string) jmap"
  pr_seq :: int
  parent :: parents

definition emptyProjection :: projection where
  "emptyProjection = \<lparr>bySession = [], enforcement = [], pr_seq = 0, parent = []\<rparr>"

subsection \<open>The fold\<close>

text \<open>\<open>for (const target of Object.values(provenance)) union(p.parent, target, ev.sessionId)\<close>\<close>

definition join_runs :: "(string, string) jmap \<Rightarrow> string \<Rightarrow> parents \<Rightarrow> parents" where
  "join_runs prov sid par = fold (\<lambda>t. uf_union t sid) (jvals prov) par"

definition apply_spawn ::
  "string \<Rightarrow> string \<Rightarrow> string \<Rightarrow> (string, string) jmap option \<Rightarrow> string option \<Rightarrow> string option
   \<Rightarrow> projection \<Rightarrow> projection" where
  "apply_spawn sid pb st prov prj wt p =
     (let provenance = (case prov of None \<Rightarrow> [] | Some m \<Rightarrow> m)
      in p\<lparr>bySession := jput sid
             \<lparr>ws_session = sid, ws_playbook = pb, ws_stage = st, ws_history = [st],
              ws_provenance = provenance, ws_root = sid, ws_project = prj, ws_worktree = wt\<rparr>
             (bySession p),
           parent := join_runs provenance sid (uf_touch sid (parent p))\<rparr>)"

definition apply_transition ::
  "string \<Rightarrow> string \<Rightarrow> (string, string) jmap option \<Rightarrow> projection \<Rightarrow> projection" where
  "apply_transition sid to prov p =
     (case map_of (bySession p) sid of
        None \<Rightarrow> p
      | Some st \<Rightarrow>
          (let st1 = st\<lparr>ws_stage := to, ws_history := ws_history st @ [to]\<rparr>
           in case prov of
                None \<Rightarrow> p\<lparr>bySession := jput sid st1 (bySession p)\<rparr>
              | Some pv \<Rightarrow>
                  p\<lparr>bySession := jput sid
                      (st1\<lparr>ws_provenance := jmerge (ws_provenance st1) pv\<rparr>) (bySession p),
                    parent := join_runs pv sid (parent p)\<rparr>))"

text \<open>The closing loop of \<open>applyEvent\<close>: every worker's derived \<open>runRoot\<close> is recomputed.\<close>

fun refresh_roots :: "(string, worker_state) jmap \<Rightarrow> parents \<Rightarrow> (string, worker_state) jmap \<times> parents" where
  "refresh_roots [] par = ([], par)"
| "refresh_roots ((k, st) # rest) par =
     (let (r, par1) = uf_find par (ws_session st);
          (rest', par2) = refresh_roots rest par1
      in ((k, st\<lparr>ws_root := r\<rparr>) # rest', par2))"

definition apply_body :: "ledger_body \<Rightarrow> projection \<Rightarrow> projection" where
  "apply_body b p = (case b of
       Spawn sid pb st prov prj wt \<Rightarrow> apply_spawn sid pb st prov prj wt p
     | Transition sid _ to _ prov _ \<Rightarrow> apply_transition sid to prov p
     | Enforcement csid _ to \<Rightarrow> p\<lparr>enforcement := jput csid to (enforcement p)\<rparr>
     | _ \<Rightarrow> p)"

definition applyEvent :: "projection \<Rightarrow> ledger_event \<Rightarrow> projection" where
  "applyEvent p ev =
     (let p1 = (case ev_seq ev of Some n \<Rightarrow> if n > pr_seq p then p\<lparr>pr_seq := n\<rparr> else p | None \<Rightarrow> p);
          p2 = apply_body (ev_body ev) p1;
          (ws, par) = refresh_roots (bySession p2) (parent p2)
      in p2\<lparr>bySession := ws, parent := par\<rparr>)"

definition foldProjection :: "ledger_event list \<Rightarrow> projection" where
  "foldProjection evs = foldl applyEvent emptyProjection evs"

subsection \<open>Run-graph queries\<close>

definition runRootOf :: "projection \<Rightarrow> string \<Rightarrow> string option" where
  "runRootOf p sid = (if jhas (parent p) sid then Some (uf_root (parent p) sid) else None)"

definition runMembers :: "projection \<Rightarrow> string \<Rightarrow> string list" where
  "runMembers p sid = (case runRootOf p sid of
       None \<Rightarrow> []
     | Some root \<Rightarrow> filter (\<lambda>s. uf_root (parent p) s = root) (jkeys (bySession p)))"

definition sameRun :: "projection \<Rightarrow> string \<Rightarrow> string \<Rightarrow> bool" where
  "sameRun p a b \<longleftrightarrow> runRootOf p a \<noteq> None \<and> runRootOf p a = runRootOf p b"

definition liveSessionsInStage ::
  "projection \<Rightarrow> string \<Rightarrow> string \<Rightarrow> (string \<Rightarrow> bool) \<Rightarrow> string list" where
  "liveSessionsInStage p anchor stage isLive =
     filter (\<lambda>sid. case map_of (bySession p) sid of
         None \<Rightarrow> False | Some st \<Rightarrow> ws_stage st = stage \<and> isLive sid) (runMembers p anchor)"

definition hasEverBeen :: "projection \<Rightarrow> string \<Rightarrow> string \<Rightarrow> bool" where
  "hasEverBeen p sid stage = (case map_of (bySession p) sid of
       None \<Rightarrow> False | Some st \<Rightarrow> stage \<in> set (ws_history st))"

text \<open>\<open>playbookBinding\<close>: null projection and non-string ids read as untracked.\<close>

definition playbookBinding :: "projection option \<Rightarrow> json option \<Rightarrow> string option \<times> string option" where
  "playbookBinding p sid =
     (let tracked = (case (p, as_str sid) of (Some q, Some s) \<Rightarrow> map_of (bySession q) s | _ \<Rightarrow> None)
      in (map_option ws_playbook tracked, map_option ws_stage tracked))"

definition liveSessionsOnPlaybook :: "projection \<Rightarrow> string \<Rightarrow> (string \<Rightarrow> bool) \<Rightarrow> string list" where
  "liveSessionsOnPlaybook p playbook isLive =
     filter (\<lambda>sid. fst (playbookBinding (Some p) (Some (JStr sid))) = Some playbook \<and> isLive sid)
       (jkeys (bySession p))"

subsection \<open>The file\<close>

fun split_lines :: "string \<Rightarrow> string list" where
  "split_lines [] = [[]]"
| "split_lines (c # cs) =
     (if c = CHR 0x0A then [] # split_lines cs
      else (case split_lines cs of [] \<Rightarrow> [[c]] | l # ls \<Rightarrow> (c # l) # ls))"

text \<open>
  \<open>readEvents\<close>: \<open>parse\<close> is \<open>JSON.parse\<close> (None: it throws), \<open>cast\<close> is the unchecked cast of a
  row to \<open>LedgerEvent\<close>.  A blank line is skipped silently; a malformed line, a non-object and a
  row without a string \<open>kind\<close> are skipped with a warning.
\<close>

definition read_line :: "(string \<Rightarrow> json option) \<Rightarrow> (args \<Rightarrow> ledger_event) \<Rightarrow> string \<Rightarrow> ledger_event list" where
  "read_line parse cast line =
     (if js_blank line then []
      else case parse line of
          Some (JObj kvs) \<Rightarrow> (if as_str (map_of kvs ''kind'') = None then [] else [cast kvs])
        | _ \<Rightarrow> [])"

definition readEvents :: "(string \<Rightarrow> json option) \<Rightarrow> (args \<Rightarrow> ledger_event) \<Rightarrow> string \<Rightarrow> ledger_event list" where
  "readEvents parse cast raw = concat (map (read_line parse cast) (split_lines raw))"

text \<open>\<open>createPlaybookLedger\<close>: the projection in memory and the raw text on disk.\<close>

record ledger =
  lg_proj :: projection
  lg_file :: string

definition ledger_load :: "(string \<Rightarrow> json option) \<Rightarrow> (args \<Rightarrow> ledger_event) \<Rightarrow> ledger \<Rightarrow> ledger" where
  "ledger_load parse cast l = l\<lparr>lg_proj := foldProjection (readEvents parse cast (lg_file l))\<rparr>"

definition ledger_row :: "projection \<Rightarrow> string \<Rightarrow> ledger_body \<Rightarrow> ledger_event" where
  "ledger_row p now b = \<lparr>ev_seq = Some (pr_seq p + 1), ev_ts = now, ev_body = b\<rparr>"

definition ledger_append ::
  "(ledger_event \<Rightarrow> string) \<Rightarrow> string \<Rightarrow> ledger_body \<Rightarrow> ledger \<Rightarrow> ledger_event \<times> ledger" where
  "ledger_append encode now b l =
     (let full = ledger_row (lg_proj l) now b
      in (full, l\<lparr>lg_file := lg_file l @ encode full @ [CHR 0x0A],
                  lg_proj := applyEvent (lg_proj l) full\<rparr>))"

subsection \<open>One fold step, in closed form\<close>

definition ledger_inv :: "projection \<Rightarrow> bool" where
  "ledger_inv p \<longleftrightarrow> uf_wf (parent p) \<and> jmap_ok (bySession p) \<and>
     (\<forall>sid st. map_of (bySession p) sid = Some st \<longrightarrow>
        ws_session st = sid \<and> ws_history st \<noteq> [] \<and> last (ws_history st) = ws_stage st
        \<and> ws_root st = uf_root (parent p) sid \<and> jhas (parent p) sid)"

definition same_graph :: "parents \<Rightarrow> parents \<Rightarrow> bool" where
  "same_graph par par' \<longleftrightarrow> (\<forall>x. uf_root par x = uf_root par' x \<and> jhas par x = jhas par' x)"

lemma same_graph_refl [simp]: "same_graph par par"
  by (simp add: same_graph_def)

lemma find_same_graph:
  assumes "uf_wf par"
  shows "uf_wf (snd (uf_find par s))" and "same_graph par (snd (uf_find par s))"
  using uf_find_nodes [OF assms] uf_find_state(2) [OF uf_wf_ok [OF assms]]
  by (simp_all add: same_graph_def)

lemma refresh_roots_all:
  "uf_wf par \<Longrightarrow>
     fst (refresh_roots ws par) = jmap_vals (\<lambda>st. st\<lparr>ws_root := uf_root par (ws_session st)\<rparr>) ws
     \<and> uf_wf (snd (refresh_roots ws par)) \<and> same_graph par (snd (refresh_roots ws par))"
proof (induction ws arbitrary: par)
  case (Cons w ws)
  obtain k st where w: "w = (k, st)" by fastforce
  define par1 where "par1 = snd (uf_find par (ws_session st))"
  have f: "uf_find par (ws_session st) = (uf_root par (ws_session st), par1)"
    by (simp add: uf_root_def par1_def)
  have wf1: "uf_wf par1" and same: "same_graph par par1"
    using Cons.prems by (simp_all add: par1_def find_same_graph)
  from same have eq: "uf_root par1 x = uf_root par x" for x by (simp add: same_graph_def)
  from Cons.IH [OF wf1] same show ?case
    by (simp add: w f case_prod_beta jmap_vals_def eq same_graph_def)
qed (simp add: jmap_vals_def)

lemmas refresh_roots_closed = refresh_roots_all [THEN conjunct1]
  refresh_roots_all [THEN conjunct2, THEN conjunct1] refresh_roots_all [THEN conjunct2, THEN conjunct2]

lemma applyEvent_closed:
  assumes "uf_wf (parent (apply_body (ev_body ev) p))"
  shows "bySession (applyEvent p ev)
      = jmap_vals (\<lambda>st. st\<lparr>ws_root := uf_root (parent (apply_body (ev_body ev) p)) (ws_session st)\<rparr>)
          (bySession (apply_body (ev_body ev) p))"
    and "uf_wf (parent (applyEvent p ev))"
    and "same_graph (parent (apply_body (ev_body ev) p)) (parent (applyEvent p ev))"
    and "enforcement (applyEvent p ev) = enforcement (apply_body (ev_body ev) p)"
    and "pr_seq (applyEvent p ev)
      = (case ev_seq ev of Some n \<Rightarrow> max n (pr_seq p) | None \<Rightarrow> pr_seq p)"
proof -
  define p1 where "p1 = (case ev_seq ev of Some n \<Rightarrow> if n > pr_seq p then p\<lparr>pr_seq := n\<rparr> else p | None \<Rightarrow> p)"
  have seq: "apply_body b (q\<lparr>pr_seq := n\<rparr>) = (apply_body b q)\<lparr>pr_seq := n\<rparr>" for b q n
    by (cases b) (auto simp: apply_body_def apply_spawn_def apply_transition_def Let_def split: option.splits)
  have body: "bySession (apply_body b p1) = bySession (apply_body b p)"
    "parent (apply_body b p1) = parent (apply_body b p)"
    "enforcement (apply_body b p1) = enforcement (apply_body b p)" for b
    by (auto simp: p1_def seq split: option.splits)
  have seq': "pr_seq (apply_body b q) = pr_seq q" for b q
    by (cases b) (auto simp: apply_body_def apply_spawn_def apply_transition_def Let_def split: option.splits)
  define p2 where "p2 = apply_body (ev_body ev) p1"
  have a: "applyEvent p ev = p2\<lparr>bySession := fst (refresh_roots (bySession p2) (parent p2)),
      parent := snd (refresh_roots (bySession p2) (parent p2))\<rparr>"
    by (simp add: applyEvent_def p1_def [symmetric] p2_def [symmetric] Let_def case_prod_beta)
  note r = refresh_roots_closed [OF assms, of "bySession (apply_body (ev_body ev) p)"]
  show "bySession (applyEvent p ev)
      = jmap_vals (\<lambda>st. st\<lparr>ws_root := uf_root (parent (apply_body (ev_body ev) p)) (ws_session st)\<rparr>)
          (bySession (apply_body (ev_body ev) p))"
    using r(1) by (simp add: a p2_def body)
  show "uf_wf (parent (applyEvent p ev))" using r(2) by (simp add: a p2_def body)
  show "same_graph (parent (apply_body (ev_body ev) p)) (parent (applyEvent p ev))"
    using r(3) by (simp add: a p2_def body)
  show "enforcement (applyEvent p ev) = enforcement (apply_body (ev_body ev) p)"
    by (simp add: a p2_def body)
  show "pr_seq (applyEvent p ev) = (case ev_seq ev of Some n \<Rightarrow> max n (pr_seq p) | None \<Rightarrow> pr_seq p)"
    by (auto simp: a p2_def seq' p1_def split: option.splits)
qed

subsection \<open>The abstract run graph\<close>

text \<open>
  What the log says about runs, with no union-find: the sessions it has spawned, and an edge
  from every worker a spawn or a tracked transition named as provenance.
\<close>

definition prov_targets :: "(string, string) jmap option \<Rightarrow> string list" where
  "prov_targets prov = (case prov of None \<Rightarrow> [] | Some m \<Rightarrow> jvals m)"

fun run_step :: "string set \<times> (string \<times> string) set \<Rightarrow> ledger_body \<Rightarrow> string set \<times> (string \<times> string) set" where
  "run_step (K, E) (Spawn sid _ _ prov _ _) =
     (insert sid K, E \<union> (\<lambda>t. (t, sid)) ` set (prov_targets prov))"
| "run_step (K, E) (Transition sid _ _ _ prov _) =
     (if sid \<in> K then (K, E \<union> (\<lambda>t. (t, sid)) ` set (prov_targets prov)) else (K, E))"
| "run_step (K, E) _ = (K, E)"

definition run_spec :: "ledger_event list \<Rightarrow> string set \<times> (string \<times> string) set" where
  "run_spec evs = foldl run_step ({}, {}) (map ev_body evs)"

definition run_nodes :: "string set \<times> (string \<times> string) set \<Rightarrow> string set" where
  "run_nodes KE = fst KE \<union> Field (snd KE)"

definition run_sim :: "projection \<Rightarrow> string set \<times> (string \<times> string) set \<Rightarrow> bool" where
  "run_sim p KE \<longleftrightarrow> ledger_inv p \<and> set (jkeys (bySession p)) = fst KE \<and>
     (\<forall>x y. uf_root (parent p) x = uf_root (parent p) y \<longleftrightarrow> linked (snd KE) x y) \<and>
     (\<forall>x. jhas (parent p) x \<longleftrightarrow> x \<in> run_nodes KE)"

lemma join_runs_wf [graph_intros]: "uf_wf par \<Longrightarrow> uf_wf (join_runs prov sid par)"
  unfolding join_runs_def by (rule runs.merge_all_ok)

lemma join_runs_nodes:
  assumes "uf_wf par" "jhas par sid"
  shows "jhas (join_runs prov sid par) x \<longleftrightarrow> jhas par x \<or> x \<in> set (jvals prov)"
proof -
  have "jhas (fold (\<lambda>t. uf_union t sid) ts par) x \<longleftrightarrow> jhas par x \<or> x \<in> set ts" for ts
    using assms
  proof (induction ts arbitrary: par)
    case (Cons t ts)
    note u = uf_union_nodes [OF Cons.prems(1), of t sid]
    show ?case using Cons.IH [OF u(2)] u(1) Cons.prems(2) by auto
  qed simp
  then show ?thesis by (simp add: join_runs_def)
qed

lemma join_runs_links:
  assumes "uf_wf par" "\<And>x y. uf_root par x = uf_root par y \<longleftrightarrow> linked E x y"
  shows "uf_root (join_runs prov sid par) x = uf_root (join_runs prov sid par) y
    \<longleftrightarrow> linked (E \<union> (\<lambda>t. (t, sid)) ` set (jvals prov)) x y"
  unfolding join_runs_def by (rule runs.merge_all_links [OF assms])

text \<open>Before the refresh, a step keeps the worker rows well formed up to their derived root.\<close>

definition rows_ok :: "(string, worker_state) jmap \<Rightarrow> parents \<Rightarrow> bool" where
  "rows_ok ws par \<longleftrightarrow> jmap_ok ws \<and> (\<forall>sid st. map_of ws sid = Some st \<longrightarrow>
     ws_session st = sid \<and> ws_history st \<noteq> [] \<and> last (ws_history st) = ws_stage st \<and> jhas par sid)"

lemma ledger_inv_rows: "ledger_inv p \<Longrightarrow> rows_ok (bySession p) (parent p)"
  by (auto simp: ledger_inv_def rows_ok_def)

lemma applyEvent_inv:
  assumes wf: "uf_wf (parent (apply_body (ev_body ev) p))"
    and rows: "rows_ok (bySession (apply_body (ev_body ev) p)) (parent (apply_body (ev_body ev) p))"
  shows "ledger_inv (applyEvent p ev)"
proof -
  note graph = applyEvent_closed(3) [OF wf, unfolded same_graph_def]
  note row = rows [unfolded rows_ok_def, THEN conjunct2, rule_format]
  show ?thesis
    unfolding ledger_inv_def applyEvent_closed(1) [OF wf]
  proof (intro conjI allI impI)
    show "uf_wf (parent (applyEvent p ev))" by (rule applyEvent_closed(2) [OF wf])
    show "jmap_ok (jmap_vals (\<lambda>st. st\<lparr>ws_root := uf_root (parent (apply_body (ev_body ev) p)) (ws_session st)\<rparr>)
        (bySession (apply_body (ev_body ev) p)))"
      using rows by (simp add: rows_ok_def)
  qed (use row graph in \<open>auto simp: map_of_jmap_vals\<close>)
qed

lemma rows_ok_jput:
  assumes "rows_ok ws par" and "\<And>x. jhas par x \<Longrightarrow> jhas par' x" and "jhas par' sid"
    and "ws_session st = sid" "ws_history st \<noteq> []" "last (ws_history st) = ws_stage st"
  shows "rows_ok (jput sid st ws) par'"
  unfolding rows_ok_def
proof (intro conjI allI impI)
  show "jmap_ok (jput sid st ws)" using assms(1) by (simp add: rows_ok_def jmap_ok_jput)
qed (use assms in \<open>auto simp: rows_ok_def map_of_jput split: if_splits\<close>)

lemma join_step:
  fixes pv :: "(string, string) jmap"
  assumes "uf_wf par" "jhas par sid"
    and "\<And>x y. uf_root par x = uf_root par y \<longleftrightarrow> linked E x y" and "\<And>x. jhas par x \<longleftrightarrow> x \<in> N"
  defines "par' \<equiv> join_runs (pv :: (string, string) jmap) sid par"
  shows "uf_wf par' \<and> (\<forall>x y. uf_root par' x = uf_root par' y \<longleftrightarrow>
      linked (E \<union> (\<lambda>t. (t, sid)) ` set (jvals pv)) x y) \<and>
      (\<forall>x. jhas par' x \<longleftrightarrow> x \<in> N \<union> set (jvals pv))"
  unfolding par'_def
  using join_runs_wf [OF assms(1)] join_runs_links [OF assms(1,3), of pv sid]
    join_runs_nodes [OF assms(1,2), of pv] assms(4) by (intro conjI allI) (simp_all only: Un_iff)

definition sim_body :: "projection \<Rightarrow> string set \<times> (string \<times> string) set \<Rightarrow> bool" where
  "sim_body q KE \<longleftrightarrow> uf_wf (parent q) \<and> rows_ok (bySession q) (parent q)
    \<and> set (jkeys (bySession q)) = fst KE
    \<and> (\<forall>x y. uf_root (parent q) x = uf_root (parent q) y \<longleftrightarrow> linked (snd KE) x y)
    \<and> (\<forall>x. jhas (parent q) x \<longleftrightarrow> x \<in> run_nodes KE)"

lemma Field_star: "Field ((\<lambda>t. (t, sid)) ` T) = (if T = {} then {} else insert sid T)"
  by (auto simp: Field_def)

lemma apply_spawn_sim:
  assumes "sim_body p (K, E)"
  shows "sim_body (apply_spawn sid pb st prov prj wt p) (run_step (K, E) (Spawn sid pb st prov prj wt))"
proof -
  define pv where "pv = (case prov of None \<Rightarrow> [] | Some m \<Rightarrow> m)"
  define row where "row = \<lparr>ws_session = sid, ws_playbook = pb, ws_stage = st, ws_history = [st],
    ws_provenance = pv, ws_root = sid, ws_project = prj, ws_worktree = wt\<rparr>"
  define par' where "par' = join_runs pv sid (uf_touch sid (parent p))"
  have pt: "prov_targets prov = jvals pv" by (simp add: prov_targets_def pv_def split: option.splits)
  have q: "apply_spawn sid pb st prov prj wt p
      = p\<lparr>bySession := jput sid row (bySession p), parent := par'\<rparr>"
    by (simp add: apply_spawn_def Let_def pv_def row_def par'_def)
  note p = assms [unfolded sim_body_def fst_conv snd_conv]
  have j: "uf_wf par' \<and> (\<forall>x y. uf_root par' x = uf_root par' y \<longleftrightarrow>
      linked (E \<union> (\<lambda>t. (t, sid)) ` set (jvals pv)) x y) \<and>
      (\<forall>x. jhas par' x \<longleftrightarrow> x \<in> insert sid (run_nodes (K, E)) \<union> set (jvals pv))"
    unfolding par'_def
    by (rule join_step) (use p uf_wf_ok in \<open>auto simp: uf_wf_touch jhas_uf_touch\<close>)
  have "rows_ok (jput sid row (bySession p)) par'"
    by (rule rows_ok_jput [of _ "parent p"]) (use p j in \<open>auto simp: row_def\<close>)
  then show ?thesis
    using p j unfolding sim_body_def q run_step.simps pt
    by (auto simp add: Field_star run_nodes_def)
qed

lemma apply_transition_sim:
  assumes "sim_body p (K, E)"
  shows "sim_body (apply_transition sid to prov p) (run_step (K, E) (Transition sid fr to via prov fwd))"
proof (cases "map_of (bySession p) sid")
  case None
  then have "sid \<notin> K" using assms by (auto simp: sim_body_def map_of_eq_None_iff)
  with None assms show ?thesis by (simp add: apply_transition_def)
next
  case (Some st)
  note p = assms [unfolded sim_body_def fst_conv snd_conv]
  have sid: "sid \<in> K" using p Some by (force dest: map_of_SomeD)
  then have has: "jhas (parent p) sid" using p by (simp add: run_nodes_def)
  define pv where "pv = (case prov of None \<Rightarrow> [] | Some m \<Rightarrow> m)"
  define par' where "par' = join_runs pv sid (parent p)"
  have pt: "prov_targets prov = jvals pv" by (simp add: prov_targets_def pv_def split: option.splits)
  have "\<exists>st'. apply_transition sid to prov p
        = p\<lparr>bySession := jput sid st' (bySession p), parent := par'\<rparr>
      \<and> ws_session st' = sid \<and> ws_history st' \<noteq> [] \<and> last (ws_history st') = ws_stage st'"
    using Some p by (auto simp: apply_transition_def Let_def rows_ok_def par'_def pv_def
        join_runs_def split: option.splits)
  then obtain st' where q: "apply_transition sid to prov p
        = p\<lparr>bySession := jput sid st' (bySession p), parent := par'\<rparr>"
    and st': "ws_session st' = sid" "ws_history st' \<noteq> []" "last (ws_history st') = ws_stage st'"
    by blast
  have j: "uf_wf par' \<and> (\<forall>x y. uf_root par' x = uf_root par' y \<longleftrightarrow>
      linked (E \<union> (\<lambda>t. (t, sid)) ` set (jvals pv)) x y) \<and>
      (\<forall>x. jhas par' x \<longleftrightarrow> x \<in> run_nodes (K, E) \<union> set (jvals pv))"
    unfolding par'_def by (rule join_step) (use p has in auto)
  have "rows_ok (jput sid st' (bySession p)) par'"
    by (rule rows_ok_jput [of _ "parent p"]) (use p j has st' in auto)
  moreover have "sid \<in> run_nodes (K, E)" using sid by (simp add: run_nodes_def)
  ultimately show ?thesis
    using p j sid unfolding sim_body_def q run_step.simps pt
    by (auto simp add: Field_star run_nodes_def)
qed

lemma apply_body_sim: "sim_body p KE \<Longrightarrow> sim_body (apply_body b p) (run_step KE b)"
proof (cases KE, cases b)
  fix K E assume "sim_body p KE" "KE = (K, E)"
  { fix sid pb st prov prj wt assume "b = Spawn sid pb st prov prj wt"
    then show ?thesis using apply_spawn_sim \<open>sim_body p KE\<close> \<open>KE = _\<close> by (simp add: apply_body_def) }
  { fix sid fr to via prov fwd assume "b = Transition sid fr to via prov fwd"
    then show ?thesis using apply_transition_sim \<open>sim_body p KE\<close> \<open>KE = _\<close> by (simp add: apply_body_def) }
qed (simp_all add: apply_body_def sim_body_def)

text \<open>The refinement: the fold implements the abstract run graph, for any log whatever.\<close>

lemma applyEvent_sim: "run_sim p KE \<Longrightarrow> run_sim (applyEvent p ev) (run_step KE (ev_body ev))"
proof -
  assume "run_sim p KE"
  then have "sim_body p KE" using ledger_inv_rows by (auto simp: run_sim_def sim_body_def ledger_inv_def)
  note b = apply_body_sim [OF this, of "ev_body ev", unfolded sim_body_def]
  then have wf: "uf_wf (parent (apply_body (ev_body ev) p))" by blast
  show ?thesis
    using b applyEvent_inv [OF wf] applyEvent_closed(1,3) [OF wf]
    by (simp add: run_sim_def same_graph_def)
qed

lemma foldProjection_sim: "run_sim (foldProjection evs) (run_spec evs)"
proof (induction evs rule: rev_induct)
  case Nil
  show ?case by (simp add: run_sim_def foldProjection_def run_spec_def emptyProjection_def
        ledger_inv_def run_nodes_def)
next
  case (snoc ev evs)
  from applyEvent_sim [OF snoc] show ?case by (simp add: foldProjection_def run_spec_def)
qed

lemma foldProjection_inv: "ledger_inv (foldProjection evs)"
  using foldProjection_sim by (simp add: run_sim_def)

subsection \<open>Runs are the components of the provenance edges\<close>

lemma run_sameness:
  "sameRun (foldProjection evs) a b \<longleftrightarrow>
     a \<in> run_nodes (run_spec evs) \<and> b \<in> run_nodes (run_spec evs) \<and> linked (snd (run_spec evs)) a b"
  using foldProjection_sim [of evs]
  by (auto simp: sameRun_def runRootOf_def run_sim_def)

text \<open>
  C3.  For any log, two workers are in one run of the folded projection exactly when both are
  nodes of the recorded run graph and the provenance edges of its spawn and (tracked) transition
  rows link them; path compression, event order and the audit rows make no difference.
\<close>

theorem same_run_iff_linked:
  "sameRun (foldProjection evs) a b \<longleftrightarrow>
     a \<in> run_nodes (run_spec evs) \<and> b \<in> run_nodes (run_spec evs) \<and> linked (snd (run_spec evs)) a b"
  by (rule run_sameness)

lemma run_members_iff:
  "b \<in> set (runMembers (foldProjection evs) a) \<longleftrightarrow>
     b \<in> fst (run_spec evs) \<and> a \<in> run_nodes (run_spec evs) \<and> linked (snd (run_spec evs)) b a"
  using foldProjection_sim [of evs]
  by (auto simp: runMembers_def runRootOf_def run_sim_def)

lemma run_step_mono: "fst KE \<subseteq> fst (run_step KE b) \<and> snd KE \<subseteq> snd (run_step KE b)"
  by (cases KE; cases b) auto

lemma run_spec_mono:
  "fst (run_spec evs) \<subseteq> fst (run_spec (evs @ later)) \<and> snd (run_spec evs) \<subseteq> snd (run_spec (evs @ later))"
proof (induction later rule: rev_induct)
  case (snoc e later)
  have "run_spec (evs @ later @ [e]) = run_step (run_spec (evs @ later)) (ev_body e)"
    by (simp add: run_spec_def)
  with snoc run_step_mono [of "run_spec (evs @ later)" "ev_body e"] show ?case by auto
qed simp

lemma run_nodes_mono: "fst KE \<subseteq> fst LF \<Longrightarrow> snd KE \<subseteq> snd LF \<Longrightarrow> run_nodes KE \<subseteq> run_nodes LF"
  by (cases KE; cases LF) (auto simp: run_nodes_def Field_def)

lemma same_run_mono:
  "sameRun (foldProjection evs) a b \<Longrightarrow> sameRun (foldProjection (evs @ later)) a b"
  using run_spec_mono [of evs later] run_nodes_mono [of "run_spec evs" "run_spec (evs @ later)"]
    linked_mono [of "snd (run_spec evs)" "snd (run_spec (evs @ later))" a b]
  unfolding run_sameness by blast

lemma tracked_mono:
  "jhas (bySession (foldProjection evs)) x \<Longrightarrow> jhas (bySession (foldProjection (evs @ later))) x"
  using run_spec_mono [of evs later] foldProjection_sim [of evs] foldProjection_sim [of "evs @ later"]
  by (auto simp: run_sim_def jhas_iff)

text \<open>
   A run never splits: workers that share a run still share it after any further rows.
\<close>

theorem run_never_splits:
  assumes "sameRun (foldProjection evs) a b"
  shows "sameRun (foldProjection (evs @ later)) a b"
  using assms by (rule same_run_mono)

subsection \<open>A worker's history\<close>

text \<open>The stages a log gives one worker: its last spawn, then the transitions after it.\<close>

definition trace_step :: "string \<Rightarrow> string list \<Rightarrow> ledger_body \<Rightarrow> string list" where
  "trace_step sid h b = (case b of
       Spawn s _ st _ _ _ \<Rightarrow> if s = sid then [st] else h
     | Transition s _ to _ _ _ \<Rightarrow> if s = sid \<and> h \<noteq> [] then h @ [to] else h
     | _ \<Rightarrow> h)"

definition stage_trace :: "ledger_event list \<Rightarrow> string \<Rightarrow> string list" where
  "stage_trace evs sid = foldl (trace_step sid) [] (map ev_body evs)"

definition history_of :: "projection \<Rightarrow> string \<Rightarrow> string list" where
  "history_of p sid = (case map_of (bySession p) sid of None \<Rightarrow> [] | Some w \<Rightarrow> ws_history w)"

lemma history_apply_body:
  assumes "ledger_inv p"
  shows "history_of (apply_body b p) sid = trace_step sid (history_of p sid) b"
proof (cases b)
  case (Transition s fr to via prov fwd)
  show ?thesis
    using assms by (auto simp: Transition apply_body_def apply_transition_def history_of_def Let_def
        trace_step_def map_of_jput ledger_inv_def split: option.splits)
qed (auto simp: apply_body_def apply_spawn_def history_of_def trace_step_def Let_def map_of_jput)

lemma apply_body_wf: "ledger_inv p \<Longrightarrow> run_sim p KE \<Longrightarrow> uf_wf (parent (apply_body b p))"
  using apply_body_sim [of p KE b] ledger_inv_rows
  by (auto simp: run_sim_def sim_body_def ledger_inv_def)

lemma history_applyEvent:
  assumes "run_sim p KE"
  shows "history_of (applyEvent p ev) sid = trace_step sid (history_of p sid) (ev_body ev)"
proof -
  have inv: "ledger_inv p" using assms by (simp add: run_sim_def)
  have "history_of (applyEvent p ev) sid = history_of (apply_body (ev_body ev) p) sid"
    unfolding history_of_def applyEvent_closed(1) [OF apply_body_wf [OF inv assms]]
    by (auto simp: map_of_jmap_vals split: option.splits)
  then show ?thesis using history_apply_body [OF inv] by simp
qed

text \<open>
   The projected stage history of every worker is the stage of its last spawn followed by the
  destinations of the transitions logged after it, and its current stage is the last of them;
  a worker with no spawn row has none.
\<close>

theorem stage_history_is_trace:
  "history_of (foldProjection evs) sid = stage_trace evs sid \<and>
   map_option ws_stage (map_of (bySession (foldProjection evs)) sid)
     = (if stage_trace evs sid = [] then None else Some (last (stage_trace evs sid)))"
proof -
  have h: "history_of (foldProjection evs) sid = stage_trace evs sid"
  proof (induction evs rule: rev_induct)
    case Nil
    show ?case by (simp add: history_of_def foldProjection_def emptyProjection_def stage_trace_def)
  next
    case (snoc e evs)
    have "foldProjection (evs @ [e]) = applyEvent (foldProjection evs) e"
      by (simp add: foldProjection_def)
    then show ?case
      using history_applyEvent [OF foldProjection_sim [of evs], of e sid] snoc
      by (simp add: stage_trace_def)
  qed
  moreover have "ws_history w \<noteq> [] \<and> last (ws_history w) = ws_stage w"
    if "map_of (bySession (foldProjection evs)) sid = Some w" for w
    using foldProjection_inv [of evs] that by (simp add: ledger_inv_def)
  ultimately show ?thesis
    by (cases "map_of (bySession (foldProjection evs)) sid") (auto simp: history_of_def)
qed

subsection \<open>Audit and activity rows fold to nothing\<close>

fun is_move :: "ledger_body \<Rightarrow> bool" where
  "is_move (Spawn _ _ _ _ _ _) = True"
| "is_move (Transition _ _ _ _ _ _) = True"
| "is_move _ = False"

definition same_view :: "projection \<Rightarrow> projection \<Rightarrow> bool" where
  "same_view p q \<longleftrightarrow> ledger_inv p \<and> ledger_inv q \<and> bySession p = bySession q
     \<and> same_graph (parent p) (parent q)"

lemma same_graph_union:
  assumes "uf_wf par" "uf_wf par'" "same_graph par par'"
  shows "same_graph (uf_union a b par) (uf_union a b par')"
  using assms(3) unfolding same_graph_def
  by (simp add: uf_union_state(2) [OF uf_wf_ok [OF assms(1)]]
      uf_union_state(2) [OF uf_wf_ok [OF assms(2)]]
      uf_union_nodes(1) [OF assms(1)] uf_union_nodes(1) [OF assms(2)])

lemma same_graph_join:
  assumes "uf_wf par" "uf_wf par'" "same_graph par par'"
  shows "same_graph (join_runs pv sid par) (join_runs pv sid par')"
proof -
  have "same_graph (fold (\<lambda>t. uf_union t sid) ts par) (fold (\<lambda>t. uf_union t sid) ts par')" for ts
    using assms
    by (induction ts arbitrary: par par') (auto simp: same_graph_union uf_union_nodes(2))
  then show ?thesis by (simp add: join_runs_def)
qed

lemma same_graph_touch:
  assumes "uf_wf par" "uf_wf par'" "same_graph par par'"
  shows "same_graph (uf_touch a par) (uf_touch a par')"
  using assms uf_wf_ok by (simp add: same_graph_def jhas_uf_touch)

lemma same_view_body:
  assumes "same_view p q"
  shows "bySession (apply_body b p) = bySession (apply_body b q)"
    and "same_graph (parent (apply_body b p)) (parent (apply_body b q))"
proof -
  have v: "bySession p = bySession q" "uf_wf (parent p)" "uf_wf (parent q)"
    "same_graph (parent p) (parent q)"
    using assms by (auto simp: same_view_def ledger_inv_def)
  note g = same_graph_join [OF v(2-4)]
    same_graph_join [OF uf_wf_touch [OF v(2)] uf_wf_touch [OF v(3)] same_graph_touch [OF v(2-4)]]
  show "bySession (apply_body b p) = bySession (apply_body b q)"
    using v by (cases b)
      (auto simp: apply_body_def apply_spawn_def apply_transition_def Let_def split: option.splits)
  show "same_graph (parent (apply_body b p)) (parent (apply_body b q))"
    using v g by (cases b)
      (auto simp: apply_body_def apply_spawn_def apply_transition_def Let_def split: option.splits)
qed

lemma same_view_move:
  assumes "same_view p q" "run_sim p KE" "run_sim q LF"
  shows "same_view (applyEvent p e) (applyEvent q e)"
proof -
  have wf: "uf_wf (parent (apply_body (ev_body e) p))" "uf_wf (parent (apply_body (ev_body e) q))"
    using assms apply_body_wf unfolding run_sim_def by blast+
  note b = same_view_body [OF assms(1), of "ev_body e"]
  have "ledger_inv (applyEvent p e)" "ledger_inv (applyEvent q e)"
    using applyEvent_sim [OF assms(2)] applyEvent_sim [OF assms(3)] unfolding run_sim_def by blast+
  then show ?thesis
    using b applyEvent_closed(3) [OF wf(1)] applyEvent_closed(3) [OF wf(2)]
    by (simp add: same_view_def applyEvent_closed(1) [OF wf(1)] applyEvent_closed(1) [OF wf(2)]
        same_graph_def)
qed

lemma same_view_audit:
  assumes "same_view p q" "\<not> is_move (ev_body e)" "run_sim q LF"
  shows "same_view p (applyEvent q e)"
proof -
  have body: "bySession (apply_body (ev_body e) q) = bySession q"
    "parent (apply_body (ev_body e) q) = parent q"
    using assms(2) by (cases "ev_body e"; simp add: apply_body_def)+
  have inv: "ledger_inv q" using assms(1) by (simp add: same_view_def)
  then have wf: "uf_wf (parent (apply_body (ev_body e) q))" by (simp add: body ledger_inv_def)
  have "jmap_vals (\<lambda>st. st\<lparr>ws_root := uf_root (parent q) (ws_session st)\<rparr>) (bySession q) = bySession q"
  proof -
    have "st\<lparr>ws_root := uf_root (parent q) (ws_session st)\<rparr> = st" if "(k, st) \<in> set (bySession q)" for k st
      using that inv by (auto simp: ledger_inv_def jmap_ok_def)
    then show ?thesis unfolding jmap_vals_def by (intro map_idI) auto
  qed
  then have "bySession (applyEvent q e) = bySession q"
    by (simp add: applyEvent_closed(1) [OF wf] body)
  moreover have "same_graph (parent q) (parent (applyEvent q e))"
    using applyEvent_closed(3) [OF wf] by (simp add: body)
  moreover have "ledger_inv (applyEvent q e)"
    using applyEvent_sim [OF assms(3)] by (simp add: run_sim_def)
  ultimately show ?thesis using assms(1) by (simp add: same_view_def same_graph_def)
qed

text \<open>
   Only spawn and transition rows carry binding and run state: dropping every retire,
  resume, refusal, interaction, wake and enforcement row from a log leaves each worker's row
  and every run-membership answer unchanged.
\<close>

theorem audit_rows_fold_to_nothing:
  "bySession (foldProjection (filter (\<lambda>e. is_move (ev_body e)) evs)) = bySession (foldProjection evs)
   \<and> sameRun (foldProjection (filter (\<lambda>e. is_move (ev_body e)) evs)) = sameRun (foldProjection evs)"
proof -
  have "same_view (foldProjection (filter (\<lambda>e. is_move (ev_body e)) evs)) (foldProjection evs)"
  proof (induction evs rule: rev_induct)
    case Nil
    show ?case using foldProjection_inv [of "[]"] by (simp add: same_view_def)
  next
    case (snoc e evs)
    then show ?case
      using same_view_move same_view_audit foldProjection_sim
      by (cases "is_move (ev_body e)") (simp_all add: foldProjection_def, blast+)
  qed
  then show ?thesis
    by (auto simp: same_view_def same_graph_def sameRun_def runRootOf_def fun_eq_iff)
qed

subsection \<open>Sequence numbers\<close>

lemma seq_applyEvent:
  "pr_seq (applyEvent (foldProjection evs) e)
     = (case ev_seq e of Some n \<Rightarrow> max n (pr_seq (foldProjection evs)) | None \<Rightarrow> pr_seq (foldProjection evs))"
  using applyEvent_closed(5) [OF apply_body_wf [OF foldProjection_inv foldProjection_sim]] .

lemma fold_snoc: "foldProjection (evs @ [e]) = applyEvent (foldProjection evs) e"
  by (simp add: foldProjection_def)

lemma seq_mono: "pr_seq (foldProjection evs) \<le> pr_seq (foldProjection (evs @ later))"
proof (induction later rule: rev_induct)
  case (snoc e later)
  then show ?case
    unfolding append_assoc [symmetric] fold_snoc seq_applyEvent by (auto split: option.splits)
qed simp

subsection \<open>The file and the projection in memory\<close>

text \<open>A file that ends in a line terminator, or is empty: what an uninterrupted append leaves.\<close>

definition whole_lines :: "string \<Rightarrow> bool" where
  "whole_lines f \<longleftrightarrow> f = [] \<or> last f = CHR 0x0A"

lemma split_lines_cons: "\<exists>l ls. split_lines s = l # ls"
  by (induction s) (auto split: list.splits)

lemma split_lines_append:
  "split_lines (a @ CHR 0x0A # b) = split_lines a @ split_lines b"
proof (induction a)
  case (Cons c a)
  obtain l ls where "split_lines a = l # ls" using split_lines_cons by blast
  with Cons show ?case by simp
qed simp

lemma split_lines_single: "CHR 0x0A \<notin> set s \<Longrightarrow> split_lines s = [s]"
  by (induction s) auto

lemma read_line_blank [simp]: "read_line parse cast [] = []"
  by (simp add: read_line_def js_blank_def)

lemma readEvents_line:
  assumes "whole_lines f" "CHR 0x0A \<notin> set line"
  shows "readEvents parse cast (f @ line @ [CHR 0x0A])
    = readEvents parse cast f @ read_line parse cast line"
proof (cases "f = []")
  case True
  then show ?thesis
    using split_lines_append [of line "[]"] split_lines_single [OF assms(2)]
    by (simp add: readEvents_def)
next
  case False
  then obtain g where f: "f = g @ [CHR 0x0A]"
    using assms(1) by (metis append_butlast_last_id whole_lines_def)
  show ?thesis
    using split_lines_append [of g "line @ [CHR 0x0A]"] split_lines_append [of g "[]"]
      split_lines_append [of line "[]"] split_lines_single [OF assms(2)]
    by (simp add: readEvents_def f)
qed

text \<open>
  C38.  Live and boot projection agree: after an append to a file of whole lines, the projection
  in memory is the fold of the file as a restart would read it, the file is again whole lines,
  and the appended row's \<open>seq\<close> exceeds every one folded before.  The codec hypothesis is the
  JSON round trip for the row appended.
\<close>

theorem append_agrees_with_reload:
  assumes "lg_proj l = foldProjection (readEvents parse cast (lg_file l))" "whole_lines (lg_file l)"
    and "ledger_append encode now b l = (row, l')"
    and "read_line parse cast (encode row) = [row]" "CHR 0x0A \<notin> set (encode row)"
  shows "ledger_load parse cast l' = l' \<and> whole_lines (lg_file l')
     \<and> ev_seq row = Some (pr_seq (lg_proj l) + 1) \<and> pr_seq (lg_proj l') = pr_seq (lg_proj l) + 1"
proof -
  have row: "row = ledger_row (lg_proj l) now b"
    and l': "lg_file l' = lg_file l @ encode row @ [CHR 0x0A]" "lg_proj l' = applyEvent (lg_proj l) row"
    using assms(3) by (auto simp: ledger_append_def Let_def)
  have "readEvents parse cast (lg_file l') = readEvents parse cast (lg_file l) @ [row]"
    unfolding l' using readEvents_line [OF assms(2,5), of parse cast] assms(4) by simp
  then have load: "foldProjection (readEvents parse cast (lg_file l')) = lg_proj l'"
    by (simp add: foldProjection_def l' assms(1))
  have "ledger_inv (lg_proj l)" by (simp add: assms(1) foldProjection_inv)
  then have "uf_wf (parent (apply_body (ev_body row) (lg_proj l)))"
    using apply_body_wf foldProjection_sim assms(1) by metis
  from applyEvent_closed(5) [OF this] have "pr_seq (lg_proj l') = pr_seq (lg_proj l) + 1"
    by (simp add: l' row ledger_row_def)
  with load l' row show ?thesis
    by (simp add: ledger_load_def whole_lines_def ledger_row_def)
qed

text \<open>
   A torn last line costs the next row: when a crash left an unterminated line and the
  combination with the next row does not parse, that row is in the live projection but a reload
  reads only the rows before the torn line.
\<close>

theorem torn_tail_swallows_next_row:
  assumes "lg_file l = whole @ torn" "whole_lines whole" "CHR 0x0A \<notin> set torn"
    and "ledger_append encode now b l = (row, l')"
    and "CHR 0x0A \<notin> set (encode row)" "parse (torn @ encode row) = None"
  shows "ledger_load parse cast l' = l'\<lparr>lg_proj := foldProjection (readEvents parse cast whole)\<rparr>
     \<and> lg_proj l' = applyEvent (lg_proj l) row"
proof -
  have l': "lg_file l' = whole @ (torn @ encode row) @ [CHR 0x0A]" "lg_proj l' = applyEvent (lg_proj l) row"
    using assms(1,4) by (auto simp: ledger_append_def Let_def)
  have "CHR 0x0A \<notin> set (torn @ encode row)" using assms(3,5) by simp
  from readEvents_line [OF assms(2) this, of parse cast]
  have "readEvents parse cast (lg_file l') = readEvents parse cast whole"
    unfolding l' by (simp add: read_line_def assms(6))
  then show ?thesis by (simp add: ledger_load_def l')
qed

subsection \<open>Concrete runs\<close>

definition demo_row :: "int \<Rightarrow> ledger_body \<Rightarrow> ledger_event" where
  "demo_row n b = \<lparr>ev_seq = Some n, ev_ts = ''t'', ev_body = b\<rparr>"

definition demo_log :: "ledger_event list" where
  "demo_log = [demo_row 1 (Spawn ''a'' ''pb'' ''plan'' None None None),
     demo_row 2 (Spawn ''b'' ''pb'' ''build'' (Some [(''planner'', ''a'')]) None None)]"

lemma run_never_splits_witness:
  "sameRun (foldProjection (demo_log @ [demo_row 3 (Retire ''a'' ''r'')])) ''a'' ''b''"
proof (rule run_never_splits)
  show "sameRun (foldProjection demo_log) ''a'' ''b''" by code_simp
qed

lemma append_agrees_with_reload_witness:
  "\<exists>row l'. ledger_append (\<lambda>_. ''x'') ''t'' (Resume ''a'') \<lparr>lg_proj = emptyProjection, lg_file = []\<rparr> = (row, l')
     \<and> ledger_load (\<lambda>s. if s = ''x'' then Some (JObj [(''kind'', JStr ''resume'')]) else None)
         (\<lambda>_. demo_row 1 (Resume ''a'')) l' = l'"
proof -
  let ?l = "\<lparr>lg_proj = emptyProjection, lg_file = []\<rparr>"
  let ?parse = "\<lambda>s. if s = ''x'' then Some (JObj [(''kind'', JStr ''resume'')]) else None"
  let ?row = "demo_row 1 (Resume ''a'')"
  obtain row l' where a: "ledger_append (\<lambda>_. ''x'') ''t'' (Resume ''a'') ?l = (row, l')" by fastforce
  have row: "row = ?row"
    using a by (auto simp: ledger_append_def Let_def ledger_row_def demo_row_def emptyProjection_def)
  have "ledger_load ?parse (\<lambda>_. ?row) l' = l'"
    by (rule append_agrees_with_reload [OF _ _ a, THEN conjunct1])
       (simp_all add: row foldProjection_def readEvents_def whole_lines_def read_line_def
          js_blank_def js_space_def)
  with a show ?thesis by blast
qed

lemma torn_tail_swallows_next_row_witness:
  "\<exists>row l'. ledger_append (\<lambda>_. ''x'') ''t'' (Spawn ''a'' ''pb'' ''plan'' None None None)
         \<lparr>lg_proj = emptyProjection, lg_file = ''{''\<rparr> = (row, l')
     \<and> jhas (bySession (lg_proj l')) ''a''
     \<and> \<not> jhas (bySession (lg_proj (ledger_load (\<lambda>_. None) (\<lambda>_. demo_row 1 (Resume ''a'')) l'))) ''a''"
proof -
  let ?l = "\<lparr>lg_proj = emptyProjection, lg_file = ''{''\<rparr>"
  let ?b = "Spawn ''a'' ''pb'' ''plan'' None None None"
  obtain row l' where a: "ledger_append (\<lambda>_. ''x'') ''t'' ?b ?l = (row, l')" by fastforce
  have row: "row = demo_row 1 ?b"
    using a by (auto simp: ledger_append_def Let_def ledger_row_def demo_row_def emptyProjection_def)
  have t: "ledger_load (\<lambda>_. None) (\<lambda>_. demo_row 1 (Resume ''a'')) l'
      = l'\<lparr>lg_proj := foldProjection (readEvents (\<lambda>_. None) (\<lambda>_. demo_row 1 (Resume ''a'')) [])\<rparr>
    \<and> lg_proj l' = applyEvent (lg_proj ?l) row"
    using torn_tail_swallows_next_row [of ?l "[]" "''{''", OF _ _ _ a]
    by (simp_all add: whole_lines_def row)
  have "jhas (bySession (applyEvent emptyProjection (demo_row 1 ?b))) ''a''" by code_simp
  moreover have "\<not> jhas (bySession (foldProjection [])) ''a''" by code_simp
  ultimately show ?thesis using a t by (simp add: row readEvents_def)
qed

end
