(* ===== verification/PlaybookTypes.thy ===== *)
theory PlaybookTypes
  imports PlaybookLedger
begin

text \<open>
  The playbook data model of \<open>src/playbooks.ts\<close>: tool names, enforcement levels, the tool index
  computed from the registered tools, the definition types after validation, the two catalog
  payloads, and the two lookups every decision rests on, \<open>isSpawnable\<close> and \<open>resolvePolicy\<close>.
  The identifier rules of \<open>src/identifiers.ts\<close> are here too.
\<close>

subsection \<open>Identifiers\<close>

definition is_lower :: "char \<Rightarrow> bool" where
  "is_lower c \<longleftrightarrow> CHR ''a'' \<le> c \<and> c \<le> CHR ''z''"

definition is_upper :: "char \<Rightarrow> bool" where
  "is_upper c \<longleftrightarrow> CHR ''A'' \<le> c \<and> c \<le> CHR ''Z''"

definition is_digit :: "char \<Rightarrow> bool" where
  "is_digit c \<longleftrightarrow> CHR ''0'' \<le> c \<and> c \<le> CHR ''9''"

definition SLUG_MAX :: nat where "SLUG_MAX = 40"

text \<open>\<open>SLUG_RE = /^[a-z][a-z0-9-]*$/\<close> with the length bound.\<close>

definition isSlug :: "string \<Rightarrow> bool" where
  "isSlug s \<longleftrightarrow> (case s of [] \<Rightarrow> False
      | c # cs \<Rightarrow> is_lower c \<and> list_all (\<lambda>x. is_lower x \<or> is_digit x \<or> x = CHR ''-'') cs)
     \<and> length s \<le> SLUG_MAX"

definition isSessionId :: "string \<Rightarrow> bool" where
  "isSessionId s \<longleftrightarrow> s \<noteq> [] \<and>
     list_all (\<lambda>c. is_upper c \<or> is_lower c \<or> is_digit c \<or> c = CHR ''_'' \<or> c = CHR ''-'') s"

lemma slug_no_slash: "isSlug s \<Longrightarrow> CHR ''/'' \<notin> set s"
  by (cases s) (auto simp: isSlug_def is_lower_def is_digit_def list_all_iff less_eq_char_def)

lemma slug_session_id: "isSlug s \<Longrightarrow> isSessionId s"
  by (cases s) (auto simp: isSlug_def isSessionId_def list_all_iff)

subsection \<open>Tool names and enforcement levels\<close>

definition TOOL_NAME_PREFIX :: string where
  "TOOL_NAME_PREFIX = ''mcp__code-conductor__''"

definition normalizeToolName :: "string \<Rightarrow> string" where
  "normalizeToolName name =
     (if starts_with name TOOL_NAME_PREFIX then drop (length TOOL_NAME_PREFIX) name else name)"

lemma normalizeToolName_prefixed [simp]: "normalizeToolName (TOOL_NAME_PREFIX @ n) = n"
  by (auto simp: normalizeToolName_def starts_with_iff)

definition PIN_FORBIDDEN_KEYS :: "string list" where
  "PIN_FORBIDDEN_KEYS = [''sessionId'', ''stage'', ''playbook'', ''provenance'']"

definition WILDCARD :: string where "WILDCARD = ''*''"

datatype enforcement_mode = Warn | Enforce

definition mode_text :: "enforcement_mode \<Rightarrow> string" where
  "mode_text m = (case m of Warn \<Rightarrow> ''warn'' | Enforce \<Rightarrow> ''enforce'')"

definition PLAYBOOK_ENFORCEMENT_MODES :: "string list" where
  "PLAYBOOK_ENFORCEMENT_MODES = [''warn'', ''enforce'']"

definition DEFAULT_PLAYBOOK_ENFORCEMENT :: enforcement_mode where
  "DEFAULT_PLAYBOOK_ENFORCEMENT = Enforce"

definition isPlaybookEnforcement :: "json option \<Rightarrow> bool" where
  "isPlaybookEnforcement v \<longleftrightarrow> (case as_str v of None \<Rightarrow> False | Some s \<Rightarrow> s \<in> set PLAYBOOK_ENFORCEMENT_MODES)"

definition normalizePlaybookEnforcement :: "json option \<Rightarrow> enforcement_mode" where
  "normalizePlaybookEnforcement v =
     (if v = Some (JStr ''off'') then Warn
      else if isPlaybookEnforcement v then (if v = Some (JStr ''warn'') then Warn else Enforce)
      else DEFAULT_PLAYBOOK_ENFORCEMENT)"

text \<open>Reading back a written level is the identity, and only \<open>off\<close> and \<open>warn\<close> read as \<open>Warn\<close>.\<close>

lemma normalize_mode_text [simp]: "normalizePlaybookEnforcement (Some (JStr (mode_text m))) = m"
  by (cases m) (simp_all add: normalizePlaybookEnforcement_def mode_text_def
      isPlaybookEnforcement_def PLAYBOOK_ENFORCEMENT_MODES_def)

lemma normalize_Warn_iff:
  "normalizePlaybookEnforcement v = Warn \<longleftrightarrow> v = Some (JStr ''off'') \<or> v = Some (JStr ''warn'')"
  by (auto simp: normalizePlaybookEnforcement_def isPlaybookEnforcement_def
      PLAYBOOK_ENFORCEMENT_MODES_def DEFAULT_PLAYBOOK_ENFORCEMENT_def)

subsection \<open>The tool index\<close>

fun js_truthy :: "json option \<Rightarrow> bool" where
  "js_truthy None = False"
| "js_truthy (Some JNull) = False"
| "js_truthy (Some (JBool b)) = b"
| "js_truthy (Some (JNum n)) = (n \<noteq> ''0'')"
| "js_truthy (Some (JStr s)) = (s \<noteq> [])"
| "js_truthy (Some _) = True"

type_synonym tool_index = "(string, string list) jmap"

record tool_def =
  td_name :: string
  td_inputSchema :: json
  td_annotations :: "json option"

definition tool_props :: "tool_def \<Rightarrow> args" where
  "tool_props t = asRecord (map_of (asRecord (Some (td_inputSchema t))) ''properties'')"

definition tool_governable :: "tool_def \<Rightarrow> bool" where
  "tool_governable t \<longleftrightarrow>
     js_truthy (map_of (tool_props t) ''sessionId'') \<or> td_name t = ''spawn_instance''"

definition tool_interaction :: "tool_def \<Rightarrow> bool" where
  "tool_interaction t \<longleftrightarrow> js_truthy (map_of (tool_props t) ''sessionId'')
     \<and> \<not> js_truthy (map_of (asRecord (td_annotations t)) ''readOnlyHint'')"

text \<open>The loop of \<open>loadTools\<close> over \<open>buildTools()\<close>, whose result is the argument.\<close>

definition loadTools :: "tool_def list \<Rightarrow> tool_index \<times> string list" where
  "loadTools ts =
     (fold (\<lambda>t idx. if tool_governable t then jput (td_name t) (jkeys (tool_props t)) idx else idx) ts [],
      remdups (map td_name (filter tool_interaction ts)))"

definition loadToolIndex :: "tool_def list \<Rightarrow> tool_index" where
  "loadToolIndex ts = fst (loadTools ts)"

definition loadInteractionTools :: "tool_def list \<Rightarrow> string list" where
  "loadInteractionTools ts = snd (loadTools ts)"

definition governableToolNames :: "tool_index \<Rightarrow> string list" where
  "governableToolNames idx = sort (jkeys idx)"

definition governableToolCatalog :: "tool_index \<Rightarrow> (string \<times> string list) list" where
  "governableToolCatalog idx = map (\<lambda>name. (name,
       sort (filter (\<lambda>arg. arg \<notin> set PIN_FORBIDDEN_KEYS)
         (case map_of idx name of Some props \<Rightarrow> props | None \<Rightarrow> [])))) (governableToolNames idx)"

lemma loadToolIndex_keys:
  "set (jkeys (loadToolIndex ts)) = td_name ` {t \<in> set ts. tool_governable t}"
proof -
  have "set (jkeys (fold (\<lambda>t idx. if tool_governable t then jput (td_name t) (jkeys (tool_props t)) idx
      else idx) ts idx)) = set (jkeys idx) \<union> td_name ` {t \<in> set ts. tool_governable t}" for idx
    by (induction ts arbitrary: idx) auto
  then show ?thesis by (simp add: loadToolIndex_def loadTools_def)
qed

lemma loadInteractionTools_set:
  "set (loadInteractionTools ts) = td_name ` {t \<in> set ts. tool_interaction t}"
  by (auto simp: loadInteractionTools_def loadTools_def)

subsection \<open>The definition types\<close>

text \<open>A pin's value is a literal: \<open>JNull\<close>, \<open>JBool\<close>, \<open>JNum\<close> or \<open>JStr\<close>.\<close>

datatype tool_policy = Allow | Deny | Pin "(string, json) jmap"

datatype liveness = Live | Retired | AnyLiveness

datatype workers = One | Many

record needs_entry =
  ne_stage :: string
  ne_position :: "string list"
  ne_liveness :: liveness

record stage =
  st_needs :: "needs_entry list"
  st_workers :: workers
  st_tools :: "(string, tool_policy) jmap"
  st_description :: "string option"

record transition =
  tr_from :: string
  tr_to :: string
  tr_on :: "string option"
  tr_description :: "string option"

record playbook =
  pb_id :: string
  pb_name :: string
  pb_description :: string
  pb_entryStages :: "string list"
  pb_stages :: "(string, stage) jmap"
  pb_transitions :: "transition list"
  pb_plugin :: "string option"
  pb_builtin :: bool

datatype playbook_source = FromBuiltin | FromUser | FromPlugin string

definition playbookSource :: "playbook \<Rightarrow> playbook_source" where
  "playbookSource pb = (case pb_plugin pb of
       Some p \<Rightarrow> FromPlugin p
     | None \<Rightarrow> if pb_builtin pb then FromBuiltin else FromUser)"

subsection \<open>The two lookups\<close>

definition isSpawnable :: "stage option \<Rightarrow> bool" where
  "isSpawnable s = (case s of
       None \<Rightarrow> False
     | Some st \<Rightarrow> (case map_of (st_tools st) ''spawn_instance'' of
           None \<Rightarrow> False | Some p \<Rightarrow> p \<noteq> Deny))"

definition resolvePolicy :: "stage \<Rightarrow> string \<Rightarrow> tool_policy" where
  "resolvePolicy st toolName = (case map_of (st_tools st) toolName of
       Some p \<Rightarrow> p
     | None \<Rightarrow> (case map_of (st_tools st) WILDCARD of
           Some p \<Rightarrow> p
         | None \<Rightarrow> if toolName = ''spawn_instance'' then Deny else Allow))"

lemma spawnable_stage_name:
  "isSpawnable (map_of (pb_stages pb) s) \<Longrightarrow> s \<in> set (jkeys (pb_stages pb))"
  using jhas_iff [of "pb_stages pb" s] by (auto simp: isSpawnable_def jhas_def)

lemma spawnable_resolves: "isSpawnable (Some st) \<Longrightarrow> resolvePolicy st ''spawn_instance'' \<noteq> Deny"
  by (auto simp: isSpawnable_def resolvePolicy_def split: option.splits)

subsection \<open>The catalog payloads\<close>

record playbook_summary =
  ps_id :: string
  ps_name :: string
  ps_description :: string
  ps_entryStages :: "string list"
  ps_spawnableStages :: "string list"

definition playbookSummary :: "playbook \<Rightarrow> playbook_summary" where
  "playbookSummary pb = \<lparr>ps_id = pb_id pb, ps_name = pb_name pb, ps_description = pb_description pb,
     ps_entryStages = pb_entryStages pb,
     ps_spawnableStages =
       filter (\<lambda>s. isSpawnable (map_of (pb_stages pb) s)) (jkeys (pb_stages pb))\<rparr>"

record stage_detail =
  sd_needs :: "needs_entry list"
  sd_workers :: workers
  sd_tools :: "(string, tool_policy) jmap"
  sd_spawnable :: bool
  sd_description :: "string option"

record transition_detail =
  td_from :: string
  td_to :: string
  td_via :: string
  td_description :: "string option"

record playbook_detail =
  pd_id :: string
  pd_name :: string
  pd_description :: string
  pd_entryStages :: "string list"
  pd_stages :: "(string, stage_detail) jmap"
  pd_transitions :: "transition_detail list"

definition stageDetail :: "stage \<Rightarrow> stage_detail" where
  "stageDetail st = \<lparr>sd_needs = st_needs st, sd_workers = st_workers st, sd_tools = st_tools st,
     sd_spawnable = isSpawnable (Some st), sd_description = st_description st\<rparr>"

definition edge_via :: "transition \<Rightarrow> string" where
  "edge_via t = (case tr_on t of Some tool \<Rightarrow> tool | None \<Rightarrow> ''send_prompt'')"

definition transitionDetail :: "transition \<Rightarrow> transition_detail" where
  "transitionDetail t = \<lparr>td_from = tr_from t, td_to = tr_to t, td_via = edge_via t,
     td_description = tr_description t\<rparr>"

definition playbookDetail :: "playbook \<Rightarrow> playbook_detail" where
  "playbookDetail pb = \<lparr>pd_id = pb_id pb, pd_name = pb_name pb, pd_description = pb_description pb,
     pd_entryStages = pb_entryStages pb,
     pd_stages = jmap_vals stageDetail (pb_stages pb),
     pd_transitions = map transitionDetail (pb_transitions pb)\<rparr>"

text \<open>The comment on \<open>via\<close>: no information is lost while no edge declares \<open>on: send_prompt\<close>.\<close>

lemma transitionDetail_lossless:
  assumes "tr_on t \<noteq> Some ''send_prompt''" "tr_on u \<noteq> Some ''send_prompt''"
  shows "transitionDetail t = transitionDetail u \<longleftrightarrow> t = u"
  using assms by (cases t; cases u) (auto simp: transitionDetail_def edge_via_def split: option.splits)

subsection \<open>Plugin ids\<close>

definition pluginIdOfPlaybook :: "string \<Rightarrow> string option" where
  "pluginIdOfPlaybook i = (case index_of (CHR ''/'') i of
       None \<Rightarrow> None | Some n \<Rightarrow> if n > 0 then Some (take n i) else None)"

datatype missing_cause = Removed_or_renamed | Plugin_not_providing string

definition missingPlaybookCause :: "string \<Rightarrow> missing_cause" where
  "missingPlaybookCause i = (case pluginIdOfPlaybook i of
       None \<Rightarrow> Removed_or_renamed | Some p \<Rightarrow> Plugin_not_providing p)"

lemma index_of_slash_append:
  "CHR ''/'' \<notin> set p \<Longrightarrow> index_of (CHR ''/'') (p @ CHR ''/'' # s) = Some (length p)"
  by (induction p) auto

lemma plugin_id_roundtrip:
  "isSlug p \<Longrightarrow> pluginIdOfPlaybook (p @ ''/'' @ s) = Some p"
  using slug_no_slash index_of_slash_append [of p s]
  by (auto simp: pluginIdOfPlaybook_def isSlug_def)

lemma slug_has_no_plugin: "isSlug i \<Longrightarrow> pluginIdOfPlaybook i = None"
  using slug_no_slash [of i] by (auto simp: pluginIdOfPlaybook_def index_of_None [symmetric])

end
