(* ===== verification/PlaybookPolicy.thy ===== *)
theory PlaybookPolicy
  imports PlaybookTypes
begin

text \<open>
  The pure policy decision of \<open>src/playbooks.ts\<close>: \<open>decide\<close> and everything it calls.  The
  liveness oracle \<open>isLive\<close> is an argument, as it is in the code.  A refusal's \<open>reason\<close> text is
  kept as a constructor carrying the values the text interpolates.  An object indexed by a name
  from outside goes through \<open>js_index\<close>: a name that only \<open>Object.prototype\<close> has reads a
  truthy value that is no stage, and the property access on it that follows throws, which is the
  outcome \<open>Throws\<close>.  Tool names are those of registered tools, so \<open>stage.tools[toolName]\<close> is a
  plain lookup.
\<close>

subsection \<open>Outcomes\<close>

datatype refusal_code =
    PLAYBOOK_UNKNOWN | STAGE_UNKNOWN | STAGE_NOT_SPAWNABLE | TRANSITION_ILLEGAL
  | NEEDS_UNSATISFIED | NEEDS_WORKER_GONE | ARG_PIN_CONFLICT | TOOL_DENIED_IN_STAGE
  | STAGE_AT_CAPACITY | PLAYBOOK_MISMATCH | FORWARD_DENIED_IN_STAGE

record legal_moves =
  lm_playbook :: "string option"
  lm_stage :: "string option"
  lm_transitions :: "(string \<times> string) list"

datatype move_kind = KSpawn | KResume | KTransition | KSelf | KNone

record move =
  mv_kind :: move_kind
  mv_from :: "string option"
  mv_to :: "string option"
  mv_via :: "string option"
  mv_playbook :: "string option"
  mv_recorded :: bool

datatype illegal_reason =
    Not_a_stage string string
  | No_edge string string string
  | Driven_by string string string

datatype census = No_census | Satisfied_by "string list" | Nobody_now "string list"

type_synonym playbook_hint = "(string \<times> string list) list"

datatype reason =
    R_untracked_ancestor string
  | R_ancestors_disagree "string list"
  | R_supplied_vs_inherited string string
  | R_resume_untracked string playbook_hint
  | R_root_needs_playbook playbook_hint
  | R_no_playbook string playbook_hint
  | R_stage_unnamed string "string list"
  | R_no_such_stage string string "string list"
  | R_not_spawnable string string "string list"
  | R_capacity string string
  | R_resume_unloaded string string missing_cause playbook_hint
  | R_resume_provenance string string string
  | R_resume_conflict string string string string string
  | R_worker_unloaded string string missing_cause bool "string list"
  | R_worker_stage_gone string string string "string list"
  | R_tool_denied string string string
  | R_move_illegal string string illegal_reason
  | R_need_missing string string string string census
  | R_need_untracked string "string option"
  | R_need_playbook string string string
  | R_need_history string string "string list"
  | R_need_gone string string string
  | R_need_running string string string
  | R_need_position string string "string list" string
  | R_need_run string string string
  | R_forward_denied string string string
  | R_pin_conflict string string string string json "json option"

datatype decision = Permit args move | Refuse refusal_code reason legal_moves | Throws

text \<open>The stage lookup \<open>playbook.stages[name]\<close>.\<close>

abbreviation stage_ref :: "playbook \<Rightarrow> string \<Rightarrow> stage js_ref" where
  "stage_ref pb name \<equiv> js_index (pb_stages pb) name"

definition short :: "string \<Rightarrow> string" where
  "short sid = take 8 sid"

definition plain_move :: "move_kind \<Rightarrow> move" where
  "plain_move k = \<lparr>mv_kind = k, mv_from = None, mv_to = None, mv_via = None, mv_playbook = None,
     mv_recorded = False\<rparr>"

definition noMoves :: legal_moves where
  "noMoves = \<lparr>lm_playbook = None, lm_stage = None, lm_transitions = []\<rparr>"

definition legalMovesFrom :: "playbook option \<Rightarrow> string option \<Rightarrow> legal_moves" where
  "legalMovesFrom pb st = \<lparr>lm_playbook = map_option pb_id pb, lm_stage = st,
     lm_transitions = (case (pb, st) of
         (Some p, Some s) \<Rightarrow> if s = [] then [] else
           map (\<lambda>t. (tr_to t, edge_via t)) (filter (\<lambda>t. tr_from t = s) (pb_transitions p))
       | _ \<Rightarrow> [])\<rparr>"

definition knownPlaybooksHint :: "(string, playbook) jmap \<Rightarrow> playbook_hint" where
  "knownPlaybooksHint pbs = map (\<lambda>i. (i, case map_of pbs i of
       None \<Rightarrow> []
     | Some pb \<Rightarrow> filter (\<lambda>s. isSpawnable (map_of (pb_stages pb) s)) (pb_entryStages pb))) (sort (jkeys pbs))"

definition spawnableStages :: "playbook \<Rightarrow> string list" where
  "spawnableStages pb = filter (\<lambda>s. isSpawnable (map_of (pb_stages pb) s)) (jkeys (pb_stages pb))"

text \<open>The string members of \<open>args.provenance\<close>; assigning the key \<open>__proto__\<close> a string does nothing.\<close>

definition supplied_provenance :: "args \<Rightarrow> (string, string) jmap" where
  "supplied_provenance a =
     filter (\<lambda>(k, _). k \<noteq> ''__proto__'') (string_members (asRecord (map_of a ''provenance'')))"

subsection \<open>Needs\<close>

definition describeNeed :: "needs_entry \<Rightarrow> string" where
  "describeNeed need =
     (let who = (case ne_liveness need of Live \<Rightarrow> ''live worker'' | Retired \<Rightarrow> ''RETIRED worker''
                 | AnyLiveness \<Rightarrow> ''worker'');
          where = js_join '' or '' (map (\<lambda>s. [CHR 0x27] @ s @ [CHR 0x27]) (ne_position need))
      in if WILDCARD \<in> set (ne_position need)
         then who @ '' that has passed through stage '' @ [CHR 0x27] @ ne_stage need @ [CHR 0x27]
         else if ne_position need = [ne_stage need] then who @ '' in stage '' @ where
         else who @ '' that has passed through stage '' @ [CHR 0x27] @ ne_stage need @ [CHR 0x27]
              @ '' and is now in '' @ where)"

definition checkNeedEntry ::
  "needs_entry \<Rightarrow> string \<Rightarrow> playbook \<Rightarrow> projection \<Rightarrow> string option \<Rightarrow> (string \<Rightarrow> bool)
   \<Rightarrow> (refusal_code \<times> reason) option" where
  "checkNeedEntry need sid pb p anchor isLive =
     (case map_of (bySession p) sid of
        None \<Rightarrow> Some (NEEDS_UNSATISFIED, R_need_untracked (ne_stage need) (Some sid))
      | Some target \<Rightarrow>
          if ws_playbook target \<noteq> pb_id pb
            then Some (PLAYBOOK_MISMATCH, R_need_playbook (ne_stage need) (ws_playbook target) (pb_id pb))
          else if \<not> hasEverBeen p sid (ne_stage need)
            then Some (NEEDS_UNSATISFIED, R_need_history (ne_stage need) (short sid) (ws_history target))
          else if ne_liveness need = Live \<and> \<not> isLive sid
            then Some (NEEDS_WORKER_GONE, R_need_gone (ne_stage need) (short sid) (ws_stage target))
          else if ne_liveness need = Retired \<and> isLive sid
            then Some (NEEDS_UNSATISFIED, R_need_running (ne_stage need) (short sid) (ws_stage target))
          else if WILDCARD \<notin> set (ne_position need) \<and> ws_stage target \<notin> set (ne_position need)
            then Some (NEEDS_UNSATISFIED,
                   R_need_position (ne_stage need) (short sid) (ne_position need) (ws_stage target))
          else (case anchor of
              None \<Rightarrow> None
            | Some a \<Rightarrow> if a \<noteq> [] \<and> a \<noteq> sid \<and> runRootOf p a \<noteq> None \<and> \<not> sameRun p a sid
                then Some (NEEDS_UNSATISFIED, R_need_run (ne_stage need) (short sid) (short a))
                else None))"

definition needCensus ::
  "needs_entry \<Rightarrow> playbook \<Rightarrow> projection \<Rightarrow> string option \<Rightarrow> (string \<Rightarrow> bool) \<Rightarrow> census" where
  "needCensus need pb p anchor isLive =
     (case anchor of
        None \<Rightarrow> No_census
      | Some a \<Rightarrow>
          if a = [] then No_census
          else (let members = runMembers p a;
                    satisfiers = filter (\<lambda>m. checkNeedEntry need m pb p anchor isLive = None) members
                in if satisfiers \<noteq> [] then Satisfied_by (map short satisfiers)
                   else Nobody_now (map short
                     (if ne_liveness need = Live
                      then filter (\<lambda>m. hasEverBeen p m (ne_stage need) \<and> \<not> isLive m) members
                      else []))))"

fun check_each_need ::
  "needs_entry list \<Rightarrow> string \<Rightarrow> playbook \<Rightarrow> (string, string) jmap \<Rightarrow> projection \<Rightarrow> string option
   \<Rightarrow> (string \<Rightarrow> bool) \<Rightarrow> (refusal_code \<times> reason) option" where
  "check_each_need [] stageName pb prov p anchor isLive = None"
| "check_each_need (need # rest) stageName pb prov p anchor isLive =
     (let missing = Some (NEEDS_UNSATISFIED, R_need_missing stageName (pb_id pb) (describeNeed need)
            (ne_stage need) (needCensus need pb p anchor isLive))
      in case js_index prov (ne_stage need) of
           Missing \<Rightarrow> missing
         | Inherited \<Rightarrow> Some (NEEDS_UNSATISFIED, R_need_untracked (ne_stage need) None)
         | Own sid \<Rightarrow> if sid = [] then missing
             else (case checkNeedEntry need sid pb p anchor isLive of
                 Some r \<Rightarrow> Some r
               | None \<Rightarrow> check_each_need rest stageName pb prov p anchor isLive))"

definition checkNeeds ::
  "playbook \<Rightarrow> stage \<Rightarrow> string \<Rightarrow> (string, string) jmap \<Rightarrow> projection \<Rightarrow> string option
   \<Rightarrow> (string \<Rightarrow> bool) \<Rightarrow> decision option" where
  "checkNeeds pb st stageName prov p subject isLive =
     (let moves = legalMovesFrom (Some pb) (Some stageName);
          anchor = (case subject of Some s \<Rightarrow> Some s
                    | None \<Rightarrow> (case jvals prov of [] \<Rightarrow> None | a # _ \<Rightarrow> Some a))
      in map_option (\<lambda>(c, r). Refuse c r moves)
           (check_each_need (st_needs st) stageName pb prov p anchor isLive))"

subsection \<open>Pins\<close>

definition SPAWN_SHAPE_PINS :: "string list" where
  "SPAWN_SHAPE_PINS = [''createWorktree'', ''baseWorktree'', ''name'', ''model'', ''backend'']"

text \<open>
  The loop of \<open>applyPin\<close>: \<open>arg in args\<close> sees inherited members, whose value is never a literal.
\<close>

fun fill_pins ::
  "args \<Rightarrow> string list \<Rightarrow> (string, json) jmap \<Rightarrow> args \<Rightarrow> (string \<times> json \<times> json option) + args" where
  "fill_pins a skip [] patched = Inr patched"
| "fill_pins a skip ((arg, want) # pins) patched =
     (if arg \<in> set skip then fill_pins a skip pins patched
      else case js_index a arg of
          Missing \<Rightarrow> fill_pins a skip pins (jput arg want patched)
        | Inherited \<Rightarrow> Inl (arg, want, None)
        | Own v \<Rightarrow> if v = want then fill_pins a skip pins patched else Inl (arg, want, Some v))"

definition applyPin ::
  "stage \<Rightarrow> string \<Rightarrow> playbook \<Rightarrow> string \<Rightarrow> args \<Rightarrow> move \<Rightarrow> string list \<Rightarrow> decision" where
  "applyPin st stageName pb toolName a mv skip =
     (case resolvePolicy st toolName of
        Pin pins \<Rightarrow> (case fill_pins a skip pins a of
            Inl (arg, want, got) \<Rightarrow> Refuse ARG_PIN_CONFLICT
              (R_pin_conflict stageName (pb_id pb) toolName arg want got)
              (legalMovesFrom (Some pb) (Some stageName))
          | Inr patched \<Rightarrow> Permit patched mv)
      | _ \<Rightarrow> Permit a mv)"

subsection \<open>Spawn and resume\<close>

definition decideResume ::
  "args \<Rightarrow> string \<Rightarrow> worker_state \<Rightarrow> (string, playbook) jmap \<Rightarrow> decision" where
  "decideResume a resumeId recd pbs =
     (let pbo = map_of pbs (ws_playbook recd);
          moves = legalMovesFrom pbo (Some (ws_stage recd));
          suppliedPlaybook = nonempty_str (map_of a ''playbook'');
          suppliedStage = nonempty_str (map_of a ''stage'');
          orElse = (\<lambda>x y. case x of Some v \<Rightarrow> v | None \<Rightarrow> y)
      in case pbo of
           None \<Rightarrow> Refuse PLAYBOOK_UNKNOWN (R_resume_unloaded (short resumeId) (ws_playbook recd)
               (missingPlaybookCause (ws_playbook recd)) (knownPlaybooksHint pbs)) moves
         | Some pb \<Rightarrow>
             if asRecord (map_of a ''provenance'') \<noteq> []
             then Refuse PLAYBOOK_MISMATCH
               (R_resume_provenance (short resumeId) (ws_playbook recd) (ws_stage recd)) moves
             else if orElse suppliedPlaybook (ws_playbook recd) \<noteq> ws_playbook recd
                   \<or> orElse suppliedStage (ws_stage recd) \<noteq> ws_stage recd
             then Refuse PLAYBOOK_MISMATCH
               (R_resume_conflict (short resumeId) (ws_playbook recd) (ws_stage recd)
                 (orElse suppliedPlaybook (ws_playbook recd)) (orElse suppliedStage (ws_stage recd))) moves
             else (let mv = (plain_move KResume)\<lparr>mv_to := Some (ws_stage recd),
                                                mv_playbook := Some (ws_playbook recd)\<rparr>
                   in case stage_ref pb (ws_stage recd) of
                        Missing \<Rightarrow> Permit a mv
                      | Inherited \<Rightarrow> Throws
                      | Own st \<Rightarrow> applyPin st (ws_stage recd) pb ''spawn_instance'' a mv SPAWN_SHAPE_PINS))"

text \<open>The playbook a spawn binds: inherited from the named workers, else supplied.\<close>

definition spawn_binding ::
  "args \<Rightarrow> string \<Rightarrow> projection \<Rightarrow> (string, playbook) jmap \<Rightarrow> (refusal_code \<times> reason) + string" where
  "spawn_binding a resumeId p pbs =
     (let ancestors = jvals (supplied_provenance a);
          named = nonempty_str (map_of a ''playbook'')
      in if ancestors \<noteq> [] then
           (case List.find (\<lambda>sid. map_of (bySession p) sid = None) ancestors of
              Some sid \<Rightarrow> Inl (NEEDS_UNSATISFIED, R_untracked_ancestor sid)
            | None \<Rightarrow>
                (let pids = map (\<lambda>sid. case map_of (bySession p) sid of
                              Some st \<Rightarrow> ws_playbook st | None \<Rightarrow> []) ancestors
                 in if length (remdups pids) > 1
                    then Inl (PLAYBOOK_MISMATCH, R_ancestors_disagree (sort (remdups pids)))
                    else (case named of
                        Some supplied \<Rightarrow> if supplied \<noteq> hd pids
                          then Inl (PLAYBOOK_MISMATCH, R_supplied_vs_inherited supplied (hd pids))
                          else Inr (hd pids)
                      | None \<Rightarrow> Inr (hd pids))))
         else (case named of
             Some supplied \<Rightarrow> Inr supplied
           | None \<Rightarrow> if resumeId \<noteq> []
               then Inl (PLAYBOOK_UNKNOWN, R_resume_untracked (short resumeId) (knownPlaybooksHint pbs))
               else Inl (PLAYBOOK_UNKNOWN, R_root_needs_playbook (knownPlaybooksHint pbs))))"

text \<open>What follows once the stage object is in hand.\<close>

definition spawn_into ::
  "args \<Rightarrow> string \<Rightarrow> playbook \<Rightarrow> string \<Rightarrow> stage \<Rightarrow> projection \<Rightarrow> (string \<Rightarrow> bool) \<Rightarrow> decision" where
  "spawn_into a resumeId pb stageName st p isLive =
     (let prov = supplied_provenance a; ancestors = jvals prov;
          moves = legalMovesFrom (Some pb) (Some stageName);
          blockers = (if st_workers st = One \<and> ancestors \<noteq> []
                      then liveSessionsInStage p (hd ancestors) stageName isLive else [])
      in if \<not> isSpawnable (Some st)
         then Refuse STAGE_NOT_SPAWNABLE (R_not_spawnable stageName (pb_id pb) (spawnableStages pb)) moves
         else (case checkNeeds pb st stageName prov p None isLive of
             Some refusal \<Rightarrow> refusal
           | None \<Rightarrow>
               if blockers \<noteq> []
               then Refuse STAGE_AT_CAPACITY (R_capacity stageName (short (hd blockers))) moves
               else applyPin st stageName pb ''spawn_instance'' a
                 ((plain_move KSpawn)\<lparr>mv_to := Some stageName, mv_playbook := Some (pb_id pb)\<rparr>)
                 (if resumeId \<noteq> [] then SPAWN_SHAPE_PINS else [])))"

definition resume_id :: "args \<Rightarrow> string option \<Rightarrow> string" where
  "resume_id a handle = (case handle of
       Some h \<Rightarrow> if h \<noteq> [] then h else str_or_empty (map_of a ''resume'')
     | None \<Rightarrow> str_or_empty (map_of a ''resume''))"

definition decideSpawn ::
  "args \<Rightarrow> projection \<Rightarrow> (string, playbook) jmap \<Rightarrow> (string \<Rightarrow> bool) \<Rightarrow> string option \<Rightarrow> decision" where
  "decideSpawn a p pbs isLive handle =
     (let resumeId = resume_id a handle;
          recd = (if resumeId \<noteq> [] then map_of (bySession p) resumeId else None)
      in case recd of
           Some w \<Rightarrow> decideResume a resumeId w pbs
         | None \<Rightarrow>
         (case spawn_binding a resumeId p pbs of
            Inl (c, r) \<Rightarrow> Refuse c r noMoves
          | Inr pid \<Rightarrow>
          (case map_of pbs pid of
             None \<Rightarrow> Refuse PLAYBOOK_UNKNOWN (R_no_playbook pid (knownPlaybooksHint pbs)) noMoves
           | Some pb \<Rightarrow>
               (let stageName = str_or_empty (map_of a ''stage'') in
                if stageName = []
                then Refuse STAGE_UNKNOWN (R_stage_unnamed (pb_id pb) (pb_entryStages pb))
                       (legalMovesFrom (Some pb) None)
                else (case stage_ref pb stageName of
                    Missing \<Rightarrow> Refuse STAGE_UNKNOWN
                        (R_no_such_stage (pb_id pb) stageName (jkeys (pb_stages pb)))
                        (legalMovesFrom (Some pb) None)
                  | Inherited \<Rightarrow> Throws
                  | Own st \<Rightarrow> spawn_into a resumeId pb stageName st p isLive)))))"

subsection \<open>Moves of a tracked worker\<close>

record resolved_move =
  rm_current :: string
  rm_resulting :: "string option"
  rm_kind :: move_kind
  rm_via :: "string option"
  rm_recorded :: bool
  rm_illegal :: "(refusal_code \<times> illegal_reason) option"

definition stay :: "string \<Rightarrow> resolved_move" where
  "stay cur = \<lparr>rm_current = cur, rm_resulting = Some cur, rm_kind = KNone, rm_via = None,
     rm_recorded = False, rm_illegal = None\<rparr>"

definition move_to :: "string \<Rightarrow> string \<Rightarrow> string \<Rightarrow> resolved_move" where
  "move_to cur target via =
     (stay cur)\<lparr>rm_resulting := Some target, rm_kind := KTransition, rm_via := Some via\<rparr>"

definition illegal_move :: "string \<Rightarrow> refusal_code \<Rightarrow> illegal_reason \<Rightarrow> resolved_move" where
  "illegal_move cur c r = (stay cur)\<lparr>rm_resulting := None, rm_illegal := Some (c, r)\<rparr>"

text \<open>\<open>send_prompt\<close> naming a stage: the self-edge, then the declared edge and its driver.\<close>

definition resolve_prompt :: "playbook \<Rightarrow> string \<Rightarrow> string \<Rightarrow> resolved_move" where
  "resolve_prompt pb cur target =
     (if target = cur
      then (stay cur)\<lparr>rm_kind := KSelf,
             rm_recorded := list_ex (\<lambda>t. tr_from t = cur \<and> tr_to t = cur) (pb_transitions pb)\<rparr>
      else if stage_ref pb target = Missing
      then illegal_move cur STAGE_UNKNOWN (Not_a_stage target (pb_id pb))
      else (case List.find (\<lambda>t. tr_from t = cur \<and> tr_to t = target) (pb_transitions pb) of
          None \<Rightarrow> illegal_move cur TRANSITION_ILLEGAL (No_edge (pb_id pb) cur target)
        | Some edge \<Rightarrow> (case tr_on edge of
              None \<Rightarrow> move_to cur target ''send_prompt''
            | Some tool \<Rightarrow> if tool = [] then move_to cur target ''send_prompt''
                else illegal_move cur TRANSITION_ILLEGAL (Driven_by cur target tool))))"

text \<open>Any other call: a declared \<open>on\<close> fires its edge.\<close>

definition resolve_auto :: "string \<Rightarrow> playbook \<Rightarrow> string \<Rightarrow> resolved_move" where
  "resolve_auto toolName pb cur =
     (case List.find (\<lambda>t. tr_from t = cur \<and> tr_on t = Some toolName) (pb_transitions pb) of
        Some t \<Rightarrow> move_to cur (tr_to t) toolName
      | None \<Rightarrow> stay cur)"

definition resolveMove :: "string \<Rightarrow> args \<Rightarrow> playbook \<Rightarrow> string \<Rightarrow> resolved_move" where
  "resolveMove toolName a pb cur =
     (case (if toolName = ''send_prompt'' then as_str (map_of a ''stage'') else None) of
        Some target \<Rightarrow> resolve_prompt pb cur target
      | None \<Rightarrow> resolve_auto toolName pb cur)"

datatype forward_check = Forward_ok | Forward_refused decision | Forward_throws

definition checkForwardSource ::
  "args \<Rightarrow> projection \<Rightarrow> (string, playbook) jmap \<Rightarrow> worker_state option \<Rightarrow> forward_check" where
  "checkForwardSource a p pbs subject =
     (let sourceId = str_or_empty (map_of (asRecord (map_of a ''forward'')) ''sessionId'') in
      if sourceId = [] then Forward_ok
      else case map_of (bySession p) sourceId of
          None \<Rightarrow> Forward_ok
        | Some src \<Rightarrow>
          (case map_of pbs (ws_playbook src) of
             None \<Rightarrow> Forward_ok
           | Some spb \<Rightarrow>
             (case stage_ref spb (ws_stage src) of
                Missing \<Rightarrow> Forward_ok
              | Inherited \<Rightarrow> Forward_throws
              | Own st \<Rightarrow>
                  if resolvePolicy st ''get_recent_messages'' \<noteq> Deny then Forward_ok
                  else Forward_refused (Refuse FORWARD_DENIED_IN_STAGE
                    (R_forward_denied (short sourceId) (ws_stage src) (ws_playbook src))
                    (legalMovesFrom (case subject of None \<Rightarrow> None | Some s \<Rightarrow> map_of pbs (ws_playbook s))
                       (map_option ws_stage subject))))))"

text \<open>Scope rule 2: needs, capacity and pin of the resulting stage.\<close>

definition move_of :: "resolved_move \<Rightarrow> string \<Rightarrow> string \<Rightarrow> move" where
  "move_of m cur resulting =
     (if rm_kind m = KTransition
      then (plain_move KTransition)\<lparr>mv_from := Some cur, mv_to := Some resulting, mv_via := rm_via m\<rparr>
      else if rm_recorded m
      then (plain_move KSelf)\<lparr>mv_from := Some cur, mv_to := Some resulting,
             mv_via := Some ''send_prompt'', mv_recorded := True\<rparr>
      else plain_move (rm_kind m))"

definition enter_stage ::
  "string \<Rightarrow> args \<Rightarrow> playbook \<Rightarrow> string \<Rightarrow> string \<Rightarrow> resolved_move \<Rightarrow> string \<Rightarrow> stage \<Rightarrow> projection
   \<Rightarrow> (string \<Rightarrow> bool) \<Rightarrow> decision" where
  "enter_stage toolName a pb sid cur m resultingName resulting p isLive =
     (let entering = (rm_kind m = KTransition);
          blockers = (if st_workers resulting = One
                      then liveSessionsInStage p sid resultingName isLive else []);
          pinned = applyPin resulting resultingName pb toolName a (move_of m cur resultingName) []
      in if \<not> entering then pinned
         else (case checkNeeds pb resulting resultingName (supplied_provenance a) p (Some sid) isLive of
             Some refusal \<Rightarrow> refusal
           | None \<Rightarrow> if blockers \<noteq> []
               then Refuse STAGE_AT_CAPACITY (R_capacity resultingName (short (hd blockers)))
                      (legalMovesFrom (Some pb) (Some cur))
               else pinned))"

definition decideTargeted ::
  "string \<Rightarrow> args \<Rightarrow> projection \<Rightarrow> (string, playbook) jmap \<Rightarrow> (string \<Rightarrow> bool) \<Rightarrow> decision" where
  "decideTargeted toolName a p pbs isLive =
     (let sid = str_or_empty (map_of a ''sessionId'');
          subject = (if sid \<noteq> [] then map_of (bySession p) sid else None)
      in case checkForwardSource a p pbs subject of
           Forward_throws \<Rightarrow> Throws
         | fwd \<Rightarrow>
         (case subject of
            None \<Rightarrow> (case fwd of Forward_refused d \<Rightarrow> d | _ \<Rightarrow> Permit a (plain_move KNone))
          | Some w \<Rightarrow>
          (case map_of pbs (ws_playbook w) of
             None \<Rightarrow> Refuse PLAYBOOK_UNKNOWN
                 (R_worker_unloaded (short sid) (ws_playbook w) (missingPlaybookCause (ws_playbook w))
                    (pluginIdOfPlaybook (ws_playbook w) = None) (sort (jkeys pbs)))
                 \<lparr>lm_playbook = Some (ws_playbook w), lm_stage = Some (ws_stage w), lm_transitions = []\<rparr>
           | Some pb \<Rightarrow>
           (case stage_ref pb (ws_stage w) of
              Missing \<Rightarrow> Refuse STAGE_UNKNOWN
                  (R_worker_stage_gone (short sid) (ws_stage w) (pb_id pb) (jkeys (pb_stages pb)))
                  \<lparr>lm_playbook = Some (pb_id pb), lm_stage = Some (ws_stage w), lm_transitions = []\<rparr>
            | Inherited \<Rightarrow> Throws
            | Own cur \<Rightarrow>
                if resolvePolicy cur toolName = Deny
                then Refuse TOOL_DENIED_IN_STAGE (R_tool_denied toolName (ws_stage w) (pb_id pb))
                       (legalMovesFrom (Some pb) (Some (ws_stage w)))
                else (case fwd of Forward_refused d \<Rightarrow> d | _ \<Rightarrow>
                  (let m = resolveMove toolName a pb (ws_stage w) in
                   case rm_illegal m of
                     Some (c, r) \<Rightarrow> Refuse c (R_move_illegal (short sid) (ws_stage w) r)
                         (legalMovesFrom (Some pb) (Some (ws_stage w)))
                   | None \<Rightarrow> (case rm_resulting m of
                         None \<Rightarrow> Throws
                       | Some rn \<Rightarrow> (case stage_ref pb rn of
                             Own st \<Rightarrow> enter_stage toolName a pb sid (ws_stage w) m rn st p isLive
                           | _ \<Rightarrow> Throws))))))))"

definition decide ::
  "string \<Rightarrow> args \<Rightarrow> projection \<Rightarrow> (string, playbook) jmap \<Rightarrow> (string \<Rightarrow> bool) \<Rightarrow> string option \<Rightarrow> decision" where
  "decide rawToolName a p pbs isLive handle =
     (let toolName = normalizeToolName rawToolName in
      if toolName = ''spawn_instance'' then decideSpawn a p pbs isLive handle
      else decideTargeted toolName a p pbs isLive)"

end
