(* ===== verification/PolicyFacts.thy ===== *)
theory PolicyFacts
  imports PlaybookPolicy
begin

text \<open>
  What \<open>decide\<close> guarantees.  The first sections give each helper its specification
  (\<open>need_satisfied\<close>, \<open>pinned_args\<close>, the legal edges); the properties combine them for spawns,
  resumes and the moves of a tracked worker.
\<close>

subsection \<open>Needs, declaratively\<close>

definition need_satisfied ::
  "needs_entry \<Rightarrow> string \<Rightarrow> playbook \<Rightarrow> projection \<Rightarrow> string option \<Rightarrow> (string \<Rightarrow> bool) \<Rightarrow> bool" where
  "need_satisfied need sid pb p anchor isLive \<longleftrightarrow>
     (\<exists>w. map_of (bySession p) sid = Some w
        \<and> ws_playbook w = pb_id pb
        \<and> ne_stage need \<in> set (ws_history w)
        \<and> (ne_liveness need = Live \<longrightarrow> isLive sid) \<and> (ne_liveness need = Retired \<longrightarrow> \<not> isLive sid)
        \<and> (WILDCARD \<in> set (ne_position need) \<or> ws_stage w \<in> set (ne_position need)))
     \<and> (\<forall>a. anchor = Some a \<and> a \<noteq> [] \<and> a \<noteq> sid \<and> runRootOf p a \<noteq> None \<longrightarrow> sameRun p a sid)"

lemma checkNeedEntry_None:
  "checkNeedEntry need sid pb p anchor isLive = None \<longleftrightarrow> need_satisfied need sid pb p anchor isLive"
  by (cases "map_of (bySession p) sid"; cases anchor)
     (auto simp: checkNeedEntry_def need_satisfied_def hasEverBeen_def)

lemma check_each_need_None:
  "check_each_need needs name pb prov p anchor isLive = None \<longleftrightarrow>
     (\<forall>need \<in> set needs. \<exists>sid. map_of prov (ne_stage need) = Some sid \<and> sid \<noteq> []
        \<and> need_satisfied need sid pb p anchor isLive)"
proof (induction needs)
  case (Cons need needs)
  then show ?case
    by (cases "js_index prov (ne_stage need)")
       (auto simp: Let_def checkNeedEntry_None [symmetric] js_index_def split: option.splits if_splits)
qed simp

lemma checkNeeds_None:
  "checkNeeds pb st name prov p subject isLive = None \<longleftrightarrow>
     (\<forall>need \<in> set (st_needs st). \<exists>sid. map_of prov (ne_stage need) = Some sid \<and> sid \<noteq> []
        \<and> need_satisfied need sid pb p
            (case subject of Some s \<Rightarrow> Some s
             | None \<Rightarrow> (case jvals prov of [] \<Rightarrow> None | a # _ \<Rightarrow> Some a)) isLive)"
  by (simp add: checkNeeds_def Let_def check_each_need_None)

lemma check_each_need_code:
  "check_each_need needs name pb prov p anchor isLive = Some (c, r) \<Longrightarrow>
     c \<in> {NEEDS_UNSATISFIED, NEEDS_WORKER_GONE, PLAYBOOK_MISMATCH}"
  by (induction needs)
     (auto simp: Let_def checkNeedEntry_def split: js_ref.splits option.splits if_splits)

lemma checkNeeds_refuses:
  "checkNeeds pb st name prov p subject isLive = Some d \<Longrightarrow>
     \<exists>c r m. d = Refuse c r m \<and> c \<in> {NEEDS_UNSATISFIED, NEEDS_WORKER_GONE, PLAYBOOK_MISMATCH}"
  by (auto simp: checkNeeds_def Let_def dest: check_each_need_code)

subsection \<open>Pinned arguments, declaratively\<close>

definition pins_of :: "stage \<Rightarrow> string \<Rightarrow> (string, json) jmap" where
  "pins_of st tool = (case resolvePolicy st tool of Pin pins \<Rightarrow> pins | _ \<Rightarrow> [])"

definition pinned_args :: "args \<Rightarrow> args \<Rightarrow> (string, json) jmap \<Rightarrow> string list \<Rightarrow> bool" where
  "pinned_args a out pins skip \<longleftrightarrow>
     (\<forall>k. map_of out k = (if k \<notin> set skip \<and> jhas pins k then map_of pins k else map_of a k))"

lemma fill_pins_Inr:
  assumes "fill_pins a skip pins patched = Inr out" "jmap_ok pins"
    and "\<And>k. jhas pins k \<Longrightarrow> map_of patched k = map_of a k"
  shows "map_of out k = (if k \<notin> set skip \<and> jhas pins k then map_of pins k else map_of patched k)"
  using assms
proof (induction pins arbitrary: patched)
  case (Cons pin pins)
  obtain arg want where pin: "pin = (arg, want)" by fastforce
  have fresh: "\<not> jhas pins arg" and ok: "jmap_ok pins"
    using Cons.prems(2) jhas_iff [of pins arg] by (auto simp: pin jmap_ok_def)
  have has: "jhas ((arg, want) # pins) x \<longleftrightarrow> x = arg \<or> jhas pins x" for x by (simp add: jhas_def)
  consider "arg \<in> set skip" "fill_pins a skip pins patched = Inr out"
    | "arg \<notin> set skip" "map_of a arg = Some want" "fill_pins a skip pins patched = Inr out"
    | "arg \<notin> set skip" "map_of a arg = None" "fill_pins a skip pins (jput arg want patched) = Inr out"
    using Cons.prems(1) by (auto simp: pin js_index_def split: js_ref.splits if_splits option.splits)
  then show ?case
  proof cases
    case 1
    with Cons.IH [OF 1(2) ok] Cons.prems(3) fresh show ?thesis by (auto simp: pin has)
  next
    case 2
    with Cons.IH [OF 2(3) ok] Cons.prems(3) fresh show ?thesis by (auto simp: pin has)
  next
    case 3
    have "map_of (jput arg want patched) x = map_of a x" if "jhas pins x" for x
      using that fresh Cons.prems(3) by (auto simp: pin has map_of_jput)
    with Cons.IH [OF 3(3) ok] 3(1) fresh show ?thesis by (auto simp: pin has map_of_jput)
  qed
qed simp

lemma fill_pins_same:
  "fill_pins a skip pins patched = Inr out \<Longrightarrow>
     \<forall>k. k \<notin> set skip \<longrightarrow> jhas pins k \<longrightarrow> jhas a k \<Longrightarrow> out = patched"
proof (induction a skip pins patched rule: fill_pins.induct)
  case (2 a skip arg want pins patched)
  have rest: "\<forall>k. k \<notin> set skip \<longrightarrow> jhas pins k \<longrightarrow> jhas a k" and arg: "arg \<notin> set skip \<Longrightarrow> jhas a arg"
    using 2(5) by (auto simp: jhas_def split: if_splits)
  show ?case
  proof (cases "arg \<in> set skip")
    case True
    with 2(1) [OF True _ rest] 2(4) show ?thesis by simp
  next
    case False
    then obtain v where v: "map_of a arg = Some v" using arg by (auto simp: jhas_def)
    then have "v = want \<and> fill_pins a skip pins patched = Inr out"
      using 2(4) False by (auto simp: js_index_def split: if_splits)
    with 2(3) [OF False _ _ _ rest] v show ?thesis by simp
  qed
qed simp

lemma applyPin_outcomes:
  "(\<exists>out. applyPin st name pb tool a mv skip = Permit out mv) \<or>
   (\<exists>r. applyPin st name pb tool a mv skip = Refuse ARG_PIN_CONFLICT r (legalMovesFrom (Some pb) (Some name)))"
  by (auto simp: applyPin_def split: tool_policy.splits sum.splits)

lemma applyPin_move: "applyPin st name pb tool a mv skip = Permit out mv' \<Longrightarrow> mv' = mv"
  by (auto simp: applyPin_def split: tool_policy.splits sum.splits)

lemma applyPin_Permit:
  assumes "applyPin st name pb tool a mv skip = Permit out mv'" "jmap_ok (pins_of st tool)"
  shows "mv' = mv \<and> pinned_args a out (pins_of st tool) skip"
proof (cases "resolvePolicy st tool")
  case (Pin pins)
  have "fill_pins a skip pins a = Inr out \<and> mv' = mv"
    using assms(1) by (auto simp: applyPin_def Pin split: sum.splits)
  moreover have "jmap_ok pins" using assms(2) by (simp add: pins_of_def Pin)
  ultimately show ?thesis
    using fill_pins_Inr [of a skip pins a out] by (auto simp: pinned_args_def pins_of_def Pin)
qed (use assms in \<open>auto simp: applyPin_def pinned_args_def pins_of_def\<close>)

subsection \<open>Spawns\<close>

lemma decide_spawn:
  "normalizeToolName tool = ''spawn_instance'' \<Longrightarrow> decide tool a p pbs isLive handle = decideSpawn a p pbs isLive handle"
  by (simp add: decide_def Let_def)

lemma decide_targeted:
  "normalizeToolName tool \<noteq> ''spawn_instance'' \<Longrightarrow>
     decide tool a p pbs isLive handle = decideTargeted (normalizeToolName tool) a p pbs isLive"
  by (simp add: decide_def Let_def)

text \<open>The session a \<open>resume\<close> names, when the ledger tracks it.\<close>

definition resumed_worker :: "args \<Rightarrow> projection \<Rightarrow> string option \<Rightarrow> worker_state option" where
  "resumed_worker a p handle =
     (if resume_id a handle \<noteq> [] then map_of (bySession p) (resume_id a handle) else None)"

lemma decideSpawn_resume:
  "resumed_worker a p handle = Some w \<Longrightarrow>
     decideSpawn a p pbs isLive handle = decideResume a (resume_id a handle) w pbs"
  by (simp add: decideSpawn_def Let_def resumed_worker_def)

lemma str_or_empty_iff: "str_or_empty v = s \<and> s \<noteq> [] \<longleftrightarrow> v = Some (JStr s) \<and> s \<noteq> []"
  by (cases v rule: str_or_empty.cases) auto

lemma decideSpawn_Permit:
  assumes "decideSpawn a p pbs isLive handle = Permit out mv" "resumed_worker a p handle = None"
  obtains pid pb name st where
    "spawn_binding a (resume_id a handle) p pbs = Inr pid" "map_of pbs pid = Some pb"
    "map_of a ''stage'' = Some (JStr name)" "name \<noteq> []" "map_of (pb_stages pb) name = Some st"
    "spawn_into a (resume_id a handle) pb name st p isLive = Permit out mv"
proof -
  define name where "name = str_or_empty (map_of a ''stage'')"
  obtain pid pb st where "spawn_binding a (resume_id a handle) p pbs = Inr pid" "map_of pbs pid = Some pb"
    "name \<noteq> []" "map_of (pb_stages pb) name = Some st"
    "spawn_into a (resume_id a handle) pb name st p isLive = Permit out mv"
    using assms
    by (auto simp: decideSpawn_def Let_def resumed_worker_def name_def
        split: option.splits sum.splits if_splits js_ref.splits)
  moreover have "map_of a ''stage'' = Some (JStr name)"
    using \<open>name \<noteq> []\<close> str_or_empty_iff [of "map_of a ''stage''" name] by (simp add: name_def)
  ultimately show thesis using that by blast
qed

lemma decideResume_kind:
  "decideResume a rid w pbs = Permit out mv \<Longrightarrow>
     mv = (plain_move KResume)\<lparr>mv_to := Some (ws_stage w), mv_playbook := Some (ws_playbook w)\<rparr>"
  by (auto simp: decideResume_def Let_def dest: applyPin_move split: option.splits if_splits js_ref.splits)

lemma spawn_binding_ancestors:
  assumes "spawn_binding a rid p pbs = Inr pid" "sid \<in> set (jvals (supplied_provenance a))"
  shows "\<exists>w. map_of (bySession p) sid = Some w \<and> ws_playbook w = pid"
proof -
  let ?pids = "map (\<lambda>sid. case map_of (bySession p) sid of Some st \<Rightarrow> ws_playbook st | None \<Rightarrow> [])
      (jvals (supplied_provenance a))"
  have ne: "jvals (supplied_provenance a) \<noteq> []" using assms(2) by (metis list.set(1) empty_iff)
  then have nf: "List.find (\<lambda>sid. map_of (bySession p) sid = None) (jvals (supplied_provenance a)) = None"
    and len: "\<not> length (remdups ?pids) > 1" and hd: "pid = hd ?pids"
    using assms(1)
    by (auto simp: spawn_binding_def Let_def split: option.splits if_splits)
  obtain w where w: "map_of (bySession p) sid = Some w"
    using nf assms(2) unfolding find_None_iff2 by auto
  have one: "card (set ?pids) \<le> 1" using len by (simp add: length_remdups_card_conv)
  have hds: "pid \<in> set ?pids" using hd ne by (cases "jvals (supplied_provenance a)") auto
  have "ws_playbook w \<in> set ?pids" using w assms(2) by force
  with hds one have "ws_playbook w = pid"
    by (metis One_nat_def card_le_Suc0_iff_eq List.finite_set)
  with w show ?thesis by blast
qed

lemma spawn_into_Permit:
  assumes "spawn_into a rid pb name st p isLive = Permit out mv"
  shows "isSpawnable (Some st)"
    and "checkNeeds pb st name (supplied_provenance a) p None isLive = None"
    and "st_workers st = One \<Longrightarrow> jvals (supplied_provenance a) \<noteq> [] \<Longrightarrow>
         liveSessionsInStage p (hd (jvals (supplied_provenance a))) name isLive = []"
    and "applyPin st name pb ''spawn_instance'' a
           ((plain_move KSpawn)\<lparr>mv_to := Some name, mv_playbook := Some (pb_id pb)\<rparr>)
           (if rid \<noteq> [] then SPAWN_SHAPE_PINS else []) = Permit out mv"
  using assms checkNeeds_refuses [of pb st name "supplied_provenance a" p None isLive]
  by (auto simp: spawn_into_def Let_def split: option.splits if_splits)

lemma spawn_into_move:
  "spawn_into a rid pb name st p isLive = Permit out mv \<Longrightarrow>
     mv = (plain_move KSpawn)\<lparr>mv_to := Some name, mv_playbook := Some (pb_id pb)\<rparr>"
  by (rule applyPin_move [OF spawn_into_Permit(4)])

subsection \<open>Calls on a tracked worker\<close>

lemma checkForwardSource_refused:
  "checkForwardSource a p pbs subject = Forward_refused d \<Longrightarrow>
     \<exists>r m. d = Refuse FORWARD_DENIED_IN_STAGE r m"
  by (auto simp: checkForwardSource_def Let_def split: if_splits option.splits js_ref.splits)

lemma enter_stage_Permit:
  assumes "enter_stage tool a pb sid cur m name st p isLive = Permit out mv"
  shows "applyPin st name pb tool a (move_of m cur name) [] = Permit out mv"
    and "rm_kind m = KTransition \<Longrightarrow>
         checkNeeds pb st name (supplied_provenance a) p (Some sid) isLive = None"
    and "rm_kind m = KTransition \<Longrightarrow> st_workers st = One \<Longrightarrow> liveSessionsInStage p sid name isLive = []"
  using assms checkNeeds_refuses [of pb st name "supplied_provenance a" p "Some sid" isLive]
  by (auto simp: enter_stage_def Let_def split: option.splits if_splits)

lemma enter_stage_move:
  "enter_stage tool a pb sid cur m name st p isLive = Permit out mv \<Longrightarrow> mv = move_of m cur name"
  by (rule applyPin_move [OF enter_stage_Permit(1)])

text \<open>The tracked worker a call names.\<close>

definition subject_of :: "args \<Rightarrow> projection \<Rightarrow> (string \<times> worker_state) option" where
  "subject_of a p = (case nonempty_str (map_of a ''sessionId'') of
       None \<Rightarrow> None
     | Some sid \<Rightarrow> map_option (Pair sid) (map_of (bySession p) sid))"

lemma subject_of_Some:
  "subject_of a p = Some (sid, w) \<longleftrightarrow>
     map_of a ''sessionId'' = Some (JStr sid) \<and> sid \<noteq> [] \<and> map_of (bySession p) sid = Some w"
  by (auto simp: subject_of_def nonempty_str_def split: option.splits if_splits)

lemma decideTargeted_subject:
  assumes "subject_of a p = Some (sid, w)"
  shows "str_or_empty (map_of a ''sessionId'') = sid"
    and "(if sid \<noteq> [] then map_of (bySession p) sid else None) = Some w"
  using assms by (auto simp: subject_of_Some)

lemma decideTargeted_Permit:
  assumes "decideTargeted tool a p pbs isLive = Permit out mv" "subject_of a p = Some (sid, w)"
  obtains pb cur name st where
    "map_of pbs (ws_playbook w) = Some pb" "map_of (pb_stages pb) (ws_stage w) = Some cur"
    "resolvePolicy cur tool \<noteq> Deny"
    "rm_illegal (resolveMove tool a pb (ws_stage w)) = None"
    "rm_resulting (resolveMove tool a pb (ws_stage w)) = Some name"
    "map_of (pb_stages pb) name = Some st"
    "enter_stage tool a pb sid (ws_stage w) (resolveMove tool a pb (ws_stage w)) name st p isLive = Permit out mv"
proof -
  note s = decideTargeted_subject [OF assms(2)]
  show thesis
    using assms(1) checkForwardSource_refused [of a p pbs "Some w"] that
    unfolding decideTargeted_def Let_def s
    by (auto split: option.splits js_ref.splits if_splits forward_check.splits)
qed

lemma decideTargeted_untracked:
  "subject_of a p = None \<Longrightarrow> decideTargeted tool a p pbs isLive =
     (case checkForwardSource a p pbs None of
        Forward_ok \<Rightarrow> Permit a (plain_move KNone) | Forward_refused d \<Rightarrow> d | Forward_throws \<Rightarrow> Throws)"
  by (cases "map_of a ''sessionId''" rule: str_or_empty.cases)
     (auto simp: decideTargeted_def Let_def subject_of_def nonempty_str_def
       split: forward_check.splits option.splits if_splits)

lemma resolveMove_kind: "rm_kind (resolveMove tool a pb cur) \<in> {KTransition, KSelf, KNone}"
  by (simp add: resolveMove_def resolve_prompt_def resolve_auto_def illegal_move_def move_to_def
      stay_def split: option.split)

lemma move_of_kind: "mv_kind (move_of m cur name) = (if rm_kind m = KTransition then KTransition
    else if rm_recorded m then KSelf else rm_kind m)"
  by (simp add: move_of_def plain_move_def)

lemma decideTargeted_kind:
  assumes "decideTargeted tool a p pbs isLive = Permit out mv"
  shows "mv_kind mv \<in> {KTransition, KSelf, KNone}"
proof (cases "subject_of a p")
  case None
  then show ?thesis
    using assms checkForwardSource_refused [of a p pbs None]
    by (auto simp: decideTargeted_untracked plain_move_def split: forward_check.splits)
next
  case (Some s)
  obtain sid w where "s = (sid, w)" by fastforce
  with Some obtain pb name st where
    "enter_stage tool a pb sid (ws_stage w) (resolveMove tool a pb (ws_stage w)) name st p isLive = Permit out mv"
    using decideTargeted_Permit [OF assms] by metis
  from enter_stage_move [OF this] show ?thesis
    using resolveMove_kind [of tool a pb "ws_stage w"] by (auto simp: move_of_kind)
qed

text \<open>The run a spawn joins: the component of the first worker it names.\<close>

definition spawn_anchor :: "args \<Rightarrow> string option" where
  "spawn_anchor a = (case jvals (supplied_provenance a) of [] \<Rightarrow> None | s # _ \<Rightarrow> Some s)"

text \<open>
  C1.  A spawn fails closed: it is permitted only into a stage of a loaded playbook whose own
  \<open>spawn_instance\<close> entry allows it, with every \<open>needs\<close> entry satisfied by a worker the caller
  named, every named worker tracked and on the bound playbook, and, in a \<open>workers: one\<close> stage
  of an existing run, no live worker in that stage.
\<close>

theorem spawn_fails_closed:
  assumes "decide tool a p pbs isLive handle = Permit out mv" "mv_kind mv = KSpawn"
  shows "\<exists>pid pb name st policy. map_of pbs pid = Some pb \<and> map_of a ''stage'' = Some (JStr name)
     \<and> map_of (pb_stages pb) name = Some st \<and> mv_to mv = Some name \<and> mv_playbook mv = Some (pb_id pb)
     \<and> map_of (st_tools st) ''spawn_instance'' = Some policy \<and> policy \<noteq> Deny
     \<and> (\<forall>need \<in> set (st_needs st). \<exists>sid. map_of (supplied_provenance a) (ne_stage need) = Some sid
          \<and> sid \<noteq> [] \<and> need_satisfied need sid pb p (spawn_anchor a) isLive)
     \<and> (\<forall>sid \<in> set (jvals (supplied_provenance a)). \<exists>w. map_of (bySession p) sid = Some w \<and> ws_playbook w = pid)
     \<and> (\<forall>s. st_workers st = One \<and> spawn_anchor a = Some s \<longrightarrow> liveSessionsInStage p s name isLive = [])"
proof -
  have kinds: "normalizeToolName tool = ''spawn_instance''"
  proof (rule ccontr)
    assume "normalizeToolName tool \<noteq> ''spawn_instance''"
    then have "decideTargeted (normalizeToolName tool) a p pbs isLive = Permit out mv"
      using assms(1) decide_targeted by metis
    from decideTargeted_kind [OF this] assms(2) show False by simp
  qed
  have fresh: "resumed_worker a p handle = None"
    using assms decideSpawn_resume decideResume_kind decide_spawn [OF kinds]
    by (cases "resumed_worker a p handle") (fastforce simp: plain_move_def)+
  obtain pid pb name st where s: "spawn_binding a (resume_id a handle) p pbs = Inr pid" "map_of pbs pid = Some pb"
    "map_of a ''stage'' = Some (JStr name)" "map_of (pb_stages pb) name = Some st"
    "spawn_into a (resume_id a handle) pb name st p isLive = Permit out mv"
    using decideSpawn_Permit [OF _ fresh] assms(1) decide_spawn [OF kinds] by metis
  note into = spawn_into_Permit [OF s(5)]
  obtain policy where policy: "map_of (st_tools st) ''spawn_instance'' = Some policy \<and> policy \<noteq> Deny"
    using into(1) by (auto simp: isSpawnable_def split: option.splits)
  have mv: "mv_to mv = Some name \<and> mv_playbook mv = Some (pb_id pb)"
    using spawn_into_move [OF s(5)] by (simp add: plain_move_def)
  have room: "\<forall>s. st_workers st = One \<and> spawn_anchor a = Some s \<longrightarrow> liveSessionsInStage p s name isLive = []"
    using into(3) by (auto simp: spawn_anchor_def split: list.splits)
  have tracked: "\<forall>sid \<in> set (jvals (supplied_provenance a)).
      \<exists>w. map_of (bySession p) sid = Some w \<and> ws_playbook w = pid"
    using spawn_binding_ancestors [OF s(1)] by blast
  note needs = into(2) [unfolded checkNeeds_None option.case, folded spawn_anchor_def]
  show ?thesis using s(2-4) policy mv needs tracked room by blast
qed

subsection \<open>Transitions\<close>

lemma resolve_prompt_transition:
  "rm_kind (resolve_prompt pb cur target) = KTransition \<Longrightarrow>
     resolve_prompt pb cur target = move_to cur target ''send_prompt'' \<and>
     (\<exists>t \<in> set (pb_transitions pb). tr_from t = cur \<and> tr_to t = target \<and> (tr_on t = None \<or> tr_on t = Some []))"
  by (auto simp: resolve_prompt_def stay_def illegal_move_def dest!: find_SomeD
      split: option.splits if_splits)

lemma resolve_auto_transition:
  "rm_kind (resolve_auto tool pb cur) = KTransition \<Longrightarrow>
     (\<exists>t \<in> set (pb_transitions pb). resolve_auto tool pb cur = move_to cur (tr_to t) tool
        \<and> tr_from t = cur \<and> tr_on t = Some tool)"
  by (cases "List.find (\<lambda>t. tr_from t = cur \<and> tr_on t = Some tool) (pb_transitions pb)")
     (auto simp: resolve_auto_def stay_def dest: find_SomeD)

lemma resolveMove_transition:
  assumes "rm_kind (resolveMove tool a pb cur) = KTransition"
  shows "\<exists>t \<in> set (pb_transitions pb). tr_from t = cur
    \<and> resolveMove tool a pb cur = move_to cur (tr_to t) tool
    \<and> (tr_on t = Some tool \<or> tool = ''send_prompt'' \<and> (tr_on t = None \<or> tr_on t = Some []))"
proof (cases "if tool = ''send_prompt'' then as_str (map_of a ''stage'') else None")
  case None
  then show ?thesis using assms resolve_auto_transition [of tool pb cur] by (auto simp: resolveMove_def)
next
  case (Some target)
  then show ?thesis
    using assms resolve_prompt_transition [of pb cur target]
    by (auto simp: resolveMove_def split: if_splits)
qed

lemma targeted_transition:
  assumes "decide tool a p pbs isLive handle = Permit out mv" "mv_kind mv = KTransition"
  obtains sid w pb st t where
    "normalizeToolName tool \<noteq> ''spawn_instance''" "subject_of a p = Some (sid, w)"
    "map_of pbs (ws_playbook w) = Some pb"
    "t \<in> set (pb_transitions pb)" "tr_from t = ws_stage w" "map_of (pb_stages pb) (tr_to t) = Some st"
    "tr_on t = Some (normalizeToolName tool) \<or>
       normalizeToolName tool = ''send_prompt'' \<and> (tr_on t = None \<or> tr_on t = Some [])"
    "mv_from mv = Some (ws_stage w)" "mv_to mv = Some (tr_to t)" "mv_via mv = Some (normalizeToolName tool)"
    "checkNeeds pb st (tr_to t) (supplied_provenance a) p (Some sid) isLive = None"
    "st_workers st = One \<longrightarrow> liveSessionsInStage p sid (tr_to t) isLive = []"
    "applyPin st (tr_to t) pb (normalizeToolName tool) a mv [] = Permit out mv"
proof -
  have nt: "normalizeToolName tool \<noteq> ''spawn_instance''"
  proof
    assume sp: "normalizeToolName tool = ''spawn_instance''"
    have "mv_kind mv \<in> {KSpawn, KResume}"
    proof (cases "resumed_worker a p handle")
      case None
      with assms(1) show ?thesis
        unfolding decide_spawn [OF sp] by (elim decideSpawn_Permit) (auto dest!: spawn_into_move simp: plain_move_def)
    next
      case (Some w)
      with assms(1) show ?thesis
        unfolding decide_spawn [OF sp] by (auto simp: decideSpawn_resume plain_move_def dest!: decideResume_kind)
    qed
    with assms(2) show False by auto
  qed
  define tl where "tl = normalizeToolName tool"
  have d: "decideTargeted tl a p pbs isLive = Permit out mv"
    using assms(1) nt by (simp add: decide_targeted tl_def)
  obtain sid w where s: "subject_of a p = Some (sid, w)"
    using d assms(2) checkForwardSource_refused [of a p pbs None]
    by (cases "subject_of a p") (auto simp: decideTargeted_untracked plain_move_def split: forward_check.splits)
  obtain pb cur name st where t: "map_of pbs (ws_playbook w) = Some pb"
    "rm_resulting (resolveMove tl a pb (ws_stage w)) = Some name" "map_of (pb_stages pb) name = Some st"
    "enter_stage tl a pb sid (ws_stage w) (resolveMove tl a pb (ws_stage w)) name st p isLive = Permit out mv"
    by (rule decideTargeted_Permit [OF d s])
  have mv: "mv = move_of (resolveMove tl a pb (ws_stage w)) (ws_stage w) name"
    by (rule enter_stage_move [OF t(4)])
  have k: "rm_kind (resolveMove tl a pb (ws_stage w)) = KTransition"
    using assms(2) resolveMove_kind [of tl a pb "ws_stage w"] by (auto simp: mv move_of_kind split: if_splits)
  from resolveMove_transition [OF k] obtain t' where e: "t' \<in> set (pb_transitions pb)" "tr_from t' = ws_stage w"
    "rm_resulting (resolveMove tl a pb (ws_stage w)) = Some (tr_to t')"
    "rm_via (resolveMove tl a pb (ws_stage w)) = Some tl"
    "tr_on t' = Some tl \<or> tl = ''send_prompt'' \<and> (tr_on t' = None \<or> tr_on t' = Some [])"
    by (auto simp: move_to_def)
  have name: "name = tr_to t'" using t(2) e(3) by simp
  note en = enter_stage_Permit [OF t(4)]
  have mvf: "mv_from mv = Some (ws_stage w)" "mv_to mv = Some (tr_to t')" "mv_via mv = Some tl"
    using k e(4) by (simp_all add: mv move_of_def plain_move_def name)
  show thesis
    by (rule that [OF nt s t(1) e(1,2) t(3) [unfolded name] e(5) [unfolded tl_def]
          mvf [unfolded tl_def] en(2) [OF k, unfolded name]
          _ en(1) [folded mv, unfolded name tl_def]]) (use en(3) [OF k] name in blast)
qed

text \<open>
  C2.  A worker moves only along a declared edge out of its current stage, and only the edge's
  own driver moves it: the tool its \<open>on\<close> names, or \<open>send_prompt\<close> for an edge without one.
\<close>

theorem transition_follows_edge:
  assumes "decide tool a p pbs isLive handle = Permit out mv" "mv_kind mv = KTransition"
  shows "\<exists>sid w pb t. subject_of a p = Some (sid, w) \<and> map_of pbs (ws_playbook w) = Some pb
     \<and> t \<in> set (pb_transitions pb) \<and> tr_from t = ws_stage w
     \<and> mv_from mv = Some (ws_stage w) \<and> mv_to mv = Some (tr_to t)
     \<and> mv_via mv = Some (normalizeToolName tool)
     \<and> (case tr_on t of Some driver \<Rightarrow> driver = normalizeToolName tool \<or> driver = [] \<and> normalizeToolName tool = ''send_prompt''
        | None \<Rightarrow> normalizeToolName tool = ''send_prompt'')"
proof -
  obtain sid w pb t where t: "subject_of a p = Some (sid, w)" "map_of pbs (ws_playbook w) = Some pb"
    "t \<in> set (pb_transitions pb)" "tr_from t = ws_stage w"
    "tr_on t = Some (normalizeToolName tool) \<or>
       normalizeToolName tool = ''send_prompt'' \<and> (tr_on t = None \<or> tr_on t = Some [])"
    "mv_from mv = Some (ws_stage w)" "mv_to mv = Some (tr_to t)" "mv_via mv = Some (normalizeToolName tool)"
    by (rule targeted_transition [OF assms]) blast
  have "case tr_on t of Some driver \<Rightarrow> driver = normalizeToolName tool \<or> driver = [] \<and> normalizeToolName tool = ''send_prompt''
        | None \<Rightarrow> normalizeToolName tool = ''send_prompt''"
    using t(5) by auto
  with t(1-4,6-8) show ?thesis by blast
qed

lemma need_linked:
  assumes "need_satisfied need nsid pb (foldProjection evs) (Some sid) isLive" "sid \<noteq> []"
    and "map_of (bySession (foldProjection evs)) sid = Some w"
  shows "linked (snd (run_spec evs)) sid nsid"
proof (cases "sid = nsid")
  case False
  have "jhas (parent (foldProjection evs)) sid"
    using foldProjection_inv [of evs] assms(3) by (simp add: ledger_inv_def)
  then have "sameRun (foldProjection evs) sid nsid"
    using assms(1,2) False by (simp add: need_satisfied_def runRootOf_def)
  then show ?thesis by (simp add: run_sameness)
qed simp

lemma live_in_stage_iff:
  "s \<in> set (liveSessionsInStage (foldProjection evs) anchor stage isLive) \<longleftrightarrow>
     (\<exists>w. map_of (bySession (foldProjection evs)) s = Some w \<and> ws_stage w = stage) \<and> isLive s
     \<and> anchor \<in> run_nodes (run_spec evs) \<and> linked (snd (run_spec evs)) s anchor"
proof -
  have "s \<in> fst (run_spec evs)" if "map_of (bySession (foldProjection evs)) s = Some w" for w
    using foldProjection_sim [of evs] that by (force simp: run_sim_def dest: map_of_SomeD)
  then show ?thesis
    by (auto simp: liveSessionsInStage_def run_members_iff split: option.splits)
qed

lemma tracked_node:
  "map_of (bySession (foldProjection evs)) s = Some w \<Longrightarrow> s \<in> run_nodes (run_spec evs)"
  using foldProjection_sim [of evs] by (force simp: run_sim_def run_nodes_def dest: map_of_SomeD)

text \<open>
   The entry conditions of a transition are those of the destination and are scoped to the
  subject's own run: every \<open>needs\<close> entry is met by a named worker that the recorded provenance
  edges link to the subject, and a \<open>workers: one\<close> destination holds no live worker of the run.
\<close>

theorem transition_entry_conditions:
  assumes "decide tool a (foldProjection evs) pbs isLive handle = Permit out mv" "mv_kind mv = KTransition"
  shows "\<exists>sid w pb st name. subject_of a (foldProjection evs) = Some (sid, w) \<and> mv_to mv = Some name
     \<and> map_of pbs (ws_playbook w) = Some pb \<and> map_of (pb_stages pb) name = Some st
     \<and> (\<forall>need \<in> set (st_needs st). \<exists>nsid. map_of (supplied_provenance a) (ne_stage need) = Some nsid
          \<and> need_satisfied need nsid pb (foldProjection evs) (Some sid) isLive
          \<and> linked (snd (run_spec evs)) sid nsid)
     \<and> (st_workers st = One \<longrightarrow> (\<forall>s u. map_of (bySession (foldProjection evs)) s = Some u
          \<and> ws_stage u = name \<and> isLive s \<longrightarrow> \<not> linked (snd (run_spec evs)) s sid))"
proof -
  let ?p = "foldProjection evs"
  obtain sid w pb st t where t: "subject_of a ?p = Some (sid, w)" "map_of pbs (ws_playbook w) = Some pb"
    "map_of (pb_stages pb) (tr_to (t :: transition)) = Some st" "mv_to mv = Some (tr_to t)"
    "checkNeeds pb st (tr_to t) (supplied_provenance a) ?p (Some sid) isLive = None"
    "st_workers st = One \<longrightarrow> liveSessionsInStage ?p sid (tr_to t) isLive = []"
    by (rule targeted_transition [OF assms]) blast
  have sid: "sid \<noteq> []" "map_of (bySession ?p) sid = Some w" using t(1) by (auto simp: subject_of_Some)
  have room: "\<not> linked (snd (run_spec evs)) s sid"
    if "st_workers st = One" "map_of (bySession ?p) s = Some u" "ws_stage u = tr_to t" "isLive s" for s u
    using t(6) that(1) live_in_stage_iff [of s evs sid "tr_to t" isLive] tracked_node [OF sid(2)] that(2-4)
    by auto
  have needs: "\<forall>need \<in> set (st_needs st). \<exists>nsid. map_of (supplied_provenance a) (ne_stage need) = Some nsid
      \<and> need_satisfied need nsid pb ?p (Some sid) isLive \<and> linked (snd (run_spec evs)) sid nsid"
    using t(5) need_linked [OF _ sid] unfolding checkNeeds_None option.case by blast
  show ?thesis using t(1-4) needs room by blast
qed

subsection \<open>Pins\<close>

text \<open>Every pin map of the loaded playbooks names each argument once, as an object literal does.\<close>

definition pins_once :: "(string, playbook) jmap \<Rightarrow> bool" where
  "pins_once pbs \<longleftrightarrow> list_all (\<lambda>(_, pb). list_all (\<lambda>(_, st). list_all (\<lambda>(_, pol).
     case pol of Pin m \<Rightarrow> jmap_ok m | _ \<Rightarrow> True) (st_tools st)) (pb_stages pb)) pbs"

lemma pins_onceD:
  assumes "pins_once pbs" "map_of pbs i = Some pb" "map_of (pb_stages pb) n = Some st"
  shows "jmap_ok (pins_of st tool)"
proof -
  have tools: "\<forall>(t, pol) \<in> set (st_tools st). case pol of Pin m \<Rightarrow> jmap_ok m | _ \<Rightarrow> True"
    using assms by (fastforce simp: pins_once_def list_all_iff dest!: map_of_SomeD)
  have "jmap_ok m" if "map_of (st_tools st) x = Some (Pin m)" for x m
    using tools map_of_SomeD [OF that] by force
  then show ?thesis
    by (auto simp: pins_of_def resolvePolicy_def split: tool_policy.splits option.splits if_splits)
qed

lemma spawn_stage:
  assumes "decide tool a p pbs isLive handle = Permit out mv" "mv_kind mv = KSpawn"
  obtains pid pb name st where
    "normalizeToolName tool = ''spawn_instance''" "map_of pbs pid = Some pb"
    "map_of (pb_stages pb) name = Some st"
    "spawn_into a (resume_id a handle) pb name st p isLive = Permit out mv"
proof -
  have sp: "normalizeToolName tool = ''spawn_instance''"
    using assms decide_targeted [of tool a p pbs isLive handle] decideTargeted_kind
    by (metis insertE empty_iff move_kind.distinct(3) move_kind.distinct(5) move_kind.distinct(7))
  have "resumed_worker a p handle = None"
    using assms decideSpawn_resume decideResume_kind decide_spawn [OF sp]
    by (cases "resumed_worker a p handle") (fastforce simp: plain_move_def)+
  then show thesis
    using assms(1) that [OF sp] unfolding decide_spawn [OF sp] by (elim decideSpawn_Permit) blast+
qed

text \<open>
   A pin is a hard constraint and nothing else is touched: a permitted spawn or transition
  carries every pinned literal of the stage it enters, and every other argument as supplied.
  A spawn that adopts a session by \<open>resume\<close> leaves the spawn-shape pins alone.
\<close>

theorem entered_stage_pins_arguments:
  assumes "decide tool a p pbs isLive handle = Permit out mv" "mv_kind mv \<in> {KSpawn, KTransition}"
    and "pins_once pbs"
  shows "\<exists>pid pb name st. map_of pbs pid = Some pb \<and> mv_to mv = Some name
     \<and> map_of (pb_stages pb) name = Some st
     \<and> pinned_args a out (pins_of st (normalizeToolName tool))
         (if mv_kind mv = KSpawn \<and> resume_id a handle \<noteq> [] then SPAWN_SHAPE_PINS else [])"
proof (cases "mv_kind mv = KSpawn")
  case True
  obtain pid pb name st where s: "normalizeToolName tool = ''spawn_instance''" "map_of pbs pid = Some pb"
    "map_of (pb_stages pb) name = Some st" "spawn_into a (resume_id a handle) pb name st p isLive = Permit out mv"
    by (rule spawn_stage [OF assms(1) True])
  have "mv_to mv = Some name" using spawn_into_move [OF s(4)] by (simp add: plain_move_def)
  moreover have "pinned_args a out (pins_of st (normalizeToolName tool))
      (if mv_kind mv = KSpawn \<and> resume_id a handle \<noteq> [] then SPAWN_SHAPE_PINS else [])"
    using applyPin_Permit [OF spawn_into_Permit(4) [OF s(4)] pins_onceD [OF assms(3) s(2,3)]] True s(1)
    by simp
  ultimately show ?thesis using s(2,3) by blast
next
  case False
  then have k: "mv_kind mv = KTransition" using assms(2) by simp
  obtain w pb st t where t: "map_of pbs (ws_playbook (w :: worker_state)) = Some pb"
    "map_of (pb_stages pb) (tr_to (t :: transition)) = Some st" "mv_to mv = Some (tr_to t)"
    "applyPin st (tr_to t) pb (normalizeToolName tool) a mv [] = Permit out mv"
    by (rule targeted_transition [OF assms(1) k]) blast
  have "pinned_args a out (pins_of st (normalizeToolName tool))
      (if mv_kind mv = KSpawn \<and> resume_id a handle \<noteq> [] then SPAWN_SHAPE_PINS else [])"
    using applyPin_Permit [OF t(4) pins_onceD [OF assms(3) t(1,2)]] k by simp
  with t(1-3) show ?thesis by blast
qed

subsection \<open>Resumes\<close>

lemma fill_pins_skipped:
  assumes "fill_pins a skip pins patched = Inr out" "k \<in> set skip"
  shows "map_of out k = map_of patched k"
  using assms
  by (induction a skip pins patched rule: fill_pins.induct)
     (auto simp: map_of_jput split: if_splits js_ref.splits)

lemma applyPin_skipped:
  "applyPin st name pb tool a mv skip = Permit out mv' \<Longrightarrow> k \<in> set skip \<Longrightarrow> map_of out k = map_of a k"
  by (auto simp: applyPin_def dest: fill_pins_skipped split: tool_policy.splits sum.splits)

text \<open>
   A resume is not a stage entry: for a tracked worker it is never refused for
  spawnability, needs or capacity, it re-asserts exactly the recorded binding, and it leaves
  every spawn-shape argument as supplied.
\<close>

theorem resume_is_not_an_entry:
  assumes "normalizeToolName tool = ''spawn_instance''" "resumed_worker a p handle = Some w"
  shows "(\<forall>c r m. decide tool a p pbs isLive handle = Refuse c r m \<longrightarrow>
            c \<in> {PLAYBOOK_UNKNOWN, PLAYBOOK_MISMATCH, ARG_PIN_CONFLICT})
     \<and> (\<forall>out mv. decide tool a p pbs isLive handle = Permit out mv \<longrightarrow>
            mv_kind mv = KResume \<and> mv_to mv = Some (ws_stage w) \<and> mv_playbook mv = Some (ws_playbook w)
            \<and> jhas pbs (ws_playbook w)
            \<and> (\<forall>k \<in> set SPAWN_SHAPE_PINS. map_of out k = map_of a k))"
proof -
  have d: "decide tool a p pbs isLive handle = decideResume a (resume_id a handle) w pbs"
    using assms by (simp add: decide_spawn decideSpawn_resume)
  have "c \<in> {PLAYBOOK_UNKNOWN, PLAYBOOK_MISMATCH, ARG_PIN_CONFLICT}"
    if "decideResume a (resume_id a handle) w pbs = Refuse c r m" for c r m
    using that
    by (auto simp: decideResume_def Let_def applyPin_def
        split: option.splits if_splits js_ref.splits tool_policy.splits sum.splits)
  moreover have "jhas pbs (ws_playbook w) \<and> (\<forall>k \<in> set SPAWN_SHAPE_PINS. map_of out k = map_of a k)"
    if "decideResume a (resume_id a handle) w pbs = Permit out mv" for out mv
    using that
    by (auto simp: decideResume_def Let_def jhas_def dest: applyPin_skipped
        split: option.splits if_splits js_ref.splits)
  ultimately show ?thesis
    unfolding d using decideResume_kind by (fastforce simp: plain_move_def)
qed

subsection \<open>The self-edge\<close>

text \<open>
   Every ordinary follow-up prompt is a self-edge and is never gated on entry conditions:
  \<open>send_prompt\<close> naming the worker's current stage can only be refused for a tool denial, a
  denied forward source or a pin, whatever the stage's needs and capacity.
\<close>

theorem self_edge_never_gated:
  assumes "subject_of a p = Some (sid, w)" "map_of a ''stage'' = Some (JStr (ws_stage w))"
    and "map_of pbs (ws_playbook w) = Some pb" "map_of (pb_stages pb) (ws_stage w) = Some st"
    and "decide tool a p pbs isLive handle = Refuse c r m" "normalizeToolName tool = ''send_prompt''"
  shows "c = TOOL_DENIED_IN_STAGE \<and> resolvePolicy st ''send_prompt'' = Deny
     \<or> c = FORWARD_DENIED_IN_STAGE \<and> (\<exists>d. checkForwardSource a p pbs (Some w) = Forward_refused d)
     \<or> c = ARG_PIN_CONFLICT"
proof -
  have d: "decideTargeted ''send_prompt'' a p pbs isLive = Refuse c r m"
    using assms(5,6) by (simp add: decide_def Let_def)
  have mv: "rm_illegal (resolveMove ''send_prompt'' a pb (ws_stage w)) = None"
    "rm_resulting (resolveMove ''send_prompt'' a pb (ws_stage w)) = Some (ws_stage w)"
    "rm_kind (resolveMove ''send_prompt'' a pb (ws_stage w)) = KSelf"
    using assms(2) by (simp_all add: resolveMove_def resolve_prompt_def stay_def)
  note s = decideTargeted_subject [OF assms(1)]
  show ?thesis
    using d mv assms(3,4) checkForwardSource_refused [of a p pbs "Some w"]
      applyPin_outcomes [of st "ws_stage w" pb "''send_prompt''" a
        "move_of (resolveMove ''send_prompt'' a pb (ws_stage w)) (ws_stage w) (ws_stage w)" "[]"]
    unfolding decideTargeted_def Let_def s
    by (auto simp: enter_stage_def Let_def js_index_of_Some split: forward_check.splits if_splits)
qed

subsection \<open>The advertised moves are the legal ones\<close>

text \<open>What the validator guarantees of the edges.\<close>

definition edges_ok :: "playbook \<Rightarrow> bool" where
  "edges_ok pb \<longleftrightarrow> distinct (map (\<lambda>t. (tr_from t, tr_to t)) (pb_transitions pb))
     \<and> list_all (\<lambda>t. jhas (pb_stages pb) (tr_from t) \<and> jhas (pb_stages pb) (tr_to t)
          \<and> tr_on t \<notin> {Some [], Some ''send_prompt''}
          \<and> (tr_on t \<noteq> None \<longrightarrow> tr_from t \<noteq> tr_to t)) (pb_transitions pb)"

lemma find_edge:
  assumes "edges_ok pb" "t \<in> set (pb_transitions pb)"
  shows "List.find (\<lambda>u. tr_from u = tr_from t \<and> tr_to u = tr_to t) (pb_transitions pb) = Some t"
proof (rule find_unique [OF assms(2)])
  fix u assume "u \<in> set (pb_transitions pb)" "tr_from u = tr_from t \<and> tr_to u = tr_to t"
  then show "u = t"
    using assms by (auto simp: edges_ok_def distinct_map dest: inj_onD)
qed simp

lemma resolve_prompt_legal:
  assumes "edges_ok pb" "target \<noteq> cur" "cur \<noteq> []"
  shows "rm_illegal (resolve_prompt pb cur target) = None \<longleftrightarrow>
     (target, ''send_prompt'') \<in> set (lm_transitions (legalMovesFrom (Some pb) (Some cur)))"
proof
  assume "rm_illegal (resolve_prompt pb cur target) = None"
  then obtain t where t: "List.find (\<lambda>t. tr_from t = cur \<and> tr_to t = target) (pb_transitions pb) = Some t"
    "tr_on t = None \<or> tr_on t = Some []"
    using assms(2)
    by (auto simp: resolve_prompt_def illegal_move_def split: if_splits option.splits)
  then have "t \<in> set (pb_transitions pb)" "tr_from t = cur" "tr_to t = target" "tr_on t = None"
    using find_SomeD [OF t(1)] assms(1) by (auto simp: edges_ok_def list_all_iff)
  then show "(target, ''send_prompt'') \<in> set (lm_transitions (legalMovesFrom (Some pb) (Some cur)))"
    using assms(3) by (force simp: legalMovesFrom_def edge_via_def)
next
  assume "(target, ''send_prompt'') \<in> set (lm_transitions (legalMovesFrom (Some pb) (Some cur)))"
  then obtain t where t: "t \<in> set (pb_transitions pb)" "tr_from t = cur" "tr_to t = target"
    "edge_via t = ''send_prompt''"
    using assms(3) by (auto simp: legalMovesFrom_def)
  have "tr_on t = None"
    using t(1,4) assms(1) by (auto simp: edges_ok_def list_all_iff edge_via_def split: option.splits)
  moreover have "stage_ref pb target \<noteq> Missing"
    using t(1,3) assms(1) by (auto simp: edges_ok_def list_all_iff jhas_def js_index_Missing)
  moreover have "List.find (\<lambda>u. tr_from u = cur \<and> tr_to u = target) (pb_transitions pb) = Some t"
    using find_edge [OF assms(1) t(1)] t(2,3) by simp
  ultimately show "rm_illegal (resolve_prompt pb cur target) = None"
    using assms(2) by (simp add: resolve_prompt_def move_to_def stay_def)
qed

lemma enter_stage_code:
  "enter_stage tool a pb sid cur m name st p isLive = Refuse c r lm \<Longrightarrow>
     c \<in> {NEEDS_UNSATISFIED, NEEDS_WORKER_GONE, PLAYBOOK_MISMATCH, STAGE_AT_CAPACITY, ARG_PIN_CONFLICT}"
  using applyPin_outcomes [of st name pb tool a "move_of m cur name" "[]"]
    checkNeeds_refuses [of pb st name "supplied_provenance a" p "Some sid" isLive]
  by (auto simp: enter_stage_def Let_def split: option.splits if_splits)

lemma resolve_prompt_stage:
  assumes "edges_ok pb" "target \<noteq> cur" "rm_illegal (resolve_prompt pb cur target) = None"
  shows "rm_resulting (resolve_prompt pb cur target) = Some target \<and> jhas (pb_stages pb) target"
proof -
  obtain t where t: "List.find (\<lambda>t. tr_from t = cur \<and> tr_to t = target) (pb_transitions pb) = Some t"
    "resolve_prompt pb cur target = move_to cur target ''send_prompt''"
    using assms(2,3)
    by (auto simp: resolve_prompt_def illegal_move_def split: if_splits option.splits)
  then show ?thesis
    using find_SomeD [OF t(1)] assms(1) by (auto simp: edges_ok_def list_all_iff move_to_def)
qed

text \<open>
   The moves a refusal advertises are exactly the legal ones: on a validated playbook a
  prompt naming another stage is refused as no legal move exactly when \<open>legalMovesFrom\<close> of the
  worker's current stage does not list that stage under \<open>send_prompt\<close>.
\<close>

theorem legal_moves_are_exact:
  assumes "edges_ok pb" "subject_of a p = Some (sid, w)" "map_of pbs (ws_playbook w) = Some pb"
    and "map_of (pb_stages pb) (ws_stage w) = Some cur" "resolvePolicy cur ''send_prompt'' \<noteq> Deny"
    and "checkForwardSource a p pbs (Some w) = Forward_ok"
    and "map_of a ''stage'' = Some (JStr target)" "target \<noteq> ws_stage w" "ws_stage w \<noteq> []"
    and "normalizeToolName tool = ''send_prompt''"
  shows "(\<exists>c r m. decide tool a p pbs isLive handle = Refuse c r m \<and> c \<in> {TRANSITION_ILLEGAL, STAGE_UNKNOWN})
     \<longleftrightarrow> (target, ''send_prompt'') \<notin> set (lm_transitions (legalMovesFrom (Some pb) (Some (ws_stage w))))"
proof -
  note s = decideTargeted_subject [OF assms(2)]
  have rm: "resolveMove ''send_prompt'' a pb (ws_stage w) = resolve_prompt pb (ws_stage w) target"
    using assms(7) by (simp add: resolveMove_def)
  have d: "decide tool a p pbs isLive handle =
      (case rm_illegal (resolve_prompt pb (ws_stage w) target) of
         Some (c, r) \<Rightarrow> Refuse c (R_move_illegal (short sid) (ws_stage w) r)
           (legalMovesFrom (Some pb) (Some (ws_stage w)))
       | None \<Rightarrow> (case rm_resulting (resolve_prompt pb (ws_stage w) target) of
           None \<Rightarrow> Throws
         | Some rn \<Rightarrow> (case stage_ref pb rn of
             Own st \<Rightarrow> enter_stage ''send_prompt'' a pb sid (ws_stage w)
               (resolve_prompt pb (ws_stage w) target) rn st p isLive
           | _ \<Rightarrow> Throws)))"
    using assms(3-6) unfolding decide_def decideTargeted_def Let_def s assms(10)
    by (simp add: rm js_index_of_Some) (unfold rm, rule refl)
  show ?thesis
  proof (cases "rm_illegal (resolve_prompt pb (ws_stage w) target)")
    case (Some i)
    then have "fst i \<in> {TRANSITION_ILLEGAL, STAGE_UNKNOWN}"
      by (auto simp: resolve_prompt_def illegal_move_def move_to_def stay_def split: if_splits option.splits)
    with Some d resolve_prompt_legal [OF assms(1,8,9)] show ?thesis by (cases i) auto
  next
    case None
    from resolve_prompt_stage [OF assms(1,8) this] obtain st
      where "rm_resulting (resolve_prompt pb (ws_stage w) target) = Some target"
        "map_of (pb_stages pb) target = Some st" by (auto simp: jhas_def)
    then have "decide tool a p pbs isLive handle = enter_stage ''send_prompt'' a pb sid (ws_stage w)
        (resolve_prompt pb (ws_stage w) target) target st p isLive"
      using None d by (simp add: js_index_of_Some)
    with None resolve_prompt_legal [OF assms(1,8,9)] show ?thesis by (auto dest!: enter_stage_code)
  qed
qed

subsection \<open>The census\<close>

lemma satisfier_is_member:
  assumes "need_satisfied need m pb (foldProjection evs) (Some anchor) isLive"
    and "map_of (bySession (foldProjection evs)) anchor = Some w" "anchor \<noteq> []"
  shows "m \<in> set (runMembers (foldProjection evs) anchor)"
proof -
  obtain u where "map_of (bySession (foldProjection evs)) m = Some u"
    using assms(1) unfolding need_satisfied_def by blast
  then have "m \<in> fst (run_spec evs)"
    using foldProjection_sim [of evs] by (force simp: run_sim_def dest: map_of_SomeD)
  then show ?thesis
    using need_linked [OF assms(1,3,2)] tracked_node [OF assms(2)] linked_sym by (auto simp: run_members_iff)
qed

text \<open>
   The census of a missing need is exact: for a tracked anchor it either lists precisely
  the run's workers that the gate itself would accept for that entry, or no session whatever
  would be accepted.
\<close>

theorem census_matches_gate:
  assumes "map_of (bySession (foldProjection evs)) anchor = Some w" "anchor \<noteq> []"
  shows "needCensus need pb (foldProjection evs) (Some anchor) isLive =
      Satisfied_by (map short (filter (\<lambda>m. need_satisfied need m pb (foldProjection evs) (Some anchor) isLive)
        (runMembers (foldProjection evs) anchor)))
     \<or> (\<exists>gone. needCensus need pb (foldProjection evs) (Some anchor) isLive = Nobody_now gone
        \<and> (\<forall>m. \<not> need_satisfied need m pb (foldProjection evs) (Some anchor) isLive))"
proof (cases "filter (\<lambda>m. need_satisfied need m pb (foldProjection evs) (Some anchor) isLive)
    (runMembers (foldProjection evs) anchor) = []")
  case True
  then have "\<forall>m. \<not> need_satisfied need m pb (foldProjection evs) (Some anchor) isLive"
    using satisfier_is_member [OF _ assms] unfolding filter_empty_conv by blast
  moreover have "\<exists>gone. needCensus need pb (foldProjection evs) (Some anchor) isLive = Nobody_now gone"
    unfolding needCensus_def Let_def checkNeedEntry_None option.case True using assms(2) by simp
  ultimately show ?thesis by blast
next
  case False
  then show ?thesis unfolding needCensus_def Let_def checkNeedEntry_None option.case using assms(2) by simp
qed

subsection \<open>Untracked workers and inherited names\<close>

text \<open>
   Policy governs tracked workers only: a call on a session the ledger does not track passes
  with its arguments untouched and moves nothing, unless it forwards from a tracked worker whose
  stage denies the read.
\<close>

theorem untracked_subject_passes:
  assumes "subject_of a p = None" "normalizeToolName tool \<noteq> ''spawn_instance''"
    and "decide tool a p pbs isLive handle \<noteq> Permit a (plain_move KNone)"
  shows "\<exists>sid src pb. map_of (asRecord (map_of a ''forward'')) ''sessionId'' = Some (JStr sid)
     \<and> map_of (bySession p) sid = Some src \<and> map_of pbs (ws_playbook src) = Some pb
     \<and> (ws_stage src \<in> set object_prototype_names - set (jkeys (pb_stages pb))
        \<or> (\<exists>st. map_of (pb_stages pb) (ws_stage src) = Some st
              \<and> resolvePolicy st ''get_recent_messages'' = Deny))"
proof -
  define fw where "fw = map_of (asRecord (map_of a ''forward'')) ''sessionId''"
  have "checkForwardSource a p pbs None \<noteq> Forward_ok"
    using assms by (auto simp: decide_targeted decideTargeted_untracked)
  then obtain sid src pb where s: "str_or_empty fw = sid" "sid \<noteq> []" "map_of (bySession p) sid = Some src"
    "map_of pbs (ws_playbook src) = Some pb"
    and r: "stage_ref pb (ws_stage src) = Inherited \<or> (\<exists>st. map_of (pb_stages pb) (ws_stage src) = Some st
              \<and> resolvePolicy st ''get_recent_messages'' = Deny)"
    by (auto simp: checkForwardSource_def Let_def fw_def split: if_splits option.splits js_ref.splits)
  have "fw = Some (JStr sid)" using s(1,2) str_or_empty_iff [of fw sid] by blast
  moreover have "ws_stage src \<in> set object_prototype_names - set (jkeys (pb_stages pb))"
    if "stage_ref pb (ws_stage src) = Inherited"
    using that by (auto simp: js_index_def map_of_eq_None_iff split: option.splits if_splits)
  ultimately show ?thesis using s r unfolding fw_def by blast
qed

text \<open>
   A spawn naming a stage that only \<open>Object.prototype\<close> has (\<open>constructor\<close>, \<open>toString\<close>, ...)
  throws instead of being refused \<open>STAGE_UNKNOWN\<close>, whatever the loaded playbook.
\<close>

theorem spawn_into_prototype_name_throws:
  assumes "normalizeToolName tool = ''spawn_instance''"
    and "map_of a ''stage'' = Some (JStr name)" "name \<in> set object_prototype_names"
    and "map_of a ''playbook'' = Some (JStr pid)" "pid \<noteq> []" "map_of a ''provenance'' = None"
    and "map_of a ''resume'' = None" "map_of pbs pid = Some pb" "\<not> jhas (pb_stages pb) name"
  shows "decide tool a p pbs isLive None = Throws"
proof -
  have "name \<noteq> []" using assms(3) by (auto simp: object_prototype_names_def)
  moreover have "stage_ref pb name = Inherited"
    using assms(3,9) by (simp add: js_index_def jhas_def)
  moreover have "spawn_binding a [] p pbs = Inr pid"
    using assms(4-6) by (simp add: spawn_binding_def supplied_provenance_def Let_def)
  ultimately show ?thesis
    using assms by (simp add: decide_spawn decideSpawn_def resume_id_def Let_def)
qed

subsection \<open>A concrete playbook\<close>

definition demo_pb :: playbook where
  "demo_pb = \<lparr>pb_id = ''demo'', pb_name = ''Demo'', pb_description = ''d'', pb_entryStages = [''plan''],
     pb_stages =
       [(''plan'', \<lparr>st_needs = [], st_workers = One,
           st_tools = [(''spawn_instance'', Pin [(''mode'', JStr ''plan'')])], st_description = None\<rparr>),
        (''build'', \<lparr>st_needs = [\<lparr>ne_stage = ''plan'', ne_position = [''plan''], ne_liveness = Live\<rparr>],
           st_workers = One, st_tools = [(''spawn_instance'', Allow), (''clear'', Deny)], st_description = None\<rparr>),
        (''review'', \<lparr>st_needs = [\<lparr>ne_stage = ''plan'', ne_position = [''*''], ne_liveness = AnyLiveness\<rparr>],
           st_workers = One, st_tools = [(''set_mode'', Pin [(''mode'', JStr ''plan'')]),
             (''get_recent_messages'', Deny)], st_description = None\<rparr>)],
     pb_transitions =
       [\<lparr>tr_from = ''build'', tr_to = ''review'', tr_on = None, tr_description = None\<rparr>,
        \<lparr>tr_from = ''review'', tr_to = ''build'', tr_on = Some ''set_mode'', tr_description = None\<rparr>],
     pb_plugin = None, pb_builtin = True\<rparr>"

definition demo_pbs :: "(string, playbook) jmap" where
  "demo_pbs = [(''demo'', demo_pb)]"

definition demo_evs :: "ledger_event list" where
  "demo_evs = [demo_row 1 (Spawn ''a'' ''demo'' ''plan'' None None None),
     demo_row 2 (Spawn ''b'' ''demo'' ''build'' (Some [(''plan'', ''a'')]) None None)]"

definition demo_spawn :: args where
  "demo_spawn = [(''playbook'', JStr ''demo''), (''stage'', JStr ''plan'')]"

definition demo_move :: args where
  "demo_move = [(''sessionId'', JStr ''b''), (''stage'', JStr ''review''),
     (''provenance'', JObj [(''plan'', JStr ''a'')])]"

lemma spawn_fails_closed_witness:
  "\<exists>pb. map_of demo_pbs ''demo'' = Some pb \<and> (\<exists>out mv name st policy.
     decide ''spawn_instance'' demo_spawn emptyProjection demo_pbs (\<lambda>_. True) None = Permit out mv
     \<and> mv_to mv = Some name \<and> map_of (pb_stages pb) name = Some st
     \<and> map_of (st_tools st) ''spawn_instance'' = Some policy \<and> policy \<noteq> Deny)"
proof -
  let ?mv = "(plain_move KSpawn)\<lparr>mv_to := Some ''plan'', mv_playbook := Some ''demo''\<rparr>"
  let ?out = "demo_spawn @ [(''mode'', JStr ''plan'')]"
  have d: "decide ''spawn_instance'' demo_spawn emptyProjection demo_pbs (\<lambda>_. True) None = Permit ?out ?mv"
    by code_simp
  obtain pid pb name st policy where "map_of demo_pbs pid = Some pb" "mv_to ?mv = Some name"
    "map_of (pb_stages pb) name = Some st" "map_of (st_tools st) ''spawn_instance'' = Some policy" "policy \<noteq> Deny"
    using spawn_fails_closed [OF d] by (auto simp: plain_move_def)
  moreover from this(1) have "pid = ''demo''" by (simp add: demo_pbs_def split: if_splits)
  ultimately show ?thesis using d by blast
qed

lemma demo_move_permitted:
  "decide ''send_prompt'' demo_move (foldProjection demo_evs) demo_pbs (\<lambda>_. True) None
     = Permit demo_move \<lparr>mv_kind = KTransition, mv_from = Some ''build'', mv_to = Some ''review'',
         mv_via = Some ''send_prompt'', mv_playbook = None, mv_recorded = False\<rparr>"
  by code_simp

lemma transition_follows_edge_witness:
  "\<exists>sid w pb t. subject_of demo_move (foldProjection demo_evs) = Some (sid, w)
     \<and> map_of demo_pbs (ws_playbook w) = Some pb \<and> t \<in> set (pb_transitions pb) \<and> tr_from t = ws_stage w"
  using transition_follows_edge [OF demo_move_permitted] by auto

lemma transition_entry_conditions_witness:
  "\<exists>sid w. subject_of demo_move (foldProjection demo_evs) = Some (sid, w)
     \<and> (\<exists>name pb st. map_of demo_pbs (ws_playbook w) = Some pb \<and> map_of (pb_stages pb) name = Some st
       \<and> name = ''review'')"
  using transition_entry_conditions [OF demo_move_permitted] by auto

lemma entered_stage_pins_arguments_witness:
  "\<exists>st. pinned_args demo_spawn (demo_spawn @ [(''mode'', JStr ''plan'')]) (pins_of st ''spawn_instance'') []"
proof -
  have "decide ''spawn_instance'' demo_spawn emptyProjection demo_pbs (\<lambda>_. True) None
    = Permit (demo_spawn @ [(''mode'', JStr ''plan'')])
        ((plain_move KSpawn)\<lparr>mv_to := Some ''plan'', mv_playbook := Some ''demo''\<rparr>)"
    by code_simp
  from entered_stage_pins_arguments [OF this]
  have "\<exists>st. pinned_args demo_spawn (demo_spawn @ [(''mode'', JStr ''plan'')])
      (pins_of st (normalizeToolName ''spawn_instance''))
      (if resume_id demo_spawn None \<noteq> [] then SPAWN_SHAPE_PINS else [])"
    by (auto simp: plain_move_def pins_once_def demo_pbs_def demo_pb_def jmap_ok_def)
  moreover have "normalizeToolName ''spawn_instance'' = ''spawn_instance''" "resume_id demo_spawn None = []"
    by code_simp+
  ultimately show ?thesis by simp
qed

lemma resume_is_not_an_entry_witness:
  "\<exists>out mv. decide ''spawn_instance'' [(''resume'', JStr ''b'')] (foldProjection demo_evs) demo_pbs
       (\<lambda>_. False) None = Permit out mv \<and> mv_kind mv = KResume \<and> mv_to mv = Some ''build''"
proof -
  let ?a = "[(''resume'', JStr ''b'')]"
  let ?mv = "(plain_move KResume)\<lparr>mv_to := Some ''build'', mv_playbook := Some ''demo''\<rparr>"
  have d: "decide ''spawn_instance'' ?a (foldProjection demo_evs) demo_pbs (\<lambda>_. False) None = Permit ?a ?mv"
    by code_simp
  have n: "normalizeToolName ''spawn_instance'' = ''spawn_instance''" by code_simp
  obtain w where w: "resumed_worker ?a (foldProjection demo_evs) None = Some w" "ws_stage w = ''build''"
  proof -
    have "map_option ws_stage (resumed_worker ?a (foldProjection demo_evs) None) = Some ''build''" by code_simp
    then show thesis using that by auto
  qed
  from resume_is_not_an_entry [OF n w(1), of demo_pbs "\<lambda>_. False", THEN conjunct2] d
  have "mv_kind ?mv = KResume \<and> mv_to ?mv = Some (ws_stage w)" by blast
  with d show ?thesis unfolding w(2) by blast
qed

lemma demo_subject:
  "\<exists>w. subject_of demo_move (foldProjection demo_evs) = Some (''b'', w)
     \<and> ws_stage w = ''build'' \<and> ws_playbook w = ''demo''"
proof -
  have "map_option (\<lambda>(s, w). (s, ws_stage w, ws_playbook w)) (subject_of demo_move (foldProjection demo_evs))
      = Some (''b'', ''build'', ''demo'')" by code_simp
  then show ?thesis by auto
qed

definition demo_follow_up :: args where
  "demo_follow_up = [(''sessionId'', JStr ''b''), (''stage'', JStr ''build''),
     (''forward'', JObj [(''sessionId'', JStr ''c'')])]"

definition demo_review_log :: "ledger_event list" where
  "demo_review_log = demo_evs @ [demo_row 3 (Spawn ''c'' ''demo'' ''review'' (Some [(''plan'', ''a'')]) None None)]"

lemma self_edge_never_gated_witness:
  "\<exists>c r m. decide ''send_prompt'' demo_follow_up (foldProjection demo_review_log) demo_pbs (\<lambda>_. True) None
       = Refuse c r m \<and> c = FORWARD_DENIED_IN_STAGE"
proof -
  let ?p = "foldProjection demo_review_log"
  have "map_option (\<lambda>(s, w). (s, ws_stage w, ws_playbook w)) (subject_of demo_follow_up ?p)
      = Some (''b'', ''build'', ''demo'')" by code_simp
  then obtain w where w: "subject_of demo_follow_up ?p = Some (''b'', w)" "ws_stage w = ''build''"
    "ws_playbook w = ''demo''" by auto
  have "case decide ''send_prompt'' demo_follow_up ?p demo_pbs (\<lambda>_. True) None of
      Refuse c r m \<Rightarrow> c = FORWARD_DENIED_IN_STAGE | _ \<Rightarrow> False" by code_simp
  then obtain c r m where d: "decide ''send_prompt'' demo_follow_up ?p demo_pbs (\<lambda>_. True) None = Refuse c r m"
    and c: "c = FORWARD_DENIED_IN_STAGE" by (auto split: decision.splits)
  have n: "normalizeToolName ''send_prompt'' = ''send_prompt''" by code_simp
  obtain st where "map_of (pb_stages demo_pb) ''build'' = Some st" by (simp add: demo_pb_def)
  then have "c = TOOL_DENIED_IN_STAGE \<and> resolvePolicy st ''send_prompt'' = Deny
     \<or> c = FORWARD_DENIED_IN_STAGE \<and> (\<exists>d. checkForwardSource demo_follow_up ?p demo_pbs (Some w) = Forward_refused d)
     \<or> c = ARG_PIN_CONFLICT"
    by (intro self_edge_never_gated [OF w(1) _ _ _ d n, of demo_pb])
       (simp_all add: w demo_follow_up_def demo_pbs_def)
  with c d show ?thesis by blast
qed

lemma legal_moves_are_exact_witness:
  "\<not> (\<exists>c r m. decide ''send_prompt'' demo_move (foldProjection demo_evs) demo_pbs (\<lambda>_. True) None
       = Refuse c r m \<and> c \<in> {TRANSITION_ILLEGAL, STAGE_UNKNOWN})"
proof -
  obtain w where w: "subject_of demo_move (foldProjection demo_evs) = Some (''b'', w)"
    "ws_stage w = ''build''" "ws_playbook w = ''demo''"
    using demo_subject by blast
  have n: "normalizeToolName ''send_prompt'' = ''send_prompt''" by code_simp
  have e: "edges_ok demo_pb" by code_simp
  have f: "checkForwardSource demo_move (foldProjection demo_evs) demo_pbs (Some w) = Forward_ok"
    by (simp add: checkForwardSource_def demo_move_def)
  obtain cur where cur: "map_of (pb_stages demo_pb) ''build'' = Some cur"
    "resolvePolicy cur ''send_prompt'' \<noteq> Deny"
    by (simp add: demo_pb_def resolvePolicy_def WILDCARD_def)
  have "(''review'', ''send_prompt'') \<in> set (lm_transitions (legalMovesFrom (Some demo_pb) (Some (ws_stage w))))"
    unfolding w(2) by code_simp
  then show ?thesis
    using legal_moves_are_exact [OF e w(1) _ _ cur(2) f _ _ _ n, of "''review''" "\<lambda>_. True" None]
      w cur(1) by (simp add: demo_pbs_def demo_move_def)
qed

lemma census_matches_gate_witness:
  "\<exists>gone. needCensus \<lparr>ne_stage = ''review'', ne_position = [''review''], ne_liveness = Live\<rparr> demo_pb
     (foldProjection demo_evs) (Some ''a'') (\<lambda>_. True) = Nobody_now gone"
proof -
  let ?need = "\<lparr>ne_stage = ''review'', ne_position = [''review''], ne_liveness = Live\<rparr>"
  have "map_option ws_stage (map_of (bySession (foldProjection demo_evs)) ''a'') = Some ''plan''" by code_simp
  then obtain w where w: "map_of (bySession (foldProjection demo_evs)) ''a'' = Some w" by auto
  have "needCensus ?need demo_pb (foldProjection demo_evs) (Some ''a'') (\<lambda>_. True) \<noteq> Satisfied_by xs" for xs
  proof -
    have "case needCensus ?need demo_pb (foldProjection demo_evs) (Some ''a'') (\<lambda>_. True) of
        Nobody_now _ \<Rightarrow> True | _ \<Rightarrow> False" by code_simp
    then show ?thesis by (auto split: census.splits)
  qed
  with census_matches_gate [OF w, of ?need demo_pb "\<lambda>_. True"] show ?thesis by auto
qed

lemma untracked_subject_passes_witness:
  "\<exists>src. map_of (bySession (foldProjection demo_review_log)) ''c'' = Some src"
proof -
  let ?a = "[(''sessionId'', JStr ''zz''), (''forward'', JObj [(''sessionId'', JStr ''c'')])]"
  have s: "subject_of ?a (foldProjection demo_review_log) = None" by code_simp
  have n: "normalizeToolName ''send_prompt'' \<noteq> ''spawn_instance''" by code_simp
  have "case decide ''send_prompt'' ?a (foldProjection demo_review_log) demo_pbs (\<lambda>_. True) None of
      Permit _ _ \<Rightarrow> False | _ \<Rightarrow> True" by code_simp
  then have d: "decide ''send_prompt'' ?a (foldProjection demo_review_log) demo_pbs (\<lambda>_. True) None
      \<noteq> Permit ?a (plain_move KNone)" by (auto split: decision.splits)
  from untracked_subject_passes [OF s n d] show ?thesis by auto
qed

lemma spawn_into_prototype_name_throws_witness:
  "decide ''spawn_instance'' [(''playbook'', JStr ''demo''), (''stage'', JStr ''constructor'')]
     emptyProjection demo_pbs (\<lambda>_. True) None = Throws"
proof (rule spawn_into_prototype_name_throws [where name = "''constructor''" and pid = "''demo''" and pb = demo_pb])
  show "normalizeToolName ''spawn_instance'' = ''spawn_instance''" by code_simp
qed (simp_all add: object_prototype_names_def demo_pbs_def demo_pb_def jhas_def)

end
