(* ===== verification/PlaybookGate.thy ===== *)
theory PlaybookGate
  imports PolicyFacts
begin

text \<open>
  The enforcement gate, \<open>src/mcp/playbookGate.ts\<close>: \<open>check\<close> decides before a tool runs, \<open>commitMove\<close>
  records after it, and the manager's event stream adds lifecycle, wake and enforcement rows.
  Every append goes through one serialized chain; a row whose shape depends on the projection is
  a thunk resolved when its turn comes.  An append is not atomic: the row is stamped, its line
  reaches the file piece by piece while other work goes on, the write may fail at any point and
  leave what had landed, and only a write that resolved is folded into the projection
  (\<open>PlaybookLedger.append\<close>).  The state keeps the text of the file, the folded projection, the
  append in flight, the chain, and the appends of listeners that still wait for the ledger to
  load; a run is a sequence of \<open>gate_step\<close>s, in any interleaving.
\<close>

subsection \<open>State\<close>

text \<open>What the code hands to \<open>append\<close>: a row, or one of the two thunks.\<close>

datatype pending =
    P_row ledger_body
  | P_lifecycle ledger_body bool \<comment> \<open>row, conducted\<close>
  | P_spawn ledger_body

text \<open>
  The append whose write is awaited: the row stamped for it and the text not yet on disk.
  \<open>gt_rows\<close> is a history variable: the rows loaded at boot and, after them, the rows folded since.
  The code keeps no such list; nothing below reads it but the statements.
\<close>

record awaited_append =
  fl_row :: ledger_event
  fl_rest :: string

record gate =
  gt_file :: string
  gt_rows :: "ledger_event list"
  gt_proj :: projection
  gt_flight :: "awaited_append option"
  gt_chain :: "pending list"
  gt_waiting :: "pending list"
  gt_lastMode :: "(string, enforcement_mode) jmap"
  gt_lifecycle :: "(string, bool) jmap" \<comment> \<open>True: alive\<close>
  gt_emitted :: "string list"
  gt_warned :: "(string \<times> refusal_code) list"

text \<open>The gate after its first \<open>ensureLoaded\<close>, over the file and the rows a reader finds in it.\<close>

definition gate_init :: "string \<Rightarrow> ledger_event list \<Rightarrow> gate" where
  "gate_init file rows = \<lparr>gt_file = file, gt_rows = rows, gt_proj = foldProjection rows,
     gt_flight = None, gt_chain = [], gt_waiting = [],
     gt_lastMode = [], gt_lifecycle = [], gt_emitted = [], gt_warned = []\<rparr>"

definition gate_append :: "pending \<Rightarrow> gate \<Rightarrow> gate" where
  "gate_append p g = g\<lparr>gt_chain := gt_chain g @ [p]\<rparr>"

definition gate_wait :: "pending \<Rightarrow> gate \<Rightarrow> gate" where
  "gate_wait p g = g\<lparr>gt_waiting := gt_waiting g @ [p]\<rparr>"

subsection \<open>The chain\<close>

fun body_session :: "ledger_body \<Rightarrow> string" where
  "body_session (Spawn s _ _ _ _ _) = s"
| "body_session (Transition s _ _ _ _ _) = s"
| "body_session (Retire s _) = s"
| "body_session (Resume s) = s"
| "body_session (Refusal s _ _ _) = (case s of Some x \<Rightarrow> x | None \<Rightarrow> [])"
| "body_session (Enforcement s _ _) = s"
| "body_session (Interaction _ s _ _) = s"
| "body_session (Wake s _ _) = s"

definition resolve_pending :: "projection \<Rightarrow> pending \<Rightarrow> ledger_body option" where
  "resolve_pending p pend = (case pend of
       P_row b \<Rightarrow> Some b
     | P_lifecycle b conducted \<Rightarrow> if conducted \<or> jhas (bySession p) (body_session b) then Some b else None
     | P_spawn b \<Rightarrow> if jhas (bySession p) (body_session b) then None else Some b)"

definition moves_binding :: "ledger_body \<Rightarrow> bool" where
  "moves_binding b \<longleftrightarrow> is_move b"

text \<open>
  A link of the chain starts when the one before it has settled: the thunk is resolved, and the
  row takes its number and its time from the projection and the clock of that moment.
\<close>

definition row_line :: "(ledger_event \<Rightarrow> string) \<Rightarrow> ledger_event \<Rightarrow> string" where
  "row_line encode row = encode row @ [CHR 0x0A]"

definition chain_start :: "(ledger_event \<Rightarrow> string) \<Rightarrow> string \<Rightarrow> gate \<Rightarrow> gate" where
  "chain_start encode now g = (case (gt_flight g, gt_chain g) of
       (None, p # rest) \<Rightarrow>
         (case resolve_pending (gt_proj g) p of
            None \<Rightarrow> g\<lparr>gt_chain := rest\<rparr>
          | Some b \<Rightarrow>
             (let row = ledger_row (gt_proj g) now b
              in g\<lparr>gt_chain := rest, gt_flight := Some \<lparr>fl_row = row, fl_rest = row_line encode row\<rparr>\<rparr>))
     | _ \<Rightarrow> g)"

text \<open>Some more of the line reaches the file.\<close>

definition chain_land :: "nat \<Rightarrow> gate \<Rightarrow> gate" where
  "chain_land n g = (case gt_flight g of
       None \<Rightarrow> g
     | Some f \<Rightarrow> g\<lparr>gt_file := gt_file g @ take n (fl_rest f),
                   gt_flight := Some (f\<lparr>fl_rest := drop n (fl_rest f)\<rparr>)\<rparr>)"

text \<open>The write resolved: \<open>applyEvent\<close>, then the hint to the pages.\<close>

definition chain_fold :: "gate \<Rightarrow> gate" where
  "chain_fold g = (case gt_flight g of
       None \<Rightarrow> g
     | Some f \<Rightarrow>
         (if fl_rest f \<noteq> [] then g
          else g\<lparr>gt_rows := gt_rows g @ [fl_row f], gt_proj := applyEvent (gt_proj g) (fl_row f),
                 gt_flight := None,
                 gt_emitted := gt_emitted g @
                   (if moves_binding (ev_body (fl_row f)) then [body_session (ev_body (fl_row f))] else [])\<rparr>))"

text \<open>
  The write failed (\<open>mkdir\<close> or \<open>appendFile\<close> rejected): a warning, nothing folded, and what had
  landed stays in the file.
\<close>

definition chain_fail :: "gate \<Rightarrow> gate" where
  "chain_fail g = g\<lparr>gt_flight := None\<rparr>"

text \<open>The continuation after \<open>await ensureLoaded()\<close>: listeners' appends reach the chain in order.\<close>

definition settle :: "gate \<Rightarrow> gate" where
  "settle g = (case gt_waiting g of [] \<Rightarrow> g | p # rest \<Rightarrow> g\<lparr>gt_waiting := rest, gt_chain := gt_chain g @ [p]\<rparr>)"

subsection \<open>The manager's event stream\<close>

definition isDeadStatus :: "string \<Rightarrow> bool" where
  "isDeadStatus s \<longleftrightarrow> s = ''exited'' \<or> s = ''crashed''"

definition CONDUCT_PROJECT_NAME :: string where "CONDUCT_PROJECT_NAME = ''.conduct''"

definition isConductorInstance :: "string \<Rightarrow> bool" where
  "isConductorInstance project \<longleftrightarrow> project = CONDUCT_PROJECT_NAME"

record instance_summary =
  is_sessionId :: "string option"
  is_status :: string
  is_conducted :: bool
  is_project :: string
  is_enforcement :: "json option"

definition appendLifecycle :: "ledger_body \<Rightarrow> bool \<Rightarrow> gate \<Rightarrow> gate" where
  "appendLifecycle b conducted g = gate_wait (P_lifecycle b conducted) g"

definition note_lifecycle :: "string \<Rightarrow> instance_summary \<Rightarrow> gate \<Rightarrow> gate" where
  "note_lifecycle sid s g =
     (if isDeadStatus (is_status s)
      then (if map_of (gt_lifecycle g) sid \<noteq> Some False
            then appendLifecycle (Retire sid (''subprocess '' @ is_status s)) (is_conducted s)
                   (g\<lparr>gt_lifecycle := jput sid False (gt_lifecycle g)\<rparr>)
            else g)
      else g\<lparr>gt_lifecycle := jput sid True (gt_lifecycle g)\<rparr>)"

definition note_enforcement :: "string \<Rightarrow> instance_summary \<Rightarrow> gate \<Rightarrow> gate" where
  "note_enforcement sid s g =
     (if \<not> isConductorInstance (is_project s) then g
      else (let mode = normalizePlaybookEnforcement (is_enforcement s) in
        case map_of (gt_lastMode g) sid of
          None \<Rightarrow> gate_wait (P_row (Enforcement sid None (mode_text mode)))
                    (g\<lparr>gt_lastMode := jput sid mode (gt_lastMode g)\<rparr>)
        | Some prev \<Rightarrow> if mode = prev then g
            else gate_wait (P_row (Enforcement sid (Some (mode_text prev)) (mode_text mode)))
                   (g\<lparr>gt_lastMode := jput sid mode (gt_lastMode g)\<rparr>)))"

definition onStatus :: "instance_summary \<Rightarrow> gate \<Rightarrow> gate" where
  "onStatus s g = (case is_sessionId s of
       None \<Rightarrow> g
     | Some sid \<Rightarrow> if sid = [] then g else note_enforcement sid s (note_lifecycle sid s g))"

definition onRelaunched :: "string \<Rightarrow> bool \<Rightarrow> gate \<Rightarrow> gate" where
  "onRelaunched sid conducted g =
     (if sid = [] \<or> map_of (gt_lifecycle g) sid = Some True then g
      else appendLifecycle (Resume sid) conducted (g\<lparr>gt_lifecycle := jput sid True (gt_lifecycle g)\<rparr>))"

definition onWake :: "string \<Rightarrow> string \<Rightarrow> string \<Rightarrow> bool \<Rightarrow> gate \<Rightarrow> gate" where
  "onWake callerProject caller target heartbeat g =
     (if isConductorInstance callerProject then gate_wait (P_row (Wake target caller heartbeat)) g else g)"

subsection \<open>The checkpoint\<close>

definition forwardSubject :: "args \<Rightarrow> string option" where
  "forwardSubject a = nonempty_str (map_of (asRecord (map_of a ''forward'')) ''sessionId'')"

fun code_text :: "refusal_code \<Rightarrow> string" where
  "code_text PLAYBOOK_UNKNOWN = ''PLAYBOOK_UNKNOWN''"
| "code_text STAGE_UNKNOWN = ''STAGE_UNKNOWN''"
| "code_text STAGE_NOT_SPAWNABLE = ''STAGE_NOT_SPAWNABLE''"
| "code_text TRANSITION_ILLEGAL = ''TRANSITION_ILLEGAL''"
| "code_text NEEDS_UNSATISFIED = ''NEEDS_UNSATISFIED''"
| "code_text NEEDS_WORKER_GONE = ''NEEDS_WORKER_GONE''"
| "code_text ARG_PIN_CONFLICT = ''ARG_PIN_CONFLICT''"
| "code_text TOOL_DENIED_IN_STAGE = ''TOOL_DENIED_IN_STAGE''"
| "code_text STAGE_AT_CAPACITY = ''STAGE_AT_CAPACITY''"
| "code_text PLAYBOOK_MISMATCH = ''PLAYBOOK_MISMATCH''"
| "code_text FORWARD_DENIED_IN_STAGE = ''FORWARD_DENIED_IN_STAGE''"

text \<open>The row of a refusal: every worker the call named (\<open>subjects\<close>).\<close>

definition refusal_row :: "args \<Rightarrow> string \<Rightarrow> refusal_code \<Rightarrow> ledger_body" where
  "refusal_row a tool c = Refusal (as_str (map_of a ''sessionId'')) (forwardSubject a) tool (code_text c)"

record caller_view =
  cv_project :: string
  cv_enforcement :: string

text \<open>What \<open>check\<close> reads: the manager (None: a gate with no registry), the tools, the definitions.\<close>

record gate_env =
  ge_liveForSession :: "string \<Rightarrow> caller_view option"
  ge_isSessionLive :: "string \<Rightarrow> bool"
  ge_index :: tool_index
  ge_interaction :: "string list"
  ge_playbooks :: "(string, playbook) jmap"

datatype gate_outcome =
    Pass "json option"
  | Proceed args move string
  | Refused refusal_code reason legal_moves
  | Gate_throws

definition gate_check ::
  "gate_env option \<Rightarrow> json option \<Rightarrow> json option \<Rightarrow> string option \<Rightarrow> string option \<Rightarrow> gate
   \<Rightarrow> gate_outcome \<times> gate" where
  "gate_check env toolName a callerId handle g =
     (case (env, callerId, as_str toolName, a) of
        (Some e, Some cid, Some rawName, Some (JObj kvs)) \<Rightarrow>
          (if cid = [] then (Pass a, g)
           else case ge_liveForSession e cid of
             None \<Rightarrow> (Pass a, g)
           | Some caller \<Rightarrow>
             (if \<not> isConductorInstance (cv_project caller) then (Pass a, g)
              else let name = normalizeToolName rawName in
                if \<not> jhas (ge_index e) name then (Pass a, g)
                else (case decide name kvs (gt_proj g) (ge_playbooks e) (ge_isSessionLive e) handle of
                    Throws \<Rightarrow> (Gate_throws, g)
                  | Permit patched mv \<Rightarrow> (Proceed patched mv name, g)
                  | Refuse c r m \<Rightarrow>
                      (let g1 = gate_append (P_row (refusal_row kvs name c)) g in
                       if cv_enforcement caller = ''warn''
                       then (Pass a, g1\<lparr>gt_warned := gt_warned g1 @ [(name, c)]\<rparr>)
                       else (Refused c r m, g1)))))
      | _ \<Rightarrow> (Pass a, g))"

subsection \<open>Recording\<close>

definition handler_refused :: "json option \<Rightarrow> bool" where
  "handler_refused res \<longleftrightarrow> map_of (asRecord res) ''ok'' = Some (JBool False)"

definition truthy :: "string option \<Rightarrow> bool" where
  "truthy s \<longleftrightarrow> s \<noteq> None \<and> s \<noteq> Some []"

definition nonempty_prov :: "(string, string) jmap \<Rightarrow> (string, string) jmap option" where
  "nonempty_prov m = (if m = [] then None else Some m)"

definition the_str :: "string option \<Rightarrow> string" where
  "the_str s = (case s of Some x \<Rightarrow> x | None \<Rightarrow> [])"

definition spawn_row :: "move \<Rightarrow> args \<Rightarrow> json option \<Rightarrow> string \<Rightarrow> ledger_body" where
  "spawn_row mv a res sid = Spawn sid (the_str (mv_playbook mv)) (the_str (mv_to mv))
     (nonempty_prov (supplied_provenance a)) (as_str (map_of (asRecord res) ''project''))
     (as_str (map_of (asRecord (map_of (asRecord res) ''worktree'')) ''worktreeName''))"

definition commitMove :: "string list \<Rightarrow> move \<Rightarrow> args \<Rightarrow> string \<Rightarrow> json option \<Rightarrow> string \<Rightarrow> gate \<Rightarrow> gate" where
  "commitMove interaction mv a toolName res conductor g =
     (let sid = str_or_empty (map_of a ''sessionId'');
          moved = truthy (mv_from mv) \<and> truthy (mv_to mv);
          via = (case mv_via mv of Some v \<Rightarrow> v | None \<Rightarrow> toolName)
      in if handler_refused res then g
         else if mv_kind mv = KResume then g
         else if mv_kind mv = KSpawn \<and> truthy (mv_playbook mv) \<and> truthy (mv_to mv)
         then (let new = str_or_empty (map_of (asRecord res) ''sessionId'') in
               if new = [] then g else gate_append (P_spawn (spawn_row mv a res new)) g)
         else if mv_kind mv = KTransition \<and> moved
         then (if sid = [] then g
               else gate_append (P_row (Transition sid (the_str (mv_from mv)) (the_str (mv_to mv)) via
                      (nonempty_prov (supplied_provenance a)) (forwardSubject a))) g)
         else if mv_kind mv = KSelf \<and> mv_recorded mv \<and> moved
         then (if sid = [] then g
               else gate_append (P_row (Transition sid (the_str (mv_from mv)) (the_str (mv_to mv)) via
                      None (forwardSubject a))) g)
         else if sid \<noteq> [] \<and> toolName \<in> set interaction
         then gate_append (P_row (Interaction toolName sid conductor (forwardSubject a))) g
         else g)"

subsection \<open>Reads\<close>

definition readProjection :: "gate \<Rightarrow> projection" where
  "readProjection g = gt_proj g"

definition readBindings :: "json option list \<Rightarrow> gate \<Rightarrow> (string option \<times> string option) list" where
  "readBindings sids g = map (playbookBinding (Some (readProjection g))) sids"

definition gate_isLive :: "gate_env option \<Rightarrow> string \<Rightarrow> bool" where
  "gate_isLive env sid = (case env of None \<Rightarrow> False | Some e \<Rightarrow> ge_isSessionLive e sid)"

definition readLiveWorkers :: "gate_env option \<Rightarrow> string \<Rightarrow> gate \<Rightarrow> string list" where
  "readLiveWorkers env pb g = liveSessionsOnPlaybook (readProjection g) pb (gate_isLive env)"

definition readHistory ::
  "(string \<Rightarrow> json option) \<Rightarrow> (args \<Rightarrow> ledger_event) \<Rightarrow> gate \<Rightarrow> ledger_event list" where
  "readHistory parse cast g = readEvents parse cast (gt_file g)"

subsection \<open>Runs\<close>

text \<open>
  One atomic piece of the gate's work.  \<open>Commits\<close> takes the move an earlier check permitted;
  nothing relates it to the state it runs in, which is the interleaving the code has to survive.
  The parameters are the text of a row (\<open>JSON.stringify\<close>) and which writes may fail: none, those of
  which nothing has landed, or any.
\<close>

datatype write_faults = No_faults | Clean_faults | Any_faults

definition may_fail :: "write_faults \<Rightarrow> (ledger_event \<Rightarrow> string) \<Rightarrow> gate \<Rightarrow> bool" where
  "may_fail faults encode g = (case gt_flight g of
       None \<Rightarrow> False
     | Some f \<Rightarrow> (case faults of
           No_faults \<Rightarrow> False
         | Clean_faults \<Rightarrow> fl_rest f = row_line encode (fl_row f)
         | Any_faults \<Rightarrow> True))"

inductive gate_step :: "(ledger_event \<Rightarrow> string) \<Rightarrow> write_faults \<Rightarrow> gate \<Rightarrow> gate \<Rightarrow> bool"
  for encode faults where
  Checks: "gate_step encode faults g (snd (gate_check env tool a caller handle g))"
| Commits: "gate_step encode faults g (commitMove interaction mv a tool res conductor g)"
| Status: "gate_step encode faults g (onStatus s g)"
| Relaunched: "gate_step encode faults g (onRelaunched sid conducted g)"
| WakeDelivered: "gate_step encode faults g (onWake callerProject caller target heartbeat g)"
| Settles: "gate_step encode faults g (settle g)"
| Starts: "gate_step encode faults g (chain_start encode now g)"
| Lands: "gate_step encode faults g (chain_land n g)"
| Folds: "gate_step encode faults g (chain_fold g)"
| Fails: "may_fail faults encode g \<Longrightarrow> gate_step encode faults g (chain_fail g)"

abbreviation gate_run :: "(ledger_event \<Rightarrow> string) \<Rightarrow> write_faults \<Rightarrow> gate \<Rightarrow> gate \<Rightarrow> bool" where
  "gate_run encode faults \<equiv> (gate_step encode faults)\<^sup>*\<^sup>*"

inductive_cases gate_stepE: "gate_step encode faults g g'"

end
