(* ===== verification/EventStore.thy ===== *)
theory EventStore
  imports PlaybookLedger
begin

text \<open>
  The interface between a log of ledger rows and whoever keeps a folded view of it: the view is
  the fold of the log, and the log only grows.  What the readers of the view rely on follows for
  every such store.  The ledger of \<open>src/playbookLedger.ts\<close> is one; the gate, which batches appends
  behind its own chain, is another.
\<close>

locale event_store =
  fixes ok :: "'s \<Rightarrow> bool" and log :: "'s \<Rightarrow> ledger_event list" and view :: "'s \<Rightarrow> projection"
    and step :: "'s \<Rightarrow> 's \<Rightarrow> bool"
  assumes view_fold: "ok s \<Longrightarrow> view s = foldProjection (log s)"
    and step_ok: "ok s \<Longrightarrow> step s s' \<Longrightarrow> ok s'"
    and step_grows: "ok s \<Longrightarrow> step s s' \<Longrightarrow> \<exists>new. log s' = log s @ new"
begin

lemma run_keeps:
  assumes "step\<^sup>*\<^sup>* s s'" "ok s"
  shows "ok s' \<and> (\<exists>new. log s' = log s @ new)"
  using assms
proof (induction rule: rtranclp_induct)
  case (step t u)
  then obtain new where "ok t" "log t = log s @ new" by blast
  with step_ok [OF _ step.hyps(2)] step_grows [OF _ step.hyps(2)] show ?case by fastforce
qed simp

lemma same_run_persists:
  assumes "step\<^sup>*\<^sup>* s s'" "ok s" "sameRun (view s) a b"
  shows "sameRun (view s') a b"
proof -
  obtain new where "ok s'" "log s' = log s @ new" using run_keeps [OF assms(1,2)] by blast
  with assms(2,3) same_run_mono show ?thesis by (simp add: view_fold)
qed

lemma tracked_persists:
  assumes "step\<^sup>*\<^sup>* s s'" "ok s" "jhas (bySession (view s)) x"
  shows "jhas (bySession (view s')) x"
proof -
  obtain new where "ok s'" "log s' = log s @ new" using run_keeps [OF assms(1,2)] by blast
  with assms(2,3) tracked_mono show ?thesis by (simp add: view_fold)
qed

lemma seq_monotone:
  assumes "step\<^sup>*\<^sup>* s s'" "ok s"
  shows "pr_seq (view s) \<le> pr_seq (view s')"
proof -
  obtain new where "ok s'" "log s' = log s @ new" using run_keeps [OF assms] by blast
  with assms(2) seq_mono show ?thesis by (simp add: view_fold)
qed

end

subsection \<open>The ledger file\<close>

text \<open>An append whose row survives the JSON round trip.\<close>

definition ledger_step ::
  "(string \<Rightarrow> json option) \<Rightarrow> (args \<Rightarrow> ledger_event) \<Rightarrow> ledger \<Rightarrow> ledger \<Rightarrow> bool" where
  "ledger_step parse cast l l' \<longleftrightarrow> (\<exists>encode now b row. ledger_append encode now b l = (row, l')
     \<and> read_line parse cast (encode row) = [row] \<and> CHR 0x0A \<notin> set (encode row))"

definition ledger_ok :: "(string \<Rightarrow> json option) \<Rightarrow> (args \<Rightarrow> ledger_event) \<Rightarrow> ledger \<Rightarrow> bool" where
  "ledger_ok parse cast l \<longleftrightarrow> whole_lines (lg_file l)
     \<and> lg_proj l = foldProjection (readEvents parse cast (lg_file l))"

lemma ledger_step_reads:
  assumes "ledger_ok parse cast l" "ledger_step parse cast l l'"
  shows "ledger_ok parse cast l' \<and> (\<exists>row. readEvents parse cast (lg_file l') = readEvents parse cast (lg_file l) @ [row])"
proof -
  obtain encode now b row where a: "ledger_append encode now b l = (row, l')"
    "read_line parse cast (encode row) = [row]" "CHR 0x0A \<notin> set (encode row)"
    using assms(2) by (auto simp: ledger_step_def)
  have l': "lg_file l' = lg_file l @ encode row @ [CHR 0x0A]" "lg_proj l' = applyEvent (lg_proj l) row"
    using a(1) by (auto simp: ledger_append_def Let_def)
  have "readEvents parse cast (lg_file l') = readEvents parse cast (lg_file l) @ [row]"
    using assms(1) readEvents_line [of "lg_file l" "encode row" parse cast] a(2,3)
    by (simp add: l' ledger_ok_def)
  moreover from this have "ledger_ok parse cast l'"
    using assms(1) by (simp add: ledger_ok_def foldProjection_def l' whole_lines_def)
  ultimately show ?thesis by blast
qed

interpretation ledger_file: event_store "ledger_ok parse cast" "\<lambda>l. readEvents parse cast (lg_file l)" lg_proj
    "ledger_step parse cast" for parse cast
proof
  show "lg_proj l = foldProjection (readEvents parse cast (lg_file l))" if "ledger_ok parse cast l" for l
    using that by (simp add: ledger_ok_def)
  show "ledger_ok parse cast l'" if "ledger_ok parse cast l" "ledger_step parse cast l l'" for l l'
    using ledger_step_reads [OF that] by blast
  show "\<exists>new. readEvents parse cast (lg_file l') = readEvents parse cast (lg_file l) @ new"
    if "ledger_ok parse cast l" "ledger_step parse cast l l'" for l l'
    using ledger_step_reads [OF that] by blast
qed

end
