(* ===== verification/GateFacts.thy ===== *)
theory GateFacts
  imports PlaybookGate EventStore "HOL-Library.Sublist"
begin

text \<open>
  What holds of every run of the gate, in any interleaving of checks, commits, listener events
  and the pieces of an append: the projection is the fold of the rows a reader finds on disk but
  for the one row in flight, unless a write fails half way; a tracked worker is never declared again, the
  enforcement rows of a conductor form a chain, the two enforcement levels decide alike; and what the
  capacity rule does and does not achieve.
\<close>

subsection \<open>Shape of a step\<close>

text \<open>Only the pieces of an append touch the log and the projection; the others only enqueue.\<close>

lemmas gate_enqueues = gate_append_def gate_wait_def appendLifecycle_def

definition same_log :: "gate \<Rightarrow> gate \<Rightarrow> bool" where
  "same_log g g' \<longleftrightarrow> gt_rows g' = gt_rows g \<and> gt_proj g' = gt_proj g \<and> gt_file g' = gt_file g
     \<and> gt_flight g' = gt_flight g"

lemma check_state:
  "snd (gate_check env tool a caller handle g) = g \<or>
   (\<exists>b w. b = P_row w \<and> (\<exists>s f t c. w = Refusal s f t c) \<and>
      gt_chain (snd (gate_check env tool a caller handle g)) = gt_chain g @ [b]
      \<and> same_log g (snd (gate_check env tool a caller handle g))
      \<and> gt_waiting (snd (gate_check env tool a caller handle g)) = gt_waiting g
      \<and> gt_lastMode (snd (gate_check env tool a caller handle g)) = gt_lastMode g)"
  unfolding gate_check_def
  by (auto simp: Let_def gate_append_def refusal_row_def same_log_def
      split: option.splits json.splits decision.splits if_splits)

fun is_spawn :: "ledger_body \<Rightarrow> bool" where
  "is_spawn (Spawn _ _ _ _ _ _) = True"
| "is_spawn _ = False"

fun is_enf_row :: "ledger_body \<Rightarrow> bool" where
  "is_enf_row (Enforcement _ _ _) = True"
| "is_enf_row _ = False"

text \<open>What may stand in the chain: a spawn only as its thunk, an enforcement row only plain.\<close>

definition pending_ok :: "pending \<Rightarrow> bool" where
  "pending_ok p \<longleftrightarrow> (case p of P_row b \<Rightarrow> \<not> is_spawn b
     | P_lifecycle b _ \<Rightarrow> \<not> is_spawn b \<and> \<not> is_enf_row b | P_spawn b \<Rightarrow> is_spawn b)"

definition enqueues_only :: "gate \<Rightarrow> gate \<Rightarrow> bool" where
  "enqueues_only g g' \<longleftrightarrow> g' = g \<or>
     (\<exists>p. g' = gate_append p g \<and> pending_ok p \<and> (\<forall>b. p = P_row b \<longrightarrow> \<not> is_enf_row b))"

lemma enqueues_only_intros:
  "enqueues_only g g"
  "\<not> is_spawn b \<Longrightarrow> \<not> is_enf_row b \<Longrightarrow> enqueues_only g (gate_append (P_row b) g)"
  "enqueues_only g (gate_append (P_spawn (spawn_row mv a res sid)) g)"
  by (auto simp: enqueues_only_def pending_ok_def spawn_row_def)

lemma commit_state: "enqueues_only g (commitMove interaction mv a tool res conductor g)"
  unfolding commitMove_def Let_def by (simp add: enqueues_only_intros)

lemma onStatus_state:
  "same_log g (onStatus s g) \<and> gt_chain (onStatus s g) = gt_chain g
   \<and> (\<forall>p \<in> set (gt_waiting (onStatus s g)) - set (gt_waiting g). pending_ok p)"
  by (auto simp: onStatus_def note_lifecycle_def note_enforcement_def gate_enqueues same_log_def
      pending_ok_def Let_def split: option.splits if_splits)

text \<open>
  The row in flight carries the next number, and a spawn in flight is of an untracked session:
  the chain folds nothing between its stamp and its fold.
\<close>

definition stamp_ok :: "gate \<Rightarrow> bool" where
  "stamp_ok g \<longleftrightarrow> (case gt_flight g of
       None \<Rightarrow> True
     | Some f \<Rightarrow> ev_seq (fl_row f) = Some (pr_seq (gt_proj g) + 1)
         \<and> (is_spawn (ev_body (fl_row f)) \<longrightarrow> \<not> jhas (bySession (gt_proj g)) (body_session (ev_body (fl_row f)))))"

definition gate_inv :: "gate \<Rightarrow> bool" where
  "gate_inv g \<longleftrightarrow> gt_proj g = foldProjection (gt_rows g) \<and> stamp_ok g
     \<and> (\<forall>p \<in> set (gt_chain g) \<union> set (gt_waiting g). pending_ok p)"

lemma gate_init_inv: "gate_inv (gate_init file rows)"
  by (simp add: gate_inv_def gate_init_def stamp_ok_def)

definition folds_row :: "gate \<Rightarrow> gate \<Rightarrow> bool" where
  "folds_row g g' \<longleftrightarrow> (\<exists>f. gt_flight g = Some f \<and> gt_flight g' = None
     \<and> gt_rows g' = gt_rows g @ [fl_row f] \<and> gt_proj g' = applyEvent (gt_proj g) (fl_row f))"

definition same_view :: "gate \<Rightarrow> gate \<Rightarrow> bool" where
  "same_view g g' \<longleftrightarrow> gt_rows g' = gt_rows g \<and> gt_proj g' = gt_proj g"

lemma same_log_view: "same_log g g' \<Longrightarrow> same_view g g'"
  by (simp add: same_log_def same_view_def)

lemma same_log_inv:
  assumes "gate_inv g" "same_log g g'"
    and "\<forall>p \<in> set (gt_chain g') \<union> set (gt_waiting g'). p \<in> set (gt_chain g) \<union> set (gt_waiting g) \<or> pending_ok p"
  shows "gate_inv g' \<and> (same_view g g' \<or> folds_row g g')"
proof -
  have e: "gt_rows g' = gt_rows g" "gt_proj g' = gt_proj g" "gt_flight g' = gt_flight g"
    using assms(2) by (simp_all add: same_log_def)
  have "stamp_ok g' = stamp_ok g" unfolding stamp_ok_def e ..
  with assms(1,3) e show ?thesis unfolding gate_inv_def same_view_def by (metis UnE)
qed

lemma start_shape:
  assumes "gate_inv g"
  shows "gate_inv (chain_start encode now g) \<and> same_view g (chain_start encode now g)"
proof (cases "gt_flight g")
  case (Some f)
  then show ?thesis using assms by (simp add: chain_start_def same_view_def)
next
  case None
  show ?thesis
  proof (cases "gt_chain g")
    case Nil
    then show ?thesis using assms None by (simp add: chain_start_def same_view_def)
  next
    case (Cons p rest)
    have p: "pending_ok p" using assms Cons by (simp add: gate_inv_def)
    have "\<not> jhas (bySession (gt_proj g)) (body_session b)" if "resolve_pending (gt_proj g) p = Some b" "is_spawn b" for b
      using that p by (auto simp: resolve_pending_def pending_ok_def split: pending.splits if_splits)
    then show ?thesis
      using assms None Cons
      by (auto simp: chain_start_def gate_inv_def stamp_ok_def same_view_def ledger_row_def Let_def
          split: option.split)
  qed
qed

lemma step_shape:
  assumes "gate_step encode faults g g'" "gate_inv g"
  shows "gate_inv g' \<and> (same_view g g' \<or> folds_row g g')"
  using assms(1)
proof (cases rule: gate_step.cases)
  case (Checks env tool a caller handle)
  show ?thesis
    using assms(2) check_state [of env tool a caller handle g] unfolding Checks
    by (intro same_log_inv) (auto simp: same_log_def pending_ok_def)
next
  case (Commits interaction mv a tool res conductor)
  show ?thesis
    using assms(2) commit_state [of g interaction mv a tool res conductor] unfolding Commits
    by (intro same_log_inv) (auto simp: enqueues_only_def same_log_def gate_append_def)
next
  case (Status s)
  show ?thesis
    using assms(2) onStatus_state [of g s] unfolding Status by (intro same_log_inv) auto
next
  case (Relaunched sid conducted)
  show ?thesis
    using assms(2) unfolding Relaunched
    by (intro same_log_inv) (auto simp: onRelaunched_def gate_enqueues same_log_def pending_ok_def)
next
  case (WakeDelivered callerProject caller target heartbeat)
  show ?thesis
    using assms(2) unfolding WakeDelivered
    by (intro same_log_inv) (auto simp: onWake_def gate_enqueues same_log_def pending_ok_def)
next
  case Settles
  show ?thesis
    using assms(2) unfolding Settles
    by (intro same_log_inv) (auto simp: settle_def same_log_def split: list.splits)
next
  case (Starts now)
  then show ?thesis using start_shape [OF assms(2)] by simp
next
  case (Lands n)
  then show ?thesis using assms(2)
    by (auto simp: chain_land_def gate_inv_def stamp_ok_def same_view_def split: option.splits)
next
  case Folds
  then show ?thesis
    using assms(2) unfolding gate_inv_def
    by (auto simp: chain_fold_def stamp_ok_def same_view_def folds_row_def fold_snoc split: option.splits)
next
  case Fails
  then show ?thesis using assms(2) by (simp add: chain_fail_def gate_inv_def stamp_ok_def same_view_def)
qed

interpretation gate_store: event_store gate_inv gt_rows gt_proj "gate_step encode faults" for encode faults
proof
  show "gt_proj g = foldProjection (gt_rows g)" if "gate_inv g" for g
    using that by (simp add: gate_inv_def)
  show "gate_inv g'" if "gate_inv g" "gate_step encode faults g g'" for g g'
    using step_shape that by blast
  show "\<exists>new. gt_rows g' = gt_rows g @ new" if "gate_inv g" "gate_step encode faults g g'" for g g'
    using step_shape [OF that(2,1)] by (auto simp: same_view_def folds_row_def)
qed

lemma run_inv: "gate_run encode faults g g' \<Longrightarrow> gate_inv g \<Longrightarrow> gate_inv g'"
  using gate_store.run_keeps by blast

subsection \<open>One projection, one numbering\<close>

definition numbered_after :: "ledger_event list \<Rightarrow> ledger_event list \<Rightarrow> bool" where
  "numbered_after old new \<longleftrightarrow>
     map ev_seq new = map (\<lambda>i. Some (pr_seq (foldProjection old) + 1 + int i)) [0..<length new]"

lemma numbered_seq:
  "numbered_after old new \<Longrightarrow> pr_seq (foldProjection (old @ new)) = pr_seq (foldProjection old) + int (length new)"
proof (induction new rule: rev_induct)
  case (snoc e new)
  then have "numbered_after old new" and e: "ev_seq e = Some (pr_seq (foldProjection old) + 1 + int (length new))"
    by (simp_all add: numbered_after_def)
  with snoc.IH show ?case
    unfolding append_assoc [symmetric] fold_snoc seq_applyEvent by simp
qed simp

lemma numbered_snoc:
  assumes "numbered_after old new"
  shows "numbered_after old (new @ [ledger_row (foldProjection (old @ new)) now b])"
  using assms numbered_seq [OF assms] by (simp add: numbered_after_def ledger_row_def)














subsection \<open>A worker is declared once\<close>

lemma binding_applyEvent:
  assumes "\<not> (is_spawn (ev_body e) \<and> body_session (ev_body e) = sid)"
  shows "map_option ws_playbook (map_of (bySession (applyEvent (foldProjection evs) e)) sid)
       = map_option ws_playbook (map_of (bySession (foldProjection evs)) sid)"
proof -
  note wf = apply_body_wf [OF foldProjection_inv foldProjection_sim, of "ev_body e" evs]
  have "map_option ws_playbook (map_of (bySession (apply_body (ev_body e) (foldProjection evs))) sid)
      = map_option ws_playbook (map_of (bySession (foldProjection evs)) sid)"
    using assms
    by (cases "ev_body e")
       (auto simp: apply_body_def apply_spawn_def apply_transition_def Let_def map_of_jput split: option.splits)
  then show ?thesis
    unfolding applyEvent_closed(1) [OF wf] map_of_jmap_vals
    by (cases "map_of (bySession (apply_body (ev_body e) (foldProjection evs))) sid") auto
qed

lemma history_grows:
  assumes "\<not> (is_spawn (ev_body e) \<and> body_session (ev_body e) = sid)"
  shows "prefix (history_of (foldProjection evs) sid) (history_of (applyEvent (foldProjection evs) e) sid)"
  unfolding history_applyEvent [OF foldProjection_sim]
  using assms by (cases "ev_body e") (auto simp: trace_step_def)

text \<open>
  C27.  A tracked worker is never declared again: however commits race on one session, once the
  projection tracks it, its playbook stays and its stage history only grows, for good.
\<close>

theorem binding_is_never_reset:
  assumes "gate_run encode faults (gate_init file rows) g" "gate_run encode faults g g'" "jhas (bySession (gt_proj g)) sid"
  shows "map_option ws_playbook (map_of (bySession (gt_proj g')) sid)
       = map_option ws_playbook (map_of (bySession (gt_proj g)) sid)
     \<and> prefix (history_of (gt_proj g) sid) (history_of (gt_proj g') sid)"
  using assms(2)
proof (induction rule: rtranclp_induct)
  case (step h h')
  have invg: "gate_inv g" by (rule run_inv [OF assms(1) gate_init_inv])
  have inv: "gate_inv h" by (rule run_inv [OF step.hyps(1) invg])
  have tracked: "jhas (bySession (gt_proj h)) sid"
    by (rule gate_store.tracked_persists [OF step.hyps(1) invg assms(3)])
  have fold: "gt_proj h = foldProjection (gt_rows h)" using inv by (simp add: gate_inv_def)
  have one: "map_option ws_playbook (map_of (bySession (gt_proj h')) sid)
        = map_option ws_playbook (map_of (bySession (gt_proj h)) sid)
      \<and> prefix (history_of (gt_proj h) sid) (history_of (gt_proj h') sid)"
  proof (cases "same_view h h'")
    case True
    then show ?thesis by (simp add: same_view_def)
  next
    case False
    then obtain f where f: "gt_flight h = Some f" "gt_proj h' = applyEvent (gt_proj h) (fl_row f)"
      using step_shape [OF step.hyps(2) inv] by (auto simp: folds_row_def)
    then have ns: "\<not> (is_spawn (ev_body (fl_row f)) \<and> body_session (ev_body (fl_row f)) = sid)"
      using inv tracked by (auto simp: gate_inv_def stamp_ok_def)
    show ?thesis
      using binding_applyEvent [OF ns] history_grows [OF ns] unfolding f(2) fold by blast
  qed
  with step.IH show ?case by (auto intro: prefix_order.trans)
qed simp

subsection \<open>Enforcement rows chain\<close>

definition enf_row :: "string \<Rightarrow> ledger_body \<Rightarrow> (string option \<times> string) list" where
  "enf_row csid b = (case b of Enforcement c f t \<Rightarrow> if c = csid then [(f, t)] else [] | _ \<Rightarrow> [])"

definition enf_pending :: "string \<Rightarrow> pending \<Rightarrow> (string option \<times> string) list" where
  "enf_pending csid p = (case p of P_row b \<Rightarrow> enf_row csid b | _ \<Rightarrow> [])"

text \<open>The mode changes of one conductor, recorded since boot or still to be recorded.\<close>

definition enf_trail :: "nat \<Rightarrow> string \<Rightarrow> gate \<Rightarrow> (string option \<times> string) list" where
  "enf_trail n csid g = concat (map (enf_row csid \<circ> ev_body) (drop n (gt_rows g)))
     @ (case gt_flight g of None \<Rightarrow> [] | Some f \<Rightarrow> enf_row csid (ev_body (fl_row f)))
     @ concat (map (enf_pending csid) (gt_chain g)) @ concat (map (enf_pending csid) (gt_waiting g))"

fun enf_chained :: "string option \<Rightarrow> (string option \<times> string) list \<Rightarrow> bool" where
  "enf_chained prev [] = True"
| "enf_chained prev ((f, t) # rest) = (f = prev \<and> Some t \<noteq> prev \<and> enf_chained (Some t) rest)"

definition enf_end :: "(string option \<times> string) list \<Rightarrow> string option" where
  "enf_end xs = (if xs = [] then None else Some (snd (last xs)))"

lemma enf_chained_snoc:
  "enf_chained prev (xs @ [x]) \<longleftrightarrow> enf_chained prev xs
     \<and> fst x = (if xs = [] then prev else Some (snd (last xs)))
     \<and> Some (snd x) \<noteq> (if xs = [] then prev else Some (snd (last xs)))"
  by (induction prev xs rule: enf_chained.induct) (cases x; auto)+

lemma mode_text_inj [simp]: "mode_text m = mode_text n \<longleftrightarrow> m = n"
  by (cases m; cases n) (simp_all add: mode_text_def)

definition enf_inv :: "nat \<Rightarrow> gate \<Rightarrow> bool" where
  "enf_inv n g \<longleftrightarrow> n \<le> length (gt_rows g) \<and> (\<forall>csid. enf_chained None (enf_trail n csid g)
     \<and> enf_end (enf_trail n csid g) = map_option mode_text (map_of (gt_lastMode g) csid))"

lemma enf_inv_same:
  assumes "enf_inv n g" "gt_rows g' = gt_rows g" "gt_lastMode g' = gt_lastMode g"
    and "\<And>csid. enf_trail n csid g' = enf_trail n csid g"
  shows "enf_inv n g'"
  using assms by (simp add: enf_inv_def)

lemma note_lifecycle_trail:
  "enf_trail n csid (note_lifecycle sid s g) = enf_trail n csid g
   \<and> gt_rows (note_lifecycle sid s g) = gt_rows g \<and> gt_flight (note_lifecycle sid s g) = gt_flight g
   \<and> gt_lastMode (note_lifecycle sid s g) = gt_lastMode g"
  by (simp add: note_lifecycle_def gate_enqueues enf_trail_def enf_pending_def)

lemma note_enforcement_trail:
  assumes "enf_inv n g"
  shows "enf_inv n (note_enforcement sid s g)"
proof -
  define mode where "mode = normalizePlaybookEnforcement (is_enforcement s)"
  have add: "enf_inv n (gate_wait (P_row (Enforcement sid (map_option mode_text (map_of (gt_lastMode g) sid)) (mode_text mode)))
      (g\<lparr>gt_lastMode := jput sid mode (gt_lastMode g)\<rparr>))"
    if "map_of (gt_lastMode g) sid \<noteq> Some mode"
    unfolding enf_inv_def
  proof (intro conjI allI)
    let ?g' = "gate_wait (P_row (Enforcement sid (map_option mode_text (map_of (gt_lastMode g) sid)) (mode_text mode)))
      (g\<lparr>gt_lastMode := jput sid mode (gt_lastMode g)\<rparr>)"
    show "n \<le> length (gt_rows ?g')" using assms by (simp add: enf_inv_def gate_wait_def)
    fix csid
    have t: "enf_trail n csid ?g' = enf_trail n csid g
        @ (if csid = sid then [(map_option mode_text (map_of (gt_lastMode g) sid), mode_text mode)] else [])"
      by (simp add: enf_trail_def gate_wait_def enf_pending_def enf_row_def)
    have old: "enf_chained None (enf_trail n csid g)"
      "enf_end (enf_trail n csid g) = map_option mode_text (map_of (gt_lastMode g) csid)"
      using assms by (simp_all add: enf_inv_def)
    show "enf_chained None (enf_trail n csid ?g')"
      using old that unfolding t
      by (cases "map_of (gt_lastMode g) sid") (auto simp: enf_chained_snoc enf_end_def split: if_splits)
    show "enf_end (enf_trail n csid ?g') = map_option mode_text (map_of (gt_lastMode ?g') csid)"
      using old(2) unfolding t by (auto simp: enf_end_def gate_wait_def map_of_jput split: if_splits)
  qed
  show ?thesis
    using assms add
    by (auto simp: note_enforcement_def Let_def mode_def split: option.splits)
qed

lemma chain_start_trail:
  assumes "enf_inv n g" "gate_inv g"
  shows "enf_inv n (chain_start encode now g)"
proof (cases "gt_flight g = None \<and> gt_chain g \<noteq> []")
  case False
  then show ?thesis using assms by (auto simp: chain_start_def split: option.split list.split)
next
  case True
  then obtain p rest where Cons: "gt_chain g = p # rest" and idle: "gt_flight g = None" by (cases "gt_chain g") auto
  have p: "pending_ok p" using assms(2) Cons by (simp add: gate_inv_def)
  show ?thesis
  proof (cases "resolve_pending (gt_proj g) p")
    case None
    then have "enf_pending csid p = []" for csid
      by (cases p) (simp_all add: resolve_pending_def enf_pending_def)
    then have "enf_trail n csid (g\<lparr>gt_chain := rest\<rparr>) = enf_trail n csid g" for csid
      by (simp add: enf_trail_def Cons)
    with None Cons idle show ?thesis
      by (intro enf_inv_same [OF assms(1)]) (simp_all add: chain_start_def)
  next
    case (Some b)
    have "enf_row csid b = enf_pending csid p" for csid
      using Some p
      by (cases p; cases b) (auto simp: resolve_pending_def enf_pending_def enf_row_def pending_ok_def split: if_splits)
    with Some Cons idle show ?thesis
      by (intro enf_inv_same [OF assms(1)])
         (simp_all add: chain_start_def Let_def enf_trail_def ledger_row_def)
  qed
qed

lemma chain_fold_trail:
  assumes "enf_inv n g"
  shows "enf_inv n (chain_fold g)"
proof (cases "\<exists>f. gt_flight g = Some f \<and> fl_rest f = []")
  case False
  then show ?thesis using assms by (auto simp: chain_fold_def split: option.split)
next
  case True
  then obtain f where f: "gt_flight g = Some f" "fl_rest f = []" by blast
  have n: "n \<le> length (gt_rows g)" using assms by (simp add: enf_inv_def)
  then have "enf_trail n csid (chain_fold g) = enf_trail n csid g" for csid
    using f by (simp add: chain_fold_def enf_trail_def)
  with assms n f show ?thesis unfolding enf_inv_def by (simp add: chain_fold_def)
qed

lemma enf_inv_step:
  assumes "gate_step encode No_faults g g'" "enf_inv n g" "gate_inv g"
  shows "enf_inv n g'"
  using assms(1)
proof (cases rule: gate_step.cases)
  case (Checks env tool a caller handle)
  show ?thesis
    using check_state [of env tool a caller handle g]
  proof (elim disjE exE conjE)
    fix b w s f t c
    assume "b = P_row w" "w = Refusal s f t c"
      "gt_chain (snd (gate_check env tool a caller handle g)) = gt_chain g @ [b]"
      "same_log g (snd (gate_check env tool a caller handle g))"
      "gt_waiting (snd (gate_check env tool a caller handle g)) = gt_waiting g"
      "gt_lastMode (snd (gate_check env tool a caller handle g)) = gt_lastMode g"
    then show ?thesis unfolding Checks
      by (intro enf_inv_same [OF assms(2)]) (simp_all add: same_log_def enf_trail_def enf_pending_def enf_row_def)
  qed (use assms(2) Checks in simp)
next
  case (Commits interaction mv a tool res conductor)
  show ?thesis
    using commit_state [of g interaction mv a tool res conductor] unfolding enqueues_only_def
  proof (elim disjE exE conjE)
    fix p assume p: "commitMove interaction mv a tool res conductor g = gate_append p g" "pending_ok p"
      "\<forall>b. p = P_row b \<longrightarrow> \<not> is_enf_row b"
    then have "enf_pending csid p = []" for csid
      by (cases p) (auto simp: enf_pending_def enf_row_def split: ledger_body.splits)
    with p(1) show ?thesis unfolding Commits
      by (intro enf_inv_same [OF assms(2)]) (simp_all add: enf_trail_def gate_append_def)
  qed (use assms(2) Commits in simp)
next
  case (Status s)
  have "enf_inv n (note_enforcement sid s (note_lifecycle sid s g))" for sid
    by (rule note_enforcement_trail) (rule enf_inv_same [OF assms(2)]; simp add: note_lifecycle_trail)
  then show ?thesis unfolding Status using assms(2) by (simp add: onStatus_def split: option.split)
next
  case (Relaunched sid conducted)
  then show ?thesis
    by (auto intro!: enf_inv_same [OF assms(2)] simp: onRelaunched_def gate_enqueues enf_trail_def enf_pending_def)
next
  case (WakeDelivered callerProject caller target heartbeat)
  then show ?thesis
    by (auto intro!: enf_inv_same [OF assms(2)] simp: onWake_def gate_enqueues enf_trail_def enf_pending_def enf_row_def)
next
  case Settles
  then show ?thesis
    by (auto intro!: enf_inv_same [OF assms(2)] simp: settle_def enf_trail_def split: list.splits)
next
  case (Starts now)
  then show ?thesis using chain_start_trail [OF assms(2,3)] by simp
next
  case (Lands k)
  show ?thesis unfolding Lands
    by (intro enf_inv_same [OF assms(2)]) (auto simp: chain_land_def enf_trail_def split: option.split)
next
  case Folds
  then show ?thesis using chain_fold_trail [OF assms(2)] by simp
next
  case Fails
  then show ?thesis by (simp add: may_fail_def split: option.splits)
qed

text \<open>
   The enforcement audit of a conductor is a chain: while writes succeed, the rows this
  process records for it begin with a birth (\<open>from\<close> absent), each later row leaves from the mode
  the previous one reached, none stays where it is, and the last recorded or queued mode is the
  one last observed.
\<close>

theorem enforcement_rows_chain:
  assumes "gate_run encode No_faults (gate_init file rows) g"
  shows "enf_chained None (enf_trail (length rows) csid g)
     \<and> enf_end (enf_trail (length rows) csid g) = map_option mode_text (map_of (gt_lastMode g) csid)"
proof -
  have "enf_inv (length rows) g \<and> gate_inv g"
    using assms
  proof (induction rule: rtranclp_induct)
    case base
    show ?case using gate_init_inv by (simp add: enf_inv_def enf_trail_def gate_init_def enf_end_def)
  next
    case (step g g')
    then show ?case using enf_inv_step step_shape by blast
  qed
  then show ?thesis by (simp add: enf_inv_def)
qed

subsection \<open>One worker per slot\<close>

definition stage_of :: "projection \<Rightarrow> string \<Rightarrow> string option" where
  "stage_of p s = map_option ws_stage (map_of (bySession p) s)"

text \<open>At most one live worker of a run stands in the stage.\<close>

definition one_slot :: "ledger_event list \<Rightarrow> (string \<Rightarrow> bool) \<Rightarrow> string \<Rightarrow> bool" where
  "one_slot evs isLive stage \<longleftrightarrow> (\<forall>s t. isLive s \<and> isLive t
     \<and> stage_of (foldProjection evs) s = Some stage \<and> stage_of (foldProjection evs) t = Some stage
     \<and> sameRun (foldProjection evs) s t \<longrightarrow> s = t)"

lemma linked_image:
  assumes edge: "\<And>u v. (u, v) \<in> F \<Longrightarrow> linked E (f u) (f v)" and path: "linked F x y"
  shows "linked E (f x) (f y)"
proof -
  have "(x, y) \<in> (F \<union> F\<inverse>)\<^sup>*" using path by (simp only: linked_def)
  then show ?thesis
  proof (induction rule: rtrancl_induct)
    case base
    show ?case by simp
  next
    case (step y z)
    from step.hyps(2) have "linked E (f y) (f z)"
      using edge [of y z] linked_sym [OF edge [of z y]] by auto
    with step.IH show ?case by (rule linked_trans)
  qed
qed

lemma linked_isolated:
  assumes "n \<notin> Field E" "linked E n y"
  shows "y = n"
  using assms(2) unfolding linked_def
proof (induction rule: rtrancl_induct)
  case (step y z)
  then show ?case using assms(1) by (auto simp: Field_def)
qed simp

text \<open>A new node joined to one component links nothing else.\<close>

lemma linked_join_one:
  assumes "\<forall>s \<in> T. \<forall>t \<in> T. linked E s t" "n \<notin> Field E" "n \<notin> T"
    and "linked (E \<union> (\<lambda>t. (t, n)) ` T) x y"
  shows "x \<noteq> n \<Longrightarrow> y \<noteq> n \<Longrightarrow> linked E x y"
    and "x = n \<Longrightarrow> y \<noteq> n \<Longrightarrow> t0 \<in> T \<Longrightarrow> linked E t0 y"
    and "x = n \<Longrightarrow> y \<noteq> n \<Longrightarrow> T \<noteq> {}"
proof -
  have im: "linked E (if x = n then t0 else x) (if y = n then t0 else y)" if t0: "t0 \<in> T" for t0
  proof (rule linked_image [where f = "\<lambda>x. if x = n then t0 else x", OF _ assms(4)])
    fix u v assume "(u, v) \<in> E \<union> (\<lambda>t. (t, n)) ` T"
    then consider (old) "(u, v) \<in> E" | (new) "u \<in> T" "v = n" by blast
    then show "linked E (if u = n then t0 else u) (if v = n then t0 else v)"
    proof cases
      case old
      then have "u \<noteq> n" "v \<noteq> n" using assms(2) by (auto simp: Field_def)
      with old show ?thesis by (simp add: linked_edge)
    next
      case new
      then have "u \<noteq> n" using assms(3) by blast
      with new t0 assms(1) show ?thesis by simp
    qed
  qed
  have empty: "linked E x y" if "T = {}" using assms(4) that by simp
  show "linked E x y" if "x \<noteq> n" "y \<noteq> n"
  proof (cases "T = {}")
    case False
    then obtain t where "t \<in> T" by blast
    from im [OF this] that show ?thesis by simp
  qed (rule empty)
  show "linked E t0 y" if "x = n" "y \<noteq> n" "t0 \<in> T"
    using im [OF that(3)] that(1,2) by simp
  show "T \<noteq> {}" if "x = n" "y \<noteq> n"
    using empty linked_isolated [OF assms(2), of y] that by metis
qed

lemma stage_after_spawn:
  assumes "ev_body e = Spawn new pb st prov prj wt"
  shows "stage_of (foldProjection (evs @ [e])) s
    = (if s = new then Some st else stage_of (foldProjection evs) s)"
proof -
  note wf = apply_body_wf [OF foldProjection_inv foldProjection_sim, of "ev_body e" evs]
  show ?thesis
    unfolding stage_of_def fold_snoc applyEvent_closed(1) [OF wf] map_of_jmap_vals
    by (cases "map_of (bySession (foldProjection evs)) s")
       (auto simp: assms apply_body_def apply_spawn_def Let_def map_of_jput)
qed

lemma spec_after_spawn:
  assumes "ev_body e = Spawn new pb st prov prj wt"
  shows "run_spec (evs @ [e]) = (insert new (fst (run_spec evs)),
    snd (run_spec evs) \<union> (\<lambda>t. (t, new)) ` set (prov_targets prov))"
  by (cases "run_spec evs") (simp add: run_spec_def assms)

lemma spawn_keeps_slots:
  assumes spawn: "ev_body e = Spawn new pb st prov prj wt"
    and fresh: "new \<notin> run_nodes (run_spec evs)"
    and one_run: "\<forall>s \<in> set (prov_targets prov). \<forall>t \<in> set (prov_targets prov). linked (snd (run_spec evs)) s t"
    and own: "new \<notin> set (prov_targets prov)"
    and slot: "one_slot evs isLive stage"
    and room: "\<And>t0 s. st = stage \<Longrightarrow> t0 \<in> set (prov_targets prov) \<Longrightarrow>
        isLive s \<Longrightarrow> stage_of (foldProjection evs) s = Some stage \<Longrightarrow> \<not> linked (snd (run_spec evs)) t0 s"
  shows "one_slot (evs @ [e]) (\<lambda>s. s = new \<or> isLive s) stage"
proof -
  let ?E = "snd (run_spec evs)" and ?T = "set (prov_targets prov)"
  have iso: "new \<notin> Field ?E" using fresh by (simp add: run_nodes_def)
  note join = linked_join_one [OF one_run iso own]
  have core: "s = t"
    if "s \<noteq> new" "isLive s" "stage_of (foldProjection (evs @ [e])) s = Some stage"
      "t = new \<or> isLive t" "stage_of (foldProjection (evs @ [e])) t = Some stage"
      "linked (?E \<union> (\<lambda>t. (t, new)) ` ?T) t s" for s t
  proof (cases "t = new")
    case True
    from join(3) [OF that(6) True that(1)] obtain t0 where t0: "t0 \<in> ?T" unfolding ex_in_conv [symmetric] by (elim exE)
    note t0 = t0 join(2) [OF that(6) True that(1) t0]
    have "st = stage" using that(5) True by (simp add: stage_after_spawn [OF spawn])
    moreover have "stage_of (foldProjection evs) s = Some stage"
      using that(1,3) by (simp add: stage_after_spawn [OF spawn])
    ultimately have False using room [OF _ t0(1) that(2)] t0(2) by simp
    then show ?thesis ..
  next
    case False
    have l: "linked ?E t s" by (rule join(1) [OF that(6) False that(1)])
    have st: "stage_of (foldProjection evs) s = Some stage" "stage_of (foldProjection evs) t = Some stage"
      using that(1,3,5) False by (simp_all add: stage_after_spawn [OF spawn])
    then have "s \<in> run_nodes (run_spec evs)" "t \<in> run_nodes (run_spec evs)"
      using tracked_node by (auto simp: stage_of_def)
    then have "sameRun (foldProjection evs) s t" using linked_sym [OF l] by (simp add: run_sameness)
    with slot that(2,4) False st show ?thesis unfolding one_slot_def by blast
  qed
  show ?thesis
    unfolding one_slot_def run_sameness spec_after_spawn [OF spawn]
  proof (intro allI impI)
    fix s t assume h: "(s = new \<or> isLive s) \<and> (t = new \<or> isLive t)
      \<and> stage_of (foldProjection (evs @ [e])) s = Some stage \<and> stage_of (foldProjection (evs @ [e])) t = Some stage
      \<and> s \<in> run_nodes (insert new (fst (run_spec evs)), ?E \<union> (\<lambda>t. (t, new)) ` ?T)
      \<and> t \<in> run_nodes (insert new (fst (run_spec evs)), ?E \<union> (\<lambda>t. (t, new)) ` ?T)
      \<and> linked (snd (insert new (fst (run_spec evs)), ?E \<union> (\<lambda>t. (t, new)) ` ?T)) s t"
    then have l: "linked (?E \<union> (\<lambda>t. (t, new)) ` ?T) s t" by simp
    show "s = t"
    proof (cases "s = new")
      case True
      with h l core [of t s] show ?thesis by (cases "t = new") simp_all
    next
      case False
      with h linked_sym [OF l] core [of s t] show ?thesis by simp
    qed
  qed
qed

text \<open>
  C28.  Take a stage which every loaded playbook that declares it declares \<open>workers: one\<close>.  As
  long as the workers a spawn names in its provenance already share one run, recording a permitted
  spawn of a session no run knows keeps that stage at most one live worker per run, whichever
  stage the spawn enters, this one included.
\<close>

theorem spawn_keeps_one_worker_per_slot:
  assumes "decide tool a (foldProjection evs) pbs isLive handle = Permit out mv" "mv_kind mv = KSpawn"
    and "\<forall>(i, pb) \<in> set pbs. \<forall>st. map_of (pb_stages pb) stage = Some st \<longrightarrow> st_workers st = One"
    and "\<forall>s \<in> set (jvals (supplied_provenance a)). \<forall>t \<in> set (jvals (supplied_provenance a)).
           sameRun (foldProjection evs) s t"
    and "ev_body e = spawn_row mv a res new" "new \<notin> run_nodes (run_spec evs)"
    and "one_slot evs isLive stage"
  shows "one_slot (evs @ [e]) (\<lambda>s. s = new \<or> isLive s) stage"
proof -
  obtain pid pb name st where s: "map_of pbs pid = Some pb" "map_of (pb_stages pb) name = Some st"
    "spawn_into a (resume_id a handle) pb name st (foldProjection evs) isLive = Permit out mv"
    by (rule spawn_stage [OF assms(1,2)])
  have to: "the_str (mv_to mv) = name" using spawn_into_move [OF s(3)] by (simp add: plain_move_def the_str_def)
  have tg: "prov_targets (nonempty_prov (supplied_provenance a)) = jvals (supplied_provenance a)"
    by (simp add: prov_targets_def nonempty_prov_def)
  have row: "ev_body e = Spawn new (the_str (mv_playbook mv)) name (nonempty_prov (supplied_provenance a))
      (as_str (map_of (asRecord res) ''project''))
      (as_str (map_of (asRecord (map_of (asRecord res) ''worktree'')) ''worktreeName''))"
    using assms(5) by (simp add: spawn_row_def to)
  have nodes: "t \<in> run_nodes (run_spec evs)" if "t \<in> set (jvals (supplied_provenance a))" for t
    using assms(4) that by (auto simp: run_sameness)
  show ?thesis
  proof (rule spawn_keeps_slots [OF row assms(6)])
    show "\<forall>s \<in> set (prov_targets (nonempty_prov (supplied_provenance a))).
        \<forall>t \<in> set (prov_targets (nonempty_prov (supplied_provenance a))). linked (snd (run_spec evs)) s t"
      using assms(4) by (auto simp: tg run_sameness)
    show "new \<notin> set (prov_targets (nonempty_prov (supplied_provenance a)))"
      using nodes assms(6) by (auto simp: tg)
    show "one_slot evs isLive stage" by (rule assms(7))
    fix t0 x assume h: "name = stage" "t0 \<in> set (prov_targets (nonempty_prov (supplied_provenance a)))"
      "isLive x" "stage_of (foldProjection evs) x = Some stage"
    have "st_workers st = One" using assms(3) map_of_SomeD [OF s(1)] s(2) h(1) by auto
    moreover have "jvals (supplied_provenance a) \<noteq> []" using h(2) by (auto simp: tg)
    ultimately have empty: "liveSessionsInStage (foldProjection evs) (hd (jvals (supplied_provenance a))) name isLive = []"
      by (rule spawn_into_Permit(3) [OF s(3)])
    show "\<not> linked (snd (run_spec evs)) t0 x"
    proof
      assume l: "linked (snd (run_spec evs)) t0 x"
      have hd: "hd (jvals (supplied_provenance a)) \<in> set (jvals (supplied_provenance a))"
        using \<open>jvals (supplied_provenance a) \<noteq> []\<close> by (rule hd_in_set)
      then have "linked (snd (run_spec evs)) (hd (jvals (supplied_provenance a))) t0"
        using assms(4) h(2) unfolding tg run_sameness by blast
      from linked_trans [OF this l] have "linked (snd (run_spec evs)) x (hd (jvals (supplied_provenance a)))"
        by (rule linked_sym)
      then have "x \<in> set (liveSessionsInStage (foldProjection evs) (hd (jvals (supplied_provenance a))) name isLive)"
        using h(1,3,4) nodes [OF hd] by (auto simp: live_in_stage_iff stage_of_def)
      with empty show False by simp
    qed
  qed
qed

text \<open>Two independent runs of one playbook, the second with its builder at work.\<close>

definition two_runs :: "ledger_event list" where
  "two_runs = [demo_row 1 (Spawn ''a'' ''demo'' ''plan'' None None None),
     demo_row 2 (Spawn ''c'' ''demo'' ''plan'' None None None),
     demo_row 3 (Spawn ''d'' ''demo'' ''build'' (Some [(''plan'', ''c'')]) None None)]"

definition straddling_spawn :: args where
  "straddling_spawn = [(''stage'', JStr ''build''),
     (''provenance'', JObj [(''plan'', JStr ''a''), (''extra'', JStr ''c'')])]"

definition spawned :: "string \<Rightarrow> json option" where
  "spawned sid = Some (JObj [(''sessionId'', JStr sid)])"

text \<open>
   The hypothesis is needed, and the code does not check it: a provenance key that no \<open>needs\<close>
  entry names is recorded unchecked.  A permitted spawn naming a worker of another run merges the
  two runs, and leaves two live workers in a \<open>workers: one\<close> stage of the merged run.
\<close>

theorem unneeded_provenance_merges_runs:
  "\<exists>out mv. decide ''spawn_instance'' straddling_spawn (foldProjection two_runs) demo_pbs (\<lambda>_. True) None
       = Permit out mv
     \<and> \<not> sameRun (foldProjection two_runs) ''a'' ''c''
     \<and> liveSessionsInStage (foldProjection (two_runs @ [demo_row 4 (spawn_row mv straddling_spawn (spawned ''e'') ''e'')]))
         ''a'' ''build'' (\<lambda>_. True) = [''d'', ''e'']"
proof -
  let ?mv = "(plain_move KSpawn)\<lparr>mv_to := Some ''build'', mv_playbook := Some ''demo''\<rparr>"
  have "decide ''spawn_instance'' straddling_spawn (foldProjection two_runs) demo_pbs (\<lambda>_. True) None
      = Permit straddling_spawn ?mv" by code_simp
  moreover have "\<not> sameRun (foldProjection two_runs) ''a'' ''c''" by code_simp
  moreover have "liveSessionsInStage (foldProjection (two_runs
      @ [demo_row 4 (spawn_row ?mv straddling_spawn (spawned ''e'') ''e'')])) ''a'' ''build'' (\<lambda>_. True)
      = [''d'', ''e'']" by code_simp
  ultimately show ?thesis by blast
qed

subsection \<open>Overlapping calls\<close>

text \<open>A stand-in for the text of a row, for the concrete runs.\<close>

definition demo_encode :: "ledger_event \<Rightarrow> string" where "demo_encode row = ''{}''"

text \<open>One link run through: the row stamped, its whole line landed, then folded.\<close>

definition link_through :: "(ledger_event \<Rightarrow> string) \<Rightarrow> string \<Rightarrow> gate \<Rightarrow> gate" where
  "link_through encode now g = (let g1 = chain_start encode now g in
     chain_fold (chain_land (case gt_flight g1 of None \<Rightarrow> 0 | Some f \<Rightarrow> length (fl_rest f)) g1))"

lemma link_through_run: "gate_run encode faults g (link_through encode now g)"
  unfolding link_through_def Let_def
  by (rule rtranclp.rtrancl_into_rtrancl [OF rtranclp.rtrancl_into_rtrancl [OF r_into_rtranclp]])
     (rule gate_step.Starts gate_step.Lands gate_step.Folds)+

definition demo_env :: gate_env where
  "demo_env = \<lparr>ge_liveForSession = (\<lambda>_. Some \<lparr>cv_project = ''.conduct'', cv_enforcement = ''enforce''\<rparr>),
     ge_isSessionLive = (\<lambda>_. True), ge_index = [(''spawn_instance'', [])], ge_interaction = [],
     ge_playbooks = demo_pbs\<rparr>"

definition builder_spawn :: args where
  "builder_spawn = [(''stage'', JStr ''build''), (''provenance'', JObj [(''plan'', JStr ''a'')])]"

definition planned :: gate where
  "planned = gate_init [] [demo_row 1 (Spawn ''a'' ''demo'' ''plan'' None None None)]"

definition checked_spawn :: "gate \<Rightarrow> move option" where
  "checked_spawn g = (case fst (gate_check (Some demo_env) (Some (JStr ''spawn_instance''))
     (Some (JObj builder_spawn)) (Some ''k'') None g) of Proceed _ mv _ \<Rightarrow> Some mv | _ \<Rightarrow> None)"

lemma commit_run: "gate_run encode faults g (commitMove interaction mv a tool res conductor g)"
  by (rule r_into_rtranclp) (rule gate_step.Commits)

lemma start_run: "gate_run encode faults g (chain_start encode now g)"
  by (rule r_into_rtranclp) (rule gate_step.Starts)

lemma land_run: "gate_run encode faults g (chain_land n g)"
  by (rule r_into_rtranclp) (rule gate_step.Lands)

lemma fail_run: "may_fail faults encode g \<Longrightarrow> gate_run encode faults g (chain_fail g)"
  by (rule r_into_rtranclp) (rule gate_step.Fails)

text \<open>
   Capacity is decided at the check and recorded at the commit: two spawns into a
  \<open>workers: one\<close> stage whose calls overlap are both let through, and the run ends with two live
  workers in the stage.
\<close>

theorem overlapping_spawns_exceed_capacity:
  "\<exists>mv g. checked_spawn planned = Some mv \<and> gate_run demo_encode No_faults planned g
     \<and> liveSessionsInStage (gt_proj g) ''a'' ''build'' (\<lambda>_. True) = [''b'', ''e'']"
proof -
  let ?mv = "(plain_move KSpawn)\<lparr>mv_to := Some ''build'', mv_playbook := Some ''demo''\<rparr>"
  let ?commit = "\<lambda>sid. commitMove [] ?mv builder_spawn ''spawn_instance'' (spawned sid) ''k''"
  let ?link = "link_through demo_encode ''t''"
  define g where "g = ?link (?link (?commit ''e'' (?commit ''b'' planned)))"
  have "checked_spawn planned = Some ?mv" by code_simp
  moreover have "gate_run demo_encode No_faults planned g"
    unfolding g_def
    by (rule rtranclp_trans [OF rtranclp_trans [OF rtranclp_trans [OF commit_run commit_run] link_through_run] link_through_run])
  moreover have "liveSessionsInStage (gt_proj g) ''a'' ''build'' (\<lambda>_. True) = [''b'', ''e'']"
    unfolding g_def by code_simp
  ultimately show ?thesis by blast
qed

subsection \<open>Concrete runs\<close>

lemma one_commit_run:
  "gate_run encode faults planned (link_through encode ''t'' (commitMove [] mv builder_spawn ''spawn_instance'' (spawned ''b'') ''k'' planned))"
  by (rule rtranclp_trans [OF commit_run link_through_run])

text \<open>A codec for one row, over a file that starts empty.\<close>

definition demo_decode :: "string \<Rightarrow> json option" where
  "demo_decode s = (if s = ''{}'' then Some (JObj [(''kind'', JStr ''spawn'')]) else None)"

definition spawn_commit :: "string \<Rightarrow> gate \<Rightarrow> gate" where
  "spawn_commit sid = commitMove [] ((plain_move KSpawn)\<lparr>mv_to := Some ''plan'', mv_playbook := Some ''demo''\<rparr>)
     [] ''spawn_instance'' (spawned sid) ''k''"

definition spawn_demo :: "string \<Rightarrow> ledger_event" where
  "spawn_demo sid = \<lparr>ev_seq = Some 1, ev_ts = ''t'', ev_body = Spawn sid ''demo'' ''plan'' None None None\<rparr>"


text \<open>
  A write that fails half way is different: the part of the line it leaves takes the next row with
  it.  The gate decides against a projection that tracks the second worker; a restart, or a
  reader of the history, finds no row at all.
\<close>

theorem torn_write_hides_the_next_row:
  "\<exists>g. gate_run demo_encode Any_faults (gate_init [] []) g \<and> jhas (bySession (gt_proj g)) ''e''
     \<and> gt_flight g = None \<and> readHistory demo_decode (\<lambda>_. spawn_demo ''e'') g = []"
proof -
  let ?torn = "chain_land 1 (chain_start demo_encode ''t'' (spawn_commit ''b'' (gate_init [] [])))"
  let ?g = "link_through demo_encode ''t'' (spawn_commit ''e'' (chain_fail ?torn))"
  have "gate_run demo_encode Any_faults (gate_init [] []) (chain_land 1 (chain_start demo_encode ''t''
      (spawn_commit ''b'' (gate_init [] []))))"
    unfolding spawn_commit_def
    by (rule rtranclp_trans [OF rtranclp_trans [OF commit_run start_run] land_run])
  moreover have "gt_flight ?torn \<noteq> None" by code_simp
  then have "may_fail Any_faults demo_encode ?torn" by (auto simp: may_fail_def)
  ultimately have "gate_run demo_encode Any_faults (gate_init [] []) (chain_fail ?torn)"
    using rtranclp_trans fail_run by metis
  then have "gate_run demo_encode Any_faults (gate_init [] []) ?g"
    unfolding spawn_commit_def
    by (rule rtranclp_trans [OF _ rtranclp_trans [OF commit_run link_through_run]])
  moreover have "jhas (bySession (gt_proj ?g)) ''e''" "gt_flight ?g = None" by code_simp+
  moreover have "readHistory demo_decode (\<lambda>_. spawn_demo ''e'') ?g = []"
    by (simp add: readHistory_def) code_simp
  ultimately show ?thesis by blast
qed

lemma binding_is_never_reset_witness:
  "\<exists>g. gate_run demo_encode Any_faults planned g \<and> prefix (history_of (gt_proj planned) ''a'') (history_of (gt_proj g) ''a'')"
proof -
  have "jhas (bySession (gt_proj planned)) ''a''" by code_simp
  from binding_is_never_reset [OF _ one_commit_run [of demo_encode Any_faults "plain_move KSpawn"] this, of
      "[]" "[demo_row 1 (Spawn ''a'' ''demo'' ''plan'' None None None)]"]
  show ?thesis using one_commit_run [of demo_encode Any_faults "plain_move KSpawn"] by (auto simp: planned_def)
qed

definition conductor_status :: instance_summary where
  "conductor_status = \<lparr>is_sessionId = Some ''k'', is_status = ''idle'', is_conducted = False,
     is_project = ''.conduct'', is_enforcement = Some (JStr ''warn'')\<rparr>"

lemma enforcement_rows_chain_witness:
  "enf_trail 0 ''k'' (onStatus conductor_status (gate_init [] [])) = [(None, ''warn'')]
   \<and> enf_chained None (enf_trail 0 ''k'' (onStatus conductor_status (gate_init [] [])))"
proof -
  have "gate_run demo_encode No_faults (gate_init [] []) (onStatus conductor_status (gate_init [] []))"
    by (rule r_into_rtranclp) (rule gate_step.Status)
  from enforcement_rows_chain [OF this, of "''k''"]
  have "enf_chained None (enf_trail 0 ''k'' (onStatus conductor_status (gate_init [] [])))" by simp
  moreover have "enf_trail 0 ''k'' (onStatus conductor_status (gate_init [] [])) = [(None, ''warn'')]" by code_simp
  ultimately show ?thesis by blast
qed

lemma spawn_keeps_one_worker_per_slot_witness:
  "\<exists>mv. one_slot ([demo_row 1 (Spawn ''a'' ''demo'' ''plan'' None None None)]
     @ [demo_row 2 (spawn_row mv builder_spawn (spawned ''b'') ''b'')]) (\<lambda>s. s = ''b'' \<or> s = ''a'') ''build''"
proof -
  let ?evs = "[demo_row 1 (Spawn ''a'' ''demo'' ''plan'' None None None)]"
  let ?mv = "(plain_move KSpawn)\<lparr>mv_to := Some ''build'', mv_playbook := Some ''demo''\<rparr>"
  have d: "decide ''spawn_instance'' builder_spawn (foldProjection ?evs) demo_pbs (\<lambda>s. s = ''a'') None
      = Permit builder_spawn ?mv" by code_simp
  have "one_slot (?evs @ [demo_row 2 (spawn_row ?mv builder_spawn (spawned ''b'') ''b'')])
      (\<lambda>s. s = ''b'' \<or> s = ''a'') ''build''"
  proof (rule spawn_keeps_one_worker_per_slot [OF d])
    show "mv_kind ?mv = KSpawn" by (simp add: plain_move_def)
    show "\<forall>(i, pb) \<in> set demo_pbs. \<forall>st. map_of (pb_stages pb) ''build'' = Some st \<longrightarrow> st_workers st = One"
      by (simp add: demo_pbs_def demo_pb_def)
    have "jvals (supplied_provenance builder_spawn) = [''a'']" by code_simp
    moreover have "sameRun (foldProjection ?evs) ''a'' ''a''" by code_simp
    ultimately show "\<forall>s \<in> set (jvals (supplied_provenance builder_spawn)).
        \<forall>t \<in> set (jvals (supplied_provenance builder_spawn)). sameRun (foldProjection ?evs) s t" by simp
    show "ev_body (demo_row 2 (spawn_row ?mv builder_spawn (spawned ''b'') ''b''))
        = spawn_row ?mv builder_spawn (spawned ''b'') ''b''" by (simp add: demo_row_def)
    show "''b'' \<notin> run_nodes (run_spec ?evs)"
      by (simp add: run_nodes_def run_spec_def demo_row_def prov_targets_def)
    show "one_slot ?evs (\<lambda>s. s = ''a'') ''build''" by (simp add: one_slot_def)
  qed
  then show ?thesis by blast
qed

end
