(* ===== verification/PlaybookValidator.thy ===== *)
theory PlaybookValidator
  imports PlaybookTypes
begin

text \<open>
  The definition validator of \<open>src/playbooks.ts\<close>: \<open>validatePlaybook\<close> with its helpers, the error
  locator, and the loader that runs it over the catalog.  Every check returns the messages it
  pushes, in order, with the value it builds.  Messages are the code's text with the em dash
  written as two hyphens.  A stage called \<open>__proto__\<close> (which an object assignment would install
  as a prototype) is outside the model.
\<close>

subsection \<open>Message pieces\<close>

definition q :: "string \<Rightarrow> string" where
  "q s = [CHR 0x27] @ s @ [CHR 0x27]"

definition dq :: "string \<Rightarrow> string" where
  "dq s = dquote @ s @ dquote"

definition comma_list :: "string list \<Rightarrow> string" where
  "comma_list xs = js_join '', '' xs"

definition STAGE_KEYS :: "string list" where
  "STAGE_KEYS = [''needs'', ''workers'', ''tools'', ''description'']"

definition PLAYBOOK_KEYS :: "string list" where
  "PLAYBOOK_KEYS = [''id'', ''name'', ''description'', ''entryStages'', ''stages'', ''transitions'']"

definition TRANSITION_KEYS :: "string list" where
  "TRANSITION_KEYS = [''from'', ''to'', ''on'', ''description'']"

definition NEEDS_KEYS :: "string list" where
  "NEEDS_KEYS = [''stage'', ''position'', ''liveness'']"

definition WORKERS_VALUES :: "string list" where
  "WORKERS_VALUES = [''one'', ''many'']"

definition LIVENESS_VALUES :: "string list" where
  "LIVENESS_VALUES = [''live'', ''retired'', ''any'']"

text \<open>\<open>for (const k of Object.keys(o)) if (!KEYS.has(k)) err(...)\<close>.\<close>

definition unknown_keys :: "string list \<Rightarrow> (string \<Rightarrow> string) \<Rightarrow> args \<Rightarrow> string list" where
  "unknown_keys allowed msg kvs =
     map (\<lambda>k. msg k @ '' (allowed: '' @ comma_list allowed @ '')'') (filter (\<lambda>k. k \<notin> set allowed) (jkeys kvs))"

definition stage_msg :: "string \<Rightarrow> string \<Rightarrow> string" where
  "stage_msg name m = ''stage '' @ q name @ m"

subsection \<open>Descriptions, positions and tool policies\<close>

definition readDescription :: "json option \<Rightarrow> string \<Rightarrow> string list \<times> string option" where
  "readDescription raw wher = (case raw of
       None \<Rightarrow> ([], None)
     | Some v \<Rightarrow> (case as_str raw of
           Some s \<Rightarrow> if js_blank s
             then ([wher @ '': description must be a non-empty string (got '' @ stringify v @ '')''], None)
             else ([], Some s)
         | None \<Rightarrow> ([wher @ '': description must be a non-empty string (got '' @ stringify v @ '')''], None)))"

fun position_loop :: "string \<Rightarrow> string list \<Rightarrow> string list \<Rightarrow> json list \<Rightarrow> string + string list" where
  "position_loop stage names out [] = Inr out"
| "position_loop stage names out (m # ms) = (case as_str (Some m) of
       None \<Rightarrow> Inl (stage_msg stage ('': needs.position entries must be strings (got '' @ stringify m @ '')''))
     | Some s \<Rightarrow>
         if s \<noteq> WILDCARD \<and> s \<notin> set names
         then Inl (stage_msg stage ('': needs.position names unknown stage '' @ q s))
         else if s \<in> set out
         then Inl (stage_msg stage ('': needs.position lists '' @ q s @ '' twice''))
         else position_loop stage names (out @ [s]) ms)"

definition validatePosition :: "string \<Rightarrow> json option \<Rightarrow> string \<Rightarrow> string list \<Rightarrow> string + string list" where
  "validatePosition stage raw anchor names = (case raw of
       None \<Rightarrow> Inr [anchor]
     | Some (JArr []) \<Rightarrow> Inl (stage_msg stage ('': needs.position must name at least one stage -- omit it for the default [''
         @ dq anchor @ ''], or use ['' @ dq WILDCARD @ ''] to accept any stage''))
     | Some (JArr ms) \<Rightarrow> (case position_loop stage names [] ms of
           Inl e \<Rightarrow> Inl e
         | Inr out \<Rightarrow> if WILDCARD \<in> set out \<and> length out > 1
             then Inl (stage_msg stage ('': needs.position cannot mix '' @ dq WILDCARD @ '' with named stages -- ''
               @ dq WILDCARD @ '' already accepts any stage, so the named ones would be dead''))
             else Inr out)
     | Some v \<Rightarrow> Inl (stage_msg stage ('': needs.position must be an array of stage names (got ''
         @ stringify v @ '')'')))"

fun is_literal :: "json \<Rightarrow> bool" where
  "is_literal (JArr _) = False"
| "is_literal (JObj _) = False"
| "is_literal _ = True"

fun pin_loop :: "string \<Rightarrow> string \<Rightarrow> string list \<Rightarrow> args \<Rightarrow> (string, json) jmap \<Rightarrow> string list \<times> (string, json) jmap" where
  "pin_loop stage tool props [] out = ([], out)"
| "pin_loop stage tool props ((arg, val) # rest) out =
     (if arg \<in> set PIN_FORBIDDEN_KEYS then
        (let (es, r) = pin_loop stage tool props rest out
         in (stage_msg stage ('': tools.'' @ tool @ ''.pin cannot constrain '' @ q arg
               @ '' -- it is a policy-layer input (the stage/playbook/worker this call is about), not an ordinary tool argument.'') # es, r))
      else if arg \<notin> set props then
        (let (es, r) = pin_loop stage tool props rest out
         in (stage_msg stage ('': tools.'' @ tool @ ''.pin names '' @ q arg @ '', which is not an argument of ''
               @ tool @ '' (arguments: '' @ comma_list (sort props) @ '')'') # es, r))
      else if \<not> is_literal val then
        (let (es, r) = pin_loop stage tool props rest out
         in (stage_msg stage ('': tools.'' @ tool @ ''.pin.'' @ arg
               @ '' must be a literal string, number, boolean or null (there is no expression language)'') # es, r))
      else pin_loop stage tool props rest (jput arg val out))"

definition validateToolPolicy ::
  "string \<Rightarrow> string \<Rightarrow> json \<Rightarrow> tool_index \<Rightarrow> string list \<times> tool_policy option" where
  "validateToolPolicy stage tool policy index =
     (if tool \<noteq> WILDCARD \<and> \<not> jhas index tool
      then ([stage_msg stage ('': '' @ q tool @ '' is not a governable tool -- policy is targeted-only, so only tools taking a sessionId (plus spawn_instance) can be governed. Governable: ''
               @ comma_list (governableToolNames index))], None)
      else if policy = JStr ''allow'' then ([], Some Allow)
      else if policy = JStr ''deny'' then ([], Some Deny)
      else let kvs = asRecord (Some policy) in
        if \<not> isRecord policy \<or> \<not> jhas kvs ''pin'' \<or> length kvs \<noteq> 1
        then ([stage_msg stage ('': tools.'' @ tool @ '' must be '' @ dq ''allow'' @ '', '' @ dq ''deny'' @ '', or { ''
                 @ dq ''pin'' @ '': {...} } (got '' @ stringify policy @ '')'')], None)
        else if tool = WILDCARD
        then ([stage_msg stage ('': the '' @ dq WILDCARD @ '' fallback entry cannot carry `pin` -- there is no single tool schema to validate the argument names against. Name the tool explicitly.'')], None)
        else if asRecord (map_of kvs ''pin'') = []
        then ([stage_msg stage ('': tools.'' @ tool @ ''.pin must be a non-empty object of argument -> literal value'')], None)
        else let props = (case map_of index tool of Some ps \<Rightarrow> ps | None \<Rightarrow> []);
                 (es, out) = pin_loop stage tool props (asRecord (map_of kvs ''pin'')) []
             in (es, Some (Pin out)))"

subsection \<open>One stage\<close>

definition read_liveness :: "string \<Rightarrow> liveness" where
  "read_liveness s = (if s = ''live'' then Live else if s = ''retired'' then Retired else AnyLiveness)"

definition validate_need :: "string \<Rightarrow> string list \<Rightarrow> json \<Rightarrow> string list \<times> needs_entry list" where
  "validate_need name names nU = (case nU of
       JObj kvs \<Rightarrow>
         (let ks = unknown_keys NEEDS_KEYS (\<lambda>k. stage_msg name ('': needs entry has unknown key '' @ q k)) kvs in
          case as_str (map_of kvs ''stage'') of
            None \<Rightarrow> (ks @ [stage_msg name ('': needs names unknown stage '' @ q (js_String (map_of kvs ''stage'')))], [])
          | Some target \<Rightarrow>
              if target \<notin> set names
              then (ks @ [stage_msg name ('': needs names unknown stage '' @ q target)], [])
              else (let lv = (case map_of kvs ''liveness'' of None \<Rightarrow> Some ''live'' | v \<Rightarrow> as_str v);
                        bad = stage_msg name ('': needs.liveness must be one of '' @ js_join '' | '' LIVENESS_VALUES
                          @ '' (got '' @ (case map_of kvs ''liveness'' of Some v \<Rightarrow> stringify v | None \<Rightarrow> ''undefined'') @ '')'')
                    in case lv of
                         None \<Rightarrow> (ks @ [bad], [])
                       | Some l \<Rightarrow> if l \<notin> set LIVENESS_VALUES then (ks @ [bad], [])
                           else (case validatePosition name (map_of kvs ''position'') target names of
                               Inl e \<Rightarrow> (ks @ [e], [])
                             | Inr pos \<Rightarrow> (ks, [\<lparr>ne_stage = target, ne_position = pos,
                                                 ne_liveness = read_liveness l\<rparr>]))))
     | _ \<Rightarrow> ([stage_msg name '': each needs entry must be an object''], []))"

definition validate_needs :: "string \<Rightarrow> string list \<Rightarrow> json option \<Rightarrow> string list \<times> needs_entry list" where
  "validate_needs name names raw = (case raw of
       None \<Rightarrow> ([], [])
     | Some (JArr ns) \<Rightarrow> (concat (map (\<lambda>n. fst (validate_need name names n)) ns),
                         concat (map (\<lambda>n. snd (validate_need name names n)) ns))
     | Some _ \<Rightarrow> ([stage_msg name '': needs must be an array''], []))"

definition validate_workers :: "string \<Rightarrow> json option \<Rightarrow> string list \<times> workers" where
  "validate_workers name raw = (case raw of
       None \<Rightarrow> ([], One)
     | Some v \<Rightarrow> (case as_str raw of
           Some s \<Rightarrow> if s \<in> set WORKERS_VALUES then ([], if s = ''one'' then One else Many)
             else ([stage_msg name ('': workers must be one of '' @ js_join '' | '' WORKERS_VALUES @ '' (got '' @ stringify v @ '')'')], One)
         | None \<Rightarrow> ([stage_msg name ('': workers must be one of '' @ js_join '' | '' WORKERS_VALUES @ '' (got '' @ stringify v @ '')'')], One)))"

fun tools_loop :: "string \<Rightarrow> tool_index \<Rightarrow> args \<Rightarrow> (string, tool_policy) jmap \<Rightarrow> string list \<times> (string, tool_policy) jmap" where
  "tools_loop name index [] out = ([], out)"
| "tools_loop name index ((tool, policy) # rest) out =
     (let (es, checked) = validateToolPolicy name tool policy index;
          (es', out') = tools_loop name index rest
            (case checked of None \<Rightarrow> out | Some pol \<Rightarrow> jput tool pol out)
      in (es @ es', out'))"

definition validate_tools :: "string \<Rightarrow> tool_index \<Rightarrow> json option \<Rightarrow> string list \<times> (string, tool_policy) jmap" where
  "validate_tools name index raw = (case raw of
       None \<Rightarrow> ([], [])
     | Some (JObj kvs) \<Rightarrow> tools_loop name index kvs []
     | Some _ \<Rightarrow> ([stage_msg name '': tools must be an object mapping tool name -> policy''], []))"

definition validate_stage :: "string list \<Rightarrow> tool_index \<Rightarrow> string \<Rightarrow> json \<Rightarrow> string list \<times> stage option" where
  "validate_stage names index name raw = (case raw of
       JObj kvs \<Rightarrow>
         (let ks = unknown_keys STAGE_KEYS (\<lambda>k. stage_msg name ('': unknown key '' @ q k)) kvs;
              (e1, needs) = validate_needs name names (map_of kvs ''needs'');
              (e2, workers) = validate_workers name (map_of kvs ''workers'');
              (e3, tools) = validate_tools name index (map_of kvs ''tools'');
              (e4, desc) = readDescription (map_of kvs ''description'') (''stage '' @ q name)
          in (ks @ e1 @ e2 @ e3 @ e4,
              Some \<lparr>st_needs = needs, st_workers = workers, st_tools = tools, st_description = desc\<rparr>))
     | _ \<Rightarrow> ([stage_msg name '' must be an object''], None))"

fun stages_loop :: "string list \<Rightarrow> tool_index \<Rightarrow> args \<Rightarrow> (string, stage) jmap \<Rightarrow> string list \<times> (string, stage) jmap" where
  "stages_loop names index [] out = ([], out)"
| "stages_loop names index ((name, raw) # rest) out =
     (let (es, st) = validate_stage names index name raw;
          (es', out') = stages_loop names index rest (case st of None \<Rightarrow> out | Some s \<Rightarrow> jput name s out)
      in (es @ es', out'))"

subsection \<open>Transitions\<close>

record edge_state =
  es_out :: "transition list"
  es_edges :: "string list"
  es_drivers :: "string list"
  es_errs :: "string list"

definition edge_text :: "string \<Rightarrow> string \<Rightarrow> string" where
  "edge_text a b = a @ ''->'' @ b"

definition driver_text :: "string \<Rightarrow> string \<Rightarrow> string" where
  "driver_text a tool = a @ '':'' @ tool"

text \<open>The \<open>on\<close> of one edge: the messages, and the driver that is kept.\<close>

definition validate_on :: "tool_index \<Rightarrow> string \<Rightarrow> string \<Rightarrow> string list \<Rightarrow> json option \<Rightarrow> string list \<times> string option" where
  "validate_on index from to drivers raw =
     (let head = ''transition '' @ edge_text from to @ '': '' in
      case raw of
        None \<Rightarrow> ([], None)
      | Some v \<Rightarrow> (case as_str raw of
          None \<Rightarrow> ([head @ ''on names '' @ q (js_String raw) @ '', which is not a governable tool (governable: ''
                    @ comma_list (governableToolNames index) @ '')''], None)
        | Some tool \<Rightarrow>
            if \<not> jhas index tool
            then ([head @ ''on names '' @ q tool @ '', which is not a governable tool (governable: ''
                    @ comma_list (governableToolNames index) @ '')''], None)
            else if tool = ''spawn_instance''
            then ([head @ ''on cannot be spawn_instance -- spawn_instance enters a stage, it does not move a worker between stages''], None)
            else if tool = ''send_prompt''
            then ([head @ ''on cannot be send_prompt -- send_prompt is the DEFAULT driver for an edge with no `on`, so declaring it is an ambiguous no-op''], None)
            else if from = to
            then ([head @ ''a self-loop cannot declare `on` -- it exists only to make the self-edge ledgered, and a driver would make the same edge resolve two different ways''], None)
            else if driver_text from tool \<in> set drivers
            then ([head @ q tool @ '' already drives another transition out of '' @ q from
                    @ '' -- a tool can drive at most one edge per stage, or which destination fires would depend on file order''], None)
            else ([], Some tool)))"

definition end_errors :: "string list \<Rightarrow> args \<Rightarrow> string list" where
  "end_errors names kvs = concat (map (\<lambda>field.
     (case as_str (map_of kvs field) of
        Some s \<Rightarrow> if s \<in> set names then [] else [''transition '' @ field @ '' names unknown stage '' @ q s]
      | None \<Rightarrow> [''transition '' @ field @ '' names unknown stage '' @ q (js_String (map_of kvs field))]))
     [''from'', ''to''])"

definition transition_step :: "string list \<Rightarrow> tool_index \<Rightarrow> edge_state \<Rightarrow> json \<Rightarrow> edge_state" where
  "transition_step names index s tU = (case tU of
       JObj kvs \<Rightarrow>
         (let ks = unknown_keys TRANSITION_KEYS (\<lambda>k. ''transition has unknown key '' @ q k) kvs;
              bad = end_errors names kvs;
              from = str_or_empty (map_of kvs ''from''); to = str_or_empty (map_of kvs ''to'');
              edge = edge_text from to;
              s1 = s\<lparr>es_errs := es_errs s @ ks @ bad\<rparr>
          in if bad \<noteq> [] then s1
             else if edge \<in> set (es_edges s)
             then s1\<lparr>es_errs := es_errs s1 @ [''duplicate transition '' @ edge]\<rparr>
             else (let (e1, desc) = readDescription (map_of kvs ''description'') (''transition '' @ edge);
                       (e2, on) = validate_on index from to (es_drivers s) (map_of kvs ''on'')
                   in s1\<lparr>es_edges := edge # es_edges s,
                         es_errs := es_errs s1 @ e1 @ e2,
                         es_drivers := (case on of None \<Rightarrow> es_drivers s | Some tool \<Rightarrow> driver_text from tool # es_drivers s),
                         es_out := es_out s @ [\<lparr>tr_from = from, tr_to = to, tr_on = on, tr_description = desc\<rparr>]\<rparr>))
     | _ \<Rightarrow> s\<lparr>es_errs := es_errs s @ [''each transition must be an object'']\<rparr>)"

definition validate_transitions :: "string list \<Rightarrow> tool_index \<Rightarrow> json option \<Rightarrow> edge_state" where
  "validate_transitions names index raw =
     (let s0 = \<lparr>es_out = [], es_edges = [], es_drivers = [], es_errs = []\<rparr> in
      case raw of
        Some (JArr ts) \<Rightarrow> foldl (transition_step names index) s0 ts
      | _ \<Rightarrow> s0\<lparr>es_errs := [''transitions must be an array'']\<rparr>)"

subsection \<open>The whole definition\<close>

definition entry_errors :: "string list \<Rightarrow> json option \<Rightarrow> string list \<times> string list" where
  "entry_errors names raw = (case raw of
       Some (JArr es) \<Rightarrow>
         (concat (map (\<lambda>e. case as_str (Some e) of
              None \<Rightarrow> [''entryStages entries must be strings'']
            | Some s \<Rightarrow> if s \<in> set names then [] else [''entryStages names unknown stage '' @ q s]) es),
          concat (map (\<lambda>e. case as_str (Some e) of
              None \<Rightarrow> []
            | Some s \<Rightarrow> if s \<in> set names then [s] else []) es))
     | _ \<Rightarrow> ([''entryStages must be an array of stage names''], []))"

definition header_errors :: "args \<Rightarrow> string \<Rightarrow> string \<Rightarrow> string list" where
  "header_errors raw i idSource =
     unknown_keys PLAYBOOK_KEYS (\<lambda>k. ''unknown top-level key '' @ q k) raw
     @ (case as_str (map_of raw ''id'') of
          Some s \<Rightarrow> if isSlug s then [] else [''invalid id '' @ q s @ '' (must match ^[a-z][a-z0-9-]*$, max 40 chars)'']
        | None \<Rightarrow> [''invalid id '' @ q (js_String (map_of raw ''id'')) @ '' (must match ^[a-z][a-z0-9-]*$, max 40 chars)''])
     @ (if map_of raw ''id'' \<noteq> Some (JStr i)
        then [''id '' @ q (js_String (map_of raw ''id'')) @ '' does not match '' @ idSource @ '' '' @ q i] else [])
     @ concat (map (\<lambda>field. case as_str (map_of raw field) of
          Some s \<Rightarrow> if js_blank s then [field @ '' is required and must be a non-empty string''] else []
        | None \<Rightarrow> [field @ '' is required and must be a non-empty string'']) [''name'', ''description''])"

definition spawn_errors :: "string list \<Rightarrow> (string, stage) jmap \<Rightarrow> string list" where
  "spawn_errors entry stages =
     concat (map (\<lambda>s. case map_of stages s of
         None \<Rightarrow> []
       | Some st \<Rightarrow> if isSpawnable (Some st) then []
           else [''entryStages names '' @ q s @ '', which does not declare spawn_instance in its tools map -- an entry stage must be spawnable. spawn_instance defaults to '' @ dq ''deny''
                  @ '' and a '' @ dq ''*'' @ '' entry does NOT confer spawnability: name spawn_instance explicitly.'']) entry)
     @ concat (map (\<lambda>(name, st). if isSpawnable (Some st) \<and> name \<notin> set entry \<and> st_needs st = []
         then [stage_msg name '' declares spawn_instance but is neither listed in entryStages nor declares a non-empty `needs` -- a worker spawned into it would belong to no run'']
         else []) stages)"

definition reach_errors :: "string list \<Rightarrow> string list \<Rightarrow> (string, stage) jmap \<Rightarrow> transition list \<Rightarrow> string list" where
  "reach_errors names entry stages ts = concat (map (\<lambda>name.
     if name \<in> set entry then []
     else if isSpawnable (map_of stages name) then []
     else if list_ex (\<lambda>t. tr_to t = name \<and> tr_from t \<noteq> name) ts then []
     else [stage_msg name '' is unreachable -- not an entry stage, does not declare spawn_instance, and has no inbound transition'']) names)"

datatype validate_result = Valid playbook | Invalid "string list" | Validator_throws

text \<open>
  \<open>stages[name]\<close> of a name that is not a valid stage object but that \<open>Object.prototype\<close> has is
  truthy, and \<open>isSpawnable\<close> then reads a property of an undefined \<open>tools\<close>: the validator throws.
  The entry-stage loop reads the entry stages so, the reachability loop every other name.
\<close>

definition validatePlaybook :: "json \<Rightarrow> string \<Rightarrow> tool_index \<Rightarrow> string \<Rightarrow> validate_result" where
  "validatePlaybook raw i index idSource = (case raw of
       JObj kvs \<Rightarrow>
         (let e0 = header_errors kvs i idSource;
              rawStages = asRecord (map_of kvs ''stages'');
              names = jkeys rawStages
          in if rawStages = [] then Invalid (e0 @ [''stages must be a non-empty object''])
             else (let (e1, entry) = entry_errors names (map_of kvs ''entryStages'');
                       (e2, stages) = stages_loop names index rawStages [];
                       e3 = spawn_errors entry stages;
                       es = validate_transitions names index (map_of kvs ''transitions'');
                       e4 = reach_errors names entry stages (es_out es);
                       errors = e0 @ e1 @ e2 @ e3 @ es_errs es @ e4
                   in if list_ex (\<lambda>s. js_index stages s = Inherited) entry
                         \<or> list_ex (\<lambda>s. s \<notin> set entry \<and> js_index stages s = Inherited) names
                      then Validator_throws
                      else if errors \<noteq> [] then Invalid errors
                      else Valid \<lparr>pb_id = i, pb_name = js_String (map_of kvs ''name''),
                             pb_description = js_String (map_of kvs ''description''),
                             pb_entryStages = entry, pb_stages = stages, pb_transitions = es_out es,
                             pb_plugin = None, pb_builtin = False\<rparr>))
     | _ \<Rightarrow> Invalid [''playbook '' @ q i @ '' must be a JSON object''])"

subsection \<open>Locating an error\<close>

record located =
  loc_stage :: "string option"
  loc_edge :: "(string \<times> string) option"

definition longer_hit :: "string \<Rightarrow> string option \<Rightarrow> string \<Rightarrow> string option" where
  "longer_hit message best name =
     (let head = ''stage '' @ q name;
          hit = starts_with message (head @ '':'') \<or> starts_with message (head @ '' '')
      in if hit \<and> (case best of None \<Rightarrow> True | Some b \<Rightarrow> length name > length b) then Some name else best)"

definition edge_hits :: "string \<Rightarrow> json list \<Rightarrow> (string \<times> string) list" where
  "edge_hits message ts = remdups (concat (map (\<lambda>t.
     case (as_str (map_of (asRecord (Some t)) ''from''), as_str (map_of (asRecord (Some t)) ''to'')) of
       (Some a, Some b) \<Rightarrow>
         if starts_with message (''transition '' @ edge_text a b @ '':'') \<or> message = ''duplicate transition '' @ edge_text a b
         then [(a, b)] else []
     | _ \<Rightarrow> []) ts))"

definition locateValidationError :: "string \<Rightarrow> json \<Rightarrow> located" where
  "locateValidationError message draft =
     (let raw = asRecord (Some draft);
          names = jkeys (asRecord (map_of raw ''stages''))
      in case foldl (longer_hit message) None names of
           Some s \<Rightarrow> \<lparr>loc_stage = Some s, loc_edge = None\<rparr>
         | None \<Rightarrow> \<lparr>loc_stage = None,
             loc_edge = (case map_of raw ''transitions'' of
                 Some (JArr ts) \<Rightarrow> (case edge_hits message ts of [e] \<Rightarrow> Some e | _ \<Rightarrow> None)
               | _ \<Rightarrow> None)\<rparr>)"

subsection \<open>Loading the catalog\<close>

definition ends_with :: "string \<Rightarrow> string \<Rightarrow> bool" where
  "ends_with s suffix \<longleftrightarrow> starts_with (rev s) (rev suffix)"

definition RESERVED_OVERLAY_ID :: string where "RESERVED_OVERLAY_ID = ''custom''"

definition json_ext :: string where "json_ext = ''.json''"

text \<open>\<open>userPlaybookIds\<close> over the directory listing (None: no such directory).\<close>

definition userPlaybookIds :: "string list option \<Rightarrow> string list" where
  "userPlaybookIds listing = (case listing of
       None \<Rightarrow> []
     | Some names \<Rightarrow> sort (filter (\<lambda>slug. slug \<noteq> RESERVED_OVERLAY_ID)
         (map (\<lambda>n. take (length n - length json_ext) n) (filter (\<lambda>n. ends_with n json_ext) names))))"

text \<open>\<open>userPlaybookFiles\<close>: a file that cannot be read (\<open>None\<close>) is skipped with a warning.\<close>

definition userPlaybookFiles :: "string list option \<Rightarrow> (string \<Rightarrow> string option) \<Rightarrow> (string \<times> string) list" where
  "userPlaybookFiles listing read =
     concat (map (\<lambda>slug. case read slug of None \<Rightarrow> [] | Some body \<Rightarrow> [(slug, body)]) (userPlaybookIds listing))"

record plugin_playbook =
  pp_id :: string
  pp_slug :: string
  pp_plugin :: string
  pp_body :: string

record catalog_body =
  cb_slug :: string
  cb_body :: "string option"
  cb_builtin :: bool

record load_result =
  lr_playbooks :: "(string, playbook) jmap"
  lr_errors :: "(string \<times> string) list"

text \<open>The inner \<open>load\<close>; \<open>None\<close> when the validator throws, which ends the whole load.\<close>

definition load_one ::
  "(string \<Rightarrow> string + json) \<Rightarrow> string \<Rightarrow> string \<Rightarrow> (json \<Rightarrow> validate_result) \<Rightarrow> bool \<Rightarrow> string option
   \<Rightarrow> load_result \<Rightarrow> load_result option" where
  "load_one parse i body check builtin plugin r = (case parse body of
       Inl e \<Rightarrow> Some (r\<lparr>lr_errors := lr_errors r @ [(i, ''not valid JSON: '' @ e)]\<rparr>)
     | Inr j \<Rightarrow> (case check j of
         Valid pb \<Rightarrow> Some (r\<lparr>lr_playbooks := jput i (pb\<lparr>pb_id := i, pb_builtin := builtin, pb_plugin := plugin\<rparr>)
                              (lr_playbooks r)\<rparr>)
       | Invalid es \<Rightarrow> Some (r\<lparr>lr_errors := lr_errors r @ map (Pair i) es\<rparr>)
       | Validator_throws \<Rightarrow> None))"

definition load_catalog ::
  "(string \<Rightarrow> string + json) \<Rightarrow> tool_index \<Rightarrow> catalog_body list \<Rightarrow> load_result option \<Rightarrow> load_result option" where
  "load_catalog parse index entries r0 = foldl (\<lambda>r e. Option.bind r (load_one parse (cb_slug e)
     (case cb_body e of Some b \<Rightarrow> b | None \<Rightarrow> [])
     (\<lambda>j. validatePlaybook j (cb_slug e) index ''its filename id'') (cb_builtin e) None)) r0 entries"

definition load_plugins ::
  "(string \<Rightarrow> string + json) \<Rightarrow> tool_index \<Rightarrow> plugin_playbook list \<Rightarrow> load_result option \<Rightarrow> load_result option" where
  "load_plugins parse index records r0 = foldl (\<lambda>r e. Option.bind r (load_one parse (pp_id e) (pp_body e)
     (\<lambda>j. validatePlaybook j (pp_slug e) index ''its manifest slug'') False (Some (pp_plugin e)))) r0 records"

text \<open>\<open>loadPlaybooks\<close>: the merged catalog, then the plugin records (\<open>Inl\<close>: the provider threw).\<close>

definition loadPlaybooks ::
  "(string \<Rightarrow> string + json) \<Rightarrow> tool_index \<Rightarrow> catalog_body list \<Rightarrow> string + plugin_playbook list
   \<Rightarrow> load_result option" where
  "loadPlaybooks parse index entries plugins =
     (let r = load_catalog parse index entries (Some \<lparr>lr_playbooks = [], lr_errors = []\<rparr>)
      in case plugins of
           Inl e \<Rightarrow> map_option (\<lambda>x. x\<lparr>lr_errors := lr_errors x
                      @ [(''plugins'', ''plugin playbooks unavailable: '' @ e)]\<rparr>) r
         | Inr records \<Rightarrow> load_plugins parse index records r)"

end
