(* ===== verification/ValidatorFacts.thy ===== *)
theory ValidatorFacts
  imports PlaybookValidator PolicyFacts
begin

text \<open>
  What an accepted definition guarantees (soundness of \<open>validatePlaybook\<close>), that a well-formed
  definition written as JSON is accepted unchanged, what the loader keeps, and where the error
  locator and the validator fall short of their comments.
\<close>

subsection \<open>Well-formed definitions\<close>

definition position_ok :: "string list \<Rightarrow> string list \<Rightarrow> bool" where
  "position_ok names pos \<longleftrightarrow> pos \<noteq> [] \<and> distinct pos
     \<and> (pos = [WILDCARD] \<or> set pos \<subseteq> set names - {WILDCARD})"

definition need_ok :: "string list \<Rightarrow> needs_entry \<Rightarrow> bool" where
  "need_ok names n \<longleftrightarrow> ne_stage n \<in> set names \<and> (ne_position n = [ne_stage n] \<or> position_ok names (ne_position n))"

definition policy_ok :: "tool_index \<Rightarrow> string \<Rightarrow> tool_policy \<Rightarrow> bool" where
  "policy_ok index tool pol \<longleftrightarrow> (tool = WILDCARD \<or> jhas index tool) \<and>
     (case pol of Pin m \<Rightarrow> tool \<noteq> WILDCARD \<and> jmap_ok m
          \<and> (\<forall>(arg, v) \<in> set m. arg \<notin> set PIN_FORBIDDEN_KEYS \<and> is_literal v
               \<and> (\<exists>props. map_of index tool = Some props \<and> arg \<in> set props))
      | _ \<Rightarrow> True)"

definition stage_ok :: "tool_index \<Rightarrow> string list \<Rightarrow> stage \<Rightarrow> bool" where
  "stage_ok index names st \<longleftrightarrow> (\<forall>n \<in> set (st_needs st). need_ok names n)
     \<and> jmap_ok (st_tools st) \<and> (\<forall>(tool, pol) \<in> set (st_tools st). policy_ok index tool pol)"

subsection \<open>The pieces\<close>

lemma position_loop_ok:
  "position_loop stage names out ms = Inr r \<Longrightarrow> distinct out \<Longrightarrow>
     distinct r \<and> length r = length out + length ms \<and> set r \<subseteq> set out \<union> insert WILDCARD (set names)"
  by (induction ms arbitrary: out) (fastforce split: option.splits if_splits)+

lemma validatePosition_ok:
  assumes "validatePosition stage raw anchor names = Inr pos"
  shows "pos = [anchor] \<or> position_ok names pos"
proof -
  have "pos \<noteq> [] \<and> distinct pos \<and> set pos \<subseteq> insert WILDCARD (set names) \<and> (WILDCARD \<notin> set pos \<or> length pos \<le> 1)"
    if "raw = Some (JArr (m # ms))" for m ms
    using assms that position_loop_ok [of stage names "[]" "m # ms"]
    by (auto simp del: position_loop.simps simp: validatePosition_def split: sum.splits if_splits)
  moreover have "pos = [WILDCARD]" if "pos \<noteq> []" "WILDCARD \<in> set pos" "length pos \<le> 1"
    using that by (cases pos) auto
  ultimately show ?thesis
    using assms unfolding position_ok_def
    by (auto simp: validatePosition_def split: option.splits json.splits list.splits)
qed

lemma validate_need_ok: "n \<in> set (snd (validate_need name names nU)) \<Longrightarrow> need_ok names n"
  by (auto simp: validate_need_def need_ok_def Let_def dest!: validatePosition_ok
      split: json.splits option.splits if_splits sum.splits)

lemma validate_needs_ok: "n \<in> set (snd (validate_needs name names raw)) \<Longrightarrow> need_ok names n"
  by (auto simp: validate_needs_def dest: validate_need_ok split: option.splits json.splits)

lemma pin_loop_ok:
  assumes "pin_loop stage tool props rest out = (es, r)" "jmap_ok out"
    and "\<forall>(arg, v) \<in> set out. arg \<notin> set PIN_FORBIDDEN_KEYS \<and> is_literal v \<and> arg \<in> set props"
  shows "jmap_ok r \<and> (\<forall>(arg, v) \<in> set r. arg \<notin> set PIN_FORBIDDEN_KEYS \<and> is_literal v \<and> arg \<in> set props)"
  using assms
proof (induction rest arbitrary: out es)
  case (Cons x rest)
  obtain arg val where x: "x = (arg, val)" by fastforce
  show ?case
  proof (cases "arg \<in> set PIN_FORBIDDEN_KEYS \<or> arg \<notin> set props \<or> \<not> is_literal val")
    case True
    then obtain es' where "pin_loop stage tool props rest out = (es', r)"
      using Cons.prems(1) by (auto simp: x split: if_splits prod.splits)
    from Cons.IH [OF this Cons.prems(2,3)] show ?thesis .
  next
    case False
    then have "pin_loop stage tool props rest (jput arg val out) = (es, r)"
      using Cons.prems(1) by (simp add: x)
    moreover have "\<forall>(a, v) \<in> set (jput arg val out). a \<notin> set PIN_FORBIDDEN_KEYS \<and> is_literal v \<and> a \<in> set props"
      using False Cons.prems(3) by (auto dest!: set_jput_cases)
    ultimately show ?thesis using Cons.IH jmap_ok_jput [OF Cons.prems(2)] by blast
  qed
qed simp

lemma validateToolPolicy_ok:
  assumes "validateToolPolicy stage tool policy index = (es, Some pol)"
  shows "policy_ok index tool pol"
proof -
  have gov: "tool = WILDCARD \<or> jhas index tool"
    using assms by (auto simp: validateToolPolicy_def split: if_splits)
  show ?thesis
  proof (cases pol)
    case (Pin m)
    then obtain kvs where wild: "tool \<noteq> WILDCARD"
      and loop: "pin_loop stage tool (case map_of index tool of Some ps \<Rightarrow> ps | None \<Rightarrow> []) kvs [] = (es, m)"
      using assms by (auto simp: validateToolPolicy_def Let_def split: if_splits prod.splits)
    obtain props where props: "map_of index tool = Some props" using gov wild by (auto simp: jhas_def)
    show ?thesis
      using pin_loop_ok [OF loop] gov wild by (auto simp: policy_ok_def Pin props)
  qed (use gov in \<open>simp_all add: policy_ok_def\<close>)
qed

lemma tools_loop_ok:
  assumes "tools_loop name index rest out = (es, r)" "jmap_ok out"
    and "\<forall>(tool, pol) \<in> set out. policy_ok index tool pol"
  shows "jmap_ok r \<and> (\<forall>(tool, pol) \<in> set r. policy_ok index tool pol)"
  using assms
proof (induction rest arbitrary: out es)
  case (Cons x rest)
  obtain tool policy where x: "x = (tool, policy)" by fastforce
  obtain e1 checked where v: "validateToolPolicy name tool policy index = (e1, checked)" by fastforce
  define out1 where "out1 = (case checked of None \<Rightarrow> out | Some pol \<Rightarrow> jput tool pol out)"
  obtain e2 where rest: "tools_loop name index rest out1 = (e2, r)"
    using Cons.prems(1) by (auto simp: x v out1_def split: prod.splits)
  have "jmap_ok out1 \<and> (\<forall>(tool, pol) \<in> set out1. policy_ok index tool pol)"
    using Cons.prems(2,3) v validateToolPolicy_ok
    by (auto simp: out1_def dest!: set_jput_cases split: option.splits)
  with Cons.IH [OF rest] show ?case by blast
qed simp

lemma validate_stage_ok:
  assumes "validate_stage names index name raw = (es, Some st)"
  shows "stage_ok index names st"
proof -
  obtain kvs where raw: "raw = JObj kvs"
    using assms by (auto simp: validate_stage_def split: json.splits)
  obtain e3 tools where t: "validate_tools name index (map_of kvs ''tools'') = (e3, tools)" by fastforce
  have st: "st_needs st = snd (validate_needs name names (map_of kvs ''needs''))" "st_tools st = tools"
    using assms by (auto simp: validate_stage_def raw t Let_def split: prod.splits)
  have "jmap_ok tools \<and> (\<forall>(tool, pol) \<in> set tools. policy_ok index tool pol)"
    using t by (auto simp: validate_tools_def dest: tools_loop_ok split: option.splits json.splits)
  then show ?thesis
    using validate_needs_ok by (auto simp: stage_ok_def st)
qed

lemma validate_stage_None: "validate_stage names index name raw = (es, None) \<Longrightarrow> es \<noteq> []"
  by (auto simp: validate_stage_def Let_def split: json.splits prod.splits)

lemma stages_loop_ok:
  assumes "stages_loop names index rest out = (es, r)" "jmap_ok out"
    and "\<forall>(n, st) \<in> set out. stage_ok index names st"
  shows "jmap_ok r \<and> (\<forall>(n, st) \<in> set r. stage_ok index names st)
    \<and> set (jkeys r) \<subseteq> set (jkeys out) \<union> set (jkeys rest)
    \<and> (es = [] \<longrightarrow> set (jkeys r) = set (jkeys out) \<union> set (jkeys rest))"
  using assms
proof (induction rest arbitrary: out es)
  case (Cons x rest)
  obtain name raw where x: "x = (name, raw)" by fastforce
  obtain e1 st where v: "validate_stage names index name raw = (e1, st)" by fastforce
  define out1 where "out1 = (case st of None \<Rightarrow> out | Some s \<Rightarrow> jput name s out)"
  obtain e2 where rest: "stages_loop names index rest out1 = (e2, r)" and es: "es = e1 @ e2"
    using Cons.prems(1) by (auto simp: x v out1_def split: prod.splits)
  have ok: "jmap_ok out1" "\<forall>(n, s) \<in> set out1. stage_ok index names s"
    using Cons.prems(2,3) v validate_stage_ok
    by (auto simp: out1_def dest!: set_jput_cases split: option.splits)
  have keys: "set (jkeys out1) \<subseteq> insert name (set (jkeys out))"
    "e1 = [] \<longrightarrow> set (jkeys out1) = insert name (set (jkeys out))"
    using v validate_stage_None [of names index name raw e1] by (auto simp: out1_def split: option.splits)
  have cons: "set (jkeys (x # rest)) = insert name (set (jkeys rest))" by (simp add: x)
  from Cons.IH [OF rest ok] have ih: "jmap_ok r \<and> (\<forall>(n, st) \<in> set r. stage_ok index names st)"
    "set (jkeys r) \<subseteq> set (jkeys out1) \<union> set (jkeys rest)"
    "e2 = [] \<longrightarrow> set (jkeys r) = set (jkeys out1) \<union> set (jkeys rest)" by blast+
  have "es = [] \<longrightarrow> e1 = [] \<and> e2 = []" using es by simp
  with ih keys cons show ?case by blast
qed simp

subsection \<open>Edges\<close>

definition edges_inv :: "tool_index \<Rightarrow> string list \<Rightarrow> edge_state \<Rightarrow> bool" where
  "edges_inv index names s \<longleftrightarrow>
     es_edges s = rev (map (\<lambda>t. edge_text (tr_from t) (tr_to t)) (es_out s)) \<and> distinct (es_edges s)
     \<and> es_drivers s = rev (concat (map (\<lambda>t. case tr_on t of None \<Rightarrow> [] | Some d \<Rightarrow> [driver_text (tr_from t) d]) (es_out s)))
     \<and> distinct (es_drivers s)
     \<and> (\<forall>t \<in> set (es_out s). tr_from t \<in> set names \<and> tr_to t \<in> set names
          \<and> (\<forall>d. tr_on t = Some d \<longrightarrow> jhas index d \<and> d \<notin> {''spawn_instance'', ''send_prompt''} \<and> tr_from t \<noteq> tr_to t))"

lemma validate_on_ok:
  "snd (validate_on index from to drivers raw) = Some d \<Longrightarrow>
     jhas index d \<and> d \<notin> {''spawn_instance'', ''send_prompt''} \<and> from \<noteq> to \<and> driver_text from d \<notin> set drivers"
  by (auto simp: validate_on_def Let_def split: option.splits if_splits)

lemma end_errors_Nil:
  "end_errors names kvs = [] \<Longrightarrow>
     str_or_empty (map_of kvs ''from'') \<in> set names \<and> str_or_empty (map_of kvs ''to'') \<in> set names"
  by (auto simp: end_errors_def split: option.splits if_splits)

lemma transition_step_inv:
  assumes "edges_inv index names s"
  shows "edges_inv index names (transition_step names index s tU)"
proof (cases tU)
  case (JObj kvs)
  define fr where "fr = str_or_empty (map_of kvs ''from'')"
  define to where "to = str_or_empty (map_of kvs ''to'')"
  define edge where "edge = edge_text fr to"
  obtain e1 desc where d: "readDescription (map_of kvs ''description'') (''transition '' @ edge) = (e1, desc)" by fastforce
  obtain e2 on where o: "validate_on index fr to (es_drivers s) (map_of kvs ''on'') = (e2, on)" by fastforce
  show ?thesis
  proof (cases "end_errors names kvs \<noteq> [] \<or> edge \<in> set (es_edges s)")
    case True
    then show ?thesis
      using assms by (auto simp: transition_step_def JObj Let_def edges_inv_def edge_def fr_def to_def)
  next
    case False
    define t where "t = \<lparr>tr_from = fr, tr_to = to, tr_on = on, tr_description = desc\<rparr>"
    obtain errs where s': "transition_step names index s tU = s\<lparr>es_edges := edge # es_edges s, es_errs := errs,
        es_drivers := (case on of None \<Rightarrow> es_drivers s | Some d \<Rightarrow> driver_text fr d # es_drivers s),
        es_out := es_out s @ [t]\<rparr>"
      using False d o by (auto simp: transition_step_def JObj Let_def edge_def t_def
          simp flip: fr_def to_def)
    have ends: "fr \<in> set names \<and> to \<in> set names"
      using False end_errors_Nil by (auto simp: fr_def to_def)
    have on: "jhas index d \<and> d \<notin> {''spawn_instance'', ''send_prompt''} \<and> fr \<noteq> to
        \<and> driver_text fr d \<notin> set (es_drivers s)" if "on = Some d" for d
      using validate_on_ok [of index fr to "es_drivers s" "map_of kvs ''on''" d] o that by simp
    show ?thesis
      using assms False ends on unfolding s' edges_inv_def
      by (cases on) (auto simp: t_def edge_def)
  qed
qed (use assms in \<open>auto simp: transition_step_def edges_inv_def\<close>)

lemma validate_transitions_inv: "edges_inv index names (validate_transitions names index raw)"
proof -
  have "edges_inv index names s \<Longrightarrow> edges_inv index names (foldl (transition_step names index) s ts)" for s ts
    by (induction ts arbitrary: s) (simp_all add: transition_step_inv)
  moreover have "edges_inv index names \<lparr>es_out = [], es_edges = [], es_drivers = [], es_errs = e\<rparr>" for e
    by (simp add: edges_inv_def)
  ultimately show ?thesis
    by (simp add: validate_transitions_def Let_def split: option.split json.split)
qed

subsection \<open>Soundness\<close>

definition drivers_once :: "playbook \<Rightarrow> bool" where
  "drivers_once pb \<longleftrightarrow> (\<forall>t \<in> set (pb_transitions pb). \<forall>u \<in> set (pb_transitions pb).
     tr_on t \<noteq> None \<and> tr_from t = tr_from u \<and> tr_on t = tr_on u \<longrightarrow> t = u)"

definition wf_playbook :: "tool_index \<Rightarrow> playbook \<Rightarrow> bool" where
  "wf_playbook index pb \<longleftrightarrow>
     isSlug (pb_id pb) \<and> \<not> js_blank (pb_name pb) \<and> \<not> js_blank (pb_description pb)
     \<and> jmap_ok (pb_stages pb) \<and> (\<forall>(n, st) \<in> set (pb_stages pb). stage_ok index (jkeys (pb_stages pb)) st)
     \<and> (\<forall>s \<in> set (pb_entryStages pb). isSpawnable (map_of (pb_stages pb) s))
     \<and> (\<forall>n st. map_of (pb_stages pb) n = Some st \<and> isSpawnable (Some st) \<and> n \<notin> set (pb_entryStages pb)
          \<longrightarrow> st_needs st \<noteq> [])
     \<and> (\<forall>n \<in> set (jkeys (pb_stages pb)). n \<in> set (pb_entryStages pb) \<or> isSpawnable (map_of (pb_stages pb) n)
          \<or> (\<exists>t \<in> set (pb_transitions pb). tr_to t = n \<and> tr_from t \<noteq> n))
     \<and> edges_ok pb \<and> drivers_once pb
     \<and> (\<forall>t \<in> set (pb_transitions pb). \<forall>d. tr_on t = Some d \<longrightarrow> jhas index d \<and> d \<noteq> ''spawn_instance'')"

lemma concat_split_unique:
  assumes "distinct (concat (map f xs))" "t \<in> set xs" "u \<in> set xs" "x \<in> set (f t)" "x \<in> set (f u)"
  shows "t = u"
  using assms by (induction xs) auto

lemma distinct_map_via: "distinct (map (\<lambda>x. g (f x)) xs) \<Longrightarrow> distinct (map f xs)"
  by (auto simp: distinct_map inj_on_def)

lemma edges_inv_edges:
  assumes "edges_inv index names es" "\<not> jhas index []"
    and "pb_transitions pb = es_out es" "set (jkeys (pb_stages pb)) = set names"
  shows "edges_ok pb" "drivers_once pb"
    and "\<forall>t \<in> set (pb_transitions pb). \<forall>d. tr_on t = Some d \<longrightarrow> jhas index d \<and> d \<noteq> ''spawn_instance''"
proof -
  have inv: "es_edges es = rev (map (\<lambda>t. edge_text (tr_from t) (tr_to t)) (es_out es))" "distinct (es_edges es)"
    "es_drivers es = rev (concat (map (\<lambda>t. case tr_on t of None \<Rightarrow> [] | Some d \<Rightarrow> [driver_text (tr_from t) d]) (es_out es)))"
    "distinct (es_drivers es)"
    using assms(1) unfolding edges_inv_def by blast+
  have "distinct (map (\<lambda>t. (case (tr_from t, tr_to t) of (a, b) \<Rightarrow> edge_text a b)) (es_out es))"
    using inv(2) unfolding inv(1) by simp
  then have "distinct (map (\<lambda>t. (tr_from t, tr_to t)) (es_out es))" by (rule distinct_map_via)
  then show "edges_ok pb"
    using assms by (auto simp: edges_ok_def edges_inv_def list_all_iff jhas_iff)
  have d: "distinct (concat (map (\<lambda>t. case tr_on t of None \<Rightarrow> [] | Some d \<Rightarrow> [driver_text (tr_from t) d]) (es_out es)))"
    using inv(4) unfolding inv(3) by simp
  show "drivers_once pb"
    unfolding drivers_once_def assms(3)
  proof (intro ballI impI)
    fix t u assume tu: "t \<in> set (es_out es)" "u \<in> set (es_out es)"
      "tr_on t \<noteq> None \<and> tr_from t = tr_from u \<and> tr_on t = tr_on u"
    then obtain x where "tr_on t = Some x" by blast
    with tu(3) show "t = u"
      by (intro concat_split_unique [OF d tu(1,2), of "driver_text (tr_from t) x"]) auto
  qed
  show "\<forall>t \<in> set (pb_transitions pb). \<forall>d. tr_on t = Some d \<longrightarrow> jhas index d \<and> d \<noteq> ''spawn_instance''"
    using assms(1,3) by (auto simp: edges_inv_def)
qed

lemma header_errors_Nil:
  assumes "header_errors kvs i src = []"
  obtains n d where "isSlug i" "map_of kvs ''name'' = Some (JStr n)" "\<not> js_blank n"
    "map_of kvs ''description'' = Some (JStr d)" "\<not> js_blank d"
  using assms by (auto simp: header_errors_def split: option.splits if_splits)

lemma entry_errors_ok:
  "entry_errors names raw = (es, entry) \<Longrightarrow> set entry \<subseteq> set names"
  by (auto simp: entry_errors_def split: option.splits json.splits if_splits)

lemma concat_map_Nil: "concat (map f xs) = [] \<Longrightarrow> x \<in> set xs \<Longrightarrow> f x = []"
  by auto

lemma spawn_errors_Nil:
  assumes "spawn_errors entry stages = []"
  shows "s \<in> set entry \<Longrightarrow> map_of stages s = Some st \<Longrightarrow> isSpawnable (Some st)"
    and "(n, st') \<in> set stages \<Longrightarrow> isSpawnable (Some st') \<Longrightarrow> n \<notin> set entry \<Longrightarrow> st_needs st' \<noteq> []"
  using assms unfolding spawn_errors_def append_is_Nil_conv
  by (auto dest!: concat_map_Nil [of _ _ s] concat_map_Nil [of _ _ "(n, st')"] split: if_splits)

lemma reach_errors_Nil:
  assumes "reach_errors names entry stages ts = []" "n \<in> set names"
  shows "n \<in> set entry \<or> isSpawnable (map_of stages n) \<or> (\<exists>t \<in> set ts. tr_to t = n \<and> tr_from t \<noteq> n)"
  using concat_map_Nil [OF assms(1) [unfolded reach_errors_def] assms(2)]
  by (auto simp: list_ex_iff split: if_splits)

lemma validate_wf:
  assumes "validatePlaybook raw i index src = Valid pb" "\<not> jhas index []"
  shows "wf_playbook index pb \<and> pb_id pb = i"
proof -
  obtain kvs where raw: "raw = JObj kvs" using assms(1) by (auto simp: validatePlaybook_def split: json.splits)
  define rs where "rs = asRecord (map_of kvs ''stages'')"
  define names where "names = jkeys rs"
  obtain e1 entry where en: "entry_errors names (map_of kvs ''entryStages'') = (e1, entry)" by fastforce
  obtain e2 stages where sl: "stages_loop names index rs [] = (e2, stages)" by fastforce
  define es where "es = validate_transitions names index (map_of kvs ''transitions'')"
  have none: "header_errors kvs i src = []" "e2 = []" "spawn_errors entry stages = []"
    "reach_errors names entry stages (es_out es) = []"
    and pb: "pb_id pb = i" "pb_name pb = js_String (map_of kvs ''name'')"
      "pb_description pb = js_String (map_of kvs ''description'')" "pb_entryStages pb = entry"
      "pb_stages pb = stages" "pb_transitions pb = es_out es"
    using assms(1) en sl
    by (auto simp: validatePlaybook_def raw Let_def rs_def names_def es_def split: if_splits)
  have st: "jmap_ok stages" "\<forall>(n, st) \<in> set stages. stage_ok index names st" "set (jkeys stages) = set names"
    using stages_loop_ok [OF sl] none(2) by (auto simp: names_def)
  obtain n d where hd: "isSlug i" "map_of kvs ''name'' = Some (JStr n)" "\<not> js_blank n"
    "map_of kvs ''description'' = Some (JStr d)" "\<not> js_blank d"
    by (rule header_errors_Nil [OF none(1)])
  have entry: "isSpawnable (map_of stages s)" if "s \<in> set entry" for s
  proof -
    have "jhas stages s" using that entry_errors_ok [OF en] st(3) by (auto simp: jhas_iff)
    then show ?thesis using spawn_errors_Nil(1) [OF none(3) that] by (auto simp: jhas_def)
  qed
  have ok: "stage_ok index (jkeys stages) s" if "stage_ok index names s" for s
    using that st(3) by (auto simp: stage_ok_def need_ok_def position_ok_def)
  note edges = edges_inv_edges [OF validate_transitions_inv [of index names "map_of kvs ''transitions''", folded es_def]
      assms(2) pb(6), unfolded pb(5), OF st(3)]
  show ?thesis
    unfolding wf_playbook_def pb(1-5)
  proof (intro conjI)
    show "\<forall>n st. map_of stages n = Some st \<and> isSpawnable (Some st) \<and> n \<notin> set entry \<longrightarrow> st_needs st \<noteq> []"
      using spawn_errors_Nil(2) [OF none(3)] by (blast dest: map_of_SomeD)
    show "\<forall>n \<in> set (jkeys stages). n \<in> set entry \<or> isSpawnable (map_of stages n)
        \<or> (\<exists>t \<in> set (pb_transitions pb). tr_to t = n \<and> tr_from t \<noteq> n)"
      using reach_errors_Nil [OF none(4)] st(3) pb(6) by auto
  qed (use st hd entry ok edges in auto)
qed

text \<open>
  C19.  Accepted definitions are well formed: unique stages, every entry stage spawnable by its
  own \<open>spawn_instance\<close> entry, every other spawnable stage anchored in a run by a need, every
  stage reachable, needs and positions naming known stages, pins only literals of real,
  non-policy arguments, edges between known stages, each declared once and each driver firing at
  most one edge per stage.
\<close>

theorem validatePlaybook_sound:
  assumes "validatePlaybook raw i index src = Valid pb" "\<not> jhas index []"
  shows "wf_playbook index pb \<and> pb_id pb = i"
  using assms by (rule validate_wf)

subsection \<open>A well-formed definition is accepted as written\<close>

definition liveness_text :: "liveness \<Rightarrow> string" where
  "liveness_text l = (case l of Live \<Rightarrow> ''live'' | Retired \<Rightarrow> ''retired'' | AnyLiveness \<Rightarrow> ''any'')"

definition need_json :: "needs_entry \<Rightarrow> json" where
  "need_json n = JObj [(''stage'', JStr (ne_stage n)), (''position'', JArr (map JStr (ne_position n))),
     (''liveness'', JStr (liveness_text (ne_liveness n)))]"

definition policy_json :: "tool_policy \<Rightarrow> json" where
  "policy_json p = (case p of Allow \<Rightarrow> JStr ''allow'' | Deny \<Rightarrow> JStr ''deny'' | Pin m \<Rightarrow> JObj [(''pin'', JObj m)])"

definition stage_json :: "stage \<Rightarrow> json" where
  "stage_json st = JObj ([(''needs'', JArr (map need_json (st_needs st))),
     (''workers'', JStr (case st_workers st of One \<Rightarrow> ''one'' | Many \<Rightarrow> ''many'')),
     (''tools'', JObj (map (\<lambda>(t, p). (t, policy_json p)) (st_tools st)))]
     @ (case st_description st of None \<Rightarrow> [] | Some d \<Rightarrow> [(''description'', JStr d)]))"

definition transition_json :: "transition \<Rightarrow> json" where
  "transition_json t = JObj ([(''from'', JStr (tr_from t)), (''to'', JStr (tr_to t))]
     @ (case tr_on t of None \<Rightarrow> [] | Some x \<Rightarrow> [(''on'', JStr x)])
     @ (case tr_description t of None \<Rightarrow> [] | Some d \<Rightarrow> [(''description'', JStr d)]))"

definition playbook_json :: "playbook \<Rightarrow> json" where
  "playbook_json pb = JObj [(''id'', JStr (pb_id pb)), (''name'', JStr (pb_name pb)),
     (''description'', JStr (pb_description pb)),
     (''entryStages'', JArr (map JStr (pb_entryStages pb))),
     (''stages'', JObj (map (\<lambda>(n, st). (n, stage_json st)) (pb_stages pb))),
     (''transitions'', JArr (map transition_json (pb_transitions pb)))]"

text \<open>The part of well-formedness that JSON text adds: descriptions are not blank, pins not empty,
  and edge and driver texts distinguish the edges.\<close>

definition writable :: "playbook \<Rightarrow> bool" where
  "writable pb \<longleftrightarrow> pb_stages pb \<noteq> []
     \<and> (\<forall>(n, st) \<in> set (pb_stages pb). (\<forall>d. st_description st = Some d \<longrightarrow> \<not> js_blank d)
          \<and> (\<forall>(t, p) \<in> set (st_tools st). p \<noteq> Pin []))
     \<and> (\<forall>t \<in> set (pb_transitions pb). \<forall>d. tr_description t = Some d \<longrightarrow> \<not> js_blank d)
     \<and> distinct (map (\<lambda>t. edge_text (tr_from t) (tr_to t)) (pb_transitions pb))
     \<and> distinct (concat (map (\<lambda>t. case tr_on t of None \<Rightarrow> [] | Some d \<Rightarrow> [driver_text (tr_from t) d]) (pb_transitions pb)))"

lemma position_loop_accepts:
  "\<forall>m \<in> set ms. m = WILDCARD \<or> m \<in> set names \<Longrightarrow> distinct (out @ ms) \<Longrightarrow>
     position_loop stage names out (map JStr ms) = Inr (out @ ms)"
  by (induction ms arbitrary: out) auto

lemma validate_need_accepts:
  assumes "need_ok names n"
  shows "validate_need name names (need_json n) = ([], [n])"
proof -
  have pos: "validatePosition name (Some (JArr (map JStr (ne_position n)))) (ne_stage n) names = Inr (ne_position n)"
  proof -
    obtain m ms where ms: "ne_position n = m # ms"
      using assms by (cases "ne_position n") (auto simp: need_ok_def position_ok_def)
    have "position_loop name names [] (map JStr (m # ms)) = Inr ([] @ (m # ms))"
      using assms by (intro position_loop_accepts) (auto simp: need_ok_def position_ok_def ms)
    moreover have "\<not> (WILDCARD \<in> set (m # ms) \<and> length (m # ms) > 1)"
      using assms by (auto simp: need_ok_def position_ok_def ms)
    ultimately show ?thesis by (simp add: validatePosition_def ms del: position_loop.simps)
  qed
  have lv: "liveness_text l \<in> set LIVENESS_VALUES" "read_liveness (liveness_text l) = l" for l
    by (cases l; simp add: liveness_text_def LIVENESS_VALUES_def read_liveness_def)+
  have "ne_stage n \<in> set names" using assms by (simp add: need_ok_def)
  then show ?thesis
    by (simp add: validate_need_def need_json_def unknown_keys_def NEEDS_KEYS_def pos lv Let_def)
qed

lemma validate_needs_accepts:
  assumes "\<forall>n \<in> set ns. need_ok names n"
  shows "validate_needs name names (Some (JArr (map need_json ns))) = ([], ns)"
proof -
  have "concat (map (\<lambda>n. fst (validate_need name names n)) (map need_json ns)) = []
      \<and> concat (map (\<lambda>n. snd (validate_need name names n)) (map need_json ns)) = ns"
    using assms by (induction ns) (simp_all add: validate_need_accepts)
  then show ?thesis by (simp only: validate_needs_def option.case json.case)
qed

lemma pin_loop_accepts:
  "distinct (jkeys (out @ pins)) \<Longrightarrow>
     \<forall>(a, v) \<in> set pins. a \<notin> set PIN_FORBIDDEN_KEYS \<and> is_literal v \<and> a \<in> set props \<Longrightarrow>
     pin_loop stage tool props pins out = ([], out @ pins)"
proof (induction pins arbitrary: out)
  case (Cons x pins)
  obtain a v where x: "x = (a, v)" by fastforce
  have "jput a v out = out @ [(a, v)]" using Cons.prems(1) by (intro jput_fresh) (auto simp: x)
  with Cons.IH [of "out @ [(a, v)]"] Cons.prems show ?case by (auto simp: x)
qed simp

lemma validateToolPolicy_accepts:
  assumes "policy_ok index tool pol" "pol \<noteq> Pin []"
  shows "validateToolPolicy stage tool (policy_json pol) index = ([], Some pol)"
proof (cases pol)
  case (Pin m)
  obtain props where p: "map_of index tool = Some props" "jmap_ok m" "tool \<noteq> WILDCARD"
    "\<forall>(a, v) \<in> set m. a \<notin> set PIN_FORBIDDEN_KEYS \<and> is_literal v \<and> a \<in> set props"
  proof -
    from assms obtain a v r where "m = (a, v) # r" by (cases m) (auto simp: Pin)
    with assms that show thesis by (fastforce simp: policy_ok_def Pin)
  qed
  then show ?thesis
    using pin_loop_accepts [of "[]" m props stage tool] assms(2)
    by (simp add: validateToolPolicy_def policy_json_def Pin Let_def jhas_def jmap_ok_def)
qed (use assms in \<open>simp_all add: validateToolPolicy_def policy_json_def policy_ok_def\<close>)

lemma tools_loop_accepts:
  "distinct (jkeys (out @ tools)) \<Longrightarrow> \<forall>(t, p) \<in> set tools. policy_ok index t p \<and> p \<noteq> Pin [] \<Longrightarrow>
     tools_loop name index (map (\<lambda>(t, p). (t, policy_json p)) tools) out = ([], out @ tools)"
proof (induction tools arbitrary: out)
  case (Cons x tools)
  obtain t p where x: "x = (t, p)" by fastforce
  have "jput t p out = out @ [(t, p)]" using Cons.prems(1) by (intro jput_fresh) (auto simp: x)
  with Cons.IH [of "out @ [(t, p)]"] Cons.prems validateToolPolicy_accepts [of index t p]
  show ?case by (auto simp: x)
qed simp

lemma validate_stage_accepts:
  assumes "stage_ok index names st" "\<forall>d. st_description st = Some d \<longrightarrow> \<not> js_blank d"
    and "\<forall>(t, p) \<in> set (st_tools st). p \<noteq> Pin []"
  shows "validate_stage names index name (stage_json st) = ([], Some st)"
proof -
  obtain kvs where kvs: "stage_json st = JObj kvs" by (simp add: stage_json_def)
  then have m: "map_of kvs ''needs'' = Some (JArr (map need_json (st_needs st)))"
    "map_of kvs ''workers'' = Some (JStr (case st_workers st of One \<Rightarrow> ''one'' | Many \<Rightarrow> ''many''))"
    "map_of kvs ''tools'' = Some (JObj (map (\<lambda>(t, p). (t, policy_json p)) (st_tools st)))"
    "map_of kvs ''description'' = map_option JStr (st_description st)"
    and u: "unknown_keys STAGE_KEYS msg kvs = []" for msg
    by (auto simp: stage_json_def unknown_keys_def STAGE_KEYS_def split: option.splits)
  have t: "validate_tools name index (map_of kvs ''tools'') = ([], st_tools st)"
  proof -
    have "\<forall>(t, p) \<in> set (st_tools st). policy_ok index t p \<and> p \<noteq> Pin []"
      using assms(1,3) unfolding stage_ok_def by fastforce
    moreover have "distinct (jkeys (st_tools st))" using assms(1) by (simp add: stage_ok_def jmap_ok_def)
    ultimately show ?thesis
      using tools_loop_accepts [of "[]" "st_tools st" index name] by (simp add: validate_tools_def m)
  qed
  have w: "validate_workers name (map_of kvs ''workers'') = ([], st_workers st)"
    by (cases "st_workers st") (simp_all add: validate_workers_def m WORKERS_VALUES_def)
  have d: "readDescription (map_of kvs ''description'') wher = ([], st_description st)" for wher
    using assms(2) by (cases "st_description st") (simp_all add: readDescription_def m)
  have n: "validate_needs name names (map_of kvs ''needs'') = ([], st_needs st)"
    using assms(1) unfolding m by (intro validate_needs_accepts) (simp add: stage_ok_def)
  show ?thesis by (simp add: validate_stage_def kvs u t w d n)
qed

lemma stages_loop_accepts:
  "distinct (jkeys (out @ sts)) \<Longrightarrow>
     \<forall>(n, st) \<in> set sts. validate_stage names index n (stage_json st) = ([], Some st) \<Longrightarrow>
     stages_loop names index (map (\<lambda>(n, st). (n, stage_json st)) sts) out = ([], out @ sts)"
proof (induction sts arbitrary: out)
  case (Cons x sts)
  obtain n st where x: "x = (n, st)" by fastforce
  have "jput n st out = out @ [(n, st)]" using Cons.prems(1) by (intro jput_fresh) (auto simp: x)
  with Cons.IH [of "out @ [(n, st)]"] Cons.prems show ?case by (auto simp: x)
qed simp

definition edges_from :: "transition list \<Rightarrow> edge_state" where
  "edges_from ts = \<lparr>es_out = ts, es_edges = rev (map (\<lambda>t. edge_text (tr_from t) (tr_to t)) ts),
     es_drivers = rev (concat (map (\<lambda>t. case tr_on t of None \<Rightarrow> [] | Some d \<Rightarrow> [driver_text (tr_from t) d]) ts)),
     es_errs = []\<rparr>"

lemma transition_step_accepts:
  assumes "tr_from t \<in> set names" "tr_to t \<in> set names"
    and "\<forall>d. tr_description t = Some d \<longrightarrow> \<not> js_blank d"
    and "\<forall>d. tr_on t = Some d \<longrightarrow> jhas index d \<and> d \<noteq> ''spawn_instance'' \<and> d \<noteq> ''send_prompt'' \<and> tr_from t \<noteq> tr_to t
            \<and> driver_text (tr_from t) d \<notin> set (es_drivers (edges_from ts))"
    and "edge_text (tr_from t) (tr_to t) \<notin> set (es_edges (edges_from ts))"
  shows "transition_step names index (edges_from ts) (transition_json t) = edges_from (ts @ [t])"
proof -
  obtain kvs where kvs: "transition_json t = JObj kvs" by (simp add: transition_json_def)
  then have m: "map_of kvs ''from'' = Some (JStr (tr_from t))" "map_of kvs ''to'' = Some (JStr (tr_to t))"
    "map_of kvs ''on'' = map_option JStr (tr_on t)"
    "map_of kvs ''description'' = map_option JStr (tr_description t)"
    and u: "unknown_keys TRANSITION_KEYS msg kvs = []" for msg
    by (auto simp: transition_json_def unknown_keys_def TRANSITION_KEYS_def split: option.splits)
  have b: "end_errors names kvs = []" using assms(1,2) by (simp add: end_errors_def m)
  have d: "readDescription (map_option JStr (tr_description t)) wher = ([], tr_description t)" for wher
    using assms(3) by (cases "tr_description t") (simp_all add: readDescription_def)
  have o: "validate_on index (tr_from t) (tr_to t) (es_drivers (edges_from ts)) (map_option JStr (tr_on t)) = ([], tr_on t)"
    using assms(4) by (cases "tr_on t") (simp_all add: validate_on_def m Let_def)
  show ?thesis
    using assms(5) o
    by (cases "tr_on t") (simp_all add: transition_step_def kvs u b m Let_def edges_from_def d)
qed

lemma edges_from_snoc:
  "es_drivers (edges_from (ts @ [t])) = (case tr_on t of None \<Rightarrow> [] | Some d \<Rightarrow> [driver_text (tr_from t) d])
     @ es_drivers (edges_from ts)"
  "es_edges (edges_from (ts @ [t])) = edge_text (tr_from t) (tr_to t) # es_edges (edges_from ts)"
  by (simp_all add: edges_from_def split: option.split)

lemma transitions_accepted:
  assumes "\<forall>t \<in> set ts. tr_from t \<in> set names \<and> tr_to t \<in> set names
      \<and> (\<forall>d. tr_description t = Some d \<longrightarrow> \<not> js_blank d)
      \<and> (\<forall>d. tr_on t = Some d \<longrightarrow> jhas index d \<and> d \<noteq> ''spawn_instance'' \<and> d \<noteq> ''send_prompt'' \<and> tr_from t \<noteq> tr_to t)"
    and "distinct (es_edges (edges_from ts))" "distinct (es_drivers (edges_from ts))"
  shows "foldl (transition_step names index) (edges_from []) (map transition_json ts) = edges_from ts"
  using assms
proof (induction ts rule: rev_induct)
  case (snoc t ts)
  have "foldl (transition_step names index) (edges_from []) (map transition_json ts) = edges_from ts"
    by (rule snoc.IH) (use snoc.prems in \<open>auto simp: edges_from_snoc\<close>)
  moreover have "transition_step names index (edges_from ts) (transition_json t) = edges_from (ts @ [t])"
    by (rule transition_step_accepts) (use snoc.prems in \<open>auto simp: edges_from_snoc\<close>)
  ultimately show ?case by simp
qed simp

text \<open>
   A well-formed definition written out as JSON is accepted, and comes back exactly as it
  was: the validator rejects nothing it should accept and alters nothing it accepts.
\<close>

theorem validatePlaybook_roundtrip:
  assumes "wf_playbook index pb" "writable pb" "pb_plugin pb = None" "\<not> pb_builtin pb"
  shows "validatePlaybook (playbook_json pb) (pb_id pb) index src = Valid pb"
proof -
  let ?names = "jkeys (pb_stages pb)"
  note wf = assms(1) [unfolded wf_playbook_def]
  define rs where "rs = map (\<lambda>(n, st). (n, stage_json st)) (pb_stages pb)"
  obtain kvs where kvs: "playbook_json pb = JObj kvs" by (simp add: playbook_json_def)
  then have m: "map_of kvs ''id'' = Some (JStr (pb_id pb))" "map_of kvs ''name'' = Some (JStr (pb_name pb))"
    "map_of kvs ''description'' = Some (JStr (pb_description pb))"
    "map_of kvs ''entryStages'' = Some (JArr (map JStr (pb_entryStages pb)))"
    "map_of kvs ''stages'' = Some (JObj rs)"
    "map_of kvs ''transitions'' = Some (JArr (map transition_json (pb_transitions pb)))"
    and u: "unknown_keys PLAYBOOK_KEYS msg kvs = []" for msg
    by (auto simp: playbook_json_def unknown_keys_def PLAYBOOK_KEYS_def rs_def)
  have keys: "jkeys rs = ?names" by (auto simp: rs_def case_prod_beta)
  have ne: "rs \<noteq> []" using assms(2) by (simp add: rs_def writable_def)
  have h: "header_errors kvs (pb_id pb) src = []" using wf by (simp add: header_errors_def u m)
  have sp: "isSpawnable (map_of (pb_stages pb) s)" "s \<in> set ?names" if "s \<in> set (pb_entryStages pb)" for s
  proof -
    show "isSpawnable (map_of (pb_stages pb) s)" using wf that by blast
    then show "s \<in> set ?names" by (rule spawnable_stage_name)
  qed
  have en: "entry_errors ?names (map_of kvs ''entryStages'') = ([], pb_entryStages pb)"
  proof -
    have "concat (map (\<lambda>e. case as_str (Some e) of None \<Rightarrow> []
        | Some s \<Rightarrow> if s \<in> set ?names then [s] else []) (map JStr es)) = es
      \<and> concat (map (\<lambda>e. case as_str (Some e) of None \<Rightarrow> [''entryStages entries must be strings'']
        | Some s \<Rightarrow> if s \<in> set ?names then [] else [''entryStages names unknown stage '' @ q s]) (map JStr es)) = []"
      if "set es \<subseteq> set ?names" for es
      using that by (induction es) auto
    then show ?thesis using sp(2) by (simp add: entry_errors_def m subset_iff)
  qed
  have st: "validate_stage ?names index n (stage_json s) = ([], Some s)" if "(n, s) \<in> set (pb_stages pb)" for n s
    using that wf assms(2) by (intro validate_stage_accepts) (auto simp: writable_def)
  then have sl: "stages_loop ?names index rs [] = ([], pb_stages pb)"
    using wf stages_loop_accepts [of "[]" "pb_stages pb" ?names index] by (auto simp: jmap_ok_def rs_def)
  have se: "spawn_errors (pb_entryStages pb) (pb_stages pb) = []"
    using wf by (auto simp: spawn_errors_def jmap_ok_def split: option.splits dest!: sp(1))
  have ts: "validate_transitions ?names index (map_of kvs ''transitions'') = edges_from (pb_transitions pb)"
  proof -
    have "foldl (transition_step ?names index) (edges_from []) (map transition_json (pb_transitions pb))
        = edges_from (pb_transitions pb)"
    proof (rule transitions_accepted)
      show "distinct (es_edges (edges_from (pb_transitions pb)))" "distinct (es_drivers (edges_from (pb_transitions pb)))"
        using assms(2) by (simp_all add: writable_def edges_from_def)
    qed (use wf assms(2) in \<open>auto simp: writable_def edges_ok_def list_all_iff jhas_iff\<close>)
    then show ?thesis by (simp add: validate_transitions_def m edges_from_def Let_def)
  qed
  have re: "reach_errors ?names (pb_entryStages pb) (pb_stages pb) (pb_transitions pb) = []"
    using wf by (auto simp: reach_errors_def list_ex_iff)
  have ni: "js_index (pb_stages pb) s \<noteq> Inherited" if "s \<in> set ?names" for s
    using that by (auto simp: js_index_def map_of_eq_None_iff split: option.splits)
  have "\<not> list_ex (\<lambda>s. js_index (pb_stages pb) s = Inherited) (pb_entryStages pb)"
    "\<not> list_ex (\<lambda>s. s \<notin> set (pb_entryStages pb) \<and> js_index (pb_stages pb) s = Inherited) ?names"
    using ni sp(2) unfolding list_ex_iff by blast+
  moreover have "es_out (edges_from ts) = ts" "es_errs (edges_from ts) = []" for ts
    by (simp_all add: edges_from_def)
  ultimately show ?thesis
    using assms(3,4) ne
    by (simp add: validatePlaybook_def kvs Let_def m(2,3,5) keys h en sl se ts re)
qed

subsection \<open>Locating errors\<close>

text \<open>A message the locator reads as a stage's: \<open>stage '<name>'\<close> followed by a colon or a blank.\<close>

definition scoped :: "string \<Rightarrow> string \<Rightarrow> bool" where
  "scoped name e \<longleftrightarrow> (\<exists>c r. e = stage_msg name (c # r) \<and> (c = CHR '':'' \<or> c = CHR '' ''))"

lemma scoped_msg [simp]: "scoped name (stage_msg name (CHR '':'' # r))" "scoped name (stage_msg name (CHR '' '' # r))"
  by (auto simp: scoped_def)

lemma position_loop_scoped: "position_loop name names out ms = Inl e \<Longrightarrow> scoped name e"
  by (induction ms arbitrary: out) (auto split: option.splits if_splits)

lemma validatePosition_scoped: "validatePosition name raw a names = Inl e \<Longrightarrow> scoped name e"
  by (auto simp: validatePosition_def dest: position_loop_scoped simp del: position_loop.simps
      split: option.splits json.splits list.splits sum.splits if_splits)

lemma validate_need_scoped: "e \<in> set (fst (validate_need name names n)) \<Longrightarrow> scoped name e"
  by (auto simp: validate_need_def Let_def unknown_keys_def dest: validatePosition_scoped
      split: json.splits option.splits if_splits sum.splits) (auto simp: scoped_def stage_msg_def)

lemma pin_loop_scoped: "e \<in> set (fst (pin_loop name tool props rest out)) \<Longrightarrow> scoped name e"
  by (induction rest arbitrary: out) (auto simp: case_prod_beta Let_def split: if_splits)

lemma validateToolPolicy_scoped: "e \<in> set (fst (validateToolPolicy name tool pol index)) \<Longrightarrow> scoped name e"
  by (auto simp: validateToolPolicy_def Let_def case_prod_beta dest: pin_loop_scoped split: if_splits)

lemma tools_loop_scoped: "e \<in> set (fst (tools_loop name index rest out)) \<Longrightarrow> scoped name e"
  by (induction rest arbitrary: out) (auto simp: case_prod_beta dest: validateToolPolicy_scoped split: option.splits)

lemma validate_stage_scoped:
  assumes "e \<in> set (fst (validate_stage names index name raw))"
  shows "scoped name e"
proof (cases raw)
  case (JObj kvs)
  have parts: "scoped name x" if "x \<in> set (fst (validate_needs name names v))" for x v
    using that by (auto simp: validate_needs_def dest: validate_need_scoped split: option.splits json.splits)
  have wk: "scoped name x" if "x \<in> set (fst (validate_workers name v))" for x v
    using that by (auto simp: validate_workers_def split: option.splits if_splits)
  have tl: "scoped name x" if "x \<in> set (fst (validate_tools name index v))" for x v
    using that by (auto simp: validate_tools_def dest: tools_loop_scoped split: option.splits json.splits)
  have ds: "scoped name x" if "x \<in> set (fst (readDescription v (''stage '' @ q name)))" for x v
    using that by (auto simp: readDescription_def scoped_def stage_msg_def split: option.splits if_splits)
  have uk: "scoped name x" if "x \<in> set (unknown_keys STAGE_KEYS (\<lambda>k. stage_msg name ('': unknown key '' @ q k)) kvs)" for x
    using that by (auto simp: unknown_keys_def scoped_def stage_msg_def)
  show ?thesis
    using assms parts wk tl ds uk by (auto simp: validate_stage_def JObj Let_def case_prod_beta)
qed (use assms in \<open>auto simp: validate_stage_def\<close>)

lemma quoted_prefix:
  "CHR 0x27 \<notin> set a \<Longrightarrow> CHR 0x27 \<notin> set b \<Longrightarrow> a @ CHR 0x27 # r = b @ CHR 0x27 # s \<Longrightarrow> a = b"
proof (induction a arbitrary: b)
  case Nil
  then show ?case by (cases b) auto
next
  case (Cons x a)
  then show ?case by (cases b) auto
qed

lemma foreign_head:
  assumes "scoped name e" "CHR 0x27 \<notin> set name" "CHR 0x27 \<notin> set n"
    and "starts_with e (''stage '' @ q n @ t)"
  shows "n = name"
  using assms quoted_prefix [of n name] by (auto simp: scoped_def starts_with_iff stage_msg_def q_def)

lemma longer_hits_only:
  assumes "\<forall>n \<in> set ns. n \<noteq> name \<longrightarrow> (\<forall>best. longer_hit e best n = best)"
    and "longer_hit e None name = Some name" "longer_hit e (Some name) name = Some name"
  shows "foldl (longer_hit e) (Some name) ns = Some name \<and>
    foldl (longer_hit e) None ns = (if name \<in> set ns then Some name else None)"
  using assms(1)
proof (induction ns)
  case (Cons n ns)
  then have ih: "foldl (longer_hit e) (Some name) ns = Some name"
    "foldl (longer_hit e) None ns = (if name \<in> set ns then Some name else None)" by auto
  show ?case
  proof (cases "n = name")
    case True
    with ih assms(2,3) show ?thesis by simp
  next
    case False
    with Cons.prems have "longer_hit e best n = best" for best by simp
    with ih False show ?thesis by simp
  qed
qed simp

text \<open>
   The locator is right whenever no stage name holds a quote: every message the validator
  pushes while checking a stage locates to that stage.
\<close>

theorem locator_finds_the_stage:
  assumes "e \<in> set (fst (validate_stage names index name raw))"
    and "name \<in> set (jkeys (asRecord (map_of (asRecord (Some draft)) ''stages'')))"
    and "\<forall>n \<in> set (jkeys (asRecord (map_of (asRecord (Some draft)) ''stages''))). CHR 0x27 \<notin> set n"
  shows "locateValidationError e draft = \<lparr>loc_stage = Some name, loc_edge = None\<rparr>"
proof -
  let ?ns = "jkeys (asRecord (map_of (asRecord (Some draft)) ''stages''))"
  have sc: "scoped name e" by (rule validate_stage_scoped [OF assms(1)])
  have "\<forall>n \<in> set ?ns. n \<noteq> name \<longrightarrow> (\<forall>best. longer_hit e best n = best)"
    using foreign_head [OF sc] assms(2,3) by (auto simp: longer_hit_def Let_def)
  moreover have "starts_with e (''stage '' @ q name @ '':'') \<or> starts_with e (''stage '' @ q name @ '' '')"
    using sc by (auto simp: scoped_def starts_with_iff stage_msg_def)
  then have "longer_hit e None name = Some name" "longer_hit e (Some name) name = Some name"
    by (auto simp: longer_hit_def Let_def)
  ultimately have "foldl (longer_hit e) None ?ns = (if name \<in> set ?ns then Some name else None)"
    by (intro longer_hits_only [THEN conjunct2])
  with assms(2) have "foldl (longer_hit e) None ?ns = Some name" by (simp only: if_True)
  then show ?thesis by (simp add: locateValidationError_def Let_def)
qed

definition quoting_name :: string where
  "quoting_name = ''a'' @ [CHR 0x27] @ '': unknown key '' @ [CHR 0x27] @ ''k''"

definition quoting_draft :: json where
  "quoting_draft = JObj [(''stages'', JObj [(''a'', JObj [(''k'', JNum ''1'')]), (quoting_name, JObj [])])]"

text \<open>
   With a quote in a stage name the longest-match rule picks the wrong stage: the message
  about an unknown key of stage \<open>a\<close> locates to another stage whose name continues it.
\<close>

theorem locator_misattributes_quoted_names:
  "\<exists>e \<in> set (fst (validate_stage [''a'', quoting_name] [] ''a'' (JObj [(''k'', JNum ''1'')]))).
     loc_stage (locateValidationError e quoting_draft) = Some quoting_name \<and> quoting_name \<noteq> ''a''"
  by code_simp

subsection \<open>Loading\<close>

lemma stages_loop_drops:
  assumes "stages_loop names index rest out = (es, r)" "\<not> isRecord v" "\<forall>w. (n, w) \<in> set rest \<longrightarrow> w = v" "\<not> jhas out n"
  shows "\<not> jhas r n"
  using assms
proof (induction rest arbitrary: out es)
  case (Cons x rest)
  obtain k raw where x: "x = (k, raw)" by fastforce
  obtain e1 st where vs: "validate_stage names index k raw = (e1, st)" by fastforce
  have st: "k = n \<Longrightarrow> st = None"
    using vs Cons.prems(2,3) by (cases raw) (auto simp: x validate_stage_def)
  from Cons.prems(1) obtain e2 where
    "stages_loop names index rest (case st of None \<Rightarrow> out | Some s \<Rightarrow> jput k s out) = (e2, r)"
    by (auto simp: x vs split: prod.splits)
  then show ?case
    by (rule Cons.IH) (use Cons.prems st in \<open>auto split: option.splits\<close>)
qed simp

lemma prototype_stage_throws:
  assumes "map_of kvs ''stages'' = Some (JObj rs)" "map_of rs n = Some v" "jmap_ok rs" "\<not> isRecord v"
    and "n \<in> set object_prototype_names"
  shows "validatePlaybook (JObj kvs) i index src = Validator_throws"
proof -
  obtain e1 entry where en: "entry_errors (jkeys rs) (map_of kvs ''entryStages'') = (e1, entry)" by fastforce
  obtain e2 stages where sl: "stages_loop (jkeys rs) index rs [] = (e2, stages)" by fastforce
  have "\<not> jhas stages n"
  proof (rule stages_loop_drops [OF sl assms(4)])
    show "\<forall>w. (n, w) \<in> set rs \<longrightarrow> w = v"
      using assms(2,3) by (auto simp: jmap_ok_def dest: eq_key_imp_eq_value)
  qed simp
  then have "js_index stages n = Inherited" using assms(5) by (simp add: js_index_def jhas_def)
  moreover have "n \<in> set (jkeys rs)" using assms(2) by (force dest: map_of_SomeD)
  ultimately have "list_ex (\<lambda>s. js_index stages s = Inherited) entry
      \<or> list_ex (\<lambda>s. s \<notin> set entry \<and> js_index stages s = Inherited) (jkeys rs)"
    unfolding list_ex_iff by blast
  moreover have "rs \<noteq> []" using assms(2) by auto
  ultimately show ?thesis
    by (simp add: validatePlaybook_def Let_def assms(1) en sl)
qed

lemma load_catalog_None [simp]: "load_catalog parse index es None = None"
  by (induction es) (simp_all add: load_catalog_def)

lemma load_plugins_None [simp]: "load_plugins parse index rs None = None"
  by (induction rs) (simp_all add: load_plugins_def)

lemma load_catalog_append:
  "load_catalog parse index (xs @ ys) r = load_catalog parse index ys (load_catalog parse index xs r)"
  by (simp add: load_catalog_def)

text \<open>
   One malformed overlay file can take the whole catalog down: a definition with a stage
  named after an \<open>Object.prototype\<close> member whose value is not an object makes the validator
  throw, and then \<open>loadPlaybooks\<close> as a whole, whatever else it would load.
\<close>

theorem prototype_stage_takes_the_catalog_down:
  assumes "entry \<in> set entries" "cb_body entry = Some body" "parse body = Inr (JObj kvs)"
    and "map_of kvs ''stages'' = Some (JObj rs)" "map_of rs n = Some v" "jmap_ok rs" "\<not> isRecord v"
    and "n \<in> set object_prototype_names"
  shows "loadPlaybooks parse index entries plugins = None"
proof -
  obtain xs ys where es: "entries = xs @ entry # ys" using assms(1) by (meson split_list)
  have one: "load_catalog parse index [entry] r = None" for r
    using assms(2,3) prototype_stage_throws [OF assms(4-8)]
    by (cases r) (simp_all add: load_catalog_def load_one_def)
  have "load_catalog parse index entries r = None" for r
    using load_catalog_append [of parse index xs "[entry] @ ys" r] load_catalog_append [of parse index "[entry]" ys]
    by (simp add: es one)
  then show ?thesis by (simp add: loadPlaybooks_def Let_def split: sum.split)
qed

subsection \<open>Loaded playbooks never make the policy throw\<close>

definition loaded_ok :: "tool_index \<Rightarrow> load_result \<Rightarrow> bool" where
  "loaded_ok index r \<longleftrightarrow> (\<forall>(i, pb) \<in> set (lr_playbooks r). pb_id pb = i
     \<and> (\<exists>slug. wf_playbook index (pb\<lparr>pb_id := slug\<rparr>)))"

lemma wf_playbook_stamp:
  assumes "wf_playbook index pb"
  shows "\<exists>slug. wf_playbook index (pb\<lparr>pb_id := i, pb_builtin := b, pb_plugin := p, pb_id := slug\<rparr>)"
proof -
  have "wf_playbook index (pb\<lparr>pb_id := i, pb_builtin := b, pb_plugin := p, pb_id := pb_id pb\<rparr>) = wf_playbook index pb"
    by (simp add: wf_playbook_def edges_ok_def drivers_once_def)
  with assms show ?thesis by blast
qed

lemma load_one_ok:
  assumes "load_one parse i body (\<lambda>j. validatePlaybook j slug index src) b p r = Some r'" "loaded_ok index r"
    and "\<not> jhas index []"
  shows "loaded_ok index r'"
proof -
  have "\<exists>s. wf_playbook index (pb\<lparr>pb_id := i, pb_builtin := b, pb_plugin := p, pb_id := s\<rparr>)"
    if "validatePlaybook j slug index src = Valid pb" for j pb
    using validate_wf [OF that assms(3)] wf_playbook_stamp by blast
  then show ?thesis
    using assms(1,2)
    by (auto simp: load_one_def loaded_ok_def dest!: set_jput_cases
        split: sum.splits validate_result.splits)
qed

lemma load_fold_ok:
  assumes "foldl (\<lambda>r e. Option.bind r (step e)) r0 xs = Some r" "\<And>e x y. step e x = Some y \<Longrightarrow> P x \<Longrightarrow> P y"
    and "\<And>x. r0 = Some x \<Longrightarrow> P x"
  shows "P r"
  using assms(1,3)
proof (induction xs arbitrary: r0)
  case (Cons e xs)
  show ?case
  proof (rule Cons.IH)
    show "foldl (\<lambda>r e. Option.bind r (step e)) (Option.bind r0 (step e)) xs = Some r"
      using Cons.prems(1) by simp
    show "P x" if "Option.bind r0 (step e) = Some x" for x
      using that Cons.prems(2) assms(2) by (cases r0) auto
  qed
qed simp

lemma loadPlaybooks_wf:
  assumes "loadPlaybooks parse index entries plugins = Some r" "\<not> jhas index []"
  shows "loaded_ok index r"
proof -
  have cat: "loaded_ok index x"
    if "load_catalog parse index entries (Some \<lparr>lr_playbooks = [], lr_errors = []\<rparr>) = Some x" for x
    using that unfolding load_catalog_def
    by (rule load_fold_ok) (auto simp: loaded_ok_def dest: load_one_ok [OF _ _ assms(2), unfolded loaded_ok_def])
  show ?thesis
  proof (cases plugins)
    case (Inl e)
    with assms(1) cat show ?thesis by (auto simp: loadPlaybooks_def Let_def loaded_ok_def)
  next
    case (Inr records)
    then have "foldl (\<lambda>r e. Option.bind r (load_one parse (pp_id e) (pp_body e)
        (\<lambda>j. validatePlaybook j (pp_slug e) index ''its manifest slug'') False (Some (pp_plugin e))))
        (load_catalog parse index entries (Some \<lparr>lr_playbooks = [], lr_errors = []\<rparr>)) records = Some r"
      using assms(1) by (simp add: loadPlaybooks_def Let_def load_plugins_def)
    then show ?thesis by (rule load_fold_ok) (auto dest: load_one_ok [OF _ _ assms(2)] cat)
  qed
qed

lemma resolveMove_targets:
  assumes "edges_ok pb" "jhas (pb_stages pb) cur" "rm_illegal (resolveMove tool a pb cur) = None"
  obtains n where "rm_resulting (resolveMove tool a pb cur) = Some n" "jhas (pb_stages pb) n"
proof (cases "rm_kind (resolveMove tool a pb cur) = KTransition")
  case True
  from resolveMove_transition [OF this] assms(1) that show thesis
    by (auto simp: edges_ok_def list_all_iff move_to_def)
next
  case False
  then have "rm_resulting (resolveMove tool a pb cur) = Some cur"
    using assms(3)
    by (auto simp: resolveMove_def resolve_prompt_def resolve_auto_def illegal_move_def move_to_def stay_def
        split: option.splits if_splits)
  with assms(2) that show thesis by blast
qed

lemma enter_stage_total: "enter_stage tool a pb sid cur m name st p isLive \<noteq> Throws"
  using applyPin_outcomes [of st name pb tool a "move_of m cur name" "[]"]
    checkNeeds_refuses [of pb st name "supplied_provenance a" p "Some sid" isLive]
  by (auto simp: enter_stage_def Let_def split: option.splits)

text \<open>
   On loaded playbooks the decision on a worker always returns: as long as no tracked
  worker's recorded stage is a name only \<open>Object.prototype\<close> has, a call other than a spawn is
  permitted or refused, never a thrown error.
\<close>

theorem decide_total_on_loaded:
  assumes "loadPlaybooks parse index entries plugins = Some r" "\<not> jhas index []"
    and "\<forall>s w. map_of (bySession p) s = Some w \<longrightarrow> ws_stage w \<notin> set object_prototype_names"
    and "normalizeToolName tool \<noteq> ''spawn_instance''"
  shows "decide tool a p (lr_playbooks r) isLive handle \<noteq> Throws"
proof
  let ?pbs = "lr_playbooks r" and ?tool = "normalizeToolName tool"
  assume "decide tool a p ?pbs isLive handle = Throws"
  then have d: "decideTargeted ?tool a p ?pbs isLive = Throws"
    using decide_targeted [OF assms(4), of a p ?pbs isLive handle] by metis
  have ok: "edges_ok pb" if "map_of ?pbs i = Some pb" for i pb
    using loadPlaybooks_wf [OF assms(1,2)] map_of_SomeD [OF that]
    by (auto simp: loaded_ok_def wf_playbook_def edges_ok_def)
  have fw: "checkForwardSource a p ?pbs sub \<noteq> Forward_throws" for sub
    using assms(3)
    by (auto simp: checkForwardSource_def Let_def js_index_def split: option.splits if_splits js_ref.splits)
  have fr: "checkForwardSource a p ?pbs sub \<noteq> Forward_refused Throws" for sub
    using checkForwardSource_refused [of a p ?pbs sub Throws] by auto
  show False
  proof (cases "subject_of a p")
    case None
    with d fw fr show False by (auto simp: decideTargeted_untracked split: forward_check.splits)
  next
    case (Some sw)
    obtain sid w where sw: "sw = (sid, w)" by fastforce
    note s = decideTargeted_subject [OF Some [unfolded sw]]
    have stage: "ws_stage w \<notin> set object_prototype_names"
      using Some assms(3) by (auto simp: sw subject_of_Some)
    show False
    proof (cases "map_of ?pbs (ws_playbook w)")
      case None
      with d fw [of "Some w"] show False
        unfolding decideTargeted_def Let_def s by (auto split: forward_check.splits)
    next
      case (Some pb)
      have total: "rm_illegal (resolveMove ?tool a pb (ws_stage w)) = None \<Longrightarrow>
          \<exists>n st. rm_resulting (resolveMove ?tool a pb (ws_stage w)) = Some n \<and> map_of (pb_stages pb) n = Some st"
        if "map_of (pb_stages pb) (ws_stage w) = Some cur" for cur
        using resolveMove_targets [OF ok [OF Some]] that by (metis jhas_Some jhas_obtain)
      show False
        using d fw [of "Some w"] fr [of "Some w"] Some stage total enter_stage_total
        unfolding decideTargeted_def Let_def s
        by (auto simp: js_index_def split: forward_check.splits option.splits if_splits)
    qed
  qed
qed

subsection \<open>Concrete definitions\<close>

definition demo_index :: tool_index where
  "demo_index = [(''spawn_instance'', [''stage'', ''mode'']), (''send_prompt'', [''sessionId'', ''text'']),
     (''set_mode'', [''sessionId'', ''mode'']), (''clear'', [''sessionId'']),
     (''get_recent_messages'', [''sessionId''])]"

definition user_pb :: playbook where
  "user_pb = demo_pb\<lparr>pb_builtin := False\<rparr>"

lemma user_pb_valid: "validatePlaybook (playbook_json user_pb) ''demo'' demo_index ''its filename id'' = Valid user_pb"
  by code_simp

lemma demo_index_named: "\<not> jhas demo_index []"
  by code_simp

lemma validatePlaybook_sound_witness: "wf_playbook demo_index user_pb \<and> pb_id user_pb = ''demo''"
  using validatePlaybook_sound [OF user_pb_valid demo_index_named] .

lemma validatePlaybook_roundtrip_witness:
  "validatePlaybook (playbook_json user_pb) ''demo'' demo_index ''its manifest slug'' = Valid user_pb"
proof -
  have wf: "wf_playbook demo_index user_pb" using validate_wf [OF user_pb_valid demo_index_named] by blast
  have w: "writable user_pb"
    by (simp add: writable_def user_pb_def demo_pb_def js_blank_def js_space_def edge_text_def driver_text_def)
  have "validatePlaybook (playbook_json user_pb) (pb_id user_pb) demo_index ''its manifest slug'' = Valid user_pb"
    by (rule validatePlaybook_roundtrip [OF wf w]) (simp_all add: user_pb_def demo_pb_def)
  then show ?thesis by (simp add: user_pb_def demo_pb_def)
qed

definition two_stage_draft :: json where
  "two_stage_draft = JObj [(''stages'', JObj [(''plan'', JNum ''1''), (''plan-b'', JObj [])])]"

lemma locator_finds_the_stage_witness:
  "locateValidationError (stage_msg ''plan'' '' must be an object'') two_stage_draft
     = \<lparr>loc_stage = Some ''plan'', loc_edge = None\<rparr>"
proof (rule locator_finds_the_stage)
  show "stage_msg ''plan'' '' must be an object'' \<in> set (fst (validate_stage [''plan''] [] ''plan'' (JNum ''1'')))"
    by (simp add: validate_stage_def)
  show "''plan'' \<in> set (jkeys (asRecord (map_of (asRecord (Some two_stage_draft)) ''stages'')))" by code_simp
  show "\<forall>n \<in> set (jkeys (asRecord (map_of (asRecord (Some two_stage_draft)) ''stages''))). CHR 0x27 \<notin> set n"
    by code_simp
qed

lemma prototype_stage_takes_the_catalog_down_witness:
  "loadPlaybooks (\<lambda>_. Inr (JObj [(''stages'', JObj [(''constructor'', JNum ''5'')])])) demo_index
     [\<lparr>cb_slug = ''mine'', cb_body = Some ''x'', cb_builtin = False\<rparr>] (Inr []) = None"
  by (rule prototype_stage_takes_the_catalog_down
      [where rs = "[(''constructor'', JNum ''5'')]" and n = "''constructor''" and v = "JNum ''5''"
        and entry = "\<lparr>cb_slug = ''mine'', cb_body = Some ''x'', cb_builtin = False\<rparr>"
        and body = "''x''" and kvs = "[(''stages'', JObj [(''constructor'', JNum ''5'')])]"])
     (simp_all add: jmap_ok_def object_prototype_names_def)

lemma decide_total_on_loaded_witness:
  "\<exists>r. loadPlaybooks (\<lambda>_. Inr (playbook_json user_pb)) demo_index
       [\<lparr>cb_slug = ''demo'', cb_body = Some ''x'', cb_builtin = False\<rparr>] (Inr []) = Some r
     \<and> decide ''clear'' [] emptyProjection (lr_playbooks r) (\<lambda>_. True) None \<noteq> Throws"
proof -
  let ?entries = "[\<lparr>cb_slug = ''demo'', cb_body = Some ''x'', cb_builtin = False\<rparr>]"
  have "loadPlaybooks (\<lambda>_. Inr (playbook_json user_pb)) demo_index ?entries (Inr [])
      = Some \<lparr>lr_playbooks = [(''demo'', user_pb)], lr_errors = []\<rparr>" by code_simp
  then obtain r where r: "loadPlaybooks (\<lambda>_. Inr (playbook_json user_pb)) demo_index ?entries (Inr []) = Some r"
    by blast
  have "decide ''clear'' [] emptyProjection (lr_playbooks r) (\<lambda>_. True) None \<noteq> Throws"
  proof (rule decide_total_on_loaded [OF r demo_index_named])
    show "normalizeToolName ''clear'' \<noteq> ''spawn_instance''" by code_simp
  qed (simp add: emptyProjection_def)
  with r show ?thesis by blast
qed

end
