(* ===== verification/WakeStub.thy ===== *)
theory WakeStub
  imports Prelude
begin

text \<open>
  The text of a wake: \<open>shared/wakeCallback.ts\<close> (the in-band marker, the folded stub and its
  parser), \<open>src/promptAuthor.ts\<close> (authorship markers and the quoting of the human's prompts),
  \<open>src/backgroundJobs.ts\<close> (the tracked jobs and their note) and \<open>src/duration.ts\<close>.
  These texts hold arbitrary Unicode, so a \<open>utf16\<close> text is the list of a string's UTF-16 code units.
\<close>

subsection \<open>Texts\<close>

type_synonym utf16 = "nat list"

definition units :: "string \<Rightarrow> utf16" where
  "units s = map of_char s"

abbreviation NL :: nat where "NL \<equiv> 10"

definition DASH :: utf16 where "DASH = [8212]"
definition ELLIPSIS :: utf16 where "ELLIPSIS = [8230]"

fun text_starts :: "utf16 \<Rightarrow> utf16 \<Rightarrow> bool" where
  "text_starts s [] = True"
| "text_starts [] (p # ps) = False"
| "text_starts (c # cs) (p # ps) = (c = p \<and> text_starts cs ps)"

text \<open>\<open>indexOf\<close>.\<close>

fun text_index :: "utf16 \<Rightarrow> utf16 \<Rightarrow> nat option" where
  "text_index p [] = (if p = [] then Some 0 else None)"
| "text_index p (c # cs) = (if text_starts (c # cs) p then Some 0 else map_option Suc (text_index p cs))"

text \<open>\<open>split('\n')\<close> and \<open>join\<close>.\<close>

fun text_lines :: "utf16 \<Rightarrow> utf16 list" where
  "text_lines [] = [[]]"
| "text_lines (c # cs) =
     (if c = NL then [] # text_lines cs
      else (case text_lines cs of [] \<Rightarrow> [[c]] | l # ls \<Rightarrow> (c # l) # ls))"

fun text_join :: "utf16 \<Rightarrow> utf16 list \<Rightarrow> utf16" where
  "text_join sep [] = []"
| "text_join sep [x] = x"
| "text_join sep (x # y # xs) = x @ sep @ text_join sep (y # xs)"

text \<open>The class \<open>\s\<close>, which is also what \<open>trim\<close> removes.\<close>

definition is_space :: "nat \<Rightarrow> bool" where
  "is_space c \<longleftrightarrow> 9 \<le> c \<and> c \<le> 13 \<or> c = 32 \<or> c = 160 \<or> c = 5760 \<or> 8192 \<le> c \<and> c \<le> 8202
     \<or> c = 8232 \<or> c = 8233 \<or> c = 8239 \<or> c = 8287 \<or> c = 12288 \<or> c = 65279"

definition text_trim :: "utf16 \<Rightarrow> utf16" where
  "text_trim s = rev (dropWhile is_space (rev (dropWhile is_space s)))"

text \<open>\<open>replace(/\s+/g, ' ')\<close>: every maximal run of white space becomes one blank.\<close>

fun squeeze :: "bool \<Rightarrow> utf16 \<Rightarrow> utf16" where
  "squeeze in_run [] = []"
| "squeeze in_run (c # cs) =
     (if is_space c then (if in_run then squeeze True cs else 32 # squeeze True cs)
      else c # squeeze False cs)"

text \<open>\<open>Array.from\<close>: a surrogate pair is one code point.\<close>

fun code_points :: "utf16 \<Rightarrow> utf16 list" where
  "code_points [] = []"
| "code_points [c] = [[c]]"
| "code_points (c # d # cs) =
     (if 55296 \<le> c \<and> c \<le> 56319 \<and> 56320 \<le> d \<and> d \<le> 57343 then [c, d] # code_points cs
      else [c] # code_points (d # cs))"

text \<open>A natural number in a template literal.\<close>

function decimal :: "nat \<Rightarrow> utf16" where
  "decimal n = (if n < 10 then [48 + n] else decimal (n div 10) @ [48 + n mod 10])"
  by pat_completeness auto
termination by (relation "measure id") auto

declare decimal.simps [simp del]

subsection \<open>Durations\<close>

definition humanizeDuration :: "int \<Rightarrow> utf16" where
  "humanizeDuration ms =
     (if ms \<le> 0 then units ''0s''
      else let total = nat (ms div 1000) in
        if total = 0 then units ''<1s''
        else let h = total div 3600; m = (total mod 3600) div 60; s = total mod 60 in
          (if h \<noteq> 0 then decimal h @ units ''h'' else [])
          @ (if m \<noteq> 0 then decimal m @ units ''m'' else [])
          @ (if s \<noteq> 0 then decimal s @ units ''s'' else []))"

subsection \<open>Authorship markers\<close>

datatype prompt_author = By_human | By_conductor

fun AUTHOR_MARKER :: "prompt_author \<Rightarrow> utf16" where
  "AUTHOR_MARKER By_human = units ''[[cc:author:human]]''"
| "AUTHOR_MARKER By_conductor = units ''[[cc:author:conductor]]''"

definition parseAuthorMarker :: "utf16 option \<Rightarrow> prompt_author option" where
  "parseAuthorMarker v = (case v of None \<Rightarrow> None
     | Some s \<Rightarrow> (let t = text_trim s in
         if t = AUTHOR_MARKER By_human then Some By_human
         else if t = AUTHOR_MARKER By_conductor then Some By_conductor else None))"

definition combineAuthors :: "prompt_author option list \<Rightarrow> prompt_author option" where
  "combineAuthors as = (if Some By_human \<in> set as then Some By_human
     else if Some By_conductor \<in> set as then Some By_conductor else None)"

text \<open>
  \<open>stripAuthorMarker\<close>: the pattern is white space, a marker, white space, end.  \<open>strip_at\<close> tries
  it at one position; the regular expression engine takes the leftmost that matches.
\<close>

definition strip_at :: "utf16 \<Rightarrow> bool" where
  "strip_at s \<longleftrightarrow> (let t = dropWhile is_space s in
     \<exists>a \<in> set [By_human, By_conductor]. text_starts t (AUTHOR_MARKER a)
       \<and> list_all is_space (drop (length (AUTHOR_MARKER a)) t))"

fun stripAuthorMarker :: "utf16 \<Rightarrow> utf16" where
  "stripAuthorMarker [] = []"
| "stripAuthorMarker (c # cs) = (if strip_at (c # cs) then [] else c # stripAuthorMarker cs)"

subsection \<open>Quoting the human's prompts\<close>

definition HUMAN_PROMPT_QUOTE_MAX_CHARS :: nat where "HUMAN_PROMPT_QUOTE_MAX_CHARS = 500"
definition HUMAN_PROMPT_QUOTE_MAX_COUNT :: nat where "HUMAN_PROMPT_QUOTE_MAX_COUNT = 3"

definition HUMAN_NOTICE :: utf16 where
  "HUMAN_NOTICE = units ''The user prompted this worker directly since your last wake '' @ DASH
     @ units '' not your brief. ''
     @ units ''Treat their words as the user's instruction to it; don't re-steer over them without checking ''
     @ units ''with the user. Their message(s), oldest first:''"

definition cutPrompt :: "utf16 \<Rightarrow> utf16" where
  "cutPrompt t = (let cps = code_points t in
     if length cps \<le> HUMAN_PROMPT_QUOTE_MAX_CHARS then t
     else concat (take HUMAN_PROMPT_QUOTE_MAX_CHARS cps) @ ELLIPSIS @ units '' [+''
       @ decimal (length cps - HUMAN_PROMPT_QUOTE_MAX_CHARS) @ units '' chars '' @ DASH
       @ units '' get_transcript has it in full]'')"

text \<open>\<open>slice(-n)\<close>, the last \<open>n\<close> entries.\<close>

definition last_n :: "nat \<Rightarrow> 'a list \<Rightarrow> 'a list" where
  "last_n n xs = drop (length xs - n) xs"

definition selectPrompts :: "utf16 list \<Rightarrow> nat \<times> utf16 list" where
  "selectPrompts texts = (length texts - HUMAN_PROMPT_QUOTE_MAX_COUNT,
     map cutPrompt (last_n HUMAN_PROMPT_QUOTE_MAX_COUNT texts))"

definition omissionLine :: "nat \<Rightarrow> utf16" where
  "omissionLine n = units ''('' @ decimal n @ units '' earlier user message(s) not shown '' @ DASH
     @ units '' get_transcript has them)''"

definition quoteHumanPrompts :: "utf16 list \<Rightarrow> utf16 list" where
  "quoteHumanPrompts texts = (let (omitted, kept) = selectPrompts texts in
     if omitted \<noteq> 0 then omissionLine omitted # kept else kept)"

definition quote_lines :: "utf16 \<Rightarrow> utf16" where
  "quote_lines t = text_join [NL] (map (\<lambda>l. units ''> '' @ l) (text_lines t))"

definition humanPromptsNote :: "utf16 list \<Rightarrow> utf16" where
  "humanPromptsNote texts = (let (omitted, kept) = selectPrompts texts;
       quoted = text_join ([NL] @ units ''>'' @ [NL]) (map quote_lines kept)
     in text_join [NL] ([HUMAN_NOTICE] @ (if omitted \<noteq> 0 then [omissionLine omitted] else []) @ [quoted]))"

subsection \<open>Background jobs\<close>

record background_job =
  bj_title :: utf16
  bj_startedAt :: int

definition JOB_TITLE_MAX :: nat where "JOB_TITLE_MAX = 100"

definition dash :: "utf16 option \<Rightarrow> utf16" where
  "dash v = (case v of None \<Rightarrow> DASH | Some s \<Rightarrow> if s = [] then DASH else s)"

definition trunc :: "utf16 option \<Rightarrow> nat \<Rightarrow> utf16" where
  "trunc s n = (let str = text_trim (squeeze False (dash s)) in
     if length str \<le> n then str else take (n - 1) str @ ELLIPSIS)"

text \<open>An entry of a \<open>background_tasks_changed\<close> frame; \<open>None\<close> for a member that is no string.\<close>

record task_entry =
  te_id :: "string option"
  te_type :: string
  te_description :: "utf16 option"

definition track_task ::
  "(string, background_job) jmap \<Rightarrow> int \<Rightarrow> task_entry \<Rightarrow> (string, background_job) jmap \<Rightarrow> (string, background_job) jmap" where
  "track_task prev now t next = (case te_id t of
       None \<Rightarrow> next
     | Some tid \<Rightarrow> if te_type t \<noteq> ''local_bash'' then next
         else jput tid (case map_of prev tid of Some j \<Rightarrow> j
           | None \<Rightarrow> \<lparr>bj_title = trunc (te_description t) JOB_TITLE_MAX, bj_startedAt = now\<rparr>) next)"

text \<open>\<open>tasks\<close> is \<open>None\<close> when the frame's member is no array; the result \<open>None\<close> is \<open>null\<close>.\<close>

definition reconcileBackgroundJobs ::
  "(string, background_job) jmap \<Rightarrow> task_entry list option \<Rightarrow> int \<Rightarrow> (string, background_job) jmap option" where
  "reconcileBackgroundJobs prev tasks now = (case tasks of
       None \<Rightarrow> None
     | Some ts \<Rightarrow> (let next = fold (track_task prev now) ts [] in
         if length next = length prev \<and> list_all (jhas prev) (jkeys next) then None else Some next))"

definition jobLine :: "background_job \<Rightarrow> int \<Rightarrow> utf16" where
  "jobLine j now = units dquote @ bj_title j @ units dquote @ units '' '' @ DASH @ units '' running ''
     @ humanizeDuration (now - bj_startedAt j)"

definition backgroundJobsNote :: "string \<Rightarrow> background_job list \<Rightarrow> int \<Rightarrow> utf16 option" where
  "backgroundJobsNote sid jobs now =
     (if jobs = [] then None
      else Some (text_join [NL] ([units ''Background jobs still running:'']
        @ map (\<lambda>j. units ''- '' @ jobLine j now) jobs
        @ [units ''Worker `'' @ units sid
           @ units ''` is re-invoked when each job exits, and you will be woken again after that turn.''])))"

subsection \<open>The stub and its parser\<close>

definition WAKE_CALLBACK_MARKER :: utf16 where
  "WAKE_CALLBACK_MARKER = units ''[[cc:wake-callback]]''"

definition WAKE_BODY_TAG :: utf16 where
  "WAKE_BODY_TAG = units ''[[cc:wake-body]]''"

definition WAKE_BODY_SEP :: utf16 where
  "WAKE_BODY_SEP = [NL] @ WAKE_BODY_TAG @ [NL]"

definition recentCall :: "string \<Rightarrow> utf16" where
  "recentCall sid = units ''`mcp__code-conductor__get_recent_messages({sessionId:'' @ units dquote @ units sid
     @ units dquote @ units ''})`''"

text \<open>\<open>v ? f(v) : ''\<close>: an absent or empty part is left out.\<close>

definition shown :: "(utf16 \<Rightarrow> utf16) \<Rightarrow> utf16 option \<Rightarrow> utf16" where
  "shown f v = (case v of None \<Rightarrow> [] | Some t \<Rightarrow> if t = [] then [] else f t)"

definition folded_summary :: "string \<Rightarrow> utf16 option \<Rightarrow> utf16 option \<Rightarrow> utf16 option \<Rightarrow> utf16" where
  "folded_summary sid note jobsNote humanNote =
     shown (\<lambda>h. h @ [NL]) humanNote @ shown (\<lambda>n. n @ units '' '') note
     @ units ''Worker `'' @ units sid @ units ''` finished its turn. ''
     @ units ''Its recent output is folded in below (equivalent to a default '' @ recentCall sid @ units '' call), ''
     @ units ''so you do NOT need to call get_recent_messages again '' @ DASH @ units '' read it and decide the next step.''
     @ shown (\<lambda>j. [NL] @ j) jobsNote"

definition buildWakeStub :: "string \<Rightarrow> utf16 \<Rightarrow> utf16 option \<Rightarrow> utf16 option \<Rightarrow> utf16 option \<Rightarrow> utf16" where
  "buildWakeStub sid payload note jobsNote humanNote =
     WAKE_CALLBACK_MARKER @ folded_summary sid note jobsNote humanNote @ WAKE_BODY_SEP @ payload"

definition markPlainStub :: "utf16 \<Rightarrow> utf16" where
  "markPlainStub summary = WAKE_CALLBACK_MARKER @ summary"

definition parseWakeCallback :: "utf16 option \<Rightarrow> (utf16 \<times> utf16) option" where
  "parseWakeCallback v = (case v of None \<Rightarrow> None
     | Some t \<Rightarrow> if \<not> text_starts t WAKE_CALLBACK_MARKER then None
         else (let rest = drop (length WAKE_CALLBACK_MARKER) t in
           case text_index WAKE_BODY_SEP rest of
             None \<Rightarrow> Some (rest, [])
           | Some i \<Rightarrow> Some (take i rest, drop (i + length WAKE_BODY_SEP) rest)))"

subsection \<open>The plain stub\<close>

text \<open>\<open>DeliverOpts\<close>, what is threaded from the consuming path to the stub.\<close>

record exit_cause =
  ex_sessionId :: "string option"
  ex_code :: "nat option"
  ex_signal :: "string option"

record deliver_opts =
  do_timedOut :: bool
  do_timeoutMs :: int
  do_note :: "utf16 option"
  do_stale :: bool
  do_interrupted :: bool
  do_exited :: "exit_cause option"
  do_humanPrompts :: "utf16 list"

definition no_opts :: deliver_opts where
  "no_opts = \<lparr>do_timedOut = False, do_timeoutMs = 0, do_note = None, do_stale = False,
     do_interrupted = False, do_exited = None, do_humanPrompts = []\<rparr>"

definition STALE_WAKE_NOTE :: utf16 where
  "STALE_WAKE_NOTE = units ''NOTE: this report was held while you were mid-turn, and the worker has ''
     @ units ''since started another turn '' @ DASH @ units '' it is no longer idle.''"

definition declineNote :: "string \<Rightarrow> utf16" where
  "declineNote sid = units ''Renewal request DECLINED by `'' @ units sid @ units ''` '' @ DASH
     @ units '' it ended its turn without calling '' @ units ''renew_session, so nothing was cleared.''"

definition human_note :: "utf16 list \<Rightarrow> utf16 option" where
  "human_note texts = (if texts = [] then None else Some (humanPromptsNote texts))"

definition plain_event :: "string \<Rightarrow> deliver_opts \<Rightarrow> utf16" where
  "plain_event sid opts = (let who = units ''Worker `'' @ units sid in
     case do_exited opts of
       Some ex \<Rightarrow> who @ units ''` EXITED on its own mid-turn (''
         @ (case ex_signal ex of
              Some sg \<Rightarrow> (if sg \<noteq> [] then units ''signal '' @ units sg
                          else units ''exit code '' @ (case ex_code ex of Some n \<Rightarrow> decimal n | None \<Rightarrow> units ''null''))
            | None \<Rightarrow> units ''exit code '' @ (case ex_code ex of Some n \<Rightarrow> decimal n | None \<Rightarrow> units ''null''))
         @ units '') '' @ DASH @ units '' it is no longer running. ''
         @ units ''`mcp__code-conductor__describe_session({sessionId:'' @ units dquote @ units sid @ units dquote
         @ units ''})` shows the cause.''
     | None \<Rightarrow>
         if do_interrupted opts then
           who @ units ''` was INTERRUPTED '' @ DASH @ units '' its turn was force-aborted, so it did ''
           @ units ''NOT finish and whatever it produced is PARTIAL; work in progress was discarded. ''
           @ units ''Call '' @ recentCall sid
           @ units '' to see how far it got, then re-drive it or escalate '' @ DASH
           @ units '' do not treat this as a result.''
         else if do_timedOut opts then
           who @ units ''` did NOT finish '' @ DASH @ units '' timed out after ''
           @ humanizeDuration (do_timeoutMs opts) @ units ''; ''
           @ units ''it may still be busy or stuck. '' @ units ''Call '' @ recentCall sid
           @ units '' to check its current state, then decide whether to wait, ''
           @ units ''call interrupt_turn, or escalate.''
         else who @ units ''` finished its turn. '' @ units ''Call '' @ recentCall sid
           @ units '' to inspect the result.'')"

definition plain_summary :: "string \<Rightarrow> deliver_opts \<Rightarrow> utf16 option \<Rightarrow> utf16 option \<Rightarrow> utf16 option \<Rightarrow> utf16" where
  "plain_summary sid opts note jobsNote humanNote =
     shown (\<lambda>h. h @ [NL]) humanNote @ shown (\<lambda>n. n @ units '' '') note
     @ (if do_stale opts then STALE_WAKE_NOTE @ units '' '' else [])
     @ plain_event sid opts @ shown (\<lambda>j. [NL] @ j) jobsNote"

definition plainStub :: "string \<Rightarrow> deliver_opts \<Rightarrow> utf16 option \<Rightarrow> utf16 option \<Rightarrow> utf16 option \<Rightarrow> utf16" where
  "plainStub sid opts note jobsNote humanNote = markPlainStub (plain_summary sid opts note jobsNote humanNote)"

end
