(* ===== verification/Worklist.thy ===== *)
theory Worklist
  imports Main
begin

text \<open>
  Breadth-first growth of a set over a finite universe, the loop the ownership walks of the
  program share (\<open>ownedTreeOf\<close>, \<open>jobWaiters\<close>): take the head of the queue, append its unseen
  successors both to the result and to the queue.
\<close>

function grow :: "'a list \<Rightarrow> ('a \<Rightarrow> 'a list) \<Rightarrow> 'a list \<Rightarrow> 'a list \<Rightarrow> 'a list" where
  "grow pool nbrs seen [] = seen"
| "grow pool nbrs seen (q # queue) =
     (let new = filter (\<lambda>x. x \<in> set pool \<and> x \<notin> set seen) (nbrs q)
      in grow pool nbrs (seen @ new) (queue @ new))"
  by pat_completeness auto
termination
proof (relation "(\<lambda>(pool, nbrs, seen, queue). card (set pool - set seen)) <*mlex*>
    measure (\<lambda>(pool, nbrs, seen, queue). length queue)")
  show "wf ((\<lambda>(pool, nbrs, seen, queue). card (set pool - set seen)) <*mlex*>
      measure (\<lambda>(pool, nbrs, seen, queue). length queue))" by (rule wf_mlex) simp
next
  fix pool :: "'a list" and nbrs :: "'a \<Rightarrow> 'a list" and seen q queue new
  assume new: "new = filter (\<lambda>x. x \<in> set pool \<and> x \<notin> set seen) (nbrs q)"
  show "((pool, nbrs, seen @ new, queue @ new), (pool, nbrs, seen, q # queue))
      \<in> (\<lambda>(pool, nbrs, seen, queue). card (set pool - set seen)) <*mlex*>
        measure (\<lambda>(pool, nbrs, seen, queue). length queue)"
  proof (cases "new = []")
    case True
    then show ?thesis by (simp add: mlex_iff)
  next
    case False
    then have "set pool - set (seen @ new) \<subset> set pool - set seen" using new by (fastforce simp: filter_empty_conv)
    from psubset_card_mono [OF _ this] show ?thesis by (simp add: mlex_iff)
  qed
qed

definition steps_in :: "'a list \<Rightarrow> ('a \<Rightarrow> 'a list) \<Rightarrow> ('a \<times> 'a) set" where
  "steps_in pool nbrs = {(a, b). b \<in> set (nbrs a) \<and> b \<in> set pool}"

lemma grow_mono: "set seen \<subseteq> set (grow pool nbrs seen queue)"
  by (induction pool nbrs seen queue rule: grow.induct) (auto simp: Let_def)

lemma grow_sound:
  "x \<in> set (grow pool nbrs seen queue) \<Longrightarrow> set queue \<subseteq> set seen
    \<Longrightarrow> x \<in> set seen \<or> (\<exists>s \<in> set seen. (s, x) \<in> (steps_in pool nbrs)\<^sup>+)"
proof (induction pool nbrs seen queue rule: grow.induct)
  case (2 pool nbrs seen q queue)
  define new where "new = filter (\<lambda>x. x \<in> set pool \<and> x \<notin> set seen) (nbrs q)"
  have q: "q \<in> set seen" using 2(3) by simp
  have edge: "(q, y) \<in> steps_in pool nbrs" if "y \<in> set new" for y
    using that by (simp add: new_def steps_in_def)
  have "x \<in> set (seen @ new) \<or> (\<exists>s \<in> set (seen @ new). (s, x) \<in> (steps_in pool nbrs)\<^sup>+)"
    using 2(1) [OF new_def] 2(2,3) by (auto simp: new_def [symmetric] Let_def)
  with q edge show ?case by (auto intro: trancl_into_trancl2)
qed simp

lemma grow_complete:
  "(\<And>a b. a \<in> set seen \<Longrightarrow> (a, b) \<in> steps_in pool nbrs \<Longrightarrow> a \<in> set queue \<or> b \<in> set seen)
    \<Longrightarrow> a \<in> set (grow pool nbrs seen queue) \<Longrightarrow> (a, b) \<in> steps_in pool nbrs
    \<Longrightarrow> b \<in> set (grow pool nbrs seen queue)"
proof (induction pool nbrs seen queue rule: grow.induct)
  case (1 pool nbrs seen)
  then show ?case by auto
next
  case (2 pool nbrs seen q queue)
  define new where "new = filter (\<lambda>x. x \<in> set pool \<and> x \<notin> set seen) (nbrs q)"
  have "b' \<in> set seen" if "a' \<in> set seen" "(a', b') \<in> steps_in pool nbrs" "a' \<notin> set (q # queue)" for a' b'
    using 2(2) that by blast
  moreover have "b' \<in> set (seen @ new)" if "(q, b') \<in> steps_in pool nbrs" for b'
    using that by (auto simp: new_def steps_in_def)
  ultimately have "a' \<in> set (queue @ new) \<or> b' \<in> set (seen @ new)"
    if "a' \<in> set (seen @ new)" "(a', b') \<in> steps_in pool nbrs" for a' b'
    using that by (cases "a' = q") auto
  from 2(1) [OF new_def this] 2(3,4) show ?case by (simp add: new_def [symmetric] Let_def)
qed

lemma grow_set:
  "set (grow pool nbrs start start) = {y. \<exists>s \<in> set start. (s, y) \<in> (steps_in pool nbrs)\<^sup>*}"
proof (intro subset_antisym subsetI)
  fix y assume "y \<in> set (grow pool nbrs start start)"
  from grow_sound [OF this] show "y \<in> {y. \<exists>s \<in> set start. (s, y) \<in> (steps_in pool nbrs)\<^sup>*}"
    by (auto intro: trancl_into_rtrancl)
next
  fix y assume "y \<in> {y. \<exists>s \<in> set start. (s, y) \<in> (steps_in pool nbrs)\<^sup>*}"
  then obtain s where s: "s \<in> set start" and path: "(s, y) \<in> (steps_in pool nbrs)\<^sup>*" by blast
  from path show "y \<in> set (grow pool nbrs start start)"
  proof (induction rule: rtrancl_induct)
    case base
    show ?case using s grow_mono [of start pool nbrs start] by blast
  next
    case (step y z)
    from grow_complete [OF _ step.IH step.hyps(2)] show ?case by blast
  qed
qed

lemma grow_distinct:
  "distinct seen \<Longrightarrow> (\<And>q. distinct (nbrs q)) \<Longrightarrow> distinct (grow pool nbrs seen queue)"
  by (induction pool nbrs seen queue rule: grow.induct) (auto simp: Let_def)

lemma grow_prefix: "\<exists>rest. grow pool nbrs seen queue = seen @ rest"
  by (induction pool nbrs seen queue rule: grow.induct) (auto simp: Let_def)

end
