(* ===== verification/IdleHub.thy ===== *)
theory IdleHub
  imports WakeStub Worklist
begin

text \<open>
  The idle-wake hub, \<open>src/idleSubscriptions.ts\<close>: who owns which session, which wakes are armed,
  held, deferred or on their way, and the paths that consume one.  Instances are keyed by their
  stable \<open>instanceId\<close>.  The instance manager is the argument \<open>w\<close>, the hub's view of \<open>byId\<close> at
  that moment; timers and microtasks are data, so a run is any interleaving of the hub's
  callbacks.
\<close>

subsection \<open>What the hub reads of an instance\<close>

type_synonym iid = string

record inst =
  in_sessionId :: "string option"
  in_proc :: "nat option" \<comment> \<open>the subprocess run, None when there is no process\<close>
  in_status :: string
  in_activeAgentTasks :: nat
  in_taskNotificationPending :: bool
  in_rotationPending :: bool
  in_steerPending :: bool
  in_turnForceAborted :: bool
  in_stopInterruptedTurn :: bool
  in_idleWindowDirty :: bool
  in_nextSeq :: "nat option"
  in_callerInstanceId :: "iid option"
  in_relaunching :: bool
  in_mutating :: bool
  in_acceptsMidTurnSteering :: bool
  in_project :: string
  in_jobs :: "background_job list"

text \<open>\<open>byId\<close>, in registration order.\<close>

type_synonym world = "(iid, inst) jmap"

datatype ui_event =
    Ev_user_question bool \<comment> \<open>inside a subagent\<close>
  | Ev_plan_request bool bool \<comment> \<open>inside a subagent, auto-approved\<close>
  | Ev_user_echo "prompt_author option" bool utf16
  | Ev_turn_end
  | Ev_steer_settled
  | Ev_task_updated
  | Ev_task_notification
  | Ev_rotation_complete bool \<comment> \<open>comesUpIdle\<close>
  | Ev_other

subsection \<open>State\<close>

record sub_entry =
  se_timer :: nat
  se_timeoutMs :: int

record pending_settle =
  ps_timer :: nat
  ps_proc :: "nat option"
  ps_armSeq :: nat

record deferred_wake =
  dw_target :: iid
  dw_opts :: deliver_opts
  dw_note :: "utf16 option"

text \<open>A delivery on its way: the closure \<open>deliver\<close> queues as a microtask.\<close>

record wake_job =
  wj_caller :: iid
  wj_target :: iid
  wj_opts :: deliver_opts
  wj_fold :: bool
  wj_targetSession :: string
  wj_wakeTarget :: "string option"

datatype timer = Heartbeat iid iid int | Settle iid

record wake_delivered =
  wd_caller :: string
  wd_project :: string
  wd_target :: string
  wd_heartbeat :: bool

record hub =
  hb_subscribers :: "(iid, (iid, sub_entry) jmap) jmap"
  hb_owners :: "(iid, (iid, int option) jmap) jmap"
  hb_justConsumed :: "(iid, iid list) jmap"
  hb_settles :: "(iid, pending_settle) jmap"
  hb_declines :: "(iid, (iid, utf16) jmap) jmap"
  hb_deferred :: "(iid, deferred_wake list) jmap"
  hb_inFlight :: "(iid, nat) jmap"
  hb_asked :: "iid list"
  hb_suspended :: bool
  hb_holding :: "iid list"
  hb_human :: "(iid, utf16 list) jmap"
  \<comment> \<open>the runtime's side: live timers, queued and awaiting deliveries, what was emitted\<close>
  hb_timers :: "(nat, timer) jmap"
  hb_nextTimer :: nat
  hb_queued :: "wake_job list"
  hb_sending :: "(wake_job \<times> utf16) list"
  hb_changed :: "iid list"
  hb_unaborted :: "iid list"
  hb_wakes :: "wake_delivered list"

definition hub_init :: hub where
  "hub_init = \<lparr>hb_subscribers = [], hb_owners = [], hb_justConsumed = [], hb_settles = [],
     hb_declines = [], hb_deferred = [], hb_inFlight = [], hb_asked = [], hb_suspended = False,
     hb_holding = [], hb_human = [], hb_timers = [], hb_nextTimer = 0, hb_queued = [],
     hb_sending = [], hb_changed = [], hb_unaborted = [], hb_wakes = []\<rparr>"

definition suspend :: "hub \<Rightarrow> hub" where "suspend h = h\<lparr>hb_suspended := True\<rparr>"
definition resume :: "hub \<Rightarrow> hub" where "resume h = h\<lparr>hb_suspended := False\<rparr>"

text \<open>\<open>new Map\<close> when absent.\<close>

definition subs_of :: "hub \<Rightarrow> iid \<Rightarrow> (iid, sub_entry) jmap" where
  "subs_of h t = (case map_of (hb_subscribers h) t of Some m \<Rightarrow> m | None \<Rightarrow> [])"

definition clear_timer :: "nat \<Rightarrow> hub \<Rightarrow> hub" where
  "clear_timer k h = h\<lparr>hb_timers := jdrop k (hb_timers h)\<rparr>"

definition emit_changed :: "iid \<Rightarrow> hub \<Rightarrow> hub" where
  "emit_changed t h = h\<lparr>hb_changed := hb_changed h @ [t]\<rparr>"

definition set_add :: "iid \<Rightarrow> iid list \<Rightarrow> iid list" where
  "set_add x xs = (if x \<in> set xs then xs else xs @ [x])"

subsection \<open>Small steps\<close>

definition cancelSettle :: "iid \<Rightarrow> hub \<Rightarrow> hub" where
  "cancelSettle t h = (case map_of (hb_settles h) t of
       None \<Rightarrow> h
     | Some p \<Rightarrow> (clear_timer (ps_timer p) h)\<lparr>hb_settles := jdrop t (hb_settles h)\<rparr>)"

definition cancelAllSettles :: "hub \<Rightarrow> hub" where
  "cancelAllSettles h = (fold (\<lambda>(_, p). clear_timer (ps_timer p)) (hb_settles h) h)\<lparr>hb_settles := []\<rparr>"

definition dropArmed :: "iid \<Rightarrow> iid \<Rightarrow> hub \<Rightarrow> hub" where
  "dropArmed t c h = (case map_of (subs_of h t) c of
       None \<Rightarrow> h
     | Some e \<Rightarrow> (let h1 = clear_timer (se_timer e) h; rest = jdrop c (subs_of h t) in
         if rest = []
         then cancelSettle t (h1\<lparr>hb_subscribers := jdrop t (hb_subscribers h),
                                 hb_holding := removeAll t (hb_holding h)\<rparr>)
         else h1\<lparr>hb_subscribers := jput t rest (hb_subscribers h)\<rparr>))"

definition takeDecline :: "iid \<Rightarrow> iid \<Rightarrow> hub \<Rightarrow> utf16 option \<times> hub" where
  "takeDecline t c h = (case map_of (hb_declines h) t of
       None \<Rightarrow> (None, h)
     | Some notes \<Rightarrow> (let rest = jdrop c notes in
         (map_of notes c,
          h\<lparr>hb_declines := (if rest = [] then jdrop t (hb_declines h) else jput t rest (hb_declines h))\<rparr>)))"

definition takeHumanPrompts :: "iid \<Rightarrow> hub \<Rightarrow> utf16 list \<times> hub" where
  "takeHumanPrompts t h =
     ((case map_of (hb_human h) t of Some ts \<Rightarrow> ts | None \<Rightarrow> []), h\<lparr>hb_human := jdrop t (hb_human h)\<rparr>)"

definition recordOwner :: "iid \<Rightarrow> iid \<Rightarrow> int option \<Rightarrow> hub \<Rightarrow> hub" where
  "recordOwner t c timeoutMs h =
     (let owners = (case map_of (hb_owners h) t of Some m \<Rightarrow> m | None \<Rightarrow> []);
          prev = (case map_of owners c of Some p \<Rightarrow> p | None \<Rightarrow> None);
          wanted = (case timeoutMs of Some ms \<Rightarrow> if ms > 0 then Some ms else prev | None \<Rightarrow> prev)
      in h\<lparr>hb_owners := jput t (jput c wanted owners) (hb_owners h)\<rparr>)"

text \<open>\<open>DEFAULT_SUBSCRIBE_TIMEOUT_MS\<close>, without the environment override.\<close>

definition DEFAULT_SUBSCRIBE_TIMEOUT_MS :: int where "DEFAULT_SUBSCRIBE_TIMEOUT_MS = 1800000"
definition DEFAULT_SUBSCRIBE_TIMEOUT_SECONDS :: int where
  "DEFAULT_SUBSCRIBE_TIMEOUT_SECONDS = DEFAULT_SUBSCRIBE_TIMEOUT_MS div 1000"

definition wake_window :: "hub \<Rightarrow> iid \<Rightarrow> iid \<Rightarrow> int" where
  "wake_window h t c = (case map_of (hb_owners h) t of
       None \<Rightarrow> DEFAULT_SUBSCRIBE_TIMEOUT_MS
     | Some owners \<Rightarrow> (case map_of owners c of Some (Some ms) \<Rightarrow> ms | _ \<Rightarrow> DEFAULT_SUBSCRIBE_TIMEOUT_MS))"

definition arm :: "iid \<Rightarrow> iid \<Rightarrow> hub \<Rightarrow> bool \<times> hub" where
  "arm t c h =
     (if jhas (subs_of h t) c then (False, h)
      else let ms = wake_window h t c; k = hb_nextTimer h in
        (True, h\<lparr>hb_timers := jput k (Heartbeat t c ms) (hb_timers h), hb_nextTimer := Suc k,
                 hb_subscribers := jput t (jput c \<lparr>se_timer = k, se_timeoutMs = ms\<rparr> (subs_of h t))
                   (hb_subscribers h)\<rparr>))"

definition goneForGood :: "world \<Rightarrow> iid \<Rightarrow> bool" where
  "goneForGood w t = (case map_of w t of
       None \<Rightarrow> True
     | Some i \<Rightarrow> in_proc i = None \<and> \<not> in_relaunching i \<and> \<not> in_rotationPending i \<and> \<not> in_mutating i)"

definition targetDefers :: "inst \<Rightarrow> bool" where
  "targetDefers i \<longleftrightarrow> in_activeAgentTasks i > 0 \<or> in_taskNotificationPending i
     \<or> in_rotationPending i \<or> in_steerPending i"

definition hasArmedWake :: "hub \<Rightarrow> iid \<Rightarrow> bool" where
  "hasArmedWake h t \<longleftrightarrow> subs_of h t \<noteq> []"

definition isWaitingOn :: "hub \<Rightarrow> iid \<Rightarrow> iid \<Rightarrow> bool" where
  "isWaitingOn h t c \<longleftrightarrow> jhas (subs_of h t) c
     \<or> (case map_of (hb_justConsumed h) t of Some cs \<Rightarrow> c \<in> set cs | None \<Rightarrow> False)"

definition wake_coming :: "hub \<Rightarrow> iid \<Rightarrow> bool" where
  "wake_coming h x \<longleftrightarrow> jhas (hb_inFlight h) x
     \<or> (case map_of (hb_deferred h) x of Some q \<Rightarrow> q \<noteq> [] | None \<Rightarrow> False)"

definition isCaller :: "hub \<Rightarrow> iid \<Rightarrow> bool" where
  "isCaller h x \<longleftrightarrow> wake_coming h x \<or> (\<exists>(t, callers) \<in> set (hb_subscribers h). jhas callers x)"

subsection \<open>Ownership\<close>

definition ownersOf :: "world \<Rightarrow> hub \<Rightarrow> iid \<Rightarrow> iid list" where
  "ownersOf w h t =
     (let dispatched = (case map_of (hb_owners h) t of Some m \<Rightarrow> fold set_add (jkeys m) [] | None \<Rightarrow> []);
          all = (case map_of w t of
              None \<Rightarrow> dispatched
            | Some i \<Rightarrow> (case in_callerInstanceId i of
                None \<Rightarrow> dispatched
              | Some s \<Rightarrow> if s = [] then dispatched else set_add s dispatched))
      in filter (\<lambda>o'. o' \<noteq> t \<and> jhas w o') all)"

definition ownedWakeTargetsOf :: "world \<Rightarrow> hub \<Rightarrow> iid \<Rightarrow> string list" where
  "ownedWakeTargetsOf w h c = map (\<lambda>(t, i). case in_sessionId i of Some s \<Rightarrow> s | None \<Rightarrow> t)
     (filter (\<lambda>(t, i). t \<noteq> c \<and> c \<in> set (ownersOf w h t)) w)"

definition sid_of :: "world \<Rightarrow> iid \<Rightarrow> string" where
  "sid_of w t = (case map_of w t of
       None \<Rightarrow> t
     | Some i \<Rightarrow> (case in_sessionId i of Some s \<Rightarrow> s | None \<Rightarrow> t))"

definition snapshot :: "world \<Rightarrow> hub \<Rightarrow> (string, string list) jmap" where
  "snapshot w h = fold (\<lambda>(t, callers). jput (sid_of w t) (map (sid_of w) (jkeys callers)))
     (hb_subscribers h) []"

subsection \<open>Waiting on work\<close>

text \<open>
  \<open>_waitsOnWork\<close> is a depth-first search over the armed wakes with one \<open>seen\<close> set shared by the
  whole search: the result carries it.  The number of calls is bounded by the fuel; every nested
  call adds a target of \<open>subscribers\<close> to \<open>seen\<close>, so one more than their number is enough
  (\<open>HubFacts\<close> proves the search complete at that bound).
\<close>

fun waits :: "world \<Rightarrow> hub \<Rightarrow> nat \<Rightarrow> iid \<Rightarrow> iid list \<Rightarrow> bool \<times> iid list"
  and waits_scan :: "world \<Rightarrow> hub \<Rightarrow> nat \<Rightarrow> iid \<Rightarrow> (iid, (iid, sub_entry) jmap) jmap \<Rightarrow> iid list \<Rightarrow> bool \<times> iid list"
  where
  "waits w h 0 x seen = (False, seen)"
| "waits w h (Suc n) x seen =
     (if wake_coming h x then (True, seen) else waits_scan w h n x (hb_subscribers h) seen)"
| "waits_scan w h n x [] seen = (False, seen)"
| "waits_scan w h n x ((t, callers) # rest) seen =
     (if t \<in> set seen \<or> \<not> jhas callers x then waits_scan w h n x rest seen
      else (case map_of w t of
          None \<Rightarrow> waits_scan w h n x rest seen
        | Some ti \<Rightarrow>
            if goneForGood w t then waits_scan w h n x rest seen
            else if in_status ti \<noteq> ''idle'' \<or> targetDefers ti \<or> t \<notin> set (hb_holding h) then (True, seen)
            else (case waits w h n t (t # seen) of
                (True, seen') \<Rightarrow> (True, seen')
              | (False, seen') \<Rightarrow> waits_scan w h n x rest seen')))"

definition waitsOnWork :: "world \<Rightarrow> hub \<Rightarrow> iid \<Rightarrow> iid list \<Rightarrow> bool" where
  "waitsOnWork w h x seen = fst (waits w h (Suc (length (hb_subscribers h))) x seen)"

definition holds :: "world \<Rightarrow> iid \<Rightarrow> inst \<Rightarrow> hub \<Rightarrow> bool \<times> hub" where
  "holds w t i h =
     (if t \<in> set (hb_asked h) \<or> in_turnForceAborted i then (False, h)
      else if waitsOnWork w h t [t] then (True, h\<lparr>hb_holding := set_add t (hb_holding h)\<rparr>)
      else (False, h))"

subsection \<open>Delivery\<close>

definition abortQualifier :: "inst option \<Rightarrow> deliver_opts" where
  "abortQualifier i = no_opts\<lparr>do_interrupted := (case i of Some x \<Rightarrow> in_turnForceAborted x | None \<Rightarrow> False)\<rparr>"

definition exited_session :: "deliver_opts \<Rightarrow> string option" where
  "exited_session opts = (case do_exited opts of Some ex \<Rightarrow> ex_sessionId ex | None \<Rightarrow> None)"

definition session_of :: "world \<Rightarrow> iid \<Rightarrow> string option" where
  "session_of w t = (case map_of w t of Some i \<Rightarrow> in_sessionId i | None \<Rightarrow> None)"

definition wake_target :: "world \<Rightarrow> iid \<Rightarrow> deliver_opts \<Rightarrow> string option" where
  "wake_target w t opts = (case exited_session opts of Some s \<Rightarrow> Some s | None \<Rightarrow> session_of w t)"

definition must_wait :: "inst \<Rightarrow> bool" where
  "must_wait i \<longleftrightarrow> in_status i = ''turn'' \<and> \<not> in_acceptsMidTurnSteering i"

definition make_job :: "world \<Rightarrow> iid \<Rightarrow> inst \<Rightarrow> iid \<Rightarrow> deliver_opts \<Rightarrow> wake_job" where
  "make_job w c ci t opts = \<lparr>wj_caller = c, wj_target = t, wj_opts = opts,
     wj_fold = (\<not> do_timedOut opts \<and> \<not> do_stale opts \<and> \<not> do_interrupted opts
       \<and> do_exited opts = None \<and> in_status ci \<noteq> ''turn''),
     wj_targetSession = (case wake_target w t opts of Some s \<Rightarrow> s | None \<Rightarrow> t),
     wj_wakeTarget = wake_target w t opts\<rparr>"

definition in_flight :: "hub \<Rightarrow> iid \<Rightarrow> nat" where
  "in_flight h c = (case map_of (hb_inFlight h) c of Some n \<Rightarrow> n | None \<Rightarrow> 0)"

definition deferred_of :: "hub \<Rightarrow> iid \<Rightarrow> deferred_wake list" where
  "deferred_of h c = (case map_of (hb_deferred h) c of Some q \<Rightarrow> q | None \<Rightarrow> [])"

definition deliver :: "world \<Rightarrow> iid \<Rightarrow> iid \<Rightarrow> deliver_opts \<Rightarrow> hub \<Rightarrow> hub" where
  "deliver w c t opts h =
     (if hb_suspended h then h
      else case map_of w c of
        None \<Rightarrow> snd (takeDecline t c h)
      | Some ci \<Rightarrow>
          if in_proc ci = None then snd (takeDecline t c h)
          else if must_wait ci then
            (let (note, h1) = takeDecline t c h
             in h1\<lparr>hb_deferred := jput c (deferred_of h c @ [\<lparr>dw_target = t, dw_opts = opts, dw_note = note\<rparr>])
                     (hb_deferred h1)\<rparr>)
          else h\<lparr>hb_inFlight := jput c (in_flight h c + 1) (hb_inFlight h),
                 hb_queued := hb_queued h @ [make_job w c ci t opts]\<rparr>)"

definition consume :: "world \<Rightarrow> iid \<Rightarrow> bool \<Rightarrow> hub \<Rightarrow> hub" where
  "consume w t announce h =
     (let subs = subs_of h t in
      if subs = [] then h
      else let h1 = cancelSettle t (h\<lparr>hb_subscribers := jdrop t (hb_subscribers h),
                                      hb_holding := removeAll t (hb_holding h)\<rparr>);
               h2 = (if announce then emit_changed t h1 else h1);
               (prompts, h3) = takeHumanPrompts t h2;
               opts = (abortQualifier (map_of w t))\<lparr>do_humanPrompts := prompts\<rparr>
           in fold (\<lambda>(c, e) h. deliver w c t opts (clear_timer (se_timer e) h)) subs h3)"

definition releaseHeld :: "world \<Rightarrow> iid \<Rightarrow> hub \<Rightarrow> hub" where
  "releaseHeld w x h =
     (if hb_suspended h \<or> x \<notin> set (hb_holding h) then h
      else case map_of w x of
        None \<Rightarrow> h
      | Some ti \<Rightarrow>
          if in_proc ti = None \<or> in_status ti \<noteq> ''idle'' \<or> subs_of h x = [] then h
          else if targetDefers ti then h
          else (case holds w x ti h of
              (True, h1) \<Rightarrow> h1
            | (False, h1) \<Rightarrow> consume w x True h1))"

definition redecideHold :: "world \<Rightarrow> iid \<Rightarrow> hub \<Rightarrow> hub" where
  "redecideHold w x h =
     (if x \<notin> set (hb_holding h) then h
      else case map_of w x of
        None \<Rightarrow> h\<lparr>hb_holding := removeAll x (hb_holding h)\<rparr>
      | Some ti \<Rightarrow> (case holds w x ti h of
            (True, h1) \<Rightarrow> h1
          | (False, h1) \<Rightarrow> h1\<lparr>hb_holding := removeAll x (hb_holding h1)\<rparr>))"

definition endInFlight :: "world \<Rightarrow> iid \<Rightarrow> iid \<Rightarrow> hub \<Rightarrow> hub" where
  "endInFlight w c t h =
     (let n = in_flight h c;
          h1 = (if n > 1 then h\<lparr>hb_inFlight := jput c (n - 1) (hb_inFlight h)\<rparr>
                else h\<lparr>hb_inFlight := jdrop c (hb_inFlight h)\<rparr>);
          h2 = (if isCaller h1 c then h1 else emit_changed t h1)
      in releaseHeld w c h2)"

text \<open>
  The microtask of \<open>deliver\<close>, up to its await: \<open>alive\<close> is whether the caller object still has a
  process, \<open>payload\<close> what \<open>buildRecentMessages\<close> gives (None: a soft refusal), \<open>now\<close> the clock.
\<close>

definition buildFoldedStub :: "string \<Rightarrow> utf16 option \<Rightarrow> utf16 option \<Rightarrow> utf16 option \<Rightarrow> utf16 option \<Rightarrow> utf16" where
  "buildFoldedStub sid payload note jobsNote humanNote = (case payload of
       None \<Rightarrow> plainStub sid no_opts note jobsNote humanNote
     | Some p \<Rightarrow> buildWakeStub sid p note jobsNote humanNote)"

definition wake_text :: "world \<Rightarrow> wake_job \<Rightarrow> utf16 option \<Rightarrow> utf16 option \<Rightarrow> int \<Rightarrow> utf16" where
  "wake_text w j note payload now =
     (let sid = wj_targetSession j; opts = wj_opts j;
          jobs = (case map_of w (wj_target j) of Some i \<Rightarrow> in_jobs i | None \<Rightarrow> []);
          jobsNote = (if do_timedOut opts then None else backgroundJobsNote sid jobs now);
          humanNote = human_note (do_humanPrompts opts)
      in if wj_fold j then buildFoldedStub sid payload note jobsNote humanNote
         else plainStub sid opts note jobsNote humanNote)"

definition startWake :: "world \<Rightarrow> bool \<Rightarrow> utf16 option \<Rightarrow> int \<Rightarrow> hub \<Rightarrow> hub" where
  "startWake w alive payload now h = (case hb_queued h of
       [] \<Rightarrow> h
     | j # rest \<Rightarrow>
         (let h0 = h\<lparr>hb_queued := rest\<rparr>;
              (note, h1) = (case do_note (wj_opts j) of
                  Some n \<Rightarrow> (Some n, h0)
                | None \<Rightarrow> takeDecline (wj_target j) (wj_caller j) h0)
          in if \<not> alive then endInFlight w (wj_caller j) (wj_target j) h1
             else h1\<lparr>hb_sending := hb_sending h1 @ [(j, wake_text w j note payload now)]\<rparr>))"

text \<open>
  The rest of it, when \<open>prompt\<close> settles: \<open>sent\<close> is whether it resolved; \<open>caller\<close> is the caller
  object then (session id and project).  Several deliveries may be awaiting, and settle in any
  order.
\<close>

definition finishWake :: "world \<Rightarrow> nat \<Rightarrow> bool \<Rightarrow> string option \<Rightarrow> string \<Rightarrow> hub \<Rightarrow> hub" where
  "finishWake w k sent callerSession callerProject h =
     (if k \<ge> length (hb_sending h) then h
      else let j = fst (hb_sending h ! k);
               h1 = h\<lparr>hb_sending := take k (hb_sending h) @ drop (Suc k) (hb_sending h)\<rparr>;
               h2 = (case (sent, wj_wakeTarget j, callerSession) of
                   (True, Some tgt, Some cs) \<Rightarrow>
                     if tgt = [] \<or> cs = [] then h1
                     else h1\<lparr>hb_wakes := hb_wakes h1 @ [\<lparr>wd_caller = cs, wd_project = callerProject,
                            wd_target = tgt, wd_heartbeat = do_timedOut (wj_opts j)\<rparr>]\<rparr>
                 | _ \<Rightarrow> h1)
           in endInFlight w (wj_caller j) (wj_target j) h2)"

definition flushDeferredWakes :: "world \<Rightarrow> iid \<Rightarrow> hub \<Rightarrow> hub" where
  "flushDeferredWakes w c h = (case map_of (hb_deferred h) c of
       None \<Rightarrow> h
     | Some pending \<Rightarrow>
         (let dropped = h\<lparr>hb_deferred := jdrop c (hb_deferred h)\<rparr> in
          case map_of w c of
            None \<Rightarrow> dropped
          | Some ci \<Rightarrow>
              if in_proc ci = None then dropped
              else if in_steerPending ci then h
              else fold (\<lambda>p. deliver w c (dw_target p)
                     ((dw_opts p)\<lparr>do_note := dw_note p,
                        do_stale := (case map_of w (dw_target p) of Some ti \<Rightarrow> in_status ti = ''turn'' | None \<Rightarrow> False)\<rparr>))
                   pending dropped))"

subsection \<open>The paths that consume a wake\<close>

definition watchers :: "hub \<Rightarrow> iid \<Rightarrow> iid list" where
  "watchers h t = jkeys (subs_of h t)"

definition onTurnEnd :: "world \<Rightarrow> iid \<Rightarrow> hub \<Rightarrow> hub" where
  "onTurnEnd w t h = (case map_of w t of
       None \<Rightarrow> h
     | Some ti \<Rightarrow>
         if in_stopInterruptedTurn ti
         then (if subs_of h t = [] then h\<lparr>hb_human := jdrop t (hb_human h)\<rparr> else h)
         else let h1 = cancelSettle t h in
           if subs_of h1 t = [] then h1\<lparr>hb_human := jdrop t (hb_human h1)\<rparr>
           else let h2 = h1\<lparr>hb_justConsumed := jput t (watchers h1 t) (hb_justConsumed h1)\<rparr> in
             if targetDefers ti then h2
             else (case holds w t ti h2 of
                 (True, h3) \<Rightarrow> h3
               | (False, h3) \<Rightarrow> consume w t False h3))"

text \<open>The microtask \<open>_onTurnEnd\<close> queued.\<close>

definition forgetConsumed :: "iid \<Rightarrow> hub \<Rightarrow> hub" where
  "forgetConsumed t h = h\<lparr>hb_justConsumed := jdrop t (hb_justConsumed h)\<rparr>"

definition drained :: "inst \<Rightarrow> bool" where
  "drained ti \<longleftrightarrow> in_status ti = ''idle'' \<and> in_activeAgentTasks ti = 0
     \<and> \<not> in_taskNotificationPending ti \<and> \<not> in_idleWindowDirty ti"

definition armSettle :: "iid \<Rightarrow> nat option \<Rightarrow> nat \<Rightarrow> hub \<Rightarrow> hub" where
  "armSettle t proc seq h = (let k = hb_nextTimer h in
     h\<lparr>hb_timers := jput k (Settle t) (hb_timers h), hb_nextTimer := Suc k,
       hb_settles := jput t \<lparr>ps_timer = k, ps_proc = proc, ps_armSeq = seq\<rparr> (hb_settles h)\<rparr>)"

definition onTaskEvent :: "world \<Rightarrow> iid \<Rightarrow> hub \<Rightarrow> hub" where
  "onTaskEvent w t h = (case map_of w t of
       None \<Rightarrow> h
     | Some ti \<Rightarrow>
         if subs_of h t = [] then h
         else (case (drained ti, in_nextSeq ti) of
             (True, Some seq) \<Rightarrow> armSettle t (in_proc ti) seq (cancelSettle t h)
           | _ \<Rightarrow> cancelSettle t h))"

text \<open>The settle timer's callback; the timer itself is gone when it runs.\<close>

definition fireSettle :: "world \<Rightarrow> nat \<Rightarrow> iid \<Rightarrow> hub \<Rightarrow> hub" where
  "fireSettle w k t h0 =
     (let h = clear_timer k h0; h1 = h\<lparr>hb_settles := jdrop t (hb_settles h)\<rparr> in
      case (map_of (hb_settles h) t, map_of w t) of
        (Some p, Some ti) \<Rightarrow>
          (if subs_of h1 t = [] \<or> in_proc ti = None \<or> in_proc ti \<noteq> ps_proc p \<or> \<not> drained ti
              \<or> in_nextSeq ti \<noteq> Some (ps_armSeq p) then h1
           else (case holds w t ti h1 of
               (True, h2) \<Rightarrow> h2
             | (False, h2) \<Rightarrow> consume w t True h2))
      | _ \<Rightarrow> h1)"

definition onRotationComplete :: "world \<Rightarrow> iid \<Rightarrow> bool \<Rightarrow> hub \<Rightarrow> hub" where
  "onRotationComplete w t comesUpIdle h =
     (if \<not> comesUpIdle then h
      else case map_of w t of
        None \<Rightarrow> consume w t True h
      | Some ti \<Rightarrow> (case holds w t ti h of
            (True, h1) \<Rightarrow> h1
          | (False, h1) \<Rightarrow> consume w t True h1))"

definition onTargetExit :: "world \<Rightarrow> iid \<Rightarrow> exit_cause \<Rightarrow> hub \<Rightarrow> hub" where
  "onTargetExit w t ex h =
     (let (prompts, h1) = takeHumanPrompts t h in
      if subs_of h1 t = [] then h1
      else emit_changed t (fold (\<lambda>c h. deliver w c t (no_opts\<lparr>do_exited := Some ex, do_humanPrompts := prompts\<rparr>)
             (dropArmed t c h)) (watchers h1 t) h1))"

text \<open>The interval's callback of an armed wake.\<close>

definition beat :: "world \<Rightarrow> iid \<Rightarrow> iid \<Rightarrow> int \<Rightarrow> hub \<Rightarrow> hub" where
  "beat w t c ms h =
     deliver w c t (no_opts\<lparr>do_timedOut := True, do_timeoutMs := ms\<rparr>)
       (if goneForGood w t then emit_changed t (dropArmed t c h) else h)"

subsection \<open>Arming and disarming\<close>

definition onTurnStart :: "world \<Rightarrow> iid \<Rightarrow> hub \<Rightarrow> hub" where
  "onTurnStart w t h =
     (let survived = (subs_of h t \<noteq> []);
          h1 = h\<lparr>hb_holding := removeAll t (hb_holding h)\<rparr>;
          (armed, h2) = fold (\<lambda>c (a, h). let (ok, h') = arm t c h in (a \<or> ok, h')) (ownersOf w h1 t) (False, h1);
          h3 = (if survived then h2
                else h2\<lparr>hb_unaborted := hb_unaborted h2 @ (if jhas w t then [t] else []),
                         hb_asked := removeAll t (hb_asked h2)\<rparr>)
      in if armed then emit_changed t h3 else h3)"

text \<open>\<open>setIdleTimeout\<close> and \<open>noteDispatch\<close> restart a running heartbeat: drop the entry, arm anew.\<close>

definition rearm :: "iid \<Rightarrow> iid \<Rightarrow> sub_entry \<Rightarrow> hub \<Rightarrow> hub" where
  "rearm t c e h =
     snd (arm t c ((clear_timer (se_timer e) h)\<lparr>hb_subscribers := jput t (jdrop c (subs_of h t)) (hb_subscribers h)\<rparr>))"

datatype hub_error = Caller_required | Target_required | Self_wait | Caller_not_live | Target_not_live

text \<open>\<open>live\<close> is \<open>liveForSession\<close>, giving the instance's id and the instance.\<close>

definition noteDispatch ::
  "(string \<Rightarrow> (iid \<times> inst) option) \<Rightarrow> string \<Rightarrow> string \<Rightarrow> int option \<Rightarrow> hub \<Rightarrow> hub_error + hub" where
  "noteDispatch live callerSid targetSid timeoutMs h =
     (if callerSid = [] then Inl Caller_required
      else if targetSid = [] then Inl Target_required
      else if callerSid = targetSid then Inl Self_wait
      else case live callerSid of
        None \<Rightarrow> Inl Caller_not_live
      | Some (c, _) \<Rightarrow> (case live targetSid of
          None \<Rightarrow> Inl Target_not_live
        | Some (t, ti) \<Rightarrow>
            (let h1 = recordOwner t c timeoutMs h in
             case map_of (subs_of h1 t) c of
               Some e \<Rightarrow> Inr (rearm t c e h1)
             | None \<Rightarrow> if in_status ti = ''turn''
                 then (case arm t c h1 of (True, h2) \<Rightarrow> Inr (emit_changed t h2) | (False, h2) \<Rightarrow> Inr h2)
                 else Inr h1)))"

definition setIdleTimeout ::
  "(string \<Rightarrow> (iid \<times> inst) option) \<Rightarrow> string \<Rightarrow> string \<Rightarrow> int option \<Rightarrow> hub \<Rightarrow> hub_error + (bool \<times> hub)" where
  "setIdleTimeout live callerSid targetSid timeoutMs h = (case live callerSid of
       None \<Rightarrow> Inl Caller_not_live
     | Some (c, _) \<Rightarrow> (case live targetSid of
         None \<Rightarrow> Inl Target_not_live
       | Some (t, _) \<Rightarrow>
           if c = t then Inl Self_wait
           else (let h1 = recordOwner t c timeoutMs h in
             case map_of (subs_of h1 t) c of
               None \<Rightarrow> Inr (False, h1)
             | Some e \<Rightarrow> Inr (True, emit_changed t (rearm t c e h1)))))"

definition disarmSilently :: "world \<Rightarrow> iid \<Rightarrow> iid \<Rightarrow> hub \<Rightarrow> hub" where
  "disarmSilently w t c h =
     (if \<not> jhas (subs_of h t) c then h
      else releaseHeld w c (emit_changed t (snd (takeDecline t c (dropArmed t c h)))))"

definition noteRenewalDeclined ::
  "world \<Rightarrow> (string \<Rightarrow> (iid \<times> inst) option) \<Rightarrow> iid \<Rightarrow> string option \<Rightarrow> hub \<Rightarrow> hub" where
  "noteRenewalDeclined w live t requestedBy h = (case requestedBy of
       None \<Rightarrow> h
     | Some sid \<Rightarrow> if sid = [] then h else (case live sid of
         None \<Rightarrow> h
       | Some (c, _) \<Rightarrow>
           if c = [] \<or> \<not> isWaitingOn h t c then h
           else let notes = (case map_of (hb_declines h) t of Some m \<Rightarrow> m | None \<Rightarrow> []) in
             h\<lparr>hb_declines := jput t (jput c (declineNote (sid_of w t)) notes) (hb_declines h)\<rparr>))"

subsection \<open>Removal\<close>

definition purge_owners :: "iid \<Rightarrow> (iid, (iid, int option) jmap) jmap \<Rightarrow> (iid, (iid, int option) jmap) jmap" where
  "purge_owners i m = concat (map (\<lambda>(t, os).
     if \<not> jhas os i then [(t, os)] else if jdrop i os = [] then [] else [(t, jdrop i os)]) (jdrop i m))"

definition unwatch :: "iid \<Rightarrow> hub \<Rightarrow> hub" where
  "unwatch t h = (fold (\<lambda>(_, e). clear_timer (se_timer e)) (subs_of h t) h)
     \<lparr>hb_subscribers := jdrop t (hb_subscribers h)\<rparr>"

definition purge_maps :: "iid \<Rightarrow> hub \<Rightarrow> hub" where
  "purge_maps i h =
     (let h1 = h\<lparr>hb_asked := removeAll i (hb_asked h), hb_human := jdrop i (hb_human h),
                 hb_holding := removeAll i (hb_holding h)\<rparr>;
          h2 = cancelSettle i h1;
          h3 = h2\<lparr>hb_owners := purge_owners i (hb_owners h2), hb_deferred := jdrop i (hb_deferred h2),
                  hb_inFlight := jdrop i (hb_inFlight h2), hb_declines := jdrop i (hb_declines h2)\<rparr>;
          h4 = fold (\<lambda>t h. snd (takeDecline t i h)) (jkeys (hb_declines h3)) h3;
          h5 = unwatch i h4
      in fold (\<lambda>t h. dropArmed t i h) (jkeys (hb_subscribers h5)) h5)"

definition purge :: "world \<Rightarrow> iid \<Rightarrow> bool \<Rightarrow> iid list \<Rightarrow> hub \<Rightarrow> hub" where
  "purge w i release removing h =
     (if i = [] then h
      else fold (\<lambda>c h. if c \<in> set removing then h
                else if release then releaseHeld w c h else redecideHold w c h)
             (watchers h i) (purge_maps i h))"

definition sever_deferred :: "iid \<Rightarrow> (iid, deferred_wake list) jmap \<Rightarrow> (iid, deferred_wake list) jmap" where
  "sever_deferred i m = concat (map (\<lambda>(c, q). let kept = filter (\<lambda>d. dw_target d \<noteq> i) q in
     if length kept = length q then [(c, q)] else if kept = [] then [] else [(c, kept)]) m)"

definition severForOverageStop :: "world \<Rightarrow> iid \<Rightarrow> hub \<Rightarrow> iid list \<times> hub" where
  "severForOverageStop w i h =
     (if i = [] then ([], h)
      else let lostFrom = map fst (filter (\<lambda>(t, cs). jhas cs i) (hb_subscribers h));
               lost = watchers h i;
               lost1 = (if lostFrom \<noteq> [] \<or> jhas (hb_deferred h) i then set_add i lost else lost);
               h1 = purge w i False [] h;
               hit = map fst (filter (\<lambda>(c, q). \<exists>d \<in> set q. dw_target d = i) (hb_deferred h1));
               h2 = h1\<lparr>hb_deferred := sever_deferred i (hb_deferred h1)\<rparr>
           in (fold set_add hit lost1, emit_changed i (fold emit_changed lostFrom h2)))"

subsection \<open>Reads, and the event stream\<close>

definition peekHumanPrompts :: "iid \<Rightarrow> iid option \<Rightarrow> hub \<Rightarrow> utf16 list" where
  "peekHumanPrompts t c h =
     (let held = (case c of None \<Rightarrow> [] | Some x \<Rightarrow> if x = [] then [] else deferred_of h x)
      in concat (map (\<lambda>d. do_humanPrompts (dw_opts d)) (filter (\<lambda>d. dw_target d = t) held))
         @ (case map_of (hb_human h) t of Some ts \<Rightarrow> ts | None \<Rightarrow> []))"

text \<open>\<open>askFactsOfEvent\<close>, the facts the hub looks for.\<close>

fun asks_user :: "ui_event \<Rightarrow> bool" where
  "asks_user (Ev_user_question sub) = (\<not> sub)"
| "asks_user (Ev_plan_request sub approved) = (\<not> sub \<and> \<not> approved)"
| "asks_user _ = False"

definition note_event :: "iid \<Rightarrow> ui_event \<Rightarrow> hub \<Rightarrow> hub" where
  "note_event t ev h =
     (let h1 = (if asks_user ev then h\<lparr>hb_asked := set_add t (hb_asked h)\<rparr> else h) in
      case ev of
        Ev_user_echo (Some By_human) False txt \<Rightarrow>
          h1\<lparr>hb_human := jput t ((case map_of (hb_human h1) t of Some ts \<Rightarrow> ts | None \<Rightarrow> []) @ [txt]) (hb_human h1)\<rparr>
      | _ \<Rightarrow> h1)"

definition onEvent :: "world \<Rightarrow> iid \<Rightarrow> ui_event \<Rightarrow> hub \<Rightarrow> hub" where
  "onEvent w t ev h =
     (let h1 = note_event t ev h in
      case ev of
        Ev_turn_end \<Rightarrow> flushDeferredWakes w t (onTurnEnd w t h1)
      | Ev_steer_settled \<Rightarrow> flushDeferredWakes w t h1
      | Ev_task_updated \<Rightarrow> onTaskEvent w t h1
      | Ev_task_notification \<Rightarrow> onTaskEvent w t h1
      | Ev_rotation_complete idle \<Rightarrow> onRotationComplete w t idle h1
      | _ \<Rightarrow> h1)"

definition ownedTreeOf :: "world \<Rightarrow> hub \<Rightarrow> iid \<Rightarrow> iid list" where
  "ownedTreeOf w h root =
     tl (grow (jkeys w) (\<lambda>owner. filter (\<lambda>x. owner \<in> set (ownersOf w h x)) (jkeys w)) [root] [root])"

subsection \<open>Runs\<close>

text \<open>
  One callback of the hub.  Each sees the instances as they are at that moment (\<open>w\<close> is free in
  every step); timers fire only while they are live.  \<open>may_purge\<close> bounds the instances the run
  removes or severs.
\<close>

inductive hub_step :: "(iid \<Rightarrow> bool) \<Rightarrow> hub \<Rightarrow> hub \<Rightarrow> bool" for may_purge where
  Event: "hub_step may_purge h (onEvent w t ev h)"
| Forget: "hub_step may_purge h (forgetConsumed t h)"
| TurnStart: "hub_step may_purge h (onTurnStart w t h)"
| Exit: "hub_step may_purge h (onTargetExit w t ex h)"
| Dispatch: "noteDispatch live a b ms h = Inr h' \<Longrightarrow> hub_step may_purge h h'"
| Timeout: "setIdleTimeout live a b ms h = Inr (armed, h') \<Longrightarrow> hub_step may_purge h h'"
| Disarm: "hub_step may_purge h (disarmSilently w t c h)"
| Declined: "hub_step may_purge h (noteRenewalDeclined w live t by h)"
| Beat: "(k, Heartbeat t c ms) \<in> set (hb_timers h) \<Longrightarrow> hub_step may_purge h (beat w t c ms h)"
| Fire: "(k, Settle t) \<in> set (hb_timers h) \<Longrightarrow> hub_step may_purge h (fireSettle w k t h)"
| Start: "hub_step may_purge h (startWake w alive payload now h)"
| Finish: "hub_step may_purge h (finishWake w n sent cs cp h)"
| Purge: "may_purge i \<Longrightarrow> hub_step may_purge h (purge w i release removing h)"
| Sever: "may_purge i \<Longrightarrow> hub_step may_purge h (snd (severForOverageStop w i h))"
| Suspend: "hub_step may_purge h (suspend h)"
| Resume: "hub_step may_purge h (resume h)"

abbreviation hub_run :: "(iid \<Rightarrow> bool) \<Rightarrow> hub \<Rightarrow> hub \<Rightarrow> bool" where
  "hub_run may_purge \<equiv> (hub_step may_purge)\<^sup>*\<^sup>*"

end
