(* ===== verification/HubWaits.thy ===== *)
theory HubWaits
  imports IdleHub
begin

text \<open>
  The hold decision of the idle-wake hub: the depth-first search \<open>waits\<close> answers reachability over
  the armed wakes, at the fuel \<open>waitsOnWork\<close> runs it with.
\<close>

subsection \<open>The waits-on graph\<close>

definition armed_on :: "world \<Rightarrow> hub \<Rightarrow> iid \<Rightarrow> iid \<Rightarrow> inst \<Rightarrow> bool" where
  "armed_on w h x t ti \<longleftrightarrow> (\<exists>callers. (t, callers) \<in> set (hb_subscribers h) \<and> jhas callers x)
     \<and> map_of w t = Some ti \<and> \<not> goneForGood w t"

text \<open>A target still at work, as opposed to one that only waits on others.\<close>

definition at_work :: "hub \<Rightarrow> iid \<Rightarrow> inst \<Rightarrow> bool" where
  "at_work h t ti \<longleftrightarrow> in_status ti \<noteq> ''idle'' \<or> targetDefers ti \<or> t \<notin> set (hb_holding h)"

text \<open>\<open>x\<close> is due work: a wake is on its way to it, or a live target it is armed on is at work.\<close>

definition due_work :: "world \<Rightarrow> hub \<Rightarrow> iid \<Rightarrow> iid \<Rightarrow> bool" where
  "due_work w h root x \<longleftrightarrow> wake_coming h x \<or> (\<exists>t ti. t \<noteq> root \<and> armed_on w h x t ti \<and> at_work h t ti)"

text \<open>\<open>x\<close> waits on the held target \<open>t\<close>, other than the session being decided.\<close>

definition waits_on :: "world \<Rightarrow> hub \<Rightarrow> iid \<Rightarrow> (iid \<times> iid) set" where
  "waits_on w h root = {(x, t). t \<noteq> root \<and> (\<exists>ti. armed_on w h x t ti \<and> \<not> at_work h t ti)}"

lemma armed_onI: "(t, callers) \<in> set (hb_subscribers h) \<Longrightarrow> jhas callers x \<Longrightarrow> map_of w t = Some ti
    \<Longrightarrow> \<not> goneForGood w t \<Longrightarrow> armed_on w h x t ti"
  by (auto simp: armed_on_def)

text \<open>The three ways the scan treats an entry.\<close>

lemma scan_skip:
  "t \<in> set seen \<or> \<not> jhas callers x \<or> map_of w t = None \<or> goneForGood w t
    \<Longrightarrow> waits_scan w h n x ((t, callers) # rest) seen = waits_scan w h n x rest seen"
  by (auto split: option.splits)

lemma scan_stop:
  "t \<notin> set seen \<Longrightarrow> jhas callers x \<Longrightarrow> map_of w t = Some ti \<Longrightarrow> \<not> goneForGood w t \<Longrightarrow> at_work h t ti
    \<Longrightarrow> waits_scan w h n x ((t, callers) # rest) seen = (True, seen)"
  by (auto simp: at_work_def)

lemma scan_enter:
  "t \<notin> set seen \<Longrightarrow> jhas callers x \<Longrightarrow> map_of w t = Some ti \<Longrightarrow> \<not> goneForGood w t \<Longrightarrow> \<not> at_work h t ti
    \<Longrightarrow> waits_scan w h n x ((t, callers) # rest) seen
      = (case waits w h n t (t # seen) of (True, s) \<Rightarrow> (True, s) | (False, s) \<Rightarrow> waits_scan w h n x rest s)"
  by (simp add: at_work_def)

declare waits_scan.simps(2) [simp del]

subsection \<open>What the search establishes\<close>

text \<open>A visited session is the root or a held one.\<close>

definition visited_ok :: "world \<Rightarrow> hub \<Rightarrow> iid \<Rightarrow> iid list \<Rightarrow> bool" where
  "visited_ok w h root seen \<longleftrightarrow> root \<in> set seen
     \<and> (\<forall>t ti. t \<in> set seen \<and> t \<noteq> root \<and> map_of w t = Some ti \<longrightarrow> \<not> at_work h t ti)"

text \<open>What was added to \<open>seen\<close> is due nothing, and its waits are all visited.\<close>

definition settled :: "world \<Rightarrow> hub \<Rightarrow> iid \<Rightarrow> iid set \<Rightarrow> iid list \<Rightarrow> bool" where
  "settled w h root xs seen' \<longleftrightarrow>
     (\<forall>z \<in> xs. \<not> due_work w h root z \<and> (\<forall>t. (z, t) \<in> waits_on w h root \<longrightarrow> t \<in> set seen'))"

definition found :: "world \<Rightarrow> hub \<Rightarrow> iid \<Rightarrow> iid \<Rightarrow> bool" where
  "found w h root x \<longleftrightarrow> (\<exists>y. (x, y) \<in> (waits_on w h root)\<^sup>* \<and> due_work w h root y)"

definition targets :: "hub \<Rightarrow> iid set" where
  "targets h = fst ` set (hb_subscribers h)"

text \<open>What one call of \<open>waits\<close> establishes for the session it was called on.\<close>

definition search_spec :: "world \<Rightarrow> hub \<Rightarrow> iid \<Rightarrow> iid \<Rightarrow> iid list \<Rightarrow> bool \<Rightarrow> iid list \<Rightarrow> bool" where
  "search_spec w h root x seen b seen' \<longleftrightarrow> set seen \<subseteq> set seen' \<and> visited_ok w h root seen'
     \<and> (if b then found w h root x
        else settled w h root (insert x (set seen' - set seen)) seen')"

text \<open>The entries of a part of the scan, all accounted for.\<close>

definition scanned :: "world \<Rightarrow> hub \<Rightarrow> iid \<Rightarrow> iid \<Rightarrow> (iid, (iid, sub_entry) jmap) jmap \<Rightarrow> iid list \<Rightarrow> bool" where
  "scanned w h root x subs seen' \<longleftrightarrow> (\<forall>(t, callers) \<in> set subs. \<forall>ti.
     jhas callers x \<and> map_of w t = Some ti \<and> \<not> goneForGood w t \<longrightarrow> t \<in> set seen')"

lemma settled_mono: "settled w h root xs s \<Longrightarrow> set s \<subseteq> set s' \<Longrightarrow> settled w h root xs s'"
  by (auto simp: settled_def)

lemma scanned_mono: "scanned w h root x subs s \<Longrightarrow> set s \<subseteq> set s' \<Longrightarrow> scanned w h root x subs s'"
  by (fastforce simp: scanned_def)

lemma settled_Un: "settled w h root (xs \<union> ys) s \<longleftrightarrow> settled w h root xs s \<and> settled w h root ys s"
  by (auto simp: settled_def)

text \<open>When every entry is accounted for, the scanned session itself is settled.\<close>

lemma scanned_settled:
  assumes "scanned w h root x (hb_subscribers h) s" "visited_ok w h root s" "\<not> wake_coming h x"
  shows "settled w h root {x} s"
proof -
  have seen: "t \<in> set s" if "armed_on w h x t ti" for t ti
    using assms(1) that by (fastforce simp: scanned_def armed_on_def)
  have "\<not> at_work h t ti" if "t \<noteq> root" "armed_on w h x t ti" for t ti
    using assms(2) seen [OF that(2)] that by (auto simp: visited_ok_def armed_on_def)
  with seen assms(3) show ?thesis by (auto simp: settled_def due_work_def waits_on_def)
qed

lemma scan_spec:
  assumes nested: "\<And>t seen b seen'. waits w h n t seen = (b, seen') \<Longrightarrow> card (targets h - set seen) < n
      \<Longrightarrow> visited_ok w h root seen \<Longrightarrow> search_spec w h root t seen b seen'"
    and subs: "set subs \<subseteq> set (hb_subscribers h)"
    and run: "waits_scan w h n x subs seen = (b, seen')"
    and fuel: "card (targets h - set seen) \<le> n" and ok: "visited_ok w h root seen"
  shows "set seen \<subseteq> set seen' \<and> visited_ok w h root seen' \<and> (if b then found w h root x
     else scanned w h root x subs seen' \<and> settled w h root (set seen' - set seen) seen')"
  using subs run fuel ok
proof (induction subs arbitrary: seen b seen')
  case Nil
  then show ?case by (simp add: scanned_def settled_def)
next
  case (Cons entry rest)
  obtain t callers where e: "entry = (t, callers)" by fastforce
  have rest: "set rest \<subseteq> set (hb_subscribers h)" and mem: "(t, callers) \<in> set (hb_subscribers h)"
    using Cons.prems(1) e by auto
  show ?case
  proof (cases "t \<in> set seen \<or> \<not> jhas callers x \<or> map_of w t = None \<or> goneForGood w t")
    case True
    from Cons.IH [OF rest _ Cons.prems(3,4)] Cons.prems(2)
    have ih: "set seen \<subseteq> set seen' \<and> visited_ok w h root seen' \<and> (if b then found w h root x
       else scanned w h root x rest seen' \<and> settled w h root (set seen' - set seen) seen')"
      unfolding e scan_skip [OF True] by simp
    moreover have "scanned w h root x (entry # rest) seen'" if "scanned w h root x rest seen'"
      using True that ih by (auto simp: scanned_def e)
    ultimately show ?thesis by (simp split: if_splits)
  next
    case False
    then obtain ti where ti: "t \<notin> set seen" "jhas callers x" "map_of w t = Some ti" "\<not> goneForGood w t" by auto
    have armed: "armed_on w h x t ti" by (rule armed_onI [OF mem ti(2-4)])
    have root: "t \<noteq> root" using ti(1) Cons.prems(4) by (auto simp: visited_ok_def)
    show ?thesis
    proof (cases "at_work h t ti")
      case True
      have "due_work w h root x" using armed root True by (auto simp: due_work_def)
      then show ?thesis using Cons.prems(2,4) unfolding e scan_stop [OF ti True]
        by (auto simp: found_def)
    next
      case held: False
      obtain b1 s1 where s1: "waits w h n t (t # seen) = (b1, s1)" by fastforce
      have "t \<in> targets h" using mem by (force simp: targets_def)
      then have "targets h - set (t # seen) \<subset> targets h - set seen" using ti(1) by auto
      then have lt: "card (targets h - set (t # seen)) < card (targets h - set seen)"
        by (intro psubset_card_mono) (auto simp: targets_def)
      have ok1: "visited_ok w h root (t # seen)"
        using Cons.prems(4) held ti(3) by (auto simp: visited_ok_def)
      have sp: "search_spec w h root t (t # seen) b1 s1"
        by (rule nested [OF s1 _ ok1]) (use lt Cons.prems(3) in simp)
      have edge: "(x, t) \<in> waits_on w h root" using armed root held by (auto simp: waits_on_def)
      show ?thesis
      proof (cases b1)
        case True
        then have "b" "seen' = s1" using Cons.prems(2) unfolding e scan_enter [OF ti held] s1 by simp_all
        moreover have "found w h root x" using sp True edge
          by (auto simp: search_spec_def found_def intro: converse_rtrancl_into_rtrancl)
        ultimately show ?thesis using sp by (auto simp: search_spec_def)
      next
        case no: False
        have run1: "waits_scan w h n x rest s1 = (b, seen')"
          using Cons.prems(2) no unfolding e scan_enter [OF ti held] s1 by simp
        have s1t: "set (t # seen) \<subseteq> set s1" and ok2: "visited_ok w h root s1"
          and set1: "settled w h root (insert t (set s1 - set (t # seen))) s1"
          using sp no by (simp_all add: search_spec_def)
        have "card (targets h - set s1) \<le> card (targets h - set (t # seen))"
          by (intro card_mono) (use s1t in \<open>auto simp: targets_def\<close>)
        then have fuel1: "card (targets h - set s1) \<le> n" using lt Cons.prems(3) by simp
        note ih = Cons.IH [OF rest run1 fuel1 ok2]
        show ?thesis
        proof (cases b)
          case True
          with ih s1t show ?thesis by auto
        next
          case False
          with ih have ih': "set s1 \<subseteq> set seen'" "scanned w h root x rest seen'"
            "settled w h root (set seen' - set s1) seen'" by simp_all
          have "settled w h root (insert t (set s1 - set (t # seen)) \<union> (set seen' - set s1)) seen'"
            unfolding settled_Un using settled_mono [OF set1 ih'(1)] ih'(3) by blast
          moreover have "set seen' - set seen = insert t (set s1 - set (t # seen)) \<union> (set seen' - set s1)"
            using s1t ih'(1) ti(1) by auto
          moreover have "scanned w h root x (entry # rest) seen'"
            using ih'(1,2) s1t by (auto simp: scanned_def e)
          ultimately show ?thesis using ih s1t False by auto
        qed
      qed
    qed
  qed
qed

lemma waits_spec:
  "waits w h n x seen = (b, seen') \<Longrightarrow> card (targets h - set seen) < n
    \<Longrightarrow> visited_ok w h root seen \<Longrightarrow> search_spec w h root x seen b seen'"
proof (induction n arbitrary: x seen b seen')
  case (Suc n)
  show ?case
  proof (cases "wake_coming h x")
    case True
    then have "due_work w h root x" by (simp add: due_work_def)
    with True Suc.prems show ?thesis by (auto simp: search_spec_def found_def)
  next
    case False
    with Suc.prems(1) have run: "waits_scan w h n x (hb_subscribers h) seen = (b, seen')" by simp
    note sp = scan_spec [OF Suc.IH _ run _ Suc.prems(3)]
    have *: "set seen \<subseteq> set seen' \<and> visited_ok w h root seen' \<and> (if b then found w h root x
       else scanned w h root x (hb_subscribers h) seen' \<and> settled w h root (set seen' - set seen) seen')"
      by (rule sp) (use Suc.prems(2) in simp_all)
    moreover have "settled w h root {x} seen'" if "\<not> b"
      using scanned_settled [OF _ _ False] * that by simp
    ultimately show ?thesis
      using settled_Un [of w h root "{x}" "set seen' - set seen" seen'] by (auto simp: search_spec_def)
  qed
qed simp

lemma waits_on_path_visited:
  assumes "settled w h root xs s" "set s \<subseteq> xs" "x \<in> xs" "(x, y) \<in> (waits_on w h root)\<^sup>*"
  shows "y \<in> xs"
  using assms(4)
proof (induction rule: rtrancl_induct)
  case base
  show ?case by (rule assms(3))
next
  case (step y z)
  then show ?case using assms(1,2) by (auto simp: settled_def)
qed

lemma waitsOnWork_iff: "waitsOnWork w h x [x] \<longleftrightarrow> found w h x x"
proof -
  obtain b s where run: "waits w h (Suc (length (hb_subscribers h))) x [x] = (b, s)" by fastforce
  have "card (targets h - set [x]) \<le> card (targets h)" by (intro card_mono) (auto simp: targets_def)
  also have "\<dots> \<le> length (hb_subscribers h)"
    unfolding targets_def by (metis card_length image_set length_map)
  finally have sp: "search_spec w h x x [x] b s"
    by (intro waits_spec [OF run]) (simp_all add: visited_ok_def)
  show ?thesis
  proof (cases b)
    case True
    with sp run show ?thesis by (simp add: waitsOnWork_def search_spec_def)
  next
    case False
    have set: "settled w h x (insert x (set s - {x})) s" "x \<in> set s"
      using sp False by (auto simp: search_spec_def)
    have "\<not> due_work w h x y" if "(x, y) \<in> (waits_on w h x)\<^sup>*" for y
      using waits_on_path_visited [OF set(1) _ _ that] set by (auto simp: settled_def)
    then show ?thesis using False run by (auto simp: waitsOnWork_def found_def)
  qed
qed

subsection \<open>The hold decision\<close>

lemma holds_iff_core:
  "fst (holds w t i h) \<longleftrightarrow> t \<notin> set (hb_asked h) \<and> \<not> in_turnForceAborted i
     \<and> (\<exists>y. (t, y) \<in> (waits_on w h t)\<^sup>* \<and> due_work w h t y)"
  using waitsOnWork_iff [of w h t] by (auto simp: holds_def found_def)

text \<open>
  C5.  A wake is held exactly while work remains below: the hold decision says yes for a target
  iff its turn asked the user nothing and was not aborted, and following armed wakes through held
  sessions some session is found with a wake on its way, or armed on a live target that is busy,
  deferring, or owes a wake nobody holds.
\<close>

theorem wake_held_iff_work_remains:
  "fst (holds w t i h) \<longleftrightarrow> t \<notin> set (hb_asked h) \<and> \<not> in_turnForceAborted i
     \<and> (\<exists>y. (t, y) \<in> (waits_on w h t)\<^sup>* \<and> due_work w h t y)"
  by (rule holds_iff_core)

text \<open>A group of sessions that only wait on each other, every one of them held.\<close>

definition only_mutual :: "world \<Rightarrow> hub \<Rightarrow> iid set \<Rightarrow> bool" where
  "only_mutual w h S \<longleftrightarrow> (\<forall>x \<in> S. \<not> wake_coming h x
     \<and> (\<forall>t ti. armed_on w h x t ti \<longrightarrow> t \<in> S \<and> \<not> at_work h t ti))"

lemma mutual_not_held:
  assumes "only_mutual w h S" "t \<in> S"
  shows "\<not> fst (holds w t i h)"
proof -
  have "y \<in> S" if "(t, y) \<in> (waits_on w h t)\<^sup>*" for y
    using that assms by (induction rule: rtrancl_induct) (auto simp: waits_on_def only_mutual_def)
  then show ?thesis using assms(1) by (auto simp: holds_iff_core due_work_def only_mutual_def)
qed

lemma holds_False: "\<not> fst (holds w t i h) \<Longrightarrow> holds w t i h = (False, h)"
  by (auto simp: holds_def split: if_splits)

end
