(* ===== verification/HubFacts.thy ===== *)
theory HubFacts
  imports HubWaits
begin

text \<open>
  Frame rules of the idle-wake hub: what each small step leaves alone, what consuming a target's
  wakes does, and the properties of the turn boundaries.
\<close>

subsection \<open>Frames\<close>

text \<open>
  \<open>same_wiring\<close>: armed wakes, settles and timers are untouched; \<open>same_traffic\<close>: deliveries in
  flight are untouched.
\<close>

definition same_wiring :: "hub \<Rightarrow> hub \<Rightarrow> bool" where
  "same_wiring h h' \<longleftrightarrow> hb_subscribers h' = hb_subscribers h \<and> hb_settles h' = hb_settles h
     \<and> hb_timers h' = hb_timers h \<and> hb_nextTimer h' = hb_nextTimer h"

definition same_traffic :: "hub \<Rightarrow> hub \<Rightarrow> bool" where
  "same_traffic h h' \<longleftrightarrow> hb_inFlight h' = hb_inFlight h \<and> hb_queued h' = hb_queued h
     \<and> hb_sending h' = hb_sending h"

named_theorems hub_frames \<open>fields a hub operation leaves alone\<close>

lemma subs_of_same: "hb_subscribers h' = hb_subscribers h \<Longrightarrow> subs_of h' t = subs_of h t"
  by (simp add: subs_of_def)

lemma takeDecline_frame [hub_frames]:
  "snd (takeDecline t c h) = h\<lparr>hb_declines := hb_declines (snd (takeDecline t c h))\<rparr>"
  by (auto simp: takeDecline_def Let_def split: option.splits)

lemma takeDecline_fields [simp]:
  "hb_subscribers (snd (takeDecline t c h)) = hb_subscribers h"
  "hb_settles (snd (takeDecline t c h)) = hb_settles h"
  "hb_timers (snd (takeDecline t c h)) = hb_timers h"
  "hb_nextTimer (snd (takeDecline t c h)) = hb_nextTimer h"
  "hb_owners (snd (takeDecline t c h)) = hb_owners h"
  "hb_holding (snd (takeDecline t c h)) = hb_holding h"
  "hb_human (snd (takeDecline t c h)) = hb_human h"
  "hb_asked (snd (takeDecline t c h)) = hb_asked h"
  "hb_inFlight (snd (takeDecline t c h)) = hb_inFlight h"
  "hb_queued (snd (takeDecline t c h)) = hb_queued h"
  "hb_sending (snd (takeDecline t c h)) = hb_sending h"
  "hb_deferred (snd (takeDecline t c h)) = hb_deferred h"
  "hb_suspended (snd (takeDecline t c h)) = hb_suspended h"
  "hb_changed (snd (takeDecline t c h)) = hb_changed h"
  by (subst takeDecline_frame, simp)+

lemma deliver_fields [simp]:
  "hb_subscribers (deliver w c t opts h) = hb_subscribers h"
  "hb_settles (deliver w c t opts h) = hb_settles h"
  "hb_timers (deliver w c t opts h) = hb_timers h"
  "hb_nextTimer (deliver w c t opts h) = hb_nextTimer h"
  "hb_owners (deliver w c t opts h) = hb_owners h"
  "hb_holding (deliver w c t opts h) = hb_holding h"
  "hb_human (deliver w c t opts h) = hb_human h"
  "hb_asked (deliver w c t opts h) = hb_asked h"
  "hb_sending (deliver w c t opts h) = hb_sending h"
  "hb_suspended (deliver w c t opts h) = hb_suspended h"
  "hb_changed (deliver w c t opts h) = hb_changed h"
  using takeDecline_fields [of t c h]
  by (cases "takeDecline t c h"; auto simp: deliver_def split: option.splits)+

text \<open>The four routes of a delivery.\<close>

definition recipient :: "world \<Rightarrow> iid \<Rightarrow> inst option" where
  "recipient w c = (case map_of w c of None \<Rightarrow> None | Some ci \<Rightarrow> if in_proc ci = None then None else Some ci)"

lemma deliver_suspended: "hb_suspended h \<Longrightarrow> deliver w c t opts h = h"
  by (simp add: deliver_def)

lemma deliver_gone:
  "\<not> hb_suspended h \<Longrightarrow> recipient w c = None \<Longrightarrow> deliver w c t opts h = snd (takeDecline t c h)"
  by (auto simp: deliver_def recipient_def split: option.splits if_splits)

lemma deliver_defer:
  "\<not> hb_suspended h \<Longrightarrow> recipient w c = Some ci \<Longrightarrow> must_wait ci \<Longrightarrow> deliver w c t opts h
    = (snd (takeDecline t c h))\<lparr>hb_deferred := jput c (deferred_of h c
        @ [\<lparr>dw_target = t, dw_opts = opts, dw_note = fst (takeDecline t c h)\<rparr>]) (hb_deferred h)\<rparr>"
  by (cases "takeDecline t c h", insert takeDecline_fields(12) [of t c h])
     (auto simp: deliver_def recipient_def split: option.splits if_splits)

lemma deliver_send:
  "\<not> hb_suspended h \<Longrightarrow> recipient w c = Some ci \<Longrightarrow> \<not> must_wait ci \<Longrightarrow> deliver w c t opts h
    = h\<lparr>hb_inFlight := jput c (in_flight h c + 1) (hb_inFlight h), hb_queued := hb_queued h @ [make_job w c ci t opts]\<rparr>"
  by (auto simp: deliver_def recipient_def split: option.splits if_splits)

lemma deliver_route [consumes 0, case_names suspended gone wait send]:
  obtains "hb_suspended h" | "\<not> hb_suspended h" "recipient w c = None"
    | ci where "\<not> hb_suspended h" "recipient w c = Some ci" "must_wait ci"
    | ci where "\<not> hb_suspended h" "recipient w c = Some ci" "\<not> must_wait ci"
  by (cases "recipient w c") blast+

lemma clear_timer_fields [simp]:
  "hb_subscribers (clear_timer k h) = hb_subscribers h"
  "hb_settles (clear_timer k h) = hb_settles h"
  "hb_timers (clear_timer k h) = jdrop k (hb_timers h)"
  "hb_nextTimer (clear_timer k h) = hb_nextTimer h"
  "hb_owners (clear_timer k h) = hb_owners h"
  "hb_holding (clear_timer k h) = hb_holding h"
  "hb_human (clear_timer k h) = hb_human h"
  "hb_asked (clear_timer k h) = hb_asked h"
  "hb_inFlight (clear_timer k h) = hb_inFlight h"
  "hb_queued (clear_timer k h) = hb_queued h"
  "hb_sending (clear_timer k h) = hb_sending h"
  "hb_deferred (clear_timer k h) = hb_deferred h"
  "hb_declines (clear_timer k h) = hb_declines h"
  "hb_suspended (clear_timer k h) = hb_suspended h"
  "hb_changed (clear_timer k h) = hb_changed h"
  "hb_justConsumed (clear_timer k h) = hb_justConsumed h"
  by (simp_all add: clear_timer_def)

text \<open>Delivering does not look at timers, so a consumption may clear them all first.\<close>

lemma takeDecline_clear: "snd (takeDecline t c (clear_timer k h)) = clear_timer k (snd (takeDecline t c h))"
  "fst (takeDecline t c (clear_timer k h)) = fst (takeDecline t c h)"
  by (auto simp: takeDecline_def clear_timer_def Let_def split: option.splits)

lemma deliver_clear: "deliver w c t opts (clear_timer k h) = clear_timer k (deliver w c t opts h)"
  by (auto simp: deliver_def takeDecline_def clear_timer_def deferred_of_def in_flight_def Let_def
      split: option.splits prod.splits)

definition clear_entries :: "(iid, sub_entry) jmap \<Rightarrow> hub \<Rightarrow> hub" where
  "clear_entries m h = fold (\<lambda>(_, e). clear_timer (se_timer e)) m h"

definition deliver_all :: "world \<Rightarrow> iid list \<Rightarrow> iid \<Rightarrow> deliver_opts \<Rightarrow> hub \<Rightarrow> hub" where
  "deliver_all w cs t opts h = fold (\<lambda>c. deliver w c t opts) cs h"

lemma clear_deliver_all:
  "deliver_all w cs t opts (clear_timer k h) = clear_timer k (deliver_all w cs t opts h)"
  by (induction cs arbitrary: h) (simp_all add: deliver_all_def deliver_clear)

lemma clear_entries_Cons [simp]: "clear_entries ((c, e) # m) h = clear_entries m (clear_timer (se_timer e) h)"
  by (simp add: clear_entries_def)

lemma clear_entries_Nil [simp]: "clear_entries [] h = h"
  by (simp add: clear_entries_def)

lemma clear_entries_deliver: "clear_entries m (deliver w c t opts h) = deliver w c t opts (clear_entries m h)"
  by (induction m arbitrary: h) (auto simp: deliver_clear [symmetric])

lemma clear_entries_fields [simp]:
  "hb_subscribers (clear_entries m h) = hb_subscribers h"
  "hb_settles (clear_entries m h) = hb_settles h"
  "hb_nextTimer (clear_entries m h) = hb_nextTimer h"
  "hb_holding (clear_entries m h) = hb_holding h"
  "hb_owners (clear_entries m h) = hb_owners h"
  "hb_human (clear_entries m h) = hb_human h"
  "hb_inFlight (clear_entries m h) = hb_inFlight h"
  "hb_queued (clear_entries m h) = hb_queued h"
  "hb_sending (clear_entries m h) = hb_sending h"
  "hb_deferred (clear_entries m h) = hb_deferred h"
  "hb_declines (clear_entries m h) = hb_declines h"
  "hb_suspended (clear_entries m h) = hb_suspended h"
  by (induction m arbitrary: h) auto

lemma deliver_all_fields [simp]:
  "hb_subscribers (deliver_all w cs t opts h) = hb_subscribers h"
  "hb_settles (deliver_all w cs t opts h) = hb_settles h"
  "hb_timers (deliver_all w cs t opts h) = hb_timers h"
  "hb_nextTimer (deliver_all w cs t opts h) = hb_nextTimer h"
  "hb_holding (deliver_all w cs t opts h) = hb_holding h"
  "hb_owners (deliver_all w cs t opts h) = hb_owners h"
  "hb_human (deliver_all w cs t opts h) = hb_human h"
  "hb_sending (deliver_all w cs t opts h) = hb_sending h"
  "hb_suspended (deliver_all w cs t opts h) = hb_suspended h"
  by (induction cs arbitrary: h) (simp_all add: deliver_all_def)

lemma consume_fold:
  "fold (\<lambda>(c, e) h. deliver w c t opts (clear_timer (se_timer e) h)) m h
    = deliver_all w (jkeys m) t opts (clear_entries m h)"
proof (induction m arbitrary: h)
  case (Cons p m)
  obtain c e where "p = (c, e)" by fastforce
  then show ?case
    using Cons [of "deliver w c t opts (clear_timer (se_timer e) h)"]
    by (simp add: deliver_all_def clear_entries_deliver)
qed (simp add: deliver_all_def)

lemma cancelSettle_fields [simp]:
  "hb_subscribers (cancelSettle t h) = hb_subscribers h"
  "hb_nextTimer (cancelSettle t h) = hb_nextTimer h"
  "hb_holding (cancelSettle t h) = hb_holding h"
  "hb_owners (cancelSettle t h) = hb_owners h"
  "hb_human (cancelSettle t h) = hb_human h"
  "hb_asked (cancelSettle t h) = hb_asked h"
  "hb_inFlight (cancelSettle t h) = hb_inFlight h"
  "hb_queued (cancelSettle t h) = hb_queued h"
  "hb_sending (cancelSettle t h) = hb_sending h"
  "hb_deferred (cancelSettle t h) = hb_deferred h"
  "hb_declines (cancelSettle t h) = hb_declines h"
  "hb_suspended (cancelSettle t h) = hb_suspended h"
  "hb_changed (cancelSettle t h) = hb_changed h"
  "hb_justConsumed (cancelSettle t h) = hb_justConsumed h"
  by (simp_all add: cancelSettle_def split: option.splits)

lemma subs_of_fields [simp]:
  "subs_of (cancelSettle t h) x = subs_of h x"
  "subs_of (clear_timer k h) x = subs_of h x"
  "subs_of (deliver w c t opts h) x = subs_of h x"
  "subs_of (snd (takeDecline t c h)) x = subs_of h x"
  by (rule subs_of_same, simp)+

subsection \<open>Consuming\<close>

text \<open>The hub a consumption delivers from: the target's entry, marker, settle, timers and prompts gone.\<close>

definition release_target :: "iid \<Rightarrow> bool \<Rightarrow> hub \<Rightarrow> hub" where
  "release_target t announce h = clear_entries (subs_of h t)
     (snd (takeHumanPrompts t ((if announce then emit_changed t else id)
       (cancelSettle t (h\<lparr>hb_subscribers := jdrop t (hb_subscribers h),
          hb_holding := removeAll t (hb_holding h)\<rparr>)))))"

definition wake_opts :: "world \<Rightarrow> iid \<Rightarrow> hub \<Rightarrow> deliver_opts" where
  "wake_opts w t h = (abortQualifier (map_of w t))\<lparr>do_humanPrompts := fst (takeHumanPrompts t h)\<rparr>"

lemma consume_eq:
  "consume w t announce h = (if subs_of h t = [] then h
     else deliver_all w (watchers h t) t (wake_opts w t h) (release_target t announce h))"
proof (cases "subs_of h t = []")
  case True
  then show ?thesis by (simp add: consume_def Let_def)
next
  case False
  have "fst (takeHumanPrompts t (h\<lparr>hb_subscribers := s, hb_holding := r\<rparr>)) = fst (takeHumanPrompts t h)"
    "fst (takeHumanPrompts t (emit_changed t h)) = fst (takeHumanPrompts t h)"
    "fst (takeHumanPrompts t (cancelSettle t h)) = fst (takeHumanPrompts t h)" for s r h
    by (simp_all add: takeHumanPrompts_def emit_changed_def)
  with False show ?thesis
    by (simp add: consume_def release_target_def wake_opts_def watchers_def consume_fold Let_def
        split_beta takeHumanPrompts_def emit_changed_def)
qed

lemma release_target_fields [simp]:
  "hb_subscribers (release_target t a h) = jdrop t (hb_subscribers h)"
  "hb_holding (release_target t a h) = removeAll t (hb_holding h)"
  "hb_inFlight (release_target t a h) = hb_inFlight h"
  "hb_queued (release_target t a h) = hb_queued h"
  "hb_sending (release_target t a h) = hb_sending h"
  "hb_deferred (release_target t a h) = hb_deferred h"
  "hb_suspended (release_target t a h) = hb_suspended h"
  "hb_nextTimer (release_target t a h) = hb_nextTimer h"
  by (simp_all add: release_target_def takeHumanPrompts_def emit_changed_def)

lemma consume_subs: "subs_of (consume w t a h) x = (if x = t then [] else subs_of h x)"
  by (auto simp: consume_eq subs_of_def map_of_jdrop)

end
