(* ===== verification/HubInvariants.thy ===== *)
theory HubInvariants
  imports HubFacts
begin

text \<open>
  Invariants of the idle-wake hub over every interleaving of its callbacks.  The locale
  \<open>hub_invariant\<close> lists what a predicate has to survive, one law per primitive update of the hub;
  inside it every operation, and with them every run, is shown to preserve the predicate once.
\<close>

text \<open>The counter's side of \<open>endInFlight\<close>.\<close>

definition land :: "iid \<Rightarrow> hub \<Rightarrow> hub" where
  "land c h = (if in_flight h c > 1 then h\<lparr>hb_inFlight := jput c (in_flight h c - 1) (hb_inFlight h)\<rparr>
     else h\<lparr>hb_inFlight := jdrop c (hb_inFlight h)\<rparr>)"

lemma endInFlight_eq:
  "endInFlight w c t h = releaseHeld w c (if isCaller (land c h) c then land c h else emit_changed t (land c h))"
  by (simp add: endInFlight_def land_def Let_def)

lemma same_wiring_refl [simp]: "same_wiring h h"
  by (simp add: same_wiring_def)

lemma same_traffic_refl [simp]: "same_traffic h h"
  by (simp add: same_traffic_def)

locale hub_invariant =
  fixes I :: "hub \<Rightarrow> bool" and allowed :: "iid \<Rightarrow> bool"
  assumes init: "I hub_init"
    and frame: "I h \<Longrightarrow> same_wiring h h' \<Longrightarrow> same_traffic h h' \<Longrightarrow> I h'"
    and drop: "I h \<Longrightarrow> I (dropArmed t c h)"
    and arm: "I h \<Longrightarrow> I (snd (arm t c h))"
    and rearm: "I h \<Longrightarrow> map_of (subs_of h t) c = Some e \<Longrightarrow> I (rearm t c e h)"
    and cancel: "I h \<Longrightarrow> I (cancelSettle t h)"
    and settle: "I h \<Longrightarrow> subs_of h t \<noteq> [] \<Longrightarrow> map_of (hb_settles h) t = None \<Longrightarrow> I (armSettle t pr sq h)"
    and fired: "I h \<Longrightarrow> (k, Settle t) \<in> set (hb_timers h)
      \<Longrightarrow> I ((clear_timer k h)\<lparr>hb_settles := jdrop t (hb_settles h)\<rparr>)"
    and release: "I h \<Longrightarrow> I (release_target t a h)"
    and unwatch: "I h \<Longrightarrow> map_of (hb_settles h) t = None \<Longrightarrow> I (unwatch t h)"
    and deliver: "I h \<Longrightarrow> I (deliver w c t opts h)"
    and forget: "I h \<Longrightarrow> allowed i \<Longrightarrow> I (h\<lparr>hb_inFlight := jdrop i (hb_inFlight h)\<rparr>)"
    and sent: "I h \<Longrightarrow> hb_queued h = j # rest \<Longrightarrow> I (h\<lparr>hb_queued := rest, hb_sending := hb_sending h @ [(j, txt)]\<rparr>)"
    and abandoned: "I h \<Longrightarrow> hb_queued h = j # rest \<Longrightarrow> I (land (wj_caller j) (h\<lparr>hb_queued := rest\<rparr>))"
    and landed: "I h \<Longrightarrow> k < length (hb_sending h)
      \<Longrightarrow> I (land (wj_caller (fst (hb_sending h ! k)))
            (h\<lparr>hb_sending := take k (hb_sending h) @ drop (Suc k) (hb_sending h)\<rparr>))"
begin

text \<open>Updates of the other fields.\<close>

lemma other [intro]:
  assumes "I h"
  shows "I (h\<lparr>hb_owners := a\<rparr>)" "I (h\<lparr>hb_justConsumed := b\<rparr>)" "I (h\<lparr>hb_declines := c\<rparr>)"
    "I (h\<lparr>hb_deferred := d\<rparr>)" "I (h\<lparr>hb_asked := e\<rparr>)" "I (h\<lparr>hb_suspended := f\<rparr>)"
    "I (h\<lparr>hb_holding := g\<rparr>)" "I (h\<lparr>hb_human := i\<rparr>)" "I (h\<lparr>hb_changed := j\<rparr>)"
    "I (h\<lparr>hb_unaborted := k\<rparr>)" "I (h\<lparr>hb_wakes := l\<rparr>)"
  by (rule frame [OF assms]; simp add: same_wiring_def same_traffic_def)+

lemma emit [intro]: "I h \<Longrightarrow> I (emit_changed t h)"
  unfolding emit_changed_def by (rule other)

lemma decline [intro]: "I h \<Longrightarrow> I (snd (takeDecline t c h))"
  by (rule frame) (simp_all add: same_wiring_def same_traffic_def)

lemma human [intro]: "I h \<Longrightarrow> I (snd (takeHumanPrompts t h))"
  unfolding takeHumanPrompts_def by (auto intro: other)

lemma hold: "holds w t i h = (b, h') \<Longrightarrow> I h \<Longrightarrow> I h'"
  by (auto simp: holds_def split: if_splits)

lemma owner [intro]: "I h \<Longrightarrow> I (recordOwner t c ms h)"
  unfolding recordOwner_def Let_def by (rule other)

lemma fold_I: "I h \<Longrightarrow> (\<And>x h. I h \<Longrightarrow> I (f x h)) \<Longrightarrow> I (fold f xs h)"
  by (induction xs arbitrary: h) auto

lemma consume [intro]: "I h \<Longrightarrow> I (consume w t a h)"
  by (auto simp: consume_eq deliver_all_def intro!: fold_I intro: release deliver)

lemma hold_consume: "holds w t i h = (b, h') \<Longrightarrow> I h \<Longrightarrow> I (IdleHub.consume w t a h')"
  by (rule consume [OF hold])

lemma releaseHeld [intro]: "I h \<Longrightarrow> I (releaseHeld w x h)"
  unfolding releaseHeld_def by (auto intro: hold split: option.splits prod.splits bool.splits)

lemma redecide [intro]: "I h \<Longrightarrow> I (redecideHold w x h)"
  unfolding redecideHold_def by (auto intro: hold split: option.splits prod.splits bool.splits)

lemma turnEnd: "I h \<Longrightarrow> I (onTurnEnd w t h)"
  unfolding onTurnEnd_def Let_def
  by (auto intro: hold hold_consume cancel split: option.splits prod.splits bool.splits)

lemma flush: "I h \<Longrightarrow> I (flushDeferredWakes w c h)"
  unfolding flushDeferredWakes_def Let_def
  by (auto intro: deliver intro!: fold_I split: option.splits)

lemma taskEvent: "I h \<Longrightarrow> I (onTaskEvent w t h)"
proof -
  assume "I h"
  moreover have "map_of (hb_settles (cancelSettle t h)) t = None"
    by (simp add: cancelSettle_def map_of_jdrop split: option.splits)
  ultimately show ?thesis unfolding onTaskEvent_def
    by (auto intro: cancel intro!: settle split: option.splits bool.splits)
qed

lemma fire: "I h \<Longrightarrow> (k, Settle t) \<in> set (hb_timers h) \<Longrightarrow> I (fireSettle w k t h)"
  unfolding fireSettle_def Let_def
  by (auto simp: Let_def intro: hold dest: fired split: option.splits prod.splits bool.splits)

lemma rotation: "I h \<Longrightarrow> I (onRotationComplete w t idle h)"
  unfolding onRotationComplete_def by (auto intro: hold split: option.splits prod.splits bool.splits)

lemma targetExit: "I h \<Longrightarrow> I (onTargetExit w t ex h)"
  unfolding onTargetExit_def Let_def split_beta
  by (auto intro!: fold_I intro: drop deliver)

lemma heartbeat: "I h \<Longrightarrow> I (beat w t c ms h)"
  unfolding beat_def by (auto intro: deliver drop)

lemma fold_arm: "I h \<Longrightarrow> I (snd (fold (\<lambda>c (a, h). let (ok, h') = IdleHub.arm t c h in (a \<or> ok, h')) cs (b, h)))"
proof (induction cs arbitrary: b h)
  case (Cons c cs)
  obtain ok h' where a: "IdleHub.arm t c h = (ok, h')" by fastforce
  with arm [OF Cons.prems, of t c] have "I h'" by simp
  from Cons.IH [OF this] a show ?case by simp
qed simp

lemma turnStart: "I h \<Longrightarrow> I (onTurnStart w t h)"
proof -
  assume h: "I h"
  define h1 where "h1 = h\<lparr>hb_holding := removeAll t (hb_holding h)\<rparr>"
  obtain armed h2 where f: "fold (\<lambda>c (a, h). let (ok, h') = IdleHub.arm t c h in (a \<or> ok, h'))
      (ownersOf w h1 t) (False, h1) = (armed, h2)" by fastforce
  have "I h1" unfolding h1_def using h by (rule other)
  from fold_arm [OF this, of t "ownersOf w h1 t" False] f have "I h2" by simp
  then show ?thesis unfolding onTurnStart_def Let_def h1_def [symmetric] f [unfolded Let_def]
    by (auto intro!: emit other)
qed

lemma dispatch: "I h \<Longrightarrow> noteDispatch live a b ms h = Inr h' \<Longrightarrow> I h'"
proof -
  assume h: "I h" and run: "noteDispatch live a b ms h = Inr h'"
  obtain c ci t ti where live: "live a = Some (c, ci)" "live b = Some (t, ti)"
    using run by (auto simp: noteDispatch_def split: if_splits option.splits)
  define h1 where "h1 = recordOwner t c ms h"
  have h1: "I h1" unfolding h1_def by (rule owner [OF h])
  obtain ok h2 where a: "IdleHub.arm t c h1 = (ok, h2)" by fastforce
  have h2: "I h2" using arm [OF h1, of t c] a by simp
  show ?thesis
  proof (cases "map_of (subs_of h1 t) c")
    case None
    then have "h' \<in> {h1, h2, emit_changed t h2}"
      using run live a by (auto simp: noteDispatch_def Let_def h1_def split: if_splits bool.splits)
    then show ?thesis using h1 h2 emit by blast
  next
    case (Some e)
    then have "h' = IdleHub.rearm t c e h1"
      using run live by (auto simp: noteDispatch_def Let_def h1_def split: if_splits)
    then show ?thesis using rearm [OF h1 Some] by simp
  qed
qed

lemma timeout: "I h \<Longrightarrow> setIdleTimeout live a b ms h = Inr (r, h') \<Longrightarrow> I h'"
  by (auto simp: setIdleTimeout_def Let_def intro: rearm owner split: if_splits option.splits prod.splits)

lemma disarm: "I h \<Longrightarrow> I (disarmSilently w t c h)"
  unfolding disarmSilently_def by (auto intro: drop)

lemma declined: "I h \<Longrightarrow> I (noteRenewalDeclined w live t by h)"
  unfolding noteRenewalDeclined_def Let_def by (auto split: option.splits)

lemma noted: "I h \<Longrightarrow> I (note_event t ev h)"
  unfolding note_event_def Let_def
  by (auto split: ui_event.splits option.splits prompt_author.splits bool.splits)

lemma event: "I h \<Longrightarrow> I (onEvent w t ev h)"
  unfolding onEvent_def Let_def
  by (auto intro: noted turnEnd flush taskEvent rotation split: ui_event.splits)

lemma inFlightEnd: "I (land c h) \<Longrightarrow> I (endInFlight w c t h)"
  by (auto simp: endInFlight_eq)

lemma start: "I h \<Longrightarrow> I (startWake w alive payload now h)"
proof (cases "hb_queued h")
  case (Cons j rest)
  assume h: "I h"
  define h1 where "h1 = snd (takeDecline (wj_target j) (wj_caller j) (h\<lparr>hb_queued := rest\<rparr>))"
  have land: "land c h1 = (land c (h\<lparr>hb_queued := rest\<rparr>))\<lparr>hb_declines := hb_declines h1\<rparr>" for c
    unfolding h1_def by (subst takeDecline_frame) (simp add: land_def in_flight_def)
  have 1: "I (land (wj_caller j) h1)" unfolding land by (rule other(3)) (rule abandoned [OF h Cons])
  have "h1\<lparr>hb_sending := hb_sending h1 @ [(j, x)]\<rparr>
      = (h\<lparr>hb_queued := rest, hb_sending := hb_sending h @ [(j, x)]\<rparr>)\<lparr>hb_declines := hb_declines h1\<rparr>" for x
    unfolding h1_def by (subst (1 2) takeDecline_frame) simp
  then have 2: "I (h1\<lparr>hb_sending := hb_sending h1 @ [(j, x)]\<rparr>)" for x
    using other(3) [OF sent [OF h Cons]] by metis
  show ?thesis
  proof (cases "do_note (wj_opts j)")
    case None
    obtain nt h1' where t: "takeDecline (wj_target j) (wj_caller j) (h\<lparr>hb_queued := rest\<rparr>) = (nt, h1')" by fastforce
    then have "h1 = h1'" by (simp add: h1_def)
    then show ?thesis using 1 2 inFlightEnd Cons None t by (simp add: startWake_def)
  next
    case (Some nt)
    then show ?thesis using abandoned [OF h Cons] sent [OF h Cons] inFlightEnd Cons
      by (simp add: startWake_def Let_def)
  qed
qed (simp add: startWake_def)

lemma finish: "I h \<Longrightarrow> I (finishWake w k ok cs cp h)"
proof (cases "k < length (hb_sending h)")
  case True
  assume h: "I h"
  let ?j = "fst (hb_sending h ! k)"
  let ?h1 = "h\<lparr>hb_sending := take k (hb_sending h) @ drop (Suc k) (hb_sending h)\<rparr>"
  have l: "I (land (wj_caller ?j) ?h1)" by (rule landed [OF h True])
  have "land (wj_caller ?j) (?h1\<lparr>hb_wakes := x\<rparr>) = (land (wj_caller ?j) ?h1)\<lparr>hb_wakes := x\<rparr>" for x
    by (simp add: land_def in_flight_def)
  then have "I (land (wj_caller ?j) (?h1\<lparr>hb_wakes := x\<rparr>))" for x using other(11) [OF l] by metis
  with l True show ?thesis
    by (auto simp: finishWake_def Let_def intro!: inFlightEnd split: option.splits bool.splits)
qed (simp add: finishWake_def)

lemma purgeMaps: "I h \<Longrightarrow> allowed i \<Longrightarrow> I (purge_maps i h)"
proof -
  assume h: "I h" and i: "allowed i"
  define h2 where "h2 = cancelSettle i (h\<lparr>hb_asked := removeAll i (hb_asked h), hb_human := jdrop i (hb_human h),
      hb_holding := removeAll i (hb_holding h)\<rparr>)"
  have h2: "I h2" unfolding h2_def by (intro cancel frame [OF h]) (simp_all add: same_wiring_def same_traffic_def)
  define h3 where "h3 = h2\<lparr>hb_owners := purge_owners i (hb_owners h2), hb_deferred := jdrop i (hb_deferred h2),
      hb_inFlight := jdrop i (hb_inFlight h2), hb_declines := jdrop i (hb_declines h2)\<rparr>"
  have h3: "I h3" unfolding h3_def
    by (rule frame [OF forget [OF h2 i]]) (simp_all add: same_wiring_def same_traffic_def)
  define h4 where "h4 = fold (\<lambda>t h. snd (takeDecline t i h)) (jkeys (hb_declines h3)) h3"
  have h4: "I h4" unfolding h4_def by (rule fold_I [OF h3 decline])
  have "hb_settles (fold (\<lambda>t h. snd (takeDecline t i h)) ts h) = hb_settles h" for ts h
    by (induction ts arbitrary: h) simp_all
  then have "hb_settles h4 = hb_settles h2" by (simp add: h4_def h3_def)
  then have none: "map_of (hb_settles h4) i = None"
    by (simp add: h2_def cancelSettle_def map_of_jdrop split: option.splits)
  show ?thesis
    unfolding purge_maps_def Let_def h2_def [symmetric] h3_def [symmetric] h4_def [symmetric]
    by (rule fold_I [OF unwatch [OF h4 none] drop])
qed

lemma purgeAll: "I h \<Longrightarrow> allowed i \<Longrightarrow> I (purge w i rel rem h)"
  unfolding purge_def by (auto intro!: fold_I purgeMaps)

lemma sever: "I h \<Longrightarrow> allowed i \<Longrightarrow> I (snd (severForOverageStop w i h))"
  unfolding severForOverageStop_def Let_def by (auto intro!: emit fold_I other purgeAll)

lemma step: "hub_step allowed h h' \<Longrightarrow> I h \<Longrightarrow> I h'"
  by (induction rule: hub_step.induct)
     (auto simp: forgetConsumed_def suspend_def resume_def
       intro: event turnStart targetExit dispatch timeout disarm declined heartbeat fire start finish purgeAll sever)

lemma run: "hub_run allowed hub_init h \<Longrightarrow> I h"
  by (induction rule: rtranclp_induct) (auto intro: init step)

end

end
