(* ===== verification/HubSafety.thy ===== *)
theory HubSafety
  imports HubInvariants
begin

text \<open>
  The two invariants of the idle-wake hub's runs, as interpretations of \<open>hub_invariant\<close>: the
  in-flight counter counts the deliveries on their way, and the live timers are exactly those of
  the armed wakes and pending settles.
\<close>

subsection \<open>Deliveries on their way\<close>

definition jobs_for :: "hub \<Rightarrow> iid \<Rightarrow> nat" where
  "jobs_for h c = length (filter (\<lambda>j. wj_caller j = c) (hb_queued h))
     + length (filter (\<lambda>p. wj_caller (fst p) = c) (hb_sending h))"

definition flight_ok :: "iid \<Rightarrow> hub \<Rightarrow> bool" where
  "flight_ok c h \<longleftrightarrow> map_of (hb_inFlight h) c = (if jobs_for h c = 0 then None else Some (jobs_for h c))"

lemma flight_ok_same: "same_traffic h h' \<Longrightarrow> flight_ok c h' = flight_ok c h"
  by (simp add: same_traffic_def flight_ok_def jobs_for_def)

lemma flight_ok_keep: "flight_ok c h \<Longrightarrow> same_traffic h h' \<Longrightarrow> flight_ok c h'"
  by (simp add: flight_ok_same)

lemma dropArmed_traffic: "same_traffic h (dropArmed t c h)"
  by (simp add: dropArmed_def same_traffic_def Let_def split: option.splits)

lemma arm_traffic: "same_traffic h (snd (arm t c h))"
  by (simp add: arm_def same_traffic_def Let_def)

lemma rearm_traffic: "same_traffic h (rearm t c e h)"
  using arm_traffic [of "(clear_timer (se_timer e) h)\<lparr>hb_subscribers := jput t (jdrop c (subs_of h t)) (hb_subscribers h)\<rparr>" t c]
  by (simp add: rearm_def same_traffic_def)

lemma clear_entries_raw: "fold (\<lambda>(_, e). clear_timer (se_timer e)) m h = clear_entries m h"
  by (simp add: clear_entries_def)

lemma unwatch_traffic: "same_traffic h (unwatch t h)"
  by (simp add: unwatch_def clear_entries_raw same_traffic_def)

lemma wiring_traffic:
  "same_traffic h (cancelSettle t h)"
  "same_traffic h (armSettle t pr sq h)"
  "same_traffic h (release_target t a h)"
  "same_traffic h ((clear_timer k h)\<lparr>hb_settles := jdrop t (hb_settles h)\<rparr>)"
  by (simp_all add: same_traffic_def armSettle_def Let_def)

lemmas keep_flight = flight_ok_keep [OF _ dropArmed_traffic] flight_ok_keep [OF _ arm_traffic]
  flight_ok_keep [OF _ rearm_traffic] flight_ok_keep [OF _ unwatch_traffic] wiring_traffic [THEN flight_ok_keep [rotated]]

lemma in_flight_ok: "flight_ok c h \<Longrightarrow> in_flight h c = jobs_for h c"
  by (simp add: flight_ok_def in_flight_def)

lemma land_ok:
  assumes "map_of (hb_inFlight h) c = (if n = 0 then None else Some n)"
    and "n = (if d = c then Suc (jobs_for h c) else jobs_for h c)"
  shows "flight_ok c (land d h)"
  using assms by (auto simp: flight_ok_def land_def in_flight_def jobs_for_def map_of_jput map_of_jdrop)

lemma filter_remove_nth:
  "k < length xs \<Longrightarrow> length (filter P xs)
    = length (filter P (take k xs @ drop (Suc k) xs)) + (if P (xs ! k) then 1 else 0)"
  by (subst (1) id_take_nth_drop [of k xs]) simp_all

interpretation flight: hub_invariant "flight_ok c" "\<lambda>i. i \<noteq> c" for c
proof unfold_locales
  show "flight_ok c hub_init" by (simp add: flight_ok_def hub_init_def jobs_for_def)
next
  fix h j rest stub
  assume h: "flight_ok c h" "hb_queued h = j # rest"
  show "flight_ok c (h\<lparr>hb_queued := rest, hb_sending := hb_sending h @ [(j, stub)]\<rparr>)"
    using h by (simp add: flight_ok_def jobs_for_def)
  show "flight_ok c (land (wj_caller j) (h\<lparr>hb_queued := rest\<rparr>))"
    by (rule land_ok [of _ _ "jobs_for h c"]) (use h in \<open>simp_all add: flight_ok_def jobs_for_def\<close>)
next
  fix h k
  assume h: "flight_ok c h" "k < length (hb_sending h)"
  have n: "jobs_for h c = (let r = jobs_for (h\<lparr>hb_sending := take k (hb_sending h) @ drop (Suc k) (hb_sending h)\<rparr>) c
      in if wj_caller (fst (hb_sending h ! k)) = c then Suc r else r)"
    using filter_remove_nth [of k "hb_sending h" "\<lambda>p. wj_caller (fst p) = c"] h(2)
    by (simp add: jobs_for_def Let_def)
  show "flight_ok c (land (wj_caller (fst (hb_sending h ! k)))
      (h\<lparr>hb_sending := take k (hb_sending h) @ drop (Suc k) (hb_sending h)\<rparr>))"
    by (rule land_ok [of _ _ "jobs_for h c"]) (use h(1) n in \<open>simp_all add: flight_ok_def Let_def\<close>)
next
  fix h t d opts and w :: world
  assume h: "flight_ok c h"
  show "flight_ok c (deliver w d t opts h)"
  proof (cases rule: deliver_route [where h = h and w = w and c = d])
    case (send ci)
    then show ?thesis using h in_flight_ok [OF h]
      by (auto simp: deliver_send flight_ok_def jobs_for_def make_job_def map_of_jput)
  qed (use h in \<open>simp_all add: deliver_suspended deliver_gone deliver_defer flight_ok_def jobs_for_def\<close>)
next
  fix h i
  assume "flight_ok c h" "i \<noteq> c"
  then show "flight_ok c (h\<lparr>hb_inFlight := jdrop i (hb_inFlight h)\<rparr>)"
    by (auto simp: flight_ok_def jobs_for_def map_of_jdrop)
qed (erule keep_flight flight_ok_keep; assumption)+

subsection \<open>Live timers\<close>

text \<open>The timers the state accounts for: one per armed wake, one per pending settle.\<close>

definition heart_entries :: "hub \<Rightarrow> iid \<Rightarrow> (nat \<times> timer) set" where
  "heart_entries h t = {(se_timer e, Heartbeat t c (se_timeoutMs e)) | c e. map_of (subs_of h t) c = Some e}"

definition settle_entries :: "hub \<Rightarrow> iid \<Rightarrow> (nat \<times> timer) set" where
  "settle_entries h t = {(ps_timer p, Settle t) | p. map_of (hb_settles h) t = Some p}"

definition accounted :: "hub \<Rightarrow> (nat \<times> timer) set" where
  "accounted h = (\<Union>t. heart_entries h t \<union> settle_entries h t)"

definition subs_ok :: "hub \<Rightarrow> bool" where
  "subs_ok h \<longleftrightarrow> jmap_ok (hb_subscribers h) \<and> (\<forall>t. jmap_ok (subs_of h t))"

definition timers_match :: "(nat, timer) jmap \<Rightarrow> (nat \<times> timer) set \<Rightarrow> bool" where
  "timers_match m E \<longleftrightarrow> jmap_ok m \<and> (\<forall>k x. map_of m k = Some x \<longleftrightarrow> (k, x) \<in> E)"

definition wires :: "hub \<Rightarrow> bool" where
  "wires h \<longleftrightarrow> subs_ok h \<and> timers_match (hb_timers h) (accounted h)
     \<and> (\<forall>k. jhas (hb_timers h) k \<longrightarrow> k < hb_nextTimer h)"

text \<open>Together with: a settle is pending only for a watched target.\<close>

definition wired :: "hub \<Rightarrow> bool" where
  "wired h \<longleftrightarrow> wires h \<and> (\<forall>t. map_of (hb_settles h) t \<noteq> None \<longrightarrow> subs_of h t \<noteq> [])"

lemma match_unique: "timers_match m E \<Longrightarrow> (k, x) \<in> E \<Longrightarrow> (k, y) \<in> E \<Longrightarrow> x = y"
  by (metis option.inject timers_match_def)

lemma timers_match_remove:
  assumes "timers_match m E" "D \<subseteq> E" "jmap_ok m'"
    and "\<And>k. map_of m' k = (if k \<in> fst ` D then None else map_of m k)"
  shows "timers_match m' (E - D)"
proof -
  have in_D: "(k, x) \<in> D" if "(k, x) \<in> E" "k \<in> fst ` D" for k x
  proof -
    from that(2) obtain y where "(k, y) \<in> D" by auto
    then show ?thesis using match_unique [OF assms(1) that(1), of y] assms(2) by blast
  qed
  have "map_of m' k = Some x \<longleftrightarrow> (k, x) \<in> E - D" for k x
  proof (cases "k \<in> fst ` D")
    case True
    then show ?thesis using in_D assms(4) by auto
  next
    case False
    then have "(k, x) \<notin> D" by force
    then show ?thesis using False assms(1,4) by (simp add: timers_match_def)
  qed
  then show ?thesis using assms(3) by (simp add: timers_match_def)
qed

lemma timers_match_add:
  assumes "timers_match m E" "\<not> jhas m k"
  shows "timers_match (jput k x m) (insert (k, x) E)"
  using assms by (auto simp: timers_match_def map_of_jput jhas_def)

lemma subs_of_jput: "subs_of (h\<lparr>hb_subscribers := jput t m (hb_subscribers h)\<rparr>) x = (if x = t then m else subs_of h x)"
  by (simp add: subs_of_def map_of_jput)

lemma subs_of_jdrop: "subs_of (h\<lparr>hb_subscribers := jdrop t (hb_subscribers h)\<rparr>) x = (if x = t then [] else subs_of h x)"
  by (simp add: subs_of_def map_of_jdrop)

lemma heart_entries_cong: "subs_of h' t = subs_of h t \<Longrightarrow> heart_entries h' t = heart_entries h t"
  by (simp add: heart_entries_def)

definition heart_of :: "(iid, sub_entry) jmap \<Rightarrow> iid \<Rightarrow> (nat \<times> timer) set" where
  "heart_of m t = {(se_timer e, Heartbeat t c (se_timeoutMs e)) | c e. map_of m c = Some e}"

lemma heart_entries_of: "heart_entries h t = heart_of (subs_of h t) t"
  by (simp add: heart_entries_def heart_of_def)

lemma heart_of_mem [simp]:
  "(k, Heartbeat t' c ms) \<in> heart_of m t \<longleftrightarrow> t' = t \<and> map_of m c = Some \<lparr>se_timer = k, se_timeoutMs = ms\<rparr>"
  "(k, Settle s) \<notin> heart_of m t"
proof -
  show "(k, Heartbeat t' c ms) \<in> heart_of m t \<longleftrightarrow> t' = t \<and> map_of m c = Some \<lparr>se_timer = k, se_timeoutMs = ms\<rparr>"
  proof
    assume "t' = t \<and> map_of m c = Some \<lparr>se_timer = k, se_timeoutMs = ms\<rparr>"
    then show "(k, Heartbeat t' c ms) \<in> heart_of m t" unfolding heart_of_def by fastforce
  qed (auto simp: heart_of_def)
qed (simp add: heart_of_def)

lemma timer_set_eqI:
  assumes "\<And>k t c ms. (k, Heartbeat t c ms) \<in> A \<longleftrightarrow> (k, Heartbeat t c ms) \<in> B" "\<And>k t. (k, Settle t) \<in> A \<longleftrightarrow> (k, Settle t) \<in> B"
  shows "A = (B :: (nat \<times> timer) set)"
proof (rule set_eqI)
  fix y :: "nat \<times> timer"
  obtain k x where "y = (k, x)" by fastforce
  then show "y \<in> A \<longleftrightarrow> y \<in> B" using assms by (cases x) simp_all
qed

lemma heart_of_Nil [simp]: "heart_of [] t = {}"
  by (simp add: heart_of_def)

lemma heart_of_jdrop:
  "map_of m c = Some e \<Longrightarrow> heart_of (jdrop c m) t = heart_of m t - {(se_timer e, Heartbeat t c (se_timeoutMs e))}"
  by (rule timer_set_eqI) (auto simp: map_of_jdrop)

lemma heart_of_jput:
  "\<not> jhas m c \<Longrightarrow> heart_of (jput c e m) t = insert (se_timer e, Heartbeat t c (se_timeoutMs e)) (heart_of m t)"
  by (rule timer_set_eqI) (auto simp: map_of_jput jhas_def)

lemma heart_no_settle: "heart_of m t - settle_entries h t' = heart_of m t" "settle_entries h t' - heart_of m t = settle_entries h t'"
  by (auto simp: heart_of_def settle_entries_def)

lemma heart_no_settle1: "settle_entries h t' - {(k, Heartbeat t c ms)} = settle_entries h t'"
  by (auto simp: settle_entries_def)

lemma heart_of_other_target: "x \<noteq> t \<Longrightarrow> heart_of m x - {(k, Heartbeat t c ms)} = heart_of m x"
  by (auto simp: heart_of_def)

lemma settle_other_target: "x \<noteq> t \<Longrightarrow> settle_entries h x - settle_entries h t = settle_entries h x"
  by (auto simp: settle_entries_def)

lemma settle_entries_cong: "map_of (hb_settles h') t = map_of (hb_settles h) t \<Longrightarrow> settle_entries h' t = settle_entries h t"
  by (simp add: settle_entries_def)

lemma heart_of_other: "(k, x) \<in> heart_entries h t \<Longrightarrow> \<exists>c ms. x = Heartbeat t c ms"
  by (auto simp: heart_entries_def)

lemma settle_of_other: "(k, x) \<in> settle_entries h t \<Longrightarrow> x = Settle t"
  by (auto simp: settle_entries_def)

text \<open>Removing what a target accounts for.\<close>

lemma accounted_remove:
  assumes "\<And>t. heart_entries h' t = heart_entries h t - D" "\<And>t. settle_entries h' t = settle_entries h t - D"
  shows "accounted h' = accounted h - D"
  using assms by (auto simp: accounted_def)

lemma wires_remove:
  assumes "wires h" "subs_ok h'" "D \<subseteq> accounted h" "jmap_ok (hb_timers h')" "hb_nextTimer h' = hb_nextTimer h"
    and "\<And>k. map_of (hb_timers h') k = (if k \<in> fst ` D then None else map_of (hb_timers h) k)"
    and "\<And>t. heart_entries h' t = heart_entries h t - D" "\<And>t. settle_entries h' t = settle_entries h t - D"
  shows "wires h'"
proof -
  have "timers_match (hb_timers h') (accounted h')"
    unfolding accounted_remove [OF assms(7,8)]
    by (rule timers_match_remove [OF _ assms(3,4,6)]) (use assms(1) in \<open>simp add: wires_def\<close>)
  then show ?thesis using assms(1,2,5,6) by (auto simp: wires_def jhas_def)
qed

lemma wired_remove:
  assumes "wired h" "subs_ok h'" "D \<subseteq> accounted h" "jmap_ok (hb_timers h')" "hb_nextTimer h' = hb_nextTimer h"
    and "\<And>k. map_of (hb_timers h') k = (if k \<in> fst ` D then None else map_of (hb_timers h) k)"
    and "\<And>t. heart_entries h' t = heart_entries h t - D" "\<And>t. settle_entries h' t = settle_entries h t - D"
    and "\<And>t. map_of (hb_settles h') t \<noteq> None \<Longrightarrow> subs_of h' t \<noteq> []"
  shows "wired h'"
  using wires_remove [OF _ assms(2-8)] assms(1,9) by (simp add: wired_def)

lemma cancelSettle_settles: "map_of (hb_settles (cancelSettle t h)) x = (if x = t then None else map_of (hb_settles h) x)"
  by (simp add: cancelSettle_def map_of_jdrop split: option.splits)

lemma cancelSettle_timers:
  "map_of (hb_timers (cancelSettle t h)) k = (if k \<in> fst ` settle_entries h t then None else map_of (hb_timers h) k)"
  by (simp add: cancelSettle_def settle_entries_def map_of_jdrop split: option.splits)

lemma clear_entries_timers:
  "map_of (hb_timers (clear_entries m h)) k
    = (if k \<in> se_timer ` snd ` set m then None else map_of (hb_timers h) k)"
proof (induction m arbitrary: h)
  case (Cons p m)
  obtain c e where "p = (c, e)" by fastforce
  then show ?case using Cons.IH [of "clear_timer (se_timer e) h"] by (simp add: map_of_jdrop)
qed simp

lemma jmap_ok_clears: "jmap_ok (hb_timers h) \<Longrightarrow> jmap_ok (hb_timers (clear_entries m h))"
proof (induction m arbitrary: h)
  case (Cons p m)
  obtain c e where "p = (c, e)" by fastforce
  then show ?case using Cons.IH [of "clear_timer (se_timer e) h"] Cons.prems by (simp add: jmap_ok_jdrop)
qed simp

lemma jmap_ok_cancel: "jmap_ok (hb_timers h) \<Longrightarrow> jmap_ok (hb_timers (cancelSettle t h))"
  by (auto simp: cancelSettle_def split: option.splits)

lemma heart_keys: "jmap_ok (subs_of h t) \<Longrightarrow> fst ` heart_entries h t = se_timer ` snd ` set (subs_of h t)"
  by (force simp: heart_entries_def jmap_ok_def image_iff)

lemma subs_ok_sub: "subs_ok h \<Longrightarrow> jmap_ok (hb_subscribers h') \<Longrightarrow> (\<And>t. jmap_ok (subs_of h' t)) \<Longrightarrow> subs_ok h'"
  by (simp add: subs_ok_def)

lemma wired_cancel: "wired h \<Longrightarrow> wired (cancelSettle t h)"
proof (rule wired_remove [where D = "settle_entries h t"])
  assume h: "wired h"
  then have ok: "subs_ok h" "jmap_ok (hb_timers h)" by (simp_all add: wired_def wires_def timers_match_def)
  show "subs_ok (cancelSettle t h)" using ok(1) by (simp add: subs_ok_def)
  show "jmap_ok (hb_timers (cancelSettle t h))" using ok(2) by (rule jmap_ok_cancel)
  show "heart_entries (cancelSettle t h) x = heart_entries h x - settle_entries h t" for x
    by (auto simp: heart_entries_def settle_entries_def)
  show "settle_entries (cancelSettle t h) x = settle_entries h x - settle_entries h t" for x
    by (auto simp: settle_entries_def cancelSettle_settles)
  show "subs_of (cancelSettle t h) x \<noteq> []" if "map_of (hb_settles (cancelSettle t h)) x \<noteq> None" for x
    using h that by (auto simp: wired_def cancelSettle_settles split: if_splits)
qed (auto simp: accounted_def cancelSettle_timers)

lemma wires_parts:
  assumes "wires h"
  shows "subs_ok h" "jmap_ok (hb_timers h)" "timers_match (hb_timers h) (accounted h)"
    and "jmap_ok (hb_subscribers h)" "jmap_ok (subs_of h t)"
    and "jhas (hb_timers h) k \<Longrightarrow> k < hb_nextTimer h"
  using assms by (auto simp: wires_def timers_match_def subs_ok_def)

lemma wired_parts:
  assumes "wired h"
  shows "wires h" "map_of (hb_settles h) t \<noteq> None \<Longrightarrow> subs_of h t \<noteq> []"
  using assms by (auto simp: wired_def)

lemma accountedI: "(k, x) \<in> heart_entries h t \<Longrightarrow> (k, x) \<in> accounted h"
  "(k, x) \<in> settle_entries h t \<Longrightarrow> (k, x) \<in> accounted h"
  by (auto simp: accounted_def)

lemma dropArmed_some:
  "map_of (subs_of h t) c = Some e \<Longrightarrow> dropArmed t c h
    = (let h1 = clear_timer (se_timer e) h; rest = jdrop c (subs_of h t) in
       if rest = [] then cancelSettle t (h1\<lparr>hb_subscribers := jdrop t (hb_subscribers h),
                                           hb_holding := removeAll t (hb_holding h)\<rparr>)
       else h1\<lparr>hb_subscribers := jput t rest (hb_subscribers h)\<rparr>)"
  by (simp add: dropArmed_def)

lemma dropArmed_subs_of: "subs_of (dropArmed t c h) x = (if x = t then jdrop c (subs_of h t) else subs_of h x)"
proof (cases "map_of (subs_of h t) c")
  case None
  then have "jdrop c (subs_of h t) = subs_of h t" by (simp add: delete_idem map_of_eq_None_iff)
  with None show ?thesis by (simp add: dropArmed_def)
next
  case (Some e)
  have "subs_of (h1\<lparr>hb_subscribers := jput t m (hb_subscribers h)\<rparr>) y = (if y = t then m else subs_of h y)"
    "subs_of (h1\<lparr>hb_subscribers := jdrop t (hb_subscribers h), hb_holding := r\<rparr>) y = (if y = t then [] else subs_of h y)"
    for h1 m r y by (simp_all add: subs_of_def map_of_jput map_of_jdrop)
  then show ?thesis by (simp add: dropArmed_some [OF Some] Let_def)
qed

lemma dropArmed_settles:
  "map_of (hb_settles (dropArmed t c h)) x
    = (if x = t \<and> jhas (subs_of h t) c \<and> jdrop c (subs_of h t) = [] then None else map_of (hb_settles h) x)"
  by (auto simp: dropArmed_def Let_def cancelSettle_settles jhas_def split: option.splits)

lemma dropArmed_timers:
  "map_of (subs_of h t) c = Some e \<Longrightarrow> map_of (hb_timers (dropArmed t c h)) k
    = (if k = se_timer e \<or> jdrop c (subs_of h t) = [] \<and> k \<in> fst ` settle_entries h t then None
       else map_of (hb_timers h) k)"
  using settle_entries_cong [of "(clear_timer (se_timer e) h)\<lparr>hb_subscribers := jdrop t (hb_subscribers h),
      hb_holding := removeAll t (hb_holding h)\<rparr>" t h]
  by (auto simp: dropArmed_some Let_def cancelSettle_timers map_of_jdrop)

lemma wired_drop: "wired h \<Longrightarrow> wired (dropArmed t c h)"
proof (cases "map_of (subs_of h t) c")
  case (Some e)
  assume h: "wired h"
  let ?D = "insert (se_timer e, Heartbeat t c (se_timeoutMs e))
    (if jdrop c (subs_of h t) = [] then settle_entries h t else {})"
  show ?thesis
  proof (rule wired_remove [OF h, where D = ?D])
    have "jmap_ok (hb_subscribers (dropArmed t c h))"
      using wires_parts(4) [OF wired_parts(1) [OF h]] by (auto simp: dropArmed_some [OF Some] Let_def)
    then show "subs_ok (dropArmed t c h)"
      using wires_parts(5) [OF wired_parts(1) [OF h]] by (auto simp: subs_ok_def dropArmed_subs_of)
    show "jmap_ok (hb_timers (dropArmed t c h))"
      using wires_parts(2) [OF wired_parts(1) [OF h]] by (auto simp: dropArmed_some [OF Some] Let_def intro!: jmap_ok_cancel)
    show "?D \<subseteq> accounted h"
      using Some by (auto simp: accounted_def heart_entries_def)
    show "hb_nextTimer (dropArmed t c h) = hb_nextTimer h"
      by (simp add: dropArmed_some [OF Some] Let_def)
    show "map_of (hb_timers (dropArmed t c h)) k = (if k \<in> fst ` ?D then None else map_of (hb_timers h) k)" for k
      by (auto simp: dropArmed_timers [OF Some])
    show "heart_entries (dropArmed t c h) x = heart_entries h x - ?D" for x
    proof -
      have "heart_of m x - ?D = heart_of m x - {(se_timer e, Heartbeat t c (se_timeoutMs e))}" for m
        by (auto simp: heart_of_def settle_entries_def)
      then show ?thesis
        by (simp add: heart_entries_of dropArmed_subs_of heart_of_jdrop [OF Some] heart_of_other_target)
    qed
    show "settle_entries (dropArmed t c h) x = settle_entries h x - ?D" for x
      using Some by (auto simp: settle_entries_def dropArmed_settles jhas_def split: if_splits)
    show "subs_of (dropArmed t c h) x \<noteq> []" if "map_of (hb_settles (dropArmed t c h)) x \<noteq> None" for x
      using that wired_parts(2) [OF h, of x] Some
      by (auto simp: dropArmed_settles dropArmed_subs_of jhas_def split: if_splits)
  qed
qed (simp add: dropArmed_def)

lemma fresh_timer: "wires h \<Longrightarrow> \<not> jhas (hb_timers h) (hb_nextTimer h)"
  using wires_parts(6) by blast

lemma wires_add:
  assumes "wires h" "hb_timers h' = jput (hb_nextTimer h) x (hb_timers h)" "hb_nextTimer h' = Suc (hb_nextTimer h)"
    and "subs_ok h'" "accounted h' = insert (hb_nextTimer h, x) (accounted h)"
  shows "wires h'"
  using assms timers_match_add [OF wires_parts(3) [OF assms(1)] fresh_timer [OF assms(1)], of x] wires_parts(6) [OF assms(1)]
  by (auto simp: wires_def less_Suc_eq)

lemma arm_new:
  "\<not> jhas (subs_of h t) c \<Longrightarrow> snd (arm t c h) = h\<lparr>hb_timers := jput (hb_nextTimer h) (Heartbeat t c (wake_window h t c)) (hb_timers h),
     hb_nextTimer := Suc (hb_nextTimer h),
     hb_subscribers := jput t (jput c \<lparr>se_timer = hb_nextTimer h, se_timeoutMs = wake_window h t c\<rparr> (subs_of h t)) (hb_subscribers h)\<rparr>"
  by (simp add: arm_def Let_def)

lemma arm_subs_of:
  "subs_of (snd (arm t c h)) x = (if x = t \<and> \<not> jhas (subs_of h t) c
     then jput c \<lparr>se_timer = hb_nextTimer h, se_timeoutMs = wake_window h t c\<rparr> (subs_of h t) else subs_of h x)"
  by (auto simp: arm_def Let_def subs_of_def map_of_jput)

lemma wires_arm: "wires h \<Longrightarrow> wires (snd (arm t c h))"
proof (cases "jhas (subs_of h t) c")
  case False
  assume h: "wires h"
  show ?thesis
  proof (rule wires_add [OF h, where x = "Heartbeat t c (wake_window h t c)"])
    have "jmap_ok (hb_subscribers (snd (arm t c h)))"
      using wires_parts(4) [OF h] by (auto simp: arm_new [OF False])
    then show "subs_ok (snd (arm t c h))"
      using wires_parts(5) [OF h] by (auto simp: subs_ok_def arm_subs_of)
    have "heart_entries (snd (arm t c h)) x = (if x = t then insert (hb_nextTimer h, Heartbeat t c (wake_window h t c))
        (heart_entries h t) else heart_entries h x)" for x
      using False by (simp add: heart_entries_of arm_subs_of heart_of_jput)
    moreover have "settle_entries (snd (arm t c h)) x = settle_entries h x" for x
      by (rule settle_entries_cong) (simp add: arm_new [OF False])
    ultimately show "accounted (snd (arm t c h)) = insert (hb_nextTimer h, Heartbeat t c (wake_window h t c)) (accounted h)"
      by (auto simp: accounted_def split: if_splits)
  qed (simp_all add: arm_new [OF False])
qed (simp add: arm_def)

lemma arm_settles [simp]: "hb_settles (snd (arm t c h)) = hb_settles h"
  by (simp add: arm_def Let_def)

lemma wired_arm: "wired h \<Longrightarrow> wired (snd (arm t c h))"
  using wires_arm [of h t c] by (auto simp: wired_def arm_subs_of)

text \<open>Restarting a heartbeat: the entry and its timer go, then a new pair comes.\<close>

lemma wired_rearm:
  assumes h: "wired h" and e: "map_of (subs_of h t) c = Some e"
  shows "wired (rearm t c e h)"
proof -
  define h1 where "h1 = (clear_timer (se_timer e) h)\<lparr>hb_subscribers := jput t (jdrop c (subs_of h t)) (hb_subscribers h)\<rparr>"
  have subs1: "subs_of h1 x = (if x = t then jdrop c (subs_of h t) else subs_of h x)" for x
    by (simp add: h1_def subs_of_def map_of_jput)
  let ?D = "{(se_timer e, Heartbeat t c (se_timeoutMs e))}"
  have "wires h1"
  proof (rule wires_remove [OF wired_parts(1) [OF h], where D = ?D])
    have "jmap_ok (hb_subscribers h1)" using wires_parts(4) [OF wired_parts(1) [OF h]] by (auto simp: h1_def)
    then show "subs_ok h1" using wires_parts(5) [OF wired_parts(1) [OF h]] by (auto simp: subs_ok_def subs1)
    show "?D \<subseteq> accounted h" using e by (auto simp: accounted_def heart_entries_def)
    show "jmap_ok (hb_timers h1)" using wires_parts(2) [OF wired_parts(1) [OF h]] by (auto simp: h1_def)
    show "heart_entries h1 x = heart_entries h x - ?D" for x
      by (simp add: heart_entries_of subs1 heart_of_jdrop [OF e] heart_of_other_target)
    show "settle_entries h1 x = settle_entries h x - ?D" for x
      by (auto simp: settle_entries_def h1_def)
  qed (auto simp: h1_def map_of_jdrop)
  then have "wires (snd (arm t c h1))" by (rule wires_arm)
  moreover have "hb_settles h1 = hb_settles h" by (simp add: h1_def)
  then have "subs_of (snd (arm t c h1)) x \<noteq> []" if "map_of (hb_settles h1) x \<noteq> None" for x
    using that wired_parts(2) [OF h, of x] by (auto simp: arm_subs_of subs1)
  ultimately show ?thesis by (simp add: wired_def rearm_def h1_def)
qed

lemma wired_settle:
  assumes h: "wired h" and subs: "subs_of h t \<noteq> []" and none: "map_of (hb_settles h) t = None"
  shows "wired (armSettle t pr sq h)"
proof -
  let ?h = "armSettle t pr sq h"
  have subs': "subs_of ?h x = subs_of h x" for x
    by (rule subs_of_same) (simp add: armSettle_def Let_def)
  have "wires ?h"
  proof (rule wires_add [OF wired_parts(1) [OF h], where x = "Settle t"])
    show "subs_ok ?h" using wires_parts(4,5) [OF wired_parts(1) [OF h]]
      by (simp add: subs_ok_def subs') (simp add: armSettle_def Let_def)
    have "settle_entries ?h x = (if x = t then insert (hb_nextTimer h, Settle t) (settle_entries h t) else settle_entries h x)" for x
      using none by (auto simp: settle_entries_def armSettle_def Let_def map_of_jput)
    moreover have "heart_entries ?h x = heart_entries h x" for x by (rule heart_entries_cong) (rule subs')
    ultimately show "accounted ?h = insert (hb_nextTimer h, Settle t) (accounted h)"
      by (auto simp: accounted_def split: if_splits)
  qed (simp_all add: armSettle_def Let_def)
  then show ?thesis using wired_parts(2) [OF h] subs
    by (auto simp: wired_def subs') (auto simp: armSettle_def Let_def map_of_jput split: if_splits)
qed

lemma wired_fired:
  assumes h: "wired h" and k: "(k, Settle t) \<in> set (hb_timers h)"
  shows "wired ((clear_timer k h)\<lparr>hb_settles := jdrop t (hb_settles h)\<rparr>)" (is "wired ?h")
proof (rule wired_remove [OF h, where D = "{(k, Settle t)}"])
  have "map_of (hb_timers h) k = Some (Settle t)"
    using k wires_parts(2) [OF wired_parts(1) [OF h]] by (simp add: jmap_ok_def)
  then have acc: "(k, Settle t) \<in> accounted h"
    using wires_parts(3) [OF wired_parts(1) [OF h]] by (simp add: timers_match_def)
  then show "{(k, Settle t)} \<subseteq> accounted h" by simp
  from acc have own: "(k, Settle t) \<in> settle_entries h t"
    by (auto simp: accounted_def heart_entries_def settle_entries_def)
  have subs: "subs_of ?h x = subs_of h x" for x by (rule subs_of_same) simp
  show "subs_ok ?h" using wires_parts(4,5) [OF wired_parts(1) [OF h]] by (simp add: subs_ok_def subs)
  show "jmap_ok (hb_timers ?h)" using wires_parts(2) [OF wired_parts(1) [OF h]] by auto
  show "heart_entries ?h x = heart_entries h x - {(k, Settle t)}" for x
    by (auto simp: heart_entries_def subs)
  show "settle_entries ?h x = settle_entries h x - {(k, Settle t)}" for x
    using own by (auto simp: settle_entries_def map_of_jdrop split: if_splits)
  show "subs_of ?h x \<noteq> []" if "map_of (hb_settles ?h) x \<noteq> None" for x
    using that wired_parts(2) [OF h, of x] by (auto simp: subs map_of_jdrop split: if_splits)
qed (auto simp: map_of_jdrop)

lemma release_target_settles:
  "map_of (hb_settles (release_target t a h)) x = (if x = t then None else map_of (hb_settles h) x)"
  by (simp add: release_target_def takeHumanPrompts_def emit_changed_def cancelSettle_settles)

lemma release_target_subs: "subs_of (release_target t a h) x = (if x = t then [] else subs_of h x)"
  by (simp add: subs_of_def map_of_jdrop)

lemma clear_entries_timer_list:
  "hb_timers (clear_entries m h) = fold (\<lambda>(_, e). jdrop (se_timer e)) m (hb_timers h)"
proof (induction m arbitrary: h)
  case (Cons p m)
  obtain c e where "p = (c, e)" by fastforce
  then show ?case using Cons.IH [of "clear_timer (se_timer e) h"] by simp
qed simp

lemma release_target_timers:
  "hb_timers (release_target t a h) = hb_timers (clear_entries (subs_of h t) (cancelSettle t
     (h\<lparr>hb_subscribers := jdrop t (hb_subscribers h), hb_holding := removeAll t (hb_holding h)\<rparr>)))"
  by (simp add: release_target_def takeHumanPrompts_def emit_changed_def clear_entries_timer_list)

lemma heart_of_keys: "jmap_ok m \<Longrightarrow> fst ` heart_of m t = se_timer ` snd ` set m"
  by (force simp: heart_of_def jmap_ok_def image_iff)

lemma wired_release: 
  assumes h: "wired h"
  shows "wired (release_target t a h)" (is "wired ?h")
proof (rule wired_remove [OF h, where D = "heart_entries h t \<union> settle_entries h t"])
  note w = wired_parts(1) [OF h]
  show "heart_entries h t \<union> settle_entries h t \<subseteq> accounted h" by (auto simp: accounted_def)
  have "jmap_ok (hb_subscribers ?h)" using wires_parts(4) [OF w] by (simp add: jmap_ok_jdrop)
  then show "subs_ok ?h" using wires_parts(5) [OF w] by (simp add: subs_ok_def release_target_subs)
  show "jmap_ok (hb_timers ?h)" unfolding release_target_timers
    by (rule jmap_ok_clears [OF jmap_ok_cancel]) (simp add: wires_parts(2) [OF w])
  have "fst ` (heart_entries h t \<union> settle_entries h t) = se_timer ` snd ` set (subs_of h t) \<union> fst ` settle_entries h t"
    using heart_of_keys [OF wires_parts(5) [OF w, of t], of t] by (simp add: heart_entries_of image_Un)
  moreover have "settle_entries (h\<lparr>hb_subscribers := s, hb_holding := r\<rparr>) t = settle_entries h t" for s r
    by (rule settle_entries_cong) simp
  ultimately show "map_of (hb_timers ?h) k
      = (if k \<in> fst ` (heart_entries h t \<union> settle_entries h t) then None else map_of (hb_timers h) k)" for k
    by (auto simp: release_target_timers clear_entries_timers cancelSettle_timers)
  show "heart_entries ?h x = heart_entries h x - (heart_entries h t \<union> settle_entries h t)" for x
    by (auto simp: heart_entries_def settle_entries_def release_target_subs)
  show "settle_entries ?h x = settle_entries h x - (heart_entries h t \<union> settle_entries h t)" for x
    by (auto simp: heart_entries_def settle_entries_def release_target_settles)
  show "subs_of ?h x \<noteq> []" if "map_of (hb_settles ?h) x \<noteq> None" for x
    using that wired_parts(2) [OF h, of x] by (auto simp: release_target_subs release_target_settles split: if_splits)
qed simp

lemma wired_unwatch:
  assumes h: "wired h" and none: "map_of (hb_settles h) t = None"
  shows "wired (unwatch t h)" (is "wired ?h")
proof (rule wired_remove [OF h, where D = "heart_entries h t"])
  note w = wired_parts(1) [OF h]
  have eq: "?h = (clear_entries (subs_of h t) h)\<lparr>hb_subscribers := jdrop t (hb_subscribers h)\<rparr>"
    by (simp add: unwatch_def clear_entries_raw)
  have subs: "subs_of ?h x = (if x = t then [] else subs_of h x)" for x
    by (simp add: eq subs_of_def map_of_jdrop)
  show "heart_entries h t \<subseteq> accounted h" by (auto simp: accounted_def)
  have "jmap_ok (hb_subscribers ?h)" using wires_parts(4) [OF w] by (auto simp: eq)
  then show "subs_ok ?h" using wires_parts(5) [OF w] by (auto simp: subs_ok_def subs)
  show "jmap_ok (hb_timers ?h)" by (simp add: eq jmap_ok_clears wires_parts(2) [OF w])
  show "map_of (hb_timers ?h) k = (if k \<in> fst ` heart_entries h t then None else map_of (hb_timers h) k)" for k
    using heart_of_keys [OF wires_parts(5) [OF w, of t], of t]
    by (simp add: eq clear_entries_timers heart_entries_of)
  show "heart_entries ?h x = heart_entries h x - heart_entries h t" for x
    by (auto simp: heart_entries_def subs)
  show "settle_entries ?h x = settle_entries h x - heart_entries h t" for x
    by (auto simp: heart_entries_def settle_entries_def eq)
  have "hb_settles ?h = hb_settles h" by (simp add: eq)
  then show "subs_of ?h x \<noteq> []" if "map_of (hb_settles ?h) x \<noteq> None" for x
    using that wired_parts(2) [OF h, of x] none by (auto simp: subs)
  show "hb_nextTimer ?h = hb_nextTimer h" by (simp add: eq)
qed

lemma wired_keep:
  assumes "wired h" "same_wiring h h'"
  shows "wired h'"
proof -
  have subs: "subs_of h' t = subs_of h t" for t using assms(2) by (simp add: same_wiring_def subs_of_def)
  have "heart_entries h' t = heart_entries h t" "settle_entries h' t = settle_entries h t" for t
    using assms(2) by (simp_all add: heart_entries_def settle_entries_def subs same_wiring_def)
  then have "accounted h' = accounted h" by (simp add: accounted_def)
  then show ?thesis using assms by (simp add: wired_def wires_def subs_ok_def subs same_wiring_def)
qed

lemma deliver_wiring: "same_wiring h (deliver w c t opts h)"
  by (simp add: same_wiring_def)

lemma land_wiring: "same_wiring h (land c (h\<lparr>hb_queued := q\<rparr>))" "same_wiring h (land c (h\<lparr>hb_sending := s\<rparr>))"
  by (simp_all add: same_wiring_def land_def)

interpretation wiring: hub_invariant wired "\<lambda>i. True"
proof unfold_locales
  show "wired hub_init"
    by (auto simp: wired_def wires_def subs_ok_def timers_match_def accounted_def heart_entries_def
        settle_entries_def hub_init_def subs_of_def)
next
  fix h j rest stub
  assume h: "wired h" "hb_queued h = j # rest"
  show "wired (h\<lparr>hb_queued := rest, hb_sending := hb_sending h @ [(j, stub)]\<rparr>)"
    by (rule wired_keep [OF h(1)]) (simp add: same_wiring_def)
  show "wired (land (wj_caller j) (h\<lparr>hb_queued := rest\<rparr>))"
    by (rule wired_keep [OF h(1) land_wiring(1)])
qed (auto intro: wired_keep wired_drop wired_arm wired_rearm wired_cancel wired_settle wired_fired
      wired_release wired_unwatch wired_keep [OF _ deliver_wiring] wired_keep [OF _ land_wiring(2)]
      simp: same_wiring_def elim: wired_keep)

end
