(* ===== verification/HubProperties.thy ===== *)
theory HubProperties
  imports HubSafety
begin

text \<open>The properties of the idle-wake hub: hold decision, turn boundaries, timers, deliveries, severing.\<close>

subsection \<open>Turn boundaries\<close>

lemma watchers_empty [simp]: "watchers h t = [] \<longleftrightarrow> subs_of h t = []"
  by (simp add: watchers_def)

lemma holds_cong:
  assumes "hb_subscribers h' = hb_subscribers h" "hb_inFlight h' = hb_inFlight h" "hb_deferred h' = hb_deferred h"
    "hb_holding h' = hb_holding h" "hb_asked h' = hb_asked h"
  shows "fst (holds w t i h') = fst (holds w t i h)"
proof -
  have armed: "armed_on w h' = armed_on w h" using assms by (simp add: armed_on_def fun_eq_iff)
  have work: "at_work h' = at_work h" using assms by (simp add: at_work_def fun_eq_iff)
  have coming: "wake_coming h' = wake_coming h" using assms by (simp add: wake_coming_def fun_eq_iff)
  have "due_work w h' t = due_work w h t" "waits_on w h' t = waits_on w h t"
    by (simp_all add: due_work_def waits_on_def armed work coming fun_eq_iff)
  with assms show ?thesis by (simp add: holds_iff_core)
qed

text \<open>Which recipients a wake is sent to, and which have it kept for their own next boundary.\<close>

definition sends_now :: "world \<Rightarrow> iid \<Rightarrow> bool" where
  "sends_now w c = (case recipient w c of None \<Rightarrow> False | Some ci \<Rightarrow> \<not> must_wait ci)"

definition keeps_for_later :: "world \<Rightarrow> iid \<Rightarrow> bool" where
  "keeps_for_later w c = (case recipient w c of None \<Rightarrow> False | Some ci \<Rightarrow> must_wait ci)"

definition job_to :: "world \<Rightarrow> iid \<Rightarrow> deliver_opts \<Rightarrow> iid \<Rightarrow> wake_job" where
  "job_to w t opts c = make_job w c (the (recipient w c)) t opts"

lemma deliver_queue:
  "\<not> hb_suspended h \<Longrightarrow> hb_queued (deliver w c t opts h)
    = hb_queued h @ (if sends_now w c then [job_to w t opts c] else [])"
  by (cases rule: deliver_route [where h = h and w = w and c = c])
     (simp_all add: deliver_gone deliver_defer deliver_send sends_now_def job_to_def)

lemma deliver_all_queue:
  "\<not> hb_suspended h \<Longrightarrow> hb_queued (deliver_all w cs t opts h)
    = hb_queued h @ map (job_to w t opts) (filter (sends_now w) cs)"
proof (induction cs arbitrary: h)
  case (Cons c cs)
  then show ?case using Cons.IH [of "deliver w c t opts h"] by (simp add: deliver_all_def deliver_queue)
qed (simp add: deliver_all_def)

lemma deliver_deferred:
  "\<not> hb_suspended h \<Longrightarrow> map (\<lambda>d. (dw_target d, dw_opts d)) (deferred_of (deliver w c t opts h) x)
    = map (\<lambda>d. (dw_target d, dw_opts d)) (deferred_of h x) @ (if x = c \<and> keeps_for_later w c then [(t, opts)] else [])"
  by (cases rule: deliver_route [where h = h and w = w and c = c])
     (simp_all add: deliver_gone deliver_defer deliver_send keeps_for_later_def deferred_of_def map_of_jput)

lemma deliver_all_deferred:
  "\<not> hb_suspended h \<Longrightarrow> distinct cs \<Longrightarrow> map (\<lambda>d. (dw_target d, dw_opts d)) (deferred_of (deliver_all w cs t opts h) x)
    = map (\<lambda>d. (dw_target d, dw_opts d)) (deferred_of h x) @ (if x \<in> set cs \<and> keeps_for_later w x then [(t, opts)] else [])"
proof (induction cs arbitrary: h)
  case (Cons c cs)
  then show ?case using Cons.IH [of "deliver w c t opts h"] by (auto simp: deliver_all_def deliver_deferred)
qed (simp add: deliver_all_def)

text \<open>The kept wakes of a recipient, without the notes taken with them.\<close>

definition kept :: "hub \<Rightarrow> iid \<Rightarrow> (iid \<times> deliver_opts) list" where
  "kept h c = map (\<lambda>d. (dw_target d, dw_opts d)) (deferred_of h c)"

lemma deferred_of_cong: "hb_deferred h' = hb_deferred h \<Longrightarrow> deferred_of h' c = deferred_of h c"
  by (simp add: deferred_of_def)

lemma consume_reports:
  assumes d: "distinct (watchers h t)" and "\<not> hb_suspended h" "subs_of h t \<noteq> []"
  shows "subs_of (consume w t a h) t = []"
    and "hb_queued (consume w t a h) = hb_queued h @ map (job_to w t (wake_opts w t h)) (filter (sends_now w) (watchers h t))"
    and "kept (consume w t a h) c = kept h c
      @ (if c \<in> set (watchers h t) \<and> keeps_for_later w c then [(t, wake_opts w t h)] else [])"
proof -
  show "subs_of (consume w t a h) t = []" by (simp add: consume_subs)
  show "hb_queued (consume w t a h) = hb_queued h @ map (job_to w t (wake_opts w t h)) (filter (sends_now w) (watchers h t))"
    using assms by (simp add: consume_eq deliver_all_queue)
  show "kept (consume w t a h) c = kept h c
      @ (if c \<in> set (watchers h t) \<and> keeps_for_later w c then [(t, wake_opts w t h)] else [])"
    using assms deliver_all_deferred [of "release_target t a h" "watchers h t" w t "wake_opts w t h" c] d
      deferred_of_cong [of "release_target t a h" h c]
    by (simp add: consume_eq kept_def)
qed

lemma onTurnEnd_consumes:
  assumes "map_of w t = Some ti" "\<not> in_stopInterruptedTurn ti" "\<not> targetDefers ti" "\<not> fst (holds w t ti h)" "subs_of h t \<noteq> []"
  shows "onTurnEnd w t h = consume w t False ((cancelSettle t h)\<lparr>hb_justConsumed :=
     jput t (watchers h t) (hb_justConsumed h)\<rparr>)"
proof -
  let ?h2 = "(cancelSettle t h)\<lparr>hb_justConsumed := jput t (watchers (cancelSettle t h) t) (hb_justConsumed h)\<rparr>"
  have "\<not> fst (holds w t ti ?h2)" using assms(4) holds_cong [of ?h2 h w t ti] by simp
  from holds_False [OF this] show ?thesis using assms by (simp add: onTurnEnd_def Let_def watchers_def)
qed

lemma hub_run_mono: "hub_run p h h' \<Longrightarrow> hub_run (\<lambda>_. True) h h'"
proof (induction rule: rtranclp_induct)
  case (step x y)
  from step.hyps(2) have "hub_step (\<lambda>_. True) x y" by cases (auto intro: hub_step.intros)
  with step.IH show ?case by simp
qed simp

lemma run_wired: "hub_run p hub_init h \<Longrightarrow> wired h"
  using wiring.run hub_run_mono by blast

text \<open>
  C25.  One turn, one report to each owner: when a watched target's turn ends with no reason to
  defer or hold, its wakes are gone, and each owner that was armed gets exactly one report, in
  arming order: sent when it can take one now, kept for its own next boundary when it is in a turn
  that takes no steering, and dropped only when its process is gone.  Nothing else is sent or kept.
\<close>

theorem turn_end_reports_each_owner_once:
  assumes "hub_run p hub_init h" "map_of w t = Some ti" "\<not> in_stopInterruptedTurn ti" "\<not> targetDefers ti"
    and "\<not> fst (holds w t ti h)" "subs_of h t \<noteq> []" "\<not> hb_suspended h"
  shows "distinct (watchers h t) \<and> subs_of (onTurnEnd w t h) t = []
    \<and> hb_queued (onTurnEnd w t h) = hb_queued h @ map (job_to w t (wake_opts w t h)) (filter (sends_now w) (watchers h t))
    \<and> (\<forall>c. kept (onTurnEnd w t h) c = kept h c
         @ (if c \<in> set (watchers h t) \<and> keeps_for_later w c then [(t, wake_opts w t h)] else []))"
proof -
  let ?h2 = "(cancelSettle t h)\<lparr>hb_justConsumed := jput t (watchers h t) (hb_justConsumed h)\<rparr>"
  have same: "watchers ?h2 t = watchers h t" "kept ?h2 c = kept h c" "wake_opts w t ?h2 = wake_opts w t h" for c
    by (simp_all add: watchers_def subs_of_def kept_def deferred_of_def wake_opts_def takeHumanPrompts_def)
  have d: "distinct (watchers h t)"
    using wires_parts(5) [OF wired_parts(1) [OF run_wired [OF assms(1)]], of t] by (simp add: watchers_def jmap_ok_def)
  moreover have "subs_of ?h2 t \<noteq> []" using assms(6) same(1) by (simp flip: watchers_empty)
  ultimately show ?thesis
    unfolding onTurnEnd_consumes [OF assms(2-6)]
    using consume_reports [of ?h2 t w False] assms(7) d by (simp add: same)
qed

subsection \<open>Arming\<close>

lemma set_add_set [simp]: "set (set_add x xs) = insert x (set xs)"
  by (auto simp: set_add_def)

lemma set_add_distinct: "distinct xs \<Longrightarrow> distinct (set_add x xs)"
  by (simp add: set_add_def)

lemma fold_set_add: "distinct acc \<Longrightarrow> distinct (fold set_add xs acc) \<and> set (fold set_add xs acc) = set xs \<union> set acc"
  by (induction xs arbitrary: acc) (auto simp: set_add_distinct)

lemma ownersOf_distinct: "distinct (ownersOf w h t)"
  using fold_set_add [of "[] :: iid list"]
  by (auto simp: ownersOf_def Let_def set_add_distinct split: option.splits)

lemma ownersOf_live: "c \<in> set (ownersOf w h t) \<Longrightarrow> jhas w c \<and> c \<noteq> t"
  by (auto simp: ownersOf_def Let_def)

lemma wake_window_arm: "wake_window (snd (arm t c h)) = wake_window h"
  by (simp add: arm_def Let_def wake_window_def fun_eq_iff)

text \<open>The arming loop of \<open>onTurnStart\<close>.\<close>

definition arm_loop :: "iid \<Rightarrow> iid list \<Rightarrow> hub \<Rightarrow> bool \<times> hub" where
  "arm_loop t cs h = fold (\<lambda>c (a, h). let (ok, h') = arm t c h in (a \<or> ok, h')) cs (False, h)"

lemma arm_loop_snd: "snd (fold (\<lambda>c (a, h). let (ok, h') = arm t c h in (a \<or> ok, h')) cs (b, h)) = fold (\<lambda>c h. snd (arm t c h)) cs h"
proof (induction cs arbitrary: b h)
  case (Cons c cs)
  obtain ok h' where "arm t c h = (ok, h')" by fastforce
  with Cons show ?case by simp
qed simp

lemma arm_extends:
  "\<exists>new. subs_of (snd (arm t c h)) t = subs_of h t @ new
     \<and> map (\<lambda>(d, e). (d, se_timeoutMs e)) new = (if jhas (subs_of h t) c then [] else [(c, wake_window h t c)])"
  by (cases "jhas (subs_of h t) c") (auto simp: arm_subs_of jput_new)

lemma arms_extend:
  "distinct cs \<Longrightarrow> \<exists>new. subs_of (fold (\<lambda>c h. snd (arm t c h)) cs h) t = subs_of h t @ new
     \<and> map (\<lambda>(d, e). (d, se_timeoutMs e)) new = map (\<lambda>c. (c, wake_window h t c)) (filter (\<lambda>c. \<not> jhas (subs_of h t) c) cs)"
proof (induction cs arbitrary: h)
  case (Cons c cs)
  obtain n1 where n1: "subs_of (snd (arm t c h)) t = subs_of h t @ n1"
    "map (\<lambda>(d, e). (d, se_timeoutMs e)) n1 = (if jhas (subs_of h t) c then [] else [(c, wake_window h t c)])"
    using arm_extends by blast
  obtain n2 where n2: "subs_of (fold (\<lambda>c h. snd (arm t c h)) cs (snd (arm t c h))) t = subs_of (snd (arm t c h)) t @ n2"
    "map (\<lambda>(d, e). (d, se_timeoutMs e)) n2
      = map (\<lambda>c. (c, wake_window h t c)) (filter (\<lambda>d. \<not> jhas (subs_of (snd (arm t c h)) t) d) cs)"
    using Cons.IH [of "snd (arm t c h)"] Cons.prems by (auto simp: wake_window_arm)
  have same: "jhas (subs_of (snd (arm t c h)) t) d = jhas (subs_of h t) d" if "d \<in> set cs" for d
    using that Cons.prems by (auto simp: arm_subs_of)
  then have "filter (\<lambda>d. \<not> jhas (subs_of (snd (arm t c h)) t) d) cs = filter (\<lambda>d. \<not> jhas (subs_of h t) d) cs"
    by (intro filter_cong) simp_all
  with n1 n2 show ?case by (intro exI [of _ "n1 @ n2"]) simp
qed simp

lemma arms_other: "x \<noteq> t \<Longrightarrow> subs_of (fold (\<lambda>c h. snd (arm t c h)) cs h) x = subs_of h x"
  by (induction cs arbitrary: h) (simp_all add: arm_subs_of)

lemma arms_holding: "hb_holding (fold (\<lambda>c h. snd (arm t c h)) cs h) = hb_holding h"
proof (induction cs arbitrary: h)
  case (Cons c cs)
  then show ?case by (simp add: arm_def Let_def)
qed simp

lemma onTurnStart_fields:
  "subs_of (onTurnStart w t h) x = subs_of (fold (\<lambda>c h. snd (arm t c h)) (ownersOf w h t) (h\<lparr>hb_holding := removeAll t (hb_holding h)\<rparr>)) x"
  "hb_holding (onTurnStart w t h) = removeAll t (hb_holding h)"
proof -
  let ?h1 = "h\<lparr>hb_holding := removeAll t (hb_holding h)\<rparr>"
  have own: "ownersOf w ?h1 t = ownersOf w h t" by (simp add: ownersOf_def)
  obtain armed h2 where f: "fold (\<lambda>c (a, h). let (ok, h') = arm t c h in (a \<or> ok, h')) (ownersOf w ?h1 t) (False, ?h1) = (armed, h2)"
    by fastforce
  then have h2: "h2 = fold (\<lambda>c h. snd (arm t c h)) (ownersOf w h t) ?h1"
    using arm_loop_snd [of t "ownersOf w ?h1 t" False ?h1] by (simp add: own)
  have "subs_of (onTurnStart w t h) x = subs_of h2 x" "hb_holding (onTurnStart w t h) = hb_holding h2"
    unfolding onTurnStart_def Let_def f [unfolded Let_def] by (simp_all add: emit_changed_def subs_of_def)
  then show "subs_of (onTurnStart w t h) x = subs_of (fold (\<lambda>c h. snd (arm t c h)) (ownersOf w h t) ?h1) x"
    "hb_holding (onTurnStart w t h) = removeAll t (hb_holding h)"
    by (simp_all add: h2 arms_holding)
qed

text \<open>
   A turn arms every live owner once: after a turn start the wakes already armed on the target
  are still there, untouched and in order, followed by one new wake, at the owner's own window, for
  each live owner (spawner or dispatcher) not armed yet; no other target's wakes change, and the
  target is no longer held.
\<close>

theorem turn_start_arms_every_owner:
  "\<exists>new. subs_of (onTurnStart w t h) t = subs_of h t @ new
     \<and> map (\<lambda>(d, e). (d, se_timeoutMs e)) new
         = map (\<lambda>c. (c, wake_window h t c)) (filter (\<lambda>c. \<not> jhas (subs_of h t) c) (ownersOf w h t))
     \<and> (\<lambda>x. subs_of (onTurnStart w t h) x) = (subs_of h)(t := subs_of h t @ new)
     \<and> t \<notin> set (hb_holding (onTurnStart w t h))"
proof -
  let ?h1 = "h\<lparr>hb_holding := removeAll t (hb_holding h)\<rparr>"
  have same: "subs_of ?h1 = subs_of h" "wake_window ?h1 = wake_window h"
    by (simp_all add: subs_of_def wake_window_def fun_eq_iff)
  obtain new where new: "subs_of (onTurnStart w t h) t = subs_of h t @ new"
    "map (\<lambda>(d, e). (d, se_timeoutMs e)) new
      = map (\<lambda>c. (c, wake_window h t c)) (filter (\<lambda>c. \<not> jhas (subs_of h t) c) (ownersOf w h t))"
    using arms_extend [OF ownersOf_distinct, of t w h t ?h1] unfolding onTurnStart_fields same by blast
  moreover have "subs_of (onTurnStart w t h) x = subs_of h x" if "x \<noteq> t" for x
    using that by (simp add: onTurnStart_fields arms_other same)
  ultimately show ?thesis by (intro exI [of _ new]) (auto simp: onTurnStart_fields(2))
qed

subsection \<open>Mutual waits\<close>

text \<open>
  C30.  Mutual waits cannot deadlock: when sessions are armed only on each other, every one of them
  held and no wake on its way to any, the next release decision for one of them reports it to its
  owners.  Nothing stays armed on it, and each owner that was armed gets exactly one report, in
  arming order: sent when it can take one now, kept for its own next boundary when it is in a turn
  that takes no steering, and dropped only when its process is gone.  Nothing else is sent or kept.
  (An owner is armed on a session at most once.)
\<close>

theorem mutual_waits_are_released:
  assumes "only_mutual w h S" "t \<in> S" "t \<in> set (hb_holding h)" "\<not> hb_suspended h"
    and "map_of w t = Some ti" "in_proc ti \<noteq> None" "in_status ti = ''idle''" "\<not> targetDefers ti"
    and "distinct (watchers h t)"
  shows "subs_of (releaseHeld w t h) t = []
    \<and> hb_queued (releaseHeld w t h) = hb_queued h @ map (job_to w t (wake_opts w t h)) (filter (sends_now w) (watchers h t))
    \<and> (\<forall>c. kept (releaseHeld w t h) c = kept h c
         @ (if c \<in> set (watchers h t) \<and> keeps_for_later w c then [(t, wake_opts w t h)] else []))"
proof (cases "subs_of h t = []")
  case True
  then have "releaseHeld w t h = h" using assms by (simp add: releaseHeld_def)
  with True show ?thesis by (simp add: watchers_def)
next
  case False
  from holds_False [OF mutual_not_held [OF assms(1,2)]] False assms(3-8)
  have "releaseHeld w t h = consume w t True h" by (auto simp: releaseHeld_def)
  with consume_reports [OF assms(9,4) False, of w True] show ?thesis by simp
qed

subsection \<open>Timers\<close>

text \<open>
   No heartbeat leaks and none is missing: in every run, whatever is removed or severed, the
  live intervals are exactly those of the armed wakes, each with its wake's own owner, target and
  window, the live settle timers exactly those of the pending settles, and a settle is pending only
  for a watched target.
\<close>

theorem live_timers_are_the_armed_wakes:
  assumes "hub_run p hub_init h"
  shows "distinct (jkeys (hb_timers h))
    \<and> {(k, t, c, ms). (k, Heartbeat t c ms) \<in> set (hb_timers h)}
        = {(se_timer e, t, c, se_timeoutMs e) | t c e. map_of (subs_of h t) c = Some e}
    \<and> {(k, t). (k, Settle t) \<in> set (hb_timers h)} = {(ps_timer q, t) | t q. map_of (hb_settles h) t = Some q}
    \<and> {t. jhas (hb_settles h) t} \<subseteq> {t. hasArmedWake h t}"
proof -
  have w: "wired h" by (rule run_wired [OF assms])
  note parts = wires_parts [OF wired_parts(1) [OF w]]
  have tm: "(k, x) \<in> set (hb_timers h) \<longleftrightarrow> (k, x) \<in> accounted h" for k x
    using parts(2,3) by (simp add: timers_match_def jmap_ok_def)
  show ?thesis
    using parts(2) wired_parts(2) [OF w]
    by (auto simp: tm jmap_ok_def accounted_def heart_entries_def settle_entries_def hasArmedWake_def jhas_def)
qed

subsection \<open>Deliveries on their way\<close>

text \<open>
   A conductor never reads as finished with a report on its way: as long as it is not itself
  removed or severed, its in-flight count is the number of deliveries queued or being sent to it,
  and it has an entry exactly while there is one.
\<close>

theorem in_flight_counts_deliveries:
  assumes "hub_run (\<lambda>i. i \<noteq> c) hub_init h"
  shows "in_flight h c = jobs_for h c \<and> (jhas (hb_inFlight h) c \<longleftrightarrow> jobs_for h c > 0)"
proof -
  have "flight_ok c h" by (rule flight.run [OF assms])
  then show ?thesis by (auto simp: flight_ok_def in_flight_def jhas_def)
qed

end
