(* ===== verification/HubSever.thy ===== *)
theory HubSever
  imports HubProperties
begin

text \<open>Severing and purging an instance: what is left of it in the hub, and what is not.\<close>

subsection \<open>What a purge leaves\<close>

lemma redecide_only_holding:
  "\<exists>r. redecideHold w c h = h\<lparr>hb_holding := r\<rparr> \<and> set r \<subseteq> set (hb_holding h)"
proof (cases "c \<in> set (hb_holding h)")
  case False
  then show ?thesis by (intro exI [of _ "hb_holding h"]) (simp add: redecideHold_def)
next
  case True
  show ?thesis
  proof (cases "map_of w c")
    case None
    then show ?thesis using True by (auto simp: redecideHold_def)
  next
    case (Some ti)
    have "holds w c ti h = (True, h) \<or> holds w c ti h = (False, h)"
      using True by (auto simp: holds_def set_add_def)
    then have "redecideHold w c h = h\<lparr>hb_holding := hb_holding h\<rparr>
        \<or> redecideHold w c h = h\<lparr>hb_holding := removeAll c (hb_holding h)\<rparr>"
      using True Some by (auto simp: redecideHold_def)
    moreover have "set (removeAll c (hb_holding h)) \<subseteq> set (hb_holding h)" by auto
    ultimately show ?thesis by blast
  qed
qed

lemma redecides_only_holding:
  "\<exists>r. fold (\<lambda>c h. if c \<in> set [] then h else if False then releaseHeld w c h else redecideHold w c h) cs h
     = h\<lparr>hb_holding := r\<rparr> \<and> set r \<subseteq> set (hb_holding h)"
proof (induction cs arbitrary: h)
  case Nil
  show ?case by (intro exI [of _ "hb_holding h"]) simp
next
  case (Cons c cs)
  obtain r1 where r1: "redecideHold w c h = h\<lparr>hb_holding := r1\<rparr>" "set r1 \<subseteq> set (hb_holding h)"
    using redecide_only_holding by blast
  obtain r2 where "fold (\<lambda>c h. if c \<in> set [] then h else if False then releaseHeld w c h else redecideHold w c h) cs
      (h\<lparr>hb_holding := r1\<rparr>) = (h\<lparr>hb_holding := r1\<rparr>)\<lparr>hb_holding := r2\<rparr>" "set r2 \<subseteq> set r1"
    using Cons [of "h\<lparr>hb_holding := r1\<rparr>"] by auto
  then show ?case using r1 by auto
qed

lemma jdrop_not: "\<not> jhas m k \<Longrightarrow> jdrop k m = m"
  by (simp add: jhas_def delete_idem map_of_eq_None_iff)

lemma dropArmed_keeps [simp]:
  "hb_owners (dropArmed t c h) = hb_owners h" "hb_deferred (dropArmed t c h) = hb_deferred h"
  "hb_inFlight (dropArmed t c h) = hb_inFlight h" "set (hb_holding (dropArmed t c h)) \<subseteq> set (hb_holding h)"
  by (auto simp: dropArmed_def Let_def split: option.splits)

lemma drops_keep:
  "hb_owners (fold (\<lambda>t h. dropArmed t i h) ts h) = hb_owners h"
  "hb_deferred (fold (\<lambda>t h. dropArmed t i h) ts h) = hb_deferred h"
  "hb_inFlight (fold (\<lambda>t h. dropArmed t i h) ts h) = hb_inFlight h"
  by (induction ts arbitrary: h) simp_all

lemma drops_holding: "set (hb_holding (fold (\<lambda>t h. dropArmed t i h) ts h)) \<subseteq> set (hb_holding h)"
proof (induction ts arbitrary: h)
  case (Cons t ts)
  show ?case using subset_trans [OF Cons [of "dropArmed t i h"] dropArmed_keeps(4)] by simp
qed simp

lemma drops_subs: "subs_of (fold (\<lambda>t h. dropArmed t i h) ts h) x = (if x \<in> set ts then jdrop i (subs_of h x) else subs_of h x)"
  by (induction ts arbitrary: h) (auto simp: dropArmed_subs_of jdrop_not)

lemma declines_keep:
  "subs_of (fold (\<lambda>t h. snd (takeDecline t i h)) ts h) x = subs_of h x"
  "hb_owners (fold (\<lambda>t h. snd (takeDecline t i h)) ts h) = hb_owners h"
  "hb_deferred (fold (\<lambda>t h. snd (takeDecline t i h)) ts h) = hb_deferred h"
  "hb_inFlight (fold (\<lambda>t h. snd (takeDecline t i h)) ts h) = hb_inFlight h"
  "hb_holding (fold (\<lambda>t h. snd (takeDecline t i h)) ts h) = hb_holding h"
  by (induction ts arbitrary: h) simp_all

declare dropArmed_keeps(4) [simp del]

lemma unwatch_keeps [simp]:
  "hb_owners (unwatch t h) = hb_owners h" "hb_deferred (unwatch t h) = hb_deferred h"
  "hb_inFlight (unwatch t h) = hb_inFlight h" "hb_holding (unwatch t h) = hb_holding h"
  by (simp_all add: unwatch_def clear_entries_raw)

lemma unwatch_subs [simp]: "subs_of (unwatch t h) x = (if x = t then [] else subs_of h x)"
  by (simp add: unwatch_def clear_entries_raw subs_of_def map_of_jdrop)

lemma subs_of_absent: "x \<notin> set (jkeys (hb_subscribers h)) \<Longrightarrow> subs_of h x = []"
  using map_of_eq_None_iff [of "hb_subscribers h" x] by (simp add: subs_of_def)

lemma purge_maps_left:
  "subs_of (purge_maps i h) x = (if x = i then [] else jdrop i (subs_of h x))"
  "hb_owners (purge_maps i h) = purge_owners i (hb_owners h)"
  "hb_deferred (purge_maps i h) = jdrop i (hb_deferred h)"
  "hb_inFlight (purge_maps i h) = jdrop i (hb_inFlight h)"
  "i \<notin> set (hb_holding (purge_maps i h))"
proof -
  define h3 where "h3 = (let h2 = cancelSettle i (h\<lparr>hb_asked := removeAll i (hb_asked h), hb_human := jdrop i (hb_human h),
      hb_holding := removeAll i (hb_holding h)\<rparr>) in h2\<lparr>hb_owners := purge_owners i (hb_owners h2),
      hb_deferred := jdrop i (hb_deferred h2), hb_inFlight := jdrop i (hb_inFlight h2), hb_declines := jdrop i (hb_declines h2)\<rparr>)"
  define h5 where "h5 = unwatch i (fold (\<lambda>t h. snd (takeDecline t i h)) (jkeys (hb_declines h3)) h3)"
  have pm: "purge_maps i h = fold (\<lambda>t h. dropArmed t i h) (jkeys (hb_subscribers h5)) h5"
    by (simp add: purge_maps_def h5_def h3_def Let_def)
  have h3s: "subs_of h3 y = subs_of h y" for y by (simp add: h3_def Let_def subs_of_def)
  have h5s: "subs_of h5 y = (if y = i then [] else subs_of h y)" for y
    by (simp add: h5_def declines_keep h3s)
  show "subs_of (purge_maps i h) x = (if x = i then [] else jdrop i (subs_of h x))"
  proof (cases "x \<in> set (jkeys (hb_subscribers h5))")
    case True
    then show ?thesis by (simp add: pm drops_subs h5s)
  next
    case False
    with subs_of_absent [OF False] show ?thesis by (simp add: pm drops_subs h5s split: if_splits)
  qed
  have h5r: "hb_owners h5 = purge_owners i (hb_owners h)" "hb_deferred h5 = jdrop i (hb_deferred h)"
    "hb_inFlight h5 = jdrop i (hb_inFlight h)" "i \<notin> set (hb_holding h5)"
    by (simp_all add: h5_def declines_keep h3_def Let_def)
  then show "hb_owners (purge_maps i h) = purge_owners i (hb_owners h)" "hb_deferred (purge_maps i h) = jdrop i (hb_deferred h)"
    "hb_inFlight (purge_maps i h) = jdrop i (hb_inFlight h)" by (simp_all add: pm drops_keep)
  show "i \<notin> set (hb_holding (purge_maps i h))" using h5r(4) drops_holding unfolding pm by fast
qed

lemma purge_owners_clean:
  "\<not> jhas (purge_owners i m) i" "(t, os) \<in> set (purge_owners i m) \<Longrightarrow> \<not> jhas os i"
proof -
  have "i \<notin> fst ` set (purge_owners i m)"
    using jkeys_jdrop [of i m] by (force simp: purge_owners_def split: if_splits)
  then show "\<not> jhas (purge_owners i m) i" by (simp add: jhas_iff)
  have "\<not> jhas (jdrop i os') i" for os' :: "(iid, int option) jmap" by simp
  then show "\<not> jhas os i" if "(t, os) \<in> set (purge_owners i m)"
    using that unfolding purge_owners_def by (auto simp del: jhas_jdrop split: if_splits) metis
qed

lemma sever_deferred_clean:
  "(c, q) \<in> set (sever_deferred i m) \<Longrightarrow> d \<in> set q \<Longrightarrow> dw_target d \<noteq> i"
  "\<not> jhas m x \<Longrightarrow> \<not> jhas (sever_deferred i m) x"
proof -
  show "dw_target d \<noteq> i" if "(c, q) \<in> set (sever_deferred i m)" "d \<in> set q"
  proof (cases "dw_target d = i")
    case True
    then have "length (filter (\<lambda>d. dw_target d \<noteq> i) q) < length q"
      using that(2) by (intro length_filter_less) simp_all
    with that True show ?thesis by (auto simp: sever_deferred_def Let_def split: if_splits)
  qed
  show "\<not> jhas (sever_deferred i m) x" if "\<not> jhas m x"
    using that by (force simp: jhas_iff sever_deferred_def Let_def split: if_splits)
qed

subsection \<open>Severing\<close>

lemma emits_keep:
  "subs_of (fold emit_changed ts h) x = subs_of h x" "hb_subscribers (fold emit_changed ts h) = hb_subscribers h"
  "hb_owners (fold emit_changed ts h) = hb_owners h" "hb_deferred (fold emit_changed ts h) = hb_deferred h"
  "hb_inFlight (fold emit_changed ts h) = hb_inFlight h" "hb_holding (fold emit_changed ts h) = hb_holding h"
  by (induction ts arbitrary: h) (simp_all add: emit_changed_def subs_of_def)

lemma sever_left:
  assumes "i \<noteq> []"
  shows "subs_of (snd (severForOverageStop w i h)) x = (if x = i then [] else jdrop i (subs_of h x))"
    and "hb_owners (snd (severForOverageStop w i h)) = purge_owners i (hb_owners h)"
    and "hb_deferred (snd (severForOverageStop w i h)) = sever_deferred i (jdrop i (hb_deferred h))"
    and "hb_inFlight (snd (severForOverageStop w i h)) = jdrop i (hb_inFlight h)"
    and "i \<notin> set (hb_holding (snd (severForOverageStop w i h)))"
proof -
  obtain r where r: "purge w i False [] h = (purge_maps i h)\<lparr>hb_holding := r\<rparr>" "set r \<subseteq> set (hb_holding (purge_maps i h))"
    using redecides_only_holding [of w "watchers h i" "purge_maps i h"] assms unfolding purge_def by auto
  define h1 where "h1 = purge w i False [] h"
  have h1: "subs_of h1 y = (if y = i then [] else jdrop i (subs_of h y))" "hb_owners h1 = purge_owners i (hb_owners h)"
    "hb_deferred h1 = jdrop i (hb_deferred h)" "hb_inFlight h1 = jdrop i (hb_inFlight h)" "i \<notin> set (hb_holding h1)" for y
    using r(2) purge_maps_left [of i h] by (auto simp: h1_def r(1) subs_of_def)
  have eq: "snd (severForOverageStop w i h) = emit_changed i (fold emit_changed
      (map fst (filter (\<lambda>(t, cs). jhas cs i) (hb_subscribers h))) (h1\<lparr>hb_deferred := sever_deferred i (hb_deferred h1)\<rparr>))"
    using assms by (simp add: severForOverageStop_def Let_def h1_def)
  have one: "emit_changed i g = fold emit_changed [i] g" for g by simp
  have all: "snd (severForOverageStop w i h) = fold emit_changed (map fst (filter (\<lambda>(t, cs). jhas cs i) (hb_subscribers h)) @ [i])
      (h1\<lparr>hb_deferred := sever_deferred i (hb_deferred h1)\<rparr>)" by (simp add: eq)
  have "subs_of (h1\<lparr>hb_deferred := d\<rparr>) y = subs_of h1 y" for d y by (simp add: subs_of_def)
  then show "subs_of (snd (severForOverageStop w i h)) x = (if x = i then [] else jdrop i (subs_of h x))"
    "hb_owners (snd (severForOverageStop w i h)) = purge_owners i (hb_owners h)"
    "hb_deferred (snd (severForOverageStop w i h)) = sever_deferred i (jdrop i (hb_deferred h))"
    "hb_inFlight (snd (severForOverageStop w i h)) = jdrop i (hb_inFlight h)"
    "i \<notin> set (hb_holding (snd (severForOverageStop w i h)))"
    unfolding all emits_keep by (simp_all add: h1)
qed

lemma wired_mem: "wired h \<Longrightarrow> (t, cs) \<in> set (hb_subscribers h) \<Longrightarrow> subs_of h t = cs"
  using wires_parts(4) [OF wired_parts(1)] by (fastforce simp: subs_of_def jmap_ok_def)

text \<open>
   Severing cuts every edge of a stopped session: afterwards nobody is armed on it and it is
  armed on nobody, it owns nothing and nobody owns it by dispatch, nothing is kept for it, no kept
  wake names it, it is not held, it no longer reads as waiting, and no live timer mentions it.
\<close>

theorem severing_cuts_every_edge:
  assumes "hub_run p hub_init h" "i \<noteq> []" "h' = snd (severForOverageStop w i h)"
  shows "subs_of h' i = [] \<and> (\<forall>t. \<not> jhas (subs_of h' t) i)
    \<and> \<not> jhas (hb_owners h') i \<and> (\<nexists>t os. (t, os) \<in> set (hb_owners h') \<and> jhas os i)
    \<and> deferred_of h' i = [] \<and> (\<nexists>c d. d \<in> set (deferred_of h' c) \<and> dw_target d = i)
    \<and> i \<notin> set (hb_holding h') \<and> \<not> isCaller h' i
    \<and> (\<nexists>k c ms. (k, Heartbeat i c ms) \<in> set (hb_timers h')) \<and> (\<nexists>k t ms. (k, Heartbeat t i ms) \<in> set (hb_timers h'))
    \<and> (\<nexists>k. (k, Settle i) \<in> set (hb_timers h'))"
proof -
  have w: "wired h'" unfolding assms(3) by (rule wiring.sever [OF run_wired [OF assms(1)]]) simp
  note left = sever_left [OF assms(2), of w h, folded assms(3)]
  have subs: "subs_of h' i = []" "\<not> jhas (subs_of h' t) i" for t by (auto simp: left(1))
  have def_i: "\<not> jhas (hb_deferred h') i" unfolding left(3) by (rule sever_deferred_clean(2)) simp
  have def_t: "dw_target d \<noteq> i" if "d \<in> set (deferred_of h' c)" for c d
  proof -
    note d = that
    obtain q where "(c, q) \<in> set (hb_deferred h')" "d \<in> set q"
      using d map_of_SomeD [of "hb_deferred h'" c]
      by (cases "map_of (hb_deferred h') c") (auto simp: deferred_of_def)
    then show ?thesis unfolding left(3) by (rule sever_deferred_clean(1))
  qed
  have caller: "\<not> isCaller h' i"
  proof -
    have "\<not> jhas cs i" if "(t, cs) \<in> set (hb_subscribers h')" for t cs
      using subs(2) [of t] wired_mem [OF w that] by simp
    moreover have "\<not> jhas (hb_inFlight h') i" by (simp add: left(4))
    moreover have "map_of (hb_deferred h') i = None" using def_i by (simp add: jhas_def)
    ultimately show ?thesis by (auto simp: isCaller_def wake_coming_def)
  qed
  have tm: "(k, x) \<in> set (hb_timers h') \<longleftrightarrow> (k, x) \<in> accounted h'" for k x
    using wires_parts(2,3) [OF wired_parts(1) [OF w]] by (simp add: timers_match_def jmap_ok_def)
  have st: "map_of (hb_settles h') i = None" using wired_parts(2) [OF w, of i] subs(1) by blast
  have "deferred_of h' i = []" using def_i by (simp add: deferred_of_def jhas_def split: option.splits)
  moreover have "\<not> jhas (hb_owners h') i" "\<nexists>t os. (t, os) \<in> set (hb_owners h') \<and> jhas os i"
    unfolding left(2) using purge_owners_clean by blast+
  moreover have "\<nexists>k c ms. (k, Heartbeat i c ms) \<in> set (hb_timers h')" "\<nexists>k t ms. (k, Heartbeat t i ms) \<in> set (hb_timers h')"
    "\<nexists>k. (k, Settle i) \<in> set (hb_timers h')"
    using subs st by (auto simp: tm accounted_def heart_entries_def settle_entries_def jhas_def)
  ultimately show ?thesis using subs left(5) caller def_t by blast
qed

subsection \<open>A conductor and its worker\<close>

definition demo_inst :: inst where
  "demo_inst = \<lparr>in_sessionId = Some ''s'', in_proc = Some 1, in_status = ''idle'', in_activeAgentTasks = 0,
     in_taskNotificationPending = False, in_rotationPending = False, in_steerPending = False,
     in_turnForceAborted = False, in_stopInterruptedTurn = False, in_idleWindowDirty = False,
     in_nextSeq = Some 0, in_callerInstanceId = None, in_relaunching = False, in_mutating = False,
     in_acceptsMidTurnSteering = True, in_project = ''.conduct'', in_jobs = []\<rparr>"

definition demo_world :: world where
  "demo_world = [(''c'', demo_inst), (''w'', demo_inst\<lparr>in_sessionId := Some ''sw'', in_callerInstanceId := Some ''c''\<rparr>)]"

definition armed_hub :: hub where "armed_hub = onTurnStart demo_world ''w'' hub_init"

lemma armed_hub_run: "hub_run p hub_init armed_hub"
  unfolding armed_hub_def by (rule r_into_rtranclp) (rule hub_step.TurnStart)

theorem turn_end_reports_each_owner_once_witness:
  "distinct (watchers armed_hub ''w'') \<and> subs_of (onTurnEnd demo_world ''w'' armed_hub) ''w'' = []
    \<and> hb_queued (onTurnEnd demo_world ''w'' armed_hub) = hb_queued armed_hub
        @ map (job_to demo_world ''w'' (wake_opts demo_world ''w'' armed_hub)) (filter (sends_now demo_world) (watchers armed_hub ''w''))
    \<and> (\<forall>c. kept (onTurnEnd demo_world ''w'' armed_hub) c = kept armed_hub c
         @ (if c \<in> set (watchers armed_hub ''w'') \<and> keeps_for_later demo_world c
            then [(''w'', wake_opts demo_world ''w'' armed_hub)] else []))"
  by (rule turn_end_reports_each_owner_once [OF armed_hub_run, where ti = "demo_inst\<lparr>in_sessionId := Some ''sw'', in_callerInstanceId := Some ''c''\<rparr>"])
     code_simp+

theorem live_timers_are_the_armed_wakes_witness:
  "distinct (jkeys (hb_timers armed_hub))
    \<and> {(k, t, c, ms). (k, Heartbeat t c ms) \<in> set (hb_timers armed_hub)}
        = {(se_timer e, t, c, se_timeoutMs e) | t c e. map_of (subs_of armed_hub t) c = Some e}
    \<and> {(k, t). (k, Settle t) \<in> set (hb_timers armed_hub)} = {(ps_timer q, t) | t q. map_of (hb_settles armed_hub) t = Some q}
    \<and> {t. jhas (hb_settles armed_hub) t} \<subseteq> {t. hasArmedWake armed_hub t}"
  by (rule live_timers_are_the_armed_wakes [OF armed_hub_run])

text \<open>The worker's turn has ended: one report to the conductor is queued.\<close>

definition reporting_hub :: hub where "reporting_hub = onEvent demo_world ''w'' Ev_turn_end armed_hub"

lemma reporting_hub_run: "hub_run p hub_init reporting_hub"
  unfolding reporting_hub_def by (rule rtranclp.rtrancl_into_rtrancl [OF armed_hub_run]) (rule hub_step.Event)

theorem in_flight_counts_deliveries_witness:
  "in_flight reporting_hub ''c'' = jobs_for reporting_hub ''c''
    \<and> (jhas (hb_inFlight reporting_hub) ''c'' \<longleftrightarrow> jobs_for reporting_hub ''c'' > 0)
    \<and> in_flight reporting_hub ''c'' = 1"
proof -
  have "in_flight reporting_hub ''c'' = 1" by code_simp
  with in_flight_counts_deliveries [OF reporting_hub_run, of "''c''"] show ?thesis by blast
qed

theorem severing_cuts_every_edge_witness:
  "\<not> isCaller (snd (severForOverageStop demo_world ''c'' reporting_hub)) ''c'' \<and> isCaller reporting_hub ''c''"
proof -
  have "isCaller reporting_hub ''c''" by code_simp
  with severing_cuts_every_edge [OF reporting_hub_run _ refl, of "''c''" demo_world] show ?thesis by blast
qed

text \<open>
   A report already on its way survives the sever: a conductor stopped while a wake to it is
  being sent no longer reads as waiting, yet that wake still prompts it, so the sever does not keep
  it quiet (\<open>nothing may later wake it\<close>, says the comment).
\<close>

theorem sever_leaves_deliveries_in_flight:
  "\<exists>h. hub_run (\<lambda>_. True) hub_init h
     \<and> (let h' = snd (severForOverageStop demo_world ''c'' (startWake demo_world True None 0 h))
        in \<not> isCaller h' ''c'' \<and> jobs_for h' ''c'' = 1
          \<and> map wd_caller (hb_wakes (finishWake demo_world 0 True (Some ''s'') ''.conduct'' h')) = [''s''])"
proof (intro exI conjI)
  show "hub_run (\<lambda>_. True) hub_init reporting_hub" by (rule reporting_hub_run)
  show "let h' = snd (severForOverageStop demo_world ''c'' (startWake demo_world True None 0 reporting_hub))
        in \<not> isCaller h' ''c'' \<and> jobs_for h' ''c'' = 1
          \<and> map wd_caller (hb_wakes (finishWake demo_world 0 True (Some ''s'') ''.conduct'' h')) = [''s'']"
    by code_simp
qed

text \<open>Two sessions that own each other, both idle and held.\<close>

definition mutual_hub :: hub where
  "mutual_hub = hub_init\<lparr>hb_subscribers := [(''a'', [(''b'', \<lparr>se_timer = 0, se_timeoutMs = 1\<rparr>)]),
       (''b'', [(''a'', \<lparr>se_timer = 1, se_timeoutMs = 1\<rparr>)])], hb_holding := [''a'', ''b'']\<rparr>"

theorem mutual_waits_are_released_witness:
  "let w = [(''a'', demo_inst), (''b'', demo_inst)]; h = releaseHeld w ''a'' mutual_hub
   in subs_of mutual_hub ''a'' \<noteq> [] \<and> subs_of h ''a'' = [] \<and> map wj_caller (hb_queued h) = [''b'']"
proof -
  let ?w = "[(''a'', demo_inst), (''b'', demo_inst)]"
  have "only_mutual ?w mutual_hub {''a'', ''b''}"
    by (auto simp: only_mutual_def armed_on_def at_work_def mutual_hub_def hub_init_def wake_coming_def
        demo_inst_def targetDefers_def)
  then have released: "subs_of (releaseHeld ?w ''a'' mutual_hub) ''a'' = []
    \<and> hb_queued (releaseHeld ?w ''a'' mutual_hub) = hb_queued mutual_hub
        @ map (job_to ?w ''a'' (wake_opts ?w ''a'' mutual_hub)) (filter (sends_now ?w) (watchers mutual_hub ''a''))"
    using mutual_waits_are_released [where w = ?w and h = mutual_hub and t = "''a''" and S = "{''a'', ''b''}" and ti = demo_inst]
    by (simp add: mutual_hub_def hub_init_def demo_inst_def targetDefers_def watchers_def subs_of_def)
  have "subs_of mutual_hub ''a'' \<noteq> []" by code_simp
  moreover have "filter (sends_now ?w) (watchers mutual_hub ''a'') = [''b'']" "hb_queued mutual_hub = []" by code_simp+
  ultimately show ?thesis using released by (simp add: Let_def job_to_def make_job_def)
qed

end
