(* ===== verification/Ownership.thy ===== *)
theory Ownership
  imports HubSever PlaybookGate
begin

text \<open>
  The ownership walks: \<open>ownedTreeOf\<close> (everything a root owns, read by the headless completion
  predicate) and \<open>jobWaiters\<close> of \<open>src/backgroundJobs.ts\<close> (everything above a running background
  job).  The second takes the hub's \<open>ownersOf\<close> as an argument: the locale \<open>ownership\<close> is that
  interface, and the hub provides it.
\<close>

text \<open>What \<open>jobWaiters\<close> reads of an instance.\<close>

record job_inst =
  ji_id :: iid
  ji_status :: string
  ji_jobs :: "background_job list"

definition live_ids :: "job_inst list \<Rightarrow> iid list" where
  "live_ids insts = map ji_id (filter (\<lambda>i. \<not> isDeadStatus (ji_status i)) insts)"

definition job_holders :: "job_inst list \<Rightarrow> iid list" where
  "job_holders insts = map ji_id (filter (\<lambda>i. ji_id i \<in> set (live_ids insts) \<and> ji_jobs i \<noteq> []) insts)"

definition jobWaiters :: "job_inst list \<Rightarrow> (iid \<Rightarrow> iid list) \<Rightarrow> iid list" where
  "jobWaiters insts owners = grow (live_ids insts) owners (job_holders insts) (job_holders insts)"

locale ownership =
  fixes owners :: "iid \<Rightarrow> iid list" and registered :: "iid \<Rightarrow> bool"
  assumes once: "distinct (owners x)"
    and registered: "o' \<in> set (owners x) \<Longrightarrow> registered o'"
    and irreflexive: "x \<notin> set (owners x)"
begin

definition owned_by :: "(iid \<times> iid) set" where
  "owned_by = {(x, o'). o' \<in> set (owners x)}"

lemma waiters_set:
  "set (jobWaiters insts owners) = {y. \<exists>s \<in> set (job_holders insts).
     (s, y) \<in> {(a, b). (a, b) \<in> owned_by \<and> b \<in> set (live_ids insts)}\<^sup>*}"
proof -
  have "steps_in (live_ids insts) owners = {(a, b). (a, b) \<in> owned_by \<and> b \<in> set (live_ids insts)}"
    by (auto simp: steps_in_def owned_by_def)
  then show ?thesis by (simp add: jobWaiters_def grow_set)
qed

lemma waiters_once: "distinct (job_holders insts) \<Longrightarrow> distinct (jobWaiters insts owners)"
  unfolding jobWaiters_def by (rule grow_distinct) (auto intro: once)

text \<open>Walking down: everything registered that \<open>root\<close> owns transitively.\<close>

definition walk_down :: "iid list \<Rightarrow> iid \<Rightarrow> iid list" where
  "walk_down ids root = tl (grow ids (\<lambda>p. filter (\<lambda>x. p \<in> set (owners x)) ids) [root] [root])"

lemma walk_down_set:
  "set (root # walk_down ids root) = {y. (root, y) \<in> {(p, x). x \<in> set ids \<and> p \<in> set (owners x)}\<^sup>*}"
proof -
  have "steps_in ids (\<lambda>p. filter (\<lambda>x. p \<in> set (owners x)) ids) = {(p, x). x \<in> set ids \<and> p \<in> set (owners x)}"
    by (auto simp: steps_in_def)
  moreover obtain rest where "grow ids (\<lambda>p. filter (\<lambda>x. p \<in> set (owners x)) ids) [root] [root] = [root] @ rest"
    using grow_prefix by blast
  ultimately show ?thesis
    using grow_set [of ids "\<lambda>p. filter (\<lambda>x. p \<in> set (owners x)) ids" "[root]"] by (simp add: walk_down_def)
qed

lemma walk_down_once: "distinct ids \<Longrightarrow> distinct (root # walk_down ids root)"
proof -
  assume ids: "distinct ids"
  have eq: "grow ids (\<lambda>p. filter (\<lambda>x. p \<in> set (owners x)) ids) [root] [root] = root # walk_down ids root"
    using grow_prefix [of ids "\<lambda>p. filter (\<lambda>x. p \<in> set (owners x)) ids" "[root]" "[root]"]
    unfolding walk_down_def by (metis append_Cons append_Nil list.sel(3))
  have "distinct (grow ids (\<lambda>p. filter (\<lambda>x. p \<in> set (owners x)) ids) [root] [root])"
    by (rule grow_distinct) (use ids in auto)
  then show ?thesis by (simp only: eq)
qed

end

interpretation hub_owners: ownership "ownersOf w h" "jhas w" for w h
  by unfold_locales (auto simp: ownersOf_distinct dest: ownersOf_live)

lemma ownedTreeOf_walk: "ownedTreeOf w h root = hub_owners.walk_down w h (jkeys w) root"
  by (simp add: ownedTreeOf_def hub_owners.walk_down_def)

text \<open>
   The owned tree is exactly what a root owns transitively: the walk terminates whatever the
  ownership graph (sessions may own each other), and its answer is every registered session reached
  from the root by spawn or dispatch edges, the root left out and no session listed twice.
\<close>

theorem owned_tree_is_reachable_set:
  assumes "jmap_ok w"
  shows "distinct (ownedTreeOf w h root) \<and> root \<notin> set (ownedTreeOf w h root)
    \<and> insert root (set (ownedTreeOf w h root))
        = {y. (root, y) \<in> {(p, x). jhas w x \<and> p \<in> set (ownersOf w h x)}\<^sup>*}"
  using hub_owners.walk_down_set [of root w h "jkeys w"] hub_owners.walk_down_once [of "jkeys w" root w h] assms
  by (simp add: ownedTreeOf_walk jmap_ok_def jhas_iff)

theorem owned_tree_is_reachable_set_witness:
  "distinct (ownedTreeOf demo_world hub_init ''c'') \<and> ''c'' \<notin> set (ownedTreeOf demo_world hub_init ''c'')
    \<and> insert ''c'' (set (ownedTreeOf demo_world hub_init ''c''))
        = {y. (''c'', y) \<in> {(p, x). jhas demo_world x \<and> p \<in> set (ownersOf demo_world hub_init x)}\<^sup>*}"
  by (rule owned_tree_is_reachable_set) (simp add: demo_world_def jmap_ok_def)

text \<open>
   A session reads as waiting on a background job exactly when it is live and a live session
  with a job is at or below it: the climb follows the hub's owners, stops at a dead owner, and
  terminates on cyclic ownership.
\<close>

theorem job_waiters_are_the_live_owners_above:
  "set (jobWaiters insts (ownersOf w h)) = {y. \<exists>s \<in> set (job_holders insts).
     (s, y) \<in> {(a, b). b \<in> set (ownersOf w h a) \<and> b \<in> set (live_ids insts)}\<^sup>*}"
  using hub_owners.waiters_set [of insts w h] by (simp add: hub_owners.owned_by_def)

end
