(* ===== verification/SessionStore.thy ===== *)
theory SessionStore
  imports PlaybookTypes
begin

text \<open>
  The session store, \<open>src/sessionStore.ts\<close>, and the lineage rules over it, \<open>src/sessionLineage.ts\<close>:
  what cc records about a session, keyed by its permanent public id; the parser and the serializer
  of \<open>sessions.json\<close>; the resolution of an id to a record or a segment; every mutation of the
  document; and the read and write paths over the primary file, its rolling backup and the cache.

  Conventions.  An optional field of a record is an \<open>option\<close>; a flag \<open>x?: true\<close> is a \<open>bool\<close>; a
  counter whose absence means 0 is a \<open>nat\<close> (counters stay below \<open>2 ^ 53\<close>, where JavaScript's
  addition is exact); a list or a map whose absence means none is \<open>[]\<close>.  An id argument that is
  not a string is the empty one, which every operation refuses alike.  The document is an
  insertion-ordered map.  The clock (\<open>at\<close>), the collation of \<open>localeCompare\<close> and the outcome of
  each file system call are parameters; a file is what \<open>JSON.parse\<close> makes of its text.
\<close>

subsection \<open>The document\<close>

datatype rotation_reason = Initial | Renew | Prune

fun reason_text :: "rotation_reason \<Rightarrow> string" where
  "reason_text Initial = ''initial''"
| "reason_text Renew = ''renew''"
| "reason_text Prune = ''prune''"

definition VALID_REASONS :: "rotation_reason list" where
  "VALID_REASONS = [Initial, Renew, Prune]"

definition reason_of :: "string \<Rightarrow> rotation_reason option" where
  "reason_of s = List.find (\<lambda>r. reason_text r = s) VALID_REASONS"

record segment =
  sg_id :: string
  sg_reason :: rotation_reason
  sg_at :: string
  sg_dropped :: bool
  sg_temp :: bool
  sg_archived :: bool

record backend_record =
  bk_backend :: string
  bk_model :: "string option"
  bk_window :: "string option"

record model_switch =
  ms_id :: string
  ms_at :: string
  ms_segment :: string
  ms_afterUuid :: "string option"
  ms_from :: string
  ms_to :: string
  ms_ok :: bool
  ms_error :: "string option"
  ms_cancelled :: bool
  ms_fromBackend :: "string option"
  ms_toBackend :: "string option"

record tier_record =
  ti_summary :: string
  ti_generatedAt :: string
  ti_messageCount :: string

record session_record =
  sr_current :: string
  sr_segments :: "segment list"
  sr_title :: "string option"
  sr_mode :: "string option"
  sr_backend :: "backend_record option"
  sr_summaries :: "(string, tier_record) jmap"
  sr_conducted :: bool
  sr_turnEndSeq :: nat
  sr_viewedSeq :: nat
  sr_parent :: "string option"
  sr_project :: "string option"
  sr_worktree :: "string option"
  sr_modelSwitches :: "model_switch list"

type_synonym sessions_doc = "(string, session_record) jmap"

definition liveSegments :: "session_record \<Rightarrow> segment list" where
  "liveSegments r = filter (\<lambda>s. \<not> sg_dropped s) (sr_segments r)"

definition new_segment :: "string \<Rightarrow> rotation_reason \<Rightarrow> string \<Rightarrow> bool \<Rightarrow> segment" where
  "new_segment i reason at temp =
     \<lparr>sg_id = i, sg_reason = reason, sg_at = at, sg_dropped = False, sg_temp = temp, sg_archived = False\<rparr>"

text \<open>A record with an identity and no facts.\<close>

definition bare_record :: "string \<Rightarrow> segment list \<Rightarrow> session_record" where
  "bare_record cur segs =
     \<lparr>sr_current = cur, sr_segments = segs, sr_title = None, sr_mode = None, sr_backend = None,
      sr_summaries = [], sr_conducted = False, sr_turnEndSeq = 0, sr_viewedSeq = 0, sr_parent = None,
      sr_project = None, sr_worktree = None, sr_modelSwitches = []\<rparr>"

definition baseCaseRecord :: "string \<Rightarrow> string \<Rightarrow> session_record" where
  "baseCaseRecord at i = bare_record i [new_segment i Initial at False]"

subsection \<open>Parsing \<open>sessions.json\<close>\<close>

definition MODES :: "string list" where
  "MODES = [''plan'', ''bypassPermissions'']"

definition MAX_TITLE_LEN :: nat where "MAX_TITLE_LEN = 100"

definition normalizeTitle :: "string \<Rightarrow> string" where
  "normalizeTitle t = take MAX_TITLE_LEN (js_trim t)"

definition SUMMARY_LENGTHS :: "string list" where
  "SUMMARY_LENGTHS = [''short'', ''medium'', ''long'', ''title'']"

fun as_num :: "json option \<Rightarrow> string option" where
  "as_num (Some (JNum n)) = Some n"
| "as_num _ = None"

text \<open>\<open>normalizeTierRecord\<close>: a summary with text; a missing stamp or count reads as 0.\<close>

definition normalizeTierRecord :: "json option \<Rightarrow> tier_record option" where
  "normalizeTierRecord v =
     (let r = asRecord v in
      case as_str (map_of r ''summary'') of
        None \<Rightarrow> None
      | Some s \<Rightarrow> if js_trim s = [] then None
          else Some \<lparr>ti_summary = js_trim s,
                     ti_generatedAt = (case as_num (map_of r ''generatedAt'') of Some n \<Rightarrow> n | None \<Rightarrow> ''0''),
                     ti_messageCount = (case as_num (map_of r ''messageCount'') of Some n \<Rightarrow> n | None \<Rightarrow> ''0'')\<rparr>)"

definition normalizeSummaryTiers :: "json option \<Rightarrow> (string, tier_record) jmap" where
  "normalizeSummaryTiers v =
     List.map_filter (\<lambda>len. map_option (Pair len) (normalizeTierRecord (map_of (asRecord v) len))) SUMMARY_LENGTHS"

text \<open>\<open>Number.isFinite\<close> holds of every number of a JSON text.\<close>

definition parseBackend :: "json option \<Rightarrow> backend_record option" where
  "parseBackend v =
     (let r = asRecord v in
      map_option (\<lambda>b. \<lparr>bk_backend = b, bk_model = nonempty_str (map_of r ''model''),
                       bk_window = as_num (map_of r ''contextWindowTokens'')\<rparr>)
        (nonempty_str (map_of r ''backend'')))"

text \<open>A string read for its truth value: the empty one is as good as absent.\<close>

definition truthy_text :: "string option \<Rightarrow> string option" where
  "truthy_text v = (if v = Some [] then None else v)"

text \<open>The pair of a switch that crossed backends is all or nothing.\<close>

definition crossedBackends :: "string option \<Rightarrow> string option \<Rightarrow> string option \<times> string option" where
  "crossedBackends f t =
     (if truthy_text f \<noteq> None \<and> truthy_text t \<noteq> None \<and> f \<noteq> t then (f, t) else (None, None))"

fun as_bool :: "json option \<Rightarrow> bool option" where
  "as_bool (Some (JBool b)) = Some b"
| "as_bool _ = None"

abbreviation is_true :: "json option \<Rightarrow> bool" where
  "is_true v \<equiv> v = Some (JBool True)"

definition parseModelSwitch :: "json \<Rightarrow> model_switch option" where
  "parseModelSwitch v =
     (let r = asRecord (Some v); str = (\<lambda>k. nonempty_str (map_of r k)) in
      case (str ''id'', str ''segment'', str ''from'', str ''to'', as_bool (map_of r ''ok'')) of
        (Some i, Some seg, Some f, Some t, Some ok) \<Rightarrow>
          if map_of r ''afterUuid'' \<noteq> Some JNull \<and> str ''afterUuid'' = None then None
          else Some \<lparr>ms_id = i, ms_at = str_or_empty (map_of r ''at''), ms_segment = seg,
                     ms_afterUuid = str ''afterUuid'', ms_from = f, ms_to = t, ms_ok = ok,
                     ms_error = str ''error'', ms_cancelled = is_true (map_of r ''cancelled''),
                     ms_fromBackend = fst (crossedBackends (str ''fromBackend'') (str ''toBackend'')),
                     ms_toBackend = snd (crossedBackends (str ''fromBackend'') (str ''toBackend''))\<rparr>
      | _ \<Rightarrow> None)"

text \<open>A number's decimal text, and the count it reads as: a positive integer, or nothing.\<close>

function num_text :: "nat \<Rightarrow> string" where
  "num_text n = (if n < 10 then [char_of (48 + n)] else num_text (n div 10) @ [char_of (48 + n mod 10)])"
  by pat_completeness auto
termination by (relation "measure id") auto

declare num_text.simps [simp del]

definition digits_value :: "string \<Rightarrow> nat" where
  "digits_value s = foldl (\<lambda>n c. 10 * n + (of_char c - 48)) 0 s"

definition count :: "json option \<Rightarrow> nat" where
  "count v = (case as_num v of Some s \<Rightarrow> if list_all is_digit s then digits_value s else 0 | None \<Rightarrow> 0)"

definition parse_segment :: "json \<Rightarrow> segment option" where
  "parse_segment v =
     (let s = asRecord (Some v) in
      case nonempty_str (map_of s ''id'') of
        None \<Rightarrow> None
      | Some i \<Rightarrow>
          map_option (\<lambda>reason. \<lparr>sg_id = i, sg_reason = reason, sg_at = str_or_empty (map_of s ''at''),
              sg_dropped = is_true (map_of s ''dropped''), sg_temp = is_true (map_of s ''temp''),
              sg_archived = is_true (map_of s ''archived'')\<rparr>)
            (reason_of (str_or_empty (map_of s ''reason''))))"

definition nonempty_title :: "json option \<Rightarrow> string option" where
  "nonempty_title v = (let t = normalizeTitle (str_or_empty v) in if t = [] then None else Some t)"

definition known_mode :: "json option \<Rightarrow> string option" where
  "known_mode v = (case as_str v of Some m \<Rightarrow> if m \<in> set MODES then Some m else None | None \<Rightarrow> None)"

definition parse_record :: "json \<Rightarrow> session_record option" where
  "parse_record value =
     (let v = asRecord (Some value) in
      case (nonempty_str (map_of v ''current''), map_of v ''segments'') of
        (Some cur, Some (JArr xs)) \<Rightarrow>
          let segments = List.map_filter parse_segment xs in
          if list_all sg_dropped segments then None
          else Some \<lparr>sr_current = cur, sr_segments = segments,
                     sr_title = nonempty_title (map_of v ''title''),
                     sr_mode = known_mode (map_of v ''mode''),
                     sr_backend = parseBackend (map_of v ''backend''),
                     sr_summaries = normalizeSummaryTiers (map_of v ''summaries''),
                     sr_conducted = is_true (map_of v ''conducted''),
                     sr_turnEndSeq = count (map_of v ''turnEndSeq''),
                     sr_viewedSeq = count (map_of v ''viewedSeq''),
                     sr_parent = nonempty_str (map_of v ''parent''),
                     sr_project = nonempty_str (map_of v ''project''),
                     sr_worktree = nonempty_str (map_of v ''worktree''),
                     sr_modelSwitches = (case map_of v ''modelSwitches'' of
                        Some (JArr es) \<Rightarrow> List.map_filter parseModelSwitch es | _ \<Rightarrow> [])\<rparr>
      | _ \<Rightarrow> None)"

definition parseSessionsDoc :: "json \<Rightarrow> sessions_doc" where
  "parseSessionsDoc obj =
     fold (\<lambda>(k, value) out. if k = [] then out
             else case parse_record value of Some r \<Rightarrow> jput k r out | None \<Rightarrow> out)
       (asRecord (map_of (asRecord (Some obj)) ''sessions'')) []"

subsection \<open>Serializing it\<close>

text \<open>A member present only when there is something to write.\<close>

definition member :: "string \<Rightarrow> json option \<Rightarrow> args" where
  "member k v = (case v of Some x \<Rightarrow> [(k, x)] | None \<Rightarrow> [])"

abbreviation flag_member :: "string \<Rightarrow> bool \<Rightarrow> args" where
  "flag_member k b \<equiv> member k (if b then Some (JBool True) else None)"

abbreviation str_member :: "string \<Rightarrow> string option \<Rightarrow> args" where
  "str_member k v \<equiv> member k (map_option JStr (truthy_text v))"

abbreviation count_member :: "string \<Rightarrow> nat \<Rightarrow> args" where
  "count_member k n \<equiv> member k (if n = 0 then None else Some (JNum (num_text n)))"

definition null_or :: "('a \<Rightarrow> json) \<Rightarrow> 'a option \<Rightarrow> json" where
  "null_or f v = (case v of Some x \<Rightarrow> f x | None \<Rightarrow> JNull)"

definition segment_json :: "segment \<Rightarrow> json" where
  "segment_json s = JObj
     ([(''id'', JStr (sg_id s)), (''reason'', JStr (reason_text (sg_reason s))), (''at'', JStr (sg_at s))]
      @ flag_member ''dropped'' (sg_dropped s) @ flag_member ''temp'' (sg_temp s)
      @ flag_member ''archived'' (sg_archived s))"

definition backend_json :: "backend_record \<Rightarrow> json" where
  "backend_json b = JObj [(''backend'', JStr (bk_backend b)), (''model'', null_or JStr (bk_model b)),
     (''contextWindowTokens'', null_or JNum (bk_window b))]"

definition tier_json :: "tier_record \<Rightarrow> json" where
  "tier_json t = JObj [(''summary'', JStr (ti_summary t)), (''generatedAt'', JNum (ti_generatedAt t)),
     (''messageCount'', JNum (ti_messageCount t))]"

definition switch_json :: "model_switch \<Rightarrow> json" where
  "switch_json e = JObj
     ([(''id'', JStr (ms_id e)), (''at'', JStr (ms_at e)), (''segment'', JStr (ms_segment e)),
       (''afterUuid'', null_or JStr (ms_afterUuid e)), (''from'', JStr (ms_from e)), (''to'', JStr (ms_to e)),
       (''ok'', JBool (ms_ok e))]
      @ str_member ''error'' (ms_error e) @ flag_member ''cancelled'' (ms_cancelled e)
      @ str_member ''fromBackend'' (fst (crossedBackends (ms_fromBackend e) (ms_toBackend e)))
      @ str_member ''toBackend'' (snd (crossedBackends (ms_fromBackend e) (ms_toBackend e))))"

definition record_json :: "session_record \<Rightarrow> json" where
  "record_json r = JObj
     ([(''current'', JStr (sr_current r)), (''segments'', JArr (map segment_json (sr_segments r)))]
      @ str_member ''title'' (sr_title r) @ str_member ''mode'' (sr_mode r)
      @ member ''backend'' (map_option backend_json (sr_backend r))
      @ member ''summaries'' (if sr_summaries r = [] then None
          else Some (JObj (jmap_vals tier_json (sr_summaries r))))
      @ flag_member ''conducted'' (sr_conducted r)
      @ count_member ''turnEndSeq'' (sr_turnEndSeq r) @ count_member ''viewedSeq'' (sr_viewedSeq r)
      @ str_member ''parent'' (sr_parent r) @ str_member ''project'' (sr_project r)
      @ str_member ''worktree'' (sr_worktree r)
      @ member ''modelSwitches'' (if sr_modelSwitches r = [] then None
          else Some (JArr (map switch_json (sr_modelSwitches r)))))"

text \<open>
  The members of the object literal are assigned one by one in collation order.  Assigning
  \<open>__proto__\<close> sets the prototype, not a member, and \<open>JSON.stringify\<close> lists the members whose keys
  are array indices first, by value.
\<close>

definition array_index :: "string \<Rightarrow> bool" where
  "array_index k \<longleftrightarrow> list_all is_digit k \<and> num_text (digits_value k) = k \<and> digits_value k < 2 ^ 32 - 1"

definition own_key_order :: "string list \<Rightarrow> string list" where
  "own_key_order ks = sort_key digits_value (filter array_index ks) @ filter (\<lambda>k. \<not> array_index k) ks"

definition serializeSessionsDoc :: "(string list \<Rightarrow> string list) \<Rightarrow> sessions_doc \<Rightarrow> json" where
  "serializeSessionsDoc collate doc = JObj [(''sessions'', JObj
     (List.map_filter (\<lambda>k. map_option (\<lambda>r. (k, record_json r)) (map_of doc k))
       (own_key_order (filter (\<lambda>k. k \<noteq> ''__proto__'') (collate (jkeys doc))))))]"

subsection \<open>Index and resolution\<close>

record session_index =
  byPublic :: sessions_doc
  byBacking :: "(string, string) jmap"

definition indexSessions :: "sessions_doc \<Rightarrow> session_index" where
  "indexSessions doc = \<lparr>byPublic = doc,
     byBacking = fold (\<lambda>(p, r) m. fold (\<lambda>s. jput (sg_id s) p) (liveSegments r) m) doc []\<rparr>"

definition resolveOwner :: "session_index \<Rightarrow> string \<Rightarrow> string option" where
  "resolveOwner ix i = (if jhas (byPublic ix) i then Some i else map_of (byBacking ix) i)"

definition recordFor :: "session_index \<Rightarrow> string \<Rightarrow> session_record option" where
  "recordFor ix i = (case resolveOwner ix i of Some p \<Rightarrow> map_of (byPublic ix) p | None \<Rightarrow> None)"

definition holds_segment :: "string \<Rightarrow> session_record \<Rightarrow> bool" where
  "holds_segment i r \<longleftrightarrow> list_ex (\<lambda>s. sg_id s = i) (sr_segments r)"

text \<open>The owner over the full chain, tombstones included: the first record that lists the id.\<close>

definition fullChainOwner :: "sessions_doc \<Rightarrow> string \<Rightarrow> (string \<times> session_record) option" where
  "fullChainOwner doc i = List.find (\<lambda>(p, r). holds_segment i r) doc"

definition is_hex :: "char \<Rightarrow> bool" where
  "is_hex c \<longleftrightarrow> is_digit c \<or> CHR ''a'' \<le> c \<and> c \<le> CHR ''f''"

text \<open>The two shapes \<open>mintPublicId\<close> produces: 8 hex digits, or 8, a dash and 4.\<close>

definition isMintedPublicId :: "string \<Rightarrow> bool" where
  "isMintedPublicId i \<longleftrightarrow> list_all is_hex (take 8 i)
     \<and> (length i = 8 \<or> length i = 13 \<and> i ! 8 = CHR ''-'' \<and> list_all is_hex (drop 9 i))"

text \<open>
  A write target: the public id and the record, a refusal, or nothing to write to.  With
  \<open>create\<close> an unknown id that is not minted-shaped gets its base-case record.
\<close>

datatype refusal = Unknown_public_id | Segment_dropped | Owner_lacks_segment string | Minted_shaped

datatype target = Target string session_record | Refused refusal | No_target

definition ensureRecord :: "bool \<Rightarrow> string \<Rightarrow> sessions_doc \<Rightarrow> string \<Rightarrow> target \<times> sessions_doc" where
  "ensureRecord create at doc i =
     (case map_of doc i of
        Some r \<Rightarrow> (Target i r, doc)
      | None \<Rightarrow> (case fullChainOwner doc i of
          Some (p, r) \<Rightarrow> (Target p r, doc)
        | None \<Rightarrow>
            if isMintedPublicId i then (Refused Unknown_public_id, doc)
            else if \<not> create then (No_target, doc)
            else (Target i (baseCaseRecord at i), jput i (baseCaseRecord at i) doc)))"

definition find_segment :: "string \<Rightarrow> session_record \<Rightarrow> segment option" where
  "find_segment i r = List.find (\<lambda>s. sg_id s = i) (sr_segments r)"

definition new_segment_target :: "bool \<Rightarrow> string \<Rightarrow> sessions_doc \<Rightarrow> string \<Rightarrow> target \<times> sessions_doc" where
  "new_segment_target create at doc i =
     (if isMintedPublicId i then (Refused Minted_shaped, doc)
      else if \<not> create then (No_target, doc)
      else (Target i (baseCaseRecord at i), jput i (baseCaseRecord at i) doc))"

definition ensureSegment ::
  "bool \<Rightarrow> string \<Rightarrow> sessions_doc \<Rightarrow> string \<Rightarrow> string option \<Rightarrow> target \<times> sessions_doc" where
  "ensureSegment create at doc i owner =
     (case fullChainOwner doc i of
        Some (p, r) \<Rightarrow>
          (case find_segment i r of
             Some s \<Rightarrow> if sg_dropped s then (Refused Segment_dropped, doc) else (Target p r, doc)
           | None \<Rightarrow> (No_target, doc))
      | None \<Rightarrow>
          (case truthy_text owner of
             Some ow \<Rightarrow> if jhas doc ow then (Refused (Owner_lacks_segment ow), doc) else new_segment_target create at doc i
           | None \<Rightarrow> new_segment_target create at doc i))"

text \<open>A transcript file name's owner, record and segment.\<close>

definition fileFacts :: "session_index \<Rightarrow> string \<Rightarrow> string \<times> session_record option \<times> segment option" where
  "fileFacts ix f =
     (case truthy_text (map_of (byBacking ix) f) of
        None \<Rightarrow> (f, None, None)
      | Some p \<Rightarrow> (p, map_of (byPublic ix) p,
          (case map_of (byPublic ix) p of
             Some r \<Rightarrow> List.find (\<lambda>s. sg_id s = f \<and> \<not> sg_dropped s) (sr_segments r)
           | None \<Rightarrow> None)))"

end
