(* ===== verification/SessionWrites.thy ===== *)
theory SessionWrites
  imports SessionStore
begin

text \<open>
  The mutations of the session document, \<open>src/sessionStore.ts\<close> and \<open>src/sessionLineage.ts\<close>.
  An operation either answers at once or hands the write path an \<open>apply\<close> and a \<open>precheck\<close>:
  \<open>apply\<close> runs on the document re-read under the lock and says whether to write, \<open>precheck\<close>
  runs on the cached one and answers when nothing would change.
\<close>

type_synonym 'r apply_fn = "sessions_doc \<Rightarrow> bool \<times> 'r \<times> sessions_doc"
type_synonym 'r precheck_fn = "sessions_doc \<Rightarrow> 'r option"

datatype 'r call = Answer 'r | Mutate "'r apply_fn" "'r precheck_fn"

abbreviation no_precheck :: "'r precheck_fn" where
  "no_precheck \<equiv> \<lambda>_. None"

subsection \<open>Identity: the lineage of a session\<close>

definition PUBLIC_ID_LEN :: nat where "PUBLIC_ID_LEN = 8"
definition PUBLIC_ID_LEN_EXTENDED :: nat where "PUBLIC_ID_LEN_EXTENDED = 13"

definition minted_id :: "sessions_doc \<Rightarrow> string \<Rightarrow> string" where
  "minted_id doc first =
     (if \<not> jhas doc (take PUBLIC_ID_LEN first) then take PUBLIC_ID_LEN first
      else if \<not> jhas doc (take PUBLIC_ID_LEN_EXTENDED first) then take PUBLIC_ID_LEN_EXTENDED first
      else first)"

definition mintPublicId :: "string \<Rightarrow> string \<Rightarrow> string call" where
  "mintPublicId at first = Mutate
     (\<lambda>doc. let p = minted_id doc first in (True, p, jput p (baseCaseRecord at first) doc))
     no_precheck"

text \<open>The newest live segment's id, \<open>liveSegments(rec).at(-1)?.id\<close>.\<close>

definition newest_live :: "session_record \<Rightarrow> string option" where
  "newest_live r = (if liveSegments r = [] then None else Some (sg_id (last (liveSegments r))))"

definition rotation_done :: "string \<Rightarrow> session_record \<Rightarrow> bool" where
  "rotation_done b r \<longleftrightarrow> sr_current r = b \<and> newest_live r = Some b"

text \<open>The segment \<open>current\<close> names, when it is live.\<close>

definition current_segment :: "session_record \<Rightarrow> segment option" where
  "current_segment r = List.find (\<lambda>s. sg_id s = sr_current r \<and> \<not> sg_dropped s) (sr_segments r)"

definition rotate :: "string \<Rightarrow> string \<Rightarrow> rotation_reason \<Rightarrow> session_record \<Rightarrow> session_record" where
  "rotate at b reason r =
     r\<lparr>sr_segments := sr_segments r @ [new_segment b reason at
         (case current_segment r of Some s \<Rightarrow> sg_temp s | None \<Rightarrow> False)],
       sr_current := b\<rparr>"

text \<open>A reason outside \<open>VALID_REASONS\<close> is a rejected promise; the type leaves only valid ones.\<close>

definition recordRotation :: "string \<Rightarrow> string \<Rightarrow> string \<Rightarrow> rotation_reason \<Rightarrow> unit call" where
  "recordRotation at p b reason =
     (if p = [] \<or> b = [] then Answer ()
      else Mutate
        (\<lambda>doc. let r = (case map_of doc p of Some r \<Rightarrow> r | None \<Rightarrow> baseCaseRecord at p) in
           if rotation_done b r then (False, (), doc)
           else (True, (), jput p (rotate at b reason r) doc))
        (\<lambda>doc. case map_of doc p of
           Some r \<Rightarrow> if rotation_done b r then Some () else None
         | None \<Rightarrow> None))"

definition retired :: "segment \<Rightarrow> bool" where
  "retired s \<longleftrightarrow> sg_archived s \<and> \<not> sg_temp s"

text \<open>Update the first segment that carries an id, the one \<open>find\<close> returned.\<close>

fun map_first :: "('a \<Rightarrow> bool) \<Rightarrow> ('a \<Rightarrow> 'a) \<Rightarrow> 'a list \<Rightarrow> 'a list" where
  "map_first P f [] = []"
| "map_first P f (x # xs) = (if P x then f x # xs else x # map_first P f xs)"

definition update_segment :: "string \<Rightarrow> (segment \<Rightarrow> segment) \<Rightarrow> session_record \<Rightarrow> session_record" where
  "update_segment i f r = r\<lparr>sr_segments := map_first (\<lambda>s. sg_id s = i) f (sr_segments r)\<rparr>"

definition segment_satisfies :: "(segment \<Rightarrow> bool) \<Rightarrow> string \<Rightarrow> session_record \<Rightarrow> bool" where
  "segment_satisfies P i r = (case find_segment i r of Some s \<Rightarrow> P s | None \<Rightarrow> False)"

definition retire_one :: "string \<Rightarrow> string option \<Rightarrow> string \<Rightarrow> bool \<times> sessions_doc \<Rightarrow> bool \<times> sessions_doc" where
  "retire_one at owner i = (\<lambda>(changed, doc).
     case ensureSegment True at doc i owner of
       (Target p r, doc') \<Rightarrow>
         if segment_satisfies retired i r then (changed, doc')
         else (True, jput p (update_segment i (\<lambda>s. s\<lparr>sg_temp := False, sg_archived := True\<rparr>) r) doc')
     | (_, doc') \<Rightarrow> (changed, doc'))"

definition all_retired :: "string option \<Rightarrow> string list \<Rightarrow> sessions_doc \<Rightarrow> bool" where
  "all_retired owner ids doc = list_all (\<lambda>i.
     case ensureSegment False [] doc i owner of
       (Target p r, _) \<Rightarrow> segment_satisfies retired i r | _ \<Rightarrow> False) ids"

definition retireSegments :: "string \<Rightarrow> string list \<Rightarrow> string option \<Rightarrow> unit call" where
  "retireSegments at backing owner =
     (let ids = rev (remdups (rev (filter (\<lambda>i. i \<noteq> []) backing))) in
      if ids = [] then Answer ()
      else Mutate
        (\<lambda>doc. let (changed, doc') = fold (retire_one at owner) ids (False, doc) in (changed, (), doc'))
        (\<lambda>doc. if all_retired owner ids doc then Some () else None))"

definition retireSegment :: "string \<Rightarrow> string \<Rightarrow> string option \<Rightarrow> unit call" where
  "retireSegment at b owner = (if b = [] then Answer () else retireSegments at [b] owner)"

text \<open>Remove the last live segment: the last position that is not a tombstone.\<close>

definition remove_newest_live :: "session_record \<Rightarrow> segment list" where
  "remove_newest_live r =
     (let (tail, rest) = (takeWhile sg_dropped (rev (sr_segments r)), dropWhile sg_dropped (rev (sr_segments r)))
      in rev (tl rest) @ rev tail)"

definition revert :: "string \<Rightarrow> session_record \<Rightarrow> sessions_doc \<Rightarrow> sessions_doc" where
  "revert p r doc =
     (let r' = r\<lparr>sr_segments := remove_newest_live r\<rparr> in
      case newest_live r' of
        None \<Rightarrow> jdrop p doc
      | Some i \<Rightarrow> jput p (r'\<lparr>sr_current := i\<rparr>) doc)"

definition revertRotation :: "string \<Rightarrow> string \<Rightarrow> unit call" where
  "revertRotation p b =
     (if p = [] \<or> b = [] then Answer ()
      else Mutate
        (\<lambda>doc. case map_of doc p of
           None \<Rightarrow> (False, (), doc)
         | Some r \<Rightarrow> if newest_live r \<noteq> Some b then (False, (), doc) else (True, (), revert p r doc))
        no_precheck)"

text \<open>
  Tombstone a segment.  \<open>liveSegments(rec).filter(s => s !== entry)\<close> is the live part of the
  chain with the entry dropped.
\<close>

definition drop_entry :: "string \<Rightarrow> session_record \<Rightarrow> session_record" where
  "drop_entry b = update_segment b (\<lambda>s. s\<lparr>sg_dropped := True, sg_temp := False, sg_archived := False\<rparr>)"

definition dropSegment :: "string \<Rightarrow> bool \<Rightarrow> unit call" where
  "dropSegment b unlessLast =
     (if b = [] then Answer ()
      else Mutate
        (\<lambda>doc. case fullChainOwner doc b of
           None \<Rightarrow> (False, (), doc)
         | Some (p, r) \<Rightarrow>
             if segment_satisfies sg_dropped b r then (False, (), doc)
             else (let r' = drop_entry b r in
               case newest_live r' of
                 None \<Rightarrow> if unlessLast then (False, (), doc) else (True, (), jdrop p doc)
               | Some i \<Rightarrow>
                   (True, (), jput p (if sr_current r = b then r'\<lparr>sr_current := i\<rparr> else r') doc)))
        no_precheck)"

subsection \<open>Session-level facts\<close>

text \<open>\<open>sessionWrite\<close>: resolve (creating the base case), compare, set.\<close>

definition sessionWrite ::
  "string \<Rightarrow> string \<Rightarrow> 'r \<Rightarrow> (session_record \<Rightarrow> bool) \<Rightarrow> (session_record \<Rightarrow> session_record \<times> 'r)
   \<Rightarrow> (session_record \<Rightarrow> 'r) \<Rightarrow> 'r call" where
  "sessionWrite at i refusedValue same set_fn cur = Mutate
     (\<lambda>doc. case ensureRecord True at doc i of
        (Target p r, doc') \<Rightarrow>
          if same r then (False, cur r, doc')
          else (let (r', v) = set_fn r in (True, v, jput p r' doc'))
      | (_, doc') \<Rightarrow> (False, refusedValue, doc'))
     (\<lambda>doc. case ensureRecord False at doc i of
        (Target p r, _) \<Rightarrow> if same r then Some (cur r) else None
      | _ \<Rightarrow> None)"

definition setTitle :: "string \<Rightarrow> string \<Rightarrow> string \<Rightarrow> string option call" where
  "setTitle at i title =
     (if i = [] then Answer None
      else let v = truthy_text (Some (normalizeTitle title)) in
        sessionWrite at i None (\<lambda>r. sr_title r = v) (\<lambda>r. (r\<lparr>sr_title := v\<rparr>, v)) sr_title)"

definition setSessionMode :: "string \<Rightarrow> string \<Rightarrow> string \<Rightarrow> bool call" where
  "setSessionMode at i mode =
     (if i = [] \<or> mode \<notin> set MODES then Answer False
      else sessionWrite at i False (\<lambda>r. sr_mode r = Some mode)
             (\<lambda>r. (r\<lparr>sr_mode := Some mode\<rparr>, True)) (\<lambda>_. True))"

definition setSessionBackend :: "string \<Rightarrow> string \<Rightarrow> string \<Rightarrow> string option \<Rightarrow> string option \<Rightarrow> bool call" where
  "setSessionBackend at i backend model window =
     (if i = [] \<or> backend = [] then Answer False
      else let value = \<lparr>bk_backend = backend, bk_model = truthy_text model, bk_window = window\<rparr> in
        sessionWrite at i False (\<lambda>r. sr_backend r = Some value)
          (\<lambda>r. (r\<lparr>sr_backend := Some value\<rparr>, True)) (\<lambda>_. True))"

definition markConducted :: "string \<Rightarrow> string \<Rightarrow> string option \<Rightarrow> bool call" where
  "markConducted at i spawner =
     (if i = [] then Answer False
      else let par = truthy_text spawner in
        sessionWrite at i False
          (\<lambda>r. sr_conducted r \<and> (par = None \<or> sr_parent r = par))
          (\<lambda>r. (r\<lparr>sr_conducted := True, sr_parent := (if par = None then sr_parent r else par)\<rparr>, True))
          (\<lambda>_. True))"

definition setSessionPlace :: "string \<Rightarrow> string \<Rightarrow> string \<Rightarrow> string option \<Rightarrow> bool call" where
  "setSessionPlace at i project worktree =
     (if i = [] \<or> project = [] then Answer False
      else let w = truthy_text worktree in
        sessionWrite at i False (\<lambda>r. sr_project r = Some project \<and> sr_worktree r = w)
          (\<lambda>r. (r\<lparr>sr_project := Some project, sr_worktree := w\<rparr>, True)) (\<lambda>_. True))"

definition appendModelSwitch :: "string \<Rightarrow> model_switch \<Rightarrow> bool call" where
  "appendModelSwitch i entry =
     (if i = [] then Answer False
      else Mutate
        (\<lambda>doc. case ensureRecord False [] doc i of
           (Target p r, doc') \<Rightarrow>
             (True, True, jput p (r\<lparr>sr_modelSwitches := sr_modelSwitches r @ [entry]\<rparr>) doc')
         | (_, doc') \<Rightarrow> (False, False, doc'))
        no_precheck)"

definition stale_switch :: "string \<Rightarrow> string list \<Rightarrow> model_switch \<Rightarrow> bool" where
  "stale_switch seg surviving e \<longleftrightarrow> ms_segment e = seg
     \<and> (case ms_afterUuid e of None \<Rightarrow> False | Some u \<Rightarrow> u \<notin> set surviving)"

definition reanchorModelSwitches :: "string \<Rightarrow> string \<Rightarrow> string list \<Rightarrow> string option \<Rightarrow> nat call" where
  "reanchorModelSwitches i seg surviving anchor =
     (if i = [] then Answer 0
      else let stale = stale_switch seg surviving in Mutate
        (\<lambda>doc. case ensureRecord False [] doc i of
           (Target p r, doc') \<Rightarrow>
             let moved = length (filter stale (sr_modelSwitches r)) in
             if moved = 0 then (False, 0, doc')
             else (True, moved, jput p (r\<lparr>sr_modelSwitches :=
               map (\<lambda>e. if stale e then e\<lparr>ms_afterUuid := anchor\<rparr> else e) (sr_modelSwitches r)\<rparr>) doc')
         | (_, doc') \<Rightarrow> (False, 0, doc'))
        (\<lambda>doc. case ensureRecord False [] doc i of
           (Target p r, _) \<Rightarrow> if list_ex stale (sr_modelSwitches r) then None else Some 0
         | _ \<Rightarrow> None))"

record turn_marks =
  tm_turnEndSeq :: nat
  tm_viewedSeq :: nat

definition marksOf :: "session_record option \<Rightarrow> turn_marks" where
  "marksOf v = (case v of
      Some r \<Rightarrow> \<lparr>tm_turnEndSeq = sr_turnEndSeq r, tm_viewedSeq = sr_viewedSeq r\<rparr>
    | None \<Rightarrow> \<lparr>tm_turnEndSeq = 0, tm_viewedSeq = 0\<rparr>)"

definition recordTurnEnd :: "string \<Rightarrow> string \<Rightarrow> turn_marks call" where
  "recordTurnEnd at i =
     (if i = [] then Answer (marksOf None)
      else Mutate
        (\<lambda>doc. case ensureRecord True at doc i of
           (Target p r, doc') \<Rightarrow>
             let r' = r\<lparr>sr_turnEndSeq := sr_turnEndSeq r + 1\<rparr> in (True, marksOf (Some r'), jput p r' doc')
         | (_, doc') \<Rightarrow> (False, marksOf None, doc'))
        no_precheck)"

text \<open>The request may carry any integer; the clamp makes a negative one 0.\<close>

definition viewed_target :: "int \<Rightarrow> session_record \<Rightarrow> nat" where
  "viewed_target seq r = nat (max (int (sr_viewedSeq r)) (min seq (int (sr_turnEndSeq r))))"

definition markViewed :: "string \<Rightarrow> string \<Rightarrow> int \<Rightarrow> turn_marks call" where
  "markViewed at i seq =
     (if i = [] then Answer (marksOf None)
      else sessionWrite at i (marksOf None)
        (\<lambda>r. viewed_target seq r = sr_viewedSeq r)
        (\<lambda>r. let r' = r\<lparr>sr_viewedSeq := viewed_target seq r\<rparr> in (r', marksOf (Some r')))
        (\<lambda>r. marksOf (Some r)))"

definition setSummary :: "string \<Rightarrow> string \<Rightarrow> string \<Rightarrow> json \<Rightarrow> tier_record option call" where
  "setSummary at i len rec =
     (if i = [] \<or> len \<notin> set SUMMARY_LENGTHS then Answer None
      else case normalizeTierRecord (Some rec) of
        None \<Rightarrow> Answer None
      | Some tier \<Rightarrow> Mutate
          (\<lambda>doc. case ensureRecord True at doc i of
             (Target p r, doc') \<Rightarrow>
               (True, Some tier, jput p (r\<lparr>sr_summaries := jput len tier (sr_summaries r)\<rparr>) doc')
           | (_, doc') \<Rightarrow> (False, None, doc'))
          no_precheck)"

subsection \<open>Transcript-level facts\<close>

datatype segment_flag = Temp | Archived

fun flag_of :: "segment_flag \<Rightarrow> segment \<Rightarrow> bool" where
  "flag_of Temp s = sg_temp s"
| "flag_of Archived s = sg_archived s"

fun setFlag :: "segment_flag \<Rightarrow> bool \<Rightarrow> segment \<Rightarrow> segment" where
  "setFlag Temp on s = s\<lparr>sg_temp := on\<rparr>"
| "setFlag Archived on s = s\<lparr>sg_archived := on\<rparr>"

definition segmentWrite :: "string \<Rightarrow> string \<Rightarrow> segment_flag \<Rightarrow> bool \<Rightarrow> string option \<Rightarrow> bool call" where
  "segmentWrite at b flag on owner = Mutate
     (\<lambda>doc. case ensureSegment True at doc b owner of
        (Target p r, doc') \<Rightarrow>
          if segment_satisfies (\<lambda>s. flag_of flag s = on) b r then (False, True, doc')
          else (True, True, jput p (update_segment b (setFlag flag on) r) doc')
      | (_, doc') \<Rightarrow> (False, False, doc'))
     (\<lambda>doc. case ensureSegment False at doc b owner of
        (Target p r, _) \<Rightarrow> if segment_satisfies (\<lambda>s. flag_of flag s = on) b r then Some True else None
      | _ \<Rightarrow> None)"

definition setSegmentTemp :: "string \<Rightarrow> string \<Rightarrow> bool \<Rightarrow> string option \<Rightarrow> bool call" where
  "setSegmentTemp at b on owner = (if b = [] then Answer False else segmentWrite at b Temp on owner)"

definition setSegmentArchived :: "string \<Rightarrow> string \<Rightarrow> bool \<Rightarrow> string option \<Rightarrow> bool call" where
  "setSegmentArchived at b on owner = (if b = [] then Answer False else segmentWrite at b Archived on owner)"

subsection \<open>Readers of an index\<close>

text \<open>A reader refuses the empty id before it looks anything up.\<close>

definition record_read :: "'r \<Rightarrow> (session_record \<Rightarrow> 'r) \<Rightarrow> session_index \<Rightarrow> string \<Rightarrow> 'r" where
  "record_read none f ix i = (if i = [] then none
     else case recordFor ix i of Some r \<Rightarrow> f r | None \<Rightarrow> none)"

definition getTitle :: "session_index \<Rightarrow> string \<Rightarrow> string option" where
  "getTitle = record_read None sr_title"

definition getSessionMode :: "session_index \<Rightarrow> string \<Rightarrow> string option" where
  "getSessionMode = record_read None sr_mode"

definition getSessionBackend :: "session_index \<Rightarrow> string \<Rightarrow> backend_record option" where
  "getSessionBackend = record_read None sr_backend"

definition isConducted :: "session_index \<Rightarrow> string \<Rightarrow> bool" where
  "isConducted = record_read False sr_conducted"

definition getTurnMarks :: "session_index \<Rightarrow> string \<Rightarrow> turn_marks" where
  "getTurnMarks = record_read (marksOf None) (\<lambda>r. marksOf (Some r))"

definition getSummaries :: "session_index \<Rightarrow> string \<Rightarrow> (string, tier_record) jmap" where
  "getSummaries = record_read [] sr_summaries"

definition getModelSwitchesForSegment :: "session_index \<Rightarrow> string \<Rightarrow> model_switch list" where
  "getModelSwitchesForSegment ix b =
     (if b = [] then []
      else let owner = (case resolveOwner ix b of Some p \<Rightarrow> Some p
                        | None \<Rightarrow> map_option fst (fullChainOwner (byPublic ix) b)) in
        case Option.bind owner (map_of (byPublic ix)) of
          Some r \<Rightarrow> filter (\<lambda>e. ms_segment e = b) (sr_modelSwitches r)
        | None \<Rightarrow> [])"

definition segmentFlag :: "session_index \<Rightarrow> string \<Rightarrow> segment_flag \<Rightarrow> bool" where
  "segmentFlag ix b flag =
     (case fileFacts ix b of (_, _, Some s) \<Rightarrow> flag_of flag s | _ \<Rightarrow> False)"

definition isTemp :: "session_index \<Rightarrow> string \<Rightarrow> bool" where
  "isTemp ix b \<longleftrightarrow> b \<noteq> [] \<and> segmentFlag ix b Temp"

definition isArchived :: "session_index \<Rightarrow> string \<Rightarrow> bool" where
  "isArchived ix b \<longleftrightarrow> b \<noteq> [] \<and> segmentFlag ix b Archived"

definition orphanedTempIds :: "session_index \<Rightarrow> string list \<Rightarrow> string list" where
  "orphanedTempIds ix live = concat (map (\<lambda>(p, r).
     map sg_id (filter (\<lambda>s. sg_temp s \<and> sg_id s \<notin> set live) (liveSegments r))) (byPublic ix))"

definition resolveBacking :: "session_index \<Rightarrow> string \<Rightarrow> string" where
  "resolveBacking ix i = (if i = [] then i
     else case map_of (byPublic ix) i of Some r \<Rightarrow> sr_current r | None \<Rightarrow> i)"

definition publicIdFor :: "session_index \<Rightarrow> string \<Rightarrow> string" where
  "publicIdFor ix i = (if i = [] \<or> jhas (byPublic ix) i then i
     else case map_of (byBacking ix) i of Some p \<Rightarrow> p | None \<Rightarrow> i)"

definition segmentsFor :: "session_index \<Rightarrow> string \<Rightarrow> segment list" where
  "segmentsFor ix p = (if p = [] then []
     else case map_of (byPublic ix) p of Some r \<Rightarrow> liveSegments r | None \<Rightarrow> [])"

definition chainFor :: "session_index \<Rightarrow> string \<Rightarrow> segment list" where
  "chainFor ix p = (if p = [] then []
     else case map_of (byPublic ix) p of Some r \<Rightarrow> sr_segments r | None \<Rightarrow> [])"

end
