(* ===== verification/SessionFiles.thy ===== *)
theory SessionFiles
  imports SessionWrites
begin

text \<open>
  The files of the session store: the primary \<open>sessions.json\<close>, its rolling backup, the
  stat-validated cache, and the two writers, \<open>mutateSessions\<close> and \<open>removeSessionRecords\<close>, with
  the boot cleanup of \<open>src/sessionCleanup.ts\<close> that drives the second.

  A write is one step: \<open>serialize\<close> orders this process's writers and the store lock excludes the
  other processes.  Which system calls fail is part of the step (\<open>io\<close>).  The read barrier, which only
  delays a read until the lineage writes kicked before it have run, is the order of the steps.
\<close>

subsection \<open>State\<close>

text \<open>What a file holds: no file, one that cannot be read, text that is not JSON, a JSON value.\<close>

datatype content = Absent | Unreadable | Garbled string | Holds json

text \<open>
  \<open>stamp\<close> is the primary's stat signature, its inode, size and times (\<open>sigOf\<close>).  The signature a
  write leaves behind is an input of the write (\<open>io_sig\<close>): nothing here makes it a new one.
\<close>

record store =
  primary :: content
  stamp :: nat
  backup :: content
  snapshot :: content
  quarantined :: "content list"
  cache :: "(nat \<times> sessions_doc) option"

record io =
  io_lock :: bool
  io_write :: bool
  io_backup :: bool
  io_stat :: bool
  io_rename :: bool
  io_sig :: nat

datatype store_error = Lock_failed | Read_failed | Write_failed | Backup_failed | Stat_failed

subsection \<open>Reads\<close>

definition readPrimary :: "store \<Rightarrow> sessions_doc option \<times> store" where
  "readPrimary st =
     (if primary st = Absent then (None, st)
      else case cache st of
        Some (sig, doc) \<Rightarrow> if sig = stamp st then (Some doc, st) else
          (case primary st of
             Holds j \<Rightarrow> (Some (parseSessionsDoc j), st\<lparr>cache := Some (stamp st, parseSessionsDoc j)\<rparr>)
           | _ \<Rightarrow> (None, st))
      | None \<Rightarrow>
          (case primary st of
             Holds j \<Rightarrow> (Some (parseSessionsDoc j), st\<lparr>cache := Some (stamp st, parseSessionsDoc j)\<rparr>)
           | _ \<Rightarrow> (None, st)))"

fun content_doc :: "content \<Rightarrow> sessions_doc" where
  "content_doc (Holds j) = parseSessionsDoc j"
| "content_doc _ = []"

text \<open>\<open>readBackupLenient\<close> is \<open>content_doc\<close> of the backup.\<close>

definition loadLenient :: "store \<Rightarrow> sessions_doc \<times> store" where
  "loadLenient st = (case readPrimary st of
      (Some doc, st') \<Rightarrow> (doc, st')
    | (None, st') \<Rightarrow> (content_doc (backup st'), st'))"

definition loadSessions :: "store \<Rightarrow> session_index \<times> store" where
  "loadSessions st = (let (doc, st') = loadLenient st in (indexSessions doc, st'))"

definition loadSessionsSync :: "store \<Rightarrow> session_index" where
  "loadSessionsSync st = indexSessions (case primary st of Holds j \<Rightarrow> parseSessionsDoc j | _ \<Rightarrow> content_doc (backup st))"

text \<open>The strict read inside the lock.  A rename that fails is ignored.\<close>

definition quarantine_primary :: "io \<Rightarrow> store \<Rightarrow> store" where
  "quarantine_primary io st =
     (if io_rename io then st\<lparr>quarantined := quarantined st @ [primary st], primary := Absent\<rparr> else st)"

definition quarantine_backup :: "io \<Rightarrow> store \<Rightarrow> store" where
  "quarantine_backup io st =
     (if io_rename io then st\<lparr>quarantined := quarantined st @ [backup st], backup := Absent\<rparr> else st)"

definition recoverBackupStrict :: "io \<Rightarrow> store \<Rightarrow> (store_error + sessions_doc) \<times> store" where
  "recoverBackupStrict io st = (case backup st of
      Absent \<Rightarrow> (Inr [], st)
    | Unreadable \<Rightarrow> (Inl Read_failed, st)
    | Garbled _ \<Rightarrow> (Inr [], quarantine_backup io st)
    | Holds j \<Rightarrow> (Inr (parseSessionsDoc j), st))"

definition loadStrict :: "io \<Rightarrow> store \<Rightarrow> (store_error + sessions_doc) \<times> store" where
  "loadStrict io st = (case primary st of
      Absent \<Rightarrow> recoverBackupStrict io st
    | Unreadable \<Rightarrow> (Inl Read_failed, st)
    | Garbled _ \<Rightarrow> recoverBackupStrict io (quarantine_primary io st)
    | Holds j \<Rightarrow> (Inr (parseSessionsDoc j), st))"

subsection \<open>The write path\<close>

definition archivedCount :: "sessions_doc \<Rightarrow> nat" where
  "archivedCount doc = sum_list (map (\<lambda>(p, r). length (filter sg_archived (sr_segments r))) doc)"

text \<open>
  \<open>refreshBackup\<close>: skipped for an unreadable backup, and for a write that drops more than one
  record or archived segment beyond what a bulk removal says it removed.  The result says whether
  the call returned.
\<close>

definition shrinks_too_much :: "nat \<Rightarrow> nat \<Rightarrow> sessions_doc \<Rightarrow> sessions_doc \<Rightarrow> bool" where
  "shrinks_too_much records archived bak doc \<longleftrightarrow>
     length bak > length doc + (1 + records) \<or> archivedCount bak > archivedCount doc + (1 + archived)"

definition refreshBackup :: "io \<Rightarrow> nat \<times> nat \<Rightarrow> sessions_doc \<Rightarrow> json \<Rightarrow> store \<Rightarrow> bool \<times> store" where
  "refreshBackup io expected doc j st =
     (let skip = (case backup st of
          Unreadable \<Rightarrow> True
        | Holds b \<Rightarrow> shrinks_too_much (fst expected) (snd expected) (parseSessionsDoc b) doc
        | _ \<Rightarrow> False) in
      if skip then (True, st)
      else if \<not> io_backup io then (False, st)
      else (True, st\<lparr>backup := Holds j\<rparr>))"

text \<open>The tail both writers share: write the primary, refresh the backup, fill the cache.\<close>

definition commit ::
  "(string list \<Rightarrow> string list) \<Rightarrow> io \<Rightarrow> nat \<times> nat \<Rightarrow> sessions_doc \<Rightarrow> 'r \<Rightarrow> store \<Rightarrow> (store_error + 'r) \<times> store" where
  "commit collate io expected doc v st =
     (if \<not> io_write io then (Inl Write_failed, st)
      else let j = serializeSessionsDoc collate doc;
               st1 = st\<lparr>primary := Holds j, stamp := io_sig io\<rparr>;
               (ok, st2) = refreshBackup io expected doc j st1
           in if \<not> ok then (Inl Backup_failed, st2)
              else if \<not> io_stat io then (Inl Stat_failed, st2)
              else (Inr v, st2\<lparr>cache := Some (stamp st2, doc)\<rparr>))"

definition locked_write ::
  "(string list \<Rightarrow> string list) \<Rightarrow> io \<Rightarrow> 'r apply_fn \<Rightarrow> store \<Rightarrow> (store_error + 'r) \<times> store" where
  "locked_write collate io ap st =
     (if \<not> io_lock io then (Inl Lock_failed, st)
      else case loadStrict io st of
        (Inl e, st') \<Rightarrow> (Inl e, st')
      | (Inr doc, st') \<Rightarrow>
          (case ap doc of
             (False, v, _) \<Rightarrow> (Inr v, st')
           | (True, v, doc') \<Rightarrow> commit collate io (0, 0) doc' v st'))"

fun mutateSessions ::
  "(string list \<Rightarrow> string list) \<Rightarrow> io \<Rightarrow> 'r call \<Rightarrow> store \<Rightarrow> (store_error + 'r) \<times> store" where
  "mutateSessions collate io (Answer v) st = (Inr v, st)"
| "mutateSessions collate io (Mutate ap pre) st =
     (case readPrimary st of
        (None, st') \<Rightarrow> locked_write collate io ap st'
      | (Some doc, st') \<Rightarrow>
          (case pre doc of Some v \<Rightarrow> (Inr v, st') | None \<Rightarrow> locked_write collate io ap st'))"

subsection \<open>The second deleter\<close>

datatype skip_reason = Store_absent | Store_corrupt

text \<open>
  \<open>JSON.parse\<close> of the primary's bytes; the snapshot is those bytes.  \<open>snap\<close> says whether the
  snapshot write succeeds.
\<close>

definition removed_records :: "string list \<Rightarrow> sessions_doc \<Rightarrow> string list" where
  "removed_records picked doc = filter (jhas doc) (rev (remdups (rev picked)))"

definition archived_of :: "sessions_doc \<Rightarrow> string \<Rightarrow> nat" where
  "archived_of doc i = (case map_of doc i of
      Some r \<Rightarrow> length (filter sg_archived (sr_segments r)) | None \<Rightarrow> 0)"

definition removeSessionRecords ::
  "(string list \<Rightarrow> string list) \<Rightarrow> io \<Rightarrow> bool \<Rightarrow> (sessions_doc \<Rightarrow> string list) \<Rightarrow> store
   \<Rightarrow> (store_error + string list \<times> skip_reason option) \<times> store" where
  "removeSessionRecords collate io snap pick st =
     (if \<not> io_lock io then (Inl Lock_failed, st)
      else case primary st of
        Absent \<Rightarrow> (Inr ([], Some Store_absent), st)
      | Unreadable \<Rightarrow> (Inl Read_failed, st)
      | Garbled t \<Rightarrow>
          if \<not> snap then (Inl Write_failed, st)
          else (Inr ([], Some Store_corrupt), st\<lparr>snapshot := Garbled t\<rparr>)
      | Holds j \<Rightarrow>
          if \<not> snap then (Inl Write_failed, st)
          else let st1 = st\<lparr>snapshot := Holds j\<rparr>; doc = parseSessionsDoc j;
                   removed = removed_records (pick doc) doc in
            if removed = [] then (Inr ([], None), st1)
            else commit collate io (length removed, sum_list (map (archived_of doc) removed))
                   (fold jdrop removed doc) (removed, None) st1)"

text \<open>
  The boot cleanup's pick.  \<open>guarded\<close> are the ids of the resume manifest, \<open>present\<close> the transcripts
  found on disk (\<open>None\<close> when the scan threw), \<open>date\<close> is \<open>Date.parse\<close> where it is finite.  A record
  none of whose stamps parses has age \<open>-Infinity\<close>, that is, it is old.
\<close>

definition CLEANUP_GRACE_MS :: int where "CLEANUP_GRACE_MS = 10 * 60 * 1000"

definition newest_at :: "(string \<Rightarrow> int option) \<Rightarrow> session_record \<Rightarrow> int option" where
  "newest_at date r = (case List.map_filter (date \<circ> sg_at) (sr_segments r) of
      [] \<Rightarrow> None | t # ts \<Rightarrow> Some (fold max ts t))"

definition young :: "(string \<Rightarrow> int option) \<Rightarrow> int \<Rightarrow> session_record \<Rightarrow> bool" where
  "young date now r = (case newest_at date r of Some t \<Rightarrow> now - t < CLEANUP_GRACE_MS | None \<Rightarrow> False)"

definition removable ::
  "(string \<Rightarrow> int option) \<Rightarrow> int \<Rightarrow> string list \<Rightarrow> string list \<Rightarrow> string \<times> session_record \<Rightarrow> bool" where
  "removable date now guarded present = (\<lambda>(p, r).
     \<not> (p \<in> set guarded \<or> list_ex (\<lambda>s. sg_id s \<in> set guarded) (sr_segments r))
     \<and> list_all (\<lambda>s. isSessionId (sg_id s)) (sr_segments r)
     \<and> \<not> list_ex (\<lambda>s. sg_id s \<in> set present) (sr_segments r)
     \<and> \<not> young date now r)"

definition cleanup_pick ::
  "(string \<Rightarrow> int option) \<Rightarrow> int \<Rightarrow> string list \<Rightarrow> string list option \<Rightarrow> sessions_doc \<Rightarrow> string list" where
  "cleanup_pick date now guarded scan doc =
     (case scan of
        None \<Rightarrow> []
      | Some present \<Rightarrow>
          if present = [] \<and> doc \<noteq> [] then []
          else let out = jkeys (filter (removable date now guarded present) doc) in
            if out \<noteq> [] \<and> length out = length doc then [] else out)"

definition cleanupSessionsWithoutTranscripts ::
  "(string list \<Rightarrow> string list) \<Rightarrow> io \<Rightarrow> bool \<Rightarrow> (string \<Rightarrow> int option) \<Rightarrow> int \<Rightarrow> string list option
   \<Rightarrow> string list option \<Rightarrow> store \<Rightarrow> (string list \<times> skip_reason option) \<times> store" where
  "cleanupSessionsWithoutTranscripts collate io snap date now manifest scan st =
     (case manifest of
        None \<Rightarrow> (([], None), st)
      | Some guarded \<Rightarrow>
          (case removeSessionRecords collate io snap (cleanup_pick date now guarded scan) st of
             (Inr res, st') \<Rightarrow> (res, st')
           | (Inl _, st') \<Rightarrow> (([], None), st')))"

end
