(* ===== verification/SessionRoundtrip.thy ===== *)
theory SessionRoundtrip
  imports SessionFiles
begin

text \<open>
  What is written to \<open>sessions.json\<close> reads back: every fact of every record, up to the order of
  the summary tiers and the white space a capped title may end in.
\<close>

subsection \<open>Members of an object literal\<close>

lemma map_of_member [simp]: "map_of (member k v) j = (if j = k then v else None)"
  by (cases v) (auto simp: member_def)

lemma map_of_member_other [simp]: "j \<noteq> k \<Longrightarrow> map_of (member k v @ xs) j = map_of xs j"
  by (simp add: map_add_def split: option.splits)

lemma map_of_member_here [simp]: "map_of xs k = None \<Longrightarrow> map_of (member k v @ xs) k = v"
  by (cases v) (simp_all add: map_add_def)

declare map_of_append [simp del]

lemma truthy_text_Some: "truthy_text v = Some s \<longleftrightarrow> v = Some s \<and> s \<noteq> []"
  by (auto simp: truthy_text_def)

lemma truthy_text_settled: "truthy_text v = v \<longleftrightarrow> v \<noteq> Some []"
  by (simp add: truthy_text_def)

lemma truthy_text_idem [simp]: "truthy_text (truthy_text v) = truthy_text v"
  by (simp add: truthy_text_def)

lemma nonempty_str_truthy [simp]: "nonempty_str (map_option JStr v) = truthy_text v"
  by (cases v) (auto simp: truthy_text_def nonempty_str_def)

lemma nonempty_str_null_or [simp]: "nonempty_str (Some (null_or JStr v)) = truthy_text v"
  by (cases v) (auto simp: truthy_text_def nonempty_str_def null_or_def)

lemma nonempty_str_None [simp]: "nonempty_str None = None"
  by (simp add: nonempty_str_def)

lemma as_num_null_or [simp]: "as_num (Some (null_or JNum v)) = v"
  by (cases v) (simp_all add: null_or_def)

lemma null_or_JNull [simp]: "null_or JStr v = JNull \<longleftrightarrow> v = None"
  by (cases v) (simp_all add: null_or_def)

lemma if_flag [simp]: "((if b then Some (JBool True) else None) = Some (JBool True)) = b"
  by simp

subsection \<open>Numbers and trimmed text\<close>

lemma num_text_digits: "list_all is_digit (num_text n)"
proof (induction n rule: num_text.induct)
  case (1 n)
  have d: "is_digit (char_of (48 + m :: nat))" if "m < 10" for m
    using that by (simp add: is_digit_def less_eq_char_def)
 show ?case using 1 d by (subst num_text.simps) simp
qed

lemma digits_value_snoc: "digits_value (s @ [c]) = 10 * digits_value s + (of_char c - 48)"
  by (simp add: digits_value_def)

lemma digits_value_num_text [simp]: "digits_value (num_text n) = n"
proof (induction n rule: num_text.induct)
  case (1 n)
  have "of_char (char_of (48 + m :: nat) :: char) - (48 :: nat) = m" if "m < 10" for m
    using that by (simp add: of_char_of)
  then show ?case
    using 1 by (subst num_text.simps) (auto simp: digits_value_snoc, simp add: digits_value_def)
qed

lemma count_num_text [simp]: "count (if n = 0 then None else Some (JNum (num_text n))) = n"
  by (simp add: count_def num_text_digits)

lemma js_trim_idem [simp]: "js_trim (js_trim s) = js_trim s"
proof -
  define a where "a = dropWhile js_space s"
  define b where "b = dropWhile js_space (rev a)"
  have hd_a: "a \<noteq> [] \<Longrightarrow> \<not> js_space (hd a)"
    using hd_dropWhile a_def by blast
  have "dropWhile js_space (rev b) = rev b"
  proof (cases "rev b")
    case (Cons c cs)
    have "b \<noteq> []" using Cons by auto
    obtain ws where "rev a = ws @ b" using b_def by (metis takeWhile_dropWhile_id)
    then have "a = rev b @ rev ws" by (metis rev_append rev_rev_ident)
    with Cons have "hd a = c" "a \<noteq> []" by simp_all
    with hd_a Cons show ?thesis by simp
  qed simp
  moreover have "dropWhile js_space b = b"
  proof (cases b)
    case (Cons c cs)
    with hd_dropWhile [of js_space "rev a"] have "\<not> js_space c" unfolding b_def by simp
    with Cons show ?thesis by simp
  qed simp
  ultimately show ?thesis by (simp add: js_trim_def a_def b_def)
qed

subsection \<open>Well-formed records\<close>

text \<open>
  What the parser guarantees of a record and every mutation keeps.  A title may still end in white
  space: it is cut after it was trimmed.
\<close>

definition tier_wf :: "string \<times> tier_record \<Rightarrow> bool" where
  "tier_wf = (\<lambda>(len, t). len \<in> set SUMMARY_LENGTHS \<and> ti_summary t \<noteq> [] \<and> js_trim (ti_summary t) = ti_summary t)"

definition switch_wf :: "model_switch \<Rightarrow> bool" where
  "switch_wf e \<longleftrightarrow> ms_id e \<noteq> [] \<and> ms_segment e \<noteq> [] \<and> ms_from e \<noteq> [] \<and> ms_to e \<noteq> []
     \<and> ms_afterUuid e \<noteq> Some [] \<and> ms_error e \<noteq> Some []
     \<and> crossedBackends (ms_fromBackend e) (ms_toBackend e) = (ms_fromBackend e, ms_toBackend e)"

definition facts_wf :: "session_record \<Rightarrow> bool" where
  "facts_wf r \<longleftrightarrow> sr_title r \<noteq> Some [] \<and> (\<forall>m. sr_mode r = Some m \<longrightarrow> m \<in> set MODES)
     \<and> (\<forall>b. sr_backend r = Some b \<longrightarrow> bk_backend b \<noteq> [] \<and> bk_model b \<noteq> Some [])
     \<and> jmap_ok (sr_summaries r) \<and> list_all tier_wf (sr_summaries r)
     \<and> sr_parent r \<noteq> Some [] \<and> sr_project r \<noteq> Some [] \<and> sr_worktree r \<noteq> Some []
     \<and> list_all switch_wf (sr_modelSwitches r)"

definition record_wf :: "session_record \<Rightarrow> bool" where
  "record_wf r \<longleftrightarrow> sr_current r \<noteq> [] \<and> list_all (\<lambda>s. sg_id s \<noteq> []) (sr_segments r)
     \<and> liveSegments r \<noteq> [] \<and> facts_wf r"

definition doc_wf :: "sessions_doc \<Rightarrow> bool" where
  "doc_wf doc \<longleftrightarrow> jmap_ok doc \<and> [] \<notin> set (jkeys doc) \<and> list_all record_wf (jvals doc)"

text \<open>The record a written one reads back as.\<close>

definition tier_order :: "(string, tier_record) jmap \<Rightarrow> (string, tier_record) jmap" where
  "tier_order m = List.map_filter (\<lambda>len. map_option (Pair len) (map_of m len)) SUMMARY_LENGTHS"

definition reread :: "session_record \<Rightarrow> session_record" where
  "reread r = r\<lparr>sr_title := Option.bind (sr_title r) (\<lambda>t. truthy_text (Some (normalizeTitle t))),
                sr_summaries := tier_order (sr_summaries r)\<rparr>"

subsection \<open>Each part reads back\<close>

lemma reason_of_text [simp]: "reason_of (reason_text x) = Some x"
  by (cases x) (simp_all add: reason_of_def VALID_REASONS_def)

lemma parse_segment_json: "sg_id s \<noteq> [] \<Longrightarrow> parse_segment (segment_json s) = Some s"
  by (simp add: parse_segment_def segment_json_def Let_def)

lemma parse_backend_json:
  "bk_backend b \<noteq> [] \<Longrightarrow> bk_model b \<noteq> Some [] \<Longrightarrow> parseBackend (Some (backend_json b)) = Some b"
  by (simp add: parseBackend_def backend_json_def truthy_text_settled [THEN iffD2])

lemma normalize_tier_json: "tier_wf (len, t) \<Longrightarrow> normalizeTierRecord (Some (tier_json t)) = Some t"
  by (simp add: normalizeTierRecord_def tier_json_def tier_wf_def)

lemma crossed_truthy:
  assumes "crossedBackends f t = (f, t)" shows "truthy_text f = f" "truthy_text t = t"
  using assms by (auto simp: crossedBackends_def truthy_text_def split: if_splits)

lemma parse_switch_json: "switch_wf e \<Longrightarrow> parseModelSwitch (switch_json e) = Some e"
  using crossed_truthy [of "ms_fromBackend e" "ms_toBackend e"]
  by (cases "ms_afterUuid e")
     (simp_all add: parseModelSwitch_def switch_json_def switch_wf_def Let_def truthy_text_settled [THEN iffD2])

lemma map_filter_inverse: "list_all (\<lambda>x. f (g x) = Some x) xs \<Longrightarrow> List.map_filter f (map g xs) = xs"
  by (induction xs) (simp_all add: List.map_filter_simps)

lemma summaries_read_back:
  assumes "list_all tier_wf m" and ok: "jmap_ok m"
  shows "normalizeSummaryTiers (if m = [] then None else Some (JObj (jmap_vals tier_json m))) = tier_order m"
proof -
  have "map_option (Pair len) (normalizeTierRecord (map_option tier_json (map_of m len)))
      = map_option (Pair len) (map_of m len)" for len
  proof (cases "map_of m len")
    case (Some t)
    then have "(len, t) \<in> set m" by (rule map_of_SomeD)
    with assms(1) have "tier_wf (len, t)" by (auto simp: list_all_iff)
    with Some show ?thesis by (simp add: normalize_tier_json)
  qed (simp add: normalizeTierRecord_def)
  moreover have "asRecord (if m = [] then None else Some (JObj (jmap_vals tier_json m))) = jmap_vals tier_json m"
    by (simp add: jmap_vals_def)
  ultimately show ?thesis
    by (simp only: normalizeSummaryTiers_def tier_order_def map_of_jmap_vals)
qed

lemma title_reads_back:
  "t \<noteq> Some [] \<Longrightarrow> nonempty_title (map_option JStr t) = Option.bind t (\<lambda>t. truthy_text (Some (normalizeTitle t)))"
  by (cases t) (auto simp: nonempty_title_def truthy_text_def normalizeTitle_def js_trim_def)

lemma mode_reads_back: "(\<And>m. v = Some m \<Longrightarrow> m \<in> set MODES) \<Longrightarrow> known_mode (map_option JStr v) = v"
  by (cases v) (auto simp: known_mode_def)

lemma parse_record_json:
  assumes "record_wf r"
  shows "parse_record (record_json r) = Some (reread r)"
proof -
  from assms have segs: "List.map_filter parse_segment (map segment_json (sr_segments r)) = sr_segments r"
    by (intro map_filter_inverse) (auto simp: record_wf_def list_all_iff parse_segment_json)
  have "List.map_filter parseModelSwitch (map switch_json (sr_modelSwitches r)) = sr_modelSwitches r"
    using assms by (intro map_filter_inverse) (auto simp: record_wf_def facts_wf_def list_all_iff parse_switch_json)
  then have switches: "(case if sr_modelSwitches r = [] then None else Some (JArr (map switch_json (sr_modelSwitches r)))
      of Some (JArr es) \<Rightarrow> List.map_filter parseModelSwitch es | _ \<Rightarrow> []) = sr_modelSwitches r"
    by (cases "sr_modelSwitches r = []") simp_all
  have live: "\<not> list_all sg_dropped (sr_segments r)"
    using assms by (auto simp: record_wf_def liveSegments_def filter_empty_conv list_all_iff)
  have backend: "parseBackend (map_option backend_json (sr_backend r)) = sr_backend r"
  proof (cases "sr_backend r")
    case (Some b)
    with assms show ?thesis by (simp add: record_wf_def facts_wf_def parse_backend_json)
  qed (simp add: parseBackend_def)
  have fields: "truthy_text (sr_parent r) = sr_parent r" "truthy_text (sr_project r) = sr_project r"
    "truthy_text (sr_worktree r) = sr_worktree r" "truthy_text (sr_title r) = sr_title r" "sr_title r \<noteq> Some []"
    "\<And>m. sr_mode r = Some m \<Longrightarrow> m \<in> set MODES" "sr_current r \<noteq> []"
    using assms by (auto simp: record_wf_def facts_wf_def truthy_text_settled)
  have mode: "truthy_text (sr_mode r) = sr_mode r"
    using fields(6) by (auto simp: truthy_text_settled MODES_def)
  have sums: "normalizeSummaryTiers (if sr_summaries r = [] then None
      else Some (JObj (jmap_vals tier_json (sr_summaries r)))) = tier_order (sr_summaries r)"
    using assms by (intro summaries_read_back) (auto simp: record_wf_def facts_wf_def)
  show ?thesis
    using fields mode
    by (simp add: parse_record_def record_json_def Let_def segs switches live backend sums
        title_reads_back mode_reads_back reread_def split del: if_split)
qed

subsection \<open>What the parser guarantees\<close>

lemma map_filter_all: "(\<And>x y. x \<in> set xs \<Longrightarrow> f x = Some y \<Longrightarrow> P y) \<Longrightarrow> list_all P (List.map_filter f xs)"
  by (induction xs) (auto simp: List.map_filter_simps split: option.splits)

lemma normalizeTier_wf: "normalizeTierRecord v = Some t \<Longrightarrow> len \<in> set SUMMARY_LENGTHS \<Longrightarrow> tier_wf (len, t)"
  by (auto simp: normalizeTierRecord_def tier_wf_def Let_def split: option.splits if_splits)

lemma map_filter_keys:
  "jkeys (List.map_filter (\<lambda>k. map_option (Pair k) (g k)) ks) = filter (\<lambda>k. g k \<noteq> None) ks"
  by (induction ks) (auto simp: List.map_filter_simps split: option.splits)

lemma lengths_distinct: "distinct SUMMARY_LENGTHS"
  by (simp add: SUMMARY_LENGTHS_def)

lemma normalizeSummaryTiers_wf:
  "jmap_ok (normalizeSummaryTiers v)" "list_all tier_wf (normalizeSummaryTiers v)"
proof -
  show "jmap_ok (normalizeSummaryTiers v)"
    by (simp add: jmap_ok_def normalizeSummaryTiers_def map_filter_keys lengths_distinct)
  show "list_all tier_wf (normalizeSummaryTiers v)"
    unfolding normalizeSummaryTiers_def by (rule map_filter_all) (auto intro: normalizeTier_wf)
qed

lemma parseBackend_wf: "parseBackend v = Some b \<Longrightarrow> bk_backend b \<noteq> [] \<and> bk_model b \<noteq> Some []"
  by (auto simp: parseBackend_def Let_def)

lemma crossed_settled:
  "crossedBackends (fst (crossedBackends f t)) (snd (crossedBackends f t)) = crossedBackends f t"
  by (simp add: crossedBackends_def)

lemma parseModelSwitch_wf: "parseModelSwitch v = Some e \<Longrightarrow> switch_wf e"
  by (clarsimp simp: parseModelSwitch_def Let_def switch_wf_def crossed_settled simp del: nonempty_str_Some
      split: option.split_asm if_split_asm) (simp_all add: crossed_settled)

lemma parse_segment_wf: "parse_segment v = Some s \<Longrightarrow> sg_id s \<noteq> []"
  by (auto simp: parse_segment_def Let_def split: option.splits)

lemma nonempty_str_settled [simp]: "nonempty_str v \<noteq> Some []"
  by simp

lemma nonempty_title_wf: "nonempty_title v \<noteq> Some []"
  by (simp add: nonempty_title_def Let_def)

lemma known_mode_wf: "known_mode v = Some m \<Longrightarrow> m \<in> set MODES"
  by (simp add: known_mode_def split: option.splits if_splits)

lemma parse_record_wf:
  assumes "parse_record v = Some r" shows "record_wf r"
proof -
  obtain cur xs where xs: "nonempty_str (map_of (asRecord (Some v)) ''current'') = Some cur"
      "map_of (asRecord (Some v)) ''segments'' = Some (JArr xs)"
    using assms by (auto simp: parse_record_def Let_def split: option.splits json.splits)
  let ?segs = "List.map_filter parse_segment xs"
  have r: "\<not> list_all sg_dropped ?segs" "sr_current r = cur" "sr_segments r = ?segs"
      "sr_title r = nonempty_title (map_of (asRecord (Some v)) ''title'')"
      "sr_mode r = known_mode (map_of (asRecord (Some v)) ''mode'')"
      "sr_backend r = parseBackend (map_of (asRecord (Some v)) ''backend'')"
      "sr_summaries r = normalizeSummaryTiers (map_of (asRecord (Some v)) ''summaries'')"
      "sr_parent r = nonempty_str (map_of (asRecord (Some v)) ''parent'')"
      "sr_project r = nonempty_str (map_of (asRecord (Some v)) ''project'')"
      "sr_worktree r = nonempty_str (map_of (asRecord (Some v)) ''worktree'')"
      "sr_modelSwitches r = (case map_of (asRecord (Some v)) ''modelSwitches'' of
          Some (JArr es) \<Rightarrow> List.map_filter parseModelSwitch es | _ \<Rightarrow> [])"
    using assms xs by (auto simp: parse_record_def Let_def split: if_splits)
  have "list_all (\<lambda>s. sg_id s \<noteq> []) ?segs"
    by (rule map_filter_all) (rule parse_segment_wf)
  moreover have "list_all switch_wf (sr_modelSwitches r)"
    by (auto simp: r(11) split: option.splits json.splits intro!: map_filter_all parseModelSwitch_wf)
  moreover have "liveSegments r \<noteq> []"
    using r by (auto simp: liveSegments_def filter_empty_conv list_all_iff)
  moreover have "cur \<noteq> []" using xs by simp
  moreover have "facts_wf r"
    unfolding facts_wf_def r(4-10)
    using parseBackend_wf normalizeSummaryTiers_wf nonempty_title_wf known_mode_wf calculation(2)
    by simp
  ultimately show ?thesis
    by (simp add: record_wf_def r(2,3))
qed

lemma doc_wf_jput: "doc_wf doc \<Longrightarrow> k \<noteq> [] \<Longrightarrow> record_wf r \<Longrightarrow> doc_wf (jput k r doc)"
  by (fastforce simp: doc_wf_def list_all_iff dest: set_jput_cases)

lemma doc_wf_jdrop: "doc_wf doc \<Longrightarrow> doc_wf (jdrop k doc)"
  by (auto simp: doc_wf_def list_all_iff AList.delete_eq jmap_ok_jdrop [unfolded AList.delete_eq])

lemma doc_wf_Nil [simp]: "doc_wf []"
  by (simp add: doc_wf_def)

lemma doc_wf_record: "doc_wf doc \<Longrightarrow> map_of doc k = Some r \<Longrightarrow> record_wf r \<and> k \<noteq> []"
  by (force simp: doc_wf_def list_all_iff dest: map_of_SomeD)

lemma parseSessionsDoc_wf: "doc_wf (parseSessionsDoc obj)"
proof -
  have "doc_wf (fold (\<lambda>(k, value) out. if k = [] then out
             else case parse_record value of Some r \<Rightarrow> jput k r out | None \<Rightarrow> out) kvs out)"
    if "doc_wf out" for kvs out
    using that
  proof (induction kvs arbitrary: out)
    case (Cons kv kvs)
    obtain k x where kv: "kv = (k, x)" by fastforce
    from Cons.prems have "doc_wf (if k = [] then out
        else case parse_record x of Some r \<Rightarrow> jput k r out | None \<Rightarrow> out)"
      by (auto split: option.splits intro: doc_wf_jput parse_record_wf)
    with Cons.IH kv show ?case by simp
  qed simp
  then show ?thesis by (simp add: parseSessionsDoc_def)
qed

subsection \<open>The document reads back\<close>

lemma map_of_parse:
  assumes "distinct (jkeys kvs)" "k \<noteq> []"
  shows "map_of (parseSessionsDoc (JObj [(''sessions'', JObj kvs)])) k = Option.bind (map_of kvs k) parse_record"
proof -
  have "map_of (fold (\<lambda>(k, value) out. if k = [] then out
             else case parse_record value of Some r \<Rightarrow> jput k r out | None \<Rightarrow> out) kvs out) k
      = (case Option.bind (map_of kvs k) parse_record of Some r \<Rightarrow> Some r | None \<Rightarrow> map_of out k)" for out
    using assms
  proof (induction kvs arbitrary: out)
    case (Cons kv kvs)
    obtain k' x where kv: "kv = (k', x)" by fastforce
    let ?out = "if k' = [] then out else case parse_record x of Some r \<Rightarrow> jput k' r out | None \<Rightarrow> out"
    have "map_of ?out k = (if k' = k \<and> parse_record x \<noteq> None then parse_record x else map_of out k)"
      using assms(2) by (auto simp: map_of_jput split: option.splits)
    moreover have "k' = k \<Longrightarrow> map_of kvs k = None"
      using Cons.prems kv by (auto simp: map_of_eq_None_iff)
    ultimately show ?case
      using Cons.IH [of ?out] Cons.prems kv by (auto split: option.splits)
  qed simp
  then show ?thesis by (simp add: parseSessionsDoc_def split: option.split)
qed

lemma own_key_order_set: "set (own_key_order ks) = set ks"
  by (auto simp: own_key_order_def)

lemma own_key_order_distinct: "distinct ks \<Longrightarrow> distinct (own_key_order ks)"
  by (auto simp: own_key_order_def distinct_sort)

text \<open>Sorting only permutes.\<close>

definition collates :: "(string list \<Rightarrow> string list) \<Rightarrow> bool" where
  "collates f \<longleftrightarrow> (\<forall>ks. set (f ks) = set ks \<and> (distinct ks \<longrightarrow> distinct (f ks)))"

lemma map_of_map_filter_records:
  "map_of (List.map_filter (\<lambda>k. map_option (\<lambda>r. (k, f r)) (map_of doc k)) ks) k
     = (if k \<in> set ks then map_option f (map_of doc k) else None)"
  by (induction ks) (auto simp: List.map_filter_simps split: option.splits)

lemma map_filter_records_keys:
  "jkeys (List.map_filter (\<lambda>k. map_option (\<lambda>r. (k, f r)) (map_of doc k)) ks) = filter (jhas doc) ks"
  by (induction ks) (auto simp: List.map_filter_simps jhas_def split: option.splits)

lemma reads_back:
  assumes "collates collate" "doc_wf doc"
  shows "map_of (parseSessionsDoc (serializeSessionsDoc collate doc)) k
     = (if k = ''__proto__'' then None else map_option reread (map_of doc k))"
proof (cases "k = []")
  case True
  have "[] \<notin> set (jkeys (parseSessionsDoc j))" for j
    using parseSessionsDoc_wf by (simp add: doc_wf_def)
  then have "map_of (parseSessionsDoc j) [] = None" for j
    by (simp add: map_of_eq_None_iff)
  with True assms(2) show ?thesis by (simp add: doc_wf_def map_of_eq_None_iff [THEN iffD2])
next
  case False
  let ?ks = "own_key_order (filter (\<lambda>k. k \<noteq> ''__proto__'') (collate (jkeys doc)))"
  have ks: "set ?ks = set (jkeys doc) - {''__proto__''}" "distinct ?ks"
    using assms by (auto simp: own_key_order_set own_key_order_distinct collates_def doc_wf_def jmap_ok_def)
  let ?kvs = "List.map_filter (\<lambda>k. map_option (\<lambda>r. (k, record_json r)) (map_of doc k)) ?ks"
  have "distinct (jkeys ?kvs)" by (simp add: map_filter_records_keys ks)
  from map_of_parse [OF this False]
  have "map_of (parseSessionsDoc (serializeSessionsDoc collate doc)) k
      = Option.bind (if k \<in> set ?ks then map_option record_json (map_of doc k) else None) parse_record"
    by (simp add: serializeSessionsDoc_def map_of_map_filter_records)
  moreover have "k \<in> set ?ks \<longleftrightarrow> jhas doc k \<and> k \<noteq> ''__proto__''"
    by (auto simp: ks(1) jhas_iff)
  ultimately show ?thesis
    using parse_record_json doc_wf_record [OF assms(2)]
    by (cases "map_of doc k") (simp_all add: jhas_def)
qed

end
