(* ===== verification/SessionEdits.thy ===== *)
theory SessionEdits
  imports SessionRoundtrip
begin

text \<open>
  What a mutation may do to the session document.  \<open>gains\<close> and \<open>loses\<close> are the edits it can
  undergo, \<open>gains\<close> those that lose no record and no archived mark; every mutation of the store is a
  run of \<open>gains\<close> edits with at most one \<open>loses\<close> edit at its end.  The invariants are proved once over the
  edits.
\<close>

subsection \<open>Every mutation, as data\<close>

datatype session_op =
    Op_mint string
  | Op_rotate string string rotation_reason
  | Op_retire "string list" "string option"
  | Op_revert string string
  | Op_drop string bool
  | Op_title string string
  | Op_mode string string
  | Op_backend string string "string option" "string option"
  | Op_conducted string "string option"
  | Op_place string string "string option"
  | Op_switch string model_switch
  | Op_reanchor string string "string list" "string option"
  | Op_turn_end string
  | Op_viewed string int
  | Op_summary string string json
  | Op_flag string segment_flag bool "string option"

fun apply_of :: "'r call \<Rightarrow> sessions_doc \<Rightarrow> bool \<times> sessions_doc" where
  "apply_of (Answer v) doc = (False, doc)"
| "apply_of (Mutate ap pre) doc = (case ap doc of (c, v, doc') \<Rightarrow> (c, doc'))"

text \<open>A call without its answer.\<close>

fun erase :: "'r call \<Rightarrow> unit call" where
  "erase (Answer v) = Answer ()"
| "erase (Mutate ap pre) = Mutate (\<lambda>doc. case ap doc of (c, v, doc') \<Rightarrow> (c, (), doc')) (\<lambda>doc. map_option (\<lambda>_. ()) (pre doc))"

fun op_call :: "string \<Rightarrow> session_op \<Rightarrow> unit call" where
  "op_call at (Op_mint first) = erase (mintPublicId at first)"
| "op_call at (Op_rotate p b reason) = erase (recordRotation at p b reason)"
| "op_call at (Op_retire ids owner) = erase (retireSegments at ids owner)"
| "op_call at (Op_revert p b) = erase (revertRotation p b)"
| "op_call at (Op_drop b unlessLast) = erase (dropSegment b unlessLast)"
| "op_call at (Op_title i t) = erase (setTitle at i t)"
| "op_call at (Op_mode i m) = erase (setSessionMode at i m)"
| "op_call at (Op_backend i b m w) = erase (setSessionBackend at i b m w)"
| "op_call at (Op_conducted i p) = erase (markConducted at i p)"
| "op_call at (Op_place i p w) = erase (setSessionPlace at i p w)"
| "op_call at (Op_switch i e) = erase (appendModelSwitch i e)"
| "op_call at (Op_reanchor i seg surviving anchor) = erase (reanchorModelSwitches i seg surviving anchor)"
| "op_call at (Op_turn_end i) = erase (recordTurnEnd at i)"
| "op_call at (Op_viewed i n) = erase (markViewed at i n)"
| "op_call at (Op_summary i len v) = erase (setSummary at i len v)"
| "op_call at (Op_flag b flag on owner) =
     erase (case flag of Temp \<Rightarrow> setSegmentTemp at b on owner | Archived \<Rightarrow> setSegmentArchived at b on owner)"

lemma apply_of_erase [simp]: "apply_of (erase c) = apply_of c"
  by (cases c) (auto simp: fun_eq_iff split: prod.splits)

definition op_effect :: "string \<Rightarrow> session_op \<Rightarrow> sessions_doc \<Rightarrow> bool \<times> sessions_doc" where
  "op_effect at op = apply_of (op_call at op)"

text \<open>
  The shape of a fresh UUID, and what the callers of each operation see to: a minted id is a new
  UUID; a rotation is to an id no record holds, or it is the retry of the rotation its session
  made last; a session without a record is rotated by its full id; a ledger entry is complete, an
  anchor is a line's id.
\<close>

definition uuid_head :: "string \<Rightarrow> bool" where
  "uuid_head u \<longleftrightarrow> 13 < length u \<and> list_all is_hex (take 8 u) \<and> u ! 8 = CHR ''-''
     \<and> list_all is_hex (drop 9 (take 13 u))"

definition held :: "sessions_doc \<Rightarrow> string \<Rightarrow> bool" where
  "held doc i \<longleftrightarrow> list_ex (\<lambda>(p, r). holds_segment i r) doc"

fun op_ok :: "sessions_doc \<Rightarrow> session_op \<Rightarrow> bool" where
  "op_ok doc (Op_mint first) = (uuid_head first \<and> \<not> jhas doc first \<and> \<not> held doc first)"
| "op_ok doc (Op_rotate p b reason) = (case map_of doc p of
       Some r \<Rightarrow> \<not> held doc b \<or> rotation_done b r
     | None \<Rightarrow> \<not> held doc b \<and> \<not> held doc p \<and> \<not> isMintedPublicId p)"
| "op_ok doc (Op_switch i e) = switch_wf e"
| "op_ok doc (Op_reanchor i seg surviving anchor) = (anchor \<noteq> Some [])"
| "op_ok doc _ = True"

subsection \<open>Edits\<close>

text \<open>A change of facts leaves the identity alone and the facts well formed.\<close>

definition same_identity :: "session_record \<Rightarrow> session_record \<Rightarrow> bool" where
  "same_identity r r' \<longleftrightarrow> sr_current r' = sr_current r \<and> sr_segments r' = sr_segments r
     \<and> (facts_wf r \<longrightarrow> facts_wf r')"

definition same_facts :: "session_record \<Rightarrow> session_record \<Rightarrow> bool" where
  "same_facts r r' \<longleftrightarrow> r'\<lparr>sr_current := sr_current r, sr_segments := sr_segments r\<rparr> = r"

inductive gains :: "sessions_doc \<Rightarrow> sessions_doc \<Rightarrow> bool" where
  base_case: "i \<noteq> [] \<Longrightarrow> \<not> jhas doc i \<Longrightarrow> \<not> held doc i \<Longrightarrow> \<not> isMintedPublicId i
    \<Longrightarrow> gains doc (jput i (baseCaseRecord at i) doc)"
| mint: "p \<noteq> [] \<Longrightarrow> \<not> jhas doc p \<Longrightarrow> \<not> held doc i \<Longrightarrow> i \<noteq> [] \<Longrightarrow> isMintedPublicId p \<or> p = i
    \<Longrightarrow> gains doc (jput p (baseCaseRecord at i) doc)"
| rotate: "map_of doc p = Some r \<Longrightarrow> b \<noteq> [] \<Longrightarrow> \<not> held doc b
    \<Longrightarrow> gains doc (jput p (rotate at b reason r) doc)"
| facts: "map_of doc p = Some r \<Longrightarrow> same_identity r r' \<Longrightarrow> gains doc (jput p r' doc)"
| temp: "map_of doc p = Some r \<Longrightarrow> segment_satisfies (\<lambda>s. \<not> sg_dropped s) i r
    \<Longrightarrow> gains doc (jput p (update_segment i (setFlag Temp on) r) doc)"
| archive: "map_of doc p = Some r \<Longrightarrow> segment_satisfies (\<lambda>s. \<not> sg_dropped s) i r
    \<Longrightarrow> gains doc (jput p (update_segment i (setFlag Archived True) r) doc)"

inductive loses :: "sessions_doc \<Rightarrow> sessions_doc \<Rightarrow> bool" where
  unarchive: "map_of doc p = Some r \<Longrightarrow> segment_satisfies (\<lambda>s. \<not> sg_dropped s) i r
    \<Longrightarrow> loses doc (jput p (update_segment i (setFlag Archived False) r) doc)"
| revert: "map_of doc p = Some r \<Longrightarrow> newest_live r = Some b \<Longrightarrow> loses doc (revert p r doc)"
| tombstone: "map_of doc p = Some r \<Longrightarrow> segment_satisfies (\<lambda>s. \<not> sg_dropped s) b r
    \<Longrightarrow> newest_live (drop_entry b r) = Some i
    \<Longrightarrow> loses doc (jput p (if sr_current r = b then drop_entry b r\<lparr>sr_current := i\<rparr> else drop_entry b r) doc)"
| delete: "map_of doc p = Some r \<Longrightarrow> segment_satisfies (\<lambda>s. \<not> sg_dropped s) b r
    \<Longrightarrow> newest_live (drop_entry b r) = None \<Longrightarrow> loses doc (jdrop p doc)"

inductive_cases loses_cases: "loses doc doc'"

definition mutates :: "sessions_doc \<Rightarrow> sessions_doc \<Rightarrow> bool" where
  "mutates doc doc' \<longleftrightarrow> (\<exists>mid. gains\<^sup>*\<^sup>* doc mid \<and> (mid = doc' \<or> loses mid doc'))"

lemma mutates_refl [simp]: "mutates doc doc"
  by (auto simp: mutates_def)

lemma mutates_grow: "gains\<^sup>*\<^sup>* doc doc' \<Longrightarrow> mutates doc doc'"
  by (auto simp: mutates_def)

lemma mutates_then: "gains\<^sup>*\<^sup>* doc mid \<Longrightarrow> gains mid doc' \<Longrightarrow> mutates doc doc'"
  by (meson mutates_grow rtranclp.rtrancl_into_rtrancl)

lemma mutates_cut: "gains\<^sup>*\<^sup>* doc mid \<Longrightarrow> loses mid doc' \<Longrightarrow> mutates doc doc'"
  by (auto simp: mutates_def)

subsection \<open>Invariants of one record\<close>

text \<open>A property of every record, with its key, that each edit of a record keeps.\<close>

definition records :: "(string \<Rightarrow> session_record \<Rightarrow> bool) \<Rightarrow> sessions_doc \<Rightarrow> bool" where
  "records P doc \<longleftrightarrow> jmap_ok doc \<and> list_all (\<lambda>(p, r). P p r) doc"

lemma records_jput: "records P doc \<Longrightarrow> P p r \<Longrightarrow> records P (jput p r doc)"
  by (fastforce simp: records_def list_all_iff dest: set_jput_cases)

lemma records_jdrop: "records P doc \<Longrightarrow> records P (jdrop p doc)"
  by (auto simp: records_def list_all_iff AList.delete_eq jmap_ok_jdrop [unfolded AList.delete_eq])

lemma records_lookup: "records P doc \<Longrightarrow> map_of doc p = Some r \<Longrightarrow> P p r"
  by (auto simp: records_def list_all_iff dest: map_of_SomeD)

lemma records_Nil [simp]: "records P []"
  by (simp add: records_def)

locale record_invariant =
  fixes good :: "string \<Rightarrow> session_record \<Rightarrow> bool"
  assumes good_base: "p \<noteq> [] \<Longrightarrow> i \<noteq> [] \<Longrightarrow> isMintedPublicId p \<or> p = i \<Longrightarrow> good p (baseCaseRecord at i)"
    and good_rotate: "good p r \<Longrightarrow> b \<noteq> [] \<Longrightarrow> good p (rotate at b reason r)"
    and good_facts: "good p r \<Longrightarrow> same_identity r r' \<Longrightarrow> good p r'"
    and good_flag: "good p r \<Longrightarrow> segment_satisfies (\<lambda>s. \<not> sg_dropped s) i r
      \<Longrightarrow> good p (update_segment i (setFlag fl on) r)"
    and good_revert: "good p r \<Longrightarrow> newest_live (r\<lparr>sr_segments := remove_newest_live r\<rparr>) = Some i
      \<Longrightarrow> liveSegments r \<noteq> [] \<Longrightarrow> good p (r\<lparr>sr_segments := remove_newest_live r, sr_current := i\<rparr>)"
    and good_drop: "good p r \<Longrightarrow> segment_satisfies (\<lambda>s. \<not> sg_dropped s) b r
      \<Longrightarrow> newest_live (drop_entry b r) = Some i
      \<Longrightarrow> good p (if sr_current r = b then drop_entry b r\<lparr>sr_current := i\<rparr> else drop_entry b r)"
begin

lemma grows_one: "gains doc doc' \<Longrightarrow> records good doc \<Longrightarrow> records good doc'"
  by (induction rule: gains.induct)
     (auto intro!: records_jput good_base good_flag intro: good_facts good_rotate dest: records_lookup)

lemma grows: "gains\<^sup>*\<^sup>* doc doc' \<Longrightarrow> records good doc \<Longrightarrow> records good doc'"
  by (induction rule: rtranclp_induct) (auto intro: grows_one)

lemma cuts: "loses doc doc' \<Longrightarrow> records good doc \<Longrightarrow> records good doc'"
proof (induction rule: loses.induct)
  case (revert doc p r b)
  then have "liveSegments r \<noteq> []" "good p r" by (auto simp: newest_live_def records_lookup split: if_splits)
  with revert good_revert [of p r] show ?case
    by (auto simp: SessionWrites.revert_def Let_def records_jput records_jdrop split: option.split)
next
  case (tombstone doc p r b i)
  then show ?case by (intro records_jput good_drop) (auto dest: records_lookup)
qed (auto intro!: records_jput records_jdrop good_flag dest: records_lookup)

lemma mutations: "mutates doc doc' \<Longrightarrow> records good doc \<Longrightarrow> records good doc'"
  by (auto simp: mutates_def intro: grows cuts)

end

subsection \<open>Keys\<close>

text \<open>A record is keyed by a minted id or by its own first segment.\<close>

definition keyed :: "string \<Rightarrow> session_record \<Rightarrow> bool" where
  "keyed p r \<longleftrightarrow> isMintedPublicId p \<or> sr_segments r \<noteq> [] \<and> sg_id (hd (sr_segments r)) = p"

definition doc_keyed :: "sessions_doc \<Rightarrow> bool" where
  "doc_keyed doc \<longleftrightarrow> records keyed doc"

lemma keyed_ok: "doc_keyed doc \<Longrightarrow> jmap_ok doc"
  by (simp add: doc_keyed_def records_def)

lemma fullChainOwner_None: "fullChainOwner doc i = None \<longleftrightarrow> \<not> held doc i"
  by (auto simp: fullChainOwner_def held_def find_None_iff2 list_ex_iff)

lemma held_iff: "jmap_ok doc \<Longrightarrow> held doc i \<longleftrightarrow> (\<exists>p r. map_of doc p = Some r \<and> holds_segment i r)"
  by (force simp: held_def list_ex_iff jmap_ok_def)

lemma keyed_fresh: "doc_keyed doc \<Longrightarrow> \<not> held doc i \<Longrightarrow> \<not> isMintedPublicId i \<Longrightarrow> \<not> jhas doc i"
  by (force simp: doc_keyed_def records_def keyed_def held_def list_ex_iff list_all_iff jhas_obtain holds_segment_def
      dest: map_of_SomeD hd_in_set)

lemma map_first_ids: "(\<And>s. sg_id (f s) = sg_id s) \<Longrightarrow> map sg_id (map_first P f xs) = map sg_id xs"
  by (induction xs) auto

lemma update_segment_ids:
  "(\<And>s. sg_id (f s) = sg_id s) \<Longrightarrow> map sg_id (sr_segments (update_segment i f r)) = map sg_id (sr_segments r)"
  by (simp add: update_segment_def map_first_ids)

lemma setFlag_id [simp]: "sg_id (setFlag fl on s) = sg_id s" "sg_dropped (setFlag fl on s) = sg_dropped s"
  by (cases fl; simp)+

lemma keyed_ids: "map sg_id (sr_segments r') = map sg_id (sr_segments r) \<Longrightarrow> keyed p r' = keyed p r"
  by (cases "sr_segments r"; cases "sr_segments r'") (auto simp: keyed_def)

lemma keyed_base: "keyed i (baseCaseRecord at i)" "isMintedPublicId p \<Longrightarrow> keyed p r"
  by (simp_all add: keyed_def baseCaseRecord_def bare_record_def new_segment_def)

text \<open>Removing the newest live segment keeps the others, and the head when any live one is left.\<close>

lemma remove_newest_live_split:
  assumes "liveSegments r \<noteq> []"
  obtains xs s ys where "sr_segments r = xs @ s # ys" "\<not> sg_dropped s" "list_all sg_dropped ys"
    "remove_newest_live r = xs @ ys" "last (liveSegments r) = s"
proof -
  have "\<exists>x \<in> set (sr_segments r). \<not> sg_dropped x"
    using assms by (auto simp: liveSegments_def filter_empty_conv)
  then obtain xs s ys where x: "sr_segments r = xs @ s # ys" "\<not> sg_dropped s" "\<forall>y \<in> set ys. sg_dropped y"
    using split_list_last_prop [of "sr_segments r" "\<lambda>x. \<not> sg_dropped x"] by blast
  have "takeWhile sg_dropped (rev ys @ s # rev xs) = rev ys" "dropWhile sg_dropped (rev ys @ s # rev xs) = s # rev xs"
    using x(2,3) by (auto simp: takeWhile_append dropWhile_append)
  then have "remove_newest_live r = xs @ ys"
    by (simp add: remove_newest_live_def x(1))
  moreover have "liveSegments r = filter (\<lambda>s. \<not> sg_dropped s) xs @ [s]"
    using x(2,3) by (simp add: liveSegments_def x(1))
  ultimately show thesis
    using x that by (simp add: list_all_iff)
qed

lemma newest_live_Some: "newest_live r = Some i \<Longrightarrow> liveSegments r \<noteq> [] \<and> sg_id (last (liveSegments r)) = i"
  by (simp add: newest_live_def split: if_splits)

lemma keyed_revert:
  assumes "keyed p r" "newest_live (r\<lparr>sr_segments := remove_newest_live r\<rparr>) = Some i" "liveSegments r \<noteq> []"
  shows "keyed p (r\<lparr>sr_segments := remove_newest_live r, sr_current := i\<rparr>)"
proof -
  obtain xs s ys where x: "sr_segments r = xs @ s # ys" "list_all sg_dropped ys" "remove_newest_live r = xs @ ys"
    using remove_newest_live_split [OF assms(3)] by metis
  have "xs \<noteq> []"
    using newest_live_Some [OF assms(2)] x by (auto simp: liveSegments_def list_all_iff filter_empty_conv)
  with assms(1) x show ?thesis by (auto simp: keyed_def)
qed

interpretation keys: record_invariant keyed
proof
  show "keyed p (rotate at b reason r)" if "keyed p r" "b \<noteq> []" for p at b reason r
    using that by (auto simp: keyed_def rotate_def)
  show "keyed p r'" if "keyed p r" "same_identity r r'" for p r r'
    using that keyed_ids [of r' r] by (simp add: same_identity_def)
qed (auto simp: keyed_base keyed_ids [OF update_segment_ids] keyed_revert drop_entry_def
      keyed_ids [of "_\<lparr>sr_current := _\<rparr>", simplified, OF update_segment_ids])

lemma grows_keyed: "gains\<^sup>*\<^sup>* doc doc' \<Longrightarrow> doc_keyed doc \<Longrightarrow> doc_keyed doc'"
  unfolding doc_keyed_def by (rule keys.grows)

subsection \<open>Write targets\<close>

lemma fullChainOwner_Some:
  assumes "fullChainOwner doc i = Some (p, r)" "jmap_ok doc"
  shows "map_of doc p = Some r" "holds_segment i r"
  using assms find_SomeD [of "\<lambda>(p, r). holds_segment i r" doc "(p, r)"]
  by (auto simp: fullChainOwner_def jmap_ok_def)

lemma ensureRecord_target:
  assumes "ensureRecord create at doc i = (Target p r, doc')" "jmap_ok doc" "i \<noteq> []"
  shows "gains\<^sup>*\<^sup>* doc doc' \<and> map_of doc' p = Some r \<and> jmap_ok doc'"
proof (cases "map_of doc i")
  case None
  then have fresh: "\<not> jhas doc i" by (simp add: jhas_def)
  show ?thesis
  proof (cases "fullChainOwner doc i")
    case None
    with assms \<open>map_of doc i = None\<close> fresh gains.base_case [of i doc at] show ?thesis
      by (auto simp: ensureRecord_def fullChainOwner_None map_of_jput split: if_splits)
  next
    case (Some q)
    with assms \<open>map_of doc i = None\<close> fullChainOwner_Some [of doc i] show ?thesis
      by (cases q) (auto simp: ensureRecord_def)
  qed
qed (use assms in \<open>auto simp: ensureRecord_def\<close>)

lemma ensureSegment_target:
  assumes "ensureSegment create at doc i owner = (Target p r, doc')" "jmap_ok doc" "i \<noteq> []" "doc_keyed doc"
  shows "gains\<^sup>*\<^sup>* doc doc' \<and> map_of doc' p = Some r \<and> segment_satisfies (\<lambda>s. \<not> sg_dropped s) i r \<and> jmap_ok doc'"
proof (cases "fullChainOwner doc i")
  case (Some q)
  with assms fullChainOwner_Some [of doc i] show ?thesis
    by (cases q) (auto simp: ensureSegment_def segment_satisfies_def split: option.splits if_splits)
next
  case None
  then have out: "\<not> held doc i" by (simp add: fullChainOwner_None)
  have "new_segment_target create at doc i = (Target p r, doc')"
    using assms None by (auto simp: ensureSegment_def split: option.splits if_splits)
  moreover have "segment_satisfies (\<lambda>s. \<not> sg_dropped s) i (baseCaseRecord at i)"
    by (simp add: segment_satisfies_def find_segment_def baseCaseRecord_def bare_record_def new_segment_def)
  ultimately show ?thesis
    using assms out gains.base_case [of i doc at] keyed_fresh [of doc i]
    by (auto simp: new_segment_target_def map_of_jput split: if_splits)
qed

subsection \<open>Every mutation is a run of edits\<close>

lemma record_edit_mutates:
  assumes "doc_keyed doc" "i \<noteq> []" "ensureRecord create at doc i = (Target p r, mid)" "same_identity r r'"
  shows "mutates doc (jput p r' mid)"
  using ensureRecord_target [OF assms(3)] assms(1,2,4) gains.facts
  by (metis keyed_ok mutates_then)

lemma sessionWrite_mutates:
  assumes "doc_keyed doc" "i \<noteq> []" "apply_of (sessionWrite at i v same f cur) doc = (True, doc')"
    and "\<And>r. same_identity r (fst (f r))"
  shows "mutates doc doc'"
  using assms
  by (auto simp: sessionWrite_def split: prod.splits target.splits if_splits
      intro!: record_edit_mutates) (metis fst_conv)

lemma segmentWrite_mutates:
  assumes "doc_keyed doc" "i \<noteq> []" "apply_of (segmentWrite at i flag on owner) doc = (True, doc')"
  shows "mutates doc doc'"
proof -
  obtain p r mid where t: "ensureSegment True at doc i owner = (Target p r, mid)"
      "doc' = jput p (update_segment i (setFlag flag on) r) mid"
    using assms(3) by (auto simp: segmentWrite_def split: prod.splits target.splits if_splits)
  from ensureSegment_target [OF t(1)] assms(1,2)
  have m: "gains\<^sup>*\<^sup>* doc mid" "map_of mid p = Some r" "segment_satisfies (\<lambda>s. \<not> sg_dropped s) i r"
    by (auto simp: keyed_ok)
  show ?thesis
  proof (cases "flag = Archived \<and> \<not> on")
    case True
    with m loses.unarchive [of mid p r i] t(2) show ?thesis by (auto intro: mutates_cut)
  next
    case False
    then have "gains mid doc'"
      using t(2) m gains.temp [of mid p r i on] gains.archive [of mid p r i] by (cases flag) auto
    with m(1) show ?thesis by (rule mutates_then)
  qed
qed

lemma update_segment_both:
  "update_segment i (\<lambda>s. s\<lparr>sg_temp := False, sg_archived := True\<rparr>) r
     = update_segment i (setFlag Archived True) (update_segment i (setFlag Temp False) r)"
proof -
  have "map_first P (\<lambda>s. s\<lparr>sg_temp := False, sg_archived := True\<rparr>) xs
      = map_first P (setFlag Archived True) (map_first P (setFlag Temp False) xs)"
    if "\<And>s. P (setFlag Temp False s) = P s" for P and xs :: "segment list"
    using that by (induction xs) auto
  then show ?thesis by (simp add: update_segment_def)
qed

lemma map_first_find:
  "(\<And>s. P (f s) = P s) \<Longrightarrow> List.find P (map_first P f xs) = map_option f (List.find P xs)"
  by (induction xs) auto

lemma find_update:
  "(\<And>s. sg_id (f s) = sg_id s) \<Longrightarrow> find_segment i (update_segment i f r) = map_option f (find_segment i r)"
  by (simp add: find_segment_def update_segment_def map_first_find)

lemma satisfies_update:
  "(\<And>s. sg_id (f s) = sg_id s) \<Longrightarrow> segment_satisfies P i (update_segment i f r) = segment_satisfies (P \<circ> f) i r"
  by (auto simp: segment_satisfies_def find_update split: option.splits)

lemma retire_one_grows:
  assumes "doc_keyed doc" "i \<noteq> []" "retire_one at owner i (c, doc) = (c', doc')"
  shows "gains\<^sup>*\<^sup>* doc doc'"
proof (cases "ensureSegment True at doc i owner")
  case (Pair t mid)
  show ?thesis
  proof (cases t)
    case (Target p r)
    from ensureSegment_target [OF Pair [unfolded Target]] assms(1,2)
    have m: "gains\<^sup>*\<^sup>* doc mid" "map_of mid p = Some r" "segment_satisfies (\<lambda>s. \<not> sg_dropped s) i r"
      by (auto simp: keyed_ok)
    let ?r1 = "update_segment i (setFlag Temp False) r"
    let ?r2 = "update_segment i (setFlag Archived True) ?r1"
    have "gains mid (jput p ?r1 mid)" using m by (auto intro: gains.temp)
    moreover have "gains (jput p ?r1 mid) (jput p ?r2 (jput p ?r1 mid))"
      using m(3) by (intro gains.archive) (simp_all add: map_of_jput satisfies_update comp_def)
    ultimately have "gains\<^sup>*\<^sup>* doc (jput p ?r2 mid)" using m(1) by (simp add: rtranclp.rtrancl_into_rtrancl)
    with m(1) assms(3) Pair Target show ?thesis
      by (auto simp: retire_one_def update_segment_both split: if_splits)
  qed (use assms(3) Pair in \<open>auto simp: retire_one_def ensureSegment_def new_segment_target_def
        split: option.splits if_splits\<close>)
qed

lemma retires_grow:
  "list_all (\<lambda>i. i \<noteq> []) ids \<Longrightarrow> doc_keyed doc \<Longrightarrow> fold (retire_one at owner) ids (c, doc) = (c', doc')
     \<Longrightarrow> gains\<^sup>*\<^sup>* doc doc'"
proof (induction ids arbitrary: c doc)
  case (Cons i ids)
  obtain c1 mid where mid: "retire_one at owner i (c, doc) = (c1, mid)" by fastforce
  with Cons.prems have "gains\<^sup>*\<^sup>* doc mid" by (intro retire_one_grows [OF _ _ mid]) simp_all
  moreover from this Cons.prems mid have "gains\<^sup>*\<^sup>* mid doc'"
    by (intro Cons.IH) (auto intro: grows_keyed)
  ultimately show ?case by (rule rtranclp_trans)
qed simp

lemma retireSegments_mutates:
  assumes "doc_keyed doc" "apply_of (retireSegments at ids owner) doc = (c, doc')"
  shows "mutates doc doc'"
proof -
  let ?ids = "rev (remdups (rev (filter (\<lambda>i. i \<noteq> []) ids)))"
  have "list_all (\<lambda>i. i \<noteq> []) ?ids" by (auto simp: list_all_iff)
  then show ?thesis
    using assms retires_grow [of ?ids doc at owner False c doc']
    by (auto simp: retireSegments_def Let_def intro!: mutates_grow split: if_splits prod.splits)
qed

lemma minted_head:
  assumes "uuid_head u"
  shows "isMintedPublicId (take 8 u)" "isMintedPublicId (take 13 u)"
proof -
  have len: "13 < length u" using assms by (simp add: uuid_head_def)
  show "isMintedPublicId (take 8 u)" using assms len by (simp add: uuid_head_def isMintedPublicId_def)
  have "drop 9 (take 13 u) = drop 9 (take 13 u) \<and> take 8 (take 13 u) = take 8 u \<and> take 13 u ! 8 = u ! 8"
    using len by simp
  with assms len show "isMintedPublicId (take 13 u)" by (simp add: uuid_head_def isMintedPublicId_def)
qed

lemma minted_id_fresh:
  assumes "uuid_head u" "\<not> jhas doc u"
  shows "\<not> jhas doc (minted_id doc u)" "minted_id doc u \<noteq> []" "isMintedPublicId (minted_id doc u) \<or> minted_id doc u = u"
  using assms minted_head [OF assms(1)]
  by (auto simp: minted_id_def PUBLIC_ID_LEN_def PUBLIC_ID_LEN_EXTENDED_def uuid_head_def)

lemma mint_mutates:
  "op_ok doc (Op_mint u) \<Longrightarrow> apply_of (mintPublicId at u) doc = (True, doc') \<Longrightarrow> mutates doc doc'"
  using minted_id_fresh [of u doc]
  by (auto simp: mintPublicId_def Let_def uuid_head_def intro!: mutates_then [OF rtranclp.rtrancl_refl] gains.mint)

lemma held_jput_other: "\<not> jhas doc p \<Longrightarrow> held (jput p r doc) i \<longleftrightarrow> held doc i \<or> holds_segment i r"
  by (simp add: jput_new held_def)

lemma rotate_mutates:
  assumes "doc_keyed doc" "op_ok doc (Op_rotate p b reason)"
    and "apply_of (recordRotation at p b reason) doc = (True, doc')"
  shows "mutates doc doc'"
proof (cases "map_of doc p")
  case (Some r)
  with assms show ?thesis
    by (auto simp: recordRotation_def Let_def intro!: mutates_then [OF rtranclp.rtrancl_refl] gains.rotate split: if_splits)
next
  case None
  let ?base = "baseCaseRecord at p"
  from None assms have out: "p \<noteq> []" "b \<noteq> []" "\<not> jhas doc p" "\<not> held doc p" "\<not> isMintedPublicId p" "\<not> held doc b"
    and doc': "\<not> rotation_done b ?base" "doc' = jput p (rotate at b reason ?base) doc"
    by (auto simp: recordRotation_def Let_def jhas_def split: if_splits)
  have "p \<noteq> b"
    using doc'(1) by (auto simp: rotation_done_def newest_live_def baseCaseRecord_def bare_record_def
        liveSegments_def new_segment_def)
  then have "\<not> held (jput p ?base doc) b"
    using out assms(1) by (simp add: held_jput_other keyed_ok holds_segment_def baseCaseRecord_def
        bare_record_def new_segment_def)
  then have "gains (jput p ?base doc) (jput p (rotate at b reason ?base) (jput p ?base doc))"
    using out by (intro gains.rotate) (simp_all add: map_of_jput)
  moreover have "gains doc (jput p ?base doc)" using out by (intro gains.base_case)
  ultimately show ?thesis
    using doc'(2) by (auto intro: mutates_then)
qed

lemma revert_mutates:
  assumes "apply_of (revertRotation p b) doc = (True, doc')"
  shows "mutates doc doc'"
  using assms
  by (auto simp: revertRotation_def intro!: mutates_cut [OF rtranclp.rtrancl_refl] loses.revert split: if_splits option.splits)

lemma holds_find: "holds_segment i r \<longleftrightarrow> find_segment i r \<noteq> None"
  by (auto simp: holds_segment_def find_segment_def list_ex_iff find_None_iff2)

lemma drop_mutates:
  assumes "doc_keyed doc" "apply_of (dropSegment b unlessLast) doc = (True, doc')"
  shows "mutates doc doc'"
proof -
  obtain p r where o: "fullChainOwner doc b = Some (p, r)" "\<not> segment_satisfies sg_dropped b r"
    using assms(2) by (auto simp: dropSegment_def split: if_splits option.splits)
  from fullChainOwner_Some [OF o(1)] assms(1) have r: "map_of doc p = Some r" "holds_segment b r"
    by (auto simp: keyed_ok)
  have live: "segment_satisfies (\<lambda>s. \<not> sg_dropped s) b r"
    using o(2) r(2) by (auto simp: segment_satisfies_def holds_find split: option.splits)
  show ?thesis
  proof (cases "newest_live (drop_entry b r)")
    case None
    with assms(2) o r live loses.delete [of doc p r b] show ?thesis
      by (auto simp: dropSegment_def Let_def intro: mutates_cut split: if_splits)
  next
    case (Some i)
    with assms(2) o r live loses.tombstone [of doc p r b i] show ?thesis
      by (auto simp: dropSegment_def Let_def intro: mutates_cut split: if_splits)
  qed
qed

lemma tier_put_wf:
  "facts_wf r \<Longrightarrow> tier_wf (len, t) \<Longrightarrow> facts_wf (r\<lparr>sr_summaries := jput len t (sr_summaries r)\<rparr>)"
  by (force simp: facts_wf_def list_all_iff dest: set_jput_cases)

lemma facts_edit_mutates:
  assumes "doc_keyed doc" "i \<noteq> []"
    and "(case ensureRecord create at doc i of (Target p r, mid) \<Rightarrow> (True, jput p (f r) mid) | (_, mid) \<Rightarrow> (False, mid)) = (True, doc')"
    and "\<And>r. same_identity r (f r)"
  shows "mutates doc doc'"
  using assms by (auto split: prod.splits target.splits intro: record_edit_mutates)

lemma op_mutates:
  assumes "doc_keyed doc" "op_ok doc op" "op_effect at op doc = (True, doc')"
  shows "mutates doc doc'"
proof -
  have eff: "apply_of (op_call at op) doc = (True, doc')"
    using assms(3) by (simp add: op_effect_def)
  show ?thesis
  proof (cases op)
  case (Op_mint u)
  with assms(1,2) eff show ?thesis using mint_mutates by simp
next
  case (Op_rotate p b reason)
  with assms(1,2) eff show ?thesis using rotate_mutates by simp
next
  case (Op_retire ids owner)
  with assms(1,2) eff show ?thesis using retireSegments_mutates by simp
next
  case (Op_revert p b)
  with assms(1,2) eff show ?thesis using revert_mutates by simp
next
  case (Op_drop b u)
  with assms(1,2) eff show ?thesis using drop_mutates by simp
next
  case (Op_title i t)
  with assms(1,2) eff show ?thesis
    by (auto simp: setTitle_def Let_def same_identity_def facts_wf_def truthy_text_def
        intro: sessionWrite_mutates split: if_splits)
next
  case (Op_mode i m)
  with assms(1,2) eff show ?thesis
    by (auto simp: setSessionMode_def same_identity_def facts_wf_def intro: sessionWrite_mutates split: if_splits)
next
  case (Op_backend i b m w)
  with assms(1,2) eff show ?thesis
    by (auto simp: setSessionBackend_def same_identity_def facts_wf_def truthy_text_def Let_def
        intro: sessionWrite_mutates split: if_splits)
next
  case (Op_conducted i p)
  with assms(1,2) eff show ?thesis
    by (auto simp: markConducted_def same_identity_def facts_wf_def truthy_text_def Let_def
        intro: sessionWrite_mutates split: if_splits)
next
  case (Op_place i p w)
  with assms(1,2) eff show ?thesis
    by (auto simp: setSessionPlace_def same_identity_def facts_wf_def truthy_text_def Let_def
        intro: sessionWrite_mutates split: if_splits)
next
  case (Op_switch i e)
  with assms(1,2) eff show ?thesis
    by (intro facts_edit_mutates [where i = i and create = False and at = "[]" and f = "\<lambda>r. r\<lparr>sr_modelSwitches := sr_modelSwitches r @ [e]\<rparr>"])
       (auto simp: appendModelSwitch_def same_identity_def facts_wf_def split: if_splits prod.splits target.splits)
next
  case (Op_reanchor i seg surviving anchor)
  let ?f = "\<lambda>r. r\<lparr>sr_modelSwitches := map (\<lambda>e. if stale_switch seg surviving e then e\<lparr>ms_afterUuid := anchor\<rparr> else e)
      (sr_modelSwitches r)\<rparr>"
  have "same_identity r (?f r)" for r
    using assms(2) Op_reanchor by (auto simp: same_identity_def facts_wf_def list_all_iff switch_wf_def)
  with assms(1,2) eff Op_reanchor show ?thesis
    by (intro facts_edit_mutates [where i = i and create = False and at = "[]" and f = ?f])
       (auto simp: reanchorModelSwitches_def Let_def split: if_splits prod.splits target.splits)
next
  case (Op_turn_end i)
  with assms(1,2) eff show ?thesis
    by (intro facts_edit_mutates [where i = i and create = True and at = at and f = "\<lambda>r. r\<lparr>sr_turnEndSeq := sr_turnEndSeq r + 1\<rparr>"])
       (auto simp: recordTurnEnd_def Let_def same_identity_def facts_wf_def split: if_splits prod.splits target.splits)
next
  case (Op_viewed i n)
  with assms(1,2) eff show ?thesis
    by (auto simp: markViewed_def same_identity_def facts_wf_def Let_def intro: sessionWrite_mutates split: if_splits)
next
  case (Op_summary i len v)
  then obtain t where t: "i \<noteq> []" "len \<in> set SUMMARY_LENGTHS" "normalizeTierRecord (Some v) = Some t"
    using eff by (auto simp: setSummary_def split: if_splits option.splits)
  then have "tier_wf (len, t)" by (intro normalizeTier_wf)
  with assms(1,2) eff Op_summary t show ?thesis
    by (intro facts_edit_mutates [where i = i and create = True and at = at and f = "\<lambda>r. r\<lparr>sr_summaries := jput len t (sr_summaries r)\<rparr>"])
       (auto simp: setSummary_def same_identity_def tier_put_wf split: if_splits prod.splits target.splits)
next
  case (Op_flag b fl on owner)
  with assms(1,2) eff show ?thesis
    by (cases fl) (auto simp: setSegmentTemp_def setSegmentArchived_def intro: segmentWrite_mutates split: if_splits)
  qed
qed

end
