(* ===== verification/SessionInvariants.thy ===== *)
theory SessionInvariants
  imports SessionEdits
begin

text \<open>
  The record invariant of the session store, the ownership of segments, and what a mutation may
  lose.
\<close>

subsection \<open>The record invariant\<close>

text \<open>\<open>current\<close> names a live segment, and a tombstone carries no flag.\<close>

definition record_ok :: "session_record \<Rightarrow> bool" where
  "record_ok r \<longleftrightarrow> current_segment r \<noteq> None
     \<and> list_all (\<lambda>s. sg_dropped s \<longrightarrow> \<not> sg_temp s \<and> \<not> sg_archived s) (sr_segments r)"

lemma current_segment_iff:
  "current_segment r \<noteq> None \<longleftrightarrow> (\<exists>s \<in> set (liveSegments r). sg_id s = sr_current r)"
  by (auto simp: current_segment_def liveSegments_def find_None_iff2)

lemma record_ok_iff:
  "record_ok r \<longleftrightarrow> (\<exists>s \<in> set (liveSegments r). sg_id s = sr_current r)
     \<and> list_all (\<lambda>s. sg_dropped s \<longrightarrow> \<not> sg_temp s \<and> \<not> sg_archived s) (sr_segments r)"
  unfolding record_ok_def current_segment_iff ..

lemma record_ok_live: "record_ok r \<Longrightarrow> liveSegments r \<noteq> []"
  by (auto simp: record_ok_iff)

lemma find_split:
  assumes "List.find P xs = Some x"
  obtains pre post where "xs = pre @ x # post" "P x" "\<forall>y \<in> set pre. \<not> P y"
  using assms that by (auto simp: find_Some_iff in_set_conv_nth) (metis id_take_nth_drop in_set_conv_nth
      length_take less_imp_le_nat min.absorb2 nth_take)

lemma map_first_at: "\<forall>y \<in> set pre. \<not> P y \<Longrightarrow> P x \<Longrightarrow> map_first P f (pre @ x # post) = pre @ f x # post"
  by (induction pre) auto

lemma update_split:
  assumes "segment_satisfies P i r"
  obtains pre s post where "sr_segments r = pre @ s # post" "sg_id s = i" "P s"
    "\<And>f. sr_segments (update_segment i f r) = pre @ f s # post" "find_segment i r = Some s"
proof -
  obtain s where s: "find_segment i r = Some s" "P s"
    using assms by (auto simp: segment_satisfies_def split: option.splits)
  obtain pre post where x: "sr_segments r = pre @ s # post" "sg_id s = i" "\<forall>y \<in> set pre. sg_id y \<noteq> i"
    using find_split [OF s(1) [unfolded find_segment_def]] by blast
  have "sr_segments (update_segment i f r) = pre @ f s # post" for f
    using x by (simp add: update_segment_def map_first_at)
  from that [OF x(1,2) s(2) this s(1)] show thesis .
qed

lemma update_segment_current [simp]: "sr_current (update_segment i f r) = sr_current r"
  by (simp add: update_segment_def)

lemma record_ok_flag:
  assumes "record_ok r" "segment_satisfies (\<lambda>s. \<not> sg_dropped s) i r"
  shows "record_ok (update_segment i (setFlag fl on) r)"
proof -
  obtain pre s post where "sr_segments r = pre @ s # post" "\<not> sg_dropped s"
    "sr_segments (update_segment i (setFlag fl on) r) = pre @ setFlag fl on s # post"
    using update_split [OF assms(2)] by metis
  with assms(1) show ?thesis
    by (auto simp: record_ok_iff liveSegments_def)
qed

lemma record_ok_drop:
  assumes "record_ok r" "segment_satisfies (\<lambda>s. \<not> sg_dropped s) b r" "newest_live (drop_entry b r) = Some i"
  shows "record_ok (if sr_current r = b then drop_entry b r\<lparr>sr_current := i\<rparr> else drop_entry b r)"
proof -
  let ?f = "\<lambda>s. s\<lparr>sg_dropped := True, sg_temp := False, sg_archived := False\<rparr>"
  obtain pre s post where x: "sr_segments r = pre @ s # post" "\<not> sg_dropped s" "sg_id s = b"
    "sr_segments (drop_entry b r) = pre @ ?f s # post"
    using update_split [OF assms(2)] by (metis drop_entry_def)
  have flags: "list_all (\<lambda>s. sg_dropped s \<longrightarrow> \<not> sg_temp s \<and> \<not> sg_archived s) (sr_segments (drop_entry b r))"
    using assms(1) x by (simp add: record_ok_iff)
  have live: "liveSegments (drop_entry b r) \<noteq> []" "sg_id (last (liveSegments (drop_entry b r))) = i"
    using newest_live_Some [OF assms(3)] by auto
  show ?thesis
  proof (cases "sr_current r = b")
    case True
    have "last (liveSegments (drop_entry b r)) \<in> set (liveSegments (drop_entry b r))"
      using live(1) by (rule last_in_set)
    with True live flags show ?thesis
      by (auto simp: record_ok_iff liveSegments_def)
  next
    case False
    with assms(1) x flags show ?thesis
      by (auto simp: record_ok_iff liveSegments_def drop_entry_def)
  qed
qed

lemma record_ok_revert:
  assumes "record_ok r" "newest_live (r\<lparr>sr_segments := remove_newest_live r\<rparr>) = Some i" "liveSegments r \<noteq> []"
  shows "record_ok (r\<lparr>sr_segments := remove_newest_live r, sr_current := i\<rparr>)"
proof -
  obtain xs s ys where x: "sr_segments r = xs @ s # ys" "remove_newest_live r = xs @ ys"
    using remove_newest_live_split [OF assms(3)] by metis
  have "last (liveSegments (r\<lparr>sr_segments := xs @ ys\<rparr>)) \<in> set (liveSegments (r\<lparr>sr_segments := xs @ ys\<rparr>))"
    using newest_live_Some [OF assms(2)] x by (intro last_in_set) simp
  with newest_live_Some [OF assms(2)] x assms(1) show ?thesis
    by (auto simp: record_ok_iff liveSegments_def)
qed

interpretation live: record_invariant "\<lambda>_. record_ok"
proof
  show "record_ok (baseCaseRecord at i)" for at i
    by (simp add: record_ok_iff liveSegments_def baseCaseRecord_def bare_record_def new_segment_def)
  show "record_ok (rotate at b reason r)" if "record_ok r" for at b reason r
    using that by (auto simp: record_ok_iff liveSegments_def rotate_def new_segment_def)
  show "record_ok r'" if "record_ok r" "same_identity r r'" for r r'
    using that by (simp add: record_ok_iff liveSegments_def same_identity_def)
qed (blast intro: record_ok_flag record_ok_revert record_ok_drop)+

lemma doc_wf_records: "doc_wf doc \<longleftrightarrow> records (\<lambda>p r. p \<noteq> [] \<and> record_wf r) doc"
  by (force simp: doc_wf_def records_def list_all_iff)


lemma record_wf_ids:
  assumes "map sg_id (sr_segments r') = map sg_id (sr_segments r)" "sr_current r' = sr_current r"
    "facts_wf r \<longrightarrow> facts_wf r'" "liveSegments r' \<noteq> []" "record_wf r"
  shows "record_wf r'"
proof -
  have "list_all (\<lambda>s. sg_id s \<noteq> []) xs \<longleftrightarrow> [] \<notin> set (map sg_id xs)" for xs
    by (force simp: list_all_iff)
  from this [of "sr_segments r"] this [of "sr_segments r'"] assms show ?thesis by (simp add: record_wf_def)
qed

lemma facts_wf_update [simp]:
  "facts_wf (r\<lparr>sr_segments := segs\<rparr>) = facts_wf r" "facts_wf (r\<lparr>sr_current := c\<rparr>) = facts_wf r"
  "facts_wf (update_segment i f r) = facts_wf r"
  by (simp_all add: facts_wf_def update_segment_def)

lemma flag_live:
  assumes "segment_satisfies (\<lambda>s. \<not> sg_dropped s) i r"
  shows "liveSegments (update_segment i (setFlag fl on) r) \<noteq> []"
proof -
  obtain pre s post where "\<not> sg_dropped s"
    "sr_segments (update_segment i (setFlag fl on) r) = pre @ setFlag fl on s # post"
    using update_split [OF assms] by metis
  then show ?thesis by (simp add: liveSegments_def)
qed

interpretation wf: record_invariant "\<lambda>p r. p \<noteq> [] \<and> record_wf r"
proof
  show "p \<noteq> [] \<and> record_wf (baseCaseRecord at i)" if "p \<noteq> []" "i \<noteq> []" for p i at
    using that by (simp add: record_wf_def facts_wf_def liveSegments_def baseCaseRecord_def bare_record_def new_segment_def)
  show "p \<noteq> [] \<and> record_wf (rotate at b reason r)" if "p \<noteq> [] \<and> record_wf r" "b \<noteq> []" for p at b reason r
    using that by (auto simp: record_wf_def liveSegments_def rotate_def new_segment_def)
  show "p \<noteq> [] \<and> record_wf r'" if "p \<noteq> [] \<and> record_wf r" "same_identity r r'" for p r r'
    using that by (simp add: record_wf_def same_identity_def liveSegments_def)
  show "p \<noteq> [] \<and> record_wf (update_segment i (setFlag fl on) r)"
    if "p \<noteq> [] \<and> record_wf r" "segment_satisfies (\<lambda>s. \<not> sg_dropped s) i r" for p r i fl on
    using that record_wf_ids [OF update_segment_ids] flag_live [of i r fl on] by simp
  show "p \<noteq> [] \<and> record_wf (r\<lparr>sr_segments := remove_newest_live r, sr_current := i\<rparr>)"
    if "p \<noteq> [] \<and> record_wf r" "newest_live (r\<lparr>sr_segments := remove_newest_live r\<rparr>) = Some i"
      "liveSegments r \<noteq> []" for p r i
  proof -
    note h = that
    obtain xs s ys where x: "sr_segments r = xs @ s # ys" "remove_newest_live r = xs @ ys"
      using remove_newest_live_split [OF h(3)] by metis
    have "last (liveSegments (r\<lparr>sr_segments := xs @ ys\<rparr>)) \<in> set (liveSegments (r\<lparr>sr_segments := xs @ ys\<rparr>))"
      using newest_live_Some [OF h(2)] x by (intro last_in_set) simp
    with newest_live_Some [OF h(2)] x h(1) show ?thesis
      by (auto simp: record_wf_def liveSegments_def list_all_iff)
  qed
  show "p \<noteq> [] \<and> record_wf (if sr_current r = b then drop_entry b r\<lparr>sr_current := i\<rparr> else drop_entry b r)"
    if "p \<noteq> [] \<and> record_wf r" "newest_live (drop_entry b r) = Some i" for p r b i
  proof -
    let ?r = "drop_entry b r"
    have "map sg_id (sr_segments ?r) = map sg_id (sr_segments r)"
      unfolding drop_entry_def by (rule update_segment_ids) simp
    with that newest_live_Some [OF that(2)] have r: "record_wf ?r"
      by (intro record_wf_ids [of ?r r]) (simp_all add: drop_entry_def)
    have "last (liveSegments ?r) \<in> set (liveSegments ?r)"
      using newest_live_Some [OF that(2)] by (intro last_in_set) simp
    with r newest_live_Some [OF that(2)] have "i \<noteq> []"
      by (auto simp: record_wf_def liveSegments_def list_all_iff)
    with r that(1) show ?thesis by (auto simp: record_wf_def liveSegments_def)
  qed
qed

subsection \<open>One owner per segment\<close>

text \<open>No segment id occurs twice, within a chain or across records.\<close>

abbreviation ids_of :: "session_record \<Rightarrow> string list" where
  "ids_of r \<equiv> map sg_id (sr_segments r)"

definition owned_once :: "sessions_doc \<Rightarrow> bool" where
  "owned_once doc \<longleftrightarrow> (\<forall>p r. map_of doc p = Some r \<longrightarrow> distinct (ids_of r))
     \<and> (\<forall>p q r s. map_of doc p = Some r \<longrightarrow> map_of doc q = Some s \<longrightarrow> p \<noteq> q \<longrightarrow> set (ids_of r) \<inter> set (ids_of s) = {})"

lemma holds_ids: "holds_segment i r \<longleftrightarrow> i \<in> set (ids_of r)"
  by (auto simp: holds_segment_def list_ex_iff)

lemma owned_once_jput:
  assumes "owned_once doc" "distinct (ids_of r)"
    and "\<And>q s. map_of doc q = Some s \<Longrightarrow> q \<noteq> p \<Longrightarrow> set (ids_of r) \<inter> set (ids_of s) = {}"
  shows "owned_once (jput p r doc)"
  using assms unfolding owned_once_def
  by (auto simp: map_of_jput split: if_splits)

lemma owned_once_jdrop: "owned_once doc \<Longrightarrow> owned_once (jdrop p doc)"
  unfolding owned_once_def by (auto simp: map_of_jdrop split: if_splits)

text \<open>An edit of one record that brings in at most ids nobody holds.\<close>

lemma owned_once_edit:
  assumes "owned_once doc" "jmap_ok doc" "distinct (ids_of r')"
    and "\<And>i. i \<in> set (ids_of r') \<Longrightarrow> \<not> held doc i \<or> (\<exists>r. map_of doc p = Some r \<and> i \<in> set (ids_of r))"
  shows "owned_once (jput p r' doc)"
proof (rule owned_once_jput [OF assms(1,3)])
  fix q s assume q: "map_of doc q = Some s" "q \<noteq> p"
  show "set (ids_of r') \<inter> set (ids_of s) = {}"
  proof (rule ccontr)
    assume "set (ids_of r') \<inter> set (ids_of s) \<noteq> {}"
    then obtain i where i: "i \<in> set (ids_of r')" "i \<in> set (ids_of s)" by blast
    with q have "held doc i" using held_iff [OF assms(2)] holds_ids by blast
    with assms(4) [OF i(1)] obtain r where "map_of doc p = Some r" "i \<in> set (ids_of r)" by blast
    with assms(1) q i(2) show False unfolding owned_once_def by blast
  qed
qed

lemma owned_once_shrink:
  assumes "owned_once doc" "jmap_ok doc" "map_of doc p = Some r" "distinct (ids_of r) \<Longrightarrow> distinct (ids_of r')"
    "set (ids_of r') \<subseteq> set (ids_of r)"
  shows "owned_once (jput p r' doc)"
  using assms by (intro owned_once_edit) (auto simp: owned_once_def)

lemma rotate_ids [simp]: "ids_of (rotate at b reason r) = ids_of r @ [b]"
  by (simp add: rotate_def new_segment_def)

lemma base_ids [simp]: "ids_of (baseCaseRecord at i) = [i]"
  by (simp add: baseCaseRecord_def bare_record_def new_segment_def)

lemma flag_ids [simp]: "ids_of (update_segment i (setFlag fl on) r) = ids_of r"
  by (simp add: update_segment_ids)

lemma drop_ids [simp]: "ids_of (drop_entry b r) = ids_of r"
  by (simp add: drop_entry_def update_segment_ids)

lemma gains_owned: "gains doc doc' \<Longrightarrow> owned_once doc \<Longrightarrow> jmap_ok doc \<Longrightarrow> owned_once doc'"
proof (induction rule: gains.induct)
  case (rotate doc p r b at reason)
  then have "b \<notin> set (ids_of r)" using held_iff holds_ids by blast
  with rotate show ?case
    by (intro owned_once_edit) (auto simp: owned_once_def)
next
  case (facts doc p r r')
  then show ?case by (intro owned_once_shrink) (auto simp: same_identity_def)
next
  case (temp doc p r i on)
  then show ?case by (intro owned_once_shrink) auto
next
  case (archive doc p r i)
  then show ?case by (intro owned_once_shrink) auto
qed (auto intro!: owned_once_edit)

lemma revert_ids:
  assumes "liveSegments r \<noteq> []"
  shows "distinct (ids_of r) \<Longrightarrow> distinct (map sg_id (remove_newest_live r))"
    "sg_id ` set (remove_newest_live r) \<subseteq> sg_id ` set (sr_segments r)"
  by (rule remove_newest_live_split [OF assms]; auto)+

lemma loses_owned: "loses doc doc' \<Longrightarrow> owned_once doc \<Longrightarrow> jmap_ok doc \<Longrightarrow> owned_once doc'"
proof (induction rule: loses.induct)
  case (unarchive doc p r i)
  then show ?case by (intro owned_once_shrink) auto
next
  case (revert doc p r b)
  then have "liveSegments r \<noteq> []" by (simp add: newest_live_Some)
  from revert_ids [OF this] have "owned_once (jput p (r\<lparr>sr_segments := remove_newest_live r, sr_current := i\<rparr>) doc)" for i
    using revert by (intro owned_once_shrink) simp_all
  with revert show ?case
    by (simp add: SessionWrites.revert_def Let_def owned_once_jdrop split: option.split)
next
  case (tombstone doc p r b i)
  have "ids_of (if sr_current r = b then drop_entry b r\<lparr>sr_current := i\<rparr> else drop_entry b r) = ids_of r"
    by simp
  with tombstone show ?case by (intro owned_once_shrink) auto
qed (simp add: owned_once_jdrop)

text \<open>A document as the store keeps it.\<close>

definition doc_good :: "sessions_doc \<Rightarrow> bool" where
  "doc_good doc \<longleftrightarrow> doc_keyed doc \<and> doc_wf doc \<and> records (\<lambda>_. record_ok) doc \<and> owned_once doc"

lemma doc_good_Nil [simp]: "doc_good []"
  by (simp add: doc_good_def doc_keyed_def owned_once_def)

lemma grows_owned: "gains\<^sup>*\<^sup>* doc doc' \<Longrightarrow> owned_once doc \<Longrightarrow> doc_keyed doc \<Longrightarrow> owned_once doc'"
proof (induction rule: rtranclp_induct)
  case (step mid doc')
  then have "doc_keyed mid" by (auto intro: grows_keyed)
  with step show ?case by (auto intro: gains_owned keyed_ok)
qed simp

lemma mutates_good:
  assumes "mutates doc doc'" "doc_good doc"
  shows "doc_good doc'"
proof -
  obtain mid where mid: "gains\<^sup>*\<^sup>* doc mid" "mid = doc' \<or> loses mid doc'"
    using assms(1) by (auto simp: mutates_def)
  have "owned_once mid" "doc_keyed mid"
    using assms(2) mid(1) grows_owned grows_keyed by (auto simp: doc_good_def)
  then have "owned_once doc'" using mid(2) by (auto intro: loses_owned keyed_ok)
  with assms keys.mutations [OF assms(1)] live.mutations [OF assms(1)] wf.mutations [OF assms(1)]
  show ?thesis by (simp add: doc_good_def doc_keyed_def doc_wf_records)
qed

lemma op_keeps_good:
  assumes "doc_good doc" "op_ok doc op" "op_effect at op doc = (True, doc')"
  shows "doc_good doc'"
proof -
  have "doc_keyed doc" using assms(1) by (simp add: doc_good_def)
  with assms show ?thesis using op_mutates mutates_good by blast
qed

subsection \<open>What a mutation may lose\<close>

abbreviation archived_in :: "session_record \<Rightarrow> nat" where
  "archived_in r \<equiv> length (filter sg_archived (sr_segments r))"

lemma archivedCount_simps [simp]:
  "archivedCount [] = 0" "archivedCount ((p, r) # doc) = archived_in r + archivedCount doc"
  "archivedCount (a @ b) = archivedCount a + archivedCount b"
  by (simp_all add: archivedCount_def)

lemma count_jput:
  assumes "map_of doc p = Some r"
  shows "archivedCount (jput p r' doc) + archived_in r = archivedCount doc + archived_in r'"
    "length (jput p r' doc) = length doc"
  by (rule jput_split [OF assms], simp)+

lemma count_jdrop:
  assumes "map_of doc p = Some r" "jmap_ok doc"
  shows "archivedCount (jdrop p doc) + archived_in r = archivedCount doc" "length (jdrop p doc) + 1 = length doc"
proof -
  obtain pre post where x: "doc = pre @ (p, r) # post" "p \<notin> fst ` set pre"
    using jput_split [OF assms(1)] by metis
  with assms(2) have "jdrop p doc = pre @ post"
    by (auto simp: jmap_ok_def jdrop_middle)
  with x show "archivedCount (jdrop p doc) + archived_in r = archivedCount doc" "length (jdrop p doc) + 1 = length doc"
    by simp_all
qed

lemma flag_archived:
  assumes "segment_satisfies (\<lambda>s. \<not> sg_dropped s) i r"
  shows "archived_in (update_segment i (setFlag Temp on) r) = archived_in r"
    "archived_in r \<le> archived_in (update_segment i (setFlag Archived True) r)"
    "archived_in r \<le> archived_in (update_segment i (setFlag Archived False) r) + 1"
  by (rule update_split [OF assms], simp)+

lemma gains_counts:
  "gains doc doc' \<Longrightarrow> archivedCount doc \<le> archivedCount doc' \<and> length doc \<le> length doc'"
proof (induction rule: gains.induct)
  case (rotate doc p r b at reason)
  with count_jput [OF rotate(1), of "rotate at b reason r"] show ?case
    by (simp add: rotate_def new_segment_def)
next
  case (facts doc p r r')
  with count_jput [OF facts(1), of r'] show ?case by (simp add: same_identity_def)
next
  case (temp doc p r i on)
  with count_jput [OF temp(1), of "update_segment i (setFlag Temp on) r"] flag_archived(1) [OF temp(2)] show ?case by simp
next
  case (archive doc p r i)
  with count_jput [OF archive(1), of "update_segment i (setFlag Archived True) r"] flag_archived(2) [OF archive(2)]
  show ?case by simp
qed (simp_all add: jput_new baseCaseRecord_def bare_record_def new_segment_def)

lemma grows_counts:
  "gains\<^sup>*\<^sup>* doc doc' \<Longrightarrow> archivedCount doc \<le> archivedCount doc' \<and> length doc \<le> length doc'"
  by (induction rule: rtranclp_induct) (auto dest: gains_counts)

text \<open>With all other segments tombstones, a record has at most one archived mark.\<close>

lemma no_flags_archived:
  "list_all sg_dropped xs \<Longrightarrow> list_all (\<lambda>s. sg_dropped s \<longrightarrow> \<not> sg_temp s \<and> \<not> sg_archived s) xs
     \<Longrightarrow> filter sg_archived xs = []"
  by (induction xs) auto

lemma newest_live_None: "newest_live r = None \<longleftrightarrow> list_all sg_dropped (sr_segments r)"
  by (auto simp: newest_live_def liveSegments_def filter_empty_conv list_all_iff)

lemma drop_archived:
  assumes "record_ok r" "segment_satisfies (\<lambda>s. \<not> sg_dropped s) b r"
  shows "archived_in r \<le> archived_in (drop_entry b r) + 1"
    "newest_live (drop_entry b r) = None \<Longrightarrow> archived_in r \<le> 1"
proof -
  obtain pre s post where x: "sr_segments r = pre @ s # post" "\<not> sg_dropped s"
    "sr_segments (drop_entry b r) = pre @ s\<lparr>sg_dropped := True, sg_temp := False, sg_archived := False\<rparr> # post"
    using update_split [OF assms(2)] unfolding drop_entry_def by metis
  then show "archived_in r \<le> archived_in (drop_entry b r) + 1" by simp
  assume "newest_live (drop_entry b r) = None"
  with x assms(1) have "filter sg_archived pre = []" "filter sg_archived post = []"
    by (auto simp: newest_live_None record_ok_iff intro!: no_flags_archived)
  with x show "archived_in r \<le> 1" by simp
qed

lemma revert_archived:
  assumes "record_ok r"
  shows "archived_in r \<le> length (filter sg_archived (remove_newest_live r)) + 1"
    "newest_live (r\<lparr>sr_segments := remove_newest_live r\<rparr>) = None \<Longrightarrow> archived_in r \<le> 1"
proof -
  obtain xs s ys where x: "sr_segments r = xs @ s # ys" "remove_newest_live r = xs @ ys"
    using remove_newest_live_split [OF record_ok_live [OF assms]] by metis
  then show "archived_in r \<le> length (filter sg_archived (remove_newest_live r)) + 1" by simp
  assume "newest_live (r\<lparr>sr_segments := remove_newest_live r\<rparr>) = None"
  with x assms have "filter sg_archived xs = []" "filter sg_archived ys = []"
    by (auto simp: newest_live_None record_ok_iff intro!: no_flags_archived)
  with x show "archived_in r \<le> 1" by simp
qed

lemma loses_counts:
  assumes "loses doc doc'" "records (\<lambda>_. record_ok) doc"
  shows "archivedCount doc \<le> archivedCount doc' + 1 \<and> length doc \<le> length doc' + 1"
  using assms
proof (induction rule: loses.induct)
  case (unarchive doc p r i)
  with count_jput [OF unarchive(1), of "update_segment i (setFlag Archived False) r"] flag_archived(3) [OF unarchive(2)]
  show ?case by simp
next
  case (revert doc p r b)
  then have ok: "record_ok r" "jmap_ok doc" using records_lookup by (fastforce, simp add: records_def)
  show ?case
  proof (cases "newest_live (r\<lparr>sr_segments := remove_newest_live r\<rparr>)")
    case None
    with revert_archived(2) [OF ok(1)] count_jdrop [OF revert(1) ok(2)] show ?thesis
      by (simp add: SessionWrites.revert_def Let_def)
  next
    case (Some i)
    with revert_archived(1) [OF ok(1)]
      count_jput [OF revert(1), of "r\<lparr>sr_segments := remove_newest_live r, sr_current := i\<rparr>"] show ?thesis
      by (simp add: SessionWrites.revert_def Let_def)
  qed
next
  case (tombstone doc p r b i)
  then have "record_ok r" by (auto dest: records_lookup)
  with drop_archived(1) [OF _ tombstone(2)]
    count_jput [OF tombstone(1), of "if sr_current r = b then drop_entry b r\<lparr>sr_current := i\<rparr> else drop_entry b r"]
  show ?case by (simp split: if_splits)
next
  case (delete doc p r b)
  then have "record_ok r" "jmap_ok doc" using records_lookup by (fastforce, simp add: records_def)
  with drop_archived(2) [OF _ delete(2,3)] count_jdrop [OF delete(1)] show ?case by simp
qed

lemma mutates_counts:
  assumes "mutates doc doc'" "doc_good doc"
  shows "\<not> shrinks_too_much 0 0 doc doc'"
proof -
  obtain mid where mid: "gains\<^sup>*\<^sup>* doc mid" "mid = doc' \<or> loses mid doc'"
    using assms(1) by (auto simp: mutates_def)
  have "records (\<lambda>_. record_ok) mid"
    using mid(1) assms(2) live.grows by (auto simp: doc_good_def)
  with mid(2) loses_counts [of mid doc'] have "archivedCount mid \<le> archivedCount doc' + 1 \<and> length mid \<le> length doc' + 1"
    by auto
  with grows_counts [OF mid(1)] show ?thesis by (simp add: shrinks_too_much_def)
qed

end
