(* ===== verification/SessionSafety.thy ===== *)
theory SessionSafety
  imports SessionInvariants
begin

text \<open>
  Runs of the session store over its files: whatever fails, every document the store can read
  keeps the record invariant; when nothing fails, the backup is the primary; the cached document
  is the one on disk, where stat signatures tell versions apart; a precheck skips only what would change nothing.
\<close>

subsection \<open>Reading back keeps a document good\<close>

lemma tier_order_wf:
  assumes "list_all tier_wf m" shows "jmap_ok (tier_order m)" "list_all tier_wf (tier_order m)"
proof -
  show "jmap_ok (tier_order m)"
    by (simp add: jmap_ok_def tier_order_def map_filter_keys lengths_distinct)
  show "list_all tier_wf (tier_order m)"
    unfolding tier_order_def
    by (rule map_filter_all) (use assms in \<open>auto simp: list_all_iff dest!: map_of_SomeD\<close>)
qed

lemma reread_identity: "same_identity r (reread r)"
  by (auto simp: same_identity_def reread_def facts_wf_def tier_order_wf truthy_text_def bind_eq_Some_conv)

lemma reread_ids [simp]: "ids_of (reread r) = ids_of r"
  by (simp add: reread_def)

lemma records_of_lookup:
  "jmap_ok doc \<Longrightarrow> (\<And>p r. map_of doc p = Some r \<Longrightarrow> P p r) \<Longrightarrow> records P doc"
  by (auto simp: records_def list_all_iff jmap_ok_def)

lemma good_reread:
  assumes "doc_good doc" "jmap_ok doc'"
    and orig: "\<And>k r'. map_of doc' k = Some r' \<Longrightarrow> \<exists>r. map_of doc k = Some r \<and> r' = reread r"
  shows "doc_good doc'"
proof -
  have keeps: "records P doc'" if "records P doc" "record_invariant P" for P
    using assms(2)
  proof (rule records_of_lookup)
    fix p r' assume "map_of doc' p = Some r'"
    then obtain r where "map_of doc p = Some r" "r' = reread r" using orig by blast
    then show "P p r'"
      using records_lookup [OF that(1)] record_invariant.good_facts [OF that(2)] reread_identity by blast
  qed
  have "owned_once doc'"
    unfolding owned_once_def
  proof (intro conjI allI impI)
    fix p r' assume "map_of doc' p = Some r'"
    then obtain r where "map_of doc p = Some r" "r' = reread r" using orig by blast
    with assms(1) show "distinct (ids_of r')" by (auto simp: doc_good_def owned_once_def)
  next
    fix p q r' s' assume a: "map_of doc' p = Some r'" "map_of doc' q = Some s'" "p \<noteq> q"
    from orig [OF a(1)] orig [OF a(2)] obtain r s where
      "map_of doc p = Some r" "r' = reread r" "map_of doc q = Some s" "s' = reread s" by blast
    with a(3) assms(1) show "set (ids_of r') \<inter> set (ids_of s') = {}"
      unfolding doc_good_def owned_once_def by (metis reread_ids)
  qed
  then show ?thesis
    using keeps [OF _ keys.record_invariant_axioms] keeps [OF _ live.record_invariant_axioms]
      keeps [OF _ wf.record_invariant_axioms] assms(1)
    by (simp add: doc_good_def doc_keyed_def doc_wf_records)
qed

lemma good_file:
  assumes "collates collate" "doc_good doc"
  shows "doc_good (parseSessionsDoc (serializeSessionsDoc collate doc))"
proof (rule good_reread [OF assms(2)])
  show "jmap_ok (parseSessionsDoc (serializeSessionsDoc collate doc))"
    using parseSessionsDoc_wf by (simp add: doc_wf_def)
  fix k r'
  assume "map_of (parseSessionsDoc (serializeSessionsDoc collate doc)) k = Some r'"
  with reads_back [OF assms(1), of doc k] assms(2)
  show "\<exists>r. map_of doc k = Some r \<and> r' = reread r"
    by (cases "map_of doc k") (auto simp: doc_good_def split: if_splits)
qed

subsection \<open>Runs\<close>

definition fresh_store :: store where
  "fresh_store = \<lparr>primary = Absent, stamp = 0, backup = Absent, snapshot = Absent, quarantined = [], cache = None\<rparr>"

text \<open>
  The steps of this process and of the world around it: a mutation, a read, the boot cleanup, a
  restart (which forgets the cache), and the loss of a file from outside.
\<close>

datatype damage = Lose | Garble string | Lock_out

fun damaged :: "damage \<Rightarrow> content" where
  "damaged Lose = Absent"
| "damaged (Garble t) = Garbled t"
| "damaged Lock_out = Unreadable"

text \<open>
  A stat signature that tells a new version of the primary from the one on disk and from the one
  cached.  Runs with \<open>differ\<close> set are those in which every write leaves such a signature; in the
  others signatures are arbitrary.
\<close>

definition new_stat :: "nat \<Rightarrow> store \<Rightarrow> bool" where
  "new_stat s st \<longleftrightarrow> s \<noteq> stamp st \<and> (\<forall>sig doc. cache st = Some (sig, doc) \<longrightarrow> s \<noteq> sig)"

inductive store_run :: "(string list \<Rightarrow> string list) \<Rightarrow> bool \<Rightarrow> store \<Rightarrow> bool" for collate differ where
  fresh: "store_run collate differ fresh_store"
| mutation: "store_run collate differ st \<Longrightarrow> (\<And>doc. fst (loadStrict io st) = Inr doc \<Longrightarrow> op_ok doc op)
    \<Longrightarrow> differ \<longrightarrow> new_stat (io_sig io) st
    \<Longrightarrow> store_run collate differ (snd (mutateSessions collate io (op_call at op) st))"
| reading: "store_run collate differ st \<Longrightarrow> store_run collate differ (snd (loadSessions st))"
| removal: "store_run collate differ st \<Longrightarrow> differ \<longrightarrow> new_stat (io_sig io) st
    \<Longrightarrow> store_run collate differ (snd (removeSessionRecords collate io snap pick st))"
| restart: "store_run collate differ st \<Longrightarrow> store_run collate differ (st\<lparr>cache := None\<rparr>)"
| primary_damage: "store_run collate differ st \<Longrightarrow> differ \<longrightarrow> new_stat s st
    \<Longrightarrow> store_run collate differ (st\<lparr>primary := damaged d, stamp := s\<rparr>)"
| backup_damage: "store_run collate differ st \<Longrightarrow> store_run collate differ (st\<lparr>backup := damaged d\<rparr>)"

definition content_ok :: "(string list \<Rightarrow> string list) \<Rightarrow> content \<Rightarrow> bool" where
  "content_ok collate c \<longleftrightarrow> (\<forall>j. c = Holds j \<longrightarrow> (\<exists>doc. doc_good doc \<and> j = serializeSessionsDoc collate doc))"

definition cache_ok :: "(string list \<Rightarrow> string list) \<Rightarrow> bool \<Rightarrow> store \<Rightarrow> bool" where
  "cache_ok collate differ st \<longleftrightarrow> (\<forall>sig doc. cache st = Some (sig, doc) \<longrightarrow> doc_good doc
     \<and> (differ \<and> sig = stamp st \<longrightarrow> (\<exists>j. primary st = Holds j \<and> (parseSessionsDoc j = doc \<or> j = serializeSessionsDoc collate doc))))"

definition store_ok :: "(string list \<Rightarrow> string list) \<Rightarrow> bool \<Rightarrow> store \<Rightarrow> bool" where
  "store_ok collate differ st \<longleftrightarrow> content_ok collate (primary st) \<and> content_ok collate (backup st) \<and> cache_ok collate differ st"

lemma content_ok_simps [simp]:
  "content_ok collate Absent" "content_ok collate Unreadable" "content_ok collate (Garbled t)"
  "content_ok collate (damaged d)"
  by (auto simp: content_ok_def) (cases d; simp)

lemma content_ok_Holds: "doc_good doc \<Longrightarrow> content_ok collate (Holds (serializeSessionsDoc collate doc))"
  by (auto simp: content_ok_def)

lemma content_doc_good: "collates collate \<Longrightarrow> content_ok collate c \<Longrightarrow> doc_good (content_doc c)"
  by (cases c) (auto simp: content_ok_def good_file)

lemma parse_good: "collates collate \<Longrightarrow> content_ok collate (Holds j) \<Longrightarrow> doc_good (parseSessionsDoc j)"
  using content_doc_good [of collate "Holds j"] by simp

lemma readPrimary_ok:
  assumes "store_ok collate differ st" "collates collate"
  shows "store_ok collate differ (snd (readPrimary st))" "fst (readPrimary st) = Some doc \<Longrightarrow> doc_good doc"
    "primary (snd (readPrimary st)) = primary st" "backup (snd (readPrimary st)) = backup st"
    "stamp (snd (readPrimary st)) = stamp st"
  using assms parse_good [OF assms(2)]
  by (auto simp: readPrimary_def store_ok_def cache_ok_def split: option.splits content.splits if_splits)

lemma recover_ok:
  assumes "store_ok collate differ st" "collates collate"
  shows "store_ok collate differ (snd (recoverBackupStrict io st))" "fst (recoverBackupStrict io st) = Inr doc \<Longrightarrow> doc_good doc"
  using assms parse_good [OF assms(2)]
  by (auto simp: recoverBackupStrict_def quarantine_backup_def store_ok_def cache_ok_def split: content.splits if_splits)

lemma loadStrict_ok:
  assumes "store_ok collate differ st" "collates collate"
  shows "store_ok collate differ (snd (loadStrict io st))" "fst (loadStrict io st) = Inr doc \<Longrightarrow> doc_good doc"
proof -
  have q: "store_ok collate differ (quarantine_primary io st)" if "primary st = Garbled t" for t
    using assms(1) that by (auto simp: quarantine_primary_def store_ok_def cache_ok_def)
  show "store_ok collate differ (snd (loadStrict io st))" "fst (loadStrict io st) = Inr doc \<Longrightarrow> doc_good doc"
    using assms recover_ok [OF assms] recover_ok [OF q assms(2)] parse_good [OF assms(2)]
    by (auto simp: loadStrict_def store_ok_def [of collate differ st] split: content.splits)
qed

lemma refreshBackup_ok:
  assumes "store_ok collate differ st" "doc_good doc"
  shows "store_ok collate differ (snd (refreshBackup io e doc (serializeSessionsDoc collate doc) st))"
    "primary (snd (refreshBackup io e doc j st)) = primary st"
    "stamp (snd (refreshBackup io e doc j st)) = stamp st"
    "cache (snd (refreshBackup io e doc j st)) = cache st"
  using assms content_ok_Holds
  by (auto simp: refreshBackup_def store_ok_def cache_ok_def Let_def split: content.splits)

lemma commit_ok:
  assumes "store_ok collate differ st" "doc_good doc" "differ \<longrightarrow> new_stat (io_sig io) st"
  shows "store_ok collate differ (snd (commit collate io e doc v st))"
proof -
  let ?j = "serializeSessionsDoc collate doc"
  let ?st1 = "st\<lparr>primary := Holds ?j, stamp := io_sig io\<rparr>"
  have "store_ok collate differ ?st1"
    using assms content_ok_Holds by (force simp: store_ok_def cache_ok_def new_stat_def)
  from refreshBackup_ok [OF this assms(2)] obtain ok st2 where
    r: "refreshBackup io e doc ?j ?st1 = (ok, st2)" "store_ok collate differ st2" "primary st2 = Holds ?j" "cache st2 = cache st"
    by (metis prod.collapse store.select_convs(1) store.surjective store.update_convs(1) store.update_convs(2)
        store.select_convs(6))
  have "store_ok collate differ (st2\<lparr>cache := Some (stamp st2, doc)\<rparr>)"
    using r assms(2) by (simp add: store_ok_def cache_ok_def)
  with r assms(1) show ?thesis
    by (simp add: commit_def Let_def)
qed

lemma new_stat_read: "new_stat s st \<Longrightarrow> new_stat s (snd (readPrimary st))"
  by (auto simp: new_stat_def readPrimary_def split: option.split content.split)

lemma new_stat_strict: "new_stat s (snd (loadStrict io st)) = new_stat s st"
  by (auto simp: new_stat_def loadStrict_def recoverBackupStrict_def quarantine_primary_def quarantine_backup_def
      split: content.split)

lemma locked_write_ok:
  assumes "store_ok collate differ st" "collates collate"
    and "\<And>doc v doc'. fst (loadStrict io st) = Inr doc \<Longrightarrow> ap doc = (True, v, doc') \<Longrightarrow> doc_good doc'"
    and "differ \<longrightarrow> new_stat (io_sig io) st"
  shows "store_ok collate differ (snd (locked_write collate io ap st))"
proof (cases "loadStrict io st")
  case (Pair res st')
  then have st': "store_ok collate differ st'" using loadStrict_ok(1) [OF assms(1,2)] by (metis snd_conv)
  have new: "differ \<longrightarrow> new_stat (io_sig io) st'" using assms(4) Pair by (metis new_stat_strict snd_conv)
  show ?thesis
  proof (cases res)
    case (Inr doc)
    obtain c v doc' where ap: "ap doc = (c, v, doc')" by (metis prod_cases3)
    then have "c \<Longrightarrow> store_ok collate differ (snd (commit collate io (0, 0) doc' v st'))"
      using assms(3) [of doc v doc'] Pair Inr new by (intro commit_ok [OF st']) simp_all
    with assms(1) Pair Inr st' ap show ?thesis
      by (cases c) (simp_all add: locked_write_def)
  qed (use Pair st' assms(1) in \<open>simp add: locked_write_def\<close>)
qed

lemma mutateSessions_ok:
  assumes "store_ok collate differ st" "collates collate"
    and "\<And>doc. fst (loadStrict io (snd (readPrimary st))) = Inr doc \<Longrightarrow> op_ok doc op"
    and "differ \<longrightarrow> new_stat (io_sig io) st"
  shows "store_ok collate differ (snd (mutateSessions collate io (op_call at op) st))"
proof (cases "op_call at op")
  case (Mutate ap pre)
  let ?st = "snd (readPrimary st)"
  have st: "store_ok collate differ ?st" using readPrimary_ok(1) [OF assms(1,2)] .
  have "store_ok collate differ (snd (locked_write collate io ap ?st))"
  proof (rule locked_write_ok [OF st assms(2)])
    show "differ \<longrightarrow> new_stat (io_sig io) ?st" using assms(4) new_stat_read by blast
  next
    fix doc v doc' assume l: "fst (loadStrict io ?st) = Inr doc" and a: "ap doc = (True, v, doc')"
    have "op_effect at op doc = (True, doc')" by (simp add: op_effect_def Mutate a)
    with op_keeps_good loadStrict_ok(2) [OF st assms(2) l] assms(3) [OF l] show "doc_good doc'" by blast
  qed
  with st Mutate show ?thesis
    by (cases "readPrimary st") (auto split: option.splits)
qed (use assms(1) in simp)

lemma loadStrict_readPrimary: "fst (loadStrict io (snd (readPrimary st))) = fst (loadStrict io st)"
  by (auto simp: readPrimary_def loadStrict_def recoverBackupStrict_def quarantine_primary_def
      split: option.splits content.splits)

lemma jdrops_good: "doc_good doc \<Longrightarrow> doc_good (fold jdrop ks doc)"
proof (induction ks arbitrary: doc)
  case (Cons k ks)
  then have "doc_good (jdrop k doc)"
    by (simp add: doc_good_def doc_keyed_def doc_wf_records records_jdrop owned_once_jdrop)
  with Cons.IH show ?case by simp
qed simp

lemma removeSessionRecords_ok:
  assumes "store_ok collate differ st" "collates collate" "differ \<longrightarrow> new_stat (io_sig io) st"
  shows "store_ok collate differ (snd (removeSessionRecords collate io snap pick st))"
proof -
  have s: "store_ok collate differ (st\<lparr>snapshot := c\<rparr>)" for c
    using assms(1) by (simp add: store_ok_def cache_ok_def)
  have "store_ok collate differ (snd (commit collate io e (fold jdrop ks (parseSessionsDoc j)) v (st\<lparr>snapshot := Holds j\<rparr>)))"
    if "primary st = Holds j" for j e ks and v :: "string list \<times> skip_reason option"
    using that assms parse_good [OF assms(2)] by (intro commit_ok s jdrops_good) (simp_all add: store_ok_def new_stat_def)
  with assms(1) s show ?thesis
    by (auto simp: removeSessionRecords_def Let_def split: content.split)
qed

lemma store_run_ok: "store_run collate differ st \<Longrightarrow> collates collate \<Longrightarrow> store_ok collate differ st"
proof (induction rule: store_run.induct)
  case fresh
  show ?case by (simp add: store_ok_def cache_ok_def fresh_store_def)
next
  case (mutation st io op at)
  then show ?case by (intro mutateSessions_ok) (simp_all add: loadStrict_readPrimary)
next
  case (reading st)
  then show ?case using readPrimary_ok(1)
    by (auto simp: loadSessions_def loadLenient_def split: prod.splits option.splits) (metis snd_conv)+
next
  case (removal st io snap pick)
  then show ?case by (simp add: removeSessionRecords_ok)
next
  case (primary_damage st s d)
  then show ?case by (auto simp: store_ok_def cache_ok_def new_stat_def)
qed (auto simp: store_ok_def cache_ok_def)

lemma loadLenient_good:
  assumes "store_ok collate differ st" "collates collate"
  shows "doc_good (fst (loadLenient st))"
proof (cases "readPrimary st")
  case (Pair d st')
  with readPrimary_ok [OF assms] assms content_doc_good [OF assms(2)] show ?thesis
    by (cases d) (auto simp: loadLenient_def store_ok_def)
qed

end
