(* ===== verification/SessionProperties.thy ===== *)
theory SessionProperties
  imports SessionSafety
begin

text \<open>
  The properties of the session store: what every reader may rely on, recovery, the permanence of
  a public id under rotation, and the cases where the stored document does not read back.
\<close>

subsection \<open>The index\<close>

lemma backing_inner:
  "map_of (fold (\<lambda>s. jput (sg_id s) p) ss m) i = (if i \<in> sg_id ` set ss then Some p else map_of m i)"
  by (induction ss arbitrary: m) (auto simp: map_of_jput)

lemma backing_outer:
  "map_of (fold (\<lambda>(p, r) m. fold (\<lambda>s. jput (sg_id s) p) (liveSegments r) m) doc m) i = Some q
     \<Longrightarrow> (\<exists>r. (q, r) \<in> set doc \<and> i \<in> sg_id ` set (liveSegments r)) \<or> map_of m i = Some q"
  by (induction doc arbitrary: m) (force simp: backing_inner split: if_splits)+

lemma backing_defined:
  "(p, r) \<in> set doc \<Longrightarrow> i \<in> sg_id ` set (liveSegments r)
     \<Longrightarrow> map_of (fold (\<lambda>(p, r) m. fold (\<lambda>s. jput (sg_id s) p) (liveSegments r) m) doc m) i \<noteq> None"
proof (induction doc arbitrary: m)
  case (Cons x doc)
  have keep: "map_of m i \<noteq> None
      \<Longrightarrow> map_of (fold (\<lambda>(p, r) m. fold (\<lambda>s. jput (sg_id s) p) (liveSegments r) m) d m) i \<noteq> None" for d m
    by (induction d arbitrary: m) (auto simp: backing_inner)
  show ?case
  proof (cases "x = (p, r)")
    case True
    with Cons.prems keep [of "fold (\<lambda>s. jput (sg_id s) p) (liveSegments r) m" doc] show ?thesis
      by (simp add: backing_inner)
  next
    case False
    with Cons.prems have "(p, r) \<in> set doc" by auto
    with Cons.IH Cons.prems(2) show ?thesis by (cases x) simp
  qed
qed simp

lemma live_ids: "set (map sg_id (liveSegments r)) \<subseteq> set (ids_of r)"
  by (auto simp: liveSegments_def)

lemma byBacking_iff:
  assumes "doc_good doc"
  shows "map_of (byBacking (indexSessions doc)) i = Some p
     \<longleftrightarrow> (\<exists>r. map_of doc p = Some r \<and> i \<in> set (map sg_id (liveSegments r)))"
proof -
  have ok: "jmap_ok doc" using assms by (auto simp: doc_good_def keyed_ok)
  then have mem: "(q, r) \<in> set doc \<longleftrightarrow> map_of doc q = Some r" for q r by (simp add: jmap_ok_def)
  have sound: "map_of (byBacking (indexSessions doc)) i = Some q
      \<Longrightarrow> \<exists>r. map_of doc q = Some r \<and> i \<in> set (map sg_id (liveSegments r))" for q
    using backing_outer [of doc "[]" i q] by (auto simp: indexSessions_def mem)
  show ?thesis
  proof
    assume "\<exists>r. map_of doc p = Some r \<and> i \<in> set (map sg_id (liveSegments r))"
    then obtain r where r: "map_of doc p = Some r" "i \<in> set (map sg_id (liveSegments r))" by blast
    then obtain q where q: "map_of (byBacking (indexSessions doc)) i = Some q"
      using backing_defined [of p r doc i "[]"] by (auto simp: indexSessions_def mem)
    then obtain s where s: "map_of doc q = Some s" "i \<in> set (map sg_id (liveSegments s))" using sound by blast
    have "q = p"
    proof (rule ccontr)
      assume "q \<noteq> p"
      with assms r(1) s(1) have "set (ids_of r) \<inter> set (ids_of s) = {}"
        by (auto simp: doc_good_def owned_once_def)
      with r(2) s(2) live_ids show False by blast
    qed
    with q show "map_of (byBacking (indexSessions doc)) i = Some p" by simp
  qed (rule sound)
qed

lemma byPublic_index [simp]: "byPublic (indexSessions doc) = doc"
  by (simp add: indexSessions_def)

subsection \<open>What every reader may rely on\<close>

text \<open>
  C6. Whatever reads, mutations, removals, restarts and losses of either file came before, and
  whichever of their system calls failed, every document a reader is served keeps the record
  invariant: each record's \<open>current\<close> is one of its live segments, no tombstone carries a flag, and no
  segment id occurs twice in the store.  The ids handed to the store are the callers' part: a mint
  is given a UUID no record holds, and a rotation either an id no record holds or, repeated after
  it was recorded, the id its session is already at.  A session that has no record is rotated under
  its own full id, one that no other record holds.
\<close>

theorem every_read_keeps_the_record_invariant:
  assumes "store_run collate differ st" "collates collate" "loadSessions st = (ix, st')"
    and "map_of (byPublic ix) p = Some r"
  shows "(\<exists>s \<in> set (sr_segments r). sg_id s = sr_current r \<and> \<not> sg_dropped s)
    \<and> list_all (\<lambda>s. sg_dropped s \<longrightarrow> \<not> sg_temp s \<and> \<not> sg_archived s) (sr_segments r)
    \<and> distinct (map sg_id (sr_segments r))
    \<and> (\<forall>q r'. q \<noteq> p \<longrightarrow> map_of (byPublic ix) q = Some r' \<longrightarrow> sg_id ` set (sr_segments r) \<inter> sg_id ` set (sr_segments r') = {})"
proof -
  have good: "doc_good (byPublic ix)"
    using loadLenient_good [OF store_run_ok [OF assms(1,2)] assms(2)] assms(3)
    by (auto simp: loadSessions_def split: prod.splits)
  with assms(4) have "record_ok r" by (auto simp: doc_good_def dest: records_lookup)
  moreover have "owned_once (byPublic ix)" using good by (simp add: doc_good_def)
  ultimately show ?thesis
    using assms(4) unfolding record_ok_iff owned_once_def liveSegments_def by fastforce
qed

subsection \<open>The backup\<close>

text \<open>A run in which no system call fails and nothing outside touches the files.\<close>

definition io_fine :: "nat \<Rightarrow> io" where
  "io_fine sig = \<lparr>io_lock = True, io_write = True, io_backup = True, io_stat = True, io_rename = True,
     io_sig = sig\<rparr>"

inductive clean_run :: "(string list \<Rightarrow> string list) \<Rightarrow> store \<Rightarrow> bool" for collate where
  clean_fresh: "clean_run collate fresh_store"
| clean_mutation: "clean_run collate st \<Longrightarrow> (\<And>doc. fst (loadStrict (io_fine sig) st) = Inr doc \<Longrightarrow> op_ok doc op)
    \<Longrightarrow> clean_run collate (snd (mutateSessions collate (io_fine sig) (op_call at op) st))"
| clean_reading: "clean_run collate st \<Longrightarrow> clean_run collate (snd (loadSessions st))"
| clean_removal: "clean_run collate st \<Longrightarrow> clean_run collate (snd (removeSessionRecords collate (io_fine sig) True pick st))"
| clean_restart: "clean_run collate st \<Longrightarrow> clean_run collate (st\<lparr>cache := None\<rparr>)"

lemma clean_is_run: "clean_run collate st \<Longrightarrow> store_run collate False st"
  by (induction rule: clean_run.induct) (auto intro: store_run.intros)

definition in_step :: "store \<Rightarrow> bool" where
  "in_step st \<longleftrightarrow> backup st = primary st \<and> (primary st = Absent \<or> (\<exists>j. primary st = Holds j))"

lemma in_step_cache [simp]: "in_step (st\<lparr>cache := c\<rparr>) = in_step st"
  by (simp add: in_step_def)

lemma readPrimary_in_step: "in_step st \<Longrightarrow> in_step (snd (readPrimary st))"
  by (auto simp: readPrimary_def split: option.splits content.splits)

lemma strict_in_step: "in_step st \<Longrightarrow> loadStrict io st = (Inr (content_doc (primary st)), st)"
  by (auto simp: in_step_def loadStrict_def recoverBackupStrict_def)

lemma commit_in_step:
  assumes "in_step st" "\<not> shrinks_too_much (fst e) (snd e) (content_doc (primary st)) doc"
  shows "in_step (snd (commit collate (io_fine sig) e doc v st))"
  using assms by (auto simp: commit_def io_fine_def refreshBackup_def in_step_def Let_def split: content.splits)

lemma op_in_step:
  assumes "store_ok collate differ st" "collates collate" "in_step st"
    and "\<And>doc. fst (loadStrict (io_fine sig) st) = Inr doc \<Longrightarrow> op_ok doc op"
  shows "in_step (snd (mutateSessions collate (io_fine sig) (op_call at op) st))"
proof (cases "op_call at op")
  case (Mutate ap pre)
  let ?st = "snd (readPrimary st)"
  have st: "in_step ?st" using assms(3) by (rule readPrimary_in_step)
  have prim: "primary ?st = primary st" using readPrimary_ok(3) [OF assms(1,2)] .
  let ?doc = "content_doc (primary st)"
  have good: "doc_good ?doc" using assms(1,2) by (simp add: store_ok_def content_doc_good)
  obtain c v doc' where ap: "ap ?doc = (c, v, doc')" by (metis prod_cases3)
  have "in_step (snd (commit collate (io_fine sig) (0, 0) doc' v ?st))" if c
  proof -
    have "op_effect at op ?doc = (True, doc')" using that by (simp add: op_effect_def Mutate ap)
    moreover have "op_ok ?doc op" using assms(4) strict_in_step [OF assms(3)] by simp
    ultimately have "mutates ?doc doc'" using good op_mutates by (auto simp: doc_good_def)
    with mutates_counts good prim show ?thesis by (intro commit_in_step st) simp
  qed
  then have "in_step (snd (locked_write collate (io_fine sig) ap ?st))"
    using st ap by (cases c) (simp_all add: locked_write_def strict_in_step prim io_fine_def)
  with st Mutate show ?thesis
    by (cases "readPrimary st") (auto split: option.splits)
qed (use assms(3) in simp)

lemma removed_counts:
  "jmap_ok doc \<Longrightarrow> distinct ks \<Longrightarrow> list_all (jhas doc) ks
     \<Longrightarrow> length (fold jdrop ks doc) + length ks = length doc
       \<and> archivedCount (fold jdrop ks doc) + sum_list (map (archived_of doc) ks) = archivedCount doc"
proof (induction ks arbitrary: doc)
  case (Cons k ks)
  obtain r where r: "map_of doc k = Some r" using Cons.prems by (auto simp: jhas_obtain)
  have "archived_of (jdrop k doc) i = archived_of doc i" if "i \<in> set ks" for i
    using that Cons.prems by (auto simp: archived_of_def map_of_jdrop)
  then have same: "map (archived_of (jdrop k doc)) ks = map (archived_of doc) ks" by simp
  have "list_all (jhas (jdrop k doc)) ks" using Cons.prems by (auto simp: list_all_iff)
  from Cons.IH [OF jmap_ok_jdrop [OF Cons.prems(1)] _ this] Cons.prems(2)
  have "length (fold jdrop ks (jdrop k doc)) + length ks = length (jdrop k doc)"
    "archivedCount (fold jdrop ks (jdrop k doc)) + sum_list (map (archived_of doc) ks) = archivedCount (jdrop k doc)"
    unfolding same by simp_all
  moreover have "archived_of doc k = archived_in r" by (simp add: archived_of_def r)
  ultimately show ?case using count_jdrop [OF r Cons.prems(1)] by simp
qed simp

lemma removal_in_step:
  assumes "store_ok collate differ st" "collates collate" "in_step st"
  shows "in_step (snd (removeSessionRecords collate (io_fine sig) True pick st))"
proof (cases "primary st")
  case (Holds j)
  let ?doc = "parseSessionsDoc j" and ?ks = "removed_records (pick (parseSessionsDoc j)) (parseSessionsDoc j)"
  have "jmap_ok ?doc" using parseSessionsDoc_wf by (simp add: doc_wf_def)
  from removed_counts [OF this, of ?ks]
  have "\<not> shrinks_too_much (length ?ks) (sum_list (map (archived_of ?doc) ?ks)) ?doc (fold jdrop ?ks ?doc)"
    by (auto simp: shrinks_too_much_def removed_records_def list_all_iff)
  then have "in_step (snd (commit collate (io_fine sig) (length ?ks, sum_list (map (archived_of ?doc) ?ks))
      (fold jdrop ?ks ?doc) (?ks, None :: skip_reason option) (st\<lparr>snapshot := Holds j\<rparr>)))"
    using assms(3) Holds by (intro commit_in_step) (simp_all add: in_step_def)
  with assms(3) Holds show ?thesis
    by (simp add: removeSessionRecords_def Let_def io_fine_def [THEN arg_cong [of _ _ io_lock]]) (simp add: in_step_def)
qed (use assms(3) in \<open>auto simp: removeSessionRecords_def io_fine_def in_step_def\<close>)

lemma clean_run_in_step: "clean_run collate st \<Longrightarrow> collates collate \<Longrightarrow> in_step st"
proof (induction rule: clean_run.induct)
  case (clean_mutation st sig op at)
  then show ?case using store_run_ok [OF clean_is_run] by (intro op_in_step) auto
next
  case (clean_reading st)
  then show ?case using readPrimary_in_step [of st]
    by (auto simp: loadSessions_def loadLenient_def split: prod.splits option.splits)
next
  case (clean_removal st sig pick)
  then show ?case using store_run_ok [OF clean_is_run] by (intro removal_in_step) auto
qed (simp_all add: in_step_def fresh_store_def)

text \<open>
  C26. While no system call fails, the guard of \<open>refreshBackup\<close> never holds a refresh back: after
  every mutation and every bulk removal the backup is the primary, so that losing the primary (or
  its text going bad, which shows in its stat signature) changes nothing a reader, a strict read or
  the restart path sees.
\<close>

theorem losing_the_primary_loses_nothing:
  assumes "clean_run collate st" "collates collate" "d = Lose \<or> d = Garble t \<and> new_stat s st"
  shows "backup st = primary st
    \<and> fst (loadLenient (st\<lparr>primary := damaged d, stamp := s\<rparr>)) = content_doc (primary st)
    \<and> fst (loadStrict io (st\<lparr>primary := damaged d, stamp := s\<rparr>)) = Inr (content_doc (primary st))
    \<and> loadSessionsSync (st\<lparr>primary := damaged d, stamp := s\<rparr>) = indexSessions (content_doc (primary st))"
proof -
  have step: "in_step st" using clean_run_in_step [OF assms(1,2)] .
  have "d = Garble t \<Longrightarrow> cache st = Some (sig, doc) \<Longrightarrow> sig \<noteq> s" for sig doc
    using assms(3) by (auto simp: new_stat_def)
  with step assms(3) show ?thesis
    by (auto simp: in_step_def loadLenient_def readPrimary_def loadStrict_def recoverBackupStrict_def
        quarantine_primary_def loadSessionsSync_def split: option.splits)
qed

subsection \<open>The cache and the precheck\<close>

text \<open>
  C34. The cache compares stat signatures (inode, size, times).  As long as every write of the file
  leaves a signature that differs from the one before it and from the cached one, what a served
  document says of a session, any but one keyed \<open>__proto__\<close>, is what the file on disk says, up to
  the white space a capped title may end in and the order of the summary tiers: a cached document
  is never one another version of the file held.
\<close>

theorem served_document_is_the_file:
  assumes "store_run collate True st" "collates collate" "primary st = Holds j"
    and "k \<noteq> ''__proto__''"
  shows "map_of (parseSessionsDoc j) k = map_of (fst (loadLenient st)) k
    \<or> map_of (parseSessionsDoc j) k = map_option reread (map_of (fst (loadLenient st)) k)"
proof -
  have ok: "cache_ok collate True st" using store_run_ok [OF assms(1,2)] by (simp add: store_ok_def)
  show ?thesis
  proof (cases "cache st")
    case (Some c)
    obtain sig doc where c: "c = (sig, doc)" by fastforce
    show ?thesis
    proof (cases "sig = stamp st")
      case True
      with ok Some c assms(3) have "doc_good doc" "parseSessionsDoc j = doc \<or> j = serializeSessionsDoc collate doc"
        by (auto simp: cache_ok_def)
      with reads_back [OF assms(2), of doc k] assms(3,4) Some c True show ?thesis
        by (auto simp: loadLenient_def readPrimary_def doc_good_def)
    qed (use assms(3) Some c in \<open>simp add: loadLenient_def readPrimary_def\<close>)
  qed (use assms(3) in \<open>simp add: loadLenient_def readPrimary_def\<close>)
qed

definition precheck_sound :: "'r call \<Rightarrow> bool" where
  "precheck_sound c \<longleftrightarrow> (\<forall>ap pre doc v. c = Mutate ap pre \<longrightarrow> pre doc = Some v
     \<longrightarrow> fst (ap doc) = False \<and> fst (snd (ap doc)) = v)"

lemma ensureRecord_lookup:
  "ensureRecord False at doc i = (Target p r, doc') \<Longrightarrow> ensureRecord True at' doc i = (Target p r, doc)"
  by (auto simp: ensureRecord_def split: option.splits if_splits)

lemma ensureSegment_lookup:
  "ensureSegment False at doc i owner = (Target p r, doc') \<Longrightarrow> ensureSegment True at' doc i owner = (Target p r, doc)"
  by (auto simp: ensureSegment_def new_segment_target_def split: option.splits if_splits)

lemma sessionWrite_precheck: "precheck_sound (sessionWrite at i v same f cur)"
  by (auto simp: precheck_sound_def sessionWrite_def split: prod.splits target.splits if_splits
      dest!: ensureRecord_lookup [where at' = at])

lemma segmentWrite_precheck: "precheck_sound (segmentWrite at i fl on owner)"
  by (auto simp: precheck_sound_def segmentWrite_def split: prod.splits target.splits if_splits
      dest!: ensureSegment_lookup [where at' = at])

lemma precheck_Answer: "precheck_sound (Answer v)"
  by (simp add: precheck_sound_def)

lemma retire_all_retired:
  "all_retired owner ids doc \<Longrightarrow> fold (retire_one at owner) ids (False, doc) = (False, doc)"
proof (induction ids)
  case (Cons i ids)
  then obtain p r doc' where "ensureSegment False [] doc i owner = (Target p r, doc')" "segment_satisfies retired i r"
    by (auto simp: all_retired_def split: prod.splits target.splits)
  with Cons ensureSegment_lookup [of "[]" doc i owner p r doc' at] show ?case
    by (simp add: retire_one_def all_retired_def)
qed simp

text \<open>
  Whenever a precheck answers without locking, the locked half would have changed nothing and
  answered the same, for every operation that has one.
\<close>

theorem precheck_skips_only_no_ops:
  "precheck_sound (recordRotation at p b reason) \<and> precheck_sound (retireSegments at ids owner)
   \<and> precheck_sound (setTitle at i title) \<and> precheck_sound (setSessionMode at i mode)
   \<and> precheck_sound (setSessionBackend at i backend model window) \<and> precheck_sound (markConducted at i spawner)
   \<and> precheck_sound (setSessionPlace at i project worktree)
   \<and> precheck_sound (reanchorModelSwitches i seg surviving anchor)
   \<and> precheck_sound (markViewed at i n) \<and> precheck_sound (setSegmentTemp at b on owner)
   \<and> precheck_sound (setSegmentArchived at b on owner)"
proof -
  have "precheck_sound (recordRotation at p b reason)"
    by (auto simp: precheck_sound_def recordRotation_def split: option.splits if_splits)
  moreover have "precheck_sound (retireSegments at ids owner)"
    by (auto simp: precheck_sound_def retireSegments_def Let_def retire_all_retired split: if_splits)
  moreover have "precheck_sound (reanchorModelSwitches i seg surviving anchor)"
    by (auto simp: precheck_sound_def reanchorModelSwitches_def Let_def filter_empty_conv list_ex_iff
        split: prod.splits target.splits if_splits)
  ultimately show ?thesis
    by (simp add: setTitle_def setSessionMode_def setSessionBackend_def markConducted_def setSessionPlace_def
      markViewed_def setSegmentTemp_def setSegmentArchived_def Let_def sessionWrite_precheck segmentWrite_precheck
      precheck_Answer)
qed

subsection \<open>A public id is permanent\<close>

definition outcome :: "'r call \<Rightarrow> sessions_doc \<Rightarrow> sessions_doc" where
  "outcome c doc = (case c of Answer _ \<Rightarrow> doc | Mutate ap pre \<Rightarrow> (case ap doc of (True, _, doc') \<Rightarrow> doc' | _ \<Rightarrow> doc))"

lemma outcome_op: "outcome (op_call at op) doc = (if fst (op_effect at op doc) then snd (op_effect at op doc) else doc)"
  by (cases "op_call at op") (auto simp: outcome_def op_effect_def split: prod.splits bool.splits)

lemma outcome_erase: "outcome (erase c) doc = outcome c doc"
  by (cases c) (auto simp: outcome_def split: prod.splits bool.splits)

lemma outcome_good:
  assumes "doc_good doc" "op_ok doc op" shows "doc_good (outcome (op_call at op) doc)"
  using op_keeps_good [OF assms, of at] assms(1) by (cases "op_effect at op doc") (auto simp: outcome_op)

lemma publicId_live:
  assumes "doc_good doc" "map_of doc p = Some r" "i \<in> set (map sg_id (liveSegments r))" "\<not> jhas doc i \<or> i = p"
  shows "publicIdFor (indexSessions doc) i = p"
proof -
  have "map_of (byBacking (indexSessions doc)) i = Some p" using byBacking_iff [OF assms(1)] assms(2,3) by blast
  moreover have "i \<noteq> []"
    using assms(1,2,3) doc_wf_record [of doc p r] by (auto simp: doc_good_def record_wf_def liveSegments_def list_all_iff)
  ultimately show ?thesis using assms(4) by (auto simp: publicIdFor_def)
qed

text \<open>
  A rotation moves \<open>current\<close> and nothing else: the public id now resolves to the new transcript,
  which resolves back to it; the earlier transcripts still belong to it; every recorded fact of the
  session stays, as does every other session; and the new transcript is temporary exactly when the
  one it replaces is.
\<close>

theorem rotation_keeps_the_public_id:
  assumes "doc_good doc" "map_of doc p = Some r" "b \<noteq> []" "\<not> held doc b" "\<not> jhas doc b"
    and doc'_def: "doc' = outcome (recordRotation at p b reason) doc"
  shows "resolveBacking (indexSessions doc') p = b
    \<and> publicIdFor (indexSessions doc') b = p
    \<and> (\<forall>i \<in> sg_id ` set (liveSegments r). \<not> jhas doc i \<longrightarrow> publicIdFor (indexSessions doc') i = p)
    \<and> (\<exists>r'. map_of doc' p = Some r' \<and> same_facts r r'
         \<and> sr_segments r' = sr_segments r @ [new_segment b reason at (segmentFlag (indexSessions doc) (sr_current r) Temp)])
    \<and> (\<forall>q. q \<noteq> p \<longrightarrow> map_of doc' q = map_of doc q)"
proof -
  have p: "p \<noteq> []" and ok: "record_ok r" and key: "doc_keyed doc"
    using assms(1,2) doc_wf_record by (auto simp: doc_good_def dest: records_lookup)
  have "newest_live r \<noteq> Some b"
    using assms(2,4) held_iff [OF keyed_ok [OF key]] newest_live_Some [of r b] last_in_set [of "liveSegments r"]
    by (auto simp: holds_segment_def list_ex_iff liveSegments_def)
  then have doc': "doc' = jput p (rotate at b reason r) doc"
    using p assms(2,3) by (simp add: doc'_def outcome_def recordRotation_def rotation_done_def)
  have "doc_good doc'"
    using outcome_good [OF assms(1), of "Op_rotate p b reason" at] assms(2,4)
    by (simp add: outcome_erase doc'_def [symmetric] jhas_def)
  note id = publicId_live [OF this, of p "rotate at b reason r"]
  have live: "liveSegments (rotate at b reason r) = liveSegments r
      @ [new_segment b reason at (case current_segment r of Some s \<Rightarrow> sg_temp s | None \<Rightarrow> False)]"
    by (simp add: liveSegments_def rotate_def new_segment_def)
  obtain s where s: "current_segment r = Some s" using ok by (auto simp: record_ok_def)
  then have s': "s \<in> set (liveSegments r)" "sg_id s = sr_current r"
    using find_SomeD [of _ "sr_segments r" s] by (auto simp: current_segment_def liveSegments_def)
  have "map_of (byBacking (indexSessions doc)) (sr_current r) = Some p"
    using byBacking_iff [OF assms(1)] assms(2) s' by force
  then have temp: "segmentFlag (indexSessions doc) (sr_current r) Temp = sg_temp s"
    using p assms(2) s by (simp add: segmentFlag_def fileFacts_def truthy_text_def current_segment_def)
  have "p \<noteq> b" using assms(2,5) by (auto simp: jhas_def)
  then show ?thesis
    using p assms(2,5) id live s temp
    by (auto simp: doc' resolveBacking_def map_of_jput rotate_def same_facts_def new_segment_def image_iff)
qed

text \<open>
  Undoing a rotation undoes it exactly: reverting the segment that was just recorded gives back
  the document.
\<close>

theorem revert_undoes_rotation:
  assumes "doc_good doc" "map_of doc p = Some r" "b \<noteq> []" "\<not> held doc b"
    and "sr_current r = sg_id (last (liveSegments r))"
  shows "outcome (revertRotation p b) (outcome (recordRotation at p b reason) doc) = doc"
proof -
  have p: "p \<noteq> []" and ok: "record_ok r" and key: "doc_keyed doc"
    using assms(1,2) doc_wf_record by (auto simp: doc_good_def dest: records_lookup)
  have "newest_live r \<noteq> Some b"
    using assms(2,4) held_iff [OF keyed_ok [OF key]] newest_live_Some [of r b] last_in_set [of "liveSegments r"]
    by (auto simp: holds_segment_def list_ex_iff liveSegments_def)
  then have doc': "outcome (recordRotation at p b reason) doc = jput p (rotate at b reason r) doc"
    using p assms(2,3) by (simp add: outcome_def recordRotation_def rotation_done_def)
  let ?r = "rotate at b reason r"
  have new: "newest_live ?r = Some b" "remove_newest_live ?r = sr_segments r"
    by (simp_all add: newest_live_def liveSegments_def rotate_def new_segment_def remove_newest_live_def)
  have "newest_live (?r\<lparr>sr_segments := sr_segments r\<rparr>) = Some (sr_current r)"
    using record_ok_live [OF ok] assms(5) by (simp add: newest_live_def liveSegments_def)
  moreover have "?r\<lparr>sr_segments := sr_segments r, sr_current := sr_current r\<rparr> = r"
    by (simp add: rotate_def)
  moreover have "jput p r doc = doc"
    using jput_split [OF assms(2)] by metis
  ultimately show ?thesis
    unfolding doc' using p assms(3) new
    by (simp add: outcome_def revertRotation_def map_of_jput SessionWrites.revert_def Let_def)
qed

end
