(* ===== verification/SessionDemo.thy ===== *)
theory SessionDemo
  imports SessionProperties
begin

text \<open>
  Minting, tombstoning and the boot cleanup; a small store run on which the properties of the
  session store are exercised; and what does not read back from the file.
\<close>

subsection \<open>Minting and tombstoning\<close>

text \<open>
  A minted public id is a prefix of the first transcript's id, is nobody else's, and resolves to
  that transcript; the mint adds one record and touches no other.
\<close>

theorem minted_ids_are_new_prefixes:
  assumes "uuid_head u" "\<not> jhas doc u"
  defines "p \<equiv> minted_id doc u"
  shows "\<not> jhas doc p \<and> (\<exists>n. p = take n u) \<and> (isMintedPublicId p \<or> p = u)
    \<and> outcome (mintPublicId at u) doc = doc @ [(p, baseCaseRecord at u)]
    \<and> resolveBacking (indexSessions (outcome (mintPublicId at u) doc)) p = u"
proof -
  note f = minted_id_fresh [OF assms(1,2)]
  have "\<exists>n. p = take n u"
    unfolding p_def minted_id_def by (auto intro: exI [of _ "length u"])
  moreover have o: "outcome (mintPublicId at u) doc = doc @ [(p, baseCaseRecord at u)]"
    using f by (simp add: outcome_def mintPublicId_def Let_def p_def jput_new)
  moreover have "map_of (doc @ [(p, baseCaseRecord at u)]) p = Some (baseCaseRecord at u)"
    using f(1) by (simp add: p_def jhas_def map_add_def map_of_append)
  ultimately show ?thesis
    using f by (simp add: p_def resolveBacking_def baseCaseRecord_def bare_record_def)
qed

lemma drop_live:
  assumes "distinct (ids_of r)" "segment_satisfies (\<lambda>s. \<not> sg_dropped s) b r"
  shows "set (liveSegments (drop_entry b r)) = {s \<in> set (liveSegments r). sg_id s \<noteq> b}"
proof -
  obtain pre s post where x: "sr_segments r = pre @ s # post" "sg_id s = b" "\<not> sg_dropped s"
    "sr_segments (drop_entry b r) = pre @ s\<lparr>sg_dropped := True, sg_temp := False, sg_archived := False\<rparr> # post"
    using update_split [OF assms(2)] unfolding drop_entry_def by metis
  with assms(1) have "b \<notin> sg_id ` set pre \<and> b \<notin> sg_id ` set post" by simp
  then have "\<forall>y \<in> set pre \<union> set post. sg_id y \<noteq> b" by (metis Un_iff imageI)
  with x show ?thesis by (auto simp: liveSegments_def)
qed

lemma satisfies_unique:
  assumes "distinct (ids_of r)" "s \<in> set (sr_segments r)"
  shows "segment_satisfies P (sg_id s) r = P s"
proof -
  obtain t where t: "find_segment (sg_id s) r = Some t"
    using assms(2) by (cases "find_segment (sg_id s) r") (auto simp: find_segment_def find_None_iff2)
  then have "t \<in> set (sr_segments r)" "sg_id t = sg_id s"
    unfolding find_segment_def by (auto dest: find_SomeD)
  with assms have "t = s" by (auto simp: distinct_map dest: inj_onD)
  with t show ?thesis by (simp add: segment_satisfies_def)
qed

lemma drop_outcome:
  assumes "doc_good doc" "map_of doc p = Some r" "b \<in> set (ids_of r)"
  shows "fullChainOwner doc b = Some (p, r)"
proof -
  have ok: "jmap_ok doc" using assms(1) by (auto simp: doc_good_def keyed_ok)
  then have "held doc b" using assms(2,3) held_iff holds_ids by blast
  then obtain q s where q: "fullChainOwner doc b = Some (q, s)"
    using fullChainOwner_None [of doc b] by auto
  from fullChainOwner_Some [OF q ok] have s: "map_of doc q = Some s" "b \<in> set (ids_of s)" by (auto simp: holds_ids)
  have "q = p"
  proof (rule ccontr)
    assume "q \<noteq> p"
    with assms s(1) have "set (ids_of r) \<inter> set (ids_of s) = {}" unfolding doc_good_def owned_once_def by blast
    with assms(3) s(2) show False by blast
  qed
  with q s assms(2) show ?thesis by simp
qed

text \<open>
  A missing transcript never costs a session its facts: dropping a segment with \<open>unlessLast\<close>
  changes no fact of its record and deletes nothing, and when the record has another live segment
  this one is a tombstone afterwards, with \<open>current\<close> still on a live segment.
\<close>

theorem dropping_a_transcript_keeps_the_session:
  assumes "doc_good doc" "map_of doc p = Some r" "b \<in> sg_id ` set (liveSegments r)" "b \<noteq> []"
    and doc': "doc' = outcome (dropSegment b True) doc"
  shows "jkeys doc' = jkeys doc \<and> (\<exists>r'. map_of doc' p = Some r' \<and> same_facts r r' \<and> current_segment r' \<noteq> None
    \<and> map sg_id (sr_segments r') = map sg_id (sr_segments r)
    \<and> sg_id ` set (liveSegments r') = (if sg_id ` set (liveSegments r) = {b} then {b} else sg_id ` set (liveSegments r) - {b}))"
proof -
  have rok: "record_ok r" and once: "distinct (ids_of r)"
    using assms(1,2) by (auto simp: doc_good_def owned_once_def dest: records_lookup)
  obtain s where s: "s \<in> set (sr_segments r)" "sg_id s = b" "\<not> sg_dropped s"
    using assms(3) by (auto simp: liveSegments_def)
  then have own: "fullChainOwner doc b = Some (p, r)"
    using drop_outcome [OF assms(1,2)] by force
  have sat: "segment_satisfies (\<lambda>s. \<not> sg_dropped s) b r" "\<not> segment_satisfies sg_dropped b r"
    using satisfies_unique [OF once s(1)] s by auto
  note live = drop_live [OF once sat(1)]
  show ?thesis
  proof (cases "newest_live (drop_entry b r)")
    case None
    then have "\<forall>s \<in> set (liveSegments r). sg_id s = b"
      using live by (auto simp: newest_live_def split: if_splits)
    with assms(3) have "sg_id ` set (liveSegments r) = {b}" by auto
    moreover have "doc' = doc"
      using None own sat assms(4) by (simp add: doc' outcome_def dropSegment_def Let_def)
    ultimately show ?thesis
      using assms(2) rok by (auto simp: same_facts_def record_ok_def)
  next
    case (Some i)
    define r' where "r' = (if sr_current r = b then drop_entry b r\<lparr>sr_current := i\<rparr> else drop_entry b r)"
    have d: "doc' = jput p r' doc"
      using Some own sat assms(4) by (simp add: doc' outcome_def dropSegment_def Let_def r'_def)
    have "jkeys doc' = jkeys doc"
      unfolding d by (rule jput_split [OF assms(2)]) simp
    moreover have "map_of doc' p = Some r'" by (simp add: d map_of_jput)
    moreover have "current_segment r' \<noteq> None"
      using record_ok_drop [OF rok sat(1) Some] unfolding r'_def record_ok_def by blast
    moreover have "same_facts r r'" by (simp add: same_facts_def drop_entry_def update_segment_def r'_def)
    moreover have "ids_of r' = ids_of r" by (simp add: r'_def)
    moreover have "set (liveSegments r') = {s \<in> set (liveSegments r). sg_id s \<noteq> b}"
      using live by (simp add: liveSegments_def r'_def)
    then have "sg_id ` set (liveSegments r') = sg_id ` set (liveSegments r) - {b}" by blast
    moreover have "sg_id ` set (liveSegments r) \<noteq> {b}"
    proof -
      obtain x where "x \<in> set (liveSegments (drop_entry b r))"
        using newest_live_Some [OF Some] by (cases "liveSegments (drop_entry b r)") auto
      with live show ?thesis by blast
    qed
    ultimately show ?thesis by simp
  qed
qed

subsection \<open>The boot cleanup\<close>

text \<open>
  The boot cleanup removes a session only when it can be sure: nothing of it is in the resume
  manifest, none of its transcripts is on disk, it is past the grace time; and it never empties
  the store.
\<close>

theorem cleanup_removes_only_the_transcriptless:
  assumes "p \<in> set (cleanup_pick date now guarded scan doc)" "jmap_ok doc"
  shows "(\<exists>r present. map_of doc p = Some r \<and> scan = Some present \<and> present \<noteq> []
      \<and> p \<notin> set guarded \<and> list_all (\<lambda>s. sg_id s \<notin> set guarded \<and> sg_id s \<notin> set present) (sr_segments r)
      \<and> (\<forall>t. newest_at date r = Some t \<longrightarrow> now - t \<ge> CLEANUP_GRACE_MS))
    \<and> (\<exists>q \<in> set (jkeys doc). q \<notin> set (cleanup_pick date now guarded scan doc))"
proof -
  obtain present where scan: "scan = Some present"
    using assms(1) by (auto simp: cleanup_pick_def split: option.splits)
  let ?out = "filter (removable date now guarded present) doc"
  have out: "present \<noteq> []" "length ?out < length doc" "cleanup_pick date now guarded scan doc = jkeys ?out" "p \<in> set (jkeys ?out)"
    using assms(1) length_filter_le [of "removable date now guarded present" doc] scan
    by (auto simp: cleanup_pick_def Let_def le_less split: if_splits)
  then obtain r where r: "(p, r) \<in> set doc" "removable date now guarded present (p, r)" by auto
  then have look: "map_of doc p = Some r" using assms(2) by (simp add: jmap_ok_def)
  obtain x where x: "x \<in> set doc" "\<not> removable date now guarded present x"
    using out(2) by (metis filter_True less_irrefl)
  have "fst x \<notin> set (jkeys ?out)"
  proof
    assume "fst x \<in> set (jkeys ?out)"
    then obtain y where y: "y \<in> set doc" "fst y = fst x" "removable date now guarded present y" by auto
    with x(1) assms(2) have "y = x" by (auto simp: jmap_ok_def distinct_map dest: inj_onD)
    with x(2) y(3) show False by simp
  qed
  with x(1) out(3) have "\<exists>q \<in> set (jkeys doc). q \<notin> set (cleanup_pick date now guarded scan doc)" by auto
  moreover from r(2) have "p \<notin> set guarded"
    "list_all (\<lambda>s. sg_id s \<notin> set guarded \<and> sg_id s \<notin> set present) (sr_segments r)"
    "\<forall>t. newest_at date r = Some t \<longrightarrow> now - t \<ge> CLEANUP_GRACE_MS"
    by (auto simp: removable_def list_ex_iff list_all_iff young_def)
  ultimately show ?thesis using look scan out(1) by blast
qed

subsection \<open>What does not read back\<close>

text \<open>
  A title that the cap cuts right after a blank is stored, answered and served with that blank,
  and reads back without it after a restart: \<open>normalizeTitle\<close> trims before it cuts.
\<close>

definition long_title :: string where
  "long_title = replicate 99 (CHR ''x'') @ '' y''"

definition titled_store :: store where
  "titled_store = snd (mutateSessions id (io_fine 1) (setTitle ''t0'' ''session'' long_title) fresh_store)"

lemma js_trim_settled: "\<not> js_space c \<Longrightarrow> \<not> js_space d \<Longrightarrow> js_trim (c # xs @ [d]) = c # xs @ [d]"
  by (simp add: js_trim_def)

lemma long_title_capped: "normalizeTitle long_title = replicate 99 (CHR ''x'') @ '' ''"
proof -
  have "js_trim long_title = long_title"
    using js_trim_settled [of "CHR ''x''" "CHR ''y''" "replicate 98 (CHR ''x'') @ '' ''"]
    by (simp add: long_title_def js_space_def numeral_eq_Suc)
  then show ?thesis by (simp add: normalizeTitle_def MAX_TITLE_LEN_def long_title_def)
qed

definition titled_doc :: sessions_doc where
  "titled_doc = [(''session'', baseCaseRecord ''t0'' ''session''\<lparr>sr_title := Some (replicate 99 (CHR ''x'') @ '' '')\<rparr>)]"

lemma titled_store_files:
  "primary titled_store = Holds (serializeSessionsDoc id titled_doc)" "cache titled_store = Some (1, titled_doc)"
  "stamp titled_store = 1"
proof -
  have e: "ensureRecord True ''t0'' [] ''session''
      = (Target ''session'' (baseCaseRecord ''t0'' ''session''), [(''session'', baseCaseRecord ''t0'' ''session'')])"
    by code_simp
  have t: "titled_store = snd (commit id (io_fine 1) (0, 0) titled_doc (Some (replicate 99 (CHR ''x'') @ '' '')) fresh_store)"
    by (simp add: titled_store_def setTitle_def sessionWrite_def readPrimary_def fresh_store_def locked_write_def
        loadStrict_def recoverBackupStrict_def io_fine_def long_title_capped e truthy_text_def titled_doc_def
        baseCaseRecord_def bare_record_def Let_def)
  show "primary titled_store = Holds (serializeSessionsDoc id titled_doc)" "cache titled_store = Some (1, titled_doc)"
    "stamp titled_store = 1"
    unfolding t by (simp_all add: commit_def io_fine_def refreshBackup_def fresh_store_def Let_def)
qed

lemma collates_id [simp]: "collates id"
  by (simp add: collates_def)

lemma titled_doc_wf: "doc_wf titled_doc"
  by (simp add: titled_doc_def doc_wf_def record_wf_def facts_wf_def baseCaseRecord_def bare_record_def
      new_segment_def liveSegments_def jmap_ok_def)

theorem capped_title_reads_back_shorter:
  "getTitle (fst (loadSessions titled_store)) ''session'' = Some (replicate 99 (CHR ''x'') @ '' '')
   \<and> getTitle (fst (loadSessions (titled_store\<lparr>cache := None\<rparr>))) ''session'' = Some (replicate 99 (CHR ''x''))"
proof -
  have "js_trim (replicate 99 (CHR ''x'') @ '' '') = replicate 99 (CHR ''x'')"
    by (simp add: js_trim_def js_space_def numeral_eq_Suc)
  then have "truthy_text (Some (normalizeTitle (replicate 99 (CHR ''x'') @ '' ''))) = Some (replicate 99 (CHR ''x''))"
    by (simp add: normalizeTitle_def MAX_TITLE_LEN_def truthy_text_def)
  then have "map_option sr_title (map_of (parseSessionsDoc (serializeSessionsDoc id titled_doc)) ''session'')
      = Some (Some (replicate 99 (CHR ''x'')))"
    using reads_back [OF collates_id titled_doc_wf, of "''session''"] by (simp add: titled_doc_def reread_def)
  then show ?thesis
    by (auto simp: getTitle_def record_read_def recordFor_def resolveOwner_def loadSessions_def loadLenient_def
        readPrimary_def titled_store_files titled_doc_def jhas_def indexSessions_def)
qed

text \<open>
  A record keyed \<open>__proto__\<close> is cached but never written: assigning that member of the object
  literal sets its prototype.
\<close>

lemma proto_record_is_not_written:
  "parseSessionsDoc (serializeSessionsDoc id [(''__proto__'', baseCaseRecord at ''__proto__'')]) = []"
  by (simp add: serializeSessionsDoc_def own_key_order_def List.map_filter_simps parseSessionsDoc_def)

subsection \<open>A small run\<close>

definition uuid1 :: string where "uuid1 = ''3f2a91c0-7b1d-4e0a-9c55-d41b0c6a77e2''"
definition uuid2 :: string where "uuid2 = ''9d04be1f-22c8-4f3b-8a61-0e5f7c9b1a34''"
definition pub1 :: string where "pub1 = ''3f2a91c0''"

definition demo1 :: store where
  "demo1 = snd (mutateSessions id (io_fine 1) (op_call ''t1'' (Op_mint uuid1)) fresh_store)"

definition demo2 :: store where
  "demo2 = snd (mutateSessions id (io_fine 2) (op_call ''t2'' (Op_rotate pub1 uuid2 Renew)) demo1)"

definition demo_record :: session_record where
  "demo_record = bare_record uuid2 [new_segment uuid1 Initial ''t1'' False, new_segment uuid2 Renew ''t2'' False]"

lemma demo_docs:
  "fst (loadStrict (io_fine sig) fresh_store) = Inr []"
  "fst (loadStrict (io_fine sig) demo1) = Inr [(pub1, baseCaseRecord ''t1'' uuid1)]"
  "fst (loadStrict (io_fine sig) demo2) = Inr [(pub1, demo_record)]"
  by code_simp+

lemma demo_read: "fst (loadLenient demo2) = [(pub1, demo_record)]"
  by code_simp

lemma demo_clean: "clean_run id demo2"
proof -
  have "op_ok [] (Op_mint uuid1)" by code_simp
  then have "clean_run id demo1"
    unfolding demo1_def by (intro clean_mutation clean_fresh) (auto simp: demo_docs simp del: op_ok.simps)
  moreover have "op_ok [(pub1, baseCaseRecord ''t1'' uuid1)] (Op_rotate pub1 uuid2 Renew)" by code_simp
  ultimately show ?thesis
    unfolding demo2_def by (intro clean_mutation) (auto simp: demo_docs simp del: op_ok.simps)
qed

lemma demo_stats:
  "stamp demo1 = 1" "map_option fst (cache demo1) = Some 1"
  "stamp demo2 = 2" "map_option fst (cache demo2) = Some 2"
  by code_simp+

lemma io_sig_fine: "io_sig (io_fine sig) = sig"
  by (simp add: io_fine_def)

text \<open>The same run, every write leaving a new stat signature.\<close>

lemma demo_differs: "store_run id True demo2"
proof -
  have "op_ok [] (Op_mint uuid1)" by code_simp
  moreover have "new_stat 1 fresh_store" by (simp add: new_stat_def fresh_store_def)
  ultimately have "store_run id True demo1"
    unfolding demo1_def by (intro store_run.mutation store_run.fresh) (auto simp: demo_docs io_sig_fine simp del: op_ok.simps)
  moreover have "op_ok [(pub1, baseCaseRecord ''t1'' uuid1)] (Op_rotate pub1 uuid2 Renew)" by code_simp
  moreover have "new_stat 2 demo1" using demo_stats by (auto simp: new_stat_def)
  ultimately show ?thesis
    unfolding demo2_def by (intro store_run.mutation) (auto simp: demo_docs io_sig_fine simp del: op_ok.simps)
qed

lemma demo_good: "doc_good [(pub1, demo_record)]"
  using loadLenient_good [OF store_run_ok [OF clean_is_run [OF demo_clean]]] by (simp add: demo_read)

subsection \<open>Witnesses\<close>

lemma demo_index: "loadSessions demo2 = (indexSessions [(pub1, demo_record)], snd (loadSessions demo2))"
  using demo_read by (cases "loadLenient demo2") (simp add: loadSessions_def)

theorem every_read_keeps_the_record_invariant_witness:
  "\<exists>s \<in> set (sr_segments demo_record). sg_id s = sr_current demo_record \<and> \<not> sg_dropped s"
  using every_read_keeps_the_record_invariant [OF clean_is_run [OF demo_clean] collates_id demo_index, of pub1 demo_record]
  by simp

theorem losing_the_primary_loses_nothing_witness:
  "fst (loadLenient (demo2\<lparr>primary := Absent, stamp := 3\<rparr>)) = [(pub1, demo_record)]"
proof -
  have "content_doc (primary demo2) = [(pub1, demo_record)]" by code_simp
  with losing_the_primary_loses_nothing [OF demo_clean collates_id, of Lose _ 3] show ?thesis by simp
qed

theorem served_document_is_the_file_witness:
  "\<exists>j. primary demo2 = Holds j \<and> (map_of (parseSessionsDoc j) pub1 = Some demo_record
     \<or> map_of (parseSessionsDoc j) pub1 = Some (reread demo_record))"
proof -
  have "primary demo2 = Holds (serializeSessionsDoc id [(pub1, demo_record)])" "pub1 \<noteq> ''__proto__''" by code_simp+
  with served_document_is_the_file [OF demo_differs collates_id, of _ pub1] demo_read show ?thesis
    by simp
qed

definition uuid3 :: string where "uuid3 = ''5be81d72-90aa-4c15-b3f0-7764e2d9c0ff''"

theorem rotation_keeps_the_public_id_witness:
  "resolveBacking (indexSessions (outcome (recordRotation ''t3'' pub1 uuid3 Prune) [(pub1, demo_record)])) pub1 = uuid3"
proof -
  have "uuid3 \<noteq> [] \<and> \<not> held [(pub1, demo_record)] uuid3 \<and> \<not> jhas [(pub1, demo_record)] uuid3" by code_simp
  with rotation_keeps_the_public_id [OF demo_good, of pub1 demo_record uuid3 _ "''t3''" Prune] show ?thesis by simp
qed

theorem revert_undoes_rotation_witness:
  "outcome (revertRotation pub1 uuid3) (outcome (recordRotation ''t3'' pub1 uuid3 Prune) [(pub1, demo_record)])
     = [(pub1, demo_record)]"
proof -
  have "uuid3 \<noteq> [] \<and> \<not> held [(pub1, demo_record)] uuid3
      \<and> sr_current demo_record = sg_id (last (liveSegments demo_record))" by code_simp
  with revert_undoes_rotation [OF demo_good, of pub1 demo_record uuid3 "''t3''" Prune] show ?thesis by simp
qed

theorem minted_ids_are_new_prefixes_witness:
  "minted_id [(''3f2a91c0'', demo_record)] uuid1 = ''3f2a91c0-7b1d''
   \<and> \<not> jhas [(''3f2a91c0'', demo_record)] (minted_id [(''3f2a91c0'', demo_record)] uuid1)"
proof -
  have "uuid_head uuid1 \<and> \<not> jhas [(''3f2a91c0'', demo_record)] uuid1
      \<and> minted_id [(''3f2a91c0'', demo_record)] uuid1 = ''3f2a91c0-7b1d''" by code_simp
  with minted_ids_are_new_prefixes [of uuid1 "[(''3f2a91c0'', demo_record)]"] show ?thesis by simp
qed

theorem dropping_a_transcript_keeps_the_session_witness:
  "jkeys (outcome (dropSegment uuid2 True) [(pub1, demo_record)]) = [pub1]"
proof -
  have "uuid2 \<in> sg_id ` set (liveSegments demo_record) \<and> uuid2 \<noteq> []" by code_simp
  with dropping_a_transcript_keeps_the_session [OF demo_good, of pub1 demo_record uuid2] show ?thesis by simp
qed

definition old_and_new :: sessions_doc where
  "old_and_new = [(pub1, demo_record), (uuid3, baseCaseRecord ''t9'' uuid3)]"

definition demo_date :: "string \<Rightarrow> int option" where
  "demo_date t = (if t = ''t9'' then Some 5000000 else Some 0)"

theorem cleanup_removes_only_the_transcriptless_witness:
  "cleanup_pick demo_date 5000001 [] (Some [''other'']) old_and_new = [pub1]
   \<and> (\<exists>q \<in> set (jkeys old_and_new). q \<notin> set (cleanup_pick demo_date 5000001 [] (Some [''other'']) old_and_new))"
proof -
  have "cleanup_pick demo_date 5000001 [] (Some [''other'']) old_and_new = [pub1] \<and> jmap_ok old_and_new"
    by code_simp
  with cleanup_removes_only_the_transcriptless [of pub1 demo_date 5000001 "[]" "Some [''other'']" old_and_new]
  show ?thesis by simp
qed

end
