(* ===== verification/ShellFraming.thy ===== *)
theory ShellFraming
  imports WakeStub
begin

text \<open>
  The framing of a redirected shell command, \<open>src/systems/shellFraming.ts\<close>: the script that is run,
  the parsers of the two framed streams once they are complete, and the filter that forwards the
  command's output while it arrives.  A stream is a text of UTF-16 code units.  Decoding the working
  directory from base64 is a parameter.
\<close>

subsection \<open>Sentinels\<close>

definition sentinelFor :: "utf16 \<Rightarrow> utf16" where
  "sentinelFor nonce = units ''__CC_'' @ nonce @ units ''__''"

definition beginFor :: "utf16 \<Rightarrow> utf16" where
  "beginFor nonce = units ''__CC_'' @ nonce @ units ''_BEGIN__''"

definition is_dec :: "nat \<Rightarrow> bool" where
  "is_dec c \<longleftrightarrow> 48 \<le> c \<and> c \<le> 57"

text \<open>The groups of \<open>CLOSING_STDOUT_TAIL\<close>: a blank, digits, a blank and a run without white space.\<close>

definition closing_stdout_tail :: "utf16 \<Rightarrow> (utf16 \<times> utf16) option" where
  "closing_stdout_tail tail =
     (case tail of [] \<Rightarrow> None
      | c # rest \<Rightarrow>
          let code = takeWhile is_dec rest; more = dropWhile is_dec rest in
          if c = 32 \<and> code \<noteq> [] \<and> more \<noteq> [] \<and> hd more = 32 \<and> list_all (\<lambda>x. \<not> is_space x) (tl more)
          then Some (code, tl more) else None)"

datatype stream_kind = Out | Err

definition closingTailMatches :: "stream_kind \<Rightarrow> utf16 \<Rightarrow> bool" where
  "closingTailMatches kind tail = (case kind of Out \<Rightarrow> closing_stdout_tail tail \<noteq> None | Err \<Rightarrow> tail = [])"

text \<open>\<open>indexOf(p, from)\<close> and \<open>slice(a, b)\<close>.\<close>

definition index_from :: "utf16 \<Rightarrow> utf16 \<Rightarrow> nat \<Rightarrow> nat option" where
  "index_from p x from = map_option ((+) from) (text_index p (drop from x))"

definition text_slice :: "nat \<Rightarrow> nat \<Rightarrow> utf16 \<Rightarrow> utf16" where
  "text_slice a b x = drop a (take b x)"

text \<open>Whether a position starts a line; \<open>bol\<close> says so of position 0.\<close>

definition lineStartAt :: "bool \<Rightarrow> utf16 \<Rightarrow> nat \<Rightarrow> bool" where
  "lineStartAt bol x i = (if i = 0 then bol else x ! (i - 1) = NL)"

lemma text_index_bound: "text_index p x = Some i \<Longrightarrow> i + length p \<le> length x"
proof (induction x arbitrary: i)
  case (Cons c x)
  have len: "text_starts y p \<Longrightarrow> length p \<le> length y" for y
    by (induction y p rule: text_starts.induct) auto
  show ?case using Cons len [of "c # x"] by (auto split: if_splits)
qed (auto split: if_splits)

lemma index_from_bound: "index_from p x from = Some i \<Longrightarrow> from \<le> length x \<Longrightarrow> from \<le> i \<and> i + length p \<le> length x"
  by (auto simp: index_from_def dest!: text_index_bound)

lemma index_from_nl: "index_from [NL] x from = Some i \<Longrightarrow> from \<le> i \<and> i < length x"
  by (cases "from \<le> length x") (auto simp: index_from_def dest!: text_index_bound)

lemma sentinel_nonempty [simp]: "sentinelFor nonce \<noteq> []" "0 < length (sentinelFor nonce)" "beginFor nonce \<noteq> []"
  by (simp_all add: sentinelFor_def beginFor_def units_def)

subsection \<open>Scanning\<close>

text \<open>\<open>afterMarkerLine\<close>: just past the newline of the first line that is the marker.\<close>

function afterMarkerLine :: "utf16 \<Rightarrow> utf16 \<Rightarrow> nat \<Rightarrow> nat option" where
  "afterMarkerLine x marker i =
     (case index_from marker x i of
        None \<Rightarrow> None
      | Some at \<Rightarrow>
          (case index_from [NL] x at of
             None \<Rightarrow> None
           | Some nl \<Rightarrow>
               if lineStartAt True x at \<and> text_slice (at + length marker) nl x = [] then Some (nl + 1)
               else afterMarkerLine x marker (nl + 1)))"
  by pat_completeness auto
termination
proof (relation "measure (\<lambda>(x, marker, i). length x - i)")
  fix x marker i at nl
  assume "index_from marker x i = Some at" "index_from [NL] x at = Some nl"
  then have "i \<le> at" "at \<le> nl" "nl < length x"
    using index_from_nl [of x at nl] by (auto simp: index_from_def)
  then show "((x, marker, nl + 1), x, marker, i) \<in> measure (\<lambda>(x, marker, i). length x - i)" by simp
qed simp

text \<open>
  The loop the parsers and the filter share: the first occurrence of the closing sentinel that
  starts a line and whose line is complete and has a closing tail.
\<close>

datatype scan = No_sentinel | Unfinished nat | Boundary nat nat

function scan_close :: "stream_kind \<Rightarrow> utf16 \<Rightarrow> bool \<Rightarrow> utf16 \<Rightarrow> nat \<Rightarrow> scan" where
  "scan_close kind nonce bol x i =
     (case index_from (sentinelFor nonce) x i of
        None \<Rightarrow> No_sentinel
      | Some at \<Rightarrow>
          if \<not> lineStartAt bol x at then scan_close kind nonce bol x (at + length (sentinelFor nonce))
          else (case index_from [NL] x at of
             None \<Rightarrow> Unfinished at
           | Some nl \<Rightarrow>
               if closingTailMatches kind (text_slice (at + length (sentinelFor nonce)) nl x) then Boundary at nl
               else scan_close kind nonce bol x (nl + 1)))"
  by pat_completeness auto
termination
proof (relation "measure (\<lambda>(kind, nonce, bol, x, i). length x - i)")
  fix kind nonce bol x i at
  assume a: "index_from (sentinelFor nonce) x i = Some at"
  then have "text_index (sentinelFor nonce) (drop i x) = Some (at - i)" "i \<le> at"
    by (auto simp: index_from_def)
  moreover from this(1) have "at - i + length (sentinelFor nonce) \<le> length x - i"
    using text_index_bound by fastforce
  moreover have "0 < length (sentinelFor nonce)" by (rule sentinel_nonempty)
  ultimately have "length x - (at + length (sentinelFor nonce)) < length x - i" by arith
  then show "((kind, nonce, bol, x, at + length (sentinelFor nonce)), kind, nonce, bol, x, i)
      \<in> measure (\<lambda>(kind, nonce, bol, x, i). length x - i)"
    by simp
next
  fix kind nonce bol x i at nl
  assume "index_from (sentinelFor nonce) x i = Some at" "index_from [NL] x at = Some nl"
  then have "i \<le> at" "at \<le> nl" "nl < length x"
    using index_from_nl [of x at nl] by (auto simp: index_from_def)
  then show "((kind, nonce, bol, x, nl + 1), kind, nonce, bol, x, i)
      \<in> measure (\<lambda>(kind, nonce, bol, x, i). length x - i)" by simp
qed simp

declare afterMarkerLine.simps [simp del] scan_close.simps [simp del]

subsection \<open>The script\<close>

definition frameCommand :: "utf16 \<Rightarrow> utf16 \<Rightarrow> utf16" where
  "frameCommand nonce command =
     (let s = sentinelFor nonce; b = beginFor nonce; nl = units [CHR 0x5C, CHR ''n''] in
      units ''printf '' @ [39] @ nl @ b @ nl @ [39] @ units ''; printf '' @ [39] @ nl @ b @ nl @ [39] @ units '' >&2'' @ [NL]
      @ units ''{ '' @ command @ [NL] @ units ''} < /dev/null'' @ [NL]
      @ units ''__cc_rc=$?; printf '' @ [39] @ nl @ s @ units '' %d %s'' @ nl @ [39]
      @ units '' '' @ [34] @ units ''$__cc_rc'' @ [34] @ units '' '' @ [34]
      @ units ''$(printf %s '' @ [34] @ units ''$PWD'' @ [34] @ units '' | base64 | tr -d '' @ [39] @ nl @ [39] @ units '')'' @ [34] @ [NL]
      @ units ''printf '' @ [39] @ nl @ s @ nl @ [39] @ units '' >&2'' @ [NL])"

subsection \<open>The parsers\<close>

record framed_stdout =
  fs_text :: utf16
  fs_code :: nat
  fs_cwd :: utf16

definition decimal_value :: "utf16 \<Rightarrow> nat" where
  "decimal_value ds = foldl (\<lambda>n c. 10 * n + (c - 48)) 0 ds"

text \<open>The cut that strips the newline injected before a sentinel.\<close>

definition withInjectedNewline :: "utf16 \<Rightarrow> nat \<Rightarrow> nat" where
  "withInjectedNewline x at = (if 0 < at \<and> x ! (at - 1) = NL then at - 1 else at)"

definition parseFramedStdout :: "(utf16 \<Rightarrow> utf16) \<Rightarrow> utf16 \<Rightarrow> utf16 \<Rightarrow> framed_stdout option" where
  "parseFramedStdout decode x nonce =
     (case afterMarkerLine x (beginFor nonce) 0 of
        None \<Rightarrow> None
      | Some start \<Rightarrow>
          let body = drop start x in
          (case scan_close Out nonce True body 0 of
             Boundary at nl \<Rightarrow>
               (case closing_stdout_tail (text_slice (at + length (sentinelFor nonce)) nl body) of
                  Some (code, cwd) \<Rightarrow>
                    Some \<lparr>fs_text = take (withInjectedNewline body at) body, fs_code = decimal_value code, fs_cwd = decode cwd\<rparr>
                | None \<Rightarrow> None)
           | _ \<Rightarrow> None))"

definition parseFramedStderr :: "utf16 \<Rightarrow> utf16 \<Rightarrow> utf16 option" where
  "parseFramedStderr x nonce =
     (case afterMarkerLine x (beginFor nonce) 0 of
        None \<Rightarrow> None
      | Some start \<Rightarrow>
          let body = drop start x in
          (case scan_close Err nonce True body 0 of
             Boundary at nl \<Rightarrow> Some (take (withInjectedNewline body at) body)
           | _ \<Rightarrow> None))"

subsection \<open>The filter\<close>

record stream_filter =
  sf_buf :: utf16
  sf_started :: bool
  sf_done :: bool
  sf_atLineStart :: bool

definition new_filter :: stream_filter where
  "new_filter = \<lparr>sf_buf = [], sf_started = False, sf_done = False, sf_atLineStart = True\<rparr>"

text \<open>\<open>lastIndexOf('\n') + 1\<close>.\<close>

definition last_line_start :: "utf16 \<Rightarrow> nat" where
  "last_line_start b = length b - length (takeWhile (\<lambda>c. c \<noteq> NL) (rev b))"

definition holdFrom :: "utf16 \<Rightarrow> bool \<Rightarrow> utf16 \<Rightarrow> nat" where
  "holdFrom nonce bol b =
     (if b = [] then 0
      else let lineStart = last_line_start b; tail = drop lineStart b in
        if tail = [] then length b - 1
        else if (0 < lineStart \<or> bol) \<and> text_starts (sentinelFor nonce) tail
        then (if 0 < lineStart then lineStart - 1 else 0)
        else length b)"

definition take_out :: "nat \<Rightarrow> stream_filter \<Rightarrow> utf16 \<times> stream_filter" where
  "take_out n f =
     (if n = 0 then ([], f)
      else let out = take n (sf_buf f) in
        (out, f\<lparr>sf_buf := drop n (sf_buf f), sf_atLineStart := (out \<noteq> [] \<and> last out = NL)\<rparr>))"

text \<open>The part of \<open>push\<close> after the opening sentinel.\<close>

definition push_started :: "stream_kind \<Rightarrow> utf16 \<Rightarrow> stream_filter \<Rightarrow> utf16 \<times> stream_filter" where
  "push_started kind nonce f =
     (case scan_close kind nonce (sf_atLineStart f) (sf_buf f) 0 of
        Unfinished at \<Rightarrow> take_out (withInjectedNewline (sf_buf f) at) f
      | Boundary at nl \<Rightarrow> (take (withInjectedNewline (sf_buf f) at) (sf_buf f), f\<lparr>sf_buf := [], sf_done := True\<rparr>)
      | No_sentinel \<Rightarrow> take_out (holdFrom nonce (sf_atLineStart f) (sf_buf f)) f)"

definition push :: "stream_kind \<Rightarrow> utf16 \<Rightarrow> utf16 \<Rightarrow> stream_filter \<Rightarrow> utf16 \<times> stream_filter" where
  "push kind nonce delta f =
     (if sf_done f \<or> delta = [] then ([], f)
      else let f1 = f\<lparr>sf_buf := sf_buf f @ delta\<rparr> in
        if sf_started f1 then push_started kind nonce f1
        else (case afterMarkerLine (sf_buf f1) (beginFor nonce) 0 of
            None \<Rightarrow> ([], f1)
          | Some at \<Rightarrow> push_started kind nonce
              (f1\<lparr>sf_buf := drop at (sf_buf f1), sf_started := True, sf_atLineStart := True\<rparr>)))"

definition flush :: "utf16 \<Rightarrow> stream_filter \<Rightarrow> utf16 \<times> stream_filter" where
  "flush nonce f =
     (if sf_done f then ([], f)
      else let f1 = f\<lparr>sf_done := True, sf_buf := []\<rparr>; b = sf_buf f in
        if b = [] then ([], f1)
        else let lineStart = last_line_start b; tail = drop lineStart b in
          if tail \<noteq> [] \<and> (0 < lineStart \<or> sf_atLineStart f)
             \<and> (text_starts (sentinelFor nonce) tail \<or> text_starts tail (sentinelFor nonce))
          then (take (if 0 < lineStart then lineStart - 1 else 0) b, f1)
          else (b, f1))"

text \<open>A run of pushes: everything emitted so far and the filter.\<close>

fun push_all :: "stream_kind \<Rightarrow> utf16 \<Rightarrow> utf16 list \<Rightarrow> stream_filter \<Rightarrow> utf16 \<times> stream_filter" where
  "push_all kind nonce [] f = ([], f)"
| "push_all kind nonce (d # ds) f =
     (let (out, f1) = push kind nonce d f; (rest, f2) = push_all kind nonce ds f1 in (out @ rest, f2))"

end
