(* ===== verification/ShellFacts.thy ===== *)
theory ShellFacts
  imports ShellFraming "HOL-Library.Sublist"
begin

text \<open>
  The streaming filter and the parsers agree: whatever the chunks a stream arrives in, what the
  filter emits is what the parser extracts from the whole of it.  The proof characterises every
  scan by the least \<open>live\<close> position, a sentinel at a line start whose line is unfinished or closes
  the frame, and follows the split of the body into emitted and held text.
\<close>

subsection \<open>Searching\<close>

lemma text_starts_iff: "text_starts x p \<longleftrightarrow> prefix p x"
  by (induction x p rule: text_starts.induct) auto

lemma text_index_Some:
  "text_index p x = Some i \<longleftrightarrow> i \<le> length x \<and> prefix p (drop i x) \<and> (\<forall>j < i. \<not> prefix p (drop j x))"
proof (induction x arbitrary: i)
  case (Cons c x)
  show ?case
    using Cons.IH by (cases i) (auto simp: text_starts_iff All_less_Suc2)
qed (auto split: if_splits)

lemma text_index_None: "text_index p x = None \<longleftrightarrow> (\<forall>j \<le> length x. \<not> prefix p (drop j x))"
proof (induction x)
  case (Cons c x)
  have "(\<forall>j \<le> length (c # x). \<not> prefix p (drop j (c # x)))
      \<longleftrightarrow> \<not> prefix p (c # x) \<and> (\<forall>j \<le> length x. \<not> prefix p (drop j x))"
    by (metis Suc_le_mono drop0 drop_Suc_Cons le0 length_Cons not0_implies_Suc)
  with Cons.IH show ?case by (auto simp: text_starts_iff)
qed (auto split: if_splits)

lemma index_from_Some:
  assumes "i \<le> length x"
  shows "index_from p x i = Some at \<longleftrightarrow> i \<le> at \<and> at \<le> length x \<and> prefix p (drop at x)
     \<and> (\<forall>j. i \<le> j \<and> j < at \<longrightarrow> \<not> prefix p (drop j x))"
proof -
  have "(\<forall>j < at - i. \<not> prefix p (drop j (drop i x))) \<longleftrightarrow> (\<forall>j. i \<le> j \<and> j < at \<longrightarrow> \<not> prefix p (drop j x))" if "i \<le> at"
    using that by (auto simp: add.commute) (metis add.commute le_add_diff_inverse less_diff_conv2 diff_less_mono)
  moreover have "index_from p x i = Some at \<longleftrightarrow> i \<le> at \<and> text_index p (drop i x) = Some (at - i)"
    by (auto simp: index_from_def)
  ultimately show ?thesis
    using assms by (auto simp: text_index_Some add.commute)
qed

lemma index_from_None:
  assumes "i \<le> length x"
  shows "index_from p x i = None \<longleftrightarrow> (\<forall>j. i \<le> j \<and> j \<le> length x \<longrightarrow> \<not> prefix p (drop j x))"
  using assms by (auto simp: index_from_def text_index_None)
    (metis add.commute add_le_imp_le_diff le_add_diff_inverse)

text \<open>The first newline at or after a position.\<close>

lemma prefix_NL: "j < length x \<Longrightarrow> prefix [NL] (drop j x) \<longleftrightarrow> x ! j = NL"
  by (metis Cons_nth_drop_Suc Cons_prefix_Cons Nil_prefix)

lemma newline_Some:
  assumes "i \<le> length x"
  shows "index_from [NL] x i = Some nl \<longleftrightarrow> i \<le> nl \<and> nl < length x \<and> x ! nl = NL \<and> (\<forall>j. i \<le> j \<and> j < nl \<longrightarrow> x ! j \<noteq> NL)"
proof -
  have "prefix [NL] (drop nl x) \<longleftrightarrow> nl < length x \<and> x ! nl = NL" for nl
    using prefix_NL [of nl x] by (cases "nl < length x") auto
  then show ?thesis using assms by (auto simp: index_from_Some)
qed

lemma newline_None:
  assumes "i \<le> length x"
  shows "index_from [NL] x i = None \<longleftrightarrow> (\<forall>j. i \<le> j \<and> j < length x \<longrightarrow> x ! j \<noteq> NL)"
proof -
  have "prefix [NL] (drop nl x) \<longleftrightarrow> nl < length x \<and> x ! nl = NL" for nl
    using prefix_NL [of nl x] by (cases "nl < length x") auto
  then show ?thesis using assms by (auto simp: index_from_None)
qed

lemma sentinel_one_line: "NL \<notin> set nonce \<Longrightarrow> NL \<notin> set (sentinelFor nonce)" "NL \<notin> set nonce \<Longrightarrow> NL \<notin> set (beginFor nonce)"
  by (auto simp: sentinelFor_def beginFor_def units_def)

lemma prefix_nth: "prefix p (drop i x) \<Longrightarrow> j < length p \<Longrightarrow> x ! (i + j) = p ! j \<and> i + j < length x"
proof -
  assume "prefix p (drop i x)" and j: "j < length p"
  then obtain z where z: "drop i x = p @ z" by (auto simp: prefix_def)
  then have "length p + length z = length x - i" by (metis length_append length_drop)
  with j have "i + j < length x" by arith
  moreover from this have "x ! (i + j) = drop i x ! j" by simp
  ultimately show ?thesis using z j by (simp add: nth_append)
qed

subsection \<open>Live positions\<close>

text \<open>
  A sentinel at a line start that is not known to be a forgery: its line is unfinished, or closes
  the frame.
\<close>

definition live :: "stream_kind \<Rightarrow> utf16 \<Rightarrow> bool \<Rightarrow> utf16 \<Rightarrow> nat \<Rightarrow> bool" where
  "live kind nonce bol x i \<longleftrightarrow> i \<le> length x \<and> prefix (sentinelFor nonce) (drop i x) \<and> lineStartAt bol x i
     \<and> (case index_from [NL] x i of None \<Rightarrow> True
        | Some nl \<Rightarrow> closingTailMatches kind (text_slice (i + length (sentinelFor nonce)) nl x))"

definition least_live :: "stream_kind \<Rightarrow> utf16 \<Rightarrow> bool \<Rightarrow> utf16 \<Rightarrow> nat \<Rightarrow> nat \<Rightarrow> bool" where
  "least_live kind nonce bol x i at \<longleftrightarrow> i \<le> at \<and> live kind nonce bol x at \<and> (\<forall>j. i \<le> j \<and> j < at \<longrightarrow> \<not> live kind nonce bol x j)"

definition scan_meets :: "stream_kind \<Rightarrow> utf16 \<Rightarrow> bool \<Rightarrow> utf16 \<Rightarrow> nat \<Rightarrow> scan \<Rightarrow> bool" where
  "scan_meets kind nonce bol x i r \<longleftrightarrow> (case r of
      No_sentinel \<Rightarrow> \<forall>j \<ge> i. \<not> live kind nonce bol x j
    | Unfinished at \<Rightarrow> least_live kind nonce bol x i at \<and> index_from [NL] x at = None
    | Boundary at nl \<Rightarrow> least_live kind nonce bol x i at \<and> index_from [NL] x at = Some nl)"

lemma scan_meets_skip:
  assumes "scan_meets kind nonce bol x k r" "i \<le> k" "\<And>j. i \<le> j \<Longrightarrow> j < k \<Longrightarrow> \<not> live kind nonce bol x j"
  shows "scan_meets kind nonce bol x i r"
proof -
  have "\<not> live kind nonce bol x j" if "i \<le> j" "k \<le> j \<longrightarrow> \<not> live kind nonce bol x j" for j
    using that assms(3) [of j] by (cases "k \<le> j") auto
  with assms(1,2) show ?thesis
    by (cases r) (auto simp: scan_meets_def least_live_def)
qed

lemma close_spec: "NL \<notin> set nonce \<Longrightarrow> i \<le> length x \<Longrightarrow> scan_meets kind nonce bol x i (scan_close kind nonce bol x i)"
proof (induction kind nonce bol x i rule: scan_close.induct)
  case (1 kind nonce bol x i)
  let ?s = "sentinelFor nonce"
  show ?case
  proof (cases "index_from ?s x i")
    case None
    then have "\<not> live kind nonce bol x j" if "i \<le> j" for j
      using that 1(4) by (auto simp: index_from_None live_def)
    with None show ?thesis by (subst scan_close.simps) (simp add: scan_meets_def)
  next
    case (Some at)
    then have a: "i \<le> at" "at \<le> length x" "prefix ?s (drop at x)" "\<And>j. i \<le> j \<Longrightarrow> j < at \<Longrightarrow> \<not> prefix ?s (drop j x)"
      using 1(4) by (auto simp: index_from_Some)
    have before: "\<not> live kind nonce bol x j" if "i \<le> j" "j < at" for j
      using a(4) [OF that] by (simp add: live_def)
    have len: "at + length ?s \<le> length x"
      using index_from_bound [OF Some 1(4)] by simp
    show ?thesis
    proof (cases "lineStartAt bol x at")
      case False
      have "\<not> live kind nonce bol x j" if j: "i \<le> j" "j < at + length ?s" for j
      proof (cases "j \<le> at")
        case True
        with before [of j] False j show ?thesis by (cases "j = at") (auto simp: live_def)
      next
        case no: False
        then have "x ! (at + (j - 1 - at)) = ?s ! (j - 1 - at)" "j - 1 - at < length ?s"
          using prefix_nth [OF a(3), of "j - 1 - at"] j by auto
        then have "x ! (j - 1) \<noteq> NL" using no sentinel_one_line(1) [OF 1(3)] by (metis Suc_diff_1 add_diff_inverse_nat
              less_Suc_eq_le linorder_not_le not_gr_zero nth_mem zero_le le_less_trans Suc_pred)
        with no show ?thesis by (auto simp: live_def lineStartAt_def)
      qed
      moreover have "scan_meets kind nonce bol x (at + length ?s) (scan_close kind nonce bol x (at + length ?s))"
        using 1(1) [OF Some False 1(3) len] .
      ultimately show ?thesis
        using Some False a(1) by (subst scan_close.simps) (auto intro: scan_meets_skip)
    next
      case True
      show ?thesis
      proof (cases "index_from [NL] x at")
        case None
        then have "live kind nonce bol x at" using a True by (simp add: live_def)
        with None Some True a before show ?thesis
          by (subst scan_close.simps) (auto simp: scan_meets_def least_live_def)
      next
        case nl: (Some nl)
        show ?thesis
        proof (cases "closingTailMatches kind (text_slice (at + length ?s) nl x)")
          case m: True
          then have "live kind nonce bol x at" using a True nl by (simp add: live_def)
          with nl Some True m a before show ?thesis
            by (subst scan_close.simps) (auto simp: scan_meets_def least_live_def)
        next
          case m: False
          have n: "at \<le> nl" "nl < length x" "\<And>j. at \<le> j \<Longrightarrow> j < nl \<Longrightarrow> x ! j \<noteq> NL"
            using nl a(2) by (auto simp: newline_Some)
          have "\<not> live kind nonce bol x j" if j: "i \<le> j" "j < nl + 1" for j
          proof (cases "j \<le> at")
            case True
            with before [of j] m nl j show ?thesis by (cases "j = at") (auto simp: live_def)
          next
            case False
            then have "x ! (j - 1) \<noteq> NL" using n(3) [of "j - 1"] j by auto
            with False show ?thesis by (auto simp: live_def lineStartAt_def)
          qed
          moreover have "scan_meets kind nonce bol x (nl + 1) (scan_close kind nonce bol x (nl + 1))"
            using 1(2) [OF Some _ nl m 1(3)] True n(2) by simp
          ultimately show ?thesis
            using Some True nl m a(1) n(1) by (subst scan_close.simps) (auto intro: scan_meets_skip)
        qed
      qed
    qed
  qed
qed

subsection \<open>Extending and splitting a stream\<close>

lemma newline_append:
  assumes "index_from [NL] x i = Some nl" "i \<le> length x"
  shows "index_from [NL] (x @ d) i = Some nl"
  using assms by (auto simp: newline_Some nth_append)

lemma newline_split:
  "index_from [NL] (e @ x) (length e + i) = map_option ((+) (length e)) (index_from [NL] x i)"
  by (cases "text_index [NL] (drop i x)") (simp_all add: index_from_def)

text \<open>A sentinel that starts before a newline ends before it.\<close>

lemma sentinel_before_newline:
  assumes "NL \<notin> set p" "prefix p (drop i x)" "index_from [NL] x i = Some nl" "i \<le> length x"
  shows "i + length p \<le> nl"
proof (rule ccontr)
  assume "\<not> i + length p \<le> nl"
  moreover have n: "i \<le> nl" "x ! nl = NL" using assms(3,4) by (auto simp: newline_Some)
  ultimately have "nl - i < length p" by arith
  from prefix_nth [OF assms(2) this] n have "p ! (nl - i) = NL" by simp
  with \<open>nl - i < length p\<close> assms(1) show False by (metis nth_mem)
qed

lemma prefix_take: "prefix p y \<longleftrightarrow> take (length p) y = p"
  by (metis append_eq_conv_conj prefix_def take_is_prefix)

lemma prefix_drop_append:
  "i + length p \<le> length x \<Longrightarrow> prefix p (drop i (x @ d)) = prefix p (drop i x)"
  by (simp add: prefix_take)

text \<open>Where a line is complete, more text changes nothing.\<close>

lemma occurs_complete:
  assumes "NL \<notin> set p" "index_from [NL] x i = Some nl" "i \<le> length x"
  shows "prefix p (drop i (x @ d)) = prefix p (drop i x)"
proof (cases "i + length p \<le> nl")
  case True
  moreover have "nl < length x" using assms(2,3) by (simp add: newline_Some)
  ultimately show ?thesis by (intro prefix_drop_append) simp
next
  case False
  have "\<not> prefix p (drop i x)" using sentinel_before_newline [OF assms(1) _ assms(2,3)] False by blast
  moreover have "\<not> prefix p (drop i (x @ d))"
    using sentinel_before_newline [OF assms(1) _ newline_append [OF assms(2,3)]] assms(3) False by fastforce
  ultimately show ?thesis by simp
qed

lemma line_complete:
  assumes "index_from [NL] x i = Some nl" "i \<le> length x"
  shows "lineStartAt bol (x @ d) i = lineStartAt bol x i" "text_slice k nl (x @ d) = text_slice k nl x"
proof -
  have n: "i \<le> nl" "nl < length x" using assms by (auto simp: newline_Some)
  show "lineStartAt bol (x @ d) i = lineStartAt bol x i"
    using n by (auto simp: lineStartAt_def nth_append)
  show "text_slice k nl (x @ d) = text_slice k nl x"
    using n by (simp add: text_slice_def)
qed

lemma live_complete:
  assumes "NL \<notin> set nonce" "index_from [NL] x i = Some nl" "i \<le> length x"
  shows "live kind nonce bol (x @ d) i = live kind nonce bol x i"
  using occurs_complete [OF sentinel_one_line(1) [OF assms(1)] assms(2,3), of d]
    line_complete [OF assms(2,3), of _ d] newline_append [OF assms(2,3), of d] assms(2,3)
  by (simp add: live_def)

text \<open>A position of the second part of a split stream.\<close>

lemma live_split:
  assumes "bol = (e = [] \<or> last e = NL)"
  shows "live kind nonce True (e @ x) (length e + i) = live kind nonce bol x i"
proof -
  have "lineStartAt True (e @ x) (length e + i) = lineStartAt bol x i"
    using assms by (cases e rule: rev_cases) (auto simp: lineStartAt_def nth_append)
  moreover have "text_slice (length e + i + k) (length e + nl) (e @ x) = text_slice (i + k) nl x" for k nl
    by (simp add: text_slice_def add.assoc)
  ultimately show ?thesis
    by (auto simp: live_def newline_split split: option.splits)
qed

subsection \<open>The cut\<close>

text \<open>How much of a body the filter has emitted, as a function of the body alone.\<close>

definition cut_of :: "stream_kind \<Rightarrow> utf16 \<Rightarrow> utf16 \<Rightarrow> nat" where
  "cut_of kind nonce x = (case scan_close kind nonce True x 0 of
      No_sentinel \<Rightarrow> holdFrom nonce True x
    | Unfinished at \<Rightarrow> withInjectedNewline x at
    | Boundary at nl \<Rightarrow> withInjectedNewline x at)"

lemma last_line_start_le: "last_line_start x \<le> length x"
  by (simp add: last_line_start_def)

lemma last_line_split: "x = take (last_line_start x) x @ rev (takeWhile (\<lambda>c. c \<noteq> NL) (rev x))"
proof -
  let ?t = "takeWhile (\<lambda>c. c \<noteq> NL) (rev x)"
  have "rev x = ?t @ dropWhile (\<lambda>c. c \<noteq> NL) (rev x)" by simp
  then have x: "x = rev (dropWhile (\<lambda>c. c \<noteq> NL) (rev x)) @ rev ?t" by (metis rev_append rev_rev_ident)
  then have "length (rev (dropWhile (\<lambda>c. c \<noteq> NL) (rev x))) = last_line_start x"
    unfolding last_line_start_def by (metis diff_add_inverse2 length_append length_rev)
  with x show ?thesis by (metis append_eq_conv_conj)
qed

lemma last_line_no_NL: "last_line_start x \<le> j \<Longrightarrow> j < length x \<Longrightarrow> x ! j \<noteq> NL"
proof -
  assume j: "last_line_start x \<le> j" "j < length x"
  let ?t = "takeWhile (\<lambda>c. c \<noteq> NL) (rev x)"
  have d: "drop (last_line_start x) x = rev ?t"
    using last_line_split [of x] last_line_start_le [of x] by (metis append_eq_conv_conj length_take min.absorb2)
  with j have "x ! j = rev ?t ! (j - last_line_start x)" "j - last_line_start x < length (rev ?t)"
    using last_line_start_le [of x] by (metis le_add_diff_inverse nth_drop) (metis d diff_less_mono j length_drop)
  then have "x ! j \<in> set ?t" by (metis nth_mem set_rev)
  then show ?thesis by (auto dest: set_takeWhileD)
qed

lemma last_line_NL: "0 < last_line_start x \<Longrightarrow> x ! (last_line_start x - 1) = NL"
proof -
  assume "0 < last_line_start x"
  let ?d = "dropWhile (\<lambda>c. c \<noteq> NL) (rev x)"
  have l: "length ?d = last_line_start x"
    by (simp add: last_line_start_def dropWhile_eq_drop)
  with \<open>0 < last_line_start x\<close> have "?d \<noteq> []" by (metis length_0_conv less_irrefl)
  then have "hd ?d = NL" using hd_dropWhile by blast
  moreover have "rev ?d = take (last_line_start x) x"
    by (simp add: dropWhile_eq_drop last_line_start_def rev_drop)
  ultimately have "last (take (last_line_start x) x) = NL" "take (last_line_start x) x \<noteq> []"
    using \<open>?d \<noteq> []\<close> by (metis last_rev, metis rev_is_Nil_conv)
  with last_line_start_le [of x] show ?thesis
    by (simp add: last_conv_nth min_absorb2)
qed

lemma last_line_unique:
  assumes "i \<le> length x" "i = 0 \<or> x ! (i - 1) = NL" "\<And>j. i \<le> j \<Longrightarrow> j < length x \<Longrightarrow> x ! j \<noteq> NL"
  shows "last_line_start x = i"
proof (rule antisym)
  show "last_line_start x \<le> i"
    using assms(1,3) last_line_NL [of x] last_line_start_le [of x]
    by (metis One_nat_def Suc_pred diff_le_self le_less_trans less_Suc_eq_le linorder_not_le not_gr_zero order_le_less)
  show "i \<le> last_line_start x"
  proof (rule ccontr)
    assume "\<not> i \<le> last_line_start x"
    then have "last_line_start x \<le> i - 1" "0 < i" by auto
    with last_line_no_NL [of x "i - 1"] assms(1,2) show False by auto
  qed
qed

lemma inject_le: "withInjectedNewline x at \<le> at"
  by (simp add: withInjectedNewline_def)

lemma hold_le: "holdFrom nonce bol x \<le> length x"
  using last_line_start_le [of x] by (auto simp: holdFrom_def Let_def)

lemma scan_meets_unique:
  assumes "scan_meets kind nonce bol x i r" "scan_meets kind nonce bol x i r'"
  shows "r = r'"
proof -
  have same: "a = b" if "least_live kind nonce bol x i a" "least_live kind nonce bol x i b" for a b
    using that unfolding least_live_def by (cases a b rule: linorder_cases) auto
  have none: False if "\<forall>j \<ge> i. \<not> live kind nonce bol x j" "least_live kind nonce bol x i a" for a
    using that unfolding least_live_def by blast
  show ?thesis
  proof (cases r)
    case No_sentinel
    then have q: "\<forall>j \<ge> i. \<not> live kind nonce bol x j" using assms(1) by (simp add: scan_meets_def)
    show ?thesis using assms(2) none [OF q] No_sentinel by (cases r') (auto simp: scan_meets_def)
  next
    case (Unfinished a)
    then have l: "least_live kind nonce bol x i a" "index_from [NL] x a = None"
      using assms(1) by (auto simp: scan_meets_def)
    show ?thesis
      using assms(2) none [OF _ l(1)] same [OF l(1)] l(2) Unfinished by (cases r') (auto simp: scan_meets_def)
  next
    case (Boundary a nl)
    then have l: "least_live kind nonce bol x i a" "index_from [NL] x a = Some nl"
      using assms(1) by (auto simp: scan_meets_def)
    show ?thesis
      using assms(2) none [OF _ l(1)] same [OF l(1)] l(2) Boundary by (cases r') (auto simp: scan_meets_def)
  qed
qed

lemma scan_unique:
  "NL \<notin> set nonce \<Longrightarrow> scan_meets kind nonce bol x 0 r \<Longrightarrow> scan_close kind nonce bol x 0 = r"
  using close_spec [of nonce 0 x kind bol] scan_meets_unique by simp

text \<open>Nothing emitted can turn into a boundary when more arrives.\<close>

lemma no_live_before_cut:
  assumes "NL \<notin> set nonce" "j < cut_of kind nonce x"
  shows "\<not> live kind nonce True (x @ d) j"
proof
  assume l: "live kind nonce True (x @ d) j"
  let ?s = "sentinelFor nonce"
  note sp = close_spec [OF assms(1), of 0 x kind True, simplified]
  have cut: "cut_of kind nonce x \<le> length x"
    using sp hold_le [of nonce True x]
    by (auto simp: cut_of_def scan_meets_def least_live_def live_def intro: order_trans [OF inject_le] split: scan.splits)
  have quiet: "\<not> live kind nonce True x j"
    using sp assms(2) inject_le [of x] unfolding cut_of_def scan_meets_def least_live_def
    by (auto split: scan.splits) (metis le_less_trans less_le_trans not_less)+
  have j: "j \<le> length x" "prefix ?s (drop j (x @ d))" "lineStartAt True x j"
    using l assms(2) cut less_le_trans [of "j - Suc 0" "cut_of kind nonce x" "length x"]
    by (auto simp: live_def lineStartAt_def nth_append split: if_splits)
  show False
  proof (cases "index_from [NL] x j")
    case (Some nl)
    with live_complete [OF assms(1) Some j(1)] l quiet show False by blast
  next
    case None
    then have no: "\<And>k. j \<le> k \<Longrightarrow> k < length x \<Longrightarrow> x ! k \<noteq> NL" using j(1) by (simp add: newline_None)
    then have lls: "last_line_start x = j"
      using j by (intro last_line_unique) (auto simp: lineStartAt_def split: if_splits)
    have short: "\<not> prefix ?s (drop j x)"
      using quiet None j by (auto simp: live_def)
    have tail: "prefix (drop j x) ?s"
      using j(1,2) short prefix_same_cases [of "drop j x" "drop j x @ d" ?s] by auto
    show False
    proof (cases "scan_close kind nonce True x 0")
      case No_sentinel
      have "cut_of kind nonce x \<le> j"
        using No_sentinel tail j(1) by (auto simp: cut_of_def holdFrom_def Let_def lls text_starts_iff)
      with assms(2) show False by simp
    next
      case (Unfinished at)
      with sp have at: "live kind nonce True x at" "index_from [NL] x at = None"
        by (auto simp: scan_meets_def least_live_def)
      then have "last_line_start x = at"
        by (intro last_line_unique) (auto simp: live_def newline_None lineStartAt_def split: if_splits)
      with lls at(1) quiet show False by simp
    next
      case (Boundary at nl)
      with sp have at: "at \<le> length x" "index_from [NL] x at = Some nl"
        by (auto simp: scan_meets_def least_live_def live_def)
      then have "at \<le> nl" "nl < length x" "x ! nl = NL" by (auto simp: newline_Some)
      moreover have "j < at" using Boundary assms(2) inject_le [of x at] by (simp add: cut_of_def)
      ultimately show False using no [of nl] by simp
    qed
  qed
qed

text \<open>Once a boundary is found it stays, whatever follows.\<close>

lemma boundary_stays:
  assumes "NL \<notin> set nonce" "scan_close kind nonce True x 0 = Boundary at nl"
  shows "scan_close kind nonce True (x @ d) 0 = Boundary at nl" "cut_of kind nonce (x @ d) = cut_of kind nonce x"
    "cut_of kind nonce x \<le> length x"
proof -
  have sp: "least_live kind nonce True x 0 at" "index_from [NL] x at = Some nl"
    using close_spec [OF assms(1), of 0 x kind True] assms(2) by (auto simp: scan_meets_def)
  then have at: "at \<le> length x" by (auto simp: least_live_def live_def)
  then have n: "at \<le> nl" "nl < length x" "x ! nl = NL" using sp(2) by (auto simp: newline_Some)
  have "\<not> live kind nonce True (x @ d) j" if jl: "j < at" for j
  proof -
    obtain m where "index_from [NL] x j = Some m"
      using jl at n newline_None [of j x] by (cases "index_from [NL] x j") auto
    with live_complete [OF assms(1) this] sp(1) jl at show ?thesis by (auto simp: least_live_def)
  qed
  moreover have "live kind nonce True (x @ d) at"
    using live_complete [OF assms(1) sp(2) at] sp(1) by (auto simp: least_live_def)
  ultimately have "scan_meets kind nonce True (x @ d) 0 (Boundary at nl)"
    using newline_append [OF sp(2) at] by (simp add: scan_meets_def least_live_def)
  then show b: "scan_close kind nonce True (x @ d) 0 = Boundary at nl"
    by (rule scan_unique [OF assms(1)])
  have "withInjectedNewline (x @ d) at = withInjectedNewline x at"
    using at by (auto simp: withInjectedNewline_def nth_append)
  then show "cut_of kind nonce (x @ d) = cut_of kind nonce x"
    by (simp add: cut_of_def assms(2) b)
  show "cut_of kind nonce x \<le> length x"
    using inject_le [of x at] at by (simp add: cut_of_def assms(2))
qed

subsection \<open>One push\<close>

text \<open>
  The filter after it has emitted \<open>e\<close>: emitted and held text make up the body, and the emitted part
  is the body's cut.
\<close>

definition filter_inv :: "stream_kind \<Rightarrow> utf16 \<Rightarrow> utf16 \<Rightarrow> stream_filter \<Rightarrow> bool" where
  "filter_inv kind nonce e f \<longleftrightarrow> sf_started f \<and> \<not> sf_done f \<and> sf_atLineStart f = (e = [] \<or> last e = NL)
     \<and> length e = cut_of kind nonce (e @ sf_buf f) \<and> (\<forall>at nl. scan_close kind nonce True (e @ sf_buf f) 0 \<noteq> Boundary at nl)"

fun shift_scan :: "nat \<Rightarrow> scan \<Rightarrow> scan" where
  "shift_scan n No_sentinel = No_sentinel"
| "shift_scan n (Unfinished at) = Unfinished (n + at)"
| "shift_scan n (Boundary at nl) = Boundary (n + at) (n + nl)"

text \<open>What the cut leaves to hold.\<close>

lemma hold_shape:
  assumes "x \<noteq> []" "0 < holdFrom nonce True x"
  shows "holdFrom nonce True x < length x \<and> x ! holdFrom nonce True x = NL
    \<or> holdFrom nonce True x = length x \<and> last_line_start x < length x
      \<and> \<not> prefix (drop (last_line_start x) x) (sentinelFor nonce)"
proof (cases "last_line_start x = length x")
  case True
  then have h: "holdFrom nonce True x = length x - 1" using assms(1) by (simp add: holdFrom_def)
  have "0 < last_line_start x" using True assms(1) by simp
  from last_line_NL [OF this] True h assms(1) show ?thesis by simp
next
  case False
  with last_line_start_le [of x] have l: "last_line_start x < length x" by simp
  show ?thesis
  proof (cases "prefix (drop (last_line_start x) x) (sentinelFor nonce)")
    case True
    with assms l have "0 < last_line_start x" "holdFrom nonce True x = last_line_start x - 1"
      by (auto simp: holdFrom_def Let_def text_starts_iff split: if_splits)
    with last_line_NL [of x] l show ?thesis by (simp add: less_imp_diff_less)
  next
    case False
    with assms(1) l have "holdFrom nonce True x = length x"
      by (simp add: holdFrom_def Let_def text_starts_iff)
    with l False show ?thesis by simp
  qed
qed

lemma held_shape:
  assumes "NL \<notin> set nonce" "filter_inv kind nonce e f" "e \<noteq> []"
  shows "sf_buf f \<noteq> [] \<and> hd (sf_buf f) = NL
    \<or> sf_buf f = [] \<and> last e \<noteq> NL \<and> \<not> prefix (drop (last_line_start e) e) (sentinelFor nonce)"
proof -
  let ?x = "e @ sf_buf f"
  have len: "length e = cut_of kind nonce ?x" and nb: "\<And>at nl. scan_close kind nonce True ?x 0 \<noteq> Boundary at nl"
    using assms(2) by (auto simp: filter_inv_def)
  have first: "sf_buf f \<noteq> [] \<and> hd (sf_buf f) = NL" if "length e < length ?x" "?x ! length e = NL"
    using that by (cases "sf_buf f") auto
  show ?thesis
  proof (cases "scan_close kind nonce True ?x 0")
    case (Unfinished at)
    then have l: "live kind nonce True ?x at"
      using close_spec [OF assms(1), of 0 ?x kind True] by (simp add: scan_meets_def least_live_def)
    then have at: "at \<le> length ?x" "at = 0 \<or> ?x ! (at - 1) = NL"
      by (simp_all add: live_def lineStartAt_def split: if_splits)
    have "length e = withInjectedNewline ?x at" using len Unfinished by (simp add: cut_of_def)
    with at assms(3) have "0 < at" "?x ! (at - 1) = NL" "length e = at - 1"
      by (auto simp: withInjectedNewline_def split: if_splits)
    with at(1) show ?thesis by (intro disjI1 first) auto
  next
    case No_sentinel
    then have h: "length e = holdFrom nonce True ?x" using len by (simp add: cut_of_def)
    with hold_shape [of ?x nonce] assms(3)
    have "length e < length ?x \<and> ?x ! length e = NL
      \<or> length e = length ?x \<and> last_line_start ?x < length ?x \<and> \<not> prefix (drop (last_line_start ?x) ?x) (sentinelFor nonce)"
      by (metis append_is_Nil_conv length_greater_0_conv)
    then show ?thesis
    proof
      assume "length e < length ?x \<and> ?x ! length e = NL"
      then show ?thesis by (intro disjI1 first) auto
    next
      assume a: "length e = length ?x \<and> last_line_start ?x < length ?x \<and> \<not> prefix (drop (last_line_start ?x) ?x) (sentinelFor nonce)"
      then have buf: "sf_buf f = []" by simp
      with a have "last_line_start e < length e" by simp
      then have "last_line_start e \<le> length e - 1" by arith
      with last_line_no_NL [of e "length e - 1"] assms(3) have "last e \<noteq> NL"
        by (simp add: last_conv_nth)
      with buf a show ?thesis by simp
    qed
  qed (use nb in blast)
qed

lemma last_line_start_append:
  "last_line_start (e @ x) = (if NL \<in> set x then length e + last_line_start x else last_line_start e)"
proof (cases "NL \<in> set x")
  case True
  then have "takeWhile (\<lambda>c. c \<noteq> NL) (rev x @ rev e) = takeWhile (\<lambda>c. c \<noteq> NL) (rev x)"
    by (intro takeWhile_append1) auto
  moreover have "length (takeWhile (\<lambda>c. c \<noteq> NL) (rev x)) \<le> length x"
    using length_takeWhile_le [of _ "rev x"] by simp
  ultimately show ?thesis using True by (simp add: last_line_start_def)
next
  case False
  then have "takeWhile (\<lambda>c. c \<noteq> NL) (rev x @ rev e) = rev x @ takeWhile (\<lambda>c. c \<noteq> NL) (rev e)"
    by (intro takeWhile_append2) auto
  with False show ?thesis by (simp add: last_line_start_def)
qed

lemma last_line_start_pos: "NL \<in> set x \<Longrightarrow> 0 < last_line_start x"
  by (metis in_set_conv_nth last_line_no_NL le0 neq0_conv)

lemma last_line_start_0: "NL \<notin> set x \<Longrightarrow> last_line_start x = 0"
  using last_line_NL [of x] last_line_start_le [of x]
  by (metis One_nat_def Suc_pred less_eq_Suc_le neq0_conv nth_mem)

lemma hold_split:
  assumes "NL \<notin> set nonce" "filter_inv kind nonce e f" "x = sf_buf f @ d" "d \<noteq> []"
  shows "holdFrom nonce True (e @ x) = length e + holdFrom nonce (sf_atLineStart f) x"
proof (cases "NL \<in> set x")
  case True
  with last_line_start_pos [OF True] assms(3,4) show ?thesis
    using last_line_start_le [of x] by (auto simp: holdFrom_def Let_def last_line_start_append)
next
  case False
  note l0 = last_line_start_0 [OF False]
  show ?thesis
  proof (cases "e = []")
    case True
    with assms(2) show ?thesis by (simp add: filter_inv_def)
  next
    case e: False
    with held_shape [OF assms(1,2) e] False assms(3)
    have s: "sf_buf f = []" "last e \<noteq> NL" "\<not> prefix (drop (last_line_start e) e) (sentinelFor nonce)"
      by (cases "sf_buf f"; auto)+
    then have bol: "\<not> sf_atLineStart f" using assms(2) e by (auto simp: filter_inv_def)
    have "drop (last_line_start e) (e @ x) = drop (last_line_start e) e @ x"
      using last_line_start_le [of e] by simp
    moreover have "\<not> prefix (drop (last_line_start e) e @ x) (sentinelFor nonce)"
      using s(3) append_prefixD by blast
    moreover have "\<not> length d \<le> last_line_start e - length e"
      using last_line_start_le [of e] assms(4) by simp
    ultimately show ?thesis
      using s e bol False assms(3,4) l0 by (simp add: holdFrom_def Let_def last_line_start_append text_starts_iff)
  qed
qed

lemma scan_split:
  assumes "NL \<notin> set nonce" "filter_inv kind nonce e f" "x = sf_buf f @ d"
  shows "scan_close kind nonce True (e @ x) 0 = shift_scan (length e) (scan_close kind nonce (sf_atLineStart f) x 0)"
proof (rule scan_unique [OF assms(1)])
  let ?bol = "sf_atLineStart f"
  have bol: "?bol = (e = [] \<or> last e = NL)" using assms(2) by (simp add: filter_inv_def)
  have early: "\<not> live kind nonce True (e @ x) j" if "j < length e" for j
    using no_live_before_cut [OF assms(1), of j kind "e @ sf_buf f" d] that assms(2,3) by (simp add: filter_inv_def)
  have late: "live kind nonce True (e @ x) j = live kind nonce ?bol x (j - length e)" if "length e \<le> j" for j
    using live_split [OF bol, of kind nonce x "j - length e"] that by simp
  have least: "least_live kind nonce True (e @ x) 0 (length e + at)" if "least_live kind nonce ?bol x 0 at" for at
  proof -
    have "\<not> live kind nonce True (e @ x) j" if "j < length e + at" for j
      using early [of j] late [of j] that \<open>least_live kind nonce ?bol x 0 at\<close>
      by (cases "j < length e") (auto simp: least_live_def)
    with that late [of "length e + at"] show ?thesis by (simp add: least_live_def)
  qed
  have "\<not> live kind nonce True (e @ x) j" if "\<forall>j. \<not> live kind nonce ?bol x j" for j
    using that early [of j] late [of j] by (cases "j < length e") auto
  then show "scan_meets kind nonce True (e @ x) 0 (shift_scan (length e) (scan_close kind nonce ?bol x 0))"
    using close_spec [OF assms(1), of 0 x kind ?bol] least
    by (cases "scan_close kind nonce ?bol x 0") (auto simp: scan_meets_def newline_split)
qed

lemma inject_split:
  assumes "NL \<notin> set nonce" "filter_inv kind nonce e f" "x = sf_buf f @ d"
    and "prefix (sentinelFor nonce) (drop at x)" "lineStartAt (sf_atLineStart f) x at" "at \<le> length x"
  shows "withInjectedNewline (e @ x) (length e + at) = length e + withInjectedNewline x at"
proof (cases "at = 0")
  case False
  then show ?thesis by (auto simp: withInjectedNewline_def nth_append Let_def)
next
  case True
  have "e = []"
  proof (rule ccontr)
    assume e: "e \<noteq> []"
    with True assms(2,5) have "last e = NL" by (auto simp: filter_inv_def lineStartAt_def)
    with held_shape [OF assms(1,2) e] assms(3) have "x \<noteq> []" "hd x = NL" by (cases "sf_buf f"; auto)+
    moreover have "hd (sentinelFor nonce) \<noteq> NL" by (simp add: sentinelFor_def units_def)
    ultimately show False
      using assms(4) True by (cases x; cases "sentinelFor nonce") auto
  qed
  with True show ?thesis by (simp add: withInjectedNewline_def)
qed

lemma cut_split:
  assumes "NL \<notin> set nonce" "filter_inv kind nonce e f" "x = sf_buf f @ d" "d \<noteq> []"
  shows "cut_of kind nonce (e @ x) = length e + (case scan_close kind nonce (sf_atLineStart f) x 0 of
      No_sentinel \<Rightarrow> holdFrom nonce (sf_atLineStart f) x
    | Unfinished at \<Rightarrow> withInjectedNewline x at | Boundary at nl \<Rightarrow> withInjectedNewline x at)"
  using scan_split [OF assms(1-3)] close_spec [OF assms(1), of 0 x kind "sf_atLineStart f"]
    hold_split [OF assms] inject_split [OF assms(1-3)]
  by (auto simp: cut_of_def scan_meets_def least_live_def live_def split: scan.splits)

lemma take_out_inv:
  assumes "n \<le> length (sf_buf f)" "sf_atLineStart f = (e = [] \<or> last e = NL)" "take_out n f = (out, f')"
  shows "out = take n (sf_buf f)" "sf_buf f' = drop n (sf_buf f)" "sf_started f' = sf_started f" "sf_done f' = sf_done f"
    "sf_atLineStart f' = (e @ out = [] \<or> last (e @ out) = NL)"
proof -
  show "out = take n (sf_buf f)" "sf_buf f' = drop n (sf_buf f)" "sf_started f' = sf_started f" "sf_done f' = sf_done f"
    using assms(3) by (auto simp: take_out_def Let_def split: if_splits)
  show "sf_atLineStart f' = (e @ out = [] \<or> last (e @ out) = NL)"
  proof (cases "n = 0")
    case True
    with assms(2,3) show ?thesis by (simp add: take_out_def)
  next
    case False
    with assms(1) have "take n (sf_buf f) \<noteq> []" by auto
    with False assms(3) show ?thesis by (auto simp: take_out_def Let_def)
  qed
qed

lemma push_started_step:
  assumes "NL \<notin> set nonce" "filter_inv kind nonce e f" "d \<noteq> []"
    and "push_started kind nonce (f\<lparr>sf_buf := sf_buf f @ d\<rparr>) = (out, f')"
  defines "x \<equiv> e @ sf_buf f @ d"
  shows "e @ out = take (cut_of kind nonce x) x"
    "(\<exists>at nl. scan_close kind nonce True x 0 = Boundary at nl) \<and> sf_done f'
     \<or> filter_inv kind nonce (e @ out) f' \<and> (e @ out) @ sf_buf f' = x"
proof -
  let ?X = "sf_buf f @ d" and ?f = "f\<lparr>sf_buf := sf_buf f @ d\<rparr>"
  note cut = cut_split [OF assms(1,2) refl assms(3)] and sc = scan_split [OF assms(1,2) refl, of d]
  have inv: "sf_started f" "\<not> sf_done f" "sf_atLineStart f = (e = [] \<or> last e = NL)"
    using assms(2) by (auto simp: filter_inv_def)
  have taken: "e @ out = take (cut_of kind nonce x) x \<and> filter_inv kind nonce (e @ out) f' \<and> (e @ out) @ sf_buf f' = x"
    if t: "take_out n ?f = (out, f')" and n: "cut_of kind nonce x = length e + n" "n \<le> length ?X"
      and nb: "\<And>at nl. scan_close kind nonce True x 0 \<noteq> Boundary at nl" for n
  proof -
    have q: "out = take n ?X" "sf_buf f' = drop n ?X" "sf_started f' = sf_started f" "sf_done f' = sf_done f"
        "sf_atLineStart f' = (e @ out = [] \<or> last (e @ out) = NL)"
      using take_out_inv [OF _ _ t, of e] n(2) inv(3) by (simp_all del: append_is_Nil_conv)
    have "(e @ out) @ sf_buf f' = x"
      by (simp only: q(1,2) x_def append_assoc append_take_drop_id)
    moreover have "length (e @ out) = cut_of kind nonce x" using q n by (simp add: min_absorb2)
    ultimately show ?thesis
      using q inv nb n by (auto simp: filter_inv_def x_def)
  qed
  show "e @ out = take (cut_of kind nonce x) x"
    "(\<exists>at nl. scan_close kind nonce True x 0 = Boundary at nl) \<and> sf_done f'
     \<or> filter_inv kind nonce (e @ out) f' \<and> (e @ out) @ sf_buf f' = x"
  proof -
    have "e @ out = take (cut_of kind nonce x) x \<and> ((\<exists>at nl. scan_close kind nonce True x 0 = Boundary at nl) \<and> sf_done f'
      \<or> filter_inv kind nonce (e @ out) f' \<and> (e @ out) @ sf_buf f' = x)"
    proof (cases "scan_close kind nonce (sf_atLineStart f) ?X 0")
      case No_sentinel
      have "take_out (holdFrom nonce (sf_atLineStart f) ?X) ?f = (out, f')"
        using No_sentinel assms(4) by (simp add: push_started_def)
      moreover have "cut_of kind nonce x = length e + holdFrom nonce (sf_atLineStart f) ?X"
        using No_sentinel cut by (simp add: x_def)
      moreover have "\<And>at nl. scan_close kind nonce True x 0 \<noteq> Boundary at nl"
        using No_sentinel sc by (simp add: x_def)
      ultimately show ?thesis using taken hold_le by blast
    next
      case (Unfinished at)
      then have "at \<le> length ?X"
        using close_spec [OF assms(1), of 0 ?X kind "sf_atLineStart f"] by (auto simp: scan_meets_def least_live_def live_def)
      then have "withInjectedNewline ?X at \<le> length ?X" using inject_le order_trans by blast
      moreover have "take_out (withInjectedNewline ?X at) ?f = (out, f')"
        using Unfinished assms(4) by (simp add: push_started_def)
      moreover have "cut_of kind nonce x = length e + withInjectedNewline ?X at"
        using Unfinished cut by (simp add: x_def)
      moreover have "\<And>at nl. scan_close kind nonce True x 0 \<noteq> Boundary at nl"
        using Unfinished sc by (simp add: x_def)
      ultimately show ?thesis using taken by blast
    next
      case (Boundary at nl)
      with assms(4) cut sc show ?thesis
        by (auto simp: push_started_def x_def)
    qed
    then show "e @ out = take (cut_of kind nonce x) x"
      "(\<exists>at nl. scan_close kind nonce True x 0 = Boundary at nl) \<and> sf_done f'
       \<or> filter_inv kind nonce (e @ out) f' \<and> (e @ out) @ sf_buf f' = x" by blast+
  qed
qed

subsection \<open>The opening sentinel\<close>

definition marks :: "utf16 \<Rightarrow> utf16 \<Rightarrow> nat \<Rightarrow> nat \<Rightarrow> bool" where
  "marks p x i nl \<longleftrightarrow> i \<le> length x \<and> prefix p (drop i x) \<and> lineStartAt True x i
     \<and> index_from [NL] x i = Some nl \<and> text_slice (i + length p) nl x = []"

lemma after_marker_spec:
  "NL \<notin> set p \<Longrightarrow> i \<le> length x \<Longrightarrow>
     (case afterMarkerLine x p i of
        None \<Rightarrow> \<forall>j nl. i \<le> j \<longrightarrow> \<not> marks p x j nl
      | Some n \<Rightarrow> \<exists>at nl. n = Suc nl \<and> i \<le> at \<and> marks p x at nl \<and> (\<forall>j m. i \<le> j \<and> j < at \<longrightarrow> \<not> marks p x j m))"
proof (induction x p i rule: afterMarkerLine.induct)
  case (1 x p i)
  show ?case
  proof (cases "index_from p x i")
    case None
    then have "\<not> marks p x j nl" if "i \<le> j" for j nl
      using that 1(3) by (auto simp: index_from_None marks_def)
    with None show ?thesis by (subst afterMarkerLine.simps) simp
  next
    case (Some at)
    then have a: "i \<le> at" "at \<le> length x" "prefix p (drop at x)" "\<And>j. i \<le> j \<Longrightarrow> j < at \<Longrightarrow> \<not> prefix p (drop j x)"
      using 1(3) by (auto simp: index_from_Some)
    have before: "\<not> marks p x j nl" if "i \<le> j" "j < at" for j nl
      using a(4) [OF that] by (simp add: marks_def)
    show ?thesis
    proof (cases "index_from [NL] x at")
      case None
      have "\<not> marks p x j nl" if "i \<le> j" for j nl
      proof (cases "j < at")
        case False
        with None a(2) have "j \<le> length x \<Longrightarrow> index_from [NL] x j = None" by (simp add: newline_None)
        then show ?thesis by (auto simp: marks_def)
      qed (use before that in blast)
      with None Some show ?thesis by (subst afterMarkerLine.simps) simp
    next
      case nl: (Some nl)
      then have n: "at \<le> nl" "nl < length x" "\<And>j. at \<le> j \<Longrightarrow> j < nl \<Longrightarrow> x ! j \<noteq> NL"
        using a(2) by (auto simp: newline_Some)
      show ?thesis
      proof (cases "lineStartAt True x at \<and> text_slice (at + length p) nl x = []")
        case True
        then have "marks p x at nl" using a nl by (simp add: marks_def)
        with Some nl True a(1) before show ?thesis by (subst afterMarkerLine.simps) auto
      next
        case m: False
        have skip: "\<not> marks p x j k" if j: "i \<le> j" "j < nl + 1" for j k
        proof (cases "j \<le> at")
          case True
          with before [of j] m nl j show ?thesis by (cases "j = at") (auto simp: marks_def)
        next
          case False
          then have "x ! (j - 1) \<noteq> NL" using n(3) [of "j - 1"] j by auto
          with False show ?thesis by (auto simp: marks_def lineStartAt_def)
        qed
        have "afterMarkerLine x p i = afterMarkerLine x p (nl + 1)"
          using Some nl m by (subst afterMarkerLine.simps) auto
        moreover note 1(1) [OF Some nl m 1(2)]
        moreover have "\<not> marks p x j k" if "i \<le> j" "nl + 1 \<le> j \<longrightarrow> \<not> marks p x j k" for j k
          using that skip by (cases "j < nl + 1") auto
        ultimately show ?thesis
          using n(1,2) a(1) by (auto split: option.splits) (metis le_trans le_SucI not_less_eq_eq less_le_not_le)
      qed
    qed
  qed
qed

lemma marks_complete:
  assumes "NL \<notin> set p" "index_from [NL] x i = Some nl" "i \<le> length x"
  shows "marks p (x @ d) i k = marks p x i k"
  using occurs_complete [OF assms, of d] line_complete [OF assms(2,3), of _ d] newline_append [OF assms(2,3), of d] assms(2,3)
  by (auto simp: marks_def)

lemma after_marker_least:
  assumes "NL \<notin> set p" "marks p x at nl" "\<And>j k. j < at \<Longrightarrow> \<not> marks p x j k"
  shows "afterMarkerLine x p 0 = Some (Suc nl)"
proof (cases "afterMarkerLine x p 0")
  case None
  with after_marker_spec [OF assms(1), of 0 x] assms(2) show ?thesis by auto
next
  case (Some n)
  with after_marker_spec [OF assms(1), of 0 x] obtain at2 nl2 where
    q: "n = Suc nl2" "marks p x at2 nl2" "\<forall>j k. j < at2 \<longrightarrow> \<not> marks p x j k" by auto
  with assms(2,3) have "at2 = at" by (cases at2 at rule: linorder_cases) auto
  with q(1,2) assms(2) Some show ?thesis by (simp add: marks_def)
qed

lemma after_marker_stays:
  assumes "NL \<notin> set p" "afterMarkerLine x p 0 = Some n"
  shows "afterMarkerLine (x @ d) p 0 = Some n" "n \<le> length x"
proof -
  obtain at nl where m: "n = Suc nl" "marks p x at nl" "\<forall>j k. j < at \<longrightarrow> \<not> marks p x j k"
    using after_marker_spec [OF assms(1), of 0 x] assms(2) by auto
  then have at: "at \<le> length x" "index_from [NL] x at = Some nl" by (auto simp: marks_def)
  then have n: "at \<le> nl" "nl < length x" "x ! nl = NL" by (auto simp: newline_Some)
  then show "n \<le> length x" by (simp add: m(1))
  have same: "marks p (x @ d) j k = marks p x j k" if j: "j \<le> at" for j k
  proof -
    obtain w where "index_from [NL] x j = Some w"
      using j at(1) n newline_None [of j x] by (cases "index_from [NL] x j") auto
    with marks_complete [OF assms(1) this] j at(1) show ?thesis by simp
  qed
  with m show "afterMarkerLine (x @ d) p 0 = Some n"
    using after_marker_least [OF assms(1), of "x @ d" at nl] by simp
qed

end
