(* ===== verification/ShellProperties.thy ===== *)
theory ShellProperties
  imports ShellFacts
begin

text \<open>
  What the framing promises: the filter emits, chunk by chunk, what the parser extracts from the
  whole stream, and the parser extracts what the command wrote.
\<close>

subsection \<open>Runs of pushes\<close>

lemma push_nil [simp]: "push kind nonce [] f = ([], f)"
  by (simp add: push_def)

lemma push_all_done: "sf_done f \<Longrightarrow> push_all kind nonce ds f = ([], f)"
  by (induction ds) (simp_all add: push_def)

definition closed :: "stream_kind \<Rightarrow> utf16 \<Rightarrow> utf16 \<Rightarrow> bool" where
  "closed kind nonce x \<longleftrightarrow> (\<exists>at nl. scan_close kind nonce True x 0 = Boundary at nl)"

lemma push_all_started:
  "NL \<notin> set nonce \<Longrightarrow> filter_inv kind nonce e f \<Longrightarrow> push_all kind nonce ds f = (out, f')
   \<Longrightarrow> X = e @ sf_buf f @ concat ds
   \<Longrightarrow> e @ out = take (cut_of kind nonce X) X \<and> sf_done f' = closed kind nonce X"
proof (induction ds arbitrary: e f out)
  case Nil
  then have "length e = cut_of kind nonce X" "\<not> sf_done f" "\<not> closed kind nonce X"
    by (auto simp: filter_inv_def closed_def)
  with Nil show ?case by (auto simp: append_eq_conv_conj)
next
  case (Cons d ds)
  obtain o1 f1 o2 where p: "push kind nonce d f = (o1, f1)" "push_all kind nonce ds f1 = (o2, f')" "out = o1 @ o2"
    using Cons.prems(3) by (auto split: prod.splits)
  show ?case
  proof (cases "d = []")
    case True
    with p Cons.IH [OF Cons.prems(1,2)] Cons.prems(4) show ?thesis by simp
  next
    case False
    let ?x = "e @ sf_buf f @ d"
    have X: "X = ?x @ concat ds" using Cons.prems(4) by simp
    have "push_started kind nonce (f\<lparr>sf_buf := sf_buf f @ d\<rparr>) = (o1, f1)"
      using p(1) False Cons.prems(2) by (simp add: push_def filter_inv_def)
    note step = push_started_step [OF Cons.prems(1,2) False this]
    from step(2) show ?thesis
    proof
      assume b: "(\<exists>at nl. scan_close kind nonce True ?x 0 = Boundary at nl) \<and> sf_done f1"
      then obtain at nl where at: "scan_close kind nonce True ?x 0 = Boundary at nl" by blast
      note st = boundary_stays(1,2) [OF Cons.prems(1) at, of "concat ds"] boundary_stays(3) [OF Cons.prems(1) at]
      have "o2 = []" "f' = f1" using push_all_done [of f1] b p(2) by auto
      then show ?thesis
        unfolding X st(2) closed_def using step(1) st(1,3) p(3) b by simp
    next
      assume "filter_inv kind nonce (e @ o1) f1 \<and> (e @ o1) @ sf_buf f1 = ?x"
      then show ?thesis
        using Cons.IH [OF Cons.prems(1) _ p(2), of "e @ o1"] p(3) X by (simp flip: append_assoc)
    qed
  qed
qed

text \<open>What a whole stream makes a filter emit.\<close>

definition emission :: "stream_kind \<Rightarrow> utf16 \<Rightarrow> utf16 \<Rightarrow> utf16" where
  "emission kind nonce x = (case afterMarkerLine x (beginFor nonce) 0 of None \<Rightarrow> []
     | Some start \<Rightarrow> take (cut_of kind nonce (drop start x)) (drop start x))"

definition complete :: "stream_kind \<Rightarrow> utf16 \<Rightarrow> utf16 \<Rightarrow> bool" where
  "complete kind nonce x = (case afterMarkerLine x (beginFor nonce) 0 of None \<Rightarrow> False
     | Some start \<Rightarrow> closed kind nonce (drop start x))"

lemma scan_nil [simp]: "scan_close kind nonce bol [] 0 = No_sentinel"
  by (subst scan_close.simps) (simp add: index_from_def)

lemma cut_nil [simp]: "cut_of kind nonce [] = 0"
  by (simp add: cut_of_def holdFrom_def)

lemma push_onto_empty:
  assumes "sf_started g" "\<not> sf_done g" "sf_buf g = []"
  shows "push kind nonce y g = push_started kind nonce (g\<lparr>sf_buf := y\<rparr>)"
proof (cases "y = []")
  case True
  with assms have "g\<lparr>sf_buf := y\<rparr> = g" by simp
  with True assms show ?thesis by (simp add: push_started_def holdFrom_def take_out_def)
next
  case False
  with assms show ?thesis by (simp add: push_def)
qed

lemma push_all_waiting:
  "NL \<notin> set nonce \<Longrightarrow> \<not> sf_started f \<Longrightarrow> \<not> sf_done f \<Longrightarrow> afterMarkerLine (sf_buf f) (beginFor nonce) 0 = None
   \<Longrightarrow> push_all kind nonce ds f = (out, f') \<Longrightarrow> X = sf_buf f @ concat ds
   \<Longrightarrow> out = emission kind nonce X \<and> sf_done f' = complete kind nonce X"
proof (induction ds arbitrary: f out)
  case Nil
  then show ?case by (auto simp: emission_def complete_def)
next
  case (Cons d ds)
  show ?case
  proof (cases "d = []")
    case True
    with Cons.IH [OF Cons.prems(1-4)] Cons.prems(5,6) show ?thesis by (auto split: prod.splits)
  next
    case d: False
    let ?P = "sf_buf f @ d"
    have X: "X = ?P @ concat ds" using Cons.prems(6) by simp
    show ?thesis
    proof (cases "afterMarkerLine ?P (beginFor nonce) 0")
      case None
      then have "push kind nonce d f = ([], f\<lparr>sf_buf := ?P\<rparr>)" using d Cons.prems(2,3) by (simp add: push_def)
      with Cons.prems(5) have "push_all kind nonce ds (f\<lparr>sf_buf := ?P\<rparr>) = (out, f')" by (auto split: prod.splits)
      with Cons.IH [of "f\<lparr>sf_buf := ?P\<rparr>"] Cons.prems(1-3) None X show ?thesis by simp
    next
      case (Some start)
      note st = after_marker_stays [OF sentinel_one_line(2) [OF Cons.prems(1)] Some]
      let ?g = "f\<lparr>sf_buf := [], sf_started := True, sf_atLineStart := True\<rparr>" and ?Y = "drop start ?P"
      have inv: "filter_inv kind nonce [] ?g" using Cons.prems(3) by (simp add: filter_inv_def)
      have same: "f\<lparr>sf_buf := ?Y, sf_started := True, sf_atLineStart := True\<rparr> = ?g\<lparr>sf_buf := ?Y\<rparr>" by simp
      have "push kind nonce d f = push_started kind nonce (?g\<lparr>sf_buf := ?Y\<rparr>)"
        using d Cons.prems(2,3) Some unfolding same [symmetric] by (simp add: push_def)
      also have "\<dots> = push kind nonce ?Y ?g"
        using Cons.prems(3) by (intro push_onto_empty [symmetric]) simp_all
      finally have "push_all kind nonce (?Y # ds) ?g = (out, f')" using Cons.prems(5) by simp
      from push_all_started [OF Cons.prems(1) inv this refl] show ?thesis
        unfolding X emission_def complete_def using st by simp
    qed
  qed
qed

lemma run_of_a_filter:
  assumes "NL \<notin> set nonce"
  shows "fst (push_all kind nonce ds new_filter) = emission kind nonce (concat ds)"
    "sf_done (snd (push_all kind nonce ds new_filter)) = complete kind nonce (concat ds)"
proof -
  have "afterMarkerLine [] (beginFor nonce) 0 = None"
    by (subst afterMarkerLine.simps) (simp add: index_from_def)
  with push_all_waiting [OF assms, of new_filter kind ds "fst (push_all kind nonce ds new_filter)"
      "snd (push_all kind nonce ds new_filter)" "concat ds"]
  show "fst (push_all kind nonce ds new_filter) = emission kind nonce (concat ds)"
    "sf_done (snd (push_all kind nonce ds new_filter)) = complete kind nonce (concat ds)"
    by (simp_all add: new_filter_def)
qed

subsection \<open>The parsers\<close>

lemma boundary_closes:
  assumes "NL \<notin> set nonce" "scan_close kind nonce True x 0 = Boundary at nl"
  shows "closingTailMatches kind (text_slice (at + length (sentinelFor nonce)) nl x)"
  using close_spec [OF assms(1), of 0 x kind True] assms(2) by (auto simp: scan_meets_def least_live_def live_def)

lemma parser_is_emission:
  assumes "NL \<notin> set nonce"
  shows "map_option fs_text (parseFramedStdout decode x nonce) = (if complete Out nonce x then Some (emission Out nonce x) else None)"
    "parseFramedStderr x nonce = (if complete Err nonce x then Some (emission Err nonce x) else None)"
  using boundary_closes [OF assms, of Out]
  by (fastforce simp: parseFramedStdout_def parseFramedStderr_def complete_def closed_def emission_def cut_of_def
      closingTailMatches_def Let_def split: option.splits scan.splits)+

text \<open>
  C15. The filter and the parsers agree.  However the stream of a command is cut into chunks, the
  filter is done exactly when the parser finds a frame in the whole stream, and has then emitted
  exactly the text the parser extracts; this holds of the standard output and of the error stream.
  The sentinel's nonce has no newline.
\<close>
theorem stream_emits_what_the_parser_extracts:
  assumes "NL \<notin> set nonce"
  shows "map_option fs_text (parseFramedStdout decode (concat ds) nonce) =
      (if sf_done (snd (push_all Out nonce ds new_filter)) then Some (fst (push_all Out nonce ds new_filter)) else None)
    \<and> parseFramedStderr (concat ds) nonce =
      (if sf_done (snd (push_all Err nonce ds new_filter)) then Some (fst (push_all Err nonce ds new_filter)) else None)"
  by (simp only: run_of_a_filter [OF assms] parser_is_emission [OF assms])

text \<open>
  Chunking does not matter: two cuttings of one stream make the filter emit the same text and
  see the boundary alike.
\<close>
theorem chunking_does_not_matter:
  assumes "NL \<notin> set nonce" "concat ds = concat es"
  shows "fst (push_all kind nonce ds new_filter) = fst (push_all kind nonce es new_filter)
    \<and> sf_done (snd (push_all kind nonce ds new_filter)) = sf_done (snd (push_all kind nonce es new_filter))"
  by (simp only: run_of_a_filter [OF assms(1)] assms(2))

subsection \<open>A framed stream\<close>

lemma newline_exists: "i \<le> length out \<Longrightarrow> \<exists>nl. index_from [NL] (out @ [NL]) i = Some nl"
  using newline_None [of i "out @ [NL]"] by (cases "index_from [NL] (out @ [NL]) i") auto

lemma newline_after: "NL \<notin> set line \<Longrightarrow> index_from [NL] (pre @ line @ [NL] @ d) (length pre) = Some (length pre + length line)"
  by (subst newline_Some) (auto simp: nth_append in_set_conv_nth)

text \<open>The opening marker is found after a banner that does not hold it.\<close>

lemma opening_found:
  assumes "NL \<notin> set p" "afterMarkerLine (banner @ [NL]) p 0 = None"
  shows "afterMarkerLine (banner @ [NL] @ p @ [NL] @ body) p 0 = Some (length (banner @ [NL] @ p @ [NL]))"
proof -
  let ?x = "(banner @ [NL]) @ p @ [NL] @ body"
  have "marks p ?x (length (banner @ [NL])) (length (banner @ [NL]) + length p)"
    unfolding marks_def using newline_after [OF assms(1), of "banner @ [NL]" body]
    by (simp add: lineStartAt_def text_slice_def nth_append)
  moreover have "\<not> marks p ?x j k" if j: "j < length (banner @ [NL])" for j k
  proof -
    obtain nl where "index_from [NL] (banner @ [NL]) j = Some nl"
      using newline_exists [of j banner] j by auto
    with marks_complete [OF assms(1) this] j after_marker_spec [OF assms(1), of 0 "banner @ [NL]"] assms(2)
    show ?thesis by simp
  qed
  ultimately have "afterMarkerLine ?x p 0 = Some (Suc (length (banner @ [NL]) + length p))"
    by (rule after_marker_least [OF assms(1)])
  then show ?thesis by simp
qed

text \<open>The closing sentinel is found after an output that does not close the frame itself.\<close>

lemma closing_found:
  assumes "NL \<notin> set nonce" "\<not> closed kind nonce (out @ [NL])" "closingTailMatches kind tail" "NL \<notin> set tail"
  shows "scan_close kind nonce True (out @ [NL] @ sentinelFor nonce @ tail @ [NL] @ rest) 0
    = Boundary (Suc (length out)) (Suc (length out) + length (sentinelFor nonce) + length tail)"
proof (rule scan_unique [OF assms(1)])
  let ?s = "sentinelFor nonce" and ?d = "sentinelFor nonce @ tail @ [NL] @ rest" and ?at = "Suc (length out)"
  let ?x = "(out @ [NL]) @ ?d"
  have nl: "index_from [NL] ?x ?at = Some (?at + length ?s + length tail)"
    using newline_after [of "?s @ tail" "out @ [NL]" rest] sentinel_one_line(1) [OF assms(1)] assms(4) by simp
  have "live kind nonce True ?x ?at"
    using nl assms(3) by (simp add: live_def lineStartAt_def nth_append text_slice_def)
  moreover have "\<not> live kind nonce True ?x j" if j: "j < ?at" for j
  proof -
    obtain k where k: "index_from [NL] (out @ [NL]) j = Some k" using newline_exists [of j out] j by auto
    have "scan_close kind nonce True (out @ [NL]) 0 \<noteq> Unfinished u" for u
    proof
      assume "scan_close kind nonce True (out @ [NL]) 0 = Unfinished u"
      with close_spec [OF assms(1), of 0 "out @ [NL]" kind True]
      have "u \<le> length (out @ [NL])" "prefix ?s (drop u (out @ [NL]))" "index_from [NL] (out @ [NL]) u = None"
        by (auto simp: scan_meets_def least_live_def live_def)
      with newline_exists [of u out] show False by (cases "u = ?at") auto
    qed
    then have "scan_close kind nonce True (out @ [NL]) 0 = No_sentinel"
      using assms(2) by (cases "scan_close kind nonce True (out @ [NL]) 0") (auto simp: closed_def)
    with close_spec [OF assms(1), of 0 "out @ [NL]" kind True] have "\<not> live kind nonce True (out @ [NL]) j"
      by (simp add: scan_meets_def)
    moreover have "j \<le> length (out @ [NL])" using j by simp
    ultimately show ?thesis using live_complete [OF assms(1) k, of kind True ?d] by blast
  qed
  ultimately show "scan_meets kind nonce True (out @ [NL] @ ?d) 0 (Boundary ?at (?at + length ?s + length tail))"
    using nl by (simp add: scan_meets_def least_live_def)
qed

lemma slice_middle: "text_slice (length a) (length a + length b) (a @ b @ c) = b"
  by (simp add: text_slice_def)

lemma closing_tail_parsed:
  assumes "code \<noteq> []" "list_all is_dec code" "list_all (\<lambda>c. \<not> is_space c) cwd"
  shows "closing_stdout_tail ([32] @ code @ [32] @ cwd) = Some (code, cwd)"
proof -
  have space: "\<not> is_dec 32" by (simp add: is_dec_def)
  then have "takeWhile is_dec (code @ 32 # cwd) = code" "dropWhile is_dec (code @ 32 # cwd) = 32 # cwd"
    using assms(2) by (auto simp: takeWhile_append dropWhile_append list_all_iff)
  with assms space show ?thesis by (simp add: closing_stdout_tail_def)
qed

text \<open>
  C35. The frame round trip.  A stream that consists of a login banner, the opening sentinel's line,
  the command's output and the closing sentinel's line with an exit code and a working directory,
  followed by anything, is parsed into that output, code and directory, whether or not the output
  ends in a newline, provided the banner does not hold the opening line and the output no closing one.
\<close>
theorem framed_output_is_recovered:
  assumes "NL \<notin> set nonce" "afterMarkerLine (banner @ [NL]) (beginFor nonce) 0 = None"
    and "\<not> closed Out nonce (out @ [NL])"
    and "code \<noteq> []" "list_all is_dec code" "list_all (\<lambda>c. \<not> is_space c) cwd"
  shows "parseFramedStdout decode
      (banner @ [NL] @ beginFor nonce @ [NL] @ out @ [NL] @ sentinelFor nonce @ [32] @ code @ [32] @ cwd @ [NL] @ rest) nonce
    = Some \<lparr>fs_text = out, fs_code = decimal_value code, fs_cwd = decode cwd\<rparr>"
proof -
  let ?tail = "[32] @ code @ [32] @ cwd"
  let ?body = "out @ [NL] @ sentinelFor nonce @ ?tail @ [NL] @ rest"
  note t = closing_tail_parsed [OF assms(4-6)]
  have "NL \<notin> set ?tail"
    using assms(5,6) by (auto simp: list_all_iff is_dec_def is_space_def)
  from closing_found [OF assms(1,3) _ this, of rest] t
  have scan: "scan_close Out nonce True ?body 0
      = Boundary (Suc (length out)) (Suc (length out) + length (sentinelFor nonce) + length ?tail)"
    by (simp add: closingTailMatches_def)
  have "text_slice (Suc (length out) + length (sentinelFor nonce)) (Suc (length out) + length (sentinelFor nonce) + length ?tail) ?body = ?tail"
    using slice_middle [of "out @ [NL] @ sentinelFor nonce" ?tail "[NL] @ rest"] by simp
  moreover have "take (withInjectedNewline ?body (Suc (length out))) ?body = out"
    by (simp add: withInjectedNewline_def nth_append)
  ultimately have "(let body = ?body in case scan_close Out nonce True body 0 of
      Boundary at nl \<Rightarrow> (case closing_stdout_tail (text_slice (at + length (sentinelFor nonce)) nl body) of
          Some (code, cwd) \<Rightarrow>
            Some \<lparr>fs_text = take (withInjectedNewline body at) body, fs_code = decimal_value code, fs_cwd = decode cwd\<rparr>
        | None \<Rightarrow> None)
    | _ \<Rightarrow> None) = Some \<lparr>fs_text = out, fs_code = decimal_value code, fs_cwd = decode cwd\<rparr>"
    using t by (simp only: Let_def scan scan.case option.case prod.case)
  moreover have "drop (length (banner @ [NL] @ beginFor nonce @ [NL])) (banner @ [NL] @ beginFor nonce @ [NL] @ ?body) = ?body"
    by simp
  ultimately show ?thesis
    using opening_found [OF sentinel_one_line(2) [OF assms(1)] assms(2), of ?body]
    by (simp only: parseFramedStdout_def option.case append_assoc Let_def)
qed

subsection \<open>Giving up\<close>

lemma push_all_preamble:
  "NL \<notin> set nonce \<Longrightarrow> \<not> sf_started f \<Longrightarrow> \<not> sf_done f
   \<Longrightarrow> afterMarkerLine (sf_buf f @ concat ds) (beginFor nonce) 0 = None
   \<Longrightarrow> snd (push_all kind nonce ds f) = f\<lparr>sf_buf := sf_buf f @ concat ds\<rparr>"
proof (induction ds arbitrary: f)
  case (Cons d ds)
  have "afterMarkerLine (sf_buf f @ d) (beginFor nonce) 0 = None"
    using after_marker_stays(1) [OF sentinel_one_line(2) [OF Cons.prems(1)], of "sf_buf f @ d" _ "concat ds"] Cons.prems(4)
    by (cases "afterMarkerLine (sf_buf f @ d) (beginFor nonce) 0") auto
  then have "push kind nonce d f = ([], f\<lparr>sf_buf := sf_buf f @ d\<rparr>)"
    using Cons.prems(2,3) by (cases "d = []") (simp_all add: push_def)
  with Cons.IH [of "f\<lparr>sf_buf := sf_buf f @ d\<rparr>"] Cons.prems show ?case by (simp split: prod.splits)
qed simp

lemma last_line_whole: "x \<noteq> [] \<Longrightarrow> last x = NL \<Longrightarrow> last_line_start x = length x"
  by (intro last_line_unique) (auto simp: last_conv_nth)

text \<open>
  Giving up leaks the login shell's text.  A filter that never saw the opening sentinel holds
  the preamble; flushing it, as is done when the command is cancelled or its deadline passes, emits
  that preamble, which is not the command's output.
\<close>
theorem flush_leaks_the_preamble:
  assumes "NL \<notin> set nonce" "afterMarkerLine (concat ds) (beginFor nonce) 0 = None"
    and "concat ds \<noteq> []" "last (concat ds) = NL"
  shows "fst (flush nonce (snd (push_all kind nonce ds new_filter))) = concat ds"
proof -
  have "snd (push_all kind nonce ds new_filter) = new_filter\<lparr>sf_buf := concat ds\<rparr>"
    using push_all_preamble [OF assms(1), of new_filter ds kind] assms(2) by (simp add: new_filter_def)
  then show ?thesis
    using assms(3,4) last_line_whole [of "concat ds"] by (simp add: flush_def new_filter_def Let_def del: concat_eq_Nil_conv)
qed

subsection \<open>Witnesses\<close>

definition demo_stream :: utf16 where
  "demo_stream = units ''hi'' @ [NL] @ beginFor (units ''n'') @ [NL] @ units ''ok'' @ [NL] @ sentinelFor (units ''n'') @ [NL]"

definition demo_out :: utf16 where
  "demo_out = units ''hi'' @ [NL] @ beginFor (units ''n'') @ [NL] @ units ''ok'' @ [NL] @ sentinelFor (units ''n'')
     @ [32] @ units ''7'' @ [32] @ units ''L3RtcA=='' @ [NL] @ []"

theorem stream_emits_what_the_parser_extracts_witness:
  "NL \<notin> set (units ''n'')
   \<and> parseFramedStderr (concat [take 20 demo_stream, drop 20 demo_stream]) (units ''n'') = Some (units ''ok'')
   \<and> fst (push_all Err (units ''n'') [take 20 demo_stream, drop 20 demo_stream] new_filter) = units ''ok''"
  using stream_emits_what_the_parser_extracts [of "units ''n''" id "[take 20 demo_stream, drop 20 demo_stream]"]
  by code_simp

theorem chunking_does_not_matter_witness:
  "fst (push_all Err (units ''n'') [take 20 demo_stream, drop 20 demo_stream] new_filter)
     = fst (push_all Err (units ''n'') [take 21 demo_stream, drop 21 demo_stream] new_filter)"
  using chunking_does_not_matter [of "units ''n''" "[take 20 demo_stream, drop 20 demo_stream]"
      "[take 21 demo_stream, drop 21 demo_stream]" Err] by (simp add: units_def)

lemma demo_out_ready:
  "afterMarkerLine (units ''hi'' @ [NL]) (beginFor (units ''n'')) 0 = None"
  "scan_close Out (units ''n'') True (units ''ok'' @ [NL]) 0 = No_sentinel"
  by code_simp+

lemma demo_code: "list_all is_dec (units ''7'')" "list_all (\<lambda>c. \<not> is_space c) (units ''L3RtcA=='')" "decimal_value (units ''7'') = 7"
  by (simp_all add: units_def is_dec_def decimal_value_def is_space_def)

theorem framed_output_is_recovered_witness:
  "parseFramedStdout id demo_out (units ''n'') = Some \<lparr>fs_text = units ''ok'', fs_code = 7, fs_cwd = units ''L3RtcA==''\<rparr>"
  using framed_output_is_recovered [OF _ demo_out_ready(1), of "units ''ok''" "units ''7''" "units ''L3RtcA==''" id "[]"]
    demo_out_ready(2) demo_code
  by (simp add: demo_out_def closed_def units_def)

theorem flush_leaks_the_preamble_witness:
  "fst (flush (units ''n'') (snd (push_all Out (units ''n'') [units ''motd'' @ [NL]] new_filter))) = units ''motd'' @ [NL]"
proof -
  have "NL \<notin> set (units ''n'')" "afterMarkerLine (concat [units ''motd'' @ [NL]]) (beginFor (units ''n'')) 0 = None" by code_simp+
  then show ?thesis
    using flush_leaks_the_preamble [of "units ''n''" "[units ''motd'' @ [NL]]" Out] by simp
qed

end
