(* ===== verification/DiffPaging.thy ===== *)
theory DiffPaging
  imports SessionStore WakeStub
begin

text \<open>
  The pages of a diff, \<open>src/mcp/diffPaging.ts\<close> with \<open>utf8Prefix\<close> of \<open>src/mcp/content.ts\<close>: the cap on
  a side list, the index of a diff's lines, and the pager.  A line is a text of UTF-16 code units;
  lengths in bytes are those of its UTF-8 encoding, in which a lone surrogate is written as U+FFFD.
  An index of \<open>-1\<close> is \<open>None\<close>.
\<close>

subsection \<open>Bytes\<close>

text \<open>The bytes of one code point and of a text, \<open>Buffer.byteLength\<close>.\<close>

fun point_bytes :: "utf16 \<Rightarrow> nat" where
  "point_bytes [c] = (if c < 128 then 1 else if c < 2048 then 2 else 3)"
| "point_bytes _ = 4"

definition byteLength :: "utf16 \<Rightarrow> nat" where
  "byteLength x = sum_list (map point_bytes (code_points x))"

text \<open>A code point that went through UTF-8.\<close>

fun well_formed :: "utf16 \<Rightarrow> utf16" where
  "well_formed [c] = (if 55296 \<le> c \<and> c \<le> 57343 then [65533] else [c])"
| "well_formed p = p"

fun fitting :: "nat \<Rightarrow> utf16 list \<Rightarrow> utf16 list" where
  "fitting n [] = []"
| "fitting n (p # ps) = (if point_bytes p \<le> n then p # fitting (n - point_bytes p) ps else [])"

definition utf8Prefix :: "utf16 \<Rightarrow> int \<Rightarrow> utf16" where
  "utf8Prefix s maxBytes =
     (if int (byteLength s) \<le> maxBytes then s
      else concat (map well_formed (fitting (nat maxBytes) (code_points s))))"

subsection \<open>Capped lists\<close>

record capped_list =
  cl_kept :: "json list"
  cl_total :: nat
  cl_truncated :: bool

text \<open>The loop: how many more items fit, with the characters used and whether a comma is due.\<close>

fun fit_count :: "int \<Rightarrow> int \<Rightarrow> bool \<Rightarrow> json list \<Rightarrow> nat" where
  "fit_count maxChars used comma [] = 0"
| "fit_count maxChars used comma (x # xs) =
     (let add = int (length (stringify x)) + (if comma then 1 else 0) in
      if used + add > maxChars then 0 else Suc (fit_count maxChars (used + add) True xs))"

definition capPathList :: "json list \<Rightarrow> int \<Rightarrow> capped_list" where
  "capPathList items maxChars =
     (let n = fit_count maxChars 2 False items in
      \<lparr>cl_kept = (if n = length items then items else take n items), cl_total = length items,
       cl_truncated = (n < length items)\<rparr>)"

subsection \<open>The index of a diff\<close>

record diff_file =
  df_path :: "utf16 option"
  df_start :: nat
  df_preEnd :: nat
  df_sawHunk :: bool

record diff_index =
  di_fileOf :: "nat option list"
  di_hunkAt :: "nat option list"
  di_files :: "diff_file list"

definition is_file_line :: "utf16 \<Rightarrow> bool" where
  "is_file_line l = text_starts l (units ''diff --git '')"

definition is_hunk_line :: "utf16 \<Rightarrow> bool" where
  "is_hunk_line l = text_starts l (units ''@@ '')"

text \<open>
  The pattern \<open>/^diff --git a\/(.+) b\/(.+)$/\<close>: the second group begins after the last separator
  with something on either side; the dot matches no line terminator.
\<close>

fun after_last_b :: "utf16 \<Rightarrow> utf16 option" where
  "after_last_b [] = None"
| "after_last_b (c # cs) =
     (case after_last_b cs of Some p \<Rightarrow> Some p
      | None \<Rightarrow> if text_starts cs (units '' b/'') \<and> drop 3 cs \<noteq> [] then Some (drop 3 cs) else None)"

definition diff_path :: "utf16 \<Rightarrow> utf16 option" where
  "diff_path l =
     (if text_starts l (units ''diff --git a/'') \<and> list_all (\<lambda>c. c \<notin> {10, 13, 8232, 8233}) l
      then after_last_b (drop (length (units ''diff --git a/'')) l) else None)"

text \<open>The nearest hunk header before line \<open>i\<close> in a file that starts at line \<open>s\<close>.\<close>

definition last_hunk :: "utf16 list \<Rightarrow> nat \<Rightarrow> nat \<Rightarrow> nat option" where
  "last_hunk lines s i = List.find (\<lambda>j. is_hunk_line (lines ! j)) (rev [s..<i])"

definition index_line :: "utf16 list \<Rightarrow> nat \<Rightarrow> diff_index \<Rightarrow> diff_index" where
  "index_line lines i idx =
     (let line = lines ! i;
          files = (if is_file_line line
            then di_files idx @ [\<lparr>df_path = diff_path line, df_start = i, df_preEnd = i + 1, df_sawHunk = False\<rparr>]
            else di_files idx) in
      if files = [] then idx\<lparr>di_fileOf := di_fileOf idx @ [None], di_hunkAt := di_hunkAt idx @ [None]\<rparr>
      else
        let cur = last files; fileOf = di_fileOf idx @ [Some (length files - 1)] in
        if is_hunk_line line then
          \<lparr>di_fileOf = fileOf, di_hunkAt = di_hunkAt idx @ [Some i], di_files = butlast files @ [cur\<lparr>df_sawHunk := True\<rparr>]\<rparr>
        else if \<not> df_sawHunk cur then
          \<lparr>di_fileOf = fileOf, di_hunkAt = di_hunkAt idx @ [None], di_files = butlast files @ [cur\<lparr>df_preEnd := i + 1\<rparr>]\<rparr>
        else
          \<lparr>di_fileOf = fileOf, di_hunkAt = di_hunkAt idx @ [last_hunk lines (df_start cur) i], di_files = files\<rparr>)"

definition indexDiffLines :: "utf16 list \<Rightarrow> diff_index" where
  "indexDiffLines lines =
     fold (index_line lines) [0..<length lines] \<lparr>di_fileOf = [], di_hunkAt = [], di_files = []\<rparr>"

subsection \<open>The pager\<close>

record diff_page =
  dp_diff :: utf16
  dp_cutoff :: nat
  dp_prefixLines :: "utf16 list"
  dp_lineTruncated :: bool

text \<open>The headers a page that starts inside a file repeats.\<close>

definition prefix_lines :: "utf16 list \<Rightarrow> nat \<Rightarrow> diff_index \<Rightarrow> utf16 list" where
  "prefix_lines lines offset idx =
     (case di_fileOf idx ! offset of None \<Rightarrow> []
      | Some fi \<Rightarrow>
          let f = di_files idx ! fi in
          if 0 < offset \<and> offset \<noteq> df_start f then
            map ((!) lines) [df_start f..<df_preEnd f]
            @ (case di_hunkAt idx ! offset of None \<Rightarrow> [] | Some h \<Rightarrow> if h \<noteq> offset then [lines ! h] else [])
          else [])"

definition lines_bytes :: "utf16 list \<Rightarrow> int" where
  "lines_bytes ls = sum_list (map (\<lambda>l. int (byteLength l) + 1) ls)"

text \<open>The loop that fills a page.\<close>

function fill_page :: "utf16 list \<Rightarrow> nat \<Rightarrow> int \<Rightarrow> int \<Rightarrow> nat \<Rightarrow> nat" where
  "fill_page lines offset cap bytes cutoff =
     (if cutoff < length lines then
        let lineBytes = int (byteLength (lines ! cutoff)) + 1 in
        if bytes + lineBytes > cap \<and> cutoff > offset then cutoff
        else if bytes + lineBytes \<ge> cap \<and> cutoff + 1 > offset then cutoff + 1
        else fill_page lines offset cap (bytes + lineBytes) (cutoff + 1)
      else cutoff)"
  by pat_completeness auto
termination by (relation "measure (\<lambda>(lines, offset, cap, bytes, cutoff). length lines - cutoff)") auto

declare fill_page.simps [simp del]

definition snap_hunk :: "utf16 list \<Rightarrow> nat \<Rightarrow> nat \<Rightarrow> nat" where
  "snap_hunk lines offset cutoff =
     (if cutoff < length lines \<and> cutoff - offset > 1 then
        let window = max 1 ((cutoff - offset) div 10) in
        (case List.find (\<lambda>j. is_hunk_line (lines ! j) \<or> is_file_line (lines ! j))
            (rev [max (cutoff - window) (offset + 1)..<cutoff]) of
           None \<Rightarrow> cutoff | Some j \<Rightarrow> j)
      else cutoff)"

definition cut_marker :: "nat \<Rightarrow> utf16" where
  "cut_marker n = units '' '' @ ELLIPSIS @ units '' [line cut: '' @ decimal n @ units '' bytes]''"

definition paginateDiff :: "utf16 list \<Rightarrow> nat \<Rightarrow> int \<Rightarrow> diff_index \<Rightarrow> diff_page" where
  "paginateDiff lines offset cap idx =
     (if offset \<ge> length lines
      then \<lparr>dp_diff = [], dp_cutoff = length lines, dp_prefixLines = [], dp_lineTruncated = False\<rparr>
      else
        let prefixLines = prefix_lines lines offset idx; bytes = lines_bytes prefixLines;
            firstBytes = int (byteLength (lines ! offset)) + 1 in
        if bytes + firstBytes > cap then
          let marker = cut_marker (byteLength (lines ! offset));
              cut = utf8Prefix (lines ! offset) (max 0 (cap - bytes - 1 - int (byteLength marker))) @ marker in
          \<lparr>dp_diff = text_join [NL] (prefixLines @ [cut]), dp_cutoff = offset + 1,
           dp_prefixLines = prefixLines, dp_lineTruncated = True\<rparr>
        else
          let cutoff = snap_hunk lines offset (fill_page lines offset cap bytes offset);
              body = drop offset (take cutoff lines) in
          \<lparr>dp_diff = text_join [NL] (prefixLines @ body), dp_cutoff = cutoff,
           dp_prefixLines = prefixLines, dp_lineTruncated = False\<rparr>)"

end
