(* ===== verification/DiffFacts.thy ===== *)
theory DiffFacts
  imports DiffPaging ShellFacts
begin

text \<open>
  What the pager promises: a client that follows \<open>nextOffset\<close> gets every line once and stops, a page
  stays inside its budget, and the headers a page repeats are those of the file and hunk its first
  line is in.
\<close>

subsection \<open>Bytes\<close>

lemma point_bytes_pos [simp]: "0 < point_bytes p"
  by (induction p rule: point_bytes.induct) auto

lemma code_points_concat [simp]: "concat (code_points x) = x"
  by (induction x rule: code_points.induct) auto

text \<open>A code point is one unit, or a surrogate pair.\<close>

lemma code_points_shape: "p \<in> set (code_points x) \<Longrightarrow> (\<exists>c. p = [c]) \<or> (\<exists>c d. p = [c, d])"
  by (induction x rule: code_points.induct) (auto split: if_splits)

lemma bytes_bound_units: "length x \<le> byteLength x"
proof -
  have "length p \<le> point_bytes p" if "p \<in> set (code_points x)" for p
    using code_points_shape [OF that] by auto
  then have "sum_list (map length (code_points x)) \<le> sum_list (map point_bytes (code_points x))"
    by (intro sum_list_mono) auto
  then show ?thesis
    by (metis byteLength_def code_points_concat length_concat)
qed

text \<open>Text splits into code points wherever no surrogate pair is cut.\<close>

lemma code_points_append:
  "d = [] \<or> hd d < 56320 \<or> 57343 < hd d \<Longrightarrow> code_points (x @ d) = code_points x @ code_points d"
proof (induction x rule: code_points.induct)
  case (2 c)
  then show ?case by (cases d) auto
qed auto

lemma byteLength_append:
  "d = [] \<or> hd d < 56320 \<or> 57343 < hd d \<Longrightarrow> byteLength (x @ d) = byteLength x + byteLength d"
  by (simp add: byteLength_def code_points_append)

lemma byteLength_Nil [simp]: "byteLength [] = 0"
  by (simp add: byteLength_def)

lemma byteLength_NL: "byteLength (NL # x) = 1 + byteLength x"
  by (cases x) (auto simp: byteLength_def)

lemma lines_bytes_simps [simp]:
  "lines_bytes [] = 0" "lines_bytes (l # ls) = int (byteLength l) + 1 + lines_bytes ls"
  "lines_bytes (ls @ ms) = lines_bytes ls + lines_bytes ms"
  by (simp_all add: lines_bytes_def)

lemma lines_bytes_nonneg [simp]: "0 \<le> lines_bytes ls"
  by (induction ls) auto

text \<open>A joined page is one byte shorter than its lines with their newlines.\<close>

lemma join_bytes: "ls \<noteq> [] \<Longrightarrow> int (byteLength (text_join [NL] ls)) = lines_bytes ls - 1"
proof (induction "[NL] :: utf16" ls rule: text_join.induct)
  case (3 x y xs)
  then show ?case
    by (simp add: byteLength_append byteLength_NL)
qed auto

lemma fitting_bytes: "sum_list (map point_bytes (fitting n ps)) \<le> n"
proof (induction n ps rule: fitting.induct)
  case (2 n p ps)
  then show ?case by (cases "point_bytes p \<le> n") auto
qed simp

lemma fitting_prefix: "\<exists>k. fitting n ps = take k ps"
proof (induction n ps rule: fitting.induct)
  case (2 n p ps)
  then show ?case
    by (cases "point_bytes p \<le> n") (auto intro: exI [of _ 0] exI [of _ "Suc k" for k])
qed simp

text \<open>The cut prefix of a line keeps to its budget.\<close>

definition genuine :: "utf16 \<Rightarrow> bool" where
  "genuine p \<longleftrightarrow> (\<exists>c. p = [c]) \<or> (\<exists>c d. p = [c, d] \<and> 55296 \<le> c \<and> c \<le> 56319 \<and> 56320 \<le> d \<and> d \<le> 57343)"

lemma code_points_genuine: "p \<in> set (code_points x) \<Longrightarrow> genuine p"
  by (induction x rule: code_points.induct) (auto simp: genuine_def split: if_splits)

lemma code_points_single: "c < 55296 \<or> 57343 < c \<Longrightarrow> code_points (c # r) = [c] # code_points r"
  by (cases r) auto

lemma well_formed_points:
  "\<forall>p \<in> set ps. genuine p \<Longrightarrow> code_points (concat (map well_formed ps)) = map well_formed ps"
proof (induction ps)
  case (Cons p ps)
  let ?rest = "concat (map well_formed ps)"
  have "code_points (well_formed p @ ?rest) = well_formed p # code_points ?rest"
    using Cons.prems code_points_single [of _ "?rest"] by (auto simp: genuine_def)
  with Cons show ?case by simp
qed simp

lemma well_formed_bytes: "genuine p \<Longrightarrow> point_bytes (well_formed p) = point_bytes p"
  by (auto simp: genuine_def)

lemma utf8Prefix_bytes: "int (byteLength (utf8Prefix s m)) \<le> max 0 m"
proof (cases "int (byteLength s) \<le> m")
  case True
  then show ?thesis by (simp add: utf8Prefix_def)
next
  case False
  let ?ps = "fitting (nat m) (code_points s)"
  obtain k where "?ps = take k (code_points s)" using fitting_prefix by blast
  then have g: "genuine p" if "p \<in> set ?ps" for p
    using that code_points_genuine in_set_takeD by metis
  then have "byteLength (concat (map well_formed ?ps)) = sum_list (map point_bytes ?ps)"
    using well_formed_points [of ?ps] well_formed_bytes by (simp add: byteLength_def comp_def cong: map_cong)
  also have "\<dots> \<le> nat m" by (rule fitting_bytes)
  finally show ?thesis using False by (simp add: utf8Prefix_def)
qed

subsection \<open>One page\<close>

lemma fill_page_spec:
  "offset \<le> cutoff \<Longrightarrow> cutoff < length lines \<Longrightarrow> bytes \<le> cap
   \<Longrightarrow> (cutoff = offset \<Longrightarrow> bytes + int (byteLength (lines ! cutoff)) + 1 \<le> cap)
   \<Longrightarrow> fill_page lines offset cap bytes cutoff = c
   \<Longrightarrow> cutoff \<le> c \<and> offset < c \<and> c \<le> length lines \<and> bytes + lines_bytes (drop cutoff (take c lines)) \<le> cap"
proof (induction lines offset cap bytes cutoff arbitrary: c rule: fill_page.induct)
  case (1 lines offset cap bytes cutoff)
  let ?lb = "int (byteLength (lines ! cutoff)) + 1"
  have one: "lines_bytes (drop cutoff (take (Suc cutoff) lines)) = ?lb"
    using 1(3) by (simp add: take_Suc_conv_app_nth)
  consider (full) "bytes + ?lb > cap \<and> cutoff > offset"
    | (last) "\<not> (bytes + ?lb > cap \<and> cutoff > offset)" "bytes + ?lb \<ge> cap"
    | (more) "\<not> (bytes + ?lb > cap \<and> cutoff > offset)" "\<not> bytes + ?lb \<ge> cap" by blast
  then show ?case
  proof cases
    case full
    with 1(3,6) have "c = cutoff" by (subst (asm) (1) fill_page.simps) (simp add: Let_def)
    with full 1(3,4) show ?thesis by simp
  next
    case last
    have "c = Suc cutoff"
      using last 1(2,3,6) by (subst (asm) (1) fill_page.simps) (auto simp: Let_def)
    moreover have "bytes + ?lb \<le> cap" using last(1) 1(2,5) by (cases "cutoff = offset") auto
    ultimately show ?thesis using one 1(2,3) by simp
  next
    case more
    have c: "fill_page lines offset cap (bytes + ?lb) (cutoff + 1) = c"
      using more 1(2,3,6) by (subst (asm) (1) fill_page.simps) (auto simp: Let_def)
    show ?thesis
    proof (cases "Suc cutoff < length lines")
      case True
      from 1(1) [OF 1(3) refl more(1)] c True more(2) 1(2)
      have ih: "Suc cutoff \<le> c \<and> offset < c \<and> c \<le> length lines \<and>
          (bytes + ?lb) + lines_bytes (drop (Suc cutoff) (take c lines)) \<le> cap" by simp
      moreover have "drop cutoff (take c lines) = lines ! cutoff # drop (Suc cutoff) (take c lines)"
        using ih by (subst Cons_nth_drop_Suc [symmetric]) auto
      ultimately show ?thesis by simp
    next
      case False
      with c 1(3) have "c = Suc cutoff" by (simp add: fill_page.simps)
      with one more(2) 1(2,3) show ?thesis by simp
    qed
  qed
qed

lemma snap_hunk_spec:
  assumes "offset < c" "c \<le> length lines"
  shows "offset < snap_hunk lines offset c \<and> snap_hunk lines offset c \<le> c"
  using assms by (auto simp: snap_hunk_def Let_def split: option.splits dest!: find_SomeD)

text \<open>What a page serves.\<close>

definition page_body :: "utf16 list \<Rightarrow> nat \<Rightarrow> diff_page \<Rightarrow> utf16 list" where
  "page_body lines offset p = drop offset (take (dp_cutoff p) lines)"

lemma page_cases:
  assumes "offset < length lines" "p = paginateDiff lines offset cap idx"
  obtains (cut) n where "dp_lineTruncated p" "dp_cutoff p = Suc offset"
      "dp_diff p = text_join [NL] (prefix_lines lines offset idx @ [utf8Prefix (lines ! offset) n @ cut_marker (byteLength (lines ! offset))])"
      "n = max 0 (cap - lines_bytes (prefix_lines lines offset idx) - 1 - int (byteLength (cut_marker (byteLength (lines ! offset)))))"
    | (whole) "\<not> dp_lineTruncated p" "offset < dp_cutoff p" "dp_cutoff p \<le> length lines"
      "dp_diff p = text_join [NL] (prefix_lines lines offset idx @ page_body lines offset p)"
      "lines_bytes (prefix_lines lines offset idx) + lines_bytes (page_body lines offset p) \<le> cap"
proof (cases "lines_bytes (prefix_lines lines offset idx) + (int (byteLength (lines ! offset)) + 1) > cap")
  case True
  with assms show ?thesis by (intro cut) (simp_all add: paginateDiff_def Let_def)
next
  case False
  let ?c = "fill_page lines offset cap (lines_bytes (prefix_lines lines offset idx)) offset"
  have c: "offset < ?c" "?c \<le> length lines"
      "lines_bytes (prefix_lines lines offset idx) + lines_bytes (drop offset (take ?c lines)) \<le> cap"
    using fill_page_spec [of offset offset lines "lines_bytes (prefix_lines lines offset idx)" cap ?c] False assms(1) by auto
  note s = snap_hunk_spec [OF c(1,2)]
  have "take ?c lines = take (snap_hunk lines offset ?c) lines @ drop (snap_hunk lines offset ?c) (take ?c lines)"
    using s by (metis append_take_drop_id min.absorb1 take_take)
  moreover have "offset \<le> length (take (snap_hunk lines offset ?c) lines)" using s c(2) by simp
  ultimately have "lines_bytes (drop offset (take ?c lines))
      = lines_bytes (drop offset (take (snap_hunk lines offset ?c) lines)) + lines_bytes (drop (snap_hunk lines offset ?c) (take ?c lines))"
    by (metis append_Nil diff_is_0_eq drop_0 drop_append lines_bytes_simps(3))
  then have "lines_bytes (drop offset (take (snap_hunk lines offset ?c) lines)) \<le> lines_bytes (drop offset (take ?c lines))"
    by simp
  with c s False assms show ?thesis
    by (intro whole) (simp_all add: paginateDiff_def page_body_def Let_def)
qed

lemma page_progress:
  "offset < length lines \<Longrightarrow> offset < dp_cutoff (paginateDiff lines offset cap idx)
    \<and> dp_cutoff (paginateDiff lines offset cap idx) \<le> length lines"
  by (rule page_cases [of offset lines _ cap idx, OF _ refl]) auto

end
