(* ===== verification/DiffIndex.thy ===== *)
theory DiffIndex
  imports DiffFacts
begin

text \<open>
  The index is right: every line is filed under the last file header at or before it and the last
  hunk header of that file, and a file's preamble ends where its first hunk or the next file begins.
\<close>

subsection \<open>The reference\<close>

definition file_starts :: "utf16 list \<Rightarrow> nat \<Rightarrow> nat list" where
  "file_starts lines n = filter (\<lambda>j. is_file_line (lines ! j)) [0..<n]"

definition last_file :: "utf16 list \<Rightarrow> nat \<Rightarrow> nat option" where
  "last_file lines n = (if file_starts lines n = [] then None else Some (last (file_starts lines n)))"

definition plain_line :: "utf16 \<Rightarrow> bool" where
  "plain_line l \<longleftrightarrow> \<not> is_hunk_line l \<and> \<not> is_file_line l"

text \<open>The preamble of the file at line \<open>s\<close> after its first line, among the first \<open>n\<close> lines.\<close>

definition preamble :: "utf16 list \<Rightarrow> nat \<Rightarrow> nat \<Rightarrow> utf16 list" where
  "preamble lines n s = takeWhile plain_line (drop (Suc s) (take n lines))"

definition hunk_follows :: "utf16 list \<Rightarrow> nat \<Rightarrow> nat \<Rightarrow> bool" where
  "hunk_follows lines n s \<longleftrightarrow> (let e = Suc s + length (preamble lines n s) in e < n \<and> is_hunk_line (lines ! e))"

definition file_entry :: "utf16 list \<Rightarrow> nat \<Rightarrow> nat \<Rightarrow> diff_file" where
  "file_entry lines n s = \<lparr>df_path = diff_path (lines ! s), df_start = s,
     df_preEnd = Suc s + length (preamble lines n s), df_sawHunk = hunk_follows lines n s\<rparr>"

definition filed_under :: "utf16 list \<Rightarrow> nat \<Rightarrow> nat option" where
  "filed_under lines i = (if file_starts lines (Suc i) = [] then None else Some (length (file_starts lines (Suc i)) - 1))"

definition hunk_of :: "utf16 list \<Rightarrow> nat \<Rightarrow> nat option" where
  "hunk_of lines i = (case last_file lines (Suc i) of None \<Rightarrow> None | Some s \<Rightarrow> last_hunk lines s (Suc i))"

definition reference_index :: "utf16 list \<Rightarrow> nat \<Rightarrow> diff_index" where
  "reference_index lines n = \<lparr>di_fileOf = map (filed_under lines) [0..<n], di_hunkAt = map (hunk_of lines) [0..<n],
     di_files = map (file_entry lines n) (file_starts lines n)\<rparr>"

subsection \<open>One more line\<close>

lemma file_starts_Suc:
  "file_starts lines (Suc n) = (if is_file_line (lines ! n) then file_starts lines n @ [n] else file_starts lines n)"
  by (simp add: file_starts_def)

lemma file_starts_mem: "s \<in> set (file_starts lines n) \<longleftrightarrow> s < n \<and> is_file_line (lines ! s)"
  by (auto simp: file_starts_def)

lemma file_not_hunk: "is_file_line l \<Longrightarrow> \<not> is_hunk_line l"
  by (cases l) (auto simp: is_file_line_def is_hunk_line_def units_def)

lemma takeWhile_snoc: "takeWhile P (xs @ [x]) = (if (\<forall>y \<in> set xs. P y) \<and> P x then xs @ [x] else takeWhile P xs)"
  by (induction xs) auto

lemma takeWhile_full: "length (takeWhile P xs) = length xs \<longleftrightarrow> (\<forall>x \<in> set xs. P x)"
  by (induction xs) auto

lemma preamble_Suc:
  assumes "s < n" "n < length lines"
  shows "preamble lines (Suc n) s =
     (if Suc s + length (preamble lines n s) = n \<and> plain_line (lines ! n) then preamble lines n s @ [lines ! n]
      else preamble lines n s)"
proof -
  define xs where "xs = drop (Suc s) (take n lines)"
  have len: "length xs = n - Suc s" using assms by (simp add: xs_def)
  have old: "preamble lines n s = takeWhile plain_line xs" by (simp add: preamble_def xs_def)
  have "drop (Suc s) (take (Suc n) lines) = xs @ [lines ! n]"
    using assms by (simp add: take_Suc_conv_app_nth xs_def)
  then have "preamble lines (Suc n) s = (if length (takeWhile plain_line xs) = length xs \<and> plain_line (lines ! n)
      then xs @ [lines ! n] else takeWhile plain_line xs)"
    by (simp add: preamble_def takeWhile_snoc takeWhile_full)
  moreover have "takeWhile plain_line xs = xs" if "length (takeWhile plain_line xs) = length xs"
    using that by (simp add: takeWhile_full takeWhile_eq_all_conv)
  moreover have "Suc s + length (takeWhile plain_line xs) = n \<longleftrightarrow> length (takeWhile plain_line xs) = length xs"
    using assms(1) len by auto
  ultimately show ?thesis unfolding old by presburger
qed

lemma preamble_le: "s < n \<Longrightarrow> n \<le> length lines \<Longrightarrow> Suc s + length (preamble lines n s) \<le> n"
  using length_takeWhile_le [of plain_line "drop (Suc s) (take n lines)"] by (simp add: preamble_def)

text \<open>What stops a preamble.\<close>

lemma preamble_stop:
  assumes "s < n" "n \<le> length lines" "Suc s + length (preamble lines n s) < n"
  shows "\<not> plain_line (lines ! (Suc s + length (preamble lines n s)))"
proof -
  let ?xs = "drop (Suc s) (take n lines)"
  have "length (takeWhile plain_line ?xs) < length ?xs" using assms by (simp add: preamble_def)
  then have "\<not> plain_line (?xs ! length (takeWhile plain_line ?xs))" by (rule nth_length_takeWhile)
  with assms show ?thesis by (simp add: preamble_def)
qed

lemma preamble_plain:
  assumes "s < j" "j < Suc s + length (preamble lines n s)" "n \<le> length lines" "s < n"
  shows "plain_line (lines ! j)"
proof -
  let ?xs = "drop (Suc s) (take n lines)"
  have "j - Suc s < length (takeWhile plain_line ?xs)" using assms by (simp add: preamble_def)
  then have "plain_line (?xs ! (j - Suc s))"
    by (metis nth_mem set_takeWhileD takeWhile_nth)
  moreover have "j < n" using assms preamble_le [of s n lines] by simp
  ultimately show ?thesis using assms by simp
qed

text \<open>The entry of a file that is not the last one, or whose preamble has ended, stays.\<close>

lemma file_entry_stays:
  assumes "s < n" "n < length lines" "Suc s + length (preamble lines n s) < n"
  shows "file_entry lines (Suc n) s = file_entry lines n s"
  using assms preamble_Suc [OF assms(1,2)] by (simp add: file_entry_def hunk_follows_def Let_def)

lemma earlier_file_stays:
  assumes "s < n" "n < length lines" "s < t" "t < n" "is_file_line (lines ! t)"
  shows "file_entry lines (Suc n) s = file_entry lines n s"
proof (rule file_entry_stays [OF assms(1,2)])
  show "Suc s + length (preamble lines n s) < n"
  proof (rule ccontr)
    assume "\<not> Suc s + length (preamble lines n s) < n"
    then have "plain_line (lines ! t)" using assms by (intro preamble_plain [of s t lines n]) auto
    with assms(5) show False by (simp add: plain_line_def)
  qed
qed

lemma entry_grows:
  assumes "s < n" "n < length lines" "Suc s + length (preamble lines n s) = n"
  shows "file_entry lines (Suc n) s =
     (file_entry lines n s)\<lparr>df_preEnd := (if plain_line (lines ! n) then Suc n else n), df_sawHunk := is_hunk_line (lines ! n)\<rparr>"
  using assms preamble_Suc [OF assms(1,2)] by (auto simp: file_entry_def hunk_follows_def Let_def plain_line_def)

lemma last_hunk_Suc:
  "s \<le> n \<Longrightarrow> last_hunk lines s (Suc n) = (if is_hunk_line (lines ! n) then Some n else last_hunk lines s n)"
  by (simp add: last_hunk_def)

lemma last_hunk_None: "(\<And>j. s \<le> j \<Longrightarrow> j < n \<Longrightarrow> \<not> is_hunk_line (lines ! j)) \<Longrightarrow> last_hunk lines s n = None"
  by (auto simp: last_hunk_def find_None_iff2)

lemma file_starts_sorted: "sorted_wrt (<) (file_starts lines n)"
  unfolding file_starts_def by (intro sorted_wrt_filter) simp

lemma last_start:
  assumes "file_starts lines n = ts @ [s]"
  shows "s < n" "is_file_line (lines ! s)" "t \<in> set ts \<Longrightarrow> t < s" "s < j \<Longrightarrow> j < n \<Longrightarrow> \<not> is_file_line (lines ! j)"
proof -
  show "s < n" "is_file_line (lines ! s)" using assms file_starts_mem [of s lines n] by auto
  show "t \<in> set ts \<Longrightarrow> t < s" using file_starts_sorted [of lines n] by (simp add: assms sorted_wrt_append)
  assume "s < j" "j < n"
  show "\<not> is_file_line (lines ! j)"
  proof
    assume "is_file_line (lines ! j)"
    with \<open>j < n\<close> have "j \<in> set (ts @ [s])" using file_starts_mem [of j lines n] assms by simp
    with \<open>s < j\<close> file_starts_sorted [of lines n] show False by (auto simp: assms sorted_wrt_append)
  qed
qed

lemma saw_iff:
  assumes "file_starts lines n = ts @ [s]" "n \<le> length lines"
  shows "hunk_follows lines n s \<longleftrightarrow> Suc s + length (preamble lines n s) < n"
  using preamble_stop [OF last_start(1) [OF assms(1)] assms(2)] last_start(4) [OF assms(1)]
  by (auto simp: hunk_follows_def Let_def plain_line_def)

text \<open>The three kinds of line.\<close>

lemma index_file_line:
  assumes "n < length lines" "is_file_line (lines ! n)"
  shows "index_line lines n (reference_index lines n) = reference_index lines (Suc n)"
proof -
  let ?xs = "file_starts lines n"
  let ?new = "\<lparr>df_path = diff_path (lines ! n), df_start = n, df_preEnd = Suc n, df_sawHunk = False\<rparr>"
  have "file_entry lines (Suc n) s = file_entry lines n s" if "s \<in> set ?xs" for s
  proof -
    have s: "s < n" using that by (simp add: file_starts_mem)
    show ?thesis
    proof (cases "Suc s + length (preamble lines n s) < n")
      case False
      with preamble_le [of s n lines] s assms(1) have e: "Suc s + length (preamble lines n s) = n" by simp
      then show ?thesis
        using entry_grows [OF s assms(1) e] assms(2) file_not_hunk [OF assms(2)]
        by (simp add: plain_line_def file_entry_def hunk_follows_def Let_def)
    qed (rule file_entry_stays [OF s assms(1)])
  qed
  moreover have "file_entry lines (Suc n) n = ?new"
    by (simp add: file_entry_def preamble_def hunk_follows_def)
  moreover have "hunk_of lines n = None"
    using assms(2) file_not_hunk by (simp add: hunk_of_def last_file_def file_starts_Suc last_hunk_def)
  ultimately show ?thesis
    using assms(2) file_not_hunk [OF assms(2)]
    by (simp add: index_line_def reference_index_def file_starts_Suc filed_under_def Let_def)
qed

lemma index_stray_line:
  assumes "\<not> is_file_line (lines ! n)" "file_starts lines n = []"
  shows "index_line lines n (reference_index lines n) = reference_index lines (Suc n)"
  using assms by (simp add: index_line_def reference_index_def file_starts_Suc filed_under_def hunk_of_def last_file_def)

lemma index_inner_line:
  assumes "n < length lines" "\<not> is_file_line (lines ! n)" "file_starts lines n = ts @ [s]"
  shows "index_line lines n (reference_index lines n) = reference_index lines (Suc n)"
proof -
  note ls = last_start [OF assms(3)] and saw = saw_iff [OF assms(3)]
  let ?e = "Suc s + length (preamble lines n s)" and ?cur = "file_entry lines n s"
  have early: "map (file_entry lines (Suc n)) ts = map (file_entry lines n) ts"
    using earlier_file_stays [OF _ assms(1) _ ls(1,2)] ls(1,3) by (auto intro: less_trans)
  have starts: "file_starts lines (Suc n) = ts @ [s]" using assms(2,3) by (simp add: file_starts_Suc)
  have hunk: "hunk_of lines n = last_hunk lines s (Suc n)" by (simp add: hunk_of_def last_file_def starts)
  have filed: "filed_under lines n = Some (length ts)" by (simp add: filed_under_def starts)
  have e: "?e \<le> n" using preamble_le [OF ls(1)] assms(1) by simp
  have ended: "file_entry lines (Suc n) s = ?cur" if "?e < n" using file_entry_stays [OF ls(1) assms(1) that] .
  have grown: "file_entry lines (Suc n) s =
      ?cur\<lparr>df_preEnd := (if plain_line (lines ! n) then Suc n else n), df_sawHunk := is_hunk_line (lines ! n)\<rparr>" if "?e = n"
    using entry_grows [OF ls(1) assms(1) that] .
  have sawcur: "df_sawHunk ?cur \<longleftrightarrow> ?e < n" using saw assms(1) by (simp add: file_entry_def)
  have precur: "df_preEnd ?cur = ?e" "df_start ?cur = s" by (simp_all add: file_entry_def)
  have ref: "di_files (reference_index lines n) = map (file_entry lines n) ts @ [?cur]"
    by (simp add: reference_index_def assms(3))
  have goal: ?thesis if "(if is_hunk_line (lines ! n) then ?cur\<lparr>df_sawHunk := True\<rparr>
        else if \<not> df_sawHunk ?cur then ?cur\<lparr>df_preEnd := Suc n\<rparr> else ?cur) = file_entry lines (Suc n) s"
      "(if is_hunk_line (lines ! n) then Some n else if \<not> df_sawHunk ?cur then None else last_hunk lines s n)
        = last_hunk lines s (Suc n)"
    using that assms(2,3) early starts hunk filed
    by (auto simp: index_line_def reference_index_def precur Let_def split: if_splits)
  show ?thesis
  proof (rule goal)
    show "(if is_hunk_line (lines ! n) then ?cur\<lparr>df_sawHunk := True\<rparr>
        else if \<not> df_sawHunk ?cur then ?cur\<lparr>df_preEnd := Suc n\<rparr> else ?cur) = file_entry lines (Suc n) s"
      using e ended grown sawcur precur assms(2)
      by (cases "?e < n"; cases "is_hunk_line (lines ! n)") (auto simp: plain_line_def file_entry_def)
    have "last_hunk lines s n = None" if "?e = n"
    proof (rule last_hunk_None)
      fix j assume "s \<le> j" "j < n"
      with preamble_plain [of s j lines n] that ls(1,2) assms(1) file_not_hunk
      show "\<not> is_hunk_line (lines ! j)" by (cases "j = s") (auto simp: plain_line_def)
    qed
    then show "(if is_hunk_line (lines ! n) then Some n else if \<not> df_sawHunk ?cur then None else last_hunk lines s n)
        = last_hunk lines s (Suc n)"
      using sawcur e ls(1) by (auto simp: last_hunk_Suc)
  qed
qed

lemma index_line_step:
  "n < length lines \<Longrightarrow> index_line lines n (reference_index lines n) = reference_index lines (Suc n)"
  using index_file_line index_stray_line index_inner_line by (metis rev_exhaust)

lemma index_is_reference: "indexDiffLines lines = reference_index lines (length lines)"
proof -
  have "fold (index_line lines) [0..<n] (reference_index lines 0) = reference_index lines n" if "n \<le> length lines" for n
    using that by (induction n) (simp_all add: index_line_step)
  moreover have "reference_index lines 0 = \<lparr>di_fileOf = [], di_hunkAt = [], di_files = []\<rparr>"
    by (simp add: reference_index_def file_starts_def)
  ultimately show ?thesis by (metis indexDiffLines_def order_refl)
qed

end
