(* ===== verification/DiffProperties.thy ===== *)
theory DiffProperties
  imports DiffIndex
begin

text \<open>
  The properties of the pager: its budget, draining a diff page by page, the headers a page
  repeats, and the cap on a side list.
\<close>

subsection \<open>The budget\<close>

lemma marker_head: "hd (cut_marker n) = 32" "cut_marker n \<noteq> []"
  by (simp_all add: cut_marker_def units_def)

text \<open>
  C37. A page keeps to its budget.  Its text has fewer than \<open>cap\<close> bytes and so fewer than \<open>cap\<close>
  UTF-16 units, which is what the result budget counts, whatever the index says; when the page's only
  line had to be cut this asks that the repeated headers and the marker of the cut leave room.
\<close>
theorem page_fits_its_budget:
  assumes "offset < length lines"
    and "dp_lineTruncated (paginateDiff lines offset cap idx) \<Longrightarrow>
      lines_bytes (prefix_lines lines offset idx) + 1 + int (byteLength (cut_marker (byteLength (lines ! offset)))) \<le> cap"
  shows "int (byteLength (dp_diff (paginateDiff lines offset cap idx))) < cap
    \<and> int (length (dp_diff (paginateDiff lines offset cap idx))) < cap"
proof -
  let ?p = "paginateDiff lines offset cap idx" and ?h = "prefix_lines lines offset idx"
  have "int (byteLength (dp_diff ?p)) < cap"
  proof (rule page_cases [OF assms(1) refl [of ?p]])
    fix n assume c: "dp_lineTruncated ?p"
      and d: "dp_diff ?p = text_join [NL] (?h @ [utf8Prefix (lines ! offset) n @ cut_marker (byteLength (lines ! offset))])"
      and n: "n = max 0 (cap - lines_bytes ?h - 1 - int (byteLength (cut_marker (byteLength (lines ! offset)))))"
    show ?thesis
      using assms(2) [OF c] n utf8Prefix_bytes [of "lines ! offset" n] marker_head
      unfolding d by (simp add: join_bytes byteLength_append)
  next
    assume "dp_diff ?p = text_join [NL] (?h @ page_body lines offset ?p)"
      and b: "lines_bytes ?h + lines_bytes (page_body lines offset ?p) \<le> cap"
      and "offset < dp_cutoff ?p" "dp_cutoff ?p \<le> length lines"
    then show ?thesis by (simp add: join_bytes page_body_def)
  qed
  moreover have "length (dp_diff ?p) \<le> byteLength (dp_diff ?p)" by (rule bytes_bound_units)
  ultimately show ?thesis by simp
qed

subsection \<open>Draining\<close>

text \<open>The client of the tool: it asks again at the cutoff as long as there are lines left.\<close>

function drain :: "utf16 list \<Rightarrow> int \<Rightarrow> diff_index \<Rightarrow> nat \<Rightarrow> (nat \<times> diff_page) list" where
  "drain lines cap idx offset =
     (if offset < length lines
      then (offset, paginateDiff lines offset cap idx) # drain lines cap idx (dp_cutoff (paginateDiff lines offset cap idx))
      else [])"
  by pat_completeness auto
termination
  by (relation "measure (\<lambda>(lines, cap, idx, offset). length lines - offset)") (use page_progress in \<open>auto simp: diff_less_mono2\<close>)

declare drain.simps [simp del]

lemma drain_serves:
  "offset \<le> length lines \<Longrightarrow>
     concat (map (\<lambda>(i, p). page_body lines i p) (drain lines cap idx offset)) = drop offset lines"
proof (induction lines cap idx offset rule: drain.induct)
  case (1 lines cap idx offset)
  show ?case
  proof (cases "offset < length lines")
    case True
    let ?p = "paginateDiff lines offset cap idx"
    note pr = page_progress [OF True, of cap idx]
    have "page_body lines offset ?p @ drop (dp_cutoff ?p) lines = drop offset lines"
      using pr by (simp add: page_body_def) (metis append_take_drop_id drop_append drop_take diff_is_0_eq
          drop_0 length_take less_imp_le_nat min.absorb2 nat_less_le)
    with 1 True pr show ?thesis by (subst drain.simps) simp
  next
    case False
    with 1(2) show ?thesis by (simp add: drain.simps)
  qed
qed

lemma drain_pages: "(i', p) \<in> set (drain lines cap idx offset) \<Longrightarrow> i' < length lines \<and> p = paginateDiff lines i' cap idx"
proof (induction lines cap idx offset rule: drain.induct)
  case (1 lines cap idx offset)
  then show ?case by (subst (asm) (2) drain.simps) (auto split: if_splits)
qed

text \<open>
  C36. Draining a diff serves every line once, in order, and ends: the pages a client gets by asking
  again at each cutoff cover the lines without a gap or an overlap, and the text of each page is its
  repeated headers followed by exactly those lines, unless it is the one line that had to be cut.
\<close>
theorem draining_serves_every_line_once:
  "concat (map (\<lambda>(i, p). page_body lines i p) (drain lines cap idx 0)) = lines
    \<and> (\<forall>(i, p) \<in> set (drain lines cap idx 0). dp_prefixLines p = prefix_lines lines i idx
        \<and> (if dp_lineTruncated p then dp_cutoff p = Suc i
           else dp_diff p = text_join [NL] (dp_prefixLines p @ page_body lines i p)))"
proof -
  have "dp_prefixLines p = prefix_lines lines i' idx
      \<and> (if dp_lineTruncated p then dp_cutoff p = Suc i'
         else dp_diff p = text_join [NL] (dp_prefixLines p @ page_body lines i' p))"
    if "(i', p) \<in> set (drain lines cap idx 0)" for i' p
  proof -
    from drain_pages [OF that] have at: "i' < length lines" "p = paginateDiff lines i' cap idx" by auto
    then have "dp_prefixLines p = prefix_lines lines i' idx" by (simp add: paginateDiff_def Let_def)
    then show ?thesis using page_cases [OF at] by (cases "dp_lineTruncated p") auto
  qed
  with drain_serves [of 0 lines cap idx] show ?thesis by auto
qed

subsection \<open>Headers\<close>

lemma filed_file:
  assumes "i < length lines" "last_file lines (Suc i) = Some s"
  shows "filed_under lines i = Some (length (file_starts lines (Suc i)) - 1)"
    "file_starts lines (length lines) ! (length (file_starts lines (Suc i)) - 1) = s"
    "length (file_starts lines (Suc i)) - 1 < length (file_starts lines (length lines))"
proof -
  obtain ts where ts: "file_starts lines (Suc i) = ts @ [s]"
    using assms(2) by (cases "file_starts lines (Suc i)" rule: rev_cases) (auto simp: last_file_def)
  then show "filed_under lines i = Some (length (file_starts lines (Suc i)) - 1)" by (simp add: filed_under_def)
  have "[0..<length lines] = [0..<Suc i] @ [Suc i..<length lines]"
    by (metis Suc_leI assms(1) le_add_diff_inverse upt_add_eq_append zero_le)
  then have "file_starts lines (length lines) = (ts @ [s]) @ filter (\<lambda>j. is_file_line (lines ! j)) [Suc i..<length lines]"
    using ts by (simp only: file_starts_def filter_append)
  then show "file_starts lines (length lines) ! (length (file_starts lines (Suc i)) - 1) = s"
    "length (file_starts lines (Suc i)) - 1 < length (file_starts lines (length lines))"
    by (simp_all add: ts nth_append)
qed

text \<open>
  A page parses on its own.  A page that starts inside a file repeats that file's whole preamble
  and, unless its first line is a hunk header, the header of the hunk its first line is in; a page
  that starts a file or precedes all of them repeats nothing.
\<close>
theorem page_repeats_its_headers:
  assumes "offset < length lines"
  shows "prefix_lines lines offset (indexDiffLines lines) =
    (case last_file lines (Suc offset) of
       None \<Rightarrow> []
     | Some s \<Rightarrow>
         if offset = s then []
         else lines ! s # preamble lines (length lines) s
           @ (case hunk_of lines offset of None \<Rightarrow> [] | Some h \<Rightarrow> if h = offset then [] else [lines ! h]))"
proof (cases "last_file lines (Suc offset)")
  case None
  then have "filed_under lines offset = None" by (simp add: filed_under_def last_file_def split: if_splits)
  with None assms show ?thesis by (simp add: prefix_lines_def index_is_reference reference_index_def)
next
  case (Some s)
  note f = filed_file [OF assms Some]
  have s: "s < length lines" "s \<le> offset"
    using Some file_starts_mem [of s lines "Suc offset"] assms
    by (auto simp: last_file_def split: if_splits dest!: last_in_set)
  have "map ((!) lines) [s..<Suc s + length (preamble lines (length lines) s)] = lines ! s # preamble lines (length lines) s"
  proof -
    have "preamble lines (length lines) s = take (length (preamble lines (length lines) s)) (drop (Suc s) lines)"
      by (simp add: preamble_def flip: takeWhile_eq_take)
    moreover have "map ((!) lines) [Suc s..<Suc s + k] = take k (drop (Suc s) lines)" if "Suc s + k \<le> length lines" for k
      using that by (intro nth_equalityI) (auto simp del: upt_Suc)
    ultimately show ?thesis
      using preamble_le [OF s(1) order_refl] by (simp add: upt_conv_Cons del: upt_Suc)
  qed
  with Some f s assms show ?thesis
    by (auto simp: prefix_lines_def index_is_reference reference_index_def file_entry_def split: option.splits)
qed

text \<open>
  A page that starts inside a preamble holds part of it twice: the whole preamble is repeated and
  the page's own lines follow.
\<close>

definition demo_diff :: "utf16 list" where
  "demo_diff = [units ''diff --git a/f b/f'', units ''new'', units ''+++'', units ''@@ 1'', units ''+x'']"

lemma demo_lines:
  "is_file_line (units ''diff --git a/f b/f'')" "\<not> is_file_line (units ''new'')" "\<not> is_file_line (units ''+++'')"
  "\<not> is_file_line (units ''@@ 1'')" "\<not> is_file_line (units ''+x'')" "\<not> is_hunk_line (units ''diff --git a/f b/f'')"
  "\<not> is_hunk_line (units ''new'')" "\<not> is_hunk_line (units ''+++'')" "is_hunk_line (units ''@@ 1'')" "\<not> is_hunk_line (units ''+x'')"
  "diff_path (units ''diff --git a/f b/f'') = Some (units ''f'')"
  "byteLength (units ''diff --git a/f b/f'') = 18" "byteLength (units ''new'') = 3" "byteLength (units ''+++'') = 3"
  "byteLength (units ''@@ 1'') = 4" "byteLength (units ''+x'') = 2"
  by (simp_all add: is_file_line_def is_hunk_line_def diff_path_def byteLength_def units_def)

definition demo_diff_index :: diff_index where
  "demo_diff_index = \<lparr>di_fileOf = [Some 0, Some 0, Some 0, Some 0, Some 0], di_hunkAt = [None, None, None, Some 3, Some 3],
     di_files = [\<lparr>df_path = Some (units ''f''), df_start = 0, df_preEnd = 3, df_sawHunk = True\<rparr>]\<rparr>"

lemma demo_indexed: "indexDiffLines demo_diff = demo_diff_index"
  by (simp add: indexDiffLines_def demo_diff_def index_line_def demo_lines last_hunk_def demo_diff_index_def upt_rec)

lemmas demo_page = paginateDiff_def prefix_lines_def demo_diff_index_def demo_diff_def demo_lines fill_page.simps
  snap_hunk_def upt_rec page_body_def

lemma page_inside_a_preamble_repeats_lines:
  "dp_cutoff (paginateDiff demo_diff 0 25 demo_diff_index) = 2
   \<and> prefix_lines demo_diff 2 demo_diff_index = [demo_diff ! 0, demo_diff ! 1, demo_diff ! 2]"
  by (simp add: demo_page)

subsection \<open>Capped lists\<close>

definition items_length :: "bool \<Rightarrow> json list \<Rightarrow> nat" where
  "items_length comma xs = sum_list (map (length \<circ> stringify) xs) + (if comma then length xs else length xs - 1)"

lemma join_length: "length (js_join [c] xs) = sum_list (map length xs) + (length xs - 1)"
  by (induction "[c]" xs rule: js_join.induct) auto

lemma array_length: "length (stringify (JArr xs)) = 2 + items_length False xs"
  by (simp add: items_length_def join_length comp_def)

lemma fit_count_spec:
  "used \<le> maxChars \<Longrightarrow> n = fit_count maxChars used comma xs \<Longrightarrow>
     n \<le> length xs \<and> used + int (items_length comma (take n xs)) \<le> maxChars
     \<and> (n < length xs \<longrightarrow> used + int (items_length comma (take (Suc n) xs)) > maxChars)"
proof (induction xs arbitrary: used comma n)
  case Nil
  then show ?case by (simp add: items_length_def)
next
  case (Cons x xs)
  let ?add = "int (length (stringify x)) + (if comma then 1 else 0)"
  show ?case
  proof (cases "used + ?add > maxChars")
    case True
    with Cons.prems show ?thesis by (cases comma) (simp_all add: items_length_def Let_def)
  next
    case False
    then have n: "n = Suc (fit_count maxChars (used + ?add) True xs)" using Cons.prems(2) by (simp add: Let_def)
    have "used + int (items_length comma (x # ys)) = (used + ?add) + int (items_length True ys)" for ys
      by (simp add: items_length_def)
    with n Cons.IH [of "used + ?add" "fit_count maxChars (used + ?add) True xs" True] False
    show ?thesis by (cases comma) (auto simp: algebra_simps)
  qed
qed

text \<open>
  A capped side list is the longest prefix that fits: its JSON text has at most \<open>maxChars\<close>
  characters, one more item would exceed them, and the flag and the total tell the client that and
  how much is missing.
\<close>
theorem capped_list_is_the_longest_that_fits:
  assumes "2 \<le> maxChars"
  shows "\<exists>n \<le> length items. cl_kept (capPathList items maxChars) = take n items
    \<and> int (length (stringify (JArr (take n items)))) \<le> maxChars
    \<and> cl_total (capPathList items maxChars) = length items
    \<and> cl_truncated (capPathList items maxChars) = (n < length items)
    \<and> (n < length items \<longrightarrow> maxChars < int (length (stringify (JArr (take (Suc n) items)))))"
  using fit_count_spec [OF assms refl, of False items]
  by (intro exI [of _ "fit_count maxChars 2 False items"]) (auto simp: capPathList_def Let_def array_length simp del: stringify.simps)

subsection \<open>Witnesses\<close>

theorem page_fits_its_budget_witness:
  "int (length (dp_diff (paginateDiff demo_diff 2 60 demo_diff_index))) < 60"
proof -
  have "2 < length demo_diff" "\<not> dp_lineTruncated (paginateDiff demo_diff 2 60 demo_diff_index)" by (simp_all add: demo_page)
  then show ?thesis using page_fits_its_budget [of 2 demo_diff 60 demo_diff_index] by blast
qed

lemma demo_cutoffs:
  "dp_cutoff (paginateDiff demo_diff 0 25 demo_diff_index) = 2" "dp_cutoff (paginateDiff demo_diff 2 25 demo_diff_index) = 3"
  "dp_cutoff (paginateDiff demo_diff 3 25 demo_diff_index) = 4" "dp_cutoff (paginateDiff demo_diff 4 25 demo_diff_index) = 5"
  by (simp_all add: demo_page)

theorem draining_serves_every_line_once_witness:
  "map fst (drain demo_diff 25 demo_diff_index 0) = [0, 2, 3, 4]
   \<and> concat (map (\<lambda>(i, p). page_body demo_diff i p) (drain demo_diff 25 demo_diff_index 0)) = demo_diff"
proof -
  have len: "length demo_diff = 5" by (simp add: demo_diff_def)
  have "drain demo_diff 25 demo_diff_index 5 = []" by (simp add: drain.simps len)
  then have "map fst (drain demo_diff 25 demo_diff_index 4) = [4]" by (subst drain.simps) (simp add: len demo_cutoffs)
  then have "map fst (drain demo_diff 25 demo_diff_index 3) = [3, 4]" by (subst drain.simps) (simp add: len demo_cutoffs)
  then have "map fst (drain demo_diff 25 demo_diff_index 2) = [2, 3, 4]" by (subst drain.simps) (simp add: len demo_cutoffs)
  then have "map fst (drain demo_diff 25 demo_diff_index 0) = [0, 2, 3, 4]" by (subst drain.simps) (simp add: len demo_cutoffs)
  then show ?thesis using draining_serves_every_line_once [of demo_diff 25 demo_diff_index] by blast
qed

theorem page_repeats_its_headers_witness:
  "prefix_lines demo_diff 4 (indexDiffLines demo_diff) = [demo_diff ! 0, demo_diff ! 1, demo_diff ! 2, demo_diff ! 3]"
  using page_repeats_its_headers [of 4 demo_diff] by (simp add: demo_indexed demo_page hunk_of_def last_file_def file_starts_def preamble_def plain_line_def last_hunk_def)

theorem capped_list_is_the_longest_that_fits_witness:
  "cl_kept (capPathList [JStr ''a'', JStr ''bcdef''] 8) = [JStr ''a''] \<and> cl_total (capPathList [JStr ''a'', JStr ''bcdef''] 8) = 2"
proof -
  have "cl_kept (capPathList [JStr ''a'', JStr ''bcdef''] 8) = [JStr ''a'']" by code_simp
  moreover obtain n :: nat where "cl_total (capPathList [JStr ''a'', JStr ''bcdef''] 8) = length [JStr ''a'', JStr ''bcdef'']"
    using capped_list_is_the_longest_that_fits [of 8 "[JStr ''a'', JStr ''bcdef'']"] by auto
  ultimately show ?thesis by simp
qed

end
