(* ===== verification/Protocol.thy ===== *)
theory Protocol
  imports SessionStore
begin

text \<open>
  The provider protocol, \<open>src/systems/protocol.ts\<close>: the rule for remote ids, the error taxonomy,
  capabilities, the remote list and the codec of newline-delimited JSON.  \<open>JSON.parse\<close> and the
  decoding of UTF-8 bytes are parameters; bytes are natural numbers.
\<close>

subsection \<open>Remote ids\<close>

definition REMOTE_ID_MAX :: nat where "REMOTE_ID_MAX = 128"

datatype remote_defect = Empty_id | Too_long | Invalid_char

fun defect_text :: "remote_defect \<Rightarrow> string" where
  "defect_text Empty_id = ''empty''"
| "defect_text Too_long = ''too-long''"
| "defect_text Invalid_char = ''invalid-char''"

definition bad_id_char :: "char \<Rightarrow> bool" where
  "bad_id_char c \<longleftrightarrow> js_space c \<or> (of_char c :: nat) < 32 \<or> c = CHR 0x7F"

definition remoteIdDefect :: "string \<Rightarrow> remote_defect option" where
  "remoteIdDefect i =
     (if i = [] then Some Empty_id
      else if length i > REMOTE_ID_MAX then Some Too_long
      else if list_ex bad_id_char i then Some Invalid_char
      else None)"

subsection \<open>Error taxonomy\<close>

definition PROTOCOL_ERROR_CODES :: "string list" where
  "PROTOCOL_ERROR_CODES = [''EPROTO'', ''ETRANSPORT'', ''ETIMEDOUT'', ''EUNSUPPORTED'', ''ESHELLGONE'', ''EFBIG'',
     ''ECANCELLED'', ''ENOREMOTE'', ''EPTY'']"

definition FS_ERROR_CODES :: "string list" where
  "FS_ERROR_CODES = [''ENOENT'', ''EACCES'', ''EEXIST'', ''ENOTDIR'', ''EISDIR'', ''ENOSPC'', ''ENOTEMPTY'', ''EINVAL'',
     ''ENAMETOOLONG'', ''ELOOP'', ''EUNKNOWN'']"

definition ALL_CODES :: "string list" where
  "ALL_CODES = PROTOCOL_ERROR_CODES @ FS_ERROR_CODES"

definition isSystemErrorCode :: "json option \<Rightarrow> bool" where
  "isSystemErrorCode v = (case as_str v of Some s \<Rightarrow> s \<in> set ALL_CODES | None \<Rightarrow> False)"

record system_error =
  se_code :: string
  se_message :: string
  se_exitCode :: "int option"
  se_stderr :: "string option"

definition system_error_of :: "string \<Rightarrow> string \<Rightarrow> system_error" where
  "system_error_of code message = \<lparr>se_code = code, se_message = message, se_exitCode = None, se_stderr = None\<rparr>"

definition STDERR_TABLE :: "(string \<times> string) list" where
  "STDERR_TABLE =
     [(''No such file or directory'', ''ENOENT''), (''Permission denied'', ''EACCES''), (''File exists'', ''EEXIST''),
      (''Not a directory'', ''ENOTDIR''), (''Is a directory'', ''EISDIR''), (''No space left on device'', ''ENOSPC''),
      (''Directory not empty'', ''ENOTEMPTY''), (''Invalid argument'', ''EINVAL''),
      (''File name too long'', ''ENAMETOOLONG''), (''Too many levels of symbolic links'', ''ELOOP'')]"

text \<open>\<open>includes\<close>.\<close>

fun contains :: "string \<Rightarrow> string \<Rightarrow> bool" where
  "contains p [] = (p = [])"
| "contains p (c # cs) = (starts_with (c # cs) p \<or> contains p cs)"

definition classifyStderr :: "string \<Rightarrow> string" where
  "classifyStderr stderr =
     (case List.find (\<lambda>(needle, code). contains needle stderr) STDERR_TABLE of
        Some (needle, code) \<Rightarrow> code | None \<Rightarrow> ''EUNKNOWN'')"

definition int_text :: "int \<Rightarrow> string" where
  "int_text i = (if i < 0 then ''-'' @ num_text (nat (- i)) else num_text (nat i))"

definition execFailure :: "string \<Rightarrow> int \<Rightarrow> string \<Rightarrow> system_error" where
  "execFailure what exitCode stderr =
     (let code = classifyStderr stderr;
          detail = (if js_trim stderr = [] then ''exit '' @ int_text exitCode else js_trim stderr) in
      \<lparr>se_code = code, se_message = what @ '': '' @ detail, se_exitCode = Some exitCode, se_stderr = Some stderr\<rparr>)"

text \<open>A code as a whole word, \<open>\b\<close> on both sides; a code begins and ends with a letter.\<close>

definition word_char :: "char \<Rightarrow> bool" where
  "word_char c \<longleftrightarrow> is_lower c \<or> is_upper c \<or> is_digit c \<or> c = CHR ''_''"

fun has_word :: "string \<Rightarrow> bool \<Rightarrow> string \<Rightarrow> bool" where
  "has_word w inside [] = False"
| "has_word w inside (c # cs) =
     (\<not> inside \<and> starts_with (c # cs) w \<and> (case drop (length w) (c # cs) of [] \<Rightarrow> True | d # _ \<Rightarrow> \<not> word_char d)
      \<or> has_word w (word_char c) cs)"

definition classifySpawnError :: "string \<Rightarrow> string" where
  "classifySpawnError message =
     (case List.find (\<lambda>code. code \<noteq> ''EUNKNOWN'' \<and> has_word code False message) FS_ERROR_CODES of
        Some code \<Rightarrow> code | None \<Rightarrow> ''EUNKNOWN'')"

subsection \<open>Capabilities\<close>

record capabilities =
  cp_processGroupSignal :: bool
  cp_remotes :: bool
  cp_remoteDescriptors :: bool
  cp_remoteListing :: bool
  cp_pty :: bool

definition NO_CAPABILITIES :: capabilities where
  "NO_CAPABILITIES = \<lparr>cp_processGroupSignal = False, cp_remotes = False, cp_remoteDescriptors = False,
     cp_remoteListing = False, cp_pty = False\<rparr>"

definition readCapabilities :: "json option \<Rightarrow> capabilities" where
  "readCapabilities v =
     (let m = map_of (asRecord v) in
      \<lparr>cp_processGroupSignal = is_true (m ''processGroupSignal''), cp_remotes = is_true (m ''remotes''),
       cp_remoteDescriptors = is_true (m ''remoteDescriptors''),
       cp_remoteListing = (is_true (m ''remotes'') \<and> is_true (m ''remoteListing'')), cp_pty = is_true (m ''pty'')\<rparr>)"

subsection \<open>The remote list\<close>

definition shown_json :: "json option \<Rightarrow> string" where
  "shown_json v = (case v of None \<Rightarrow> ''absent'' | Some j \<Rightarrow> stringify j)"

fun remotes_loop :: "nat \<Rightarrow> string list \<Rightarrow> json list \<Rightarrow> string + string list" where
  "remotes_loop i ids [] = Inr ids"
| "remotes_loop i ids (entry # rest) =
     (let place = ''remotes['' @ num_text i @ '']'' in
      if \<not> isRecord entry then Inl (place @ '' is '' @ stringify entry @ '', not an object'')
      else (case map_of (asRecord (Some entry)) ''remoteId'' of
          Some (JStr rid) \<Rightarrow>
            (case remoteIdDefect rid of
               Some defect \<Rightarrow> Inl (place @ ''.remoteId '' @ json_string rid @ '' is not a valid remoteId ('' @ defect_text defect @ '')'')
             | None \<Rightarrow>
                 if rid \<in> set ids then Inl (place @ ''.remoteId '' @ json_string rid @ '' is listed twice'')
                 else remotes_loop (Suc i) (ids @ [rid]) rest)
        | v \<Rightarrow> Inl (place @ ''.remoteId is '' @ shown_json v @ '', not a string'')))"

definition readRemoteList :: "args \<Rightarrow> string + string list" where
  "readRemoteList f =
     (case map_of f ''remotes'' of
        Some (JArr list) \<Rightarrow> remotes_loop 0 [] list
      | v \<Rightarrow> Inl (''remotes is '' @ shown_json v @ '', not an array''))"

subsection \<open>The codec\<close>

definition MAX_LINE_BYTES :: nat where "MAX_LINE_BYTES = 4 * 1024 * 1024"

definition encodeFrame :: "args \<Rightarrow> string" where
  "encodeFrame frame = stringify (JObj frame) @ [CHR 0x0A]"

text \<open>The ellipsis \<open>clip\<close> appends is not a character of the model's strings; it is a parameter.\<close>

definition clip :: "string \<Rightarrow> string \<Rightarrow> string" where
  "clip ellipsis s = (if length s \<le> 200 then s else take 200 s @ ellipsis)"

definition b64_char :: "char \<Rightarrow> bool" where
  "b64_char c \<longleftrightarrow> is_lower c \<or> is_upper c \<or> is_digit c \<or> c = CHR ''+'' \<or> c = CHR ''/''"

definition isBase64 :: "string \<Rightarrow> bool" where
  "isBase64 v \<longleftrightarrow> length v mod 4 = 0
     \<and> (let pad = dropWhile b64_char v in pad = [] \<or> pad = ''='' \<or> pad = ''=='')"

definition PAYLOAD_FRAMES :: "string list" where
  "PAYLOAD_FRAMES = [''stdout'', ''stderr'', ''data'', ''input'']"

definition eproto :: "string \<Rightarrow> system_error" where
  "eproto message = system_error_of ''EPROTO'' message"

definition decodeFrame :: "string \<Rightarrow> (string \<Rightarrow> json option) \<Rightarrow> string \<Rightarrow> system_error + args" where
  "decodeFrame ellipsis parse t =
     (case parse t of
        None \<Rightarrow> Inl (eproto (''not JSON: '' @ clip ellipsis t))
      | Some (JObj frame) \<Rightarrow>
          (case nonempty_str (map_of frame ''type'') of
             None \<Rightarrow> Inl (eproto (''frame has no type: '' @ clip ellipsis t))
           | Some ty \<Rightarrow>
               if ty \<in> set PAYLOAD_FRAMES then
                 (case as_str (map_of frame ''dataB64'') of
                    None \<Rightarrow> Inl (eproto ([CHR 0x27] @ ty @ [CHR 0x27] @ '' frame has no dataB64: '' @ clip ellipsis t))
                  | Some b \<Rightarrow>
                      if isBase64 b then Inr frame
                      else Inl (eproto ([CHR 0x27] @ ty @ [CHR 0x27] @ '' frame carries invalid base64: '' @ clip ellipsis t)))
               else Inr frame)
      | Some _ \<Rightarrow> Inl (eproto (''frame is not an object: '' @ clip ellipsis t)))"

definition frameId :: "args \<Rightarrow> string option" where
  "frameId f = as_str (map_of f ''id'')"

text \<open>What the decoder uses of its surroundings.\<close>

record codec =
  cd_utf8 :: "nat list \<Rightarrow> string"
  cd_parse :: "string \<Rightarrow> json option"
  cd_ellipsis :: string
  cd_maxLineBytes :: nat

definition too_long :: "codec \<Rightarrow> system_error" where
  "too_long cd = eproto (''provider frame exceeded '' @ num_text (cd_maxLineBytes cd) @ '' bytes'')"

lemma line_shorter: "10 \<in> set buf \<Longrightarrow> length (tl (dropWhile (\<lambda>b. b \<noteq> (10 :: nat)) buf)) < length buf"
  by (induction buf) auto

text \<open>The loop of a push: the frames of the complete lines and the bytes left.\<close>

function decode_lines :: "codec \<Rightarrow> nat list \<Rightarrow> system_error + args list \<times> nat list" where
  "decode_lines cd buf =
     (if 10 \<notin> set buf then Inr ([], buf)
      else
        let line = takeWhile (\<lambda>b. b \<noteq> 10) buf; rest = tl (dropWhile (\<lambda>b. b \<noteq> 10) buf) in
        if length line > cd_maxLineBytes cd then Inl (too_long cd)
        else
          let t = js_trim (cd_utf8 cd line) in
          if t = [] then decode_lines cd rest
          else (case decodeFrame (cd_ellipsis cd) (cd_parse cd) t of
              Inl e \<Rightarrow> Inl e
            | Inr f \<Rightarrow> (case decode_lines cd rest of Inl e \<Rightarrow> Inl e | Inr (fs, left) \<Rightarrow> Inr (f # fs, left))))"
  by pat_completeness auto
termination by (relation "measure (\<lambda>(cd, buf). length buf)") (auto dest: line_shorter)

declare decode_lines.simps [simp del]

text \<open>A push: an error drops the buffer.\<close>

definition checked_lines :: "codec \<Rightarrow> nat list \<Rightarrow> system_error + args list \<times> nat list" where
  "checked_lines cd buf =
     (case decode_lines cd buf of
        Inl e \<Rightarrow> Inl e
      | Inr (frames, left) \<Rightarrow> if length left > cd_maxLineBytes cd then Inl (too_long cd) else Inr (frames, left))"

definition decoder_push :: "codec \<Rightarrow> nat list \<Rightarrow> nat list \<Rightarrow> (system_error + args list) \<times> nat list" where
  "decoder_push cd chunk buf =
     (case checked_lines cd (buf @ chunk) of Inl e \<Rightarrow> (Inl e, []) | Inr (frames, left) \<Rightarrow> (Inr frames, left))"

end
