(* ===== verification/ProtocolFacts.thy ===== *)
theory ProtocolFacts
  imports Protocol
begin

text \<open>
  The codec ends alike however a stream is cut, and hands over the same frames when the stream is good;
  it holds back a bounded number of bytes and accepts well-formed frames only; a remote list is taken whole or refused.
\<close>

subsection \<open>Lines\<close>

lemma newline_split_at:
  assumes "10 \<in> set x"
  shows "takeWhile (\<lambda>b. b \<noteq> 10) (x @ y) = takeWhile (\<lambda>b. b \<noteq> (10 :: nat)) x"
    "tl (dropWhile (\<lambda>b. b \<noteq> 10) (x @ y)) = tl (dropWhile (\<lambda>b. b \<noteq> (10 :: nat)) x) @ y"
proof -
  show "takeWhile (\<lambda>b. b \<noteq> 10) (x @ y) = takeWhile (\<lambda>b. b \<noteq> (10 :: nat)) x"
    using assms by (induction x) auto
  show "tl (dropWhile (\<lambda>b. b \<noteq> 10) (x @ y)) = tl (dropWhile (\<lambda>b. b \<noteq> (10 :: nat)) x) @ y"
    using assms by (induction x) auto
qed

lemma decode_no_newline: "10 \<notin> set x \<Longrightarrow> decode_lines cd x = Inr ([], x)"
  by (simp add: decode_lines.simps)

lemma decode_line:
  assumes "10 \<in> set x"
  shows "decode_lines cd x =
    (let line = takeWhile (\<lambda>b. b \<noteq> 10) x; t = js_trim (cd_utf8 cd line); rest = tl (dropWhile (\<lambda>b. b \<noteq> 10) x) in
     if length line > cd_maxLineBytes cd then Inl (too_long cd)
     else if t = [] then decode_lines cd rest
     else (case decodeFrame (cd_ellipsis cd) (cd_parse cd) t of Inl e \<Rightarrow> Inl e
       | Inr f \<Rightarrow> (case decode_lines cd rest of Inl e \<Rightarrow> Inl e | Inr (fs, left) \<Rightarrow> Inr (f # fs, left))))"
  using assms by (subst decode_lines.simps) (simp add: Let_def)

lemma decode_left: "decode_lines cd x = Inr (fs, left) \<Longrightarrow> 10 \<notin> set left"
proof (induction cd x arbitrary: fs rule: decode_lines.induct)
  case (1 cd x)
  show ?case
  proof (cases "10 \<in> set x")
    case True
    with 1(3) 1(1) [OF _ refl refl _ refl] 1(2) [OF _ refl refl _ refl] show ?thesis
      by (auto simp: decode_line Let_def split: if_splits sum.splits prod.splits)
  next
    case False
    with 1(3) show ?thesis by (simp add: decode_no_newline)
  qed
qed

text \<open>Reading on: the frames of the first part, then those of what it left and the second.\<close>

definition continue_with :: "args list \<Rightarrow> system_error + args list \<times> nat list \<Rightarrow> system_error + args list \<times> nat list" where
  "continue_with fs r = (case r of Inl e \<Rightarrow> Inl e | Inr (gs, left) \<Rightarrow> Inr (fs @ gs, left))"

lemma continue_simps [simp]:
  "continue_with fs (Inl e) = Inl e" "continue_with fs (Inr (gs, left)) = Inr (fs @ gs, left)" "continue_with [] r = r"
  "continue_with fs (continue_with gs r) = continue_with (fs @ gs) r"
  by (auto simp: continue_with_def split: sum.splits)

lemma decode_append:
  "decode_lines cd (x @ y) =
     (case decode_lines cd x of Inl e \<Rightarrow> Inl e | Inr (fs, left) \<Rightarrow> continue_with fs (decode_lines cd (left @ y)))"
proof (induction cd x rule: decode_lines.induct)
  case (1 cd x)
  show ?case
  proof (cases "10 \<in> set x")
    case False
    then show ?thesis by (simp add: decode_no_newline)
  next
    case True
    let ?line = "takeWhile (\<lambda>b. b \<noteq> 10) x" and ?rest = "tl (dropWhile (\<lambda>b. b \<noteq> 10) x)"
    let ?t = "js_trim (cd_utf8 cd ?line)"
    have True': "10 \<in> set (x @ y)" using True by simp
    consider (long) "length ?line > cd_maxLineBytes cd" | (blank) "\<not> length ?line > cd_maxLineBytes cd" "?t = []"
      | (bad) e where "\<not> length ?line > cd_maxLineBytes cd" "?t \<noteq> []" "decodeFrame (cd_ellipsis cd) (cd_parse cd) ?t = Inl e"
      | (frame) f where "\<not> length ?line > cd_maxLineBytes cd" "?t \<noteq> []" "decodeFrame (cd_ellipsis cd) (cd_parse cd) ?t = Inr f"
      by (cases "decodeFrame (cd_ellipsis cd) (cd_parse cd) ?t") auto
    then show ?thesis
    proof cases
      case blank
      with True True' 1(1) [OF _ refl refl _ refl] show ?thesis
        by (simp add: decode_line newline_split_at Let_def)
    next
      case (frame f)
      with True 1(2) [OF _ refl refl _ refl]
      have "decode_lines cd (?rest @ y) =
          (case decode_lines cd ?rest of Inl e \<Rightarrow> Inl e | Inr (fs, left) \<Rightarrow> continue_with fs (decode_lines cd (left @ y)))"
        by simp
      with frame True True' show ?thesis
        by (auto simp: decode_line newline_split_at Let_def continue_with_def split: sum.splits)
    qed (use True True' in \<open>simp_all add: decode_line newline_split_at Let_def\<close>)
  qed
qed

text \<open>An overlong rest stays overlong.\<close>

lemma overlong_stays:
  assumes "10 \<notin> set left" "length left > cd_maxLineBytes cd"
  shows "checked_lines cd (left @ y) = Inl (too_long cd)"
proof (cases "10 \<in> set y")
  case True
  then have "takeWhile (\<lambda>b. b \<noteq> 10) (left @ y) = left @ takeWhile (\<lambda>b. b \<noteq> 10) y"
    using assms(1) by (intro takeWhile_append2) auto
  with True assms(2) show ?thesis by (simp add: checked_lines_def decode_line Let_def)
next
  case False
  with assms show ?thesis by (simp add: checked_lines_def decode_no_newline)
qed

lemma checked_append:
  "checked_lines cd (x @ y) =
     (case checked_lines cd x of Inl e \<Rightarrow> Inl e | Inr (fs, left) \<Rightarrow> continue_with fs (checked_lines cd (left @ y)))"
proof (cases "decode_lines cd x")
  case (Inl e)
  then show ?thesis by (simp add: checked_lines_def decode_append)
next
  case (Inr r)
  obtain fs left where r: "r = (fs, left)" by fastforce
  have whole: "checked_lines cd (x @ y) = continue_with fs (checked_lines cd (left @ y))"
    using Inr r by (auto simp: checked_lines_def decode_append continue_with_def split: sum.splits)
  show ?thesis
  proof (cases "length left > cd_maxLineBytes cd")
    case True
    with overlong_stays [OF decode_left [OF Inr [unfolded r]] True] whole Inr r show ?thesis
      by (simp add: checked_lines_def)
  next
    case False
    have "checked_lines cd x = Inr (fs, left)" using False Inr r by (simp add: checked_lines_def)
    with whole show ?thesis by simp
  qed
qed

subsection \<open>Runs of pushes\<close>

text \<open>
  A connection: each push hands its frames over before the next chunk arrives, until a push fails,
  which ends the connection.  The frames handed over, with the failure or the bytes held back.
\<close>

fun decoder_run :: "codec \<Rightarrow> nat list list \<Rightarrow> nat list \<Rightarrow> args list \<times> (system_error + nat list)" where
  "decoder_run cd [] buf = ([], Inr buf)"
| "decoder_run cd (c # cs) buf =
     (case decoder_push cd c buf of
        (Inl e, _) \<Rightarrow> ([], Inl e)
      | (Inr fs, buf') \<Rightarrow> (let (gs, out) = decoder_run cd cs buf' in (fs @ gs, out)))"

definition byte_by_byte :: "nat list \<Rightarrow> nat list list" where
  "byte_by_byte bs = map (\<lambda>b. [b]) bs"

definition line_pending :: "codec \<Rightarrow> nat list \<Rightarrow> bool" where
  "line_pending cd buf \<longleftrightarrow> 10 \<notin> set buf \<and> length buf \<le> cd_maxLineBytes cd"

lemma checked_pending: "line_pending cd buf \<Longrightarrow> checked_lines cd buf = Inr ([], buf)"
  by (simp add: line_pending_def checked_lines_def decode_no_newline)

lemma checked_left: "checked_lines cd x = Inr (fs, left) \<Longrightarrow> line_pending cd left"
  by (auto simp: checked_lines_def line_pending_def dest: decode_left split: sum.splits if_splits)

lemma push_parts:
  "checked_lines cd (buf @ c) = Inl e \<Longrightarrow> decoder_run cd (c # cs) buf = ([], Inl e)"
  "checked_lines cd (buf @ c) = Inr (fs, left) \<Longrightarrow> decoder_run cd (c # cs) buf =
     (fs @ fst (decoder_run cd cs left), snd (decoder_run cd cs left))"
  by (simp_all add: decoder_push_def case_prod_beta)

declare decoder_run.simps(2) [simp del]

text \<open>The outcome is that of reading the whole stream at once; so are the frames, when nothing fails.\<close>

lemma run_is_one_read:
  "line_pending cd buf \<Longrightarrow> checked_lines cd (buf @ concat cs) =
     (case decoder_run cd cs buf of (fs, Inl e) \<Rightarrow> Inl e | (fs, Inr left) \<Rightarrow> Inr (fs, left))"
proof (induction cs arbitrary: buf)
  case Nil
  then show ?case by (simp add: checked_pending)
next
  case (Cons c cs)
  note split_read = checked_append [of cd "buf @ c" "concat cs", simplified]
  show ?case
  proof (cases "checked_lines cd (buf @ c)")
    case (Inl e)
    then show ?thesis using split_read by (simp add: push_parts(1))
  next
    case (Inr r)
    obtain fs left where r: "r = (fs, left)" by fastforce
    obtain gs out where rest: "decoder_run cd cs left = (gs, out)" by fastforce
    have "checked_lines cd (left @ concat cs) = (case out of Inl e \<Rightarrow> Inl e | Inr l \<Rightarrow> Inr (gs, l))"
      using Cons.IH [OF checked_left [OF Inr [unfolded r]]] by (simp add: rest)
    then show ?thesis
      unfolding push_parts(2) [OF Inr [unfolded r]]
      using split_read by (cases out) (simp_all add: Inr r rest)
  qed
qed

lemma run_splits:
  "decoder_run cd cs buf = (fs, Inr left) \<Longrightarrow>
     decoder_run cd (cs @ ds) buf = (fs @ fst (decoder_run cd ds left), snd (decoder_run cd ds left))"
proof (induction cs arbitrary: buf fs)
  case (Cons c cs)
  show ?case
  proof (cases "checked_lines cd (buf @ c)")
    case (Inl e)
    with Cons.prems show ?thesis by (simp add: push_parts(1))
  next
    case (Inr r)
    obtain gs l where r: "r = (gs, l)" by fastforce
    note push = push_parts(2) [OF Inr [unfolded r]]
    from Cons.prems have "decoder_run cd cs l = (fst (decoder_run cd cs l), Inr left)" "fs = gs @ fst (decoder_run cd cs l)"
      unfolding push by (auto simp: prod_eq_iff)
    with Cons.IH [of l "fst (decoder_run cd cs l)"] show ?thesis by (simp add: push)
  qed
qed simp

lemma bytes_deliver_most:
  "line_pending cd buf \<Longrightarrow>
     \<exists>more. fst (decoder_run cd (byte_by_byte (concat cs)) buf) = fst (decoder_run cd cs buf) @ more"
proof (induction cs arbitrary: buf)
  case (Cons c cs)
  show ?case
  proof (cases "checked_lines cd (buf @ c)")
    case (Inl e)
    then show ?thesis by (simp add: push_parts(1))
  next
    case (Inr r)
    obtain fs left where r: "r = (fs, left)" by fastforce
    have bytes: "decoder_run cd (byte_by_byte c) buf = (fs, Inr left)"
      using run_is_one_read [OF Cons.prems, of "byte_by_byte c"] Inr r
      by (auto simp: byte_by_byte_def concat_map_singleton split: prod.splits sum.splits)
    from Cons.IH [OF checked_left [OF Inr [unfolded r]]] show ?thesis
      using run_splits [OF bytes, of "byte_by_byte (concat cs)"]
      by (auto simp: push_parts(2) [OF Inr [unfolded r]] byte_by_byte_def)
  qed
qed (simp add: byte_by_byte_def)

lemma eproto_code [simp]: "se_code (eproto m) = ''EPROTO''" "se_code (too_long cd) = ''EPROTO''"
  by (simp_all add: eproto_def too_long_def system_error_of_def)

lemma decodeFrame_error: "decodeFrame ell parse t = Inl e \<Longrightarrow> se_code e = ''EPROTO''"
  by (auto simp: decodeFrame_def split: option.splits json.splits if_splits)

lemma decode_error: "decode_lines cd x = Inl e \<Longrightarrow> se_code e = ''EPROTO''"
proof (induction cd x rule: decode_lines.induct)
  case (1 cd x)
  show ?case
  proof (cases "10 \<in> set x")
    case True
    with 1(3) 1(1) [OF _ refl refl _ refl] 1(2) [OF _ refl refl _ refl] show ?thesis
      by (auto simp: decode_line Let_def decodeFrame_error split: if_splits sum.splits prod.splits)
  next
    case False
    with 1(3) show ?thesis by (simp add: decode_no_newline)
  qed
qed

lemma checked_error: "checked_lines cd x = Inl e \<Longrightarrow> se_code e = ''EPROTO''"
  by (auto simp: checked_lines_def dest: decode_error split: sum.splits if_splits)

text \<open>
  C29. The decoder does not see chunk boundaries: two cuttings of one byte stream, wherever a
  multi-byte character or a frame is cut, end alike, in the same failure or with the same bytes held
  back.  On a stream that does not fail they hand over the same frames, and at most
  \<open>maxLineBytes\<close> bytes are held back.  On a stream that fails, always with an \<open>EPROTO\<close>, a push that
  fails takes the frames of its own chunk with it, so the cutting does decide how many of the frames
  before the bad line arrive: always an initial part of those that arrive byte by byte.
\<close>
theorem decoding_ignores_chunk_boundaries:
  assumes "concat cs = concat ds"
  shows "snd (decoder_run cd cs []) = snd (decoder_run cd ds [])
    \<and> (\<exists>more. fst (decoder_run cd (byte_by_byte (concat cs)) []) = fst (decoder_run cd cs []) @ more)
    \<and> (case snd (decoder_run cd cs []) of
         Inl e \<Rightarrow> se_code e = ''EPROTO''
       | Inr pending \<Rightarrow> fst (decoder_run cd cs []) = fst (decoder_run cd ds []) \<and> length pending \<le> cd_maxLineBytes cd)"
proof -
  have clear: "line_pending cd []" by (simp add: line_pending_def)
  obtain fs out where cs: "decoder_run cd cs [] = (fs, out)" by fastforce
  obtain gs out' where ds: "decoder_run cd ds [] = (gs, out')" by fastforce
  have read: "checked_lines cd (concat ds) = (case out of Inl e \<Rightarrow> Inl e | Inr l \<Rightarrow> Inr (fs, l))"
    "checked_lines cd (concat ds) = (case out' of Inl e \<Rightarrow> Inl e | Inr l \<Rightarrow> Inr (gs, l))"
    using run_is_one_read [OF clear, of cs] run_is_one_read [OF clear, of ds] by (simp_all add: cs ds assms)
  then have same: "out = out'" "\<And>l. out = Inr l \<Longrightarrow> fs = gs" by (auto split: sum.splits)
  have "case out of Inl e \<Rightarrow> se_code e = ''EPROTO'' | Inr l \<Rightarrow> length l \<le> cd_maxLineBytes cd"
    using read(1) checked_error [of cd "concat ds"] checked_left [of cd "concat ds"]
    by (auto simp: line_pending_def split: sum.splits)
  with same bytes_deliver_most [OF clear, of cs] show ?thesis by (auto simp: cs ds split: sum.splits)
qed

subsection \<open>The remote list\<close>

definition lists_remote :: "json \<Rightarrow> string \<Rightarrow> bool" where
  "lists_remote entry rid \<longleftrightarrow> (\<exists>kvs. entry = JObj kvs \<and> map_of kvs ''remoteId'' = Some (JStr rid)) \<and> remoteIdDefect rid = None"

lemma lists_remote_simps:
  "lists_remote (JObj kvs) rid \<longleftrightarrow> map_of kvs ''remoteId'' = Some (JStr rid) \<and> remoteIdDefect rid = None"
  by (simp add: lists_remote_def)

lemma remotes_step:
  assumes "lists_remote entry rid" "rid \<notin> set ids"
  shows "remotes_loop i ids (entry # rest) = remotes_loop (Suc i) (ids @ [rid]) rest"
  using assms by (auto simp: lists_remote_def)

lemma remotes_refused:
  assumes "\<nexists>rid. lists_remote entry rid \<and> rid \<notin> set ids"
  shows "\<exists>reason. remotes_loop i ids (entry # rest) = Inl reason"
  using assms by (cases entry) (auto simp: lists_remote_simps Let_def split: option.splits json.splits)

lemma remotes_loop_iff:
  "distinct ids \<Longrightarrow> remotes_loop i ids list = Inr out \<longleftrightarrow>
     (\<exists>new. out = ids @ new \<and> list_all2 lists_remote list new \<and> distinct out)"
proof (induction list arbitrary: i ids)
  case Nil
  then show ?case by auto
next
  case (Cons entry rest)
  show ?case
  proof (cases "\<exists>rid. lists_remote entry rid \<and> rid \<notin> set ids")
    case True
    then obtain rid where rid: "lists_remote entry rid" "rid \<notin> set ids" by blast
    have only: "lists_remote entry r \<longleftrightarrow> r = rid" for r using rid(1) by (auto simp: lists_remote_def)
    have "remotes_loop i ids (entry # rest) = Inr out \<longleftrightarrow>
        (\<exists>new. out = (ids @ [rid]) @ new \<and> list_all2 lists_remote rest new \<and> distinct out)"
      using Cons.IH [of "ids @ [rid]" "Suc i"] Cons.prems rid(2) by (simp only: remotes_step [OF rid]) simp
    also have "\<dots> \<longleftrightarrow> (\<exists>new. out = ids @ new \<and> list_all2 lists_remote (entry # rest) new \<and> distinct out)"
      by (auto simp: list_all2_Cons1 only)
    finally show ?thesis .
  next
    case False
    with remotes_refused [OF False, of i rest] show ?thesis by (auto simp: list_all2_Cons1)
  qed
qed

text \<open>
  A remote list is taken whole or not at all: it is accepted exactly when it is an array of
  objects each of which names a valid id and no two the same, and then all the ids are returned in
  order; every accepted id is one that the rule for a project's remote accepts.
\<close>
theorem remote_list_is_all_or_nothing:
  "readRemoteList f = Inr ids \<longleftrightarrow>
     (\<exists>list. map_of f ''remotes'' = Some (JArr list) \<and> distinct ids
       \<and> list_all2 (\<lambda>entry rid. map_of (asRecord (Some entry)) ''remoteId'' = Some (JStr rid) \<and> remoteIdDefect rid = None) list ids)"
proof -
  have "lists_remote entry rid \<longleftrightarrow> map_of (asRecord (Some entry)) ''remoteId'' = Some (JStr rid) \<and> remoteIdDefect rid = None" for entry rid
    by (cases entry) (auto simp: lists_remote_def)
  then have "lists_remote = (\<lambda>entry rid. map_of (asRecord (Some entry)) ''remoteId'' = Some (JStr rid) \<and> remoteIdDefect rid = None)"
    by blast
  then show ?thesis
    by (cases "map_of f ''remotes''" rule: option.exhaust; auto simp: readRemoteList_def remotes_loop_iff split: json.splits)
qed

subsection \<open>Frames\<close>

text \<open>
  A frame that is decoded is well formed: the line is a JSON object with a non-empty type, and a
  frame whose meaning is its payload carries canonical base64; nothing else is refused.
\<close>
lemma decoded_frames_are_well_formed:
  "decodeFrame ellipsis parse t = Inr f \<longleftrightarrow>
     parse t = Some (JObj f) \<and> (\<exists>ty. map_of f ''type'' = Some (JStr ty) \<and> ty \<noteq> []
       \<and> (ty \<in> set PAYLOAD_FRAMES \<longrightarrow> (\<exists>b. map_of f ''dataB64'' = Some (JStr b) \<and> isBase64 b)))"
proof (cases "parse t")
  case (Some j)
  then show ?thesis
    by (cases j) (auto simp: decodeFrame_def split: option.splits if_splits)
qed (simp add: decodeFrame_def)

subsection \<open>Witnesses\<close>

definition demo_codec :: codec where
  "demo_codec = \<lparr>cd_utf8 = map char_of,
     cd_parse = (\<lambda>t. if t = ''h'' then Some (JObj [(''type'', JStr ''hello'')]) else None),
     cd_ellipsis = ''...'', cd_maxLineBytes = 8\<rparr>"

text \<open>The frame before a bad line arrives when it comes in an earlier chunk, and is lost in the same one.\<close>

lemma demo_streams:
  "decoder_run demo_codec [[104], [10, 104], [10, 32]] []
     = ([[(''type'', JStr ''hello'')], [(''type'', JStr ''hello'')]], Inr [32])"
  "fst (decoder_run demo_codec [[104, 10], [120, 10]] []) = [[(''type'', JStr ''hello'')]]"
  "fst (decoder_run demo_codec [[104, 10, 120, 10]] []) = []"
  by code_simp+

theorem decoding_ignores_chunk_boundaries_witness:
  "fst (decoder_run demo_codec [[104], [10, 104], [10, 32]] []) = fst (decoder_run demo_codec [[104, 10, 104, 10, 32]] [])
   \<and> snd (decoder_run demo_codec [[104, 10], [120, 10]] []) = snd (decoder_run demo_codec [[104, 10, 120, 10]] [])"
proof
  show "fst (decoder_run demo_codec [[104], [10, 104], [10, 32]] []) = fst (decoder_run demo_codec [[104, 10, 104, 10, 32]] [])"
    using decoding_ignores_chunk_boundaries [of "[[104], [10, 104], [10, 32]]" "[[104, 10, 104, 10, 32]]" demo_codec]
    by (simp add: demo_streams(1))
  show "snd (decoder_run demo_codec [[104, 10], [120, 10]] []) = snd (decoder_run demo_codec [[104, 10, 120, 10]] [])"
    using decoding_ignores_chunk_boundaries [of "[[104, 10], [120, 10]]" "[[104, 10, 120, 10]]" demo_codec] by simp
qed

end
