(* ===== verification/RootLock.thy ===== *)
theory RootLock
  imports Prelude
begin

text \<open>
  The projects-root lock, \<open>src/rootLock.ts\<close>: generation-numbered records in a shared directory, taken
  by publishing the next generation, confirming that it is the highest and collecting the dead ones
  below.  A file-system call is one step, and the steps of different servers interleave freely.

  A server is named by its token.  Whether its socket accepts a connection is its \<open>sv_listening\<close>; a
  probe that cannot tell reads as alive.  The socket files, the sweeping of staged records and the
  probe of hard links are not modelled; that a publish can fail because its staged record was swept is.
\<close>

subsection \<open>Records\<close>

datatype root_sock = Store_sock string | Tmp_sock string | Pipe_sock string

record root_record =
  rr_pid :: string
  rr_token :: string
  rr_sock :: root_sock
  rr_handoverTo :: "string option"

text \<open>\<open>path.basename(name) === name\<close> and \<open>path.isAbsolute\<close>, on POSIX.\<close>

definition plain_name :: "string \<Rightarrow> bool" where
  "plain_name name \<longleftrightarrow> name \<noteq> [] \<and> name \<noteq> ''.'' \<and> name \<noteq> ''..'' \<and> CHR ''/'' \<notin> set name"

definition parseSock :: "json option \<Rightarrow> root_sock option" where
  "parseSock v =
     (let m = map_of (asRecord v); kind = as_str (m ''kind''); name = as_str (m ''name''); p = as_str (m ''path'') in
      case kind of
        None \<Rightarrow> None
      | Some k \<Rightarrow>
          if k = ''store'' then (case name of Some n \<Rightarrow> if plain_name n then Some (Store_sock n) else None | None \<Rightarrow> None)
          else if k = ''tmp'' then (case p of Some q \<Rightarrow> if starts_with q ''/'' then Some (Tmp_sock q) else None | None \<Rightarrow> None)
          else if k = ''pipe'' then (case name of Some n \<Rightarrow> if n \<noteq> [] then Some (Pipe_sock n) else None | None \<Rightarrow> None)
          else None)"

text \<open>The parsed value of a record's text; a number is kept as its canonical text.\<close>

definition parseRootLockRecord :: "json option \<Rightarrow> root_record option" where
  "parseRootLockRecord parsed =
     (let m = map_of (asRecord parsed) in
      case (m ''pid'', as_str (m ''token''), parseSock (m ''sock'')) of
        (Some (JNum pid), Some token, Some s) \<Rightarrow>
          if m ''v'' \<noteq> Some (JNum ''1'') then None
          else (case m ''handoverTo'' of
              Some JNull \<Rightarrow> Some \<lparr>rr_pid = pid, rr_token = token, rr_sock = s, rr_handoverTo = None\<rparr>
            | Some (JStr h) \<Rightarrow> Some \<lparr>rr_pid = pid, rr_token = token, rr_sock = s, rr_handoverTo = Some h\<rparr>
            | _ \<Rightarrow> None)
      | _ \<Rightarrow> None)"

fun sock_json :: "root_sock \<Rightarrow> json" where
  "sock_json (Store_sock n) = JObj [(''kind'', JStr ''store''), (''name'', JStr n)]"
| "sock_json (Tmp_sock p) = JObj [(''kind'', JStr ''tmp''), (''path'', JStr p)]"
| "sock_json (Pipe_sock n) = JObj [(''kind'', JStr ''pipe''), (''name'', JStr n)]"

definition record_text :: "root_record \<Rightarrow> json" where
  "record_text r = JObj [(''v'', JNum ''1''), (''pid'', JNum (rr_pid r)), (''token'', JStr (rr_token r)),
     (''sock'', sock_json (rr_sock r)),
     (''handoverTo'', (case rr_handoverTo r of None \<Rightarrow> JNull | Some h \<Rightarrow> JStr h))]"

subsection \<open>The directory\<close>

text \<open>
  A generation's file: a whole record, or, where the file system has no hard links, one that its
  creator has not written yet.
\<close>

datatype gen_file = Torn string | Written root_record

type_synonym lock_dir = "(nat, gen_file) jmap"

datatype record_read = No_record | Bad_record | Read_record root_record

definition listGens :: "lock_dir \<Rightarrow> nat list" where
  "listGens d = jkeys d"

fun maxGen :: "nat list \<Rightarrow> nat option" where
  "maxGen [] = None"
| "maxGen (g # gs) = Some (fold max gs g)"

definition readRecord :: "lock_dir \<Rightarrow> nat \<Rightarrow> record_read" where
  "readRecord d g = (case map_of d g of
      None \<Rightarrow> No_record | Some (Torn _) \<Rightarrow> Bad_record | Some (Written r) \<Rightarrow> Read_record r)"

definition ours :: "lock_dir \<Rightarrow> nat \<Rightarrow> string \<Rightarrow> bool" where
  "ours d g token = (case readRecord d g of Read_record r \<Rightarrow> rr_token r = token | _ \<Rightarrow> False)"

subsection \<open>A server\<close>

datatype stop_reason = Lock_held string | Lock_unreadable | Lock_unsettled | Lock_closed

definition ACQUIRE_ATTEMPTS :: nat where
  "ACQUIRE_ATTEMPTS = 50"

text \<open>
  Where a server stands: the numbers are generations, \<open>Collecting\<close> carries the rest of the listing.
\<close>

datatype stage =
    Looking
  | Reading nat
  | Probing nat root_record
  | Publishing nat
  | Filling nat
  | Confirming nat
  | Backing_off nat
  | Confirmed nat
  | Collecting nat "nat list"
  | Checking nat "nat list" nat root_record
  | Dropping nat "nat list" nat
  | Holding nat
  | Released
  | Stopped stop_reason

record server =
  sv_pid :: string
  sv_sock :: root_sock
  sv_handover :: "string option"
  sv_attempt :: nat
  sv_stage :: stage
  sv_listening :: bool

definition record_of :: "string \<Rightarrow> server \<Rightarrow> string option \<Rightarrow> root_record" where
  "record_of token sv ho = \<lparr>rr_pid = sv_pid sv, rr_token = token, rr_sock = sv_sock sv, rr_handoverTo = ho\<rparr>"

text \<open>The top of the directory, its record, and the answer of the probe.\<close>

definition after_look :: "nat \<Rightarrow> lock_dir \<Rightarrow> stage" where
  "after_look attempt d = (if attempt \<ge> ACQUIRE_ATTEMPTS then Stopped Lock_unsettled else case maxGen (listGens d) of None \<Rightarrow> Publishing 1 | Some hi \<Rightarrow> Reading hi)"

definition after_read :: "string option \<Rightarrow> nat \<Rightarrow> lock_dir \<Rightarrow> stage" where
  "after_read handover hi d =
     (case readRecord d hi of
        No_record \<Rightarrow> Looking
      | Bad_record \<Rightarrow> Stopped Lock_unreadable
      | Read_record r \<Rightarrow>
          if handover \<noteq> None \<and> rr_handoverTo r = handover then Publishing (hi + 1) else Probing hi r)"

definition after_probe :: "bool \<Rightarrow> nat \<Rightarrow> root_record \<Rightarrow> stage" where
  "after_probe alive hi r = (if alive then Stopped (Lock_held (rr_pid r)) else Publishing (hi + 1))"

text \<open>
  The exclusive create, in one step where there are hard links, else empty and then filled.  What
  fills a file that was removed meanwhile reaches no reader.
\<close>

definition publish_gen :: "bool \<Rightarrow> string \<Rightarrow> server \<Rightarrow> nat \<Rightarrow> lock_dir \<Rightarrow> stage \<times> lock_dir" where
  "publish_gen links token sv mine d =
     (if mine \<in> set (listGens d) then (Looking, d)
      else if links then (Confirming mine, jput mine (Written (record_of token sv None)) d)
      else (Filling mine, jput mine (Torn token) d))"

definition fill_gen :: "string \<Rightarrow> server \<Rightarrow> nat \<Rightarrow> lock_dir \<Rightarrow> stage \<times> lock_dir" where
  "fill_gen token sv mine d =
     (Confirming mine, if map_of d mine = Some (Torn token) then jput mine (Written (record_of token sv None)) d else d)"

definition after_confirm :: "nat \<Rightarrow> lock_dir \<Rightarrow> stage" where
  "after_confirm mine d = (if maxGen (listGens d) = Some mine then Confirmed mine else Backing_off mine)"

text \<open>\<open>collectBelow\<close>, one listed generation at a time.\<close>

fun collect_next :: "nat \<Rightarrow> nat list \<Rightarrow> lock_dir \<Rightarrow> stage" where
  "collect_next mine [] d = Holding mine"
| "collect_next mine (g # gs) d =
     (if g \<ge> mine then Collecting mine gs
      else (case readRecord d g of
          No_record \<Rightarrow> Collecting mine gs
        | Bad_record \<Rightarrow> Dropping mine gs g
        | Read_record r \<Rightarrow> Checking mine gs g r))"

definition offerHandover :: "string \<Rightarrow> server \<Rightarrow> nat \<Rightarrow> string \<Rightarrow> lock_dir \<Rightarrow> bool \<times> lock_dir" where
  "offerHandover token sv g next d =
     (if ours d g token then (True, jput g (Written (record_of token sv (Some next))) d) else (False, d))"

definition releaseSync :: "string \<Rightarrow> nat \<Rightarrow> lock_dir \<Rightarrow> lock_dir" where
  "releaseSync token g d = (if ours d g token then jdrop g d else d)"

text \<open>What the environment decides of a step: a probe's answer, a swept record, the owner's wishes.\<close>

datatype choice = Go | Answer bool | Swept | Offer string | Release

text \<open>
  One call of a server.  A probe may answer \<open>dead\<close> only when nothing listens.
\<close>

definition go :: "choice \<Rightarrow> 'a \<Rightarrow> 'a option" where
  "go c x = (if c = Go then Some x else None)"

definition probe :: "(string \<Rightarrow> bool) \<Rightarrow> root_record \<Rightarrow> choice \<Rightarrow> bool option" where
  "probe alive r c = (case c of Answer b \<Rightarrow> if b \<or> \<not> alive (rr_token r) then Some b else None | _ \<Rightarrow> None)"

definition hold_step :: "string \<Rightarrow> server \<Rightarrow> nat \<Rightarrow> choice \<Rightarrow> lock_dir \<Rightarrow> (stage \<times> lock_dir) option" where
  "hold_step t sv g c d =
     (case c of
        Offer next \<Rightarrow> Some (Holding g, snd (offerHandover t sv g next d))
      | Release \<Rightarrow> Some (Released, releaseSync t g d)
      | _ \<Rightarrow> None)"

definition server_step :: "bool \<Rightarrow> (string \<Rightarrow> bool) \<Rightarrow> string \<Rightarrow> server \<Rightarrow> choice \<Rightarrow> lock_dir \<Rightarrow> (stage \<times> lock_dir) option" where
  "server_step links alive t sv c d =
     (case sv_stage sv of
        Looking \<Rightarrow> go c (after_look (sv_attempt sv) d, d)
      | Reading g \<Rightarrow> go c (after_read (sv_handover sv) g d, d)
      | Probing g r \<Rightarrow> map_option (\<lambda>b. (after_probe b g r, d)) (probe alive r c)
      | Publishing mine \<Rightarrow> if c = Swept \<and> links then Some (Looking, d) else go c (publish_gen links t sv mine d)
      | Filling mine \<Rightarrow> go c (fill_gen t sv mine d)
      | Confirming mine \<Rightarrow> go c (after_confirm mine d, d)
      | Backing_off mine \<Rightarrow> go c (Looking, jdrop mine d)
      | Confirmed mine \<Rightarrow> go c (Collecting mine (listGens d), d)
      | Collecting mine gs \<Rightarrow> go c (collect_next mine gs d, d)
      | Checking mine gs g r \<Rightarrow>
          map_option (\<lambda>b. (if b then Collecting mine gs else Dropping mine gs g, d)) (probe alive r c)
      | Dropping mine gs g \<Rightarrow> go c (Collecting mine gs, jdrop g d)
      | Holding g \<Rightarrow> hold_step t sv g c d
      | Released \<Rightarrow> go c (Stopped Lock_closed, d)
      | Stopped _ \<Rightarrow> None)"

subsection \<open>The servers together\<close>

record lock_world =
  lw_dir :: lock_dir
  lw_servers :: "string \<Rightarrow> server option"

definition empty_world :: lock_world where
  "empty_world = \<lparr>lw_dir = [], lw_servers = (\<lambda>_. None)\<rparr>"

definition alive :: "lock_world \<Rightarrow> string \<Rightarrow> bool" where
  "alive w t = (case lw_servers w t of Some sv \<Rightarrow> sv_listening sv | None \<Rightarrow> False)"

text \<open>A \<open>continue\<close> of the acquire loop starts the next attempt.\<close>

definition enter :: "server \<Rightarrow> stage \<Rightarrow> server" where
  "enter sv st = sv\<lparr>sv_stage := st, sv_attempt := (if st = Looking then Suc (sv_attempt sv) else sv_attempt sv),
     sv_listening := (case st of Stopped _ \<Rightarrow> False | _ \<Rightarrow> True)\<rparr>"

datatype event = Start string string root_sock "string option" | Act string choice | Crash string

text \<open>
  A server listens before any record names it, and reads an empty handover variable as none; stopping closes its listener, and so does a crash at
  any point, which leaves its records behind.
\<close>

fun world_step :: "bool \<Rightarrow> event \<Rightarrow> lock_world \<Rightarrow> lock_world option" where
  "world_step links (Start t pid s ho) w =
     (if lw_servers w t = None then
        Some (w\<lparr>lw_servers := (lw_servers w)(t \<mapsto>
          \<lparr>sv_pid = pid, sv_sock = s, sv_handover = (if ho = Some [] then None else ho), sv_attempt = 0,
            sv_stage = Looking, sv_listening = True\<rparr>)\<rparr>)
      else None)"
| "world_step links (Act t c) w =
     (case lw_servers w t of
        None \<Rightarrow> None
      | Some sv \<Rightarrow>
          if \<not> sv_listening sv then None
          else (case server_step links (alive w) t sv c (lw_dir w) of
              None \<Rightarrow> None
            | Some (st, d) \<Rightarrow> Some \<lparr>lw_dir = d,
                lw_servers = (lw_servers w)(t \<mapsto> enter sv st)\<rparr>))"
| "world_step links (Crash t) w =
     (case lw_servers w t of
        None \<Rightarrow> None
      | Some sv \<Rightarrow> Some (w\<lparr>lw_servers := (lw_servers w)(t \<mapsto> sv\<lparr>sv_listening := False\<rparr>)\<rparr>))"

fun world_run :: "bool \<Rightarrow> event list \<Rightarrow> lock_world \<Rightarrow> lock_world option" where
  "world_run links [] w = Some w"
| "world_run links (e # es) w = (case world_step links e w of None \<Rightarrow> None | Some w' \<Rightarrow> world_run links es w')"

end
