(* ===== verification/RootLockSafety.thy ===== *)
theory RootLockSafety
  imports RootLock
begin

text \<open>
  At most one server holds a projects root without having offered it on.  A confirmed server's record
  is the highest generation or carries an offer; that this survives every step of every other server is
  a monotonicity of the directory (\<open>evolves\<close>) and an invariant of where each server stands (\<open>fits\<close>).

  It needs the releases to be orderly: a record removed from the top while a contender is between its
  look and its confirm lets that contender act on a judgement of a generation that is gone, and
  \<open>stale_judgement_makes_a_second_holder\<close> below is that run.
\<close>

subsection \<open>The top of the directory\<close>

definition hi_gen :: "lock_dir \<Rightarrow> nat" where
  "hi_gen d = foldr max (jkeys d) 0"

lemma hi_gen_ge: "g \<in> set (jkeys d) \<Longrightarrow> g \<le> hi_gen d"
  by (induction d) (auto simp: hi_gen_def le_max_iff_disj)

lemma le_hi_gen: "map_of d g = Some f \<Longrightarrow> g \<le> hi_gen d"
  by (rule hi_gen_ge) (force dest: map_of_SomeD)

lemma hi_gen_mem: "hi_gen d = 0 \<or> hi_gen d \<in> set (jkeys d)"
  by (induction d) (auto simp: hi_gen_def max_def)

lemma hi_gen_present: "hi_gen d \<noteq> 0 \<Longrightarrow> \<exists>f. map_of d (hi_gen d) = Some f"
  using hi_gen_mem [of d] jhas_iff [of d] by (auto simp: jhas_obtain)

lemma hi_gen_jput: "hi_gen (jput g f d) = max g (hi_gen d)"
  by (induction d) (auto simp: hi_gen_def max.left_commute)

lemma hi_gen_jdrop:
  assumes "g < hi_gen d"
  shows "hi_gen (jdrop g d) = hi_gen d"
proof (rule antisym)
  have set: "set (jkeys (jdrop g d)) = set (jkeys d) - {g}" by (rule jkeys_jdrop)
  show "hi_gen (jdrop g d) \<le> hi_gen d"
    using hi_gen_mem [of "jdrop g d"] hi_gen_ge [of _ d] unfolding set by auto
  show "hi_gen d \<le> hi_gen (jdrop g d)"
    using hi_gen_mem [of d] hi_gen_ge [of "hi_gen d" "jdrop g d"] assms unfolding set by auto
qed

lemma maxGen_hi: "maxGen (listGens d) = (if d = [] then None else Some (hi_gen d))"
proof (cases d)
  case (Cons p ps)
  have "fold max gs g = max g (foldr max gs (0 :: nat))" for gs g
    by (induction gs arbitrary: g) (auto simp: max.assoc max.commute max.left_commute)
  then show ?thesis by (simp add: Cons listGens_def hi_gen_def)
qed (simp add: listGens_def)

subsection \<open>How the directory evolves\<close>

text \<open>
  A step of \<open>t\<close> never lowers the top, and leaves every record and every half-written file of another
  server in place or below the top.
\<close>

definition kept :: "root_record \<Rightarrow> lock_dir \<Rightarrow> nat \<Rightarrow> bool" where
  "kept r d g \<longleftrightarrow> (\<exists>r'. map_of d g = Some (Written r') \<and> rr_token r' = rr_token r \<and>
     (rr_handoverTo r \<noteq> None \<longrightarrow> rr_handoverTo r' \<noteq> None))"

definition evolves :: "string \<Rightarrow> lock_dir \<Rightarrow> lock_dir \<Rightarrow> bool" where
  "evolves t d d' \<longleftrightarrow> hi_gen d \<le> hi_gen d' \<and>
     (\<forall>g r. map_of d g = Some (Written r) \<longrightarrow> g < hi_gen d' \<or> kept r d' g) \<and>
     (\<forall>g q. q \<noteq> t \<longrightarrow> map_of d g = Some (Torn q) \<longrightarrow> g < hi_gen d' \<or> map_of d' g = Some (Torn q))"

lemma kept_refl: "map_of d g = Some (Written r) \<Longrightarrow> kept r d g"
  by (simp add: kept_def)

lemma evolves_refl [simp]: "evolves t d d"
  by (auto simp: evolves_def kept_refl)

lemma evolves_kept:
  assumes ev: "evolves t d d'" and "g < hi_gen d \<or> kept r d g"
  shows "g < hi_gen d' \<or> kept r d' g"
  using assms(2)
proof
  assume "kept r d g"
  then obtain r' where r: "map_of d g = Some (Written r')" "rr_token r' = rr_token r"
    "rr_handoverTo r \<noteq> None \<longrightarrow> rr_handoverTo r' \<noteq> None" by (auto simp: kept_def)
  from ev r(1) have "g < hi_gen d' \<or> kept r' d' g" by (simp add: evolves_def)
  with r show ?thesis by (auto simp: kept_def)
qed (use ev in \<open>simp add: evolves_def\<close>)

lemma evolves_written:
  "evolves t d d' \<Longrightarrow> map_of d g = Some (Written r) \<Longrightarrow>
   g < hi_gen d' \<or> (\<exists>r'. map_of d' g = Some (Written r') \<and> rr_token r' = rr_token r \<and>
     (rr_handoverTo r \<noteq> None \<longrightarrow> rr_handoverTo r' \<noteq> None))"
  by (simp add: evolves_def kept_def)

lemma evolves_new:
  "map_of d g = None \<Longrightarrow> evolves t d (jput g f d)"
  by (auto simp: evolves_def kept_def hi_gen_jput map_of_jput)

lemma evolves_fill:
  "map_of d g = Some (Torn t) \<Longrightarrow> evolves t d (jput g (Written r) d)"
  by (auto simp: evolves_def kept_def hi_gen_jput map_of_jput)

lemma evolves_offer:
  "map_of d g = Some (Written r) \<Longrightarrow> rr_token r = rr_token r' \<Longrightarrow> rr_handoverTo r' \<noteq> None \<Longrightarrow>
   evolves t d (jput g (Written r') d)"
  by (auto simp: evolves_def kept_def hi_gen_jput map_of_jput)

lemma evolves_drop:
  "g < hi_gen d \<Longrightarrow> evolves t d (jdrop g d)"
  by (auto simp: evolves_def kept_def hi_gen_jdrop map_of_jdrop)

subsection \<open>The invariant\<close>

fun mine_of :: "stage \<Rightarrow> nat option" where
  "mine_of (Confirmed g) = Some g"
| "mine_of (Collecting g _) = Some g"
| "mine_of (Checking g _ _ _) = Some g"
| "mine_of (Dropping g _ _) = Some g"
| "mine_of (Holding g) = Some g"
| "mine_of _ = None"

text \<open>Between two attempts, or done: no judgement of a generation is pending.\<close>

fun settled_stage :: "stage \<Rightarrow> bool" where
  "settled_stage Looking = True"
| "settled_stage (Holding _) = True"
| "settled_stage Released = True"
| "settled_stage (Stopped _) = True"
| "settled_stage _ = False"

definition known :: "lock_world \<Rightarrow> string \<Rightarrow> bool" where
  "known w t \<longleftrightarrow> lw_servers w t \<noteq> None"

definition stands :: "lock_world \<Rightarrow> string \<Rightarrow> stage \<Rightarrow> bool" where
  "stands w t st \<longleftrightarrow> (\<exists>sv. lw_servers w t = Some sv \<and> sv_listening sv \<and> sv_stage sv = st)"

definition confirmed_at :: "lock_world \<Rightarrow> string \<Rightarrow> nat \<Rightarrow> bool" where
  "confirmed_at w t g \<longleftrightarrow> (\<exists>st. stands w t st \<and> mine_of st = Some g)"

definition dead :: "lock_world \<Rightarrow> string \<Rightarrow> bool" where
  "dead w t \<longleftrightarrow> known w t \<and> \<not> alive w t"

definition owned :: "lock_dir \<Rightarrow> string \<Rightarrow> nat \<Rightarrow> bool" where
  "owned d t g \<longleftrightarrow> (\<exists>r. map_of d g = Some (Written r) \<and> rr_token r = t)"

definition held :: "lock_dir \<Rightarrow> string \<Rightarrow> nat \<Rightarrow> bool" where
  "held d t g \<longleftrightarrow> (\<exists>r. map_of d g = Some (Written r) \<and> rr_token r = t \<and> (g = hi_gen d \<or> rr_handoverTo r \<noteq> None))"

fun fits :: "lock_world \<Rightarrow> string \<Rightarrow> stage \<Rightarrow> bool" where
  "fits w t (Probing g r) \<longleftrightarrow> known w (rr_token r) \<and> (g < hi_gen (lw_dir w) \<or> kept r (lw_dir w) g)"
| "fits w t (Publishing m) \<longleftrightarrow> 0 < m \<and> (m = 1 \<or> m \<le> hi_gen (lw_dir w) \<or>
     (\<exists>r. map_of (lw_dir w) (m - 1) = Some (Written r) \<and> (dead w (rr_token r) \<or> rr_handoverTo r \<noteq> None)))"
| "fits w t (Filling m) \<longleftrightarrow> (m < hi_gen (lw_dir w) \<or> map_of (lw_dir w) m = Some (Torn t)) \<and> (\<forall>q. \<not> confirmed_at w q m)"
| "fits w t (Confirming m) \<longleftrightarrow> (m < hi_gen (lw_dir w) \<or> owned (lw_dir w) t m) \<and> (\<forall>q. \<not> confirmed_at w q m)"
| "fits w t (Backing_off m) \<longleftrightarrow> m < hi_gen (lw_dir w) \<and> (\<forall>q. \<not> confirmed_at w q m)"
| "fits w t (Checking m gs g r) \<longleftrightarrow> held (lw_dir w) t m \<and> g < m \<and> known w (rr_token r) \<and>
     (\<forall>q. confirmed_at w q g \<longrightarrow> q = rr_token r)"
| "fits w t (Dropping m gs g) \<longleftrightarrow> held (lw_dir w) t m \<and> g < m \<and> (\<forall>q. \<not> confirmed_at w q g)"
| "fits w t (Confirmed m) \<longleftrightarrow> held (lw_dir w) t m"
| "fits w t (Collecting m gs) \<longleftrightarrow> held (lw_dir w) t m"
| "fits w t (Holding m) \<longleftrightarrow> held (lw_dir w) t m"
| "fits w t st \<longleftrightarrow> True"

definition lock_ok :: "lock_world \<Rightarrow> bool" where
  "lock_ok w \<longleftrightarrow> (\<forall>t st. stands w t st \<longrightarrow> fits w t st) \<and>
     (\<forall>g f. map_of (lw_dir w) g = Some f \<longrightarrow> 0 < g) \<and>
     (\<forall>g r. map_of (lw_dir w) g = Some (Written r) \<longrightarrow> known w (rr_token r))"

lemma evolves_owned:
  assumes "evolves t d d'" "g < hi_gen d \<or> owned d q g"
  shows "g < hi_gen d' \<or> owned d' q g"
  using assms(2)
proof
  assume "owned d q g"
  then obtain r where "map_of d g = Some (Written r)" "rr_token r = q" by (auto simp: owned_def)
  with evolves_written [OF assms(1) this(1)] show ?thesis by (auto simp: owned_def)
qed (use assms(1) in \<open>simp add: evolves_def\<close>)

lemma held_le: "held d t g \<Longrightarrow> g \<le> hi_gen d"
  by (auto simp: held_def le_hi_gen)

text \<open>What a step of \<open>t\<close> leaves as it was for everybody else.\<close>

definition calm :: "string \<Rightarrow> lock_world \<Rightarrow> lock_world \<Rightarrow> bool" where
  "calm t w w' \<longleftrightarrow> evolves t (lw_dir w) (lw_dir w') \<and>
     (\<forall>x. known w x \<longrightarrow> known w' x) \<and> (\<forall>x. dead w x \<longrightarrow> dead w' x) \<and>
     (\<forall>q g. q \<noteq> t \<longrightarrow> confirmed_at w q g \<longrightarrow> held (lw_dir w) q g \<longrightarrow> held (lw_dir w') q g) \<and>
     (\<forall>q g. confirmed_at w' q g \<longrightarrow> confirmed_at w q g \<or> q = t \<and> g = hi_gen (lw_dir w') \<and> owned (lw_dir w') t g)"

lemma fits_calm:
  assumes calm: "calm t w w'" and fits: "fits w q st" and q: "q \<noteq> t" "stands w q st"
  shows "fits w' q st"
proof -
  have ev: "evolves t (lw_dir w) (lw_dir w')" using calm by (simp add: calm_def)
  have conf: "confirmed_at w' x g \<Longrightarrow> confirmed_at w x g \<or> x = t \<and> g = hi_gen (lw_dir w') \<and> owned (lw_dir w') t g" for x g
    using calm by (simp add: calm_def)
  have kn: "known w x \<Longrightarrow> known w' x" and dd: "dead w x \<Longrightarrow> dead w' x" for x using calm by (simp_all add: calm_def)
  have hold: "held (lw_dir w') q g" "g \<le> hi_gen (lw_dir w')" if "mine_of st = Some g" "held (lw_dir w) q g" for g
  proof -
    have "confirmed_at w q g" using q(2) that by (auto simp: confirmed_at_def)
    with calm q that show "held (lw_dir w') q g" by (simp add: calm_def)
    then show "g \<le> hi_gen (lw_dir w')" by (rule held_le)
  qed
  have up: "m < hi_gen (lw_dir w) \<Longrightarrow> m < hi_gen (lw_dir w')" for m using ev by (simp add: evolves_def)
  show ?thesis
  proof (cases st)
    case (Checking m gs g r)
    then have f: "held (lw_dir w) q m" "known w (rr_token r)" "g < m" "\<And>x. confirmed_at w x g \<Longrightarrow> x = rr_token r"
      using fits by simp_all
    from Checking have "mine_of st = Some m" by simp
    note h = hold [OF this f(1)]
    have "x = rr_token r" if "confirmed_at w' x g" for x
      using conf [OF that] h(2) f(3) f(4) [of x] by linarith
    with f(3) h(1) kn [OF f(2)] show ?thesis unfolding Checking by simp
  next
    case (Dropping m gs g)
    then have f: "held (lw_dir w) q m" "g < m" "\<And>x. \<not> confirmed_at w x g" using fits by simp_all
    from Dropping have "mine_of st = Some m" by simp
    note h = hold [OF this f(1)]
    have "\<not> confirmed_at w' x g" for x
      using conf [of x g] h(2) f(2) f(3) [of x] by linarith
    with f(2) h(1) show ?thesis unfolding Dropping by simp
  next
    case (Probing g r)
    then have f: "known w (rr_token r)" "g < hi_gen (lw_dir w) \<or> kept r (lw_dir w) g" using fits by simp_all
    have "g < hi_gen (lw_dir w') \<or> kept r (lw_dir w') g"
      by (rule evolves_kept [OF ev f(2)])
    with kn [OF f(1)] show ?thesis unfolding Probing by simp
  next
    case (Publishing m)
    show ?thesis
    proof (cases "m = 1 \<or> m \<le> hi_gen (lw_dir w)")
      case True
      with fits Publishing ev show ?thesis by (auto simp: evolves_def)
    next
      case False
      with fits Publishing obtain r where r: "map_of (lw_dir w) (m - 1) = Some (Written r)"
        "dead w (rr_token r) \<or> rr_handoverTo r \<noteq> None" "0 < m" by auto
      from evolves_written [OF ev r(1)] show ?thesis
      proof
        assume "m - 1 < hi_gen (lw_dir w')"
        with r(3) have "m \<le> hi_gen (lw_dir w')" by linarith
        with r(3) Publishing show ?thesis by simp
      next
        assume "\<exists>r'. map_of (lw_dir w') (m - 1) = Some (Written r') \<and> rr_token r' = rr_token r \<and>
          (rr_handoverTo r \<noteq> None \<longrightarrow> rr_handoverTo r' \<noteq> None)"
        with r(2,3) dd [of "rr_token r"] Publishing show ?thesis by auto
      qed
    qed
  next
    case (Filling m)
    with fits q ev have "m < hi_gen (lw_dir w') \<or> map_of (lw_dir w') m = Some (Torn q)" by (auto simp: evolves_def)
    moreover have "\<forall>x. \<not> confirmed_at w x m" using fits Filling by simp
    ultimately show ?thesis using conf [of _ m] unfolding Filling by (auto simp: owned_def)
  next
    case (Confirming m)
    with fits have "m < hi_gen (lw_dir w) \<or> owned (lw_dir w) q m" by simp
    then have "m < hi_gen (lw_dir w') \<or> owned (lw_dir w') q m" by (rule evolves_owned [OF ev])
    moreover have "\<forall>x. \<not> confirmed_at w x m" using fits Confirming by simp
    ultimately show ?thesis using conf [of _ m] q unfolding Confirming by (auto simp: owned_def)
  next
    case (Backing_off m)
    with fits up [of m] have "m < hi_gen (lw_dir w')" "\<forall>x. \<not> confirmed_at w x m" by auto
    with conf [of _ m] show ?thesis unfolding Backing_off by auto
  qed (use fits hold in auto)
qed

subsection \<open>One step\<close>

definition acted :: "lock_world \<Rightarrow> string \<Rightarrow> server \<Rightarrow> stage \<Rightarrow> lock_dir \<Rightarrow> lock_world" where
  "acted w t sv st d = \<lparr>lw_dir = d, lw_servers = (lw_servers w)(t \<mapsto> enter sv st)\<rparr>"

lemma acted_dir [simp]: "lw_dir (acted w t sv st d) = d"
  by (simp add: acted_def)

lemma stands_acted:
  "stands (acted w t sv st d) q st' \<longleftrightarrow>
     (if q = t then st' = st \<and> (\<forall>x. st \<noteq> Stopped x) else stands w q st')"
  by (auto simp: stands_def acted_def enter_def split: stage.splits)

lemma known_acted: "known (acted w t sv st d) q \<longleftrightarrow> q = t \<or> known w q"
  by (simp add: known_def acted_def)

lemma alive_stands: "alive w q \<longleftrightarrow> (\<exists>st. stands w q st)"
  by (auto simp: alive_def stands_def split: option.splits)

lemma confirmed_acted:
  "confirmed_at (acted w t sv st d) q g \<longleftrightarrow> (if q = t then mine_of st = Some g else confirmed_at w q g)"
  by (auto simp: confirmed_at_def stands_acted)

lemma confirmed_alive: "confirmed_at w q g \<Longrightarrow> \<not> dead w q"
  by (auto simp: confirmed_at_def dead_def alive_stands)

lemma lock_ok_held: "lock_ok w \<Longrightarrow> confirmed_at w q g \<Longrightarrow> held (lw_dir w) q g"
proof -
  assume "lock_ok w" "confirmed_at w q g"
  then obtain st where "fits w q st" "mine_of st = Some g" by (auto simp: confirmed_at_def lock_ok_def)
  then show ?thesis by (cases st) auto
qed

lemma lock_ok_owner:
  "lock_ok w \<Longrightarrow> confirmed_at w q g \<Longrightarrow> map_of (lw_dir w) g = Some f \<Longrightarrow> \<exists>r. f = Written r \<and> rr_token r = q"
  using lock_ok_held [of w q g] by (auto simp: held_def)

text \<open>A step of the server \<open>t\<close> that evolves the directory keeps the invariant when its own new stage fits.\<close>

lemma acted_ok:
  assumes ok: "lock_ok w" and t: "stands w t st0"
    and ev: "evolves t (lw_dir w) d"
    and others: "\<And>q g. q \<noteq> t \<Longrightarrow> confirmed_at w q g \<Longrightarrow> held (lw_dir w) q g \<Longrightarrow> held d q g"
    and new: "\<And>g. mine_of st = Some g \<Longrightarrow> mine_of st0 = Some g \<or> g = hi_gen d \<and> owned d t g"
    and recs: "\<And>g f. map_of d g = Some f \<Longrightarrow> 0 < g \<and> (map_of (lw_dir w) g = Some f \<or>
        (\<forall>r. f = Written r \<longrightarrow> rr_token r = t))"
    and own: "fits (acted w t sv st d) t st"
  shows "lock_ok (acted w t sv st d)"
proof -
  let ?w = "acted w t sv st d"
  have "calm t w ?w"
    unfolding calm_def
  proof (intro conjI allI impI)
    show "dead ?w x" if "dead w x" for x
      using that t by (auto simp: dead_def known_acted alive_stands stands_acted)
    show "confirmed_at w q g \<or> q = t \<and> g = hi_gen (lw_dir ?w) \<and> owned (lw_dir ?w) t g" if "confirmed_at ?w q g" for q g
    proof (cases "q = t")
      case True
      with that have "mine_of st = Some g" by (simp add: confirmed_acted)
      with new [of g] t True show ?thesis by (auto simp: confirmed_at_def)
    qed (use that confirmed_acted in auto)
  qed (use ev others known_acted in auto)
  then have "fits ?w q st'" if "stands ?w q st'" for q st'
    using fits_calm [of t w ?w q st'] that ok own by (auto simp: stands_acted lock_ok_def split: if_splits)
  then show ?thesis
    using recs ok known_acted [of w t sv st d] by (fastforce simp: lock_ok_def)
qed

text \<open>When the directory is untouched.\<close>

lemma acted_same_dir:
  assumes "lock_ok w" "stands w t st0" "fits (acted w t sv st (lw_dir w)) t st"
    "\<And>g. mine_of st = Some g \<Longrightarrow> mine_of st0 = Some g \<or> g = hi_gen (lw_dir w) \<and> owned (lw_dir w) t g"
  shows "lock_ok (acted w t sv st (lw_dir w))"
  using assms by (intro acted_ok [where ?st0.0 = st0]) (auto simp: lock_ok_def)

lemma dead_acted: "stands w t st0 \<Longrightarrow> dead w x \<Longrightarrow> dead (acted w t sv st d) x"
  by (auto simp: dead_def known_acted alive_stands stands_acted)

lemma readRecord_cases:
  "readRecord d g = No_record \<longleftrightarrow> map_of d g = None"
  "readRecord d g = Bad_record \<longleftrightarrow> (\<exists>q. map_of d g = Some (Torn q))"
  "readRecord d g = Read_record r \<longleftrightarrow> map_of d g = Some (Written r)"
  by (auto simp: readRecord_def split: option.splits gen_file.splits)

lemma ours_iff: "ours d g t \<longleftrightarrow> owned d t g"
  by (auto simp: ours_def owned_def readRecord_def split: option.splits gen_file.splits)

lemma listGens_iff: "g \<in> set (listGens d) \<longleftrightarrow> map_of d g \<noteq> None"
  by (simp add: listGens_def map_of_eq_None_iff)

lemma held_owned: "held d t g \<Longrightarrow> owned d t g"
  by (auto simp: held_def owned_def)

lemma owned_unique: "owned d t g \<Longrightarrow> owned d q g \<Longrightarrow> t = q"
  by (auto simp: owned_def)

lemma ok_known: "lock_ok w \<Longrightarrow> map_of (lw_dir w) g = Some (Written r) \<Longrightarrow> known w (rr_token r)"
  by (simp add: lock_ok_def)

lemma ok_fits: "lock_ok w \<Longrightarrow> stands w t st \<Longrightarrow> fits w t st"
  by (simp add: lock_ok_def)

lemma looking_ok:
  assumes "lock_ok w" "stands w t Looking"
  shows "lock_ok (acted w t sv (after_look n (lw_dir w)) (lw_dir w))"
  using assms by (intro acted_same_dir) (auto simp: after_look_def split: option.splits if_splits)

lemma reading_ok:
  assumes "lock_ok w" "stands w t (Reading g)"
  shows "lock_ok (acted w t sv (after_read h g (lw_dir w)) (lw_dir w))"
proof (rule acted_same_dir [OF assms])
  let ?st = "after_read h g (lw_dir w)"
  show "fits (acted w t sv ?st (lw_dir w)) t ?st"
    using ok_known [OF assms(1)]
    by (auto simp: after_read_def readRecord_cases known_acted kept_refl split: record_read.splits)
qed (auto simp: after_read_def split: record_read.splits if_splits)

lemma probing_ok:
  assumes ok: "lock_ok w" and t: "stands w t (Probing g r)" and b: "b \<or> \<not> alive w (rr_token r)"
  shows "lock_ok (acted w t sv (after_probe b g r) (lw_dir w))"
proof (rule acted_same_dir [OF ok t])
  let ?w = "acted w t sv (after_probe b g r) (lw_dir w)"
  show "fits ?w t (after_probe b g r)"
  proof (cases b)
    case False
    from ok_fits [OF ok t] have f: "known w (rr_token r)" "g < hi_gen (lw_dir w) \<or> kept r (lw_dir w) g" by simp_all
    with b False have "dead w (rr_token r)" by (simp add: dead_def)
    then have "dead ?w (rr_token r)" by (rule dead_acted [OF t])
    with f(2) False show ?thesis by (auto simp: after_probe_def kept_def)
  qed (simp add: after_probe_def)
qed (auto simp: after_probe_def split: if_splits)

lemma confirming_ok:
  assumes ok: "lock_ok w" and t: "stands w t (Confirming m)"
  shows "lock_ok (acted w t sv (after_confirm m (lw_dir w)) (lw_dir w))"
proof -
  let ?d = "lw_dir w"
  from ok_fits [OF ok t] have f: "m < hi_gen ?d \<or> owned ?d t m" "\<And>q. \<not> confirmed_at w q m" by simp_all
  then have le: "m \<le> hi_gen ?d" by (auto simp: owned_def le_hi_gen)
  have ne: "?d \<noteq> []" using f(1) by (auto simp: owned_def hi_gen_def)
  show ?thesis
  proof (rule acted_same_dir [OF ok t])
    show "fits (acted w t sv (after_confirm m ?d) ?d) t (after_confirm m ?d)"
      using f le ne by (auto simp: after_confirm_def maxGen_hi held_def owned_def confirmed_acted)
  qed (use f ne in \<open>auto simp: after_confirm_def maxGen_hi split: if_splits\<close>)
qed

lemma collecting_ok:
  assumes ok: "lock_ok w" and t: "stands w t (Collecting m gs)"
  shows "lock_ok (acted w t sv (collect_next m gs (lw_dir w)) (lw_dir w))"
proof -
  from ok_fits [OF ok t] have f: "held (lw_dir w) t m" by simp
  show ?thesis
  proof (rule acted_same_dir [OF ok t])
    show "fits (acted w t sv (collect_next m gs (lw_dir w)) (lw_dir w)) t (collect_next m gs (lw_dir w))"
      using f ok_known [OF ok] lock_ok_owner [OF ok]
      by (cases gs) (fastforce simp: readRecord_cases known_acted confirmed_acted split: record_read.splits if_splits)+
    show "mine_of (Collecting m gs) = Some g \<or> g = hi_gen (lw_dir w) \<and> owned (lw_dir w) t g"
      if "mine_of (collect_next m gs (lw_dir w)) = Some g" for g
      using that by (cases gs) (auto split: record_read.splits if_splits)
  qed
qed

lemma checking_ok:
  assumes ok: "lock_ok w" and t: "stands w t (Checking m gs g r)" and b: "b \<or> \<not> alive w (rr_token r)"
  shows "lock_ok (acted w t sv (if b then Collecting m gs else Dropping m gs g) (lw_dir w))"
proof -
  from ok_fits [OF ok t] have f: "held (lw_dir w) t m" "g < m" "known w (rr_token r)"
    "\<And>q. confirmed_at w q g \<Longrightarrow> q = rr_token r" by simp_all
  have "\<not> confirmed_at w q g" if "\<not> b" for q
    using f(3) f(4) [of q] b that confirmed_alive [of w q g] by (auto simp: dead_def)
  with f show ?thesis
    by (intro acted_same_dir [OF ok t]) (auto simp: confirmed_acted split: if_splits)
qed

lemma dropping_ok:
  assumes ok: "lock_ok w" and t: "stands w t (Dropping m gs g)"
  shows "lock_ok (acted w t sv (Collecting m gs) (jdrop g (lw_dir w)))"
proof (rule acted_ok [OF ok t])
  let ?d = "lw_dir w"
  from ok_fits [OF ok t] have f: "held ?d t m" "g < m" "\<And>q. \<not> confirmed_at w q g" by simp_all
  then have lt: "g < hi_gen ?d" using held_le [OF f(1)] by simp
  then show "evolves t ?d (jdrop g ?d)" by (rule evolves_drop)
  show "held (jdrop g ?d) q g'" if "confirmed_at w q g'" "held ?d q g'" for q g'
    using that f(3) [of q] by (cases "g' = g") (auto simp: held_def map_of_jdrop hi_gen_jdrop [OF lt])
  show "fits (acted w t sv (Collecting m gs) (jdrop g ?d)) t (Collecting m gs)"
    using f(1,2) by (auto simp: held_def map_of_jdrop hi_gen_jdrop [OF lt])
qed (use ok in \<open>auto simp: lock_ok_def map_of_jdrop split: if_splits\<close>)

lemma backing_off_ok:
  assumes ok: "lock_ok w" and t: "stands w t (Backing_off m)"
  shows "lock_ok (acted w t sv Looking (jdrop m (lw_dir w)))"
proof (rule acted_ok [OF ok t])
  let ?d = "lw_dir w"
  from ok_fits [OF ok t] have f: "m < hi_gen ?d" "\<And>q. \<not> confirmed_at w q m" by simp_all
  from f(1) show "evolves t ?d (jdrop m ?d)" by (rule evolves_drop)
  show "held (jdrop m ?d) q g" if "confirmed_at w q g" "held ?d q g" for q g
    using that f(2) [of q] by (cases "g = m") (auto simp: held_def map_of_jdrop hi_gen_jdrop [OF f(1)])
qed (use ok in \<open>auto simp: lock_ok_def map_of_jdrop split: if_splits\<close>)

lemma filling_ok:
  assumes ok: "lock_ok w" and t: "stands w t (Filling m)" and sv: "fill_gen t sv m (lw_dir w) = (st, d)"
  shows "lock_ok (acted w t sv st d)"
proof -
  let ?d = "lw_dir w"
  from ok_fits [OF ok t] have f: "m < hi_gen ?d \<or> map_of ?d m = Some (Torn t)" "\<And>q. \<not> confirmed_at w q m" by simp_all
  have st: "st = Confirming m" using sv by (simp add: fill_gen_def)
  show ?thesis
  proof (cases "map_of ?d m = Some (Torn t)")
    case True
    with sv have d: "d = jput m (Written (record_of t sv None)) ?d" by (simp add: fill_gen_def)
    have hi: "hi_gen d = hi_gen ?d" using le_hi_gen [OF True] by (simp add: d hi_gen_jput)
    show ?thesis
      unfolding st
    proof (rule acted_ok [OF ok t])
      show "evolves t ?d d" unfolding d by (rule evolves_fill [OF True])
      show "held d q g" if "confirmed_at w q g" "held ?d q g" for q g
        using that f(2) [of q] hi by (cases "g = m") (auto simp: held_def d map_of_jput)
      show "fits (acted w t sv (Confirming m) d) t (Confirming m)"
        using f(2) by (auto simp: confirmed_acted owned_def d map_of_jput record_of_def)
      show "0 < g \<and> (map_of ?d g = Some x \<or> (\<forall>r. x = Written r \<longrightarrow> rr_token r = t))"
        if "map_of d g = Some x" for g x
        using that ok True by (auto simp: d map_of_jput lock_ok_def record_of_def split: if_splits)
    qed simp
  next
    case False
    with sv have d: "d = ?d" by (simp add: fill_gen_def)
    show ?thesis
      using f False unfolding st d by (intro acted_same_dir [OF ok t]) (auto simp: confirmed_acted)
  qed
qed

lemma publishing_ok:
  assumes ok: "lock_ok w" and t: "stands w t (Publishing m)" and sv: "publish_gen links t sv m (lw_dir w) = (st, d)"
  shows "lock_ok (acted w t sv st d)"
proof (cases "map_of (lw_dir w) m")
  case (Some x)
  with sv have "st = Looking" "d = lw_dir w" by (simp_all add: publish_gen_def listGens_iff)
  then show ?thesis using ok t by (auto intro: acted_same_dir)
next
  case None
  let ?d = "lw_dir w"
  from ok_fits [OF ok t] have m: "0 < m" and f: "m = 1 \<or> m \<le> hi_gen ?d \<or>
     (\<exists>r. map_of ?d (m - 1) = Some (Written r) \<and> (dead w (rr_token r) \<or> rr_handoverTo r \<noteq> None))" by simp_all
  obtain x where d: "d = jput m x ?d" and x: "x = Torn t \<and> st = Filling m \<or> x = Written (record_of t sv None) \<and> st = Confirming m"
    using sv None by (auto simp: publish_gen_def listGens_iff split: if_splits)
  have hi: "hi_gen d = max m (hi_gen ?d)" by (simp add: d hi_gen_jput)
  have free: "\<not> confirmed_at w q m" for q using lock_ok_held [OF ok, of q m] None by (auto simp: held_def)
  show ?thesis
  proof (rule acted_ok [OF ok t])
    show "evolves t ?d d" unfolding d by (rule evolves_new [OF None])
    show "held d q g" if "q \<noteq> t" and c: "confirmed_at w q g" and h: "held ?d q g" for q g
    proof -
      from h obtain r where r: "map_of ?d g = Some (Written r)" "rr_token r = q" "g = hi_gen ?d \<or> rr_handoverTo r \<noteq> None"
        by (auto simp: held_def)
      have "g = hi_gen d \<or> rr_handoverTo r \<noteq> None"
      proof (cases "m \<le> hi_gen ?d")
        case True
        with r(3) hi show ?thesis by simp
      next
        case False
        have g: "g \<le> hi_gen ?d" "0 < g" using r(1) ok le_hi_gen by (auto simp: lock_ok_def)
        with False f obtain r' where r': "map_of ?d (m - 1) = Some (Written r')" "dead w (rr_token r') \<or> rr_handoverTo r' \<noteq> None"
          by auto
        with le_hi_gen [OF r'(1)] False have "hi_gen ?d = m - 1" by simp
        with r r' c confirmed_alive show ?thesis by auto
      qed
      with r None show ?thesis by (auto simp: held_def d map_of_jput)
    qed
    show "fits (acted w t sv st d) t st"
      using x free by (auto simp: confirmed_acted owned_def d map_of_jput record_of_def)
    show "0 < g \<and> (map_of ?d g = Some y \<or> (\<forall>r. y = Written r \<longrightarrow> rr_token r = t))"
      if "map_of d g = Some y" for g y
      using that ok m x by (auto simp: d map_of_jput lock_ok_def record_of_def split: if_splits)
  qed (use x in auto)
qed

lemma offering_ok:
  assumes ok: "lock_ok w" and t: "stands w t (Holding m)"
  shows "lock_ok (acted w t sv (Holding m) (snd (offerHandover t sv m next' (lw_dir w))))"
proof -
  let ?d = "lw_dir w" let ?r = "record_of t sv (Some next')"
  from ok_fits [OF ok t] have h: "held ?d t m" by simp
  then obtain r where r: "map_of ?d m = Some (Written r)" "rr_token r = t" by (auto simp: held_def)
  have d: "snd (offerHandover t sv m next' ?d) = jput m (Written ?r) ?d"
    using held_owned [OF h] by (simp add: offerHandover_def ours_iff)
  have hi: "hi_gen (jput m (Written ?r) ?d) = hi_gen ?d" using held_le [OF h] by (simp add: hi_gen_jput)
  show ?thesis
    unfolding d
  proof (rule acted_ok [OF ok t])
    show "evolves t ?d (jput m (Written ?r) ?d)" using r by (auto intro!: evolves_offer simp: record_of_def)
    show "held (jput m (Written ?r) ?d) q g" if "q \<noteq> t" "held ?d q g" for q g
      using that r hi by (auto simp: held_def map_of_jput)
    show "fits (acted w t sv (Holding m) (jput m (Written ?r) ?d)) t (Holding m)"
      by (simp add: held_def map_of_jput record_of_def)
    show "0 < g \<and> (map_of ?d g = Some y \<or> (\<forall>r. y = Written r \<longrightarrow> rr_token r = t))"
      if "map_of (jput m (Written ?r) ?d) g = Some y" for g y
      using that ok r by (auto simp: map_of_jput lock_ok_def record_of_def split: if_splits)
  qed simp
qed

text \<open>
  A release is orderly when the record is not the top, or when no other live server is between its look
  and its confirm.
\<close>

definition orderly :: "lock_world \<Rightarrow> event \<Rightarrow> bool" where
  "orderly w e = (case e of
      Act t Release \<Rightarrow> \<forall>g q st. stands w t (Holding g) \<longrightarrow> g = hi_gen (lw_dir w) \<longrightarrow> q \<noteq> t \<longrightarrow>
        stands w q st \<longrightarrow> settled_stage st
    | _ \<Rightarrow> True)"

lemma releasing_ok:
  assumes ok: "lock_ok w" and t: "stands w t (Holding m)" and o: "orderly w (Act t Release)"
  shows "lock_ok (acted w t sv Released (releaseSync t m (lw_dir w)))"
proof -
  let ?d = "lw_dir w"
  from ok_fits [OF ok t] have h: "held ?d t m" by simp
  have d: "releaseSync t m ?d = jdrop m ?d" using held_owned [OF h] by (simp add: releaseSync_def ours_iff)
  have own: "g \<noteq> m" if "q \<noteq> t" "held ?d q g" for q g
    using owned_unique [OF held_owned [OF h]] held_owned [OF that(2)] that(1) by auto
  show ?thesis
    unfolding d
  proof (cases "m < hi_gen ?d")
    case True
    show "lock_ok (acted w t sv Released (jdrop m ?d))"
    proof (rule acted_ok [OF ok t])
      show "held (jdrop m ?d) q g" if "q \<noteq> t" "held ?d q g" for q g
        using that own [OF that] by (auto simp: held_def map_of_jdrop hi_gen_jdrop [OF True])
    qed (use True ok in \<open>auto simp: evolves_drop lock_ok_def map_of_jdrop split: if_splits\<close>)
  next
    case False
    let ?w = "acted w t sv Released (jdrop m ?d)"
    have m: "m = hi_gen ?d" using False held_le [OF h] by simp
    have "fits ?w q st" if s: "stands ?w q st" for q st
    proof (cases "q = t")
      case True
      with s show ?thesis by (simp add: stands_acted)
    next
      case q: False
      with s have sq: "stands w q st" by (simp add: stands_acted)
      have "settled_stage st" using o t m q sq by (auto simp: orderly_def)
      moreover have "fits w q st" by (rule ok_fits [OF ok sq])
      ultimately show ?thesis
        using own [OF q] m by (cases st) (auto simp: held_def map_of_jdrop)
    qed
    then show "lock_ok ?w" using ok by (auto simp: lock_ok_def map_of_jdrop known_acted split: if_splits)
  qed
qed

lemma server_step_ok:
  assumes ok: "lock_ok w" and sv: "lw_servers w t = Some sv" "sv_listening sv"
    and step: "server_step links (alive w) t sv c (lw_dir w) = Some (st, d)" and o: "orderly w (Act t c)"
  shows "lock_ok (acted w t sv st d)"
proof -
  have t: "stands w t (sv_stage sv)" using sv by (simp add: stands_def)
  note rules = looking_ok [OF ok] reading_ok [OF ok] probing_ok [OF ok] confirming_ok [OF ok] collecting_ok [OF ok]
    dropping_ok [OF ok] backing_off_ok [OF ok] filling_ok [OF ok] publishing_ok [OF ok]
    offering_ok [OF ok]
  show ?thesis
  proof (cases "sv_stage sv")
    case (Publishing m)
    have "st = Looking \<and> d = lw_dir w \<or> publish_gen links t sv m (lw_dir w) = (st, d)"
      using step by (simp add: server_step_def Publishing go_def split: if_splits)
    then show ?thesis using t ok Publishing by (auto intro: acted_same_dir publishing_ok)
  next
    case (Holding m)
    with t o show ?thesis
      using step offering_ok [OF ok, of t m] releasing_ok [OF ok, of t m]
      by (auto simp: server_step_def hold_step_def split: choice.splits)
  next
    case (Checking m gs g r)
    then obtain b where b: "b \<or> \<not> alive w (rr_token r)" and "(st, d) = (if b then Collecting m gs else Dropping m gs g, lw_dir w)"
      using step by (auto simp: server_step_def probe_def split: choice.splits if_splits)
    with checking_ok [OF ok _ b, of t m gs g sv] t Checking show ?thesis by simp
  next
    case (Confirmed m)
    have "lock_ok (acted w t sv (Collecting m (listGens (lw_dir w))) (lw_dir w))"
      using ok_fits [OF ok t] t Confirmed by (intro acted_same_dir [OF ok t]) auto
    with step Confirmed show ?thesis by (auto simp: server_step_def go_def split: if_splits)
  next
    case Released
    have "lock_ok (acted w t sv (Stopped Lock_closed) (lw_dir w))"
      using t by (intro acted_same_dir [OF ok t]) auto
    with step Released show ?thesis by (simp add: server_step_def go_def split: if_splits)
  qed (use step t rules in \<open>auto simp: server_step_def go_def probe_def split: if_splits choice.splits\<close>)
qed

lemma start_ok:
  assumes ok: "lock_ok w" and t: "lw_servers w t = None" and sv: "sv_stage sv = Looking"
  shows "lock_ok (w\<lparr>lw_servers := (lw_servers w)(t \<mapsto> sv)\<rparr>)"
proof -
  let ?w = "w\<lparr>lw_servers := (lw_servers w)(t \<mapsto> sv)\<rparr>"
  have st: "stands ?w q st \<Longrightarrow> q = t \<and> st = Looking \<or> q \<noteq> t \<and> stands w q st" for q st
    using sv by (auto simp: stands_def split: if_splits)
  have "calm t w ?w"
    using t by (auto simp: calm_def known_def dead_def alive_def confirmed_at_def dest!: st)
  from fits_calm [OF this] have "fits ?w q st" if "stands ?w q st" for q st
    using st [OF that] ok by (auto simp: lock_ok_def)
  then show ?thesis using ok by (auto simp: lock_ok_def known_def)
qed

lemma crash_ok:
  assumes ok: "lock_ok w" and t: "lw_servers w t = Some sv"
  shows "lock_ok (w\<lparr>lw_servers := (lw_servers w)(t \<mapsto> sv\<lparr>sv_listening := False\<rparr>)\<rparr>)"
proof -
  let ?w = "w\<lparr>lw_servers := (lw_servers w)(t \<mapsto> sv\<lparr>sv_listening := False\<rparr>)\<rparr>"
  have st: "stands ?w q st \<Longrightarrow> q \<noteq> t \<and> stands w q st" for q st
    by (auto simp: stands_def split: if_splits)
  have "calm t w ?w"
    using t by (auto simp: calm_def known_def dead_def alive_def confirmed_at_def dest!: st)
  from fits_calm [OF this] have "fits ?w q st" if "stands ?w q st" for q st
    using st [OF that] ok by (auto simp: lock_ok_def)
  then show ?thesis using ok by (auto simp: lock_ok_def known_def)
qed

lemma world_step_ok:
  assumes ok: "lock_ok w" and step: "world_step links e w = Some w'" and o: "orderly w e"
  shows "lock_ok w'"
proof (cases e)
  case (Start t pid s ho)
  with step start_ok [OF ok] show ?thesis by (auto split: if_splits)
next
  case (Act t c)
  with step obtain sv st d where x: "lw_servers w t = Some sv" "sv_listening sv"
    "server_step links (alive w) t sv c (lw_dir w) = Some (st, d)" "w' = acted w t sv st d"
    by (auto simp: acted_def split: option.splits if_splits)
  with server_step_ok [OF ok x(1-3)] o Act show ?thesis by simp
next
  case (Crash t)
  with step crash_ok [OF ok] show ?thesis by (auto split: option.splits)
qed

subsection \<open>Runs\<close>

text \<open>The worlds a directory that starts empty can reach by orderly steps.\<close>

inductive orderly_run :: "bool \<Rightarrow> lock_world \<Rightarrow> bool" for links where
  start: "orderly_run links empty_world"
| step: "orderly_run links w \<Longrightarrow> orderly w e \<Longrightarrow> world_step links e w = Some w' \<Longrightarrow> orderly_run links w'"

lemma orderly_run_ok: "orderly_run links w \<Longrightarrow> lock_ok w"
proof (induction rule: orderly_run.induct)
  case start
  then show ?case by (simp add: lock_ok_def empty_world_def stands_def)
next
  case (step w e w')
  from world_step_ok [OF step.IH step.hyps(3,2)] show ?case .
qed

definition holds :: "lock_world \<Rightarrow> string \<Rightarrow> nat \<Rightarrow> bool" where
  "holds w t g \<longleftrightarrow> (case lw_servers w t of
      None \<Rightarrow> False | Some sv \<Rightarrow> sv_listening sv \<and> sv_stage sv = Holding g)"

lemma holds_stands: "holds w t g \<longleftrightarrow> stands w t (Holding g)"
  by (auto simp: holds_def stands_def split: option.splits)

lemma holds_held: "orderly_run links w \<Longrightarrow> holds w t g \<Longrightarrow> held (lw_dir w) t g"
  using ok_fits [OF orderly_run_ok] by (force simp: holds_stands)

subsection \<open>Records read back\<close>

definition root_record_ok :: "root_record \<Rightarrow> bool" where
  "root_record_ok r \<longleftrightarrow> (case rr_sock r of Store_sock n \<Rightarrow> plain_name n | Tmp_sock p \<Rightarrow> starts_with p ''/'' | Pipe_sock n \<Rightarrow> n \<noteq> [])"

lemma parseSock_json:
  "parseSock (Some (sock_json s)) = Some s \<longleftrightarrow>
     (case s of Store_sock n \<Rightarrow> plain_name n | Tmp_sock p \<Rightarrow> starts_with p ''/'' | Pipe_sock n \<Rightarrow> n \<noteq> [])"
  by (cases s) (auto simp: parseSock_def Let_def)

lemma parse_record_text:
  "root_record_ok r \<Longrightarrow> parseRootLockRecord (Some (record_text r)) = Some r"
  using parseSock_json [of "rr_sock r"]
  by (cases r) (auto simp: parseRootLockRecord_def record_text_def root_record_ok_def split: option.splits)

subsection \<open>The properties\<close>

text \<open>
  C7. Mutual exclusion of the projects root: whatever the interleaving of the servers' file-system
  calls, probes and crashes, as long as no server releases the top record while another is between its
  look and its confirm, two servers that hold the root at once hold different generations, and the
  record of the lower one still stands and offers the root on: the second came by a handover.
\<close>

theorem two_holders_only_by_handover:
  assumes "orderly_run links w" "holds w t g" "holds w q g'" "t \<noteq> q"
  shows "g \<noteq> g' \<and> (\<exists>r next'. map_of (lw_dir w) (min g g') = Some (Written r) \<and> rr_handoverTo r = Some next' \<and>
     rr_token r = (if g < g' then t else q))"
proof -
  note h = holds_held [OF assms(1,2)] holds_held [OF assms(1,3)]
  have ne: "g \<noteq> g'" using h owned_unique assms(4) held_owned by blast
  have lower: "\<exists>r next'. map_of (lw_dir w) a = Some (Written r) \<and> rr_handoverTo r = Some next' \<and> rr_token r = x"
    if "held (lw_dir w) x a" "held (lw_dir w) y b" "a < b" for x y a b
    using that held_le [OF that(2)] by (auto simp: held_def)
  show ?thesis
    using ne lower [OF h] lower [OF h(2,1)] by (cases "g < g'") (auto simp: min_def)
qed

definition demo_sock :: root_sock where "demo_sock = Pipe_sock ''p''"

text \<open>Starting and taking an empty directory, with hard links: look, publish, confirm, list, collect.\<close>

definition takes :: "string \<Rightarrow> event list" where
  "takes t = Start t t demo_sock None # replicate 6 (Act t Go)"

definition handover_run :: "event list" where
  "handover_run = takes ''a'' @ [Act ''a'' (Offer ''x''), Start ''b'' ''b'' demo_sock (Some ''x'')] @
     replicate 6 (Act ''b'' Go) @ [Act ''b'' (Answer True)] @ replicate 2 (Act ''b'' Go)"

definition aba_run :: "event list" where
  "aba_run = takes ''r'' @ Start ''q'' ''q'' demo_sock None # replicate 2 (Act ''q'' Go) @
     [Act ''r'' Release, Act ''r'' Go] @ takes ''p'' @
     Act ''q'' (Answer False) # replicate 4 (Act ''q'' Go) @ [Act ''q'' (Answer True)] @ replicate 2 (Act ''q'' Go)"

lemma orderly_world_run:
  "orderly_run links w \<Longrightarrow> world_run links es w = Some w' \<Longrightarrow> list_all (\<lambda>e. \<forall>t. e \<noteq> Act t Release) es \<Longrightarrow>
   orderly_run links w'"
proof (induction es arbitrary: w)
  case (Cons e es)
  then obtain w1 where w1: "world_step links e w = Some w1" "world_run links es w1 = Some w'"
    by (auto split: option.splits)
  have "orderly w e" using Cons.prems(3) by (auto simp: orderly_def split: event.splits choice.splits)
  from Cons.IH [OF orderly_run.step [OF Cons.prems(1) this w1(1)] w1(2)] Cons.prems(3) show ?case by simp
qed simp

lemma handover_run_two_holders:
  "case world_run True handover_run empty_world of None \<Rightarrow> False | Some w \<Rightarrow> holds w ''a'' 1 \<and> holds w ''b'' 2"
  by code_simp

theorem two_holders_only_by_handover_witness:
  "\<exists>w r next'. world_run True handover_run empty_world = Some w \<and> holds w ''a'' 1 \<and> holds w ''b'' 2 \<and>
     map_of (lw_dir w) 1 = Some (Written r) \<and> rr_handoverTo r = Some next'"
proof -
  obtain w where w: "world_run True handover_run empty_world = Some w" "holds w ''a'' 1" "holds w ''b'' 2"
    using handover_run_two_holders by (auto split: option.splits)
  have "orderly_run True w"
    by (rule orderly_world_run [OF orderly_run.start w(1)]) (auto simp: handover_run_def takes_def list_all_iff)
  from two_holders_only_by_handover [OF this w(2,3)] w show ?thesis by (auto simp: min_def)
qed

text \<open>
  The releases must be orderly.  A contender \<open>q\<close> looks and reads the record of the live holder \<open>r\<close>; \<open>r\<close>
  releases; \<open>p\<close> starts, finds the directory empty, takes generation 1 and holds it; only then \<open>q\<close>'s probe
  finds \<open>r\<close>'s socket closed, and \<open>q\<close> publishes generation 2, confirms it is the highest, leaves the live
  \<open>p\<close> alone and holds too.  Two servers hold the projects root and neither record offers it on.
\<close>

theorem stale_judgement_makes_a_second_holder:
  "case world_run True aba_run empty_world of
     None \<Rightarrow> False
   | Some w \<Rightarrow> holds w ''p'' 1 \<and> holds w ''q'' 2 \<and>
       lw_dir w = map (\<lambda>(g, t). (g, Written \<lparr>rr_pid = t, rr_token = t, rr_sock = demo_sock, rr_handoverTo = None\<rparr>))
         [(1, ''p''), (2, ''q'')]"
  by code_simp

end
