(* ===== verification/UiEvents.thy ===== *)
theory UiEvents
  imports Prelude "HOL-Library.Product_Lexorder"
begin

text \<open>
  The event stream of a session (\<open>shared/uiEvent.ts\<close>) and the places it may be cut, the second half of
  \<open>src/parser.ts\<close>: the quiescence scan, which knows the blocks and tool calls that are open, the
  intervals that keep a sub-agent's events with the call that started it, and the snap of a window's
  start that honours both.

  An index that the code writes \<open>-1\<close> for \<open>none\<close> is \<open>None\<close>.  A block key \<open>msgId:blockIdx:type\<close> is kept as its
  three parts, which its text determines.
\<close>

subsection \<open>Events\<close>

datatype ev_kind =
    User_echo | Turn_end | Turn_boundary
  | Text_delta | Text_end | Thinking_start | Thinking_delta | Thinking_redacted | Thinking_end
  | Tool_use_start | Tool_use_input_delta | Tool_use | Tool_result
  | Message_start | Assistant_message | System_ev | Raw_ev | Hook_ev | Control_response
  | Overage_message_queued | Call_usage | Context_usage
  | History_gap | Segment_seam | Task_completion
  | Other_ev string

text \<open>
  An event's fields that the modelled code reads; one it does not carry is \<open>None\<close> (or empty).
  \<open>ev_data\<close> is the payload of a system event, \<open>ev_input\<close> the input of a tool call, \<open>ev_content\<close> the content
  of its result; \<open>ev_rest\<close> stands for everything else it holds.
\<close>

record ui_event =
  ev_kind :: ev_kind
  ev_subtype :: string
  ev_parent :: "string option"
  ev_msg :: "string option"
  ev_block :: "nat option"
  ev_tool :: "string option"
  ev_text :: string
  ev_name :: "string option"
  ev_input :: "json option"
  ev_content :: "json option"
  ev_data :: "json option"
  ev_status :: "json option"
  ev_segment :: "string option"
  ev_replayed :: bool
  ev_index :: "nat option"
  ev_seq :: "nat option"
  ev_rest :: json

definition plain_ev :: "ev_kind \<Rightarrow> ui_event" where
  "plain_ev k = \<lparr>ev_kind = k, ev_subtype = [], ev_parent = None, ev_msg = None, ev_block = None, ev_tool = None,
     ev_text = [], ev_name = None, ev_input = None, ev_content = None, ev_data = None, ev_status = None,
     ev_segment = None, ev_replayed = False, ev_index = None, ev_seq = None, ev_rest = JNull\<rparr>"

text \<open>\<open>parentToolUseId\<close> is read for its truth: the empty string is none.\<close>

definition nested :: "ui_event \<Rightarrow> bool" where
  "nested ev \<longleftrightarrow> (case ev_parent ev of None \<Rightarrow> False | Some p \<Rightarrow> p \<noteq> [])"

definition isOuterUserEcho :: "ui_event \<Rightarrow> bool" where
  "isOuterUserEcho ev \<longleftrightarrow> ev_kind ev = User_echo \<and> \<not> nested ev"

definition isOuterTurnEnd :: "ui_event \<Rightarrow> bool" where
  "isOuterTurnEnd ev \<longleftrightarrow> ev_kind ev = Turn_end \<and> \<not> nested ev"

text \<open>\<open>isOuterUserEcho(arr[i])\<close>, false past the end.\<close>

definition echo_at :: "ui_event list \<Rightarrow> nat \<Rightarrow> bool" where
  "echo_at arr i \<longleftrightarrow> i < length arr \<and> isOuterUserEcho (arr ! i)"

definition turn_end_at :: "ui_event list \<Rightarrow> nat \<Rightarrow> bool" where
  "turn_end_at arr i \<longleftrightarrow> i < length arr \<and> isOuterTurnEnd (arr ! i)"

subsection \<open>The quiescence scan\<close>

datatype block_type = Text_block | Thinking_block | Tool_block

type_synonym block_owner = "string \<times> nat"

type_synonym block_key = "block_owner \<times> block_type"

record open_block =
  ob_owner :: block_owner
  ob_stale :: bool

record scan =
  sc_open :: "(block_key, open_block) jmap"
  sc_tools :: "string list"
  sc_boundary :: nat

definition new_scan :: scan where
  "new_scan = \<lparr>sc_open = [], sc_tools = [], sc_boundary = 0\<rparr>"

definition scan_empty :: "scan \<Rightarrow> bool" where
  "scan_empty s \<longleftrightarrow> sc_open s = [] \<and> sc_tools s = []"

text \<open>\<open>${msgId ?? '?'}:${blockIdx ?? 0}\<close>.\<close>

definition blockOwner :: "ui_event \<Rightarrow> block_owner" where
  "blockOwner ev = ((case ev_msg ev of Some m \<Rightarrow> m | None \<Rightarrow> ''?''), (case ev_block ev of Some b \<Rightarrow> b | None \<Rightarrow> 0))"

definition namedBlock :: "ui_event \<Rightarrow> block_owner option" where
  "namedBlock ev = (case (ev_block ev, ev_msg ev) of
      (Some b, Some m) \<Rightarrow> if m = [] then None else Some (blockOwner ev) | _ \<Rightarrow> None)"

definition open_block :: "block_type \<Rightarrow> ui_event \<Rightarrow> scan \<Rightarrow> scan" where
  "open_block ty ev s = s\<lparr>sc_open := jput (blockOwner ev, ty) \<lparr>ob_owner = blockOwner ev, ob_stale = False\<rparr> (sc_open s)\<rparr>"

definition close_block :: "block_type \<Rightarrow> ui_event \<Rightarrow> scan \<Rightarrow> scan" where
  "close_block ty ev s =
     (case map_of (sc_open s) (blockOwner ev, ty) of
        None \<Rightarrow> s
      | Some b \<Rightarrow> s\<lparr>sc_open := jdrop (blockOwner ev, ty) (sc_open s),
          sc_boundary := (if ob_stale b then sc_boundary s else Suc (sc_boundary s))\<rparr>)"

definition count_fresh :: "(block_key, open_block) jmap \<Rightarrow> nat" where
  "count_fresh bs = length (filter (\<lambda>b. \<not> ob_stale b) (jvals bs))"

text \<open>Progression: an event that names a block marks every other open block stale.\<close>

definition progress :: "ui_event \<Rightarrow> scan \<Rightarrow> scan" where
  "progress ev s =
     (case namedBlock ev of
        None \<Rightarrow> s
      | Some o' \<Rightarrow> s\<lparr>sc_open := jmap_vals (\<lambda>b. if ob_owner b = o' then b else b\<lparr>ob_stale := True\<rparr>) (sc_open s),
          sc_boundary := sc_boundary s +
            length (filter (\<lambda>b. \<not> ob_stale b \<and> ob_owner b \<noteq> o') (jvals (sc_open s)))\<rparr>)"

definition await_tool :: "ui_event \<Rightarrow> scan \<Rightarrow> scan" where
  "await_tool ev s = (case ev_tool ev of None \<Rightarrow> s | Some t \<Rightarrow> s\<lparr>sc_tools := List.insert t (sc_tools s)\<rparr>)"

definition tool_back :: "ui_event \<Rightarrow> scan \<Rightarrow> scan" where
  "tool_back ev s = (case ev_tool ev of None \<Rightarrow> s | Some t \<Rightarrow> s\<lparr>sc_tools := removeAll t (sc_tools s)\<rparr>)"

definition turn_reset :: "scan \<Rightarrow> scan" where
  "turn_reset s = s\<lparr>sc_open := [], sc_tools := [], sc_boundary := sc_boundary s + count_fresh (sc_open s)\<rparr>"

definition scan_switch :: "ui_event \<Rightarrow> scan \<Rightarrow> scan" where
  "scan_switch ev s =
     (case ev_kind ev of
        User_echo \<Rightarrow> turn_reset s
      | Turn_end \<Rightarrow> turn_reset s
      | Turn_boundary \<Rightarrow> turn_reset s
      | Text_delta \<Rightarrow> open_block Text_block ev s
      | Text_end \<Rightarrow> close_block Text_block ev s
      | Thinking_start \<Rightarrow> open_block Thinking_block ev s
      | Thinking_delta \<Rightarrow> open_block Thinking_block ev s
      | Thinking_end \<Rightarrow> close_block Thinking_block ev s
      | Tool_use_start \<Rightarrow> await_tool ev (open_block Tool_block ev s)
      | Tool_use_input_delta \<Rightarrow> await_tool ev (open_block Tool_block ev s)
      | Tool_use \<Rightarrow> await_tool ev (close_block Tool_block ev s)
      | Tool_result \<Rightarrow> tool_back ev s
      | _ \<Rightarrow> s)"

definition scan_apply :: "ui_event \<Rightarrow> scan \<Rightarrow> scan" where
  "scan_apply ev s = (if nested ev then s else scan_switch ev (progress ev s))"

subsection \<open>Where a list of events may be cut\<close>

text \<open>The nearest index at or below \<open>i\<close> where the scan's state is known.\<close>

fun nearestResetOrigin :: "ui_event list \<Rightarrow> nat \<Rightarrow> nat option \<Rightarrow> nat" where
  "nearestResetOrigin arr 0 reset = 0"
| "nearestResetOrigin arr (Suc j) reset =
     (if reset = Some (Suc j) \<or> echo_at arr (Suc j) \<or> turn_end_at arr (Suc j) then Suc j
      else nearestResetOrigin arr j reset)"

definition by_fiat :: "ui_event list \<Rightarrow> nat option \<Rightarrow> nat \<Rightarrow> bool" where
  "by_fiat arr reset i \<longleftrightarrow> reset = Some i \<or> echo_at arr i"

definition origin_valid :: "ui_event list \<Rightarrow> nat option \<Rightarrow> nat \<Rightarrow> bool" where
  "origin_valid arr reset r \<longleftrightarrow> r = 0 \<or> by_fiat arr reset r"

definition quiescent_at :: "ui_event list \<Rightarrow> nat option \<Rightarrow> nat \<Rightarrow> scan \<Rightarrow> nat \<Rightarrow> bool" where
  "quiescent_at arr reset r s i \<longleftrightarrow> by_fiat arr reset i \<or> scan_empty s \<and> (r < i \<or> origin_valid arr reset r)"

text \<open>The loop of \<open>quiesceStart\<close> over the indices from the origin, with the best cut below \<open>start\<close>.\<close>

fun quiesce_loop :: "ui_event list \<Rightarrow> nat \<Rightarrow> nat option \<Rightarrow> bool \<Rightarrow> nat \<Rightarrow> nat list \<Rightarrow> scan \<Rightarrow> nat option \<Rightarrow> nat" where
  "quiesce_loop arr start reset fwd r [] s best = (case best of Some b \<Rightarrow> b | None \<Rightarrow> start)"
| "quiesce_loop arr start reset fwd r (i # is) s best =
     (if quiescent_at arr reset r s i then
        (if i = start then start
         else if i < start then quiesce_loop arr start reset fwd r is (scan_apply (arr ! i) s) (Some i)
         else if fwd then i
         else (case best of Some b \<Rightarrow> b | None \<Rightarrow> start))
      else if start < i \<and> \<not> fwd then (case best of Some b \<Rightarrow> b | None \<Rightarrow> start)
      else quiesce_loop arr start reset fwd r is (scan_apply (arr ! i) s) best)"

definition quiesceStart :: "ui_event list \<Rightarrow> nat \<Rightarrow> nat \<Rightarrow> nat option \<Rightarrow> bool \<Rightarrow> nat" where
  "quiesceStart arr start end' reset fwd =
     (if start = 0 then 0
      else if by_fiat arr reset start then start
      else (let r = nearestResetOrigin arr (start - 1) reset in
        quiesce_loop arr start reset fwd r [r..<end'] new_scan None))"

fun cuts_loop :: "ui_event list \<Rightarrow> nat option \<Rightarrow> nat list \<Rightarrow> scan \<Rightarrow> nat list" where
  "cuts_loop arr reset [] s = []"
| "cuts_loop arr reset (i # is) s =
     (let s' = (if reset = Some i then new_scan else s);
          rest = cuts_loop arr reset is (scan_apply (arr ! i) s')
      in if by_fiat arr reset i \<or> scan_empty s' then i # rest else rest)"

definition collectQuiescentCuts :: "ui_event list \<Rightarrow> nat \<Rightarrow> nat option \<Rightarrow> nat list" where
  "collectQuiescentCuts arr end' reset = cuts_loop arr reset [0..<end'] new_scan @ [end']"

fun first_quiescent_loop :: "ui_event list \<Rightarrow> nat \<Rightarrow> nat \<Rightarrow> nat list \<Rightarrow> scan \<Rightarrow> nat option" where
  "first_quiescent_loop arr from' r [] s = None"
| "first_quiescent_loop arr from' r (i # is) s =
     (if quiescent_at arr None r s i \<and> from' \<le> i then Some i
      else first_quiescent_loop arr from' r is (scan_apply (arr ! i) s))"

definition firstQuiescentAtOrAfter :: "ui_event list \<Rightarrow> nat \<Rightarrow> nat \<Rightarrow> nat option" where
  "firstQuiescentAtOrAfter arr from' bound =
     (if from' = 0 then Some 0
      else (let r = nearestResetOrigin arr from' None in first_quiescent_loop arr from' r [r..<bound] new_scan))"

definition lastQuiescentAtOrBefore :: "ui_event list \<Rightarrow> nat \<Rightarrow> nat option \<Rightarrow> nat" where
  "lastQuiescentAtOrBefore arr at' reset =
     (let start = min at' (length arr - 1) in
      if start = 0 then 0 else quiesceStart arr start (start + 1) reset False)"

subsection \<open>A sub-agent's events stay with its call\<close>

record interval =
  iv_left :: nat
  iv_right :: nat
  iv_headless :: bool

text \<open>A group: the latest head, and which interval its current generation extends.\<close>

record group_state =
  gs_head :: "nat option"
  gs_interval :: "nat option"

type_synonym groups = "(string, group_state) jmap"

definition state_for :: "string \<Rightarrow> groups \<Rightarrow> group_state" where
  "state_for t gs = (case map_of gs t of Some st \<Rightarrow> st | None \<Rightarrow> \<lparr>gs_head = None, gs_interval = None\<rparr>)"

definition is_head :: "ui_event \<Rightarrow> bool" where
  "is_head ev \<longleftrightarrow> ev_kind ev = Tool_use_start \<or> ev_kind ev = Tool_use"

definition note_head :: "ui_event \<Rightarrow> nat \<Rightarrow> groups \<Rightarrow> groups" where
  "note_head ev i gs =
     (case ev_tool ev of
        Some t \<Rightarrow> if t \<noteq> [] \<and> is_head ev then jput t \<lparr>gs_head = Some i, gs_interval = None\<rparr> gs else gs
      | None \<Rightarrow> gs)"

definition note_child :: "ui_event \<Rightarrow> nat \<Rightarrow> groups \<times> interval list \<Rightarrow> groups \<times> interval list" where
  "note_child ev i gi =
     (case (gi, ev_parent ev) of
        ((gs, ivs), Some p) \<Rightarrow>
          if p = [] then (gs, ivs)
          else (let st = state_for p gs in
            case gs_interval st of
              Some k \<Rightarrow> (jput p st gs, ivs[k := (ivs ! k)\<lparr>iv_right := i\<rparr>])
            | None \<Rightarrow> (jput p (st\<lparr>gs_interval := Some (length ivs)\<rparr>) gs,
                ivs @ [\<lparr>iv_left = (case gs_head st of Some h \<Rightarrow> Suc h | None \<Rightarrow> 0), iv_right = i,
                        iv_headless = (gs_head st = None)\<rparr>]))
      | ((gs, ivs), None) \<Rightarrow> (gs, ivs))"

fun group_loop :: "ui_event list \<Rightarrow> nat list \<Rightarrow> groups \<times> interval list \<Rightarrow> groups \<times> interval list" where
  "group_loop arr [] gi = gi"
| "group_loop arr (i # is) gi =
     group_loop arr is (note_child (arr ! i) i (note_head (arr ! i) i (fst gi), snd gi))"

text \<open>Merging the sorted intervals that overlap or touch; the merged list is built at its end.\<close>

fun merge_intervals :: "interval list \<Rightarrow> interval list \<Rightarrow> interval list" where
  "merge_intervals merged [] = merged"
| "merge_intervals merged (v # vs) =
     (case rev merged of
        [] \<Rightarrow> merge_intervals [v] vs
      | t # bef \<Rightarrow>
          if iv_right t + 1 < iv_left v then merge_intervals (merged @ [v]) vs
          else merge_intervals (rev bef @ [t\<lparr>iv_right := max (iv_right t) (iv_right v),
            iv_headless := (iv_headless t \<or> iv_headless v)\<rparr>]) vs)"

definition group_intervals :: "ui_event list \<Rightarrow> nat \<Rightarrow> interval list" where
  "group_intervals arr end' = snd (group_loop arr [0..<end'] ([], []))"

definition groupBoundaryComponents :: "ui_event list \<Rightarrow> nat \<Rightarrow> interval list" where
  "groupBoundaryComponents arr end' =
     merge_intervals [] (sort_key (\<lambda>v. (iv_left v, iv_right v)) (group_intervals arr end'))"

text \<open>The binary search for the last component that starts at or below \<open>index\<close>.\<close>

function bisect :: "(nat \<Rightarrow> bool) \<Rightarrow> nat \<Rightarrow> nat \<Rightarrow> nat" where
  "bisect below lo hi =
     (if lo < hi then (let mid = (lo + hi) div 2 in
        if below mid then bisect below (mid + 1) hi else bisect below lo mid)
      else lo)"
  by pat_completeness auto
termination by (relation "measure (\<lambda>(_, lo, hi). hi - lo)") auto

declare bisect.simps [simp del]

definition forbiddenComponentAt :: "interval list \<Rightarrow> nat \<Rightarrow> interval option" where
  "forbiddenComponentAt comps index =
     (let lo = bisect (\<lambda>mid. iv_left (comps ! mid) \<le> index) 0 (length comps) in
      if lo = 0 then None
      else (let c = comps ! (lo - 1) in if index \<le> iv_right c then Some c else None))"

definition hasHeadlessChildIn :: "ui_event list \<Rightarrow> nat \<Rightarrow> nat \<Rightarrow> bool" where
  "hasHeadlessChildIn arr start end' =
     (let e = min end' (length arr); s = min start e in
      list_ex (\<lambda>c. iv_headless c \<and> s \<le> iv_right c) (groupBoundaryComponents arr e))"

subsection \<open>The snap\<close>

definition lowerBound :: "nat list \<Rightarrow> nat \<Rightarrow> nat" where
  "lowerBound values target = bisect (\<lambda>mid. values ! mid < target) 0 (length values)"

text \<open>
  The two searches move over the cuts in one direction, so as many turns as there are cuts are enough
  (\<open>first_boundary_enough\<close>, \<open>last_boundary_enough\<close>); the outer \<open>None\<close> is fuel spent.
\<close>

fun first_boundary_loop :: "nat \<Rightarrow> nat list \<Rightarrow> interval list \<Rightarrow> nat \<Rightarrow> nat option" where
  "first_boundary_loop 0 cuts comps i = None"
| "first_boundary_loop (Suc n) cuts comps i =
     (if i < length cuts then
        (case forbiddenComponentAt comps (cuts ! i) of
           None \<Rightarrow> Some (cuts ! i)
         | Some c \<Rightarrow> first_boundary_loop n cuts comps (lowerBound cuts (iv_right c + 1)))
      else Some (last cuts))"

definition firstCombinedBoundary :: "nat list \<Rightarrow> interval list \<Rightarrow> nat \<Rightarrow> nat" where
  "firstCombinedBoundary cuts comps from' =
     (case first_boundary_loop (length cuts + 1) cuts comps (lowerBound cuts from') of
        Some c \<Rightarrow> c | None \<Rightarrow> last cuts)"

text \<open>An index counts from one here, so that \<open>0\<close> is the code's \<open>-1\<close>.\<close>

fun last_boundary_loop :: "nat \<Rightarrow> nat list \<Rightarrow> interval list \<Rightarrow> nat \<Rightarrow> nat option option" where
  "last_boundary_loop 0 cuts comps i = None"
| "last_boundary_loop (Suc n) cuts comps 0 = Some None"
| "last_boundary_loop (Suc n) cuts comps (Suc i) =
     (case forbiddenComponentAt comps (cuts ! i) of
        None \<Rightarrow> Some (Some (cuts ! i))
      | Some c \<Rightarrow> if iv_headless c then Some None
          else last_boundary_loop n cuts comps (lowerBound cuts (iv_left c)))"

definition lastCombinedBoundary :: "nat list \<Rightarrow> interval list \<Rightarrow> nat \<Rightarrow> nat option" where
  "lastCombinedBoundary cuts comps through =
     (case last_boundary_loop (length cuts + 1) cuts comps (lowerBound cuts (through + 1)) of
        Some r \<Rightarrow> r | None \<Rightarrow> None)"

definition snapStartToQuiescent :: "ui_event list \<Rightarrow> nat \<Rightarrow> nat \<Rightarrow> nat option \<Rightarrow> nat" where
  "snapStartToQuiescent arr start end' reset =
     (let e = min end' (length arr); s = min start e in
      if s = e then e
      else (let comps = groupBoundaryComponents arr e; s' = quiesceStart arr s e reset True in
        case forbiddenComponentAt comps s' of
          None \<Rightarrow> s'
        | Some c \<Rightarrow>
            (let cuts = collectQuiescentCuts arr e reset in
             if iv_headless c then firstCombinedBoundary cuts comps (iv_right c + 1)
             else (case lastCombinedBoundary cuts comps (iv_left c - 1) of
                 Some b \<Rightarrow> b
               | None \<Rightarrow> firstCombinedBoundary cuts comps (iv_right c + 1)))))"

end
