(* ===== verification/CutFacts.thy ===== *)
theory CutFacts
  imports UiEvents
begin

text \<open>
  What the cuts mean.  A cut of the quiescence scan is an index where no outer block is open and no
  tool call unanswered, as \<open>block_open\<close> and \<open>tool_pending\<close> say it of the events before it; a window's
  start is forbidden by a group interval exactly when a sub-agent's event after it has no call after it.
\<close>

subsection \<open>The scan and what is open\<close>

definition resets :: "ui_event \<Rightarrow> bool" where
  "resets ev \<longleftrightarrow> \<not> nested ev \<and> ev_kind ev \<in> {User_echo, Turn_end, Turn_boundary}"

definition opens :: "block_key \<Rightarrow> ui_event \<Rightarrow> bool" where
  "opens k ev \<longleftrightarrow> \<not> nested ev \<and> fst k = blockOwner ev \<and>
     (case snd k of Text_block \<Rightarrow> ev_kind ev = Text_delta
      | Thinking_block \<Rightarrow> ev_kind ev \<in> {Thinking_start, Thinking_delta}
      | Tool_block \<Rightarrow> ev_kind ev \<in> {Tool_use_start, Tool_use_input_delta})"

definition closes :: "block_key \<Rightarrow> ui_event \<Rightarrow> bool" where
  "closes k ev \<longleftrightarrow> \<not> nested ev \<and> fst k = blockOwner ev \<and>
     (case snd k of Text_block \<Rightarrow> ev_kind ev = Text_end
      | Thinking_block \<Rightarrow> ev_kind ev = Thinking_end
      | Tool_block \<Rightarrow> ev_kind ev = Tool_use)"

definition calls_tool :: "string \<Rightarrow> ui_event \<Rightarrow> bool" where
  "calls_tool t ev \<longleftrightarrow> \<not> nested ev \<and> ev_tool ev = Some t \<and> ev_kind ev \<in> {Tool_use_start, Tool_use_input_delta, Tool_use}"

definition answers_tool :: "string \<Rightarrow> ui_event \<Rightarrow> bool" where
  "answers_tool t ev \<longleftrightarrow> \<not> nested ev \<and> ev_tool ev = Some t \<and> ev_kind ev = Tool_result"

text \<open>Something an event started that no later event ended.\<close>

definition pending :: "('e \<Rightarrow> bool) \<Rightarrow> ('e \<Rightarrow> bool) \<Rightarrow> 'e list \<Rightarrow> bool" where
  "pending starts ends es \<longleftrightarrow> (\<exists>pre e post. es = pre @ e # post \<and> starts e \<and> (\<forall>x \<in> set post. \<not> ends x))"

definition block_open :: "ui_event list \<Rightarrow> block_key \<Rightarrow> bool" where
  "block_open es k \<longleftrightarrow> pending (opens k) (\<lambda>e. closes k e \<or> resets e) es"

definition tool_pending :: "ui_event list \<Rightarrow> string \<Rightarrow> bool" where
  "tool_pending es t \<longleftrightarrow> pending (calls_tool t) (\<lambda>e. answers_tool t e \<or> resets e) es"

lemma pending_Nil [simp]: "\<not> pending a b []"
  by (simp add: pending_def)

lemma pending_snoc: "pending a b (es @ [e]) \<longleftrightarrow> a e \<or> pending a b es \<and> \<not> b e"
proof
  assume "pending a b (es @ [e])"
  then obtain pre x post where x: "es @ [e] = pre @ x # post" "a x" "\<forall>y \<in> set post. \<not> b y" by (auto simp: pending_def)
  show "a e \<or> pending a b es \<and> \<not> b e"
  proof (cases post rule: rev_cases)
    case (snoc post' y)
    with x(1) have "es = pre @ x # post'" "y = e" by simp_all
    with x snoc show ?thesis by (auto simp: pending_def)
  qed (use x in simp)
next
  assume "a e \<or> pending a b es \<and> \<not> b e"
  then show "pending a b (es @ [e])"
  proof
    assume "a e"
    then show ?thesis unfolding pending_def by (intro exI [of _ es] exI [of _ e] exI [of _ "[]"]) simp
  next
    assume "pending a b es \<and> \<not> b e"
    then obtain pre x post where "es = pre @ x # post" "a x" "\<forall>y \<in> set post. \<not> b y" "\<not> b e" by (auto simp: pending_def)
    then show ?thesis unfolding pending_def by (intro exI [of _ pre] exI [of _ x] exI [of _ "post @ [e]"]) auto
  qed
qed

definition scan_events :: "ui_event list \<Rightarrow> scan \<Rightarrow> scan" where
  "scan_events es s = fold scan_apply es s"

lemma scan_events_simps [simp]:
  "scan_events [] s = s"
  "scan_events (e # es) s = scan_events es (scan_apply e s)"
  "scan_events (es @ es') s = scan_events es' (scan_events es s)"
  by (simp_all add: scan_events_def)

lemma jhas_jmap_vals [simp]: "jhas (jmap_vals f m) k = jhas m k"
  by (simp add: jhas_iff)

lemma progress_keys [simp]: "jhas (sc_open (progress ev s)) k = jhas (sc_open s) k" "sc_tools (progress ev s) = sc_tools s"
  by (simp_all add: progress_def split: option.splits)

lemma close_block_keys [simp]:
  "jhas (sc_open (close_block ty ev s)) k \<longleftrightarrow> k \<noteq> (blockOwner ev, ty) \<and> jhas (sc_open s) k"
  by (auto simp: close_block_def jhas_def map_of_jdrop split: option.splits)

lemma scan_apply_open:
  "jhas (sc_open (scan_apply ev s)) k \<longleftrightarrow> opens k ev \<or> jhas (sc_open s) k \<and> \<not> closes k ev \<and> \<not> resets ev"
proof -
  have tool: "sc_open (await_tool ev s') = sc_open s'" "sc_open (tool_back ev s') = sc_open s'" for s'
    by (simp_all add: await_tool_def tool_back_def split: option.splits)
  show ?thesis
    by (cases k; cases "snd k"; cases "ev_kind ev")
      (auto simp: scan_apply_def scan_switch_def opens_def closes_def resets_def open_block_def turn_reset_def tool)
qed

lemma scan_apply_tools:
  "t \<in> set (sc_tools (scan_apply ev s)) \<longleftrightarrow>
     calls_tool t ev \<or> t \<in> set (sc_tools s) \<and> \<not> answers_tool t ev \<and> \<not> resets ev"
proof -
  have b: "sc_tools (close_block ty ev s') = sc_tools s'" "sc_tools (open_block ty ev s') = sc_tools s'" for ty s'
    by (simp_all add: close_block_def open_block_def split: option.splits)
  have w: "set (sc_tools (await_tool ev s')) = set (sc_tools s') \<union> {t. ev_tool ev = Some t}"
    "set (sc_tools (tool_back ev s')) = set (sc_tools s') - {t. ev_tool ev = Some t}" for s'
    by (auto simp: await_tool_def tool_back_def split: option.splits)
  show ?thesis
    by (cases "ev_kind ev")
      (auto simp: scan_apply_def scan_switch_def calls_tool_def answers_tool_def resets_def turn_reset_def b w)
qed

theorem scan_tracks_what_is_open:
  "jhas (sc_open (scan_events es new_scan)) k \<longleftrightarrow> block_open es k"
  "t \<in> set (sc_tools (scan_events es new_scan)) \<longleftrightarrow> tool_pending es t"
proof (induction es rule: rev_induct)
  case Nil
  case 1 show ?case by (simp add: new_scan_def block_open_def)
  case 2 show ?case by (simp add: new_scan_def tool_pending_def)
next
  case (snoc e es)
  case 1 show ?case using snoc(1) by (simp add: scan_apply_open block_open_def pending_snoc)
  case 2 show ?case using snoc(2) by (simp add: scan_apply_tools tool_pending_def pending_snoc)
qed

definition all_whole :: "ui_event list \<Rightarrow> bool" where
  "all_whole es \<longleftrightarrow> (\<forall>k. \<not> block_open es k) \<and> (\<forall>t. \<not> tool_pending es t)"

lemma jmap_Nil_iff: "m = [] \<longleftrightarrow> (\<forall>k. \<not> jhas m k)"
  by (cases m) (auto simp: jhas_def)

lemma scan_empty_iff: "scan_empty (scan_events es new_scan) \<longleftrightarrow> all_whole es"
  unfolding scan_empty_def all_whole_def jmap_Nil_iff [of "sc_open _"] scan_tracks_what_is_open [symmetric] by auto

text \<open>After a turn boundary only what follows it matters.\<close>

definition same_open :: "scan \<Rightarrow> scan \<Rightarrow> bool" where
  "same_open s s' \<longleftrightarrow> (\<forall>k. jhas (sc_open s) k = jhas (sc_open s') k) \<and> set (sc_tools s) = set (sc_tools s')"

lemma same_open_apply: "same_open s s' \<Longrightarrow> same_open (scan_apply e s) (scan_apply e s')"
  by (auto simp: same_open_def scan_apply_open scan_apply_tools)

lemma same_open_events: "same_open s s' \<Longrightarrow> same_open (scan_events es s) (scan_events es s')"
  by (induction es arbitrary: s s') (auto intro: same_open_apply)

lemma same_open_empty: "same_open s s' \<Longrightarrow> scan_empty s = scan_empty s'"
  unfolding scan_empty_def jmap_Nil_iff [of "sc_open _"] same_open_def by auto

lemma resets_same_open: "resets e \<Longrightarrow> same_open (scan_apply e s) (scan_apply e s')"
  by (auto simp: same_open_def scan_apply_open scan_apply_tools)

lemma resets_empty: "resets e \<Longrightarrow> scan_empty (scan_apply e s)"
  by (auto simp: resets_def scan_empty_def scan_apply_def scan_switch_def turn_reset_def)

lemma echo_resets: "isOuterUserEcho e \<Longrightarrow> resets e" "isOuterTurnEnd e \<Longrightarrow> resets e"
  by (auto simp: isOuterUserEcho_def isOuterTurnEnd_def resets_def)

subsection \<open>The cuts of a list\<close>

text \<open>The events the scan has seen at \<open>i\<close>: all before it, or those since the declared discontinuity.\<close>

definition seen_at :: "ui_event list \<Rightarrow> nat option \<Rightarrow> nat \<Rightarrow> ui_event list" where
  "seen_at arr reset i = (case reset of None \<Rightarrow> take i arr | Some r \<Rightarrow> if r \<le> i then drop r (take i arr) else take i arr)"

definition cut_at :: "ui_event list \<Rightarrow> nat option \<Rightarrow> nat \<Rightarrow> bool" where
  "cut_at arr reset i \<longleftrightarrow> by_fiat arr reset i \<or> all_whole (seen_at arr reset i)"

lemma seen_at_Suc:
  "i < length arr \<Longrightarrow> reset \<noteq> Some (Suc i) \<Longrightarrow> seen_at arr reset (Suc i) = seen_at arr reset i @ [arr ! i]"
  by (auto simp: seen_at_def take_Suc_conv_app_nth le_Suc_eq split: option.splits)

lemma seen_at_reset [simp]: "seen_at arr (Some r) r = []"
  by (simp add: seen_at_def)

lemma seen_at_0 [simp]: "seen_at arr reset 0 = []"
  by (auto simp: seen_at_def split: option.splits)

lemma all_whole_Nil [simp]: "all_whole []"
  by (simp add: all_whole_def block_open_def tool_pending_def)

lemma cut_at_0 [simp]: "cut_at arr reset 0"
  by (simp add: cut_at_def)

lemma fiat_cut: "by_fiat arr reset i \<Longrightarrow> cut_at arr reset i"
  by (simp add: cut_at_def)

lemma cuts_loop_spec:
  "k \<le> length arr \<Longrightarrow> i \<le> k \<Longrightarrow> (reset = Some i \<or> s = scan_events (seen_at arr reset i) new_scan) \<Longrightarrow>
   cuts_loop arr reset [i..<k] s = filter (cut_at arr reset) [i..<k]"
proof (induction "k - i" arbitrary: i s)
  case (Suc n)
  define s' where "s' = (if reset = Some i then new_scan else s)"
  have s': "s' = scan_events (seen_at arr reset i) new_scan"
    using Suc.prems(3) by (auto simp: s'_def)
  have i: "i < length arr" "i < k" using Suc by auto
  then have idx: "[i..<k] = i # [Suc i..<k]" by (simp add: upt_conv_Cons)
  have rec: "cuts_loop arr reset [Suc i..<k] (scan_apply (arr ! i) s') = filter (cut_at arr reset) [Suc i..<k]"
  proof (rule Suc.hyps(1))
    show "reset = Some (Suc i) \<or> scan_apply (arr ! i) s' = scan_events (seen_at arr reset (Suc i)) new_scan"
      by (cases "reset = Some (Suc i)") (use i in \<open>simp_all add: seen_at_Suc s'\<close>)
  qed (use Suc i in auto)
  have "cut_at arr reset i \<longleftrightarrow> by_fiat arr reset i \<or> scan_empty s'"
    by (simp add: cut_at_def s' scan_empty_iff)
  with rec show ?case by (simp add: idx s'_def [symmetric] Let_def)
qed simp

lemma collectQuiescentCuts_eq:
  "e \<le> length arr \<Longrightarrow> collectQuiescentCuts arr e reset = filter (cut_at arr reset) [0..<e] @ [e]"
  using cuts_loop_spec [of e arr 0 reset new_scan] by (simp add: collectQuiescentCuts_def)

subsection \<open>The search for a cut\<close>

lemma origin_le: "nearestResetOrigin arr i reset \<le> i"
  by (induction i) (auto simp: le_SucI)

lemma origin_cases:
  assumes "r = nearestResetOrigin arr i reset"
  shows "r = 0 \<or> reset = Some r \<or> echo_at arr r \<or> turn_end_at arr r"
  using assms by (induction i) auto

lemma origin_no_reset: "nearestResetOrigin arr i reset < j \<Longrightarrow> j \<le> i \<Longrightarrow> reset \<noteq> Some j"
proof (induction i)
  case (Suc i)
  then show ?case by (cases "j = Suc i") (auto split: if_splits)
qed simp

text \<open>The scan from the origin and the scan from the start agree once past the origin.\<close>

definition from_origin :: "ui_event list \<Rightarrow> nat \<Rightarrow> nat \<Rightarrow> scan" where
  "from_origin arr r i = scan_events (drop r (take i arr)) new_scan"

lemma from_origin_Suc:
  "r \<le> i \<Longrightarrow> i < length arr \<Longrightarrow> from_origin arr r (Suc i) = scan_apply (arr ! i) (from_origin arr r i)"
  by (simp add: from_origin_def take_Suc_conv_app_nth)

lemma from_origin_self [simp]: "from_origin arr r r = new_scan"
  by (simp add: from_origin_def)

lemma from_origin_agrees:
  assumes r: "r = 0 \<or> reset = Some r \<or> echo_at arr r \<or> turn_end_at arr r"
    and no: "\<And>j. r < j \<Longrightarrow> j \<le> i \<Longrightarrow> reset \<noteq> Some j"
    and i: "r < i" "i \<le> length arr"
  shows "same_open (from_origin arr r i) (scan_events (seen_at arr reset i) new_scan)"
  using i no
proof (induction i)
  case (Suc i)
  have step: "from_origin arr r (Suc i) = scan_apply (arr ! i) (from_origin arr r i)"
    "seen_at arr reset (Suc i) = seen_at arr reset i @ [arr ! i]"
    using Suc.prems by (auto intro!: from_origin_Suc seen_at_Suc)
  show ?case
  proof (cases "i = r")
    case True
    note st = step [unfolded True]
    from r show ?thesis
      unfolding True st
    proof (elim disjE)
      assume "echo_at arr r"
      then show "same_open (scan_apply (arr ! r) (from_origin arr r r))
          (scan_events (seen_at arr reset r @ [arr ! r]) new_scan)"
        by (simp add: resets_same_open echo_resets echo_at_def)
    next
      assume "turn_end_at arr r"
      then show "same_open (scan_apply (arr ! r) (from_origin arr r r))
          (scan_events (seen_at arr reset r @ [arr ! r]) new_scan)"
        by (simp add: resets_same_open echo_resets turn_end_at_def)
    qed (simp_all add: same_open_def)
  next
    case False
    with Suc show ?thesis unfolding step by (simp add: same_open_apply)
  qed
qed simp

lemma quiescent_iff_cut:
  assumes r: "r = 0 \<or> reset = Some r \<or> echo_at arr r \<or> turn_end_at arr r"
    and no: "\<And>j. r < j \<Longrightarrow> j < i \<Longrightarrow> reset \<noteq> Some j"
    and i: "r \<le> i" "i \<le> length arr"
  shows "quiescent_at arr reset r (from_origin arr r i) i \<longleftrightarrow> cut_at arr reset i \<and> (r < i \<or> origin_valid arr reset r)"
proof (cases "by_fiat arr reset i")
  case True
  with i show ?thesis by (cases "r = i") (auto simp: quiescent_at_def cut_at_def origin_valid_def)
next
  case False
  show ?thesis
  proof (cases "r < i")
    case True
    have "reset \<noteq> Some i" using False by (simp add: by_fiat_def)
    with no have "\<And>j. r < j \<Longrightarrow> j \<le> i \<Longrightarrow> reset \<noteq> Some j" by (metis le_neq_implies_less)
    from same_open_empty [OF from_origin_agrees [OF r this True i(2)]] True False show ?thesis
      by (simp add: quiescent_at_def cut_at_def scan_empty_iff)
  next
    case False': False
    with i have "r = i" by simp
    with False show ?thesis
      by (auto simp: quiescent_at_def cut_at_def origin_valid_def scan_empty_def new_scan_def by_fiat_def)
  qed
qed

text \<open>The loop without its scan, over the answers of the scan.\<close>

fun pick_cut :: "(nat \<Rightarrow> bool) \<Rightarrow> nat \<Rightarrow> bool \<Rightarrow> nat list \<Rightarrow> nat option \<Rightarrow> nat" where
  "pick_cut Q start fwd [] best = (case best of Some b \<Rightarrow> b | None \<Rightarrow> start)"
| "pick_cut Q start fwd (i # is) best =
     (if Q i then
        (if i = start then start
         else if i < start then pick_cut Q start fwd is (Some i)
         else if fwd then i
         else (case best of Some b \<Rightarrow> b | None \<Rightarrow> start))
      else if start < i \<and> \<not> fwd then (case best of Some b \<Rightarrow> b | None \<Rightarrow> start)
      else pick_cut Q start fwd is best)"

lemma quiesce_loop_pick:
  "r \<le> i \<Longrightarrow> k \<le> length arr \<Longrightarrow>
   quiesce_loop arr start reset fwd r [i..<k] (from_origin arr r i) best =
     pick_cut (\<lambda>j. quiescent_at arr reset r (from_origin arr r j) j) start fwd [i..<k] best"
proof (induction "k - i" arbitrary: i best)
  case (Suc n)
  then have idx: "[i..<k] = i # [Suc i..<k]" "i < length arr" by (auto simp: upt_conv_Cons)
  have st: "scan_apply (arr ! i) (from_origin arr r i) = from_origin arr r (Suc i)"
    using Suc.prems idx by (simp add: from_origin_Suc)
  have rec: "quiesce_loop arr start reset fwd r [Suc i..<k] (from_origin arr r (Suc i)) b =
      pick_cut (\<lambda>j. quiescent_at arr reset r (from_origin arr r j) j) start fwd [Suc i..<k] b" for b
    using Suc by auto
  show ?case by (simp add: idx st rec)
qed simp

lemma pick_below:
  "\<forall>i \<in> set is. i < start \<Longrightarrow>
   pick_cut Q start fwd (is @ rest) best =
     pick_cut Q start fwd rest (if filter Q is = [] then best else Some (last (filter Q is)))"
proof (induction "is" arbitrary: best)
  case (Cons i "is")
  from Cons.prems have "i < start" "\<forall>i \<in> set is. i < start" by auto
  with Cons.IH [of "Some i"] Cons.IH [of best] show ?case by auto
qed simp

lemma pick_above:
  "\<forall>i \<in> set is. start < i \<Longrightarrow>
   pick_cut Q start fwd is (Some b) = (if fwd then (case filter Q is of [] \<Rightarrow> b | j # _ \<Rightarrow> j) else b)"
  by (induction "is") auto

lemma filter_upt_first:
  assumes "filter P [i..<k] = j # js"
  shows "P j \<and> i \<le> j \<and> j < k \<and> (\<forall>x. i \<le> x \<longrightarrow> x < j \<longrightarrow> \<not> P x)"
proof -
  from assms obtain us vs where u: "[i..<k] = us @ j # vs" "\<forall>x \<in> set us. \<not> P x" "P j"
    by (auto simp: filter_eq_Cons_iff)
  from u(1) have "length us < k - i" by (metis add_Suc_right length_Cons length_append length_upt less_add_Suc1)
  moreover have "us ! n = i + n" if "n < length us" for n
    using that u(1) \<open>length us < k - i\<close> by (metis less_trans nth_append nth_upt less_diff_conv add.commute)
  moreover have "j = i + length us"
    using u(1) \<open>length us < k - i\<close> by (metis nth_append_length nth_upt less_diff_conv add.commute)
  ultimately show ?thesis using u(2,3)
    by (metis add_diff_inverse_nat add_less_cancel_left leD le_add1 less_diff_conv nth_mem add.commute)
qed

lemma filter_upt_last:
  "filter P [i..<k] \<noteq> [] \<Longrightarrow> let m = last (filter P [i..<k]) in P m \<and> i \<le> m \<and> m < k \<and> (\<forall>x. m < x \<longrightarrow> x < k \<longrightarrow> \<not> P x)"
proof (induction k)
  case (Suc k)
  show ?case
  proof (cases "P k \<and> i \<le> k")
    case True
    then show ?thesis by (simp add: Let_def)
  next
    case False
    with Suc.prems have ne: "filter P [i..<k] \<noteq> []" and eq: "filter P [i..<Suc k] = filter P [i..<k]"
      by (auto split: if_splits)
    have "i \<le> k" using ne by (cases "i \<le> k") simp_all
    with False have np: "\<not> P k" by simp
    note ih = Suc.IH [OF ne, unfolded Let_def]
    have "\<not> P x" if "last (filter P [i..<k]) < x" "x < Suc k" for x
    proof -
      from that(2) have "x < k \<or> x = k" by (rule less_SucE) auto
      then show ?thesis using ih np that(1) by blast
    qed
    with ih show ?thesis unfolding eq Let_def using less_SucI by blast
  qed
qed simp

text \<open>
  What \<open>quiesceStart\<close> returns: the start itself when it is a cut; else, when it may move forward, the
  first cut after it; else the last cut below it.  There always is one.
\<close>

theorem quiesceStart_spec:
  fixes arr reset fwd
  assumes s: "0 < start" "start < k" "k \<le> length arr"
  defines "q \<equiv> quiesceStart arr start k reset fwd"
  shows "cut_at arr reset q \<and> q < k \<and>
    (start < q \<longrightarrow> fwd \<and> (\<forall>j. start \<le> j \<longrightarrow> j < q \<longrightarrow> \<not> cut_at arr reset j)) \<and>
    (q < start \<longrightarrow> (\<forall>j. q < j \<longrightarrow> j < (if fwd then k else Suc start) \<longrightarrow> \<not> cut_at arr reset j))"
proof (cases "by_fiat arr reset start")
  case True
  with s show ?thesis by (simp add: q_def quiesceStart_def fiat_cut)
next
  case nf: False
  define r where "r = nearestResetOrigin arr (start - 1) reset"
  define Q where "Q j = quiescent_at arr reset r (from_origin arr r j) j" for j
  have r: "r < start" using origin_le [of arr "start - 1" reset] s by (simp add: r_def)
  note rc = origin_cases [OF r_def]
  have Qcut: "Q j \<longleftrightarrow> cut_at arr reset j \<and> (r < j \<or> origin_valid arr reset r)"
    if "r \<le> j" "j \<le> length arr" "\<And>x. start \<le> x \<Longrightarrow> x < j \<Longrightarrow> reset \<noteq> Some x" for j
    unfolding Q_def
  proof (rule quiescent_iff_cut [OF rc _ that(1,2)])
    fix x assume "r < x" "x < j"
    then show "reset \<noteq> Some x" using origin_no_reset [of arr "start - 1" reset x] that(3) [of x] s
      by (cases "start \<le> x") (auto simp: r_def)
  qed
  have low: "Q j \<longleftrightarrow> cut_at arr reset j" if "r < j" "j \<le> start" for j
    using Qcut [of j] that s by simp
  have high: "\<not> cut_at arr reset j" if none: "\<And>x. start < x \<Longrightarrow> x \<le> j \<Longrightarrow> \<not> Q x" and j: "start < j" "j < k" for j
  proof -
    have "reset \<noteq> Some x" if "start \<le> x" "x < j" for x
      using nf none [of x] that by (cases "x = start") (auto simp: by_fiat_def Q_def quiescent_at_def)
    with none [of j] j Qcut [of j] r s show ?thesis by auto
  qed
  have up: "cut_at arr reset j" if "Q j" "r \<le> j" "j < k" "\<And>x. start < x \<Longrightarrow> x < j \<Longrightarrow> \<not> Q x" for j
  proof -
    have "reset \<noteq> Some x" if "start \<le> x" "x < j" for x
      using nf \<open>\<And>x. start < x \<Longrightarrow> x < j \<Longrightarrow> \<not> Q x\<close> [of x] that
      by (cases "x = start") (auto simp: by_fiat_def Q_def quiescent_at_def)
    with that Qcut [of j] s show ?thesis by auto
  qed
  define below where "below = filter Q [r..<start]"
  have nonempty: "Q start \<or> below \<noteq> []"
  proof (cases "origin_valid arr reset r")
    case True
    then have "Q r" using Qcut [of r] r s by (auto simp: origin_valid_def fiat_cut)
    with r show ?thesis by (auto simp: below_def filter_empty_conv)
  next
    case False
    with rc have "turn_end_at arr r" by (auto simp: origin_valid_def by_fiat_def)
    then have "scan_empty (from_origin arr r (Suc r))"
      using r s by (simp add: from_origin_Suc resets_empty echo_resets turn_end_at_def)
    then have "Q (Suc r)" by (simp add: Q_def quiescent_at_def)
    with r show ?thesis by (cases "Suc r = start") (auto simp: below_def filter_empty_conv)
  qed
  have idx: "[r..<k] = [r..<start] @ start # [Suc start..<k]"
    using r s by (metis less_imp_le upt_add_eq_append upt_conv_Cons le_add_diff_inverse)
  have q: "q = (if Q start then start
      else (case (if fwd then filter Q [Suc start..<k] else []) of [] \<Rightarrow> last below | j # _ \<Rightarrow> j))"
  proof -
    have "q = quiesce_loop arr start reset fwd r [r..<k] (from_origin arr r r) None"
      using nf s by (simp add: q_def quiesceStart_def r_def Let_def)
    also have "\<dots> = pick_cut Q start fwd [r..<k] None"
      unfolding Q_def by (rule quiesce_loop_pick) (use s in simp_all)
    also have "\<dots> = pick_cut Q start fwd (start # [Suc start..<k]) (if below = [] then None else Some (last below))"
      unfolding idx by (subst pick_below) (simp_all add: below_def)
    finally show ?thesis using nonempty by (auto simp: pick_above)
  qed
  show ?thesis
  proof (cases "Q start")
    case True
    then show ?thesis using q low [of start] r s by simp
  next
    case ns: False
    with nonempty have bl: "below \<noteq> []" by simp
    note bl' = filter_upt_last [OF bl [unfolded below_def], folded below_def, unfolded Let_def]
    then have b: "Q (last below)" "r \<le> last below" "last below < start"
      "\<forall>x. last below < x \<longrightarrow> x < start \<longrightarrow> \<not> Q x" by blast+
    have gap: "\<not> cut_at arr reset j" if "last below < j" "j \<le> start" for j
      using b that low [of j] ns by (cases "j = start") auto
    show ?thesis
    proof (cases "if fwd then filter Q [Suc start..<k] else []")
      case Nil
      then have ql: "q = last below" using q ns by simp
      have hi: "\<not> cut_at arr reset j" if "start < j" "j < k" fwd for j
        by (rule high) (use that Nil in \<open>auto simp: filter_empty_conv\<close>)
      have "cut_at arr reset (last below)" by (rule up [OF b(1,2)]) (use b s in auto)
      moreover have "\<not> cut_at arr reset j" if "last below < j" "j < (if fwd then k else Suc start)" for j
        using gap [of j] hi [of j] that by (cases "j \<le> start") (auto split: if_splits)
      ultimately show ?thesis using b s unfolding ql by simp
    next
      case (Cons j js)
      then have fwd: fwd and "filter Q [Suc start..<k] = j # js" by (auto split: if_splits)
      from filter_upt_first [OF this(2)] have j: "Q j" "start < j" "j < k" "\<forall>x. start < x \<longrightarrow> x < j \<longrightarrow> \<not> Q x"
        by (simp_all add: Suc_le_eq)
      have ql: "q = j" using q ns Cons by simp
      have "cut_at arr reset j" by (rule up [OF j(1)]) (use j r in auto)
      moreover have "\<not> cut_at arr reset x" if "start \<le> x" "x < j" for x
        using high [of x] gap [of start] b(3) j that by (cases "x = start") auto
      ultimately show ?thesis using fwd j unfolding ql by auto
    qed
  qed
qed

end
