(* ===== verification/GroupCuts.thy ===== *)
theory GroupCuts
  imports CutFacts
begin

text \<open>
  The group intervals and the snap.  A start \<open>s\<close> is forbidden by the merged intervals exactly when some
  sub-agent's event at or after \<open>s\<close> has no call of its own between \<open>s\<close> and itself; the snap returns a
  cut of the scan that is not forbidden, or the end of the window.
\<close>

subsection \<open>Which starts orphan an event\<close>

definition heads :: "ui_event list \<Rightarrow> string \<Rightarrow> nat \<Rightarrow> bool" where
  "heads arr p h \<longleftrightarrow> is_head (arr ! h) \<and> ev_tool (arr ! h) = Some p"

definition child_of :: "ui_event list \<Rightarrow> nat \<Rightarrow> string \<Rightarrow> bool" where
  "child_of arr c p \<longleftrightarrow> ev_parent (arr ! c) = Some p \<and> p \<noteq> []"

definition orphans :: "ui_event list \<Rightarrow> nat \<Rightarrow> nat \<Rightarrow> bool" where
  "orphans arr e s \<longleftrightarrow> (\<exists>c p. s \<le> c \<and> c < e \<and> child_of arr c p \<and> (\<forall>h. s \<le> h \<longrightarrow> h \<le> c \<longrightarrow> \<not> heads arr p h))"

definition covers :: "interval list \<Rightarrow> nat \<Rightarrow> bool" where
  "covers ivs s \<longleftrightarrow> (\<exists>v \<in> set ivs. iv_left v \<le> s \<and> s \<le> iv_right v)"

text \<open>The latest head before \<open>i\<close>, as the first index after it.\<close>

fun after_head :: "ui_event list \<Rightarrow> string \<Rightarrow> nat \<Rightarrow> nat" where
  "after_head arr p 0 = 0"
| "after_head arr p (Suc i) = (if heads arr p i then Suc i else after_head arr p i)"

lemma after_head_le: "after_head arr p i \<le> i"
  by (induction i) (auto simp: le_SucI)

lemma after_head_iff: "after_head arr p i \<le> s \<longleftrightarrow> (\<forall>h. s \<le> h \<longrightarrow> h < i \<longrightarrow> \<not> heads arr p h)"
proof (induction i)
  case (Suc i)
  show ?case
  proof (cases "heads arr p i")
    case True
    then have "Suc i \<le> s \<longleftrightarrow> (\<forall>h. s \<le> h \<longrightarrow> h < Suc i \<longrightarrow> \<not> heads arr p h)"
      by (metis le_trans lessI not_less not_less_eq_eq)
    with True show ?thesis by simp
  next
    case False
    with Suc show ?thesis by (auto simp: less_Suc_eq)
  qed
qed simp

lemma orphans_Suc:
  "orphans arr (Suc i) s \<longleftrightarrow> orphans arr i s \<or> s \<le> i \<and> (\<exists>p. child_of arr i p \<and> after_head arr p (Suc i) \<le> s)"
  unfolding after_head_iff orphans_def less_Suc_eq_le
proof
  assume "\<exists>c p. s \<le> c \<and> c \<le> i \<and> child_of arr c p \<and> (\<forall>h\<ge>s. h \<le> c \<longrightarrow> \<not> heads arr p h)"
  then obtain c p where c: "s \<le> c" "c \<le> i" "child_of arr c p" "\<forall>h\<ge>s. h \<le> c \<longrightarrow> \<not> heads arr p h" by blast
  then show "(\<exists>c p. s \<le> c \<and> c < i \<and> child_of arr c p \<and> (\<forall>h\<ge>s. h \<le> c \<longrightarrow> \<not> heads arr p h)) \<or>
    s \<le> i \<and> (\<exists>p. child_of arr i p \<and> (\<forall>h\<ge>s. h \<le> i \<longrightarrow> \<not> heads arr p h))"
    by (cases "c = i") auto
qed (use less_imp_le in blast)

definition group_ok :: "ui_event list \<Rightarrow> nat \<Rightarrow> groups \<Rightarrow> interval list \<Rightarrow> bool" where
  "group_ok arr i gs ivs \<longleftrightarrow>
     (\<forall>p. p \<noteq> [] \<longrightarrow> (case gs_head (state_for p gs) of Some h \<Rightarrow> Suc h | None \<Rightarrow> 0) = after_head arr p i \<and>
        (\<forall>k. gs_interval (state_for p gs) = Some k \<longrightarrow> k < length ivs \<and> iv_left (ivs ! k) = after_head arr p i)) \<and>
     (\<forall>v \<in> set ivs. iv_left v \<le> Suc (iv_right v) \<and> iv_right v < i)"

lemma state_for_jput: "state_for p (jput t st gs) = (if p = t then st else state_for p gs)"
  by (simp add: state_for_def map_of_jput)

lemma state_for_head:
  "p \<noteq> [] \<Longrightarrow> state_for p (note_head (arr ! i) i gs) =
     (if heads arr p i then \<lparr>gs_head = Some i, gs_interval = None\<rparr> else state_for p gs)"
  by (auto simp: note_head_def state_for_jput heads_def split: option.splits)

lemma covers_simps:
  "covers (ivs @ ivs') s \<longleftrightarrow> covers ivs s \<or> covers ivs' s" "\<not> covers [] s"
  "covers (v # ivs) s \<longleftrightarrow> iv_left v \<le> s \<and> s \<le> iv_right v \<or> covers ivs s"
  by (auto simp: covers_def)

lemma covers_extend:
  assumes "k < length ivs" "iv_right (ivs ! k) \<le> i"
  shows "covers (ivs[k := (ivs ! k)\<lparr>iv_right := i\<rparr>]) s \<longleftrightarrow> covers ivs s \<or> iv_left (ivs ! k) \<le> s \<and> s \<le> i"
  unfolding upd_conv_take_nth_drop [OF assms(1)]
  by (subst (2) id_take_nth_drop [OF assms(1)]) (use assms(2) in \<open>auto simp: covers_simps\<close>)

lemma group_step:
  assumes ok: "group_ok arr i gs ivs"
    and res: "note_child (arr ! i) i (note_head (arr ! i) i gs, ivs) = (gs', ivs')"
  shows "group_ok arr (Suc i) gs' ivs'"
    "covers ivs' s \<longleftrightarrow> covers ivs s \<or> s \<le> i \<and> (\<exists>p. child_of arr i p \<and> after_head arr p (Suc i) \<le> s)"
proof -
  let ?gs = "note_head (arr ! i) i gs"
  have hd: "(case gs_head (state_for p ?gs) of Some h \<Rightarrow> Suc h | None \<Rightarrow> 0) = after_head arr p (Suc i)"
    and iv: "gs_interval (state_for p ?gs) = Some k \<Longrightarrow> k < length ivs \<and> iv_left (ivs ! k) = after_head arr p (Suc i)"
    if "p \<noteq> []" for p k
    using ok that by (auto simp: state_for_head group_ok_def)
  have bounds: "iv_left v \<le> Suc (iv_right v) \<and> iv_right v < Suc i" if "v \<in> set ivs" for v
    using ok that by (auto simp: group_ok_def)
  have "group_ok arr (Suc i) gs' ivs' \<and> (covers ivs' s \<longleftrightarrow>
     covers ivs s \<or> s \<le> i \<and> (\<exists>p. child_of arr i p \<and> after_head arr p (Suc i) \<le> s))"
  proof (cases "\<exists>p. child_of arr i p")
    case False
    then have "gs' = ?gs" "ivs' = ivs" using res by (auto simp: note_child_def child_of_def split: option.splits)
    with False hd iv bounds show ?thesis by (simp add: group_ok_def)
  next
    case True
    then obtain p where p: "ev_parent (arr ! i) = Some p" "p \<noteq> []" by (auto simp: child_of_def)
    then have only: "child_of arr i q \<longleftrightarrow> q = p" for q by (auto simp: child_of_def)
    let ?st = "state_for p ?gs"
    show ?thesis
    proof (cases "gs_interval ?st")
      case (Some k)
      then have r: "gs' = jput p ?st ?gs" "ivs' = ivs[k := (ivs ! k)\<lparr>iv_right := i\<rparr>]"
        using res p by (simp_all add: note_child_def Let_def)
      note k = iv [OF p(2) Some]
      have lt: "iv_right (ivs ! k) \<le> i" using bounds [of "ivs ! k"] k by simp
      have left: "iv_left (ivs' ! j) = iv_left (ivs ! j)" for j by (cases "j = k") (use k in \<open>simp_all add: r\<close>)
      have "group_ok arr (Suc i) gs' ivs'"
        unfolding group_ok_def r(1)
      proof (intro conjI allI ballI impI)
        fix v assume "v \<in> set ivs'"
        then have "v = (ivs ! k)\<lparr>iv_right := i\<rparr> \<or> v \<in> set ivs" unfolding r using set_update_subset_insert by fastforce
        then show "iv_left v \<le> Suc (iv_right v)" "iv_right v < Suc i"
          using bounds [of v] k after_head_le [of arr p "Suc i"] by auto
      qed (use hd iv left r(2) in \<open>auto simp: state_for_jput split: if_splits\<close>)
      moreover have "covers ivs' s \<longleftrightarrow> covers ivs s \<or> after_head arr p (Suc i) \<le> s \<and> s \<le> i"
        unfolding r using covers_extend [of k ivs i s] k lt by simp
      ultimately show ?thesis using only by auto
    next
      case None
      define v where "v = \<lparr>iv_left = (case gs_head ?st of Some h \<Rightarrow> Suc h | None \<Rightarrow> 0), iv_right = i,
        iv_headless = (gs_head ?st = None)\<rparr>"
      have v: "iv_left v = after_head arr p (Suc i)" "iv_right v = i" using hd [OF p(2)] by (simp_all add: v_def)
      from None have r: "gs' = jput p (?st\<lparr>gs_interval := Some (length ivs)\<rparr>) ?gs" "ivs' = ivs @ [v]"
        using res p by (simp_all add: note_child_def Let_def v_def)
      have "group_ok arr (Suc i) gs' ivs'"
        unfolding group_ok_def r(1)
      proof (intro conjI allI ballI impI)
        fix x assume "x \<in> set ivs'"
        then show "iv_left x \<le> Suc (iv_right x)" "iv_right x < Suc i"
          using bounds [of x] v after_head_le [of arr p "Suc i"] by (auto simp: r)
      next
        fix q :: string assume q: "q \<noteq> []"
        show "(case gs_head (state_for q (jput p (?st\<lparr>gs_interval := Some (length ivs)\<rparr>) ?gs)) of
            Some h \<Rightarrow> Suc h | None \<Rightarrow> 0) = after_head arr q (Suc i)"
          using hd [OF q] hd [OF p(2)] by (cases "q = p") (simp_all add: state_for_jput)
        fix k assume k: "gs_interval (state_for q (jput p (?st\<lparr>gs_interval := Some (length ivs)\<rparr>) ?gs)) = Some k"
        show "k < length ivs'" "iv_left (ivs' ! k) = after_head arr q (Suc i)"
          using k iv [OF q, of k] v by (auto simp: r(2) state_for_jput nth_append split: if_splits)
      qed
      with only v show ?thesis by (auto simp: r(2) covers_simps)
    qed
  qed
  then show "group_ok arr (Suc i) gs' ivs'"
    "covers ivs' s \<longleftrightarrow> covers ivs s \<or> s \<le> i \<and> (\<exists>p. child_of arr i p \<and> after_head arr p (Suc i) \<le> s)" by blast+
qed

lemma group_loop_spec:
  assumes "group_ok arr i gs ivs" "i \<le> e" "\<And>s. covers ivs s \<longleftrightarrow> orphans arr i s"
    "group_loop arr [i..<e] (gs, ivs) = (gs', ivs')"
  shows "(\<forall>v \<in> set ivs'. iv_left v \<le> Suc (iv_right v) \<and> iv_right v < e) \<and> (\<forall>s. covers ivs' s \<longleftrightarrow> orphans arr e s)"
  using assms
proof (induction "e - i" arbitrary: i gs ivs)
  case 0
  then show ?case by (simp add: group_ok_def)
next
  case (Suc n)
  then have idx: "[i..<e] = i # [Suc i..<e]" by (simp add: upt_conv_Cons)
  obtain gs1 ivs1 where step: "note_child (arr ! i) i (note_head (arr ! i) i gs, ivs) = (gs1, ivs1)" by fastforce
  note g = group_step [OF Suc.prems(1) step]
  show ?case
  proof (rule Suc.hyps(1) [OF _ g(1)])
    show "covers ivs1 s \<longleftrightarrow> orphans arr (Suc i) s" for s using g(2) [of s] Suc.prems(3) orphans_Suc by simp
    show "group_loop arr [Suc i..<e] (gs1, ivs1) = (gs', ivs')" using Suc.prems(4) by (simp add: idx step)
  qed (use Suc in auto)
qed

lemma group_intervals_spec:
  "v \<in> set (group_intervals arr e) \<Longrightarrow> iv_left v \<le> Suc (iv_right v) \<and> iv_right v < e"
  "covers (group_intervals arr e) s \<longleftrightarrow> orphans arr e s"
proof -
  obtain gs' ivs' where r: "group_loop arr [0..<e] ([], []) = (gs', ivs')" by fastforce
  have "group_ok arr 0 [] []" by (simp add: group_ok_def state_for_def)
  moreover have "covers [] s \<longleftrightarrow> orphans arr 0 s" for s by (simp add: covers_def orphans_def)
  ultimately show "v \<in> set (group_intervals arr e) \<Longrightarrow> iv_left v \<le> Suc (iv_right v) \<and> iv_right v < e"
    "covers (group_intervals arr e) s \<longleftrightarrow> orphans arr e s"
    using group_loop_spec [of arr 0 "[]" "[]" e gs' ivs'] r by (auto simp: group_intervals_def)
qed

subsection \<open>The merged components\<close>

text \<open>Disjoint components in order, with a gap between any two.\<close>

definition separated :: "interval list \<Rightarrow> bool" where
  "separated ms \<longleftrightarrow> sorted_wrt (\<lambda>a b. iv_right a + 1 < iv_left b) ms"

lemma merge_spec:
  assumes "separated ms" "sorted (map iv_left vs)"
    "\<forall>v \<in> set ms \<union> set vs. iv_left v \<le> Suc (iv_right v) \<and> iv_right v < e"
    "\<forall>m \<in> set ms. \<forall>v \<in> set vs. iv_left m \<le> iv_left v"
  shows "separated (merge_intervals ms vs) \<and> (\<forall>s. covers (merge_intervals ms vs) s \<longleftrightarrow> covers ms s \<or> covers vs s) \<and>
     (\<forall>v \<in> set (merge_intervals ms vs). iv_left v \<le> Suc (iv_right v) \<and> iv_right v < e)"
  using assms
proof (induction vs arbitrary: ms)
  case Nil
  then show ?case by (simp add: covers_def)
next
  case (Cons v vs)
  show ?case
  proof (cases ms rule: rev_cases)
    case Nil
    with Cons.prems have "separated (merge_intervals [v] vs) \<and>
        (\<forall>s. covers (merge_intervals [v] vs) s \<longleftrightarrow> covers [v] s \<or> covers vs s) \<and>
        (\<forall>v \<in> set (merge_intervals [v] vs). iv_left v \<le> Suc (iv_right v) \<and> iv_right v < e)"
      by (intro Cons.IH) (auto simp: separated_def)
    with Nil show ?thesis by (simp add: covers_simps)
  next
    case (snoc bef t)
    have tv: "iv_left t \<le> iv_left v" using Cons.prems(4) snoc by simp
    show ?thesis
    proof (cases "iv_right t + 1 < iv_left v")
      case True
      have sep: "separated (ms @ [v])"
        unfolding separated_def sorted_wrt_append
      proof (intro conjI ballI)
        show "sorted_wrt (\<lambda>a b. iv_right a + 1 < iv_left b) ms" using Cons.prems(1) by (simp add: separated_def)
        show "iv_right a + 1 < iv_left b" if "a \<in> set ms" "b \<in> set [v]" for a b
        proof (cases "a = t")
          case False
          with that snoc have "a \<in> set bef" by simp
          with Cons.prems(1) snoc have "iv_right a + 1 < iv_left t" by (simp add: separated_def sorted_wrt_append)
          with tv that show ?thesis by simp
        qed (use True that in simp)
      qed simp
      have "separated (merge_intervals (ms @ [v]) vs) \<and>
        (\<forall>s. covers (merge_intervals (ms @ [v]) vs) s \<longleftrightarrow> covers (ms @ [v]) s \<or> covers vs s) \<and>
        (\<forall>v \<in> set (merge_intervals (ms @ [v]) vs). iv_left v \<le> Suc (iv_right v) \<and> iv_right v < e)"
        using Cons.prems sep by (intro Cons.IH) auto
      with True snoc show ?thesis by (simp add: covers_simps)
    next
      case False
      define u where "u = t\<lparr>iv_right := max (iv_right t) (iv_right v), iv_headless := (iv_headless t \<or> iv_headless v)\<rparr>"
      have u: "iv_left u = iv_left t" "iv_right u = max (iv_right t) (iv_right v)" by (simp_all add: u_def)
      have wf: "iv_left t \<le> Suc (iv_right t)" "iv_left v \<le> Suc (iv_right v)" "iv_right t < e" "iv_right v < e"
        using Cons.prems(3) snoc by auto
      have cov: "iv_left u \<le> s \<and> s \<le> iv_right u \<longleftrightarrow>
          iv_left t \<le> s \<and> s \<le> iv_right t \<or> iv_left v \<le> s \<and> s \<le> iv_right v" for s
        using False tv wf unfolding u by (auto simp: max_def)
      have sep: "separated (bef @ [u])"
        using Cons.prems(1) snoc u by (simp add: separated_def sorted_wrt_append)
      have "separated (merge_intervals (bef @ [u]) vs) \<and>
        (\<forall>s. covers (merge_intervals (bef @ [u]) vs) s \<longleftrightarrow> covers (bef @ [u]) s \<or> covers vs s) \<and>
        (\<forall>v \<in> set (merge_intervals (bef @ [u]) vs). iv_left v \<le> Suc (iv_right v) \<and> iv_right v < e)"
        using Cons.prems snoc sep wf u by (intro Cons.IH) auto
      with False snoc cov show ?thesis by (simp add: covers_simps u_def [symmetric])
    qed
  qed
qed

lemma sorted_left: "sorted (map iv_left (sort_key (\<lambda>v. (iv_left v, iv_right v)) vs))"
proof -
  have "sorted (map (\<lambda>v. (iv_left v, iv_right v)) (sort_key (\<lambda>v. (iv_left v, iv_right v)) vs))" by (rule sorted_sort_key)
  then have "sorted_wrt (\<lambda>a b. (iv_left a, iv_right a) \<le> (iv_left b, iv_right b)) (sort_key (\<lambda>v. (iv_left v, iv_right v)) vs)"
    by (simp add: sorted_map)
  then have "sorted_wrt (\<lambda>a b. iv_left a \<le> iv_left b) (sort_key (\<lambda>v. (iv_left v, iv_right v)) vs)"
    by (rule sorted_wrt_mono_rel [rotated]) auto
  then show ?thesis by (simp add: sorted_map)
qed

lemma components_spec:
  "separated (groupBoundaryComponents arr e)"
  "covers (groupBoundaryComponents arr e) s \<longleftrightarrow> orphans arr e s"
  "v \<in> set (groupBoundaryComponents arr e) \<Longrightarrow> iv_left v \<le> Suc (iv_right v) \<and> iv_right v < e"
proof -
  let ?vs = "sort_key (\<lambda>v. (iv_left v, iv_right v)) (group_intervals arr e)"
  have "separated (merge_intervals [] ?vs) \<and> (\<forall>s. covers (merge_intervals [] ?vs) s \<longleftrightarrow> covers [] s \<or> covers ?vs s) \<and>
     (\<forall>v \<in> set (merge_intervals [] ?vs). iv_left v \<le> Suc (iv_right v) \<and> iv_right v < e)"
    using group_intervals_spec(1) by (intro merge_spec) (auto simp: separated_def sorted_left)
  moreover have "covers ?vs s \<longleftrightarrow> covers (group_intervals arr e) s" for s by (simp add: covers_def)
  ultimately show "separated (groupBoundaryComponents arr e)"
    "covers (groupBoundaryComponents arr e) s \<longleftrightarrow> orphans arr e s"
    "v \<in> set (groupBoundaryComponents arr e) \<Longrightarrow> iv_left v \<le> Suc (iv_right v) \<and> iv_right v < e"
    by (auto simp: groupBoundaryComponents_def group_intervals_spec(2) covers_simps)
qed

text \<open>The binary searches.\<close>

lemma bisect_step:
  "lo < hi \<Longrightarrow> bisect below lo hi =
     (if below ((lo + hi) div 2) then bisect below ((lo + hi) div 2 + 1) hi else bisect below lo ((lo + hi) div 2))"
  by (subst bisect.simps) (simp add: Let_def)

lemma bisect_spec:
  assumes "\<And>i j. lo \<le> i \<Longrightarrow> i \<le> j \<Longrightarrow> j < hi \<Longrightarrow> below j \<Longrightarrow> below i" "lo \<le> hi"
  shows "lo \<le> bisect below lo hi \<and> bisect below lo hi \<le> hi \<and>
     (\<forall>i. lo \<le> i \<longrightarrow> i < bisect below lo hi \<longrightarrow> below i) \<and>
     (\<forall>i. bisect below lo hi \<le> i \<longrightarrow> i < hi \<longrightarrow> \<not> below i)"
  using assms
proof (induction below lo hi rule: bisect.induct)
  case (1 below lo hi)
  show ?case
  proof (cases "lo < hi")
    case True
    define mid where "mid = (lo + hi) div 2"
    have mid: "lo \<le> mid" "mid < hi" using True by (auto simp: mid_def)
    show ?thesis
    proof (cases "below mid")
      case b: True
      define x where "x = bisect below (mid + 1) hi"
      have "mid + 1 \<le> x \<and> x \<le> hi \<and> (\<forall>i. mid + 1 \<le> i \<longrightarrow> i < x \<longrightarrow> below i) \<and> (\<forall>i. x \<le> i \<longrightarrow> i < hi \<longrightarrow> \<not> below i)"
        unfolding x_def
      proof (rule 1(1) [OF True mid_def b])
        show "below i" if "mid + 1 \<le> i" "i \<le> j" "j < hi" "below j" for i j
          using 1(3) [of i j] that mid by simp
      qed (use mid in simp)
      moreover have "below i" if "lo \<le> i" "i \<le> mid" for i using 1(3) [of i mid] that mid b by simp
      moreover have "bisect below lo hi = x"
        using bisect_step [OF True, of below] b by (simp add: mid_def x_def)
      ultimately show ?thesis using mid by (simp add: Suc_le_eq) (meson not_le)
    next
      case b: False
      define x where "x = bisect below lo mid"
      have "lo \<le> x \<and> x \<le> mid \<and> (\<forall>i. lo \<le> i \<longrightarrow> i < x \<longrightarrow> below i) \<and> (\<forall>i. x \<le> i \<longrightarrow> i < mid \<longrightarrow> \<not> below i)"
        unfolding x_def
      proof (rule 1(2) [OF True mid_def b])
        show "below i" if "lo \<le> i" "i \<le> j" "j < mid" "below j" for i j
          using 1(3) [of i j] that mid by simp
      qed (use mid in simp)
      moreover have "\<not> below i" if "mid \<le> i" "i < hi" for i using 1(3) [of mid i] that mid b by auto
      moreover have "bisect below lo hi = x"
        using bisect_step [OF True, of below] b by (simp add: mid_def x_def)
      ultimately show ?thesis using mid by simp (meson not_le)
    qed
  next
    case False
    with 1(4) show ?thesis by (simp add: bisect.simps)
  qed
qed

lemma bisect_count:
  assumes mono: "\<And>i j. i \<le> j \<Longrightarrow> j < n \<Longrightarrow> below j \<Longrightarrow> below i"
  shows "bisect below 0 n \<le> n" "\<And>i. i < bisect below 0 n \<Longrightarrow> below i"
    "\<And>i. bisect below 0 n \<le> i \<Longrightarrow> i < n \<Longrightarrow> \<not> below i"
proof -
  have "0 \<le> bisect below 0 n \<and> bisect below 0 n \<le> n \<and> (\<forall>i. 0 \<le> i \<longrightarrow> i < bisect below 0 n \<longrightarrow> below i) \<and>
      (\<forall>i. bisect below 0 n \<le> i \<longrightarrow> i < n \<longrightarrow> \<not> below i)"
    by (rule bisect_spec) (rule mono, assumption+, rule le0)
  then show "bisect below 0 n \<le> n" "\<And>i. i < bisect below 0 n \<Longrightarrow> below i"
    "\<And>i. bisect below 0 n \<le> i \<Longrightarrow> i < n \<Longrightarrow> \<not> below i" by blast+
qed

lemma forbidden_iff:
  assumes sep: "separated cs" and wf: "\<And>v. v \<in> set cs \<Longrightarrow> iv_left v \<le> Suc (iv_right v)"
  shows "forbiddenComponentAt cs s = None \<longleftrightarrow> \<not> covers cs s"
    "forbiddenComponentAt cs s = Some c \<Longrightarrow> c \<in> set cs \<and> iv_left c \<le> s \<and> s \<le> iv_right c"
proof -
  let ?below = "\<lambda>mid. iv_left (cs ! mid) \<le> s"
  define lo where "lo = bisect ?below 0 (length cs)"
  have gap: "iv_right (cs ! i) + 1 < iv_left (cs ! j)" if "i < j" "j < length cs" for i j
    using sep that by (simp add: separated_def sorted_wrt_iff_nth_less)
  have mono: "?below i" if "i \<le> j" "j < length cs" "?below j" for i j
    using that gap [of i j] wf [of "cs ! i"] by (cases "i = j") auto
  have lo: "lo \<le> length cs" "\<And>i. i < lo \<Longrightarrow> ?below i" "\<And>i. lo \<le> i \<Longrightarrow> i < length cs \<Longrightarrow> \<not> ?below i"
    unfolding lo_def by (rule bisect_count, rule mono, assumption+)+
  have only: "cs ! i = cs ! (lo - 1)" if "i < length cs" "iv_left (cs ! i) \<le> s" "s \<le> iv_right (cs ! i)" for i
  proof -
    have "i < lo" using lo(3) [of i] that by (meson not_le)
    moreover have "\<not> i < lo - 1"
    proof
      assume i: "i < lo - 1"
      with lo(1) have "lo - 1 < length cs" "lo - 1 < lo" by simp_all
      with gap [OF i] lo(2) [of "lo - 1"] that show False by simp
    qed
    ultimately show ?thesis by (metis Suc_pred' less_Suc_eq not_less_zero gr0I)
  qed
  have eq: "forbiddenComponentAt cs s =
      (if lo = 0 then None else if s \<le> iv_right (cs ! (lo - 1)) then Some (cs ! (lo - 1)) else None)"
    by (simp add: forbiddenComponentAt_def lo_def Let_def)
  have mem: "cs ! (lo - 1) \<in> set cs" "?below (lo - 1)" if "lo \<noteq> 0"
    using lo(1) lo(2) [of "lo - 1"] that by simp_all
  have lo0: "\<not> covers cs s" if "lo = 0" using lo(3) that by (auto simp: covers_def in_set_conv_nth)
  show "forbiddenComponentAt cs s = None \<longleftrightarrow> \<not> covers cs s"
  proof (cases "lo = 0")
    case True
    with lo0 show ?thesis by (simp add: eq)
  next
    case False
    have "covers cs s \<longleftrightarrow> s \<le> iv_right (cs ! (lo - 1))"
    proof
      assume "covers cs s"
      then obtain i where i: "i < length cs" "iv_left (cs ! i) \<le> s" "s \<le> iv_right (cs ! i)"
        by (auto simp: covers_def in_set_conv_nth)
      from only [OF this] i show "s \<le> iv_right (cs ! (lo - 1))" by simp
    qed (use mem [OF False] in \<open>auto simp: covers_def\<close>)
    with False show ?thesis by (simp add: eq)
  qed
  show "forbiddenComponentAt cs s = Some c \<Longrightarrow> c \<in> set cs \<and> iv_left c \<le> s \<and> s \<le> iv_right c"
    using mem by (auto simp: eq split: if_splits)
qed

text \<open>\<open>lowerBound\<close> counts the values below the target.\<close>

lemma lowerBound_spec:
  assumes "sorted vs"
  shows "lowerBound vs t \<le> length vs" "\<And>i. i < lowerBound vs t \<Longrightarrow> vs ! i < t"
    "\<And>i. lowerBound vs t \<le> i \<Longrightarrow> i < length vs \<Longrightarrow> t \<le> vs ! i"
proof -
  have mono: "vs ! i < t" if "i \<le> j" "j < length vs" "vs ! j < t" for i j
    using sorted_nth_mono [OF assms that(1,2)] that(3) by simp
  show "lowerBound vs t \<le> length vs" unfolding lowerBound_def by (rule bisect_count(1)) (rule mono)
  show "vs ! i < t" if "i < lowerBound vs t" for i
    by (rule bisect_count(2) [where below = "\<lambda>mid. vs ! mid < t" and n = "length vs"])
      (use mono that in \<open>auto simp: lowerBound_def\<close>)
  have "\<not> vs ! i < t" if "lowerBound vs t \<le> i" "i < length vs" for i
    by (rule bisect_count(3) [where below = "\<lambda>mid. vs ! mid < t" and n = "length vs"])
      (use mono that in \<open>auto simp: lowerBound_def\<close>)
  then show "t \<le> vs ! i" if "lowerBound vs t \<le> i" "i < length vs" for i using that by (meson not_less)
qed

lemma lowerBound_beyond:
  "sorted vs \<Longrightarrow> i < length vs \<Longrightarrow> vs ! i < t \<Longrightarrow> i < lowerBound vs t"
  using lowerBound_spec(3) [of vs t i] by (meson not_le)

lemma lowerBound_upto:
  "sorted vs \<Longrightarrow> i < length vs \<Longrightarrow> t \<le> vs ! i \<Longrightarrow> lowerBound vs t \<le> i"
  using lowerBound_spec(2) [of vs i t] by (meson not_le)

subsection \<open>The boundary searches\<close>

lemma first_boundary_enough:
  assumes "separated cs" "\<And>v. v \<in> set cs \<Longrightarrow> iv_left v \<le> Suc (iv_right v)" "sorted cuts" "length cuts - i < n"
  shows "\<exists>x. first_boundary_loop n cuts cs i = Some x \<and> (x = last cuts \<or> x \<in> set cuts \<and> \<not> covers cs x)"
  using assms(4)
proof (induction n arbitrary: i)
  case (Suc n)
  show ?case
  proof (cases "i < length cuts")
    case True
    show ?thesis
    proof (cases "forbiddenComponentAt cs (cuts ! i)")
      case None
      then have "\<not> covers cs (cuts ! i)" using forbidden_iff(1) [OF assms(1,2)] by blast
      with True None show ?thesis by simp
    next
      case (Some c)
      then have "cuts ! i \<le> iv_right c" using forbidden_iff(2) [OF assms(1,2)] by blast
      then have "i < lowerBound cuts (iv_right c + 1)" using True by (intro lowerBound_beyond assms(3)) simp_all
      with Suc.prems True have "length cuts - lowerBound cuts (iv_right c + 1) < n" by simp
      from Suc.IH [OF this] True Some show ?thesis by simp
    qed
  qed simp
qed simp

lemma last_boundary_enough:
  assumes "separated cs" "\<And>v. v \<in> set cs \<Longrightarrow> iv_left v \<le> Suc (iv_right v)" "sorted cuts" "i < n" "i \<le> length cuts"
  shows "\<exists>x. last_boundary_loop n cuts cs i = Some x \<and> (x = None \<or> (\<exists>y. x = Some y \<and> y \<in> set (take i cuts) \<and> \<not> covers cs y))"
  using assms(4,5)
proof (induction n arbitrary: i)
  case (Suc n)
  show ?case
  proof (cases i)
    case (Suc j)
    show ?thesis
    proof (cases "forbiddenComponentAt cs (cuts ! j)")
      case None
      then have "\<not> covers cs (cuts ! j)" using forbidden_iff(1) [OF assms(1,2)] by blast
      with Suc Suc.prems None show ?thesis by (simp add: take_Suc_conv_app_nth)
    next
      case (Some c)
      then have "iv_left c \<le> cuts ! j" using forbidden_iff(2) [OF assms(1,2)] by blast
      then have le: "lowerBound cuts (iv_left c) \<le> j" using Suc Suc.prems by (intro lowerBound_upto assms(3)) simp_all
      with Suc Suc.prems have "\<exists>x. last_boundary_loop n cuts cs (lowerBound cuts (iv_left c)) = Some x \<and>
          (x = None \<or> (\<exists>y. x = Some y \<and> y \<in> set (take (lowerBound cuts (iv_left c)) cuts) \<and> \<not> covers cs y))"
        by (intro Suc.IH) simp_all
      moreover have "set (take (lowerBound cuts (iv_left c)) cuts) \<subseteq> set (take i cuts)"
        using le Suc by (intro set_take_subset_set_take) simp
      ultimately show ?thesis using Some Suc by auto
    qed
  qed simp
qed simp

subsection \<open>The snap\<close>

text \<open>
  What the snap returns for a window that is not empty: a cut inside the list, at which no sub-agent's
  event of the window is cut from its call, or the end of the window.
\<close>

theorem snap_spec:
  fixes reset
  assumes "start < e" "e \<le> length arr"
  defines "s \<equiv> snapStartToQuiescent arr start e reset"
  shows "s = e \<or> s < e \<and> cut_at arr reset s \<and> \<not> orphans arr e s"
proof -
  define cs where "cs = groupBoundaryComponents arr e"
  define cuts where "cuts = collectQuiescentCuts arr e reset"
  define q where "q = quiesceStart arr start e reset True"
  have sep: "separated cs" and wf: "\<And>v. v \<in> set cs \<Longrightarrow> iv_left v \<le> Suc (iv_right v)"
    using components_spec by (auto simp: cs_def)
  have cov: "covers cs x \<longleftrightarrow> orphans arr e x" for x by (simp add: cs_def components_spec(2))
  have cuts: "cuts = filter (cut_at arr reset) [0..<e] @ [e]" using assms(2) by (simp add: cuts_def collectQuiescentCuts_eq)
  then have srt: "sorted cuts" "last cuts = e" by (auto simp: sorted_append intro: sorted_filter [of id, simplified])
  have q: "cut_at arr reset q" "q < e"
    using quiesceStart_spec [of start e arr reset True] assms(1,2)
    by (cases "start = 0"; auto simp: q_def quiesceStart_def)+
  have good: "x = e \<or> x < e \<and> cut_at arr reset x \<and> \<not> orphans arr e x" if "x = last cuts \<or> x \<in> set cuts \<and> \<not> covers cs x" for x
    using that by (auto simp: srt cuts cov)
  have first: "firstCombinedBoundary cuts cs b = e \<or>
      firstCombinedBoundary cuts cs b < e \<and> cut_at arr reset (firstCombinedBoundary cuts cs b) \<and>
      \<not> orphans arr e (firstCombinedBoundary cuts cs b)" for b
  proof (rule good)
    obtain x where "first_boundary_loop (length cuts + 1) cuts cs (lowerBound cuts b) = Some x"
      "x = last cuts \<or> x \<in> set cuts \<and> \<not> covers cs x"
      using first_boundary_enough [OF sep wf srt(1), of "lowerBound cuts b" "length cuts + 1"] less_Suc_eq_le
      by (metis Suc_eq_plus1 diff_le_self)
    then show "firstCombinedBoundary cuts cs b = last cuts \<or>
      firstCombinedBoundary cuts cs b \<in> set cuts \<and> \<not> covers cs (firstCombinedBoundary cuts cs b)"
      by (simp add: firstCombinedBoundary_def)
  qed
  have last: "y = e \<or> y < e \<and> cut_at arr reset y \<and> \<not> orphans arr e y" if "lastCombinedBoundary cuts cs b = Some y" for b y
  proof (rule good)
    have "lowerBound cuts (b + 1) \<le> length cuts" by (rule lowerBound_spec(1) [OF srt(1)])
    then obtain x where "last_boundary_loop (length cuts + 1) cuts cs (lowerBound cuts (b + 1)) = Some x"
      "x = None \<or> (\<exists>y. x = Some y \<and> y \<in> set (take (lowerBound cuts (b + 1)) cuts) \<and> \<not> covers cs y)"
      using last_boundary_enough [OF sep wf srt(1), of "lowerBound cuts (b + 1)" "length cuts + 1"] less_Suc_eq_le
      by (metis Suc_eq_plus1)
    with that show "y = last cuts \<or> y \<in> set cuts \<and> \<not> covers cs y"
      by (auto simp: lastCombinedBoundary_def dest: in_set_takeD)
  qed
  have s: "s = (case forbiddenComponentAt cs q of None \<Rightarrow> q
     | Some c \<Rightarrow> if iv_headless c then firstCombinedBoundary cuts cs (iv_right c + 1)
        else (case lastCombinedBoundary cuts cs (iv_left c - 1) of Some b \<Rightarrow> b
          | None \<Rightarrow> firstCombinedBoundary cuts cs (iv_right c + 1)))"
    using assms(1,2) unfolding s_def snapStartToQuiescent_def cs_def cuts_def q_def Let_def
    by (simp add: min_def cong: option.case_cong)
  show ?thesis
  proof (cases "forbiddenComponentAt cs q")
    case None
    then have "\<not> orphans arr e q" by (simp add: forbidden_iff(1) [OF sep wf] cov)
    with None q show ?thesis by (simp add: s)
  next
    case (Some c)
    show ?thesis
      using first [of "iv_right c + 1"] last [of "iv_left c - 1"] unfolding s Some
      by (auto split: option.splits)
  qed
qed

end
