(* ===== verification/EventRing.thy ===== *)
theory EventRing
  imports GroupCuts
begin

text \<open>
  The retained event log of an instance, \<open>EventLog\<close> of \<open>src/instances.ts\<close>, and the tail of it a new
  subscriber is sent, \<open>Instance.snapshotTail\<close>.
\<close>

type_synonym ring_seam = "string \<times> nat"

record event_log =
  el_cap :: nat
  el_slack :: nat
  el_buf :: "ui_event list"
  el_next :: nat
  el_seams :: "ring_seam list"

definition DEFAULT_RING_CAP :: nat where "DEFAULT_RING_CAP = 2000"
definition RING_TRIM_SLACK :: nat where "RING_TRIM_SLACK = 256"
definition DEFAULT_SNAPSHOT_TAIL :: nat where "DEFAULT_SNAPSHOT_TAIL = 500"

text \<open>
  The constructor's choice of a capacity: the argument, else the environment's, else the default; each
  counts only as a positive integer, which is what \<open>Some\<close> says of a number here.
\<close>

definition positive_or :: "int option \<Rightarrow> nat \<Rightarrow> nat" where
  "positive_or n d = (case n of Some i \<Rightarrow> if 0 < i then nat i else d | None \<Rightarrow> d)"

definition new_log :: "int option \<Rightarrow> int option \<Rightarrow> event_log" where
  "new_log cap env = (let c = positive_or cap (positive_or env DEFAULT_RING_CAP) in
     \<lparr>el_cap = c, el_slack = min RING_TRIM_SLACK c, el_buf = [], el_next = 0, el_seams = []\<rparr>)"

definition trimmedBefore :: "event_log \<Rightarrow> nat" where
  "trimmedBefore l = (case el_buf l of [] \<Rightarrow> el_next l
     | e # _ \<Rightarrow> (case ev_seq e of Some s \<Rightarrow> s | None \<Rightarrow> 0))"

text \<open>The three kinds of event the log declines to keep.\<close>

definition declined :: "ui_event \<Rightarrow> bool" where
  "declined v \<longleftrightarrow> ev_kind v = System_ev \<and> ev_subtype v = ''thinking_tokens'' \<or>
     ev_kind v = Message_start \<and> ev_replayed v \<or> ev_kind v = Context_usage"

text \<open>A delta of the block the last slot holds is appended to it.\<close>

definition folds_into :: "ui_event \<Rightarrow> ui_event \<Rightarrow> bool" where
  "folds_into v tail \<longleftrightarrow> (ev_kind v = Thinking_delta \<or> ev_kind v = Text_delta) \<and>
     ev_kind tail = ev_kind v \<and> ev_msg tail = ev_msg v \<and> ev_block tail = ev_block v"

definition trim_cut :: "nat \<Rightarrow> ui_event list \<Rightarrow> nat" where
  "trim_cut cap buf =
     (let base = length buf - cap; maxIdx = length buf - (cap + 1) div 2 in
      case List.find (echo_at buf) [base..<maxIdx] of
        Some c \<Rightarrow> c
      | None \<Rightarrow> (case firstQuiescentAtOrAfter buf base maxIdx of Some q \<Rightarrow> q | None \<Rightarrow> base))"

definition trim_log :: "event_log \<Rightarrow> event_log" where
  "trim_log l = l\<lparr>el_buf := drop (trim_cut (el_cap l) (el_buf l)) (el_buf l)\<rparr>"

definition append_event :: "ui_event \<Rightarrow> event_log \<Rightarrow> event_log" where
  "append_event v l =
     (let l' = l\<lparr>el_next := Suc (el_next l), el_buf := el_buf l @ [v\<lparr>ev_seq := Some (el_next l)\<rparr>]\<rparr> in
      if el_cap l' + el_slack l' < length (el_buf l') then trim_log l' else l')"

definition push_event :: "ui_event \<Rightarrow> event_log \<Rightarrow> event_log" where
  "push_event v l =
     (if declined v then l
      else case rev (el_buf l) of
          tail # bef \<Rightarrow>
            if folds_into v tail then l\<lparr>el_buf := rev bef @ [tail\<lparr>ev_text := ev_text tail @ ev_text v\<rparr>]\<rparr>
            else append_event v l
        | [] \<Rightarrow> append_event v l)"

definition markSeam :: "string \<Rightarrow> event_log \<Rightarrow> event_log" where
  "markSeam seg l = l\<lparr>el_seams := el_seams l @ [(seg, if el_seams l = [] then 0 else el_next l)]\<rparr>"

definition clear_log :: "event_log \<Rightarrow> event_log" where
  "clear_log l = l\<lparr>el_buf := [], el_next := 0, el_seams := []\<rparr>"

definition snapshotTail :: "int option \<Rightarrow> int option \<Rightarrow> ui_event list \<Rightarrow> ui_event list" where
  "snapshotTail max' env buf =
     (let cap = positive_or max' (positive_or env DEFAULT_SNAPSHOT_TAIL) in
      if length buf \<le> cap then buf
      else (let start = snapStartToQuiescent buf (length buf - cap) (length buf) None in
        if length buf \<le> start then drop (lastQuiescentAtOrBefore buf (length buf - cap) None) buf
        else drop start buf))"

subsection \<open>The log it stands for\<close>

text \<open>The same log without a capacity.\<close>

definition keep_event :: "ui_event \<Rightarrow> ui_event list \<Rightarrow> ui_event list" where
  "keep_event v es =
     (if declined v then es
      else case rev es of
          tail # bef \<Rightarrow>
            if folds_into v tail then rev bef @ [tail\<lparr>ev_text := ev_text tail @ ev_text v\<rparr>]
            else es @ [v\<lparr>ev_seq := Some (length es)\<rparr>]
        | [] \<Rightarrow> es @ [v\<lparr>ev_seq := Some (length es)\<rparr>])"

definition kept_events :: "ui_event list \<Rightarrow> ui_event list" where
  "kept_events vs = fold keep_event vs []"

definition pushed :: "ui_event list \<Rightarrow> event_log \<Rightarrow> event_log" where
  "pushed vs l = fold push_event vs l"

definition log_ok :: "event_log \<Rightarrow> bool" where
  "log_ok l \<longleftrightarrow> 0 < el_cap l \<and> length (el_buf l) \<le> el_cap l + el_slack l \<and> (el_next l \<noteq> 0 \<longrightarrow> el_buf l \<noteq> [])"

lemma first_quiescent_loop_mem:
  "first_quiescent_loop arr f r is s = Some q \<Longrightarrow> q \<in> set is \<and> f \<le> q"
  by (induction "is" arbitrary: s) (auto split: if_splits)

lemma firstQuiescent_bounds:
  "firstQuiescentAtOrAfter arr f b = Some q \<Longrightarrow> 0 < f \<Longrightarrow> f \<le> q \<and> q < b"
  by (auto simp: firstQuiescentAtOrAfter_def Let_def dest!: first_quiescent_loop_mem)

lemma trim_cut_bounds:
  assumes "0 < cap" "cap < length buf"
  shows "length buf - cap \<le> trim_cut cap buf \<and> trim_cut cap buf < length buf"
proof -
  have "List.find (echo_at buf) [b..<m] = Some c \<Longrightarrow> b \<le> c \<and> c < m" for b m c
    by (auto dest!: find_SomeD)
  moreover have "firstQuiescentAtOrAfter buf (length buf - cap) m = Some q \<Longrightarrow> length buf - cap \<le> q \<and> q < m" for m q
    using assms by (auto dest: firstQuiescent_bounds)
  ultimately show ?thesis
    using assms by (fastforce simp: trim_cut_def Let_def split: option.splits)
qed

text \<open>
  The log is a suffix of the unbounded one, within its bound, and never loses its last event.
\<close>

definition log_of :: "event_log \<Rightarrow> ui_event list \<Rightarrow> bool" where
  "log_of l es \<longleftrightarrow> 0 < el_cap l \<and> el_next l = length es \<and> length (el_buf l) \<le> el_cap l + el_slack l \<and>
     (\<exists>k. el_buf l = drop k es \<and> (es = [] \<or> k < length es))"

lemma log_of_last: "log_of l es \<Longrightarrow> el_buf l = [] \<longleftrightarrow> es = []"
  by (auto simp: log_of_def)

lemma rev_drop_Cons:
  "k < length es \<Longrightarrow> rev (drop k es) = t # bef \<Longrightarrow> \<exists>pre. es = pre @ rev bef @ [t] \<and> length pre = k"
  by (metis append_take_drop_id length_take min.absorb4 rev.simps(2) rev_rev_ident)

lemma log_of_append:
  assumes "log_of l es"
  shows "log_of (append_event v l) (es @ [v\<lparr>ev_seq := Some (length es)\<rparr>])"
proof -
  define l' where "l' = l\<lparr>el_next := Suc (el_next l), el_buf := el_buf l @ [v\<lparr>ev_seq := Some (el_next l)\<rparr>]\<rparr>"
  obtain k where k: "el_buf l = drop k es" "es = [] \<or> k < length es" using assms by (auto simp: log_of_def)
  let ?es = "es @ [v\<lparr>ev_seq := Some (length es)\<rparr>]"
  have buf: "el_buf l' = drop (min k (length es)) ?es" using assms k by (simp add: l'_def log_of_def min_def)
  show ?thesis
  proof (cases "el_cap l' + el_slack l' < length (el_buf l')")
    case True
    have b: "length (el_buf l') - el_cap l' \<le> trim_cut (el_cap l') (el_buf l')"
      "trim_cut (el_cap l') (el_buf l') < length (el_buf l')"
      using trim_cut_bounds [of "el_cap l'" "el_buf l'"] True assms by (auto simp: l'_def log_of_def)
    define m where "m = trim_cut (el_cap l') (el_buf l') + min k (length es)"
    have a: "append_event v l = trim_log l'" using True by (simp add: append_event_def l'_def Let_def)
    have d: "el_buf (trim_log l') = drop m ?es" by (simp add: trim_log_def buf m_def)
    have len: "length (el_buf (trim_log l')) \<le> el_cap l'" using b by (simp add: trim_log_def)
    have lt: "m < length ?es" using b(2) unfolding buf m_def by simp
    show ?thesis
      unfolding a log_of_def
    proof (intro conjI exI [of _ m])
      show "length (el_buf (trim_log l')) \<le> el_cap (trim_log l') + el_slack (trim_log l')"
        using len by (simp add: trim_log_def)
    qed (use d lt assms in \<open>auto simp: log_of_def trim_log_def l'_def\<close>)
  next
    case False
    then have "append_event v l = l'" by (simp add: append_event_def l'_def Let_def)
    with False buf assms show ?thesis
      by (auto simp: log_of_def l'_def intro!: exI [of _ "min k (length es)"])
  qed
qed

lemma log_of_push:
  assumes l: "log_of l es"
  shows "log_of (push_event v l) (keep_event v es)"
proof (cases "declined v")
  case True
  with l show ?thesis by (simp add: push_event_def keep_event_def)
next
  case False
  obtain k where k: "el_buf l = drop k es" "es = [] \<or> k < length es" using l by (auto simp: log_of_def)
  show ?thesis
  proof (cases "rev (el_buf l)")
    case Nil
    with log_of_last [OF l] have "es = []" by simp
    with Nil False log_of_append [OF l, of v] show ?thesis by (simp add: push_event_def keep_event_def)
  next
    case (Cons t bef)
    then have "k < length es" using k by (cases es) auto
    from rev_drop_Cons [OF this] Cons k(1) obtain pre where es: "es = pre @ rev bef @ [t]" "length pre = k" by auto
    show ?thesis
    proof (cases "folds_into v t")
      case True
      with Cons False es l k show ?thesis
        by (auto simp: push_event_def keep_event_def log_of_def intro!: exI [of _ k])
    next
      case nf: False
      with Cons False es log_of_append [OF l, of v] show ?thesis by (simp add: push_event_def keep_event_def)
    qed
  qed
qed

text \<open>The sequence numbers of the unbounded log are its positions.\<close>

definition numbered :: "ui_event list \<Rightarrow> bool" where
  "numbered es \<longleftrightarrow> (\<forall>i < length es. ev_seq (es ! i) = Some i)"

lemma events_numbered_snoc: "numbered (es @ [e]) \<longleftrightarrow> numbered es \<and> ev_seq e = Some (length es)"
  by (auto simp: numbered_def nth_append less_Suc_eq)

lemma numbered_keep: "numbered es \<Longrightarrow> numbered (keep_event v es)"
  using events_numbered_snoc [of es "v\<lparr>ev_seq := Some (length es)\<rparr>"]
  by (cases es rule: rev_cases) (auto simp: keep_event_def events_numbered_snoc)

lemma kept_numbered: "numbered (fold keep_event vs es)" if "numbered es"
  using that by (induction vs arbitrary: es) (auto intro: numbered_keep)

lemma log_of_pushed: "log_of l es \<Longrightarrow> log_of (pushed vs l) (fold keep_event vs es)"
  unfolding pushed_def by (induction vs arbitrary: l es) (auto intro: log_of_push)

lemma log_of_new: "log_of (new_log cap env) []"
  by (auto simp: log_of_def new_log_def Let_def positive_or_def DEFAULT_RING_CAP_def split: option.splits)

lemma pushed_cap [simp]: "el_cap (pushed vs l) = el_cap l" "el_slack (pushed vs l) = el_slack l"
proof -
  have "el_cap (push_event v l) = el_cap l \<and> el_slack (push_event v l) = el_slack l" for v l
    by (auto simp: push_event_def append_event_def trim_log_def Let_def split: list.splits)
  then show "el_cap (pushed vs l) = el_cap l" "el_slack (pushed vs l) = el_slack l"
    unfolding pushed_def by (induction vs arbitrary: l) auto
qed

end
