(* ===== verification/TaskBatches.thy ===== *)
theory TaskBatches
  imports UiEvents
begin

text \<open>
  The task batches of a session, \<open>src/taskReconstruct.ts\<close>: one pass over the events of the outer agent
  that binds each TaskCreate to the id in its result, in either order, applies the updates, and notes
  the update that completes a batch.
\<close>

record stored_task =
  tk_subject :: string
  tk_description :: string
  tk_activeForm :: "string option"
  tk_status :: string

record task_completion =
  tc_after :: "nat option"
  tc_tasks :: "(string \<times> stored_task) list"

text \<open>\<open>/Task #(\d+) created/\<close>, the first match anywhere in the text.\<close>

definition is_digit_char :: "char \<Rightarrow> bool" where
  "is_digit_char c \<longleftrightarrow> CHR ''0'' \<le> c \<and> c \<le> CHR ''9''"

definition create_id_here :: "string \<Rightarrow> string option" where
  "create_id_here s =
     (if starts_with s ''Task #'' then
        (let ds = takeWhile is_digit_char (drop 6 s); rest = dropWhile is_digit_char (drop 6 s) in
         if ds \<noteq> [] \<and> starts_with rest '' created'' then Some ds else None)
      else None)"

fun create_id :: "string \<Rightarrow> string option" where
  "create_id [] = None"
| "create_id (c # cs) = (case create_id_here (c # cs) of Some d \<Rightarrow> Some d | None \<Rightarrow> create_id cs)"

text \<open>\<open>Number(id)\<close> of a string of digits.\<close>

definition digits_value :: "string \<Rightarrow> nat" where
  "digits_value ds = foldl (\<lambda>n c. 10 * n + (of_char c - 48)) 0 ds"

fun blockText :: "json \<Rightarrow> string" where
  "blockText (JObj kvs) = str_or_empty (map_of kvs ''text'')"
| "blockText _ = []"

definition resultText :: "ui_event \<Rightarrow> string" where
  "resultText ev = (case ev_content ev of
      Some (JStr s) \<Rightarrow> s
    | Some (JArr bs) \<Rightarrow> js_join [CHR 0x0A] (map blockText bs)
    | _ \<Rightarrow> [])"

type_synonym task_input = args

definition taskInputOf :: "json option \<Rightarrow> task_input" where
  "taskInputOf raw = asRecord raw"

record task_state =
  ts_tasks :: "(string, stored_task) jmap"
  ts_creates :: "(string option, task_input) jmap"
  ts_results :: "(string option, ui_event) jmap"
  ts_completions :: "task_completion list"
  ts_orphan :: bool

definition no_tasks :: task_state where
  "no_tasks = \<lparr>ts_tasks = [], ts_creates = [], ts_results = [], ts_completions = [], ts_orphan = False\<rparr>"

definition allCompleted :: "(string, stored_task) jmap \<Rightarrow> bool" where
  "allCompleted ts \<longleftrightarrow> list_all (\<lambda>t. tk_status t = ''completed'') (jvals ts)"

definition isVisible :: "(string, stored_task) jmap \<Rightarrow> bool" where
  "isVisible ts \<longleftrightarrow> ts \<noteq> [] \<and> list_ex (\<lambda>t. tk_status t \<noteq> ''completed'') (jvals ts)"

definition task_list :: "(string, stored_task) jmap \<Rightarrow> (string \<times> stored_task) list" where
  "task_list ts = sort_key (\<lambda>(i, _). digits_value i) ts"

definition field_or :: "json option \<Rightarrow> string \<Rightarrow> string" where
  "field_or v d = (case as_str v of Some s \<Rightarrow> s | None \<Rightarrow> d)"

definition applyCreate :: "task_input \<Rightarrow> ui_event \<Rightarrow> task_state \<Rightarrow> task_state" where
  "applyCreate input result st =
     (case create_id (resultText result) of
        None \<Rightarrow> st
      | Some i \<Rightarrow> st\<lparr>ts_tasks := jput i
          \<lparr>tk_subject = field_or (map_of input ''subject'') ''(no subject)'',
           tk_description = field_or (map_of input ''description'') [],
           tk_activeForm = as_str (map_of input ''activeForm''),
           tk_status = ''pending''\<rparr>
          (if ts_tasks st \<noteq> [] \<and> allCompleted (ts_tasks st) then [] else ts_tasks st)\<rparr>)"

text \<open>What a TaskCreate keeps of its input while it waits: the three fields, defaults filled in.\<close>

definition create_fields :: "task_input \<Rightarrow> task_input" where
  "create_fields input =
     [(''subject'', JStr (field_or (map_of input ''subject'') ''(no subject)'')),
      (''description'', JStr (field_or (map_of input ''description'') [])),
      (''activeForm'', (case as_str (map_of input ''activeForm'') of Some s \<Rightarrow> JStr s | None \<Rightarrow> JNull))]"

definition task_create :: "ui_event \<Rightarrow> task_state \<Rightarrow> task_state" where
  "task_create ev st =
     (let input = taskInputOf (ev_input ev) in
      case map_of (ts_results st) (ev_tool ev) of
        Some buffered \<Rightarrow> applyCreate input buffered (st\<lparr>ts_results := jdrop (ev_tool ev) (ts_results st)\<rparr>)
      | None \<Rightarrow> st\<lparr>ts_creates := jput (ev_tool ev) (create_fields input) (ts_creates st)\<rparr>)"

definition updated_task :: "task_input \<Rightarrow> stored_task \<Rightarrow> stored_task" where
  "updated_task input t =
     \<lparr>tk_subject = field_or (map_of input ''subject'') (tk_subject t),
      tk_description = field_or (map_of input ''description'') (tk_description t),
      tk_activeForm = (case as_str (map_of input ''activeForm'') of Some s \<Rightarrow> Some s | None \<Rightarrow> tk_activeForm t),
      tk_status = field_or (map_of input ''status'') (tk_status t)\<rparr>"

definition task_id :: "task_input \<Rightarrow> string option" where
  "task_id input = (case map_of input ''taskId'' of
      None \<Rightarrow> None | Some JNull \<Rightarrow> None
    | Some v \<Rightarrow> (let s = js_String (Some v) in if s = [] then None else Some s))"

definition task_update :: "ui_event \<Rightarrow> task_state \<Rightarrow> task_state" where
  "task_update ev st =
     (let input = taskInputOf (ev_input ev) in
      case task_id input of
        None \<Rightarrow> st
      | Some i \<Rightarrow>
          if map_of input ''status'' = Some (JStr ''deleted'') then st\<lparr>ts_tasks := jdrop i (ts_tasks st)\<rparr>
          else (case map_of (ts_tasks st) i of
              None \<Rightarrow> st\<lparr>ts_orphan := True\<rparr>
            | Some t \<Rightarrow>
                (let ts' = jput i (updated_task input t) (ts_tasks st) in
                 st\<lparr>ts_tasks := ts', ts_completions := ts_completions st @
                   (if isVisible (ts_tasks st) \<and> \<not> isVisible ts' \<and> ts' \<noteq> []
                    then [\<lparr>tc_after = ev_seq ev, tc_tasks = task_list ts'\<rparr>] else [])\<rparr>)))"

definition task_result :: "ui_event \<Rightarrow> task_state \<Rightarrow> task_state" where
  "task_result ev st =
     (case map_of (ts_creates st) (ev_tool ev) of
        None \<Rightarrow> if create_id (resultText ev) \<noteq> None then st\<lparr>ts_results := jput (ev_tool ev) ev (ts_results st)\<rparr> else st
      | Some pending \<Rightarrow> applyCreate pending ev (st\<lparr>ts_creates := jdrop (ev_tool ev) (ts_creates st)\<rparr>))"

definition task_event :: "ui_event \<Rightarrow> task_state \<Rightarrow> task_state" where
  "task_event ev st =
     (if nested ev then st
      else if ev_kind ev = Tool_use then
        (if ev_name ev = Some ''TaskCreate'' then task_create ev st
         else if ev_name ev = Some ''TaskUpdate'' then task_update ev st else st)
      else if ev_kind ev = Tool_result then task_result ev st else st)"

record reconstruct_result =
  rc_completions :: "task_completion list"
  rc_active :: "(string \<times> stored_task) list"
  rc_orphan :: bool

definition reconstructTasks :: "ui_event list \<Rightarrow> reconstruct_result" where
  "reconstructTasks es =
     (let st = fold task_event es no_tasks in
      \<lparr>rc_completions = ts_completions st, rc_active = (if isVisible (ts_tasks st) then task_list (ts_tasks st) else []),
       rc_orphan = ts_orphan st\<rparr>)"

text \<open>A result that arrives before its TaskCreate is worth the same as one that arrives after it.\<close>

lemma create_fields_same:
  "applyCreate (create_fields input) r st = applyCreate input r st"
  by (simp add: applyCreate_def create_fields_def field_or_def split: option.splits)

lemma create_before_or_after_result:
  assumes "ev_kind c = Tool_use" "ev_name c = Some ''TaskCreate''" "\<not> nested c"
    "ev_kind r = Tool_result" "\<not> nested r" "ev_tool r = ev_tool c" "create_id (resultText r) \<noteq> None"
    "ev_tool c \<notin> fst ` set (ts_creates st)" "ev_tool c \<notin> fst ` set (ts_results st)"
  shows "task_event r (task_event c st) = task_event c (task_event r st)"
proof -
  have n: "map_of (ts_creates st) (ev_tool c) = None" "map_of (ts_results st) (ev_tool c) = None"
    using assms(8,9) by (simp_all add: map_of_eq_None_iff)
  have d: "jdrop (ev_tool c) (jput (ev_tool c) x (ts_creates st)) = ts_creates st"
    "jdrop (ev_tool c) (jput (ev_tool c) y (ts_results st)) = ts_results st" for x y
    using assms(8,9) by (simp_all add: jput_fresh jdrop_middle [where post = "[]", simplified])
  show ?thesis
    using assms n
    by (simp add: task_event_def task_create_def task_result_def Let_def d create_fields_same map_of_jput)
qed

end
