(* ===== verification/EventPages.thy ===== *)
theory EventPages
  imports EventRing TaskBatches
begin

text \<open>
  Paged access to a session's event history, \<open>src/eventArchive.ts\<close>: the retained ring, joined below to a
  replay of the persisted transcript that is cut where the ring's own content begins, and the pages
  served from the two.  What \<open>loadPersistedTranscript\<close> returns, the replayed events of each line or
  nothing, is the argument \<open>lines\<close>.  Cursors are integers; a sequence number is a natural.
\<close>

definition LIMIT_DEFAULT :: nat where "LIMIT_DEFAULT = 200"
definition LIMIT_MAX :: nat where "LIMIT_MAX = 500"

text \<open>A limit that is no integer is absent.\<close>

definition clampLimit :: "int option \<Rightarrow> nat" where
  "clampLimit n = (case n of Some i \<Rightarrow> if i < 1 then LIMIT_DEFAULT else min (nat i) LIMIT_MAX | None \<Rightarrow> LIMIT_DEFAULT)"

definition below_seq :: "int \<Rightarrow> ui_event \<Rightarrow> bool" where
  "below_seq s e \<longleftrightarrow> (case ev_seq e of Some n \<Rightarrow> int n < s | None \<Rightarrow> False)"

definition firstIndexAtOrAbove :: "ui_event list \<Rightarrow> int \<Rightarrow> nat" where
  "firstIndexAtOrAbove arr s = bisect (\<lambda>mid. below_seq s (arr ! mid)) 0 (length arr)"

record page =
  pg_events :: "ui_event list"
  pg_more :: bool
  pg_next :: nat
  pg_trimmed :: nat
  pg_last :: int

text \<open>Replayed events get their index as sequence number, and outer echoes their ordinal.\<close>

fun stamp_events :: "nat \<Rightarrow> nat \<Rightarrow> ui_event list \<Rightarrow> ui_event list" where
  "stamp_events n echoes [] = []"
| "stamp_events n echoes (e # es) =
     (if isOuterUserEcho e
      then e\<lparr>ev_index := Some echoes, ev_seq := Some n\<rparr> # stamp_events (Suc n) (Suc echoes) es
      else e\<lparr>ev_seq := Some n\<rparr> # stamp_events (Suc n) echoes es)"

definition stampArchiveEvents :: "ui_event list list \<Rightarrow> ui_event list" where
  "stampArchiveEvents lines = stamp_events 0 0 (concat lines)"

definition normalizeWindow :: "int option \<Rightarrow> int option \<Rightarrow> int \<Rightarrow> int option \<times> int option" where
  "normalizeWindow bef after lastSeq =
     (case (bef, after) of
        (None, None) \<Rightarrow> (Some (lastSeq + 1), None)
      | (Some b, _) \<Rightarrow> (Some b, None)
      | (None, Some a) \<Rightarrow> (None, Some a))"

subsection \<open>Correlating the ring with the replay\<close>

text \<open>A correlation key as its parts; ids hold no blank, so its text determines them.\<close>

datatype corr_key =
    Tool_result_key string | Switch_key string | Nudge_key string | Task_key string string
  | Boundary_key string string | Block_key ev_kind string nat

definition modelSwitchIdOf :: "ui_event \<Rightarrow> string option" where
  "modelSwitchIdOf ev =
     (if ev_kind ev = System_ev \<and> (ev_subtype ev = ''model_changed'' \<or> ev_subtype ev = ''model_switch_failed'')
      then nonempty_str (map_of (asRecord (ev_data ev)) ''switchId'') else None)"

definition isNotifiedTask :: "ui_event \<Rightarrow> bool" where
  "isNotifiedTask ev \<longleftrightarrow> ev_kind ev = System_ev \<and> ev_subtype ev = ''task_notification'' \<and>
     map_of (asRecord (ev_data ev)) ''notified'' = Some (JBool True)"

definition correlationKey :: "ui_event \<Rightarrow> corr_key option" where
  "correlationKey ev =
     (case (ev_kind ev, ev_tool ev) of
        (Tool_result, Some t) \<Rightarrow> Some (Tool_result_key t)
      | _ \<Rightarrow>
     (case modelSwitchIdOf ev of
        Some s \<Rightarrow> Some (Switch_key s)
      | None \<Rightarrow>
     (case ev_tool ev of
        Some t \<Rightarrow>
          if ev_kind ev = System_ev \<and> ev_subtype ev = ''read_nudge'' then Some (Nudge_key t)
          else if isNotifiedTask ev then Some (Task_key t (js_String (map_of (asRecord (ev_data ev)) ''status'')))
          else if ev_kind ev = Turn_boundary then Some (Boundary_key t (js_String (ev_status ev)))
          else (case (ev_msg ev, ev_block ev) of (Some m, Some b) \<Rightarrow> Some (Block_key (ev_kind ev) m b) | _ \<Rightarrow> None)
      | None \<Rightarrow> (case (ev_msg ev, ev_block ev) of (Some m, Some b) \<Rightarrow> Some (Block_key (ev_kind ev) m b) | _ \<Rightarrow> None))))"

fun flat_index_from :: "nat \<Rightarrow> ui_event list \<Rightarrow> (corr_key, nat) jmap \<Rightarrow> (corr_key, nat) jmap" where
  "flat_index_from i [] m = m"
| "flat_index_from i (e # es) m =
     flat_index_from (Suc i) es (case correlationKey e of
        Some k \<Rightarrow> if jhas m k then m else jput k i m | None \<Rightarrow> m)"

definition buildFlatIndex :: "ui_event list \<Rightarrow> (corr_key, nat) jmap" where
  "buildFlatIndex flat = flat_index_from 0 flat []"

definition RING_ONLY_KINDS :: "ev_kind list" where
  "RING_ONLY_KINDS = [Message_start, Turn_end, Assistant_message, Tool_use_input_delta,
     Raw_ev, Hook_ev, Control_response, Overage_message_queued, Call_usage]"

definition neverPersisted :: "ui_event \<Rightarrow> bool" where
  "neverPersisted ev \<longleftrightarrow>
     (if ev_kind ev \<in> set RING_ONLY_KINDS then True
      else if ev_kind ev \<noteq> System_ev then False
      else if ev_subtype ev = ''task_notification'' then \<not> isNotifiedTask ev
      else if modelSwitchIdOf ev \<noteq> None then False
      else ev_subtype ev \<noteq> ''soft_interrupted'' \<and> ev_subtype ev \<noteq> ''read_nudge'')"

fun correlateRingHead :: "ui_event list \<Rightarrow> (corr_key, nat) jmap \<Rightarrow> nat option" where
  "correlateRingHead [] index = None"
| "correlateRingHead (ev # ring) index =
     (if neverPersisted ev then correlateRingHead ring index
      else (case correlationKey ev of None \<Rightarrow> None | Some k \<Rightarrow> map_of index k))"

fun nth_echo :: "ui_event list \<Rightarrow> nat \<Rightarrow> nat option" where
  "nth_echo [] n = None"
| "nth_echo (e # es) n =
     (if isOuterUserEcho e then (if n = 0 then Some 0 else map_option Suc (nth_echo es (n - 1)))
      else map_option Suc (nth_echo es n))"

definition cutFromEchoAnchor :: "ui_event list \<Rightarrow> int \<Rightarrow> bool \<Rightarrow> nat" where
  "cutFromEchoAnchor flat anchor includeAnchorEcho =
     (if anchor < 0 then 0
      else (case nth_echo flat (nat anchor) of
          None \<Rightarrow> length flat
        | Some idx \<Rightarrow> if includeAnchorEcho then idx + 1 else idx))"

text \<open>The last outer echo at or before an index, and the walk that calibrates ordinals by it.\<close>

fun twin_at :: "ui_event list \<Rightarrow> nat \<Rightarrow> ui_event option" where
  "twin_at flat 0 = (if echo_at flat 0 then Some (flat ! 0) else None)"
| "twin_at flat (Suc k) = (if echo_at flat (Suc k) then Some (flat ! Suc k) else twin_at flat k)"

fun calibrate_loop :: "ui_event list \<Rightarrow> ui_event list \<Rightarrow> (corr_key, nat) jmap \<Rightarrow> nat option \<Rightarrow> int option" where
  "calibrate_loop [] flat index echo = None"
| "calibrate_loop (ev # ring) flat index echo =
     (if nested ev then calibrate_loop ring flat index echo
      else if isOuterUserEcho ev then
        calibrate_loop ring flat index (case ev_index ev of Some i \<Rightarrow> Some i | None \<Rightarrow> echo)
      else (case echo of
          None \<Rightarrow> calibrate_loop ring flat index echo
        | Some e \<Rightarrow>
            (case Option.bind (correlationKey ev) (map_of index) of
               None \<Rightarrow> calibrate_loop ring flat index echo
             | Some k \<Rightarrow> (case twin_at flat k of
                 None \<Rightarrow> None
               | Some twin \<Rightarrow> (case ev_index twin of Some i \<Rightarrow> Some (int i - int e) | None \<Rightarrow> None)))))"

definition calibrateEchoOffset :: "ui_event list \<Rightarrow> ui_event list \<Rightarrow> (corr_key, nat) jmap \<Rightarrow> int option" where
  "calibrateEchoOffset ring flat index = calibrate_loop ring flat index None"

definition measureSegmentEchoOffset :: "ui_event list \<Rightarrow> ui_event list list option \<Rightarrow> int option" where
  "measureSegmentEchoOffset ring lines =
     (case lines of None \<Rightarrow> None
      | Some ls \<Rightarrow> (let flat = stampArchiveEvents ls in calibrateEchoOffset ring flat (buildFlatIndex flat)))"

definition restampToLive :: "ui_event list \<Rightarrow> int option \<Rightarrow> ui_event list" where
  "restampToLive flat offset = map (\<lambda>ev.
     if \<not> isOuterUserEcho ev then ev
     else (case ev_index ev of
         None \<Rightarrow> ev
       | Some i \<Rightarrow> (case offset of
           None \<Rightarrow> ev\<lparr>ev_index := None\<rparr>
         | Some off \<Rightarrow> if int i - off < 0 then ev\<lparr>ev_index := None\<rparr> else ev\<lparr>ev_index := Some (nat (int i - off))\<rparr>))) flat"

subsection \<open>Segments\<close>

record pager_source =
  ps_ring :: "ui_event list"
  ps_trimmed :: nat
  ps_seams :: "ring_seam list"
  ps_backing :: "string option"
  ps_echoes :: nat

record segment_scope =
  sp_id :: "string option"
  sp_start :: nat
  sp_archivable :: bool
  sp_prior :: bool

definition has_backing :: "string option \<Rightarrow> bool" where
  "has_backing b \<longleftrightarrow> (case b of None \<Rightarrow> False | Some s \<Rightarrow> s \<noteq> [])"

definition currentSegmentScope :: "pager_source \<Rightarrow> segment_scope" where
  "currentSegmentScope ps =
     (let tb = ps_trimmed ps; start = (if ps_seams ps = [] then 0 else snd (last (ps_seams ps))) in
      \<lparr>sp_id = (if ps_seams ps = [] then ps_backing ps else Some (fst (last (ps_seams ps)))),
       sp_start = start,
       sp_archivable = (has_backing (ps_backing ps) \<and> start \<le> tb),
       sp_prior = (0 < start \<and> 0 < tb)\<rparr>)"

definition segmentOfSeq :: "ring_seam list \<Rightarrow> nat \<Rightarrow> string option" where
  "segmentOfSeq seams s = map_option fst (List.find (\<lambda>m. snd m \<le> s) (rev seams))"

definition seam_divider :: "string \<Rightarrow> ui_event" where
  "seam_divider seg = (plain_ev Segment_seam)\<lparr>ev_segment := Some seg\<rparr>"

definition insertRingSeamDividers :: "ui_event list \<Rightarrow> ring_seam list \<Rightarrow> nat \<Rightarrow> ui_event list" where
  "insertRingSeamDividers es seams floor' =
     (let bySeq = fold (\<lambda>(seg, s) m. if floor' < s then jput s seg m else m) (tl seams) [] in
      concat (map (\<lambda>ev. (case Option.bind (ev_seq ev) (map_of bySeq) of
          Some seg \<Rightarrow> [seam_divider seg, ev] | None \<Rightarrow> [ev])) es))"

subsection \<open>The archive\<close>

record archive =
  ar_events :: "ui_event list"
  ar_cut :: nat
  ar_gap :: bool

text \<open>Where the anchors cut: the cut, and whether the anchor's own echo was included.  \<open>None\<close> is uncalibrated.\<close>

definition anchor_cut :: "ui_event list \<Rightarrow> ui_event list \<Rightarrow> (corr_key, nat) jmap \<Rightarrow> (int \<Rightarrow> int option) \<Rightarrow> nat \<Rightarrow> (nat \<times> bool) option" where
  "anchor_cut flat ring index fileOrdinal echoes =
     (case ring of
        [] \<Rightarrow> map_option (\<lambda>a. (cutFromEchoAnchor flat a False, False)) (fileOrdinal (int echoes))
      | head # _ \<Rightarrow>
          (case (if isOuterUserEcho head then ev_index head else None) of
             Some i \<Rightarrow> map_option (\<lambda>a. (cutFromEchoAnchor flat a False, False)) (fileOrdinal (int i))
           | None \<Rightarrow>
               (case correlateRingHead ring index of
                  Some c \<Rightarrow> Some (c, False)
                | None \<Rightarrow>
                    (let first = List.find (\<lambda>ev. isOuterUserEcho ev \<and> ev_index ev \<noteq> None) ring;
                         live = (case Option.bind first ev_index of Some i \<Rightarrow> i | None \<Rightarrow> echoes) in
                     map_option (\<lambda>a. (cutFromEchoAnchor flat (a - 1) True, True)) (fileOrdinal (int live))))))"

definition buildArchive :: "ui_event list list option \<Rightarrow> ui_event list \<Rightarrow> nat \<Rightarrow> nat \<Rightarrow> nat \<Rightarrow> archive" where
  "buildArchive lines ring tb echoes startSeq =
     (case lines of
        None \<Rightarrow> \<lparr>ar_events = [], ar_cut = 0, ar_gap = (0 < tb)\<rparr>
      | Some ls \<Rightarrow>
          (let flat = stampArchiveEvents ls; index = buildFlatIndex flat;
               offset = (if 0 < startSeq then calibrateEchoOffset ring flat index else Some 0);
               fileOrdinal = (\<lambda>live. map_option (\<lambda>off. live + off) offset)
           in case anchor_cut flat ring index fileOrdinal echoes of
               None \<Rightarrow> \<lparr>ar_events = flat, ar_cut = 0, ar_gap = (0 < tb)\<rparr>
             | Some (c, included) \<Rightarrow>
                 \<lparr>ar_events = (if startSeq = 0 then flat else restampToLive flat offset),
                  ar_cut = min c tb, ar_gap = (included \<or> tb < c)\<rparr>))"

subsection \<open>One page\<close>

definition history_gap :: ui_event where
  "history_gap = plain_ev History_gap"

definition task_json :: "string \<times> stored_task \<Rightarrow> json" where
  "task_json p = (case p of (i, t) \<Rightarrow> JObj [(''id'', JStr i), (''subject'', JStr (tk_subject t)),
     (''description'', JStr (tk_description t)),
     (''activeForm'', (case tk_activeForm t of Some a \<Rightarrow> JStr a | None \<Rightarrow> JNull)), (''status'', JStr (tk_status t))])"

definition completion_ev :: "(string \<times> stored_task) list \<Rightarrow> ui_event" where
  "completion_ev ts = (plain_ev Task_completion)\<lparr>ev_data := Some (JArr (map task_json ts))\<rparr>"

definition injectTaskCompletions :: "ui_event list \<Rightarrow> task_completion list \<Rightarrow> ui_event list" where
  "injectTaskCompletions es cs =
     (let bySeq = fold (\<lambda>c m. case tc_after c of Some s \<Rightarrow> jput s (tc_tasks c) m | None \<Rightarrow> m) cs [] in
      concat (map (\<lambda>ev. (case Option.bind (ev_seq ev) (map_of bySeq) of
          Some ts \<Rightarrow> [ev, completion_ev ts] | None \<Rightarrow> [ev])) es))"

text \<open>The window a request asks for: its start, its end, and whether more lies beyond it.\<close>

definition page_window :: "ui_event list \<Rightarrow> int option \<Rightarrow> int option \<Rightarrow> nat \<Rightarrow> nat option \<Rightarrow> bool \<Rightarrow> nat \<times> nat \<times> bool" where
  "page_window combined bef after limit seam optimisticMore =
     (case bef of
        Some b \<Rightarrow>
          (let e = firstIndexAtOrAbove combined b; raw = e - limit;
               s0 = snapStartToQuiescent combined raw e seam;
               s = (if e \<le> s0 then lastQuiescentAtOrBefore combined raw seam else s0)
           in (s, e, 0 < s \<or> optimisticMore))
      | None \<Rightarrow>
          (let s = firstIndexAtOrAbove combined ((case after of Some a \<Rightarrow> a | None \<Rightarrow> 0) + 1);
               e = min (s + limit) (length combined)
           in (s, e, e < length combined)))"

definition mark_gap :: "bool \<Rightarrow> nat option \<Rightarrow> nat \<Rightarrow> bool \<Rightarrow> ui_event list \<Rightarrow> ui_event list" where
  "mark_gap gap seam start older es =
     (if \<not> gap then es
      else (let anchor = (case seam of Some i \<Rightarrow> i | None \<Rightarrow> 0) in
        if start \<le> anchor then
          (let at' = anchor - start in if at' \<le> length es then take at' es @ [history_gap] @ drop at' es else es)
        else if \<not> older then es @ [history_gap] else es))"

definition mark_floor :: "bool \<Rightarrow> int option \<Rightarrow> int option \<Rightarrow> nat \<Rightarrow> ui_event list \<Rightarrow> ui_event list \<Rightarrow> ui_event list" where
  "mark_floor floorGap bef after start combined es =
     (if floorGap \<and> start = 0 \<and> (case es of [] \<Rightarrow> True | e # _ \<Rightarrow> ev_kind e \<noteq> History_gap) \<and>
         (bef \<noteq> None \<or> (case after of Some a \<Rightarrow> a < 0 \<or>
            a + 1 < (case combined of [] \<Rightarrow> 0 | c # _ \<Rightarrow> (case ev_seq c of Some s \<Rightarrow> int s | None \<Rightarrow> 0)) | None \<Rightarrow> False))
      then history_gap # es else es)"

definition first_seq :: "ui_event list \<Rightarrow> nat" where
  "first_seq es = (case es of [] \<Rightarrow> 0 | e # _ \<Rightarrow> (case ev_seq e of Some s \<Rightarrow> s | None \<Rightarrow> 0))"

definition pageCombined :: "ui_event list \<Rightarrow> int option \<Rightarrow> int option \<Rightarrow> nat \<Rightarrow> nat option \<Rightarrow> bool \<Rightarrow> bool \<Rightarrow> nat \<Rightarrow> int \<Rightarrow> bool \<Rightarrow> page" where
  "pageCombined combined bef after limit seam gap floorGap tb lastSeq optimisticMore =
     (case page_window combined bef after limit seam optimisticMore of
        (s, e, older) \<Rightarrow>
          (let es = drop s (take e combined);
               marked = mark_floor floorGap bef after s combined (mark_gap gap seam s older es)
           in \<lparr>pg_events = injectTaskCompletions marked (rc_completions (reconstructTasks combined)),
               pg_more = older, pg_next = first_seq es, pg_trimmed = tb, pg_last = lastSeq\<rparr>))"

definition last_seq :: "ui_event list \<Rightarrow> int" where
  "last_seq ring = (case rev ring of [] \<Rightarrow> -1 | e # _ \<Rightarrow> (case ev_seq e of Some s \<Rightarrow> int s | None \<Rightarrow> -1))"

text \<open>Whether the ring alone cannot serve the window.\<close>

definition need_archive :: "pager_source \<Rightarrow> int option \<Rightarrow> int option \<Rightarrow> nat \<Rightarrow> bool" where
  "need_archive ps bef after limit =
     (let tb = ps_trimmed ps; ring = ps_ring ps in
      0 < tb \<and> sp_archivable (currentSegmentScope ps) \<and>
      (case bef of
         Some b \<Rightarrow> b - int limit < int tb \<or>
           (let e = firstIndexAtOrAbove ring b in hasHeadlessChildIn ring (e - limit) e)
       | None \<Rightarrow> (case after of Some a \<Rightarrow> a | None \<Rightarrow> 0) < int tb))"

definition pageInstanceEvents :: "pager_source \<Rightarrow> ui_event list list option \<Rightarrow> int option \<Rightarrow> int option \<Rightarrow> int option \<Rightarrow> bool \<Rightarrow> page" where
  "pageInstanceEvents ps lines before0 after0 limit0 markFloor =
     (let limit = clampLimit limit0; ring = ps_ring ps; tb = ps_trimmed ps; lastSeq = last_seq ring;
          scope = currentSegmentScope ps
      in case normalizeWindow before0 after0 lastSeq of
        (bef, after) \<Rightarrow>
          if need_archive ps bef after limit then
            (let a = buildArchive lines ring tb (ps_echoes ps) (sp_start scope) in
             pageCombined (take (ar_cut a) (ar_events a) @ ring) bef after limit (Some (ar_cut a)) (ar_gap a)
               (markFloor \<and> sp_prior scope) tb lastSeq False)
          else
            pageCombined ring bef after limit None (0 < tb \<and> \<not> has_backing (ps_backing ps))
              (markFloor \<and> \<not> sp_archivable scope \<and> 0 < tb \<and> has_backing (ps_backing ps)) tb lastSeq
              (0 < tb \<and> sp_archivable scope))"

definition loadStampedTranscript :: "ui_event list list option \<Rightarrow> ui_event list option" where
  "loadStampedTranscript lines = map_option stampArchiveEvents lines"

definition pageStampedTranscript :: "ui_event list \<Rightarrow> int option \<Rightarrow> int option \<Rightarrow> int option \<Rightarrow> page" where
  "pageStampedTranscript flat before0 after0 limit =
     (let lastSeq = int (length flat) - 1 in
      case normalizeWindow before0 after0 lastSeq of
        (bef, after) \<Rightarrow> pageCombined flat bef after (clampLimit limit) None False False 0 lastSeq False)"

definition pagePersistedEvents :: "ui_event list list option \<Rightarrow> int option \<Rightarrow> int option \<Rightarrow> int option \<Rightarrow> page" where
  "pagePersistedEvents lines bef after limit =
     (case loadStampedTranscript lines of
        None \<Rightarrow> \<lparr>pg_events = [], pg_more = False, pg_next = 0, pg_trimmed = 0, pg_last = -1\<rparr>
      | Some flat \<Rightarrow> pageStampedTranscript flat bef after limit)"

end
