(* ===== verification/LineagePages.thy ===== *)
theory LineagePages
  imports SessionWrites EventPages
begin

text \<open>
  Scroll-back past the start of a session's current segment, \<open>src/lineagePager.ts\<close>: the walk over the
  older segments of its record, each page of which a single-segment pager serves.  \<open>files\<close> is what
  \<open>loadPersistedTranscript\<close> returns for a segment's id.
\<close>

subsection \<open>Which segments a walk serves\<close>

datatype marker = Seam_mark | Gap_mark

record lineage_step =
  ls_id :: string
  ls_dropped :: bool
  ls_below :: "marker list"

text \<open>Steps below an index of the chain, newest first, and whether the walk ends in a skipped run with a tombstone.\<close>

fun steps_below :: "segment list \<Rightarrow> nat \<Rightarrow> bool \<Rightarrow> lineage_step list \<times> bool" where
  "steps_below chain 0 run = ([], run)"
| "steps_below chain (Suc i) run =
     (if sg_reason (chain ! Suc i) = Prune then steps_below chain i (run \<or> sg_dropped (chain ! i))
      else (case steps_below chain i False of (steps, r) \<Rightarrow>
        (\<lparr>ls_id = sg_id (chain ! i), ls_dropped = sg_dropped (chain ! i),
           ls_below = Seam_mark # (if run then [Gap_mark] else [])\<rparr> # steps, r)))"

fun findIndex :: "('a \<Rightarrow> bool) \<Rightarrow> 'a list \<Rightarrow> nat option" where
  "findIndex p [] = None"
| "findIndex p (x # xs) = (if p x then Some 0 else map_option Suc (findIndex p xs))"

definition lineageSteps :: "segment list \<Rightarrow> string \<Rightarrow> lineage_step list \<times> marker list" where
  "lineageSteps chain fromId =
     (case findIndex (\<lambda>s. sg_id s = fromId) chain of
        None \<Rightarrow> ([], [])
      | Some h \<Rightarrow> (case steps_below chain h False of (steps, run) \<Rightarrow>
          (steps, if run \<or> sg_reason (chain ! 0) \<noteq> Initial then [Gap_mark] else [])))"

definition chainFor :: "session_index \<Rightarrow> string \<Rightarrow> segment list" where
  "chainFor ix publicId =
     (if publicId = [] then []
      else case map_of (byPublic ix) publicId of Some r \<Rightarrow> sr_segments r | None \<Rightarrow> [])"

subsection \<open>The ring as an earlier segment saw it\<close>

definition seq_within :: "nat \<Rightarrow> nat \<Rightarrow> ui_event \<Rightarrow> bool" where
  "seq_within a b e \<longleftrightarrow> (case ev_seq e of Some s \<Rightarrow> a \<le> s \<and> s < b | None \<Rightarrow> False)"

definition segmentRingView :: "pager_source \<Rightarrow> nat \<Rightarrow> pager_source" where
  "segmentRingView ps k =
     (let start = snd (ps_seams ps ! k); stop = snd (ps_seams ps ! Suc k);
          atSeam = List.find (\<lambda>e. (case ev_seq e of Some s \<Rightarrow> stop \<le> s | None \<Rightarrow> False) \<and> isOuterUserEcho e) (ps_ring ps)
      in \<lparr>ps_ring = filter (seq_within start stop) (ps_ring ps), ps_trimmed = ps_trimmed ps,
          ps_seams = take (Suc k) (ps_seams ps), ps_backing = Some (fst (ps_seams ps ! k)),
          ps_echoes = (case Option.bind atSeam ev_index of Some i \<Rightarrow> i | None \<Rightarrow> ps_echoes ps)\<rparr>)"

subsection \<open>One request\<close>

datatype lineage_source = Live_source | View_source | Disk_source nat

record lineage_page =
  lp_events :: "ui_event list"
  lp_more :: bool
  lp_segment :: "string option"
  lp_next :: "int option"
  lp_pageSegment :: "string option"
  lp_current :: "string option"

datatype lineage_error = Not_an_older_segment | Did_not_terminate | Seam_missing

text \<open>What a request reads of the session before it starts to serve.\<close>

record walk_view =
  wv_ps :: pager_source
  wv_current :: "string option"
  wv_head :: "string option"
  wv_viewable :: bool
  wv_steps :: "lineage_step list"
  wv_top :: "marker list"

definition walk_view_of :: "segment list \<Rightarrow> pager_source \<Rightarrow> walk_view" where
  "walk_view_of chain ps =
     (let current = (if ps_seams ps = [] then ps_backing ps else Some (fst (last (ps_seams ps))));
          head = (if ps_seams ps = [] then ps_backing ps else segmentOfSeq (ps_seams ps) (ps_trimmed ps));
          st = lineageSteps chain (case head of Some h \<Rightarrow> h | None \<Rightarrow> [])
      in \<lparr>wv_ps = ps, wv_current = current, wv_head = head,
          wv_viewable = (head \<noteq> None \<and> head \<noteq> current \<and> 0 < ps_trimmed ps),
          wv_steps = fst st, wv_top = snd st\<rparr>)"

definition spaceOf :: "walk_view \<Rightarrow> lineage_source \<Rightarrow> string option" where
  "spaceOf w s = (case s of Live_source \<Rightarrow> None | View_source \<Rightarrow> wv_head w
     | Disk_source j \<Rightarrow> Some (ls_id (wv_steps w ! j)))"

definition source_for :: "walk_view \<Rightarrow> string option \<Rightarrow> lineage_error + lineage_source" where
  "source_for w seg =
     (case seg of None \<Rightarrow> Inr Live_source
      | Some g \<Rightarrow>
          if wv_viewable w \<and> wv_head w = Some g then Inr View_source
          else (case findIndex (\<lambda>s. ls_id s = g) (wv_steps w) of
              Some j \<Rightarrow> Inr (Disk_source j) | None \<Rightarrow> Inl Not_an_older_segment))"

text \<open>The divider of a renewal boundary; it has no label when the ring head's segment is unknown.\<close>

definition mark_event :: "string option \<Rightarrow> marker \<Rightarrow> ui_event" where
  "mark_event label m = (case m of Seam_mark \<Rightarrow> (plain_ev Segment_seam)\<lparr>ev_segment := label\<rparr> | Gap_mark \<Rightarrow> history_gap)"

definition markers :: "lineage_step \<Rightarrow> string option \<Rightarrow> ui_event list" where
  "markers st label = map (mark_event label) (ls_below st)"

definition next_disk :: "walk_view \<Rightarrow> nat \<Rightarrow> string option \<Rightarrow> lineage_source option \<times> int option \<times> ui_event list" where
  "next_disk w j label =
     (if j < length (wv_steps w) then (Some (Disk_source j), None, markers (wv_steps w ! j) label)
      else (None, None, map (\<lambda>_. history_gap) (wv_top w)))"

definition continuation :: "walk_view \<Rightarrow> lineage_source \<Rightarrow> lineage_source option \<times> int option \<times> ui_event list" where
  "continuation w s =
     (case s of
        Live_source \<Rightarrow> if wv_viewable w then (Some View_source, Some (int (ps_trimmed (wv_ps w))), [])
                       else next_disk w 0 (wv_head w)
      | View_source \<Rightarrow> next_disk w 0 (wv_head w)
      | Disk_source j \<Rightarrow> next_disk w (Suc j) (Some (ls_id (wv_steps w ! j))))"

type_synonym transcripts = "string \<Rightarrow> ui_event list list option"

definition backing_lines :: "transcripts \<Rightarrow> pager_source \<Rightarrow> ui_event list list option" where
  "backing_lines files ps = (case ps_backing ps of Some b \<Rightarrow> files b | None \<Rightarrow> None)"

definition view_cursor :: "walk_view \<Rightarrow> int option \<Rightarrow> int" where
  "view_cursor w cursor = (let tb = int (ps_trimmed (wv_ps w)) in
     min (case cursor of Some c \<Rightarrow> c | None \<Rightarrow> tb) tb)"

definition live_segment :: "walk_view \<Rightarrow> page \<Rightarrow> string option" where
  "live_segment w p =
     (case List.find (\<lambda>e. ev_seq e \<noteq> None) (pg_events p) of
        Some e \<Rightarrow> (case ev_seq e of
            Some s \<Rightarrow> if s < pg_trimmed p then wv_current w else segmentOfSeq (ps_seams (wv_ps w)) s
          | None \<Rightarrow> None)
      | None \<Rightarrow> None)"

definition gone_page :: page where
  "gone_page = \<lparr>pg_events = [history_gap], pg_more = False, pg_next = 0, pg_trimmed = 0, pg_last = -1\<rparr>"

definition serve_live :: "transcripts \<Rightarrow> walk_view \<Rightarrow> int option \<Rightarrow> int option \<Rightarrow> page \<times> string option" where
  "serve_live files w limit cursor =
     (let ps = wv_ps w;
          p = pageInstanceEvents ps (backing_lines files ps) cursor None limit
                (\<not> (wv_viewable w \<or> wv_steps w \<noteq> [] \<or> wv_top w \<noteq> []))
      in (p\<lparr>pg_events := insertRingSeamDividers (pg_events p) (ps_seams ps) (pg_trimmed p)\<rparr>, live_segment w p))"

definition serve_view :: "transcripts \<Rightarrow> walk_view \<Rightarrow> int option \<Rightarrow> nat \<Rightarrow> int option \<Rightarrow> page \<times> string option" where
  "serve_view files w limit k cursor =
     (let v = segmentRingView (wv_ps w) k in
      (pageInstanceEvents v (backing_lines files v) (Some (view_cursor w cursor)) None limit
         (\<not> (wv_steps w \<noteq> [] \<or> wv_top w \<noteq> [])), wv_head w))"

definition serve_disk :: "transcripts \<Rightarrow> lineage_step \<Rightarrow> int option \<Rightarrow> int option \<Rightarrow> page \<times> string option" where
  "serve_disk files st limit cursor =
     (case (if ls_dropped st then None else loadStampedTranscript (files (ls_id st))) of
        Some flat \<Rightarrow> (pageStampedTranscript flat cursor None limit, Some (ls_id st))
      | None \<Rightarrow> (gone_page, Some (ls_id st)))"

text \<open>The last seam at or below the ring head.\<close>

definition head_seam :: "ring_seam list \<Rightarrow> nat \<Rightarrow> nat option" where
  "head_seam seams tb = List.find (\<lambda>k. snd (seams ! k) \<le> tb) (rev [0..<length seams])"

definition serve :: "transcripts \<Rightarrow> walk_view \<Rightarrow> int option \<Rightarrow> lineage_source \<Rightarrow> int option \<Rightarrow> lineage_error + page \<times> string option" where
  "serve files w limit s cursor =
     (case s of
        Live_source \<Rightarrow> Inr (serve_live files w limit cursor)
      | View_source \<Rightarrow> (case head_seam (ps_seams (wv_ps w)) (ps_trimmed (wv_ps w)) of
            None \<Rightarrow> Inl Seam_missing | Some k \<Rightarrow> Inr (serve_view files w limit k cursor))
      | Disk_source j \<Rightarrow> Inr (serve_disk files (wv_steps w ! j) limit cursor))"

definition reply :: "walk_view \<Rightarrow> ui_event list \<Rightarrow> bool \<Rightarrow> lineage_source \<Rightarrow> int option \<Rightarrow> string option \<Rightarrow> lineage_page" where
  "reply w es more' s nb seg = \<lparr>lp_events = es, lp_more = more', lp_segment = spaceOf w s, lp_next = nb,
     lp_pageSegment = seg, lp_current = wv_current w\<rparr>"

text \<open>The bounded loop: a source with nothing to show is followed by the next one in the same request.\<close>

fun walk_passes :: "transcripts \<Rightarrow> walk_view \<Rightarrow> int option \<Rightarrow> nat \<Rightarrow> lineage_source \<Rightarrow> int option \<Rightarrow> lineage_error + lineage_page" where
  "walk_passes files w limit 0 s bef = Inl Did_not_terminate"
| "walk_passes files w limit (Suc n) s bef =
     (case serve files w limit s bef of
        Inl e \<Rightarrow> Inl e
      | Inr (p, seg) \<Rightarrow>
          if pg_more p then Inr (reply w (pg_events p) True s (Some (int (pg_next p))) seg)
          else (case continuation w s of (nxt, nb, prefix) \<Rightarrow>
            (case nxt of
               None \<Rightarrow> Inr (reply w (prefix @ pg_events p) False s (Some (int (pg_next p))) seg)
             | Some s' \<Rightarrow>
                 if prefix @ pg_events p \<noteq> [] then Inr (reply w (prefix @ pg_events p) True s' nb seg)
                 else walk_passes files w limit n s'
                        (if s' = View_source then Some (view_cursor w bef) else nb))))"

definition pageLineageEvents :: "segment list \<Rightarrow> transcripts \<Rightarrow> pager_source \<Rightarrow> string option \<Rightarrow> int option \<Rightarrow> int option \<Rightarrow> lineage_error + lineage_page" where
  "pageLineageEvents chain files ps seg bef limit =
     (let w = walk_view_of chain ps in
      case source_for w seg of
        Inl e \<Rightarrow> Inl e
      | Inr s \<Rightarrow> walk_passes files w limit (length (wv_steps w) + 3) s bef)"

subsection \<open>A session with no instance\<close>

definition resolveToBackingId :: "session_index \<Rightarrow> string \<Rightarrow> string option" where
  "resolveToBackingId ix sessionId =
     (if sessionId = [] then None
      else let b = resolveBacking ix sessionId in if isMintedPublicId b then None else Some b)"

definition retiredLineageSource :: "session_index \<Rightarrow> transcripts \<Rightarrow> string \<Rightarrow> pager_source" where
  "retiredLineageSource ix files publicId =
     (let current = resolveToBackingId ix publicId;
          flat = (case Option.bind current (\<lambda>c. loadStampedTranscript (files c)) of Some f \<Rightarrow> f | None \<Rightarrow> [])
      in \<lparr>ps_ring = flat, ps_trimmed = 0, ps_seams = (case current of Some c \<Rightarrow> [(c, 0)] | None \<Rightarrow> []),
          ps_backing = current, ps_echoes = length (filter isOuterUserEcho flat)\<rparr>)"

end
