(* ===== verification/PageFacts.thy ===== *)
theory PageFacts
  imports EventPages
begin

text \<open>
  A client that follows the cursor of each page backwards is served every event once, in order: from a
  persisted transcript, and from a live instance's ring joined to its archive.
\<close>

subsection \<open>Windows over a list sorted by sequence number\<close>

definition seq_sorted :: "ui_event list \<Rightarrow> bool" where
  "seq_sorted es \<longleftrightarrow> (\<forall>e \<in> set es. ev_seq e \<noteq> None) \<and> sorted_wrt (\<lambda>a b. the (ev_seq a) < the (ev_seq b)) es"

lemma seq_sorted_nth:
  "seq_sorted es \<Longrightarrow> i < j \<Longrightarrow> j < length es \<Longrightarrow> the (ev_seq (es ! i)) < the (ev_seq (es ! j))"
  by (simp add: seq_sorted_def sorted_wrt_iff_nth_less)

lemma below_seq_iff: "ev_seq e \<noteq> None \<Longrightarrow> below_seq s e \<longleftrightarrow> int (the (ev_seq e)) < s"
  by (auto simp: below_seq_def)

lemma first_index_spec:
  assumes "seq_sorted es"
  shows "firstIndexAtOrAbove es s \<le> length es"
    "\<And>i. i < firstIndexAtOrAbove es s \<Longrightarrow> int (the (ev_seq (es ! i))) < s"
    "\<And>i. firstIndexAtOrAbove es s \<le> i \<Longrightarrow> i < length es \<Longrightarrow> s \<le> int (the (ev_seq (es ! i)))"
proof -
  have some: "ev_seq (es ! i) \<noteq> None" if "i < length es" for i using assms that by (simp add: seq_sorted_def)
  have mono: "below_seq s (es ! i)" if "i \<le> j" "j < length es" "below_seq s (es ! j)" for i j
    using that seq_sorted_nth [OF assms, of i j] some [of i] some [of j] by (cases "i = j") (auto simp: below_seq_iff)
  show le: "firstIndexAtOrAbove es s \<le> length es"
    unfolding firstIndexAtOrAbove_def by (rule bisect_count(1)) (rule mono)
  show "int (the (ev_seq (es ! i))) < s" if "i < firstIndexAtOrAbove es s" for i
  proof -
    have "below_seq s (es ! i)"
      by (rule bisect_count(2) [where below = "\<lambda>mid. below_seq s (es ! mid)" and n = "length es"])
        (use mono that in \<open>auto simp: firstIndexAtOrAbove_def\<close>)
    with some [of i] that le show ?thesis by (simp add: below_seq_iff)
  qed
  show "s \<le> int (the (ev_seq (es ! i)))" if "firstIndexAtOrAbove es s \<le> i" "i < length es" for i
  proof -
    have "\<not> below_seq s (es ! i)"
      by (rule bisect_count(3) [where below = "\<lambda>mid. below_seq s (es ! mid)" and n = "length es"])
        (use mono that in \<open>auto simp: firstIndexAtOrAbove_def\<close>)
    with some [OF that(2)] show ?thesis by (simp add: below_seq_iff)
  qed
qed

lemma first_index_eqI:
  assumes "seq_sorted es" "k \<le> length es" "\<And>i. i < k \<Longrightarrow> int (the (ev_seq (es ! i))) < s"
    "k < length es \<Longrightarrow> s \<le> int (the (ev_seq (es ! k)))"
  shows "firstIndexAtOrAbove es s = k"
proof (rule ccontr)
  assume "firstIndexAtOrAbove es s \<noteq> k"
  then consider "firstIndexAtOrAbove es s < k" | "k < firstIndexAtOrAbove es s" by linarith
  then show False
  proof cases
    case 1
    with first_index_spec(3) [OF assms(1), of s "firstIndexAtOrAbove es s"] assms(2,3) show False by fastforce
  next
    case 2
    then have "k < length es" using first_index_spec(1) [OF assms(1), of s] by simp
    with first_index_spec(2) [OF assms(1) 2] assms(4) show False by simp
  qed
qed

lemma first_index_at:
  "seq_sorted es \<Longrightarrow> k < length es \<Longrightarrow> firstIndexAtOrAbove es (int (the (ev_seq (es ! k)))) = k"
  by (rule first_index_eqI) (auto dest: seq_sorted_nth)

lemma lastQuiescent_le: "lastQuiescentAtOrBefore arr at' reset \<le> at'"
proof (cases "min at' (length arr - 1) = 0")
  case False
  define s where "s = min at' (length arr - 1)"
  have "0 < s" "s < s + 1" "s + 1 \<le> length arr" using False by (auto simp: s_def)
  from quiesceStart_spec [OF this, where reset = reset and fwd = False]
  have "quiesceStart arr s (s + 1) reset False \<le> s" by (meson not_le)
  moreover have "s \<le> at'" by (simp add: s_def)
  ultimately show ?thesis using False by (simp add: lastQuiescentAtOrBefore_def s_def Let_def)
qed (simp add: lastQuiescentAtOrBefore_def)

text \<open>A backward window ends where it was asked to and is empty only at the very start.\<close>

lemma page_window_back:
  assumes "page_window es (Some b) after limit seam opt = (s, e, older)" "0 < limit" "seq_sorted es"
  shows "e = firstIndexAtOrAbove es b \<and> s \<le> e \<and> (0 < e \<longrightarrow> s < e) \<and> older = (0 < s \<or> opt)"
proof -
  define raw where "raw = e - limit"
  have e: "e = firstIndexAtOrAbove es b" using assms(1) by (auto simp: page_window_def Let_def)
  then have le: "e \<le> length es" using first_index_spec(1) [OF assms(3)] by simp
  have s: "s = (if e \<le> snapStartToQuiescent es raw e seam then lastQuiescentAtOrBefore es raw seam
      else snapStartToQuiescent es raw e seam)" and older: "older = (0 < s \<or> opt)"
    using assms(1) by (auto simp: page_window_def Let_def raw_def e)
  have "lastQuiescentAtOrBefore es raw seam \<le> raw" by (rule lastQuiescent_le)
  then have "s \<le> e \<and> (0 < e \<longrightarrow> s < e)" using s assms(2) by (auto simp: raw_def split: if_splits)
  with e older show ?thesis by simp
qed

subsection \<open>What a page serves\<close>

definition has_seq :: "ui_event \<Rightarrow> bool" where
  "has_seq e \<longleftrightarrow> ev_seq e \<noteq> None"

definition served :: "page \<Rightarrow> ui_event list" where
  "served p = filter has_seq (pg_events p)"

lemma seqless [simp]: "\<not> has_seq history_gap" "\<not> has_seq (completion_ev ts)" "\<not> has_seq (seam_divider g)"
  by (simp_all add: has_seq_def history_gap_def completion_ev_def seam_divider_def plain_ev_def)

lemma filter_inject:
  "filter has_seq (injectTaskCompletions es cs) = filter has_seq es"
proof -
  have "filter has_seq (concat (map (\<lambda>ev. (case Option.bind (ev_seq ev) (map_of m) of
      Some ts \<Rightarrow> [ev, completion_ev ts] | None \<Rightarrow> [ev])) es)) = filter has_seq es" for m
    by (induction es) (auto simp: has_seq_def [symmetric] split: option.splits)
  then show ?thesis by (simp add: injectTaskCompletions_def Let_def)
qed

lemma filter_mark_gap: "filter has_seq (mark_gap gap seam s older es) = filter has_seq es"
proof -
  have "filter has_seq (take n es) @ filter has_seq (drop n es) = filter has_seq es" for n
    by (simp flip: filter_append)
  then show ?thesis by (simp add: mark_gap_def Let_def)
qed

lemma filter_mark_floor: "filter has_seq (mark_floor f b a s c es) = filter has_seq es"
  by (simp add: mark_floor_def)

lemma pageCombined_served:
  assumes "seq_sorted es" "page_window es bef after limit seam opt = (s, e, older)"
  shows "served (pageCombined es bef after limit seam gap fl tb ls opt) = drop s (take e es)"
    "pg_more (pageCombined es bef after limit seam gap fl tb ls opt) = older"
    "pg_next (pageCombined es bef after limit seam gap fl tb ls opt) = first_seq (drop s (take e es))"
proof -
  have "\<forall>x \<in> set (drop s (take e es)). has_seq x"
    using assms(1) by (auto simp: seq_sorted_def has_seq_def dest: in_set_dropD in_set_takeD)
  then show "served (pageCombined es bef after limit seam gap fl tb ls opt) = drop s (take e es)"
    using assms(2) by (simp add: served_def pageCombined_def Let_def filter_inject filter_mark_floor filter_mark_gap)
qed (use assms(2) in \<open>simp_all add: pageCombined_def Let_def\<close>)

lemma first_seq_slice:
  "s < e \<Longrightarrow> e \<le> length es \<Longrightarrow> ev_seq (es ! s) = Some n \<Longrightarrow> first_seq (drop s (take e es)) = n"
  by (simp add: first_seq_def Cons_nth_drop_Suc [symmetric])

subsection \<open>Following the cursor\<close>

text \<open>
  A client that asks for the newest page and then, while there is more, for the one before it; None
  when it is still told of more after as many requests as the fuel.
\<close>

fun follow :: "(int option \<Rightarrow> page) \<Rightarrow> nat \<Rightarrow> int option \<Rightarrow> page list option" where
  "follow page 0 c = None"
| "follow page (Suc n) c =
     (let p = page c in
      if pg_more p then map_option (\<lambda>ps. ps @ [p]) (follow page n (Some (int (pg_next p)))) else Some [p])"

text \<open>
  One page of a source that stands for the list \<open>F\<close>: it serves what lies below the cursor, from some
  index on, and says there is more unless that index is the start.
\<close>

definition pages_of :: "ui_event list \<Rightarrow> (int option \<Rightarrow> page) \<Rightarrow> bool" where
  "pages_of F page \<longleftrightarrow> (\<forall>b k. firstIndexAtOrAbove F b = k \<longrightarrow> (\<exists>s \<le> k.
     served (page (Some b)) = drop s (take k F) \<and> (0 < k \<longrightarrow> s < k) \<and> (0 < s \<longrightarrow> pg_more (page (Some b))) \<and>
     (s < k \<longrightarrow> int (pg_next (page (Some b))) = int (the (ev_seq (F ! s)))) \<and>
     (k = 0 \<longrightarrow> \<not> pg_more (page (Some b)))))"

lemma follow_length: "follow page n c = Some ps \<Longrightarrow> length ps \<le> n"
  by (induction n arbitrary: c ps) (auto simp: Let_def split: if_splits)

lemma follow_serves:
  assumes F: "seq_sorted F" and p: "pages_of F page" and n: "firstIndexAtOrAbove F b < n"
  shows "\<exists>ps. follow page n (Some b) = Some ps \<and> concat (map served ps) = take (firstIndexAtOrAbove F b) F"
  using n
proof (induction n arbitrary: b)
  case (Suc n)
  define k where "k = firstIndexAtOrAbove F b"
  have k: "k \<le> length F" using first_index_spec(1) [OF F] by (simp add: k_def)
  obtain s where s: "s \<le> k" "served (page (Some b)) = drop s (take k F)" "0 < k \<longrightarrow> s < k"
    "0 < s \<longrightarrow> pg_more (page (Some b))" "s < k \<longrightarrow> int (pg_next (page (Some b))) = int (the (ev_seq (F ! s)))"
    "k = 0 \<longrightarrow> \<not> pg_more (page (Some b))"
    using p k_def unfolding pages_of_def by metis
  show ?case
  proof (cases "pg_more (page (Some b))")
    case True
    with s have sk: "s < k" by auto
    with s k first_index_at [OF F, of s] have i: "firstIndexAtOrAbove F (int (pg_next (page (Some b)))) = s" by simp
    with Suc.IH [of "int (pg_next (page (Some b)))"] Suc.prems sk
    obtain ps where "follow page n (Some (int (pg_next (page (Some b))))) = Some ps" "concat (map served ps) = take s F"
      by (auto simp: k_def)
    moreover have "take s F @ drop s (take k F) = take k F"
      using append_take_drop_id [of s "take k F"] sk by (simp add: min_absorb1)
    ultimately show ?thesis using True s(2) by (simp add: k_def Let_def)
  next
    case False
    with s have "s = 0" by auto
    with False s(2) show ?thesis by (simp add: k_def)
  qed
qed simp

subsection \<open>Persisted transcripts\<close>

lemma seq_sorted_numbered:
  assumes "\<And>i. i < length es \<Longrightarrow> ev_seq (es ! i) = Some (k + i)"
  shows "seq_sorted es"
proof -
  have "\<forall>e \<in> set es. ev_seq e \<noteq> None" using assms by (fastforce simp: in_set_conv_nth)
  then show ?thesis using assms by (simp add: seq_sorted_def sorted_wrt_iff_nth_less)
qed

lemma stamp_events_length [simp]: "length (stamp_events n k es) = length es"
  by (induction es arbitrary: n k) auto

lemma stamp_events_seq: "i < length es \<Longrightarrow> ev_seq (stamp_events n k es ! i) = Some (n + i)"
proof (induction es arbitrary: n k i)
  case (Cons e es)
  then show ?case by (cases i) auto
qed simp

lemma stampArchive_seq: "i < length (stampArchiveEvents ls) \<Longrightarrow> ev_seq (stampArchiveEvents ls ! i) = Some i"
  using stamp_events_seq [of i "concat ls" 0 0] by (simp add: stampArchiveEvents_def)

lemma clampLimit_pos: "0 < clampLimit n"
  by (auto simp: clampLimit_def LIMIT_DEFAULT_def LIMIT_MAX_def split: option.splits)

lemma clampLimit_le: "clampLimit n \<le> LIMIT_MAX"
  by (auto simp: clampLimit_def LIMIT_DEFAULT_def LIMIT_MAX_def split: option.splits)

lemma slice_next:
  assumes "seq_sorted es" "s < e" "e \<le> length es"
  shows "first_seq (drop s (take e es)) = the (ev_seq (es ! s))"
proof -
  have "ev_seq (es ! s) \<noteq> None" using assms by (simp add: seq_sorted_def)
  then show ?thesis using first_seq_slice [OF assms(2,3)] by auto
qed

lemma combined_pages:
  assumes C: "seq_sorted es" and l: "0 < limit" and k: "firstIndexAtOrAbove es b = k"
  shows "\<exists>s \<le> k. served (pageCombined es (Some b) after limit seam gap fl tb ls opt) = drop s (take k es) \<and>
     (0 < k \<longrightarrow> s < k) \<and> pg_more (pageCombined es (Some b) after limit seam gap fl tb ls opt) = (0 < s \<or> opt) \<and>
     (s < k \<longrightarrow> pg_next (pageCombined es (Some b) after limit seam gap fl tb ls opt) = the (ev_seq (es ! s)))"
proof -
  obtain s e older where w: "page_window es (Some b) after limit seam opt = (s, e, older)" by (metis prod_cases3)
  from page_window_back [OF this l C] k have e: "e = k" "s \<le> k" "0 < k \<longrightarrow> s < k" "older = (0 < s \<or> opt)" by auto
  have "k \<le> length es" using first_index_spec(1) [OF C] k by auto
  with pageCombined_served [OF C w, of gap fl tb ls] e slice_next [OF C, of s k] show ?thesis by auto
qed

lemma stamped_page:
  "pageStampedTranscript flat (Some b) None limit =
     pageCombined flat (Some b) None (clampLimit limit) None False False 0 (int (length flat) - 1) False"
  by (simp add: pageStampedTranscript_def normalizeWindow_def Let_def)

lemma stamped_pages_of:
  assumes "seq_sorted flat"
  shows "pages_of flat (\<lambda>c. pageStampedTranscript flat c None limit)"
  unfolding pages_of_def
proof (intro allI impI)
  fix b k assume k: "firstIndexAtOrAbove flat b = k"
  from combined_pages [OF assms clampLimit_pos [of limit] k, of None None False False 0 "int (length flat) - 1" False]
  obtain s where "s \<le> k" "served (pageStampedTranscript flat (Some b) None limit) = drop s (take k flat)" "0 < k \<longrightarrow> s < k"
    "pg_more (pageStampedTranscript flat (Some b) None limit) = (0 < s)"
    "s < k \<longrightarrow> pg_next (pageStampedTranscript flat (Some b) None limit) = the (ev_seq (flat ! s))"
    unfolding stamped_page by auto
  then show "\<exists>s \<le> k. served (pageStampedTranscript flat (Some b) None limit) = drop s (take k flat) \<and> (0 < k \<longrightarrow> s < k) \<and>
     (0 < s \<longrightarrow> pg_more (pageStampedTranscript flat (Some b) None limit)) \<and>
     (s < k \<longrightarrow> int (pg_next (pageStampedTranscript flat (Some b) None limit)) = int (the (ev_seq (flat ! s)))) \<and>
     (k = 0 \<longrightarrow> \<not> pg_more (pageStampedTranscript flat (Some b) None limit))"
    by auto
qed

lemma follow_None:
  assumes "page None = page (Some b)"
  shows "follow page n None = follow page n (Some b)"
  using assms by (cases n) (simp_all add: Let_def)

lemma first_index_all:
  "seq_sorted es \<Longrightarrow> (\<And>i. i < length es \<Longrightarrow> int (the (ev_seq (es ! i))) < b) \<Longrightarrow> firstIndexAtOrAbove es b = length es"
  by (rule first_index_eqI) auto

text \<open>
  A client that scrolls back through a persisted session, taking the newest page and then following
  each page's cursor while there is more, is served every event of the transcript once and in order,
  whatever its limit, and stops.
\<close>

theorem transcript_pages_tile:
  "\<exists>ps. follow (\<lambda>c. pageStampedTranscript (stampArchiveEvents ls) c None limit)
     (length (stampArchiveEvents ls) + 1) None = Some ps \<and> concat (map served ps) = stampArchiveEvents ls"
proof -
  define flat where "flat = stampArchiveEvents ls"
  define page where "page = (\<lambda>c. pageStampedTranscript flat c None limit)"
  have srt: "seq_sorted flat" using seq_sorted_numbered [of flat 0] stampArchive_seq by (simp add: flat_def)
  have none: "page None = page (Some (int (length flat)))"
    by (simp add: page_def pageStampedTranscript_def normalizeWindow_def Let_def)
  have all: "firstIndexAtOrAbove flat (int (length flat)) = length flat"
    by (rule first_index_all [OF srt]) (simp add: flat_def stampArchive_seq)
  have "\<exists>ps. follow page (length flat + 1) (Some (int (length flat))) = Some ps \<and> concat (map served ps) = take (length flat) flat"
    using follow_serves [OF srt, of page "int (length flat)" "length flat + 1"] all stamped_pages_of [OF srt, of limit]
    by (simp add: page_def)
  then show ?thesis
    using follow_None [OF none] by (simp add: page_def flat_def)
qed

subsection \<open>A live instance\<close>

definition source_of :: "event_log \<Rightarrow> string option \<Rightarrow> nat \<Rightarrow> pager_source" where
  "source_of l backing echoes = \<lparr>ps_ring = el_buf l, ps_trimmed = trimmedBefore l, ps_seams = el_seams l,
     ps_backing = backing, ps_echoes = echoes\<rparr>"

text \<open>Everything an instance can serve: the archive below its cut, where there is one, then the ring.\<close>

definition servable :: "pager_source \<Rightarrow> ui_event list list option \<Rightarrow> ui_event list" where
  "servable ps lines =
     (let scope = currentSegmentScope ps;
          a = buildArchive lines (ps_ring ps) (ps_trimmed ps) (ps_echoes ps) (sp_start scope) in
      (if sp_archivable scope \<and> 0 < ps_trimmed ps then take (ar_cut a) (ar_events a) else []) @ ps_ring ps)"

lemma restamp_seq:
  "length (restampToLive flat off) = length flat"
  "i < length flat \<Longrightarrow> ev_seq (restampToLive flat off ! i) = ev_seq (flat ! i)"
  by (auto simp: restampToLive_def split: option.splits)

lemma archive_seq:
  "i < length (ar_events (buildArchive lines ring tb n st)) \<Longrightarrow> ev_seq (ar_events (buildArchive lines ring tb n st) ! i) = Some i"
  by (cases lines) (auto simp: buildArchive_def Let_def restamp_seq stampArchive_seq split: option.splits prod.splits if_splits)

lemma archive_cut_le: "ar_cut (buildArchive lines ring tb n st) \<le> tb"
  by (cases lines) (auto simp: buildArchive_def Let_def split: option.splits prod.splits)

lemma log_of_seqs:
  assumes "log_of l es" "numbered es"
  shows "\<And>i. i < length (el_buf l) \<Longrightarrow> ev_seq (el_buf l ! i) = Some (trimmedBefore l + i)"
    "el_buf l = drop (trimmedBefore l) es" "el_buf l = [] \<Longrightarrow> trimmedBefore l = 0"
proof -
  obtain k where k: "el_buf l = drop k es" "es = [] \<or> k < length es" using assms(1) by (auto simp: log_of_def)
  have tb: "trimmedBefore l = k" if "es \<noteq> []"
    using that k assms(2) by (auto simp: trimmedBefore_def numbered_def Cons_nth_drop_Suc [symmetric])
  have e: "trimmedBefore l = 0" if "es = []" using that k assms(1) by (simp add: trimmedBefore_def log_of_def)
  show "ev_seq (el_buf l ! i) = Some (trimmedBefore l + i)" if "i < length (el_buf l)" for i
    using that k tb assms(2) by (cases "es = []") (auto simp: numbered_def)
  show "el_buf l = drop (trimmedBefore l) es" using k tb e by (cases "es = []") auto
  show "trimmedBefore l = 0" if "el_buf l = []" using that k e by auto
qed

lemma seq_sorted_append:
  "seq_sorted (xs @ ys) \<longleftrightarrow> seq_sorted xs \<and> seq_sorted ys \<and>
     (\<forall>x \<in> set xs. \<forall>y \<in> set ys. the (ev_seq x) < the (ev_seq y))"
  by (auto simp: seq_sorted_def sorted_wrt_append)

lemma source_of_simps [simp]:
  "ps_ring (source_of l backing echoes) = el_buf l" "ps_trimmed (source_of l backing echoes) = trimmedBefore l"
  "ps_echoes (source_of l backing echoes) = echoes"
  by (simp_all add: source_of_def)

lemma servable_sorted:
  assumes l: "log_of l es" and num: "numbered es"
  shows "seq_sorted (servable (source_of l backing echoes) lines)"
proof -
  let ?ps = "source_of l backing echoes"
  define a where "a = buildArchive lines (el_buf l) (trimmedBefore l) echoes (sp_start (currentSegmentScope ?ps))"
  define A where "A = (if sp_archivable (currentSegmentScope ?ps) \<and> 0 < trimmedBefore l then take (ar_cut a) (ar_events a) else [])"
  have sa: "ev_seq (A ! i) = Some i" "i < trimmedBefore l" if "i < length A" for i
    using that archive_seq archive_cut_le [of lines "el_buf l" "trimmedBefore l" echoes]
    by (auto simp: A_def a_def split: if_splits intro: less_le_trans)
  have sr: "ev_seq (el_buf l ! i) = Some (trimmedBefore l + i)" if "i < length (el_buf l)" for i
    by (rule log_of_seqs(1) [OF l num that])
  have "seq_sorted A" using seq_sorted_numbered [of A 0] sa by simp
  moreover have "seq_sorted (el_buf l)" using seq_sorted_numbered [OF sr] .
  moreover have "the (ev_seq x) < the (ev_seq y)" if "x \<in> set A" "y \<in> set (el_buf l)" for x y
    using that sa sr by (fastforce simp: in_set_conv_nth)
  ultimately have "seq_sorted (A @ el_buf l)" by (simp add: seq_sorted_append)
  moreover have "servable ?ps lines = A @ el_buf l" by (simp add: servable_def A_def a_def Let_def)
  ultimately show ?thesis by simp
qed

lemma instance_pages_of:
  assumes l: "log_of l es" and num: "numbered es"
  shows "pages_of (servable (source_of l backing echoes) lines)
     (\<lambda>c. pageInstanceEvents (source_of l backing echoes) lines c None limit mf)"
  unfolding pages_of_def
proof (intro allI impI)
  let ?ps = "source_of l backing echoes"
  let ?F = "servable ?ps lines" let ?lim = "clampLimit limit"
  fix b k assume k: "firstIndexAtOrAbove ?F b = k"
  let ?page = "pageInstanceEvents ?ps lines (Some b) None limit mf"
  define arch where "arch \<longleftrightarrow> sp_archivable (currentSegmentScope ?ps) \<and> 0 < trimmedBefore l"
  define a where "a = buildArchive lines (el_buf l) (trimmedBefore l) echoes (sp_start (currentSegmentScope ?ps))"
  have F: "?F = (if arch then take (ar_cut a) (ar_events a) else []) @ el_buf l"
    by (simp add: servable_def arch_def a_def Let_def)
  note srt = servable_sorted [OF l num, of backing echoes lines]
  show "\<exists>s \<le> k. served ?page = drop s (take k ?F) \<and> (0 < k \<longrightarrow> s < k) \<and> (0 < s \<longrightarrow> pg_more ?page) \<and>
     (s < k \<longrightarrow> int (pg_next ?page) = int (the (ev_seq (?F ! s)))) \<and> (k = 0 \<longrightarrow> \<not> pg_more ?page)"
  proof (cases "need_archive ?ps (Some b) None ?lim")
    case True
    then have arch by (auto simp: need_archive_def Let_def arch_def)
    then have "?page = pageCombined ?F (Some b) None ?lim (Some (ar_cut a)) (ar_gap a)
        (mf \<and> sp_prior (currentSegmentScope ?ps)) (trimmedBefore l) (last_seq (el_buf l)) False"
      using True F by (simp add: pageInstanceEvents_def normalizeWindow_def Let_def a_def)
    with combined_pages [OF srt clampLimit_pos [of limit] k, of None "Some (ar_cut a)" "ar_gap a"
        "mf \<and> sp_prior (currentSegmentScope ?ps)" "trimmedBefore l" "last_seq (el_buf l)" False]
    show ?thesis by auto
  next
    case False
    obtain gap fl where pg: "?page = pageCombined (el_buf l) (Some b) None ?lim None gap fl (trimmedBefore l)
        (last_seq (el_buf l)) arch"
      using False by (simp add: pageInstanceEvents_def normalizeWindow_def Let_def arch_def conj_commute)
    show ?thesis
    proof (cases arch)
      case na: False
      with F have F': "?F = el_buf l" by simp
      from combined_pages [OF srt clampLimit_pos [of limit] k, of None None gap fl "trimmedBefore l" "last_seq (el_buf l)" False]
      show ?thesis using na unfolding pg F' by auto
    next
      case ar: True
      define A where "A = take (ar_cut a) (ar_events a)"
      have F': "?F = A @ el_buf l" using F ar by (simp add: A_def)
      have tb: "0 < trimmedBefore l" using ar by (simp add: arch_def)
      then have ne: "el_buf l \<noteq> []" using log_of_seqs(3) [OF l num] by auto
      have hi: "int (trimmedBefore l) < b"
        using False ar clampLimit_pos [of limit] by (simp add: need_archive_def Let_def arch_def)
      have sr: "ev_seq (el_buf l ! i) = Some (trimmedBefore l + i)" if "i < length (el_buf l)" for i
        by (rule log_of_seqs(1) [OF l num that])
      have R: "seq_sorted (el_buf l)" using srt unfolding F' seq_sorted_append by blast
      define kr where "kr = firstIndexAtOrAbove (el_buf l) b"
      have kr: "0 < kr"
        using first_index_spec(3) [OF R, of b 0] ne sr [of 0] hi by (cases kr) (auto simp: kr_def)
      have krl: "kr \<le> length (el_buf l)" using first_index_spec(1) [OF R] by (simp add: kr_def)
      have kF: "k = length A + kr"
      proof -
        have "firstIndexAtOrAbove ?F b = length A + kr"
        proof (rule first_index_eqI [OF srt])
          show "length A + kr \<le> length ?F" using krl by (simp add: F')
          show "int (the (ev_seq (?F ! i))) < b" if "i < length A + kr" for i
          proof (cases "i < length A")
            case True
            have "the (ev_seq (?F ! i)) < the (ev_seq (?F ! length A))"
              by (rule seq_sorted_nth [OF srt True]) (use ne in \<open>simp add: F'\<close>)
            with hi sr [of 0] ne show ?thesis by (simp add: F' nth_append)
          next
            case False
            with that first_index_spec(2) [OF R, of "i - length A" b] show ?thesis
              by (simp add: F' nth_append kr_def)
          qed
          show "b \<le> int (the (ev_seq (?F ! (length A + kr))))" if "length A + kr < length ?F"
            using first_index_spec(3) [OF R, of b kr] that by (simp add: F' nth_append kr_def)
        qed
        with k show ?thesis by simp
      qed
      from combined_pages [OF R clampLimit_pos [of limit] kr_def [symmetric], of None None gap fl "trimmedBefore l"
          "last_seq (el_buf l)" True]
      obtain s where s: "s < kr" "served ?page = drop s (take kr (el_buf l))" "pg_more ?page"
        "pg_next ?page = the (ev_seq (el_buf l ! s))"
        using kr ar unfolding pg by auto
      show ?thesis
      proof (intro exI [of _ "length A + s"] conjI)
        show "served ?page = drop (length A + s) (take k ?F)" by (simp add: s(2) kF F')
        show "length A + s < k \<longrightarrow> int (pg_next ?page) = int (the (ev_seq (?F ! (length A + s))))"
          by (simp add: s(4) F' nth_append)
      qed (use s kF in auto)
    qed
  qed
qed

lemma last_cursor:
  assumes l: "log_of l es" and num: "numbered es"
  shows "firstIndexAtOrAbove (servable (source_of l backing echoes) lines) (last_seq (el_buf l) + 1)
     = length (servable (source_of l backing echoes) lines)"
proof (cases "el_buf l" rule: rev_cases)
  case Nil
  let ?F = "servable (source_of l backing echoes) lines"
  from Nil have "trimmedBefore l = 0" by (rule log_of_seqs(3) [OF l num])
  with Nil have "?F = []" by (simp add: servable_def Let_def)
  then show ?thesis by (simp add: firstIndexAtOrAbove_def bisect.simps)
next
  case (snoc r e)
  let ?F = "servable (source_of l backing echoes) lines"
  have e: "ev_seq e = Some (trimmedBefore l + length r)"
    using log_of_seqs(1) [OF l num, of "length r"] snoc by (simp add: nth_append)
  show ?thesis
  proof (rule first_index_all [OF servable_sorted [OF l num]])
    fix i assume i: "i < length ?F"
    have F: "?F ! (length ?F - 1) = e" "?F \<noteq> []" by (simp_all add: servable_def Let_def snoc nth_append)
    have "i = length ?F - 1 \<or> the (ev_seq (?F ! i)) < the (ev_seq (?F ! (length ?F - 1)))"
      using i seq_sorted_nth [OF servable_sorted [OF l num], of i "length ?F - 1"] by fastforce
    with F e show "int (the (ev_seq (?F ! i))) < last_seq (el_buf l) + 1" by (auto simp: last_seq_def snoc)
  qed
qed

lemma instance_follow:
  assumes l: "log_of l es" and num: "numbered es"
  shows "\<exists>qs. follow (\<lambda>c. pageInstanceEvents (source_of l backing echoes) lines c None limit mf)
     (length (servable (source_of l backing echoes) lines) + 1) None = Some qs
     \<and> concat (map served qs) = servable (source_of l backing echoes) lines"
proof -
  let ?ps = "source_of l backing echoes" let ?F = "servable ?ps lines"
  define page where "page = (\<lambda>c. pageInstanceEvents ?ps lines c None limit mf)"
  define b where "b = last_seq (el_buf l) + 1"
  have none: "page None = page (Some b)"
    by (simp add: page_def pageInstanceEvents_def normalizeWindow_def Let_def b_def)
  have all: "firstIndexAtOrAbove ?F b = length ?F" unfolding b_def by (rule last_cursor [OF l num])
  have "pages_of ?F page" unfolding page_def by (rule instance_pages_of [OF l num])
  then have "\<exists>qs. follow page (length ?F + 1) (Some b) = Some qs \<and> concat (map served qs) = take (firstIndexAtOrAbove ?F b) ?F"
    by (rule follow_serves [OF servable_sorted [OF l num]]) (simp add: all)
  then show ?thesis using follow_None [OF none] by (simp add: page_def all)
qed

text \<open>
  C17. A client that scrolls back through a session, asking for the newest page and then, while a page
  says there is more, for the one below its cursor, stops: after at most one request more than there
  are events it is told there is no more, and it has been served exactly what the session can serve,
  the archive below its cut and then every event of the retained ring, each once and in the order of
  its sequence number, however the pages fall across the seam between the two.  The session's ring,
  whatever was pushed into it before, and its file do not change while the client scrolls.
\<close>

theorem instance_pages_tile:
  fixes vs cap env seams backing echoes lines
  defines "ps \<equiv> source_of ((pushed vs (new_log cap env))\<lparr>el_seams := seams\<rparr>) backing echoes"
  shows "(\<exists>qs. follow (\<lambda>c. pageInstanceEvents ps lines c None limit mf) (length (servable ps lines) + 1) None = Some qs
      \<and> length qs \<le> length (servable ps lines) + 1 \<and> concat (map served qs) = servable ps lines)
    \<and> seq_sorted (servable ps lines)"
proof -
  define l where "l = (pushed vs (new_log cap env))\<lparr>el_seams := seams\<rparr>"
  have "log_of (pushed vs (new_log cap env)) (kept_events vs)"
    unfolding kept_events_def by (rule log_of_pushed [OF log_of_new])
  then have l: "log_of l (kept_events vs)" by (simp add: log_of_def l_def)
  have num: "numbered (kept_events vs)"
    unfolding kept_events_def by (rule kept_numbered) (simp add: numbered_def)
  have ps: "ps = source_of l backing echoes" by (simp add: ps_def l_def)
  show ?thesis
    using instance_follow [OF l num, of backing echoes lines limit mf] servable_sorted [OF l num]
    unfolding ps by (blast dest: follow_length)
qed

text \<open>
  The retained log is a window on the full log: whatever is pushed, the buffer is the full folded log
  from \<open>trimmedBefore\<close> on, the next sequence number is the full log's length, a sequence number is the
  event's position in it for ever, and the buffer never outgrows its capacity and slack.
\<close>

theorem ring_is_a_window_on_the_log:
  fixes vs cap env
  defines "l \<equiv> pushed vs (new_log cap env)"
  shows "el_buf l = drop (trimmedBefore l) (kept_events vs) \<and> el_next l = length (kept_events vs) \<and>
    numbered (kept_events vs) \<and> length (el_buf l) \<le> el_cap l + min RING_TRIM_SLACK (el_cap l) \<and>
    (el_buf l = [] \<longleftrightarrow> kept_events vs = [])"
proof -
  have l: "log_of l (kept_events vs)"
    unfolding kept_events_def l_def by (rule log_of_pushed [OF log_of_new])
  have num: "numbered (kept_events vs)"
    unfolding kept_events_def by (rule kept_numbered) (simp add: numbered_def)
  have slack: "el_slack l = min RING_TRIM_SLACK (el_cap l)" by (simp add: l_def new_log_def Let_def)
  have "el_next l = length (kept_events vs)" "length (el_buf l) \<le> el_cap l + el_slack l" using l by (simp_all add: log_of_def)
  with log_of_seqs(2) [OF l num] log_of_last [OF l] num slack show ?thesis by auto
qed

text \<open>
  C16. Where a page or a snapshot may start: the snap of a start inside a list returns the end of the
  window, or an index before it at which, of the events it counts from, no outer block is open and no
  outer tool call unanswered (or a turn or the seam begins), and after which every sub-agent's event of
  the window follows, within the window, the call that started that sub-agent.
\<close>

theorem snap_opens_on_whole_blocks:
  assumes "start < e" "e \<le> length arr"
  shows "let s = snapStartToQuiescent arr start e reset in s = e \<or>
    s < e \<and> (s = 0 \<or> reset = Some s \<or> isOuterUserEcho (arr ! s) \<or>
      (\<forall>k. \<not> block_open (seen_at arr reset s) k) \<and> (\<forall>t. \<not> tool_pending (seen_at arr reset s) t)) \<and>
    (\<forall>c p. s \<le> c \<longrightarrow> c < e \<longrightarrow> child_of arr c p \<longrightarrow> (\<exists>h. s \<le> h \<and> h \<le> c \<and> heads arr p h))"
proof -
  define s where "s = snapStartToQuiescent arr start e reset"
  have "s = e \<or> s < e \<and> cut_at arr reset s \<and> \<not> orphans arr e s"
    unfolding s_def by (rule snap_spec [OF assms])
  then show ?thesis
    unfolding s_def [symmetric] Let_def
    by (auto simp: cut_at_def by_fiat_def echo_at_def all_whole_def orphans_def)
qed

definition snap_demo :: "ui_event list" where
  "snap_demo = [plain_ev User_echo, (plain_ev Tool_use)\<lparr>ev_tool := Some ''t''\<rparr>,
     (plain_ev Text_delta)\<lparr>ev_parent := Some ''t''\<rparr>, (plain_ev Tool_result)\<lparr>ev_tool := Some ''t''\<rparr>,
     (plain_ev Text_delta)\<lparr>ev_msg := Some ''m'', ev_block := Some 0\<rparr>,
     (plain_ev Text_end)\<lparr>ev_msg := Some ''m'', ev_block := Some 0\<rparr>]"

theorem snap_opens_on_whole_blocks_witness:
  "let s = snapStartToQuiescent snap_demo 2 6 None in s = 6 \<or>
    s < 6 \<and> (s = 0 \<or> None = Some s \<or> isOuterUserEcho (snap_demo ! s) \<or>
      (\<forall>k. \<not> block_open (seen_at snap_demo None s) k) \<and> (\<forall>t. \<not> tool_pending (seen_at snap_demo None s) t)) \<and>
    (\<forall>c p. s \<le> c \<longrightarrow> c < 6 \<longrightarrow> child_of snap_demo c p \<longrightarrow> (\<exists>h. s \<le> h \<and> h \<le> c \<and> heads snap_demo p h))"
  by (rule snap_opens_on_whole_blocks) (simp_all add: snap_demo_def)

lemma snap_demo_moves_past_the_open_call: "snapStartToQuiescent snap_demo 2 6 None = 4"
  by code_simp

text \<open>
  The snapshot a subscriber is sent is a suffix of the ring and, when the ring is not empty, not
  empty; the whole ring when it fits.
\<close>

lemma snapshot_is_a_suffix:
  "\<exists>k. snapshotTail m env buf = drop k buf \<and> (buf \<noteq> [] \<longrightarrow> k < length buf)"
proof -
  define cap where "cap = positive_or m (positive_or env DEFAULT_SNAPSHOT_TAIL)"
  have cap: "0 < cap" by (auto simp: cap_def positive_or_def DEFAULT_SNAPSHOT_TAIL_def split: option.splits)
  show ?thesis
  proof (cases "length buf \<le> cap")
    case True
    then show ?thesis by (auto simp: snapshotTail_def cap_def [symmetric] intro!: exI [of _ 0])
  next
    case False
    have "lastQuiescentAtOrBefore buf (length buf - cap) None \<le> length buf - cap" by (rule lastQuiescent_le)
    with False cap have "lastQuiescentAtOrBefore buf (length buf - cap) None < length buf" by linarith
    with False show ?thesis by (auto simp: snapshotTail_def cap_def [symmetric] Let_def)
  qed
qed

text \<open>
  The divider of an unrecoverable gap is served twice when a page opens exactly on the seam: the page above
  carries it at its start, and the page below, which ends there, at its end.  Here the replay is denser
  than what the ring evicted, so the clamp has dropped archived events.
\<close>

definition seam_block :: "ev_kind \<Rightarrow> nat \<Rightarrow> ui_event" where
  "seam_block k n = (plain_ev k)\<lparr>ev_msg := Some ''m'', ev_block := Some n\<rparr>"

definition seam_lines :: "ui_event list list" where
  "seam_lines = [[plain_ev User_echo], [seam_block Text_delta 0, seam_block Text_end 0],
     [seam_block Text_delta 1, seam_block Text_end 1], [plain_ev User_echo]]"

definition seam_source :: pager_source where
  "seam_source = \<lparr>ps_ring = [(plain_ev User_echo)\<lparr>ev_index := Some 1, ev_seq := Some 3\<rparr>], ps_trimmed = 3,
     ps_seams = [(''s'', 0)], ps_backing = Some ''s'', ps_echoes = 2\<rparr>"

lemma gap_marker_is_served_twice:
  "let above = pageInstanceEvents seam_source (Some seam_lines) None None (Some 2) True;
       below = pageInstanceEvents seam_source (Some seam_lines) (Some (int (pg_next above))) None (Some 2) True
   in map ev_kind (pg_events above) = [History_gap, User_echo] \<and> pg_more above \<and>
      map ev_kind (pg_events below) = [Text_delta, Text_end, History_gap]"
  by code_simp

end
