(* ===== verification/LineageFacts.thy ===== *)
theory LineageFacts
  imports SessionProperties LineagePages PageFacts
begin

text \<open>
  The lineage walk of \<open>LineagePages\<close> drained by a client: no request fails, the walk ends, and every event
  of every segment it serves is served once and in order.
\<close>

subsection \<open>The steps of a chain\<close>

lemma findIndex_Some:
  "findIndex p xs = Some j \<longleftrightarrow> j < length xs \<and> p (xs ! j) \<and> (\<forall>k < j. \<not> p (xs ! k))"
proof (induction xs arbitrary: j)
  case (Cons x xs)
  then show ?case by (cases j) (auto simp: less_Suc_eq_0_disj)
qed simp

lemma findIndex_distinct:
  assumes "distinct (map f xs)" "j < length xs"
  shows "findIndex (\<lambda>x. f x = f (xs ! j)) xs = Some j"
  using assms by (auto simp: findIndex_Some distinct_conv_nth)

lemma steps_ids:
  "map ls_id (fst (steps_below chain h run)) =
     map (\<lambda>i. sg_id (chain ! i)) (filter (\<lambda>i. sg_reason (chain ! Suc i) \<noteq> Prune) (rev [0..<h]))"
proof (induction h arbitrary: run)
  case (Suc h)
  then show ?case
    using Suc.IH [of False] by (cases "steps_below chain h False") auto
qed simp

lemma steps_distinct:
  assumes "distinct (map sg_id chain)"
  shows "distinct (map ls_id (fst (lineageSteps chain i)))" "i \<notin> ls_id ` set (fst (lineageSteps chain i))"
proof -
  consider "findIndex (\<lambda>s. sg_id s = i) chain = None" | h where "findIndex (\<lambda>s. sg_id s = i) chain = Some h" by blast
  then have "distinct (map ls_id (fst (lineageSteps chain i))) \<and> i \<notin> ls_id ` set (fst (lineageSteps chain i))"
  proof cases
    case 2
    then have h: "h < length chain" "\<forall>k < h. sg_id (chain ! k) \<noteq> i" by (auto simp: findIndex_Some)
    have ids: "map ls_id (fst (lineageSteps chain i)) =
        map (\<lambda>i. sg_id (chain ! i)) (filter (\<lambda>i. sg_reason (chain ! Suc i) \<noteq> Prune) (rev [0..<h]))"
      using 2 steps_ids [of chain h False] by (cases "steps_below chain h False") (simp add: lineageSteps_def)
    have "inj_on (\<lambda>i. sg_id (chain ! i)) {0..<h}"
      using assms h(1) by (auto simp: inj_on_def distinct_conv_nth) (metis less_trans)
    then have "distinct (map ls_id (fst (lineageSteps chain i)))"
      unfolding ids by (auto simp: distinct_map intro: inj_on_subset)
    moreover have "i \<notin> set (map ls_id (fst (lineageSteps chain i)))" unfolding ids using h(2) by auto
    ultimately show ?thesis by simp
  qed (simp add: lineageSteps_def)
  then show "distinct (map ls_id (fst (lineageSteps chain i)))" "i \<notin> ls_id ` set (fst (lineageSteps chain i))" by simp_all
qed

lemma chain_distinct: "doc_good doc \<Longrightarrow> distinct (map sg_id (chainFor (indexSessions doc) p))"
  by (auto simp: chainFor_def doc_good_def owned_once_def split: option.splits)

subsection \<open>One space and its pages\<close>

text \<open>What pages a space: a cursor selects what lies below it, no cursor everything.\<close>

definition upto :: "ui_event list \<Rightarrow> int option \<Rightarrow> nat" where
  "upto F c = (case c of Some b \<Rightarrow> firstIndexAtOrAbove F b | None \<Rightarrow> length F)"

definition space_of :: "ui_event list \<Rightarrow> (int option \<Rightarrow> page) \<Rightarrow> bool" where
  "space_of F pg \<longleftrightarrow> seq_sorted F \<and> (\<forall>c. \<exists>s \<le> upto F c.
     served (pg c) = drop s (take (upto F c) F) \<and> (0 < s \<longrightarrow> pg_more (pg c)) \<and>
     (pg_more (pg c) \<longrightarrow> s < upto F c \<and> int (pg_next (pg c)) = int (the (ev_seq (F ! s))) \<and>
       upto F (Some (int (pg_next (pg c)))) = s))"

lemma space_ofI:
  assumes F: "seq_sorted F" and p: "pages_of F pg" and n: "pg None = pg (Some b)" "firstIndexAtOrAbove F b = length F"
  shows "space_of F pg"
  unfolding space_of_def
proof (intro conjI allI F)
  fix c
  obtain b' where b': "pg c = pg (Some b')" "firstIndexAtOrAbove F b' = upto F c"
    using n by (cases c) (auto simp: upto_def)
  obtain s where s: "s \<le> upto F c" "served (pg (Some b')) = drop s (take (upto F c) F)" "0 < upto F c \<longrightarrow> s < upto F c"
    "0 < s \<longrightarrow> pg_more (pg (Some b'))" "s < upto F c \<longrightarrow> int (pg_next (pg (Some b'))) = int (the (ev_seq (F ! s)))"
    "upto F c = 0 \<longrightarrow> \<not> pg_more (pg (Some b'))"
    using p b'(2) unfolding pages_of_def by metis
  have le: "upto F c \<le> length F" using first_index_spec(1) [OF F] by (simp add: upto_def split: option.splits)
  have "s < upto F c \<and> int (pg_next (pg c)) = int (the (ev_seq (F ! s))) \<and> upto F (Some (int (pg_next (pg c)))) = s"
    if "pg_more (pg c)"
  proof -
    have "s < upto F c" using s(3,6) that b'(1) by auto
    with s(5) le first_index_at [OF F, of s] show ?thesis by (simp add: upto_def b'(1))
  qed
  with s b'(1) show "\<exists>s \<le> upto F c. served (pg c) = drop s (take (upto F c) F) \<and> (0 < s \<longrightarrow> pg_more (pg c)) \<and>
      (pg_more (pg c) \<longrightarrow> s < upto F c \<and> int (pg_next (pg c)) = int (the (ev_seq (F ! s))) \<and>
        upto F (Some (int (pg_next (pg c)))) = s)" by auto
qed

lemma space_of_disk:
  "space_of (stampArchiveEvents ls) (\<lambda>c. pageStampedTranscript (stampArchiveEvents ls) c None limit)"
proof -
  define flat where "flat = stampArchiveEvents ls"
  have srt: "seq_sorted flat" using seq_sorted_numbered [of flat 0] stampArchive_seq by (simp add: flat_def)
  have "firstIndexAtOrAbove flat (int (length flat)) = length flat"
    by (rule first_index_all [OF srt]) (simp add: flat_def stampArchive_seq)
  moreover have "pageStampedTranscript flat None None limit = pageStampedTranscript flat (Some (int (length flat))) None limit"
    by (simp add: pageStampedTranscript_def normalizeWindow_def Let_def)
  ultimately show ?thesis
    using space_ofI [OF srt stamped_pages_of [OF srt, of limit]] by (simp add: flat_def)
qed

lemma space_of_gone: "space_of [] (\<lambda>_. gone_page)"
  by (auto simp: space_of_def upto_def seq_sorted_def served_def gone_page_def firstIndexAtOrAbove_def
      bisect.simps split: option.splits)


lemma space_of_instance:
  assumes "log_of l es" "numbered es"
  shows "space_of (servable (source_of l backing echoes) lines)
     (\<lambda>c. pageInstanceEvents (source_of l backing echoes) lines c None limit mf)"
proof (rule space_ofI [OF servable_sorted [OF assms] instance_pages_of [OF assms] _ last_cursor [OF assms]])
  show "pageInstanceEvents (source_of l backing echoes) lines None None limit mf =
      pageInstanceEvents (source_of l backing echoes) lines (Some (last_seq (el_buf l) + 1)) None limit mf"
    by (simp add: pageInstanceEvents_def normalizeWindow_def Let_def)
qed

text \<open>A space cut off below a number.\<close>

lemma upto_le: "seq_sorted F \<Longrightarrow> upto F c \<le> length F"
  using first_index_spec(1) by (simp add: upto_def split: option.splits)

lemma first_index_mono:
  assumes "seq_sorted F" "a \<le> b"
  shows "firstIndexAtOrAbove F a \<le> firstIndexAtOrAbove F b"
proof (rule ccontr)
  assume n: "\<not> ?thesis"
  then have "firstIndexAtOrAbove F b < length F" using first_index_spec(1) [OF assms(1), of a] by linarith
  with first_index_spec(3) [OF assms(1), of b "firstIndexAtOrAbove F b"]
    first_index_spec(2) [OF assms(1), of "firstIndexAtOrAbove F b" a] n assms(2) show False by simp
qed

lemma first_index_min:
  "seq_sorted F \<Longrightarrow> firstIndexAtOrAbove F (min a b) = min (firstIndexAtOrAbove F a) (firstIndexAtOrAbove F b)"
  using first_index_mono [of F a b] first_index_mono [of F b a] by (cases "a \<le> b") (simp_all add: min_def)

lemma first_index_take:
  assumes "seq_sorted F" "k \<le> length F"
  shows "firstIndexAtOrAbove (take k F) a = min k (firstIndexAtOrAbove F a)"
proof (rule first_index_eqI)
  show "seq_sorted (take k F)" using assms(1) by (auto simp: seq_sorted_def dest: in_set_takeD intro: sorted_wrt_take)
  show "min k (firstIndexAtOrAbove F a) \<le> length (take k F)" using assms(2) by simp
  show "int (the (ev_seq (take k F ! i))) < a" if "i < min k (firstIndexAtOrAbove F a)" for i
    using that first_index_spec(2) [OF assms(1), of i a] by simp
  show "a \<le> int (the (ev_seq (take k F ! min k (firstIndexAtOrAbove F a))))"
    if "min k (firstIndexAtOrAbove F a) < length (take k F)"
    using that first_index_spec(3) [OF assms(1), of a "firstIndexAtOrAbove F a"] by (simp add: min_def split: if_splits)
qed

lemma space_of_below:
  assumes "space_of F pg"
  shows "space_of (take (firstIndexAtOrAbove F t) F) (\<lambda>c. pg (Some (min (case c of Some b \<Rightarrow> b | None \<Rightarrow> t) t)))"
proof -
  let ?k = "firstIndexAtOrAbove F t" let ?G = "take ?k F"
  have F: "seq_sorted F" using assms by (simp add: space_of_def)
  have k: "?k \<le> length F" by (rule first_index_spec(1) [OF F])
  have up: "upto ?G c = upto F (Some (min (case c of Some b \<Rightarrow> b | None \<Rightarrow> t) t))" for c
    by (cases c) (auto simp: upto_def first_index_take [OF F k] first_index_min [OF F] min.commute min_absorb1 k)
  show ?thesis
    unfolding space_of_def
  proof (intro conjI allI)
    show "seq_sorted ?G" using F by (auto simp: seq_sorted_def dest: in_set_takeD intro: sorted_wrt_take)
    fix c
    define b where "b = min (case c of Some b \<Rightarrow> b | None \<Rightarrow> t) t"
    obtain s where s: "s \<le> upto F (Some b)" "served (pg (Some b)) = drop s (take (upto F (Some b)) F)"
      "0 < s \<longrightarrow> pg_more (pg (Some b))"
      "pg_more (pg (Some b)) \<longrightarrow> s < upto F (Some b) \<and> int (pg_next (pg (Some b))) = int (the (ev_seq (F ! s))) \<and>
        upto F (Some (int (pg_next (pg (Some b))))) = s"
      using assms unfolding space_of_def by blast
    have bk: "upto F (Some b) \<le> ?k" by (simp add: upto_def b_def first_index_min [OF F])
    then have "upto ?G (Some (int (pg_next (pg (Some b))))) = s" if "pg_more (pg (Some b))"
      using s(4) that unfolding upto_def option.case first_index_take [OF F k] by linarith
    with s bk show "\<exists>s \<le> upto ?G c. served (pg (Some b)) = drop s (take (upto ?G c) ?G) \<and> (0 < s \<longrightarrow> pg_more (pg (Some b))) \<and>
        (pg_more (pg (Some b)) \<longrightarrow> s < upto ?G c \<and> int (pg_next (pg (Some b))) = int (the (ev_seq (?G ! s))) \<and>
          upto ?G (Some (int (pg_next (pg (Some b))))) = s)"
      unfolding up b_def [symmetric] by (auto simp: min_absorb1)
  qed
qed


subsection \<open>The walk across spaces\<close>

text \<open>The sources a walk visits after one, in order.\<close>

definition older :: "walk_view \<Rightarrow> lineage_source \<Rightarrow> lineage_source list" where
  "older w s =
     (let disks = (\<lambda>j. map Disk_source [j..<length (wv_steps w)]) in
      case s of Live_source \<Rightarrow> (if wv_viewable w then [View_source] else []) @ disks 0
      | View_source \<Rightarrow> disks 0 | Disk_source j \<Rightarrow> disks (Suc j))"

definition sources :: "walk_view \<Rightarrow> lineage_source list" where
  "sources w = Live_source # older w Live_source"

lemma older_of_next:
  assumes "s \<in> set (sources w)" "older w s = s' # rest"
  shows "s' \<in> set (sources w) \<and> older w s' = rest"
  using assms by (cases s) (auto simp: older_def sources_def Let_def upt_eq_Cons_conv Cons_eq_append_conv split: if_splits)

lemma continuation_older:
  "continuation w s = (nxt, nb, prefix) \<Longrightarrow>
     (case older w s of [] \<Rightarrow> nxt = None
      | s' # _ \<Rightarrow> nxt = Some s' \<and> nb = (if s' = View_source then Some (int (ps_trimmed (wv_ps w))) else None))
     \<and> filter has_seq prefix = []"
  by (cases s) (auto simp: continuation_def older_def next_disk_def Let_def upt_conv_Cons has_seq_def markers_def mark_event_def
      history_gap_def plain_ev_def filter_empty_conv split: if_splits list.splits marker.splits)

lemma passes_enough: "length (older w s) < length (wv_steps w) + 3"
  by (cases s) (auto simp: older_def Let_def)

text \<open>A client that follows the space and the cursor of each reply until there is no more.\<close>

fun follow_lineage :: "(string option \<Rightarrow> int option \<Rightarrow> lineage_error + lineage_page) \<Rightarrow> nat \<Rightarrow> string option \<Rightarrow> int option \<Rightarrow> lineage_page list option" where
  "follow_lineage req 0 seg c = None"
| "follow_lineage req (Suc n) seg c =
     (case req seg c of
        Inl e \<Rightarrow> None
      | Inr r \<Rightarrow> if lp_more r then map_option (\<lambda>rs. rs @ [r]) (follow_lineage req n (lp_segment r) (lp_next r)) else Some [r])"

definition shown :: "lineage_page \<Rightarrow> ui_event list" where
  "shown r = filter has_seq (lp_events r)"

text \<open>
  What the walk relies on: every source it visits is paged as a list of events, the space a page names
  selects its source again, and the view of the ring head's segment ends where the ring begins.
\<close>

locale lineage_walk =
  fixes files :: transcripts and W :: "segment list \<Rightarrow> walk_view" and limit :: "int option"
    and F :: "segment list \<Rightarrow> lineage_source \<Rightarrow> ui_event list"
  assumes serves: "distinct (map sg_id ch) \<Longrightarrow> s \<in> set (sources (W ch)) \<Longrightarrow> \<exists>pg seg. (\<forall>c. serve files (W ch) limit s c = Inr (pg c, seg c)) \<and> space_of (F ch s) pg"
    and selects: "distinct (map sg_id ch) \<Longrightarrow> s \<in> set (sources (W ch)) \<Longrightarrow> source_for (W ch) (spaceOf (W ch) s) = Inr s"
    and ring_above: "distinct (map sg_id ch) \<Longrightarrow> wv_viewable (W ch) \<Longrightarrow> e \<in> set (F ch Live_source) \<Longrightarrow> ps_trimmed (wv_ps (W ch)) \<le> the (ev_seq e)"
    and view_below: "distinct (map sg_id ch) \<Longrightarrow> wv_viewable (W ch) \<Longrightarrow> upto (F ch View_source) (Some (int (ps_trimmed (wv_ps (W ch))))) = length (F ch View_source)"
begin

definition rest_of :: "segment list \<Rightarrow> lineage_source \<Rightarrow> int option \<Rightarrow> ui_event list" where
  "rest_of ch s c = concat (rev (map (F ch) (older (W ch) s))) @ take (upto (F ch s) c) (F ch s)"

definition asked :: "segment list \<Rightarrow> lineage_source \<Rightarrow> int option \<Rightarrow> bool" where
  "asked ch s c \<longleftrightarrow> distinct (map sg_id ch) \<and> s \<in> set (sources (W ch)) \<and>
     (s = Live_source \<and> wv_viewable (W ch) \<longrightarrow> (case c of Some b \<Rightarrow> int (ps_trimmed (wv_ps (W ch))) \<le> b | None \<Rightarrow> True))"

definition size_of :: "segment list \<Rightarrow> lineage_source \<Rightarrow> int option \<Rightarrow> nat" where
  "size_of ch s c = length (rest_of ch s c) + length (older (W ch) s)"

lemma rest_of_next:
  "older (W ch) s = s' # rest \<Longrightarrow> older (W ch) s' = rest \<Longrightarrow> upto (F ch s') nb = length (F ch s') \<Longrightarrow>
     rest_of ch s c = rest_of ch s' nb @ take (upto (F ch s) c) (F ch s)"
  by (simp add: rest_of_def)

lemma whole_space:
  "distinct (map sg_id ch) \<Longrightarrow> s \<in> set (sources (W ch)) \<Longrightarrow> nb = (if s = View_source then Some (int (ps_trimmed (wv_ps (W ch)))) else None) \<Longrightarrow>
     upto (F ch s) nb = length (F ch s)"
  using view_below by (auto simp: upto_def sources_def older_def Let_def split: if_splits)

lemma size_of_next:
  assumes "asked ch s c" "older (W ch) s = s' # rest" "nb = (if s' = View_source then Some (int (ps_trimmed (wv_ps (W ch)))) else None)"
  shows "asked ch s' nb" "rest_of ch s c = rest_of ch s' nb @ take (upto (F ch s) c) (F ch s)" "size_of ch s' nb < size_of ch s c"
    "length (older (W ch) s') < length (older (W ch) s)"
proof -
  have n: "s' \<in> set (sources (W ch))" "older (W ch) s' = rest" and d: "distinct (map sg_id ch)"
    using older_of_next assms by (auto simp: asked_def)
  show r: "rest_of ch s c = rest_of ch s' nb @ take (upto (F ch s) c) (F ch s)"
    by (rule rest_of_next [OF assms(2) n(2) whole_space [OF d n(1) assms(3)]])
  have "s' \<noteq> Live_source" using assms(2) by (cases s) (auto simp: older_def Let_def Cons_eq_append_conv upt_eq_Cons_conv split: if_splits)
  with n d show "asked ch s' nb" by (simp add: asked_def)
  show "length (older (W ch) s') < length (older (W ch) s)" using n(2) assms(2) by simp
  then show "size_of ch s' nb < size_of ch s c" using r by (simp add: size_of_def)
qed

text \<open>One reply: what it serves is the top of what was left, and what it leaves is asked for next and smaller.\<close>

definition reply_ok :: "segment list \<Rightarrow> lineage_source \<Rightarrow> int option \<Rightarrow> lineage_page \<Rightarrow> bool" where
  "reply_ok ch s c r \<longleftrightarrow>
     (if lp_more r then \<exists>s'. source_for (W ch) (lp_segment r) = Inr s' \<and> asked ch s' (lp_next r) \<and>
        rest_of ch s c = rest_of ch s' (lp_next r) @ filter has_seq (lp_events r) \<and> size_of ch s' (lp_next r) < size_of ch s c
      else rest_of ch s c = filter has_seq (lp_events r))"

lemma more_reply_ok:
  assumes "asked ch s c" "serve files (W ch) limit s c = Inr (p, seg)" "pg_more p"
  shows "reply_ok ch s c (reply (W ch) (pg_events p) True s (Some (int (pg_next p))) seg)"
proof -
  have src: "distinct (map sg_id ch)" "s \<in> set (sources (W ch))" using assms(1) by (simp_all add: asked_def)
  from serves [OF src] assms(2,3) obtain pg sg where pg: "space_of (F ch s) pg" "pg c = p"
    by (metis Pair_inject sum.inject(2))
  then obtain k where k: "k < upto (F ch s) c" "served p = drop k (take (upto (F ch s) c) (F ch s))"
    "int (pg_next p) = int (the (ev_seq (F ch s ! k)))" "upto (F ch s) (Some (int (pg_next p))) = k"
    using assms(3) unfolding space_of_def by blast
  have le: "upto (F ch s) c \<le> length (F ch s)" using pg(1) upto_le by (auto simp: space_of_def)
  have ask: "asked ch s (Some (int (pg_next p)))"
    using src ring_above [of ch "F ch s ! k"] k le by (auto simp: asked_def)
  have t: "take (upto (F ch s) c) (F ch s) = take k (F ch s) @ served p"
    using k(1,2) append_take_drop_id [of k "take (upto (F ch s) c) (F ch s)"] by (simp add: min_absorb1)
  have "rest_of ch s c = rest_of ch s (Some (int (pg_next p))) @ served p"
    by (simp add: rest_of_def k(4) t)
  moreover have "served p \<noteq> []" using k(1,2) le by auto
  ultimately show ?thesis
    using ask selects [OF src] by (auto simp: reply_ok_def reply_def size_of_def served_def)
qed

lemma walk_reply_ok:
  "asked ch s c \<Longrightarrow> length (older (W ch) s) < n \<Longrightarrow> \<exists>r. walk_passes files (W ch) limit n s c = Inr r \<and> reply_ok ch s c r"
proof (induction n arbitrary: s c)
  case (Suc n)
  have src: "distinct (map sg_id ch)" "s \<in> set (sources (W ch))" using Suc.prems(1) by (simp_all add: asked_def)
  obtain pg sg where pg: "serve files (W ch) limit s c = Inr (pg c, sg c)" "space_of (F ch s) pg" using serves [OF src] by blast
  define p where "p = pg c"
  show ?case
  proof (cases "pg_more p")
    case True
    with pg(1) more_reply_ok [OF Suc.prems(1) pg(1)] show ?thesis by (simp add: p_def)
  next
    case False
    then have all: "take (upto (F ch s) c) (F ch s) = filter has_seq (pg_events p)"
      using pg(2) unfolding space_of_def p_def served_def by (metis drop0 neq0_conv)
    obtain nxt nb prefix where ct: "continuation (W ch) s = (nxt, nb, prefix)" by (metis prod_cases3)
    note co = continuation_older [OF ct]
    show ?thesis
    proof (cases "older (W ch) s")
      case Nil
      with co False pg(1) all ct show ?thesis by (simp add: p_def reply_ok_def reply_def rest_of_def)
    next
      case (Cons s' rest)
      with co have nx: "nxt = Some s'" "nb = (if s' = View_source then Some (int (ps_trimmed (wv_ps (W ch)))) else None)"
        "filter has_seq prefix = []" by simp_all
      note nextp = size_of_next [OF Suc.prems(1) Cons nx(2)]
      have sel: "source_for (W ch) (spaceOf (W ch) s') = Inr s'" using selects nextp(1) by (simp add: asked_def)
      show ?thesis
      proof (cases "prefix @ pg_events p = []")
        case False
        with \<open>\<not> pg_more p\<close> pg(1) ct nx(1) all nx(3) nextp sel show ?thesis
          by (auto simp: p_def reply_ok_def reply_def)
      next
        case True
        have cur: "(if s' = View_source then Some (view_cursor (W ch) c) else nb) = nb"
        proof (cases "s' = View_source")
          case True
          then have "s = Live_source" "wv_viewable (W ch)"
            using Cons by (cases s; auto simp: older_def Let_def split: if_splits)+
          with Suc.prems(1) True nx(2) show ?thesis
            by (auto simp: asked_def view_cursor_def Let_def split: option.splits)
        qed simp
        have "length (older (W ch) s') < n" using Suc.prems(2) nextp(4) by simp
        from Suc.IH [OF nextp(1) this] obtain r where r: "walk_passes files (W ch) limit n s' nb = Inr r" "reply_ok ch s' nb r" by blast
        have "rest_of ch s c = rest_of ch s' nb" using nextp(2) all True by simp
        with r(2) nextp(3) have "reply_ok ch s c r" by (auto simp: reply_ok_def split: if_splits)
        with r(1) \<open>\<not> pg_more p\<close> pg(1) ct nx(1) True cur show ?thesis by (auto simp: p_def)
      qed
    qed
  qed
qed simp

lemma walk_drained:
  assumes req: "\<And>seg c. req seg c = (case source_for (W ch) seg of Inl e \<Rightarrow> Inl e
      | Inr s \<Rightarrow> walk_passes files (W ch) limit (length (wv_steps (W ch)) + 3) s c)"
  shows "asked ch s c \<Longrightarrow> source_for (W ch) seg = Inr s \<Longrightarrow> size_of ch s c < n \<Longrightarrow>
    \<exists>rs. follow_lineage req n seg c = Some rs \<and> concat (map shown rs) = rest_of ch s c"
proof (induction n arbitrary: seg s c)
  case (Suc n)
  obtain r where r: "walk_passes files (W ch) limit (length (wv_steps (W ch)) + 3) s c = Inr r" "reply_ok ch s c r"
    using walk_reply_ok [OF Suc.prems(1) passes_enough] by blast
  then have q: "req seg c = Inr r" using Suc.prems(2) by (simp add: req)
  show ?case
  proof (cases "lp_more r")
    case True
    with r(2) obtain s' where s': "source_for (W ch) (lp_segment r) = Inr s'" "asked ch s' (lp_next r)"
      "rest_of ch s c = rest_of ch s' (lp_next r) @ shown r" "size_of ch s' (lp_next r) < size_of ch s c"
      by (auto simp: reply_ok_def shown_def)
    with Suc.IH [OF s'(2,1)] Suc.prems(3) obtain rs where
      "follow_lineage req n (lp_segment r) (lp_next r) = Some rs" "concat (map shown rs) = rest_of ch s' (lp_next r)" by auto
    with True q s'(3) show ?thesis by simp
  next
    case False
    with r(2) q show ?thesis by (simp add: reply_ok_def shown_def)
  qed
qed simp

lemma all_drained:
  assumes "distinct (map sg_id ch)"
    "\<And>seg c. req seg c = (case source_for (W ch) seg of Inl e \<Rightarrow> Inl e
      | Inr s \<Rightarrow> walk_passes files (W ch) limit (length (wv_steps (W ch)) + 3) s c)"
  shows "\<exists>rs. follow_lineage req (length (concat (map (F ch) (rev (sources (W ch))))) + length (sources (W ch))) None None = Some rs \<and>
    concat (map shown rs) = concat (map (F ch) (rev (sources (W ch))))"
proof -
  have "asked ch Live_source None" using assms(1) by (simp add: asked_def sources_def)
  moreover have "rest_of ch Live_source None = concat (map (F ch) (rev (sources (W ch))))"
    by (simp add: rest_of_def sources_def upto_def rev_map)
  moreover have "source_for (W ch) None = Inr Live_source" by (simp add: source_for_def)
  ultimately show ?thesis
    using walk_drained [OF assms(2), of Live_source None None "length (concat (map (F ch) (rev (sources (W ch))))) + length (sources (W ch))"]
    by (simp add: size_of_def sources_def del: follow_lineage.simps)
qed

end

subsection \<open>A session's own walk\<close>

text \<open>What each source can serve.\<close>

definition space_events :: "transcripts \<Rightarrow> walk_view \<Rightarrow> lineage_source \<Rightarrow> ui_event list" where
  "space_events files w s =
     (case s of
        Live_source \<Rightarrow> servable (wv_ps w) (backing_lines files (wv_ps w))
      | View_source \<Rightarrow> (case head_seam (ps_seams (wv_ps w)) (ps_trimmed (wv_ps w)) of
            None \<Rightarrow> []
          | Some k \<Rightarrow> (let v = segmentRingView (wv_ps w) k; es = servable v (backing_lines files v) in
              take (firstIndexAtOrAbove es (int (ps_trimmed (wv_ps w)))) es))
      | Disk_source j \<Rightarrow> (let st = wv_steps w ! j in
          case (if ls_dropped st then None else loadStampedTranscript (files (ls_id st))) of Some flat \<Rightarrow> flat | None \<Rightarrow> []))"

definition session_source :: "ui_event list \<Rightarrow> int option \<Rightarrow> int option \<Rightarrow> ring_seam list \<Rightarrow> string option \<Rightarrow> nat \<Rightarrow> pager_source" where
  "session_source vs cap env seams backing echoes = source_of ((pushed vs (new_log cap env))\<lparr>el_seams := seams\<rparr>) backing echoes"

lemma session_log: "log_of ((pushed vs (new_log cap env))\<lparr>el_seams := seams\<rparr>) (kept_events vs)"
  using log_of_pushed [OF log_of_new, of vs] by (simp add: log_of_def kept_events_def)

lemma session_numbered: "numbered (kept_events vs)"
  unfolding kept_events_def by (rule kept_numbered) (simp add: numbered_def)

lemma source_of_seams [simp]: "ps_seams (source_of l backing echoes) = el_seams l" "ps_backing (source_of l backing echoes) = backing"
  by (simp_all add: source_of_def)

lemma head_seam_Some:
  assumes "head_seam seams tb = Some k"
  shows "k < length seams" "snd (seams ! k) \<le> tb" "k < i \<Longrightarrow> i < length seams \<Longrightarrow> tb < snd (seams ! i)"
proof -
  obtain n where n: "n < length seams" "k = rev [0..<length seams] ! n" "snd (seams ! k) \<le> tb"
    "\<And>m. m < n \<Longrightarrow> tb < snd (seams ! (rev [0..<length seams] ! m))"
    using assms unfolding head_seam_def by (fastforce simp: find_Some_iff not_le)
  then have k: "k = length seams - 1 - n" by (simp add: rev_nth)
  show "k < length seams" "snd (seams ! k) \<le> tb" using n k by auto
  assume i: "k < i" "i < length seams"
  then have "length seams - 1 - i < n" "rev [0..<length seams] ! (length seams - 1 - i) = i"
    using k by (auto simp: rev_nth)
  with n(4) [of "length seams - 1 - i"] show "tb < snd (seams ! i)" by simp
qed

lemma segmentOfSeq_head:
  "segmentOfSeq seams tb = map_option (\<lambda>k. fst (seams ! k)) (head_seam seams tb)"
proof -
  have "List.find P (map f xs) = map_option f (List.find (P \<circ> f) xs)" for P :: "ring_seam \<Rightarrow> bool" and f and xs :: "nat list"
    by (induction xs) auto
  from this [of "\<lambda>m. snd m \<le> tb" "(!) seams" "rev [0..<length seams]"]
  show ?thesis by (simp add: segmentOfSeq_def head_seam_def rev_map [symmetric] map_nth option.map_comp comp_def)
qed

lemma viewable_seam:
  assumes "wv_viewable (walk_view_of ch ps)"
  obtains k where "head_seam (ps_seams ps) (ps_trimmed ps) = Some k" "Suc k < length (ps_seams ps)"
    "snd (ps_seams ps ! k) \<le> ps_trimmed ps" "ps_trimmed ps < snd (ps_seams ps ! Suc k)"
    "ps_trimmed ps < snd (last (ps_seams ps))" "ps_seams ps \<noteq> []"
proof -
  have ne: "ps_seams ps \<noteq> []" and h: "segmentOfSeq (ps_seams ps) (ps_trimmed ps) \<noteq> None"
    "segmentOfSeq (ps_seams ps) (ps_trimmed ps) \<noteq> Some (fst (last (ps_seams ps)))"
    using assms by (auto simp: walk_view_of_def Let_def split: if_splits)
  then obtain k where k: "head_seam (ps_seams ps) (ps_trimmed ps) = Some k" by (auto simp: segmentOfSeq_head)
  note hs = head_seam_Some [OF k]
  have "k \<noteq> length (ps_seams ps) - 1" using h(2) k ne by (auto simp: segmentOfSeq_head last_conv_nth)
  with hs(1) have "Suc k < length (ps_seams ps)" by simp
  with that [OF k this hs(2)] hs(3) [of "Suc k"] hs(3) [of "length (ps_seams ps) - 1"] ne show thesis
    by (simp add: last_conv_nth)
qed

text \<open>The view of an earlier segment is a source of a log that stopped at the segment's end.\<close>

lemma view_is_a_source:
  assumes l: "log_of l es" and num: "numbered es"
    and k: "snd (el_seams l ! k) \<le> trimmedBefore l" "trimmedBefore l < snd (el_seams l ! Suc k)"
  obtains l' backing' echoes' where
    "segmentRingView (source_of l backing echoes) k = source_of l' (Some backing') echoes'"
    "log_of l' (take (snd (el_seams l ! Suc k)) es)" "trimmedBefore l' = trimmedBefore l"
proof -
  define stop where "stop = snd (el_seams l ! Suc k)"
  define ring where "ring = filter (seq_within (snd (el_seams l ! k)) stop) (el_buf l)"
  define l' where "l' = l\<lparr>el_buf := ring, el_next := length (take stop es), el_seams := take (Suc k) (el_seams l)\<rparr>"
  note buf = log_of_seqs [OF l num]
  have ring: "ring = drop (trimmedBefore l) (take stop es)"
  proof -
    have seqs: "ev_seq (el_buf l ! i) = Some (trimmedBefore l + i)" if "i < length (el_buf l)" for i using buf(1) that .
    have "el_buf l = take (stop - trimmedBefore l) (el_buf l) @ drop (stop - trimmedBefore l) (el_buf l)" by simp
    moreover have "seq_within (snd (el_seams l ! k)) stop e" if e: "e \<in> set (take (stop - trimmedBefore l) (el_buf l))" for e
    proof -
      obtain i where "i < stop - trimmedBefore l" "i < length (el_buf l)" "e = el_buf l ! i"
        using e by (auto simp: in_set_conv_nth)
      with seqs [of i] k(1) show ?thesis by (simp add: seq_within_def)
    qed
    moreover have "\<not> seq_within (snd (el_seams l ! k)) stop e" if e: "e \<in> set (drop (stop - trimmedBefore l) (el_buf l))" for e
    proof -
      obtain i where "i < length (el_buf l) - (stop - trimmedBefore l)" "e = el_buf l ! (stop - trimmedBefore l + i)"
        using e by (auto simp: in_set_conv_nth)
      with seqs [of "stop - trimmedBefore l + i"] k(2) show ?thesis by (simp add: seq_within_def stop_def)
    qed
    ultimately have "ring = take (stop - trimmedBefore l) (el_buf l)"
      unfolding ring_def by (metis (no_types, lifting) append.right_neutral filter_False filter_True filter_append)
    then show ?thesis using buf(2) by (simp add: take_drop stop_def k(2) less_imp_le)
  qed
  have lt: "take stop es = [] \<or> trimmedBefore l < length (take stop es)"
  proof (cases "es = []")
    case False
    then have "el_buf l \<noteq> []" using log_of_last [OF l] by simp
    with buf(2) have "trimmedBefore l < length es" by auto
    with k(2) show ?thesis by (simp add: stop_def)
  qed simp
  have "length ring \<le> el_cap l + el_slack l"
    unfolding ring_def by (rule order_trans [OF length_filter_le]) (use l in \<open>simp add: log_of_def\<close>)
  with lt ring have log: "log_of l' (take stop es)"
    using l unfolding log_of_def l'_def by auto
  have num': "numbered (take stop es)" using num by (simp add: numbered_def)
  have "trimmedBefore l' = trimmedBefore l"
  proof (cases "take stop es = []")
    case True
    then have "es = []" using k(2) by (auto simp: stop_def)
    then have "el_buf l = []" using log_of_last [OF l] by simp
    moreover have "el_buf l' = []" using log_of_last [OF log] True by simp
    ultimately show ?thesis using buf(3) log_of_seqs(3) [OF log num'] by simp
  next
    case False
    then have ne: "el_buf l' \<noteq> []" using log_of_last [OF log] by simp
    have "el_buf l' = drop (trimmedBefore l) (take stop es)" using ring by (simp add: l'_def)
    moreover have "trimmedBefore l < length es" "trimmedBefore l < stop" using lt False by simp_all
    ultimately have "ev_seq (el_buf l' ! 0) = Some (trimmedBefore l)" using num by (simp add: numbered_def)
    with log_of_seqs(1) [OF log num', of 0] ne show ?thesis by simp
  qed
  moreover have "segmentRingView (source_of l backing echoes) k = source_of l' (Some (fst (el_seams l ! k)))
      (ps_echoes (segmentRingView (source_of l backing echoes) k))"
    using \<open>trimmedBefore l' = _\<close>
    by (simp add: segmentRingView_def source_of_def Let_def l'_def ring_def stop_def)
  ultimately show thesis using that log by (simp add: stop_def)
qed

lemma Live_is_the_ring:
  assumes "wv_viewable (walk_view_of ch ps)"
  shows "servable ps lines = ps_ring ps"
proof -
  obtain k where "ps_trimmed ps < snd (last (ps_seams ps))" "ps_seams ps \<noteq> []" using viewable_seam [OF assms] by blast
  then have "\<not> sp_archivable (currentSegmentScope ps)" by (simp add: currentSegmentScope_def Let_def)
  then show ?thesis by (simp add: servable_def Let_def)
qed

lemma filter_dividers: "filter has_seq (insertRingSeamDividers es seams fl) = filter has_seq es"
proof -
  have "filter has_seq (concat (map (\<lambda>ev. (case Option.bind (ev_seq ev) (map_of m) of
      Some seg \<Rightarrow> [seam_divider seg, ev] | None \<Rightarrow> [ev])) es)) = filter has_seq es" for m
    by (induction es) (auto split: option.splits)
  then show ?thesis by (simp add: insertRingSeamDividers_def Let_def)
qed

lemma space_of_cong:
  assumes "space_of F pg" "\<And>c. served (pg' c) = served (pg c)" "\<And>c. pg_more (pg' c) = pg_more (pg c)"
    "\<And>c. pg_next (pg' c) = pg_next (pg c)"
  shows "space_of F pg'"
  using assms by (simp add: space_of_def)

lemma view_sorted:
  assumes "wv_viewable (walk_view_of ch (session_source vs cap env seams backing echoes))"
    "head_seam (ps_seams (session_source vs cap env seams backing echoes))
       (ps_trimmed (session_source vs cap env seams backing echoes)) = Some k"
  shows "seq_sorted (servable (segmentRingView (session_source vs cap env seams backing echoes) k) lines)"
proof -
  define l where "l = (pushed vs (new_log cap env))\<lparr>el_seams := seams\<rparr>"
  have ps: "session_source vs cap env seams backing echoes = source_of l backing echoes" by (simp add: session_source_def l_def)
  have l: "log_of l (kept_events vs)" unfolding l_def by (rule session_log)
  obtain k' where "head_seam (el_seams l) (trimmedBefore l) = Some k'" "snd (el_seams l ! k') \<le> trimmedBefore l"
    "trimmedBefore l < snd (el_seams l ! Suc k')"
    using viewable_seam [OF assms(1)] unfolding ps by (metis source_of_seams(1) source_of_simps(2))
  with assms(2) have "snd (el_seams l ! k) \<le> trimmedBefore l" "trimmedBefore l < snd (el_seams l ! Suc k)" by (simp_all add: ps)
  from view_is_a_source [OF l session_numbered this, of backing echoes] obtain l' b e where
    "segmentRingView (source_of l backing echoes) k = source_of l' (Some b) e"
    "log_of l' (take (snd (el_seams l ! Suc k)) (kept_events vs))" by metis
  moreover have "numbered (take (snd (el_seams l ! Suc k)) (kept_events vs))"
    using session_numbered [of vs] by (simp add: numbered_def)
  ultimately show ?thesis unfolding ps by (simp add: servable_sorted)
qed

lemma session_serves:
  assumes src: "s \<in> set (sources (walk_view_of ch (session_source vs cap env seams backing echoes)))"
  shows "\<exists>pg seg. (\<forall>c. serve files (walk_view_of ch (session_source vs cap env seams backing echoes)) limit s c = Inr (pg c, seg c)) \<and>
    space_of (space_events files (walk_view_of ch (session_source vs cap env seams backing echoes)) s) pg"
proof -
  define l where "l = (pushed vs (new_log cap env))\<lparr>el_seams := seams\<rparr>"
  define ps where "ps = source_of l backing echoes"
  define w where "w = walk_view_of ch ps"
  have l: "log_of l (kept_events vs)" unfolding l_def by (rule session_log)
  note num = session_numbered [of vs]
  have wp: "wv_ps w = ps" by (simp add: w_def walk_view_of_def Let_def)
  have "\<exists>pg seg. (\<forall>c. serve files w limit s c = Inr (pg c, seg c)) \<and> space_of (space_events files w s) pg"
  proof (cases s)
    case Live_source
    have "space_of (servable ps (backing_lines files ps)) (\<lambda>c. fst (serve_live files w limit c))"
      by (rule space_of_cong [OF space_of_instance [OF l num, of backing echoes, folded ps_def]])
        (simp_all add: serve_live_def Let_def wp served_def filter_dividers)
    with Live_source show ?thesis
      by (auto simp: serve_def space_events_def wp
          intro!: exI [of _ "\<lambda>c. fst (serve_live files w limit c)"] exI [of _ "\<lambda>c. snd (serve_live files w limit c)"])
  next
    case View_source
    then have "wv_viewable w" using src by (auto simp: w_def ps_def l_def session_source_def sources_def older_def Let_def split: if_splits)
    then obtain k where k: "head_seam (ps_seams ps) (ps_trimmed ps) = Some k" "snd (ps_seams ps ! k) \<le> ps_trimmed ps"
      "ps_trimmed ps < snd (ps_seams ps ! Suc k)" unfolding w_def by (rule viewable_seam)
    obtain l' b e where v: "segmentRingView ps k = source_of l' (Some b) e"
      "log_of l' (take (snd (el_seams l ! Suc k)) (kept_events vs))"
      using view_is_a_source [OF l num] k(2,3) unfolding ps_def by (metis source_of_seams(1) source_of_simps(2))
    have num': "numbered (take (snd (el_seams l ! Suc k)) (kept_events vs))" using num by (simp add: numbered_def)
    define vl where "vl = backing_lines files (segmentRingView ps k)"
    note sp = space_of_below [OF space_of_instance [OF v(2) num', of "Some b" e vl limit "\<not> (wv_steps w \<noteq> [] \<or> wv_top w \<noteq> [])",
        folded v(1)], of "int (ps_trimmed ps)"]
    define pg where "pg = (\<lambda>c. pageInstanceEvents (segmentRingView ps k) vl
        (Some (min (case c of Some b \<Rightarrow> b | None \<Rightarrow> int (ps_trimmed ps)) (int (ps_trimmed ps)))) None limit
        (\<not> (wv_steps w \<noteq> [] \<or> wv_top w \<noteq> [])))"
    have "serve files w limit s c = Inr (pg c, wv_head w)" for c
      by (simp add: View_source serve_def serve_view_def wp k(1) Let_def vl_def view_cursor_def pg_def)
    moreover have "space_of (space_events files w s) pg"
      using sp by (simp add: View_source space_events_def wp k(1) Let_def vl_def pg_def)
    ultimately show ?thesis by (auto intro!: exI [of _ pg] exI [of _ "\<lambda>_. wv_head w"])
  next
    case (Disk_source j)
    define st where "st = wv_steps w ! j"
    show ?thesis
    proof (cases "if ls_dropped st then None else files (ls_id st)")
      case None
      then have "(if ls_dropped st then None else loadStampedTranscript (files (ls_id st))) = None"
        by (simp add: loadStampedTranscript_def split: if_splits)
      with Disk_source space_of_gone show ?thesis
        by (auto simp: serve_def serve_disk_def space_events_def st_def [symmetric] Let_def
            intro!: exI [of _ "\<lambda>_. gone_page"] exI [of _ "\<lambda>_. Some (ls_id st)"])
    next
      case (Some ls)
      then have "(if ls_dropped st then None else loadStampedTranscript (files (ls_id st))) = Some (stampArchiveEvents ls)"
        by (simp add: loadStampedTranscript_def split: if_splits)
      with Disk_source space_of_disk [of ls limit] show ?thesis
        by (auto simp: serve_def serve_disk_def space_events_def st_def [symmetric] Let_def
            intro!: exI [of _ "\<lambda>c. pageStampedTranscript (stampArchiveEvents ls) c None limit"] exI [of _ "\<lambda>_. Some (ls_id st)"])
    qed
  qed
  then show ?thesis by (simp add: w_def ps_def l_def session_source_def)
qed

lemma session_selects:
  assumes "distinct (map sg_id ch)" "s \<in> set (sources (walk_view_of ch ps))"
  shows "source_for (walk_view_of ch ps) (spaceOf (walk_view_of ch ps) s) = Inr s"
proof -
  define w where "w = walk_view_of ch ps"
  have st: "wv_steps w = fst (lineageSteps ch (case wv_head w of Some h \<Rightarrow> h | None \<Rightarrow> []))"
    by (simp add: w_def walk_view_of_def Let_def)
  have d: "distinct (map ls_id (wv_steps w))" unfolding st by (rule steps_distinct(1) [OF assms(1)])
  have h: "h \<notin> ls_id ` set (wv_steps w)" if "wv_head w = Some h" for h
    using that steps_distinct(2) [OF assms(1), of h] by (simp add: st)
  show ?thesis
    unfolding w_def [symmetric]
  proof (cases s)
    case View_source
    then have "wv_viewable w" using assms(2) by (auto simp: w_def sources_def older_def Let_def split: if_splits)
    moreover then obtain g where "wv_head w = Some g" by (auto simp: w_def walk_view_of_def Let_def)
    ultimately show "source_for w (spaceOf w s) = Inr s" by (simp add: View_source source_for_def spaceOf_def)
  next
    case (Disk_source j)
    then have j: "j < length (wv_steps w)" using assms(2) by (auto simp: w_def sources_def older_def Let_def split: if_splits)
    then have "wv_head w \<noteq> Some (ls_id (wv_steps w ! j))" using h by fastforce
    then show "source_for w (spaceOf w s) = Inr s"
      by (simp add: Disk_source source_for_def spaceOf_def findIndex_distinct [OF d j])
  qed (simp add: source_for_def spaceOf_def)
qed

lemma ring_seq_ge:
  assumes "log_of l es" "numbered es" "e \<in> set (el_buf l)"
  shows "trimmedBefore l \<le> the (ev_seq e)"
proof -
  obtain i where "i < length (el_buf l)" "e = el_buf l ! i" using assms(3) by (auto simp: in_set_conv_nth)
  with log_of_seqs(1) [OF assms(1,2) this(1)] show ?thesis by simp
qed

interpretation session_walk: lineage_walk files "\<lambda>ch. walk_view_of ch (session_source vs cap env seams backing echoes)" limit
  "\<lambda>ch. space_events files (walk_view_of ch (session_source vs cap env seams backing echoes))"
proof
  fix ch s
  let ?ps = "session_source vs cap env seams backing echoes" let ?w = "walk_view_of ch ?ps"
  have wp: "wv_ps ?w = ?ps" by (simp add: walk_view_of_def Let_def)
  show "s \<in> set (sources ?w) \<Longrightarrow> \<exists>pg seg. (\<forall>c. serve files ?w limit s c = Inr (pg c, seg c)) \<and> space_of (space_events files ?w s) pg"
    by (rule session_serves)
  show "distinct (map sg_id ch) \<Longrightarrow> s \<in> set (sources ?w) \<Longrightarrow> source_for ?w (spaceOf ?w s) = Inr s"
    by (rule session_selects)
  show "ps_trimmed (wv_ps ?w) \<le> the (ev_seq e)" if "wv_viewable ?w" "e \<in> set (space_events files ?w Live_source)" for e
  proof -
    have "e \<in> set (ps_ring ?ps)" using that Live_is_the_ring [OF that(1)] by (simp add: space_events_def wp)
    then show ?thesis unfolding wp unfolding session_source_def source_of_simps by (rule ring_seq_ge [OF session_log session_numbered])
  qed
  show "upto (space_events files ?w View_source) (Some (int (ps_trimmed (wv_ps ?w)))) = length (space_events files ?w View_source)"
    if v: "wv_viewable ?w"
  proof -
    from v obtain k where k: "head_seam (ps_seams ?ps) (ps_trimmed ?ps) = Some k" by (rule viewable_seam)
    define es where "es = servable (segmentRingView ?ps k) (backing_lines files (segmentRingView ?ps k))"
    have srt: "seq_sorted es" unfolding es_def by (rule view_sorted [OF v k])
    have "space_events files ?w View_source = take (firstIndexAtOrAbove es (int (ps_trimmed ?ps))) es"
      by (simp add: space_events_def wp k Let_def es_def)
    then show ?thesis using first_index_spec(1) [OF srt] by (simp add: wp upto_def first_index_take [OF srt])
  qed
qed

text \<open>Everything a session's history holds for the walk: its older segments, oldest first, and then the live space.\<close>

definition lineage_history :: "transcripts \<Rightarrow> walk_view \<Rightarrow> ui_event list" where
  "lineage_history files w = concat (map (space_events files w) (rev (sources w)))"

text \<open>
  The same from the record, the files and the ring.  A segment's transcript is its file, nothing when
  it is gone or was dropped; the older segments are those recorded before the one the ring begins in,
  a prune's original apart, and none when the record does not list that one.  Below the ring comes
  what the archive of the segment the ring begins in holds below its cut: of the current segment, or,
  when the ring has outlived a renewal, of the earlier one.
\<close>

definition transcript_of :: "transcripts \<Rightarrow> segment \<Rightarrow> ui_event list" where
  "transcript_of files s = (if sg_dropped s then [] else case files (sg_id s) of None \<Rightarrow> [] | Some ls \<Rightarrow> stampArchiveEvents ls)"

definition older_history :: "segment list \<Rightarrow> transcripts \<Rightarrow> string option \<Rightarrow> ui_event list" where
  "older_history chain files head =
     (case findIndex (\<lambda>s. sg_id s = (case head of Some h \<Rightarrow> h | None \<Rightarrow> [])) chain of
        None \<Rightarrow> []
      | Some h \<Rightarrow> concat (map (\<lambda>i. transcript_of files (chain ! i)) (filter (\<lambda>i. sg_reason (chain ! Suc i) \<noteq> Prune) [0..<h])))"

definition archive_below :: "transcripts \<Rightarrow> walk_view \<Rightarrow> ui_event list" where
  "archive_below files w =
     (let ps = wv_ps w in
      if wv_viewable w then
        (case head_seam (ps_seams ps) (ps_trimmed ps) of
           None \<Rightarrow> []
         | Some k \<Rightarrow> (let v = segmentRingView ps k; es = servable v (backing_lines files v) in
             take (firstIndexAtOrAbove es (int (ps_trimmed ps))) es))
      else
        (let scope = currentSegmentScope ps;
             a = buildArchive (backing_lines files ps) (ps_ring ps) (ps_trimmed ps) (ps_echoes ps) (sp_start scope)
         in if sp_archivable scope \<and> 0 < ps_trimmed ps then take (ar_cut a) (ar_events a) else []))"

lemma steps_segments:
  "map (\<lambda>st. (ls_id st, ls_dropped st)) (fst (steps_below chain h run)) =
     map (\<lambda>i. (sg_id (chain ! i), sg_dropped (chain ! i))) (filter (\<lambda>i. sg_reason (chain ! Suc i) \<noteq> Prune) (rev [0..<h]))"
proof (induction h arbitrary: run)
  case (Suc h)
  then show ?case
    using Suc.IH [of False] by (cases "steps_below chain h False") auto
qed simp

definition step_events :: "transcripts \<Rightarrow> string \<times> bool \<Rightarrow> ui_event list" where
  "step_events files = (\<lambda>(i, dropped). if dropped then [] else case files i of None \<Rightarrow> [] | Some ls \<Rightarrow> stampArchiveEvents ls)"

lemma disk_events:
  "j < length (wv_steps w) \<Longrightarrow> space_events files w (Disk_source j)
     = step_events files (map (\<lambda>st. (ls_id st, ls_dropped st)) (wv_steps w) ! j)"
  by (auto simp: space_events_def step_events_def loadStampedTranscript_def Let_def split: option.split)

lemma older_events:
  "concat (map (space_events files (walk_view_of ch ps)) (rev (map Disk_source [0..<length (wv_steps (walk_view_of ch ps))])))
     = older_history ch files (wv_head (walk_view_of ch ps))"
proof -
  define w where "w = walk_view_of ch ps"
  define g where "g = (case wv_head w of Some h \<Rightarrow> h | None \<Rightarrow> [])"
  have st: "wv_steps w = fst (lineageSteps ch g)" by (simp add: w_def g_def walk_view_of_def Let_def)
  let ?m = "map (\<lambda>st. (ls_id st, ls_dropped st)) (wv_steps w)"
  have "map (space_events files w) (map Disk_source [0..<length (wv_steps w)]) = map (step_events files) ?m"
    by (rule nth_equalityI) (simp_all add: disk_events)
  then have all: "concat (map (space_events files w) (rev (map Disk_source [0..<length (wv_steps w)])))
      = concat (map (step_events files) (rev ?m))"
    by (metis rev_map)
  show ?thesis
  proof (cases "findIndex (\<lambda>s. sg_id s = g) ch")
    case None
    then have "?m = []" by (simp add: st lineageSteps_def)
    with None all show ?thesis unfolding older_history_def w_def [symmetric] g_def [symmetric] by simp
  next
    case (Some h)
    then have "?m = map (\<lambda>i. (sg_id (ch ! i), sg_dropped (ch ! i))) (filter (\<lambda>i. sg_reason (ch ! Suc i) \<noteq> Prune) (rev [0..<h]))"
      using steps_segments [of ch h False] by (cases "steps_below ch h False") (simp add: st lineageSteps_def)
    then have "map (step_events files) (rev ?m)
        = map (\<lambda>i. transcript_of files (ch ! i)) (filter (\<lambda>i. sg_reason (ch ! Suc i) \<noteq> Prune) [0..<h])"
      by (simp add: rev_map rev_filter step_events_def transcript_of_def o_def)
    with Some all show ?thesis unfolding older_history_def w_def [symmetric] g_def [symmetric] by simp
  qed
qed

lemma lineage_history_is:
  "lineage_history files (walk_view_of ch ps) =
     older_history ch files (wv_head (walk_view_of ch ps)) @ archive_below files (walk_view_of ch ps) @ ps_ring ps"
proof -
  define w where "w = walk_view_of ch ps"
  have wp: "wv_ps w = ps" by (simp add: w_def walk_view_of_def Let_def)
  have "space_events files w Live_source = (if wv_viewable w then [] else archive_below files w) @ ps_ring ps"
    using Live_is_the_ring [of ch ps] unfolding w_def [symmetric]
    by (simp add: space_events_def wp archive_below_def servable_def Let_def)
  moreover have "wv_viewable w \<Longrightarrow> space_events files w View_source = archive_below files w"
    by (simp add: space_events_def archive_below_def Let_def)
  ultimately show ?thesis
    using older_events [of files ch ps] unfolding w_def [symmetric]
    by (simp add: lineage_history_def sources_def older_def Let_def)
qed

text \<open>
  C18. A client that scrolls back through a session, following the segment and the cursor of each page,
  is never refused, is told to stop, and has then been served, each event once and in order: the
  transcripts of the older segments, oldest first; what the archive of the segment the ring begins in
  holds below its cut; and the whole retained ring.  The older segments are those the record lists
  before the one the ring begins in, without a prune's original, those dropped and those whose file is gone;
  there are none when the record does not list that segment.  An event that has left the ring is
  served from the archive or not at all.  (The record lists no segment twice; ring, record and files
  do not change while the client scrolls.)
\<close>

theorem lineage_walk_serves_every_segment:
  fixes vs cap env seams backing echoes ch files limit
  defines "ps \<equiv> session_source vs cap env seams backing echoes"
  defines "w \<equiv> walk_view_of ch ps"
  assumes "distinct (map sg_id ch)"
  shows "\<exists>n rs. follow_lineage (\<lambda>seg c. pageLineageEvents ch files ps seg c limit) n None None = Some rs \<and>
    concat (map shown rs) = older_history ch files (wv_head w) @ archive_below files w @ ps_ring ps"
proof -
  have "\<And>seg c. pageLineageEvents ch files ps seg c limit = (case source_for w seg of Inl e \<Rightarrow> Inl e
      | Inr s \<Rightarrow> walk_passes files w limit (length (wv_steps w) + 3) s c)"
    by (simp only: pageLineageEvents_def w_def Let_def)
  then have "\<exists>rs. follow_lineage (\<lambda>seg c. pageLineageEvents ch files ps seg c limit)
      (length (lineage_history files w) + length (sources w)) None None = Some rs \<and>
    concat (map shown rs) = lineage_history files w"
    unfolding lineage_history_def w_def ps_def by (rule session_walk.all_drained [OF assms(3)])
  then show ?thesis unfolding w_def lineage_history_is by blast
qed

text \<open>
  A session renewed twice and pruned once: its ring has outlived the first renewal's content, and the
  prune's original is not served a second time.
\<close>

definition chain_demo :: "segment list" where
  "chain_demo = map (\<lambda>(i, r, d). \<lparr>sg_id = i, sg_reason = r, sg_at = ''t'', sg_dropped = d, sg_temp = False, sg_archived = False\<rparr>)
     [(''a'', Initial, False), (''b'', Renew, False), (''c'', Prune, False), (''d'', Renew, True), (''e'', Renew, False)]"

definition files_demo :: transcripts where
  "files_demo i = (if i = ''a'' then Some [[plain_ev User_echo], [plain_ev Turn_end]]
     else if i = ''b'' \<or> i = ''c'' then Some [[plain_ev User_echo]] else None)"

definition source_demo :: pager_source where
  "source_demo = session_source [plain_ev User_echo] None None [(''e'', 0)] (Some ''e'') 1"

lemma history_demo:
  "map (\<lambda>e. (ev_kind e, ev_seq e)) (older_history chain_demo files_demo (wv_head (walk_view_of chain_demo source_demo))
     @ archive_below files_demo (walk_view_of chain_demo source_demo) @ ps_ring source_demo)
   = [(User_echo, Some 0), (Turn_end, Some 1), (User_echo, Some 0), (User_echo, Some 0)]"
  by code_simp

theorem lineage_walk_serves_every_segment_witness:
  "\<exists>n rs. follow_lineage (\<lambda>seg c. pageLineageEvents chain_demo files_demo source_demo seg c None) n None None = Some rs \<and>
    map (\<lambda>e. (ev_kind e, ev_seq e)) (concat (map shown rs))
      = [(User_echo, Some 0), (Turn_end, Some 1), (User_echo, Some 0), (User_echo, Some 0)]"
proof -
  have "distinct (map sg_id chain_demo)" by (simp add: chain_demo_def)
  from lineage_walk_serves_every_segment [OF this, of files_demo "[plain_ev User_echo]" None None "[(''e'', 0)]" "Some ''e''" 1 None,
      folded source_demo_def]
  obtain n rs where "follow_lineage (\<lambda>seg c. pageLineageEvents chain_demo files_demo source_demo seg c None) n None None = Some rs"
    "concat (map shown rs) = older_history chain_demo files_demo (wv_head (walk_view_of chain_demo source_demo))
       @ archive_below files_demo (walk_view_of chain_demo source_demo) @ ps_ring source_demo" by blast
  with history_demo show ?thesis by (intro exI conjI) (assumption, simp only:)
qed

lemma demo_walk_keeps_the_prune_copy:
  "map (\<lambda>e. (ev_kind e, ev_seq e)) (lineage_history files_demo (walk_view_of chain_demo
     (session_source [plain_ev User_echo] None None [(''e'', 0)] (Some ''e'') 1)))
   = [(User_echo, Some 0), (Turn_end, Some 1), (User_echo, Some 0), (User_echo, Some 0)]"
  by code_simp

lemma demo_walk_marks_the_tombstone:
  "map ls_id (wv_steps (walk_view_of chain_demo (session_source [] None None [(''e'', 0)] (Some ''e'') 0))) = [''d'', ''c'', ''a'']"
  by code_simp

end
