(* ===== verification/StoreLock.thy ===== *)
theory StoreLock
  imports Prelude
begin

text \<open>
  The cross-process lock behind the session store, \<open>src/storeLock.ts\<close>: a lockfile created exclusively,
  reclaimed from a dead owner under a second lockfile, the marker, and released by its token.  A
  file-system call is one step, and the steps of any number of calls in any number of processes
  interleave.  A process is its pid, and a dead pid stays dead; the wait between attempts takes no
  time here, so an attempt may come at any moment.
\<close>

subsection \<open>Lockfiles\<close>

text \<open>
  What a lockfile holds: nothing yet, after an exclusive create in place whose creator has not
  written; a record; or text that is no record with a pid.
\<close>

datatype lock_raw = Unwritten nat | Lock_record nat nat | Unusable

type_synonym lockfile = "lock_raw option"

fun parseLockRecord :: "lock_raw \<Rightarrow> (nat \<times> nat) option" where
  "parseLockRecord (Lock_record pid token) = Some (pid, token)"
| "parseLockRecord _ = None"

definition ownsLock :: "lock_raw \<Rightarrow> nat \<Rightarrow> bool" where
  "ownsLock raw token \<longleftrightarrow> map_option snd (parseLockRecord raw) = Some token"

definition isProcessAlive :: "nat list \<Rightarrow> nat \<Rightarrow> bool" where
  "isProcessAlive dead pid \<longleftrightarrow> pid \<notin> set dead"

definition dead_owner :: "nat list \<Rightarrow> lock_raw \<Rightarrow> bool" where
  "dead_owner dead raw \<longleftrightarrow> (case parseLockRecord raw of Some (pid, _) \<Rightarrow> \<not> isProcessAlive dead pid | None \<Rightarrow> False)"

datatype create_mode = Link_mode | Open_mode

subsection \<open>Whether a directory has hard links\<close>

text \<open>How one probe went: its file could not be written, or the link call answered, its source there or swept.\<close>

datatype probe_outcome = Probe_write_failed "string option" | Linked | Link_failed "string option" bool

datatype probe_failure = Write_step "string option" | Link_step "string option"

definition NO_LINKS :: "string list" where
  "NO_LINKS = [''EPERM'', ''ENOTSUP'', ''EOPNOTSUPP'', ''ENOSYS'']"

definition PROBE_RETRIES :: nat where "PROBE_RETRIES = 3"

fun probeLinks :: "nat \<Rightarrow> (nat \<Rightarrow> probe_outcome) \<Rightarrow> nat \<Rightarrow> probe_failure + create_mode" where
  "probeLinks left try attempt =
     (case try attempt of
        Probe_write_failed c \<Rightarrow> Inl (Write_step c)
      | Linked \<Rightarrow> Inr Link_mode
      | Link_failed code there \<Rightarrow>
          if \<exists>c \<in> set NO_LINKS. code = Some c then Inr Open_mode
          else if code = Some ''EXDEV'' then Inr Open_mode
          else if code = Some ''ENOENT'' \<and> \<not> there \<and> 0 < left then probeLinks (left - 1) try (Suc attempt)
          else Inl (Link_step code))"

definition probe_dir :: "(nat \<Rightarrow> probe_outcome) \<Rightarrow> probe_failure + create_mode" where
  "probe_dir try = probeLinks PROBE_RETRIES try 0"

text \<open>The mode is found once per directory and cached; a failed probe caches nothing.\<close>

definition createModeFor :: "string \<Rightarrow> (nat \<Rightarrow> probe_outcome) \<Rightarrow> (string, create_mode) jmap \<Rightarrow> (probe_failure + create_mode) \<times> (string, create_mode) jmap" where
  "createModeFor dir try known =
     (case map_of known dir of
        Some m \<Rightarrow> (Inr m, known)
      | None \<Rightarrow> (case probe_dir try of Inl e \<Rightarrow> (Inl e, known) | Inr m \<Rightarrow> (Inr m, jput dir m known)))"

subsection \<open>One call of withLock\<close>

text \<open>
  Where a call stands, with the attempts it has made and its token; while reclaiming also the record
  it judged dead and the token of its marker.
\<close>

datatype call_at =
    Not_begun
  | Creating nat nat
  | Filling nat nat
  | Found_taken nat nat
  | Judged_dead nat nat lock_raw
  | Marker_filling nat nat lock_raw nat
  | Marker_taken nat nat
  | Marker_stale nat nat lock_raw
  | Marker_clearing nat nat
  | Reclaiming nat nat lock_raw nat
  | Unlinking nat nat lock_raw nat
  | Dropping nat nat nat
  | Drop_unlink nat nat nat
  | Inside nat
  | Leaving nat
  | Leave_unlink nat
  | Returned
  | Rejected

record lock_dir_state =
  sl_lock :: lockfile
  sl_marker :: lockfile
  sl_next :: nat
  sl_dead :: "nat list"

text \<open>Whether the file-system call a step makes succeeds.\<close>

datatype fs_result = Fs_ok | Fs_error

text \<open>A failed attempt: the next one, or the error after the last.\<close>

definition try_again :: "nat \<Rightarrow> nat \<Rightarrow> nat \<Rightarrow> call_at" where
  "try_again retryMax n tok = (if retryMax \<le> n then Rejected else Creating (Suc n) tok)"

text \<open>After a reclaim the next attempt follows at once, and a reclaim on the last attempt falls out of the loop.\<close>

definition after_reclaim :: "nat \<Rightarrow> nat \<Rightarrow> nat \<Rightarrow> call_at" where
  "after_reclaim retryMax n tok = (if Suc n \<le> retryMax then Creating (Suc n) tok else Rejected)"

definition create_step :: "create_mode \<Rightarrow> nat \<Rightarrow> nat \<Rightarrow> lockfile \<Rightarrow> call_at \<Rightarrow> call_at \<Rightarrow> call_at \<Rightarrow> call_at \<times> lockfile" where
  "create_step mode pid tok file made started taken =
     (case file of
        Some raw \<Rightarrow> (taken, file)
      | None \<Rightarrow> (case mode of
            Link_mode \<Rightarrow> (made, Some (Lock_record pid tok))
          | Open_mode \<Rightarrow> (started, Some (Unwritten tok))))"

text \<open>
  The write after an exclusive create goes to the file that was created; when it fails the path is
  removed.
\<close>

definition fill_step :: "fs_result \<Rightarrow> nat \<Rightarrow> nat \<Rightarrow> lockfile \<Rightarrow> call_at \<Rightarrow> call_at \<times> lockfile" where
  "fill_step r pid tok file made =
     (case r of
        Fs_ok \<Rightarrow> (made, if file = Some (Unwritten tok) then Some (Lock_record pid tok) else file)
      | Fs_error \<Rightarrow> (Rejected, None))"

definition readOrNull :: "fs_result \<Rightarrow> lockfile \<Rightarrow> lockfile" where
  "readOrNull r file = (case r of Fs_ok \<Rightarrow> file | Fs_error \<Rightarrow> None)"

definition unlink_file :: "fs_result \<Rightarrow> lockfile \<Rightarrow> lockfile" where
  "unlink_file r file = (case r of Fs_ok \<Rightarrow> None | Fs_error \<Rightarrow> file)"

definition acquire_step :: "create_mode \<Rightarrow> nat \<Rightarrow> fs_result \<Rightarrow> nat \<Rightarrow> call_at \<Rightarrow> lock_dir_state \<Rightarrow> call_at \<times> lock_dir_state" where
  "acquire_step mode retryMax r pid c w =
     (case c of
        Not_begun \<Rightarrow> (Creating 0 (sl_next w), w\<lparr>sl_next := Suc (sl_next w)\<rparr>)
      | Creating n tok \<Rightarrow>
          (case r of
             Fs_error \<Rightarrow> (Rejected, w)
           | Fs_ok \<Rightarrow> (case create_step mode pid tok (sl_lock w) (Inside tok) (Filling n tok) (Found_taken n tok) of
               (c', f) \<Rightarrow> (c', w\<lparr>sl_lock := f\<rparr>)))
      | Filling n tok \<Rightarrow> (case fill_step r pid tok (sl_lock w) (Inside tok) of (c', f) \<Rightarrow> (c', w\<lparr>sl_lock := f\<rparr>))
      | Found_taken n tok \<Rightarrow>
          (case readOrNull r (sl_lock w) of
             Some raw \<Rightarrow> (if dead_owner (sl_dead w) raw then Judged_dead n tok raw else try_again retryMax n tok, w)
           | None \<Rightarrow> (try_again retryMax n tok, w))
      | _ \<Rightarrow> (c, w))"

text \<open>\<open>reclaimDeadOwner\<close>, from the marker's creation to its release.\<close>

definition reclaim_step :: "create_mode \<Rightarrow> nat \<Rightarrow> fs_result \<Rightarrow> nat \<Rightarrow> call_at \<Rightarrow> lock_dir_state \<Rightarrow> call_at \<times> lock_dir_state" where
  "reclaim_step mode retryMax r pid c w =
     (case c of
        Judged_dead n tok raw \<Rightarrow>
          (let mtok = sl_next w; w' = w\<lparr>sl_next := Suc mtok\<rparr> in
           case r of
             Fs_error \<Rightarrow> (Rejected, w')
           | Fs_ok \<Rightarrow> (case create_step mode pid mtok (sl_marker w) (Reclaiming n tok raw mtok)
                         (Marker_filling n tok raw mtok) (Marker_taken n tok) of
               (c', f) \<Rightarrow> (c', w'\<lparr>sl_marker := f\<rparr>)))
      | Marker_filling n tok raw mtok \<Rightarrow>
          (case fill_step r pid mtok (sl_marker w) (Reclaiming n tok raw mtok) of (c', f) \<Rightarrow> (c', w\<lparr>sl_marker := f\<rparr>))
      | Marker_taken n tok \<Rightarrow>
          (case readOrNull r (sl_marker w) of
             Some raw \<Rightarrow> (if dead_owner (sl_dead w) raw then Marker_stale n tok raw else try_again retryMax n tok, w)
           | None \<Rightarrow> (try_again retryMax n tok, w))
      | Marker_stale n tok raw \<Rightarrow>
          (if readOrNull r (sl_marker w) = Some raw then Marker_clearing n tok else try_again retryMax n tok, w)
      | Marker_clearing n tok \<Rightarrow> (try_again retryMax n tok, w\<lparr>sl_marker := unlink_file r (sl_marker w)\<rparr>)
      | Reclaiming n tok raw mtok \<Rightarrow>
          (if readOrNull r (sl_lock w) = Some raw then Unlinking n tok raw mtok else Dropping n tok mtok, w)
      | Unlinking n tok raw mtok \<Rightarrow> (Dropping n tok mtok, w\<lparr>sl_lock := unlink_file r (sl_lock w)\<rparr>)
      | Dropping n tok mtok \<Rightarrow>
          (case readOrNull r (sl_marker w) of
             Some raw \<Rightarrow> (if ownsLock raw mtok then Drop_unlink n tok mtok else after_reclaim retryMax n tok, w)
           | None \<Rightarrow> (after_reclaim retryMax n tok, w))
      | Drop_unlink n tok mtok \<Rightarrow> (after_reclaim retryMax n tok, w\<lparr>sl_marker := unlink_file r (sl_marker w)\<rparr>)
      | _ \<Rightarrow> (c, w))"

text \<open>The critical section ends, returning or throwing, and the lock is released.\<close>

definition release_step :: "fs_result \<Rightarrow> call_at \<Rightarrow> lock_dir_state \<Rightarrow> call_at \<times> lock_dir_state" where
  "release_step r c w =
     (case c of
        Inside tok \<Rightarrow> (Leaving tok, w)
      | Leaving tok \<Rightarrow>
          (case readOrNull r (sl_lock w) of
             Some raw \<Rightarrow> (if ownsLock raw tok then Leave_unlink tok else Returned, w)
           | None \<Rightarrow> (Returned, w))
      | Leave_unlink tok \<Rightarrow> (Returned, w\<lparr>sl_lock := unlink_file r (sl_lock w)\<rparr>)
      | _ \<Rightarrow> (c, w))"

definition lock_call_step :: "create_mode \<Rightarrow> nat \<Rightarrow> fs_result \<Rightarrow> nat \<Rightarrow> call_at \<Rightarrow> lock_dir_state \<Rightarrow> call_at \<times> lock_dir_state" where
  "lock_call_step mode retryMax r pid c w =
     (case c of
        Not_begun \<Rightarrow> acquire_step mode retryMax r pid c w
      | Creating _ _ \<Rightarrow> acquire_step mode retryMax r pid c w
      | Filling _ _ \<Rightarrow> acquire_step mode retryMax r pid c w
      | Found_taken _ _ \<Rightarrow> acquire_step mode retryMax r pid c w
      | Inside _ \<Rightarrow> release_step r c w
      | Leaving _ \<Rightarrow> release_step r c w
      | Leave_unlink _ \<Rightarrow> release_step r c w
      | _ \<Rightarrow> reclaim_step mode retryMax r pid c w)"

subsection \<open>Processes and their calls\<close>

text \<open>The calls of a machine, each with the pid of its process.\<close>

record lock_machine =
  sm_dir :: lock_dir_state
  sm_calls :: "(nat \<times> call_at) list"

definition act_call :: "create_mode \<Rightarrow> nat \<Rightarrow> fs_result \<Rightarrow> nat \<Rightarrow> lock_machine \<Rightarrow> lock_machine" where
  "act_call mode retryMax r i m =
     (case sm_calls m ! i of (pid, c) \<Rightarrow>
       (case lock_call_step mode retryMax r pid c (sm_dir m) of (c', w') \<Rightarrow>
         m\<lparr>sm_dir := w', sm_calls := (sm_calls m)[i := (pid, c')]\<rparr>))"

definition kill_process :: "nat \<Rightarrow> lock_machine \<Rightarrow> lock_machine" where
  "kill_process pid m = m\<lparr>sm_dir := (sm_dir m)\<lparr>sl_dead := pid # sl_dead (sm_dir m)\<rparr>\<rparr>"

definition live_call :: "lock_machine \<Rightarrow> nat \<Rightarrow> bool" where
  "live_call m i \<longleftrightarrow> i < length (sm_calls m) \<and> isProcessAlive (sl_dead (sm_dir m)) (fst (sm_calls m ! i))"

inductive lock_step :: "create_mode \<Rightarrow> nat \<Rightarrow> lock_machine \<Rightarrow> lock_machine \<Rightarrow> bool" for mode retryMax where
  acts: "live_call m i \<Longrightarrow> lock_step mode retryMax m (act_call mode retryMax r i m)"
| dies: "lock_step mode retryMax m (kill_process pid m)"

text \<open>
  A machine before any call has begun: nothing at the lock path, or a record or rubbish some earlier
  process left there, and no marker.
\<close>

definition idle_machine :: "lockfile \<Rightarrow> nat list \<Rightarrow> nat list \<Rightarrow> lock_machine" where
  "idle_machine left dead pids =
     \<lparr>sm_dir = \<lparr>sl_lock = left, sl_marker = None, sl_next = (case left of Some (Lock_record _ t) \<Rightarrow> Suc t | Some (Unwritten t) \<Rightarrow> Suc t | _ \<Rightarrow> 0),
        sl_dead = dead\<rparr>,
      sm_calls = map (\<lambda>p. (p, Not_begun)) pids\<rparr>"

definition in_section :: "lock_machine \<Rightarrow> nat \<Rightarrow> bool" where
  "in_section m i \<longleftrightarrow> live_call m i \<and> (case snd (sm_calls m ! i) of Inside _ \<Rightarrow> True | _ \<Rightarrow> False)"

end
