(* ===== verification/StoreLockSafety.thy ===== *)
theory StoreLockSafety
  imports StoreLock
begin

text \<open>
  Mutual exclusion of \<open>withLock\<close>, as long as no process dies while a marker of its stands, and the two
  holders one such death can make; every call returns or throws within its attempts.
\<close>

subsection \<open>What a call at each point knows\<close>

fun tokens :: "call_at \<Rightarrow> nat set" where
  "tokens (Creating n t) = {t}"
| "tokens (Filling n t) = {t}"
| "tokens (Found_taken n t) = {t}"
| "tokens (Judged_dead n t raw) = {t}"
| "tokens (Marker_filling n t raw k) = {t, k}"
| "tokens (Marker_taken n t) = {t}"
| "tokens (Marker_stale n t raw) = {t}"
| "tokens (Marker_clearing n t) = {t}"
| "tokens (Reclaiming n t raw k) = {t, k}"
| "tokens (Unlinking n t raw k) = {t, k}"
| "tokens (Dropping n t k) = {t, k}"
| "tokens (Drop_unlink n t k) = {t, k}"
| "tokens (Inside t) = {t}"
| "tokens (Leaving t) = {t}"
| "tokens (Leave_unlink t) = {t}"
| "tokens _ = {}"

fun call_fits :: "lock_dir_state \<Rightarrow> nat \<Rightarrow> call_at \<Rightarrow> bool" where
  "call_fits d p (Filling n t) = (sl_lock d = Some (Unwritten t))"
| "call_fits d p (Judged_dead n t raw) = dead_owner (sl_dead d) raw"
| "call_fits d p (Marker_filling n t raw k) = (dead_owner (sl_dead d) raw \<and> sl_marker d = Some (Unwritten k))"
| "call_fits d p (Marker_stale n t raw) = False"
| "call_fits d p (Marker_clearing n t) = False"
| "call_fits d p (Reclaiming n t raw k) = (dead_owner (sl_dead d) raw \<and> sl_marker d = Some (Lock_record p k))"
| "call_fits d p (Unlinking n t raw k) =
     (dead_owner (sl_dead d) raw \<and> sl_marker d = Some (Lock_record p k) \<and> sl_lock d = Some raw)"
| "call_fits d p (Dropping n t k) = (sl_marker d = Some (Lock_record p k))"
| "call_fits d p (Drop_unlink n t k) = (sl_marker d = Some (Lock_record p k))"
| "call_fits d p (Inside t) = (sl_lock d = Some (Lock_record p t))"
| "call_fits d p (Leaving t) = (sl_lock d = Some (Lock_record p t))"
| "call_fits d p (Leave_unlink t) = (sl_lock d = Some (Lock_record p t))"
| "call_fits d p _ = True"

text \<open>No dead process has a marker standing.\<close>

definition marker_live :: "lock_dir_state \<Rightarrow> bool" where
  "marker_live d \<longleftrightarrow> (\<forall>raw. sl_marker d = Some raw \<longrightarrow> \<not> dead_owner (sl_dead d) raw)"

text \<open>A step changes a lockfile only where it is free, where it is the call's own, or a dead owner's under the call's marker.\<close>

definition own_file :: "nat \<Rightarrow> nat set \<Rightarrow> lockfile \<Rightarrow> bool" where
  "own_file p ts f \<longleftrightarrow> (\<exists>t \<in> ts. f = Some (Unwritten t) \<or> f = Some (Lock_record p t))"

definition fair_move :: "nat \<Rightarrow> nat set \<Rightarrow> lock_dir_state \<Rightarrow> lock_dir_state \<Rightarrow> bool" where
  "fair_move p ts d d' \<longleftrightarrow> sl_dead d' = sl_dead d \<and>
     (sl_lock d' = sl_lock d \<or> sl_lock d = None \<or> own_file p ts (sl_lock d) \<or>
       (\<exists>raw. sl_lock d = Some raw \<and> dead_owner (sl_dead d) raw) \<and> own_file p ts (sl_marker d)) \<and>
     (sl_marker d' = sl_marker d \<or> sl_marker d = None \<or> own_file p ts (sl_marker d))"

lemmas lock_step_defs = lock_call_step_def acquire_step_def reclaim_step_def release_step_def create_step_def fill_step_def
  readOrNull_def unlink_file_def try_again_def after_reclaim_def Let_def

lemmas file_defs = dead_owner_def isProcessAlive_def ownsLock_def

lemma call_step_fair:
  assumes "lock_call_step mode retryMax r p c d = (c', d')" "call_fits d p c" "p \<notin> set (sl_dead d)"
  shows "fair_move p (tokens c) d d'"
  using assms by (cases c) (auto simp: lock_step_defs fair_move_def own_file_def split: option.splits fs_result.splits create_mode.splits if_splits)

lemma call_step_fits:
  assumes "lock_call_step mode retryMax r p c d = (c', d')" "call_fits d p c" "p \<notin> set (sl_dead d)" "marker_live d"
  shows "call_fits d' p c'" "marker_live d'"
  using assms by (cases c; auto simp: lock_step_defs file_defs marker_live_def split: option.splits fs_result.splits create_mode.splits if_splits)+

lemma call_step_tokens:
  assumes "lock_call_step mode retryMax r p c d = (c', d')"
  shows "tokens c' \<subseteq> tokens c \<union> {sl_next d ..< sl_next d'}" "sl_next d \<le> sl_next d'"
  using assms by (cases c; auto simp: lock_step_defs split: option.splits fs_result.splits create_mode.splits if_splits)+

lemma other_call_fits:
  assumes "fair_move p ts d d'" "call_fits d q c" "q \<notin> set (sl_dead d)" "p \<notin> set (sl_dead d)" "ts \<inter> tokens c = {}"
  shows "call_fits d' q c"
  using assms by (cases c) (auto simp: fair_move_def own_file_def file_defs)

subsection \<open>The machine\<close>

definition machine_ok :: "lock_machine \<Rightarrow> bool" where
  "machine_ok m \<longleftrightarrow> marker_live (sm_dir m) \<and>
     (\<forall>i. live_call m i \<longrightarrow> call_fits (sm_dir m) (fst (sm_calls m ! i)) (snd (sm_calls m ! i))) \<and>
     (\<forall>i < length (sm_calls m). tokens (snd (sm_calls m ! i)) \<subseteq> {..< sl_next (sm_dir m)}) \<and>
     (\<forall>i < length (sm_calls m). \<forall>j < length (sm_calls m). i \<noteq> j \<longrightarrow>
        tokens (snd (sm_calls m ! i)) \<inter> tokens (snd (sm_calls m ! j)) = {})"

lemma idle_machine_ok: "machine_ok (idle_machine left dead pids)"
  by (auto simp: machine_ok_def idle_machine_def marker_live_def live_call_def)

lemma act_call_ok:
  assumes m: "machine_ok m" and i: "live_call m i"
  shows "machine_ok (act_call mode retryMax r i m)"
proof -
  obtain p c where c: "sm_calls m ! i = (p, c)" by fastforce
  obtain c' d' where st: "lock_call_step mode retryMax r p c (sm_dir m) = (c', d')" by fastforce
  define m' where "m' = m\<lparr>sm_dir := d', sm_calls := (sm_calls m)[i := (p, c')]\<rparr>"
  have act: "act_call mode retryMax r i m = m'" by (simp add: act_call_def c st m'_def)
  have il: "i < length (sm_calls m)" and pd: "p \<notin> set (sl_dead (sm_dir m))"
    using i by (simp_all add: live_call_def isProcessAlive_def c)
  have fit: "call_fits (sm_dir m) p c" and ml: "marker_live (sm_dir m)" using m i by (auto simp: machine_ok_def c)
  note new = call_step_fits [OF st fit pd ml] and fair = call_step_fair [OF st fit pd] and tk = call_step_tokens [OF st]
  have dead: "sl_dead d' = sl_dead (sm_dir m)" using fair by (simp add: fair_move_def)
  have old: "tokens (snd (sm_calls m ! j)) \<subseteq> {..< sl_next (sm_dir m)}" if "j < length (sm_calls m)" for j
    using m that by (simp add: machine_ok_def)
  have apart: "tokens c' \<inter> tokens (snd (sm_calls m ! j)) = {}" if "j < length (sm_calls m)" "j \<noteq> i" for j
  proof -
    have "tokens c \<inter> tokens (snd (sm_calls m ! j)) = {}" using m il that by (force simp: machine_ok_def c dest: spec [of _ i])
    with tk(1) old [OF that(1)] show ?thesis by fastforce
  qed
  have calls: "sm_calls m' ! j = (if j = i then (p, c') else sm_calls m ! j)" if "j < length (sm_calls m)" for j
    using that by (simp add: m'_def)
  show ?thesis
    unfolding act machine_ok_def
  proof (intro conjI allI impI)
    show "marker_live (sm_dir m')" using new(2) by (simp add: m'_def)
  next
    fix j assume "live_call m' j"
    then have j: "j < length (sm_calls m)" "live_call m j"
      using c il by (auto simp: live_call_def m'_def dead nth_list_update isProcessAlive_def split: if_splits)
    show "call_fits (sm_dir m') (fst (sm_calls m' ! j)) (snd (sm_calls m' ! j))"
    proof (cases "j = i")
      case True
      then show ?thesis using new(1) j by (simp add: calls) (simp add: m'_def)
    next
      case False
      have "call_fits (sm_dir m) (fst (sm_calls m ! j)) (snd (sm_calls m ! j))" using m j by (simp add: machine_ok_def)
      moreover have "fst (sm_calls m ! j) \<notin> set (sl_dead (sm_dir m))" using j by (simp add: live_call_def isProcessAlive_def)
      moreover have "tokens c \<inter> tokens (snd (sm_calls m ! j)) = {}"
        using m il j(1) False by (force simp: machine_ok_def c dest: spec [of _ i])
      ultimately have "call_fits d' (fst (sm_calls m ! j)) (snd (sm_calls m ! j))"
        by (rule other_call_fits [OF fair _ _ pd])
      with False j show ?thesis by (simp add: calls) (simp add: m'_def)
    qed
  next
    fix j assume "j < length (sm_calls m')"
    then have j: "j < length (sm_calls m)" by (simp add: m'_def)
    have "sl_next (sm_dir m') = sl_next d'" by (simp add: m'_def)
    moreover have "tokens c' \<subseteq> {..< sl_next d'}" using tk old [OF il] c by fastforce
    moreover have "tokens (snd (sm_calls m ! j)) \<subseteq> {..< sl_next d'}" using old [OF j] tk(2) by fastforce
    ultimately show "tokens (snd (sm_calls m' ! j)) \<subseteq> {..< sl_next (sm_dir m')}" using j by (simp add: calls)
  next
    fix j k assume "j < length (sm_calls m')" "k < length (sm_calls m')" and ne: "j \<noteq> k"
    then have jk: "j < length (sm_calls m)" "k < length (sm_calls m)" by (simp_all add: m'_def)
    have "tokens (snd (sm_calls m ! j)) \<inter> tokens (snd (sm_calls m ! k)) = {}" using m jk ne by (simp add: machine_ok_def)
    with apart [OF jk(1)] apart [OF jk(2)] ne jk show "tokens (snd (sm_calls m' ! j)) \<inter> tokens (snd (sm_calls m' ! k)) = {}"
      by (auto simp: calls)
  qed
qed

lemma dies_fits:
  assumes "call_fits d p c"
  shows "call_fits (d\<lparr>sl_dead := q # sl_dead d\<rparr>) p c"
  using assms by (cases c) (auto simp: file_defs split: option.splits)

lemma kill_ok:
  assumes m: "machine_ok m" and q: "\<And>t. sl_marker (sm_dir m) \<noteq> Some (Lock_record q t)"
  shows "machine_ok (kill_process q m)"
proof -
  have "marker_live (sm_dir (kill_process q m))"
    unfolding marker_live_def
  proof (intro allI impI)
    fix raw assume "sl_marker (sm_dir (kill_process q m)) = Some raw"
    then have raw: "sl_marker (sm_dir m) = Some raw" by (simp add: kill_process_def)
    with m have "\<not> dead_owner (sl_dead (sm_dir m)) raw" by (simp add: machine_ok_def marker_live_def)
    with q raw show "\<not> dead_owner (sl_dead (sm_dir (kill_process q m))) raw"
      by (cases raw) (auto simp: file_defs kill_process_def)
  qed
  moreover have "call_fits (sm_dir (kill_process q m)) (fst (sm_calls (kill_process q m) ! i)) (snd (sm_calls (kill_process q m) ! i))"
    if "live_call (kill_process q m) i" for i
  proof -
    have "live_call m i" using that by (simp add: live_call_def kill_process_def isProcessAlive_def)
    then have "call_fits (sm_dir m) (fst (sm_calls m ! i)) (snd (sm_calls m ! i))" using m by (simp add: machine_ok_def)
    from dies_fits [OF this, of q] show ?thesis by (simp add: kill_process_def)
  qed
  ultimately show ?thesis using m by (simp add: machine_ok_def kill_process_def)
qed

text \<open>The runs in which no process dies while a marker of its stands.\<close>

inductive tidy_run :: "create_mode \<Rightarrow> nat \<Rightarrow> lock_machine \<Rightarrow> bool" for mode retryMax where
  start: "tidy_run mode retryMax (idle_machine left dead pids)"
| acts: "tidy_run mode retryMax m \<Longrightarrow> live_call m i \<Longrightarrow> tidy_run mode retryMax (act_call mode retryMax r i m)"
| dies: "tidy_run mode retryMax m \<Longrightarrow> (\<And>t. sl_marker (sm_dir m) \<noteq> Some (Lock_record q t)) \<Longrightarrow> tidy_run mode retryMax (kill_process q m)"

lemma tidy_run_ok: "tidy_run mode retryMax m \<Longrightarrow> machine_ok m"
  by (induction rule: tidy_run.induct) (auto intro: idle_machine_ok act_call_ok kill_ok)

lemma tidy_run_steps: "tidy_run mode retryMax m \<Longrightarrow> \<exists>left dead pids. (lock_step mode retryMax)\<^sup>*\<^sup>* (idle_machine left dead pids) m"
  by (induction rule: tidy_run.induct) (blast intro: lock_step.intros rtranclp.rtrancl_into_rtrancl)+

text \<open>
  C8. Mutual exclusion of \<open>withLock\<close>: whatever the interleaving of any number of calls in any number of
  processes, whichever file-system calls fail, and whichever processes die, as long as none dies while a
  marker of its stands, at most one live call runs its critical section, and while it does the lockfile
  holds that call's own record.
\<close>

theorem one_call_in_the_section:
  assumes "tidy_run mode retryMax m" "in_section m i"
  shows "(\<exists>t. snd (sm_calls m ! i) = Inside t \<and> sl_lock (sm_dir m) = Some (Lock_record (fst (sm_calls m ! i)) t)) \<and>
    (\<forall>j. in_section m j \<longrightarrow> j = i)"
proof -
  have ok: "machine_ok m" by (rule tidy_run_ok [OF assms(1)])
  have inside: "\<exists>t. snd (sm_calls m ! k) = Inside t \<and> sl_lock (sm_dir m) = Some (Lock_record (fst (sm_calls m ! k)) t)"
    if "in_section m k" for k
    using that ok by (auto simp: in_section_def machine_ok_def split: call_at.splits)
  have "j = i" if j: "in_section m j" for j
  proof (rule ccontr)
    assume "j \<noteq> i"
    moreover have "j < length (sm_calls m)" "i < length (sm_calls m)" using j assms(2) by (simp_all add: in_section_def live_call_def)
    ultimately have "tokens (snd (sm_calls m ! i)) \<inter> tokens (snd (sm_calls m ! j)) = {}" using ok by (simp add: machine_ok_def)
    with inside [OF j] inside [OF assms(2)] show False by auto
  qed
  with inside [OF assms(2)] show ?thesis by blast
qed

subsection \<open>Runs as lists of events\<close>

datatype lock_event = Does nat fs_result | Dies nat

definition lock_event_step :: "create_mode \<Rightarrow> nat \<Rightarrow> lock_event \<Rightarrow> lock_machine \<Rightarrow> lock_machine option" where
  "lock_event_step mode retryMax e m =
     (case e of
        Does i r \<Rightarrow> if live_call m i then Some (act_call mode retryMax r i m) else None
      | Dies p \<Rightarrow> Some (kill_process p m))"

fun play :: "create_mode \<Rightarrow> nat \<Rightarrow> lock_event list \<Rightarrow> lock_machine \<Rightarrow> lock_machine option" where
  "play mode retryMax [] m = Some m"
| "play mode retryMax (e # es) m = Option.bind (lock_event_step mode retryMax e m) (play mode retryMax es)"

lemma play_steps:
  "play mode retryMax es m = Some m' \<Longrightarrow> (lock_step mode retryMax)\<^sup>*\<^sup>* m m'"
proof (induction es arbitrary: m)
  case (Cons e es)
  then obtain m1 where m1: "lock_event_step mode retryMax e m = Some m1" "play mode retryMax es m1 = Some m'"
    by (auto simp: Option.bind_eq_Some_conv)
  have "lock_step mode retryMax m m1"
    using m1(1) by (auto simp: lock_event_step_def intro: lock_step.intros split: lock_event.splits if_splits)
  from converse_rtranclp_into_rtranclp [where r = "lock_step mode retryMax", OF this Cons.IH [OF m1(2)]] show ?case .
qed simp

definition steps_of :: "nat \<Rightarrow> nat \<Rightarrow> lock_event list" where
  "steps_of i n = replicate n (Does i Fs_ok)"

lemma play_tidy:
  "play mode retryMax es m = Some m' \<Longrightarrow> tidy_run mode retryMax m \<Longrightarrow> list_all (\<lambda>e. \<exists>i r. e = Does i r) es \<Longrightarrow>
     tidy_run mode retryMax m'"
proof (induction es arbitrary: m)
  case (Cons e es)
  then obtain i r where e: "e = Does i r" "live_call m i" "play mode retryMax es (act_call mode retryMax r i m) = Some m'"
    by (auto simp: lock_event_step_def Option.bind_eq_Some_conv split: if_splits)
  from Cons.IH [OF this(3) tidy_run.acts [OF Cons.prems(2) e(2)]] Cons.prems(3) show ?case by simp
qed simp

text \<open>Two waiters judge the same dead owner; one reclaims its lock and enters, the other finds the new record.\<close>

definition reclaim_run :: "lock_event list" where
  "reclaim_run = steps_of 0 3 @ steps_of 1 3 @ steps_of 0 5 @ steps_of 1 3 @ steps_of 0 1"

theorem one_call_in_the_section_witness:
  "\<exists>m. play Link_mode 25 reclaim_run (idle_machine (Some (Lock_record 9 0)) [9] [1, 2]) = Some m \<and> in_section m 0 \<and>
     (\<forall>j. in_section m j \<longrightarrow> j = 0)"
proof -
  have "case play Link_mode 25 reclaim_run (idle_machine (Some (Lock_record 9 0)) [9] [1, 2]) of
      None \<Rightarrow> False | Some m \<Rightarrow> in_section m 0" by code_simp
  then obtain m where m: "play Link_mode 25 reclaim_run (idle_machine (Some (Lock_record 9 0)) [9] [1, 2]) = Some m" "in_section m 0"
    by (auto split: option.splits)
  have "tidy_run Link_mode 25 m"
    by (rule play_tidy [OF m(1) tidy_run.start]) (auto simp: reclaim_run_def steps_of_def list_all_iff)
  from one_call_in_the_section [OF this m(2)] m show ?thesis by blast
qed

text \<open>
  The condition is needed, as the source says: a reclaimer that dies between creating its marker and
  dropping it leaves a marker two waiters can both find stale; the second to clear it removes the
  first's fresh marker, both pass the comparison with the dead owner's record, and the second
  unlinks the lock the first has taken: two live calls run their critical sections at once.
\<close>

definition orphan_run :: "lock_event list" where
  "orphan_run = steps_of 0 4 @ [Dies 1] @ steps_of 1 6 @ steps_of 2 6 @ steps_of 1 5 @ steps_of 2 5
     @ steps_of 1 3 @ steps_of 2 4"

lemma orphaned_marker_lets_two_in:
  "\<exists>m. (lock_step Link_mode 25)\<^sup>*\<^sup>* (idle_machine (Some (Lock_record 9 0)) [9] [1, 2, 3]) m \<and>
     in_section m 1 \<and> in_section m 2"
proof -
  have "case play Link_mode 25 orphan_run (idle_machine (Some (Lock_record 9 0)) [9] [1, 2, 3]) of
      None \<Rightarrow> False | Some m \<Rightarrow> in_section m 1 \<and> in_section m 2" by code_simp
  then obtain m where "play Link_mode 25 orphan_run (idle_machine (Some (Lock_record 9 0)) [9] [1, 2, 3]) = Some m"
    "in_section m 1" "in_section m 2"
    by (auto split: option.splits)
  then show ?thesis using play_steps by blast
qed

subsection \<open>Every call ends\<close>

text \<open>A bound on the steps a call still makes.\<close>

fun steps_left :: "nat \<Rightarrow> call_at \<Rightarrow> nat" where
  "steps_left k Not_begun = 8 * k + 13"
| "steps_left k (Creating n t) = 8 * (k - n) + 12"
| "steps_left k (Filling n t) = 8 * (k - n) + 4"
| "steps_left k (Found_taken n t) = 8 * (k - n) + 11"
| "steps_left k (Judged_dead n t raw) = 8 * (k - n) + 10"
| "steps_left k (Marker_filling n t raw m) = 8 * (k - n) + 9"
| "steps_left k (Marker_taken n t) = 8 * (k - n) + 9"
| "steps_left k (Marker_stale n t raw) = 8 * (k - n) + 8"
| "steps_left k (Marker_clearing n t) = 8 * (k - n) + 7"
| "steps_left k (Reclaiming n t raw m) = 8 * (k - n) + 8"
| "steps_left k (Unlinking n t raw m) = 8 * (k - n) + 7"
| "steps_left k (Dropping n t m) = 8 * (k - n) + 6"
| "steps_left k (Drop_unlink n t m) = 8 * (k - n) + 5"
| "steps_left k (Inside t) = 3"
| "steps_left k (Leaving t) = 2"
| "steps_left k (Leave_unlink t) = 1"
| "steps_left k _ = 0"

lemma call_step_shrinks:
  assumes "lock_call_step mode retryMax r p c d = (c', d')" "c \<noteq> Returned" "c \<noteq> Rejected"
  shows "steps_left retryMax c' < steps_left retryMax c"
  using assms by (cases c) (auto simp: lock_step_defs split: option.splits fs_result.splits create_mode.splits if_splits)

text \<open>A call among others: before each of its steps the others may have left the lockfiles in any state.\<close>

fun call_run :: "create_mode \<Rightarrow> nat \<Rightarrow> nat \<Rightarrow> (nat \<Rightarrow> fs_result) \<Rightarrow> (nat \<Rightarrow> lock_dir_state) \<Rightarrow> nat \<Rightarrow> call_at" where
  "call_run mode retryMax p rs ds 0 = Not_begun"
| "call_run mode retryMax p rs ds (Suc n) = fst (lock_call_step mode retryMax (rs n) p (call_run mode retryMax p rs ds n) (ds n))"

lemma finished_stays:
  "c = Returned \<or> c = Rejected \<Longrightarrow> fst (lock_call_step mode retryMax r p c d) = c"
  by (auto simp: lock_call_step_def reclaim_step_def)

lemma call_run_shrinks:
  "call_run mode retryMax p rs ds n \<noteq> Returned \<Longrightarrow> call_run mode retryMax p rs ds n \<noteq> Rejected \<Longrightarrow>
     steps_left retryMax (call_run mode retryMax p rs ds n) + n \<le> 8 * retryMax + 13"
proof (induction n)
  case (Suc n)
  obtain c' d' where st: "lock_call_step mode retryMax (rs n) p (call_run mode retryMax p rs ds n) (ds n) = (c', d')" by fastforce
  have "call_run mode retryMax p rs ds n \<noteq> Returned" "call_run mode retryMax p rs ds n \<noteq> Rejected"
    using Suc.prems finished_stays by fastforce+
  with Suc.IH call_step_shrinks [OF st] st show ?case by simp
qed simp

text \<open>
  C40. Every call to \<open>withLock\<close> ends: whatever the other processes do to the two lockfiles between its steps,
  and whichever of its file-system calls fail, a call whose critical section ends has returned or thrown
  after a number of its own steps that is linear in the number of retries.
\<close>

theorem every_call_ends:
  "call_run mode retryMax p rs ds (8 * retryMax + 13) \<in> {Returned, Rejected}"
proof (rule ccontr)
  assume n: "\<not> ?thesis"
  then have "steps_left retryMax (call_run mode retryMax p rs ds (8 * retryMax + 13)) = 0"
    using call_run_shrinks [of mode retryMax p rs ds "8 * retryMax + 13"] by simp
  moreover have "steps_left retryMax c = 0 \<Longrightarrow> c = Returned \<or> c = Rejected" for c by (cases c) auto
  ultimately show False using n by blast
qed

text \<open>
  The last attempt fails closed: an owner that dies just before it is reclaimed, and the call throws
  rather than run its critical section without a lock.
\<close>

lemma reclaim_on_the_last_attempt_throws:
  "after_reclaim retryMax retryMax tok = Rejected" "try_again retryMax retryMax tok = Rejected"
  by (simp_all add: after_reclaim_def try_again_def)

text \<open>A lone waiter takes a dead owner's lock over at its second attempt.\<close>

lemma dead_owners_lock_is_recovered:
  assumes "p \<in> set dead" "q \<notin> set dead" "0 < retryMax"
  shows "\<exists>m. play Link_mode retryMax (steps_of 0 9) (idle_machine (Some (Lock_record p t)) dead [q]) = Some m \<and> in_section m 0"
  using assms
  by (simp add: steps_of_def numeral_eq_Suc idle_machine_def lock_event_step_def live_call_def act_call_def lock_step_defs
      file_defs in_section_def)

end
