(* ===== verification/TurnControl.thy ===== *)
theory TurnControl
  imports WakeStub UiEvents
begin

text \<open>
  The turn of one agent process, as \<open>Instance\<close> of \<open>src/instances.ts\<close> drives it: prompts, the overage
  queue, the two tiers of interrupt, steers parked behind a stop, the window that severs spurious
  turns after an abort, the control requests in flight and the subprocess's exit.

  An input is one task of the event loop: a line of the subprocess's output, a timer, a request, or a
  microtask the code queued; the microtasks are kept in their order.  What an input makes visible is
  appended to \<open>tc_out\<close>.  Of the manager the model takes the overage gate, the rewrite claim, the
  overage flags and whether an armed wake survives a turn start, as inputs that set them.
\<close>

subsection \<open>State\<close>

datatype inst_status = Spawning | Idle | In_turn | Exited | Crashed

definition is_dead :: "inst_status \<Rightarrow> bool" where
  "is_dead s \<longleftrightarrow> s = Exited \<or> s = Crashed"

datatype steer_note = Mid_turn_note | Post_stop_note

text \<open>A message's content blocks, in order.\<close>

datatype msg_block = Note_block steer_note | Words string | Attached_file string | Author_block prompt_author

datatype req_kind = Forced_stop | Armed_stop | Drain_stop | Teardown_stop

datatype req_outcome = Acked | Refused | Timed_out

datatype prompt_error = Being_rewritten | Not_running | Overage_refused | Nothing_to_send | Not_writable

record prompt_args =
  pa_text :: string
  pa_atts :: "string list"
  pa_note :: "steer_note option"
  pa_annotate :: bool
  pa_internal :: bool
  pa_author :: "prompt_author option"
  pa_steers :: "nat list"

record parked_steer =
  pk_id :: nat
  pk_text :: string
  pk_atts :: "string list"
  pk_author :: "prompt_author option"

text \<open>A control request awaiting its answer; \<open>rq_observed\<close> says that somebody holds its promise.\<close>

record control_req =
  rq_id :: nat
  rq_kind :: req_kind
  rq_observed :: bool

text \<open>
  The queued microtasks.  An answered request takes two: the promise of \<open>_controlRequest\<close> follows the
  inner one, and only then does what awaits it run.
\<close>

datatype microtask =
    Flush_steers | Follow req_kind req_outcome | Settled req_kind req_outcome
  | Steers_sent "nat list" | Steers_failed "nat list"

datatype tc_out =
    Sent_message "msg_block list"
  | Sent_interrupt req_kind nat
  | Permission bool
  | Ui ui_event
  | Turn_started | Status_frame inst_status | User_prompt bool | Overage_queued
  | Steer_resolved nat | Steer_rejected nat
  | Prompt_done | Prompt_failed prompt_error
  | Unhandled_rejection nat

record turn_ctl =
  tc_status :: inst_status
  tc_proc :: bool
  tc_stdin :: bool
  tc_scan :: scan
  tc_interrupting :: bool
  tc_armed :: bool
  tc_fired :: bool
  tc_armSeq :: nat
  tc_deadline :: bool
  tc_aborted :: bool
  tc_stopInterrupted :: bool
  tc_drain :: "nat option"
  tc_steers :: "parked_steer list"
  tc_queue :: "(string \<times> string list \<times> prompt_author option) list"
  tc_autoStopped :: bool
  tc_resumeAt :: bool
  tc_unarmed :: bool
  tc_gate :: bool
  tc_rewriting :: bool
  tc_steerable :: bool
  tc_conducted :: bool
  tc_wake :: bool
  tc_notified :: bool
  tc_dirty :: bool
  tc_agents :: "(string, string option) jmap"
  tc_pending :: "control_req list"
  tc_next :: nat
  tc_given :: nat
  tc_micro :: "microtask list"
  tc_sends :: "prompt_args list"
  tc_out :: "tc_out list"

definition say :: "tc_out \<Rightarrow> turn_ctl \<Rightarrow> turn_ctl" where
  "say x s = s\<lparr>tc_out := tc_out s @ [x]\<rparr>"

definition queue_micro :: "microtask \<Rightarrow> turn_ctl \<Rightarrow> turn_ctl" where
  "queue_micro m s = s\<lparr>tc_micro := tc_micro s @ [m]\<rparr>"

definition POST_ABORT_DRAIN_MAX :: nat where "POST_ABORT_DRAIN_MAX = 20"

definition system_ev :: "string \<Rightarrow> ui_event" where
  "system_ev sub = (plain_ev System_ev)\<lparr>ev_subtype := sub\<rparr>"

definition is_system :: "string \<Rightarrow> ui_event \<Rightarrow> bool" where
  "is_system sub ev \<longleftrightarrow> ev_kind ev = System_ev \<and> ev_subtype ev = sub"

definition writable :: "turn_ctl \<Rightarrow> bool" where
  "writable s \<longleftrightarrow> tc_proc s \<and> tc_stdin s"

subsection \<open>Control requests and the drain window\<close>

text \<open>
  The request is registered before it is written; when the write throws, its promise stays
  registered with nobody holding it, and the caller is told in a microtask.
\<close>

definition controlRequest :: "req_kind \<Rightarrow> turn_ctl \<Rightarrow> turn_ctl" where
  "controlRequest k s =
     (let n = tc_next s;
          s1 = s\<lparr>tc_next := Suc n, tc_pending := tc_pending s @ [\<lparr>rq_id = n, rq_kind = k, rq_observed = writable s\<rparr>]\<rparr>
      in if writable s then say (Sent_interrupt k n) s1 else queue_micro (Settled k Refused) s1)"

definition settle_request :: "control_req \<Rightarrow> req_outcome \<Rightarrow> turn_ctl \<Rightarrow> turn_ctl" where
  "settle_request q oc s =
     (if rq_observed q then queue_micro (Follow (rq_kind q) oc) s
      else if oc = Acked then s else say (Unhandled_rejection (rq_id q)) s)"

definition answer_request :: "nat \<Rightarrow> req_outcome \<Rightarrow> turn_ctl \<Rightarrow> turn_ctl" where
  "answer_request n oc s =
     (case List.find (\<lambda>q. rq_id q = n) (tc_pending s) of
        None \<Rightarrow> s
      | Some q \<Rightarrow> settle_request q oc (s\<lparr>tc_pending := filter (\<lambda>q. rq_id q \<noteq> n) (tc_pending s)\<rparr>))"

definition openDrainWindow :: "turn_ctl \<Rightarrow> turn_ctl" where
  "openDrainWindow s = s\<lparr>tc_drain := Some 0\<rparr>"

definition closeDrainWindow :: "turn_ctl \<Rightarrow> turn_ctl" where
  "closeDrainWindow s = s\<lparr>tc_drain := None\<rparr>"

subsection \<open>The armed stop and the event funnel\<close>

definition clearInterruptArm :: "turn_ctl \<Rightarrow> turn_ctl" where
  "clearInterruptArm s = s\<lparr>tc_armed := False, tc_fired := False, tc_armSeq := 0, tc_deadline := False\<rparr>"

definition atInterruptBoundary :: "turn_ctl \<Rightarrow> bool" where
  "atInterruptBoundary s \<longleftrightarrow> sc_tools (tc_scan s) = [] \<and>
     (sc_open (tc_scan s) = [] \<or> tc_armSeq s < sc_boundary (tc_scan s))"

definition maybeFireArmedInterrupt :: "turn_ctl \<Rightarrow> turn_ctl" where
  "maybeFireArmedInterrupt s =
     (if \<not> tc_armed s \<or> tc_fired s then s
      else if tc_status s \<noteq> In_turn \<or> \<not> tc_proc s then s
      else if \<not> atInterruptBoundary s then s
      else openDrainWindow (controlRequest Armed_stop (s\<lparr>tc_fired := True\<rparr>)))"

definition emit_plain :: "ui_event \<Rightarrow> turn_ctl \<Rightarrow> turn_ctl" where
  "emit_plain ev s = maybeFireArmedInterrupt (say (Ui ev) (s\<lparr>tc_scan := scan_apply ev (tc_scan s)\<rparr>))"

text \<open>The window's listener: the first sign of a turn the CLI took from its own queue.\<close>

definition drain_hit :: "turn_ctl \<Rightarrow> turn_ctl" where
  "drain_hit s =
     (case tc_drain s of
        None \<Rightarrow> s
      | Some n \<Rightarrow>
          if POST_ABORT_DRAIN_MAX \<le> n then closeDrainWindow s
          else controlRequest Drain_stop (emit_plain (system_ev ''drain_abort'') (s\<lparr>tc_drain := Some (Suc n)\<rparr>)))"

definition emitUi :: "ui_event \<Rightarrow> turn_ctl \<Rightarrow> turn_ctl" where
  "emitUi ev s =
     (let s1 = say (Ui ev) (s\<lparr>tc_scan := scan_apply ev (tc_scan s)\<rparr>)
      in maybeFireArmedInterrupt (if is_system ''init'' ev then drain_hit s1 else s1))"

definition emitSteerSettled :: "turn_ctl \<Rightarrow> turn_ctl" where
  "emitSteerSettled s = emit_plain (system_ev ''steer_settled'') s"

definition reject_steers :: "nat list \<Rightarrow> turn_ctl \<Rightarrow> turn_ctl" where
  "reject_steers ids s = emitSteerSettled (fold (\<lambda>i. say (Steer_rejected i)) ids (emit_plain (system_ev ''stderr'') s))"

text \<open>What \<open>_setStatus\<close> does besides setting the status: the end of a stop, of the parked steers, and a turn's start.\<close>

definition leave_turn :: "inst_status \<Rightarrow> turn_ctl \<Rightarrow> turn_ctl" where
  "leave_turn nxt s = (if nxt \<noteq> In_turn then clearInterruptArm (s\<lparr>tc_interrupting := False\<rparr>) else s)"

definition drop_steers :: "inst_status \<Rightarrow> turn_ctl \<Rightarrow> turn_ctl" where
  "drop_steers nxt s =
     (if is_dead nxt \<and> tc_steers s \<noteq> [] then reject_steers (map pk_id (tc_steers s)) (s\<lparr>tc_steers := []\<rparr>) else s)"

definition enter_turn :: "inst_status \<Rightarrow> turn_ctl \<Rightarrow> turn_ctl" where
  "enter_turn nxt s =
     (if nxt = In_turn then say Turn_started (s\<lparr>tc_notified := False, tc_aborted := (tc_aborted s \<and> tc_wake s)\<rparr>) else s)"

definition setStatus :: "inst_status \<Rightarrow> turn_ctl \<Rightarrow> turn_ctl" where
  "setStatus nxt s =
     (if tc_status s = nxt then s
      else say (Status_frame nxt) (enter_turn nxt (drop_steers nxt (leave_turn nxt (s\<lparr>tc_status := nxt\<rparr>)))))"

definition interrupt :: "bool \<Rightarrow> bool \<Rightarrow> turn_ctl \<Rightarrow> turn_ctl" where
  "interrupt force deadline s =
     (if tc_status s \<noteq> In_turn then s
      else if force then controlRequest Forced_stop (s\<lparr>tc_fired := True, tc_aborted := True\<rparr>)
      else if tc_interrupting s then s
      else maybeFireArmedInterrupt (say (Status_frame In_turn)
             (s\<lparr>tc_interrupting := True, tc_armed := True, tc_armSeq := sc_boundary (tc_scan s),
                tc_deadline := (deadline \<or> tc_deadline s)\<rparr>)))"

definition deadline_elapsed :: "turn_ctl \<Rightarrow> turn_ctl" where
  "deadline_elapsed s =
     (let s1 = s\<lparr>tc_deadline := False\<rparr> in
      if \<not> tc_armed s1 \<or> tc_fired s1 \<or> tc_status s1 \<noteq> In_turn \<or> \<not> tc_proc s1 then s1
      else interrupt True False (emit_plain (system_ev ''stderr'') s1))"

subsection \<open>Prompts\<close>

definition overageSendRefused :: "turn_ctl \<Rightarrow> bool" where
  "overageSendRefused s \<longleftrightarrow> tc_unarmed s \<and> tc_gate s"

definition rewriteBlocksPrompts :: "turn_ctl \<Rightarrow> bool" where
  "rewriteBlocksPrompts s \<longleftrightarrow> tc_rewriting s"

definition needsPostStopSteer :: "turn_ctl \<Rightarrow> bool" where
  "needsPostStopSteer s \<longleftrightarrow> tc_status s = In_turn \<and> \<not> tc_steerable s"

text \<open>How a prompt ended: a direct one answers its caller, a delivery of steers settles them in a microtask.\<close>

definition prompt_over :: "prompt_args \<Rightarrow> prompt_error option \<Rightarrow> turn_ctl \<Rightarrow> turn_ctl" where
  "prompt_over pa e s =
     (if pa_steers pa = [] then say (case e of None \<Rightarrow> Prompt_done | Some x \<Rightarrow> Prompt_failed x) s
      else queue_micro (case e of None \<Rightarrow> Steers_sent (pa_steers pa) | Some _ \<Rightarrow> Steers_failed (pa_steers pa)) s)"

text \<open>The second half, once every attachment is saved or has failed (\<open>None\<close>).\<close>

definition message_of :: "turn_ctl \<Rightarrow> prompt_args \<Rightarrow> string option list \<Rightarrow> msg_block list" where
  "message_of s pa saved =
     (if pa_text pa \<noteq> [] then [Words (pa_text pa)] else [])
     @ List.map_filter (map_option Attached_file) saved
     @ (case pa_author pa of Some a \<Rightarrow> if tc_conducted s then [Author_block a] else [] | None \<Rightarrow> [])"

definition prompt_note :: "turn_ctl \<Rightarrow> prompt_args \<Rightarrow> msg_block list" where
  "prompt_note s pa =
     (case pa_note pa of
        Some n \<Rightarrow> [Note_block n]
      | None \<Rightarrow> if pa_annotate pa \<and> tc_status s = In_turn then [Note_block Mid_turn_note] else [])"

definition save_notices :: "string option list \<Rightarrow> turn_ctl \<Rightarrow> turn_ctl" where
  "save_notices saved s = fold (\<lambda>r. case r of None \<Rightarrow> emit_plain (system_ev ''stderr'') | Some _ \<Rightarrow> id) saved s"

definition prompt_send :: "prompt_args \<Rightarrow> string option list \<Rightarrow> turn_ctl \<Rightarrow> turn_ctl" where
  "prompt_send pa saved s =
     (let s0 = save_notices saved s in
      if pa_text pa = [] \<and> list_all (\<lambda>r. r = None) saved then prompt_over pa (Some Nothing_to_send) s0
      else
        (let content = message_of s0 pa saved;
             s1 = emit_plain ((plain_ev User_echo)\<lparr>ev_text := pa_text pa\<rparr>) s0
         in if \<not> writable s1 then prompt_over pa (Some Not_writable) s1
            else prompt_over pa None
                   (setStatus In_turn ((closeDrainWindow (say (Sent_message (prompt_note s1 pa @ content)) s1))\<lparr>tc_aborted := False\<rparr>))))"

definition prompt :: "prompt_args \<Rightarrow> turn_ctl \<Rightarrow> turn_ctl" where
  "prompt pa s =
     (if rewriteBlocksPrompts s then prompt_over pa (Some Being_rewritten) s
      else if \<not> tc_proc s then prompt_over pa (Some Not_running) s
      else
        (let s1 = closeDrainWindow s in
         if \<not> pa_internal pa \<and> overageSendRefused s1 then prompt_over pa (Some Overage_refused) s1
         else if \<not> pa_internal pa \<and> (tc_gate s1 \<or> tc_autoStopped s1 \<and> tc_resumeAt s1) then
           (let s2 = emit_plain (plain_ev Overage_message_queued)
                       (s1\<lparr>tc_queue := tc_queue s1 @ [(pa_text pa, pa_atts pa, pa_author pa)]\<rparr>);
                s3 = (if tc_resumeAt s2 then s2 else say Overage_queued s2)
            in prompt_over pa None (say (Status_frame (tc_status s3)) s3))
         else
           (let s2 = say (User_prompt (pa_internal pa)) s1 in
            if pa_text pa = [] \<and> pa_atts pa = [] then prompt_over pa (Some Nothing_to_send) s2
            else if pa_atts pa = [] then prompt_send pa [] s2
            else s2\<lparr>tc_sends := tc_sends s2 @ [pa]\<rparr>)))"

subsection \<open>Steers\<close>

definition queueSteerAfterStop :: "string \<Rightarrow> string list \<Rightarrow> prompt_author option \<Rightarrow> turn_ctl \<Rightarrow> turn_ctl" where
  "queueSteerAfterStop text atts author s =
     (let s1 = s\<lparr>tc_given := Suc (tc_given s),
            tc_steers := tc_steers s @ [\<lparr>pk_id = tc_given s, pk_text = text, pk_atts = atts, pk_author = author\<rparr>]\<rparr>
      in if tc_status s1 \<noteq> In_turn then queue_micro Flush_steers s1 else interrupt False False s1)"

definition promptOrQueueSteer :: "string \<Rightarrow> string list \<Rightarrow> prompt_author option \<Rightarrow> turn_ctl \<Rightarrow> turn_ctl" where
  "promptOrQueueSteer text atts author s =
     (if needsPostStopSteer s then queueSteerAfterStop text atts author s
      else prompt \<lparr>pa_text = text, pa_atts = atts, pa_note = None, pa_annotate = True, pa_internal = False,
                    pa_author = author, pa_steers = []\<rparr> s)"

fun join_texts :: "string list \<Rightarrow> string" where
  "join_texts [] = []"
| "join_texts [t] = t"
| "join_texts (t # ts) = t @ [CHR 0x0A, CHR 0x0A] @ join_texts ts"

definition flushPendingSteers :: "turn_ctl \<Rightarrow> turn_ctl" where
  "flushPendingSteers s =
     (if tc_steers s = [] then s
      else prompt \<lparr>pa_text = join_texts (map pk_text (tc_steers s)), pa_atts = concat (map pk_atts (tc_steers s)),
                    pa_note = Some Post_stop_note, pa_annotate = True, pa_internal = False,
                    pa_author = combineAuthors (map pk_author (tc_steers s)), pa_steers = map pk_id (tc_steers s)\<rparr>
             (s\<lparr>tc_steers := []\<rparr>))"

definition steers_sent :: "nat list \<Rightarrow> turn_ctl \<Rightarrow> turn_ctl" where
  "steers_sent ids s =
     (let s1 = fold (\<lambda>i. say (Steer_resolved i)) ids s in if tc_status s1 \<noteq> In_turn then emitSteerSettled s1 else s1)"

subsection \<open>Answers\<close>

definition forced_settled :: "req_outcome \<Rightarrow> turn_ctl \<Rightarrow> turn_ctl" where
  "forced_settled oc s =
     (case oc of
        Acked \<Rightarrow> openDrainWindow s
      | Refused \<Rightarrow> s\<lparr>tc_fired := False, tc_aborted := False\<rparr>
      | Timed_out \<Rightarrow> s\<lparr>tc_fired := False\<rparr>)"

definition armed_settled :: "req_outcome \<Rightarrow> turn_ctl \<Rightarrow> turn_ctl" where
  "armed_settled oc s =
     (if oc = Acked then s
      else say (Status_frame (tc_status s)) (emit_plain (system_ev ''stderr'') (clearInterruptArm (s\<lparr>tc_interrupting := False\<rparr>))))"

definition run_micro :: "microtask \<Rightarrow> turn_ctl \<Rightarrow> turn_ctl" where
  "run_micro m s =
     (case m of
        Flush_steers \<Rightarrow> flushPendingSteers s
      | Follow k oc \<Rightarrow> queue_micro (Settled k oc) s
      | Settled k oc \<Rightarrow> (case k of Forced_stop \<Rightarrow> forced_settled oc s | Armed_stop \<Rightarrow> armed_settled oc s | _ \<Rightarrow> s)
      | Steers_sent ids \<Rightarrow> steers_sent ids s
      | Steers_failed ids \<Rightarrow> reject_steers ids s)"

subsection \<open>The subprocess's output and its exit\<close>

definition data_field :: "ui_event \<Rightarrow> string \<Rightarrow> json option" where
  "data_field ev k = map_of (asRecord (ev_data ev)) k"

definition TASK_LIFECYCLE_SUBTYPES :: "string list" where
  "TASK_LIFECYCLE_SUBTYPES = [''task_started'', ''task_updated'', ''task_notification'']"

definition TERMINAL_TASK_STATUSES :: "string list" where
  "TERMINAL_TASK_STATUSES = [''completed'', ''failed'', ''cancelled'', ''error'']"

definition task_id :: "ui_event \<Rightarrow> string option" where
  "task_id ev = nonempty_str (data_field ev ''task_id'')"

definition drop_agent :: "string \<Rightarrow> turn_ctl \<Rightarrow> turn_ctl" where
  "drop_agent t s =
     (if jhas (tc_agents s) t then
        (let s1 = s\<lparr>tc_agents := jdrop t (tc_agents s)\<rparr> in
         if tc_agents s1 = [] then say (Status_frame (tc_status s1)) s1 else s1)
      else s)"

text \<open>The lifecycle of the sub-agents a session has running, Bash tasks apart.\<close>

definition track_task :: "ui_event \<Rightarrow> turn_ctl \<Rightarrow> turn_ctl" where
  "track_task ev s =
     (case task_id ev of
        None \<Rightarrow> s
      | Some t \<Rightarrow>
          if is_system ''task_started'' ev then
            (if data_field ev ''task_type'' = Some (JStr ''local_bash'') then s
             else
               (let s1 = s\<lparr>tc_agents := jput t (as_str (data_field ev ''tool_use_id'')) (tc_agents s)\<rparr> in
                if tc_agents s = [] then say (Status_frame (tc_status s1)) s1 else s1))
          else if is_system ''task_updated'' ev then
            (case map_of (asRecord (data_field ev ''patch'')) ''status'' of
               Some (JStr st) \<Rightarrow> if st \<in> set TERMINAL_TASK_STATUSES then drop_agent t s else s
             | _ \<Rightarrow> s)
          else if is_system ''task_notification'' ev then
            drop_agent t (if tc_status s = In_turn then s\<lparr>tc_notified := True\<rparr> else s)
          else s)"

text \<open>A tool-permission request is answered at once: the interactive tools are denied, others allowed.\<close>

definition answer_permission :: "ui_event \<Rightarrow> turn_ctl \<Rightarrow> turn_ctl" where
  "answer_permission ev s =
     (let req = asRecord (data_field ev ''request'') in
      if is_system ''control_request'' ev \<and> map_of req ''subtype'' = Some (JStr ''can_use_tool'') \<and> writable s then
        say (Permission (map_of req ''tool_name'' \<notin> (\<lambda>t. Some (JStr t)) ` {''ExitPlanMode'', ''EnterPlanMode'', ''AskUserQuestion''})) s
      else s)"

definition end_turn :: "turn_ctl \<Rightarrow> turn_ctl" where
  "end_turn s =
     (let s1 = (setStatus Idle s)\<lparr>tc_dirty := False\<rparr> in
      if tc_steers s1 \<noteq> [] then queue_micro Flush_steers s1 else s1)"

text \<open>The pieces of one event's handling, in the loop's order.\<close>

definition mark_dirty :: "ui_event \<Rightarrow> turn_ctl \<Rightarrow> turn_ctl" where
  "mark_dirty ev s =
     (if tc_status s = Idle \<and> \<not> (ev_kind ev = System_ev \<and> ev_subtype ev \<in> set TASK_LIFECYCLE_SUBTYPES)
      then s\<lparr>tc_dirty := True\<rparr> else s)"

definition unprompted_turn :: "ui_event \<Rightarrow> turn_ctl \<Rightarrow> turn_ctl" where
  "unprompted_turn ev s = (if ev_kind ev = Message_start \<and> tc_status s = Idle then setStatus In_turn s else s)"

definition route_response :: "ui_event \<Rightarrow> (nat \<times> bool) option \<Rightarrow> turn_ctl \<Rightarrow> turn_ctl" where
  "route_response ev resp s =
     (case resp of
        Some (n, ok) \<Rightarrow> if ev_kind ev = Control_response then answer_request n (if ok then Acked else Refused) s else s
      | None \<Rightarrow> s)"

definition consume_notification :: "ui_event \<Rightarrow> turn_ctl \<Rightarrow> turn_ctl" where
  "consume_notification ev s = (if ev_kind ev = Tool_result \<and> \<not> nested ev then s\<lparr>tc_notified := False\<rparr> else s)"

text \<open>One event of a line; \<open>resp\<close> is the request a control response answers, and whether it succeeded.\<close>

definition handle_event :: "ui_event \<Rightarrow> (nat \<times> bool) option \<Rightarrow> turn_ctl \<Rightarrow> turn_ctl" where
  "handle_event ev resp s =
     (if is_system ''soft_interrupted'' ev \<and> tc_drain s \<noteq> None then s
      else
        (let s1 = route_response ev resp (answer_permission ev (unprompted_turn ev (mark_dirty ev s)));
             s2 = (if ev_kind ev = Turn_end then end_turn s1 else s1)
         in emitUi ev (consume_notification ev (track_task ev s2))))"

definition handleExit :: "bool \<Rightarrow> turn_ctl \<Rightarrow> turn_ctl" where
  "handleExit crashed s =
     (let s1 = closeDrainWindow (s\<lparr>tc_proc := False\<rparr>);
          s2 = setStatus (if crashed then Crashed else Exited) (emit_plain (system_ev ''exit'') s1)
      in (fold (\<lambda>q. settle_request q Refused) (tc_pending s2) s2)\<lparr>tc_pending := []\<rparr>)"

definition interruptTurnForStop :: "turn_ctl \<Rightarrow> turn_ctl" where
  "interruptTurnForStop s =
     (if tc_status s \<noteq> In_turn then s else controlRequest Teardown_stop (s\<lparr>tc_stopInterrupted := True\<rparr>))"

subsection \<open>Inputs\<close>

datatype tc_input =
    Line ui_event "(nat \<times> bool) option"
  | Run_micro
  | Prompt_now prompt_args
  | Steer string "string list" "prompt_author option"
  | Stop_turn bool bool
  | Deadline_elapsed | Drain_elapsed | Request_timeout nat
  | Saved "string option list"
  | Ready
  | Kill bool
  | Process_exit bool
  | Set_gate bool | Set_rewriting bool | Set_wake bool | Set_overage bool bool bool

definition apply_input :: "tc_input \<Rightarrow> turn_ctl \<Rightarrow> turn_ctl" where
  "apply_input i s =
     (case i of
        Line ev resp \<Rightarrow> handle_event ev resp s
      | Run_micro \<Rightarrow> (case tc_micro s of [] \<Rightarrow> s | m # ms \<Rightarrow> run_micro m (s\<lparr>tc_micro := ms\<rparr>))
      | Prompt_now pa \<Rightarrow> prompt (pa\<lparr>pa_steers := []\<rparr>) s
      | Steer text atts author \<Rightarrow> promptOrQueueSteer text atts author s
      | Stop_turn force deadline \<Rightarrow> interrupt force deadline s
      | Deadline_elapsed \<Rightarrow> if tc_deadline s then deadline_elapsed s else s
      | Drain_elapsed \<Rightarrow> closeDrainWindow s
      | Request_timeout n \<Rightarrow> answer_request n Timed_out s
      | Saved rs \<Rightarrow> (case tc_sends s of [] \<Rightarrow> s | pa # rest \<Rightarrow> prompt_send pa rs (s\<lparr>tc_sends := rest\<rparr>))
      | Ready \<Rightarrow> if writable s \<and> tc_status s = Spawning then setStatus Idle s else s
      | Kill hard \<Rightarrow> if tc_proc s then (if hard then interruptTurnForStop s else s)\<lparr>tc_stdin := False\<rparr> else s
      | Process_exit crashed \<Rightarrow> if tc_proc s then handleExit crashed s else s
      | Set_gate b \<Rightarrow> s\<lparr>tc_gate := b\<rparr>
      | Set_rewriting b \<Rightarrow> s\<lparr>tc_rewriting := b\<rparr>
      | Set_wake b \<Rightarrow> s\<lparr>tc_wake := b\<rparr>
      | Set_overage stopped armed unarmed \<Rightarrow> s\<lparr>tc_autoStopped := stopped, tc_resumeAt := armed, tc_unarmed := unarmed\<rparr>)"

text \<open>
  Lines of one chunk follow each other at once, and buffered ones may follow the exit; every other task
  waits until the microtasks have run.
\<close>

definition admits :: "turn_ctl \<Rightarrow> tc_input \<Rightarrow> bool" where
  "admits s i \<longleftrightarrow> (case i of Line _ _ \<Rightarrow> True | Run_micro \<Rightarrow> tc_micro s \<noteq> [] | _ \<Rightarrow> tc_micro s = [])"

definition launched :: "bool \<Rightarrow> bool \<Rightarrow> turn_ctl" where
  "launched steerable conducted =
     \<lparr>tc_status = Spawning, tc_proc = True, tc_stdin = True, tc_scan = new_scan, tc_interrupting = False, tc_armed = False,
      tc_fired = False, tc_armSeq = 0, tc_deadline = False, tc_aborted = False, tc_stopInterrupted = False, tc_drain = None,
      tc_steers = [], tc_queue = [], tc_autoStopped = False, tc_resumeAt = False, tc_unarmed = False, tc_gate = False,
      tc_rewriting = False, tc_steerable = steerable, tc_conducted = conducted, tc_wake = False, tc_notified = False,
      tc_dirty = False, tc_agents = [], tc_pending = [], tc_next = 0, tc_given = 0, tc_micro = [], tc_sends = [], tc_out = []\<rparr>"

inductive turn_run :: "turn_ctl \<Rightarrow> bool" where
  start: "turn_run (launched steerable conducted)"
| step: "turn_run s \<Longrightarrow> admits s i \<Longrightarrow> turn_run (apply_input i s)"

fun run_inputs :: "tc_input list \<Rightarrow> turn_ctl \<Rightarrow> turn_ctl option" where
  "run_inputs [] s = Some s"
| "run_inputs (i # is) s = (if admits s i then run_inputs is (apply_input i s) else None)"

end
