(* ===== verification/TurnFacts.thy ===== *)
theory TurnFacts
  imports TurnControl CutFacts "HOL-Library.Multiset"
begin

text \<open>
  What every run of \<open>TurnControl\<close> keeps: a stop belongs to its turn and waits for the turn's tools, and a
  parked steer is in exactly one place, never stranded.  Then the runs that show where the code falls
  short of what its comments promise.
\<close>

subsection \<open>What the small steps leave alone\<close>

lemma say_frame [simp]:
  "tc_status (say x s) = tc_status s" "tc_proc (say x s) = tc_proc s" "tc_stdin (say x s) = tc_stdin s"
  "tc_scan (say x s) = tc_scan s" "tc_interrupting (say x s) = tc_interrupting s" "tc_armed (say x s) = tc_armed s"
  "tc_fired (say x s) = tc_fired s" "tc_deadline (say x s) = tc_deadline s" "tc_steers (say x s) = tc_steers s"
  "tc_micro (say x s) = tc_micro s" "tc_sends (say x s) = tc_sends s" "tc_next (say x s) = tc_next s" "tc_given (say x s) = tc_given s"
  "tc_pending (say x s) = tc_pending s" "tc_drain (say x s) = tc_drain s" "tc_out (say x s) = tc_out s @ [x]"
  by (simp_all add: say_def)

lemma queue_micro_frame [simp]:
  "tc_status (queue_micro m s) = tc_status s" "tc_proc (queue_micro m s) = tc_proc s" "tc_stdin (queue_micro m s) = tc_stdin s"
  "tc_scan (queue_micro m s) = tc_scan s" "tc_interrupting (queue_micro m s) = tc_interrupting s" "tc_armed (queue_micro m s) = tc_armed s"
  "tc_fired (queue_micro m s) = tc_fired s" "tc_deadline (queue_micro m s) = tc_deadline s" "tc_steers (queue_micro m s) = tc_steers s"
  "tc_micro (queue_micro m s) = tc_micro s @ [m]" "tc_sends (queue_micro m s) = tc_sends s" "tc_next (queue_micro m s) = tc_next s" "tc_given (queue_micro m s) = tc_given s"
  "tc_pending (queue_micro m s) = tc_pending s" "tc_drain (queue_micro m s) = tc_drain s" "tc_out (queue_micro m s) = tc_out s"
  by (simp_all add: queue_micro_def)

text \<open>
  \<open>quiet s s'\<close>: a step that emits, asks or answers leaves the turn, the arm and the steers as they are,
  only adds microtasks, and can only mark the arm fired.
\<close>

definition quiet :: "turn_ctl \<Rightarrow> turn_ctl \<Rightarrow> bool" where
  "quiet s s' \<longleftrightarrow> tc_status s' = tc_status s \<and> tc_proc s' = tc_proc s \<and> tc_steers s' = tc_steers s \<and>
     tc_interrupting s' = tc_interrupting s \<and> tc_armed s' = tc_armed s \<and> tc_deadline s' = tc_deadline s \<and>
     (tc_fired s' \<longrightarrow> tc_fired s \<or> tc_armed s) \<and> tc_sends s' = tc_sends s \<and> set (tc_micro s) \<subseteq> set (tc_micro s') \<and>
     tc_given s' = tc_given s"

lemma quiet_refl [simp]: "quiet s s"
  by (simp add: quiet_def)

lemma quiet_trans: "quiet a b \<Longrightarrow> quiet b c \<Longrightarrow> quiet a c"
  unfolding quiet_def by (metis order_trans)

lemma quiet_say [simp]: "quiet a (say x s) = quiet a s"
  by (simp add: quiet_def)

lemma quiet_update [simp]:
  "quiet a (s\<lparr>tc_scan := sc\<rparr>) = quiet a s" "quiet a (s\<lparr>tc_drain := d\<rparr>) = quiet a s" "quiet a (s\<lparr>tc_pending := p\<rparr>) = quiet a s"
  by (simp_all add: quiet_def)

lemma quiet_queue: "quiet a s \<Longrightarrow> quiet a (queue_micro m s)"
  by (auto simp: quiet_def)

lemma quiet_controlRequest: "quiet a s \<Longrightarrow> quiet a (controlRequest k s)"
  by (auto simp: controlRequest_def Let_def quiet_def)

lemma quiet_fire: "quiet a s \<Longrightarrow> quiet a (maybeFireArmedInterrupt s)"
proof -
  assume q: "quiet a s"
  have "quiet a (s\<lparr>tc_fired := True\<rparr>)" if "tc_armed s" using q that by (simp add: quiet_def)
  then have "quiet a (openDrainWindow (controlRequest Armed_stop (s\<lparr>tc_fired := True\<rparr>)))" if "tc_armed s"
    using quiet_controlRequest [of a "s\<lparr>tc_fired := True\<rparr>" Armed_stop] that by (simp add: openDrainWindow_def quiet_def)
  with q show ?thesis by (simp add: maybeFireArmedInterrupt_def)
qed

lemma quiet_emit_plain: "quiet a s \<Longrightarrow> quiet a (emit_plain ev s)"
  unfolding emit_plain_def by (rule quiet_fire) simp

lemma quiet_drain_hit: "quiet a s \<Longrightarrow> quiet a (drain_hit s)"
  by (cases "tc_drain s") (simp_all add: drain_hit_def closeDrainWindow_def quiet_controlRequest quiet_emit_plain)

lemma quiet_emitUi: "quiet a s \<Longrightarrow> quiet a (emitUi ev s)"
  unfolding emitUi_def Let_def by (rule quiet_fire) (simp add: quiet_drain_hit)

lemma quiet_settle: "quiet a s \<Longrightarrow> quiet a (settle_request q oc s)"
  by (simp add: settle_request_def quiet_queue)

lemma quiet_answer: "quiet a s \<Longrightarrow> quiet a (answer_request n oc s)"
proof (cases "List.find (\<lambda>q. rq_id q = n) (tc_pending s)")
  case (Some q)
  assume "quiet a s"
  with Some show ?thesis by (simp add: answer_request_def quiet_settle)
qed (simp add: answer_request_def)

lemma quiet_fold:
  assumes "\<And>x t. quiet a t \<Longrightarrow> quiet a (f x t)" "quiet a s"
  shows "quiet a (fold f xs s)"
  using assms(2)
proof (induction xs arbitrary: s)
  case (Cons x xs)
  from Cons.IH [OF assms(1) [OF Cons.prems]] show ?case by simp
qed simp

lemma quiet_reject: "quiet a s \<Longrightarrow> quiet a (reject_steers ids s)"
  unfolding reject_steers_def emitSteerSettled_def
  by (rule quiet_emit_plain, rule quiet_fold, simp, rule quiet_emit_plain)

lemma quiet_save_notices: "quiet a s \<Longrightarrow> quiet a (save_notices saved s)"
  unfolding save_notices_def by (rule quiet_fold) (auto intro: quiet_emit_plain split: option.splits)

lemmas quiet_steps = quiet_refl quiet_queue quiet_controlRequest quiet_fire quiet_emit_plain quiet_drain_hit quiet_emitUi
  quiet_settle quiet_answer quiet_reject quiet_save_notices

subsection \<open>A stop belongs to its turn, a parked steer has a wake\<close>

definition arm_ok :: "turn_ctl \<Rightarrow> bool" where
  "arm_ok s \<longleftrightarrow> tc_interrupting s = tc_armed s \<and> (tc_armed s \<longrightarrow> tc_status s = In_turn) \<and>
     (tc_deadline s \<longrightarrow> tc_armed s) \<and> (tc_fired s \<longrightarrow> tc_status s = In_turn)"

definition steer_ok :: "turn_ctl \<Rightarrow> bool" where
  "steer_ok s \<longleftrightarrow> (tc_steers s = [] \<or> tc_status s = In_turn \<or> Flush_steers \<in> set (tc_micro s))"

definition kept :: "turn_ctl \<Rightarrow> bool" where
  "kept s \<longleftrightarrow> arm_ok s \<and> steer_ok s"

lemma quiet_kept: "quiet s s' \<Longrightarrow> kept s \<Longrightarrow> kept s'"
  by (auto simp: quiet_def kept_def arm_ok_def steer_ok_def)

lemma kept_update [simp]:
  "kept (s\<lparr>tc_scan := a\<rparr>) = kept s" "kept (s\<lparr>tc_drain := b\<rparr>) = kept s" "kept (s\<lparr>tc_aborted := c\<rparr>) = kept s"
  "kept (s\<lparr>tc_queue := d\<rparr>) = kept s" "kept (s\<lparr>tc_dirty := c\<rparr>) = kept s" "kept (s\<lparr>tc_notified := c\<rparr>) = kept s"
  "kept (s\<lparr>tc_agents := e\<rparr>) = kept s" "kept (s\<lparr>tc_pending := f\<rparr>) = kept s" "kept (s\<lparr>tc_sends := g\<rparr>) = kept s"
  "kept (s\<lparr>tc_proc := c\<rparr>) = kept s" "kept (s\<lparr>tc_stdin := c\<rparr>) = kept s" "kept (s\<lparr>tc_stopInterrupted := c\<rparr>) = kept s"
  "kept (s\<lparr>tc_gate := c\<rparr>) = kept s" "kept (s\<lparr>tc_rewriting := c\<rparr>) = kept s" "kept (s\<lparr>tc_wake := c\<rparr>) = kept s"
  "kept (s\<lparr>tc_autoStopped := c, tc_resumeAt := h, tc_unarmed := k\<rparr>) = kept s" "kept (say x s) = kept s"
  "kept (s\<lparr>tc_next := n\<rparr>) = kept s"
  by (simp_all add: kept_def arm_ok_def steer_ok_def)

lemma kept_queue [intro]: "kept s \<Longrightarrow> kept (queue_micro m s)"
  by (rule quiet_kept [OF quiet_queue [OF quiet_refl]])

lemma kept_emits [intro]:
  "kept s \<Longrightarrow> kept (emit_plain ev s)" "kept s \<Longrightarrow> kept (emitUi ev s)" "kept s \<Longrightarrow> kept (controlRequest k s)"
  "kept s \<Longrightarrow> kept (maybeFireArmedInterrupt s)" "kept s \<Longrightarrow> kept (answer_request n oc s)" "kept s \<Longrightarrow> kept (settle_request q oc s)"
  "kept s \<Longrightarrow> kept (reject_steers ids s)" "kept s \<Longrightarrow> kept (save_notices saved s)" "kept s \<Longrightarrow> kept (emitSteerSettled s)"
  unfolding emitSteerSettled_def
  by (erule quiet_kept [rotated], rule quiet_steps, rule quiet_refl)+

lemma clear_arm_simps [simp]:
  "tc_status (clearInterruptArm s) = tc_status s" "tc_steers (clearInterruptArm s) = tc_steers s" "tc_micro (clearInterruptArm s) = tc_micro s"
  "tc_interrupting (clearInterruptArm s) = tc_interrupting s" "\<not> tc_armed (clearInterruptArm s)" "\<not> tc_fired (clearInterruptArm s)"
  "\<not> tc_deadline (clearInterruptArm s)" "tc_proc (clearInterruptArm s) = tc_proc s" "tc_given (clearInterruptArm s) = tc_given s"
  "tc_sends (clearInterruptArm s) = tc_sends s" "tc_out (clearInterruptArm s) = tc_out s" "tc_scan (clearInterruptArm s) = tc_scan s"
  by (simp_all add: clearInterruptArm_def)

lemma setStatus_frame:
  "tc_status (setStatus nxt s) = nxt" "tc_proc (setStatus nxt s) = tc_proc s" "tc_sends (setStatus nxt s) = tc_sends s"
  "tc_steers (setStatus nxt s) = (if tc_status s \<noteq> nxt \<and> is_dead nxt then [] else tc_steers s)"
  "set (tc_micro s) \<subseteq> set (tc_micro (setStatus nxt s))" "tc_given (setStatus nxt s) = tc_given s"
  "arm_ok s \<Longrightarrow> arm_ok (setStatus nxt s)"
proof -
  define s2 where "s2 = leave_turn nxt (s\<lparr>tc_status := nxt\<rparr>)"
  define s3 where "s3 = drop_steers nxt s2"
  have s2: "tc_status s2 = nxt" "tc_proc s2 = tc_proc s" "tc_sends s2 = tc_sends s" "tc_steers s2 = tc_steers s"
    "tc_micro s2 = tc_micro s" "tc_given s2 = tc_given s" by (simp_all add: s2_def leave_turn_def)
  have "quiet (s2\<lparr>tc_steers := []\<rparr>) (reject_steers ids (s2\<lparr>tc_steers := []\<rparr>))" for ids by (rule quiet_reject) simp
  then have q: "quiet (s2\<lparr>tc_steers := (if is_dead nxt then [] else tc_steers s)\<rparr>) s3"
    using s2(4) by (cases "is_dead nxt \<and> tc_steers s2 \<noteq> []") (auto simp: s3_def drop_steers_def quiet_def)
  have set: "setStatus nxt s = say (Status_frame nxt) (enter_turn nxt s3)" if "tc_status s \<noteq> nxt"
    using that by (simp add: setStatus_def s3_def s2_def)
  show "tc_status (setStatus nxt s) = nxt" "tc_proc (setStatus nxt s) = tc_proc s" "tc_sends (setStatus nxt s) = tc_sends s"
    "tc_steers (setStatus nxt s) = (if tc_status s \<noteq> nxt \<and> is_dead nxt then [] else tc_steers s)"
    "set (tc_micro s) \<subseteq> set (tc_micro (setStatus nxt s))" "tc_given (setStatus nxt s) = tc_given s"
    using q set s2 by (cases "tc_status s = nxt"; simp add: quiet_def setStatus_def enter_turn_def)+
  show "arm_ok (setStatus nxt s)" if "arm_ok s"
  proof (cases "tc_status s = nxt")
    case False
    have "arm_ok s2" using that False by (auto simp: s2_def arm_ok_def leave_turn_def)
    with q have "arm_ok s3" by (auto simp: quiet_def arm_ok_def)
    with set [OF False] show ?thesis by (simp add: arm_ok_def enter_turn_def)
  qed (use that in \<open>simp add: setStatus_def\<close>)
qed

lemma kept_setStatus:
  assumes "kept s" "nxt = In_turn \<or> is_dead nxt \<or> tc_steers s = [] \<or> Flush_steers \<in> set (tc_micro s)"
  shows "kept (setStatus nxt s)"
proof (cases "tc_status s = nxt")
  case False
  have "arm_ok (setStatus nxt s)" using assms(1) setStatus_frame(7) by (simp add: kept_def)
  moreover have "steer_ok (setStatus nxt s)"
    using assms(2) False subsetD [OF setStatus_frame(5) [of s nxt], of Flush_steers]
    by (auto simp: steer_ok_def setStatus_frame)
  ultimately show ?thesis by (simp add: kept_def)
qed (use assms(1) in \<open>simp add: setStatus_def\<close>)

lemma kept_end_turn: "kept s \<Longrightarrow> kept (end_turn s)"
proof -
  assume "kept s"
  then have a: "arm_ok (setStatus Idle s)" using setStatus_frame(7) by (simp add: kept_def)
  show ?thesis
  proof (cases "tc_steers (setStatus Idle s) = []")
    case True
    with a show ?thesis by (simp add: end_turn_def Let_def kept_def arm_ok_def steer_ok_def)
  next
    case False
    with a show ?thesis by (simp add: end_turn_def Let_def kept_def arm_ok_def steer_ok_def queue_micro_def)
  qed
qed

lemma kept_interrupt: "kept s \<Longrightarrow> kept (interrupt force deadline s)"
proof -
  assume k: "kept s"
  have "kept (s\<lparr>tc_fired := True, tc_aborted := True\<rparr>)" if "tc_status s = In_turn"
    using k that by (simp add: kept_def arm_ok_def steer_ok_def)
  moreover have "kept (s\<lparr>tc_interrupting := True, tc_armed := True, tc_armSeq := n, tc_deadline := d\<rparr>)" if "tc_status s = In_turn" for n d
    using k that by (simp add: kept_def arm_ok_def steer_ok_def)
  ultimately show ?thesis using k by (auto simp: interrupt_def)
qed

lemma kept_clear_arm: "kept s \<Longrightarrow> kept (clearInterruptArm (s\<lparr>tc_interrupting := False\<rparr>))"
  by (simp add: kept_def arm_ok_def steer_ok_def)

lemma kept_deadline: "kept s \<Longrightarrow> kept (deadline_elapsed s)"
proof -
  assume k: "kept s"
  then have "kept (s\<lparr>tc_deadline := False\<rparr>)" by (simp add: kept_def arm_ok_def steer_ok_def)
  then show ?thesis by (auto simp: deadline_elapsed_def Let_def intro!: kept_interrupt)
qed

lemma kept_prompt_over: "kept s \<Longrightarrow> kept (prompt_over pa e s)"
  by (auto simp: prompt_over_def)

lemma kept_prompt_send: "kept s \<Longrightarrow> kept (prompt_send pa saved s)"
proof -
  assume "kept s"
  then have k: "kept (save_notices saved s)" by blast
  then have e: "kept (emit_plain ev (save_notices saved s))" for ev by blast
  have "kept (setStatus In_turn ((closeDrainWindow (say x (emit_plain ev (save_notices saved s))))\<lparr>tc_aborted := False\<rparr>))" for x ev
    by (rule kept_setStatus) (use e in \<open>simp_all add: closeDrainWindow_def\<close>)
  with k e show ?thesis by (simp add: prompt_send_def Let_def kept_prompt_over)
qed

lemma kept_prompt: "kept s \<Longrightarrow> kept (prompt pa s)"
proof -
  assume "kept s"
  then have d: "kept (closeDrainWindow s)" by (simp add: closeDrainWindow_def)
  then have q: "kept (emit_plain ev ((closeDrainWindow s)\<lparr>tc_queue := qs\<rparr>))" for ev qs by (intro kept_emits) simp
  from \<open>kept s\<close> d q show ?thesis
    by (simp add: prompt_def Let_def kept_prompt_over kept_prompt_send)
qed

lemma kept_queueSteer: "kept s \<Longrightarrow> kept (queueSteerAfterStop text atts author s)"
proof -
  assume k: "kept s"
  define s1 where "s1 = s\<lparr>tc_given := Suc (tc_given s),
      tc_steers := tc_steers s @ [\<lparr>pk_id = tc_given s, pk_text = text, pk_atts = atts, pk_author = author\<rparr>]\<rparr>"
  have q: "queueSteerAfterStop text atts author s =
      (if tc_status s \<noteq> In_turn then queue_micro Flush_steers s1 else interrupt False False s1)"
    by (simp add: queueSteerAfterStop_def Let_def s1_def)
  have "kept s1" if "tc_status s = In_turn" using k that by (simp add: s1_def kept_def arm_ok_def steer_ok_def)
  moreover have "kept (queue_micro Flush_steers s1)" using k by (simp add: s1_def kept_def arm_ok_def steer_ok_def queue_micro_def)
  ultimately show ?thesis unfolding q by (simp add: kept_interrupt)
qed

lemma kept_run_micro:
  assumes "kept s" "tc_micro s = m # ms"
  shows "kept (run_micro m (s\<lparr>tc_micro := ms\<rparr>))"
proof (cases "m = Flush_steers")
  case True
  have "kept (s\<lparr>tc_micro := ms, tc_steers := []\<rparr>)" using assms(1) by (simp add: kept_def arm_ok_def steer_ok_def)
  moreover have "kept (s\<lparr>tc_micro := ms\<rparr>)" if "tc_steers s = []" using assms(1) that by (simp add: kept_def arm_ok_def steer_ok_def)
  ultimately show ?thesis by (simp add: True run_micro_def flushPendingSteers_def kept_prompt)
next
  case False
  then have k: "kept (s\<lparr>tc_micro := ms\<rparr>)" using assms by (auto simp: kept_def arm_ok_def steer_ok_def)
  have "kept (forced_settled oc (s\<lparr>tc_micro := ms\<rparr>))" for oc
    using k by (cases oc) (auto simp: forced_settled_def openDrainWindow_def kept_def arm_ok_def steer_ok_def)
  moreover have "kept (armed_settled oc (s\<lparr>tc_micro := ms\<rparr>))" for oc
    using k by (auto simp: armed_settled_def intro!: kept_emits kept_clear_arm)
  moreover have "kept (fold (\<lambda>i. say (Steer_resolved i)) ids t) = kept t" for ids t by (induction ids arbitrary: t) auto
  ultimately show ?thesis
    using False k by (cases m) (auto simp: run_micro_def steers_sent_def Let_def split: req_kind.splits)
qed

lemmas event_steps = mark_dirty_def unprompted_turn_def route_response_def consume_notification_def

lemma kept_handle_event: "kept s \<Longrightarrow> kept (handle_event ev resp s)"
proof -
  assume k: "kept s"
  have t: "kept (track_task ev t)" if "kept t" for t
    using that by (auto simp: track_task_def drop_agent_def Let_def split: option.splits json.splits)
  have p: "kept (answer_permission ev t)" if "kept t" for t using that by (simp add: answer_permission_def Let_def)
  have m: "kept (setStatus In_turn t)" if "kept t" for t using kept_setStatus [OF that] by simp
  show ?thesis
    using k by (auto simp: handle_event_def event_steps Let_def intro!: kept_emits t p m kept_end_turn split: option.splits)
qed

lemma kept_exit: "kept s \<Longrightarrow> kept (handleExit crashed s)"
proof -
  assume "kept s"
  then have "kept (emit_plain (system_ev ''exit'') (closeDrainWindow (s\<lparr>tc_proc := False\<rparr>)))"
    by (intro kept_emits) (simp add: closeDrainWindow_def)
  then have k: "kept (setStatus (if crashed then Crashed else Exited) (emit_plain (system_ev ''exit'') (closeDrainWindow (s\<lparr>tc_proc := False\<rparr>))))"
    by (rule kept_setStatus) (simp add: is_dead_def)
  have "kept (fold (\<lambda>q. settle_request q Refused) qs t)" if "kept t" for qs t
    using that by (induction qs arbitrary: t) auto
  with k show ?thesis by (simp add: handleExit_def Let_def)
qed

lemma kept_input:
  assumes "kept s" "admits s i"
  shows "kept (apply_input i s)"
proof (cases i)
  case (Line ev resp)
  with assms(1) show ?thesis by (simp add: apply_input_def kept_handle_event)
next
  case Run_micro
  with assms kept_run_micro [OF assms(1)] show ?thesis by (auto simp: apply_input_def split: list.splits)
next
  case Ready
  have "kept (setStatus Idle s)" if "tc_status s = Spawning"
  proof -
    have "tc_steers s = []" using assms that Ready by (auto simp: kept_def steer_ok_def admits_def)
    with kept_setStatus [OF assms(1)] show ?thesis by simp
  qed
  with assms(1) Ready show ?thesis by (simp add: apply_input_def)
next
  case (Kill hard)
  have "kept (interruptTurnForStop s)" using assms(1) by (auto simp: interruptTurnForStop_def intro!: kept_emits)
  with assms(1) Kill show ?thesis by (simp add: apply_input_def)
next
  case (Saved rs)
  with assms(1) show ?thesis by (auto simp: apply_input_def intro!: kept_prompt_send split: list.splits)
qed (use assms(1) in \<open>auto simp: apply_input_def promptOrQueueSteer_def closeDrainWindow_def
    intro!: kept_prompt kept_queueSteer kept_interrupt kept_deadline kept_emits kept_exit\<close>)

lemma turn_run_kept: "turn_run s \<Longrightarrow> kept s"
proof (induction rule: turn_run.induct)
  case (start steerable conducted)
  then show ?case by (simp add: kept_def arm_ok_def steer_ok_def launched_def)
qed (rule kept_input)

subsection \<open>A parked steer is in one place\<close>

fun micro_steers :: "microtask \<Rightarrow> nat list" where
  "micro_steers (Steers_sent ids) = ids"
| "micro_steers (Steers_failed ids) = ids"
| "micro_steers _ = []"

fun told_steers :: "tc_out \<Rightarrow> nat list" where
  "told_steers (Steer_resolved i) = [i]"
| "told_steers (Steer_rejected i) = [i]"
| "told_steers _ = []"

text \<open>Every steer a session was given: parked, in a delivery whose attachments are being saved, about to be answered, or answered.\<close>

definition steer_places :: "turn_ctl \<Rightarrow> nat multiset" where
  "steer_places s = mset (map pk_id (tc_steers s)) + mset (concat (map pa_steers (tc_sends s))) +
     mset (concat (map micro_steers (tc_micro s))) + mset (concat (map told_steers (tc_out s)))"

lemma places_update [simp]:
  "steer_places (s\<lparr>tc_scan := a\<rparr>) = steer_places s" "steer_places (s\<lparr>tc_drain := b\<rparr>) = steer_places s"
  "steer_places (s\<lparr>tc_aborted := c\<rparr>) = steer_places s" "steer_places (s\<lparr>tc_queue := d\<rparr>) = steer_places s"
  "steer_places (s\<lparr>tc_dirty := c\<rparr>) = steer_places s" "steer_places (s\<lparr>tc_notified := c\<rparr>) = steer_places s"
  "steer_places (s\<lparr>tc_agents := e\<rparr>) = steer_places s" "steer_places (s\<lparr>tc_pending := f\<rparr>) = steer_places s"
  "steer_places (s\<lparr>tc_proc := c\<rparr>) = steer_places s" "steer_places (s\<lparr>tc_stdin := c\<rparr>) = steer_places s"
  "steer_places (s\<lparr>tc_stopInterrupted := c\<rparr>) = steer_places s" "steer_places (s\<lparr>tc_gate := c\<rparr>) = steer_places s"
  "steer_places (s\<lparr>tc_rewriting := c\<rparr>) = steer_places s" "steer_places (s\<lparr>tc_wake := c\<rparr>) = steer_places s"
  "steer_places (s\<lparr>tc_autoStopped := c, tc_resumeAt := h, tc_unarmed := k\<rparr>) = steer_places s"
  "steer_places (s\<lparr>tc_next := n\<rparr>) = steer_places s" "steer_places (s\<lparr>tc_fired := c\<rparr>) = steer_places s"
  "steer_places (s\<lparr>tc_deadline := c\<rparr>) = steer_places s" "steer_places (s\<lparr>tc_interrupting := c\<rparr>) = steer_places s"
  "steer_places (s\<lparr>tc_status := x\<rparr>) = steer_places s" "steer_places (clearInterruptArm s) = steer_places s"
  "steer_places (s\<lparr>tc_interrupting := c, tc_armed := c', tc_armSeq := n, tc_deadline := c''\<rparr>) = steer_places s"
  "steer_places (s\<lparr>tc_fired := c, tc_aborted := c'\<rparr>) = steer_places s"
  "steer_places (s\<lparr>tc_interrupting := c, tc_armed := c', tc_armSeq := n\<rparr>) = steer_places s"
  "steer_places (s\<lparr>tc_notified := c, tc_aborted := c'\<rparr>) = steer_places s"
  "steer_places (openDrainWindow s) = steer_places s" "steer_places (closeDrainWindow s) = steer_places s"
  by (simp_all add: steer_places_def clearInterruptArm_def openDrainWindow_def closeDrainWindow_def)

lemma places_say [simp]: "steer_places (say x s) = steer_places s + mset (told_steers x)"
  by (simp add: steer_places_def)

lemma places_queue [simp]: "steer_places (queue_micro m s) = steer_places s + mset (micro_steers m)"
  by (simp add: steer_places_def)

lemma places_emits [simp]:
  "steer_places (controlRequest k s) = steer_places s"
  "steer_places (settle_request q oc s) = steer_places s"
  "steer_places (answer_request n oc s) = steer_places s"
  "steer_places (maybeFireArmedInterrupt s) = steer_places s"
  by (simp_all add: controlRequest_def settle_request_def answer_request_def maybeFireArmedInterrupt_def Let_def split: option.splits)

lemma places_emit_plain [simp]: "steer_places (emit_plain ev s) = steer_places s"
  by (simp add: emit_plain_def)

lemma places_emitUi [simp]: "steer_places (drain_hit s) = steer_places s" "steer_places (emitUi ev s) = steer_places s"
  by (simp_all add: drain_hit_def emitUi_def Let_def split: option.splits)

lemma places_told [simp]:
  "steer_places (fold (\<lambda>i. say (Steer_resolved i)) ids s) = steer_places s + mset ids"
  "steer_places (fold (\<lambda>i. say (Steer_rejected i)) ids s) = steer_places s + mset ids"
  by (induction ids arbitrary: s) simp_all

lemma places_reject [simp]: "steer_places (reject_steers ids s) = steer_places s + mset ids"
  by (simp add: reject_steers_def emitSteerSettled_def)

lemma places_no_steers: "steer_places (s\<lparr>tc_steers := []\<rparr>) + mset (map pk_id (tc_steers s)) = steer_places s"
  by (simp add: steer_places_def)

lemma places_setStatus [simp]: "steer_places (setStatus nxt s) = steer_places s"
proof -
  have "steer_places (drop_steers x t) = steer_places t" for x t
    using places_no_steers [of t] by (simp add: drop_steers_def)
  then show ?thesis by (simp add: setStatus_def leave_turn_def enter_turn_def)
qed

lemma places_interrupt [simp]:
  "steer_places (interrupt force deadline s) = steer_places s" "steer_places (deadline_elapsed s) = steer_places s"
  by (simp_all add: interrupt_def deadline_elapsed_def Let_def)

lemma places_prompt_over [simp]: "steer_places (prompt_over pa e s) = steer_places s + mset (pa_steers pa)"
  by (simp add: prompt_over_def split: option.splits)

lemma places_save_notices [simp]: "steer_places (save_notices saved s) = steer_places s"
proof -
  have "steer_places (fold (\<lambda>r. case r of None \<Rightarrow> emit_plain ev | Some _ \<Rightarrow> id) rs t) = steer_places t" for ev and rs :: "string option list" and t
    by (induction rs arbitrary: t) (simp_all split: option.splits)
  then show ?thesis by (simp add: save_notices_def)
qed

lemma places_prompt_send [simp]: "steer_places (prompt_send pa saved s) = steer_places s + mset (pa_steers pa)"
  by (simp add: prompt_send_def Let_def)

lemma places_sends: "tc_sends s = qs \<Longrightarrow> steer_places (s\<lparr>tc_sends := qs @ [pa]\<rparr>) = steer_places s + mset (pa_steers pa)"
  by (simp add: steer_places_def)

lemma places_prompt [simp]: "steer_places (prompt pa s) = steer_places s + mset (pa_steers pa)"
  by (simp add: prompt_def Let_def places_sends)

lemma places_run_micro:
  assumes "tc_micro s = m # ms"
  shows "steer_places (run_micro m (s\<lparr>tc_micro := ms\<rparr>)) = steer_places s"
proof -
  have "steer_places (s\<lparr>tc_micro := ms\<rparr>) + mset (micro_steers m) = steer_places s" using assms by (simp add: steer_places_def)
  moreover have "steer_places (flushPendingSteers t) = steer_places t" for t
    using places_no_steers [of t] by (simp add: flushPendingSteers_def)
  ultimately show ?thesis
    by (cases m) (auto simp: run_micro_def forced_settled_def armed_settled_def steers_sent_def emitSteerSettled_def Let_def
        split: req_kind.splits req_outcome.splits)
qed

lemma places_track [simp]: "steer_places (track_task ev s) = steer_places s" "steer_places (answer_permission ev s) = steer_places s"
  by (simp_all add: track_task_def drop_agent_def answer_permission_def Let_def split: option.splits json.splits)

lemma places_handle_event [simp]: "steer_places (handle_event ev resp s) = steer_places s"
  by (simp add: handle_event_def event_steps end_turn_def Let_def split: option.splits)

lemma places_exit [simp]: "steer_places (handleExit crashed s) = steer_places s"
proof -
  have "steer_places (fold (\<lambda>q. settle_request q Refused) qs t) = steer_places t" for qs t by (induction qs arbitrary: t) simp_all
  then show ?thesis by (simp add: handleExit_def Let_def)
qed

lemma quiet_given: "quiet s s' \<Longrightarrow> tc_given s' = tc_given s"
  by (simp add: quiet_def)

lemma given_emits [simp]:
  "tc_given (emit_plain ev s) = tc_given s" "tc_given (emitUi ev s) = tc_given s" "tc_given (controlRequest k s) = tc_given s"
  "tc_given (maybeFireArmedInterrupt s) = tc_given s" "tc_given (answer_request n oc s) = tc_given s"
  "tc_given (settle_request q oc s) = tc_given s" "tc_given (reject_steers ids s) = tc_given s"
  "tc_given (save_notices saved s) = tc_given s"
  by (rule quiet_given, rule quiet_steps, rule quiet_refl)+

lemma given_steps [simp]:
  "tc_given (openDrainWindow s) = tc_given s" "tc_given (closeDrainWindow s) = tc_given s" "tc_given (emitSteerSettled s) = tc_given s"
  "tc_given (setStatus nxt s) = tc_given s" "tc_given (interrupt force deadline s) = tc_given s"
  "tc_given (deadline_elapsed s) = tc_given s" "tc_given (prompt_over pa e s) = tc_given s"
  by (simp_all add: openDrainWindow_def closeDrainWindow_def emitSteerSettled_def setStatus_frame interrupt_def
      deadline_elapsed_def prompt_over_def Let_def)

lemma given_prompt [simp]: "tc_given (prompt_send pa saved s) = tc_given s" "tc_given (prompt pa s) = tc_given s"
  by (simp_all add: prompt_def prompt_send_def Let_def)

lemma given_track [simp]: "tc_given (track_task ev s) = tc_given s" "tc_given (answer_permission ev s) = tc_given s"
  by (simp_all add: track_task_def drop_agent_def answer_permission_def Let_def split: option.splits json.splits)

lemma given_events [simp]: "tc_given (handle_event ev resp s) = tc_given s"
  by (simp add: handle_event_def event_steps end_turn_def Let_def split: option.splits)

lemma given_micro [simp]: "tc_given (run_micro m s) = tc_given s"
proof -
  have "tc_given (fold (\<lambda>i. say (Steer_resolved i)) ids t) = tc_given t" for ids t by (induction ids arbitrary: t) simp_all
  then show ?thesis
    by (simp add: run_micro_def flushPendingSteers_def forced_settled_def armed_settled_def steers_sent_def Let_def
        split: microtask.splits req_kind.splits req_outcome.splits)
qed

lemma given_exit [simp]: "tc_given (handleExit crashed s) = tc_given s"
proof -
  have "tc_given (fold (\<lambda>q. settle_request q Refused) qs t) = tc_given t" for qs t by (induction qs arbitrary: t) simp_all
  then show ?thesis by (simp add: handleExit_def Let_def)
qed

text \<open>Every steer a session was ever given is accounted for, once.\<close>

definition accounted :: "turn_ctl \<Rightarrow> bool" where
  "accounted s \<longleftrightarrow> steer_places s = mset [0..<tc_given s]"

lemma accounted_input: "accounted s \<Longrightarrow> accounted (apply_input i s)"
proof (cases i)
  case (Saved rs)
  assume a: "accounted s"
  have "steer_places (s\<lparr>tc_sends := rest\<rparr>) + mset (pa_steers pa) = steer_places s" if "tc_sends s = pa # rest" for pa rest
    using that by (simp add: steer_places_def)
  with a Saved show ?thesis by (simp add: apply_input_def accounted_def split: list.splits)
next
  case Run_micro
  assume "accounted s"
  with Run_micro places_run_micro [of s] show ?thesis by (simp add: apply_input_def accounted_def split: list.splits)
next
  case (Steer t atts author)
  assume a: "accounted s"
  have "steer_places (s\<lparr>tc_given := n, tc_steers := tc_steers s @ [p]\<rparr>) = add_mset (pk_id p) (steer_places s)" for n p
    by (simp add: steer_places_def)
  with a Steer show ?thesis
    by (simp add: apply_input_def promptOrQueueSteer_def queueSteerAfterStop_def accounted_def Let_def atLeast0_lessThan_Suc)
qed (auto simp: apply_input_def interruptTurnForStop_def accounted_def)

lemma turn_run_accounted: "turn_run s \<Longrightarrow> accounted s"
proof (induction rule: turn_run.induct)
  case (start steerable conducted)
  then show ?case by (simp add: accounted_def steer_places_def launched_def)
qed (rule accounted_input)

end
