(* ===== verification/TurnSafety.thy ===== *)
theory TurnSafety
  imports TurnFacts
begin

text \<open>
  The armed stop against the event stream: what a session has told its clients is what its scan has
  read, and an armed stop leaves only while the scan has no tool call open.  Then the
  claims on every run, and the runs in which the code falls short of what its comments promise.
\<close>

subsection \<open>The scan reads what was told\<close>

definition told_events :: "tc_out list \<Rightarrow> ui_event list" where
  "told_events = List.map_filter (\<lambda>x. case x of Ui e \<Rightarrow> Some e | _ \<Rightarrow> None)"

lemma told_events_simps [simp]:
  "told_events [] = []" "told_events (Ui e # xs) = e # told_events xs"
  "told_events (xs @ ys) = told_events xs @ told_events ys"
  by (simp_all add: told_events_def List.map_filter_def)

definition stops_wait :: "tc_out list \<Rightarrow> bool" where
  "stops_wait xs \<longleftrightarrow> (\<forall>pre n post. xs = pre @ Sent_interrupt Armed_stop n # post \<longrightarrow>
     sc_tools (scan_events (told_events pre) new_scan) = [])"

lemma stops_wait_snoc:
  "stops_wait (xs @ [x]) \<longleftrightarrow> stops_wait xs \<and>
     ((\<exists>n. x = Sent_interrupt Armed_stop n) \<longrightarrow> sc_tools (scan_events (told_events xs) new_scan) = [])"
    (is "?l \<longleftrightarrow> ?a \<and> ?b")
proof
  assume l: ?l
  have ?a unfolding stops_wait_def using l by (auto simp: stops_wait_def)
  moreover have ?b using l by (auto simp: stops_wait_def)
  ultimately show "?a \<and> ?b" ..
next
  assume ab: "?a \<and> ?b"
  show ?l unfolding stops_wait_def
  proof (intro allI impI)
    fix pre n post assume eq: "xs @ [x] = pre @ Sent_interrupt Armed_stop n # post"
    show "sc_tools (scan_events (told_events pre) new_scan) = []"
      using ab eq by (cases post rule: rev_cases) (auto simp: stops_wait_def)
  qed
qed

definition tool_safe :: "turn_ctl \<Rightarrow> bool" where
  "tool_safe s \<longleftrightarrow> tc_scan s = scan_events (told_events (tc_out s)) new_scan \<and> stops_wait (tc_out s)"

lemma tool_safe_update [simp]:
  "tool_safe (s\<lparr>tc_status := a\<rparr>) = tool_safe s" "tool_safe (s\<lparr>tc_proc := b\<rparr>) = tool_safe s" "tool_safe (s\<lparr>tc_stdin := b\<rparr>) = tool_safe s"
  "tool_safe (s\<lparr>tc_interrupting := b\<rparr>) = tool_safe s" "tool_safe (s\<lparr>tc_armed := b\<rparr>) = tool_safe s" "tool_safe (s\<lparr>tc_fired := b\<rparr>) = tool_safe s"
  "tool_safe (s\<lparr>tc_armSeq := c\<rparr>) = tool_safe s" "tool_safe (s\<lparr>tc_deadline := b\<rparr>) = tool_safe s" "tool_safe (s\<lparr>tc_aborted := b\<rparr>) = tool_safe s"
  "tool_safe (s\<lparr>tc_stopInterrupted := b\<rparr>) = tool_safe s" "tool_safe (s\<lparr>tc_drain := d\<rparr>) = tool_safe s" "tool_safe (s\<lparr>tc_steers := e\<rparr>) = tool_safe s"
  "tool_safe (s\<lparr>tc_queue := f\<rparr>) = tool_safe s" "tool_safe (s\<lparr>tc_autoStopped := b\<rparr>) = tool_safe s" "tool_safe (s\<lparr>tc_resumeAt := b\<rparr>) = tool_safe s"
  "tool_safe (s\<lparr>tc_unarmed := b\<rparr>) = tool_safe s" "tool_safe (s\<lparr>tc_gate := b\<rparr>) = tool_safe s" "tool_safe (s\<lparr>tc_rewriting := b\<rparr>) = tool_safe s"
  "tool_safe (s\<lparr>tc_wake := b\<rparr>) = tool_safe s" "tool_safe (s\<lparr>tc_notified := b\<rparr>) = tool_safe s" "tool_safe (s\<lparr>tc_dirty := b\<rparr>) = tool_safe s"
  "tool_safe (s\<lparr>tc_agents := g\<rparr>) = tool_safe s" "tool_safe (s\<lparr>tc_pending := h\<rparr>) = tool_safe s" "tool_safe (s\<lparr>tc_next := c\<rparr>) = tool_safe s"
  "tool_safe (s\<lparr>tc_given := c\<rparr>) = tool_safe s" "tool_safe (s\<lparr>tc_micro := k\<rparr>) = tool_safe s" "tool_safe (s\<lparr>tc_sends := l\<rparr>) = tool_safe s"
  "tool_safe (openDrainWindow s) = tool_safe s" "tool_safe (closeDrainWindow s) = tool_safe s" "tool_safe (queue_micro m s) = tool_safe s"
  "tool_safe (clearInterruptArm s) = tool_safe s"
  by (simp_all add: tool_safe_def openDrainWindow_def closeDrainWindow_def queue_micro_def clearInterruptArm_def)

fun silent :: "tc_out \<Rightarrow> bool" where
  "silent (Ui _) = False"
| "silent (Sent_interrupt k _) = (k \<noteq> Armed_stop)"
| "silent _ = True"

lemma tool_safe_say [simp]: "silent x \<Longrightarrow> tool_safe (say x s) = tool_safe s"
  by (cases x) (auto simp: tool_safe_def stops_wait_snoc told_events_def List.map_filter_def)

lemma tool_safe_event: "tool_safe s \<Longrightarrow> tool_safe (say (Ui ev) (s\<lparr>tc_scan := scan_apply ev (tc_scan s)\<rparr>))"
  by (simp add: tool_safe_def stops_wait_snoc)

lemma tool_safe_request: "tool_safe s \<Longrightarrow> k = Armed_stop \<longrightarrow> sc_tools (tc_scan s) = [] \<Longrightarrow> tool_safe (controlRequest k s)"
  by (simp add: controlRequest_def Let_def) (auto simp: tool_safe_def stops_wait_snoc told_events_def List.map_filter_def)

lemma tool_safe_fire [simp]: "tool_safe s \<Longrightarrow> tool_safe (maybeFireArmedInterrupt s)"
  by (auto simp: maybeFireArmedInterrupt_def atInterruptBoundary_def intro!: tool_safe_request)

lemma tool_safe_emit_plain [simp]: "tool_safe s \<Longrightarrow> tool_safe (emit_plain ev s)" "tool_safe s \<Longrightarrow> tool_safe (emitSteerSettled s)"
  by (simp_all add: emit_plain_def emitSteerSettled_def tool_safe_event)

lemma tool_safe_emitUi [simp]: "tool_safe s \<Longrightarrow> tool_safe (emitUi ev s)"
proof -
  assume "tool_safe s"
  then have e: "tool_safe (say (Ui ev) (s\<lparr>tc_scan := scan_apply ev (tc_scan s)\<rparr>))" by (rule tool_safe_event)
  have "tool_safe (drain_hit t)" if "tool_safe t" for t
    using that by (auto simp: drain_hit_def intro!: tool_safe_request split: option.split)
  with e show ?thesis by (simp add: emitUi_def Let_def)
qed

lemma tool_safe_fold: "(\<And>x t. tool_safe t \<Longrightarrow> tool_safe (f x t)) \<Longrightarrow> tool_safe s \<Longrightarrow> tool_safe (fold f xs s)"
  by (induction xs arbitrary: s) simp_all

lemma tool_safe_reject [simp]: "tool_safe s \<Longrightarrow> tool_safe (reject_steers ids s)"
  by (simp add: reject_steers_def tool_safe_fold)

lemma tool_safe_setStatus [simp]: "tool_safe s \<Longrightarrow> tool_safe (setStatus nxt s)"
  by (simp add: setStatus_def enter_turn_def drop_steers_def leave_turn_def)

lemma tool_safe_settle [simp]: "tool_safe s \<Longrightarrow> tool_safe (settle_request q oc s)"
  by (simp add: settle_request_def)

lemma tool_safe_answer [simp]: "tool_safe s \<Longrightarrow> tool_safe (answer_request n oc s)"
  by (simp add: answer_request_def split: option.split)

lemma tool_safe_interrupt [simp]: "tool_safe s \<Longrightarrow> tool_safe (interrupt force deadline s)"
  by (simp add: interrupt_def tool_safe_request)

lemma tool_safe_deadline [simp]: "tool_safe s \<Longrightarrow> tool_safe (deadline_elapsed s)"
  by (simp add: deadline_elapsed_def Let_def)

lemma tool_safe_over [simp]: "tool_safe (prompt_over pa e s) = tool_safe s"
  by (simp add: prompt_over_def split: option.split)

lemma tool_safe_prompt_send [simp]: "tool_safe s \<Longrightarrow> tool_safe (prompt_send pa saved s)"
proof -
  assume "tool_safe s"
  then have "tool_safe (save_notices saved s)"
    unfolding save_notices_def by (rule tool_safe_fold [rotated]) (simp split: option.split)
  then show ?thesis by (simp add: prompt_send_def Let_def)
qed

lemma tool_safe_prompt [simp]: "tool_safe s \<Longrightarrow> tool_safe (prompt pa s)"
  by (simp add: prompt_def Let_def)

lemma tool_safe_micro [simp]: "tool_safe s \<Longrightarrow> tool_safe (run_micro m s)"
  by (cases m) (simp_all add: run_micro_def flushPendingSteers_def forced_settled_def armed_settled_def steers_sent_def
      tool_safe_fold Let_def split: req_kind.split req_outcome.split)

lemma tool_safe_track [simp]: "tool_safe s \<Longrightarrow> tool_safe (track_task ev s)" "tool_safe s \<Longrightarrow> tool_safe (answer_permission ev s)"
  by (simp_all add: track_task_def drop_agent_def answer_permission_def Let_def split: option.split json.split)

lemma tool_safe_end_turn [simp]: "tool_safe s \<Longrightarrow> tool_safe (end_turn s)"
  by (simp add: end_turn_def Let_def)

lemma tool_safe_line [simp]: "tool_safe s \<Longrightarrow> tool_safe (handle_event ev resp s)"
  by (simp add: handle_event_def event_steps Let_def split: option.split)

lemma tool_safe_input: "tool_safe s \<Longrightarrow> tool_safe (apply_input i s)"
  by (cases i) (simp_all add: apply_input_def promptOrQueueSteer_def queueSteerAfterStop_def interruptTurnForStop_def
      handleExit_def tool_safe_request tool_safe_fold Let_def split: list.split)

lemma turn_run_tool_safe: "turn_run s \<Longrightarrow> tool_safe s"
proof (induction rule: turn_run.induct)
  case (start steerable conducted)
  show ?case by (simp add: tool_safe_def stops_wait_def launched_def)
qed (rule tool_safe_input)

subsection \<open>Concrete runs\<close>

lemma run_inputs_run: "run_inputs is s = Some s' \<Longrightarrow> turn_run s \<Longrightarrow> turn_run s'"
  by (induction "is" arbitrary: s) (auto split: if_splits intro: turn_run.step)

lemma run_from_launch: "run_inputs is (launched st co) = Some s \<Longrightarrow> turn_run s"
  by (erule run_inputs_run) (rule turn_run.start)

abbreviation started :: tc_input where
  "started \<equiv> Line (plain_ev Message_start) None"

abbreviation ended :: tc_input where
  "ended \<equiv> Line (plain_ev Turn_end) None"

abbreviation calls :: tc_input where
  "calls \<equiv> Line ((plain_ev Tool_use)\<lparr>ev_tool := Some ''t'', ev_msg := Some ''m'', ev_block := Some 0\<rparr>) None"

abbreviation returns :: tc_input where
  "returns \<equiv> Line ((plain_ev Tool_result)\<lparr>ev_tool := Some ''t''\<rparr>) None"

abbreviation init_line :: tc_input where
  "init_line \<equiv> Line (system_ev ''init'') None"

abbreviation acks :: "nat \<Rightarrow> tc_input" where
  "acks n \<equiv> Line (plain_ev Control_response) (Some (n, True))"

abbreviation says :: "string \<Rightarrow> tc_input" where
  "says t \<equiv> Prompt_now \<lparr>pa_text = t, pa_atts = [], pa_note = None, pa_annotate = True, pa_internal = False,
     pa_author = None, pa_steers = []\<rparr>"

text \<open>A session on a model that drops mid-turn messages: a steer parked behind a running tool, delivered after the stop.\<close>

definition steered_run :: "tc_input list" where
  "steered_run = [Ready, says ''go'', calls, Steer ''b'' [] None, returns, acks 0, ended, Run_micro, Run_micro, Run_micro, Run_micro, ended]"

definition steered :: turn_ctl where
  "steered = the (run_inputs steered_run (launched False True))"

lemma steered_runs: "turn_run steered"
proof (rule run_from_launch)
  show "run_inputs steered_run (launched False True) = Some steered" by code_simp
qed

subsection \<open>The claims\<close>

definition turn_mark :: "ui_event \<Rightarrow> bool" where
  "turn_mark e \<longleftrightarrow> \<not> nested e \<and> ev_kind e \<in> {Turn_end, Turn_boundary}"

definition prompt_echo :: "ui_event \<Rightarrow> bool" where
  "prompt_echo e \<longleftrightarrow> \<not> nested e \<and> ev_kind e = User_echo"

text \<open>
  C9. In every run of a session, whatever is prompted, steered, stopped, answered or lost: when an
  armed stop is sent to the subprocess, then after every tool call of the outer agent the session
  has told its clients of it has told them of the call's result, of the end of a turn, or of a
  prompt.  (The third case is real: a prompt accepted in mid-turn empties the scan, and the stop no
  longer waits for the tool at work.  A sub-agent's own calls are not waited for; the call that
  started the sub-agent is.)
\<close>

theorem armed_stop_waits_for_tools:
  assumes "turn_run s" "tc_out s = pre @ Sent_interrupt Armed_stop n # post"
    and "told_events pre = before @ e # after" "calls_tool t e"
  shows "\<exists>x \<in> set after. answers_tool t x \<or> turn_mark x \<or> prompt_echo x"
proof -
  have "sc_tools (scan_events (told_events pre) new_scan) = []"
    using turn_run_tool_safe [OF assms(1)] assms(2) by (auto simp: tool_safe_def stops_wait_def)
  then have "\<not> tool_pending (told_events pre) t"
    using scan_tracks_what_is_open(2) [of t "told_events pre"] by simp
  then show ?thesis
    using assms(3,4) unfolding tool_pending_def pending_def resets_def turn_mark_def prompt_echo_def by blast
qed

lemma armed_stop_waits_for_tools_witness:
  "\<exists>x \<in> set (drop 2 (told_events (take 10 (tc_out steered)))). answers_tool ''t'' x \<or> turn_mark x \<or> prompt_echo x"
proof (rule armed_stop_waits_for_tools [OF steered_runs])
  show "tc_out steered = take 10 (tc_out steered) @ Sent_interrupt Armed_stop 0 # drop 11 (tc_out steered)" by code_simp
  show "told_events (take 10 (tc_out steered)) = take 1 (told_events (take 10 (tc_out steered)))
      @ told_events (take 10 (tc_out steered)) ! 1 # drop 2 (told_events (take 10 (tc_out steered)))" by code_simp
  show "calls_tool ''t'' (told_events (take 10 (tc_out steered)) ! 1)" by code_simp
qed

text \<open>
  The third case: on a model that takes messages in mid-turn, a prompt sent while a stop waits for a
  tool makes it leave at once, the tool unanswered and its turn still on, against the comment at
  \<open>_atInterruptBoundary\<close> that nothing but its result or a turn boundary releases a call.
\<close>

definition prompted_stop_run :: "tc_input list" where
  "prompted_stop_run = [Ready, says ''go'', calls, Stop_turn False False, says ''and this'']"

theorem prompt_releases_the_armed_stop:
  "case run_inputs prompted_stop_run (launched True False) of None \<Rightarrow> False
   | Some s \<Rightarrow> tc_status s = In_turn \<and> Sent_interrupt Armed_stop 0 \<in> set (tc_out s)
       \<and> list_all (\<lambda>e. \<not> answers_tool ''t'' e \<and> \<not> turn_mark e) (told_events (tc_out s))"
  by code_simp

text \<open>
  C10. Every steer is answered, exactly once: whenever a session is out of its turn with no microtask
  queued and no attachment being saved, the steers told delivered or failed are all those it was given,
  each once; none is stranded in the queue, none is delivered or reported twice.
\<close>

theorem every_steer_is_answered_once:
  assumes "turn_run s" "tc_status s \<noteq> In_turn" "tc_micro s = []" "tc_sends s = []"
  shows "mset (concat (map told_steers (tc_out s))) = mset [0..<tc_given s]"
proof -
  have "tc_steers s = []" using turn_run_kept [OF assms(1)] assms(2,3) by (simp add: kept_def steer_ok_def)
  with turn_run_accounted [OF assms(1)] assms(3,4) show ?thesis by (simp add: accounted_def steer_places_def)
qed

lemma every_steer_is_answered_once_witness: "mset (concat (map told_steers (tc_out steered))) = mset [0..<tc_given steered]"
proof (rule every_steer_is_answered_once [OF steered_runs])
  show "tc_status steered \<noteq> In_turn" by code_simp
  show "tc_micro steered = []" by code_simp
  show "tc_sends steered = []" by code_simp
qed

text \<open>
  C31. A stop never outlives its turn: in every run a session that is not in its turn shows no stop, has
  none armed and none counted as sent, and the deadline that would force one is off.
\<close>

theorem stop_never_outlives_its_turn:
  assumes "turn_run s" "tc_status s \<noteq> In_turn"
  shows "\<not> tc_interrupting s \<and> \<not> tc_armed s \<and> \<not> tc_fired s \<and> \<not> tc_deadline s"
  using turn_run_kept [OF assms(1)] assms(2) by (auto simp: kept_def arm_ok_def)

lemma stop_never_outlives_its_turn_witness:
  "\<not> tc_interrupting steered \<and> \<not> tc_armed steered \<and> \<not> tc_fired steered \<and> \<not> tc_deadline steered"
proof (rule stop_never_outlives_its_turn [OF steered_runs])
  show "tc_status steered \<noteq> In_turn" by code_simp
qed

definition killed_run :: "tc_input list" where
  "killed_run = [Ready, says ''go'', calls, Stop_turn False False, Kill False, returns, Run_micro, Process_exit False]"

text \<open>
  A stop armed behind a running tool and overtaken by a kill ends in an unhandled rejection: the kill
  closes the subprocess's stdin, the tool's result then reaches the boundary, the interrupt cannot be
  written, and its promise, registered before the write and held by nobody, is rejected at the exit.
\<close>

theorem dead_stdin_request_is_unhandled:
  "case run_inputs killed_run (launched True conducted) of None \<Rightarrow> False | Some s \<Rightarrow> Unhandled_rejection 0 \<in> set (tc_out s)"
proof (cases conducted)
  case True
  show ?thesis unfolding eqTrueI [OF True] by code_simp
next
  case False
  then have "conducted = False" by simp
  then show ?thesis unfolding \<open>conducted = False\<close> by code_simp
qed

subsection \<open>Runs in which the promises fail\<close>

text \<open>The output a subprocess had buffered when it exited is still read, and a turn's end takes the session out of the dead.\<close>

definition late_run :: "tc_input list" where
  "late_run = [Ready, says ''go'', Process_exit False, ended, started]"

lemma late_output_revives_a_dead_session:
  "map_option (\<lambda>s. (tc_status s, tc_proc s)) (run_inputs late_run (launched True False)) = Some (In_turn, False)"
  by code_simp

text \<open>
  A forced stop's acknowledgement and the turn's end in one chunk: the flush of the parked steer runs before
  the continuation of the acknowledgement, which then opens the window that severs the steer's own turn.
\<close>

definition severed_run :: "tc_input list" where
  "severed_run = [Ready, says ''go'', calls, Steer ''hey'' [] None, Stop_turn True False, acks 0, ended,
     Run_micro, Run_micro, Run_micro, Run_micro, init_line]"

definition sends :: "tc_out \<Rightarrow> bool" where
  "sends x = (case x of Sent_message _ \<Rightarrow> True | Sent_interrupt _ _ \<Rightarrow> True | _ \<Rightarrow> False)"

lemma acknowledged_stop_severs_the_steer:
  "map_option (\<lambda>s. filter sends (tc_out s)) (run_inputs severed_run (launched False False)) =
     Some [Sent_message [Words ''go''], Sent_interrupt Forced_stop 0,
           Sent_message [Note_block Post_stop_note, Words ''hey''], Sent_interrupt Drain_stop 1]"
  by code_simp

text \<open>A turn the subprocess starts between the stop and the flush gets the steer mid-turn, on a model that drops it.\<close>

definition overtaken_run :: "tc_input list" where
  "overtaken_run = [Ready, says ''go'', calls, Steer ''hey'' [] None, ended, started]"

lemma flushed_into_a_running_turn:
  "map_option (\<lambda>s. (needsPostStopSteer s, filter sends (tc_out (apply_input Run_micro s)))) (run_inputs overtaken_run (launched False False)) =
     Some (True, [Sent_message [Words ''go''], Sent_message [Note_block Post_stop_note, Words ''hey'']])"
  by code_simp

text \<open>The timeout of one turn's stop disarms the next turn's.\<close>

definition stale_run :: "tc_input list" where
  "stale_run = [Ready, says ''go'', Stop_turn False False, ended, says ''b'', calls, Stop_turn False False,
     Request_timeout 0, Run_micro, Run_micro]"

lemma stale_timeout_disarms_the_next_stop:
  "map_option (\<lambda>s. (tc_status s, tc_armed s, filter sends (tc_out (apply_input returns s)))) (run_inputs stale_run (launched True False)) =
     Some (In_turn, False, [Sent_message [Words ''go''], Sent_interrupt Armed_stop 0, Sent_message [Words ''b'']])"
  by code_simp

end
