(* ===== verification/SessionRefs.thy ===== *)
theory SessionRefs
  imports SessionWrites "HOL-Library.Sublist"
begin

text \<open>
  How an id that an agent types is resolved, as \<open>InstanceManager\<close> of \<open>src/instances.ts\<close> does it: the
  candidate map over the registry and the lineage index, the shared decision, the two resolvers built on
  it, and the registry's answers for one session.  Of an instance the model keeps what these read.
\<close>

subsection \<open>The registry\<close>

record ref_instance =
  ri_id :: string
  ri_session :: "string option"
  ri_segments :: "string list"
  ri_proc :: bool
  ri_rotating :: bool
  ri_relaunching :: bool

text \<open>A public id is truthy: neither missing nor empty.\<close>

definition public_of :: "ref_instance \<Rightarrow> string option" where
  "public_of i = (case ri_session i of Some p \<Rightarrow> if p = [] then None else Some p | None \<Rightarrow> None)"

definition answersTo :: "ref_instance \<Rightarrow> string \<Rightarrow> bool" where
  "answersTo i x \<longleftrightarrow> ri_session i = Some x \<or> x \<in> set (ri_segments i)"

definition isLiveOrComingUp :: "ref_instance \<Rightarrow> bool" where
  "isLiveOrComingUp i \<longleftrightarrow> ri_proc i \<or> ri_rotating i \<or> ri_relaunching i"

type_synonym registry = "(string, ref_instance) jmap"

definition idsForSession :: "registry \<Rightarrow> string \<Rightarrow> string list" where
  "idsForSession reg x = map ri_id (filter (\<lambda>i. answersTo i x) (jvals reg))"

definition liveForSession :: "registry \<Rightarrow> string \<Rightarrow> ref_instance option" where
  "liveForSession reg x = List.find ri_proc (List.map_filter (map_of reg) (idsForSession reg x))"

definition anyForSession :: "registry \<Rightarrow> string \<Rightarrow> ref_instance option" where
  "anyForSession reg x = (case List.map_filter (map_of reg) (idsForSession reg x) of [] \<Rightarrow> None | i # _ \<Rightarrow> Some i)"

definition isSessionLive :: "string list \<Rightarrow> registry \<Rightarrow> string \<Rightarrow> bool" where
  "isSessionLive resuming reg x \<longleftrightarrow> x \<in> set resuming \<or>
     list_ex (\<lambda>n. case map_of reg n of Some i \<Rightarrow> isLiveOrComingUp i | None \<Rightarrow> False) (idsForSession reg x)"

subsection \<open>Candidates and the decision\<close>

datatype session_ref = Resolved string | Ambiguous "string list" bool | No_match

definition SESSION_PREFIX_MIN :: nat where "SESSION_PREFIX_MIN = 4"

definition claim :: "string \<Rightarrow> string \<Rightarrow> (string, string) jmap \<Rightarrow> (string, string) jmap" where
  "claim c p m = (if jhas m c then m else jput c p m)"

definition claim_publics :: "registry \<Rightarrow> (string, string) jmap \<Rightarrow> (string, string) jmap" where
  "claim_publics reg = fold (\<lambda>i m. case public_of i of Some p \<Rightarrow> jput p p m | None \<Rightarrow> m) (jvals reg)"

definition claim_segments :: "registry \<Rightarrow> (string, string) jmap \<Rightarrow> (string, string) jmap" where
  "claim_segments reg = fold (\<lambda>i m. case public_of i of Some p \<Rightarrow> fold (\<lambda>g. claim g p) (ri_segments i) m | None \<Rightarrow> m) (jvals reg)"

definition refOwners :: "registry \<Rightarrow> session_index option \<Rightarrow> (string, string) jmap" where
  "refOwners reg ix =
     (let m1 = claim_publics reg [];
          m2 = (case ix of Some x \<Rightarrow> fold (\<lambda>p. claim p p) (jkeys (byPublic x)) m1 | None \<Rightarrow> m1);
          m3 = claim_segments reg m2
      in case ix of Some x \<Rightarrow> fold (\<lambda>(g, p). claim g p) (byBacking x) m3 | None \<Rightarrow> m3)"

definition prefix_owners :: "(string, string) jmap \<Rightarrow> string \<Rightarrow> string list" where
  "prefix_owners owner x = fold (\<lambda>(c, p) ps. if prefix x c \<and> p \<notin> set ps then ps @ [p] else ps) owner []"

definition decideSessionRef :: "(string, string) jmap \<Rightarrow> string \<Rightarrow> session_ref" where
  "decideSessionRef owner x =
     (case map_of owner x of
        Some p \<Rightarrow> Resolved p
      | None \<Rightarrow>
          (case prefix_owners owner x of
             [] \<Rightarrow> No_match
           | ps \<Rightarrow> if length x < SESSION_PREFIX_MIN then Ambiguous ps True
                   else if length ps = 1 then Resolved (hd ps)
                   else Ambiguous ps False))"

definition resolveSessionRef :: "registry \<Rightarrow> json \<Rightarrow> session_ref" where
  "resolveSessionRef reg v =
     (case v of JStr x \<Rightarrow> if x = [] then No_match else decideSessionRef (refOwners reg None) x | _ \<Rightarrow> No_match)"

datatype resume_ref = Resume_as string string | Resume_ambiguous "string list" bool | Resume_no_match

definition resolveResumeRef :: "registry \<Rightarrow> session_index \<Rightarrow> json \<Rightarrow> resume_ref" where
  "resolveResumeRef reg ix v =
     (case v of
        JStr x \<Rightarrow>
          if x = [] then Resume_no_match
          else
            (let owner = refOwners reg (Some ix) in
             case decideSessionRef owner x of
               No_match \<Rightarrow> Resume_no_match
             | Ambiguous ps short \<Rightarrow> Resume_ambiguous ps short
             | Resolved p \<Rightarrow> Resume_as p (if jhas owner x then x else p))
      | _ \<Rightarrow> Resume_no_match)"

end
