(* ===== verification/RefFacts.thy ===== *)
theory RefFacts
  imports SessionRefs SessionDemo
begin

text \<open>
  What an id an agent types may mean.  The candidate map is a priority union, public ids of both
  universes before any segment; the decision resolves exactly the candidates and the prefixes of one
  session; what a resume is handed belongs to the session the policy gate is shown; and a session is
  live exactly when some instance answering to it is.
\<close>

subsection \<open>The candidate map\<close>

abbreviation claims :: "(string \<times> string) list \<Rightarrow> (string, string) jmap \<Rightarrow> (string, string) jmap" where
  "claims xs \<equiv> fold (\<lambda>(c, p). claim c p) xs"

text \<open>Whoever claims a candidate first keeps it.\<close>

lemma map_of_claim: "map_of (claim d p m) c = (case map_of m c of Some q \<Rightarrow> Some q | None \<Rightarrow> if c = d then Some p else None)"
  by (auto simp: claim_def jhas_def map_of_jput split: option.split)

lemma map_of_claims: "map_of (claims xs m) c = (case map_of m c of Some p \<Rightarrow> Some p | None \<Rightarrow> map_of xs c)"
proof (induction xs arbitrary: m)
  case (Cons x xs)
  obtain d p where x: "x = (d, p)" by fastforce
  have "map_of (claims (x # xs) m) c = map_of (claims xs (claim d p m)) c" by (simp add: x)
  also have "\<dots> = (case map_of (claim d p m) c of Some p \<Rightarrow> Some p | None \<Rightarrow> map_of xs c)" by (rule Cons.IH)
  finally show ?case by (simp add: x map_of_claim split: option.split)
qed (simp split: option.split)

lemma claims_ok: "jmap_ok m \<Longrightarrow> jmap_ok (claims xs m)"
proof (induction xs arbitrary: m)
  case (Cons x xs)
  obtain d p where x: "x = (d, p)" by fastforce
  have "jmap_ok (claim d p m)" using Cons.prems by (simp add: claim_def jmap_ok_jput)
  from Cons.IH [OF this] show ?case by (simp add: x)
qed simp

definition public_pairs :: "registry \<Rightarrow> (string \<times> string) list" where
  "public_pairs reg = map (\<lambda>p. (p, p)) (List.map_filter public_of (jvals reg))"

definition segment_pairs :: "registry \<Rightarrow> (string \<times> string) list" where
  "segment_pairs reg = concat (map (\<lambda>i. case public_of i of Some p \<Rightarrow> map (\<lambda>g. (g, p)) (ri_segments i) | None \<Rightarrow> []) (jvals reg))"

lemma publics_claim:
  "(\<And>c p. map_of m c = Some p \<Longrightarrow> p = c) \<Longrightarrow>
   map_of (claim_publics reg m) c = (case map_of m c of Some p \<Rightarrow> Some p | None \<Rightarrow> map_of (public_pairs reg) c)"
proof (induction reg arbitrary: m)
  case (Cons x reg)
  obtain n i where x: "x = (n, i)" by fastforce
  show ?case
  proof (cases "public_of i")
    case None
    from Cons.IH [of m] Cons.prems have "map_of (claim_publics reg m) c = (case map_of m c of Some p \<Rightarrow> Some p | None \<Rightarrow> map_of (public_pairs reg) c)" by blast
    moreover have "public_pairs (x # reg) = public_pairs reg" "claim_publics (x # reg) m = claim_publics reg m"
      by (simp_all add: x None claim_publics_def public_pairs_def)
    ultimately show ?thesis by (simp split: option.split)
  next
    case (Some p)
    have "q = d" if "map_of (jput p p m) d = Some q" for d q
      using that Cons.prems [of d q] by (simp add: map_of_jput split: if_splits)
    from Cons.IH [of "jput p p m", OF this] have "map_of (claim_publics reg (jput p p m)) c =
        (case map_of (jput p p m) c of Some p \<Rightarrow> Some p | None \<Rightarrow> map_of (public_pairs reg) c)" by blast
    moreover have "claim_publics (x # reg) m = claim_publics reg (jput p p m)" by (simp add: x Some claim_publics_def)
    moreover have "public_pairs (x # reg) = (p, p) # public_pairs reg" by (simp add: x Some public_pairs_def)
    ultimately show ?thesis using Cons.prems [of c] by (auto simp: map_of_jput split: option.split)
  qed
qed (simp add: claim_publics_def public_pairs_def split: option.split)

lemma segments_claim: "claim_segments reg m = claims (segment_pairs reg) m"
proof (induction reg arbitrary: m)
  case (Cons x reg)
  obtain n i where x: "x = (n, i)" by fastforce
  have "fold (\<lambda>g. claim g p) gs m = claims (map (\<lambda>g. (g, p)) gs) m" for gs p
    by (induction gs arbitrary: m) auto
  with Cons.IH show ?case by (simp add: x claim_segments_def segment_pairs_def split: option.split)
qed (simp add: claim_segments_def segment_pairs_def)

definition stored_pairs :: "session_index option \<Rightarrow> (string \<times> string) list" where
  "stored_pairs ix = (case ix of Some x \<Rightarrow> map (\<lambda>p. (p, p)) (jkeys (byPublic x)) | None \<Rightarrow> [])"

definition backing_pairs :: "session_index option \<Rightarrow> (string \<times> string) list" where
  "backing_pairs ix = (case ix of Some x \<Rightarrow> byBacking x | None \<Rightarrow> [])"

text \<open>The candidate map as one list, in the order of the claims: the first entry of a candidate owns it.\<close>

definition candidates :: "registry \<Rightarrow> session_index option \<Rightarrow> (string \<times> string) list" where
  "candidates reg ix = public_pairs reg @ stored_pairs ix @ segment_pairs reg @ backing_pairs ix"

lemma refOwners_candidates: "map_of (refOwners reg ix) c = map_of (candidates reg ix) c"
proof -
  have keys: "fold (\<lambda>p. claim p p) ks m = claims (map (\<lambda>p. (p, p)) ks) m" for ks m by (induction ks arbitrary: m) auto
  have "refOwners reg ix = claims (backing_pairs ix) (claims (segment_pairs reg) (claims (stored_pairs ix) (claim_publics reg [])))"
    by (simp add: refOwners_def Let_def segments_claim stored_pairs_def backing_pairs_def keys split: option.split)
  moreover have "map_of (claim_publics reg []) c = map_of (public_pairs reg) c"
    by (subst publics_claim) simp_all
  ultimately show ?thesis
    by (simp add: candidates_def map_of_claims map_add_def split: option.split)
qed

lemma refOwners_ok: "jmap_ok (refOwners reg ix)"
proof -
  have "jmap_ok (claim_publics reg m)" if "jmap_ok m" for m
    using that by (induction reg arbitrary: m) (auto simp: claim_publics_def split: option.split)
  moreover have "fold (\<lambda>p. claim p p) ks m = claims (map (\<lambda>p. (p, p)) ks) m" for ks m by (induction ks arbitrary: m) auto
  ultimately show ?thesis
    by (auto simp: refOwners_def Let_def segments_claim claims_ok split: option.split)
qed

subsection \<open>The decision\<close>

abbreviation collect_owners :: "string \<Rightarrow> (string, string) jmap \<Rightarrow> string list \<Rightarrow> string list" where
  "collect_owners x \<equiv> fold (\<lambda>(c, p) ps. if prefix x c \<and> p \<notin> set ps then ps @ [p] else ps)"

lemma prefix_owners_fold:
  "set (collect_owners x m ps) = set ps \<union> {p. \<exists>c. (c, p) \<in> set m \<and> prefix x c} \<and> (distinct ps \<longrightarrow> distinct (collect_owners x m ps))"
proof (induction m arbitrary: ps)
  case (Cons e m)
  obtain c p where e: "e = (c, p)" by fastforce
  define qs where "qs = (if prefix x c \<and> p \<notin> set ps then ps @ [p] else ps)"
  have qs: "set qs = set ps \<union> {q. q = p \<and> prefix x c}" "distinct ps \<Longrightarrow> distinct qs" by (auto simp: qs_def)
  have "collect_owners x (e # m) ps = collect_owners x m qs" by (simp add: e qs_def)
  then show ?case using Cons.IH [of qs] qs by (auto simp: e simp del: fold_simps)
qed simp

lemma prefix_owners_set: "set (prefix_owners owner x) = {p. \<exists>c. (c, p) \<in> set owner \<and> prefix x c}"
  unfolding prefix_owners_def by (subst conjunct1 [OF prefix_owners_fold]) simp

lemma prefix_owners_distinct: "distinct (prefix_owners owner x)"
  using prefix_owners_fold [of x owner "[]"] unfolding prefix_owners_def by simp

text \<open>The sessions some candidate of which starts with an input.\<close>

definition matching :: "(string, string) jmap \<Rightarrow> string \<Rightarrow> string set" where
  "matching owner x = {p. \<exists>c. map_of owner c = Some p \<and> prefix x c}"

lemma matching_owners: "jmap_ok owner \<Longrightarrow> matching owner x = set (prefix_owners owner x)"
  by (auto simp: matching_def prefix_owners_set jmap_ok_def)

lemma matching_candidate: "map_of owner x = Some p \<Longrightarrow> p \<in> matching owner x"
  by (auto simp: matching_def)

lemma singleton_list: "distinct ps \<Longrightarrow> set ps = {p} \<longleftrightarrow> ps = [p]"
  by (cases ps) (auto simp: subset_singleton_iff)

lemma decide_resolved:
  assumes "jmap_ok owner"
  shows "decideSessionRef owner x = Resolved p \<longleftrightarrow> map_of owner x = Some p \<or>
      map_of owner x = None \<and> SESSION_PREFIX_MIN \<le> length x \<and> matching owner x = {p}"
proof (cases "map_of owner x")
  case None
  show ?thesis unfolding matching_owners [OF assms] singleton_list [OF prefix_owners_distinct]
    using None by (cases "prefix_owners owner x") (auto simp: decideSessionRef_def)
qed (simp add: decideSessionRef_def)

lemma decide_no_match:
  assumes "jmap_ok owner"
  shows "decideSessionRef owner x = No_match \<longleftrightarrow> matching owner x = {}"
proof (cases "map_of owner x")
  case None
  show ?thesis unfolding matching_owners [OF assms]
    using None by (cases "prefix_owners owner x") (auto simp: decideSessionRef_def)
next
  case (Some p)
  with matching_candidate [OF Some] show ?thesis by (auto simp: decideSessionRef_def)
qed

lemma decide_ambiguous:
  assumes "jmap_ok owner" "decideSessionRef owner x = Ambiguous ps short"
  shows "distinct ps" "set ps = matching owner x" "map_of owner x = None" "short \<longleftrightarrow> length x < SESSION_PREFIX_MIN" "short \<or> 2 \<le> length ps"
proof -
  have n: "map_of owner x = None" using assms(2) by (auto simp: decideSessionRef_def split: option.splits)
  obtain q qs where q: "prefix_owners owner x = q # qs" using assms(2) n by (auto simp: decideSessionRef_def split: list.splits)
  with assms(2) n have "ps = q # qs" "short = (length x < SESSION_PREFIX_MIN)" "short \<or> qs \<noteq> []"
    by (auto simp: decideSessionRef_def split: if_splits)
  then show "distinct ps" "set ps = matching owner x" "map_of owner x = None" "short \<longleftrightarrow> length x < SESSION_PREFIX_MIN" "short \<or> 2 \<le> length ps"
    using n prefix_owners_distinct [of owner x] matching_owners [OF assms(1), of x] by (auto simp: q Suc_le_eq)
qed

subsection \<open>The claims\<close>

text \<open>
  C24. What an id means, exactly: a reference resolves to a session if and only if it is one of the
  session's own ids, a public id beating any segment and the registry beating the store, or it is nobody's
  id, is at least four characters long, and that session alone has an id starting with it.  Everything
  else is refused, never guessed.
\<close>

theorem reference_resolves_iff_exact_or_unique:
  "decideSessionRef (refOwners reg ix) x = Resolved p \<longleftrightarrow>
     (case map_of (candidates reg ix) x of
        Some q \<Rightarrow> q = p
      | None \<Rightarrow> 4 \<le> length x \<and> {q. \<exists>c. map_of (candidates reg ix) c = Some q \<and> prefix x c} = {p})"
  unfolding decide_resolved [OF refOwners_ok] matching_def refOwners_candidates SESSION_PREFIX_MIN_def
  by (auto split: option.split)

text \<open>The registry is keyed by instance, and the ids its instances run under are what the store says of them.\<close>

definition registry_ok :: "registry \<Rightarrow> bool" where
  "registry_ok reg \<longleftrightarrow> jmap_ok reg \<and> (\<forall>(n, i) \<in> set reg. ri_id i = n)"

definition registry_agrees :: "registry \<Rightarrow> session_index \<Rightarrow> bool" where
  "registry_agrees reg ix \<longleftrightarrow> (\<forall>i \<in> set (jvals reg). case public_of i of
     Some p \<Rightarrow> publicIdFor ix p = p \<and> (\<forall>g \<in> set (ri_segments i). publicIdFor ix g = p) | None \<Rightarrow> True)"

lemma public_pairs_mem: "(c, p) \<in> set (public_pairs reg) \<longleftrightarrow> c = p \<and> (\<exists>i \<in> set (jvals reg). public_of i = Some p)"
proof -
  have "p \<in> set (List.map_filter public_of is) \<longleftrightarrow> (\<exists>i \<in> set is. public_of i = Some p)" for "is"
    by (induction "is") (auto simp: List.map_filter_def)
  from this [of "jvals reg"] show ?thesis unfolding public_pairs_def by auto
qed

lemma segment_pairs_mem: "(c, p) \<in> set (segment_pairs reg) \<longleftrightarrow> (\<exists>i \<in> set (jvals reg). public_of i = Some p \<and> c \<in> set (ri_segments i))"
proof -
  have "(c, p) \<in> set (case public_of i of Some p \<Rightarrow> map (\<lambda>g. (g, p)) (ri_segments i) | None \<Rightarrow> []) \<longleftrightarrow>
      public_of i = Some p \<and> c \<in> set (ri_segments i)" for i
    by (auto split: option.split)
  then show ?thesis unfolding segment_pairs_def set_concat by auto
qed

lemma candidate_cases:
  assumes "map_of (candidates reg ix) c = Some p"
  obtains (Public) i where "c = p" "i \<in> set (jvals reg)" "public_of i = Some p"
  | (Stored) "c = p" "ix \<noteq> None" "jhas (byPublic (the ix)) c"
  | (Segment) i where "i \<in> set (jvals reg)" "public_of i = Some p" "c \<in> set (ri_segments i)"
  | (Backing) "ix \<noteq> None" "\<not> jhas (byPublic (the ix)) c" "map_of (byBacking (the ix)) c = Some p"
proof -
  have stored: "map_of (stored_pairs ix) c = (if ix \<noteq> None \<and> jhas (byPublic (the ix)) c then Some c else None)"
  proof -
    have "map_of (map (\<lambda>p. (p, p)) ks) c = (if c \<in> set ks then Some c else None)" for ks
      by (induction ks) auto
    from this [of "jkeys (byPublic (the ix))"] show ?thesis unfolding stored_pairs_def jhas_iff by (cases ix) simp_all
  qed
  from assms consider "map_of (public_pairs reg) c = Some p" | "map_of (stored_pairs ix) c = Some p" | "map_of (segment_pairs reg) c = Some p"
    | "map_of (stored_pairs ix) c = None" "map_of (backing_pairs ix) c = Some p"
    by (auto simp: candidates_def map_add_def split: option.splits)
  then show thesis
  proof cases
    case 1
    from public_pairs_mem [THEN iffD1, OF map_of_SomeD [OF 1]] show thesis using Public by blast
  next
    case 2
    then show thesis using Stored stored by (auto split: if_splits)
  next
    case 3
    from segment_pairs_mem [THEN iffD1, OF map_of_SomeD [OF 3]] show thesis using Segment by blast
  next
    case 4
    then show thesis using Backing stored by (auto simp: backing_pairs_def split: option.splits if_splits)
  qed
qed

lemma registry_agreesD:
  assumes "registry_agrees reg ix" "i \<in> set (jvals reg)" "public_of i = Some p"
  shows "publicIdFor ix p = p" "g \<in> set (ri_segments i) \<Longrightarrow> publicIdFor ix g = p"
  using bspec [OF assms(1) [unfolded registry_agrees_def] assms(2)] assms(3) by auto

lemma candidate_owner:
  assumes "doc_good doc" "registry_agrees reg (indexSessions doc)" "map_of (candidates reg (Some (indexSessions doc))) c = Some p"
  shows "c \<noteq> [] \<longrightarrow> publicIdFor (indexSessions doc) c = p" "publicIdFor (indexSessions doc) p = p"
proof -
  have "(c \<noteq> [] \<longrightarrow> publicIdFor (indexSessions doc) c = p) \<and> publicIdFor (indexSessions doc) p = p"
    using assms(3)
  proof (cases rule: candidate_cases)
    case Backing
    then obtain r where "map_of doc p = Some r" using byBacking_iff [OF assms(1)] by auto
    then have "jhas doc p" by (rule jhas_Some)
    with Backing show ?thesis by (auto simp: publicIdFor_def)
  next
    case Stored
    then show ?thesis by (simp add: publicIdFor_def)
  qed (use registry_agreesD [OF assms(2)] in simp_all)
  then show "c \<noteq> [] \<longrightarrow> publicIdFor (indexSessions doc) c = p" "publicIdFor (indexSessions doc) p = p" by simp_all
qed

text \<open>Without that agreement an id belongs to its session by the store, or by a registered instance of it.\<close>

definition registered_id :: "registry \<Rightarrow> string \<Rightarrow> string \<Rightarrow> bool" where
  "registered_id reg p c \<longleftrightarrow> (\<exists>i \<in> set (jvals reg). public_of i = Some p \<and> (c = p \<or> c \<in> set (ri_segments i)))"

lemma candidate_belongs:
  assumes "doc_good doc" "map_of (candidates reg (Some (indexSessions doc))) c = Some p"
  shows "(c \<noteq> [] \<longrightarrow> publicIdFor (indexSessions doc) c = p) \<or> registered_id reg p c"
    and "publicIdFor (indexSessions doc) p = p \<or> registered_id reg p p"
proof -
  have "((c \<noteq> [] \<longrightarrow> publicIdFor (indexSessions doc) c = p) \<or> registered_id reg p c)
      \<and> (publicIdFor (indexSessions doc) p = p \<or> registered_id reg p p)"
    using assms(2)
  proof (cases rule: candidate_cases)
    case Backing
    then obtain r where "map_of doc p = Some r" using byBacking_iff [OF assms(1)] by auto
    then have "jhas doc p" by (rule jhas_Some)
    with Backing show ?thesis by (auto simp: publicIdFor_def)
  next
    case Stored
    then show ?thesis by (simp add: publicIdFor_def)
  qed (auto simp: registered_id_def)
  then show "(c \<noteq> [] \<longrightarrow> publicIdFor (indexSessions doc) c = p) \<or> registered_id reg p c"
    "publicIdFor (indexSessions doc) p = p \<or> registered_id reg p p" by simp_all
qed

text \<open>
  C23. A resume reaches the session the policy gate was shown.  Whenever a \<open>resume\<close> argument resolves,
  what the launch is handed is the session's handle or the caller's own spelling, and it belongs to the
  session the gate decided about: by the store's lineage, or else as an id of an instance in the
  registry that runs that session.  When the ids of every registered instance resolve in the store to
  its session (which a dropped segment, or a rotation the store has not taken yet, breaks), it belongs
  to it by the store's lineage.
\<close>

theorem resume_names_the_gated_session:
  assumes "doc_good doc" "resolveResumeRef reg (indexSessions doc) v = Resume_as handle given"
  shows "(given = handle \<or> v = JStr given)
    \<and> (publicIdFor (indexSessions doc) given = handle \<or> registered_id reg handle given)
    \<and> (registry_agrees reg (indexSessions doc) \<longrightarrow> publicIdFor (indexSessions doc) given = handle)"
proof -
  let ?ix = "indexSessions doc"
  obtain x where x: "v = JStr x" "x \<noteq> []" "decideSessionRef (refOwners reg (Some ?ix)) x = Resolved handle"
    and given: "given = (if jhas (refOwners reg (Some ?ix)) x then x else handle)"
    using assms(2) by (auto simp: resolveResumeRef_def Let_def split: json.splits if_splits session_ref.splits)
  obtain c where c: "map_of (candidates reg (Some ?ix)) c = Some handle" "given = x \<Longrightarrow> x \<noteq> handle \<Longrightarrow> c = x"
  proof (cases "map_of (refOwners reg (Some ?ix)) x")
    case None
    with x(3) have "handle \<in> matching (refOwners reg (Some ?ix)) x" using decide_resolved [OF refOwners_ok] by auto
    then show thesis using that given None by (auto simp: matching_def refOwners_candidates jhas_def)
  next
    case (Some p)
    then show thesis using that [of x] x(3) decide_resolved [OF refOwners_ok, of reg "Some ?ix" x handle] by (auto simp: refOwners_candidates)
  qed
  have either: "given = handle \<or> given = x" using given by auto
  have "registry_agrees reg ?ix \<Longrightarrow> publicIdFor ?ix given = handle"
    using candidate_owner [OF assms(1) _ c(1)] either c(2) x(2) by metis
  moreover have "publicIdFor ?ix given = handle \<or> registered_id reg handle given"
    using candidate_belongs [OF assms(1) c(1)] either c(2) x(2) by metis
  ultimately show ?thesis using either x(1) by blast
qed

text \<open>A worker running under the newer of its two transcripts; the older one is named by its own id.\<close>

definition demo_worker :: ref_instance where
  "demo_worker = \<lparr>ri_id = ''i1'', ri_session = Some pub1, ri_segments = [uuid1, uuid2], ri_proc = True, ri_rotating = False, ri_relaunching = False\<rparr>"

lemma resume_names_the_gated_session_witness:
  "publicIdFor (indexSessions [(pub1, demo_record)]) uuid1 = pub1"
proof -
  have "registry_agrees [(''i1'', demo_worker)] (indexSessions [(pub1, demo_record)])" by code_simp
  moreover have "resolveResumeRef [(''i1'', demo_worker)] (indexSessions [(pub1, demo_record)]) (JStr uuid1) = Resume_as pub1 uuid1"
    by code_simp
  ultimately show ?thesis using resume_names_the_gated_session [OF demo_good] by blast
qed

text \<open>A rotation the store has not taken yet: its id is the worker's, and the store knows nothing of it.\<close>

lemma unrecorded_rotation_is_the_instances:
  "let reg = [(''i1'', demo_worker\<lparr>ri_segments := [uuid1, uuid2, ''new-backing-id'']\<rparr>)]; ix = indexSessions [(pub1, demo_record)] in
     resolveResumeRef reg ix (JStr ''new-backing-id'') = Resume_as pub1 ''new-backing-id''
     \<and> publicIdFor ix ''new-backing-id'' \<noteq> pub1 \<and> registered_id reg pub1 ''new-backing-id''"
  by code_simp

text \<open>Three characters are refused though one session matches; four resolve to its handle.\<close>

lemma short_prefix_is_refused:
  "resolveResumeRef [] (indexSessions [(pub1, demo_record)]) (JStr (take 3 uuid1)) = Resume_ambiguous [pub1] True"
  "resolveResumeRef [] (indexSessions [(pub1, demo_record)]) (JStr (take 4 uuid1)) = Resume_as pub1 pub1"
  by code_simp+

subsection \<open>A session's instances\<close>

lemma ids_resolve:
  assumes "registry_ok reg"
  shows "List.map_filter (map_of reg) (idsForSession reg x) = filter (\<lambda>i. answersTo i x) (jvals reg)"
proof -
  have "map_of reg (ri_id i) = Some i" if "i \<in> set (jvals reg)" for i
    using assms that by (auto simp: registry_ok_def jmap_ok_def)
  then have "map (map_of reg \<circ> ri_id) (filter (\<lambda>i. answersTo i x) (jvals reg)) = map Some (filter (\<lambda>i. answersTo i x) (jvals reg))"
    by (intro map_cong) auto
  moreover have "List.map_filter f (map g xs) = ys" if "map (f \<circ> g) xs = map Some ys" for f :: "string \<Rightarrow> ref_instance option" and g :: "ref_instance \<Rightarrow> string" and xs ys
    using that by (induction xs arbitrary: ys) (auto simp: List.map_filter_def)
  ultimately show ?thesis by (simp add: idsForSession_def)
qed

text \<open>An exited instance never shadows a live one: the session is live when any instance answering to it is.\<close>

lemma isSessionLive_iff:
  assumes "registry_ok reg"
  shows "isSessionLive resuming reg x \<longleftrightarrow>
    x \<in> set resuming \<or> (\<exists>i \<in> set (jvals reg). answersTo i x \<and> isLiveOrComingUp i)"
proof -
  have "map_of reg (ri_id i) = Some i" if "i \<in> set (jvals reg)" for i
    using assms that by (auto simp: registry_ok_def jmap_ok_def)
  then show ?thesis by (auto simp: isSessionLive_def idsForSession_def list_ex_iff split: option.splits)
qed

lemma live_instance_makes_session_live:
  assumes "registry_ok reg" "liveForSession reg x = Some i"
  shows "isSessionLive resuming reg x"
proof -
  have "List.find P xs = Some i \<Longrightarrow> i \<in> set xs \<and> P i" for P and xs :: "ref_instance list"
    by (induction xs) (auto split: if_splits)
  then have "i \<in> set (filter (\<lambda>i. answersTo i x) (jvals reg))" "ri_proc i"
    using assms(2) unfolding liveForSession_def ids_resolve [OF assms(1)] by blast+
  then show ?thesis unfolding isSessionLive_iff [OF assms(1)] by (auto simp: isLiveOrComingUp_def)
qed

end
