(* ===== verification/Overage.thy ===== *)
theory Overage
  imports TurnControl Worklist
begin

text \<open>
  The overage lockout: \<open>InstanceManager\<close> of \<open>src/instances.ts\<close> (trip, routing, sever marks, gate,
  turn-start guard, release) with \<open>OverageResumeController\<close> of \<open>src/overageResume.ts\<close> (deadlines, sweep,
  verified resume) and the part of \<open>Instance.prompt\<close> that queues and refuses.

  Times are milliseconds on the wall clock, reset times epoch seconds.  Which callers hold a wake or wait
  for a job, which callers a sever cuts, and what a usage fetch answers are arguments of the inputs that
  read them.  Attachments are not modelled, so a prompt sends at once.  Whether the session takes the
  resume prompt is an argument too: \<open>Instance.prompt\<close> throws for a session that is being rewritten or
  whose pipe is gone, and the resumption swallows that.
\<close>

subsection \<open>State\<close>

datatype overage_action = No_action | Stop_only | Stop_resume

datatype resume_kind = Stopped_kind | Idle_parked_kind | Queued_only_kind

record ov_message =
  om_id :: nat
  om_text :: string
  om_author :: "prompt_author option"

record ov_inst =
  oi_status :: inst_status
  oi_proc :: bool
  oi_temp :: bool
  oi_conducted :: bool
  oi_caller :: "string option"
  oi_backend :: string
  oi_resumeAt :: "nat option"
  oi_autoStopped :: bool
  oi_wasStopped :: bool
  oi_idleParked :: bool
  oi_dropped :: bool
  oi_unarmedWorkers :: bool
  oi_stoppedUnarmed :: bool
  oi_handled :: bool
  oi_firing :: bool
  oi_resetsAt :: "nat option"
  oi_queue :: "ov_message list"

datatype ov_out =
    Stop_asked string bool
  | Turn_blocked string
  | Sent string "ov_message option"
  | Resumed string resume_kind bool bool "ov_message list"
  | Resume_refused string "ov_message list"
  | Skipped string
  | Queued string nat
  | Refused_send string
  | Not_running_send string
  | Queue_dropped string nat

record overage =
  ov_insts :: "(string, ov_inst) jmap"
  ov_retired :: "(string, ov_inst) jmap"
  ov_policy :: overage_action
  ov_active :: bool
  ov_resumeMode :: bool
  ov_resetsAt :: "nat option"
  ov_clear :: "nat option"
  ov_timers :: "(string, nat) jmap"
  ov_checking :: "string list"
  ov_fails :: "(string, nat) jmap"
  ov_due :: "string list option"
  ov_now :: nat
  ov_out :: "ov_out list"

definition tell :: "ov_out \<Rightarrow> overage \<Rightarrow> overage" where
  "tell x s = s\<lparr>ov_out := ov_out s @ [x]\<rparr>"

definition upd :: "string \<Rightarrow> (ov_inst \<Rightarrow> ov_inst) \<Rightarrow> overage \<Rightarrow> overage" where
  "upd n f s = (case map_of (ov_insts s) n of
     Some i \<Rightarrow> s\<lparr>ov_insts := jput n (f i) (ov_insts s)\<rparr>
   | None \<Rightarrow> (case map_of (ov_retired s) n of
       Some i \<Rightarrow> s\<lparr>ov_retired := jput n (f i) (ov_retired s)\<rparr>
     | None \<Rightarrow> s))"

text \<open>An instance object, which code that captured it reaches after its removal too.\<close>

definition obj :: "overage \<Rightarrow> string \<Rightarrow> ov_inst option" where
  "obj s n = (case map_of (ov_insts s) n of Some i \<Rightarrow> Some i | None \<Rightarrow> map_of (ov_retired s) n)"

definition test :: "overage \<Rightarrow> string \<Rightarrow> (ov_inst \<Rightarrow> bool) \<Rightarrow> bool" where
  "test s n p = (case map_of (ov_insts s) n of Some i \<Rightarrow> p i | None \<Rightarrow> False)"

definition RESUME_BUFFER_MS :: nat where "RESUME_BUFFER_MS = 5000"
definition RECHECK_MS :: nat where "RECHECK_MS = 60000"
definition FAIL_OPEN_AFTER :: nat where "FAIL_OPEN_AFTER = 5"

text \<open>\<open>Number(resetsAt) * 1000\<close>: a missing reset time is zero.\<close>

definition reset_ms :: "nat option \<Rightarrow> nat" where
  "reset_ms r = (case r of Some x \<Rightarrow> x * 1000 | None \<Rightarrow> 0)"

definition round_secs :: "nat \<Rightarrow> nat" where
  "round_secs ms = (ms + 500) div 1000"

text \<open>\<open>autoResumeAt\<close> read as a condition: neither \<open>null\<close> nor zero.\<close>

definition armed_at :: "ov_inst \<Rightarrow> bool" where
  "armed_at i = (case oi_resumeAt i of Some t \<Rightarrow> t \<noteq> 0 | None \<Rightarrow> False)"

subsection \<open>The agent tree and the usage window\<close>

definition ANTHROPIC_DOMAIN :: string where "ANTHROPIC_DOMAIN = ''anthropic''"

definition CLAUDE_BACKEND_ID :: string where "CLAUDE_BACKEND_ID = ''claude''"

definition usageDomainOfBackend :: "string \<Rightarrow> string" where
  "usageDomainOfBackend b = (if b = [] \<or> b = CLAUDE_BACKEND_ID then ANTHROPIC_DOMAIN else ''backend:'' @ b)"

definition isMonitoredDomain :: "string \<Rightarrow> bool" where
  "isMonitoredDomain d \<longleftrightarrow> d = ANTHROPIC_DOMAIN"

definition parent_of :: "overage \<Rightarrow> string \<Rightarrow> string option" where
  "parent_of s n = (case map_of (ov_insts s) n of
     Some i \<Rightarrow> (case oi_caller i of Some p \<Rightarrow> if p \<noteq> [] \<and> jhas (ov_insts s) p then Some p else None | None \<Rightarrow> None)
   | None \<Rightarrow> None)"

text \<open>The walk stops at the first instance seen before; every step but the last adds a registered one.\<close>

fun root_walk :: "nat \<Rightarrow> overage \<Rightarrow> string list \<Rightarrow> string \<Rightarrow> string" where
  "root_walk 0 s seen n = n"
| "root_walk (Suc k) s seen n =
     (if n \<in> set seen then n else (case parent_of s n of None \<Rightarrow> n | Some p \<Rightarrow> root_walk k s (n # seen) p))"

definition agentTreeRoot :: "overage \<Rightarrow> string \<Rightarrow> string" where
  "agentTreeRoot s n = root_walk (Suc (Suc (length (ov_insts s)))) s [] n"

definition tree_children :: "overage \<Rightarrow> string \<Rightarrow> string list" where
  "tree_children s p = jkeys (filter (\<lambda>(c, i). oi_caller i = Some p) (ov_insts s))"

definition agentTree :: "overage \<Rightarrow> string \<Rightarrow> string list" where
  "agentTree s n = grow (jkeys (ov_insts s)) (tree_children s) [n] [n]"

definition inUsageWindowFlow :: "overage \<Rightarrow> string \<Rightarrow> bool" where
  "inUsageWindowFlow s n =
     list_ex (\<lambda>m. test s m (\<lambda>i. isMonitoredDomain (usageDomainOfBackend (oi_backend i)))) (agentTree s (agentTreeRoot s n))"

definition overageGate :: "overage \<Rightarrow> string \<Rightarrow> bool" where
  "overageGate s n \<longleftrightarrow> ov_active s \<and> ov_resumeMode s \<and> ov_now s < reset_ms (ov_resetsAt s) \<and> inUsageWindowFlow s n"

subsection \<open>Deadlines\<close>

definition set_deadline :: "string \<Rightarrow> nat \<Rightarrow> overage \<Rightarrow> overage" where
  "set_deadline n fire s = (upd n (\<lambda>i. i\<lparr>oi_resumeAt := Some (round_secs fire)\<rparr>) s)\<lparr>ov_timers := jput n fire (ov_timers s)\<rparr>"

definition arm_deadline :: "string \<Rightarrow> overage \<Rightarrow> overage" where
  "arm_deadline n s =
     (case obj s n of
        None \<Rightarrow> s
      | Some i \<Rightarrow>
          let at = reset_ms (oi_resetsAt i) in
          set_deadline n (if at \<le> ov_now s then ov_now s + RECHECK_MS else at + RESUME_BUFFER_MS) s)"

definition cancel_resume :: "string \<Rightarrow> overage \<Rightarrow> overage" where
  "cancel_resume n s =
     (let s1 = s\<lparr>ov_fails := jdrop n (ov_fails s), ov_timers := jdrop n (ov_timers s)\<rparr> in
      if jhas (ov_insts s1) n then
        upd n (\<lambda>i. i\<lparr>oi_resumeAt := None, oi_autoStopped := False, oi_wasStopped := False, oi_idleParked := False,
          oi_dropped := False, oi_unarmedWorkers := False, oi_stoppedUnarmed := False, oi_handled := False, oi_queue := []\<rparr>) s1
      else s1)"

definition armResumeNow :: "string \<Rightarrow> nat option \<Rightarrow> overage \<Rightarrow> overage" where
  "armResumeNow n resetsAt s =
     (if test s n armed_at \<or> jhas (ov_timers s) n then s
      else if test s n oi_stoppedUnarmed then s
      else arm_deadline n (upd n (\<lambda>i. i\<lparr>oi_resetsAt := resetsAt, oi_autoStopped := True\<rparr>) s))"

text \<open>The manager's handler of an instance's status frame: arm at the idle transition.\<close>

definition status_emitted :: "string \<Rightarrow> overage \<Rightarrow> overage" where
  "status_emitted n s =
     (if test s n (\<lambda>i. oi_autoStopped i \<and> oi_status i = Idle \<and> oi_proc i) \<and> \<not> jhas (ov_timers s) n
      then arm_deadline n s else s)"

subsection \<open>Release\<close>

definition clearOverage :: "overage \<Rightarrow> overage" where
  "clearOverage s = s\<lparr>ov_clear := None, ov_active := False, ov_resetsAt := None, ov_resumeMode := False,
     ov_insts := jmap_vals (\<lambda>i. i\<lparr>oi_handled := False, oi_stoppedUnarmed := False\<rparr>) (ov_insts s)\<rparr>"

definition maybeReleaseOverageLock :: "overage \<Rightarrow> overage" where
  "maybeReleaseOverageLock s =
     (if \<not> ov_active s then s
      else if ov_timers s \<noteq> [] then s
      else if list_ex (\<lambda>i. oi_proc i \<and> oi_autoStopped i) (jvals (ov_insts s)) then s
      else clearOverage s)"

subsection \<open>Stopping\<close>

definition ownerConductor :: "overage \<Rightarrow> string \<Rightarrow> string option" where
  "ownerConductor s n = parent_of s n"

definition is_armed :: "overage \<Rightarrow> string \<Rightarrow> bool" where
  "is_armed s n \<longleftrightarrow> test s n (\<lambda>i. oi_autoStopped i \<or> oi_resumeAt i \<noteq> None) \<or> jhas (ov_timers s) n"

definition driver_of :: "overage \<Rightarrow> string \<Rightarrow> string" where
  "driver_of s c =
     (if test s c oi_conducted then
        (case ownerConductor s c of Some p \<Rightarrow> if test s p oi_proc then p else c | None \<Rightarrow> c)
      else c)"

definition armSeveredCaller :: "string \<Rightarrow> overage \<Rightarrow> overage" where
  "armSeveredCaller c s =
     (if \<not> ov_active s \<or> \<not> ov_resumeMode s then s
      else if \<not> test s c oi_proc \<or> \<not> inUsageWindowFlow s c then s
      else if is_armed s c then s
      else
        (let d = driver_of s c; s1 = upd d (\<lambda>i. i\<lparr>oi_dropped := True\<rparr>) s in
         if is_armed s1 d then s1
         else if test s1 d oi_stoppedUnarmed then s1
         else
           (let s2 = upd d (\<lambda>i. i\<lparr>oi_wasStopped := False, oi_idleParked := True, oi_resetsAt := ov_resetsAt s1\<rparr>) s1 in
            if test s2 d (\<lambda>i. oi_status i = In_turn) then upd d (\<lambda>i. i\<lparr>oi_autoStopped := True\<rparr>) s2
            else armResumeNow d (ov_resetsAt s2) s2)))"

definition severOverageWakes :: "string list \<Rightarrow> overage \<Rightarrow> overage" where
  "severOverageWakes callers =
     fold (\<lambda>c s. if jhas (ov_insts s) c then armSeveredCaller c (upd c (\<lambda>i. i\<lparr>oi_dropped := True\<rparr>) s) else s) callers"

definition directOverageStop :: "(string \<Rightarrow> string list) \<Rightarrow> nat option \<Rightarrow> bool \<Rightarrow> string \<Rightarrow> overage \<Rightarrow> overage" where
  "directOverageStop lost resetsAt armResume n s =
     (let midTurn = test s n (\<lambda>i. oi_status i = In_turn);
          s1 = (if armResume then upd n (\<lambda>i. i\<lparr>oi_autoStopped := True, oi_wasStopped := midTurn, oi_idleParked := \<not> midTurn,
                  oi_resetsAt := resetsAt\<rparr>) s else s);
          s2 = tell (Stop_asked n armResume) (severOverageWakes (lost n) s1)
      in if armResume \<and> \<not> midTurn then armResumeNow n resetsAt s2 else s2)"

definition in_control :: "overage \<Rightarrow> string list \<Rightarrow> string \<Rightarrow> bool" where
  "in_control s holding c \<longleftrightarrow> test s c (\<lambda>i. oi_proc i \<and> (oi_status i = In_turn \<or> c \<in> set holding))"

text \<open>\<open>holding\<close> lists the instances that hold a wake or wait for a background job.\<close>

definition route_live :: "overage \<Rightarrow> string list" where
  "route_live s = filter (\<lambda>n. test s n oi_proc \<and> inUsageWindowFlow s n) (jkeys (ov_insts s))"

definition route_controlled :: "overage \<Rightarrow> string list \<Rightarrow> (string \<times> string) list" where
  "route_controlled s holding = List.map_filter (\<lambda>n.
     if test s n oi_conducted then
       (case ownerConductor s n of Some c \<Rightarrow> if in_control s holding c then Some (n, c) else None | None \<Rightarrow> None)
     else None) (route_live s)"

definition stop_one :: "(string \<Rightarrow> string list) \<Rightarrow> bool \<Rightarrow> nat option \<Rightarrow> string list \<Rightarrow> string \<Rightarrow> overage \<Rightarrow> overage" where
  "stop_one lost resume resetsAt protected n s =
     (if \<not> test s n (\<lambda>i. oi_status i = In_turn) then s
      else
        (let unarmed = n \<in> set protected;
             s1 = upd n (\<lambda>i. i\<lparr>oi_stoppedUnarmed := unarmed\<rparr>) (directOverageStop lost resetsAt (resume \<and> \<not> unarmed) n s)
         in if unarmed then (case ownerConductor s1 n of Some c \<Rightarrow> upd c (\<lambda>i. i\<lparr>oi_unarmedWorkers := True\<rparr>) s1 | None \<Rightarrow> s1)
            else s1))"

definition routeOverageStop :: "string list \<Rightarrow> (string \<Rightarrow> string list) \<Rightarrow> bool \<Rightarrow> nat option \<Rightarrow> overage \<Rightarrow> overage" where
  "routeOverageStop holding lost resume resetsAt s =
     (let live = route_live s; pairs = route_controlled s holding; conductors = rev (remdups (rev (map snd pairs)));
          s1 = fold (directOverageStop lost resetsAt resume) conductors s
      in fold (stop_one lost resume resetsAt (map fst pairs)) (filter (\<lambda>n. n \<notin> set conductors) live) s1)"

definition armOverageClear :: "nat option \<Rightarrow> overage \<Rightarrow> overage" where
  "armOverageClear resetsAt s = s\<lparr>ov_clear := Some (max (ov_now s) (reset_ms resetsAt + RESUME_BUFFER_MS))\<rparr>"

definition handleOverageTrip :: "string option \<Rightarrow> nat option \<Rightarrow> string list \<Rightarrow> (string \<Rightarrow> string list) \<Rightarrow> overage \<Rightarrow> overage" where
  "handleOverageTrip who resetsAt holding lost s =
     (if ov_policy s = No_action then s
      else if (case Option.bind who (obj s) of Some i \<Rightarrow> \<not> isMonitoredDomain (usageDomainOfBackend (oi_backend i)) | None \<Rightarrow> False) then s
      else if ov_active s then s
      else
        (let resume = (ov_policy s = Stop_resume);
             s1 = s\<lparr>ov_active := True, ov_resetsAt := resetsAt, ov_resumeMode := resume\<rparr>
         in armOverageClear resetsAt (routeOverageStop holding lost resume resetsAt s1)))"

text \<open>A session's own overage report: throttled by \<open>_overageHandled\<close>.\<close>

definition overage_reported :: "string \<Rightarrow> nat option \<Rightarrow> string list \<Rightarrow> (string \<Rightarrow> string list) \<Rightarrow> overage \<Rightarrow> overage" where
  "overage_reported n resetsAt holding lost s =
     (if (case obj s n of Some i \<Rightarrow> \<not> oi_handled i | None \<Rightarrow> False)
      then handleOverageTrip (Some n) resetsAt holding lost (upd n (\<lambda>i. i\<lparr>oi_handled := True\<rparr>) s) else s)"

subsection \<open>Prompts and turns\<close>

definition guardOverageTurnStart :: "string list \<Rightarrow> string \<Rightarrow> overage \<Rightarrow> overage" where
  "guardOverageTurnStart lost n s =
     (if \<not> overageGate s n then s
      else if test s n oi_firing then s
      else tell (Turn_blocked n) (severOverageWakes lost s))"

definition set_status :: "string list \<Rightarrow> inst_status \<Rightarrow> string \<Rightarrow> overage \<Rightarrow> overage" where
  "set_status lost st n s =
     (if test s n (\<lambda>i. oi_status i = st) then s
      else
        (let s1 = upd n (\<lambda>i. i\<lparr>oi_status := st\<rparr>) s;
             s2 = (if st = In_turn then guardOverageTurnStart lost n s1 else s1)
         in status_emitted n s2))"

definition user_prompted :: "string \<Rightarrow> overage \<Rightarrow> overage" where
  "user_prompted n s =
     (let was = test s n oi_autoStopped; s1 = cancel_resume n s in if was \<and> ov_active s1 then clearOverage s1 else s1)"

text \<open>The overage part of a genuine (not internal) prompt, up to the turn it starts.\<close>

definition user_send :: "string list \<Rightarrow> string \<Rightarrow> ov_message \<Rightarrow> overage \<Rightarrow> overage" where
  "user_send lost n m s =
     (if \<not> test s n oi_proc then tell (Not_running_send n) s
      else if test s n oi_stoppedUnarmed \<and> overageGate s n then tell (Refused_send n) s
      else if overageGate s n \<or> test s n (\<lambda>i. oi_autoStopped i \<and> armed_at i) then
        (let s1 = tell (Queued n (om_id m)) (upd n (\<lambda>i. i\<lparr>oi_queue := oi_queue i @ [m]\<rparr>) s);
             s2 = (if test s1 n armed_at then s1
                   else armResumeNow n (if overageGate s1 n then ov_resetsAt s1 else None) s1)
         in status_emitted n s2)
      else set_status lost In_turn n (tell (Sent n (Some m)) (user_prompted n s)))"

definition internal_send :: "string list \<Rightarrow> string \<Rightarrow> overage \<Rightarrow> overage" where
  "internal_send lost n s =
     (if \<not> test s n oi_proc then tell (Not_running_send n) s else set_status lost In_turn n (tell (Sent n None) s))"

subsection \<open>The verified resume\<close>

definition overageResumeKind :: "ov_inst \<Rightarrow> resume_kind" where
  "overageResumeKind i = (if oi_wasStopped i then Stopped_kind else if oi_idleParked i then Idle_parked_kind else Queued_only_kind)"

definition reschedule :: "string \<Rightarrow> overage \<Rightarrow> overage" where
  "reschedule n s =
     (case obj s n of
        None \<Rightarrow> s
      | Some i \<Rightarrow>
          let fire = max (reset_ms (oi_resetsAt i)) (ov_now s + RECHECK_MS);
              s1 = set_deadline n fire s
          in if ov_resumeMode s1 then s1\<lparr>ov_resetsAt := Some (round_secs fire)\<rparr> else s1)"

text \<open>
  The queue is emptied and the deadline cancelled before the prompt is sent; \<open>taken\<close> says whether the
  session takes it.  When it does not, nothing is sent, no turn starts and the messages are gone.
\<close>

definition run_resume :: "string list \<Rightarrow> bool \<Rightarrow> string \<Rightarrow> overage \<Rightarrow> overage" where
  "run_resume lost taken n s =
     (case obj s n of
        None \<Rightarrow> s
      | Some i \<Rightarrow>
          if oi_proc i then
            (let s1 = cancel_resume n (upd n (\<lambda>i. i\<lparr>oi_queue := []\<rparr>) s);
                 s2 = upd n (\<lambda>i. i\<lparr>oi_firing := True\<rparr>) s1;
                 s3 = (if taken then set_status lost In_turn n (tell (Resumed n (overageResumeKind i) (oi_dropped i)
                         (oi_unarmedWorkers i) (oi_queue i)) s2)
                       else tell (Resume_refused n (oi_queue i)) s2)
             in upd n (\<lambda>i. i\<lparr>oi_firing := False\<rparr>) s3)
          else tell (Skipped n) (cancel_resume n s))"

definition resume_now :: "string list \<Rightarrow> bool \<Rightarrow> string \<Rightarrow> overage \<Rightarrow> overage" where
  "resume_now lost taken n s = maybeReleaseOverageLock (run_resume lost taken n (s\<lparr>ov_fails := jdrop n (ov_fails s)\<rparr>))"

text \<open>\<open>over\<close> is the usage answer: over the bar, under it, or not to be had.\<close>

definition resolveDue :: "string list \<Rightarrow> bool \<Rightarrow> bool option \<Rightarrow> string \<Rightarrow> overage \<Rightarrow> overage" where
  "resolveDue lost taken over n s =
     (case obj s n of
        None \<Rightarrow> s
      | Some i \<Rightarrow>
          if \<not> oi_autoStopped i \<and> oi_resumeAt i = None then s\<lparr>ov_fails := jdrop n (ov_fails s)\<rparr>
          else if oi_proc i \<and> over = Some True then reschedule n s
          else if oi_proc i \<and> over = None then
            (let k = Suc (case map_of (ov_fails s) n of Some k \<Rightarrow> k | None \<Rightarrow> 0) in
             if k < FAIL_OPEN_AFTER then reschedule n (s\<lparr>ov_fails := jput n k (ov_fails s)\<rparr>) else resume_now lost taken n s)
          else resume_now lost taken n s)"

definition checked :: "string \<Rightarrow> overage \<Rightarrow> overage" where
  "checked n s = s\<lparr>ov_checking := removeAll n (ov_checking s)\<rparr>"

definition due_now :: "overage \<Rightarrow> string list" where
  "due_now s = jkeys (filter (\<lambda>(n, fire). fire \<le> ov_now s \<and> n \<notin> set (ov_checking s)) (ov_timers s))"

text \<open>A sweep up to its usage fetch: deadlines of instances no longer registered are dropped, the others due are claimed.\<close>

definition sweep_begin :: "overage \<Rightarrow> overage" where
  "sweep_begin s =
     (if ov_due s \<noteq> None then s
      else
        (let due = filter (jhas (ov_insts s)) (due_now s);
             orphans = filter (\<lambda>n. \<not> jhas (ov_insts s) n) (due_now s);
             s1 = s\<lparr>ov_timers := fold jdrop orphans (ov_timers s)\<rparr>
         in if due = [] then s1 else s1\<lparr>ov_due := Some due, ov_checking := ov_checking s1 @ due\<rparr>))"

definition sweep_end :: "(string \<Rightarrow> string list) \<Rightarrow> (string \<Rightarrow> bool) \<Rightarrow> bool option \<Rightarrow> overage \<Rightarrow> overage" where
  "sweep_end lost taken over s =
     (case ov_due s of
        None \<Rightarrow> s
      | Some due \<Rightarrow> (fold (\<lambda>n s. checked n (resolveDue (lost n) (taken n) over n s)) due s)\<lparr>ov_due := None\<rparr>)"

definition fire_begin :: "string \<Rightarrow> overage \<Rightarrow> overage" where
  "fire_begin n s =
     (if \<not> jhas (ov_timers s) n then s
      else if \<not> jhas (ov_insts s) n then s\<lparr>ov_timers := jdrop n (ov_timers s)\<rparr>
      else if n \<in> set (ov_checking s) then s
      else s\<lparr>ov_checking := ov_checking s @ [n], ov_timers := jdrop n (ov_timers s)\<rparr>)"

definition fire_end :: "string list \<Rightarrow> bool \<Rightarrow> bool option \<Rightarrow> string \<Rightarrow> overage \<Rightarrow> overage" where
  "fire_end lost taken over n s = checked n (resolveDue lost taken over n s)"

definition reevaluateOverageResumes :: "overage \<Rightarrow> overage" where
  "reevaluateOverageResumes s = fold fire_begin (jkeys (ov_timers s)) s"

definition syncOveragePolicy :: "overage \<Rightarrow> overage" where
  "syncOveragePolicy s =
     (if ov_policy s = Stop_resume then s
      else
        fold (\<lambda>n s. if test s n (\<lambda>i. armed_at i \<or> oi_autoStopped i \<or> oi_queue i \<noteq> [] \<or> oi_stoppedUnarmed i) \<or> jhas (ov_timers s) n
            then (let q = length (case map_of (ov_insts s) n of Some i \<Rightarrow> oi_queue i | None \<Rightarrow> []);
                      s1 = cancel_resume n s
                  in if 0 < q then tell (Queue_dropped n q) s1 else s1)
            else s)
          (jkeys (ov_insts s)) (s\<lparr>ov_resumeMode := False\<rparr>))"

subsection \<open>Coming and going\<close>

definition fresh_run :: "ov_inst \<Rightarrow> ov_inst" where
  "fresh_run i = i\<lparr>oi_proc := True, oi_status := Spawning, oi_resumeAt := None, oi_autoStopped := False, oi_wasStopped := False,
     oi_idleParked := False, oi_dropped := False, oi_unarmedWorkers := False, oi_stoppedUnarmed := False, oi_handled := False,
     oi_firing := False, oi_resetsAt := None, oi_queue := []\<rparr>"

definition new_instance :: "bool \<Rightarrow> bool \<Rightarrow> string option \<Rightarrow> string \<Rightarrow> ov_inst" where
  "new_instance temp conducted caller backend = fresh_run
     \<lparr>oi_status = Spawning, oi_proc = True, oi_temp = temp, oi_conducted = conducted, oi_caller = caller, oi_backend = backend,
      oi_resumeAt = None, oi_autoStopped = False, oi_wasStopped = False, oi_idleParked = False, oi_dropped = False,
      oi_unarmedWorkers = False, oi_stoppedUnarmed = False, oi_handled = False, oi_firing = False, oi_resetsAt = None, oi_queue = []\<rparr>"

definition retire :: "string \<Rightarrow> overage \<Rightarrow> overage" where
  "retire n s =
     (case map_of (ov_insts s) n of
        None \<Rightarrow> s
      | Some i \<Rightarrow> s\<lparr>ov_insts := jdrop n (ov_insts s), ov_retired := jput n (i\<lparr>oi_proc := False\<rparr>) (ov_retired s)\<rparr>)"

definition process_exit :: "bool \<Rightarrow> string \<Rightarrow> overage \<Rightarrow> overage" where
  "process_exit crashed n s =
     (if \<not> test s n oi_proc then s
      else
        (let s1 = set_status [] (if crashed then Crashed else Exited) n (upd n (\<lambda>i. i\<lparr>oi_proc := False\<rparr>) s)
         in if test s1 n oi_temp then retire n (cancel_resume n s1) else s1))"

definition removed :: "string \<Rightarrow> overage \<Rightarrow> overage" where
  "removed n s = cancel_resume n (retire n s)"

definition respawn :: "string \<Rightarrow> overage \<Rightarrow> overage" where
  "respawn n s = (if test s n (\<lambda>i. \<not> oi_proc i) then upd n fresh_run (cancel_resume n s) else s)"

text \<open>A rewind, prune or model switch: kill and launch in place, with nothing cancelled; the spawn clears the marks.\<close>

definition relaunch_in_place :: "string \<Rightarrow> overage \<Rightarrow> overage" where
  "relaunch_in_place n s = (if test s n (\<lambda>i. oi_proc i \<and> oi_status i \<noteq> In_turn) then upd n fresh_run s else s)"

text \<open>The deadline, selectors and queue a restart manifest carries, put back on a resurrected session.\<close>

definition armRestored :: "string \<Rightarrow> nat \<Rightarrow> overage \<Rightarrow> overage" where
  "armRestored n fire s = set_deadline n fire (upd n (\<lambda>i. i\<lparr>oi_autoStopped := True\<rparr>) s)"

definition restore_parked :: "string \<Rightarrow> nat \<Rightarrow> (bool \<times> bool \<times> bool \<times> bool) \<Rightarrow> nat option \<Rightarrow> ov_message list \<Rightarrow> overage \<Rightarrow> overage" where
  "restore_parked n secs marks resetsAt queue s =
     (if ov_policy s = Stop_resume \<and> inUsageWindowFlow s n then
        (case marks of (stopped, parked, dropped, unarmed) \<Rightarrow>
           armRestored n (secs * 1000) (upd n (\<lambda>i. i\<lparr>oi_resetsAt := resetsAt, oi_wasStopped := stopped, oi_idleParked := parked,
             oi_dropped := dropped, oi_unarmedWorkers := unarmed, oi_queue := queue\<rparr>) s))
      else s)"

datatype ov_input =
    Waited nat
  | Restored string nat "bool \<times> bool \<times> bool \<times> bool" "nat option" "ov_message list"
  | Created string bool bool "string option" string
  | Came_up string
  | Turn_begins string "string list"
  | Turn_over string
  | Frame string
  | User_send string ov_message "string list"
  | Internal_send string "string list"
  | Reported string "nat option" "string list" "string \<Rightarrow> string list"
  | Polled "nat option" "string list" "string \<Rightarrow> string list"
  | Clear_due
  | Sweep_begin | Sweep_end "string \<Rightarrow> string list" "string \<Rightarrow> bool" "bool option"
  | Fire_begin string | Fire_end string "string list" bool "bool option"
  | Policy_set overage_action
  | Process_gone string bool | Removed_inst string | Respawned string | Relaunched string

definition ov_apply :: "ov_input \<Rightarrow> overage \<Rightarrow> overage" where
  "ov_apply x s =
     (case x of
        Waited k \<Rightarrow> s\<lparr>ov_now := ov_now s + k\<rparr>
      | Created n temp conducted caller backend \<Rightarrow>
          if jhas (ov_insts s) n \<or> jhas (ov_retired s) n \<or> jhas (ov_timers s) n \<or> n \<in> set (ov_checking s) then s
          else s\<lparr>ov_insts := jput n (new_instance temp conducted caller backend) (ov_insts s)\<rparr>
      | Restored n secs marks resetsAt queue \<Rightarrow>
          if test s n oi_proc \<and> 0 < secs then restore_parked n secs marks resetsAt queue s else s
      | Came_up n \<Rightarrow> if test s n (\<lambda>i. oi_proc i \<and> oi_status i = Spawning) then set_status [] Idle n s else s
      | Turn_begins n lost \<Rightarrow> if test s n (\<lambda>i. oi_proc i \<and> oi_status i = Idle) then set_status lost In_turn n s else s
      | Turn_over n \<Rightarrow> if test s n (\<lambda>i. oi_proc i \<and> oi_status i = In_turn) then set_status [] Idle n s else s
      | Frame n \<Rightarrow> status_emitted n s
      | User_send n m lost \<Rightarrow> user_send lost n m s
      | Internal_send n lost \<Rightarrow> internal_send lost n s
      | Reported n resetsAt holding lost \<Rightarrow> overage_reported n resetsAt holding lost s
      | Polled resetsAt holding lost \<Rightarrow> handleOverageTrip None resetsAt holding lost s
      | Clear_due \<Rightarrow> (case ov_clear s of
            Some t \<Rightarrow> if t \<le> ov_now s then maybeReleaseOverageLock (s\<lparr>ov_clear := None\<rparr>) else s
          | None \<Rightarrow> s)
      | Sweep_begin \<Rightarrow> sweep_begin s
      | Sweep_end lost taken over \<Rightarrow> sweep_end lost taken over s
      | Fire_begin n \<Rightarrow> fire_begin n s
      | Fire_end n lost taken over \<Rightarrow>
          if n \<in> set (ov_checking s) \<and> (case ov_due s of Some due \<Rightarrow> n \<notin> set due | None \<Rightarrow> True) then fire_end lost taken over n s else s
      | Policy_set a \<Rightarrow> reevaluateOverageResumes (syncOveragePolicy (s\<lparr>ov_policy := a\<rparr>))
      | Process_gone n crashed \<Rightarrow> process_exit crashed n s
      | Removed_inst n \<Rightarrow> removed n s
      | Respawned n \<Rightarrow> respawn n s
      | Relaunched n \<Rightarrow> relaunch_in_place n s)"

definition no_overage :: "overage_action \<Rightarrow> nat \<Rightarrow> overage" where
  "no_overage policy now = \<lparr>ov_insts = [], ov_retired = [], ov_policy = policy, ov_active = False, ov_resumeMode = False,
     ov_resetsAt = None, ov_clear = None, ov_timers = [], ov_checking = [], ov_fails = [], ov_due = None, ov_now = now, ov_out = []\<rparr>"

text \<open>A run; \<open>relaunching\<close> says whether sessions are relaunched in place.\<close>

inductive ov_run :: "bool \<Rightarrow> overage \<Rightarrow> bool" where
  boot: "ov_run relaunching (no_overage policy now)"
| step: "ov_run relaunching s \<Longrightarrow> (relaunching \<or> (\<forall>n. x \<noteq> Relaunched n)) \<Longrightarrow> ov_run relaunching (ov_apply x s)"

end
