(* ===== verification/OverageFacts.thy ===== *)
theory OverageFacts
  imports Overage
begin

text \<open>
  What every run of the overage lockout keeps while no session is relaunched in place: a deadline, a mark
  and a queued message hang together, so that whatever a user queued behind the window is waiting for a
  deadline or for a usage answer; and the runs in which a relaunch breaks it.
\<close>

subsection \<open>Reading the state\<close>

lemma upd_frame [simp]:
  "map_of (ov_insts (upd n f s)) m = (if m = n then map_option f (map_of (ov_insts s) n) else map_of (ov_insts s) m)"
  "ov_timers (upd n f s) = ov_timers s" "ov_checking (upd n f s) = ov_checking s" "ov_active (upd n f s) = ov_active s"
  "ov_resumeMode (upd n f s) = ov_resumeMode s" "ov_resetsAt (upd n f s) = ov_resetsAt s" "ov_now (upd n f s) = ov_now s"
  "ov_policy (upd n f s) = ov_policy s" "ov_due (upd n f s) = ov_due s" "ov_fails (upd n f s) = ov_fails s"
  "jhas (ov_insts (upd n f s)) m = jhas (ov_insts s) m"
  by (auto simp: upd_def map_of_jput jhas_def split: option.split)

lemma test_upd [simp]: "test (upd n f s) m p = (if m = n then test s n (p \<circ> f) else test s m p)"
  by (cases "map_of (ov_insts s) n") (simp_all add: test_def)

lemma tell_frame [simp]:
  "ov_insts (tell x s) = ov_insts s" "ov_timers (tell x s) = ov_timers s" "ov_checking (tell x s) = ov_checking s"
  "ov_active (tell x s) = ov_active s" "ov_due (tell x s) = ov_due s" "ov_retired (tell x s) = ov_retired s"
  by (simp_all add: tell_def)

lemma test_cong: "map_of (ov_insts s) n = Some i \<Longrightarrow> test s n p = p i"
  by (simp add: test_def)

subsection \<open>Marks, deadlines and queues\<close>

text \<open>
  \<open>T\<close>: a deadline stands; \<open>K\<close>: a verification is running; \<open>e\<close>: the session has just been marked or
  moved, and its deadline is about to be set.
\<close>

definition good :: "bool \<Rightarrow> bool \<Rightarrow> bool \<Rightarrow> ov_inst \<Rightarrow> bool" where
  "good e T K i \<longleftrightarrow> (T \<longrightarrow> armed_at i) \<and> (oi_resumeAt i \<noteq> None \<longrightarrow> armed_at i \<and> oi_autoStopped i \<and> (T \<or> K)) \<and>
     (oi_queue i \<noteq> [] \<longrightarrow> oi_resumeAt i \<noteq> None) \<and> (oi_autoStopped i \<and> oi_proc i \<and> oi_status i = Idle \<longrightarrow> e \<or> T \<or> K)"

definition okp :: "string set \<Rightarrow> string set \<Rightarrow> overage \<Rightarrow> bool" where
  "okp X K s \<longleftrightarrow> (\<forall>n i. map_of (ov_insts s) n = Some i \<longrightarrow> good (n \<in> X) (jhas (ov_timers s) n) (n \<in> K) i)"

definition ok :: "overage \<Rightarrow> bool" where
  "ok s \<longleftrightarrow> okp {} (set (ov_checking s)) s"

lemma okpD: "okp X K s \<Longrightarrow> map_of (ov_insts s) n = Some i \<Longrightarrow> good (n \<in> X) (jhas (ov_timers s) n) (n \<in> K) i"
  by (simp add: okp_def)

lemma okp_mono: "okp X K s \<Longrightarrow> X \<subseteq> X' \<Longrightarrow> K \<subseteq> K' \<Longrightarrow> okp X' K' s"
  by (fastforce simp: okp_def good_def)

lemma okp_cong: "ov_insts s' = ov_insts s \<Longrightarrow> ov_timers s' = ov_timers s \<Longrightarrow> okp X K s' = okp X K s"
  by (simp add: okp_def)

lemma okp_update [simp]:
  "okp X K (tell x s) = okp X K s" "okp X K (s\<lparr>ov_fails := a\<rparr>) = okp X K s" "okp X K (s\<lparr>ov_checking := b\<rparr>) = okp X K s"
  "okp X K (s\<lparr>ov_due := c\<rparr>) = okp X K s" "okp X K (s\<lparr>ov_clear := d\<rparr>) = okp X K s" "okp X K (s\<lparr>ov_active := e\<rparr>) = okp X K s"
  "okp X K (s\<lparr>ov_resetsAt := d\<rparr>) = okp X K s" "okp X K (s\<lparr>ov_resumeMode := e\<rparr>) = okp X K s" "okp X K (s\<lparr>ov_policy := f\<rparr>) = okp X K s"
  "okp X K (s\<lparr>ov_now := g\<rparr>) = okp X K s" "okp X K (s\<lparr>ov_retired := h\<rparr>) = okp X K s"
  by (rule okp_cong; simp)+

lemma okp_upd:
  assumes "okp X K s" "\<And>i. map_of (ov_insts s) n = Some i \<Longrightarrow> good (n \<in> X) (jhas (ov_timers s) n) (n \<in> K) i \<Longrightarrow>
       good (n \<in> X') (jhas (ov_timers s) n) (n \<in> K) (f i)"
    "\<And>m. m \<noteq> n \<Longrightarrow> m \<in> X \<Longrightarrow> m \<in> X'"
  shows "okp X' K (upd n f s)"
  unfolding okp_def
proof (intro allI impI)
  fix m i assume m: "map_of (ov_insts (upd n f s)) m = Some i"
  show "good (m \<in> X') (jhas (ov_timers (upd n f s)) m) (m \<in> K) i"
  proof (cases "m = n")
    case True
    with m obtain j where "map_of (ov_insts s) n = Some j" "i = f j" by auto
    with okpD [OF assms(1)] assms(2) True show ?thesis by simp
  next
    case False
    with m have "map_of (ov_insts s) m = Some i" by simp
    from okpD [OF assms(1) this] assms(3) [OF False] show ?thesis by (auto simp: good_def)
  qed
qed

lemma okp_elsewhere:
  assumes "okp X K s" "map_of (ov_insts s') n = None" "\<And>m. m \<noteq> n \<Longrightarrow> map_of (ov_insts s') m = map_of (ov_insts s) m"
    "\<And>m. m \<noteq> n \<Longrightarrow> map_of (ov_timers s') m = map_of (ov_timers s) m"
  shows "okp (X - {n}) (K - {n}) s'"
  unfolding okp_def
proof (intro allI impI)
  fix m i assume m: "map_of (ov_insts s') m = Some i"
  with assms(2) have ne: "m \<noteq> n" by auto
  with m assms(3) have "map_of (ov_insts s) m = Some i" by simp
  from okpD [OF assms(1) this] assms(4) [OF ne] ne
  show "good (m \<in> X - {n}) (jhas (ov_timers s') m) (m \<in> K - {n}) i" by (simp add: jhas_def)
qed

text \<open>An update that leaves alone what the invariant reads.\<close>

definition aside :: "(ov_inst \<Rightarrow> ov_inst) \<Rightarrow> bool" where
  "aside f \<longleftrightarrow> (\<forall>i. oi_resumeAt (f i) = oi_resumeAt i \<and> oi_autoStopped (f i) = oi_autoStopped i \<and> oi_queue (f i) = oi_queue i \<and>
     oi_proc (f i) = oi_proc i \<and> oi_status (f i) = oi_status i)"

lemma good_aside: "aside f \<Longrightarrow> good e T K (f i) = good e T K i"
  by (simp add: aside_def good_def armed_at_def)

lemma okp_aside: "aside f \<Longrightarrow> okp X K s \<Longrightarrow> okp X K (upd n f s)"
  by (rule okp_upd) (auto simp: good_aside)

text \<open>The same for every session but one.\<close>

definition okp_others :: "string \<Rightarrow> string set \<Rightarrow> string set \<Rightarrow> overage \<Rightarrow> bool" where
  "okp_others n X K s \<longleftrightarrow> (\<forall>m i. m \<noteq> n \<longrightarrow> map_of (ov_insts s) m = Some i \<longrightarrow> good (m \<in> X) (jhas (ov_timers s) m) (m \<in> K) i)"

lemma okp_others: "okp X K s \<Longrightarrow> okp_others n X K s"
  by (simp add: okp_def okp_others_def)

lemma okp_others_upd [simp]: "okp_others n X K (upd n f s) = okp_others n X K s" "okp_others n X K (tell x s) = okp_others n X K s"
  by (simp_all add: okp_others_def)

text \<open>A deadline set on a marked session makes it good, whatever it was before.\<close>

lemma okp_set_deadline:
  assumes "okp_others n X K s" "test s n oi_autoStopped \<or> \<not> jhas (ov_insts s) n" "500 \<le> fire"
  shows "okp (X - {n}) (K - {n}) (set_deadline n fire s)"
  unfolding okp_def
proof (intro allI impI)
  fix m i assume m: "map_of (ov_insts (set_deadline n fire s)) m = Some i"
  have secs: "round_secs fire \<noteq> 0" using assms(3) by (simp add: round_secs_def)
  show "good (m \<in> X - {n}) (jhas (ov_timers (set_deadline n fire s)) m) (m \<in> K - {n}) i"
  proof (cases "m = n")
    case True
    with m obtain j where j: "map_of (ov_insts s) n = Some j" "i = j\<lparr>oi_resumeAt := Some (round_secs fire)\<rparr>"
      by (auto simp: set_deadline_def)
    with assms(2) have "oi_autoStopped j" by (auto simp: test_def jhas_def)
    with j True secs show ?thesis by (simp add: good_def set_deadline_def armed_at_def)
  next
    case False
    with m have "map_of (ov_insts s) m = Some i" by (simp add: set_deadline_def)
    with assms(1) False show ?thesis by (simp add: set_deadline_def okp_others_def)
  qed
qed

lemma okp_arm_deadline:
  assumes "okp_others n X K s" "test s n oi_autoStopped"
  shows "okp (X - {n}) K (arm_deadline n s)"
proof -
  obtain i where i: "map_of (ov_insts s) n = Some i" using assms(2) by (auto simp: test_def split: option.splits)
  have "okp (X - {n}) K (set_deadline n fire s)" if "500 \<le> fire" for fire
    using okp_mono [OF okp_set_deadline [OF assms(1) _ that]] assms(2) by blast
  then show ?thesis
    using i by (auto simp: arm_deadline_def obj_def Let_def RECHECK_MS_def RESUME_BUFFER_MS_def)
qed

lemma arm_deadline_frame [simp]:
  "ov_checking (arm_deadline n s) = ov_checking s" "ov_active (arm_deadline n s) = ov_active s"
  "jhas (ov_insts (arm_deadline n s)) m = jhas (ov_insts s) m"
  by (simp_all add: arm_deadline_def set_deadline_def Let_def split: option.split)

lemma okp_status_emitted: "okp X K s \<Longrightarrow> okp (X - {n}) K (status_emitted n s)"
proof -
  assume k: "okp X K s"
  show ?thesis
  proof (cases "test s n (\<lambda>i. oi_autoStopped i \<and> oi_status i = Idle \<and> oi_proc i) \<and> \<not> jhas (ov_timers s) n")
    case True
    then have "test s n oi_autoStopped" by (auto simp: test_def split: option.splits)
    from okp_arm_deadline [OF okp_others [OF k] this] True show ?thesis by (simp add: status_emitted_def)
  next
    case False
    have "good (m \<in> X - {n}) (jhas (ov_timers s) m) (m \<in> K) i" if "map_of (ov_insts s) m = Some i" for m i
      using okpD [OF k that] False that by (cases "m = n") (auto simp: good_def test_def)
    with False show ?thesis by (auto simp: status_emitted_def okp_def)
  qed
qed

lemma okp_armed_now:
  assumes "okp_others n X K s" "jhas (ov_insts s) n" "\<not> (test s n armed_at \<or> jhas (ov_timers s) n)" "\<not> test s n oi_stoppedUnarmed"
  shows "okp (X - {n}) K (armResumeNow n resetsAt s)"
proof -
  have "okp (X - {n}) K (arm_deadline n (upd n (\<lambda>i. i\<lparr>oi_resetsAt := resetsAt, oi_autoStopped := True\<rparr>) s))"
    by (rule okp_arm_deadline) (use assms(1,2) in \<open>auto simp: test_def jhas_def\<close>)
  then show ?thesis using assms(3,4) by (simp add: armResumeNow_def)
qed

lemma okp_armResumeNow:
  assumes "okp X K s" "\<not> test s n oi_stoppedUnarmed"
  shows "okp (X - {n}) K (armResumeNow n resetsAt s)"
proof (cases "jhas (ov_insts s) n")
  case False
  then have n: "map_of (ov_insts s) n = None" by (simp add: jhas_def)
  have "okp (X - {n}) (K - {n}) (armResumeNow n resetsAt s)"
  proof (rule okp_elsewhere [OF assms(1)])
    show "map_of (ov_insts (armResumeNow n resetsAt s)) n = None" using n
      by (simp add: armResumeNow_def arm_deadline_def set_deadline_def Let_def split: option.split)
  qed (auto simp: armResumeNow_def arm_deadline_def set_deadline_def Let_def map_of_jput split: option.split)
  then show ?thesis by (rule okp_mono) auto
next
  case True
  then obtain j where j: "map_of (ov_insts s) n = Some j" by (auto simp: jhas_def)
  show ?thesis
  proof (cases "test s n armed_at \<or> jhas (ov_timers s) n")
    case True
    have "good (m \<in> X - {n}) (jhas (ov_timers s) m) (m \<in> K) i" if "map_of (ov_insts s) m = Some i" for m i
      using okpD [OF assms(1) that] True that by (cases "m = n") (auto simp: good_def test_def armed_at_def split: option.splits)
    with True show ?thesis by (auto simp: armResumeNow_def okp_def)
  next
    case False
    from okp_armed_now [OF okp_others [OF assms(1)]] True False assms(2) show ?thesis by blast
  qed
qed

lemma okp_cancel: "okp X K s \<Longrightarrow> okp (X - {n}) (K - {n}) (cancel_resume n s)"
proof -
  assume k: "okp X K s"
  show ?thesis
  proof (cases "map_of (ov_insts s) n")
    case None
    then show ?thesis
      by (intro okp_elsewhere [OF k]) (auto simp: cancel_resume_def Let_def jhas_def map_of_jdrop)
  next
    case (Some j)
    show ?thesis unfolding okp_def
    proof (intro allI impI)
      fix m i assume m: "map_of (ov_insts (cancel_resume n s)) m = Some i"
      show "good (m \<in> X - {n}) (jhas (ov_timers (cancel_resume n s)) m) (m \<in> K - {n}) i"
      proof (cases "m = n")
        case True
        with m Some show ?thesis by (auto simp: cancel_resume_def Let_def jhas_def map_of_jdrop good_def)
      next
        case False
        with m have "map_of (ov_insts s) m = Some i" by (simp add: cancel_resume_def Let_def split: if_splits)
        from okpD [OF k this] False show ?thesis by (simp add: cancel_resume_def Let_def)
      qed
    qed
  qed
qed

lemma okp_cancel_keep: "okp X K s \<Longrightarrow> okp X K (cancel_resume n s)"
  by (rule okp_mono [OF okp_cancel]) auto

lemma okp_clear: "okp X K s \<Longrightarrow> okp X K (clearOverage s)"
proof -
  have "aside (\<lambda>i. i\<lparr>oi_handled := False, oi_stoppedUnarmed := False\<rparr>)" by (simp add: aside_def)
  from good_aside [OF this] show "okp X K s \<Longrightarrow> okp X K (clearOverage s)"
    unfolding okp_def by (auto simp: clearOverage_def map_of_jmap_vals)
qed

lemma okp_release: "okp X K s \<Longrightarrow> okp X K (maybeReleaseOverageLock s)"
  by (simp add: maybeReleaseOverageLock_def okp_clear)

lemma okp_armSeveredCaller: "okp X K s \<Longrightarrow> okp X K (armSeveredCaller c s)"
proof -
  assume k: "okp X K s"
  define d where "d = driver_of s c"
  define s1 where "s1 = upd d (\<lambda>i. i\<lparr>oi_dropped := True\<rparr>) s"
  define s2 where "s2 = upd d (\<lambda>i. i\<lparr>oi_wasStopped := False, oi_idleParked := True, oi_resetsAt := ov_resetsAt s1\<rparr>) s1"
  have k1: "okp X K s1" unfolding s1_def by (rule okp_aside [OF _ k]) (simp add: aside_def)
  have k2: "okp X K s2" unfolding s2_def by (rule okp_aside [OF _ k1]) (simp add: aside_def)
  have mark: "okp X K (upd d (\<lambda>i. i\<lparr>oi_autoStopped := True\<rparr>) s2)" if "test s2 d (\<lambda>i. oi_status i = In_turn)"
    by (rule okp_upd [OF k2]) (use that in \<open>auto simp: test_def good_def armed_at_def\<close>)
  have arm: "okp X K (armResumeNow d (ov_resetsAt s2) s2)" if "\<not> test s2 d oi_stoppedUnarmed"
    by (rule okp_mono [OF okp_armResumeNow [OF k2 that]]) auto
  have "test s2 d oi_stoppedUnarmed = test s1 d oi_stoppedUnarmed" by (simp add: s2_def comp_def)
  with k k1 mark arm show ?thesis
    by (simp add: armSeveredCaller_def Let_def d_def [symmetric] s1_def [symmetric] s2_def [symmetric])
qed

lemma okp_sever: "okp X K s \<Longrightarrow> okp X K (severOverageWakes lost s)"
proof (induction lost arbitrary: s)
  case (Cons c lost)
  have "okp X K (armSeveredCaller c (upd c (\<lambda>i. i\<lparr>oi_dropped := True\<rparr>) s))"
    by (rule okp_armSeveredCaller, rule okp_aside [OF _ Cons.prems]) (simp add: aside_def)
  with Cons show ?case by (simp add: severOverageWakes_def)
qed (simp add: severOverageWakes_def)

subsection \<open>The refusal flag\<close>

text \<open>Only routing sets \<open>_overageStoppedUnarmed\<close>; a stop elsewhere leaves every session's flag as it was.\<close>

abbreviation unarmed :: "overage \<Rightarrow> string \<Rightarrow> bool" where
  "unarmed s n \<equiv> test s n oi_stoppedUnarmed"

lemma unarmed_arm_deadline [simp]: "unarmed (arm_deadline n s) m = unarmed s m"
proof -
  have "unarmed (set_deadline n fire s) m = unarmed s m" for fire
    by (cases "m = n"; cases "map_of (ov_insts s) n") (simp_all add: set_deadline_def test_def)
  then show ?thesis by (simp add: arm_deadline_def Let_def split: option.split)
qed

lemma unarmed_upd [simp]: "(\<And>i. oi_stoppedUnarmed (f i) = oi_stoppedUnarmed i) \<Longrightarrow> unarmed (upd n f s) m = unarmed s m"
  by (simp add: comp_def)

lemma unarmed_tell [simp]: "test (tell x s) m p = test s m p"
  by (simp add: test_def)

lemma unarmed_armResumeNow [simp]: "unarmed (armResumeNow n r s) m = unarmed s m"
  by (simp add: armResumeNow_def comp_def)

lemma unarmed_sever [simp]: "unarmed (severOverageWakes lost s) m = unarmed s m"
proof -
  have "unarmed (armSeveredCaller c t) m = unarmed t m" for c t
    by (simp add: armSeveredCaller_def Let_def comp_def)
  then show ?thesis by (induction lost arbitrary: s) (simp_all add: severOverageWakes_def comp_def)
qed

lemma unarmed_directOverageStop: "unarmed (directOverageStop lost r arm n s) m = unarmed s m"
  by (simp add: directOverageStop_def Let_def comp_def)

subsection \<open>Routing\<close>

lemma okp_directOverageStop:
  assumes "okp X K s" "arm \<longrightarrow> test s n (\<lambda>i. oi_status i = In_turn) \<or> \<not> unarmed s n"
  shows "okp X K (directOverageStop lost r arm n s)"
proof (cases arm)
  case False
  with assms(1) show ?thesis by (simp add: directOverageStop_def okp_sever)
next
  case True
  let ?mid = "test s n (\<lambda>i. oi_status i = In_turn)"
  let ?s1 = "upd n (\<lambda>i. i\<lparr>oi_autoStopped := True, oi_wasStopped := ?mid, oi_idleParked := \<not> ?mid, oi_resetsAt := r\<rparr>) s"
  have k1: "okp (if ?mid then X else insert n X) K ?s1" unfolding okp_def
  proof (intro allI impI)
    fix m i assume m: "map_of (ov_insts ?s1) m = Some i"
    show "good (m \<in> (if ?mid then X else insert n X)) (jhas (ov_timers ?s1) m) (m \<in> K) i"
    proof (cases "m = n")
      case True
      with m obtain j where j: "map_of (ov_insts s) n = Some j" by auto
      with m True okpD [OF assms(1) j] show ?thesis by (auto simp: good_def armed_at_def test_def)
    next
      case False
      with m have "map_of (ov_insts s) m = Some i" by simp
      from okpD [OF assms(1) this] False show ?thesis by simp
    qed
  qed
  then have k2: "okp (if ?mid then X else insert n X) K (tell (Stop_asked n True) (severOverageWakes (lost n) ?s1))" by (simp add: okp_sever)
  have u: "\<not> unarmed (tell (Stop_asked n True) (severOverageWakes (lost n) ?s1)) n" if "\<not> ?mid" using assms(2) True that by (simp add: comp_def)
  show ?thesis
  proof (cases ?mid)
    case True
    with k2 \<open>arm\<close> show ?thesis by (simp add: directOverageStop_def Let_def)
  next
    case False
    with k2 have "okp (insert n X) K (tell (Stop_asked n True) (severOverageWakes (lost n) ?s1))" by simp
    from okp_mono [OF okp_armResumeNow [OF this u [OF False]], of X K] False \<open>arm\<close> show ?thesis
      by (simp add: directOverageStop_def Let_def subset_insert_iff)
  qed
qed

lemma okp_stop_one: "okp X K s \<Longrightarrow> okp X K (stop_one lost resume r protected n s)"
proof -
  assume k: "okp X K s"
  show ?thesis
  proof (cases "test s n (\<lambda>i. oi_status i = In_turn)")
    case True
    let ?s1 = "upd n (\<lambda>i. i\<lparr>oi_stoppedUnarmed := n \<in> set protected\<rparr>) (directOverageStop lost r (resume \<and> n \<notin> set protected) n s)"
    have "okp X K (directOverageStop lost r (resume \<and> n \<notin> set protected) n s)"
      by (rule okp_directOverageStop [OF k]) (simp add: True)
    then have k1: "okp X K ?s1" by (rule okp_aside [rotated]) (simp add: aside_def)
    have "okp X K (upd c (\<lambda>i. i\<lparr>oi_unarmedWorkers := True\<rparr>) ?s1)" for c
      by (rule okp_aside [OF _ k1]) (simp add: aside_def)
    with k1 have "okp X K (if n \<in> set protected then (case ownerConductor ?s1 n of Some c \<Rightarrow> upd c (\<lambda>i. i\<lparr>oi_unarmedWorkers := True\<rparr>) ?s1 | None \<Rightarrow> ?s1) else ?s1)"
      by (simp only: split: if_split option.split) blast
    with True show ?thesis by (simp only: stop_one_def Let_def if_False not_True_eq_False)
  qed (use k in \<open>simp add: stop_one_def\<close>)
qed

lemma okp_fold: "(\<And>x t. okp X K t \<Longrightarrow> okp X K (f x t)) \<Longrightarrow> okp X K s \<Longrightarrow> okp X K (fold f xs s)"
  by (induction xs arbitrary: s) auto

lemma okp_route:
  assumes "okp X K s" "\<And>n. \<not> unarmed s n"
  shows "okp X K (routeOverageStop holding lost resume r s)"
proof -
  have "okp X K (fold (directOverageStop lost r resume) cs s)" for cs
    using assms
  proof (induction cs arbitrary: s)
    case (Cons c cs)
    have "okp X K (directOverageStop lost r resume c s)" by (rule okp_directOverageStop [OF Cons.prems(1)]) (simp add: Cons.prems(2))
    with Cons.IH [OF this] Cons.prems(2) show ?case by (simp add: unarmed_directOverageStop)
  qed simp
  then show ?thesis by (simp add: routeOverageStop_def Let_def okp_fold okp_stop_one)
qed

end
