(* ===== verification/OverageRuns.thy ===== *)
theory OverageRuns
  imports OverageFacts
begin

text \<open>
  The invariant over whole runs of the overage lockout, the claims that rest on it, and the runs in which
  a relaunch in place, or a cancelled deadline, leaves the lockout or a queued message behind for good.
\<close>

subsection \<open>Every input keeps the invariant\<close>

lemma okp_set_status: "okp X K s \<Longrightarrow> okp X K (set_status lost st n s)"
proof -
  assume k: "okp X K s"
  let ?s1 = "upd n (\<lambda>i. i\<lparr>oi_status := st\<rparr>) s"
  have k1: "okp (insert n X) K ?s1" by (rule okp_upd [OF k]) (auto simp: good_def armed_at_def)
  then have k2: "okp (insert n X) K (guardOverageTurnStart lost n ?s1)" by (simp add: guardOverageTurnStart_def okp_sever)
  have "okp X K (status_emitted n t)" if "okp (insert n X) K t" for t
    by (rule okp_mono [OF okp_status_emitted [OF that]]) auto
  from this [OF k1] this [OF k2] k show ?thesis by (simp only: set_status_def Let_def split: if_split) blast
qed

lemma okp_firing: "okp X K s \<Longrightarrow> okp X K (upd n (\<lambda>i. i\<lparr>oi_firing := b\<rparr>) s)"
  by (rule okp_aside) (simp_all add: aside_def)

lemma okp_internal_send: "okp X K s \<Longrightarrow> okp X K (internal_send lost n s)"
  by (simp add: internal_send_def okp_set_status)

lemma okp_user_prompted: "okp X K s \<Longrightarrow> okp X K (user_prompted n s)"
  by (simp add: user_prompted_def Let_def okp_clear okp_cancel_keep)

lemma okp_user_send:
  assumes "okp X K s"
  shows "okp X K (user_send lost n m s)"
proof -
  let ?s1 = "tell (Queued n (om_id m)) (upd n (\<lambda>i. i\<lparr>oi_queue := oi_queue i @ [m]\<rparr>) s)"
  consider (out) "\<not> test s n oi_proc \<or> test s n oi_stoppedUnarmed \<and> overageGate s n"
    | (queue) "test s n oi_proc" "\<not> (test s n oi_stoppedUnarmed \<and> overageGate s n)" "overageGate s n \<or> test s n (\<lambda>i. oi_autoStopped i \<and> armed_at i)"
    | (send) "test s n oi_proc" "\<not> (test s n oi_stoppedUnarmed \<and> overageGate s n)" "\<not> (overageGate s n \<or> test s n (\<lambda>i. oi_autoStopped i \<and> armed_at i))"
    by blast
  then show ?thesis
  proof cases
    case out
    with assms show ?thesis by (auto simp: user_send_def)
  next
    case send
    with assms show ?thesis by (simp add: user_send_def okp_set_status okp_user_prompted del: de_Morgan_disj)
  next
    case queue
    obtain i where i: "map_of (ov_insts s) n = Some i" using queue(1) by (auto simp: test_def split: option.splits)
    have q: "user_send lost n m s = status_emitted n (if test ?s1 n armed_at then ?s1
        else armResumeNow n (if overageGate ?s1 n then ov_resetsAt ?s1 else None) ?s1)"
      by (simp only: user_send_def Let_def queue if_False if_True not_True_eq_False)
    have at: "test ?s1 n armed_at = armed_at i" using i by (simp add: test_def armed_at_def)
    have "okp X K (if test ?s1 n armed_at then ?s1 else armResumeNow n r ?s1)" for r
    proof (cases "armed_at i")
      case True
      have "okp X K (upd n (\<lambda>i. i\<lparr>oi_queue := oi_queue i @ [m]\<rparr>) s)"
        by (rule okp_upd [OF assms]) (use True i in \<open>auto simp: good_def armed_at_def split: option.splits\<close>)
      with True at show ?thesis by simp
    next
      case False
      have ns: "oi_resumeAt i = None" "\<not> jhas (ov_timers s) n" using okpD [OF assms i] False by (auto simp: good_def)
      have gate: "overageGate s n" using queue(3) False i by (auto simp: test_def)
      have "okp (X - {n}) K (armResumeNow n r ?s1)"
      proof (rule okp_armed_now)
        show "okp_others n X K ?s1" using okp_others [OF assms] by simp
        show "jhas (ov_insts ?s1) n" using i by (simp add: jhas_def)
        show "\<not> (test ?s1 n armed_at \<or> jhas (ov_timers ?s1) n)" using at False ns(2) by simp
        show "\<not> test ?s1 n oi_stoppedUnarmed" using queue(2) gate by (simp add: comp_def)
      qed
      with False at show ?thesis by (auto intro: okp_mono)
    qed
    then show ?thesis unfolding q by (intro okp_mono [OF okp_status_emitted]) auto
  qed
qed

lemma okp_resume_now: "okp {} K s \<Longrightarrow> okp {} (K - {n}) (resume_now lost taken n s)"
proof -
  assume k: "okp {} K s"
  define t where "t = s\<lparr>ov_fails := jdrop n (ov_fails s)\<rparr>"
  have kt: "okp {} K t" using k by (simp add: t_def)
  have "okp {} (K - {n}) (run_resume lost taken n t)"
  proof (cases "obj t n")
    case None
    then have "map_of (ov_insts t) n = None" by (auto simp: obj_def split: option.splits)
    from okp_elsewhere [OF kt this] None show ?thesis by (simp add: run_resume_def)
  next
    case (Some i)
    have "okp {} K (upd n (\<lambda>i. i\<lparr>oi_queue := []\<rparr>) t)" by (rule okp_upd [OF kt]) (auto simp: good_def armed_at_def)
    from okp_cancel [OF this, of n] have "okp {} (K - {n}) (cancel_resume n (upd n (\<lambda>i. i\<lparr>oi_queue := []\<rparr>) t))" by simp
    moreover have "okp {} (K - {n}) (cancel_resume n t)" using okp_cancel [OF kt, of n] by simp
    ultimately show ?thesis using Some by (simp add: run_resume_def Let_def okp_firing okp_set_status)
  qed
  then show ?thesis by (simp add: resume_now_def t_def [symmetric] okp_release)
qed

lemma okp_reschedule:
  assumes "okp {} K s" "\<And>i. map_of (ov_insts s) n = Some i \<Longrightarrow> oi_autoStopped i \<or> oi_resumeAt i \<noteq> None"
  shows "okp {} (K - {n}) (reschedule n s)"
proof -
  have mark: "test s n oi_autoStopped \<or> \<not> jhas (ov_insts s) n"
  proof (cases "map_of (ov_insts s) n")
    case (Some i)
    with okpD [OF assms(1) Some] assms(2) [OF Some] show ?thesis by (auto simp: good_def test_def)
  qed (simp add: jhas_def)
  have "okp ({} - {n}) (K - {n}) (set_deadline n fire s)" if "500 \<le> fire" for fire
    by (rule okp_set_deadline [OF okp_others [OF assms(1)] mark that])
  moreover have "okp {} (K - {n}) s" if "obj s n = None"
  proof -
    from that have "map_of (ov_insts s) n = None" by (auto simp: obj_def split: option.splits)
    from okp_elsewhere [OF assms(1) this] show ?thesis by simp
  qed
  moreover have "500 \<le> max a (b + RECHECK_MS)" for a b by (simp add: RECHECK_MS_def)
  ultimately show ?thesis by (simp add: reschedule_def Let_def split: option.split)
qed

lemma okp_resolveDue:
  assumes k: "okp {} K s"
  shows "okp {} (K - {n}) (resolveDue lost taken over n s)"
proof (cases "obj s n")
  case None
  then have "map_of (ov_insts s) n = None" by (auto simp: obj_def split: option.splits)
  from okp_elsewhere [OF k this] None show ?thesis by (simp add: resolveDue_def)
next
  case (Some i)
  have same: "j = i" if "map_of (ov_insts s) n = Some j" for j using that Some by (simp add: obj_def)
  show ?thesis
  proof (cases "\<not> oi_autoStopped i \<and> oi_resumeAt i = None")
    case True
    have "okp {} (K - {n}) s" unfolding okp_def
    proof (intro allI impI)
      fix m j assume m: "map_of (ov_insts s) m = Some j"
      show "good (m \<in> {}) (jhas (ov_timers s) m) (m \<in> K - {n}) j"
        using okpD [OF k m] True same m by (cases "m = n") (auto simp: good_def)
    qed
    with True Some show ?thesis by (simp add: resolveDue_def)
  next
    case False
    have "okp {} (K - {n}) (reschedule n (s\<lparr>ov_fails := f\<rparr>))" for f
      by (rule okp_reschedule) (use k same False in auto)
    moreover have "okp {} (K - {n}) (reschedule n s)"
      by (rule okp_reschedule [OF k]) (use same False in auto)
    ultimately show ?thesis
      using Some False okp_resume_now [OF k, of n lost taken] by (simp only: resolveDue_def option.case Let_def split: if_split) blast
  qed
qed

lemma checking_frame [simp]:
  "ov_checking (cancel_resume n s) = ov_checking s" "ov_checking (armResumeNow n r s) = ov_checking s"
  "ov_checking (status_emitted n s) = ov_checking s" "ov_checking (maybeReleaseOverageLock s) = ov_checking s"
  "ov_checking (reschedule n s) = ov_checking s" "ov_checking (user_prompted n s) = ov_checking s"
  by (simp_all add: cancel_resume_def armResumeNow_def status_emitted_def maybeReleaseOverageLock_def clearOverage_def
      reschedule_def set_deadline_def user_prompted_def Let_def split: option.split)

lemma checking_sever [simp]: "ov_checking (severOverageWakes lost s) = ov_checking s"
proof -
  have "ov_checking (armSeveredCaller c t) = ov_checking t" for c t by (simp add: armSeveredCaller_def Let_def)
  then show ?thesis by (induction lost arbitrary: s) (simp_all add: severOverageWakes_def)
qed

lemma checking_stops [simp]:
  "ov_checking (directOverageStop lost r arm n s) = ov_checking s" "ov_checking (stop_one lost resume r ps n s) = ov_checking s"
  by (simp_all add: stop_one_def directOverageStop_def Let_def split: option.split)

lemma checking_route: "ov_checking (routeOverageStop holding lost resume r s) = ov_checking s"
proof -
  have "ov_checking (fold (stop_one lost resume r ps) ns t) = ov_checking t" for ps ns t by (induction ns arbitrary: t) simp_all
  moreover have "ov_checking (fold (directOverageStop lost r resume) ns t) = ov_checking t" for ns t by (induction ns arbitrary: t) simp_all
  ultimately show ?thesis by (simp add: routeOverageStop_def Let_def)
qed

lemma checking_set_status [simp]: "ov_checking (set_status lost st n s) = ov_checking s"
  by (simp add: set_status_def guardOverageTurnStart_def Let_def)

lemma checking_resume [simp]: "ov_checking (resume_now lost taken n s) = ov_checking s"
  by (simp add: resume_now_def run_resume_def Let_def split: option.split)

lemma resolve_checking: "ov_checking (resolveDue lost taken over n s) = ov_checking s"
  by (cases "obj s n") (simp_all add: resolveDue_def Let_def)

lemma ok_sweeps:
  assumes "ok s"
  shows "ok (sweep_begin s)" "ok (sweep_end lost' taken' over s)" "ok (fire_begin n s)" "ok (fire_end lost taken over n s)"
    "ok (reevaluateOverageResumes s)"
proof -
  have one: "ok (checked n (resolveDue l tk over n t))" if "ok t" for n l tk t
  proof -
    have "okp {} (set (ov_checking t) - {n}) (resolveDue l tk over n t)" using okp_resolveDue that by (simp add: ok_def)
    then show ?thesis by (simp add: ok_def checked_def resolve_checking)
  qed
  then show "ok (fire_end lost taken over n s)" using assms by (simp add: fire_end_def)
  have "ok (fold (\<lambda>n s. checked n (resolveDue (lost' n) (taken' n) over n s)) due t)" if "ok t" for due t
    using that by (induction due arbitrary: t) (simp_all add: one)
  then show "ok (sweep_end lost' taken' over s)" using assms by (simp add: sweep_end_def ok_def split: option.split)
  have fire: "ok (fire_begin n t)" if "ok t" for n t
  proof -
    have "good (m \<in> {}) (jhas (jdrop n (ov_timers t)) m) (m \<in> set (ov_checking t @ [n])) i" if m: "map_of (ov_insts t) m = Some i" for m i
      using okpD [OF \<open>ok t\<close> [unfolded ok_def] m] by (auto simp: good_def)
    then have "okp {} (set (ov_checking t @ [n])) (t\<lparr>ov_checking := ov_checking t @ [n], ov_timers := jdrop n (ov_timers t)\<rparr>)"
      by (simp add: okp_def)
    moreover have "okp {} (set (ov_checking t)) (t\<lparr>ov_timers := jdrop n (ov_timers t)\<rparr>)" if no: "\<not> jhas (ov_insts t) n"
    proof -
      have "map_of (ov_insts t) n = None" using no by (simp add: jhas_def)
      then have "okp ({} - {n}) (set (ov_checking t) - {n}) (t\<lparr>ov_timers := jdrop n (ov_timers t)\<rparr>)"
        by (intro okp_elsewhere [OF \<open>ok t\<close> [unfolded ok_def]]) (simp_all add: map_of_jdrop)
      then show ?thesis by (rule okp_mono) auto
    qed
    ultimately show ?thesis using that by (simp add: fire_begin_def ok_def)
  qed
  then show "ok (fire_begin n s)" using assms .
  have "ok (fold fire_begin ns t)" if "ok t" for ns t using that fire by (induction ns arbitrary: t) simp_all
  then show "ok (reevaluateOverageResumes s)" using assms by (simp add: reevaluateOverageResumes_def)
  show "ok (sweep_begin s)"
  proof -
    define orphans where "orphans = filter (\<lambda>n. \<not> jhas (ov_insts s) n) (due_now s)"
    have drop: "map_of (fold jdrop ns tm) m = (if m \<in> set ns then None else map_of tm m)" for ns and tm :: "(string, nat) jmap" and m
      by (induction ns arbitrary: tm) (auto simp: map_of_jdrop)
    have "good (m \<in> {}) (jhas (fold jdrop orphans (ov_timers s)) m) (m \<in> set (ov_checking s)) i" if m: "map_of (ov_insts s) m = Some i" for m i
    proof -
      have "m \<notin> set orphans" using m by (simp add: orphans_def jhas_def)
      with okpD [OF assms [unfolded ok_def] m] show ?thesis by (simp add: drop jhas_def)
    qed
    then have k: "okp {} (set (ov_checking s)) (s\<lparr>ov_timers := fold jdrop orphans (ov_timers s)\<rparr>)" by (simp add: okp_def)
    have "okp {} (set (ov_checking s) \<union> D) (s\<lparr>ov_timers := fold jdrop orphans (ov_timers s)\<rparr>)" for D
      using okp_mono [OF k] by blast
    with k assms show ?thesis by (simp add: sweep_begin_def Let_def orphans_def [symmetric] ok_def)
  qed
qed

lemma ok_sync: "ok s \<Longrightarrow> ok (syncOveragePolicy s)"
proof -
  assume k: "ok s"
  define f where "f = (\<lambda>n s. if test s n (\<lambda>i. armed_at i \<or> oi_autoStopped i \<or> oi_queue i \<noteq> [] \<or> oi_stoppedUnarmed i) \<or> jhas (ov_timers s) n
      then (let q = length (case map_of (ov_insts s) n of Some i \<Rightarrow> oi_queue i | None \<Rightarrow> []);
                s1 = cancel_resume n s
            in if 0 < q then tell (Queue_dropped n q) s1 else s1)
      else s)"
  have "ok (f n t)" if "ok t" for n t
  proof -
    have "okp {} (set (ov_checking t)) (cancel_resume n t)" by (rule okp_cancel_keep [OF that [unfolded ok_def]])
    then show ?thesis using that by (simp add: f_def Let_def ok_def)
  qed
  then have "ok (fold f ns t)" if "ok t" for ns t using that by (induction ns arbitrary: t) simp_all
  moreover have "ok (s\<lparr>ov_resumeMode := False\<rparr>)" using k by (simp add: ok_def)
  ultimately show ?thesis using k by (simp add: syncOveragePolicy_def f_def)
qed

lemma okp_retire: "okp X K s \<Longrightarrow> okp X K (retire n s)"
proof (cases "map_of (ov_insts s) n")
  case (Some i)
  assume k: "okp X K s"
  have "okp (X - {n}) (K - {n}) (retire n s)"
    by (intro okp_elsewhere [OF k]) (simp_all add: retire_def Some map_of_jdrop)
  then show ?thesis by (rule okp_mono) auto
qed (simp add: retire_def)

lemma checking_retire [simp]: "ov_checking (retire n s) = ov_checking s"
  by (simp add: retire_def split: option.split)

lemma ok_exit: "ok s \<Longrightarrow> ok (process_exit crashed n s)" "ok s \<Longrightarrow> ok (removed n s)"
proof -
  assume k: "ok s"
  let ?K = "set (ov_checking s)"
  have "okp {} ?K (upd n (\<lambda>i. i\<lparr>oi_proc := False\<rparr>) s)"
    by (rule okp_upd [OF k [unfolded ok_def]]) (auto simp: good_def armed_at_def)
  from okp_set_status [OF this] have e: "okp {} ?K (set_status l st n (upd n (\<lambda>i. i\<lparr>oi_proc := False\<rparr>) s))" for l st .
  from k e show "ok (process_exit crashed n s)"
    by (simp add: process_exit_def Let_def ok_def okp_retire okp_cancel_keep)
  show "ok (removed n s)" using k by (simp add: removed_def ok_def okp_cancel_keep okp_retire)
qed

lemma ok_respawn: "ok s \<Longrightarrow> ok (respawn n s)"
proof -
  assume k: "ok s"
  have "\<not> jhas (ov_timers (cancel_resume n s)) n" by (simp add: cancel_resume_def Let_def)
  then have "okp {} (set (ov_checking s)) (upd n fresh_run (cancel_resume n s))"
    by (intro okp_upd [OF okp_cancel_keep [OF k [unfolded ok_def]]]) (simp_all add: good_def fresh_run_def)
  with k show ?thesis by (simp add: respawn_def ok_def)
qed

text \<open>No session refuses sends while no lockout stands.\<close>

definition released :: "overage \<Rightarrow> bool" where
  "released s \<longleftrightarrow> ov_active s \<or> (\<forall>n. \<not> unarmed s n)"

lemma released_mono: "released s \<Longrightarrow> ov_active s' = ov_active s \<Longrightarrow> (\<And>n. unarmed s' n \<Longrightarrow> unarmed s n) \<Longrightarrow> released s'"
  by (auto simp: released_def)

lemma released_upd [intro!]: "released s \<Longrightarrow> (\<And>i. oi_stoppedUnarmed (f i) \<Longrightarrow> oi_stoppedUnarmed i) \<Longrightarrow> released (upd n f s)"
  by (erule released_mono) (auto simp: test_def split: if_splits option.splits)

lemma released_keep [simp]:
  "released (tell x s) = released s" "released (s\<lparr>ov_fails := a\<rparr>) = released s" "released (s\<lparr>ov_timers := b\<rparr>) = released s"
  "released (s\<lparr>ov_checking := c\<rparr>) = released s" "released (s\<lparr>ov_due := d\<rparr>) = released s" "released (s\<lparr>ov_clear := e\<rparr>) = released s"
  "released (s\<lparr>ov_resetsAt := e\<rparr>) = released s" "released (s\<lparr>ov_resumeMode := f\<rparr>) = released s" "released (s\<lparr>ov_policy := g\<rparr>) = released s"
  "released (s\<lparr>ov_now := h\<rparr>) = released s"
  by (simp_all add: released_def test_def)

lemma active_sever [simp]: "ov_active (severOverageWakes lost s) = ov_active s" "ov_active (armResumeNow n r s) = ov_active s"
proof -
  show arm: "ov_active (armResumeNow n r s) = ov_active s" for n r and s :: overage by (simp add: armResumeNow_def)
  have "ov_active (armSeveredCaller c t) = ov_active t" for c t by (simp add: armSeveredCaller_def Let_def arm)
  then show "ov_active (severOverageWakes lost s) = ov_active s" by (induction lost arbitrary: s) (simp_all add: severOverageWakes_def)
qed

lemma released_stops [intro!]:
  "released s \<Longrightarrow> released (severOverageWakes lost s)" "released s \<Longrightarrow> released (arm_deadline n s)"
  "released s \<Longrightarrow> released (armResumeNow n r s)" "released s \<Longrightarrow> released (status_emitted n s)"
  by (auto simp: status_emitted_def elim: released_mono)

lemma released_clear [intro!]: "released (clearOverage s)" "released s \<Longrightarrow> released (maybeReleaseOverageLock s)"
  by (auto simp: released_def clearOverage_def maybeReleaseOverageLock_def test_def map_of_jmap_vals split: option.splits)

lemma released_cancel [intro!]: "released s \<Longrightarrow> released (cancel_resume n s)"
proof -
  assume k: "released s"
  show ?thesis unfolding cancel_resume_def Let_def using k by (auto intro!: released_upd)
qed

lemma released_set_status [intro!]: "released s \<Longrightarrow> released (set_status lost st n s)"
  unfolding set_status_def guardOverageTurnStart_def Let_def by auto

lemma released_user_send [intro!]: "released s \<Longrightarrow> released (user_send lost n m s)"
proof -
  assume k: "released s"
  have "released (set_status lost In_turn n (tell x (user_prompted n s)))" for x
    unfolding user_prompted_def Let_def using k by auto
  moreover have "released (status_emitted n (if b then t else armResumeNow n r t))" if "released t" for b r t using that by auto
  moreover have "released (tell x (upd n (\<lambda>i. i\<lparr>oi_queue := oi_queue i @ [m]\<rparr>) s))" for x using k by auto
  ultimately show ?thesis using k by (simp add: user_send_def Let_def)
qed

lemma released_internal_send [intro!]: "released s \<Longrightarrow> released (internal_send lost n s)"
  unfolding internal_send_def by auto

lemma released_resolve [intro!]: "released s \<Longrightarrow> released (resolveDue lost taken over n s)"
proof -
  assume k: "released s"
  have r: "released (resume_now lost taken n t)" if "released t" for t
    unfolding resume_now_def run_resume_def Let_def using that by (auto split: option.split)
  have "released (reschedule n t)" if "released t" for t
    unfolding reschedule_def set_deadline_def Let_def using that by (auto split: option.split)
  with k r show ?thesis by (cases "obj s n") (simp_all add: resolveDue_def Let_def)
qed

lemma released_fold: "(\<And>x t. released t \<Longrightarrow> released (f x t)) \<Longrightarrow> released s \<Longrightarrow> released (fold f xs s)"
  by (induction xs arbitrary: s) simp_all

lemma released_retire [intro!]: "released s \<Longrightarrow> released (retire n s)"
  by (erule released_mono) (auto simp: retire_def test_def map_of_jdrop split: option.splits if_splits)

lemma released_trip [intro!]: "released s \<Longrightarrow> released (handleOverageTrip who r holding lost s)"
proof -
  assume k: "released s"
  have one: "ov_active (stop_one lost resume r ps n t) = ov_active t" for resume ps n t
    by (simp add: stop_one_def directOverageStop_def Let_def split: option.split)
  have "ov_active (fold (stop_one lost resume r ps) ns t) = ov_active t" for resume ps ns t
    by (induction ns arbitrary: t) (simp_all add: one)
  moreover have "ov_active (fold (directOverageStop lost r resume) ns t) = ov_active t" for resume ns t
    by (induction ns arbitrary: t) (simp_all add: directOverageStop_def Let_def)
  ultimately have "ov_active (routeOverageStop holding lost resume r t) = ov_active t" for resume t
    by (simp add: routeOverageStop_def Let_def)
  then have "ov_active (handleOverageTrip who r holding lost s) \<or> handleOverageTrip who r holding lost s = s"
    by (simp add: handleOverageTrip_def armOverageClear_def Let_def)
  with k show ?thesis by (auto simp: released_def)
qed

subsection \<open>Runs\<close>

lemma ok_trip:
  assumes "ok s" "released s"
  shows "ok (handleOverageTrip who r holding lost s)"
proof (cases "ov_active s")
  case False
  have route: "ok (armOverageClear r (routeOverageStop holding lost resume r (s\<lparr>ov_active := True, ov_resetsAt := r, ov_resumeMode := resume\<rparr>)))" for resume
  proof -
    let ?s = "s\<lparr>ov_active := True, ov_resetsAt := r, ov_resumeMode := resume\<rparr>"
    have "\<not> unarmed ?s n" for n using assms(2) False by (simp add: released_def test_def)
    then have "okp {} (set (ov_checking s)) (routeOverageStop holding lost resume r ?s)"
      by (intro okp_route) (use assms(1) in \<open>simp_all add: ok_def\<close>)
    moreover have "ov_checking (routeOverageStop holding lost resume r ?s) = ov_checking s" by (simp add: checking_route)
    ultimately show ?thesis by (simp add: ok_def armOverageClear_def)
  qed
  with assms(1) show ?thesis by (simp add: handleOverageTrip_def Let_def)
qed (use assms(1) in \<open>simp add: handleOverageTrip_def\<close>)

end
