(* ===== verification/OverageSafety.thy ===== *)
theory OverageSafety
  imports OverageRuns "HOL-Library.Code_Target_Nat" "HOL-Library.Sublist"
begin

text \<open>The claims on runs of the overage lockout.\<close>

subsection \<open>The invariant in every run\<close>

lemma ok_update [simp]: "ok (s\<lparr>ov_now := k\<rparr>) = ok s" "ok (s\<lparr>ov_clear := c\<rparr>) = ok s" "ok (s\<lparr>ov_policy := p\<rparr>) = ok s"
  by (simp_all add: ok_def)

lemma map_of_Nil_iff: "map_of m = Map.empty \<longleftrightarrow> m = []"
  by (cases m) auto

lemma ok_created:
  assumes "ok s" "released s"
  shows "ok (ov_apply (Created n temp conducted caller backend) s)" "released (ov_apply (Created n temp conducted caller backend) s)"
proof -
  let ?i = "new_instance temp conducted caller backend"
  let ?s = "s\<lparr>ov_insts := jput n ?i (ov_insts s)\<rparr>"
  have g: "\<not> jhas (ov_timers s) n \<Longrightarrow> good False (jhas (ov_timers s) n) K ?i" for K
    by (simp add: good_def new_instance_def fresh_run_def)
  have "okp {} (set (ov_checking s)) ?s" if "\<not> jhas (ov_timers s) n"
    unfolding okp_def using okpD [OF assms(1) [unfolded ok_def]] g [OF that] by (auto simp: map_of_jput)
  then show "ok (ov_apply (Created n temp conducted caller backend) s)" using assms(1) by (simp add: ov_apply_def ok_def)
  have "released ?s" using assms(2) by (auto simp: released_def test_def map_of_jput new_instance_def fresh_run_def)
  then show "released (ov_apply (Created n temp conducted caller backend) s)" using assms(2) by (simp add: ov_apply_def)
qed

lemma okp_statuses: "ok s \<Longrightarrow> ok (set_status lost st n s)" "ok s \<Longrightarrow> ok (status_emitted n s)" "ok s \<Longrightarrow> ok (user_send lost n m s)"
  "ok s \<Longrightarrow> ok (internal_send lost n s)" "ok s \<Longrightarrow> ok (maybeReleaseOverageLock s)"
proof -
  assume k: "ok s"
  then have k': "okp {} (set (ov_checking s)) s" by (simp add: ok_def)
  have "ov_checking (user_send lost n m s) = ov_checking s" by (simp add: user_send_def Let_def)
  with k' show "ok (set_status lost st n s)" "ok (user_send lost n m s)" "ok (internal_send lost n s)" "ok (maybeReleaseOverageLock s)"
    by (simp_all add: ok_def okp_set_status okp_user_send okp_internal_send okp_release internal_send_def)
  show "ok (status_emitted n s)" using okp_status_emitted [OF k', of n] by (simp add: ok_def)
qed

lemma ok_restored:
  assumes "ok s" "0 < secs" "test s n oi_proc"
  shows "ok (restore_parked n secs marks resetsAt queue s)"
proof -
  obtain a b c d where m: "marks = (a, b, c, d)" by (cases marks)
  let ?f = "\<lambda>i. i\<lparr>oi_resetsAt := resetsAt, oi_wasStopped := a, oi_idleParked := b, oi_dropped := c, oi_unarmedWorkers := d, oi_queue := queue\<rparr>"
  let ?s = "upd n (\<lambda>i. i\<lparr>oi_autoStopped := True\<rparr>) (upd n ?f s)"
  have "okp ({} - {n}) (set (ov_checking s) - {n}) (set_deadline n (secs * 1000) ?s)"
  proof (rule okp_set_deadline)
    show "okp_others n {} (set (ov_checking s)) ?s" using okp_others [OF assms(1) [unfolded ok_def]] by simp
    show "test ?s n oi_autoStopped \<or> \<not> jhas (ov_insts ?s) n" using assms(3) by (auto simp: test_def jhas_def split: option.splits)
    show "500 \<le> secs * 1000" using assms(2) by simp
  qed
  then have "okp {} (set (ov_checking s)) (set_deadline n (secs * 1000) ?s)" by (rule okp_mono) auto
  moreover have "ov_checking (set_deadline n (secs * 1000) ?s) = ov_checking s" by (simp add: set_deadline_def)
  ultimately show ?thesis using assms(1) by (simp add: restore_parked_def armRestored_def m ok_def)
qed

lemma ok_input:
  assumes "ok s" "released s" "\<forall>n. x \<noteq> Relaunched n"
  shows "ok (ov_apply x s)"
proof (cases x)
  case (Reported n r holding lost)
  have "ok (upd n (\<lambda>i. i\<lparr>oi_handled := True\<rparr>) s)"
    unfolding ok_def by (simp, rule okp_aside [OF _ assms(1) [unfolded ok_def]]) (simp add: aside_def)
  then have "ok (handleOverageTrip (Some n) r holding lost (upd n (\<lambda>i. i\<lparr>oi_handled := True\<rparr>) s))"
    by (rule ok_trip) (use assms(2) in auto)
  with assms(1) Reported show ?thesis by (simp add: ov_apply_def overage_reported_def split: option.split)
next
  case (Created n temp conducted caller backend)
  with ok_created(1) [OF assms(1,2)] show ?thesis by simp
next
  case (Restored n secs marks resetsAt queue)
  with assms(1) show ?thesis by (simp add: ov_apply_def ok_restored)
next
  case (Policy_set a)
  with assms(1) show ?thesis by (simp add: ov_apply_def ok_sweeps ok_sync)
next
  case Clear_due
  with assms(1) show ?thesis by (simp add: ov_apply_def okp_statuses split: option.split)
qed (use assms in \<open>simp_all add: ov_apply_def okp_statuses ok_sweeps ok_trip ok_exit ok_respawn\<close>)

lemma released_sweeps [intro!]:
  "released s \<Longrightarrow> released (sweep_begin s)" "released s \<Longrightarrow> released (sweep_end lost' taken' over s)" "released s \<Longrightarrow> released (fire_begin n s)"
  "released s \<Longrightarrow> released (fire_end lost taken over n s)" "released s \<Longrightarrow> released (reevaluateOverageResumes s)" "released s \<Longrightarrow> released (syncOveragePolicy s)"
proof -
  assume k: "released s"
  show "released (sweep_begin s)" using k by (simp add: sweep_begin_def Let_def)
  have one: "released (checked n (resolveDue l tk over n t))" if "released t" for n l tk t
    using released_resolve [OF that] by (simp add: checked_def)
  show "released (sweep_end lost' taken' over s)" using k by (simp add: sweep_end_def one released_fold split: option.split)
  show "released (fire_end lost taken over n s)" using one [OF k] by (simp add: fire_end_def)
  have fire: "released (fire_begin n t)" if "released t" for n t using that by (simp add: fire_begin_def)
  show "released (fire_begin n s)" by (rule fire [OF k])
  show "released (reevaluateOverageResumes s)" using fire k by (simp add: reevaluateOverageResumes_def released_fold)
  show "released (syncOveragePolicy s)" unfolding syncOveragePolicy_def Let_def
    using k by (auto intro!: released_fold)
qed

lemma released_input:
  assumes "released s"
  shows "released (ov_apply x s)"
proof (cases x)
  case (Created n temp conducted caller backend)
  then show ?thesis using assms by (auto simp: ov_apply_def released_def test_def map_of_jput new_instance_def fresh_run_def)
next
  case (Restored n secs marks resetsAt queue)
  obtain a b c d where "marks = (a, b, c, d)" by (cases marks)
  then have "released (restore_parked n secs marks resetsAt queue s)"
    unfolding restore_parked_def armRestored_def set_deadline_def using assms by auto
  with Restored assms show ?thesis by (simp add: ov_apply_def)
next
  case (Process_gone n crashed)
  have "released (process_exit crashed n s)" unfolding process_exit_def Let_def using assms by auto
  with Process_gone show ?thesis by (simp add: ov_apply_def)
next
  case (Respawned n)
  have "released (respawn n s)" unfolding respawn_def using assms by (auto simp: fresh_run_def)
  with Respawned show ?thesis by (simp add: ov_apply_def)
next
  case (Relaunched n)
  have "released (relaunch_in_place n s)" unfolding relaunch_in_place_def using assms by (auto simp: fresh_run_def)
  with Relaunched show ?thesis by (simp add: ov_apply_def)
next
  case (Reported n r holding lost)
  with assms show ?thesis by (auto simp: ov_apply_def overage_reported_def split: option.split)
next
  case (Removed_inst n)
  have "released (removed n s)" unfolding removed_def using assms by auto
  with Removed_inst show ?thesis by (simp add: ov_apply_def)
next
  case Clear_due
  with assms show ?thesis by (auto simp: ov_apply_def split: option.split)
next
  case (Policy_set a)
  with assms show ?thesis by (auto simp: ov_apply_def)
qed (use assms in \<open>auto simp: ov_apply_def\<close>)

lemma run_ok: "ov_run False s \<Longrightarrow> ok s \<and> released s"
proof (induction False s rule: ov_run.induct)
  case (boot policy now)
  show ?case by (simp add: no_overage_def ok_def okp_def released_def test_def)
next
  case (step s x)
  then show ?case using ok_input released_input by auto
qed

subsection \<open>Concrete runs\<close>

fun ov_inputs :: "ov_input list \<Rightarrow> overage \<Rightarrow> overage" where
  "ov_inputs [] s = s"
| "ov_inputs (x # xs) s = ov_inputs xs (ov_apply x s)"

definition relaunches :: "ov_input \<Rightarrow> bool" where
  "relaunches x = (case x of Relaunched _ \<Rightarrow> True | _ \<Rightarrow> False)"

lemma inputs_run: "ov_run b s \<Longrightarrow> b \<or> \<not> list_ex relaunches xs \<Longrightarrow> ov_run b (ov_inputs xs s)"
proof (induction xs arbitrary: s)
  case (Cons x xs)
  have "ov_run b (ov_apply x s)"
    by (rule ov_run.step [OF Cons.prems(1)]) (use Cons.prems(2) in \<open>auto simp: relaunches_def\<close>)
  from Cons.IH [OF this] Cons.prems(2) show ?case by auto
qed simp

definition message :: ov_message where
  "message = \<lparr>om_id = 7, om_text = ''next'', om_author = None\<rparr>"

text \<open>A session stopped in mid-turn by a poll of the account, reset time 100 s; it comes to rest and is armed.\<close>

definition parked_run :: "ov_input list" where
  "parked_run = [Created ''a'' False False None ''claude'', Came_up ''a'', User_send ''a'' message [],
     Polled (Some 100) [] (\<lambda>_. []), Turn_over ''a'']"

definition parked :: overage where
  "parked = ov_inputs (parked_run @ [User_send ''a'' message []]) (no_overage Stop_resume 0)"

lemma parked_runs: "ov_run False parked"
  unfolding parked_def by (rule inputs_run [OF ov_run.boot]) (simp add: parked_run_def relaunches_def)

subsection \<open>The claims\<close>

text \<open>
  C11. Nothing parked behind the overage window is stranded: in every run in which no session is relaunched
  in place, a session that holds queued messages, and a live idle session marked for resumption, has a
  deadline standing or a usage verification under way.
\<close>

theorem parked_sessions_are_never_stranded:
  assumes "ov_run False s" "map_of (ov_insts s) n = Some i"
    and "oi_queue i \<noteq> [] \<or> oi_autoStopped i \<and> oi_proc i \<and> oi_status i = Idle"
  shows "jhas (ov_timers s) n \<or> n \<in> set (ov_checking s)"
proof -
  have "ok s" using run_ok [OF assms(1)] by blast
  from okpD [OF this [unfolded ok_def] assms(2)] assms(3) show ?thesis by (auto simp: good_def)
qed

lemma parked_sessions_are_never_stranded_witness: "jhas (ov_timers parked) ''a'' \<or> ''a'' \<in> set (ov_checking parked)"
proof (rule parked_sessions_are_never_stranded [OF parked_runs])
  show "map_of (ov_insts parked) ''a'' = Some (the (map_of (ov_insts parked) ''a''))" by code_simp
  show "oi_queue (the (map_of (ov_insts parked) ''a'')) \<noteq> [] \<or> oi_autoStopped (the (map_of (ov_insts parked) ''a'')) \<and>
      oi_proc (the (map_of (ov_insts parked) ''a'')) \<and> oi_status (the (map_of (ov_insts parked) ''a'')) = Idle" by code_simp
qed

subsection \<open>A parked session is resumed in bounded time\<close>

lemma out_frame [simp]:
  "ov_out (upd n f s) = ov_out s" "ov_out (tell x s) = ov_out s @ [x]" "ov_out (set_deadline n fire s) = ov_out s"
  "ov_out (arm_deadline n s) = ov_out s" "ov_out (armResumeNow n r s) = ov_out s" "ov_out (status_emitted n s) = ov_out s"
  "ov_out (cancel_resume n s) = ov_out s" "ov_out (maybeReleaseOverageLock s) = ov_out s" "ov_out (reschedule n s) = ov_out s"
  by (simp_all add: tell_def upd_def set_deadline_def arm_deadline_def armResumeNow_def status_emitted_def
      cancel_resume_def maybeReleaseOverageLock_def clearOverage_def reschedule_def Let_def split: option.split)

text \<open>While the gate is up, a genuine send reaches the CLI of no session in the window's flow.\<close>

lemma gated_send_is_held:
  "overageGate s n \<Longrightarrow> \<exists>x. ov_out (user_send lost n m s) = ov_out s @ [x] \<and> x \<in> {Not_running_send n, Refused_send n, Queued n (om_id m)}"
  by (auto simp: user_send_def Let_def)

lemma out_sever [simp]: "ov_out (severOverageWakes lost s) = ov_out s"
proof -
  have "ov_out (armSeveredCaller c t) = ov_out t" for c t by (simp add: armSeveredCaller_def Let_def)
  then show ?thesis by (induction lost arbitrary: s) (simp_all add: severOverageWakes_def)
qed



definition waiting :: "string \<Rightarrow> overage \<Rightarrow> bool" where
  "waiting n s \<longleftrightarrow> test s n (\<lambda>i. oi_proc i \<and> oi_autoStopped i)"



lemma waiting_frame [simp]:
  "waiting n (tell x s) = waiting n s" "waiting n (s\<lparr>ov_fails := a\<rparr>) = waiting n s" "waiting n (s\<lparr>ov_now := k\<rparr>) = waiting n s"
  by (simp_all add: waiting_def test_def)



definition queued :: "string \<Rightarrow> overage \<Rightarrow> ov_message list" where
  "queued n s = (case map_of (ov_insts s) n of Some i \<Rightarrow> oi_queue i | None \<Rightarrow> [])"
















text \<open>The prompt refused: the message is gone from the session and nothing of it was sent.\<close>

theorem refused_resumption_loses_the_queue:
  "let s = resolveDue [] False (Some False) ''a'' parked in
     Resume_refused ''a'' [message] \<in> set (ov_out s) \<and> queued ''a'' parked = [message] \<and> queued ''a'' s = []
     \<and> \<not> waiting ''a'' s \<and> ov_timers s = []"
  by code_simp

subsection \<open>What a relaunch in place leaves behind\<close>


text \<open>A session that is not marked but has a deadline, while the lockout stands, with what it holds queued.\<close>

definition stuck :: "string \<Rightarrow> ov_message list \<Rightarrow> overage \<Rightarrow> bool" where
  "stuck n q s \<longleftrightarrow> test s n (\<lambda>i. \<not> oi_autoStopped i \<and> oi_resumeAt i = None \<and> oi_queue i = q) \<and> jhas (ov_timers s) n \<and> ov_active s"



lemma stuck_update [simp]:
  "stuck n q (tell x s) = stuck n q s" "stuck n q (s\<lparr>ov_fails := a\<rparr>) = stuck n q s" "stuck n q (s\<lparr>ov_checking := b\<rparr>) = stuck n q s"
  "stuck n q (s\<lparr>ov_due := c\<rparr>) = stuck n q s" "stuck n q (s\<lparr>ov_clear := d\<rparr>) = stuck n q s" "stuck n q (s\<lparr>ov_now := k\<rparr>) = stuck n q s"
  "stuck n q (s\<lparr>ov_resetsAt := r\<rparr>) = stuck n q s"
  by (simp_all add: stuck_def test_def)












text \<open>
  Cancelling the last parked deadline, here by removing its session after the clear timer has passed, releases
  nothing: no deadline and no timer is left, yet every later overage is ignored.
\<close>

definition deaf :: overage where
  "deaf = ov_inputs (parked_run @ [Waited 200000, Clear_due, Sweep_begin, Sweep_end (\<lambda>_. []) (\<lambda>_. True) (Some True), Removed_inst ''a''])
     (no_overage Stop_resume 0)"

lemma removal_leaves_the_lockout_standing:
  "ov_active deaf \<and> ov_timers deaf = [] \<and> ov_clear deaf = None \<and> ov_insts deaf = []"
  "ov_apply (Polled r holding lost) deaf = deaf"
proof -
  show a: "ov_active deaf \<and> ov_timers deaf = [] \<and> ov_clear deaf = None \<and> ov_insts deaf = []" by code_simp
  then show "ov_apply (Polled r holding lost) deaf = deaf" by (simp add: ov_apply_def handleOverageTrip_def)
qed

end
