(* ===== verification/Transcripts.thy ===== *)
theory Transcripts
  imports DiffPaging
begin

text \<open>
  A persisted session line and what it replays to: \<open>src/transcript.ts\<close> (the prompt-line predicate, the
  user side of the replay, the resume metadata), the user-content half of \<open>src/parser.ts\<close> and the image
  cost of \<open>src/imageCost.ts\<close>.

  A decoded value is \<open>wire\<close>, with texts as UTF-16 code units; a member it lacks is \<open>None\<close> (undefined).  A
  number is its canonical text.  What \<open>JSON.parse\<close> makes of a line is an argument.
\<close>

subsection \<open>Decoded values\<close>

datatype wire =
    WNull
  | WBool bool
  | WNum string
  | WText utf16
  | WArr "wire list"
  | WObj "(utf16 \<times> wire) list"

lemma units_inject [simp]: "units a = units b \<longleftrightarrow> a = b"
  unfolding units_def by (rule inj_map_eq_map) (rule inj_onI, simp)

definition has_field :: "string \<Rightarrow> (utf16 \<times> 'a) list \<Rightarrow> 'a option" where
  "has_field k ms = map_of ms (units k)"

fun field :: "string \<Rightarrow> wire \<Rightarrow> wire option" where
  "field k (WObj ms) = has_field k ms"
| "field k _ = None"

text \<open>\<open>v?.k\<close>, and \<open>v === 'k'\<close>.\<close>

definition dot :: "wire option \<Rightarrow> string \<Rightarrow> wire option" where
  "dot v k = Option.bind v (field k)"

definition says :: "wire option \<Rightarrow> string \<Rightarrow> bool" where
  "says v k \<longleftrightarrow> v = Some (WText (units k))"

fun truthy :: "wire option \<Rightarrow> bool" where
  "truthy (Some (WBool b)) = b"
| "truthy (Some (WNum n)) = (n \<noteq> ''0'')"
| "truthy (Some (WText t)) = (t \<noteq> [])"
| "truthy (Some (WArr xs)) = True"
| "truthy (Some (WObj ms)) = True"
| "truthy _ = False"

fun is_object :: "wire \<Rightarrow> bool" where
  "is_object (WArr xs) = True"
| "is_object (WObj ms) = True"
| "is_object _ = False"

fun as_text :: "wire option \<Rightarrow> utf16 option" where
  "as_text (Some (WText t)) = Some t"
| "as_text _ = None"

fun as_list :: "wire option \<Rightarrow> wire list option" where
  "as_list (Some (WArr xs)) = Some xs"
| "as_list _ = None"

definition block_text :: "wire \<Rightarrow> utf16 option" where
  "block_text b = (if says (field ''type'' b) ''text'' then as_text (field ''text'' b) else None)"

subsection \<open>Texts\<close>

definition text_has :: "utf16 \<Rightarrow> utf16 \<Rightarrow> bool" where
  "text_has s p \<longleftrightarrow> text_index p s \<noteq> None"

definition text_ends :: "utf16 \<Rightarrow> utf16 \<Rightarrow> bool" where
  "text_ends s p \<longleftrightarrow> text_starts (rev s) (rev p)"

definition trim_start :: "utf16 \<Rightarrow> utf16" where
  "trim_start s = dropWhile is_space s"

definition trim_end :: "utf16 \<Rightarrow> utf16" where
  "trim_end s = rev (dropWhile is_space (rev s))"

definition blank :: "utf16 \<Rightarrow> bool" where
  "blank s \<longleftrightarrow> list_all is_space s"

subsection \<open>What a user line holds\<close>

definition content_of :: "wire \<Rightarrow> wire option" where
  "content_of v = dot (field ''message'' v) ''content''"

definition SOFT_INTERRUPT_MARKER :: utf16 where
  "SOFT_INTERRUPT_MARKER = units ''[[cc:soft-interrupt]]''"

definition some_block :: "(utf16 \<Rightarrow> bool) \<Rightarrow> wire list \<Rightarrow> bool" where
  "some_block p bs = list_ex (\<lambda>b. case block_text b of Some t \<Rightarrow> p t | None \<Rightarrow> False) bs"

fun isSoftInterruptContent :: "wire option \<Rightarrow> bool" where
  "isSoftInterruptContent (Some (WText t)) = text_has t SOFT_INTERRUPT_MARKER"
| "isSoftInterruptContent (Some (WArr bs)) = some_block (\<lambda>t. text_has t SOFT_INTERRUPT_MARKER) bs"
| "isSoftInterruptContent _ = False"

definition interrupt_marker :: "utf16 \<Rightarrow> bool" where
  "interrupt_marker t \<longleftrightarrow> text_trim t = units ''[Request interrupted by user]''
     \<or> text_trim t = units ''[Request interrupted by user for tool use]''"

fun isInterruptMarkerContent :: "wire option \<Rightarrow> bool" where
  "isInterruptMarkerContent (Some (WText t)) = interrupt_marker t"
| "isInterruptMarkerContent (Some (WArr [b])) = some_block interrupt_marker [b]"
| "isInterruptMarkerContent _ = False"

definition notification_tag :: "utf16 \<Rightarrow> bool" where
  "notification_tag t \<longleftrightarrow> text_starts (trim_start t) (units ''<task-notification>'')"

fun isTaskNotificationContent :: "wire option \<Rightarrow> bool" where
  "isTaskNotificationContent (Some (WText t)) = notification_tag t"
| "isTaskNotificationContent (Some (WArr bs)) = some_block notification_tag bs"
| "isTaskNotificationContent _ = False"

definition isCliInjectedLine :: "wire \<Rightarrow> bool" where
  "isCliInjectedLine v \<longleftrightarrow> (\<exists>k \<in> set [''isMeta'', ''isVisibleInTranscriptOnly'', ''isSynthetic'']. field k v = Some (WBool True))"

definition caveat_text :: "utf16 \<Rightarrow> bool" where
  "caveat_text t \<longleftrightarrow> (let s = text_trim t; a = units ''<local-command-caveat>'' in
     text_starts s a \<and> text_ends (drop (length a) s) (units ''</local-command-caveat>''))"

definition isLocalCommandCaveatLine :: "wire \<Rightarrow> bool" where
  "isLocalCommandCaveatLine v \<longleftrightarrow> says (field ''type'' v) ''user'' \<and> isCliInjectedLine v \<and>
     (case content_of v of Some (WText t) \<Rightarrow> caveat_text t | _ \<Rightarrow> False)"

definition queued_prompt :: "wire \<Rightarrow> wire option" where
  "queued_prompt v = dot (field ''attachment'' v) ''prompt''"

definition is_queued_command :: "wire \<Rightarrow> bool" where
  "is_queued_command v \<longleftrightarrow> says (field ''type'' v) ''attachment'' \<and> says (dot (field ''attachment'' v) ''type'') ''queued_command''"

definition isPureUserPromptLine :: "wire \<Rightarrow> bool" where
  "isPureUserPromptLine v =
     (if truthy (field ''isSidechain'' v) then False
      else if says (field ''type'' v) ''user'' then
        (let content = content_of v in
         if isSoftInterruptContent content then False
         else if isInterruptMarkerContent content then False
         else if isTaskNotificationContent content then False
         else if isLocalCommandCaveatLine v then False
         else (case content of
             Some (WText t) \<Rightarrow> t \<noteq> []
           | Some (WArr bs) \<Rightarrow> some_block (\<lambda>t. True) bs
           | _ \<Rightarrow> False))
      else if is_queued_command v then
        (case queued_prompt v of
           Some (WArr bs) \<Rightarrow> \<not> isSoftInterruptContent (Some (WArr bs)) \<and> some_block (\<lambda>t. t \<noteq> []) bs
         | _ \<Rightarrow> False)
      else False)"

definition isResumableLine :: "wire \<Rightarrow> bool" where
  "isResumableLine v \<longleftrightarrow> says (field ''type'' v) ''user'' \<or> says (field ''type'' v) ''assistant''"

subsection \<open>The user content a line replays to\<close>

definition isMidTurnNoteContent :: "utf16 \<Rightarrow> bool" where
  "isMidTurnNoteContent t \<longleftrightarrow> text_starts t (units ''<system-reminder>'') \<and> text_has t (units ''mid-turn'')
     \<and> text_ends (trim_end t) (units ''</system-reminder>'')"

record echo_attachment =
  ea_image :: bool
  ea_path :: utf16
  ea_filename :: utf16

definition is_sep :: "nat \<Rightarrow> bool" where
  "is_sep c \<longleftrightarrow> c = 92 \<or> c = 47"

text \<open>What follows each place where a path component \<open>p\<close> stands between two separators.\<close>

fun tails_after :: "utf16 \<Rightarrow> utf16 \<Rightarrow> utf16 list" where
  "tails_after p [] = []"
| "tails_after p (c # cs) =
     (if is_sep c \<and> text_starts cs p \<and> (case drop (length p) cs of s # r \<Rightarrow> is_sep s | [] \<Rightarrow> False)
      then drop (Suc (length p)) cs # tails_after p cs else tails_after p cs)"

definition stored_path :: "utf16 \<Rightarrow> bool" where
  "stored_path w \<longleftrightarrow> list_ex (\<lambda>t. list_ex (\<lambda>u. u \<noteq> []) (tails_after (units ''attachments'') (drop 1 t)))
     (tails_after (units ''.code-conductor'') w)"

text \<open>The path between the backticks of an \<open>Attached file:\<close> line.\<close>

definition attached_path :: "utf16 \<Rightarrow> utf16 option" where
  "attached_path line =
     (let p = units ''Attached file:''; s = trim_start (drop (length p) line); w = takeWhile (\<lambda>c. c \<noteq> 96) (tl s) in
      if text_starts line p \<and> s \<noteq> [] \<and> hd s = 96 \<and> stored_path w \<and> length w < length (tl s)
        \<and> blank (drop (Suc (length w)) (tl s))
      then Some w else None)"

text \<open>\<open>split(sep).pop()\<close>: what follows the last separator.\<close>

definition last_part :: "(nat \<Rightarrow> bool) \<Rightarrow> utf16 \<Rightarrow> utf16" where
  "last_part sep s = rev (takeWhile (\<lambda>c. \<not> sep c) (rev s))"

definition ascii_lower :: "utf16 \<Rightarrow> utf16" where
  "ascii_lower = map (\<lambda>c. if 65 \<le> c \<and> c \<le> 90 then c + 32 else c)"

definition IMG_EXT :: "utf16 list" where
  "IMG_EXT = map units [''png'', ''jpg'', ''jpeg'', ''gif'', ''webp'']"

definition attachment_at :: "utf16 \<Rightarrow> echo_attachment" where
  "attachment_at path =
     (let name = last_part is_sep path; ext = ascii_lower (last_part (\<lambda>c. c = 46) name)
      in \<lparr>ea_image = (ext \<in> set IMG_EXT), ea_path = path, ea_filename = name\<rparr>)"

definition drop_blank_tail :: "utf16 list \<Rightarrow> utf16 list" where
  "drop_blank_tail ls = rev (dropWhile blank (rev ls))"

definition extractAttachedMarkers :: "utf16 \<Rightarrow> utf16 \<times> echo_attachment list" where
  "extractAttachedMarkers t =
     (let ls = text_lines t in
      (text_join [NL] (drop_blank_tail (filter (\<lambda>l. attached_path l = None) ls)),
       map attachment_at (List.map_filter attached_path ls)))"

datatype user_event =
    Tool_answer "utf16 option" wire bool bool
  | Prompt_echo utf16 "echo_attachment list" "prompt_author option"

definition AWAITING_INPUT_MESSAGE :: utf16 where
  "AWAITING_INPUT_MESSAGE = units ''Delivered '' @ DASH
     @ units '' the user can see your request in the orchestrator UI now. ''
     @ units ''The tool result is flagged as an error only because the reply arrives asynchronously; the tool worked. ''
     @ units ''Do not repeat the call, do not answer or decide it yourself, and do not start other work. ''
     @ units ''End your turn now with no further tool calls and wait for the user's reply; it arrives as a new message.''"

text \<open>The earlier wordings are the argument \<open>earlier\<close>.\<close>

definition yielded_text :: "utf16 list \<Rightarrow> wire option \<Rightarrow> bool" where
  "yielded_text earlier v \<longleftrightarrow> (case v of Some (WText t) \<Rightarrow> t = AWAITING_INPUT_MESSAGE \<or> t \<in> set earlier | _ \<Rightarrow> False)"

definition tool_answer :: "utf16 list \<Rightarrow> wire \<Rightarrow> user_event" where
  "tool_answer earlier b =
     Tool_answer (as_text (field ''tool_use_id'' b))
       (case field ''content'' b of None \<Rightarrow> WText [] | Some WNull \<Rightarrow> WText [] | Some c \<Rightarrow> c)
       (truthy (field ''is_error'' b)) (yielded_text earlier (field ''content'' b))"

text \<open>A text block's contribution: its words, its attachments and its author mark.\<close>

definition block_words :: "utf16 \<Rightarrow> utf16 list \<times> echo_attachment list \<times> prompt_author option" where
  "block_words t =
     (if isMidTurnNoteContent t then ([], [], None)
      else (case parseAuthorMarker (Some t) of
          Some a \<Rightarrow> ([], [], Some a)
        | None \<Rightarrow> (case extractAttachedMarkers t of (left, atts) \<Rightarrow> (if left \<noteq> [] then [left] else [], atts, None))))"

fun consolidate_loop :: "utf16 list \<Rightarrow> wire list \<Rightarrow> user_event list \<times> utf16 list \<times> echo_attachment list \<times> prompt_author option
    \<Rightarrow> user_event list \<times> utf16 list \<times> echo_attachment list \<times> prompt_author option" where
  "consolidate_loop earlier [] acc = acc"
| "consolidate_loop earlier (b # bs) (out, texts, atts, author) =
     consolidate_loop earlier bs
       (if says (field ''type'' b) ''tool_result'' then (out @ [tool_answer earlier b], texts, atts, author)
        else (case block_text b of
            None \<Rightarrow> (out, texts, atts, author)
          | Some t \<Rightarrow> (case block_words t of (ws, as, a) \<Rightarrow>
              (out, texts @ ws, atts @ as, if a = None then author else a))))"

definition consolidateUserContent :: "utf16 list \<Rightarrow> wire list \<Rightarrow> user_event list" where
  "consolidateUserContent earlier bs =
     (case consolidate_loop earlier bs ([], [], [], None) of (out, texts, atts, author) \<Rightarrow>
        if texts \<noteq> [] \<or> atts \<noteq> [] then out @ [Prompt_echo (text_join [NL] texts) atts author] else out)"

fun echo_text :: "user_event list \<Rightarrow> utf16 option" where
  "echo_text [] = None"
| "echo_text (Prompt_echo t atts author # es) = Some t"
| "echo_text (Tool_answer i c e y # es) = echo_text es"

text \<open>
  The text of the outer user echo that the replay of a line emits, if it emits one.  Lines of every other
  type replay to no echo.
\<close>

definition replayed_echo :: "utf16 list \<Rightarrow> wire \<Rightarrow> utf16 option" where
  "replayed_echo earlier v =
     (if truthy (field ''isSidechain'' v) then None
      else if says (field ''type'' v) ''user'' then
        (let content = content_of v in
         if isSoftInterruptContent content \<or> isInterruptMarkerContent content then None
         else if isTaskNotificationContent content then None
         else if isLocalCommandCaveatLine v then None
         else (case content of
             Some (WText t) \<Rightarrow> Some t
           | Some (WArr bs) \<Rightarrow> echo_text (consolidateUserContent earlier bs)
           | _ \<Rightarrow> None))
      else if is_queued_command v then
        (case queued_prompt v of
           Some (WArr bs) \<Rightarrow>
             if isSoftInterruptContent (Some (WArr bs)) then None else echo_text (consolidateUserContent earlier bs)
         | _ \<Rightarrow> None)
      else None)"

subsection \<open>Encoding a value\<close>

definition hex_digit16 :: "nat \<Rightarrow> nat" where
  "hex_digit16 n = (if n < 10 then 48 + n else 87 + n)"

definition unit_escape :: "nat \<Rightarrow> utf16" where
  "unit_escape c = [92, 117, hex_digit16 (c div 4096), hex_digit16 (c div 256 mod 16), hex_digit16 (c div 16 mod 16), hex_digit16 (c mod 16)]"

text \<open>\<open>JSON.stringify\<close> of a text: a lone surrogate is escaped, a pair is not.\<close>

fun json_point :: "utf16 \<Rightarrow> utf16" where
  "json_point [c] =
     (if c = 34 then [92, 34] else if c = 92 then [92, 92] else if c = 8 then [92, 98] else if c = 9 then [92, 116]
      else if c = 10 then [92, 110] else if c = 12 then [92, 102] else if c = 13 then [92, 114]
      else if c < 32 \<or> 55296 \<le> c \<and> c \<le> 57343 then unit_escape c else [c])"
| "json_point p = p"

definition json_text :: "utf16 \<Rightarrow> utf16" where
  "json_text t = 34 # concat (map json_point (code_points t)) @ [34]"

fun wire_json :: "wire \<Rightarrow> utf16" where
  "wire_json WNull = units ''null''"
| "wire_json (WBool b) = units (if b then ''true'' else ''false'')"
| "wire_json (WNum n) = units n"
| "wire_json (WText t) = json_text t"
| "wire_json (WArr xs) = units ''['' @ text_join (units '','') (map wire_json xs) @ units '']''"
| "wire_json (WObj ms) = units ''{'' @ text_join (units '','') (map (\<lambda>(k, v). json_text k @ units '':'' @ wire_json v) ms) @ units ''}''"

text \<open>\<open>String(v)\<close>.\<close>

fun wire_String :: "wire \<Rightarrow> utf16" where
  "wire_String WNull = units ''null''"
| "wire_String (WBool b) = units (if b then ''true'' else ''false'')"
| "wire_String (WNum n) = units n"
| "wire_String (WText t) = t"
| "wire_String (WArr xs) = text_join (units '','') (map (\<lambda>x. if x = WNull then [] else wire_String x) xs)"
| "wire_String (WObj ms) = units ''[object Object]''"

subsection \<open>The lines of a file\<close>

type_synonym line = "utf16 \<times> wire option"

text \<open>A non-empty line with its value, \<open>None\<close> when it does not parse or is no object.\<close>

definition parsed_line :: "(utf16 \<Rightarrow> wire option) \<Rightarrow> utf16 \<Rightarrow> line" where
  "parsed_line parse raw = (raw, case parse raw of Some v \<Rightarrow> if is_object v then Some v else None | None \<Rightarrow> None)"

definition file_lines :: "(utf16 \<Rightarrow> wire option) \<Rightarrow> utf16 \<Rightarrow> line list" where
  "file_lines parse t = map (parsed_line parse) (filter (\<lambda>l. l \<noteq> []) (text_lines t))"

text \<open>The pair of lines that \<open>writeSessionMetadata\<close> appends, \<open>None\<close> when it throws.\<close>

definition writeSessionMetadata :: "utf16 \<Rightarrow> utf16 option \<Rightarrow> string \<Rightarrow> utf16 \<Rightarrow> utf16 option" where
  "writeSessionMetadata sid leaf mode file =
     (case leaf of
        None \<Rightarrow> Some file
      | Some uuid \<Rightarrow>
          if sid = [] \<or> uuid = [] then Some file
          else if mode \<notin> set MODES then None
          else Some (file
            @ wire_json (WObj [(units ''type'', WText (units ''last-prompt'')), (units ''leafUuid'', WText uuid), (units ''sessionId'', WText sid)]) @ [NL]
            @ wire_json (WObj [(units ''type'', WText (units ''permission-mode'')), (units ''permissionMode'', WText (units mode)), (units ''sessionId'', WText sid)]) @ [NL]))"

end
