(* ===== verification/ImageCost.thy ===== *)
theory ImageCost
  imports Prelude "HOL-Library.Word"
begin

text \<open>
  \<open>src/imageCost.ts\<close>: the pixel dimensions read off an image's header and the visual tokens an image costs.
  A buffer is a list of bytes; disjoint bit fields are added where the code ors them, and the quotients of
  the resize search are exact.
\<close>

type_synonym bytes = "8 word list"

definition byte_at :: "bytes \<Rightarrow> nat \<Rightarrow> nat" where
  "byte_at b i = unat (b ! i)"

definition u16be :: "bytes \<Rightarrow> nat \<Rightarrow> nat" where
  "u16be b i = 256 * byte_at b i + byte_at b (i + 1)"

definition u16le :: "bytes \<Rightarrow> nat \<Rightarrow> nat" where
  "u16le b i = byte_at b i + 256 * byte_at b (i + 1)"

definition u24le :: "bytes \<Rightarrow> nat \<Rightarrow> nat" where
  "u24le b i = u16le b i + 65536 * byte_at b (i + 2)"

definition u32be :: "bytes \<Rightarrow> nat \<Rightarrow> nat" where
  "u32be b i = 65536 * u16be b i + u16be b (i + 2)"

definition ascii_at :: "bytes \<Rightarrow> nat \<Rightarrow> string \<Rightarrow> bool" where
  "ascii_at b i s \<longleftrightarrow> i + length s \<le> length b \<and> map unat (take (length s) (drop i b)) = map of_char s"

definition PNG_SIG :: "nat list" where
  "PNG_SIG = [137, 80, 78, 71, 13, 10, 26, 10]"

definition webp :: "bytes \<Rightarrow> (nat \<times> nat) option" where
  "webp b =
     (if ascii_at b 12 ''VP8 '' then
        (if length b < 30 \<or> byte_at b 23 \<noteq> 157 \<or> byte_at b 24 \<noteq> 1 \<or> byte_at b 25 \<noteq> 42 then None
         else Some (u16le b 26 mod 16384, u16le b 28 mod 16384))
      else if ascii_at b 12 ''VP8L'' then
        (if length b < 25 \<or> byte_at b 20 \<noteq> 47 then None
         else Some (1 + byte_at b 21 + 256 * (byte_at b 22 mod 64),
           1 + byte_at b 22 div 64 + 4 * byte_at b 23 + 1024 * (byte_at b 24 mod 16)))
      else if ascii_at b 12 ''VP8X'' then (if length b < 30 then None else Some (1 + u24le b 24, 1 + u24le b 27))
      else None)"

definition JPEG_SOF :: "nat list" where
  "JPEG_SOF = [192, 193, 194, 195, 197, 198, 199, 201, 202, 203, 205, 206, 207]"

text \<open>The marker walk; every pass steps over at least one byte.\<close>

function jpeg_from :: "bytes \<Rightarrow> nat \<Rightarrow> (nat \<times> nat) option" where
  "jpeg_from b i =
     (if length b \<le> i \<or> byte_at b i \<noteq> 255 then None
      else
        (let j = i + length (takeWhile (\<lambda>x. x = 255) (drop i b)); m = byte_at b j; k = Suc j in
         if length b \<le> j then None
         else if 208 \<le> m \<and> m \<le> 215 \<or> m = 1 \<or> m = 216 then jpeg_from b k
         else if m = 217 \<or> m = 218 then None
         else if length b < k + 2 then None
         else if m \<in> set JPEG_SOF then (if length b < k + 7 then None else Some (u16be b (k + 5), u16be b (k + 3)))
         else jpeg_from b (k + u16be b k)))"
  by pat_completeness auto
termination by (relation "measure (\<lambda>(b, i). length b - i)") auto

declare jpeg_from.simps [simp del]

definition sniff :: "bytes \<Rightarrow> (nat \<times> nat) option" where
  "sniff b =
     (if 24 \<le> length b \<and> map unat (take 8 b) = PNG_SIG then Some (u32be b 16, u32be b 20)
      else if ascii_at b 0 ''GIF87a'' \<or> ascii_at b 0 ''GIF89a'' then
        (if 10 \<le> length b then Some (u16le b 6, u16le b 8) else None)
      else if ascii_at b 0 ''RIFF'' \<and> ascii_at b 8 ''WEBP'' then webp b
      else if 2 \<le> length b \<and> byte_at b 0 = 255 \<and> byte_at b 1 = 216 then jpeg_from b 2
      else None)"

definition imageDimensions :: "bytes \<Rightarrow> (nat \<times> nat) option" where
  "imageDimensions b = (case sniff b of Some (w, h) \<Rightarrow> if 0 < w \<and> 0 < h then Some (w, h) else None | None \<Rightarrow> None)"

subsection \<open>The token cost\<close>

definition IMAGE_PATCH_PX :: nat where "IMAGE_PATCH_PX = 28"
definition IMAGE_MAX_EDGE_PX :: nat where "IMAGE_MAX_EDGE_PX = 2576"
definition IMAGE_MAX_TOKENS :: nat where "IMAGE_MAX_TOKENS = 4784"

definition patches :: "nat \<Rightarrow> nat" where
  "patches px = (px + (IMAGE_PATCH_PX - 1)) div IMAGE_PATCH_PX"

definition image_tokens :: "nat \<Rightarrow> nat \<Rightarrow> nat" where
  "image_tokens w h = patches w * patches h"

definition image_fits :: "nat \<Rightarrow> nat \<Rightarrow> bool" where
  "image_fits w h \<longleftrightarrow> patches w * IMAGE_PATCH_PX \<le> IMAGE_MAX_EDGE_PX \<and> patches h * IMAGE_PATCH_PX \<le> IMAGE_MAX_EDGE_PX
     \<and> image_tokens w h \<le> IMAGE_MAX_TOKENS"

text \<open>A quotient to the nearest integer, a half to the even one.\<close>

definition roundHalfEven :: "nat \<Rightarrow> nat \<Rightarrow> nat" where
  "roundHalfEven n d =
     (let f = n div d; r = n mod d in
      if 2 * r > d then f + 1 else if 2 * r < d then f else if f mod 2 = 0 then f else f + 1)"

definition shortFor :: "nat \<Rightarrow> nat \<Rightarrow> nat \<Rightarrow> nat" where
  "shortFor long short l = max (roundHalfEven (l * short) long) 1"

text \<open>The search for the largest long edge that fits.\<close>

function edge_search :: "(nat \<Rightarrow> bool) \<Rightarrow> nat \<Rightarrow> nat \<Rightarrow> nat" where
  "edge_search ok lo hi =
     (if lo < hi then (let mid = (lo + hi + 1) div 2 in if ok mid then edge_search ok mid hi else edge_search ok lo (mid - 1))
      else lo)"
  by pat_completeness auto
termination by (relation "measure (\<lambda>(ok, lo, hi). hi - lo)") auto

declare edge_search.simps [simp del]

definition imageTokenCost :: "nat \<Rightarrow> nat \<Rightarrow> nat" where
  "imageTokenCost w h =
     (if image_fits w h then image_tokens w h
      else
        (let long = max w h; short = shortFor long (min w h);
             lo = edge_search (\<lambda>l. image_fits l (short l)) 1 long
         in image_tokens lo (short lo)))"

subsection \<open>Bounds\<close>

lemma edge_search_ok: "ok lo \<Longrightarrow> ok (edge_search ok lo hi)"
proof (induction ok lo hi rule: edge_search.induct)
  case (1 ok lo hi)
  let ?mid = "(lo + hi + 1) div 2"
  have "lo < hi \<Longrightarrow> ok ?mid \<Longrightarrow> ok (edge_search ok ?mid hi)" by (rule 1(1)) simp_all
  moreover have "lo < hi \<Longrightarrow> \<not> ok ?mid \<Longrightarrow> ok (edge_search ok lo (?mid - 1))" using 1(3) by (intro 1(2)) simp_all
  ultimately show ?case using 1(3) by (subst edge_search.simps) (simp only: Let_def split: if_split, blast)
qed

lemma one_pixel_fits: "image_fits 1 1"
  by code_simp

lemma short_of_one: "short \<le> long \<Longrightarrow> shortFor long short 1 = 1"
  by (cases "short = long")
     (auto simp: shortFor_def roundHalfEven_def Let_def max_def not_less)

text \<open>No image costs more than the budget, whatever its dimensions: the figure an unreadable image is costed at.\<close>

lemma image_cost_within_budget: "imageTokenCost w h \<le> IMAGE_MAX_TOKENS"
proof (cases "image_fits w h")
  case True
  then show ?thesis by (simp add: imageTokenCost_def image_fits_def)
next
  case False
  let ?short = "shortFor (max w h) (min w h)"
  have "?short 1 = 1" by (rule short_of_one) simp
  then have "image_fits 1 (?short 1)" using one_pixel_fits by simp
  from edge_search_ok [of "\<lambda>l. image_fits l (?short l)", OF this] False show ?thesis
    by (simp add: imageTokenCost_def image_fits_def Let_def)
qed

end
