(* ===== verification/Prune.thy ===== *)
theory Prune
  imports Transcripts ImageCost
begin

text \<open>
  \<open>src/sessionPrune.ts\<close>: the copy of a session in which tool outputs, long tool inputs, thinking and images
  of a prefix of turns are replaced by stubs, with the preview of what each turn would save.

  The decoding of an image's base64 data is the argument \<open>b64\<close> and \<open>JSON.parse\<close> of a line the argument
  \<open>parse\<close>; a usage count is a non-negative integer, and an id is compared by its value.
\<close>

subsection \<open>Exempt tools\<close>

definition CONDUCTOR_MCP_PREFIX :: string where
  "CONDUCTOR_MCP_PREFIX = ''mcp__code-conductor__''"

definition PRUNABLE_CONDUCTOR_MCP_TOOLS :: "utf16 list" where
  "PRUNABLE_CONDUCTOR_MCP_TOOLS = map (\<lambda>t. units (CONDUCTOR_MCP_PREFIX @ t)) [''project_read'', ''project_bash'', ''system_bash'']"

definition SEEDING_TOOLS :: "utf16 list" where
  "SEEDING_TOOLS = map units [''Read'', ''Write'']"

definition isPruneExemptTool :: "wire option \<Rightarrow> bool" where
  "isPruneExemptTool name =
     (case as_text name of
        None \<Rightarrow> False
      | Some t \<Rightarrow>
          if t = units ''AskUserQuestion'' then True
          else if \<not> text_starts t (units CONDUCTOR_MCP_PREFIX) then False
          else
            (let rest = drop (length CONDUCTOR_MCP_PREFIX) t in
             if rest = [] \<or> text_has rest (units ''__'') then False else t \<notin> set PRUNABLE_CONDUCTOR_MCP_TOOLS))"

definition PRUNE_INPUT_MAX :: nat where "PRUNE_INPUT_MAX = 500"
definition MINIMAL_INPUT_MAX :: nat where "MINIMAL_INPUT_MAX = 80"

definition PATH_KEYS :: "utf16 list" where
  "PATH_KEYS = map units [''file_path'', ''notebook_path'']"

definition THINKING_STUB :: utf16 where
  "THINKING_STUB = units ''[pruned: thinking]''"

datatype input_mode = Truncate_mode | Minimal_mode

definition input_mode_of :: "string \<Rightarrow> input_mode option" where
  "input_mode_of s = (if s = ''truncate'' then Some Truncate_mode else if s = ''minimal'' then Some Minimal_mode else None)"

subsection \<open>Sizes\<close>

text \<open>A tenth to the nearest, a half up, as \<open>toFixed(1)\<close> gives it.\<close>

definition one_decimal :: "nat \<Rightarrow> nat \<Rightarrow> utf16" where
  "one_decimal n d = (let t = (20 * n + d) div (2 * d) in decimal (t div 10) @ units ''.'' @ decimal (t mod 10))"

definition humanBytes :: "nat \<Rightarrow> utf16" where
  "humanBytes n =
     (if n < 1024 then decimal n @ units '' B''
      else if n < 1024 * 1024 then one_decimal n 1024 @ units '' KB''
      else one_decimal n (1024 * 1024) @ units '' MB'')"

definition ceil_div :: "nat \<Rightarrow> nat \<Rightarrow> nat" where
  "ceil_div n d = (n + (d - 1)) div d"

text \<open>Characters per token are kept in tenths.\<close>

definition TEXT_CHARS :: nat where "TEXT_CHARS = 40"
definition TOOL_USE_CHARS :: nat where "TOOL_USE_CHARS = 38"
definition TOOL_RESULT_CHARS :: nat where "TOOL_RESULT_CHARS = 25"
definition OTHER_CHARS :: nat where "OTHER_CHARS = 40"
definition SIGNATURE_OVERHEAD_CHARS :: nat where "SIGNATURE_OVERHEAD_CHARS = 400"
definition SIGNATURE_CHARS_PER_TOKEN :: nat where "SIGNATURE_CHARS_PER_TOKEN = 36"

definition approxTokens :: "utf16 \<Rightarrow> nat \<Rightarrow> nat" where
  "approxTokens t tenths = ceil_div (10 * length t) tenths"

definition text_or_empty :: "wire option \<Rightarrow> utf16" where
  "text_or_empty v = (case as_text v of Some t \<Rightarrow> t | None \<Rightarrow> [])"

definition isEncryptedThinking :: "wire \<Rightarrow> bool" where
  "isEncryptedThinking b \<longleftrightarrow> says (field ''type'' b) ''thinking'' \<and> text_or_empty (field ''thinking'' b) = []"

definition isImage :: "wire \<Rightarrow> bool" where
  "isImage b \<longleftrightarrow> says (field ''type'' b) ''image''"

text \<open>\<open>v ?? d\<close>.\<close>

fun or_else :: "wire option \<Rightarrow> wire \<Rightarrow> wire" where
  "or_else (Some WNull) d = d"
| "or_else (Some v) d = v"
| "or_else None d = d"

definition image_source :: "wire \<Rightarrow> wire option" where
  "image_source b = (case field ''source'' b of Some s \<Rightarrow> if is_object s then Some s else None | None \<Rightarrow> None)"

definition imageInfo :: "(utf16 \<Rightarrow> bytes) \<Rightarrow> wire \<Rightarrow> nat \<times> utf16" where
  "imageInfo b64 b =
     (let source = image_source b;
          media = (case as_text (dot source ''media_type'') of Some t \<Rightarrow> t | None \<Rightarrow> units ''image'')
      in case (says (dot source ''type'') ''base64'', as_text (dot source ''data'')) of
           (True, Some d) \<Rightarrow>
             (case imageDimensions (b64 d) of
                Some (w, h) \<Rightarrow> (imageTokenCost w h, media @ units '' '' @ decimal w @ [215] @ decimal h @ units '' ('' @ humanBytes (length (b64 d)) @ units '')'')
              | None \<Rightarrow> (IMAGE_MAX_TOKENS, media @ units '' ('' @ humanBytes (length (b64 d)) @ units '')''))
         | _ \<Rightarrow> (IMAGE_MAX_TOKENS, media @ units '' ('' @ wire_String (or_else (dot source ''type'') (WText (units ''no source''))) @ units '')''))"

definition result_text_chars :: "wire list \<Rightarrow> nat" where
  "result_text_chars bs = sum_list (map (\<lambda>b. case block_text b of Some t \<Rightarrow> length t | None \<Rightarrow> 0) bs)"

definition nested_tokens :: "(utf16 \<Rightarrow> bytes) \<Rightarrow> wire list \<Rightarrow> nat" where
  "nested_tokens b64 bs = sum_list (map (\<lambda>b. case block_text b of Some t \<Rightarrow> 0
     | None \<Rightarrow> if isImage b then fst (imageInfo b64 b) else approxTokens (wire_json b) OTHER_CHARS) bs)"

definition plain_content :: "wire option \<Rightarrow> utf16" where
  "plain_content c = (case as_text c of Some t \<Rightarrow> t | None \<Rightarrow> wire_json (or_else c (WText [])))"

definition result_tokens :: "(utf16 \<Rightarrow> bytes) \<Rightarrow> wire option \<Rightarrow> nat" where
  "result_tokens b64 c =
     (case as_list c of
        None \<Rightarrow> approxTokens (plain_content c) TOOL_RESULT_CHARS
      | Some bs \<Rightarrow> ceil_div (10 * result_text_chars bs) TOOL_RESULT_CHARS + nested_tokens b64 bs)"

definition thinking_tokens :: "wire \<Rightarrow> nat" where
  "thinking_tokens b =
     (if \<not> isEncryptedThinking b then approxTokens (text_or_empty (field ''thinking'' b)) TEXT_CHARS
      else ceil_div (10 * (length (text_or_empty (field ''signature'' b)) - SIGNATURE_OVERHEAD_CHARS)) SIGNATURE_CHARS_PER_TOKEN)"

definition blockTokens :: "(utf16 \<Rightarrow> bytes) \<Rightarrow> wire \<Rightarrow> nat" where
  "blockTokens b64 b =
     (let t = field ''type'' b in
      if \<not> is_object b then 0
      else if says t ''text'' then approxTokens (text_or_empty (field ''text'' b)) TEXT_CHARS
      else if says t ''thinking'' then thinking_tokens b
      else if says t ''redacted_thinking'' then approxTokens (text_or_empty (field ''data'' b)) OTHER_CHARS
      else if says t ''tool_use'' then
        approxTokens (wire_String (or_else (field ''name'' b) (WText [])) @ wire_json (or_else (field ''input'' b) (WObj []))) TOOL_USE_CHARS
      else if says t ''image'' then fst (imageInfo b64 b)
      else if says t ''tool_result'' then result_tokens b64 (field ''content'' b)
      else approxTokens (wire_json b) OTHER_CHARS)"

subsection \<open>Stubs\<close>

definition text_block :: "utf16 \<Rightarrow> wire" where
  "text_block t = WObj [(units ''type'', WText (units ''text'')), (units ''text'', WText t)]"

definition stub_parts :: "(utf16 \<Rightarrow> bytes) \<Rightarrow> wire option \<Rightarrow> utf16 list" where
  "stub_parts b64 c =
     (let blocks = (case as_list c of Some bs \<Rightarrow> bs | None \<Rightarrow> []); images = filter isImage blocks; rest = filter (\<lambda>b. \<not> isImage b) blocks in
      (if images = [] then [humanBytes (byteLength (plain_content c))]
       else if rest = [] then [] else [humanBytes (byteLength (wire_json (WArr rest)))])
      @ map (\<lambda>i. snd (imageInfo b64 i)) images)"

definition pruned_mark :: "utf16 \<Rightarrow> utf16" where
  "pruned_mark x = units ''[pruned: '' @ x @ units '']''"

definition stubToolResultContent :: "(utf16 \<Rightarrow> bytes) \<Rightarrow> wire option \<Rightarrow> wire option \<Rightarrow> wire" where
  "stubToolResultContent b64 c toolName =
     (let text = pruned_mark (text_join (units ''; '') (stub_parts b64 c)) in
      case as_text toolName of
        Some n \<Rightarrow> if n \<in> set SEEDING_TOOLS then WArr [text_block text] else WText text
      | None \<Rightarrow> WText text)"

text \<open>A cut that never parts a surrogate pair.\<close>

definition high_surrogate :: "nat \<Rightarrow> bool" where
  "high_surrogate c \<longleftrightarrow> 55296 \<le> c \<and> c \<le> 56319"

definition low_surrogate :: "nat \<Rightarrow> bool" where
  "low_surrogate c \<longleftrightarrow> 56320 \<le> c \<and> c \<le> 57343"

definition sliceCodePoints :: "utf16 \<Rightarrow> nat \<Rightarrow> utf16" where
  "sliceCodePoints v n = (if length v \<le> n then v else take (if high_surrogate (v ! (n - 1)) then n - 1 else n) v)"

definition squeezeString :: "input_mode \<Rightarrow> utf16 \<Rightarrow> utf16" where
  "squeezeString m v =
     (case m of
        Minimal_mode \<Rightarrow> if length v \<le> MINIMAL_INPUT_MAX then v else pruned_mark (humanBytes (byteLength v))
      | Truncate_mode \<Rightarrow>
          if length v \<le> PRUNE_INPUT_MAX then v
          else let head = sliceCodePoints v PRUNE_INPUT_MAX
               in head @ ELLIPSIS @ units '' [+'' @ decimal (length v - length head) @ units '' chars pruned]'')"

definition PROTO :: utf16 where "PROTO = units ''__proto__''"

text \<open>The members are assigned into a fresh literal, so one called \<open>__proto__\<close> is not a member of it.\<close>

fun squeezeInput :: "input_mode \<Rightarrow> utf16 option \<Rightarrow> wire \<Rightarrow> wire" where
  "squeezeInput m key (WText t) = WText (case key of Some k \<Rightarrow> if k \<in> set PATH_KEYS then t else squeezeString m t | None \<Rightarrow> squeezeString m t)"
| "squeezeInput m key (WArr xs) = WArr (map (squeezeInput m key) xs)"
| "squeezeInput m key (WObj ms) = WObj (concat (map (\<lambda>(k, v). if k = PROTO then [] else [(k, squeezeInput m (Some k) v)]) ms))"
| "squeezeInput m key v = v"

subsection \<open>The block transform\<close>

fun set_field :: "string \<Rightarrow> wire \<Rightarrow> wire \<Rightarrow> wire" where
  "set_field k v (WObj ms) = WObj (jput (units k) v ms)"
| "set_field k v w = w"

datatype prune_category = Thinking_cut | Inputs_cut | Outputs_cut

type_synonym tool_names = "(wire, wire option) jmap"

record prune_opts =
  po_inCut :: bool
  po_thinking :: bool
  po_exempt :: bool
  po_names :: tool_names
  po_mode :: input_mode

record pruned_block =
  pb_block :: wire
  pb_category :: "prune_category option"
  pb_saved :: nat
  pb_image :: nat

definition tool_name_of :: "tool_names \<Rightarrow> wire option \<Rightarrow> wire option" where
  "tool_name_of names i = Option.bind (Option.bind i (map_of names)) id"

text \<open>What a block would become, \<open>None\<close> where it is left alone.\<close>

definition next_block :: "(utf16 \<Rightarrow> bytes) \<Rightarrow> prune_opts \<Rightarrow> wire \<Rightarrow> (wire \<times> prune_category) option" where
  "next_block b64 p b =
     (let t = field ''type'' b in
      if says t ''thinking'' then
        (if \<not> po_thinking p \<or> po_exempt p then None
         else if isEncryptedThinking b then None
         else Some (set_field ''thinking'' (WText THINKING_STUB) b, Thinking_cut))
      else if \<not> po_inCut p then None
      else if says t ''tool_result'' then
        (let name = tool_name_of (po_names p) (field ''tool_use_id'' b) in
         if isPruneExemptTool name then None
         else Some (set_field ''content'' (stubToolResultContent b64 (field ''content'' b) name) b, Outputs_cut))
      else if says t ''tool_use'' then
        (if isPruneExemptTool (field ''name'' b) then None
         else (case field ''input'' b of
             None \<Rightarrow> None
           | Some i \<Rightarrow> Some (set_field ''input'' (squeezeInput (po_mode p) None i) b, Inputs_cut)))
      else if isImage b then Some (text_block (pruned_mark (snd (imageInfo b64 b))), Outputs_cut)
      else None)"

definition image_cost :: "(utf16 \<Rightarrow> bytes) \<Rightarrow> wire \<Rightarrow> nat" where
  "image_cost b64 b =
     (if isImage b then fst (imageInfo b64 b)
      else if says (field ''type'' b) ''tool_result'' then
        (case as_list (field ''content'' b) of Some bs \<Rightarrow> sum_list (map (\<lambda>i. fst (imageInfo b64 i)) (filter isImage bs)) | None \<Rightarrow> 0)
      else 0)"

definition untouched :: "wire \<Rightarrow> pruned_block" where
  "untouched b = \<lparr>pb_block = b, pb_category = None, pb_saved = 0, pb_image = 0\<rparr>"

definition pruneBlock :: "(utf16 \<Rightarrow> bytes) \<Rightarrow> prune_opts \<Rightarrow> wire \<Rightarrow> pruned_block" where
  "pruneBlock b64 p b =
     (if \<not> is_object b then untouched b
      else (case next_block b64 p b of
          None \<Rightarrow> untouched b
        | Some (nb, cat) \<Rightarrow>
            (let before = blockTokens b64 b; after = blockTokens b64 nb; saved = before - after; images = image_cost b64 b in
             if before \<le> after then untouched b
             else \<lparr>pb_block = nb, pb_category = Some cat, pb_saved = saved,
               pb_image = (if 0 < images then min saved (images - after) else 0)\<rparr>)))"

subsection \<open>What is known of a session before it is pruned\<close>

definition sidechain :: "wire \<Rightarrow> bool" where
  "sidechain v \<longleftrightarrow> truthy (field ''isSidechain'' v)"

definition blocks_of :: "wire \<Rightarrow> wire list" where
  "blocks_of v = (case as_list (content_of v) of Some bs \<Rightarrow> bs | None \<Rightarrow> [])"

definition tool_names_line :: "wire \<Rightarrow> tool_names \<Rightarrow> tool_names" where
  "tool_names_line v names =
     (if sidechain v \<or> \<not> says (field ''type'' v) ''assistant'' then names
      else fold (\<lambda>b m. if says (field ''type'' b) ''tool_use'' \<and> truthy (field ''id'' b)
        then jput (the (field ''id'' b)) (field ''name'' b) m else m) (blocks_of v) names)"

definition toolNamesById :: "wire list \<Rightarrow> tool_names" where
  "toolNamesById objs = fold tool_names_line objs []"

definition thinkingExemptKey :: "wire \<Rightarrow> wire option" where
  "thinkingExemptKey v =
     (case dot (field ''message'' v) ''id'' of Some WNull \<Rightarrow> field ''uuid'' v | None \<Rightarrow> field ''uuid'' v | Some i \<Rightarrow> Some i)"

definition answered_ids :: "wire list \<Rightarrow> wire list" where
  "answered_ids objs = concat (map (\<lambda>v. if sidechain v \<or> \<not> says (field ''type'' v) ''user'' then []
     else List.map_filter (\<lambda>b. if says (field ''type'' b) ''tool_result'' \<and> truthy (field ''tool_use_id'' b) then field ''tool_use_id'' b else None)
       (blocks_of v)) objs)"

definition unresolvedThinkingMessageIds :: "wire list \<Rightarrow> wire option list" where
  "unresolvedThinkingMessageIds objs = concat (map (\<lambda>v. if sidechain v \<or> \<not> says (field ''type'' v) ''assistant'' then []
     else if list_ex (\<lambda>b. says (field ''type'' b) ''tool_use'' \<and> truthy (field ''id'' b) \<and> the (field ''id'' b) \<notin> set (answered_ids objs)) (blocks_of v)
     then [thinkingExemptKey v] else []) objs)"

record prune_record =
  pc_raw :: utf16
  pc_obj :: "wire option"
  pc_turn :: nat
  pc_prunable :: bool
  pc_context :: bool

definition compact_boundary :: "wire option \<Rightarrow> bool" where
  "compact_boundary obj = (case obj of None \<Rightarrow> False
     | Some v \<Rightarrow> \<not> sidechain v \<and> says (field ''type'' v) ''system'' \<and> says (field ''subtype'' v) ''compact_boundary'')"

definition prompt_line :: "wire option \<Rightarrow> bool" where
  "prompt_line obj = (case obj of None \<Rightarrow> False | Some v \<Rightarrow> isPureUserPromptLine v)"

definition prunable_line :: "bool \<Rightarrow> wire option \<Rightarrow> bool" where
  "prunable_line live obj = (case obj of None \<Rightarrow> False | Some v \<Rightarrow> live \<and> \<not> sidechain v
     \<and> (says (field ''type'' v) ''assistant'' \<or> says (field ''type'' v) ''user''))"

definition attachment_line :: "bool \<Rightarrow> wire option \<Rightarrow> bool" where
  "attachment_line live obj = (case obj of None \<Rightarrow> False | Some v \<Rightarrow> live \<and> \<not> sidechain v \<and> says (field ''type'' v) ''attachment'')"

text \<open>\<open>turns\<close> counts the prompt lines so far; a line is live when no compaction boundary follows it.\<close>

fun records_from :: "nat \<Rightarrow> line list \<Rightarrow> prune_record list" where
  "records_from turns [] = []"
| "records_from turns ((raw, obj) # ls) =
     (let n = (if prompt_line obj then Suc turns else turns);
          live = \<not> list_ex compact_boundary (map snd ((raw, obj) # ls));
          prunable = prunable_line live obj
      in \<lparr>pc_raw = raw, pc_obj = obj, pc_turn = n - 1, pc_prunable = prunable, pc_context = (prunable \<or> attachment_line live obj)\<rparr>
         # records_from n ls)"

definition readRecords :: "line list \<Rightarrow> prune_record list \<times> nat" where
  "readRecords ls = (records_from 0 ls, length (filter (\<lambda>l. prompt_line (snd l)) ls))"

definition record_objs :: "prune_record list \<Rightarrow> wire list" where
  "record_objs rs = List.map_filter pc_obj rs"

subsection \<open>Calibration\<close>

definition PER_STEP_ATTACHMENTS :: "string list" where
  "PER_STEP_ATTACHMENTS = [''total_tokens_reminder'', ''hook_success'']"

definition CALIBRATION_MIN_TOKENS :: nat where "CALIBRATION_MIN_TOKENS = 5000"

fun is_digit16 :: "nat \<Rightarrow> bool" where
  "is_digit16 c \<longleftrightarrow> 48 \<le> c \<and> c \<le> 57"

text \<open>The body of a marker that closes at the next bracket ends like a size or an image label.\<close>

definition stub_body :: "utf16 \<Rightarrow> bool" where
  "stub_body w \<longleftrightarrow> w = units ''thinking'' \<or> NL \<notin> set w \<and>
     (text_ends w (units ''KB'') \<or> text_ends w (units ''MB'') \<or> text_ends w (units '')'')
      \<or> text_ends w (units '' B'') \<and> 3 \<le> length w \<and> is_digit16 (w ! (length w - 3)))"

definition stub_here :: "utf16 \<Rightarrow> bool" where
  "stub_here s \<longleftrightarrow>
     (let p = units ''[pruned: ''; r = drop (length p) s; w = takeWhile (\<lambda>c. c \<noteq> 93) r in
      text_starts s p \<and> length w < length r \<and> stub_body w)
   \<or> (let p = ELLIPSIS @ units '' [+''; r = drop (length p) s; w = takeWhile is_digit16 r in
      text_starts s p \<and> w \<noteq> [] \<and> text_starts (drop (length w) r) (units '' chars pruned]''))"

fun PRUNE_STUB_RE :: "utf16 \<Rightarrow> bool" where
  "PRUNE_STUB_RE [] = False"
| "PRUNE_STUB_RE (c # cs) = (stub_here (c # cs) \<or> PRUNE_STUB_RE cs)"

definition unmeasurableBlock :: "wire \<Rightarrow> bool" where
  "unmeasurableBlock b \<longleftrightarrow> is_object b \<and>
     (isImage b \<or> says (field ''type'' b) ''redacted_thinking''
      \<or> says (field ''type'' b) ''tool_result'' \<and> (case as_list (field ''content'' b) of Some bs \<Rightarrow> list_ex isImage bs | None \<Rightarrow> False)
      \<or> PRUNE_STUB_RE (wire_json b))"

definition count_of :: "wire option \<Rightarrow> nat" where
  "count_of v = (case v of Some (WNum s) \<Rightarrow>
       if list_all (\<lambda>c. is_digit16 (of_char c)) s then foldl (\<lambda>n c. 10 * n + (of_char c - 48)) 0 s else 0
     | _ \<Rightarrow> 0)"

definition promptTokenSum :: "wire option \<Rightarrow> nat" where
  "promptTokenSum u = count_of (dot u ''input_tokens'') + count_of (dot u ''cache_read_input_tokens'')
     + count_of (dot u ''cache_creation_input_tokens'')"

definition contextReading :: "wire option \<Rightarrow> nat option" where
  "contextReading u = (if truthy u \<and> promptTokenSum u \<noteq> 0 then Some (promptTokenSum u) else None)"

record step_state =
  ss_prompt :: "nat option"
  ss_id :: "wire option"
  ss_est :: nat
  ss_usable :: bool
  ss_real :: nat
  ss_sum :: nat
  ss_steps :: nat

definition starts_call :: "step_state \<Rightarrow> wire \<Rightarrow> bool" where
  "starts_call s v \<longleftrightarrow>
     (let msg = field ''message'' v; usage = dot msg ''usage'' in
      says (field ''type'' v) ''assistant'' \<and> usage \<noteq> None \<and> usage \<noteq> Some WNull \<and> \<not> says (dot msg ''model'') ''<synthetic>''
      \<and> 0 < promptTokenSum usage \<and> dot msg ''id'' \<noteq> ss_id s)"

definition new_call :: "wire \<Rightarrow> step_state \<Rightarrow> step_state" where
  "new_call v s =
     (let msg = field ''message'' v; now = promptTokenSum (dot msg ''usage'');
          s1 = (case ss_prompt s of
             Some p \<Rightarrow> if ss_usable s \<and> p < now
               then s\<lparr>ss_real := ss_real s + (now - p), ss_sum := ss_sum s + ss_est s, ss_steps := ss_steps s + 1\<rparr> else s
           | None \<Rightarrow> s)
      in s1\<lparr>ss_prompt := Some now, ss_id := dot msg ''id'', ss_est := 0, ss_usable := True\<rparr>)"

definition add_content :: "(utf16 \<Rightarrow> bytes) \<Rightarrow> wire \<Rightarrow> step_state \<Rightarrow> step_state" where
  "add_content b64 v s =
     (case content_of v of
        Some (WText t) \<Rightarrow> s\<lparr>ss_est := ss_est s + approxTokens t TEXT_CHARS\<rparr>
      | Some (WArr bs) \<Rightarrow> s\<lparr>ss_est := ss_est s + sum_list (map (blockTokens b64) bs), ss_usable := (ss_usable s \<and> \<not> list_ex unmeasurableBlock bs)\<rparr>
      | _ \<Rightarrow> s)"

definition calibration_step :: "(utf16 \<Rightarrow> bytes) \<Rightarrow> prune_record \<Rightarrow> step_state \<Rightarrow> step_state" where
  "calibration_step b64 r s =
     (case pc_obj r of
        None \<Rightarrow> s
      | Some v \<Rightarrow>
          if \<not> pc_context r then s
          else
            (let s1 = (if starts_call s v then new_call v s else s) in
             if \<not> pc_prunable r then
               (if (case as_text (dot (field ''attachment'' v) ''type'') of Some t \<Rightarrow> t \<in> set (map units PER_STEP_ATTACHMENTS) | None \<Rightarrow> False)
                then s1 else s1\<lparr>ss_usable := False\<rparr>)
             else add_content b64 v s1))"

record calibration =
  ca_factor :: "nat \<times> nat"
  ca_steps :: nat
  ca_calibrated :: bool

text \<open>The factor is a quotient, held between a half and two.\<close>

definition usageCalibration :: "(utf16 \<Rightarrow> bytes) \<Rightarrow> prune_record list \<Rightarrow> calibration" where
  "usageCalibration b64 rs =
     (let s = fold (calibration_step b64) rs \<lparr>ss_prompt = None, ss_id = None, ss_est = 0, ss_usable = True, ss_real = 0, ss_sum = 0, ss_steps = 0\<rparr> in
      if ss_sum s < CALIBRATION_MIN_TOKENS then \<lparr>ca_factor = (1, 1), ca_steps = ss_steps s, ca_calibrated = False\<rparr>
      else \<lparr>ca_factor = (if 2 * ss_real s \<le> ss_sum s then (1, 2) else if 2 * ss_sum s \<le> ss_real s then (2, 1) else (ss_real s, ss_sum s)),
        ca_steps = ss_steps s, ca_calibrated = True\<rparr>)"

text \<open>\<open>Math.round(n * factor)\<close>.\<close>

definition scaled :: "nat \<times> nat \<Rightarrow> nat \<Rightarrow> nat" where
  "scaled f n = (2 * n * fst f + snd f) div (2 * snd f)"

end
