(* ===== verification/PruneSession.thy ===== *)
theory PruneSession
  imports Prune
begin

text \<open>
  The two passes over a session that \<open>src/sessionPrune.ts\<close> offers: the preview of what each turn would save
  (\<open>analyzeSessionForPrune\<close>) and the pruned copy (\<open>pruneSessionToNewId\<close>).  The copy of the sub-agent
  directory is not modelled.
\<close>

subsection \<open>Preview\<close>

record turn_savings =
  ts_preview :: utf16
  ts_thinking :: nat
  ts_inputs_truncated :: nat
  ts_inputs_minimal :: nat
  ts_outputs :: nat
  ts_outputs_image :: nat
  ts_exempt :: nat
  ts_total :: nat

definition no_savings :: turn_savings where
  "no_savings = \<lparr>ts_preview = [], ts_thinking = 0, ts_inputs_truncated = 0, ts_inputs_minimal = 0, ts_outputs = 0,
     ts_outputs_image = 0, ts_exempt = 0, ts_total = 0\<rparr>"

fun joined_value :: "wire option \<Rightarrow> utf16" where
  "joined_value None = []"
| "joined_value (Some WNull) = []"
| "joined_value (Some v) = wire_String v"

definition readTurnPreview :: "wire \<Rightarrow> utf16" where
  "readTurnPreview v =
     (case (if says (field ''type'' v) ''attachment'' then queued_prompt v else content_of v) of
        Some (WText t) \<Rightarrow> sliceCodePoints t 80
      | Some (WArr bs) \<Rightarrow>
          sliceCodePoints (text_trim (squeeze False (text_join [32] (map (\<lambda>b. joined_value (field ''text'' b))
            (filter (\<lambda>b. says (field ''type'' b) ''text'' \<and> parseAuthorMarker (as_text (field ''text'' b)) = None) bs))))) 80
      | _ \<Rightarrow> [])"

definition probe :: "tool_names \<Rightarrow> bool \<Rightarrow> bool \<Rightarrow> input_mode \<Rightarrow> prune_opts" where
  "probe names exempt thinking mode = \<lparr>po_inCut = True, po_thinking = thinking, po_exempt = exempt, po_names = names, po_mode = mode\<rparr>"

definition saved_as :: "prune_category \<Rightarrow> pruned_block \<Rightarrow> nat" where
  "saved_as c p = (if pb_category p = Some c then pb_saved p else 0)"

definition image_saved_as :: "prune_category \<Rightarrow> pruned_block \<Rightarrow> nat" where
  "image_saved_as c p = (if pb_category p = Some c then pb_image p else 0)"

definition exempt_name :: "tool_names \<Rightarrow> wire \<Rightarrow> wire option" where
  "exempt_name names b =
     (if says (field ''type'' b) ''tool_use'' then field ''name'' b
      else if says (field ''type'' b) ''tool_result'' then tool_name_of names (field ''tool_use_id'' b) else None)"

definition add_block :: "(utf16 \<Rightarrow> bytes) \<Rightarrow> tool_names \<Rightarrow> bool \<Rightarrow> wire \<Rightarrow> turn_savings \<Rightarrow> turn_savings" where
  "add_block b64 names exempt b t =
     (let before = blockTokens b64 b;
          think = pruneBlock b64 (probe names exempt True Truncate_mode) b;
          trunc = pruneBlock b64 (probe names exempt False Truncate_mode) b;
          minimal = pruneBlock b64 (probe names exempt False Minimal_mode) b
      in t\<lparr>ts_total := ts_total t + before,
           ts_exempt := ts_exempt t + (if isPruneExemptTool (exempt_name names b) then before else 0),
           ts_thinking := ts_thinking t + saved_as Thinking_cut think,
           ts_outputs := ts_outputs t + saved_as Outputs_cut trunc,
           ts_outputs_image := ts_outputs_image t + image_saved_as Outputs_cut trunc,
           ts_inputs_truncated := ts_inputs_truncated t + saved_as Inputs_cut trunc,
           ts_inputs_minimal := ts_inputs_minimal t + saved_as Inputs_cut minimal\<rparr>)"

definition line_exempt :: "wire list \<Rightarrow> wire \<Rightarrow> bool" where
  "line_exempt objs v \<longleftrightarrow> thinkingExemptKey v \<in> set (unresolvedThinkingMessageIds objs)"

text \<open>A record goes to its turn's bucket; there is none when the session has no turn.\<close>

definition at_turn :: "nat \<Rightarrow> (turn_savings \<Rightarrow> turn_savings) \<Rightarrow> turn_savings list \<Rightarrow> turn_savings list" where
  "at_turn n f ts = (if n < length ts then ts[n := f (ts ! n)] else ts)"

definition analyze_record :: "(utf16 \<Rightarrow> bytes) \<Rightarrow> wire list \<Rightarrow> prune_record \<Rightarrow> turn_savings list \<Rightarrow> turn_savings list" where
  "analyze_record b64 objs r ts =
     (case pc_obj r of
        None \<Rightarrow> ts
      | Some v \<Rightarrow>
          let ts1 = (if isPureUserPromptLine v then at_turn (pc_turn r) (\<lambda>t. t\<lparr>ts_preview := readTurnPreview v\<rparr>) ts else ts) in
          if \<not> pc_prunable r then ts1
          else at_turn (pc_turn r) (fold (add_block b64 (toolNamesById objs) (line_exempt objs v)) (blocks_of v)) ts1)"

definition encrypted_tokens :: "(utf16 \<Rightarrow> bytes) \<Rightarrow> prune_record list \<Rightarrow> nat" where
  "encrypted_tokens b64 rs = sum_list (map (\<lambda>r. case pc_obj r of Some v \<Rightarrow>
       if pc_prunable r then sum_list (map (\<lambda>b. if isEncryptedThinking b then blockTokens b64 b else 0) (blocks_of v)) else 0
     | None \<Rightarrow> 0) rs)"

record prune_analysis =
  pa_turnCount :: nat
  pa_turns :: "turn_savings list"
  pa_encrypted :: nat
  pa_calibration :: calibration

definition analyzeSessionForPrune :: "(utf16 \<Rightarrow> bytes) \<Rightarrow> line list \<Rightarrow> prune_analysis" where
  "analyzeSessionForPrune b64 ls =
     (case readRecords ls of (rs, n) \<Rightarrow>
        \<lparr>pa_turnCount = n, pa_turns = fold (analyze_record b64 (record_objs rs)) rs (replicate n no_savings),
         pa_encrypted = encrypted_tokens b64 rs, pa_calibration = usageCalibration b64 rs\<rparr>)"

subsection \<open>The pruned copy\<close>

record prune_request =
  pq_cut :: nat
  pq_thinking :: bool
  pq_mode :: input_mode
  pq_sid :: utf16

definition touchable :: "prune_request \<Rightarrow> prune_record \<Rightarrow> bool" where
  "touchable q r \<longleftrightarrow> pc_prunable r \<and> (case pc_obj r of Some v \<Rightarrow> as_list (content_of v) \<noteq> None | None \<Rightarrow> False)
     \<and> (pc_turn r < pq_cut q \<or> pq_thinking q)"

definition record_opts :: "prune_request \<Rightarrow> wire list \<Rightarrow> prune_record \<Rightarrow> wire \<Rightarrow> prune_opts" where
  "record_opts q objs r v = \<lparr>po_inCut = pc_turn r < pq_cut q, po_thinking = pq_thinking q, po_exempt = line_exempt objs v,
     po_names = toolNamesById objs, po_mode = pq_mode q\<rparr>"

definition record_blocks :: "(utf16 \<Rightarrow> bytes) \<Rightarrow> prune_request \<Rightarrow> wire list \<Rightarrow> prune_record \<Rightarrow> pruned_block list" where
  "record_blocks b64 q objs r =
     (case pc_obj r of
        Some v \<Rightarrow> if touchable q r then map (pruneBlock b64 (record_opts q objs r v)) (blocks_of v) else []
      | None \<Rightarrow> [])"

text \<open>Members overwritten by the spread keep their place.\<close>

definition with_session :: "utf16 \<Rightarrow> wire \<Rightarrow> wire" where
  "with_session sid v = (if as_text (field ''sessionId'' v) = None then v else set_field ''sessionId'' (WText sid) v)"

definition with_content :: "wire list \<Rightarrow> wire \<Rightarrow> wire" where
  "with_content bs v = (case field ''message'' v of Some m \<Rightarrow> set_field ''message'' (set_field ''content'' (WArr bs) m) v | None \<Rightarrow> v)"

definition pruned_obj :: "(utf16 \<Rightarrow> bytes) \<Rightarrow> prune_request \<Rightarrow> wire list \<Rightarrow> prune_record \<Rightarrow> wire option" where
  "pruned_obj b64 q objs r = map_option (\<lambda>v.
     if touchable q r then with_content (map pb_block (record_blocks b64 q objs r)) (with_session (pq_sid q) v)
     else with_session (pq_sid q) v) (pc_obj r)"

text \<open>A line with neither a session id nor a block to prune is copied byte for byte.\<close>

definition pruned_line :: "(utf16 \<Rightarrow> bytes) \<Rightarrow> prune_request \<Rightarrow> wire list \<Rightarrow> prune_record \<Rightarrow> utf16" where
  "pruned_line b64 q objs r =
     (case pc_obj r of
        None \<Rightarrow> pc_raw r
      | Some v \<Rightarrow>
          if touchable q r \<or> as_text (field ''sessionId'' v) \<noteq> None then wire_json (the (pruned_obj b64 q objs r)) else pc_raw r)"

definition raw_saved :: "(utf16 \<Rightarrow> bytes) \<Rightarrow> prune_request \<Rightarrow> prune_record list \<Rightarrow> prune_category \<Rightarrow> nat" where
  "raw_saved b64 q rs c = sum_list (map (\<lambda>r. sum_list (map (saved_as c) (record_blocks b64 q (record_objs rs) r))) rs)"

definition raw_image_saved :: "(utf16 \<Rightarrow> bytes) \<Rightarrow> prune_request \<Rightarrow> prune_record list \<Rightarrow> prune_category \<Rightarrow> nat" where
  "raw_image_saved b64 q rs c = sum_list (map (\<lambda>r. sum_list (map (image_saved_as c) (record_blocks b64 q (record_objs rs) r))) rs)"

definition saved_total :: "(utf16 \<Rightarrow> bytes) \<Rightarrow> prune_request \<Rightarrow> prune_record list \<Rightarrow> prune_category \<Rightarrow> nat" where
  "saved_total b64 q rs c = scaled (ca_factor (usageCalibration b64 rs)) (raw_saved b64 q rs c - raw_image_saved b64 q rs c)
     + raw_image_saved b64 q rs c"

definition last_uuid :: "wire list \<Rightarrow> utf16 option" where
  "last_uuid objs = (case rev (List.map_filter (\<lambda>v. as_text (field ''uuid'' v)) objs) of [] \<Rightarrow> None | u # us \<Rightarrow> Some u)"

definition joined_lines :: "utf16 list \<Rightarrow> utf16" where
  "joined_lines ls = text_join [NL] ls @ [NL]"

definition pruned_file :: "(utf16 \<Rightarrow> bytes) \<Rightarrow> prune_request \<Rightarrow> prune_record list \<Rightarrow> utf16" where
  "pruned_file b64 q rs = joined_lines (map (pruned_line b64 q (record_objs rs)) rs)"

datatype prune_error =
    Bad_input_mode
  | Cut_not_exactly_one
  | Bad_keep
  | Session_not_found
  | No_user_turns
  | Bad_cut nat
  | Unknown_mode utf16

record prune_result =
  pz_file :: utf16
  pz_turnCount :: nat
  pz_cut :: nat
  pz_saved :: "prune_category \<Rightarrow> nat"
  pz_last :: "utf16 option"

text \<open>The cut asked for, against the turns there are.\<close>

definition resolve_cut :: "int option \<Rightarrow> int option \<Rightarrow> nat \<Rightarrow> nat option" where
  "resolve_cut cutTurnIndex keepLatestTurns n =
     (let until = (case cutTurnIndex of Some c \<Rightarrow> c | None \<Rightarrow> max 0 (int n - (case keepLatestTurns of Some k \<Rightarrow> k | None \<Rightarrow> 0))) in
      if 0 \<le> until \<and> until \<le> int n then Some (nat until) else None)"

text \<open>\<open>file\<close> is the session's text, \<open>None\<close> when there is none; an unknown mode throws after the copy is written.\<close>

definition pruneSessionToNewId :: "(utf16 \<Rightarrow> bytes) \<Rightarrow> (utf16 \<Rightarrow> wire option) \<Rightarrow> utf16 option \<Rightarrow> int option \<Rightarrow> int option \<Rightarrow> bool
    \<Rightarrow> string \<Rightarrow> string \<Rightarrow> utf16 \<Rightarrow> prune_error + prune_result" where
  "pruneSessionToNewId b64 parse file cutTurnIndex keepLatestTurns thinking inputMode mode sid =
     (case input_mode_of inputMode of
        None \<Rightarrow> Inl Bad_input_mode
      | Some m \<Rightarrow>
          if (cutTurnIndex = None) = (keepLatestTurns = None) then Inl Cut_not_exactly_one
          else if (case keepLatestTurns of Some k \<Rightarrow> k < 0 | None \<Rightarrow> False) then Inl Bad_keep
          else (case file of
              None \<Rightarrow> Inl Session_not_found
            | Some text \<Rightarrow>
                (case readRecords (file_lines parse text) of (rs, n) \<Rightarrow>
                   if n = 0 then Inl No_user_turns
                   else (case resolve_cut cutTurnIndex keepLatestTurns n of
                       None \<Rightarrow> Inl (Bad_cut n)
                     | Some until \<Rightarrow>
                         (let q = \<lparr>pq_cut = until, pq_thinking = thinking, pq_mode = m, pq_sid = sid\<rparr>;
                              copy = pruned_file b64 q rs; leaf = last_uuid (record_objs rs)
                          in case writeSessionMetadata sid leaf mode copy of
                               None \<Rightarrow> Inl (Unknown_mode copy)
                             | Some whole \<Rightarrow> Inr \<lparr>pz_file = whole, pz_turnCount = n, pz_cut = until,
                                 pz_saved = saved_total b64 q rs, pz_last = leaf\<rparr>)))))"

end
