(* ===== verification/TranscriptFacts.thy ===== *)
theory TranscriptFacts
  imports Transcripts WakeFacts
begin

text \<open>Which lines count as prompts, against which lines replay to a bubble.\<close>

lemma as_list_eq: "as_list v = Some xs \<longleftrightarrow> v = Some (WArr xs)"
  by (cases v rule: as_list.cases) auto

subsection \<open>The consolidation as sums\<close>

definition words_of :: "wire \<Rightarrow> utf16 list \<times> echo_attachment list \<times> prompt_author option" where
  "words_of b = (case block_text b of None \<Rightarrow> ([], [], None) | Some t \<Rightarrow> block_words t)"

definition answers_in :: "utf16 list \<Rightarrow> wire list \<Rightarrow> user_event list" where
  "answers_in earlier bs = map (tool_answer earlier) (filter (\<lambda>b. says (field ''type'' b) ''tool_result'') bs)"

lemma result_no_text: "says (field ''type'' b) ''tool_result'' \<Longrightarrow> block_text b = None"
  by (auto simp: block_text_def says_def split: if_splits)

lemma consolidate_sums:
  "\<exists>author'. consolidate_loop earlier bs (out, texts, atts, author) =
     (out @ answers_in earlier bs, texts @ concat (map (fst \<circ> words_of) bs), atts @ concat (map (fst \<circ> snd \<circ> words_of) bs), author')"
proof (induction bs arbitrary: out texts atts author)
  case Nil
  show ?case by (simp add: answers_in_def)
next
  case (Cons b bs)
  show ?case
  proof (cases "says (field ''type'' b) ''tool_result''")
    case True
    with Cons [of "out @ [tool_answer earlier b]" texts atts author] show ?thesis
      by (simp add: answers_in_def words_of_def result_no_text)
  next
    case False
    then show ?thesis
    proof (cases "block_text b")
      case None
      with False Cons [of out texts atts author] show ?thesis by (simp add: answers_in_def words_of_def)
    next
      case (Some t)
      obtain ws as a where w: "block_words t = (ws, as, a)" by (cases "block_words t")
      from Some False w Cons [of out "texts @ ws" "atts @ as" "if a = None then author else a"] show ?thesis
        by (simp add: answers_in_def words_of_def)
    qed
  qed
qed

lemma echo_answers [simp]: "echo_text (answers_in earlier bs @ es) = echo_text es"
  by (induction bs) (simp_all add: answers_in_def tool_answer_def)

text \<open>A block that says something: its words or its attachments reach the bubble.\<close>

definition speaks :: "wire \<Rightarrow> bool" where
  "speaks b \<longleftrightarrow> fst (words_of b) \<noteq> [] \<or> fst (snd (words_of b)) \<noteq> []"

lemma echo_iff_speaks: "echo_text (consolidateUserContent earlier bs) \<noteq> None \<longleftrightarrow> list_ex speaks bs"
proof -
  obtain author where c: "consolidate_loop earlier bs ([], [], [], None) =
      (answers_in earlier bs, concat (map (fst \<circ> words_of) bs), concat (map (fst \<circ> snd \<circ> words_of) bs), author)"
    using consolidate_sums [of earlier bs "[]" "[]" "[]" None] by auto
  have "(concat (map (fst \<circ> words_of) bs) \<noteq> [] \<or> concat (map (fst \<circ> snd \<circ> words_of) bs) \<noteq> []) \<longleftrightarrow> list_ex speaks bs"
    by (induction bs) (auto simp: speaks_def)
  then show ?thesis using echo_answers [of earlier bs "[]"] by (auto simp: consolidateUserContent_def c)
qed

lemma no_text_no_words [simp]: "block_words [] = ([], [], None)"
  by (simp add: block_words_def isMidTurnNoteContent_def parseAuthorMarker_def text_trim_def extractAttachedMarkers_def
      attached_path_def drop_blank_tail_def blank_def map_filter_def units_def Let_def)

lemma speaks_text: "speaks b \<Longrightarrow> \<exists>t. block_text b = Some t \<and> t \<noteq> []"
  by (cases "block_text b") (auto simp: speaks_def words_of_def)

subsection \<open>Prompts and bubbles\<close>

text \<open>The blocks a line's bubble would be made of.\<close>

definition prompt_blocks :: "wire \<Rightarrow> wire list option" where
  "prompt_blocks v = as_list (if says (field ''type'' v) ''user'' then content_of v else queued_prompt v)"

text \<open>A prompt line every text block of which is empty, blank, a mid-turn note or an author mark.\<close>

definition wordless_prompt :: "wire \<Rightarrow> bool" where
  "wordless_prompt v \<longleftrightarrow> isPureUserPromptLine v \<and> (case prompt_blocks v of Some bs \<Rightarrow> \<not> list_ex speaks bs | None \<Rightarrow> False)"

text \<open>A user line whose content is the empty text.\<close>

definition empty_prompt :: "wire \<Rightarrow> bool" where
  "empty_prompt v \<longleftrightarrow> \<not> truthy (field ''isSidechain'' v) \<and> says (field ''type'' v) ''user'' \<and> content_of v = Some (WText [])"

lemma some_block_weaken: "some_block P bs \<Longrightarrow> (\<And>t. P t \<Longrightarrow> Q t) \<Longrightarrow> some_block Q bs"
  by (auto simp: some_block_def list_ex_iff split: option.splits)

lemma speaks_some_block: "list_ex speaks bs \<Longrightarrow> some_block (\<lambda>t. t \<noteq> []) bs"
  by (auto simp: some_block_def list_ex_iff dest!: speaks_text intro!: bexI)

lemma empty_text [simp]:
  "\<not> text_has [] SOFT_INTERRUPT_MARKER" "\<not> interrupt_marker []" "\<not> notification_tag []" "\<not> caveat_text []"
  by (simp_all add: text_has_def SOFT_INTERRUPT_MARKER_def interrupt_marker_def text_trim_def notification_tag_def trim_start_def
      caveat_text_def Let_def units_def)

text \<open>
  C22. The lines counted as prompts are those that replay to a user bubble, so the index of a bubble counts
  lines of the file, with two exceptions: a line that counts although no block of it says anything shows no
  bubble, and a line with an empty content, which does not count, shows one.
\<close>

theorem prompt_lines_are_the_bubbles:
  "isPureUserPromptLine v \<noteq> (replayed_echo earlier v \<noteq> None) \<longleftrightarrow> wordless_prompt v \<or> empty_prompt v"
proof (cases "truthy (field ''isSidechain'' v)")
  case True
  then show ?thesis by (simp add: isPureUserPromptLine_def replayed_echo_def wordless_prompt_def empty_prompt_def)
next
  case side: False
  show ?thesis
  proof (cases "says (field ''type'' v) ''user''")
    case user: True
    show ?thesis
    proof (cases "isSoftInterruptContent (content_of v) \<or> isInterruptMarkerContent (content_of v)
        \<or> isTaskNotificationContent (content_of v) \<or> isLocalCommandCaveatLine v")
      case True
      then have "\<not> empty_prompt v" by (auto simp: empty_prompt_def isLocalCommandCaveatLine_def)
      with True side user show ?thesis
        by (auto simp: isPureUserPromptLine_def replayed_echo_def wordless_prompt_def Let_def)
    next
      case plain: False
      show ?thesis
      proof (cases "as_list (content_of v)")
        case (Some bs)
        have "list_ex speaks bs \<Longrightarrow> some_block (\<lambda>t. True) bs" by (blast dest: speaks_some_block intro: some_block_weaken)
        with Some plain side user show ?thesis using echo_iff_speaks [of earlier bs]
          by (auto simp: isPureUserPromptLine_def replayed_echo_def wordless_prompt_def empty_prompt_def prompt_blocks_def Let_def as_list_eq)
      next
        case None
        with plain side user show ?thesis
          by (cases "content_of v"; cases "the (content_of v)")
             (auto simp: isPureUserPromptLine_def replayed_echo_def wordless_prompt_def empty_prompt_def prompt_blocks_def Let_def)
      qed
    qed
  next
    case False
    show ?thesis
    proof (cases "as_list (queued_prompt v)")
      case (Some bs)
      with False side show ?thesis using echo_iff_speaks [of earlier bs] speaks_some_block [of bs]
        by (auto simp: isPureUserPromptLine_def replayed_echo_def wordless_prompt_def empty_prompt_def prompt_blocks_def Let_def as_list_eq)
    next
      case None
      with False side show ?thesis
        by (cases "queued_prompt v"; cases "the (queued_prompt v)")
           (auto simp: isPureUserPromptLine_def replayed_echo_def wordless_prompt_def empty_prompt_def prompt_blocks_def Let_def)
    qed
  qed
qed

end
