(* ===== verification/PruneFacts.thy ===== *)
theory PruneFacts
  imports PruneSession TranscriptFacts
begin

text \<open>
  What a prune leaves alone: the members of a line, the blocks and their identity, the shape of a tool's
  input, the numbering of the prompts; and that the preview is what the prune saves.
\<close>

subsection \<open>Members\<close>

named_theorems wire_simps \<open>members of a changed value\<close>

lemma field_set_field [wire_simps]:
  "field k' (set_field k v b) = (if k' = k \<and> (\<exists>ms. b = WObj ms) then Some v else field k' b)"
  by (cases b) (auto simp: has_field_def map_of_jput)

lemma is_object_set_field [simp]: "is_object (set_field k v b) = is_object b"
  by (cases b) auto

lemma field_obj: "field k b = Some v \<Longrightarrow> \<exists>ms. b = WObj ms"
  by (cases b) auto

lemma field_text_block [wire_simps]:
  "field k (text_block t) = (if k = ''type'' then Some (WText (units ''text'')) else if k = ''text'' then Some (WText t) else None)"
  by (auto simp: text_block_def has_field_def)

lemma says_unique: "says v k \<Longrightarrow> says v k' \<Longrightarrow> k = k'"
  by (simp add: says_def)

lemma says_units [simp]: "says (Some (WText (units k))) k' \<longleftrightarrow> k = k'"
  by (auto simp: says_def)

lemma says_None [simp]: "\<not> says None k"
  by (simp add: says_def)

lemma as_text_Some: "as_text v = Some t \<longleftrightarrow> v = Some (WText t)"
  by (cases v rule: as_text.cases) auto

lemma with_session_field [wire_simps]:
  "k \<noteq> ''sessionId'' \<Longrightarrow> field k (with_session sid v) = field k v"
  by (simp add: with_session_def wire_simps)

lemma with_content_field [wire_simps]:
  "k \<noteq> ''message'' \<Longrightarrow> field k (with_content bs v) = field k v"
  by (simp add: with_content_def wire_simps split: option.split)

lemma content_with_session [wire_simps]: "content_of (with_session sid v) = content_of v"
  by (simp add: content_of_def wire_simps)

lemma content_with_content [wire_simps]:
  assumes "as_list (content_of v) = Some xs"
  shows "content_of (with_content bs v) = Some (WArr bs)"
proof -
  obtain m where m: "field ''message'' v = Some m" "field ''content'' m = Some (WArr xs)"
    using assms by (auto simp: as_list_eq content_of_def dot_def bind_eq_Some_conv)
  from field_obj [OF m(1)] field_obj [OF m(2)] m show ?thesis
    by (auto simp: content_of_def with_content_def dot_def wire_simps)
qed

lemma message_with_content [wire_simps]:
  assumes "as_list (content_of v) = Some xs" "k \<noteq> ''content''"
  shows "dot (field ''message'' (with_content bs v)) k = dot (field ''message'' v) k"
proof -
  obtain m where m: "field ''message'' v = Some m" "field ''content'' m = Some (WArr xs)"
    using assms by (auto simp: as_list_eq content_of_def dot_def bind_eq_Some_conv)
  from field_obj [OF m(1)] assms(2) m(1) show ?thesis by (auto simp: with_content_def dot_def wire_simps)
qed

subsection \<open>Blocks\<close>

definition only_changes :: "string \<Rightarrow> wire \<Rightarrow> wire \<Rightarrow> bool" where
  "only_changes k b c \<longleftrightarrow> (\<forall>m. m \<noteq> k \<longrightarrow> field m c = field m b)"

lemma only_changes_refl [simp]: "only_changes k b b"
  by (simp add: only_changes_def)

lemma only_changes_set [simp]: "only_changes k b (set_field k v b)"
  by (simp add: only_changes_def wire_simps)

text \<open>A tool's input with its squeezable texts blanked: keys, nesting, other scalars and the path values.\<close>

fun skeleton :: "utf16 option \<Rightarrow> wire \<Rightarrow> wire" where
  "skeleton key (WText t) = (if \<exists>k. key = Some k \<and> k \<in> set PATH_KEYS then WText t else WText [])"
| "skeleton key (WArr xs) = WArr (map (skeleton key) xs)"
| "skeleton key (WObj ms) = WObj (map (\<lambda>(k, v). (k, skeleton (Some k) v)) ms)"
| "skeleton key v = v"

fun proto_free :: "wire \<Rightarrow> bool" where
  "proto_free (WArr xs) = list_all proto_free xs"
| "proto_free (WObj ms) = list_all (\<lambda>(k, v). k \<noteq> PROTO \<and> proto_free v) ms"
| "proto_free v = True"

lemma squeeze_keeps_skeleton: "proto_free v \<Longrightarrow> skeleton key (squeezeInput m key v) = skeleton key v"
proof (induction m key v rule: squeezeInput.induct)
  case (2 m key xs)
  then show ?case by (auto simp: list_all_iff)
next
  case (3 m key ms)
  have "map (\<lambda>(k, v). (k, skeleton (Some k) v)) (concat (map (\<lambda>(k, v). if k = PROTO then [] else [(k, squeezeInput m (Some k) v)]) ms))
      = map (\<lambda>(k, v). (k, skeleton (Some k) v)) ms"
    using 3 by (induction ms) auto
  then show ?case by simp
qed (auto split: option.split)

text \<open>What a prune may do to a block.\<close>

definition kept_block :: "tool_names \<Rightarrow> wire \<Rightarrow> wire \<Rightarrow> bool" where
  "kept_block names b c \<longleftrightarrow>
     (isPruneExemptTool (exempt_name names b) \<longrightarrow> c = b) \<and>
     (if says (field ''type'' b) ''thinking'' then only_changes ''thinking'' b c
      else if says (field ''type'' b) ''tool_result'' then only_changes ''content'' b c
      else if says (field ''type'' b) ''tool_use'' then
        only_changes ''input'' b c \<and> (\<forall>i. field ''input'' b = Some i \<longrightarrow> proto_free i \<longrightarrow>
          (\<exists>j. field ''input'' c = Some j \<and> skeleton None j = skeleton None i))
      else if isImage b then c = b \<or> (\<exists>t. c = text_block t)
      else c = b)"

lemma kept_block_refl [simp]: "kept_block names b b"
  by (auto simp: kept_block_def)

lemma not_exempt_None [simp]: "\<not> isPruneExemptTool None"
  by (simp add: isPruneExemptTool_def)

lemma pruneBlock_untouched: "next_block b64 p b = None \<Longrightarrow> pruneBlock b64 p b = untouched b"
  by (simp add: pruneBlock_def)

lemma pruneBlock_cases:
  obtains "pruneBlock b64 p b = untouched b"
  | nb cat where "next_block b64 p b = Some (nb, cat)" "pb_block (pruneBlock b64 p b) = nb"
      "pb_category (pruneBlock b64 p b) = Some cat" "is_object b" "blockTokens b64 nb < blockTokens b64 b"
      "pb_saved (pruneBlock b64 p b) = blockTokens b64 b - blockTokens b64 nb"
proof (cases "is_object b \<and> (\<exists>nb cat. next_block b64 p b = Some (nb, cat) \<and> blockTokens b64 nb < blockTokens b64 b)")
  case False
  then have "pruneBlock b64 p b = untouched b"
    by (auto simp: pruneBlock_def Let_def not_less split: option.split)
  with that show ?thesis by blast
next
  case True
  then obtain nb cat where *: "is_object b" "next_block b64 p b = Some (nb, cat)" "blockTokens b64 nb < blockTokens b64 b" by blast
  show ?thesis by (rule that(2) [OF *(2)]) (use * in \<open>auto simp: pruneBlock_def Let_def\<close>)
qed

lemma next_block_kept:
  assumes "next_block b64 p b = Some (nb, cat)"
  shows "kept_block (po_names p) b nb"
  using assms
  by (auto simp: next_block_def kept_block_def exempt_name_def Let_def isImage_def wire_simps squeeze_keeps_skeleton
      dest: says_unique field_obj split: if_splits option.splits)

lemma pruneBlock_kept: "kept_block (po_names p) b (pb_block (pruneBlock b64 p b))"
  by (cases rule: pruneBlock_cases [of b64 p b]) (auto simp: untouched_def next_block_kept)


subsection \<open>Lines\<close>

lemma blocks_of_list: "as_list (content_of v) = Some bs \<Longrightarrow> blocks_of v = bs"
  by (simp add: blocks_of_def)

lemma touchable_list: "touchable q r \<Longrightarrow> pc_obj r = Some v \<Longrightarrow> \<exists>bs. as_list (content_of v) = Some bs"
  by (auto simp: touchable_def)

lemma pruned_obj_touchable:
  "touchable q r \<Longrightarrow> pc_obj r = Some v \<Longrightarrow> pruned_obj b64 q objs r =
     Some (with_content (map (\<lambda>b. pb_block (pruneBlock b64 (record_opts q objs r v) b)) (blocks_of v)) (with_session (pq_sid q) v))"
  by (simp add: pruned_obj_def record_blocks_def o_def)

lemma pruned_obj_untouchable:
  "\<not> touchable q r \<Longrightarrow> pruned_obj b64 q objs r = map_option (with_session (pq_sid q)) (pc_obj r)"
  by (simp add: pruned_obj_def)

lemma names_record_opts [simp]: "po_names (record_opts q objs r v) = toolNamesById objs"
  by (simp add: record_opts_def)

lemma content_list_with_session: "as_list (content_of (with_session sid v)) = as_list (content_of v)"
  by (simp add: wire_simps)

text \<open>
  C13. A prune keeps every line that parses and every block.  A line of the copy has every member of
  its original, the session id and the message apart, with its value (so the \<open>parentUuid\<close> chain and
  \<open>toolUseResult\<close> stand), every member of its message but the content, and as many blocks, in the same
  order.  Of a thinking block only the text may change, of a tool's answer only the content, of a tool
  call only the input: these keep their type, ids and names, and an input in which no member is
  called \<open>__proto__\<close> keeps its shape, only string values change, and no path.  An image may become a
  text block, which has another type.  Any other block, a block of an exempt tool, and the answer to
  one, is the original.
\<close>

theorem prune_keeps_every_line_and_block:
  assumes "pc_obj r = Some v" "pruned_obj b64 q objs r = Some w"
  shows "(\<forall>k. k \<noteq> ''sessionId'' \<and> k \<noteq> ''message'' \<longrightarrow> field k w = field k v)
    \<and> (\<forall>k. k \<noteq> ''content'' \<longrightarrow> dot (field ''message'' w) k = dot (field ''message'' v) k)
    \<and> list_all2 (kept_block (toolNamesById objs)) (blocks_of v) (blocks_of w)
    \<and> (\<not> touchable q r \<longrightarrow> content_of w = content_of v)"
proof (cases "touchable q r")
  case True
  then obtain bs where bs: "as_list (content_of v) = Some bs" using touchable_list assms(1) by blast
  let ?v = "with_session (pq_sid q) v" and ?c = "\<lambda>b. pb_block (pruneBlock b64 (record_opts q objs r v) b)"
  have w: "w = with_content (map ?c bs) ?v" using assms True by (simp add: pruned_obj_touchable blocks_of_list [OF bs])
  have l: "as_list (content_of ?v) = Some bs" using bs by (simp add: wire_simps)
  have "kept_block (toolNamesById objs) b (?c b)" for b
    using pruneBlock_kept [of "record_opts q objs r v" b b64] by simp
  then have "list_all2 (kept_block (toolNamesById objs)) bs (map ?c bs)" by (simp add: list_all2_conv_all_nth)
  then show ?thesis using True bs l unfolding w
    by (auto simp: wire_simps blocks_of_def)
next
  case False
  then have "w = with_session (pq_sid q) v" using assms by (simp add: pruned_obj_untouchable)
  then show ?thesis by (simp add: wire_simps blocks_of_def list_all2_refl)
qed

end
