(* ===== verification/PruneNumbering.thy ===== *)
theory PruneNumbering
  imports PruneFacts
begin

text \<open>The numbering of the prompts across a prune: it is kept, unless a line holds nothing but an image.\<close>

subsection \<open>Text blocks of a pruned line\<close>

text \<open>
  A line is ordinary when an image in it comes with a text block, and no image's label spells the
  orchestrator's steer marker.
\<close>

definition ordinary_images :: "(utf16 \<Rightarrow> bytes) \<Rightarrow> wire \<Rightarrow> bool" where
  "ordinary_images b64 v \<longleftrightarrow> (list_ex isImage (blocks_of v) \<longrightarrow> some_block (\<lambda>t. True) (blocks_of v)) \<and>
     list_all (\<lambda>b. isImage b \<longrightarrow> \<not> text_has (pruned_mark (snd (imageInfo b64 b))) SOFT_INTERRUPT_MARKER) (blocks_of v)"

lemma block_text_text_block [simp]: "block_text (text_block t) = Some t"
  by (simp add: block_text_def wire_simps)

lemma block_text_type: "block_text b = Some t \<Longrightarrow> says (field ''type'' b) ''text''"
  by (simp add: block_text_def split: if_splits)

lemma block_text_changes: "only_changes k b c \<Longrightarrow> k \<noteq> ''type'' \<Longrightarrow> k \<noteq> ''text'' \<Longrightarrow> block_text c = block_text b"
  by (simp add: only_changes_def block_text_def)

lemma pruned_image:
  assumes "isImage b" "pb_block (pruneBlock b64 p b) \<noteq> b"
  shows "pb_block (pruneBlock b64 p b) = text_block (pruned_mark (snd (imageInfo b64 b)))"
proof (cases rule: pruneBlock_cases [of b64 p b])
  case 1
  with assms(2) show ?thesis by (simp add: untouched_def)
next
  case (2 nb cat)
  with assms(1) show ?thesis
    by (auto simp: next_block_def Let_def isImage_def dest: says_unique split: if_splits)
qed

lemma pruned_block_text:
  assumes "\<not> isImage b"
  shows "block_text (pb_block (pruneBlock b64 p b)) = block_text b"
  using pruneBlock_kept [of p b b64] assms
  by (auto simp: kept_block_def block_text_changes split: if_splits)

lemma mark_starts: "text_starts (pruned_mark x) (units ''[pruned: '')"
  by (simp add: pruned_mark_def)

lemma is_space_bracket [simp]: "\<not> is_space 91"
  by (simp add: is_space_def)

lemma pruned_mark_Cons: "pruned_mark x = 91 # 112 # units ''runed: '' @ x @ units '']''"
  by (simp add: pruned_mark_def units_def)

lemma mark_not_notification [simp]: "\<not> notification_tag (pruned_mark x)"
  by (simp add: notification_tag_def trim_start_def pruned_mark_Cons units_Cons)

lemma some_block_pruned:
  assumes "\<And>b. b \<in> set bs \<Longrightarrow> isImage b \<Longrightarrow> \<not> P (pruned_mark (snd (imageInfo b64 b)))"
  shows "some_block P (map (\<lambda>b. pb_block (pruneBlock b64 p b)) bs) = some_block P bs"
proof -
  have "(case block_text (pb_block (pruneBlock b64 p b)) of Some t \<Rightarrow> P t | None \<Rightarrow> False) = (case block_text b of Some t \<Rightarrow> P t | None \<Rightarrow> False)"
    if b: "b \<in> set bs" for b
  proof (cases "isImage b")
    case False
    then show ?thesis by (simp add: pruned_block_text)
  next
    case True
    then have "block_text b = None" by (auto simp: isImage_def block_text_def dest: says_unique)
    with True assms [OF b True] pruned_image [OF True, of b64 p] show ?thesis
      by (cases "pb_block (pruneBlock b64 p b) = b") auto
  qed
  then show ?thesis by (auto simp: some_block_def list_ex_iff)
qed

lemma some_text_pruned:
  assumes "list_ex isImage bs \<longrightarrow> some_block (\<lambda>t. True) bs"
  shows "some_block (\<lambda>t. True) (map (\<lambda>b. pb_block (pruneBlock b64 p b)) bs) = some_block (\<lambda>t. True) bs"
proof (cases "list_ex isImage bs")
  case False
  then show ?thesis by (intro some_block_pruned) (auto simp: list_ex_iff)
next
  case True
  then obtain b where b: "b \<in> set bs" "block_text b \<noteq> None" using assms
    by (auto simp: some_block_def list_ex_iff split: option.splits)
  then have "\<not> isImage b" by (auto simp: isImage_def block_text_def dest: says_unique split: if_splits)
  then have "block_text (pb_block (pruneBlock b64 p b)) \<noteq> None" using b by (simp add: pruned_block_text)
  then have "some_block (\<lambda>t. True) (map (\<lambda>b. pb_block (pruneBlock b64 p b)) bs)"
    using b(1) by (auto simp: some_block_def list_ex_iff split: option.splits)
  with True assms show ?thesis by simp
qed

lemma interrupt_pruned:
  assumes "list_ex isImage bs \<longrightarrow> some_block (\<lambda>t. True) bs"
  shows "isInterruptMarkerContent (Some (WArr (map (\<lambda>b. pb_block (pruneBlock b64 p b)) bs))) = isInterruptMarkerContent (Some (WArr bs))"
proof (cases "\<exists>b. bs = [b]")
  case False
  then show ?thesis by (cases bs; cases "tl bs") auto
next
  case True
  then obtain b where bs: "bs = [b]" by blast
  have "\<not> isImage b" using assms unfolding bs
    by (auto simp: some_block_def isImage_def block_text_def dest: says_unique split: option.splits if_splits)
  then show ?thesis unfolding bs by (simp add: some_block_def pruned_block_text)
qed

lemma injected_pruned: "isCliInjectedLine (with_content bs (with_session sid v)) = isCliInjectedLine v"
  "isCliInjectedLine (with_session sid v) = isCliInjectedLine v"
  by (simp_all add: isCliInjectedLine_def wire_simps)

lemma with_session_prompt: "isPureUserPromptLine (with_session sid v) = isPureUserPromptLine v"
  by (simp add: isPureUserPromptLine_def isLocalCommandCaveatLine_def is_queued_command_def queued_prompt_def injected_pruned wire_simps Let_def)

lemma pruned_prompt:
  assumes "pc_obj r = Some v" "ordinary_images b64 v"
  shows "prompt_line (pruned_obj b64 q objs r) = prompt_line (pc_obj r)"
proof (cases "touchable q r")
  case False
  then show ?thesis using assms(1) by (simp add: pruned_obj_untouchable prompt_line_def with_session_prompt)
next
  case True
  then obtain bs where bs: "as_list (content_of v) = Some bs" using touchable_list assms(1) by blast
  let ?v = "with_session (pq_sid q) v" and ?cs = "map (\<lambda>b. pb_block (pruneBlock b64 (record_opts q objs r v) b)) bs"
  have w: "pruned_obj b64 q objs r = Some (with_content ?cs ?v)" using assms(1) True by (simp add: pruned_obj_touchable blocks_of_list [OF bs])
  have l: "as_list (content_of ?v) = Some bs" using bs by (simp add: wire_simps)
  have im: "list_ex isImage bs \<longrightarrow> some_block (\<lambda>t. True) bs"
    "\<And>b. b \<in> set bs \<Longrightarrow> isImage b \<Longrightarrow> \<not> text_has (pruned_mark (snd (imageInfo b64 b))) SOFT_INTERRUPT_MARKER"
    using assms(2) by (simp_all add: ordinary_images_def blocks_of_list [OF bs] list_all_iff)
  have "isPureUserPromptLine (with_content ?cs ?v) = isPureUserPromptLine v"
    using bs by (simp add: isPureUserPromptLine_def Let_def isLocalCommandCaveatLine_def is_queued_command_def queued_prompt_def
        injected_pruned content_with_content [OF l] wire_simps as_list_eq
        some_block_pruned [of bs _ b64] some_text_pruned [OF im(1)] interrupt_pruned [OF im(1)] im(2))
  then show ?thesis using assms(1) by (simp add: prompt_line_def w)
qed


subsection \<open>The copy read back\<close>

text \<open>A value that is written on one line and read back as it was.\<close>

definition reads_back :: "(utf16 \<Rightarrow> wire option) \<Rightarrow> wire \<Rightarrow> bool" where
  "reads_back parse w \<longleftrightarrow> NL \<notin> set (wire_json w) \<and> parse (wire_json w) = Some w"

lemma wire_json_object: "is_object w \<Longrightarrow> wire_json w \<noteq> []"
  by (cases w) auto

lemma is_object_with [simp]: "is_object (with_session sid v) = is_object v" "is_object (with_content bs v) = is_object v"
  by (auto simp: with_session_def with_content_def split: option.split)

lemma pruned_obj_object: "pruned_obj b64 q objs r = Some w \<Longrightarrow> pc_obj r = Some v \<Longrightarrow> is_object v \<Longrightarrow> is_object w"
  by (cases "touchable q r") (auto simp: pruned_obj_def)

text \<open>A record as it comes out of a file.\<close>

definition from_file :: "(utf16 \<Rightarrow> wire option) \<Rightarrow> prune_record \<Rightarrow> bool" where
  "from_file parse r \<longleftrightarrow> pc_raw r \<noteq> [] \<and> NL \<notin> set (pc_raw r) \<and> parsed_line parse (pc_raw r) = (pc_raw r, pc_obj r)"

lemma records_lines: "map (\<lambda>r. (pc_raw r, pc_obj r)) (records_from n ls) = ls"
  by (induction n ls rule: records_from.induct) (simp_all add: Let_def)

lemma file_line_ok:
  assumes "l \<in> set (file_lines parse t)"
  shows "fst l \<noteq> [] \<and> NL \<notin> set (fst l) \<and> parsed_line parse (fst l) = l"
  using assms by (auto simp: file_lines_def parsed_line_def dest: text_lines_no_NL)

lemma records_from_file:
  assumes "r \<in> set (records_from n (file_lines parse t))"
  shows "from_file parse r"
proof -
  have "(pc_raw r, pc_obj r) \<in> set (file_lines parse t)"
    using assms records_lines [of n "file_lines parse t"] by (metis (no_types, lifting) image_eqI list.set_map)
  from file_line_ok [OF this] show ?thesis by (simp add: from_file_def)
qed

lemma pruned_line_reads:
  assumes "from_file parse r" "\<And>w. pruned_obj b64 q objs r = Some w \<Longrightarrow> reads_back parse w"
  shows "pruned_line b64 q objs r \<noteq> [] \<and> NL \<notin> set (pruned_line b64 q objs r) \<and>
    parsed_line parse (pruned_line b64 q objs r) = (pruned_line b64 q objs r, pruned_obj b64 q objs r)"
proof (cases "pc_obj r")
  case None
  then show ?thesis using assms(1) by (simp add: pruned_line_def from_file_def pruned_obj_def)
next
  case (Some v)
  obtain w where w: "pruned_obj b64 q objs r = Some w" using Some by (simp add: pruned_obj_def)
  have "is_object v" using assms(1) Some by (auto simp: from_file_def parsed_line_def split: option.splits if_splits)
  then have "is_object w" using pruned_obj_object w Some by blast
  show ?thesis
  proof (cases "touchable q r \<or> as_text (field ''sessionId'' v) \<noteq> None")
    case True
    then show ?thesis using Some w assms(2) [OF w] \<open>is_object w\<close> wire_json_object [of w]
      by (simp add: pruned_line_def reads_back_def parsed_line_def)
  next
    case False
    then have "w = v" using w Some by (simp add: pruned_obj_untouchable with_session_def)
    with False w Some assms(1) show ?thesis by (simp add: pruned_line_def from_file_def)
  qed
qed

lemma lines_of_joined:
  assumes "ls \<noteq> []" "\<And>l. l \<in> set ls \<Longrightarrow> NL \<notin> set l"
  shows "text_lines (joined_lines ls) = ls @ [[]]"
proof -
  have "concat (map text_lines ls) = ls" using assms(2) by (induction ls) (auto simp: text_lines_single)
  then show ?thesis using assms(1) by (simp add: joined_lines_def text_lines_append text_lines_join)
qed

lemma file_of_joined:
  assumes "\<And>l. l \<in> set ls \<Longrightarrow> NL \<notin> set l \<and> l \<noteq> []"
  shows "file_lines parse (joined_lines ls) = map (parsed_line parse) ls"
proof (cases "ls = []")
  case True
  then show ?thesis by (simp add: joined_lines_def file_lines_def text_lines_NL)
next
  case False
  have "filter (\<lambda>l. l \<noteq> []) ls = ls" using assms by (simp add: filter_id_conv)
  then show ?thesis using assms by (simp add: lines_of_joined [OF False] file_lines_def)
qed

lemma pruned_file_lines:
  assumes "\<And>r. r \<in> set rs \<Longrightarrow> from_file parse r"
    and "\<And>r w. r \<in> set rs \<Longrightarrow> pruned_obj b64 q (record_objs rs) r = Some w \<Longrightarrow> reads_back parse w"
  shows "file_lines parse (pruned_file b64 q rs) =
    map (\<lambda>r. (pruned_line b64 q (record_objs rs) r, pruned_obj b64 q (record_objs rs) r)) rs"
  unfolding pruned_file_def using pruned_line_reads [OF assms(1) assms(2)]
  by (subst file_of_joined) (auto simp: o_def)

lemma turns_by_prompts:
  "map (prompt_line \<circ> snd) ls = map (prompt_line \<circ> snd) ms \<Longrightarrow> map pc_turn (records_from n ls) = map pc_turn (records_from n ms)"
proof (induction n ls arbitrary: ms rule: records_from.induct)
  case (2 n raw obj ls)
  then obtain raw' obj' ms' where ms: "ms = (raw', obj') # ms'" by (cases ms) auto
  from 2 show ?case unfolding ms by (simp add: Let_def)
qed simp

lemma count_by_prompts:
  "map (prompt_line \<circ> snd) ls = map (prompt_line \<circ> snd) ms \<Longrightarrow>
    length (filter (\<lambda>l. prompt_line (snd l)) ls) = length (filter (\<lambda>l. prompt_line (snd l)) ms)"
proof (induction ls arbitrary: ms)
  case (Cons l ls)
  then obtain m ms' where "ms = m # ms'" by (cases ms) auto
  with Cons show ?case by simp
qed simp

text \<open>
  C14. A prune keeps the numbering of the prompts: when no line holds an image without a text, the copy read
  back has as many turns as its original and its lines lie in the same turns, so an index a bubble carries
  means the same prompt to a rewind, a fork or a later prune of the copy.
\<close>

theorem prune_keeps_the_prompt_numbering:
  assumes rs: "readRecords (file_lines parse text) = (rs, n)"
    and images: "\<forall>v \<in> set (record_objs rs). ordinary_images b64 v"
    and json: "\<forall>r \<in> set rs. \<forall>w. pruned_obj b64 q (record_objs rs) r = Some w \<longrightarrow> reads_back parse w"
  shows "case readRecords (file_lines parse (pruned_file b64 q rs)) of (rs', n') \<Rightarrow> n' = n \<and> map pc_turn rs' = map pc_turn rs"
proof -
  let ?ls = "file_lines parse text" and ?ms = "file_lines parse (pruned_file b64 q rs)"
  have r: "rs = records_from 0 ?ls" "n = length (filter (\<lambda>l. prompt_line (snd l)) ?ls)"
    using rs by (simp_all add: readRecords_def)
  have ms: "?ms = map (\<lambda>r. (pruned_line b64 q (record_objs rs) r, pruned_obj b64 q (record_objs rs) r)) rs"
    using json by (intro pruned_file_lines) (auto simp: r(1) intro: records_from_file)
  have "prompt_line (pruned_obj b64 q (record_objs rs) r) = prompt_line (pc_obj r)" if "r \<in> set rs" for r
  proof (cases "pc_obj r")
    case None
    then show ?thesis by (simp add: pruned_obj_def)
  next
    case (Some v)
    then have "v \<in> set (record_objs rs)" using that by (auto simp: record_objs_def map_filter_def intro!: image_eqI)
    then show ?thesis by (intro pruned_prompt [OF Some]) (use images in blast)
  qed
  then have "map (prompt_line \<circ> snd) ?ms = map (prompt_line \<circ> snd) (map (\<lambda>r. (pc_raw r, pc_obj r)) rs)" by (simp add: ms)
  also have "\<dots> = map (prompt_line \<circ> snd) ?ls" by (simp add: r(1) records_lines del: map_map)
  finally have eq: "map (prompt_line \<circ> snd) ?ms = map (prompt_line \<circ> snd) ?ls" .
  show ?thesis using turns_by_prompts [OF eq] count_by_prompts [OF eq] by (simp add: readRecords_def r)
qed

end
