(* ===== verification/PrunePreview.thy ===== *)
theory PrunePreview
  imports PruneNumbering
begin

text \<open>The preview of a prune against the prune: the same savings, turn by turn.\<close>

subsection \<open>One block\<close>

definition of_category :: "prune_category \<Rightarrow> (wire \<times> prune_category) option \<Rightarrow> wire option" where
  "of_category c x = (case x of Some (nb, c') \<Rightarrow> if c' = c then Some nb else None | None \<Rightarrow> None)"

lemma saved_as_next:
  "saved_as c (pruneBlock b64 p b) = (case of_category c (next_block b64 p b) of
     Some nb \<Rightarrow> if is_object b then blockTokens b64 b - blockTokens b64 nb else 0 | None \<Rightarrow> 0)"
  by (auto simp: saved_as_def pruneBlock_def untouched_def of_category_def Let_def split: option.split)

lemma image_saved_as_next:
  "image_saved_as c (pruneBlock b64 p b) = (case of_category c (next_block b64 p b) of
     Some nb \<Rightarrow> if is_object b \<and> 0 < image_cost b64 b
       then min (blockTokens b64 b - blockTokens b64 nb) (image_cost b64 b - blockTokens b64 nb) else 0 | None \<Rightarrow> 0)"
  by (auto simp: image_saved_as_def pruneBlock_def untouched_def of_category_def Let_def split: option.split)

lemma next_outputs:
  "of_category Outputs_cut (next_block b64 p b) =
     (if po_inCut p then of_category Outputs_cut (next_block b64 (probe (po_names p) ex th m) b) else None)"
  by (auto simp: of_category_def next_block_def probe_def Let_def split: option.split)

lemma next_inputs:
  "of_category Inputs_cut (next_block b64 p b) =
     (if po_inCut p then of_category Inputs_cut (next_block b64 (probe (po_names p) ex th (po_mode p)) b) else None)"
  by (auto simp: of_category_def next_block_def probe_def Let_def split: option.split)

lemma next_thinking:
  "of_category Thinking_cut (next_block b64 p b) =
     (if po_thinking p then of_category Thinking_cut (next_block b64 (probe names (po_exempt p) True m) b) else None)"
  by (auto simp: of_category_def next_block_def probe_def Let_def split: option.split)

subsection \<open>One turn\<close>

text \<open>A figure of a turn that every block adds to, and nothing else changes.\<close>

definition tallies :: "(turn_savings \<Rightarrow> nat) \<Rightarrow> (utf16 \<Rightarrow> bytes) \<Rightarrow> (tool_names \<Rightarrow> bool \<Rightarrow> wire \<Rightarrow> nat) \<Rightarrow> bool" where
  "tallies f b64 d \<longleftrightarrow> (\<forall>names ex b t. f (add_block b64 names ex b t) = f t + d names ex b) \<and>
     (\<forall>t p. f (t\<lparr>ts_preview := p\<rparr>) = f t) \<and> f no_savings = 0"

definition record_tally :: "(tool_names \<Rightarrow> bool \<Rightarrow> wire \<Rightarrow> nat) \<Rightarrow> wire list \<Rightarrow> prune_record \<Rightarrow> nat" where
  "record_tally d objs r = (case pc_obj r of Some v \<Rightarrow>
     if pc_prunable r then sum_list (map (d (toolNamesById objs) (line_exempt objs v)) (blocks_of v)) else 0 | None \<Rightarrow> 0)"

lemma fold_blocks:
  "tallies f b64 d \<Longrightarrow> f (fold (add_block b64 names ex) bs t) = f t + sum_list (map (d names ex) bs)"
  by (induction bs arbitrary: t) (simp_all add: tallies_def)

lemma length_at_turn [simp]: "length (at_turn n f ts) = length ts"
  by (simp add: at_turn_def)

lemma nth_at_turn: "i < length ts \<Longrightarrow> at_turn n f ts ! i = (if i = n then f (ts ! i) else ts ! i)"
  by (simp add: at_turn_def)

lemma length_analyze [simp]: "length (analyze_record b64 objs r ts) = length ts"
  by (simp add: analyze_record_def Let_def split: option.split)

lemma analyze_tally:
  "tallies f b64 d \<Longrightarrow> i < length ts \<Longrightarrow>
    f (analyze_record b64 objs r ts ! i) = f (ts ! i) + (if pc_turn r = i then record_tally d objs r else 0)"
  by (auto simp: analyze_record_def record_tally_def Let_def nth_at_turn fold_blocks split: option.split)
     (auto simp: tallies_def)

lemma analyze_tallies:
  assumes "tallies f b64 d" "i < length ts"
  shows "f (fold (analyze_record b64 objs) rs ts ! i) =
    f (ts ! i) + sum_list (map (\<lambda>r. if pc_turn r = i then record_tally d objs r else 0) rs)"
  using assms(2) by (induction rs arbitrary: ts) (simp_all add: analyze_tally [OF assms(1)])

lemma length_analyze_all [simp]: "length (fold (analyze_record b64 objs) rs ts) = length ts"
  by (induction rs arbitrary: ts) simp_all

lemma prefix_tally:
  assumes "tallies f b64 d" "c \<le> n"
  shows "sum_list (map f (take c (fold (analyze_record b64 objs) rs (replicate n no_savings)))) =
    sum_list (map (\<lambda>r. if pc_turn r < c then record_tally d objs r else 0) rs)"
proof -
  let ?ts = "fold (analyze_record b64 objs) rs (replicate n no_savings)"
  have f: "f (?ts ! i) = sum_list (map (\<lambda>r. if pc_turn r = i then record_tally d objs r else 0) rs)" if "i < n" for i
    using analyze_tallies [OF assms(1), of i "replicate n no_savings"] that assms(1) by (simp add: tallies_def)
  have "map f (take c ?ts) = map (\<lambda>i. f (?ts ! i)) [0..<c]"
    using assms(2) by (intro nth_equalityI) simp_all
  also have "\<dots> = map (\<lambda>i. sum_list (map (\<lambda>r. if pc_turn r = i then record_tally d objs r else 0) rs)) [0..<c]"
    using f assms(2) by simp
  finally have "sum_list (map f (take c ?ts)) = (\<Sum>i<c. sum_list (map (\<lambda>r. if pc_turn r = i then record_tally d objs r else 0) rs))"
    by (simp add: sum_list_sum_nth atLeast0LessThan)
  also have "\<dots> = sum_list (map (\<lambda>r. if pc_turn r < c then record_tally d objs r else 0) rs)"
    by (induction rs) (simp_all add: sum.distrib)
  finally show ?thesis .
qed

lemma tally_outputs: "tallies ts_outputs b64 (\<lambda>names ex b. saved_as Outputs_cut (pruneBlock b64 (probe names ex False Truncate_mode) b))"
  by (simp add: tallies_def add_block_def Let_def no_savings_def)

lemma tally_outputs_image:
  "tallies ts_outputs_image b64 (\<lambda>names ex b. image_saved_as Outputs_cut (pruneBlock b64 (probe names ex False Truncate_mode) b))"
  by (simp add: tallies_def add_block_def Let_def no_savings_def)

lemma tally_thinking: "tallies ts_thinking b64 (\<lambda>names ex b. saved_as Thinking_cut (pruneBlock b64 (probe names ex True Truncate_mode) b))"
  by (simp add: tallies_def add_block_def Let_def no_savings_def)

definition ts_inputs :: "input_mode \<Rightarrow> turn_savings \<Rightarrow> nat" where
  "ts_inputs m = (case m of Truncate_mode \<Rightarrow> ts_inputs_truncated | Minimal_mode \<Rightarrow> ts_inputs_minimal)"

lemma tally_inputs: "tallies (ts_inputs m) b64 (\<lambda>names ex b. saved_as Inputs_cut (pruneBlock b64 (probe names ex False m) b))"
  by (cases m) (simp_all add: tallies_def ts_inputs_def add_block_def Let_def no_savings_def)

subsection \<open>The whole session\<close>

lemma record_blocks_list:
  "pc_obj r = Some v \<Longrightarrow> touchable q r \<Longrightarrow> record_blocks b64 q objs r = map (pruneBlock b64 (record_opts q objs r v)) (blocks_of v)"
  by (simp add: record_blocks_def)

lemma opts_fields [simp]:
  "po_inCut (record_opts q objs r v) \<longleftrightarrow> pc_turn r < pq_cut q" "po_thinking (record_opts q objs r v) = pq_thinking q"
  "po_exempt (record_opts q objs r v) = line_exempt objs v" "po_mode (record_opts q objs r v) = pq_mode q"
  by (simp_all add: record_opts_def)

text \<open>What the prune counts for a block, in terms of the preview's probes.\<close>

lemma opts_saved:
  fixes q objs r v b64 b
  defines "names \<equiv> toolNamesById objs" and "ex \<equiv> line_exempt objs v" and "p \<equiv> pruneBlock b64 (record_opts q objs r v) b"
  shows "saved_as Outputs_cut p = (if pc_turn r < pq_cut q then saved_as Outputs_cut (pruneBlock b64 (probe names ex False Truncate_mode) b) else 0)"
    and "image_saved_as Outputs_cut p = (if pc_turn r < pq_cut q then image_saved_as Outputs_cut (pruneBlock b64 (probe names ex False Truncate_mode) b) else 0)"
    and "saved_as Inputs_cut p = (if pc_turn r < pq_cut q then saved_as Inputs_cut (pruneBlock b64 (probe names ex False (pq_mode q)) b) else 0)"
    and "saved_as Thinking_cut p = (if pq_thinking q then saved_as Thinking_cut (pruneBlock b64 (probe names ex True Truncate_mode) b) else 0)"
  using next_outputs [of b64 "record_opts q objs r v" b ex False Truncate_mode] next_inputs [of b64 "record_opts q objs r v" b ex False]
    next_thinking [of b64 "record_opts q objs r v" b names Truncate_mode]
  by (simp_all add: saved_as_next image_saved_as_next p_def names_def ex_def)

lemma blocks_of_none: "as_list (content_of v) = None \<Longrightarrow> blocks_of v = []"
  by (simp add: blocks_of_def)

text \<open>What a record's blocks add up to, for a measure of a pruned block that one probe decides.\<close>

lemma record_sum:
  assumes "\<And>v b. pc_obj r = Some v \<Longrightarrow> g (pruneBlock b64 (record_opts q objs r v) b) =
      (if on then d (toolNamesById objs) (line_exempt objs v) b else 0)"
    and "on \<Longrightarrow> pc_turn r < pq_cut q \<or> pq_thinking q"
  shows "sum_list (map g (record_blocks b64 q objs r)) = (if on then record_tally d objs r else 0)"
proof (cases "pc_obj r")
  case None
  then show ?thesis by (simp add: record_blocks_def record_tally_def)
next
  case (Some v)
  show ?thesis
  proof (cases "touchable q r")
    case True
    then have "pc_prunable r" by (simp add: touchable_def)
    with True Some assms(1) [OF Some] show ?thesis by (simp add: record_blocks_list record_tally_def o_def)
  next
    case False
    with Some assms(2) show ?thesis by (auto simp: record_blocks_def record_tally_def touchable_def blocks_of_none)
  qed
qed

lemma turn_bound: "r \<in> set (records_from k ls) \<Longrightarrow> pc_turn r < max 1 (k + length (filter (\<lambda>l. prompt_line (snd l)) ls))"
proof (induction k ls rule: records_from.induct)
  case (2 k raw obj ls)
  then show ?case by (auto simp: Let_def split: if_splits)
qed simp

text \<open>
  C20. The preview is what the prune saves: for every cut within the session, the figures the preview gives
  for the turns before the cut add up to what the prune of those turns counts, for tool outputs, for their
  images, and for tool inputs in either mode; and its thinking figures over all turns are what thinking
  pruning counts, at any cut.
\<close>

theorem preview_is_what_the_prune_saves:
  assumes rs: "readRecords ls = (rs, n)" and cut: "pq_cut q \<le> n" "0 < n"
  shows "let ts = pa_turns (analyzeSessionForPrune b64 ls); before = take (pq_cut q) ts in
     raw_saved b64 q rs Outputs_cut = sum_list (map ts_outputs before)
     \<and> raw_image_saved b64 q rs Outputs_cut = sum_list (map ts_outputs_image before)
     \<and> raw_saved b64 q rs Inputs_cut = sum_list (map (ts_inputs (pq_mode q)) before)
     \<and> raw_saved b64 q rs Thinking_cut = (if pq_thinking q then sum_list (map ts_thinking ts) else 0)"
proof -
  let ?objs = "record_objs rs"
  have ts: "pa_turns (analyzeSessionForPrune b64 ls) = fold (analyze_record b64 ?objs) rs (replicate n no_savings)"
    using rs by (simp add: analyzeSessionForPrune_def)
  have lt: "pc_turn r < n" if "r \<in> set rs" for r
    using rs turn_bound [of r 0 ls] that cut(2) by (auto simp: readRecords_def)
  have "raw_saved b64 q rs Outputs_cut = sum_list (map (\<lambda>r. if pc_turn r < pq_cut q then record_tally
      (\<lambda>names ex b. saved_as Outputs_cut (pruneBlock b64 (probe names ex False Truncate_mode) b)) ?objs r else 0) rs)"
    unfolding raw_saved_def
    by (intro arg_cong [of _ _ sum_list] map_cong refl record_sum) (simp_all add: opts_saved)
  moreover have "raw_image_saved b64 q rs Outputs_cut = sum_list (map (\<lambda>r. if pc_turn r < pq_cut q then record_tally
      (\<lambda>names ex b. image_saved_as Outputs_cut (pruneBlock b64 (probe names ex False Truncate_mode) b)) ?objs r else 0) rs)"
    unfolding raw_image_saved_def
    by (intro arg_cong [of _ _ sum_list] map_cong refl record_sum) (simp_all add: opts_saved)
  moreover have "raw_saved b64 q rs Inputs_cut = sum_list (map (\<lambda>r. if pc_turn r < pq_cut q then record_tally
      (\<lambda>names ex b. saved_as Inputs_cut (pruneBlock b64 (probe names ex False (pq_mode q)) b)) ?objs r else 0) rs)"
    unfolding raw_saved_def
    by (intro arg_cong [of _ _ sum_list] map_cong refl record_sum) (simp_all add: opts_saved)
  moreover have "raw_saved b64 q rs Thinking_cut = sum_list (map (\<lambda>r. if pq_thinking q then record_tally
      (\<lambda>names ex b. saved_as Thinking_cut (pruneBlock b64 (probe names ex True Truncate_mode) b)) ?objs r else 0) rs)"
    unfolding raw_saved_def
    by (intro arg_cong [of _ _ sum_list] map_cong refl record_sum) (simp_all add: opts_saved)
  moreover have "sum_list (map (\<lambda>r. if pc_turn r < n then record_tally
      (\<lambda>names ex b. saved_as Thinking_cut (pruneBlock b64 (probe names ex True Truncate_mode) b)) ?objs r else 0) rs)
      = sum_list (map (record_tally (\<lambda>names ex b. saved_as Thinking_cut (pruneBlock b64 (probe names ex True Truncate_mode) b)) ?objs) rs)"
    using lt by (intro arg_cong [of _ _ sum_list] map_cong) auto
  ultimately show ?thesis using cut(1)
    by (simp add: ts Let_def prefix_tally [OF tally_outputs] prefix_tally [OF tally_outputs_image] prefix_tally [OF tally_inputs]
        prefix_tally [OF tally_thinking, of n n, simplified])
qed

end
