(* ===== verification/PruneStubs.thy ===== *)
theory PruneStubs
  imports PrunePreview
begin

text \<open>The texts of the stubs: a cut parts no surrogate pair, and a second prune measures the stub of the first.\<close>

subsection \<open>Surrogate pairs\<close>

text \<open>No surrogate stands alone.\<close>

fun paired :: "utf16 \<Rightarrow> bool" where
  "paired [] = True"
| "paired [c] = (\<not> high_surrogate c \<and> \<not> low_surrogate c)"
| "paired (c # d # cs) = (if high_surrogate c then low_surrogate d \<and> paired cs else \<not> low_surrogate c \<and> paired (d # cs))"

lemma low_not_high: "low_surrogate c \<Longrightarrow> \<not> high_surrogate c"
  by (simp add: low_surrogate_def high_surrogate_def)

lemma paired_append: "paired s \<Longrightarrow> paired t \<Longrightarrow> paired (s @ t)"
proof (induction s rule: paired.induct)
  case (2 c)
  then show ?case by (cases t) auto
qed (auto split: if_splits)

lemma paired_plain: "(\<And>c. c \<in> set s \<Longrightarrow> \<not> high_surrogate c \<and> \<not> low_surrogate c) \<Longrightarrow> paired s"
  by (induction s rule: paired.induct) auto

lemma paired_ascii: "set s \<subseteq> {..<128} \<Longrightarrow> paired s"
  by (rule paired_plain) (auto simp: high_surrogate_def low_surrogate_def dest: subsetD)

lemma paired_take: "paired v \<Longrightarrow> 0 < n \<Longrightarrow> n \<le> length v \<Longrightarrow> \<not> high_surrogate (v ! (n - 1)) \<Longrightarrow> paired (take n v)"
proof (induction v arbitrary: n rule: paired.induct)
  case (3 c d cs)
  show ?case
  proof (cases "high_surrogate c")
    case False
    obtain m where m: "n = Suc m" using 3(4) by (cases n) auto
    show ?thesis
    proof (cases m)
      case 0
      with m False 3(3) show ?thesis by simp
    next
      case (Suc k)
      have "paired (take m (d # cs))" by (rule 3(2)) (use 3(3-) False m Suc in auto)
      with False 3(3) m Suc show ?thesis by simp
    qed
  next
    case True
    then have n: "n \<noteq> 1" using 3(6) by auto
    then obtain k where k: "n = Suc (Suc k)" using 3(4) by (metis One_nat_def Suc_pred not_gr0)
    show ?thesis
    proof (cases k)
      case 0
      with k True 3(3) show ?thesis by simp
    next
      case (Suc j)
      have "paired (take k cs)" by (rule 3(1)) (use 3(3-) True k Suc in auto)
      with True 3(3) k show ?thesis by simp
    qed
  qed
qed (auto split: if_splits)

lemma paired_at_high: "paired v \<Longrightarrow> Suc i < length v \<Longrightarrow> high_surrogate (v ! i) \<Longrightarrow> low_surrogate (v ! Suc i)"
proof (induction v arbitrary: i rule: paired.induct)
  case (3 c d cs)
  show ?case
  proof (cases i)
    case 0
    with 3 show ?thesis by (auto split: if_splits)
  next
    case (Suc j)
    show ?thesis
    proof (cases "high_surrogate c")
      case True
      then have "j \<noteq> 0" using 3(3,5) Suc by (cases j) (auto dest: low_not_high)
      then obtain k where "j = Suc k" by (cases j) auto
      with True 3 Suc show ?thesis by auto
    next
      case False
      with 3 Suc show ?thesis by auto
    qed
  qed
qed auto

lemma paired_before_high: "paired v \<Longrightarrow> Suc i < length v \<Longrightarrow> high_surrogate (v ! Suc i) \<Longrightarrow> \<not> high_surrogate (v ! i)"
  using paired_at_high low_not_high by blast

lemma paired_slice: "paired v \<Longrightarrow> 1 < n \<Longrightarrow> paired (sliceCodePoints v n)"
proof -
  assume v: "paired v" and n: "1 < n"
  obtain i where i: "n = Suc (Suc i)" using n by (auto simp: less_iff_Suc_add)
  show ?thesis
  proof (cases "length v \<le> n")
    case False
    then have "high_surrogate (v ! (n - 1)) \<Longrightarrow> \<not> high_surrogate (v ! i)" using paired_before_high [OF v, of i] i by simp
    then show ?thesis using False v i by (auto simp: sliceCodePoints_def intro!: paired_take)
  qed (simp add: sliceCodePoints_def v)
qed

lemma ascii_units: "list_all (\<lambda>c. of_char c < (128::nat)) s \<Longrightarrow> set (units s) \<subseteq> {..<128}"
  by (auto simp: units_def list_all_iff)

lemma ascii_decimal: "set (decimal n) \<subseteq> {..<128}"
  using decimal_digits [of n] by auto

lemma ascii_size: "set (pruned_mark (humanBytes n)) \<subseteq> {..<128}"
  using ascii_decimal by (auto simp: pruned_mark_def humanBytes_def one_decimal_def Let_def units_def dest: subsetD split: if_splits)

lemma paired_squeeze: "paired t \<Longrightarrow> paired (squeezeString m t)"
proof (cases m)
  case Truncate_mode
  assume t: "paired t"
  have "paired (ELLIPSIS @ units '' [+'' @ decimal k @ units '' chars pruned]'')" for k
  proof (rule paired_append)
    show "paired ELLIPSIS" by (simp add: ELLIPSIS_def high_surrogate_def low_surrogate_def)
    show "paired (units '' [+'' @ decimal k @ units '' chars pruned]'')"
      by (rule paired_ascii) (use ascii_decimal [of k] in \<open>auto simp: units_def\<close>)
  qed
  moreover have "paired (sliceCodePoints t PRUNE_INPUT_MAX)" by (rule paired_slice [OF t]) (simp add: PRUNE_INPUT_MAX_def)
  ultimately show ?thesis using t Truncate_mode by (simp add: squeezeString_def Let_def paired_append)
next
  case Minimal_mode
  moreover assume "paired t"
  ultimately show ?thesis by (simp add: squeezeString_def paired_ascii ascii_size)
qed

fun texts_paired :: "wire \<Rightarrow> bool" where
  "texts_paired (WText t) = paired t"
| "texts_paired (WArr xs) = list_all texts_paired xs"
| "texts_paired (WObj ms) = list_all (\<lambda>(k, v). texts_paired v) ms"
| "texts_paired v = True"

text \<open>
  Squeezing a tool's input breaks no character: when every string value of the input pairs its
  surrogates, so does every string value of the squeezed input, in both modes and at any depth, although
  lengths count UTF-16 units.
\<close>

theorem squeezing_breaks_no_character:
  assumes "texts_paired v"
  shows "texts_paired (squeezeInput m key v)"
  using assms
proof (induction m key v rule: squeezeInput.induct)
  case (1 m key t)
  then show ?case by (auto simp: paired_squeeze split: option.split)
qed (auto simp: list_all_iff split: if_splits)

lemma squeezing_breaks_no_character_witness:
  "texts_paired (squeezeInput Truncate_mode None (WText (replicate 499 97 @ [55357, 56832, 98])))"
proof (rule squeezing_breaks_no_character)
  have "paired (replicate 499 97 @ [55357, 56832, 98])"
    by (rule paired_append) (auto simp: high_surrogate_def low_surrogate_def intro!: paired_plain)
  then show "texts_paired (WText (replicate 499 97 @ [55357, 56832, 98]))" by simp
qed

subsection \<open>The stub of a stub\<close>

lemma code_points_ascii: "set t \<subseteq> {..<128} \<Longrightarrow> code_points t = map (\<lambda>c. [c]) t"
  by (induction t rule: code_points.induct) auto

lemma byteLength_ascii: "set t \<subseteq> {..<128} \<Longrightarrow> byteLength t = length t"
  by (simp add: byteLength_def code_points_ascii o_def)
     (induction t, auto)

lemma byteLength_le: "byteLength t \<le> 3 * length t"
  by (induction t rule: code_points.induct) (auto simp: byteLength_def)

lemma decimal_length: "n < 10 ^ Suc k \<Longrightarrow> length (decimal n) \<le> Suc k"
proof (induction k arbitrary: n)
  case 0
  then show ?case by (simp add: decimal.simps [of n])
next
  case (Suc k)
  then have "length (decimal (n div 10)) \<le> Suc k" by (intro Suc.IH) auto
  then show ?case by (simp add: decimal.simps [of n])
qed

lemma kilobyte_length:
  assumes "1024 \<le> n" "n < 1048576"
  shows "length (pruned_mark (humanBytes n)) \<in> {16..19}"
proof -
  let ?t = "(20 * n + 1024) div 2048"
  have t: "?t div 10 < 10 ^ Suc 3" using assms by (simp add: div_less_iff_less_mult)
  have "length (decimal (?t mod 10)) = 1" by (simp add: decimal.simps [of "?t mod 10"])
  moreover have "1 \<le> length (decimal (?t div 10))" by (cases "decimal (?t div 10)") auto
  ultimately show ?thesis using decimal_length [OF t] assms
    by (simp add: pruned_mark_def humanBytes_def one_decimal_def Let_def)
qed

lemma two_digits: "10 \<le> k \<Longrightarrow> k < 100 \<Longrightarrow> length (decimal k) = 2"
  by (simp add: decimal.simps [of k] decimal.simps [of "k div 10"])

text \<open>A tool's answer with a text content, of a tool that is neither exempt nor a reader or writer of files.\<close>

definition plain_answer :: "tool_names \<Rightarrow> utf16 \<Rightarrow> wire \<Rightarrow> bool" where
  "plain_answer names c b \<longleftrightarrow> says (field ''type'' b) ''tool_result'' \<and> field ''content'' b = Some (WText c) \<and>
     \<not> isPruneExemptTool (tool_name_of names (field ''tool_use_id'' b)) \<and>
     (case as_text (tool_name_of names (field ''tool_use_id'' b)) of Some n \<Rightarrow> n \<notin> set SEEDING_TOOLS | None \<Rightarrow> True)"

lemma plain_answer_stub:
  fixes b64
  assumes b: "plain_answer (po_names p) c b" and "po_inCut p"
    and fewer: "ceil_div (10 * length (pruned_mark (humanBytes (byteLength c)))) 25 < ceil_div (10 * length c) 25"
  shows "plain_answer (po_names p) (pruned_mark (humanBytes (byteLength c))) (pb_block (pruneBlock b64 p b))"
proof -
  let ?x = "pruned_mark (humanBytes (byteLength c))" and ?nb = "set_field ''content'' (WText (pruned_mark (humanBytes (byteLength c)))) b"
  have ms: "\<exists>ms. b = WObj ms" using b field_obj [of "''content''" b] by (auto simp: plain_answer_def)
  have "stubToolResultContent b64 (field ''content'' b) (tool_name_of (po_names p) (field ''tool_use_id'' b)) = WText ?x"
    using b by (auto simp: plain_answer_def stubToolResultContent_def stub_parts_def plain_content_def Let_def split: option.splits)
  then have nxt: "next_block b64 p b = Some (?nb, Outputs_cut)"
    using b assms(2) by (auto simp: next_block_def plain_answer_def Let_def dest: says_unique)
  have nb: "plain_answer (po_names p) ?x ?nb" using b ms by (simp add: plain_answer_def wire_simps)
  have tokens: "blockTokens b64 a = ceil_div (10 * length t) 25" if "plain_answer (po_names p) t a" for a t
    using that by (cases a) (auto simp: blockTokens_def plain_answer_def result_tokens_def plain_content_def approxTokens_def
        TOOL_RESULT_CHARS_def Let_def dest: says_unique)
  have "pb_block (pruneBlock b64 p b) = ?nb" using nxt fewer tokens [OF b] tokens [OF nb] ms
    by (auto simp: pruneBlock_def Let_def)
  with nb show ?thesis by simp
qed

lemma ceil_mono: "a \<le> b \<Longrightarrow> ceil_div a d \<le> ceil_div b d"
  by (simp add: ceil_div_def div_le_mono)

text \<open>
  C33. A second prune forgets what the first removed.  Take the answer of a tool whose content is one
  text, from one kilobyte to one megabyte long, the tool being neither exempt from pruning nor one of
  \<open>Read\<close> and \<open>Write\<close>: a prune whose cut takes it in replaces it by a stub that names its size, and a
  prune of the copy, whose cut takes in the same turn, replaces that stub by one that names the size
  of the stub, some sixteen bytes.
\<close>

theorem second_prune_forgets_the_size:
  assumes b: "plain_answer (po_names p) c b" and "po_inCut p" and size: "1024 \<le> byteLength c" "byteLength c < 1048576"
  shows "let b1 = pb_block (pruneBlock b64 p b); b2 = pb_block (pruneBlock b64 p b1) in
     field ''content'' b1 = Some (WText (pruned_mark (humanBytes (byteLength c)))) \<and>
     (\<exists>k \<in> {16..19}. field ''content'' b2 = Some (WText (pruned_mark (decimal k @ units '' B''))))"
proof -
  let ?x = "pruned_mark (humanBytes (byteLength c))"
  let ?k = "length ?x" and ?b1 = "pb_block (pruneBlock b64 p b)"
  have k: "16 \<le> ?k" "?k \<le> 19" using kilobyte_length [OF size] by simp_all
  have "10 * 341 \<le> 10 * length c" using size byteLength_le [of c] by linarith
  from ceil_mono [OF this, of 25] have c: "137 \<le> ceil_div (10 * length c) 25" by (simp add: ceil_div_def)
  have "ceil_div (10 * ?k) 25 \<le> ceil_div (10 * 19) 25" using k by (intro ceil_mono) simp
  also have "\<dots> < 137" by (simp add: ceil_div_def)
  finally have fewer: "ceil_div (10 * ?k) 25 < ceil_div (10 * length c) 25" using c by simp
  from plain_answer_stub [OF b assms(2) fewer] have b1: "plain_answer (po_names p) ?x ?b1" .
  have bytes: "byteLength ?x = ?k" by (rule byteLength_ascii [OF ascii_size])
  have size2: "humanBytes ?k = decimal ?k @ units '' B''" using k by (subst humanBytes_def) simp
  have "length (pruned_mark (humanBytes (byteLength ?x))) = 14" unfolding bytes size2 using k by (simp add: pruned_mark_def two_digits)
  moreover have "ceil_div (10 * 16) 25 \<le> ceil_div (10 * ?k) 25" using k by (intro ceil_mono) simp
  ultimately have "ceil_div (10 * length (pruned_mark (humanBytes (byteLength ?x)))) 25 < ceil_div (10 * ?k) 25"
    by (simp add: ceil_div_def)
  from plain_answer_stub [OF b1 assms(2) this, of b64] have "plain_answer (po_names p) (pruned_mark (humanBytes ?k)) (pb_block (pruneBlock b64 p ?b1))"
    by (simp only: bytes)
  then have "field ''content'' (pb_block (pruneBlock b64 p ?b1)) = Some (WText (pruned_mark (decimal ?k @ units '' B'')))"
    unfolding size2 plain_answer_def by blast
  moreover have "field ''content'' ?b1 = Some (WText ?x)" using b1 unfolding plain_answer_def by blast
  ultimately show ?thesis using k unfolding Let_def by (intro conjI bexI [of _ ?k]) simp_all
qed

definition long_text :: utf16 where
  "long_text = replicate 20480 97"

definition long_answer :: wire where
  "long_answer = WObj [(units ''type'', WText (units ''tool_result'')), (units ''tool_use_id'', WText (units ''t1'')),
     (units ''content'', WText long_text)]"

lemma second_prune_forgets_the_size_witness:
  "field ''content'' (pb_block (pruneBlock (\<lambda>d. []) (probe [] False False Truncate_mode) long_answer)) =
     Some (WText (pruned_mark (units ''20.0 KB'')))"
proof -
  let ?p = "probe [] False False Truncate_mode"
  have "set long_text \<subseteq> {..<128}" "length long_text = 20480" unfolding long_text_def
    by (rule subsetI, drule in_set_replicate [THEN iffD1], simp) (rule length_replicate)
  then have n: "byteLength long_text = 20480" by (simp add: byteLength_ascii)
  have "plain_answer (po_names ?p) long_text long_answer"
    by (simp add: plain_answer_def long_answer_def probe_def has_field_def tool_name_of_def)
  from second_prune_forgets_the_size [OF this, of "\<lambda>d. []"] n
  have "field ''content'' (pb_block (pruneBlock (\<lambda>d. []) ?p long_answer)) = Some (WText (pruned_mark (humanBytes 20480)))"
    by (simp add: probe_def Let_def)
  moreover have "humanBytes 20480 = units ''20.0 KB''"
    by (simp add: humanBytes_def one_decimal_def Let_def decimal.simps units_def)
  ultimately show ?thesis by simp
qed

end
