(* ===== verification/SessionSplit.thy ===== *)
theory SessionSplit
  imports PruneNumbering
begin

text \<open>
  \<open>src/sessionEdit.ts\<close>: the split of a session file at a user prompt, and the rewind and the fork made of it.
  \<open>earlier\<close> are the earlier wordings of a yielded answer, \<open>parse\<close> is \<open>JSON.parse\<close>.
\<close>

subsection \<open>The text of a prompt\<close>

definition COMMAND_TAGS :: "string list" where
  "COMMAND_TAGS = [''command-name'', ''command-message'', ''command-args'']"

text \<open>A command tag that opens here and closes: its name, its body and what follows it.\<close>

definition tag_as :: "utf16 \<Rightarrow> string \<Rightarrow> (string \<times> utf16 \<times> utf16) option" where
  "tag_as s t =
     (let opening = units (''<'' @ t @ ''>''); closing = units (''</'' @ t @ ''>''); r = drop (length opening) s in
      if text_starts s opening
      then map_option (\<lambda>i. (t, take i r, drop (i + length closing) r)) (text_index closing r)
      else None)"

definition tag_here :: "utf16 \<Rightarrow> (string \<times> utf16 \<times> utf16) option" where
  "tag_here s = (case List.map_filter (tag_as s) COMMAND_TAGS of [] \<Rightarrow> None | m # ms \<Rightarrow> Some m)"

lemma tag_as_shorter: "tag_as (c # cs) t = Some (n, body, rest) \<Longrightarrow> length rest \<le> length cs"
  by (auto simp: tag_as_def Let_def units_def split: if_splits)

lemma tag_here_shorter: "tag_here (c # cs) = Some (n, body, rest) \<Longrightarrow> length rest \<le> length cs"
proof -
  assume "tag_here (c # cs) = Some (n, body, rest)"
  then have "(n, body, rest) \<in> set (List.map_filter (tag_as (c # cs)) COMMAND_TAGS)"
    by (auto simp: tag_here_def split: list.splits)
  then show ?thesis by (auto simp: map_filter_def dest: tag_as_shorter)
qed

text \<open>The global replacement: the tags matched, in order, and the text left.\<close>

function strip_tags :: "utf16 \<Rightarrow> (string \<times> utf16) list \<times> utf16" where
  "strip_tags [] = ([], [])"
| "strip_tags (c # cs) =
     (case tag_here (c # cs) of
        Some (t, body, rest) \<Rightarrow> (case strip_tags rest of (ms, r) \<Rightarrow> ((t, body) # ms, r))
      | None \<Rightarrow> (case strip_tags cs of (ms, r) \<Rightarrow> (ms, c # r)))"
  by pat_completeness auto
termination by (relation "measure length") (auto dest: tag_here_shorter)

definition commandForm :: "utf16 \<Rightarrow> utf16 option" where
  "commandForm t =
     (case strip_tags t of (ms, rest) \<Rightarrow>
        let tag = (\<lambda>n. text_trim (case map_of (rev ms) n of Some b \<Rightarrow> b | None \<Rightarrow> []));
            name = tag ''command-name''; args = tag ''command-args''
        in if name = [] \<or> text_trim rest \<noteq> [] then None
           else Some (name @ (if args = [] then [] else 32 # args)))"

fun unix_lines :: "utf16 \<Rightarrow> utf16" where
  "unix_lines [] = []"
| "unix_lines [c] = [c]"
| "unix_lines (c # d # cs) = (if c = 13 \<and> d = 10 then 10 # unix_lines cs else c # unix_lines (d # cs))"

definition normalizePromptText :: "utf16 \<Rightarrow> utf16" where
  "normalizePromptText t = (let s = text_trim (unix_lines t) in case commandForm s of Some f \<Rightarrow> f | None \<Rightarrow> s)"

definition replayedPromptText :: "utf16 list \<Rightarrow> wire \<Rightarrow> utf16" where
  "replayedPromptText earlier v = (case replayed_echo earlier v of Some t \<Rightarrow> t | None \<Rightarrow> [])"

definition prompt_part :: "wire \<Rightarrow> utf16 list" where
  "prompt_part b = (case block_text b of None \<Rightarrow> []
     | Some t \<Rightarrow> if parseAuthorMarker (Some t) \<noteq> None then []
         else (let left = fst (extractAttachedMarkers t) in if left = [] then [] else [left]))"

definition extractUserPromptText :: "wire \<Rightarrow> utf16" where
  "extractUserPromptText v =
     (case (if is_queued_command v then queued_prompt v else content_of v) of
        Some (WText t) \<Rightarrow> t
      | Some (WArr bs) \<Rightarrow> text_join [NL] (concat (map prompt_part bs))
      | _ \<Rightarrow> [])"

subsection \<open>The split\<close>

datatype edit_error =
    Bad_index
  | Session_missing
  | Prompt_out_of_range nat
  | Prompt_mismatch utf16
  | Nothing_to_fork
  | Mode_unknown utf16

record session_split =
  sp_prefix :: "line list"
  sp_dropped :: "line list"
  sp_text :: utf16
  sp_leaf :: "utf16 option"

type_synonym split_state = "line list \<times> line list \<times> wire option \<times> nat"

text \<open>The walk: kept lines, dropped lines, the prompt found, and the prompts passed.\<close>

fun split_walk :: "nat \<Rightarrow> line list \<Rightarrow> split_state \<Rightarrow> split_state" where
  "split_walk k [] st = st"
| "split_walk k (l # ls) (pre, dropped, target, n) =
     split_walk k ls
       (if target = None \<and> prompt_line (snd l) then
          (if n = k then (pre, dropped @ [l], snd l, n) else (pre @ [l], dropped, target, Suc n))
        else if target \<noteq> None then (pre, dropped @ [l], target, n)
        else (pre @ [l], dropped, target, n))"

definition line_objs :: "line list \<Rightarrow> wire list" where
  "line_objs ls = List.map_filter snd ls"

definition ends_in_caveat :: "line list \<Rightarrow> bool" where
  "ends_in_caveat pre \<longleftrightarrow> pre \<noteq> [] \<and> (case snd (last pre) of Some v \<Rightarrow> isLocalCommandCaveatLine v | None \<Rightarrow> False)"

definition splitAtUserMessage :: "utf16 list \<Rightarrow> (utf16 \<Rightarrow> wire option) \<Rightarrow> utf16 \<Rightarrow> nat \<Rightarrow> utf16 \<Rightarrow> edit_error + session_split" where
  "splitAtUserMessage earlier parse text k expected =
     (case split_walk k (file_lines parse text) ([], [], None, 0) of
        (pre, dropped, None, n) \<Rightarrow> Inl (Prompt_out_of_range n)
      | (pre, dropped, Some target, n) \<Rightarrow>
          let found = replayedPromptText earlier target in
          if normalizePromptText found \<noteq> normalizePromptText expected then Inl (Prompt_mismatch found)
          else
            (let kept = (if ends_in_caveat pre then butlast pre else pre);
                 gone = (if ends_in_caveat pre then last pre # dropped else dropped);
                 prompt = extractUserPromptText target
             in Inr \<lparr>sp_prefix = kept, sp_dropped = gone,
                  sp_text = (case commandForm prompt of Some f \<Rightarrow> f | None \<Rightarrow> prompt), sp_leaf = last_uuid (line_objs kept)\<rparr>))"

definition completeLinesOf :: "utf16 \<Rightarrow> utf16" where
  "completeLinesOf t = rev (dropWhile (\<lambda>c. c \<noteq> NL) (rev t))"

definition joinLines :: "utf16 list \<Rightarrow> utf16" where
  "joinLines ls = (if ls = [] then [] else text_join [NL] ls @ [NL])"

subsection \<open>Rewind and fork\<close>

definition readAndSplit :: "utf16 list \<Rightarrow> (utf16 \<Rightarrow> wire option) \<Rightarrow> utf16 option \<Rightarrow> nat \<Rightarrow> utf16 \<Rightarrow> edit_error + session_split" where
  "readAndSplit earlier parse file k expected =
     (case file of None \<Rightarrow> Inl Session_missing | Some text \<Rightarrow> splitAtUserMessage earlier parse text k expected)"

definition verifyUserPrompt :: "utf16 list \<Rightarrow> (utf16 \<Rightarrow> wire option) \<Rightarrow> utf16 option \<Rightarrow> nat \<Rightarrow> utf16 \<Rightarrow> edit_error option" where
  "verifyUserPrompt earlier parse file k expected =
     (case readAndSplit earlier parse file k expected of Inl e \<Rightarrow> Some e | Inr s \<Rightarrow> None)"

record truncated =
  tr_file :: utf16
  tr_text :: utf16
  tr_dropped :: nat
  tr_resumable :: bool
  tr_leaf :: "utf16 option"
  tr_uuids :: "utf16 list"

definition resumable_prefix :: "line list \<Rightarrow> bool" where
  "resumable_prefix ls = list_ex isResumableLine (line_objs ls)"

text \<open>An unknown mode throws after the file is rewritten.\<close>

definition truncateSessionAtUserMessage :: "utf16 list \<Rightarrow> (utf16 \<Rightarrow> wire option) \<Rightarrow> utf16 option \<Rightarrow> utf16 \<Rightarrow> int \<Rightarrow> utf16 \<Rightarrow> string
    \<Rightarrow> edit_error + truncated" where
  "truncateSessionAtUserMessage earlier parse file sid k expected mode =
     (if k < 0 then Inl Bad_index
      else (case readAndSplit earlier parse file (nat k) expected of
          Inl e \<Rightarrow> Inl e
        | Inr s \<Rightarrow>
            let cut_file = joinLines (map fst (sp_prefix s)) in
            (case writeSessionMetadata sid (sp_leaf s) mode cut_file of
               None \<Rightarrow> Inl (Mode_unknown cut_file)
             | Some whole \<Rightarrow> Inr \<lparr>tr_file = whole, tr_text = sp_text s, tr_dropped = length (sp_dropped s),
                 tr_resumable = resumable_prefix (sp_prefix s), tr_leaf = sp_leaf s,
                 tr_uuids = List.map_filter (\<lambda>v. as_text (field ''uuid'' v)) (line_objs (sp_prefix s))\<rparr>)))"

record forked =
  fk_file :: utf16
  fk_text :: utf16
  fk_leaf :: "utf16 option"

definition fork_line :: "utf16 \<Rightarrow> line \<Rightarrow> utf16" where
  "fork_line sid l = (case snd l of None \<Rightarrow> fst l
     | Some v \<Rightarrow> if as_text (field ''sessionId'' v) = None then fst l else wire_json (with_session sid v))"

definition fork_file :: "utf16 \<Rightarrow> session_split \<Rightarrow> utf16" where
  "fork_file sid s = joinLines (map (fork_line sid) (sp_prefix s))"

definition forkSessionAtUserMessage :: "utf16 list \<Rightarrow> (utf16 \<Rightarrow> wire option) \<Rightarrow> utf16 \<Rightarrow> utf16 \<Rightarrow> int \<Rightarrow> utf16 \<Rightarrow> string
    \<Rightarrow> edit_error + forked" where
  "forkSessionAtUserMessage earlier parse snapshot sid k expected mode =
     (if k < 0 then Inl Bad_index
      else (case splitAtUserMessage earlier parse snapshot (nat k) expected of
          Inl e \<Rightarrow> Inl e
        | Inr s \<Rightarrow>
            if \<not> resumable_prefix (sp_prefix s) then Inl Nothing_to_fork
            else
              (case writeSessionMetadata sid (sp_leaf s) mode (fork_file sid s) of
                 None \<Rightarrow> Inl (Mode_unknown (fork_file sid s))
               | Some whole \<Rightarrow> Inr \<lparr>fk_file = whole, fk_text = sp_text s, fk_leaf = sp_leaf s\<rparr>)))"

end
