(* ===== verification/SplitFacts.thy ===== *)
theory SplitFacts
  imports SessionSplit
begin

text \<open>A rewind and a fork keep exactly the prompts before the one they are made at.\<close>

subsection \<open>The walk\<close>

definition prompts_in :: "line list \<Rightarrow> nat" where
  "prompts_in ls = length (filter (\<lambda>l. prompt_line (snd l)) ls)"

lemma prompts_in_simps [simp]:
  "prompts_in [] = 0" "prompts_in (l # ls) = (if prompt_line (snd l) then Suc (prompts_in ls) else prompts_in ls)"
  "prompts_in (ls @ ms) = prompts_in ls + prompts_in ms"
  by (simp_all add: prompts_in_def)

lemma walk_found: "split_walk k ls (pre, dropped, Some v, n) = (pre, dropped @ ls, Some v, n)"
  by (induction ls arbitrary: dropped) simp_all

lemma walk_search:
  assumes "split_walk k ls (pre, [], None, prompts_in pre) = (pre', dropped, target, n)" "prompts_in pre \<le> k"
  shows "pre' @ dropped = pre @ ls \<and> prompts_in pre' = n \<and> (target = None \<longrightarrow> dropped = []) \<and>
    (\<forall>v. target = Some v \<longrightarrow> n = k \<and> dropped \<noteq> [] \<and> snd (hd dropped) = Some v \<and> prompt_line (Some v))"
  using assms
proof (induction ls arbitrary: pre)
  case Nil
  then show ?case by auto
next
  case (Cons l ls)
  show ?case
  proof (cases "prompt_line (snd l)")
    case False
    then show ?thesis using Cons.IH [of "pre @ [l]"] Cons.prems by simp
  next
    case True
    then obtain v where v: "snd l = Some v" by (auto simp: prompt_line_def split: option.splits)
    show ?thesis
    proof (cases "prompts_in pre = k")
      case eq: True
      then show ?thesis using Cons.prems True v by (auto simp: walk_found)
    next
      case False
      then show ?thesis using Cons.IH [of "pre @ [l]"] Cons.prems True by simp
    qed
  qed
qed

lemma caveat_no_prompt: "isLocalCommandCaveatLine v \<Longrightarrow> \<not> isPureUserPromptLine v"
  by (simp add: isPureUserPromptLine_def isLocalCommandCaveatLine_def Let_def)

lemma caveat_last:
  assumes "ends_in_caveat pre"
  shows "butlast pre @ [last pre] = pre" "\<not> prompt_line (snd (last pre))"
  using assms caveat_no_prompt by (auto simp: ends_in_caveat_def prompt_line_def split: option.splits)

lemma joinLines_read:
  assumes "\<And>l. l \<in> set ls \<Longrightarrow> NL \<notin> set l \<and> l \<noteq> []"
  shows "file_lines parse (joinLines ls) = map (parsed_line parse) ls"
  using file_of_joined [OF assms, of ls parse] by (cases "ls = []") (simp_all add: joinLines_def joined_lines_def file_lines_def)

lemma raw_lines_read:
  assumes "set ls \<subseteq> set (file_lines parse text)"
  shows "file_lines parse (joinLines (map fst ls)) = ls"
proof -
  have ok: "fst l \<noteq> [] \<and> NL \<notin> set (fst l) \<and> parsed_line parse (fst l) = l" if "l \<in> set ls" for l
    using that assms file_line_ok by blast
  then have "map (parsed_line parse) (map fst ls) = ls" by (simp add: map_idI)
  with ok show ?thesis by (subst joinLines_read) auto
qed

subsection \<open>Rewind\<close>

lemma rewind_split:
  assumes "splitAtUserMessage earlier parse text k expected = Inr s"
  shows "sp_prefix s @ sp_dropped s = file_lines parse text" "prompts_in (sp_prefix s) = k"
    "\<exists>l v. List.find (\<lambda>l. prompt_line (snd l)) (sp_dropped s) = Some l \<and> snd l = Some v
        \<and> normalizePromptText (replayedPromptText earlier v) = normalizePromptText expected"
proof -
  obtain pre dropped target n where w: "split_walk k (file_lines parse text) ([], [], None, 0) = (pre, dropped, target, n)"
    by (cases "split_walk k (file_lines parse text) ([], [], None, 0)")
  with assms obtain v where t: "target = Some v" by (cases target) (auto simp: splitAtUserMessage_def)
  from walk_search [of k "file_lines parse text" "[]"] w t
  have l: "pre @ dropped = file_lines parse text" "prompts_in pre = k" "dropped \<noteq> []" "snd (hd dropped) = Some v" "prompt_line (Some v)"
    by auto
  have s: "sp_prefix s = (if ends_in_caveat pre then butlast pre else pre)"
    "sp_dropped s = (if ends_in_caveat pre then last pre # dropped else dropped)"
    "normalizePromptText (replayedPromptText earlier v) = normalizePromptText expected"
    using assms by (auto simp: splitAtUserMessage_def w t Let_def split: if_splits)
  have all: "sp_prefix s @ sp_dropped s = file_lines parse text"
    using l(1) caveat_last [of pre] s by (metis append.assoc append_Cons append_Nil)
  have k: "prompts_in (sp_prefix s) = k"
  proof (cases "ends_in_caveat pre")
    case True
    have "prompts_in pre = prompts_in (butlast pre @ [last pre])" using caveat_last(1) [OF True] by simp
    also have "\<dots> = prompts_in (butlast pre)" using caveat_last(2) [OF True] by (simp only: prompts_in_simps) simp
    finally show ?thesis using l(2) s(1) True by simp
  qed (use l(2) s(1) in simp)
  have "List.find (\<lambda>l. prompt_line (snd l)) dropped = Some (hd dropped)" using l(3-5) by (cases dropped) auto
  then have "List.find (\<lambda>l. prompt_line (snd l)) (sp_dropped s) = Some (hd dropped)"
    using caveat_last(2) [of pre] s(2) by simp
  then show "sp_prefix s @ sp_dropped s = file_lines parse text" "prompts_in (sp_prefix s) = k"
    "\<exists>l v. List.find (\<lambda>l. prompt_line (snd l)) (sp_dropped s) = Some l \<and> snd l = Some v
        \<and> normalizePromptText (replayedPromptText earlier v) = normalizePromptText expected"
    using all k l(4) s(3) by blast+
qed

text \<open>
  C21. A rewind to the \<open>k\<close>-th prompt splits the file there and nowhere else: kept and dropped lines are the
  lines of the file in order, the kept ones hold exactly the \<open>k\<close> earlier prompts and read back from the
  rewritten file as they were, and the first prompt dropped is one whose bubble shows the text the caller
  clicked.
\<close>

theorem rewind_keeps_the_earlier_prompts:
  assumes "splitAtUserMessage earlier parse text k expected = Inr s"
  shows "sp_prefix s @ sp_dropped s = file_lines parse text
    \<and> prompts_in (sp_prefix s) = k
    \<and> file_lines parse (joinLines (map fst (sp_prefix s))) = sp_prefix s
    \<and> (\<exists>l v. List.find (\<lambda>l. prompt_line (snd l)) (sp_dropped s) = Some l \<and> snd l = Some v
        \<and> normalizePromptText (replayedPromptText earlier v) = normalizePromptText expected)"
proof -
  have "set (sp_prefix s) \<subseteq> set (file_lines parse text)" unfolding rewind_split(1) [OF assms, symmetric] by simp
  from raw_lines_read [OF this] rewind_split [OF assms] show ?thesis by blast
qed

text \<open>A fork's copy holds them too, each line with its members but the session id.\<close>

lemma fork_keeps_the_earlier_prompts:
  assumes "splitAtUserMessage earlier parse text k expected = Inr s"
    and json: "\<And>l v. l \<in> set (sp_prefix s) \<Longrightarrow> snd l = Some v \<Longrightarrow> as_text (field ''sessionId'' v) \<noteq> None \<Longrightarrow> reads_back parse (with_session sid v)"
  shows "map snd (file_lines parse (fork_file sid s)) = map (map_option (with_session sid) \<circ> snd) (sp_prefix s)
    \<and> prompts_in (file_lines parse (fork_file sid s)) = k"
proof -
  note split = rewind_split [OF assms(1)]
  have read: "fork_line sid l \<noteq> [] \<and> NL \<notin> set (fork_line sid l) \<and> snd (parsed_line parse (fork_line sid l)) = map_option (with_session sid) (snd l)"
    if "l \<in> set (sp_prefix s)" for l
  proof -
    have l: "fst l \<noteq> []" "NL \<notin> set (fst l)" "parsed_line parse (fst l) = l" using that split(1) file_line_ok by (metis UnI1 set_append)+
    show ?thesis
    proof (cases "snd l")
      case None
      with l show ?thesis by (simp add: fork_line_def)
    next
      case (Some v)
      have obj: "is_object v" using l(3) Some by (cases l) (auto simp: parsed_line_def split: option.splits if_splits)
      show ?thesis
      proof (cases "as_text (field ''sessionId'' v)")
        case None
        with Some l show ?thesis by (simp add: fork_line_def with_session_def)
      next
        case (Some t)
        with json [OF that \<open>snd l = Some v\<close>] obj wire_json_object [of "with_session sid v"] \<open>snd l = Some v\<close> show ?thesis
          by (simp add: fork_line_def reads_back_def parsed_line_def)
      qed
    qed
  qed
  have lines: "file_lines parse (fork_file sid s) = map (parsed_line parse \<circ> fork_line sid) (sp_prefix s)"
    unfolding fork_file_def using read by (subst joinLines_read) auto
  have snds: "map snd (file_lines parse (fork_file sid s)) = map (map_option (with_session sid) \<circ> snd) (sp_prefix s)"
    using read by (simp add: lines)
  have "prompt_line (map_option (with_session sid) x) = prompt_line x" for x
    by (cases x) (simp_all add: prompt_line_def with_session_prompt)
  then have "map (prompt_line \<circ> snd) (file_lines parse (fork_file sid s)) = map (prompt_line \<circ> snd) (sp_prefix s)"
    using arg_cong [OF snds, of "map prompt_line"] by (simp add: o_def)
  from count_by_prompts [OF this] snds split(2) show ?thesis by (simp add: prompts_in_def)
qed


subsection \<open>The prefilled text\<close>

lemma echo_of_blocks:
  "echo_text (consolidateUserContent earlier bs) = Some t \<Longrightarrow> t = text_join [NL] (concat (map (fst \<circ> words_of) bs))"
proof -
  obtain author where c: "consolidate_loop earlier bs ([], [], [], None) =
      (answers_in earlier bs, concat (map (fst \<circ> words_of) bs), concat (map (fst \<circ> snd \<circ> words_of) bs), author)"
    using consolidate_sums [of earlier bs "[]" "[]" "[]" None] by auto
  show "echo_text (consolidateUserContent earlier bs) = Some t \<Longrightarrow> ?thesis"
    using echo_answers [of earlier bs "[]"] by (auto simp: consolidateUserContent_def c split: if_splits)
qed

definition carries_note :: "wire list \<Rightarrow> bool" where
  "carries_note bs \<longleftrightarrow> some_block isMidTurnNoteContent bs"

lemma part_is_words:
  "\<not> carries_note bs \<Longrightarrow> b \<in> set bs \<Longrightarrow> prompt_part b = fst (words_of b)"
  by (auto simp: carries_note_def some_block_def list_ex_iff prompt_part_def words_of_def block_words_def Let_def
      split: option.splits prod.splits)

text \<open>The text put back in the composer is the bubble's, unless a mid-turn note rides with the prompt.\<close>

lemma prefill_is_the_bubble:
  assumes "replayed_echo earlier v = Some t"
    and "\<And>bs. prompt_blocks v = Some bs \<Longrightarrow> \<not> carries_note bs"
  shows "extractUserPromptText v = t"
proof -
  let ?c = "if says (field ''type'' v) ''user'' then content_of v else queued_prompt v"
  have queue: "is_queued_command v \<Longrightarrow> \<not> says (field ''type'' v) ''user''"
    by (auto simp: is_queued_command_def dest: says_unique)
  have e: "extractUserPromptText v = (case ?c of Some (WText t) \<Rightarrow> t
      | Some (WArr bs) \<Rightarrow> text_join [NL] (concat (map prompt_part bs)) | _ \<Rightarrow> [])"
    using assms(1) queue by (auto simp: extractUserPromptText_def replayed_echo_def split: if_splits)
  have "?c = Some (WText t) \<or> (\<exists>bs. ?c = Some (WArr bs) \<and> echo_text (consolidateUserContent earlier bs) = Some t)"
    using assms(1) by (auto simp: replayed_echo_def Let_def split: if_splits option.splits wire.splits)
  then show ?thesis
  proof
    assume "?c = Some (WText t)"
    with e show ?thesis by simp
  next
    assume "\<exists>bs. ?c = Some (WArr bs) \<and> echo_text (consolidateUserContent earlier bs) = Some t"
    then obtain bs where bs: "?c = Some (WArr bs)" "echo_text (consolidateUserContent earlier bs) = Some t" by blast
    then have "prompt_blocks v = Some bs" by (simp add: prompt_blocks_def as_list_eq)
    then have "map prompt_part bs = map (fst \<circ> words_of) bs" using part_is_words assms(2) by auto
    with e bs echo_of_blocks [OF bs(2)] show ?thesis by simp
  qed
qed

end
