(* ===== verification/PruneDemo.thy ===== *)
theory PruneDemo
  imports PruneStubs SplitFacts "HOL-Library.Code_Target_Nat"
begin

text \<open>Small sessions: witnesses of the claims on pruning, and a prune that adds a prompt.\<close>

definition member :: "string \<Rightarrow> wire \<Rightarrow> utf16 \<times> wire" where
  "member k v = (units k, v)"

definition lit :: "string \<Rightarrow> wire" where
  "lit t = WText (units t)"

definition demo_line :: "string \<Rightarrow> string \<Rightarrow> wire list \<Rightarrow> wire" where
  "demo_line type uuid blocks = WObj [member ''type'' (lit type), member ''uuid'' (lit uuid), member ''sessionId'' (lit ''s1''),
     member ''message'' (WObj [member ''content'' (WArr blocks)])]"

definition said :: wire where
  "said = demo_line ''user'' ''u1'' [WObj [member ''type'' (lit ''text''), member ''text'' (lit ''go'')]]"

definition called :: wire where
  "called = demo_line ''assistant'' ''u2'' [WObj [member ''type'' (lit ''tool_use''), member ''id'' (lit ''t1''), member ''name'' (lit ''Bash''),
     member ''input'' (WObj [member ''command'' (lit ''ls'')])]]"

definition answered :: wire where
  "answered = demo_line ''user'' ''u3'' [WObj [member ''type'' (lit ''tool_result''), member ''tool_use_id'' (lit ''t1''),
     member ''content'' (WText (replicate 60 120))]]"

text \<open>A line that holds an image and nothing else.\<close>

definition pasted :: wire where
  "pasted = demo_line ''user'' ''u4'' [WObj [member ''type'' (lit ''image''), member ''source'' (WObj [member ''type'' (lit ''url'')])]]"

definition reader :: "wire list \<Rightarrow> utf16 \<Rightarrow> wire option" where
  "reader vs t = List.find (\<lambda>v. wire_json v = t) vs"

definition no_bytes :: "utf16 \<Rightarrow> bytes" where
  "no_bytes t = []"

definition whole_cut :: prune_request where
  "whole_cut = \<lparr>pq_cut = 1, pq_thinking = True, pq_mode = Truncate_mode, pq_sid = units ''s2''\<rparr>"

definition records_of_values :: "wire list \<Rightarrow> prune_record list" where
  "records_of_values vs = records_from 0 (map (\<lambda>v. (wire_json v, Some v)) vs)"

definition copy_of :: "wire list \<Rightarrow> wire list" where
  "copy_of vs = List.map_filter (pruned_obj no_bytes whole_cut vs) (records_of_values vs)"

text \<open>A parser that knows the lines of a session and of its copy.\<close>

definition demo_parse :: "wire list \<Rightarrow> utf16 \<Rightarrow> wire option" where
  "demo_parse vs = reader (vs @ copy_of vs)"

definition demo_file :: "wire list \<Rightarrow> utf16" where
  "demo_file vs = joined_lines (map wire_json vs)"

definition plain_session :: "wire list" where
  "plain_session = [said, called, answered]"

definition pasted_session :: "wire list" where
  "pasted_session = [said, called, answered, pasted]"

lemma plain_records: "readRecords (file_lines (demo_parse plain_session) (demo_file plain_session)) = (records_of_values plain_session, 1)"
  by code_simp

lemma prune_keeps_every_line_and_block_witness:
  "let r = records_of_values plain_session ! 2; w = the (pruned_obj no_bytes whole_cut plain_session r) in
     field ''uuid'' w = Some (lit ''u3'') \<and> as_text (dot (Some (hd (blocks_of w))) ''content'') = Some (units ''[pruned: 60 B]'')"
proof -
  let ?r = "records_of_values plain_session ! 2"
  let ?w = "the (pruned_obj no_bytes whole_cut plain_session ?r)"
  have "pc_obj ?r = Some answered" "pruned_obj no_bytes whole_cut plain_session ?r = Some ?w"
    by code_simp+
  from prune_keeps_every_line_and_block [OF this] have "field ''uuid'' ?w = field ''uuid'' answered" by simp
  moreover have "field ''uuid'' answered = Some (lit ''u3'')"
    "as_text (dot (Some (hd (blocks_of ?w))) ''content'') = Some (units ''[pruned: 60 B]'')" by code_simp+
  ultimately show ?thesis by (simp add: Let_def)
qed

lemma prune_keeps_the_prompt_numbering_witness:
  "snd (readRecords (file_lines (demo_parse plain_session) (pruned_file no_bytes whole_cut (records_of_values plain_session)))) = 1"
proof -
  have "\<forall>v \<in> set (record_objs (records_of_values plain_session)). ordinary_images no_bytes v" by code_simp
  moreover have "\<forall>r \<in> set (records_of_values plain_session). \<forall>w.
      pruned_obj no_bytes whole_cut (record_objs (records_of_values plain_session)) r = Some w \<longrightarrow> reads_back (demo_parse plain_session) w"
  proof -
    have "list_all (\<lambda>r. case pruned_obj no_bytes whole_cut (record_objs (records_of_values plain_session)) r of
        Some w \<Rightarrow> reads_back (demo_parse plain_session) w | None \<Rightarrow> True) (records_of_values plain_session)" by code_simp
    then show ?thesis by (fastforce simp: list_all_iff)
  qed
  ultimately show ?thesis using prune_keeps_the_prompt_numbering [OF plain_records, of no_bytes whole_cut] by (auto split: prod.splits)
qed

lemma preview_is_what_the_prune_saves_witness:
  "raw_saved no_bytes whole_cut (records_of_values plain_session) Outputs_cut = 18 \<and>
   sum_list (map ts_outputs (take 1 (pa_turns (analyzeSessionForPrune no_bytes (file_lines (demo_parse plain_session) (demo_file plain_session)))))) = 18"
proof -
  have "raw_saved no_bytes whole_cut (records_of_values plain_session) Outputs_cut = 18" by code_simp
  with preview_is_what_the_prune_saves [OF plain_records, of whole_cut no_bytes] show ?thesis by (simp add: whole_cut_def Let_def)
qed

text \<open>
  Pruning a line that holds an image and nothing else adds a prompt: the image's stub is a text block, so
  the copy read back has a turn more than its original, and every later prompt has another index.
\<close>

theorem pruned_image_becomes_a_prompt:
  "let parse = demo_parse pasted_session in
   (case readRecords (file_lines parse (demo_file pasted_session)) of (rs, n) \<Rightarrow>
      n = 1 \<and> snd (readRecords (file_lines parse (pruned_file no_bytes whole_cut rs))) = 2)"
  by code_simp


subsection \<open>A rewind\<close>

definition said_more :: wire where
  "said_more = demo_line ''user'' ''u5'' [WObj [member ''type'' (lit ''text''), member ''text'' (lit ''more'')]]"

definition two_prompts :: "wire list" where
  "two_prompts = [said, called, answered, said_more]"

lemma rewind_keeps_the_earlier_prompts_witness:
  "\<exists>s. splitAtUserMessage [] (reader two_prompts) (demo_file two_prompts) 1 (units ''more'') = Inr s \<and> prompts_in (sp_prefix s) = 1 \<and>
     length (sp_prefix s) = 3"
proof -
  let ?r = "splitAtUserMessage [] (reader two_prompts) (demo_file two_prompts) 1 (units ''more'')"
  have "?r = Inr (projr ?r)" "length (sp_prefix (projr ?r)) = 3" by code_simp+
  with rewind_keeps_the_earlier_prompts [OF this(1)] show ?thesis by blast
qed

text \<open>The text prefilled after a rewind to a prompt sent in mid-turn: the note to the model comes with it.\<close>

definition noted_prompt :: wire where
  "noted_prompt = WObj [(units ''type'', WText (units ''attachment'')), (units ''attachment'', WObj [(units ''type'', WText (units ''queued_command'')),
     (units ''prompt'', WArr [text_block (units ''<system-reminder>mid-turn</system-reminder>''), text_block (units ''go'')])])]"

lemma prefill_repeats_the_note:
  "replayed_echo [] noted_prompt = Some (units ''go'')
   \<and> extractUserPromptText noted_prompt = units ''<system-reminder>mid-turn</system-reminder>'' @ NL # units ''go''"
  by code_simp

end
