(* ===== verification/Spec2Isabelle.thy ===== *)
theory Spec2Isabelle
  imports GateFacts ValidatorFacts WakeFacts Ownership SessionDemo ShellProperties DiffProperties ProtocolFacts RootLockSafety LineageFacts StoreLockSafety TurnSafety RefFacts OverageSafety PruneDemo
begin

text \<open>
  CodeConductor supervises coding agents.  A server process drives agent subprocesses
  (\<open>src/instances.ts\<close>), offers them tools over MCP (\<open>src/mcp/\<close>) and records their sessions under a
  projects root.  One agent, a conductor, may spawn workers, and a playbook constrains which worker
  it may spawn, prompt and forward at which stage.  This library models the parts in which the
  program decides something, keeps state, or defines a text format, and proves them correct; the glue
  around them (transport, subprocesses, git, the browser client) is left out.

  \<^bold>\<open>How the parts meet.\<close>  A tool call of a conductor passes the enforcement gate, which asks the
  policy decision about the projection folded from the ledger, and appends to the ledger once the
  call has run.  A worker's turn end passes the idle-wake hub, which decides whether its owner is woken
  or the wake is held because something the worker waits for still runs, and composes the wake text.
  Sessions keep a permanent public id in the session store while their transcripts rotate.  A command
  redirected to another system is framed by sentinels in a shell's output, and the frames of the
  provider protocol carry it.  A long diff is served in pages.  What an agent emits is kept in a ring of
  events, which joins the archived transcript below it and, through the session's rotations, the
  transcripts below that; a client scrolls back through all of them.  A session may be pruned to save
  context, rewound or forked at a prompt, and parked while the account's usage window is exhausted.
  Before any of this a server takes the lock of its projects root.

  \<^bold>\<open>Playbooks\<close> (\<open>src/playbooks.ts\<close>, \<open>src/playbookLedger.ts\<close>, \<open>src/mcp/playbookGate.ts\<close>).
  \<^item> \<open>RunGraph\<close>: the union-find over spawns (\<open>find\<close>, \<open>union\<close>); its locale \<open>partition\<close> is the contract
    of a union-find, interpreted on \<open>uf_root\<close> and \<open>uf_union\<close>.  \<open>find\<close> walks with fuel
    \<open>length parent + 1\<close>, enough on an acyclic parent map (\<open>walk_enough\<close>).
  \<^item> \<open>PlaybookLedger\<close>: \<open>applyEvent\<close>, \<open>foldProjection\<close>, \<open>readEvents\<close>, append and reload; two sessions
    are in one run exactly when the log's spawns connect them.  \<open>EventStore\<close>: a log with a folded
    view as a locale, interpreted on the ledger file and on the gate.
  \<^item> \<open>PlaybookTypes\<close>, \<open>PlaybookPolicy\<close>, \<open>PolicyFacts\<close>: the definition types and \<open>decide\<close> with everything
    it calls; a refusal's text is a datatype of its parts.  Spawns fail closed, moves follow the
    declared edges, the legal moves reported are exactly those that would be accepted.
  \<^item> \<open>PlaybookValidator\<close>, \<open>ValidatorFacts\<close>: \<open>validatePlaybook\<close> with its messages, the error locator and the
    loader; what is accepted is well formed, and what is well formed is accepted unchanged.
  \<^item> \<open>PlaybookGate\<close>, \<open>GateFacts\<close>: \<open>check\<close>, \<open>commitMove\<close>, the append chain and the manager's events as a
    step relation \<open>gate_step\<close> over every interleaving.  An append runs in its pieces: the text reaches
    the file, perhaps in part when the write fails, and the row is folded a step later.  The projection
    is the fold of the rows whose writes succeeded; what the file reads back as then depends on whether a
    failed write left part of a line (\<open>torn_write_hides_the_next_row\<close>).

  \<^bold>\<open>Wakes\<close> (\<open>src/idleSubscriptions.ts\<close>, \<open>shared/wakeCallback.ts\<close>, \<open>src/promptAuthor.ts\<close>,
  \<open>src/backgroundJobs.ts\<close>).
  \<^item> \<open>WakeStub\<close>, \<open>WakeFacts\<close>: the wake stub and its parser, quoting, background jobs; parsing a stub
    gives its parts back whatever the quoted texts hold.
  \<^item> \<open>IdleHub\<close>: every operation of the hub, with timers and microtasks as data, as \<open>hub_step\<close>.
    \<open>HubWaits\<close>: the hold decision \<open>waits\<close> is reachability of due work; its fuel is one more than the
    number of subscribed targets, since each call marks a new target as visited.  \<open>HubFacts\<close>,
    \<open>HubInvariants\<close>, \<open>HubSafety\<close>: frame rules, and the locale \<open>hub_invariant\<close>, which lists what a predicate
    has to survive and is interpreted on two invariants.  \<open>HubProperties\<close>, \<open>HubSever\<close>: the properties.
  \<^item> \<open>Worklist\<close>, \<open>Ownership\<close>: the breadth-first walks over owners, behind the locale \<open>ownership\<close>.

  \<^bold>\<open>Sessions\<close> (\<open>src/sessionStore.ts\<close>, \<open>src/sessionLineage.ts\<close>, \<open>src/sessionCleanup.ts\<close>).
  \<^item> \<open>SessionStore\<close>, \<open>SessionWrites\<close>, \<open>SessionFiles\<close>: the document, its parser and serializer, every
    mutation, and the write path over the file, its backup and the cache, which is keyed by a stat
    signature that two versions may share.  \<open>SessionRoundtrip\<close>: what is written reads back.  \<open>SessionEdits\<close>, \<open>SessionInvariants\<close>: every mutation is a run of edits
    (\<open>gains\<close>, \<open>loses\<close>), and the locale \<open>record_invariant\<close> proves an invariant of all writes from an
    invariant of the edits.  \<open>SessionSafety\<close>, \<open>SessionProperties\<close>, \<open>SessionDemo\<close>: runs in which any system
    call may fail, recovery, rotation and cleanup.

  \<^item> \<open>StoreLock\<close>, \<open>StoreLockSafety\<close> (\<open>src/storeLock.ts\<close>): the pid-based lockfile, one file-system call per
    step of any number of contenders.  Its mutual exclusion, which the session model assumes of
    \<open>withLock\<close>, holds as long as no process dies while a reclaim marker of its stands;
    \<open>orphaned_marker_lets_two_in\<close> is the run in which one does.
  \<^item> \<open>SessionRefs\<close>, \<open>RefFacts\<close> (\<open>src/instances.ts\<close>): how an id an agent types is resolved over the live
    registry and the store, and that the policy gate is shown the session the call reaches.

  \<^bold>\<open>Event history\<close> (\<open>src/instances.ts\<close>, \<open>shared/uiEvent.ts\<close>, \<open>src/eventArchive.ts\<close>,
  \<open>src/lineagePager.ts\<close>, \<open>src/taskReconstruct.ts\<close>).
  \<^item> \<open>UiEvents\<close>, \<open>CutFacts\<close>, \<open>GroupCuts\<close>: the events and where a window may start; the scan's cuts are the
    indices where no block is open, no tool call is pending and no group is split.
  \<^item> \<open>EventRing\<close>, \<open>TaskBatches\<close>: the retained log with its eviction and folding, and the task batches
    rebuilt from it.  The ring is a window on the log of all events (\<open>ring_is_a_window_on_the_log\<close>).
  \<^item> \<open>EventPages\<close>, \<open>PageFacts\<close>: pages over the ring joined to its archive.
  \<^item> \<open>LineagePages\<close>, \<open>LineageFacts\<close>: the walk below the current segment.  Its locale \<open>lineage_walk\<close> assumes of
    each segment what \<open>PageFacts\<close> proves of the ring's pages; it is interpreted as \<open>session_walk\<close>.

  \<^bold>\<open>Turns and the usage window\<close> (\<open>src/instances.ts\<close>, \<open>src/interruptControl.ts\<close>).
  \<^item> \<open>TurnControl\<close>, \<open>TurnFacts\<close>, \<open>TurnSafety\<close>: prompts, steers and stops of one agent.  A step is one task of
    the event loop with the microtasks it leaves, which run in the order they were queued; a microtask
    that awaits once more takes a second tick.
  \<^item> \<open>Overage\<close>: the lockout over all instances, with its deadline, the usage verification, the queue of held
    messages and the resumption, whose prompt may be refused.  \<open>OverageFacts\<close> holds what each operation keeps, \<open>OverageRuns\<close> the
    invariant over runs without a relaunch in place, \<open>OverageSafety\<close> the claims and the runs with one.

  \<^bold>\<open>Transcripts, prune, rewind and fork\<close> (\<open>src/transcript.ts\<close>, \<open>src/sessionPrune.ts\<close>,
  \<open>src/imageCost.ts\<close>, \<open>src/sessionEdit.ts\<close>).  The decoder of a line and of base64 are arguments; a share of
  a whole is kept as an exact quotient, so no rounding of floats enters.
  \<^item> \<open>Transcripts\<close>, \<open>TranscriptFacts\<close>: which lines are prompts, and the user bubbles a line replays to.
  \<^item> \<open>ImageCost\<close>: the header readers and the token cost (\<open>image_cost_within_budget\<close>).
  \<^item> \<open>Prune\<close>, \<open>PruneSession\<close>: what becomes of a block, a line and a session, and the preview.  \<open>PruneFacts\<close>:
    members and blocks keep their identity; \<open>PruneNumbering\<close>: so do the prompts' numbers;
    \<open>PrunePreview\<close>: preview and prune agree; \<open>PruneStubs\<close>: no cut parts a surrogate pair.
  \<^item> \<open>SessionSplit\<close>, \<open>SplitFacts\<close>: the split at a user prompt; a rewind and a fork keep exactly the prompts
    before it.  \<open>PruneDemo\<close>: small sessions, the claims' witnesses among them.

  \<^bold>\<open>Texts and protocols.\<close>
  \<^item> \<open>ShellFraming\<close>, \<open>ShellFacts\<close>, \<open>ShellProperties\<close> (\<open>src/systems/shellFraming.ts\<close>): the streaming filter
    emits, however the stream is cut, what the parser extracts from the whole of it.
  \<^item> \<open>DiffPaging\<close>, \<open>DiffFacts\<close>, \<open>DiffIndex\<close>, \<open>DiffProperties\<close> (\<open>src/mcp/diffPaging.ts\<close>): the line index and the
    pager; a client that drains a diff gets every line once, each page within its budget.
  \<^item> \<open>Protocol\<close>, \<open>ProtocolFacts\<close> (\<open>src/systems/protocol.ts\<close>): the error taxonomy, the remote list and the
    codec of newline-delimited JSON, which ignores where chunks are cut as long as the stream is good.

  \<^bold>\<open>The root lock\<close> (\<open>src/rootLock.ts\<close>).
  \<^item> \<open>RootLock\<close>, \<open>RootLockSafety\<close>: acquisition, handover and release of any number of servers, one
    file-system call per step; two hold the root at once only by a handover, if releases are orderly,
    and a run that shows why they must be.

  \<^bold>\<open>Conventions\<close> are in \<open>Prelude\<close>: association lists in insertion order for JavaScript's maps, \<open>json\<close>
  for decoded values, strings of code units, \<open>js_index\<close> for a property read by a name from outside.
  Where texts may hold any character they are lists of UTF-16 code units.  The clock, random ids,
  \<open>JSON.parse\<close> of a file's text, base64, and the collation order of \<open>localeCompare\<close> are parameters.
  Asynchronous code is a step relation whose steps are the stretches between two awaits.

  \<^bold>\<open>Not modelled.\<close>  The instance manager's subprocess handling and the parser of the agent's stream with
  the assistant side of the replay, whose input shapes are set by another program; the MCP tool handlers
  beyond the gate, the references and the wakes; projects and worktrees, which orchestrate git; routes,
  sockets and the browser client; settings; plugins, apart from the playbooks they contribute; session
  renewal and the headless runner; the restart drain; the systems layer's sockets, terminals and FUSE
  driver.
\<close>

end
